(* ===== verification/Prelude.thy ===== *)
theory Prelude
  imports "HOL-Library.Word" "HOL-Library.Monad_Syntax"
begin

text \<open>
  The prelude of the NewIP development: the machine integers of the C code as words of
  their width, the kernel error numbers, reads of byte buffers whose failure is explicit
  (an access outside the object is \<^verbatim>\<open>None\<close>, undefined behaviour of the C code), the
  network byte order, and the collections the component proofs share.
\<close>

section \<open>Machine integers\<close>

type_synonym u8 = "8 word"
type_synonym u16 = "16 word"
type_synonym u32 = "32 word"
type_synonym s32 = "32 word"
type_synonym bytes = "u8 list"

section \<open>Error numbers (uapi/asm-generic/errno-base.h, errno.h)\<close>

abbreviation (input) EPERM :: int where "EPERM \<equiv> 1"
abbreviation (input) ENOENT :: int where "ENOENT \<equiv> 2"
abbreviation (input) ESRCH :: int where "ESRCH \<equiv> 3"
abbreviation (input) EIO :: int where "EIO \<equiv> 5"
abbreviation (input) ENXIO :: int where "ENXIO \<equiv> 6"
abbreviation (input) EAGAIN :: int where "EAGAIN \<equiv> 11"
abbreviation (input) ENOMEM :: int where "ENOMEM \<equiv> 12"
abbreviation (input) EACCES :: int where "EACCES \<equiv> 13"
abbreviation (input) EFAULT :: int where "EFAULT \<equiv> 14"
abbreviation (input) EBUSY :: int where "EBUSY \<equiv> 16"
abbreviation (input) EEXIST :: int where "EEXIST \<equiv> 17"
abbreviation (input) ENODEV :: int where "ENODEV \<equiv> 19"
abbreviation (input) EINVAL :: int where "EINVAL \<equiv> 22"
abbreviation (input) EFBIG :: int where "EFBIG \<equiv> 27"
abbreviation (input) ENOPROTOOPT :: int where "ENOPROTOOPT \<equiv> 92"
abbreviation (input) EPROTONOSUPPORT :: int where "EPROTONOSUPPORT \<equiv> 93"
abbreviation (input) ESOCKTNOSUPPORT :: int where "ESOCKTNOSUPPORT \<equiv> 94"
abbreviation (input) EOPNOTSUPP :: int where "EOPNOTSUPP \<equiv> 95"
abbreviation (input) EAFNOSUPPORT :: int where "EAFNOSUPPORT \<equiv> 97"
abbreviation (input) EADDRINUSE :: int where "EADDRINUSE \<equiv> 98"
abbreviation (input) EADDRNOTAVAIL :: int where "EADDRNOTAVAIL \<equiv> 99"
abbreviation (input) ENETUNREACH :: int where "ENETUNREACH \<equiv> 101"
abbreviation (input) ENOBUFS :: int where "ENOBUFS \<equiv> 105"
abbreviation (input) EISCONN :: int where "EISCONN \<equiv> 106"
abbreviation (input) ENOTCONN :: int where "ENOTCONN \<equiv> 107"
abbreviation (input) ETIMEDOUT :: int where "ETIMEDOUT \<equiv> 110"
abbreviation (input) EHOSTUNREACH :: int where "EHOSTUNREACH \<equiv> 113"
abbreviation (input) EALREADY :: int where "EALREADY \<equiv> 114"
abbreviation (input) EINPROGRESS :: int where "EINPROGRESS \<equiv> 115"
abbreviation (input) EDESTADDRREQ :: int where "EDESTADDRREQ \<equiv> 89"

section \<open>Collections\<close>

named_theorems addr_defs \<open>definitions of the address classes and checks\<close>
named_theorems hdr_defs \<open>definitions of the header encoder and parser\<close>
named_theorems tcp_defs \<open>definitions of the TCP transitions\<close>
named_theorems bt_defs \<open>definitions of the driver operations\<close>

section \<open>Byte buffers\<close>

text \<open>A read of one byte: \<^verbatim>\<open>None\<close> is an access outside the buffer.\<close>

definition rd8 :: "bytes \<Rightarrow> nat \<Rightarrow> u8 option" where
  "rd8 buf i = (if i < length buf then Some (buf ! i) else None)"

text \<open>The big-endian 16-bit value at an offset (ntohs of a 16-bit load).\<close>

definition be16 :: "u8 \<Rightarrow> u8 \<Rightarrow> u16" where
  "be16 hi lo = push_bit 8 (ucast hi) + ucast lo"

definition rd16 :: "bytes \<Rightarrow> nat \<Rightarrow> u16 option" where
  "rd16 buf i = (if i + 1 < length buf then Some (be16 (buf ! i) (buf ! (i + 1))) else None)"

text \<open>The high and the low byte of a 16-bit value; htons and ntohs swap them (little-endian host).\<close>

definition hi8 :: "u16 \<Rightarrow> u8" where "hi8 w = ucast (drop_bit 8 w)"
definition lo8 :: "u16 \<Rightarrow> u8" where "lo8 w = ucast w"

lemma unat_u8_less: "unat (x :: u8) < 256"
  using unsigned_less [of x, where ?'a = nat] by simp

lemma unat_u16_less: "unat (x :: u16) < 65536"
  using unsigned_less [of x, where ?'a = nat] by simp

lemma unat_u32_less: "unat (x :: u32) < 4294967296"
  using unsigned_less [of x, where ?'a = nat] by simp

lemma rd8_Some [simp]: "i < length buf \<Longrightarrow> rd8 buf i = Some (buf ! i)"
  by (simp add: rd8_def)

lemma rd8_append_left: "i < length xs \<Longrightarrow> rd8 (xs @ ys) i = rd8 xs i"
  by (simp add: rd8_def nth_append)

lemma rd8_eq_Some_iff: "rd8 buf i = Some b \<longleftrightarrow> i < length buf \<and> buf ! i = b"
  by (auto simp: rd8_def)

lemmas unat_word_bits = unsigned_ucast_eq unsigned_push_bit_eq unsigned_drop_bit_eq
  take_bit_eq_mod drop_bit_eq_div push_bit_eq_mult
  unat_div unat_mod

lemma unat_be16: "unat (be16 h l) = 256 * unat h + unat l"
proof -
  have h: "unat h < 256" and l: "unat l < 256" by (rule unat_u8_less)+
  have m: "unat h mod 65536 = unat h" "unat l mod 65536 = unat l"
    "unat h * 256 mod 65536 = unat h * 256" "(unat h * 256 + unat l) mod 65536 = unat h * 256 + unat l"
    using h l by simp_all
  show ?thesis
    unfolding be16_def using h l
    by (simp add: unat_word_ariths unat_word_bits m)
qed

lemma unat_hi8: "unat (hi8 w) = unat w div 256"
proof -
  have w: "unat w < 65536" by (rule unat_u16_less)
  then have "unat w div 256 < 256" by linarith
  then show ?thesis by (simp add: hi8_def unat_word_bits)
qed

lemma unat_lo8: "unat (lo8 w) = unat w mod 256"
  by (simp add: lo8_def unat_word_bits)

lemma be16_hi8_lo8 [simp]: "be16 (hi8 w) (lo8 w) = w"
  by (rule word_unat_eq_iff [THEN iffD2]) (simp add: unat_be16 unat_hi8 unat_lo8)

lemma hi8_be16 [simp]: "hi8 (be16 h l) = h"
proof (rule word_unat_eq_iff [THEN iffD2])
  have "unat l < 256" by (rule unat_u8_less)
  then show "unat (hi8 (be16 h l)) = unat h" by (simp add: unat_hi8 unat_be16)
qed

lemma lo8_be16 [simp]: "lo8 (be16 h l) = l"
proof (rule word_unat_eq_iff [THEN iffD2])
  have "unat l < 256" by (rule unat_u8_less)
  then show "unat (lo8 (be16 h l)) = unat l" by (simp add: unat_lo8 unat_be16)
qed

definition ntohs :: "u16 \<Rightarrow> u16" where
  "ntohs w = be16 (lo8 w) (hi8 w)"

abbreviation (input) htons :: "u16 \<Rightarrow> u16" where "htons \<equiv> ntohs"

lemma ntohs_ntohs [simp]: "ntohs (ntohs w) = w"
  by (simp add: ntohs_def)

lemma hi8_ntohs [simp]: "hi8 (ntohs w) = lo8 w" and lo8_ntohs [simp]: "lo8 (ntohs w) = hi8 w"
  by (simp_all add: ntohs_def)

text \<open>A 16-bit load from memory on the little-endian host.\<close>

definition ld16 :: "bytes \<Rightarrow> nat \<Rightarrow> u16 option" where
  "ld16 buf i = (if i + 1 < length buf then Some (be16 (buf ! (i + 1)) (buf ! i)) else None)"

text \<open>A 16-bit store: the low byte first.\<close>

definition st16 :: "bytes \<Rightarrow> nat \<Rightarrow> u16 \<Rightarrow> bytes option" where
  "st16 buf i w = (if i + 1 < length buf then Some (buf[i := lo8 w, i + 1 := hi8 w]) else None)"

definition st8 :: "bytes \<Rightarrow> nat \<Rightarrow> u8 \<Rightarrow> bytes option" where
  "st8 buf i b = (if i < length buf then Some (buf[i := b]) else None)"

lemma st8_Some [simp]: "i < length buf \<Longrightarrow> st8 buf i b = Some (buf[i := b])"
  by (simp add: st8_def)

lemma st16_Some [simp]: "i + 1 < length buf \<Longrightarrow> st16 buf i w = Some (buf[i := lo8 w, i + 1 := hi8 w])"
  by (simp add: st16_def)

lemma ld16_Some [simp]: "i + 1 < length buf \<Longrightarrow> ld16 buf i = Some (be16 (buf ! (i + 1)) (buf ! i))"
  by (simp add: ld16_def)

end
