(* ===== verification/NipAddr.thy ===== *)
theory NipAddr
  imports Prelude
begin

text \<open>
  Short (variable length) NewIP addresses: src/src/common/nip_addr.c, nip_addr.h and the
  inline comparison and hash of src/src/linux/include/net/nip.h.

  A \<^verbatim>\<open>struct nip_addr\<close> is a record of its length in bits and its eight bytes (the union
  views field16 and field32 are functions of them). The classification of the first byte, the
  table of check functions and the loop over it are the code's; the read and write pointers of
  the encoder and the decoder are offsets into a byte buffer, and a read beyond the buffer is
  \<^verbatim>\<open>None\<close>.

  The abstract view of an address is the number it stands for: the comments of nip_addr.c give
  each class a range of numbers, and the lemmas at the end show that the checks accept exactly
  one encoding of each number below 2^48.
\<close>

section \<open>The address and its constants\<close>

record nip_addr =
  bitlen :: u8
  field8 :: bytes

definition wf_addr :: "nip_addr \<Rightarrow> bool" where
  "wf_addr a \<longleftrightarrow> length (field8 a) = 8"

definition nip_any_addr :: nip_addr where
  "nip_any_addr = \<lparr>bitlen = 16, field8 = [0xFF, 0x09, 0, 0, 0, 0, 0, 0]\<rparr>"

definition nip_broadcast_addr_arp :: nip_addr where
  "nip_broadcast_addr_arp = \<lparr>bitlen = 16, field8 = [0xFF, 0x04, 0, 0, 0, 0, 0, 0]\<rparr>"

text \<open>The union view field16: one 16-bit load from memory (the host is little endian).\<close>

definition field16 :: "nip_addr \<Rightarrow> nat \<Rightarrow> u16" where
  "field16 a i = be16 (field8 a ! (2 * i + 1)) (field8 a ! (2 * i))"

datatype addr_check_ret =
    NOT_CURRENT_ADDR
  | CURRENT_ADDR_VALID
  | ADDR_2BYTE_INVALID
  | ADDR_3BYTE_INVALID
  | ADDR_5BYTE_INVALID
  | ADDR_7BYTE_INVALID
  | ADDR_BITLEN_INVALID
  | NIP_ADDR_UNKNOWN

text \<open>The values of the enum, which the functions return as an int.\<close>

fun addr_check_val :: "addr_check_ret \<Rightarrow> int" where
  "addr_check_val NOT_CURRENT_ADDR = -1"
| "addr_check_val CURRENT_ADDR_VALID = 0"
| "addr_check_val ADDR_2BYTE_INVALID = 1"
| "addr_check_val ADDR_3BYTE_INVALID = 2"
| "addr_check_val ADDR_5BYTE_INVALID = 3"
| "addr_check_val ADDR_7BYTE_INVALID = 4"
| "addr_check_val ADDR_BITLEN_INVALID = 5"
| "addr_check_val NIP_ADDR_UNKNOWN = 6"

section \<open>The classes of the first byte\<close>

definition is_1byte_addr_flag :: "u8 \<Rightarrow> bool" where
  [addr_defs]: "is_1byte_addr_flag b \<longleftrightarrow> b \<le> 0xDC"

definition is_2byte_addr_flag :: "u8 \<Rightarrow> bool" where
  [addr_defs]: "is_2byte_addr_flag b \<longleftrightarrow> b > 0xDC \<and> b \<le> 0xF0"

definition is_3byte_addr_flag :: "u8 \<Rightarrow> bool" where
  [addr_defs]: "is_3byte_addr_flag b \<longleftrightarrow> b = 0xF1"

definition is_5byte_addr_flag :: "u8 \<Rightarrow> bool" where
  [addr_defs]: "is_5byte_addr_flag b \<longleftrightarrow> b = 0xF2"

definition is_7byte_addr_flag :: "u8 \<Rightarrow> bool" where
  [addr_defs]: "is_7byte_addr_flag b \<longleftrightarrow> b = 0xF3"

definition is_8byte_addr_flag :: "u8 \<Rightarrow> bool" where
  [addr_defs]: "is_8byte_addr_flag b \<longleftrightarrow> b = 0xFE"

definition is_public_addr_flag :: "u8 \<Rightarrow> bool" where
  [addr_defs]: "is_public_addr_flag b \<longleftrightarrow> b = 0xFF"

section \<open>The check functions and their table\<close>

type_synonym addr_check = "u8 \<Rightarrow> u8 \<Rightarrow> u8 \<Rightarrow> nat \<Rightarrow> addr_check_ret"

definition nip_addr_1byte_check :: addr_check where
  [addr_defs]: "nip_addr_1byte_check b0 b1 b2 len =
    (if is_1byte_addr_flag b0 \<and> len = 1 then CURRENT_ADDR_VALID else NOT_CURRENT_ADDR)"

definition nip_addr_2byte_check :: addr_check where
  [addr_defs]: "nip_addr_2byte_check b0 b1 b2 len =
    (if is_2byte_addr_flag b0 \<and> len = 2
     then if b0 > 0xDC + 1 \<or> b1 \<ge> 0xDD then CURRENT_ADDR_VALID else ADDR_2BYTE_INVALID
     else NOT_CURRENT_ADDR)"

definition nip_addr_3byte_check :: addr_check where
  [addr_defs]: "nip_addr_3byte_check b0 b1 b2 len =
    (if is_3byte_addr_flag b0 \<and> len = 3
     then if b1 \<ge> 0x14 then CURRENT_ADDR_VALID else ADDR_3BYTE_INVALID
     else NOT_CURRENT_ADDR)"

definition nip_addr_5byte_check :: addr_check where
  [addr_defs]: "nip_addr_5byte_check b0 b1 b2 len =
    (if is_5byte_addr_flag b0 \<and> len = 5
     then if b1 > 0 \<or> b2 \<ge> 1 then CURRENT_ADDR_VALID else ADDR_5BYTE_INVALID
     else NOT_CURRENT_ADDR)"

definition nip_addr_7byte_check :: addr_check where
  [addr_defs]: "nip_addr_7byte_check b0 b1 b2 len =
    (if is_7byte_addr_flag b0 \<and> len = 7
     then if b1 > 0 \<or> b2 \<ge> 1 then CURRENT_ADDR_VALID else ADDR_7BYTE_INVALID
     else NOT_CURRENT_ADDR)"

definition nip_addr_8byte_check :: addr_check where
  [addr_defs]: "nip_addr_8byte_check b0 b1 b2 len =
    (if is_8byte_addr_flag b0 \<and> len = 8 then CURRENT_ADDR_VALID else NOT_CURRENT_ADDR)"

definition nip_addr_public_check :: addr_check where
  [addr_defs]: "nip_addr_public_check b0 b1 b2 len =
    (if is_public_addr_flag b0 \<and> len = 2 then CURRENT_ADDR_VALID else NOT_CURRENT_ADDR)"

definition nip_addr_unknown :: addr_check where
  [addr_defs]: "nip_addr_unknown b0 b1 b2 len = NIP_ADDR_UNKNOWN"

definition nip_addr_check_fun :: "addr_check list" where
  [addr_defs]: "nip_addr_check_fun =
    [nip_addr_1byte_check, nip_addr_2byte_check, nip_addr_3byte_check, nip_addr_5byte_check,
     nip_addr_7byte_check, nip_addr_8byte_check, nip_addr_public_check, nip_addr_unknown]"

text \<open>The second loop of nip_addr_invalid: the first check that does not answer
  NOT_CURRENT_ADDR decides, and ret keeps the last answer.\<close>

fun nip_addr_check_loop ::
  "addr_check list \<Rightarrow> addr_check_ret \<Rightarrow> u8 \<Rightarrow> u8 \<Rightarrow> u8 \<Rightarrow> nat \<Rightarrow> addr_check_ret" where
  "nip_addr_check_loop [] ret b0 b1 b2 len = ret"
| "nip_addr_check_loop (f # fs) ret b0 b1 b2 len =
    (let ret = f b0 b1 b2 len in
     if ret = CURRENT_ADDR_VALID then ret
     else if ret = NOT_CURRENT_ADDR then nip_addr_check_loop fs ret b0 b1 b2 len
     else ret)"

text \<open>The first loop: bytes addr_len .. 7 must be zero (no byte when addr_len is 8 or more).\<close>

definition nip_addr_tail_zero :: "nip_addr \<Rightarrow> nat \<Rightarrow> bool" where
  "nip_addr_tail_zero a len \<longleftrightarrow> list_all (\<lambda>i. field8 a ! i = 0) [len ..< 8]"

definition nip_addr_invalid :: "nip_addr \<Rightarrow> addr_check_ret" where
  "nip_addr_invalid a =
    (let b0 = field8 a ! 0; b1 = field8 a ! 1; b2 = field8 a ! 2;
         addr_len = unat (bitlen a) div 8
     in if \<not> nip_addr_tail_zero a addr_len then ADDR_BITLEN_INVALID
        else nip_addr_check_loop nip_addr_check_fun NIP_ADDR_UNKNOWN b0 b1 b2 addr_len)"

definition nip_addr_public :: "nip_addr \<Rightarrow> bool" where
  "nip_addr_public a \<longleftrightarrow> is_public_addr_flag (field8 a ! 0) \<and> bitlen a = 16"

definition nip_addr_any :: "nip_addr \<Rightarrow> bool" where
  "nip_addr_any a \<longleftrightarrow> bitlen a = 16 \<and>
     field16 a 0 = field16 nip_any_addr 0 \<and> field16 a 1 = field16 nip_any_addr 1"

definition get_nip_addr_len :: "nip_addr \<Rightarrow> nat" where
  "get_nip_addr_len a =
    (let b = field8 a ! 0 in
     if is_1byte_addr_flag b then 1
     else if is_2byte_addr_flag b \<or> is_public_addr_flag b then 2
     else if is_3byte_addr_flag b then 3
     else if is_5byte_addr_flag b then 5
     else if is_7byte_addr_flag b then 7
     else if is_8byte_addr_flag b then 8
     else 0)"

section \<open>Writing an address to a buffer and reading it back\<close>

text \<open>
  build_nip_addr stores the bytes of the address at \<^verbatim>\<open>buf\<close> and returns the pointer behind
  them, or NULL. The model returns the bytes stored; their number is the advance of the
  pointer and \<^verbatim>\<open>None\<close> is NULL (nothing is stored then).
\<close>

fun build_loop :: "bytes \<Rightarrow> nat \<Rightarrow> nat \<Rightarrow> bytes" where
  "build_loop src i 0 = []"
| "build_loop src i (Suc n) = src ! i # build_loop src (Suc i) n"

definition build_nip_addr :: "nip_addr \<Rightarrow> bytes option" where
  "build_nip_addr a =
    (let addr_len = get_nip_addr_len a in
     if addr_len = 0 then None else Some (build_loop (field8 a) 0 addr_len))"

text \<open>
  decode_nip_addr reads at the offset p of buf into an address the caller provides, and keeps
  the bytes of that address it does not overwrite. The outer option is the read past the
  buffer; the inner one is the NULL of the code.
\<close>

fun decode_loop :: "bytes \<Rightarrow> nat \<Rightarrow> nat \<Rightarrow> nat \<Rightarrow> bytes \<Rightarrow> (bytes \<times> nat) option" where
  "decode_loop buf p i 0 f = Some (f, p)"
| "decode_loop buf p i (Suc n) f =
    (case rd8 buf p of None \<Rightarrow> None
     | Some b \<Rightarrow> decode_loop buf (p + 1) (i + 1) n (f[i := b]))"

definition decode_nip_addr ::
  "bytes \<Rightarrow> nat \<Rightarrow> nip_addr \<Rightarrow> (nip_addr \<times> nat option) option" where
  "decode_nip_addr buf p a =
    (case rd8 buf p of None \<Rightarrow> None | Some b \<Rightarrow>
      let a = a\<lparr>field8 := (field8 a)[0 := b]\<rparr>; addr_len = get_nip_addr_len a in
      if addr_len = 0 then Some (a, None)
      else case decode_loop buf p 0 addr_len (field8 a) of None \<Rightarrow> None
        | Some (f, p') \<Rightarrow>
          let a = a\<lparr>field8 := f, bitlen := of_nat (addr_len * 8)\<rparr> in
          if nip_addr_invalid a \<noteq> CURRENT_ADDR_VALID then Some (a, None)
          else Some (a, Some p'))"

section \<open>Comparison and hash (net/nip.h)\<close>

text \<open>memcmp over the first bitlen / 8 bytes of the two addresses.\<close>

definition nip_addr_eq :: "nip_addr \<Rightarrow> nip_addr \<Rightarrow> bool" where
  "nip_addr_eq a1 a2 \<longleftrightarrow> bitlen a1 = bitlen a2 \<and> bitlen a1 \<le> 64 \<and>
     take (unat (bitlen a1) div 8) (field8 a1) = take (unat (bitlen a1) div 8) (field8 a2)"

definition nip_addr_and_ifindex_eq :: "nip_addr \<Rightarrow> nip_addr \<Rightarrow> int \<Rightarrow> int \<Rightarrow> bool" where
  "nip_addr_and_ifindex_eq a1 a2 i1 i2 \<longleftrightarrow> bitlen a1 = bitlen a2 \<and> bitlen a1 \<le> 64 \<and>
     take (unat (bitlen a1) div 8) (field8 a1) = take (unat (bitlen a1) div 8) (field8 a2) \<and>
     i1 = i2"

text \<open>One little-endian 32-bit load.\<close>

definition le32 :: "bytes \<Rightarrow> nat \<Rightarrow> u32" where
  "le32 f i = ucast (f ! i) + push_bit 8 (ucast (f ! (i + 1)))
     + push_bit 16 (ucast (f ! (i + 2))) + push_bit 24 (ucast (f ! (i + 3)))"

text \<open>
  The hash copies min(len, 16) bytes of the address to a zeroed array of four words. Beyond
  the eight bytes of the address (bitlen over 64) the copy reads foreign memory: \<^verbatim>\<open>None\<close>.
\<close>

definition nip_addr_hash :: "nip_addr \<Rightarrow> u32 option" where
  "nip_addr_hash a =
    (let len = unat (bitlen a) div 8; n = (if len > 16 then 16 else len) in
     if n > length (field8 a) then None
     else let tmp = take n (field8 a) @ replicate (16 - n) 0
          in Some (xor (xor (xor (le32 tmp 0) (le32 tmp 4)) (le32 tmp 8)) (le32 tmp 12)))"

section \<open>Validity in closed form\<close>

text \<open>The ranges that make an encoding the shortest one of its number.\<close>

definition addr_range_ok :: "nip_addr \<Rightarrow> bool" where
  "addr_range_ok a \<longleftrightarrow>
    (let b0 = field8 a ! 0; b1 = field8 a ! 1; b2 = field8 a ! 2 in
     (b0 = 0xDD \<longrightarrow> b1 \<ge> 0xDD) \<and> (b0 = 0xF1 \<longrightarrow> b1 \<ge> 0x14) \<and>
     (b0 = 0xF2 \<or> b0 = 0xF3 \<longrightarrow> b1 \<noteq> 0 \<or> b2 \<noteq> 0))"

lemma u8_between: "(b :: u8) > 0xDC \<and> \<not> b > 0xDD \<longleftrightarrow> b = 0xDD"
  by (auto simp: word_less_nat_alt word_unat_eq_iff)

lemma u8_pos: "(b :: u8) \<ge> 1 \<longleftrightarrow> b \<noteq> 0" "(b :: u8) > 0 \<longleftrightarrow> b \<noteq> 0"
  by (auto simp: word_less_nat_alt word_le_nat_alt word_unat_eq_iff)

lemma get_nip_addr_len_le: "get_nip_addr_len a \<le> 8"
  by (simp add: get_nip_addr_len_def Let_def)

lemma get_nip_addr_len_cong: "field8 a ! 0 = field8 b ! 0 \<Longrightarrow> get_nip_addr_len a = get_nip_addr_len b"
  by (simp add: get_nip_addr_len_def)

lemma addr_class_cases:
  obtains "is_1byte_addr_flag b" | "is_2byte_addr_flag b" | "b = 0xF1" | "b = 0xF2" | "b = 0xF3"
    | "b = 0xFE" | "b = 0xFF" | "\<not> is_1byte_addr_flag b" "\<not> is_2byte_addr_flag b"
        "b \<notin> {0xF1, 0xF2, 0xF3, 0xFE, 0xFF}"
  by fastforce

lemma check_loop_valid_iff:
  "nip_addr_check_loop nip_addr_check_fun NIP_ADDR_UNKNOWN
     (field8 a ! 0) (field8 a ! 1) (field8 a ! 2) n = CURRENT_ADDR_VALID
   \<longleftrightarrow> get_nip_addr_len a \<noteq> 0 \<and> n = get_nip_addr_len a \<and> addr_range_ok a"
proof (cases "field8 a ! 0" rule: addr_class_cases)
  case 2
  then show ?thesis
    by (simp add: addr_defs get_nip_addr_len_def addr_range_ok_def Let_def word_less_nat_alt
        word_le_nat_alt word_unat_eq_iff)
qed (auto simp: addr_defs get_nip_addr_len_def addr_range_ok_def Let_def u8_pos word_le_nat_alt
      word_less_nat_alt word_unat_eq_iff)

lemma nip_addr_valid_iff:
  "nip_addr_invalid a = CURRENT_ADDR_VALID \<longleftrightarrow>
     get_nip_addr_len a \<noteq> 0 \<and> unat (bitlen a) div 8 = get_nip_addr_len a \<and>
     addr_range_ok a \<and> nip_addr_tail_zero a (get_nip_addr_len a)"
  unfolding nip_addr_invalid_def Let_def using check_loop_valid_iff [of a] by auto

section \<open>Abstract view: the number of an address\<close>

text \<open>Big-endian byte strings and their numbers.\<close>

fun be_bytes :: "nat \<Rightarrow> nat \<Rightarrow> bytes" where
  "be_bytes 0 n = []"
| "be_bytes (Suc k) n = be_bytes k (n div 256) @ [of_nat n]"

definition be_num :: "bytes \<Rightarrow> nat" where
  "be_num bs = foldl (\<lambda>acc b. acc * 256 + unat b) 0 bs"

lemma be_num_snoc [simp]: "be_num (bs @ [b]) = be_num bs * 256 + unat b"
  by (simp add: be_num_def)

lemma be_num_Nil [simp]: "be_num [] = 0"
  by (simp add: be_num_def)

lemma length_be_bytes [simp]: "length (be_bytes k n) = k"
  by (induction k arbitrary: n) auto

lemma unat_of_nat_u8 [simp]: "unat (of_nat n :: u8) = n mod 256"
  by (simp add: unat_of_nat)

lemma be_bytes_be_num: "be_bytes (length bs) (be_num bs) = bs"
proof (induction bs rule: rev_induct)
  case (snoc b bs)
  have "unat b < 256" by (rule unat_u8_less)
  then have "(be_num bs * 256 + unat b) div 256 = be_num bs" by simp
  moreover have "(of_nat (be_num bs * 256 + unat b) :: u8) = b"
    by (rule word_unat_eq_iff [THEN iffD2]) (simp add: unat_of_nat_u8 del: of_nat_add of_nat_mult, simp add: unat_u8_less)
  ultimately show ?case using snoc by simp
qed simp

lemma be_num_be_bytes: "n < 256 ^ k \<Longrightarrow> be_num (be_bytes k n) = n"
proof (induction k arbitrary: n)
  case (Suc k)
  then have "n div 256 < 256 ^ k" by (simp add: less_mult_imp_div_less mult.commute)
  with Suc show ?case by simp
qed simp

lemma be_num_less: "be_num bs < 256 ^ length bs"
proof (induction bs rule: rev_induct)
  case (snoc b bs)
  have "unat b < 256" by (rule unat_u8_less)
  then show ?case using snoc by simp
qed simp

text \<open>The shortest encoding of a number below 2^48, and the number an address encodes.\<close>

definition short_bytes :: "nat \<Rightarrow> bytes" where
  "short_bytes n =
    (if n \<le> 220 then [of_nat n]
     else if n \<le> 5119 then [of_nat (0xDD + n div 256), of_nat n]
     else if n \<le> 65535 then 0xF1 # be_bytes 2 n
     else if n \<le> 4294967295 then 0xF2 # be_bytes 4 n
     else 0xF3 # be_bytes 6 n)"

definition short_addr :: "nat \<Rightarrow> nip_addr" where
  "short_addr n = (let bs = short_bytes n in
     \<lparr>bitlen = of_nat (8 * length bs), field8 = bs @ replicate (8 - length bs) 0\<rparr>)"

definition addr_number :: "nip_addr \<Rightarrow> nat" where
  "addr_number a = (let b0 = field8 a ! 0; n = get_nip_addr_len a in
     if n = 1 then unat b0
     else if n = 2 then (unat b0 - 0xDD) * 256 + unat (field8 a ! 1)
     else be_num (take (n - 1) (tl (field8 a))))"

lemma short_bytes_class:
  assumes "n < 2 ^ 48"
  obtains "n \<le> 220" "short_bytes n = [of_nat n]"
  | "220 < n" "n \<le> 5119" "short_bytes n = [of_nat (0xDD + n div 256), of_nat n]"
  | "5119 < n" "n \<le> 65535" "short_bytes n = 0xF1 # be_bytes 2 n"
  | "65535 < n" "n < 256 ^ 4" "short_bytes n = 0xF2 # be_bytes 4 n"
  | "4294967295 < n" "n < 256 ^ 6" "short_bytes n = 0xF3 # be_bytes 6 n"
  using assms by (cases "n \<le> 220"; cases "n \<le> 5119"; cases "n \<le> 65535"; cases "n \<le> 4294967295")
    (auto simp: short_bytes_def)

lemma wf_short_addr: "wf_addr (short_addr n)"
  by (simp add: wf_addr_def short_addr_def Let_def short_bytes_def)

lemma tail_zero_replicate:
  "length bs \<le> 8 \<Longrightarrow> field8 a = bs @ replicate (8 - length bs) 0 \<Longrightarrow> nip_addr_tail_zero a (length bs)"
  by (auto simp: nip_addr_tail_zero_def list_all_iff nth_append)

lemma short_addr_len: "n < 2 ^ 48 \<Longrightarrow> get_nip_addr_len (short_addr n) = length (short_bytes n)"
proof (erule short_bytes_class)
  assume n: "220 < n" "n \<le> 5119" "short_bytes n = [of_nat (0xDD + n div 256), of_nat n]"
  have "n div 256 \<le> 19" using n by linarith
  then have "unat (of_nat (0xDD + n div 256) :: u8) = 221 + n div 256"
    by (simp only: unat_of_nat_u8) simp
  with \<open>n div 256 \<le> 19\<close> show ?thesis
    by (simp add: n(3) short_addr_def get_nip_addr_len_def addr_defs word_le_nat_alt word_less_nat_alt del: of_nat_add)
qed (simp_all add: short_addr_def get_nip_addr_len_def Let_def addr_defs word_le_nat_alt word_less_nat_alt)

lemma be_bytes2: "be_bytes 2 n = [of_nat (n div 256), of_nat n]"
  by (simp add: eval_nat_numeral(3) numeral_2_eq_2)

lemma be_bytes_nth: "i < k \<Longrightarrow> be_bytes k n ! i = of_nat (n div 256 ^ (k - 1 - i))"
proof (induction k arbitrary: n)
  case (Suc k)
  show ?case
  proof (cases "i < k")
    case True
    then obtain d where d: "k - i = Suc d" using less_imp_Suc_add by (metis Suc_diff_Suc)
    then have "k - 1 - i = d" by simp
    with Suc.IH [of "n div 256"] True d show ?thesis by (simp add: nth_append div_mult2_eq)
  next
    case False
    then have "i = k" using Suc.prems by simp
    then show ?thesis by (simp add: nth_append)
  qed
qed simp

lemma two_digits_nonzero:
  assumes "0 < d" "d \<le> n" "n < d * 65536"
  shows "n div (d * 256) mod 256 \<noteq> 0 \<or> n div d mod 256 \<noteq> (0::nat)"
proof -
  let ?m = "n div d"
  have "0 < ?m" using assms by (simp add: div_greater_zero_iff)
  moreover have "?m < 65536" using assms by (simp add: less_mult_imp_div_less mult.commute)
  moreover have "n div (d * 256) = ?m div 256" by (simp add: div_mult2_eq)
  moreover have "m div 256 mod 256 \<noteq> 0 \<or> m mod 256 \<noteq> 0" if "0 < m" "m < 65536" for m :: nat
  proof (cases "m < 256")
    case False
    then have "0 < m div 256" "m div 256 < 256" using that by (auto simp: div_greater_zero_iff)
    then show ?thesis by simp
  qed (use that in simp)
  ultimately show ?thesis by simp
qed

lemma short_addr_range: "n < 2 ^ 48 \<Longrightarrow> addr_range_ok (short_addr n)"
proof (erule short_bytes_class)
  assume n: "220 < n" "n \<le> 5119" "short_bytes n = [of_nat (0xDD + n div 256), of_nat n]"
  have "n div 256 \<le> 19" using n by linarith
  then have "unat (of_nat (0xDD + n div 256) :: u8) = 221 + n div 256"
    by (simp only: unat_of_nat_u8) simp
  with n \<open>n div 256 \<le> 19\<close> show ?thesis
    by (auto simp: n(3) short_addr_def addr_range_ok_def word_le_nat_alt word_unat_eq_iff simp del: of_nat_add)
next
  assume n: "5119 < n" "n \<le> 65535" "short_bytes n = 0xF1 # be_bytes 2 n"
  then have "20 \<le> n div 256 \<and> n div 256 < 256" by linarith
  then show ?thesis by (simp add: n(3) be_bytes2 short_addr_def addr_range_ok_def word_le_nat_alt word_unat_eq_iff)
next
  assume n: "65535 < n" "n < 256 ^ 4" "short_bytes n = 0xF2 # be_bytes 4 n"
  have "n div 256 ^ 3 mod 256 \<noteq> 0 \<or> n div 256 ^ 2 mod 256 \<noteq> 0" using n(1,2) two_digits_nonzero [of "256 ^ 2" n] by simp
  then show ?thesis
    using be_bytes_nth [of 0 4 n] be_bytes_nth [of 1 4 n]
    by (auto simp: n(3) short_addr_def addr_range_ok_def word_unat_eq_iff nth_append)
next
  assume n: "4294967295 < n" "n < 256 ^ 6" "short_bytes n = 0xF3 # be_bytes 6 n"
  have "n div 256 ^ 5 mod 256 \<noteq> 0 \<or> n div 256 ^ 4 mod 256 \<noteq> 0" using n(1,2) two_digits_nonzero [of "256 ^ 4" n] by simp
  then show ?thesis
    using be_bytes_nth [of 0 6 n] be_bytes_nth [of 1 6 n]
    by (auto simp: n(3) short_addr_def addr_range_ok_def word_unat_eq_iff nth_append)
qed (auto simp: short_addr_def addr_range_ok_def word_le_nat_alt word_unat_eq_iff)

lemma short_addr_tail: "nip_addr_tail_zero (short_addr n) (length (short_bytes n))"
  by (rule tail_zero_replicate) (auto simp: short_bytes_def short_addr_def)

lemma short_addr_valid: "n < 2 ^ 48 \<Longrightarrow> nip_addr_invalid (short_addr n) = CURRENT_ADDR_VALID"
proof -
  assume n: "n < 2 ^ 48"
  have l: "0 < length (short_bytes n)" "length (short_bytes n) \<le> 8" by (auto simp: short_bytes_def)
  then have "unat (bitlen (short_addr n)) div 8 = length (short_bytes n)"
    by (simp add: short_addr_def Let_def unat_of_nat_u8 del: of_nat_mult)
  with l n show ?thesis
    by (simp add: nip_addr_valid_iff short_addr_len short_addr_range short_addr_tail)
qed

lemma addr_number_short_addr: "n < 2 ^ 48 \<Longrightarrow> addr_number (short_addr n) = n"
proof (frule short_addr_len, erule short_bytes_class)
  assume n: "220 < n" "n \<le> 5119" "short_bytes n = [of_nat (0xDD + n div 256), of_nat n]"
    and l: "get_nip_addr_len (short_addr n) = length (short_bytes n)"
  have "n div 256 \<le> 19" using n by linarith
  then have "unat (of_nat (0xDD + n div 256) :: u8) = 221 + n div 256"
    by (simp only: unat_of_nat_u8) simp
  then show ?thesis
    unfolding addr_number_def l Let_def using n by (simp add: short_addr_def del: of_nat_add)
qed (simp_all add: addr_number_def short_addr_def be_num_be_bytes)

lemma length8_split:
  assumes "wf_addr a" "nip_addr_tail_zero a k" "k \<le> 8"
  shows "field8 a = take k (field8 a) @ replicate (8 - k) 0"
proof (rule nth_equalityI)
  fix i assume "i < length (field8 a)"
  then show "field8 a ! i = (take k (field8 a) @ replicate (8 - k) 0) ! i"
    using assms by (auto simp: nth_append nip_addr_tail_zero_def list_all_iff wf_addr_def)
qed (use assms in \<open>simp add: wf_addr_def\<close>)

lemma bitlen_exact: "unat (b :: u8) div 8 = k \<Longrightarrow> unat b mod 8 = 0 \<Longrightarrow> b = of_nat (8 * k)"
  by (rule word_unat_eq_iff [THEN iffD2])
    (auto simp: unat_of_nat_u8 unat_u8_less simp del: of_nat_mult)

lemma take_tl_Cons: "0 < k \<Longrightarrow> k \<le> length xs \<Longrightarrow> take k xs = xs ! 0 # take (k - 1) (tl xs)"
  by (cases xs; cases k) auto

lemma be_num_Cons: "be_num (x # xs) = unat x * 256 ^ length xs + be_num xs"
proof (induction xs rule: rev_induct)
  case (snoc y ys)
  have "be_num (x # ys @ [y]) = be_num (x # ys) * 256 + unat y" by (metis append_Cons be_num_snoc)
  with snoc show ?case by (simp add: algebra_simps)
qed (simp add: be_num_def)

lemma be_num_lower: "x \<noteq> 0 \<or> y \<noteq> 0 \<Longrightarrow> 256 ^ length xs \<le> be_num (x # y # xs)"
proof -
  assume "x \<noteq> 0 \<or> y \<noteq> 0"
  then have "1 \<le> unat x * 256 + unat y" by (auto simp: word_unat_eq_iff)
  then have "256 ^ length xs \<le> (unat x * 256 + unat y) * 256 ^ length xs" by simp
  also have "\<dots> \<le> be_num (x # y # xs)" by (simp add: be_num_Cons algebra_simps)
  finally show ?thesis .
qed

lemma length8_cases:
  assumes "length xs = 8"
  obtains x0 x1 x2 x3 x4 x5 x6 x7 where "xs = [x0, x1, x2, x3, x4, x5, x6, x7]"
  using assms by (auto simp: numeral_eq_Suc length_Suc_conv)

lemma addr_number_short_bytes:
  assumes "wf_addr a" "get_nip_addr_len a \<noteq> 0" "addr_range_ok a" "field8 a ! 0 \<le> 0xF3"
  shows "short_bytes (addr_number a) = take (get_nip_addr_len a) (field8 a) \<and> addr_number a < 2 ^ 48"
proof -
  obtain b0 b1 b2 b3 b4 b5 b6 b7 where f: "field8 a = [b0, b1, b2, b3, b4, b5, b6, b7]"
    using assms(1) by (auto simp: wf_addr_def elim: length8_cases)
  have B: "length bs = k \<Longrightarrow> be_bytes k (be_num bs) = bs \<and> be_num bs < 256 ^ k" for bs k
    using be_bytes_be_num be_num_less by blast
  have z: "b0 \<noteq> 0xFE" "b0 \<noteq> 0xFF" using assms(4) f by (auto simp: word_le_nat_alt)
  show ?thesis
  proof (cases b0 rule: addr_class_cases)
    case 1
    then show ?thesis using f
      by (simp add: addr_number_def get_nip_addr_len_def short_bytes_def is_1byte_addr_flag_def word_le_nat_alt)
  next
    case 2
    have u: "unat b1 < 256" by (rule unat_u8_less)
    have b: "221 \<le> unat b0" "unat b0 \<le> 240" using 2 by (simp_all add: is_2byte_addr_flag_def word_le_nat_alt word_less_nat_alt)
    have k: "get_nip_addr_len a = 2" using 2 f
      by (simp add: get_nip_addr_len_def is_1byte_addr_flag_def is_2byte_addr_flag_def word_le_nat_alt word_less_nat_alt)
    have r: "unat b0 = 221 \<Longrightarrow> 221 \<le> unat b1" using assms(3) f
      by (simp add: addr_range_ok_def word_le_nat_alt word_unat_eq_iff)
    let ?n = "(unat b0 - 221) * 256 + unat b1"
    obtain e where e: "unat b0 = 221 + e" "e \<le> 19" 
      by (rule that [of "unat b0 - 221"]) (use b in simp_all)
    then have n: "220 < ?n" "?n \<le> 5119" "?n div 256 = unat b0 - 221" using u r by (cases e; simp)+
    have d: "(of_nat (221 + ?n div 256) :: u8) = b0"
      by (rule word_unat_eq_iff [THEN iffD2]) (use b n(3) in \<open>simp add: unat_of_nat_u8 del: of_nat_add\<close>)
    have e: "(of_nat ?n :: u8) = b1"
      by (rule word_unat_eq_iff [THEN iffD2]) (use u in \<open>simp add: unat_of_nat_u8 del: of_nat_add of_nat_mult\<close>)
    have "addr_number a = ?n" using f k by (simp add: addr_number_def)
    with n d e f k show ?thesis by (simp add: short_bytes_def del: of_nat_add of_nat_mult)
  next
    case 3
    have k: "get_nip_addr_len a = 3" using 3 f by (simp add: get_nip_addr_len_def addr_defs)
    have "20 \<le> unat b1" using assms(3) 3 f by (simp add: addr_range_ok_def word_le_nat_alt)
    then have "5119 < be_num [b1, b2]" by (simp add: be_num_Cons)
    with 3 k f B [of "[b1, b2]" 2] show ?thesis by (simp add: addr_number_def short_bytes_def)
  next
    case 4
    have k: "get_nip_addr_len a = 5" using 4 f by (simp add: get_nip_addr_len_def addr_defs)
    have "65536 \<le> be_num [b1, b2, b3, b4]"
      using be_num_lower [of b1 b2 "[b3, b4]"] assms(3) 4 f by (simp add: addr_range_ok_def)
    with 4 k f B [of "[b1, b2, b3, b4]" 4] show ?thesis by (simp add: addr_number_def short_bytes_def)
  next
    case 5
    have k: "get_nip_addr_len a = 7" using 5 f by (simp add: get_nip_addr_len_def addr_defs)
    have "4294967296 \<le> be_num [b1, b2, b3, b4, b5, b6]"
      using be_num_lower [of b1 b2 "[b3, b4, b5, b6]"] assms(3) 5 f by (simp add: addr_range_ok_def)
    with 5 k f B [of "[b1, b2, b3, b4, b5, b6]" 6] show ?thesis by (simp add: addr_number_def short_bytes_def)
  qed (use assms z f in \<open>auto simp: get_nip_addr_len_def addr_defs\<close>)
qed

lemma short_addr_complete:
  assumes "wf_addr a" "nip_addr_invalid a = CURRENT_ADDR_VALID" "unat (bitlen a) mod 8 = 0"
    "field8 a ! 0 \<le> 0xF3"
  shows "a = short_addr (addr_number a)" "addr_number a < 2 ^ 48"
proof -
  note v = assms(2) [unfolded nip_addr_valid_iff]
  let ?k = "get_nip_addr_len a"
  have s: "short_bytes (addr_number a) = take ?k (field8 a)" and n: "addr_number a < 2 ^ 48"
    using addr_number_short_bytes [of a] assms v by auto
  have l: "length (take ?k (field8 a)) = ?k"
    using assms(1) get_nip_addr_len_le [of a] by (simp add: wf_addr_def)
  have "bitlen a = of_nat (8 * ?k)" using v assms(3) by (intro bitlen_exact) auto
  moreover have "field8 a = take ?k (field8 a) @ replicate (8 - ?k) 0"
    using length8_split assms(1) v get_nip_addr_len_le by blast
  ultimately show "a = short_addr (addr_number a)" by (simp add: short_addr_def s l Let_def del: length_take)
  show "addr_number a < 2 ^ 48" by (rule n)
qed

section \<open>The encoder and the decoder\<close>

lemma build_loop_eq: "i + n \<le> length src \<Longrightarrow> build_loop src i n = take n (drop i src)"
  by (induction n arbitrary: i) (auto simp: take_Suc hd_drop_conv_nth tl_drop drop_Suc)

lemma build_nip_addr_eq:
  "wf_addr a \<Longrightarrow> build_nip_addr a =
     (if get_nip_addr_len a = 0 then None else Some (take (get_nip_addr_len a) (field8 a)))"
  using get_nip_addr_len_le [of a] by (simp add: build_nip_addr_def Let_def build_loop_eq wf_addr_def)

lemma decode_loop_eq:
  "i + n \<le> length f \<Longrightarrow> p + n \<le> length buf \<Longrightarrow>
   decode_loop buf p i n f = Some (take i f @ take n (drop p buf) @ drop (i + n) f, p + n)"
proof (induction n arbitrary: p i f)
  case (Suc n)
  then have "decode_loop buf p i (Suc n) f = Some (take (i + 1) (f[i := buf ! p]) @
      take n (drop (p + 1) buf) @ drop (i + 1 + n) (f[i := buf ! p]), p + 1 + n)"
    by simp
  also have "take (i + 1) (f[i := buf ! p]) = take i f @ [buf ! p]"
    using Suc.prems by (simp add: take_Suc_conv_app_nth)
  also have "take (Suc n) (drop p buf) = buf ! p # take n (drop (p + 1) buf)"
    using Suc.prems by (simp add: take_Suc_conv_app_nth Cons_nth_drop_Suc [symmetric])
  ultimately show ?case by simp
qed simp

lemma decode_loop_None:
  "n > 0 \<Longrightarrow> length buf < p + n \<Longrightarrow> decode_loop buf p i n f = None"
proof (induction n arbitrary: p i f)
  case (Suc n)
  show ?case
  proof (cases "p < length buf")
    case True
    then have "0 < n" using Suc.prems by (cases n) auto
    with Suc.IH [of "p + 1" "i + 1"] Suc.prems True show ?thesis by simp
  qed (simp add: rd8_def)
qed simp

lemma decode_nip_addr_eq:
  assumes "wf_addr a0" "p < length buf"
    and k: "k = get_nip_addr_len \<lparr>bitlen = 0, field8 = [buf ! p]\<rparr>"
  shows "decode_nip_addr buf p a0 =
    (if k = 0 then Some (a0\<lparr>field8 := (field8 a0)[0 := buf ! p]\<rparr>, None)
     else if length buf < p + k then None
     else let a = \<lparr>bitlen = of_nat (k * 8), field8 = take k (drop p buf) @ drop k (field8 a0)\<rparr>
       in Some (a, if nip_addr_invalid a = CURRENT_ADDR_VALID then Some (p + k) else None))"
proof -
  obtain l f where a0: "a0 = \<lparr>bitlen = l, field8 = f\<rparr>" by (cases a0)
  have k': "get_nip_addr_len \<lparr>bitlen = l, field8 = f[0 := buf ! p]\<rparr> = k"
    using assms a0 by (simp add: get_nip_addr_len_def wf_addr_def)
  have "k \<le> 8" using k get_nip_addr_len_le by simp
  show ?thesis
    using assms(1,2) a0 k' \<open>k \<le> 8\<close>
    by (simp add: decode_nip_addr_def Let_def decode_loop_None decode_loop_eq wf_addr_def)
qed

text \<open>Decoding the bytes of a valid address gives it back, with its length made exact.\<close>

lemma decode_build:
  assumes "wf_addr a" "nip_addr_invalid a = CURRENT_ADDR_VALID" "wf_addr a0"
    "nip_addr_tail_zero a0 1" "build_nip_addr a = Some bs"
  shows "decode_nip_addr (pre @ bs @ rest) (length pre) a0
    = Some (a\<lparr>bitlen := of_nat (get_nip_addr_len a * 8)\<rparr>, Some (length pre + length bs))"
proof -
  let ?k = "get_nip_addr_len a" and ?buf = "pre @ bs @ rest"
  note v = assms(2) [unfolded nip_addr_valid_iff]
  have bs: "bs = take ?k (field8 a)" using assms(5) v by (simp add: build_nip_addr_eq [OF assms(1)])
  have k: "0 < ?k" "?k \<le> 8" using v get_nip_addr_len_le by auto
  have lb: "length bs = ?k" using bs k assms(1) by (simp add: wf_addr_def)
  then have p: "length pre < length ?buf" "?buf ! length pre = field8 a ! 0"
    using k bs by (auto simp: nth_append)
  have k': "?k = get_nip_addr_len \<lparr>bitlen = 0, field8 = [?buf ! length pre]\<rparr>"
    unfolding p(2) by (rule get_nip_addr_len_cong) simp
  have t0: "drop ?k (field8 a0) = replicate (8 - ?k) 0"
    using assms(3,4) k by (intro nth_equalityI)
      (auto simp: wf_addr_def nip_addr_tail_zero_def list_all_iff)
  have f: "take ?k (drop (length pre) ?buf) @ drop ?k (field8 a0) = field8 a"
    using length8_split [of a ?k] assms(1) v k lb bs t0 by simp
  let ?a = "a\<lparr>bitlen := of_nat (?k * 8)\<rparr>"
  have "?k * 8 < 256" using k by simp
  then have "unat (of_nat (?k * 8) :: u8) div 8 = ?k" by (simp add: unat_of_nat_u8 del: of_nat_mult)
  then have "nip_addr_invalid ?a = CURRENT_ADDR_VALID"
    using v by (simp add: nip_addr_valid_iff get_nip_addr_len_def addr_range_ok_def nip_addr_tail_zero_def)
  moreover have a: "?a = \<lparr>bitlen = of_nat (?k * 8), field8 = field8 a\<rparr>" by (cases a) simp
  ultimately have "nip_addr_invalid \<lparr>bitlen = of_nat (?k * 8), field8 = field8 a\<rparr> = CURRENT_ADDR_VALID"
    by (simp only:)
  then show ?thesis
    unfolding decode_nip_addr_eq [OF assms(3) p(1) k'] f a using k lb by (simp add: Let_def)
qed

lemma decode_nip_addr_Some:
  assumes "wf_addr a0" "decode_nip_addr buf p a0 = Some (a, Some q)"
  shows "nip_addr_invalid a = CURRENT_ADDR_VALID \<and> wf_addr a \<and> p < q \<and> q \<le> length buf \<and>
    q = p + get_nip_addr_len a \<and> bitlen a = of_nat (get_nip_addr_len a * 8) \<and>
    build_nip_addr a = Some (take (q - p) (drop p buf))"
proof -
  have p: "p < length buf" using assms(2) by (auto simp: decode_nip_addr_def rd8_def split: if_splits)
  let ?k = "get_nip_addr_len \<lparr>bitlen = 0, field8 = [buf ! p]\<rparr>"
  let ?a = "\<lparr>bitlen = of_nat (?k * 8), field8 = take ?k (drop p buf) @ drop ?k (field8 a0)\<rparr>"
  note e = decode_nip_addr_eq [OF assms(1) p refl, unfolded assms(2)]
  have k: "?k \<noteq> 0" "p + ?k \<le> length buf" "a = ?a" "q = p + ?k"
    "nip_addr_invalid a = CURRENT_ADDR_VALID"
    using e by (auto simp: Let_def split: if_splits)
  have k8: "?k \<le> 8" by (rule get_nip_addr_len_le)
  have wf: "wf_addr a" using k(2,3) k8 assms(1) by (simp add: wf_addr_def)
  have "field8 a ! 0 = buf ! p" using k p by (simp add: nth_append)
  then have l: "get_nip_addr_len a = ?k" by (intro get_nip_addr_len_cong) simp
  have "take ?k (field8 a) = take ?k (drop p buf)" unfolding k(3) using k(2) by simp
  then have "build_nip_addr a = Some (take (q - p) (drop p buf))"
    using k(1) l unfolding build_nip_addr_eq [OF wf] k(4) by simp
  moreover have "bitlen a = of_nat (get_nip_addr_len a * 8)" unfolding l by (subst k(3)) simp
  ultimately show ?thesis using k(1,2,4,5) wf l by simp
qed

section \<open>Comparison and hash\<close>

lemma u8_le_64: "(b :: u8) \<le> 64 \<longleftrightarrow> unat b \<le> 64"
  by (simp add: word_le_nat_alt)

lemma nip_addr_eq_refl: "bitlen a \<le> 64 \<Longrightarrow> nip_addr_eq a a"
  by (simp add: nip_addr_eq_def)

lemma nip_addr_eq_sym: "nip_addr_eq a b \<Longrightarrow> nip_addr_eq b a"
  by (auto simp: nip_addr_eq_def)

lemma nip_addr_eq_trans: "nip_addr_eq a b \<Longrightarrow> nip_addr_eq b c \<Longrightarrow> nip_addr_eq a c"
  by (auto simp: nip_addr_eq_def)

lemma valid_bitlen_le: "nip_addr_invalid a = CURRENT_ADDR_VALID \<Longrightarrow> unat (bitlen a) < 72"
  using get_nip_addr_len_le [of a] unfolding nip_addr_valid_iff by linarith

text \<open>On valid addresses of at most 64 bits the comparison of the code is equality.\<close>

lemma nip_addr_eq_valid:
  assumes "wf_addr a" "wf_addr b" "nip_addr_invalid a = CURRENT_ADDR_VALID"
    "nip_addr_invalid b = CURRENT_ADDR_VALID" "bitlen a \<le> 64"
  shows "nip_addr_eq a b \<longleftrightarrow> a = b"
proof
  assume e: "nip_addr_eq a b"
  let ?k = "unat (bitlen a) div 8"
  have t: "take ?k (field8 a) = take ?k (field8 b)" "bitlen a = bitlen b"
    using e by (auto simp: nip_addr_eq_def)
  have k: "?k \<le> 8" using assms(5) by (simp add: u8_le_64)
  have "nip_addr_tail_zero a ?k" "nip_addr_tail_zero b ?k"
    using assms(3,4) t(2) unfolding nip_addr_valid_iff by metis+
  then have "field8 a = field8 b"
    using length8_split [OF assms(1) _ k] length8_split [OF assms(2) _ k] t(1) by metis
  with t(2) show "a = b" by (cases a; cases b) simp
qed (use assms(5) in \<open>simp add: nip_addr_eq_refl\<close>)

lemma nip_addr_hash_cong:
  assumes "nip_addr_eq a b" "wf_addr a" "wf_addr b"
  shows "nip_addr_hash a = nip_addr_hash b \<and> nip_addr_hash a \<noteq> None"
proof -
  have "unat (bitlen a) \<le> 64" using assms(1) by (auto simp: nip_addr_eq_def u8_le_64)
  then have "unat (bitlen a) div 8 \<le> 8" by linarith
  with assms show ?thesis by (auto simp: nip_addr_hash_def nip_addr_eq_def wf_addr_def Let_def)
qed

lemma nip_addr_and_ifindex_eq_iff:
  "nip_addr_and_ifindex_eq a b i j \<longleftrightarrow> nip_addr_eq a b \<and> i = j"
  by (simp add: nip_addr_and_ifindex_eq_def nip_addr_eq_def)

lemma nip_addr_any_iff: "wf_addr a \<Longrightarrow> nip_addr_any a \<longleftrightarrow>
  bitlen a = 16 \<and> take 4 (field8 a) = [0xFF, 0x09, 0, 0]"
proof -
  assume "wf_addr a"
  have be: "be16 h l = be16 h' l' \<longleftrightarrow> h = h' \<and> l = l'" for h l h' l'
    by (metis hi8_be16 lo8_be16)
  show ?thesis using \<open>wf_addr a\<close>
    by (auto simp: nip_addr_any_def field16_def nip_any_addr_def be wf_addr_def elim!: length8_cases)
qed

lemma any_addr_valid: "nip_addr_invalid nip_any_addr = CURRENT_ADDR_VALID" "wf_addr nip_any_addr"
    "nip_addr_any nip_any_addr"
  by (simp_all add: nip_addr_valid_iff nip_any_addr_def get_nip_addr_len_def addr_defs Let_def
      addr_range_ok_def nip_addr_tail_zero_def upt_rec wf_addr_def nip_addr_any_def)

text \<open>The code rounds a bit length down to whole bytes.\<close>

definition same_encoding :: "nip_addr \<Rightarrow> nip_addr \<Rightarrow> bool" where
  "same_encoding a b \<longleftrightarrow> field8 a = field8 b \<and> unat (bitlen a) div 8 = unat (bitlen b) div 8"

lemma same_encoding_valid:
  "same_encoding a b \<Longrightarrow> nip_addr_invalid a = nip_addr_invalid b"
  by (simp add: same_encoding_def nip_addr_invalid_def nip_addr_tail_zero_def)

definition whole_bytes :: "nip_addr \<Rightarrow> nip_addr" where
  "whole_bytes a = a\<lparr>bitlen := of_nat (8 * (unat (bitlen a) div 8))\<rparr>"

lemma whole_bytes: "same_encoding a (whole_bytes a)" "unat (bitlen (whole_bytes a)) mod 8 = 0"
  "field8 (whole_bytes a) = field8 a"
proof -
  have "8 * (unat (bitlen a) div 8) < 256" using unsigned_less [of "bitlen a", where ?'a = nat] by simp
  then have "unat (of_nat (8 * (unat (bitlen a) div 8)) :: u8) = 8 * (unat (bitlen a) div 8)"
    unfolding unat_of_nat_u8 by (rule mod_less)
  then show "same_encoding a (whole_bytes a)" "unat (bitlen (whole_bytes a)) mod 8 = 0" "field8 (whole_bytes a) = field8 a"
    by (simp_all add: whole_bytes_def same_encoding_def)
qed

lemma short_addr_first:
  assumes "n < 2 ^ 48"
  shows "field8 (short_addr n) ! 0 \<le> 0xF3"
  using assms
proof (rule short_bytes_class)
  assume n: "220 < n" "n \<le> 5119" "short_bytes n = [of_nat (0xDD + n div 256), of_nat n]"
  then have "n div 256 \<le> 19" by linarith
  then have "unat (of_nat (0xDD + n div 256) :: u8) = 221 + n div 256" by (simp only: unat_of_nat_u8) simp
  with n \<open>n div 256 \<le> 19\<close> show ?thesis by (simp add: short_addr_def word_le_nat_alt del: of_nat_add)
next
  assume n: "n \<le> 220" "short_bytes n = [of_nat n]"
  then have "unat (of_nat n :: u8) = n" by (simp only: unat_of_nat_u8) simp
  with n show ?thesis by (simp add: short_addr_def word_le_nat_alt)
qed (simp_all add: short_addr_def word_le_nat_alt)

lemma valid_big_class:
  assumes "wf_addr a" "\<not> field8 a ! 0 \<le> 0xF3"
  shows "nip_addr_invalid a = CURRENT_ADDR_VALID \<longleftrightarrow> field8 a ! 0 = 0xFE \<and> unat (bitlen a) div 8 = 8 \<or>
    field8 a ! 0 = 0xFF \<and> unat (bitlen a) div 8 = 2 \<and> drop 2 (field8 a) = replicate 6 0"
proof -
  obtain b0 b1 b2 b3 b4 b5 b6 b7 where f: "field8 a = [b0, b1, b2, b3, b4, b5, b6, b7]"
    using assms(1) by (auto simp: wf_addr_def elim: length8_cases)
  have b: "b0 \<noteq> 0xDD" "b0 \<noteq> 0xF1" "b0 \<noteq> 0xF2" "b0 \<noteq> 0xF3" "\<not> is_1byte_addr_flag b0" "\<not> is_2byte_addr_flag b0"
    using assms(2) by (auto simp: f addr_defs word_le_nat_alt word_less_nat_alt)
  have r: "addr_range_ok a" using b by (simp add: addr_range_ok_def f)
  have l: "get_nip_addr_len a = (if b0 = 0xFF then 2 else if b0 = 0xFE then 8 else 0)"
    using b by (simp add: get_nip_addr_len_def f Let_def is_public_addr_flag_def is_3byte_addr_flag_def is_5byte_addr_flag_def
        is_7byte_addr_flag_def is_8byte_addr_flag_def)
  have t: "nip_addr_tail_zero a 2 \<longleftrightarrow> drop 2 (field8 a) = replicate 6 0" "nip_addr_tail_zero a 8"
    by (simp_all add: nip_addr_tail_zero_def f upt_rec numeral_eq_Suc)
  show ?thesis
    unfolding nip_addr_valid_iff l using r t by (auto simp: f)
qed

text \<open>C15: the checks of nip_addr_invalid accept exactly the shortest encodings of the numbers below 2^48, each of
  one number, the eight bytes that start with 0xFE, and the two bytes that start with 0xFF, with zeros behind the address.
  Of the bit length they see the whole bytes only, so that the lengths 8k to 8k + 7 are accepted alike.\<close>

theorem nip_addr_valid_iff_shortest:
  assumes "wf_addr a"
  shows "nip_addr_invalid a = CURRENT_ADDR_VALID \<longleftrightarrow>
    (\<exists>!n. n < 2 ^ 48 \<and> same_encoding a (short_addr n)) \<or>
    field8 a ! 0 = 0xFE \<and> unat (bitlen a) div 8 = 8 \<or>
    field8 a ! 0 = 0xFF \<and> unat (bitlen a) div 8 = 2 \<and> drop 2 (field8 a) = replicate 6 0"
proof (cases "field8 a ! 0 \<le> 0xF3")
  case True
  have w: "wf_addr (whole_bytes a)" using assms by (simp add: wf_addr_def whole_bytes(3))
  have ne: "field8 a ! 0 \<noteq> 0xFE" "field8 a ! 0 \<noteq> 0xFF" using True by (auto simp: word_le_nat_alt)
  have u: "m = addr_number a" if "m < 2 ^ 48" "same_encoding a (short_addr m)" for m
  proof -
    have "addr_number a = addr_number (short_addr m)"
      unfolding addr_number_def get_nip_addr_len_def that(2) [unfolded same_encoding_def, THEN conjunct1] ..
    then show ?thesis using addr_number_short_addr [OF that(1)] by simp
  qed
  have "\<exists>n. n < 2 ^ 48 \<and> same_encoding a (short_addr n)" if v: "nip_addr_invalid a = CURRENT_ADDR_VALID"
  proof -
    have "nip_addr_invalid (whole_bytes a) = CURRENT_ADDR_VALID" using v same_encoding_valid [OF whole_bytes(1)] by simp
    from short_addr_complete [OF w this whole_bytes(2)] True whole_bytes(1) show ?thesis
      by (metis whole_bytes(3))
  qed
  moreover have "nip_addr_invalid a = CURRENT_ADDR_VALID" if "n < 2 ^ 48" "same_encoding a (short_addr n)" for n
    using short_addr_valid [OF that(1)] same_encoding_valid [OF that(2)] by simp
  ultimately show ?thesis using ne u by metis
next
  case False
  have "\<not> (n < 2 ^ 48 \<and> same_encoding a (short_addr n))" for n
    using short_addr_first [of n] False by (auto simp: same_encoding_def)
  then show ?thesis using valid_big_class [OF assms False] by blast
qed

theorem nip_addr_valid_iff_shortest_witness:
  "nip_addr_invalid \<lparr>bitlen = 29, field8 = [0xF1, 0x14, 0, 0, 0, 0, 0, 0]\<rparr> = CURRENT_ADDR_VALID \<longleftrightarrow>
    (\<exists>!n. n < 2 ^ 48 \<and> same_encoding \<lparr>bitlen = 29, field8 = [0xF1, 0x14, 0, 0, 0, 0, 0, 0]\<rparr> (short_addr n))"
  using nip_addr_valid_iff_shortest [of "\<lparr>bitlen = 29, field8 = [0xF1, 0x14, 0, 0, 0, 0, 0, 0]\<rparr>"]
  by (simp add: wf_addr_def)

text \<open>C16: writing a valid address with build_nip_addr and reading it at any place of a packet
  with decode_nip_addr, into an address whose bytes behind the first are zero, gives the same
  bytes, the length of the class of its first byte, and a pointer just behind the address.\<close>

theorem nip_addr_roundtrip:
  assumes "wf_addr a" "nip_addr_invalid a = CURRENT_ADDR_VALID"
    and "wf_addr a0" "nip_addr_tail_zero a0 1"
  shows "\<exists>bs. build_nip_addr a = Some bs \<and> length bs = get_nip_addr_len a \<and>
    decode_nip_addr (pre @ bs @ rest) (length pre) a0
      = Some (a\<lparr>bitlen := of_nat (get_nip_addr_len a * 8)\<rparr>, Some (length pre + length bs))"
proof -
  have "get_nip_addr_len a \<noteq> 0" using assms(2) by (simp add: nip_addr_valid_iff)
  then have "build_nip_addr a = Some (take (get_nip_addr_len a) (field8 a))"
    using assms(1) by (simp add: build_nip_addr_eq)
  moreover have "length (take (get_nip_addr_len a) (field8 a)) = get_nip_addr_len a"
    using assms(1) get_nip_addr_len_le [of a] by (simp add: wf_addr_def)
  ultimately show ?thesis using decode_build [OF assms] by blast
qed

theorem nip_addr_roundtrip_witness:
  "\<exists>bs. build_nip_addr nip_any_addr = Some bs \<and> length bs = get_nip_addr_len nip_any_addr \<and>
    decode_nip_addr ([1, 2] @ bs @ [7]) (length [1, 2 :: u8]) \<lparr>bitlen = 0, field8 = replicate 8 0\<rparr>
      = Some (nip_any_addr\<lparr>bitlen := of_nat (get_nip_addr_len nip_any_addr * 8)\<rparr>, Some (length [1, 2 :: u8] + length bs))"
  by (rule nip_addr_roundtrip)
    (simp_all add: any_addr_valid, simp_all add: wf_addr_def nip_addr_tail_zero_def upt_rec nth_Cons')

end
