(* ===== verification/NipChecksum.thy ===== *)
theory NipChecksum
  imports NipAddr
begin

text \<open>
  The checksum of src/src/common/nip_checksum.c: the sum of the big-endian 16-bit words of the
  data and of a pseudo header, folded to 16 bits. Reads and writes outside the data, the
  addresses or the 24-byte pseudo header array are \<^verbatim>\<open>None\<close>. The lemmas show that the loops
  compute the sum of the words, that the folding loop ends with the residue modulo 65535, that
  a packet whose checksum field holds the value built verifies, and that a change of a single
  byte never verifies.
\<close>

section \<open>The code\<close>

record nip_pseudo_header =
  ps_saddr :: nip_addr
  ps_daddr :: nip_addr
  ps_check_len :: u16    \<comment> \<open>network order\<close>
  ps_nexthdr :: u8

definition NIP_HDR_MAX :: nat where "NIP_HDR_MAX = 24"

text \<open>One pair of bytes: (data[i] << 8) + data[i + 1].\<close>

definition word_at :: "u8 \<Rightarrow> u8 \<Rightarrow> u32" where
  "word_at h l = push_bit 8 (ucast h) + ucast l"

function nip_check_sum_loop :: "bytes \<Rightarrow> nat \<Rightarrow> nat \<Rightarrow> u32 \<Rightarrow> u32 option" where
  "nip_check_sum_loop data data_len i acc =
    (if i + 1 < data_len then
       (case (rd8 data i, rd8 data (i + 1)) of
          (Some h, Some l) \<Rightarrow> nip_check_sum_loop data data_len (i + 2) (acc + word_at h l)
        | _ \<Rightarrow> None)
     else if i < data_len then
       (case rd8 data i of Some h \<Rightarrow> Some (acc + word_at h 0) | None \<Rightarrow> None)
     else Some acc)"
  by pat_completeness auto
termination by (relation "measure (\<lambda>(data, n, i, s). n - i)") auto

declare nip_check_sum_loop.simps [simp del]

definition nip_check_sum :: "bytes \<Rightarrow> u16 \<Rightarrow> u32 option" where
  "nip_check_sum data data_len = nip_check_sum_loop data (unat data_len) 0 0"

text \<open>The copy of an address into the pseudo header array at j.\<close>

fun pseudo_copy :: "bytes \<Rightarrow> nat \<Rightarrow> nat \<Rightarrow> nat \<Rightarrow> bytes \<Rightarrow> bytes option" where
  "pseudo_copy f i 0 j ph = Some ph"
| "pseudo_copy f i (Suc n) j ph =
    (case rd8 f i of None \<Rightarrow> None
     | Some b \<Rightarrow> (case st8 ph j b of None \<Rightarrow> None
         | Some ph' \<Rightarrow> pseudo_copy f (i + 1) n (j + 1) ph'))"

definition nip_header_chksum :: "nip_pseudo_header \<Rightarrow> u32 option" where
  "nip_header_chksum h =
    (let slen = unat (bitlen (ps_saddr h)) div 8; dlen = unat (bitlen (ps_daddr h)) div 8 in
     do {
       ph \<leftarrow> pseudo_copy (field8 (ps_saddr h)) 0 slen 0 (replicate NIP_HDR_MAX 0);
       ph \<leftarrow> pseudo_copy (field8 (ps_daddr h)) 0 dlen slen ph;
       ph \<leftarrow> st16 ph (slen + dlen) (ps_check_len h);
       ph \<leftarrow> st8 ph (slen + dlen + 2) (ps_nexthdr h);
       nip_check_sum ph (of_nat (slen + dlen + 3))
     })"

text \<open>The folding loop: while (sum >> 16) sum = (sum >> 16) + (sum & 0xffff).\<close>

lemma unat_mask16: "unat (and w 0xFFFF :: u32) = unat w mod 65536"
proof -
  have "and w 0xFFFF = take_bit 16 w" by (simp add: take_bit_eq_mask mask_eq_exp_minus_1)
  then show ?thesis by (simp add: unsigned_take_bit_eq take_bit_eq_mod unat_mod)
qed

lemma unat_drop16: "unat (drop_bit 16 w :: u32) = unat w div 65536"
  by (simp add: drop_bit_eq_div unat_div)

lemma unat_fold_step: "unat (drop_bit 16 w + and w 0xFFFF :: u32) = unat w div 65536 + unat w mod 65536"
proof -
  have "unat w < 4294967296" by (rule unat_u32_less)
  then have "unat w div 65536 < 65536" by (simp add: less_mult_imp_div_less)
  moreover have "unat w mod 65536 < 65536" by simp
  ultimately have "unat w div 65536 + unat w mod 65536 < 4294967296" by linarith
  then show ?thesis by (simp add: unat_word_ariths unat_mask16 unat_drop16)
qed

function nip_sum_fold :: "u32 \<Rightarrow> u32" where
  "nip_sum_fold w =
    (if drop_bit 16 w \<noteq> 0 then nip_sum_fold (drop_bit 16 w + and w 0xFFFF) else w)"
  by pat_completeness auto
termination
proof (relation "measure unat")
  fix w :: u32 assume "drop_bit 16 w \<noteq> 0"
  then have "unat w div 65536 \<noteq> 0" by (metis unat_drop16 unat_eq_0)
  then have "unat w div 65536 + unat w mod 65536 < unat w"
    using div_mult_mod_eq [of "unat w" 65536] by linarith
  then show "(drop_bit 16 w + and w 0xFFFF, w) \<in> measure unat"
    by (simp only: in_measure unat_fold_step)
qed simp

declare nip_sum_fold.simps [simp del]

definition nip_check_sum_parse :: "bytes \<Rightarrow> u16 \<Rightarrow> nip_pseudo_header \<Rightarrow> u16 option" where
  "nip_check_sum_parse data check_len h = do {
     s \<leftarrow> nip_check_sum data check_len;
     t \<leftarrow> nip_header_chksum h;
     Some (ucast (nip_sum_fold (s + t)))
   }"

definition nip_check_sum_build :: "bytes \<Rightarrow> u16 \<Rightarrow> nip_pseudo_header \<Rightarrow> u16 option" where
  "nip_check_sum_build data data_len h = do {
     s \<leftarrow> nip_check_sum data data_len;
     t \<leftarrow> nip_header_chksum h;
     Some (ucast (not (nip_sum_fold (s + t))))
   }"

section \<open>The loops compute the sum of the words\<close>

fun sum16 :: "bytes \<Rightarrow> nat" where
  "sum16 [] = 0"
| "sum16 [h] = 256 * unat h"
| "sum16 (h # l # bs) = 256 * unat h + unat l + sum16 bs"

lemma word_at_nat: "word_at h l = of_nat (256 * unat h + unat l)"
proof (rule word_unat_eq_iff [THEN iffD2])
  have b: "unat h < 256" "unat l < 256" by (rule unat_u8_less)+
  have m: "unat h mod 4294967296 = unat h" "unat l mod 4294967296 = unat l"
    "unat h * 256 mod 4294967296 = unat h * 256"
    "(256 * unat h + unat l) mod 4294967296 = 256 * unat h + unat l"
    using b by simp_all
  show "unat (word_at h l) = unat (of_nat (256 * unat h + unat l) :: u32)"
    by (simp add: word_at_def unat_word_ariths unat_word_bits m unat_of_nat mult.commute del: of_nat_add of_nat_mult)
qed

lemma sum16_drop2:
  "i + 1 < length xs \<Longrightarrow> sum16 (drop i xs) = 256 * unat (xs ! i) + unat (xs ! (i + 1)) + sum16 (drop (i + 2) xs)"
  by (simp add: Cons_nth_drop_Suc [symmetric])

lemma nip_check_sum_loop_eq:
  "n \<le> length data \<Longrightarrow> nip_check_sum_loop data n i s = Some (s + of_nat (sum16 (drop i (take n data))))"
proof (induction "n - i" arbitrary: i s rule: less_induct)
  case less
  consider "i + 1 < n" | "i + 1 = n" | "n \<le> i" by linarith
  then show ?case
  proof cases
    case 1
    with less.prems less.hyps [of "i + 2"] show ?thesis
      by (subst nip_check_sum_loop.simps) (simp add: sum16_drop2 word_at_nat)
  next
    case 2
    then have "drop i (take n data) = [data ! i]"
      using less.prems by (auto intro!: nth_equalityI)
    with 2 less.prems show ?thesis by (subst nip_check_sum_loop.simps) (simp add: word_at_nat)
  next
    case 3
    then show ?thesis by (subst nip_check_sum_loop.simps) simp
  qed
qed

lemma nip_check_sum_loop_None:
  "length data < n \<Longrightarrow> i \<le> length data \<Longrightarrow> nip_check_sum_loop data n i s = None"
proof (induction "n - i" arbitrary: i s rule: less_induct)
  case less
  show ?case
  proof (cases "i + 1 < length data")
    case True
    with less.prems less.hyps [of "i + 2"] show ?thesis
      by (subst nip_check_sum_loop.simps) simp
  next
    case False
    with less.prems show ?thesis
      by (subst nip_check_sum_loop.simps) (auto simp: rd8_def)
  qed
qed

lemma nip_check_sum_eq:
  "nip_check_sum data n = (if unat n \<le> length data then Some (of_nat (sum16 (take (unat n) data))) else None)"
  by (simp add: nip_check_sum_def nip_check_sum_loop_eq nip_check_sum_loop_None)

lemma sum16_le: "2 * sum16 bs \<le> 65535 * (length bs + 1)"
proof (induction bs rule: sum16.induct)
  case (2 h)
  have "unat h < 256" by (rule unat_u8_less)
  then show ?case by simp
next
  case (3 h l bs)
  have "unat h < 256" "unat l < 256" by (rule unat_u8_less)+
  with 3 show ?case by simp
qed simp

lemma sum16_append: "even (length xs) \<Longrightarrow> sum16 (xs @ ys) = sum16 xs + sum16 ys"
  by (induction xs rule: sum16.induct) auto

lemma pseudo_copy_eq:
  "i + n \<le> length f \<Longrightarrow> j + n \<le> length ph \<Longrightarrow>
   pseudo_copy f i n j ph = Some (take j ph @ take n (drop i f) @ drop (j + n) ph)"
proof (induction n arbitrary: i j ph)
  case (Suc n)
  have "take (j + 1) (ph[j := f ! i]) = take j ph @ [f ! i]"
    using Suc.prems by (simp add: take_Suc_conv_app_nth)
  moreover have "take (Suc n) (drop i f) = f ! i # take n (drop (i + 1) f)"
    using Suc.prems by (simp add: take_Suc_conv_app_nth Cons_nth_drop_Suc [symmetric])
  ultimately show ?case using Suc by simp
qed simp

text \<open>The bytes of the pseudo header.\<close>

definition pseudo_bytes :: "nip_pseudo_header \<Rightarrow> bytes" where
  "pseudo_bytes h = take (unat (bitlen (ps_saddr h)) div 8) (field8 (ps_saddr h)) @
     take (unat (bitlen (ps_daddr h)) div 8) (field8 (ps_daddr h)) @
     [lo8 (ps_check_len h), hi8 (ps_check_len h), ps_nexthdr h]"

definition wf_pseudo :: "nip_pseudo_header \<Rightarrow> bool" where
  "wf_pseudo h \<longleftrightarrow> wf_addr (ps_saddr h) \<and> wf_addr (ps_daddr h) \<and>
     unat (bitlen (ps_saddr h)) div 8 \<le> 8 \<and> unat (bitlen (ps_daddr h)) div 8 \<le> 8"

lemma nip_header_chksum_eq:
  assumes "wf_pseudo h"
  shows "nip_header_chksum h = Some (of_nat (sum16 (pseudo_bytes h)))"
proof -
  define sn dn where sd: "sn = unat (bitlen (ps_saddr h)) div 8" "dn = unat (bitlen (ps_daddr h)) div 8"
  define sb db where b: "sb = take sn (field8 (ps_saddr h))" "db = take dn (field8 (ps_daddr h))"
  have w: "length (field8 (ps_saddr h)) = 8" "length (field8 (ps_daddr h)) = 8" "sn \<le> 8" "dn \<le> 8"
    using assms by (auto simp: wf_pseudo_def wf_addr_def sd)
  have lb: "length sb = sn" "length db = dn" using w by (simp_all add: b)
  have pb: "pseudo_bytes h = sb @ db @ [lo8 (ps_check_len h), hi8 (ps_check_len h), ps_nexthdr h]"
    by (simp add: pseudo_bytes_def b sd)
  define rest where "rest = replicate (21 - sn - dn) (0 :: u8)"
  have r: "replicate (24 - sn - dn) (0 :: u8) = 0 # 0 # 0 # rest"
  proof -
    have "24 - sn - dn = Suc (Suc (Suc (21 - sn - dn)))" using w by linarith
    then show ?thesis by (simp only: replicate_Suc rest_def)
  qed
  have c1: "pseudo_copy (field8 (ps_saddr h)) 0 sn 0 (replicate NIP_HDR_MAX 0) = Some (sb @ replicate (24 - sn) 0)"
    using w by (simp add: pseudo_copy_eq NIP_HDR_MAX_def b)
  have c2: "pseudo_copy (field8 (ps_daddr h)) 0 dn sn (sb @ replicate (24 - sn) 0)
      = Some (sb @ db @ 0 # 0 # 0 # rest)"
    using w lb r by (simp add: pseudo_copy_eq b)
  have c3: "st16 (sb @ db @ 0 # 0 # 0 # rest) (sn + dn) (ps_check_len h)
      = Some (sb @ db @ lo8 (ps_check_len h) # hi8 (ps_check_len h) # 0 # rest)"
    using lb by (simp add: list_update_append)
  have c4: "st8 (sb @ db @ lo8 (ps_check_len h) # hi8 (ps_check_len h) # 0 # rest) (sn + dn + 2) (ps_nexthdr h)
      = Some (pseudo_bytes h @ rest)"
    using lb by (simp add: list_update_append pb numeral_2_eq_2)
  have l: "length (pseudo_bytes h) = sn + dn + 3" using lb by (simp add: pb)
  have "unat (of_nat (sn + dn + 3) :: u16) = sn + dn + 3"
    using w by (simp add: unat_of_nat del: of_nat_add)
  then have c5: "nip_check_sum (pseudo_bytes h @ rest) (of_nat (sn + dn + 3)) = Some (of_nat (sum16 (pseudo_bytes h)))"
    using l by (simp add: nip_check_sum_eq del: of_nat_add)
  show ?thesis by (simp only: nip_header_chksum_def Let_def sd [symmetric] c1 c2 c3 c4 c5 bind.bind_lunit)
qed

section \<open>The folding loop\<close>

definition fold16 :: "nat \<Rightarrow> nat" where
  "fold16 n = (if n = 0 then 0 else (n - 1) mod 65535 + 1)"

lemma fold16_step: "n \<ge> 65536 \<Longrightarrow> fold16 (n div 65536 + n mod 65536) = fold16 n"
proof -
  assume n: "n \<ge> 65536"
  obtain q r where qr: "n = q * 65536 + r" "r < 65536" "n div 65536 = q" "n mod 65536 = r"
    by (metis div_mult_mod_eq mod_less_divisor zero_less_numeral)
  then have "0 < q" using n by (cases q) auto
  have "n - 1 = (q + r - 1) + q * 65535" using qr(1) \<open>0 < q\<close> by simp
  then have "(n - 1) mod 65535 = (q + r - 1) mod 65535" by (metis mod_mult_self1)
  with n \<open>0 < q\<close> qr(3,4) show ?thesis by (simp add: fold16_def)
qed

lemma unat_sum_fold: "unat (nip_sum_fold w) = fold16 (unat w)"
proof (induction w rule: nip_sum_fold.induct)
  case (1 w)
  show ?case
  proof (cases "drop_bit 16 w = 0")
    case True
    then have "unat w < 65536" using unat_drop16 [of w] by (simp add: div_eq_0_iff)
    with True show ?thesis by (subst nip_sum_fold.simps) (simp add: fold16_def)
  next
    case False
    then have "unat w div 65536 \<noteq> 0" by (metis unat_drop16 unat_eq_0)
    then have "unat w \<ge> 65536" by (simp add: div_eq_0_iff)
    with False 1 show ?thesis by (subst nip_sum_fold.simps) (simp add: unat_fold_step fold16_step)
  qed
qed

lemma fold16_le: "fold16 n \<le> 65535"
proof -
  have "(n - 1) mod 65535 < 65535" by simp
  then show ?thesis by (simp add: fold16_def del: mod_less_divisor)
qed

section \<open>Building and verifying\<close>

text \<open>The exact sum the two functions fold: no addition of the loops wraps.\<close>

definition total16 :: "bytes \<Rightarrow> u16 \<Rightarrow> nip_pseudo_header \<Rightarrow> nat" where
  "total16 data n h = sum16 (take (unat n) data) + sum16 (pseudo_bytes h)"

lemma length_pseudo_bytes: "wf_pseudo h \<Longrightarrow> length (pseudo_bytes h) \<le> 19"
  by (auto simp: wf_pseudo_def wf_addr_def pseudo_bytes_def)

lemma total16_less:
  assumes "wf_pseudo h"
  shows "total16 data n h < 4294967296"
proof -
  have "length (take (unat n) data) < 65536"
    using unat_u16_less [of n] by simp
  moreover have "length (pseudo_bytes h) \<le> 19" by (rule length_pseudo_bytes [OF assms])
  moreover have "a + b < 4294967296"
    if "2 * a \<le> 65535 * (k + 1)" "2 * b \<le> 65535 * (l + 1)" "k < 65536" "l \<le> 19" for a b k l :: nat
    using that by simp
  ultimately show ?thesis
    using sum16_le [of "take (unat n) data"] sum16_le [of "pseudo_bytes h"]
    unfolding total16_def by blast
qed

lemma unat_total16:
  "wf_pseudo h \<Longrightarrow> unat (of_nat (sum16 (take (unat n) data)) + of_nat (sum16 (pseudo_bytes h)) :: u32)
    = total16 data n h"
  using total16_less [of h data n]
  by (simp add: total16_def unat_of_nat flip: of_nat_add)

lemma nip_check_sum_parse_eq:
  assumes "wf_pseudo h" "unat n \<le> length data"
  shows "nip_check_sum_parse data n h = Some (of_nat (fold16 (total16 data n h)))"
proof -
  let ?w = "of_nat (sum16 (take (unat n) data)) + of_nat (sum16 (pseudo_bytes h)) :: u32"
  have "(ucast (nip_sum_fold ?w) :: u16) = of_nat (unat (nip_sum_fold ?w))" by simp
  then show ?thesis
    using assms by (simp add: nip_check_sum_parse_def nip_check_sum_eq nip_header_chksum_eq
        unat_sum_fold unat_total16)
qed

lemma nip_check_sum_build_eq:
  assumes "wf_pseudo h" "unat n \<le> length data"
  shows "nip_check_sum_build data n h = Some (not (of_nat (fold16 (total16 data n h))))"
proof -
  let ?w = "of_nat (sum16 (take (unat n) data)) + of_nat (sum16 (pseudo_bytes h)) :: u32"
  have "(ucast (not (nip_sum_fold ?w)) :: u16) = not (ucast (nip_sum_fold ?w))"
    by (rule bit_word_eqI) (auto simp: bit_simps)
  also have "(ucast (nip_sum_fold ?w) :: u16) = of_nat (unat (nip_sum_fold ?w))" by simp
  finally show ?thesis
    using assms by (simp add: nip_check_sum_build_def nip_check_sum_eq nip_header_chksum_eq
        unat_sum_fold unat_total16)
qed

lemma unat_not_u16: "unat (not w :: u16) = 65535 - unat w"
proof -
  have "not w = -1 - w" by (simp add: not_eq_complement)
  moreover have "w \<le> -1" by simp
  ultimately have "unat (not w) = unat (-1 :: u16) - unat w" by (simp add: unat_sub)
  then show ?thesis by (simp add: unsigned_minus_1_eq_mask mask_eq_exp_minus_1)
qed

lemma unat_of_fold16: "unat (of_nat (fold16 n) :: u16) = fold16 n"
  using fold16_le [of n] by (simp add: unat_of_nat)

lemma fold16_full: "fold16 n = 65535 \<longleftrightarrow> 0 < n \<and> n mod 65535 = 0"
proof (cases n)
  case (Suc m)
  have "m mod 65535 < 65535" by simp
  then show ?thesis using Suc by (auto simp: fold16_def mod_Suc simp del: mod_less_divisor)
qed (simp add: fold16_def)

lemma fold16_mod: "fold16 n mod 65535 = n mod 65535"
proof (cases n)
  case (Suc m)
  have "(m mod 65535 + 1) mod 65535 = (m + 1) mod 65535" by (rule mod_add_left_eq)
  then show ?thesis using Suc by (simp add: fold16_def)
qed (simp add: fold16_def)

lemma fold16_complement: "fold16 (n + (65535 - fold16 n)) = 65535"
proof -
  let ?f = "fold16 n"
  have "?f \<le> 65535" by (rule fold16_le)
  have "(n + (65535 - ?f)) mod 65535 = (?f + (65535 - ?f)) mod 65535"
    by (rule mod_add_cong) (simp_all add: fold16_mod)
  also have "\<dots> = 0" using \<open>?f \<le> 65535\<close> by simp
  finally have "(n + (65535 - ?f)) mod 65535 = 0" .
  moreover have "0 < n + (65535 - ?f)" by (cases n) (simp_all add: fold16_def)
  ultimately show ?thesis by (simp add: fold16_full)
qed

lemma sum16_update2:
  assumes "even i" "i + 1 < length xs" "xs ! i = 0" "xs ! (i + 1) = 0"
  shows "sum16 (xs[i := a, i + 1 := b]) = sum16 xs + 256 * unat a + unat b"
proof -
  obtain ys zs where x: "xs = ys @ 0 # 0 # zs" "length ys = i"
  proof (rule that)
    show "xs = take i xs @ 0 # 0 # drop (i + 2) xs"
      using assms by (metis Cons_nth_drop_Suc Suc_eq_plus1 Suc_lessD add_2_eq_Suc' append_take_drop_id)
  qed (use assms(2) in simp)
  then show ?thesis
    using sum16_append [of ys "0 # 0 # zs"] sum16_append [of ys "a # b # zs"] assms(1)
    by (simp add: list_update_append)
qed

lemma sum16_update:
  assumes "i < length xs"
  shows "sum16 (xs[i := b]) + (if even i then 256 else 1) * unat (xs ! i)
    = sum16 xs + (if even i then 256 else 1) * unat b"
  using assms
proof (induction xs arbitrary: i rule: sum16.induct)
  case (3 h l bs)
  show ?case
  proof (cases "i < 2")
    case True
    then show ?thesis by (cases i) auto
  next
    case False
    then obtain j where "i = Suc (Suc j)" by (metis add_2_eq_Suc le_Suc_ex not_less)
    with 3 show ?thesis by (simp split: if_splits)
  qed
qed auto

lemma parse_ok_iff:
  "wf_pseudo h \<Longrightarrow> unat n \<le> length data \<Longrightarrow>
   nip_check_sum_parse data n h = Some 0xFFFF \<longleftrightarrow> 0 < total16 data n h \<and> total16 data n h mod 65535 = 0"
proof -
  assume a: "wf_pseudo h" "unat n \<le> length data"
  have "(of_nat (fold16 (total16 data n h)) :: u16) = 0xFFFF \<longleftrightarrow> fold16 (total16 data n h) = 65535"
    by (simp add: word_unat_eq_iff unat_of_fold16)
  then show ?thesis using a by (simp add: nip_check_sum_parse_eq fold16_full)
qed

lemma checksum_build_parse:
  assumes "wf_pseudo h" "unat n \<le> length data"
    and "even i" "i + 1 < unat n" "data ! i = 0" "data ! (i + 1) = 0"
  shows "\<exists>c. nip_check_sum_build data n h = Some c \<and>
    nip_check_sum_parse (data[i := hi8 c, i + 1 := lo8 c]) n h = Some 0xFFFF"
proof (intro exI conjI)
  let ?t = "total16 data n h"
  let ?c = "not (of_nat (fold16 ?t)) :: u16"
  let ?d = "data[i := hi8 ?c, i + 1 := lo8 ?c]"
  show "nip_check_sum_build data n h = Some ?c" using assms by (simp add: nip_check_sum_build_eq)
  have "take (unat n) ?d = (take (unat n) data)[i := hi8 ?c, i + 1 := lo8 ?c]"
    by (simp add: take_update_swap)
  then have "total16 ?d n h = ?t + (256 * unat (hi8 ?c) + unat (lo8 ?c))"
    unfolding total16_def using assms by (simp add: sum16_update2 [unfolded Suc_eq_plus1 [symmetric]])
  also have "256 * unat (hi8 ?c) + unat (lo8 ?c) = unat ?c"
    by (simp add: unat_hi8 unat_lo8)
  also have "unat ?c = 65535 - fold16 ?t" by (simp add: unat_not_u16 unat_of_fold16)
  finally have "fold16 (total16 ?d n h) = 65535" by (simp add: fold16_complement)
  with assms(1,2) show "nip_check_sum_parse ?d n h = Some 0xFFFF"
    by (simp add: nip_check_sum_parse_eq)
qed

text \<open>a packet whose checksum field (two bytes at an even offset, zero while the checksum
  was built) holds the value of nip_check_sum_build in network order verifies: the receiver's
  nip_check_sum_parse returns 0xFFFF, the value its callers compare with.\<close>

theorem checksum_build_verifies:
  assumes "wf_pseudo h" "unat n \<le> length data"
    and "even i" "i + 1 < unat n" "data ! i = 0" "data ! (i + 1) = 0"
  shows "\<exists>c. nip_check_sum_build data n h = Some c \<and>
    nip_check_sum_parse (data[i := hi8 c, i + 1 := lo8 c]) n h = Some 0xFFFF"
  using assms by (rule checksum_build_parse)

theorem checksum_build_verifies_witness:
  "\<exists>c. nip_check_sum_build [1, 2, 0, 0, 9] 5 \<lparr>ps_saddr = short_addr 5, ps_daddr = short_addr 300,
      ps_check_len = htons 5, ps_nexthdr = 17\<rparr> = Some c \<and>
    nip_check_sum_parse ([1, 2, 0, 0, 9][2 := hi8 c, 2 + 1 := lo8 c]) 5
      \<lparr>ps_saddr = short_addr 5, ps_daddr = short_addr 300, ps_check_len = htons 5, ps_nexthdr = 17\<rparr>
      = Some 0xFFFF"
  by (rule checksum_build_verifies)
    (simp_all add: wf_pseudo_def wf_short_addr, simp_all add: short_addr_def short_bytes_def)

text \<open>the checksum detects every change of one byte: if a packet verifies, the packet with
  one covered byte replaced by another value does not.\<close>

theorem checksum_detects_byte_change:
  assumes "wf_pseudo h" "unat n \<le> length data"
    and "nip_check_sum_parse data n h = Some 0xFFFF" "i < unat n" "b \<noteq> data ! i"
  shows "nip_check_sum_parse (data[i := b]) n h \<noteq> Some 0xFFFF"
proof
  let ?t = "total16 data n h" and ?t' = "total16 (data[i := b]) n h"
  define k :: nat where "k = (if even i then 256 else 1)"
  assume "nip_check_sum_parse (data[i := b]) n h = Some 0xFFFF"
  then have m: "?t mod 65535 = 0" "?t' mod 65535 = 0" using assms by (simp_all add: parse_ok_iff)
  have "?t' + k * unat (data ! i) = ?t + k * unat b"
    using sum16_update [of i "take (unat n) data" b] assms(2,4)
    by (simp add: total16_def take_update_swap k_def)
  then have "(k * unat (data ! i)) mod 65535 = (k * unat b) mod 65535"
    using m by (metis add.left_neutral mod_add_left_eq)
  moreover have "k * unat x < 65535" for x :: u8
    using unat_u8_less [of x] by (simp add: k_def)
  ultimately have "unat (data ! i) = unat b" by (simp add: k_def split: if_splits)
  with assms(5) show False by (simp add: word_unat_eq_iff)
qed

theorem checksum_detects_byte_change_witness:
  "nip_check_sum_parse ([0xF7, 0xF8, 0][2 := 3]) 3
      \<lparr>ps_saddr = short_addr 0, ps_daddr = short_addr 7, ps_check_len = 0, ps_nexthdr = 8\<rparr> \<noteq> Some 0xFFFF"
proof (rule checksum_detects_byte_change)
  let ?h = "\<lparr>ps_saddr = short_addr 0, ps_daddr = short_addr 7, ps_check_len = 0, ps_nexthdr = 8\<rparr>"
  have p: "pseudo_bytes ?h = [0, 7, 0, 0, 8]"
    by (simp add: pseudo_bytes_def short_addr_def short_bytes_def lo8_def hi8_def)
  show wf: "wf_pseudo ?h"
    by (simp add: wf_pseudo_def wf_short_addr) (simp add: short_addr_def short_bytes_def)
  show "nip_check_sum_parse [0xF7, 0xF8, 0] 3 ?h = Some 0xFFFF"
    using wf by (subst parse_ok_iff) (simp_all add: total16_def p)
qed simp_all

end
