(* ===== verification/NipHdr.thy ===== *)
theory NipHdr
  imports NipChecksum
begin

text \<open>
  The NewIP header: src/src/common/nip_hdr.h, nip_hdr_encap.c and nip_hdr_decap.c.

  The encoder writes through \<^verbatim>\<open>hdr_buf + hdr_buf_pos\<close> into a buffer of the caller and the parser
  reads at an advancing pointer; both are offsets here, and an access outside the buffer is
  \<^verbatim>\<open>None\<close>. The parser returns the code's int (a negative NIP_HDR_DECAP_ERR or the header length)
  together with the nip_hdr_decap it fills. Its fields total_len and hdr_real_len keep the
  widths of the code.
\<close>

section \<open>Data\<close>

datatype nip_hdr_type = NIP_HDR_UDP | NIP_HDR_COMM

text \<open>enum NIP_HDR_DECAP_ERR; the functions return the negated value.\<close>

datatype nip_hdr_decap_err =
    NIP_HDR_BITMAP_INVALID | NIP_HDR_BITMAP_NUM_OUT_RANGE | NIP_HDR_NO_TTL | NIP_HDR_NO_NEXT_HDR
  | NIP_HDR_NO_DADDR | NIP_HDR_DECAP_DADDR_ERR | NIP_HDR_DADDR_INVALID | NIP_HDR_DECAP_SADDR_ERR
  | NIP_HDR_SADDR_INVALID | NIP_HDR_RCV_BUF_READ_OUT_RANGE | NIP_HDR_UNKNOWN_AND_NO_HDR_LEN
  | NIP_HDR_LEN_INVALID | NIP_HDR_LEN_OUT_RANGE

fun decap_err :: "nip_hdr_decap_err \<Rightarrow> int" where
  "decap_err NIP_HDR_BITMAP_INVALID = 1"
| "decap_err NIP_HDR_BITMAP_NUM_OUT_RANGE = 2"
| "decap_err NIP_HDR_NO_TTL = 3"
| "decap_err NIP_HDR_NO_NEXT_HDR = 4"
| "decap_err NIP_HDR_NO_DADDR = 5"
| "decap_err NIP_HDR_DECAP_DADDR_ERR = 6"
| "decap_err NIP_HDR_DADDR_INVALID = 7"
| "decap_err NIP_HDR_DECAP_SADDR_ERR = 8"
| "decap_err NIP_HDR_SADDR_INVALID = 9"
| "decap_err NIP_HDR_RCV_BUF_READ_OUT_RANGE = 10"
| "decap_err NIP_HDR_UNKNOWN_AND_NO_HDR_LEN = 11"
| "decap_err NIP_HDR_LEN_INVALID = 12"
| "decap_err NIP_HDR_LEN_OUT_RANGE = 13"

record nip_hdr_decap =
  d_saddr :: nip_addr
  d_daddr :: nip_addr
  d_ttl :: u8
  d_nexthdr :: u8
  d_hdr_len :: u8
  d_hdr_real_len :: u8
  d_total_len :: u16    \<comment> \<open>network order\<close>
  d_include_unknown_bit :: bool
  d_include_saddr :: bool
  d_include_daddr :: bool
  d_include_ttl :: bool
  d_include_nexthdr :: bool
  d_include_hdr_len :: bool
  d_include_total_len :: bool
  d_rcv_buf_len :: u32

text \<open>The fields of struct nip_hdr_encap the encoder uses; the output pointers into the buffer
  are offsets.\<close>

record nip_hdr_encap =
  e_daddr :: nip_addr
  e_saddr :: nip_addr
  e_ttl :: u8
  e_nexthdr :: u8
  e_hdr_buf :: bytes
  e_hdr_buf_pos :: nat
  e_hdr_len_pos :: "nat option"
  e_total_len_pos :: "nat option"

record nip_pkt_seg_info =
  mid_pkt_num :: u32
  last_pkt_num :: u32
  mid_usr_pkt_len :: u32
  last_usr_pkt_len :: u32

definition NIP_UDP_HDR_LEN :: nat where "NIP_UDP_HDR_LEN = 8"
definition NIP_MIN_MTU :: nat where "NIP_MIN_MTU = NIP_HDR_MAX + NIP_UDP_HDR_LEN"
definition BITMAP_MAX :: nat where "BITMAP_MAX = 8"
definition FACTORY_NUM_MAX :: nat where "FACTORY_NUM_MAX = 3"

abbreviation (input) NIP_BITMAP_HAVE_MORE_BIT :: u8 where "NIP_BITMAP_HAVE_MORE_BIT \<equiv> 0x01"
abbreviation (input) NIP_BITMAP_INVALID_SET :: u8 where "NIP_BITMAP_INVALID_SET \<equiv> 0x80"
abbreviation (input) NIP_BITMAP_INCLUDE_TTL :: u8 where "NIP_BITMAP_INCLUDE_TTL \<equiv> 0x40"
abbreviation (input) NIP_BITMAP_INCLUDE_TOTAL_LEN :: u8 where "NIP_BITMAP_INCLUDE_TOTAL_LEN \<equiv> 0x20"
abbreviation (input) NIP_BITMAP_INCLUDE_NEXT_HDR :: u8 where "NIP_BITMAP_INCLUDE_NEXT_HDR \<equiv> 0x10"
abbreviation (input) NIP_BITMAP_INCLUDE_DADDR :: u8 where "NIP_BITMAP_INCLUDE_DADDR \<equiv> 0x04"
abbreviation (input) NIP_BITMAP_INCLUDE_SADDR :: u8 where "NIP_BITMAP_INCLUDE_SADDR \<equiv> 0x02"
abbreviation (input) NIP_BITMAP_INCLUDE_HDR_LEN :: u8 where "NIP_BITMAP_INCLUDE_HDR_LEN \<equiv> 0x80"
abbreviation (input) NIP_INVALID_BITMAP_2 :: u8 where "NIP_INVALID_BITMAP_2 \<equiv> 0x7F"

text \<open>The C test \<^verbatim>\<open>bitmap & FLAG\<close>.\<close>

definition bit_set :: "u8 \<Rightarrow> u8 \<Rightarrow> bool" where
  [hdr_defs]: "bit_set bm flag \<longleftrightarrow> and bm flag \<noteq> 0"

section \<open>The encoder\<close>

fun write_bytes :: "bytes \<Rightarrow> nat \<Rightarrow> bytes \<Rightarrow> bytes option" where
  "write_bytes buf p [] = Some buf"
| "write_bytes buf p (b # bs) =
    (case st8 buf p b of None \<Rightarrow> None | Some buf' \<Rightarrow> write_bytes buf' (p + 1) bs)"

definition put8 :: "u8 \<Rightarrow> nip_hdr_encap \<Rightarrow> nip_hdr_encap option" where
  "put8 b h = map_option (\<lambda>buf. h\<lparr>e_hdr_buf := buf, e_hdr_buf_pos := e_hdr_buf_pos h + 1\<rparr>)
     (st8 (e_hdr_buf h) (e_hdr_buf_pos h) b)"

definition nip_hdr_ttl_encap :: "nip_hdr_encap \<Rightarrow> nip_hdr_encap option" where
  "nip_hdr_ttl_encap h = put8 (e_ttl h) h"

definition nip_hdr_nexthdr_encap :: "nip_hdr_encap \<Rightarrow> nip_hdr_encap option" where
  "nip_hdr_nexthdr_encap h = put8 (e_nexthdr h) h"

text \<open>build_nip_addr may answer NULL and store nothing; the position moves by bitlen / 8 in
  any case, as the code ignores the result.\<close>

definition put_addr :: "nip_addr \<Rightarrow> nip_hdr_encap \<Rightarrow> nip_hdr_encap option" where
  "put_addr a h =
    map_option (\<lambda>buf. h\<lparr>e_hdr_buf := buf, e_hdr_buf_pos := e_hdr_buf_pos h + unat (bitlen a) div 8\<rparr>)
      (case build_nip_addr a of None \<Rightarrow> Some (e_hdr_buf h)
       | Some bs \<Rightarrow> write_bytes (e_hdr_buf h) (e_hdr_buf_pos h) bs)"

definition nip_hdr_daddr_encap :: "nip_hdr_encap \<Rightarrow> nip_hdr_encap option" where
  "nip_hdr_daddr_encap h = put_addr (e_daddr h) h"

definition nip_hdr_saddr_encap :: "nip_hdr_encap \<Rightarrow> nip_hdr_encap option" where
  "nip_hdr_saddr_encap h = put_addr (e_saddr h) h"

definition nip_hdr_len_encap :: "nip_hdr_encap \<Rightarrow> nip_hdr_encap" where
  "nip_hdr_len_encap h = h\<lparr>e_hdr_len_pos := Some (e_hdr_buf_pos h), e_hdr_buf_pos := e_hdr_buf_pos h + 1\<rparr>"

definition nip_update_hdr_len :: "nip_hdr_encap \<Rightarrow> nip_hdr_encap option" where
  "nip_update_hdr_len h = do {
     p \<leftarrow> e_hdr_len_pos h;
     buf \<leftarrow> st8 (e_hdr_buf h) p (of_nat (e_hdr_buf_pos h));
     Some (h\<lparr>e_hdr_buf := buf\<rparr>)
   }"

definition nip_hdr_total_len_encap :: "nip_hdr_encap \<Rightarrow> nip_hdr_encap" where
  "nip_hdr_total_len_encap h =
    h\<lparr>e_total_len_pos := Some (e_hdr_buf_pos h), e_hdr_buf_pos := e_hdr_buf_pos h + 2\<rparr>"

text \<open>A NULL total_len_pos (no nip_hdr_total_len_encap before) is a fault.\<close>

definition nip_update_total_len :: "nip_hdr_encap \<Rightarrow> u16 \<Rightarrow> nip_hdr_encap option" where
  "nip_update_total_len h total_len = do {
     p \<leftarrow> e_total_len_pos h;
     buf \<leftarrow> st16 (e_hdr_buf h) p total_len;
     Some (h\<lparr>e_hdr_buf := buf\<rparr>)
   }"

definition addr_lens_odd :: "nip_hdr_encap \<Rightarrow> bool" where
  "addr_lens_odd h \<longleftrightarrow> (unat (bitlen (e_daddr h)) div 8 + unat (bitlen (e_saddr h)) div 8) mod 2 \<noteq> 0"

definition encap_bitmap :: "u8 \<Rightarrow> u8 \<Rightarrow> nip_hdr_encap \<Rightarrow> nip_hdr_encap option" where
  "encap_bitmap bm bm_inc2 h =
    (if addr_lens_odd h then do {
       buf \<leftarrow> st8 (e_hdr_buf h) 0 bm;
       Some (h\<lparr>e_hdr_buf := buf, e_hdr_buf_pos := 1\<rparr>)
     } else do {
       buf \<leftarrow> st8 (e_hdr_buf h) 0 bm_inc2;
       buf \<leftarrow> st8 buf 1 0x00;
       Some (h\<lparr>e_hdr_buf := buf, e_hdr_buf_pos := 2\<rparr>)
     })"

definition nip_hdr_encap_udp_bitmap :: "nip_hdr_encap \<Rightarrow> nip_hdr_encap option" where
  "nip_hdr_encap_udp_bitmap h = encap_bitmap 0x56 0x57 h"

definition nip_hdr_encap_comm_bitmap :: "nip_hdr_encap \<Rightarrow> nip_hdr_encap option" where
  "nip_hdr_encap_comm_bitmap h = encap_bitmap 0x76 0x77 h"

definition nip_hdr_udp_encap :: "nip_hdr_encap \<Rightarrow> nip_hdr_encap option" where
  "nip_hdr_udp_encap h = do {
     h \<leftarrow> nip_hdr_encap_udp_bitmap h;
     h \<leftarrow> nip_hdr_ttl_encap h;
     h \<leftarrow> nip_hdr_nexthdr_encap h;
     h \<leftarrow> nip_hdr_daddr_encap h;
     nip_hdr_saddr_encap h
   }"

definition nip_hdr_comm_encap :: "nip_hdr_encap \<Rightarrow> nip_hdr_encap option" where
  "nip_hdr_comm_encap h = do {
     h \<leftarrow> nip_hdr_encap_comm_bitmap h;
     h \<leftarrow> nip_hdr_ttl_encap h;
     h \<leftarrow> Some (nip_hdr_total_len_encap h);
     h \<leftarrow> nip_hdr_nexthdr_encap h;
     h \<leftarrow> nip_hdr_daddr_encap h;
     nip_hdr_saddr_encap h
   }"

text \<open>Absent addresses (NULL) are None; 0 is the answer for an address without a class.\<close>

definition get_nip_hdr_len :: "nip_hdr_type \<Rightarrow> nip_addr option \<Rightarrow> nip_addr option \<Rightarrow> nat" where
  "get_nip_hdr_len t saddr daddr =
    (let base_len = (if t = NIP_HDR_UDP then 4 else 6);
         saddr_len = (case saddr of None \<Rightarrow> 0 | Some a \<Rightarrow> get_nip_addr_len a);
         daddr_len = (case daddr of None \<Rightarrow> 0 | Some a \<Rightarrow> get_nip_addr_len a)
     in if saddr \<noteq> None \<and> saddr_len = 0 then 0
        else if daddr \<noteq> None \<and> daddr_len = 0 then 0
        else base_len + saddr_len + daddr_len)"

text \<open>nip_calc_pkt_frag_num: unsigned arithmetic; a division by zero is None.\<close>

definition nip_calc_pkt_frag_num :: "u32 \<Rightarrow> u32 \<Rightarrow> u32 \<Rightarrow> nip_pkt_seg_info option" where
  "nip_calc_pkt_frag_num mtu nip_hdr_len usr_data_len =
    (let mid_len = and (mtu - nip_hdr_len - of_nat NIP_UDP_HDR_LEN) (not 7) in
     if mid_len = 0 then None
     else
       let mid_num = usr_data_len div mid_len;
           (mid_num, last_len) =
             (if usr_data_len \<noteq> 0
              then let last_len = usr_data_len mod mid_len in
                   if last_len = 0 then (mid_num - 1, mid_len) else (mid_num, last_len)
              else (mid_num, 0))
       in Some \<lparr>mid_pkt_num = mid_num, last_pkt_num = 1,
                mid_usr_pkt_len = mid_len, last_usr_pkt_len = last_len\<rparr>)"

definition nip_build_udp_hdr :: "u16 \<Rightarrow> u16 \<Rightarrow> u16 \<Rightarrow> bytes \<Rightarrow> nat \<Rightarrow> u16 \<Rightarrow> bytes option" where
  "nip_build_udp_hdr sport dport len buf p checksum = do {
     buf \<leftarrow> st16 buf p sport;
     buf \<leftarrow> st16 buf (p + 2) dport;
     buf \<leftarrow> st16 buf (p + 4) len;
     st16 buf (p + 6) checksum
   }"

section \<open>The parser\<close>

type_synonym field_result = "(int \<times> nip_hdr_decap) option"

text \<open>The do-while loop over the bitmap bytes: num or the error, with the array filled so far.\<close>

function nip_hdr_bitmap_loop ::
  "bytes \<Rightarrow> nat \<Rightarrow> nat \<Rightarrow> bytes \<Rightarrow> nat \<Rightarrow> (int \<times> bytes) option" where
  "nip_hdr_bitmap_loop buf p i bitmap index_max =
    (if i \<ge> index_max then Some (- decap_err NIP_HDR_BITMAP_NUM_OUT_RANGE, bitmap)
     else case rd8 buf p of None \<Rightarrow> None
       | Some b \<Rightarrow>
         let bitmap = bitmap[i := b] in
         if bit_set b NIP_BITMAP_HAVE_MORE_BIT
         then nip_hdr_bitmap_loop buf (p + 1) (i + 1) bitmap index_max
         else Some (int (i + 1), bitmap))"
  by pat_completeness auto
termination by (relation "measure (\<lambda>(buf, p, i, bm, m). m - i)") auto

declare nip_hdr_bitmap_loop.simps [simp del]

definition get_nip_hdr_bitmap :: "bytes \<Rightarrow> nat \<Rightarrow> bytes \<Rightarrow> nat \<Rightarrow> (int \<times> bytes) option" where
  "get_nip_hdr_bitmap buf p bitmap index_max =
    (case rd8 buf p of None \<Rightarrow> None
     | Some b \<Rightarrow>
       if bit_set b NIP_BITMAP_INVALID_SET then Some (- decap_err NIP_HDR_BITMAP_INVALID, bitmap)
       else nip_hdr_bitmap_loop buf p 0 bitmap index_max)"

definition get_nip_hdr_ttl :: "bytes \<Rightarrow> nat \<Rightarrow> u8 \<Rightarrow> nip_hdr_decap \<Rightarrow> field_result" where
  [hdr_defs]: "get_nip_hdr_ttl buf p bitmap niph =
    (if \<not> bit_set bitmap NIP_BITMAP_INCLUDE_TTL then Some (- decap_err NIP_HDR_NO_TTL, niph)
     else case rd8 buf p of None \<Rightarrow> None
       | Some b \<Rightarrow> Some (1, niph\<lparr>d_ttl := b, d_include_ttl := True\<rparr>))"

definition get_nip_hdr_hdr_len :: "bytes \<Rightarrow> nat \<Rightarrow> u8 \<Rightarrow> nip_hdr_decap \<Rightarrow> field_result" where
  [hdr_defs]: "get_nip_hdr_hdr_len buf p bitmap niph =
    (if \<not> bit_set bitmap NIP_BITMAP_INCLUDE_HDR_LEN then Some (0, niph)
     else case rd8 buf p of None \<Rightarrow> None
       | Some b \<Rightarrow>
         let niph = niph\<lparr>d_hdr_len := b, d_include_hdr_len := True\<rparr> in
         if d_include_total_len niph \<and> unat (d_hdr_len niph) \<ge> unat (d_rcv_buf_len niph)
         then Some (- decap_err NIP_HDR_LEN_OUT_RANGE, niph)
         else Some (1, niph))"

definition get_nip_hdr_nexthdr :: "bytes \<Rightarrow> nat \<Rightarrow> u8 \<Rightarrow> nip_hdr_decap \<Rightarrow> field_result" where
  [hdr_defs]: "get_nip_hdr_nexthdr buf p bitmap niph =
    (if \<not> bit_set bitmap NIP_BITMAP_INCLUDE_NEXT_HDR then Some (- decap_err NIP_HDR_NO_NEXT_HDR, niph)
     else case rd8 buf p of None \<Rightarrow> None
       | Some b \<Rightarrow> Some (1, niph\<lparr>d_nexthdr := b, d_include_nexthdr := True\<rparr>))"

definition get_nip_hdr_daddr :: "bytes \<Rightarrow> nat \<Rightarrow> u8 \<Rightarrow> nip_hdr_decap \<Rightarrow> field_result" where
  "get_nip_hdr_daddr buf p bitmap niph =
    (if \<not> bit_set bitmap NIP_BITMAP_INCLUDE_DADDR then Some (- decap_err NIP_HDR_NO_DADDR, niph)
     else case decode_nip_addr buf p (d_daddr niph) of None \<Rightarrow> None
       | Some (a, q) \<Rightarrow>
         let niph = niph\<lparr>d_daddr := a\<rparr> in
         if q = None then Some (- decap_err NIP_HDR_DECAP_DADDR_ERR, niph)
         else if nip_addr_invalid (d_daddr niph) \<noteq> CURRENT_ADDR_VALID
         then Some (- decap_err NIP_HDR_DADDR_INVALID, niph)
         else Some (int (unat (bitlen (d_daddr niph)) div 8), niph\<lparr>d_include_daddr := True\<rparr>))"

definition get_nip_hdr_saddr :: "bytes \<Rightarrow> nat \<Rightarrow> u8 \<Rightarrow> nip_hdr_decap \<Rightarrow> field_result" where
  "get_nip_hdr_saddr buf p bitmap niph =
    (if \<not> bit_set bitmap NIP_BITMAP_INCLUDE_SADDR then Some (0, niph)
     else case decode_nip_addr buf p (d_saddr niph) of None \<Rightarrow> None
       | Some (a, q) \<Rightarrow>
         let niph = niph\<lparr>d_saddr := a\<rparr> in
         if q = None then Some (- decap_err NIP_HDR_DECAP_SADDR_ERR, niph)
         else if nip_addr_invalid (d_saddr niph) \<noteq> CURRENT_ADDR_VALID
         then Some (- decap_err NIP_HDR_SADDR_INVALID, niph)
         else Some (int (unat (bitlen (d_saddr niph)) div 8), niph\<lparr>d_include_saddr := True\<rparr>))"

definition get_nip_total_len :: "bytes \<Rightarrow> nat \<Rightarrow> u8 \<Rightarrow> nip_hdr_decap \<Rightarrow> field_result" where
  [hdr_defs]: "get_nip_total_len buf p bitmap niph =
    (if \<not> bit_set bitmap NIP_BITMAP_INCLUDE_TOTAL_LEN then Some (0, niph)
     else case ld16 buf p of None \<Rightarrow> None
       | Some w \<Rightarrow> Some (2, niph\<lparr>d_total_len := w, d_include_total_len := True\<rparr>))"

text \<open>One field of the header: an error ends the parse, a length moves the pointer.\<close>

definition parse_field ::
  "(bytes \<Rightarrow> nat \<Rightarrow> u8 \<Rightarrow> nip_hdr_decap \<Rightarrow> field_result) \<Rightarrow> bytes \<Rightarrow> nat \<Rightarrow> u8 \<Rightarrow>
   int \<times> nip_hdr_decap \<Rightarrow> field_result" where
  "parse_field f buf p bitmap = (\<lambda>(len_total, niph).
    if len_total < 0 then Some (len_total, niph)
    else case f buf (p + nat len_total) bitmap niph of None \<Rightarrow> None
      | Some (len, niph) \<Rightarrow> Some (if len < 0 then len else len_total + len, niph))"

definition nip_hdr_bitmap0_parse :: "bytes \<Rightarrow> nat \<Rightarrow> u8 \<Rightarrow> nip_hdr_decap \<Rightarrow> field_result" where
  "nip_hdr_bitmap0_parse buf p bitmap niph = do {
     r \<leftarrow> parse_field get_nip_hdr_ttl buf p bitmap (0, niph);
     r \<leftarrow> parse_field get_nip_total_len buf p bitmap r;
     r \<leftarrow> parse_field get_nip_hdr_nexthdr buf p bitmap r;
     r \<leftarrow> parse_field get_nip_hdr_daddr buf p bitmap r;
     parse_field get_nip_hdr_saddr buf p bitmap r
   }"

definition nip_hdr_bitmap1_parse :: "bytes \<Rightarrow> nat \<Rightarrow> u8 \<Rightarrow> nip_hdr_decap \<Rightarrow> field_result" where
  "nip_hdr_bitmap1_parse buf p bitmap niph =
    (let niph = (if bit_set bitmap NIP_INVALID_BITMAP_2
                 then niph\<lparr>d_include_unknown_bit := True\<rparr> else niph)
     in parse_field get_nip_hdr_hdr_len buf p bitmap (0, niph))"

definition nip_hdr_unknown_bit_check :: "bytes \<Rightarrow> nat \<Rightarrow> u8 \<Rightarrow> nip_hdr_decap \<Rightarrow> field_result" where
  "nip_hdr_unknown_bit_check buf p bitmap niph = Some (0, niph\<lparr>d_include_unknown_bit := True\<rparr>)"

definition hdr_parse_factory :: "(bytes \<Rightarrow> nat \<Rightarrow> u8 \<Rightarrow> nip_hdr_decap \<Rightarrow> field_result) list" where
  "hdr_parse_factory = [nip_hdr_bitmap0_parse, nip_hdr_bitmap1_parse, nip_hdr_unknown_bit_check]"

definition nip_hdr_check :: "nip_hdr_decap \<Rightarrow> int" where
  "nip_hdr_check niph =
    (if d_include_unknown_bit niph \<and> \<not> d_include_hdr_len niph
     then - decap_err NIP_HDR_UNKNOWN_AND_NO_HDR_LEN
     else if d_include_hdr_len niph \<and>
       (d_hdr_len niph = 0 \<or> d_hdr_len niph < d_hdr_real_len niph)
     then - decap_err NIP_HDR_LEN_INVALID
     else 0)"

text \<open>The while loop of nip_hdr_parse: 0 when it runs to its end, else the error returned.\<close>

function nip_hdr_parse_loop ::
  "bytes \<Rightarrow> u32 \<Rightarrow> bytes \<Rightarrow> nat \<Rightarrow> nat \<Rightarrow> nat \<Rightarrow> nip_hdr_decap \<Rightarrow> field_result" where
  "nip_hdr_parse_loop rcv_buf buf_len bitmap num i p niph =
    (if i < num \<and> i < FACTORY_NUM_MAX then
       case (hdr_parse_factory ! i) rcv_buf p (bitmap ! i) niph of None \<Rightarrow> None
       | Some (len, niph) \<Rightarrow>
         if len < 0 then Some (len, niph)
         else
           let niph = niph\<lparr>d_hdr_real_len := d_hdr_real_len niph + of_int len\<rparr> in
           if unat (d_hdr_real_len niph) \<ge> unat buf_len
           then Some (- decap_err NIP_HDR_RCV_BUF_READ_OUT_RANGE, niph)
           else nip_hdr_parse_loop rcv_buf buf_len bitmap num (i + 1) (p + nat len) niph
     else Some (0, niph))"
  by pat_completeness auto
termination by (relation "measure (\<lambda>(b, l, bm, num, i, p, h). num - i)") auto

declare nip_hdr_parse_loop.simps [simp del]

definition nip_hdr_parse :: "bytes \<Rightarrow> u32 \<Rightarrow> nip_hdr_decap \<Rightarrow> field_result" where
  "nip_hdr_parse rcv_buf buf_len niph =
    (case get_nip_hdr_bitmap rcv_buf 0 (replicate BITMAP_MAX 0) BITMAP_MAX of None \<Rightarrow> None
     | Some (num, bitmap) \<Rightarrow>
       if num \<le> 0 then Some (num, niph)
       else
         let niph = niph\<lparr>d_hdr_real_len := of_int num, d_rcv_buf_len := buf_len\<rparr> in
         case nip_hdr_parse_loop rcv_buf buf_len bitmap (nat num) 0 (nat num) niph of None \<Rightarrow> None
         | Some (ret, niph) \<Rightarrow>
           if ret < 0 then Some (ret, niph)
           else
             let ret = nip_hdr_check niph in
             if ret < 0 then Some (ret, niph)
             else Some (if d_hdr_len niph > d_hdr_real_len niph
                        then int (unat (d_hdr_len niph)) else int (unat (d_hdr_real_len niph)), niph))"

text \<open>The zeroed nip_hdr_decap the receive path starts from (nip_input.c: niph = {0}).\<close>

definition zero_addr :: nip_addr where
  "zero_addr = \<lparr>bitlen = 0, field8 = replicate 8 0\<rparr>"

definition zero_decap :: nip_hdr_decap where
  "zero_decap = \<lparr>d_saddr = zero_addr, d_daddr = zero_addr, d_ttl = 0, d_nexthdr = 0, d_hdr_len = 0,
     d_hdr_real_len = 0, d_total_len = 0, d_include_unknown_bit = False, d_include_saddr = False,
     d_include_daddr = False, d_include_ttl = False, d_include_nexthdr = False,
     d_include_hdr_len = False, d_include_total_len = False, d_rcv_buf_len = 0\<rparr>"

section \<open>The encoder writes the documented layout\<close>

text \<open>A valid address with a whole number of bytes, as the stack keeps them.\<close>

definition valid_addr :: "nip_addr \<Rightarrow> bool" where
  "valid_addr a \<longleftrightarrow> wf_addr a \<and> nip_addr_invalid a = CURRENT_ADDR_VALID \<and> unat (bitlen a) mod 8 = 0"

definition addr_bytes :: "nip_addr \<Rightarrow> bytes" where
  "addr_bytes a = take (get_nip_addr_len a) (field8 a)"

lemma valid_addrD:
  assumes "valid_addr a"
  shows "wf_addr a" "nip_addr_invalid a = CURRENT_ADDR_VALID"
    "unat (bitlen a) div 8 = get_nip_addr_len a" "build_nip_addr a = Some (addr_bytes a)"
    "length (addr_bytes a) = get_nip_addr_len a" "0 < get_nip_addr_len a"
    "a\<lparr>bitlen := of_nat (get_nip_addr_len a * 8)\<rparr> = a"
proof -
  show w: "wf_addr a" "nip_addr_invalid a = CURRENT_ADDR_VALID" using assms by (auto simp: valid_addr_def)
  show d: "unat (bitlen a) div 8 = get_nip_addr_len a" "0 < get_nip_addr_len a"
    using w(2) by (simp_all add: nip_addr_valid_iff)
  show "build_nip_addr a = Some (addr_bytes a)"
    using w d by (simp add: build_nip_addr_eq addr_bytes_def)
  show "length (addr_bytes a) = get_nip_addr_len a"
    using w(1) get_nip_addr_len_le [of a] by (simp add: addr_bytes_def wf_addr_def)
  have "bitlen a = of_nat (8 * get_nip_addr_len a)"
    using assms d(1) by (intro bitlen_exact) (auto simp: valid_addr_def)
  then show "a\<lparr>bitlen := of_nat (get_nip_addr_len a * 8)\<rparr> = a"
    by (cases a) (simp add: mult.commute)
qed

lemma write_bytes_at:
  "length bs \<le> length rest \<Longrightarrow>
   write_bytes (pre @ rest) (length pre) bs = Some (pre @ bs @ drop (length bs) rest)"
proof (induction bs arbitrary: pre rest)
  case (Cons b bs)
  then obtain r rest' where r: "rest = r # rest'" by (cases rest) auto
  have "write_bytes ((pre @ [b]) @ rest') (length (pre @ [b])) bs
      = Some ((pre @ [b]) @ bs @ drop (length bs) rest')"
    using Cons.prems r by (intro Cons.IH) simp
  then show ?case using r by simp
qed simp

text \<open>The state of the encoder, started at h0, after it has written pre.\<close>

definition written :: "nip_hdr_encap \<Rightarrow> nat option \<Rightarrow> bytes \<Rightarrow> nip_hdr_encap \<Rightarrow> bool" where
  "written h0 tp pre h \<longleftrightarrow> e_hdr_buf h = pre @ drop (length pre) (e_hdr_buf h0) \<and>
     e_hdr_buf_pos h = length pre \<and> e_total_len_pos h = tp \<and> e_ttl h = e_ttl h0 \<and>
     e_nexthdr h = e_nexthdr h0 \<and> e_daddr h = e_daddr h0 \<and> e_saddr h = e_saddr h0"

lemma written_put8:
  "written h0 tp pre h \<Longrightarrow> length pre < length (e_hdr_buf h0) \<Longrightarrow>
   \<exists>h'. put8 b h = Some h' \<and> written h0 tp (pre @ [b]) h'"
  by (auto simp: written_def put8_def list_update_append Cons_nth_drop_Suc [symmetric])

lemma written_put_addr:
  assumes "written h0 tp pre h" "valid_addr a" "length pre + get_nip_addr_len a \<le> length (e_hdr_buf h0)"
  shows "\<exists>h'. put_addr a h = Some h' \<and> written h0 tp (pre @ addr_bytes a) h'"
  using assms valid_addrD [OF assms(2)]
  by (simp add: written_def put_addr_def write_bytes_at add.commute)

lemma written_total_len:
  assumes "written h0 tp pre h"
  shows "written h0 (Some (length pre)) (pre @ take 2 (drop (length pre) (e_hdr_buf h0)))
     (nip_hdr_total_len_encap h) \<or> length (e_hdr_buf h0) < length pre + 2"
  using assms append_take_drop_id [of 2 "drop (length pre) (e_hdr_buf h0)"]
  by (auto simp: written_def nip_hdr_total_len_encap_def add.commute)

text \<open>The bitmap bytes: the second one pads the header to an even length.\<close>

definition bitmap_bytes :: "u8 \<Rightarrow> u8 \<Rightarrow> nip_addr \<Rightarrow> nip_addr \<Rightarrow> bytes" where
  "bitmap_bytes bm bm2 daddr saddr =
    (if odd (get_nip_addr_len daddr + get_nip_addr_len saddr) then [bm] else [bm2, 0])"

definition udp_hdr_bytes :: "nip_addr \<Rightarrow> nip_addr \<Rightarrow> u8 \<Rightarrow> u8 \<Rightarrow> bytes" where
  "udp_hdr_bytes daddr saddr ttl nexthdr =
    bitmap_bytes 0x56 0x57 daddr saddr @ [ttl, nexthdr] @ addr_bytes daddr @ addr_bytes saddr"

definition comm_hdr_bytes :: "nip_addr \<Rightarrow> nip_addr \<Rightarrow> u8 \<Rightarrow> u16 \<Rightarrow> u8 \<Rightarrow> bytes" where
  "comm_hdr_bytes daddr saddr ttl total_len nexthdr =
    bitmap_bytes 0x76 0x77 daddr saddr @ [ttl, lo8 total_len, hi8 total_len, nexthdr]
      @ addr_bytes daddr @ addr_bytes saddr"

lemma written_bitmap:
  assumes "valid_addr (e_daddr h)" "valid_addr (e_saddr h)" "2 \<le> length (e_hdr_buf h)"
  shows "\<exists>h'. encap_bitmap bm bm2 h = Some h' \<and>
    written h (e_total_len_pos h) (bitmap_bytes bm bm2 (e_daddr h) (e_saddr h)) h'"
proof -
  obtain x y r where b: "e_hdr_buf h = x # y # r"
    using assms(3) by (metis Suc_le_length_iff numeral_2_eq_2)
  have "addr_lens_odd h \<longleftrightarrow> odd (get_nip_addr_len (e_daddr h) + get_nip_addr_len (e_saddr h))"
    unfolding addr_lens_odd_def valid_addrD(3) [OF assms(1)] valid_addrD(3) [OF assms(2)]
    by (simp add: odd_iff_mod_2_eq_one del: even_add)
  then show ?thesis
    using b by (simp add: encap_bitmap_def bitmap_bytes_def written_def del: even_add)
qed

lemma nip_hdr_udp_encap_layout:
  assumes v: "valid_addr (e_daddr h)" "valid_addr (e_saddr h)"
    and l: "length (udp_hdr_bytes (e_daddr h) (e_saddr h) (e_ttl h) (e_nexthdr h)) \<le> length (e_hdr_buf h)"
  shows "\<exists>h'. nip_hdr_udp_encap h = Some h' \<and>
    written h (e_total_len_pos h) (udp_hdr_bytes (e_daddr h) (e_saddr h) (e_ttl h) (e_nexthdr h)) h'"
proof -
  let ?W = "written h (e_total_len_pos h)"
  let ?bm = "bitmap_bytes 0x56 0x57 (e_daddr h) (e_saddr h)"
  note d = valid_addrD [OF v(1)] and s = valid_addrD [OF v(2)]
  have len: "length ?bm + 2 + get_nip_addr_len (e_daddr h) + get_nip_addr_len (e_saddr h) \<le> length (e_hdr_buf h)"
    using l d(5) s(5) by (simp add: udp_hdr_bytes_def)
  obtain h1 where 1: "nip_hdr_encap_udp_bitmap h = Some h1" "?W ?bm h1"
    using written_bitmap [OF v] len unfolding nip_hdr_encap_udp_bitmap_def by fastforce
  obtain h2 where 2: "put8 (e_ttl h) h1 = Some h2" "?W (?bm @ [e_ttl h]) h2"
    using written_put8 [OF 1(2)] len by fastforce
  obtain h3 where 3: "put8 (e_nexthdr h) h2 = Some h3" "?W ((?bm @ [e_ttl h]) @ [e_nexthdr h]) h3"
    using written_put8 [OF 2(2)] len by fastforce
  obtain h4 where 4: "put_addr (e_daddr h) h3 = Some h4"
    "?W (((?bm @ [e_ttl h]) @ [e_nexthdr h]) @ addr_bytes (e_daddr h)) h4"
    using written_put_addr [OF 3(2) v(1)] len by fastforce
  obtain h5 where 5: "put_addr (e_saddr h) h4 = Some h5"
    "?W ((((?bm @ [e_ttl h]) @ [e_nexthdr h]) @ addr_bytes (e_daddr h)) @ addr_bytes (e_saddr h)) h5"
    using written_put_addr [OF 4(2) v(2)] len d(5) by fastforce
  have f: "e_ttl h1 = e_ttl h" "e_nexthdr h2 = e_nexthdr h" "e_daddr h3 = e_daddr h" "e_saddr h4 = e_saddr h"
    using 1(2) 2(2) 3(2) 4(2) by (auto simp: written_def)
  have "nip_hdr_udp_encap h = Some h5"
    using 1(1) 2(1) 3(1) 4(1) 5(1) f
    by (simp add: nip_hdr_udp_encap_def nip_hdr_ttl_encap_def nip_hdr_nexthdr_encap_def
        nip_hdr_daddr_encap_def nip_hdr_saddr_encap_def)
  then show ?thesis using 5(2) by (simp add: udp_hdr_bytes_def)
qed

lemma nip_hdr_comm_encap_layout:
  assumes v: "valid_addr (e_daddr h)" "valid_addr (e_saddr h)"
    and l: "length (comm_hdr_bytes (e_daddr h) (e_saddr h) (e_ttl h) t (e_nexthdr h)) \<le> length (e_hdr_buf h)"
  shows "\<exists>h' h''. nip_hdr_comm_encap h = Some h' \<and> nip_update_total_len h' t = Some h'' \<and>
    e_hdr_buf_pos h'' = length (comm_hdr_bytes (e_daddr h) (e_saddr h) (e_ttl h) t (e_nexthdr h)) \<and>
    e_hdr_buf h'' = comm_hdr_bytes (e_daddr h) (e_saddr h) (e_ttl h) t (e_nexthdr h)
      @ drop (e_hdr_buf_pos h'') (e_hdr_buf h)"
proof -
  let ?bm = "bitmap_bytes 0x76 0x77 (e_daddr h) (e_saddr h)"
  let ?p = "length (?bm @ [e_ttl h])"
  let ?W = "written h (e_total_len_pos h)" and ?V = "written h (Some ?p)"
  note d = valid_addrD [OF v(1)] and s = valid_addrD [OF v(2)]
  have len: "length ?bm + 4 + get_nip_addr_len (e_daddr h) + get_nip_addr_len (e_saddr h) \<le> length (e_hdr_buf h)"
    using l d(5) s(5) by (simp add: comm_hdr_bytes_def)
  then obtain x y r where xy: "drop ?p (e_hdr_buf h) = x # y # r"
    by (cases "drop ?p (e_hdr_buf h)"; cases "tl (drop ?p (e_hdr_buf h))") (auto dest!: arg_cong [of _ _ length])
  obtain h1 where 1: "nip_hdr_encap_comm_bitmap h = Some h1" "?W ?bm h1"
    using written_bitmap [OF v] len unfolding nip_hdr_encap_comm_bitmap_def by fastforce
  obtain h2 where 2: "put8 (e_ttl h) h1 = Some h2" "?W (?bm @ [e_ttl h]) h2"
    using written_put8 [OF 1(2)] len by fastforce
  have 3: "?V ((?bm @ [e_ttl h]) @ [x, y]) (nip_hdr_total_len_encap h2)"
    using written_total_len [OF 2(2)] len xy by simp
  obtain h4 where 4: "put8 (e_nexthdr h) (nip_hdr_total_len_encap h2) = Some h4"
    "?V (((?bm @ [e_ttl h]) @ [x, y]) @ [e_nexthdr h]) h4"
    using written_put8 [OF 3] len by fastforce
  obtain h5 where 5: "put_addr (e_daddr h) h4 = Some h5"
    "?V ((((?bm @ [e_ttl h]) @ [x, y]) @ [e_nexthdr h]) @ addr_bytes (e_daddr h)) h5"
    using written_put_addr [OF 4(2) v(1)] len by fastforce
  obtain h6 where 6: "put_addr (e_saddr h) h5 = Some h6"
    "?V (((((?bm @ [e_ttl h]) @ [x, y]) @ [e_nexthdr h]) @ addr_bytes (e_daddr h)) @ addr_bytes (e_saddr h)) h6"
    using written_put_addr [OF 5(2) v(2)] len d(5) by fastforce
  have f: "e_ttl h1 = e_ttl h" "e_nexthdr (nip_hdr_total_len_encap h2) = e_nexthdr h"
    "e_daddr h4 = e_daddr h" "e_saddr h5 = e_saddr h"
    using 1(2) 3 4(2) 5(2) by (auto simp: written_def)
  have "nip_hdr_comm_encap h = Some h6"
    using 1(1) 2(1) 4(1) 5(1) 6(1) f
    by (simp add: nip_hdr_comm_encap_def nip_hdr_ttl_encap_def nip_hdr_nexthdr_encap_def
        nip_hdr_daddr_encap_def nip_hdr_saddr_encap_def)
  moreover from 6(2) have "nip_update_total_len h6 t = Some (h6\<lparr>e_hdr_buf :=
      comm_hdr_bytes (e_daddr h) (e_saddr h) (e_ttl h) t (e_nexthdr h)
      @ drop (e_hdr_buf_pos h6) (e_hdr_buf h)\<rparr>)"
    by (simp add: written_def nip_update_total_len_def comm_hdr_bytes_def list_update_append)
  moreover have "e_hdr_buf_pos h6 = length (comm_hdr_bytes (e_daddr h) (e_saddr h) (e_ttl h) t (e_nexthdr h))"
    using 6(2) by (simp add: written_def comm_hdr_bytes_def)
  ultimately show ?thesis by simp
qed

section \<open>The parser on the layout\<close>

lemma rd8_at: "p = length pre \<Longrightarrow> rd8 (pre @ x # rest) p = Some x"
  by simp

lemma zero_addr_facts: "wf_addr zero_addr" "nip_addr_tail_zero zero_addr 1"
  by (simp_all add: wf_addr_def zero_addr_def nip_addr_tail_zero_def list_all_iff)

lemma decode_at:
  assumes "valid_addr a" "p = length pre"
  shows "decode_nip_addr (pre @ addr_bytes a @ rest) p zero_addr
    = Some (a, Some (p + length (addr_bytes a)))"
  using decode_build [OF valid_addrD(1,2) [OF assms(1)] zero_addr_facts valid_addrD(4) [OF assms(1)],
      where pre = pre and rest = rest] assms(2) valid_addrD(7) [OF assms(1)]
  by simp

lemma daddr_at:
  assumes "valid_addr a" "p = length pre" "bit_set bm NIP_BITMAP_INCLUDE_DADDR" "d_daddr niph = zero_addr"
  shows "get_nip_hdr_daddr (pre @ addr_bytes a @ rest) p bm niph
    = Some (int (length (addr_bytes a)), niph\<lparr>d_daddr := a, d_include_daddr := True\<rparr>)"
  using assms valid_addrD(2,3,5) [OF assms(1)] by (simp add: get_nip_hdr_daddr_def decode_at)

lemma saddr_at:
  assumes "valid_addr a" "p = length pre" "bit_set bm NIP_BITMAP_INCLUDE_SADDR" "d_saddr niph = zero_addr"
  shows "get_nip_hdr_saddr (pre @ addr_bytes a @ rest) p bm niph
    = Some (int (length (addr_bytes a)), niph\<lparr>d_saddr := a, d_include_saddr := True\<rparr>)"
  using assms valid_addrD(2,3,5) [OF assms(1)] by (simp add: get_nip_hdr_saddr_def decode_at)

lemma parse_field_step:
  "f buf (p + n) bm niph = Some (int k, niph') \<Longrightarrow>
   parse_field f buf p bm (int n, niph) = Some (int (n + k), niph')"
  by (simp add: parse_field_def)

definition mandatory_bits :: "u8 \<Rightarrow> bool" where
  "mandatory_bits bm \<longleftrightarrow> bit_set bm NIP_BITMAP_INCLUDE_TTL \<and> bit_set bm NIP_BITMAP_INCLUDE_NEXT_HDR \<and>
     bit_set bm NIP_BITMAP_INCLUDE_DADDR \<and> bit_set bm NIP_BITMAP_INCLUDE_SADDR"

lemma bitmap0_parse_udp:
  assumes m: "mandatory_bits bm" "\<not> bit_set bm NIP_BITMAP_INCLUDE_TOTAL_LEN"
    and v: "valid_addr da" "valid_addr sa" and z: "d_daddr niph = zero_addr" "d_saddr niph = zero_addr"
  shows "nip_hdr_bitmap0_parse (pre @ [ttl, nh] @ addr_bytes da @ addr_bytes sa @ rest) (length pre) bm niph
    = Some (int (2 + length (addr_bytes da) + length (addr_bytes sa)),
        niph\<lparr>d_ttl := ttl, d_include_ttl := True, d_nexthdr := nh, d_include_nexthdr := True,
          d_daddr := da, d_include_daddr := True, d_saddr := sa, d_include_saddr := True\<rparr>)"
proof -
  let ?buf = "pre @ [ttl, nh] @ addr_bytes da @ addr_bytes sa @ rest" and ?p = "length pre"
  let ?n1 = "niph\<lparr>d_ttl := ttl, d_include_ttl := True\<rparr>"
  let ?n2 = "?n1\<lparr>d_nexthdr := nh, d_include_nexthdr := True\<rparr>"
  let ?n3 = "?n2\<lparr>d_daddr := da, d_include_daddr := True\<rparr>"
  let ?n4 = "?n3\<lparr>d_saddr := sa, d_include_saddr := True\<rparr>"
  note mb = m [unfolded mandatory_bits_def]
  have 1: "parse_field get_nip_hdr_ttl ?buf ?p bm (0, niph) = Some (int 1, ?n1)"
    using mb by (simp add: parse_field_def get_nip_hdr_ttl_def)
  have 2: "parse_field get_nip_total_len ?buf ?p bm (int 1, ?n1) = Some (int 1, ?n1)"
    using mb by (simp add: parse_field_def get_nip_total_len_def)
  have 3: "parse_field get_nip_hdr_nexthdr ?buf ?p bm (int 1, ?n1) = Some (int 2, ?n2)"
    using mb by (simp add: parse_field_def get_nip_hdr_nexthdr_def nth_append)
  have 4: "parse_field get_nip_hdr_daddr ?buf ?p bm (int 2, ?n2)
      = Some (int (2 + length (addr_bytes da)), ?n3)"
    using mb z daddr_at [OF v(1), of "?p + 2" "pre @ [ttl, nh]" bm ?n2 "addr_bytes sa @ rest"]
    by (intro parse_field_step) simp
  have 5: "parse_field get_nip_hdr_saddr ?buf ?p bm (int (2 + length (addr_bytes da)), ?n3)
      = Some (int (2 + length (addr_bytes da) + length (addr_bytes sa)), ?n4)"
    using mb z saddr_at [OF v(2), of "?p + (2 + length (addr_bytes da))" "pre @ [ttl, nh] @ addr_bytes da" bm ?n3 rest]
    by (intro parse_field_step) simp
  show ?thesis by (simp only: nip_hdr_bitmap0_parse_def 1 2 3 4 5 bind.bind_lunit)
qed

lemma bitmap0_parse_comm:
  assumes m: "mandatory_bits bm" "bit_set bm NIP_BITMAP_INCLUDE_TOTAL_LEN"
    and v: "valid_addr da" "valid_addr sa" and z: "d_daddr niph = zero_addr" "d_saddr niph = zero_addr"
  shows "nip_hdr_bitmap0_parse (pre @ [ttl, lo8 t, hi8 t, nh] @ addr_bytes da @ addr_bytes sa @ rest)
      (length pre) bm niph
    = Some (int (4 + length (addr_bytes da) + length (addr_bytes sa)),
        niph\<lparr>d_ttl := ttl, d_include_ttl := True, d_total_len := t, d_include_total_len := True,
          d_nexthdr := nh, d_include_nexthdr := True,
          d_daddr := da, d_include_daddr := True, d_saddr := sa, d_include_saddr := True\<rparr>)"
proof -
  let ?h = "[ttl, lo8 t, hi8 t, nh]"
  let ?buf = "pre @ ?h @ addr_bytes da @ addr_bytes sa @ rest" and ?p = "length pre"
  let ?n1 = "niph\<lparr>d_ttl := ttl, d_include_ttl := True\<rparr>"
  let ?n1t = "?n1\<lparr>d_total_len := t, d_include_total_len := True\<rparr>"
  let ?n2 = "?n1t\<lparr>d_nexthdr := nh, d_include_nexthdr := True\<rparr>"
  let ?n3 = "?n2\<lparr>d_daddr := da, d_include_daddr := True\<rparr>"
  let ?n4 = "?n3\<lparr>d_saddr := sa, d_include_saddr := True\<rparr>"
  note mb = m [unfolded mandatory_bits_def]
  have 1: "parse_field get_nip_hdr_ttl ?buf ?p bm (0, niph) = Some (int 1, ?n1)"
    using mb by (simp add: parse_field_def get_nip_hdr_ttl_def)
  have 2: "parse_field get_nip_total_len ?buf ?p bm (int 1, ?n1) = Some (int 3, ?n1t)"
    using mb by (simp add: parse_field_def get_nip_total_len_def nth_append)
  have 3: "parse_field get_nip_hdr_nexthdr ?buf ?p bm (int 3, ?n1t) = Some (int 4, ?n2)"
    using mb by (simp add: parse_field_def get_nip_hdr_nexthdr_def nth_append)
  have 4: "parse_field get_nip_hdr_daddr ?buf ?p bm (int 4, ?n2)
      = Some (int (4 + length (addr_bytes da)), ?n3)"
    using mb z daddr_at [OF v(1), of "?p + 4" "pre @ ?h" bm ?n2 "addr_bytes sa @ rest"]
    by (intro parse_field_step) simp
  have 5: "parse_field get_nip_hdr_saddr ?buf ?p bm (int (4 + length (addr_bytes da)), ?n3)
      = Some (int (4 + length (addr_bytes da) + length (addr_bytes sa)), ?n4)"
    using mb z saddr_at [OF v(2), of "?p + (4 + length (addr_bytes da))" "pre @ ?h @ addr_bytes da" bm ?n3 rest]
    by (intro parse_field_step) simp
  show ?thesis by (simp only: nip_hdr_bitmap0_parse_def 1 2 3 4 5 bind.bind_lunit)
qed

lemma bitmap_read:
  assumes "\<not> bit_set bm NIP_BITMAP_INVALID_SET" "\<not> bit_set bm NIP_BITMAP_HAVE_MORE_BIT"
    "\<not> bit_set bmi NIP_BITMAP_INVALID_SET" "bit_set bmi NIP_BITMAP_HAVE_MORE_BIT"
    and bb: "bb = bitmap_bytes bm bmi da sa"
  shows "get_nip_hdr_bitmap (bb @ rest) 0 (replicate BITMAP_MAX 0) BITMAP_MAX
    = Some (int (length bb), bb @ replicate (BITMAP_MAX - length bb) 0)"
proof -
  have z: "\<not> bit_set 0 NIP_BITMAP_HAVE_MORE_BIT" by (simp add: bit_set_def)
  show ?thesis
    using assms(1-4) z unfolding bb bitmap_bytes_def BITMAP_MAX_def
    by (simp add: get_nip_hdr_bitmap_def nip_hdr_bitmap_loop.simps eval_nat_numeral)
qed

lemma parse_loop_layout:
  assumes p: "nip_hdr_bitmap0_parse buf (length bb) (bb ! 0) niph = Some (int n, niph1)"
    and bb: "bb = [b] \<or> bb = [b, 0]"
    and n: "length bb + n < unat buf_len" "length bb + n < 256" "d_hdr_real_len niph1 = of_nat (length bb)"
  shows "nip_hdr_parse_loop buf buf_len (bb @ z) (length bb) 0 (length bb) niph
    = Some (0, niph1\<lparr>d_hdr_real_len := of_nat (length bb + n)\<rparr>)"
proof -
  have u: "unat (of_nat (length bb + n) :: u8) = length bb + n"
    using n(2) by (simp add: unat_of_nat_u8 del: of_nat_add)
  have c: "\<not> bit_set 0 NIP_INVALID_BITMAP_2" "\<not> bit_set 0 NIP_BITMAP_INCLUDE_HDR_LEN"
    by (simp_all add: bit_set_def)
  from bb show ?thesis
  proof
    assume b: "bb = [b]"
    show ?thesis
      using p n u b by (subst nip_hdr_parse_loop.simps)
        (simp add: FACTORY_NUM_MAX_def hdr_parse_factory_def Let_def nip_hdr_parse_loop.simps flip: of_nat_add of_nat_Suc)
  next
    assume b: "bb = [b, 0]"
    let ?niph = "niph1\<lparr>d_hdr_real_len := of_nat (length bb + n)\<rparr>"
    have 2: "nip_hdr_bitmap1_parse buf (length bb + n) 0 ?niph = Some (0, ?niph)"
      using c by (simp add: nip_hdr_bitmap1_parse_def parse_field_def get_nip_hdr_hdr_len_def)
    have "nip_hdr_parse_loop buf buf_len (bb @ z) (length bb) 1 (length bb + n) ?niph = Some (0, ?niph)"
      using n u b 2 by (subst nip_hdr_parse_loop.simps)
        (simp add: FACTORY_NUM_MAX_def hdr_parse_factory_def Let_def nip_hdr_parse_loop.simps del: of_nat_add)
    then show ?thesis
      using p n u b by (subst nip_hdr_parse_loop.simps)
        (simp add: FACTORY_NUM_MAX_def hdr_parse_factory_def Let_def flip: of_nat_add)
  qed
qed

lemma nip_hdr_parse_layout:
  assumes "\<not> bit_set bm NIP_BITMAP_INVALID_SET" "\<not> bit_set bm NIP_BITMAP_HAVE_MORE_BIT"
    "\<not> bit_set bmi NIP_BITMAP_INVALID_SET" "bit_set bmi NIP_BITMAP_HAVE_MORE_BIT"
    and bb: "bb = bitmap_bytes bm bmi da sa"
    and p: "nip_hdr_bitmap0_parse (bb @ rest) (length bb) (bb ! 0)
      (zero_decap\<lparr>d_hdr_real_len := of_nat (length bb), d_rcv_buf_len := buf_len\<rparr>) = Some (int n, niph1)"
    and n: "length bb + n < unat buf_len" "length bb + n < 256" "d_hdr_real_len niph1 = of_nat (length bb)"
    and f: "\<not> d_include_unknown_bit niph1" "\<not> d_include_hdr_len niph1" "d_hdr_len niph1 = 0"
  shows "nip_hdr_parse (bb @ rest) buf_len zero_decap
    = Some (int (length bb + n), niph1\<lparr>d_hdr_real_len := of_nat (length bb + n)\<rparr>)"
proof -
  have b: "\<exists>b. bb = [b] \<or> bb = [b, 0]" by (auto simp: bb bitmap_bytes_def)
  then obtain b where b: "bb = [b] \<or> bb = [b, 0]" by blast
  then have l: "0 < length bb" by auto
  let ?w = "of_nat (length bb + n) :: u8"
  have u: "unat ?w = length bb + n"
    using n(2) by (simp add: unat_of_nat_u8 del: of_nat_add)
  have L: "nip_hdr_parse_loop (bb @ rest) buf_len (bb @ replicate (BITMAP_MAX - length bb) 0) (length bb) 0
      (length bb) (zero_decap\<lparr>d_hdr_real_len := of_nat (length bb), d_rcv_buf_len := buf_len\<rparr>)
      = Some (0, niph1\<lparr>d_hdr_real_len := ?w\<rparr>)"
    by (rule parse_loop_layout [OF p b n])
  have "int (length bb) \<le> 0 \<longleftrightarrow> False" using l by simp
  moreover have "nip_hdr_check (niph1\<lparr>d_hdr_real_len := ?w\<rparr>) = 0" using f by (simp add: nip_hdr_check_def)
  ultimately have "nip_hdr_parse (bb @ rest) buf_len zero_decap
      = Some (int (unat ?w), niph1\<lparr>d_hdr_real_len := ?w\<rparr>)"
    using f by (simp add: nip_hdr_parse_def bitmap_read [OF assms(1-5)] L del: of_nat_add)
  then show ?thesis by (simp only: u)
qed

lemma bitmap_flags:
  "mandatory_bits 0x56" "mandatory_bits 0x57" "mandatory_bits 0x76" "mandatory_bits 0x77"
  "\<not> bit_set 0x56 NIP_BITMAP_INCLUDE_TOTAL_LEN" "\<not> bit_set 0x57 NIP_BITMAP_INCLUDE_TOTAL_LEN"
  "bit_set 0x76 NIP_BITMAP_INCLUDE_TOTAL_LEN" "bit_set 0x77 NIP_BITMAP_INCLUDE_TOTAL_LEN"
  "\<not> bit_set 0x56 NIP_BITMAP_INVALID_SET" "\<not> bit_set 0x57 NIP_BITMAP_INVALID_SET"
  "\<not> bit_set 0x76 NIP_BITMAP_INVALID_SET" "\<not> bit_set 0x77 NIP_BITMAP_INVALID_SET"
  "\<not> bit_set 0x56 NIP_BITMAP_HAVE_MORE_BIT" "bit_set 0x57 NIP_BITMAP_HAVE_MORE_BIT"
  "\<not> bit_set 0x76 NIP_BITMAP_HAVE_MORE_BIT" "bit_set 0x77 NIP_BITMAP_HAVE_MORE_BIT"
  by (simp_all add: bit_set_def mandatory_bits_def)

lemma hdr_bytes_length:
  assumes "valid_addr da" "valid_addr sa"
  shows "length (udp_hdr_bytes da sa ttl nh) = get_nip_hdr_len NIP_HDR_UDP (Some sa) (Some da)
      - (if odd (get_nip_addr_len da + get_nip_addr_len sa) then 1 else 0)"
    and "length (comm_hdr_bytes da sa ttl t nh) = get_nip_hdr_len NIP_HDR_COMM (Some sa) (Some da)
      - (if odd (get_nip_addr_len da + get_nip_addr_len sa) then 1 else 0)"
  using valid_addrD(5,6) [OF assms(1)] valid_addrD(5,6) [OF assms(2)]
  by (simp_all add: udp_hdr_bytes_def comm_hdr_bytes_def bitmap_bytes_def get_nip_hdr_len_def)

lemma hdr_bytes_even:
  assumes "valid_addr da" "valid_addr sa"
  shows "even (length (udp_hdr_bytes da sa ttl nh))" "even (length (comm_hdr_bytes da sa ttl t nh))"
  using valid_addrD(5) [OF assms(1)] valid_addrD(5) [OF assms(2)]
  by (simp_all add: udp_hdr_bytes_def comm_hdr_bytes_def bitmap_bytes_def)

lemma hdr_bytes_le:
  assumes "valid_addr da" "valid_addr sa"
  shows "length (udp_hdr_bytes da sa ttl nh) \<le> 20" "length (comm_hdr_bytes da sa ttl t nh) \<le> 22"
  using valid_addrD(5) [OF assms(1)] valid_addrD(5) [OF assms(2)]
    get_nip_addr_len_le [of da] get_nip_addr_len_le [of sa]
  by (simp_all add: udp_hdr_bytes_def comm_hdr_bytes_def bitmap_bytes_def)

lemma parse_udp_hdr:
  assumes v: "valid_addr da" "valid_addr sa" and l: "length (udp_hdr_bytes da sa ttl nh) < unat buf_len"
  shows "\<exists>niph. nip_hdr_parse (udp_hdr_bytes da sa ttl nh @ payload) buf_len zero_decap
      = Some (int (length (udp_hdr_bytes da sa ttl nh)), niph) \<and>
    d_ttl niph = ttl \<and> d_nexthdr niph = nh \<and> d_daddr niph = da \<and> d_saddr niph = sa \<and>
    \<not> d_include_total_len niph"
proof -
  define bb where bb: "bb = bitmap_bytes 0x56 0x57 da sa"
  define n where "n = 2 + length (addr_bytes da) + length (addr_bytes sa)"
  let ?niph = "zero_decap\<lparr>d_hdr_real_len := of_nat (length bb), d_rcv_buf_len := buf_len\<rparr>"
  let ?niph1 = "?niph\<lparr>d_ttl := ttl, d_include_ttl := True, d_nexthdr := nh, d_include_nexthdr := True,
      d_daddr := da, d_include_daddr := True, d_saddr := sa, d_include_saddr := True\<rparr>"
  have b0: "bb ! 0 = 0x56 \<or> bb ! 0 = 0x57" by (simp add: bb bitmap_bytes_def)
  have h: "udp_hdr_bytes da sa ttl nh @ payload = bb @ [ttl, nh] @ addr_bytes da @ addr_bytes sa @ payload"
    by (simp add: udp_hdr_bytes_def bb)
  have len: "length (udp_hdr_bytes da sa ttl nh) = length bb + n"
    by (simp add: udp_hdr_bytes_def bb n_def)
  have "mandatory_bits (bb ! 0)" "\<not> bit_set (bb ! 0) NIP_BITMAP_INCLUDE_TOTAL_LEN"
    using b0 bitmap_flags by auto
  then have P: "nip_hdr_bitmap0_parse (bb @ [ttl, nh] @ addr_bytes da @ addr_bytes sa @ payload)
      (length bb) (bb ! 0) ?niph = Some (int n, ?niph1)"
    unfolding n_def by (intro bitmap0_parse_udp v) (simp_all add: zero_decap_def)
  have "nip_hdr_parse (bb @ [ttl, nh] @ addr_bytes da @ addr_bytes sa @ payload) buf_len zero_decap
    = Some (int (length bb + n), ?niph1\<lparr>d_hdr_real_len := of_nat (length bb + n)\<rparr>)"
    by (rule nip_hdr_parse_layout [OF bitmap_flags(9,13,10,14) bb P])
      (use l len hdr_bytes_le(1) [OF v, of ttl nh] in \<open>simp_all add: zero_decap_def\<close>)
  then show ?thesis unfolding h len by (simp add: zero_decap_def)
qed

lemma parse_comm_hdr:
  assumes v: "valid_addr da" "valid_addr sa" and l: "length (comm_hdr_bytes da sa ttl t nh) < unat buf_len"
  shows "\<exists>niph. nip_hdr_parse (comm_hdr_bytes da sa ttl t nh @ payload) buf_len zero_decap
      = Some (int (length (comm_hdr_bytes da sa ttl t nh)), niph) \<and>
    d_ttl niph = ttl \<and> d_nexthdr niph = nh \<and> d_daddr niph = da \<and> d_saddr niph = sa \<and>
    d_include_total_len niph \<and> d_total_len niph = t"
proof -
  define bb where bb: "bb = bitmap_bytes 0x76 0x77 da sa"
  define n where "n = 4 + length (addr_bytes da) + length (addr_bytes sa)"
  let ?niph = "zero_decap\<lparr>d_hdr_real_len := of_nat (length bb), d_rcv_buf_len := buf_len\<rparr>"
  let ?niph1 = "?niph\<lparr>d_ttl := ttl, d_include_ttl := True, d_total_len := t, d_include_total_len := True,
      d_nexthdr := nh, d_include_nexthdr := True,
      d_daddr := da, d_include_daddr := True, d_saddr := sa, d_include_saddr := True\<rparr>"
  have b0: "bb ! 0 = 0x76 \<or> bb ! 0 = 0x77" by (simp add: bb bitmap_bytes_def)
  have h: "comm_hdr_bytes da sa ttl t nh @ payload
      = bb @ [ttl, lo8 t, hi8 t, nh] @ addr_bytes da @ addr_bytes sa @ payload"
    by (simp add: comm_hdr_bytes_def bb)
  have len: "length (comm_hdr_bytes da sa ttl t nh) = length bb + n"
    by (simp add: comm_hdr_bytes_def bb n_def)
  have "mandatory_bits (bb ! 0)" "bit_set (bb ! 0) NIP_BITMAP_INCLUDE_TOTAL_LEN"
    using b0 bitmap_flags by auto
  then have P: "nip_hdr_bitmap0_parse (bb @ [ttl, lo8 t, hi8 t, nh] @ addr_bytes da @ addr_bytes sa @ payload)
      (length bb) (bb ! 0) ?niph = Some (int n, ?niph1)"
    unfolding n_def by (intro bitmap0_parse_comm v) (simp_all add: zero_decap_def)
  have "nip_hdr_parse (bb @ [ttl, lo8 t, hi8 t, nh] @ addr_bytes da @ addr_bytes sa @ payload) buf_len zero_decap
    = Some (int (length bb + n), ?niph1\<lparr>d_hdr_real_len := of_nat (length bb + n)\<rparr>)"
    by (rule nip_hdr_parse_layout [OF bitmap_flags(11,15,12,16) bb P])
      (use l len hdr_bytes_le(2) [OF v, of ttl t nh] in \<open>simp_all add: zero_decap_def\<close>)
  then show ?thesis unfolding h len by (simp add: zero_decap_def)
qed

lemma unat_of_nat_u32: "n < 4294967296 \<Longrightarrow> unat (of_nat n :: u32) = n"
  by (simp add: unat_of_nat)

definition udp_encap_example :: nip_hdr_encap where
  "udp_encap_example = \<lparr>e_daddr = short_addr 5, e_saddr = short_addr 6, e_ttl = 128, e_nexthdr = 17,
      e_hdr_buf = replicate 24 0, e_hdr_buf_pos = 0, e_hdr_len_pos = None, e_total_len_pos = None\<rparr>"

text \<open>the header nip_hdr_udp_encap writes for valid addresses, followed by a payload, is
  accepted by nip_hdr_parse, which returns its length and the time to live, next header and
  addresses it was built from; the length is even, at most NIP_HDR_MAX, and get_nip_hdr_len
  less the optional padding byte.\<close>

theorem udp_header_roundtrip:
  assumes "valid_addr (e_daddr h)" "valid_addr (e_saddr h)" "NIP_HDR_MAX \<le> length (e_hdr_buf h)"
    and "payload \<noteq> []" "length payload < 2 ^ 31"
  shows "\<exists>h' niph. nip_hdr_udp_encap h = Some h' \<and> even (e_hdr_buf_pos h') \<and>
    e_hdr_buf_pos h' \<le> NIP_HDR_MAX \<and>
    get_nip_hdr_len NIP_HDR_UDP (Some (e_saddr h)) (Some (e_daddr h)) - e_hdr_buf_pos h' \<in> {0, 1} \<and>
    nip_hdr_parse (take (e_hdr_buf_pos h') (e_hdr_buf h') @ payload)
      (of_nat (e_hdr_buf_pos h' + length payload)) zero_decap = Some (int (e_hdr_buf_pos h'), niph) \<and>
    d_ttl niph = e_ttl h \<and> d_nexthdr niph = e_nexthdr h \<and> d_daddr niph = e_daddr h \<and>
    d_saddr niph = e_saddr h \<and> \<not> d_include_total_len niph"
proof -
  let ?hb = "udp_hdr_bytes (e_daddr h) (e_saddr h) (e_ttl h) (e_nexthdr h)"
  note v = assms(1,2) and le = hdr_bytes_le(1) [OF assms(1,2), of "e_ttl h" "e_nexthdr h"]
  obtain h' where h': "nip_hdr_udp_encap h = Some h'" "written h (e_total_len_pos h) ?hb h'"
    using nip_hdr_udp_encap_layout [OF v] assms(3) le by (force simp: NIP_HDR_MAX_def)
  have pos: "e_hdr_buf_pos h' = length ?hb" and buf: "take (length ?hb) (e_hdr_buf h') = ?hb"
    using h'(2) by (simp_all add: written_def)
  let ?bl = "of_nat (length ?hb + length payload) :: u32"
  have "0 < length payload" using assms(4) by simp
  then have "length ?hb < unat ?bl" using le assms(5) by (subst unat_of_nat_u32) simp_all
  then obtain niph where n: "nip_hdr_parse (take (e_hdr_buf_pos h') (e_hdr_buf h') @ payload)
      (of_nat (e_hdr_buf_pos h' + length payload)) zero_decap = Some (int (e_hdr_buf_pos h'), niph)"
    "d_ttl niph = e_ttl h" "d_nexthdr niph = e_nexthdr h" "d_daddr niph = e_daddr h"
    "d_saddr niph = e_saddr h" "\<not> d_include_total_len niph"
    unfolding pos buf using parse_udp_hdr [OF v] by blast
  have "even (e_hdr_buf_pos h')" "e_hdr_buf_pos h' \<le> NIP_HDR_MAX"
    "get_nip_hdr_len NIP_HDR_UDP (Some (e_saddr h)) (Some (e_daddr h)) - e_hdr_buf_pos h' \<in> {0, 1}"
    using hdr_bytes_even(1) [OF v] le unfolding pos hdr_bytes_length(1) [OF v]
    by (auto simp: NIP_HDR_MAX_def)
  with h'(1) n show ?thesis by blast
qed

theorem udp_header_roundtrip_witness:
  "\<exists>udp_encap_example' niph. nip_hdr_udp_encap udp_encap_example = Some udp_encap_example' \<and> even (e_hdr_buf_pos udp_encap_example') \<and>
    e_hdr_buf_pos udp_encap_example' \<le> NIP_HDR_MAX \<and>
    get_nip_hdr_len NIP_HDR_UDP (Some (e_saddr udp_encap_example)) (Some (e_daddr udp_encap_example)) - e_hdr_buf_pos udp_encap_example' \<in> {0, 1} \<and>
    nip_hdr_parse (take (e_hdr_buf_pos udp_encap_example') (e_hdr_buf udp_encap_example') @ [9])
      (of_nat (e_hdr_buf_pos udp_encap_example' + length [9 :: u8])) zero_decap = Some (int (e_hdr_buf_pos udp_encap_example'), niph) \<and>
    d_ttl niph = e_ttl udp_encap_example \<and> d_nexthdr niph = e_nexthdr udp_encap_example \<and> d_daddr niph = e_daddr udp_encap_example \<and>
    d_saddr niph = e_saddr udp_encap_example \<and> \<not> d_include_total_len niph"
proof (rule udp_header_roundtrip)
  show "valid_addr (e_daddr udp_encap_example)" "valid_addr (e_saddr udp_encap_example)"
    unfolding udp_encap_example_def by (simp_all add: valid_addr_def wf_short_addr short_addr_valid) (simp_all add: short_addr_def short_bytes_def)
qed (simp_all add: udp_encap_example_def NIP_HDR_MAX_def)

definition comm_encap_example :: nip_hdr_encap where
  "comm_encap_example = \<lparr>e_daddr = short_addr 5, e_saddr = short_addr 600, e_ttl = 128, e_nexthdr = 6,
      e_hdr_buf = replicate 24 0, e_hdr_buf_pos = 0, e_hdr_len_pos = None, e_total_len_pos = None\<rparr>"

text \<open>the header nip_hdr_comm_encap writes (TCP, neighbour discovery), completed by
  nip_update_total_len, parses back to the fields it was built from, the total length included.\<close>

theorem comm_header_roundtrip:
  assumes "valid_addr (e_daddr h)" "valid_addr (e_saddr h)" "NIP_HDR_MAX \<le> length (e_hdr_buf h)"
    and "payload \<noteq> []" "length payload < 2 ^ 31"
  shows "\<exists>h1 h2 niph. nip_hdr_comm_encap h = Some h1 \<and> nip_update_total_len h1 (htons t) = Some h2 \<and>
    even (e_hdr_buf_pos h2) \<and> e_hdr_buf_pos h2 \<le> NIP_HDR_MAX \<and>
    get_nip_hdr_len NIP_HDR_COMM (Some (e_saddr h)) (Some (e_daddr h)) - e_hdr_buf_pos h2 \<in> {0, 1} \<and>
    nip_hdr_parse (take (e_hdr_buf_pos h2) (e_hdr_buf h2) @ payload)
      (of_nat (e_hdr_buf_pos h2 + length payload)) zero_decap = Some (int (e_hdr_buf_pos h2), niph) \<and>
    d_ttl niph = e_ttl h \<and> d_nexthdr niph = e_nexthdr h \<and> d_daddr niph = e_daddr h \<and>
    d_saddr niph = e_saddr h \<and> d_include_total_len niph \<and> ntohs (d_total_len niph) = t"
proof -
  let ?hb = "comm_hdr_bytes (e_daddr h) (e_saddr h) (e_ttl h) (htons t) (e_nexthdr h)"
  note v = assms(1,2) and le = hdr_bytes_le(2) [OF assms(1,2), of "e_ttl h" "htons t" "e_nexthdr h"]
  obtain h1 h2 where h: "nip_hdr_comm_encap h = Some h1" "nip_update_total_len h1 (htons t) = Some h2"
    and pos: "e_hdr_buf_pos h2 = length ?hb" and b: "e_hdr_buf h2 = ?hb @ drop (e_hdr_buf_pos h2) (e_hdr_buf h)"
    using nip_hdr_comm_encap_layout [OF v, of "htons t"] assms(3) le by (force simp: NIP_HDR_MAX_def)
  have buf: "take (length ?hb) (e_hdr_buf h2) = ?hb" by (subst b) simp
  let ?bl = "of_nat (length ?hb + length payload) :: u32"
  have "0 < length payload" using assms(4) by simp
  then have "length ?hb < unat ?bl" using le assms(5) by (subst unat_of_nat_u32) simp_all
  then obtain niph where n: "nip_hdr_parse (take (e_hdr_buf_pos h2) (e_hdr_buf h2) @ payload)
      (of_nat (e_hdr_buf_pos h2 + length payload)) zero_decap = Some (int (e_hdr_buf_pos h2), niph)"
    "d_ttl niph = e_ttl h" "d_nexthdr niph = e_nexthdr h" "d_daddr niph = e_daddr h"
    "d_saddr niph = e_saddr h" "d_include_total_len niph" "d_total_len niph = htons t"
    unfolding pos buf using parse_comm_hdr [OF v] by blast
  have "even (e_hdr_buf_pos h2)" "e_hdr_buf_pos h2 \<le> NIP_HDR_MAX"
    "get_nip_hdr_len NIP_HDR_COMM (Some (e_saddr h)) (Some (e_daddr h)) - e_hdr_buf_pos h2 \<in> {0, 1}"
    using hdr_bytes_even(2) [OF v] le unfolding pos hdr_bytes_length(2) [OF v]
    by (auto simp: NIP_HDR_MAX_def)
  moreover have "ntohs (d_total_len niph) = t" using n(7) by simp
  ultimately show ?thesis using h n by blast
qed

theorem comm_header_roundtrip_witness:
  "\<exists>h1 h2 niph. nip_hdr_comm_encap comm_encap_example = Some h1 \<and> nip_update_total_len h1 (htons 11) = Some h2 \<and>
    even (e_hdr_buf_pos h2) \<and> e_hdr_buf_pos h2 \<le> NIP_HDR_MAX \<and>
    get_nip_hdr_len NIP_HDR_COMM (Some (e_saddr comm_encap_example)) (Some (e_daddr comm_encap_example)) - e_hdr_buf_pos h2 \<in> {0, 1} \<and>
    nip_hdr_parse (take (e_hdr_buf_pos h2) (e_hdr_buf h2) @ [7])
      (of_nat (e_hdr_buf_pos h2 + length [7 :: u8])) zero_decap = Some (int (e_hdr_buf_pos h2), niph) \<and>
    d_ttl niph = e_ttl comm_encap_example \<and> d_nexthdr niph = e_nexthdr comm_encap_example \<and> d_daddr niph = e_daddr comm_encap_example \<and>
    d_saddr niph = e_saddr comm_encap_example \<and> d_include_total_len niph \<and> ntohs (d_total_len niph) = 11"
proof (rule comm_header_roundtrip)
  show "valid_addr (e_daddr comm_encap_example)" "valid_addr (e_saddr comm_encap_example)"
    unfolding comm_encap_example_def by (simp_all add: valid_addr_def wf_short_addr short_addr_valid) (simp_all add: short_addr_def short_bytes_def)
qed (simp_all add: comm_encap_example_def NIP_HDR_MAX_def)

section \<open>Reads of the parser\<close>

text \<open>A field parser that never faults on k readable bytes and consumes at most k of them.\<close>

definition wf_decap :: "nip_hdr_decap \<Rightarrow> bool" where
  "wf_decap niph \<longleftrightarrow> wf_addr (d_daddr niph) \<and> wf_addr (d_saddr niph)"

definition reads_at_most :: "nat \<Rightarrow> (bytes \<Rightarrow> nat \<Rightarrow> u8 \<Rightarrow> nip_hdr_decap \<Rightarrow> field_result) \<Rightarrow> bool" where
  "reads_at_most k f \<longleftrightarrow> (\<forall>buf p bm niph. p + k \<le> length buf \<longrightarrow> wf_decap niph \<longrightarrow>
     (\<exists>len niph'. f buf p bm niph = Some (len, niph') \<and> len \<le> int k \<and> wf_decap niph'))"

lemma decode_total:
  assumes "wf_addr a0" "p + 8 \<le> length buf"
  shows "\<exists>a q. decode_nip_addr buf p a0 = Some (a, q) \<and> wf_addr a \<and>
    (q \<noteq> None \<longrightarrow> unat (bitlen a) div 8 \<le> 8)"
proof -
  let ?k = "get_nip_addr_len \<lparr>bitlen = 0, field8 = [buf ! p]\<rparr>"
  have k: "?k \<le> 8" by (rule get_nip_addr_len_le)
  have p: "p < length buf" using assms(2) by simp
  obtain a q where d: "decode_nip_addr buf p a0 = Some (a, q)"
    using decode_nip_addr_eq [OF assms(1) p refl] k assms(2) by (auto simp: Let_def split: if_splits)
  have "wf_addr a"
    using d decode_nip_addr_eq [OF assms(1) p refl] k assms
    by (auto simp: Let_def wf_addr_def split: if_splits)
  moreover have "unat (bitlen a) div 8 \<le> 8" if "q \<noteq> None"
  proof -
    obtain y where "q = Some y" using \<open>q \<noteq> None\<close> by auto
    then have "nip_addr_invalid a = CURRENT_ADDR_VALID"
      using decode_nip_addr_Some [OF assms(1)] d by blast
    then show ?thesis using get_nip_addr_len_le [of a] unfolding nip_addr_valid_iff by simp
  qed
  ultimately show ?thesis using d by blast
qed

lemma reads_fields:
  "reads_at_most 1 get_nip_hdr_ttl" "reads_at_most 1 get_nip_hdr_nexthdr"
  "reads_at_most 2 get_nip_total_len" "reads_at_most 1 get_nip_hdr_hdr_len"
  by (auto simp: reads_at_most_def hdr_defs wf_decap_def Let_def)

lemma reads_daddr: "reads_at_most 8 get_nip_hdr_daddr"
  unfolding reads_at_most_def
proof (intro allI impI)
  fix buf :: bytes and p bm niph assume "p + 8 \<le> length buf" and w: "wf_decap niph"
  then obtain a q where "decode_nip_addr buf p (d_daddr niph) = Some (a, q)" "wf_addr a"
    "q \<noteq> None \<longrightarrow> unat (bitlen a) div 8 \<le> 8"
    using decode_total unfolding wf_decap_def by blast
  with w show "\<exists>len niph'. get_nip_hdr_daddr buf p bm niph = Some (len, niph') \<and> len \<le> int 8 \<and> wf_decap niph'"
    by (auto simp: get_nip_hdr_daddr_def wf_decap_def Let_def)
qed

lemma reads_saddr: "reads_at_most 8 get_nip_hdr_saddr"
  unfolding reads_at_most_def
proof (intro allI impI)
  fix buf :: bytes and p bm niph assume "p + 8 \<le> length buf" and w: "wf_decap niph"
  then obtain a q where "decode_nip_addr buf p (d_saddr niph) = Some (a, q)" "wf_addr a"
    "q \<noteq> None \<longrightarrow> unat (bitlen a) div 8 \<le> 8"
    using decode_total unfolding wf_decap_def by blast
  with w show "\<exists>len niph'. get_nip_hdr_saddr buf p bm niph = Some (len, niph') \<and> len \<le> int 8 \<and> wf_decap niph'"
    by (auto simp: get_nip_hdr_saddr_def wf_decap_def Let_def)
qed

lemma parse_field_total:
  assumes "reads_at_most k f" "n \<le> int m" "p + m + k \<le> length buf" "wf_decap niph"
  shows "\<exists>len niph'. parse_field f buf p bm (n, niph) = Some (len, niph') \<and> len \<le> int (m + k) \<and> wf_decap niph'"
proof (cases "n < 0")
  case False
  then have "p + nat n + k \<le> length buf" using assms(2,3) by linarith
  then obtain len niph' where "f buf (p + nat n) bm niph = Some (len, niph')" "len \<le> int k" "wf_decap niph'"
    using assms(1,4) unfolding reads_at_most_def by blast
  with False assms(2) show ?thesis by (auto simp: parse_field_def)
qed (use assms in \<open>auto simp: parse_field_def\<close>)

lemma reads_bitmap0: "reads_at_most 20 nip_hdr_bitmap0_parse"
  unfolding reads_at_most_def
proof (intro allI impI)
  fix buf :: bytes and p bm niph assume l: "p + 20 \<le> length buf" and w: "wf_decap niph"
  obtain l1 n1 where 1: "parse_field get_nip_hdr_ttl buf p bm (0, niph) = Some (l1, n1)" "l1 \<le> int (0 + 1)" "wf_decap n1"
    using parse_field_total [OF reads_fields(1), where n = 0 and m = 0 and p = p and buf = buf and niph = niph and bm = bm] l w
    by auto
  obtain l2 n2 where 2: "parse_field get_nip_total_len buf p bm (l1, n1) = Some (l2, n2)" "l2 \<le> int (0 + 1 + 2)" "wf_decap n2"
    using parse_field_total [OF reads_fields(3) 1(2) _ 1(3), where p = p and buf = buf and bm = bm] l by auto
  obtain l3 n3 where 3: "parse_field get_nip_hdr_nexthdr buf p bm (l2, n2) = Some (l3, n3)" "l3 \<le> int (0 + 1 + 2 + 1)" "wf_decap n3"
    using parse_field_total [OF reads_fields(2) 2(2) _ 2(3), where p = p and buf = buf and bm = bm] l by auto
  obtain l4 n4 where 4: "parse_field get_nip_hdr_daddr buf p bm (l3, n3) = Some (l4, n4)" "l4 \<le> int (0 + 1 + 2 + 1 + 8)" "wf_decap n4"
    using parse_field_total [OF reads_daddr 3(2) _ 3(3), where p = p and buf = buf and bm = bm] l by auto
  obtain l5 n5 where 5: "parse_field get_nip_hdr_saddr buf p bm (l4, n4) = Some (l5, n5)" "l5 \<le> int (0 + 1 + 2 + 1 + 8 + 8)" "wf_decap n5"
    using parse_field_total [OF reads_saddr 4(2) _ 4(3), where p = p and buf = buf and bm = bm] l by auto
  show "\<exists>len niph'. nip_hdr_bitmap0_parse buf p bm niph = Some (len, niph') \<and> len \<le> int 20 \<and> wf_decap niph'"
    using 1(1) 2(1) 3(1) 4(1) 5 by (simp add: nip_hdr_bitmap0_parse_def)
qed

lemma reads_bitmap1: "reads_at_most 1 nip_hdr_bitmap1_parse"
  unfolding reads_at_most_def
proof (intro allI impI)
  fix buf :: bytes and p bm niph assume l: "p + 1 \<le> length buf" and w: "wf_decap niph"
  then show "\<exists>len niph'. nip_hdr_bitmap1_parse buf p bm niph = Some (len, niph') \<and> len \<le> int 1 \<and> wf_decap niph'"
    using parse_field_total [OF reads_fields(4), where n = 0 and m = 0 and p = p and buf = buf]
    by (simp add: nip_hdr_bitmap1_parse_def Let_def wf_decap_def)
qed

lemma reads_unknown: "reads_at_most 0 nip_hdr_unknown_bit_check"
  by (simp add: reads_at_most_def nip_hdr_unknown_bit_check_def wf_decap_def)

definition factory_reads :: "nat \<Rightarrow> nat" where
  "factory_reads i = (if i = 0 then 20 else if i = 1 then 1 else 0)"

lemma reads_factory: "i < FACTORY_NUM_MAX \<Longrightarrow> reads_at_most (factory_reads i) (hdr_parse_factory ! i)"
  using reads_bitmap0 reads_bitmap1 reads_unknown
  by (auto simp: FACTORY_NUM_MAX_def hdr_parse_factory_def factory_reads_def less_Suc_eq numeral_3_eq_3)

lemma parse_loop_total:
  "wf_decap niph \<Longrightarrow> p + (if i = 0 then 21 else if i = 1 then 1 else 0) \<le> length buf \<Longrightarrow>
   \<exists>r niph'. nip_hdr_parse_loop buf bl bitmap num i p niph = Some (r, niph') \<and> wf_decap niph'"
proof (induction "FACTORY_NUM_MAX - i" arbitrary: i p niph rule: less_induct)
  case less
  show ?case
  proof (cases "i < num \<and> i < FACTORY_NUM_MAX")
    case True
    have "p + factory_reads i \<le> length buf" using less.prems(2) by (auto simp: factory_reads_def split: if_splits)
    then obtain len niph1 where f: "(hdr_parse_factory ! i) buf p (bitmap ! i) niph = Some (len, niph1)"
      "len \<le> int (factory_reads i)" "wf_decap niph1"
      using reads_factory True less.prems(1) unfolding reads_at_most_def by blast
    let ?n = "niph1\<lparr>d_hdr_real_len := d_hdr_real_len niph1 + of_int len\<rparr>"
    have w: "wf_decap ?n" using f(3) by (simp add: wf_decap_def)
    have "p + nat len + (if i + 1 = 0 then 21 else if i + 1 = 1 then 1 else 0) \<le> length buf"
      using f(2) less.prems(2) by (auto simp: factory_reads_def split: if_splits)
    then have "\<exists>r niph'. nip_hdr_parse_loop buf bl bitmap num (i + 1) (p + nat len) ?n = Some (r, niph') \<and> wf_decap niph'"
      using True w by (intro less.hyps) auto
    then show ?thesis using True f(1) w f(3)
      by (subst nip_hdr_parse_loop.simps) (auto simp: Let_def)
  qed (use less.prems in \<open>auto simp: nip_hdr_parse_loop.simps\<close>)
qed

lemma bitmap_loop_total:
  "p + (m - i) \<le> length buf \<Longrightarrow> \<exists>num bm'. nip_hdr_bitmap_loop buf p i bm m = Some (num, bm') \<and> num \<le> int m"
proof (induction "m - i" arbitrary: p i bm rule: less_induct)
  case less
  show ?case
  proof (cases "i \<ge> m")
    case False
    then have "p < length buf" using less.prems by simp
    moreover have "\<exists>num bm'. nip_hdr_bitmap_loop buf (p + 1) (i + 1) (bm[i := buf ! p]) m = Some (num, bm') \<and> num \<le> int m"
      using False less.prems by (intro less.hyps) auto
    ultimately show ?thesis using False by (subst nip_hdr_bitmap_loop.simps) (auto simp: Let_def)
  qed (simp add: nip_hdr_bitmap_loop.simps)
qed

lemma wf_zero_decap: "wf_decap zero_decap"
  by (simp add: wf_decap_def zero_decap_def zero_addr_facts)

text \<open>C17: the parser terminates without reading outside the packet when at least 29 bytes are
  readable (eight bitmap bytes, 20 bytes of fields and the header length), whatever they hold.\<close>

theorem nip_hdr_parse_total:
  assumes "29 \<le> length rcv_buf"
  shows "\<exists>ret niph. nip_hdr_parse rcv_buf buf_len zero_decap = Some (ret, niph)"
proof -
  have "\<exists>num bm. nip_hdr_bitmap_loop rcv_buf 0 0 (replicate BITMAP_MAX 0) BITMAP_MAX = Some (num, bm) \<and> num \<le> 8"
    using bitmap_loop_total [of 0 BITMAP_MAX 0] assms by (simp add: BITMAP_MAX_def)
  moreover have "rd8 rcv_buf 0 = Some (rcv_buf ! 0)" using assms by (intro rd8_Some) linarith
  ultimately obtain num bm where b:
    "get_nip_hdr_bitmap rcv_buf 0 (replicate BITMAP_MAX 0) BITMAP_MAX = Some (num, bm)" "num \<le> 8"
    unfolding get_nip_hdr_bitmap_def
    by (cases "bit_set (rcv_buf ! 0) NIP_BITMAP_INVALID_SET") auto
  let ?n = "zero_decap\<lparr>d_hdr_real_len := of_int num, d_rcv_buf_len := buf_len\<rparr>"
  have "wf_decap ?n" using wf_zero_decap by (simp add: wf_decap_def)
  moreover have "nat num + (if (0::nat) = 0 then 21 else if (0::nat) = 1 then 1 else 0) \<le> length rcv_buf"
    using b(2) assms by simp
  ultimately obtain r n where "nip_hdr_parse_loop rcv_buf buf_len bm (nat num) 0 (nat num) ?n = Some (r, n)"
    using parse_loop_total by blast
  with b(1) show ?thesis by (auto simp: nip_hdr_parse_def Let_def)
qed

theorem nip_hdr_parse_total_witness:
  "\<exists>ret niph. nip_hdr_parse (replicate 29 0xFF) 29 zero_decap = Some (ret, niph)"
  by (rule nip_hdr_parse_total) simp

text \<open>the bound is not checked before the reads: on a packet of one byte that announces a
  second bitmap byte or a time to live the parser reads past the end of the packet.\<close>

theorem nip_hdr_parse_overread:
  assumes "\<not> bit_set b NIP_BITMAP_INVALID_SET"
    and "bit_set b NIP_BITMAP_HAVE_MORE_BIT \<or> bit_set b NIP_BITMAP_INCLUDE_TTL"
  shows "nip_hdr_parse [b] 1 zero_decap = None"
proof (cases "bit_set b NIP_BITMAP_HAVE_MORE_BIT")
  case True
  with assms show ?thesis
    by (simp add: nip_hdr_parse_def get_nip_hdr_bitmap_def nip_hdr_bitmap_loop.simps BITMAP_MAX_def rd8_def)
next
  case False
  with assms show ?thesis
    by (simp add: nip_hdr_parse_def get_nip_hdr_bitmap_def nip_hdr_bitmap_loop.simps BITMAP_MAX_def
        nip_hdr_parse_loop.simps FACTORY_NUM_MAX_def hdr_parse_factory_def nip_hdr_bitmap0_parse_def
        parse_field_def get_nip_hdr_ttl_def rd8_def)
qed

theorem nip_hdr_parse_overread_witness: "nip_hdr_parse [0x56] 1 zero_decap = None"
  by (rule nip_hdr_parse_overread) (simp_all add: bit_set_def)

section \<open>What an accepted header guarantees\<close>

definition accepted :: "u32 \<Rightarrow> nip_hdr_decap \<Rightarrow> bool" where
  "accepted buf_len niph \<longleftrightarrow> d_include_ttl niph \<and> d_include_nexthdr niph \<and> d_include_daddr niph \<and>
     valid_addr (d_daddr niph) \<and> (d_include_saddr niph \<longrightarrow> valid_addr (d_saddr niph)) \<and>
     d_rcv_buf_len niph = buf_len \<and>
     (d_include_total_len niph \<and> d_include_hdr_len niph \<longrightarrow> unat (d_hdr_len niph) < unat buf_len) \<and>
     (\<not> d_include_hdr_len niph \<longrightarrow> d_hdr_len niph = 0)"

lemma decode_valid:
  assumes "wf_addr a0" "decode_nip_addr buf p a0 = Some (a, Some q)"
  shows "valid_addr a"
proof -
  note d = decode_nip_addr_Some [OF assms]
  have "unat (of_nat (get_nip_addr_len a * 8) :: u8) = get_nip_addr_len a * 8"
    using get_nip_addr_len_le [of a] by (simp add: unat_of_nat_u8 del: of_nat_mult)
  then have "unat (bitlen a) mod 8 = 0" using d by simp
  with d show ?thesis by (simp add: valid_addr_def)
qed

text \<open>A chain of fields ends with a length only if every field did.\<close>

lemma parse_field_SomeD:
  assumes "parse_field f buf p bm (n, niph) = Some (m, niph')" "0 \<le> m"
  obtains len where "f buf (p + nat n) bm niph = Some (len, niph')" "0 \<le> n" "0 \<le> len" "m = n + len"
  using assms by (auto simp: parse_field_def split: if_splits option.splits)

lemma daddr_SomeD:
  assumes "get_nip_hdr_daddr buf p bm niph = Some (len, niph')" "0 \<le> len" "wf_addr (d_daddr niph)"
  obtains a where "niph' = niph\<lparr>d_daddr := a, d_include_daddr := True\<rparr>" "valid_addr a"
  using assms decode_valid [OF assms(3)]
  by (auto simp: get_nip_hdr_daddr_def Let_def split: if_splits option.splits)

lemma saddr_SomeD:
  assumes "get_nip_hdr_saddr buf p bm niph = Some (len, niph')" "0 \<le> len" "wf_addr (d_saddr niph)"
  obtains "niph' = niph"
    | a where "niph' = niph\<lparr>d_saddr := a, d_include_saddr := True\<rparr>" "valid_addr a"
proof (cases "bit_set bm NIP_BITMAP_INCLUDE_SADDR")
  case True
  then obtain a q where d: "decode_nip_addr buf p (d_saddr niph) = Some (a, q)"
    using assms(1) by (auto simp: get_nip_hdr_saddr_def split: option.splits)
  with True assms(1,2) obtain y where "q = Some y" "niph' = niph\<lparr>d_saddr := a, d_include_saddr := True\<rparr>"
    by (auto simp: get_nip_hdr_saddr_def Let_def split: if_splits)
  with d decode_valid [OF assms(3)] that(2) show ?thesis by blast
next
  case False
  with assms(1) that(1) show ?thesis by (simp add: get_nip_hdr_saddr_def)
qed

lemma bitmap0_accepted:
  assumes s: "nip_hdr_bitmap0_parse buf p bm niph = Some (len, niph')" "0 \<le> len"
    and w: "wf_decap niph" and i: "\<not> d_include_hdr_len niph" "d_hdr_len niph = 0"
      "\<not> d_include_saddr niph" "d_rcv_buf_len niph = buf_len"
  shows "accepted buf_len niph'"
proof -
  obtain l1 n1 l2 n2 l3 n3 l4 n4 where
    c: "parse_field get_nip_hdr_ttl buf p bm (0, niph) = Some (l1, n1)"
    "parse_field get_nip_total_len buf p bm (l1, n1) = Some (l2, n2)"
    "parse_field get_nip_hdr_nexthdr buf p bm (l2, n2) = Some (l3, n3)"
    "parse_field get_nip_hdr_daddr buf p bm (l3, n3) = Some (l4, n4)"
    "parse_field get_nip_hdr_saddr buf p bm (l4, n4) = Some (len, niph')"
    using s(1) unfolding nip_hdr_bitmap0_parse_def by (auto simp: bind_eq_Some_conv)
  from c(5) s(2) obtain k5 where 5: "get_nip_hdr_saddr buf (p + nat l4) bm n4 = Some (k5, niph')" "0 \<le> l4" "0 \<le> k5"
    by (rule parse_field_SomeD)
  from c(4) 5(2) obtain k4 where 4: "get_nip_hdr_daddr buf (p + nat l3) bm n3 = Some (k4, n4)" "0 \<le> l3" "0 \<le> k4"
    by (rule parse_field_SomeD)
  from c(3) 4(2) obtain k3 where 3: "get_nip_hdr_nexthdr buf (p + nat l2) bm n2 = Some (k3, n3)" "0 \<le> l2" "0 \<le> k3"
    by (rule parse_field_SomeD)
  from c(2) 3(2) obtain k2 where 2: "get_nip_total_len buf (p + nat l1) bm n1 = Some (k2, n2)" "0 \<le> l1" "0 \<le> k2"
    by (rule parse_field_SomeD)
  from c(1) 2(2) obtain k1 where 1: "get_nip_hdr_ttl buf (p + nat 0) bm niph = Some (k1, n1)" "0 \<le> k1"
    by (rule parse_field_SomeD)
  let ?pre = "\<lambda>n. wf_decap n \<and> \<not> d_include_saddr n \<and> d_rcv_buf_len n = buf_len \<and>
    \<not> d_include_hdr_len n \<and> d_hdr_len n = 0"
  have "d_include_ttl n1 \<and> ?pre n1"
    using 1 w i by (auto simp: get_nip_hdr_ttl_def wf_decap_def split: if_splits option.splits)
  then have "d_include_ttl n2 \<and> ?pre n2"
    using 2 by (auto simp: get_nip_total_len_def wf_decap_def split: if_splits option.splits)
  then have n3: "d_include_ttl n3" "d_include_nexthdr n3" "wf_decap n3" "\<not> d_include_saddr n3"
    "d_rcv_buf_len n3 = buf_len" "\<not> d_include_hdr_len n3" "d_hdr_len n3 = 0"
    using 3 by (auto simp: get_nip_hdr_nexthdr_def wf_decap_def split: if_splits option.splits)
  from 4(1,3) n3(3) obtain a where n4: "n4 = n3\<lparr>d_daddr := a, d_include_daddr := True\<rparr>" "valid_addr a"
    by (auto simp: wf_decap_def elim: daddr_SomeD)
  have "wf_addr (d_saddr n4)" using n3(3) n4(1) by (simp add: wf_decap_def)
  from 5(1,3) this show ?thesis
    by (rule saddr_SomeD) (use n3 n4 in \<open>simp_all add: accepted_def\<close>)
qed

lemma bitmap1_accepted:
  assumes "nip_hdr_bitmap1_parse buf p bm niph = Some (len, niph')" "0 \<le> len" "accepted buf_len niph"
  shows "accepted buf_len niph'"
proof -
  define n1 where "n1 = (if bit_set bm NIP_INVALID_BITMAP_2 then niph\<lparr>d_include_unknown_bit := True\<rparr> else niph)"
  have n1: "accepted buf_len n1" using assms(3) by (simp add: n1_def accepted_def)
  have "parse_field get_nip_hdr_hdr_len buf p bm (0, n1) = Some (len, niph')"
    using assms(1) by (simp add: nip_hdr_bitmap1_parse_def n1_def)
  then obtain k where k: "get_nip_hdr_hdr_len buf (p + nat 0) bm n1 = Some (k, niph')" "0 \<le> k"
    using assms(2) by (rule parse_field_SomeD)
  show ?thesis
  proof (cases "bit_set bm NIP_BITMAP_INCLUDE_HDR_LEN")
    case True
    then obtain b where "niph' = n1\<lparr>d_hdr_len := b, d_include_hdr_len := True\<rparr>"
      "\<not> (d_include_total_len n1 \<and> unat (d_rcv_buf_len n1) \<le> unat b)"
      using k by (auto simp: get_nip_hdr_hdr_len_def Let_def split: if_splits option.splits)
    then show ?thesis using n1 by (auto simp: accepted_def)
  next
    case False
    then show ?thesis using k(1) n1 by (simp add: get_nip_hdr_hdr_len_def)
  qed
qed

lemma loop_accepted:
  assumes "nip_hdr_parse_loop buf bl bitmap num i p niph = Some (r, niph')" "0 \<le> r" "0 < i"
    "accepted bl niph" "unat (d_hdr_real_len niph) < unat bl"
  shows "r = 0 \<and> accepted bl niph' \<and> unat (d_hdr_real_len niph') < unat bl"
  using assms
proof (induction "FACTORY_NUM_MAX - i" arbitrary: i p niph rule: less_induct)
  case less
  show ?case
  proof (cases "i < num \<and> i < FACTORY_NUM_MAX")
    case True
    then obtain len n1 where f: "(hdr_parse_factory ! i) buf p (bitmap ! i) niph = Some (len, n1)"
      using less.prems(1) by (subst (asm) nip_hdr_parse_loop.simps) (auto split: option.splits)
    let ?n = "n1\<lparr>d_hdr_real_len := d_hdr_real_len n1 + of_int len\<rparr>"
    have c: "0 \<le> len" "unat (d_hdr_real_len ?n) < unat bl"
      "nip_hdr_parse_loop buf bl bitmap num (i + 1) (p + nat len) ?n = Some (r, niph')"
      using less.prems(1,2) True f
      by (subst (asm) (1) nip_hdr_parse_loop.simps, auto simp: Let_def split: if_splits)+
    have "i = 1 \<or> i = 2" using True less.prems(3) by (auto simp: FACTORY_NUM_MAX_def)
    then have "accepted bl n1"
    proof
      assume "i = 1"
      then have "nip_hdr_bitmap1_parse buf p (bitmap ! i) niph = Some (len, n1)"
        using f by (simp add: hdr_parse_factory_def)
      then show ?thesis using c(1) less.prems(4) by (rule bitmap1_accepted)
    next
      assume "i = 2"
      then have "n1 = niph\<lparr>d_include_unknown_bit := True\<rparr>"
        using f by (simp add: hdr_parse_factory_def nip_hdr_unknown_bit_check_def)
      then show ?thesis using less.prems(4) by (simp add: accepted_def)
    qed
    then have "accepted bl ?n" by (simp add: accepted_def)
    with c True less.prems(2) show ?thesis by (intro less.hyps) auto
  qed (use less.prems in \<open>auto simp: nip_hdr_parse_loop.simps\<close>)
qed

lemma parse_accepts_facts:
  assumes "nip_hdr_parse rcv_buf buf_len zero_decap = Some (ret, niph)" "0 < ret"
  shows "d_include_ttl niph \<and> d_include_nexthdr niph \<and> d_include_daddr niph \<and> valid_addr (d_daddr niph) \<and>
    (d_include_saddr niph \<longrightarrow> valid_addr (d_saddr niph)) \<and>
    int (unat (d_hdr_real_len niph)) \<le> ret \<and> unat (d_hdr_real_len niph) < unat buf_len \<and>
    (d_include_total_len niph \<or> \<not> d_include_hdr_len niph \<longrightarrow> ret < int (unat buf_len))"
proof -
  obtain num bm where b: "get_nip_hdr_bitmap rcv_buf 0 (replicate BITMAP_MAX 0) BITMAP_MAX = Some (num, bm)"
    using assms(1) by (auto simp: nip_hdr_parse_def split: option.splits)
  have num: "0 < num" using b assms by (auto simp: nip_hdr_parse_def split: if_splits)
  let ?n = "zero_decap\<lparr>d_hdr_real_len := of_int num, d_rcv_buf_len := buf_len\<rparr>"
  obtain r where l: "nip_hdr_parse_loop rcv_buf buf_len bm (nat num) 0 (nat num) ?n = Some (r, niph)" "0 \<le> r"
    and ret: "ret = int (max (unat (d_hdr_len niph)) (unat (d_hdr_real_len niph)))"
    using assms b num
    by (auto simp: nip_hdr_parse_def Let_def max_def nip_hdr_check_def word_less_nat_alt split: option.splits if_splits)
  have i: "0 < nat num \<and> 0 < FACTORY_NUM_MAX" using num by (simp add: FACTORY_NUM_MAX_def)
  obtain len n1 where f: "nip_hdr_bitmap0_parse rcv_buf (nat num) (bm ! 0) ?n = Some (len, n1)" "0 \<le> len"
    and n: "unat (d_hdr_real_len n1 + of_int len) < unat buf_len"
      "nip_hdr_parse_loop rcv_buf buf_len bm (nat num) 1 (nat num + nat len)
        (n1\<lparr>d_hdr_real_len := d_hdr_real_len n1 + of_int len\<rparr>) = Some (r, niph)"
    using l i by (subst (asm) nip_hdr_parse_loop.simps)
      (auto simp: hdr_parse_factory_def Let_def split: option.splits if_splits)
  have "accepted buf_len n1"
    using f wf_zero_decap by (intro bitmap0_accepted) (auto simp: zero_decap_def wf_decap_def)
  then have "accepted buf_len (n1\<lparr>d_hdr_real_len := d_hdr_real_len n1 + of_int len\<rparr>)" by (simp add: accepted_def)
  from loop_accepted [OF n(2) l(2) _ this] n(1)
  have a: "accepted buf_len niph" "unat (d_hdr_real_len niph) < unat buf_len" by auto
  have "ret < int (unat buf_len)" if "d_include_total_len niph \<or> \<not> d_include_hdr_len niph"
  proof -
    have "unat (d_hdr_len niph) < unat buf_len"
      using a that unfolding accepted_def by (cases "d_include_hdr_len niph") auto
    then show ?thesis using a(2) unfolding ret by linarith
  qed
  moreover have "int (unat (d_hdr_real_len niph)) \<le> ret" unfolding ret by linarith
  ultimately show ?thesis using a unfolding accepted_def by blast
qed

text \<open>C12: a header the parser accepts has a time to live, a next header and a valid destination
  address, its fields end before the end of the packet, and the length returned is at least
  theirs; it is below the packet length too unless the packet carries a header length without a
  total length (then only a later check can reject it).\<close>

theorem nip_hdr_parse_accepts:
  assumes "nip_hdr_parse rcv_buf buf_len zero_decap = Some (ret, niph)" "0 < ret"
  shows "d_include_ttl niph \<and> d_include_nexthdr niph \<and> d_include_daddr niph \<and> valid_addr (d_daddr niph) \<and>
    (d_include_saddr niph \<longrightarrow> valid_addr (d_saddr niph)) \<and>
    int (unat (d_hdr_real_len niph)) \<le> ret \<and> unat (d_hdr_real_len niph) < unat buf_len \<and>
    (d_include_total_len niph \<or> \<not> d_include_hdr_len niph \<longrightarrow> ret < int (unat buf_len))"
  using assms by (rule parse_accepts_facts)

theorem nip_hdr_parse_accepts_witness:
  "\<exists>ret niph. nip_hdr_parse (comm_hdr_bytes (short_addr 5) (short_addr 600) 128 (htons 9) 6 @ [1]) 9 zero_decap
      = Some (ret, niph) \<and> d_include_ttl niph \<and> d_include_nexthdr niph \<and> d_include_daddr niph \<and>
    valid_addr (d_daddr niph) \<and> (d_include_saddr niph \<longrightarrow> valid_addr (d_saddr niph)) \<and>
    int (unat (d_hdr_real_len niph)) \<le> ret \<and> unat (d_hdr_real_len niph) < unat (9 :: u32) \<and>
    (d_include_total_len niph \<or> \<not> d_include_hdr_len niph \<longrightarrow> ret < int (unat (9 :: u32)))"
proof -
  let ?h = "comm_hdr_bytes (short_addr 5) (short_addr 600) 128 (htons 9) 6"
  have v: "valid_addr (short_addr 5)" "valid_addr (short_addr 600)"
    by (simp_all add: valid_addr_def wf_short_addr short_addr_valid) (simp_all add: short_addr_def short_bytes_def)
  have l: "get_nip_addr_len (short_addr 5) = 1" "get_nip_addr_len (short_addr 600) = 2"
    by (simp_all add: short_addr_len) (simp_all add: short_bytes_def)
  have "length ?h = 8"
    using valid_addrD(5) [OF v(1)] valid_addrD(5) [OF v(2)] l by (simp add: comm_hdr_bytes_def bitmap_bytes_def)
  then obtain niph where p: "nip_hdr_parse (?h @ [1]) 9 zero_decap = Some (8, niph)"
    using parse_comm_hdr [OF v, of 128 "htons 9" 6 9 "[1]"] by auto
  show ?thesis
    using p nip_hdr_parse_accepts [OF p] by auto
qed

section \<open>Fragment sizes\<close>

lemma unat_and_not_7: "unat (and x (not 7) :: u32) = unat x - unat x mod 8"
proof -
  have s: "and x 7 + and x (not 7) = x"
    by (subst disjunctive_add) (auto simp: bit_simps intro: bit_word_eqI)
  have "and x 7 = take_bit 3 x" by (simp add: take_bit_eq_mask mask_eq_exp_minus_1)
  then have a: "unat (and x 7) = unat x mod 8" by (simp add: unsigned_take_bit_eq take_bit_eq_mod unat_mod)
  have "and x 7 \<le> x" by (simp add: word_le_nat_alt a)
  moreover have "and x (not 7) = x - and x 7" using s by (metis add_diff_cancel_left')
  ultimately show ?thesis by (simp add: unat_sub a)
qed

lemma frag_mid_len:
  assumes "unat hdr + 8 \<le> unat mtu"
  shows "unat (and (mtu - hdr - of_nat NIP_UDP_HDR_LEN) (not 7) :: u32)
    = (unat mtu - unat hdr - 8) - (unat mtu - unat hdr - 8) mod 8"
proof -
  have "unat (mtu - hdr) = unat mtu - unat hdr" using assms by (simp add: unat_sub word_le_nat_alt)
  moreover have "unat (mtu - hdr - 8) = unat (mtu - hdr) - 8"
    using assms calculation by (simp add: unat_sub word_le_nat_alt)
  ultimately have u: "unat (mtu - hdr - of_nat NIP_UDP_HDR_LEN) = unat mtu - unat hdr - 8"
    by (simp add: NIP_UDP_HDR_LEN_def)
  show ?thesis unfolding unat_and_not_7 u ..
qed

lemma frag_num_parts:
  assumes "nip_calc_pkt_frag_num mtu hdr len = Some s" "len \<noteq> 0" "unat hdr + 8 \<le> unat mtu"
  shows "unat (mid_pkt_num s) * unat (mid_usr_pkt_len s) + unat (last_usr_pkt_len s) = unat len \<and>
    0 < unat (last_usr_pkt_len s) \<and> unat (last_usr_pkt_len s) \<le> unat (mid_usr_pkt_len s) \<and>
    unat (mid_usr_pkt_len s) mod 8 = 0 \<and> unat hdr + 8 + unat (mid_usr_pkt_len s) \<le> unat mtu \<and>
    last_pkt_num s = 1"
proof -
  define m :: u32 where "m = and (mtu - hdr - of_nat NIP_UDP_HDR_LEN) (not 7)"
  let ?a = "unat mtu - unat hdr - 8"
  have um: "unat m = ?a - ?a mod 8" using frag_mid_len [OF assms(3)] by (simp add: m_def)
  have m0: "m \<noteq> 0" using assms(1) unfolding nip_calc_pkt_frag_num_def m_def [symmetric] Let_def by auto
  then have mp: "0 < unat m" by (simp add: unat_gt_0)
  have s: "s = (if len mod m = 0 then \<lparr>mid_pkt_num = len div m - 1, last_pkt_num = 1,
        mid_usr_pkt_len = m, last_usr_pkt_len = m\<rparr>
      else \<lparr>mid_pkt_num = len div m, last_pkt_num = 1, mid_usr_pkt_len = m, last_usr_pkt_len = len mod m\<rparr>)"
    using assms(1,2) m0 unfolding nip_calc_pkt_frag_num_def m_def [symmetric] Let_def
    by (auto split: if_splits)
  have b: "unat m mod 8 = 0" "unat hdr + 8 + unat m \<le> unat mtu"
    using um assms(3) by (simp_all add: minus_mod_eq_mult_div)
  show ?thesis
  proof (cases "len mod m = 0")
    case True
    then have z: "unat len mod unat m = 0" by (metis unat_eq_0 unat_mod)
    have "unat len \<noteq> 0" using assms(2) by (simp add: unat_eq_0)
    then have "1 \<le> unat len div unat m" using z mp
      by (metis One_nat_def Suc_leI div_mult_mod_eq add.right_neutral mult_zero_left neq0_conv)
    then have "unat (len div m - 1) = unat len div unat m - 1"
      by (simp add: unat_sub unat_div word_le_nat_alt)
    then have "unat (len div m - 1) * unat m + unat m = unat len"
      using z \<open>1 \<le> unat len div unat m\<close> div_mult_mod_eq [of "unat len" "unat m"]
      by (cases "unat len div unat m") simp_all
    then show ?thesis using s True b mp by simp
  next
    case False
    then have "0 < unat len mod unat m" by (metis neq0_conv unat_eq_0 unat_mod)
    moreover have "unat len mod unat m < unat m" using mp by simp
    ultimately show ?thesis using s False b by (simp add: unat_div unat_mod)
  qed
qed

text \<open>the fragment sizes nip_calc_pkt_frag_num computes cover the user data exactly: the
  middle fragments and the last one add up to its length, the last one is not empty and not
  longer than a middle one, the middle length is a multiple of eight and fits the device's
  transmission unit together with the two headers.\<close>

theorem frag_num_partition:
  assumes "nip_calc_pkt_frag_num mtu hdr len = Some s" "len \<noteq> 0" "unat hdr + 8 \<le> unat mtu"
  shows "unat (mid_pkt_num s) * unat (mid_usr_pkt_len s) + unat (last_usr_pkt_len s) = unat len \<and>
    0 < unat (last_usr_pkt_len s) \<and> unat (last_usr_pkt_len s) \<le> unat (mid_usr_pkt_len s) \<and>
    unat (mid_usr_pkt_len s) mod 8 = 0 \<and> unat hdr + 8 + unat (mid_usr_pkt_len s) \<le> unat mtu \<and>
    last_pkt_num s = 1"
  using assms by (rule frag_num_parts)

theorem frag_num_partition_witness:
  "unat (1 :: u32) * unat (72 :: u32) + unat (28 :: u32) = unat (100 :: u32) \<and> 0 < unat (28 :: u32) \<and>
    unat (28 :: u32) \<le> unat (72 :: u32) \<and> unat (72 :: u32) mod 8 = 0 \<and>
    unat (20 :: u32) + 8 + unat (72 :: u32) \<le> unat (101 :: u32) \<and> (1 :: u32) = 1"
  using frag_num_partition [of 101 20 100
      "\<lparr>mid_pkt_num = 1, last_pkt_num = 1, mid_usr_pkt_len = 72, last_usr_pkt_len = 28\<rparr>"]
  by (simp add: nip_calc_pkt_frag_num_def NIP_UDP_HDR_LEN_def)

text \<open>with a transmission unit less than eight bytes above the two headers the middle
  length is zero and nip_calc_pkt_frag_num divides by zero; NIP_MIN_MTU does not exclude it.\<close>

theorem frag_num_division_by_zero:
  assumes "unat hdr + 8 \<le> unat mtu"
  shows "nip_calc_pkt_frag_num mtu hdr len = None \<longleftrightarrow> unat mtu < unat hdr + 16"
proof -
  let ?a = "unat mtu - unat hdr - 8"
  have "nip_calc_pkt_frag_num mtu hdr len = None \<longleftrightarrow> ?a - ?a mod 8 = 0"
    using frag_mid_len [OF assms] unfolding nip_calc_pkt_frag_num_def Let_def
    by (auto simp: unat_eq_0 split: if_splits)
  also have "?a - ?a mod 8 = 0 \<longleftrightarrow> ?a < 8"
    by (metis diff_is_0_eq mod_less_eq_dividend mod_less le_antisym mod_less_divisor zero_less_numeral order.refl)
  finally show ?thesis using assms by auto
qed

theorem frag_num_division_by_zero_witness:
  "nip_calc_pkt_frag_num (of_nat NIP_MIN_MTU) 20 100 = None \<longleftrightarrow> unat (of_nat NIP_MIN_MTU :: u32) < unat (20 :: u32) + 16"
  by (rule frag_num_division_by_zero) (simp add: NIP_MIN_MTU_def NIP_HDR_MAX_def NIP_UDP_HDR_LEN_def)

end
