(* ===== verification/NipFib.thy ===== *)
theory NipFib
  imports NipHdr
begin

text \<open>
  The forwarding tables: src/src/linux/include/net/nip_fib.h, net/newip/nip_fib.c and
  nip_fib_rules.c.

  Routes (struct nip_rt_info) live in a store addressed by route numbers, because tables,
  caches and sockets share them by pointer. A fib node and its route belong to each other, so
  a hash chain is a list of route numbers, and \<^verbatim>\<open>rt_node\<close> says whether the route has a node.
  Devices, their ninet_dev and the interface addresses are objects of the
  same kind, named by numbers (a device by its interface index). The reference counts of the
  code are kept as integers; the callbacks given to call_rcu wait in a
  queue. The kernel's hash_32(_, 4) is a parameter: its value has four bits. A lookup is None
  when hashing an address would read beyond it.

  The locale at the end states what the stack relies on from such a table.
\<close>

section \<open>State\<close>

type_synonym rt_id = nat
type_synonym hash32 = "u32 \<Rightarrow> 4 word"

datatype fib_tb_id = RT_TABLE_MAIN | RT_TABLE_LOCAL | RT_TABLE_OTHER

datatype dst_fun = Fun_nip_input | Fun_nip_output | Fun_nip_forward | Fun_nip_pkt_discard
  | Fun_nip_pkt_discard_out | Fun_unset

record nip_rt_info =
  dst_refcnt :: int
  dst_dev :: "nat option"
  dst_dead :: bool                      \<comment> \<open>dst.obsolete is no longer DST_OBSOLETE_FORCE_CHK\<close>
  dst_input :: dst_fun
  dst_output :: dst_fun
  rt_from :: "rt_id option"
  rt_table :: fib_tb_id
  rt_node :: bool
  rt_idev :: "nat option"
  rt_pcpu :: "(nat \<Rightarrow> rt_id option) option"
  rt_ref :: int
  rt_flags :: u32
  rt_gateway :: nip_addr
  rt_dst :: nip_addr
  rt_src :: nip_addr
  rt_metric :: u32
  rt_protocol :: u8

record nip_fib_table =
  tb_id :: fib_tb_id
  tb_head :: "rt_id list list"    \<comment> \<open>nip_tb_head[NIN_ROUTE_HSIZE]\<close>

record net_device =
  dev_present :: bool             \<comment> \<open>found by dev_get_by_index\<close>
  dev_running :: bool
  dev_unregistering :: bool
  dev_slave :: bool
  dev_link_ready :: bool          \<comment> \<open>nip_addrconf_link_ready\<close>
  dev_tx_redirects :: bool        \<comment> \<open>IN_DEV_TX_REDIRECTS of its IPv4 configuration\<close>
  dev_mtu :: u32
  dev_refcnt :: int
  nip_ptr :: "nat option"

record ninet_dev =
  idev_dev :: nat
  idev_refcnt :: int
  idev_dead :: bool
  idev_ready :: bool              \<comment> \<open>IF_READY in if_flags\<close>
  cnf_mtu :: u32
  cnf_disable_nip :: bool
  cnf_ignore_linkdown :: bool     \<comment> \<open>ignore_routes_with_linkdown\<close>
  addr_list :: "nat list"

record ninet_ifaddr =
  ifa_addr :: nip_addr
  ifa_flags :: u32
  ifa_valid_lft :: u32
  ifa_preferred_lft :: u32
  ifa_refcnt :: int
  ifa_dead :: bool                \<comment> \<open>state = NINET_IFADDR_STATE_DEAD\<close>
  ifa_idev :: nat
  ifa_rt :: rt_id

record netns_newip =
  rts :: "rt_id \<Rightarrow> nip_rt_info"
  fib_main_tbl :: nip_fib_table
  fib_local_tbl :: nip_fib_table
  null_entry :: rt_id
  broadcast_entry :: rt_id
  rcu_nodes :: "rt_id list"       \<comment> \<open>nodes whose nip_fib_destroy_rcu is pending\<close>
  possible_cpus :: "nat list"
  devs :: "nat \<Rightarrow> net_device"
  loopback_dev :: nat
  idevs :: "nat \<Rightarrow> ninet_dev"
  ifas :: "nat \<Rightarrow> ninet_ifaddr"
  addr_lst :: "nat list list"     \<comment> \<open>ninet_addr_lst[NIN_ADDR_HSIZE]\<close>

definition NIN_ROUTE_HSIZE :: nat where "NIN_ROUTE_HSIZE = 16"

definition upd_rt :: "rt_id \<Rightarrow> (nip_rt_info \<Rightarrow> nip_rt_info) \<Rightarrow> netns_newip \<Rightarrow> netns_newip" where
  "upd_rt r f net = net\<lparr>rts := (rts net)(r := f (rts net r))\<rparr>"

text \<open>dst_hold, dst_release and dst_release_immediate on the count; the memory of an entry is
  reclaimed later, when the count is zero.\<close>

definition dst_hold :: "rt_id \<Rightarrow> netns_newip \<Rightarrow> netns_newip" where
  "dst_hold r = upd_rt r (\<lambda>rt. rt\<lparr>dst_refcnt := dst_refcnt rt + 1\<rparr>)"

definition dst_release :: "rt_id \<Rightarrow> netns_newip \<Rightarrow> netns_newip" where
  "dst_release r = upd_rt r (\<lambda>rt. rt\<lparr>dst_refcnt := dst_refcnt rt - 1\<rparr>)"

definition dst_dev_put :: "rt_id \<Rightarrow> netns_newip \<Rightarrow> netns_newip" where
  "dst_dev_put r = upd_rt r (\<lambda>rt. rt\<lparr>dst_dead := True\<rparr>)"

definition nip_rt_put :: "rt_id \<Rightarrow> netns_newip \<Rightarrow> netns_newip" where
  "nip_rt_put r = dst_release r"

definition nip_rt_hold :: "rt_id \<Rightarrow> netns_newip \<Rightarrow> netns_newip" where
  "nip_rt_hold r = upd_rt r (\<lambda>rt. rt\<lparr>rt_ref := rt_ref rt + 1\<rparr>)"

section \<open>Per-cpu copies and the release of a route\<close>

text \<open>The loop of nip_rt_free_pcpu over the possible cpus.\<close>

fun free_pcpu_loop :: "rt_id \<Rightarrow> nat list \<Rightarrow> netns_newip \<Rightarrow> netns_newip" where
  "free_pcpu_loop r [] net = net"
| "free_pcpu_loop r (cpu # cpus) net =
    (case rt_pcpu (rts net r) of None \<Rightarrow> net
     | Some slots \<Rightarrow>
       (case slots cpu of None \<Rightarrow> free_pcpu_loop r cpus net
        | Some p \<Rightarrow>
          let net = dst_release p (dst_dev_put p net);
              net = upd_rt r (\<lambda>rt. rt\<lparr>rt_pcpu := Some (slots(cpu := None))\<rparr>) net
          in free_pcpu_loop r cpus net))"

definition nip_rt_free_pcpu :: "rt_id \<Rightarrow> netns_newip \<Rightarrow> netns_newip" where
  "nip_rt_free_pcpu r net =
    (if rt_pcpu (rts net r) = None then net
     else upd_rt r (\<lambda>rt. rt\<lparr>rt_pcpu := None\<rparr>) (free_pcpu_loop r (possible_cpus net) net))"

definition nip_rt_release :: "rt_id \<Rightarrow> netns_newip \<Rightarrow> netns_newip" where
  "nip_rt_release r net =
    (let net = upd_rt r (\<lambda>rt. rt\<lparr>rt_ref := rt_ref rt - 1\<rparr>) net in
     if rt_ref (rts net r) = 0
     then dst_release r (dst_dev_put r (nip_rt_free_pcpu r net))
     else net)"

section \<open>Tables\<close>

definition nip_fib_get_table :: "netns_newip \<Rightarrow> fib_tb_id \<Rightarrow> nip_fib_table option" where
  "nip_fib_get_table net i =
    (if i = RT_TABLE_MAIN then Some (fib_main_tbl net)
     else if i = RT_TABLE_LOCAL then Some (fib_local_tbl net)
     else None)"

definition put_table :: "fib_tb_id \<Rightarrow> nip_fib_table \<Rightarrow> netns_newip \<Rightarrow> netns_newip" where
  "put_table i t net =
    (if i = RT_TABLE_MAIN then net\<lparr>fib_main_tbl := t\<rparr>
     else if i = RT_TABLE_LOCAL then net\<lparr>fib_local_tbl := t\<rparr> else net)"

definition ninet_route_hash :: "hash32 \<Rightarrow> nip_addr \<Rightarrow> nat option" where
  "ninet_route_hash h32 a = map_option (\<lambda>w. unat (h32 w)) (nip_addr_hash a)"

text \<open>hlist_for_each_entry until an entry matches.\<close>

fun chain_find :: "(rt_id \<Rightarrow> nip_rt_info) \<Rightarrow> nip_addr \<Rightarrow> rt_id list \<Rightarrow> rt_id option" where
  "chain_find rs a [] = None"
| "chain_find rs a (r # c) = (if nip_addr_eq (rt_dst (rs r)) a then Some r else chain_find rs a c)"

text \<open>The chain of an address, and the first half of nip_fib_locate.\<close>

definition table_find ::
  "hash32 \<Rightarrow> (rt_id \<Rightarrow> nip_rt_info) \<Rightarrow> rt_id list list \<Rightarrow> nip_addr \<Rightarrow> rt_id option option" where
  "table_find h32 rs head a =
    (case ninet_route_hash h32 a of None \<Rightarrow> None | Some h \<Rightarrow> Some (chain_find rs a (head ! h)))"

definition nip_fib_locate ::
  "hash32 \<Rightarrow> (rt_id \<Rightarrow> nip_rt_info) \<Rightarrow> rt_id list list \<Rightarrow> nip_addr \<Rightarrow> rt_id option option" where
  "nip_fib_locate h32 rs head daddr =
    (case table_find h32 rs head daddr of None \<Rightarrow> None
     | Some (Some r) \<Rightarrow> Some (Some r)
     | Some None \<Rightarrow> table_find h32 rs head nip_any_addr)"

text \<open>rt->rt_idev->dev->ifindex; 0 stands for a missing ninet_dev (no device has that index).\<close>

definition ifindex_of :: "netns_newip \<Rightarrow> nip_rt_info \<Rightarrow> int" where
  "ifindex_of net rt = (case rt_idev rt of Some d \<Rightarrow> int (idev_dev (idevs net d)) | None \<Rightarrow> 0)"

text \<open>The duplicate test of nip_fib_add against one chain.\<close>

fun chain_dup :: "fib_tb_id \<Rightarrow> netns_newip \<Rightarrow> nip_rt_info \<Rightarrow> rt_id list \<Rightarrow> bool" where
  "chain_dup i net rt [] = False"
| "chain_dup i net rt (r # c) =
    (if i = RT_TABLE_MAIN then
       nip_addr_eq (rt_dst (rts net r)) (rt_dst rt) \<or> chain_dup i net rt c
     else if i = RT_TABLE_LOCAL then
       nip_addr_and_ifindex_eq (rt_dst (rts net r)) (rt_dst rt)
         (ifindex_of net (rts net r)) (ifindex_of net rt)
       \<or> chain_dup i net rt c
     else chain_dup i net rt c)"

text \<open>nip_fib_add on the table rt is meant for; node_ok is the success of nip_node_alloc.\<close>

definition nip_fib_add ::
  "hash32 \<Rightarrow> bool \<Rightarrow> nip_fib_table \<Rightarrow> rt_id \<Rightarrow> netns_newip \<Rightarrow> (int \<times> netns_newip) option" where
  "nip_fib_add h32 node_ok table r net =
    (case ninet_route_hash h32 (rt_dst (rts net r)) of None \<Rightarrow> None
     | Some h \<Rightarrow>
       if chain_dup (tb_id table) net (rts net r) (tb_head table ! h)
       then Some (- EEXIST, dst_release r net)
       else if \<not> node_ok then Some (- ENOMEM, dst_release r net)
       else
         let net = upd_rt r (\<lambda>rt. rt\<lparr>rt_node := True, rt_ref := rt_ref rt + 1\<rparr>) net;
             table = table\<lparr>tb_head := (tb_head table)[h := tb_head table ! h @ [r]]\<rparr>
         in Some (0, put_table (tb_id table) table net))"

text \<open>hlist_del of the node of r: it is unlinked from the chain that holds it.\<close>

definition unlink :: "rt_id \<Rightarrow> nip_fib_table \<Rightarrow> nip_fib_table" where
  "unlink r t = t\<lparr>tb_head := map (removeAll r) (tb_head t)\<rparr>"

definition nip_fib_del :: "rt_id \<Rightarrow> netns_newip \<Rightarrow> int \<times> netns_newip" where
  "nip_fib_del r net =
    (if \<not> rt_node (rts net r) \<or> r = null_entry net then (- ENOENT, net)
     else
       let net = net\<lparr>fib_main_tbl := unlink r (fib_main_tbl net),
                     fib_local_tbl := unlink r (fib_local_tbl net)\<rparr>;
           net = upd_rt r (\<lambda>rt. rt\<lparr>rt_node := False\<rparr>) net
       in (0, net\<lparr>rcu_nodes := rcu_nodes net @ [r]\<rparr>))"

text \<open>One pending callback runs after its grace period.\<close>

fun nip_fib_destroy_rcu :: "netns_newip \<Rightarrow> netns_newip" where
  "nip_fib_destroy_rcu net =
    (case rcu_nodes net of [] \<Rightarrow> net
     | r # rest \<Rightarrow> nip_rt_release r (net\<lparr>rcu_nodes := rest\<rparr>))"

text \<open>hlist_for_each_entry_safe: the chain is fixed before its entries are deleted.\<close>

fun clean_chain :: "(nip_rt_info \<Rightarrow> rt_id \<Rightarrow> int) \<Rightarrow> rt_id list \<Rightarrow> netns_newip \<Rightarrow> netns_newip" where
  "clean_chain f [] net = net"
| "clean_chain f (r # c) net =
    clean_chain f c (if f (rts net r) r < 0 then snd (nip_fib_del r net) else net)"

fun clean_heads ::
  "(netns_newip \<Rightarrow> nip_fib_table) \<Rightarrow> (nip_rt_info \<Rightarrow> rt_id \<Rightarrow> int) \<Rightarrow> nat list \<Rightarrow> netns_newip \<Rightarrow> netns_newip" where
  "clean_heads tbl f [] net = net"
| "clean_heads tbl f (i # idx) net = clean_heads tbl f idx (clean_chain f (tb_head (tbl net) ! i) net)"

definition nip_fib_clean_hash ::
  "(netns_newip \<Rightarrow> nip_fib_table) \<Rightarrow> (nip_rt_info \<Rightarrow> rt_id \<Rightarrow> int) \<Rightarrow> netns_newip \<Rightarrow> netns_newip" where
  "nip_fib_clean_hash tbl f net = clean_heads tbl f [0 ..< NIN_ROUTE_HSIZE] net"

definition nip_fib_clean_all :: "(nip_rt_info \<Rightarrow> rt_id \<Rightarrow> int) \<Rightarrow> netns_newip \<Rightarrow> netns_newip" where
  "nip_fib_clean_all f net =
    nip_fib_clean_hash fib_local_tbl f (nip_fib_clean_hash fib_main_tbl f net)"

definition empty_table :: "fib_tb_id \<Rightarrow> nip_fib_table" where
  "empty_table i = \<lparr>tb_id = i, tb_head = replicate NIN_ROUTE_HSIZE []\<rparr>"

text \<open>nip_fib_net_init with the success of its two allocations: the tables it leaves behind
  (None is a freed or never allocated one) and the code it returns.\<close>

definition nip_fib_net_init :: "bool \<Rightarrow> bool \<Rightarrow> int \<times> nip_fib_table option \<times> nip_fib_table option" where
  "nip_fib_net_init main_ok local_ok =
    (if \<not> main_ok then (- ENOMEM, None, None)
     else if \<not> local_ok then (- ENOMEM, None, None)
     else (0, Some (empty_table RT_TABLE_MAIN), Some (empty_table RT_TABLE_LOCAL)))"

section \<open>Rule lookup (nip_fib_rules.c)\<close>

datatype tbl_type = TBL_LOCAL | TBL_MAIN | TBL_MAX

text \<open>lookup is the table lookup the caller passes (nip_pol_route_input or _output); it takes a
  reference on its result.\<close>

definition nip_fib_rule_lookup ::
  "(nip_fib_table \<Rightarrow> netns_newip \<Rightarrow> (rt_id \<times> netns_newip) option) \<Rightarrow> netns_newip
     \<Rightarrow> (rt_id \<times> tbl_type \<times> netns_newip) option" where
  "nip_fib_rule_lookup lookup net =
    (case lookup (fib_local_tbl net) net of None \<Rightarrow> None
     | Some (r, net) \<Rightarrow>
       if r \<noteq> null_entry net then Some (r, TBL_LOCAL, net)
       else case lookup (fib_main_tbl (nip_rt_put r net)) (nip_rt_put r net) of None \<Rightarrow> None
         | Some (r, net) \<Rightarrow>
           if r \<noteq> null_entry net then Some (r, TBL_MAIN, net)
           else
             let net = dst_hold (null_entry net) (nip_rt_put r net)
             in Some (null_entry net, TBL_MAX, net))"

section \<open>What the stack relies on from a table\<close>

text \<open>
  A table of routes by address: find, insert at the end, unlink. key is the destination of a
  route and ok the addresses that can be hashed. The client lemmas are about the fallback to
  the default route that nip_fib_locate adds to find.
\<close>

locale addr_table =
  fixes inv :: "'t \<Rightarrow> bool"
    and find :: "'t \<Rightarrow> nip_addr \<Rightarrow> rt_id option"
    and ins :: "'t \<Rightarrow> rt_id \<Rightarrow> 't"
    and del :: "'t \<Rightarrow> rt_id \<Rightarrow> 't"
    and key :: "rt_id \<Rightarrow> nip_addr"
    and ok :: "nip_addr \<Rightarrow> bool"
  assumes inv_ins: "inv t \<Longrightarrow> ok (key r) \<Longrightarrow> find t (key r) = None \<Longrightarrow> inv (ins t r)"
    and inv_del: "inv t \<Longrightarrow> inv (del t r)"
    and find_ins: "inv t \<Longrightarrow> ok (key r) \<Longrightarrow> find t (key r) = None \<Longrightarrow> ok a \<Longrightarrow>
      find (ins t r) a = (if nip_addr_eq (key r) a then Some r else find t a)"
    and find_del: "inv t \<Longrightarrow> ok a \<Longrightarrow> find (del t r) a = (if find t a = Some r then None else find t a)"
    and find_key: "inv t \<Longrightarrow> ok a \<Longrightarrow> find t a = Some r \<Longrightarrow> nip_addr_eq (key r) a"
    and find_cong: "inv t \<Longrightarrow> nip_addr_eq a b \<Longrightarrow> ok a \<Longrightarrow> ok b \<Longrightarrow> find t a = find t b"
    and ok_any: "ok nip_any_addr"
begin

definition locate :: "'t \<Rightarrow> nip_addr \<Rightarrow> rt_id option" where
  "locate t a = (case find t a of Some r \<Rightarrow> Some r | None \<Rightarrow> find t nip_any_addr)"

lemma locate_ins:
  assumes "inv t" "ok (key r)" "find t (key r) = None" "nip_addr_eq (key r) (key r)"
  shows "locate (ins t r) (key r) = Some r"
  using assms by (simp add: locate_def find_ins)

lemma locate_default:
  "find t nip_any_addr = Some d \<Longrightarrow> locate t a \<noteq> None"
  by (simp add: locate_def split: option.splits)

lemma locate_miss: "find t a = None \<Longrightarrow> locate t a = find t nip_any_addr"
  by (simp add: locate_def)

lemma del_ins:
  assumes "inv t" "ok (key r)" "find t (key r) = None" "ok a" "find t a \<noteq> Some r"
  shows "find (del (ins t r) r) a = find t a"
  using assms find_cong [OF assms(1), of "key r" a] by (simp add: find_del inv_ins find_ins)

text \<open>Deleting the route that locate answers for an absent address removes the default route.\<close>

lemma del_located_absent:
  assumes "inv t" "ok a" "find t a = None" "locate t a = Some d"
  shows "find t nip_any_addr = Some d" "find (del t d) nip_any_addr = None"
  using assms by (simp_all add: locate_miss find_del ok_any)

lemma locate_del_other:
  assumes "inv t" "ok a" "find t a = Some s" "s \<noteq> r"
  shows "locate (del t r) a = Some s"
  using assms by (simp add: locate_def find_del)

end

section \<open>The hash table keeps those laws\<close>

definition addr_ok :: "nip_addr \<Rightarrow> bool" where
  "addr_ok a \<longleftrightarrow> wf_addr a \<and> unat (bitlen a) \<le> 64"

text \<open>The hash takes up to 71 bits, which are still eight bytes; nip_addr_eq never holds for more than 64.\<close>

definition hashable :: "nip_addr \<Rightarrow> bool" where
  "hashable a \<longleftrightarrow> wf_addr a \<and> unat (bitlen a) < 72"

lemma addr_ok_hashable: "addr_ok a \<Longrightarrow> hashable a"
  by (simp add: addr_ok_def hashable_def)

definition bucket :: "hash32 \<Rightarrow> nip_addr \<Rightarrow> nat" where
  "bucket h32 a = the (ninet_route_hash h32 a)"

lemma addr_ok_eq: "addr_ok a \<Longrightarrow> nip_addr_eq a a"
  by (simp add: addr_ok_def nip_addr_eq_refl u8_le_64)

lemma hashable_hash:
  assumes "hashable a"
  shows "ninet_route_hash h32 a = Some (bucket h32 a)" "bucket h32 a < NIN_ROUTE_HSIZE"
proof -
  have "unat (bitlen a) div 8 \<le> 8" using assms unfolding hashable_def by linarith
  then obtain w where w: "nip_addr_hash a = Some w"
    using assms by (simp add: nip_addr_hash_def hashable_def wf_addr_def Let_def)
  have "unat (h32 w) < 16" using unsigned_less [of "h32 w", where ?'a = nat] by simp
  then show "ninet_route_hash h32 a = Some (bucket h32 a)" "bucket h32 a < NIN_ROUTE_HSIZE"
    using w by (simp_all add: ninet_route_hash_def bucket_def NIN_ROUTE_HSIZE_def)
qed

lemmas hash_ok = hashable_hash [OF addr_ok_hashable]

lemma bucket_cong: "hashable a \<Longrightarrow> hashable b \<Longrightarrow> nip_addr_eq a b \<Longrightarrow> bucket h32 a = bucket h32 b"
  using nip_addr_hash_cong [of a b] by (simp add: bucket_def ninet_route_hash_def hashable_def)

text \<open>Every route hangs in the chain of its address, once.\<close>

definition heads_inv :: "hash32 \<Rightarrow> (rt_id \<Rightarrow> nip_addr) \<Rightarrow> rt_id list list \<Rightarrow> bool" where
  "heads_inv h32 key head \<longleftrightarrow> length head = NIN_ROUTE_HSIZE \<and>
     (\<forall>i < NIN_ROUTE_HSIZE. \<forall>r \<in> set (head ! i). hashable (key r) \<and> bucket h32 (key r) = i) \<and>
     (\<forall>i < NIN_ROUTE_HSIZE. distinct (head ! i))"

definition unique_keys :: "(rt_id \<Rightarrow> nip_addr) \<Rightarrow> rt_id list list \<Rightarrow> bool" where
  "unique_keys key head \<longleftrightarrow>
     (\<forall>r \<in> set (concat head). \<forall>s \<in> set (concat head). nip_addr_eq (key r) (key s) \<longrightarrow> r = s)"

definition heads_find :: "hash32 \<Rightarrow> (rt_id \<Rightarrow> nip_addr) \<Rightarrow> rt_id list list \<Rightarrow> nip_addr \<Rightarrow> rt_id option" where
  "heads_find h32 key head a = find (\<lambda>r. nip_addr_eq (key r) a) (head ! bucket h32 a)"

definition heads_ins :: "hash32 \<Rightarrow> (rt_id \<Rightarrow> nip_addr) \<Rightarrow> rt_id list list \<Rightarrow> rt_id \<Rightarrow> rt_id list list" where
  "heads_ins h32 key head r = (let h = bucket h32 (key r) in head[h := head ! h @ [r]])"

definition heads_del :: "rt_id list list \<Rightarrow> rt_id \<Rightarrow> rt_id list list" where
  "heads_del head r = map (removeAll r) head"

lemma chain_find_eq: "chain_find rs a c = find (\<lambda>r. nip_addr_eq (rt_dst (rs r)) a) c"
  by (induction c) auto

lemma table_find_eq:
  "addr_ok a \<Longrightarrow> table_find h32 rs head a = Some (heads_find h32 (\<lambda>r. rt_dst (rs r)) head a)"
  by (simp add: table_find_def hash_ok heads_find_def chain_find_eq)

lemma find_removeAll:
  assumes "distinct c" "\<And>r s. r \<in> set c \<Longrightarrow> s \<in> set c \<Longrightarrow> P r \<Longrightarrow> P s \<Longrightarrow> r = s"
  shows "find P (removeAll x c) = (if find P c = Some x then None else find P c)"
  using assms
proof (induction c)
  case (Cons y c)
  then have IH: "find P (removeAll x c) = (if find P c = Some x then None else find P c)" by simp
  show ?case
  proof (cases "x = y \<and> P y")
    case True
    then have "find P c = None" using Cons.prems by (auto simp: find_None_iff)
    with True IH show ?thesis by simp
  next
    case False
    then show ?thesis using IH Cons.prems(1) by (auto simp: find_Some_iff)
  qed
qed simp

lemma find_snoc: "find P (c @ [r]) = (case find P c of Some x \<Rightarrow> Some x | None \<Rightarrow> if P r then Some r else None)"
  by (induction c) auto

lemma in_concat_nth: "r \<in> set (concat xs) \<longleftrightarrow> (\<exists>i < length xs. r \<in> set (xs ! i))"
  by (metis UN_E UN_I in_set_conv_nth nth_mem set_concat)

lemma in_concat_heads: "heads_inv h32 key head \<Longrightarrow>
   r \<in> set (concat head) \<longleftrightarrow> (\<exists>i < NIN_ROUTE_HSIZE. r \<in> set (head ! i))"
  by (simp add: heads_inv_def in_concat_nth del: set_concat)

lemma heads_find_None:
  assumes "heads_inv h32 key head" "hashable a" "heads_find h32 key head a = None" "r \<in> set (concat head)"
  shows "\<not> nip_addr_eq (key r) a"
proof
  assume e: "nip_addr_eq (key r) a"
  obtain i where i: "i < NIN_ROUTE_HSIZE" "r \<in> set (head ! i)" using assms(1,4) in_concat_heads by blast
  then have "hashable (key r)" "bucket h32 (key r) = i" using assms(1) by (auto simp: heads_inv_def)
  then have "r \<in> set (head ! bucket h32 a)" using bucket_cong [OF _ assms(2) e] i by metis
  then show False using assms(3) e by (auto simp: heads_find_def find_None_iff)
qed

lemma heads_find_key: "heads_find h32 key head a = Some r \<Longrightarrow> nip_addr_eq (key r) a"
  by (auto simp: heads_find_def find_Some_iff)

lemma any_addr_ok: "addr_ok nip_any_addr"
  by (simp add: addr_ok_def any_addr_valid) (simp add: nip_any_addr_def)

interpretation main_tab: addr_table
  "\<lambda>head. heads_inv h32 key head \<and> unique_keys key head" "heads_find h32 key" "heads_ins h32 key" heads_del key addr_ok
  for h32 :: hash32 and key :: "rt_id \<Rightarrow> nip_addr"
proof unfold_locales
  fix t r assume i: "heads_inv h32 key t \<and> unique_keys key t" and ok: "addr_ok (key r)"
    and n: "heads_find h32 key t (key r) = None"
  let ?h = "bucket h32 (key r)"
  have h: "?h < length t" using hash_ok(2) [OF ok] i by (auto simp: heads_inv_def)
  have new: "r \<notin> set (concat t)" using heads_find_None [OF _ addr_ok_hashable [OF ok] n] i addr_ok_eq [OF ok] by blast
  have sub: "set (concat (heads_ins h32 key t r)) \<subseteq> insert r (set (concat t))"
  proof
    fix x assume "x \<in> set (concat (heads_ins h32 key t r))"
    then obtain i where i: "i < length t" "x \<in> set (heads_ins h32 key t r ! i)"
      by (auto simp: in_concat_nth heads_ins_def Let_def simp del: set_concat)
    then have "x = r \<or> x \<in> set (t ! i)"
      by (cases "i = ?h") (auto simp: heads_ins_def Let_def)
    then show "x \<in> insert r (set (concat t))" using i(1) by (auto simp: in_concat_nth simp del: set_concat)
  qed
  have new': "r \<notin> set (t ! ?h)" using new h by (auto simp: in_concat_nth simp del: set_concat)
  have nth: "heads_ins h32 key t r ! j = (if j = ?h then t ! ?h @ [r] else t ! j)" if "j < length t" for j
    using that h by (simp add: heads_ins_def Let_def)
  have len: "length t = NIN_ROUTE_HSIZE" "length (heads_ins h32 key t r) = NIN_ROUTE_HSIZE"
    using i by (simp_all add: heads_inv_def heads_ins_def Let_def)
  have "hashable (key s) \<and> bucket h32 (key s) = j"
    if "j < NIN_ROUTE_HSIZE" "s \<in> set (heads_ins h32 key t r ! j)" for j s
    using i that len nth [of j] addr_ok_hashable [OF ok] unfolding heads_inv_def by (cases "j = ?h") auto
  moreover have "distinct (heads_ins h32 key t r ! j)" if "j < NIN_ROUTE_HSIZE" for j
    using i that len nth [of j] new' unfolding heads_inv_def by (cases "j = ?h") auto
  ultimately have "heads_inv h32 key (heads_ins h32 key t r)"
    using len(2) unfolding heads_inv_def by blast
  moreover have "unique_keys key (heads_ins h32 key t r)"
    unfolding unique_keys_def
  proof (intro ballI impI)
    fix u v assume uv: "u \<in> set (concat (heads_ins h32 key t r))" "v \<in> set (concat (heads_ins h32 key t r))"
      and e: "nip_addr_eq (key u) (key v)"
    have *: "\<not> nip_addr_eq (key s) (key r)" if "s \<in> set (concat t)" for s
      using heads_find_None [OF _ addr_ok_hashable [OF ok] n that] i by blast
    show "u = v"
      using uv sub e * nip_addr_eq_sym i unfolding unique_keys_def by blast
  qed
  ultimately show "heads_inv h32 key (heads_ins h32 key t r) \<and> unique_keys key (heads_ins h32 key t r)" ..
next
  fix t r assume i: "heads_inv h32 key t \<and> unique_keys key t"
  then show "heads_inv h32 key (heads_del t r) \<and> unique_keys key (heads_del t r)"
    by (auto simp: heads_inv_def unique_keys_def heads_del_def distinct_removeAll)
next
  fix t r a assume i: "heads_inv h32 key t \<and> unique_keys key t" and ok: "addr_ok (key r)" "addr_ok a"
    and n: "heads_find h32 key t (key r) = None"
  let ?h = "bucket h32 (key r)"
  have h: "?h < length t" using hash_ok(2) [OF ok(1)] i by (auto simp: heads_inv_def)
  show "heads_find h32 key (heads_ins h32 key t r) a = (if nip_addr_eq (key r) a then Some r else heads_find h32 key t a)"
  proof (cases "nip_addr_eq (key r) a")
    case True
    then have b: "bucket h32 a = ?h" using bucket_cong [OF ok(1,2) [THEN addr_ok_hashable]] by metis
    have "find (\<lambda>s. nip_addr_eq (key s) a) (t ! ?h) = None"
      using n True unfolding heads_find_def find_None_iff by (metis nip_addr_eq_sym nip_addr_eq_trans)
    then show ?thesis using True h b by (simp add: heads_find_def heads_ins_def Let_def find_snoc)
  next
    case False
    then show ?thesis using h
      by (cases "bucket h32 a = ?h")
        (auto simp: heads_find_def heads_ins_def Let_def find_snoc nth_list_update split: option.splits)
  qed
next
  fix t a r assume i: "heads_inv h32 key t \<and> unique_keys key t" and ok: "addr_ok a"
  have b: "bucket h32 a < length t" "bucket h32 a < NIN_ROUTE_HSIZE"
    using hash_ok(2) [OF ok] i by (auto simp: heads_inv_def)
  have u: "x = y" if "x \<in> set (t ! bucket h32 a)" "y \<in> set (t ! bucket h32 a)"
    "nip_addr_eq (key x) a" "nip_addr_eq (key y) a" for x y
  proof -
    have "x \<in> set (concat t)" "y \<in> set (concat t)" using that b by auto
    moreover have "nip_addr_eq (key x) (key y)" using that(3,4) nip_addr_eq_sym nip_addr_eq_trans by blast
    ultimately show ?thesis using i unfolding unique_keys_def by blast
  qed
  show "heads_find h32 key (heads_del t r) a = (if heads_find h32 key t a = Some r then None else heads_find h32 key t a)"
    using i b u unfolding heads_find_def heads_del_def
    by (simp add: find_removeAll heads_inv_def)
next
  fix t a r assume "heads_find h32 key t a = Some r"
  then show "nip_addr_eq (key r) a" by (rule heads_find_key)
next
  fix t a b assume e: "nip_addr_eq a b" and ok: "addr_ok a" "addr_ok b"
  have "(\<lambda>r. nip_addr_eq (key r) a) = (\<lambda>r. nip_addr_eq (key r) b)"
    using e nip_addr_eq_sym nip_addr_eq_trans by blast
  then show "heads_find h32 key t a = heads_find h32 key t b"
    using bucket_cong [OF ok [THEN addr_ok_hashable] e] by (simp add: heads_find_def)
qed (rule any_addr_ok)

section \<open>The invariant of the two tables\<close>

definition routes :: "nip_fib_table \<Rightarrow> rt_id set" where
  "routes t = set (concat (tb_head t))"

definition key_of :: "netns_newip \<Rightarrow> rt_id \<Rightarrow> nip_addr" where
  "key_of net r = rt_dst (rts net r)"

definition fib_inv :: "hash32 \<Rightarrow> netns_newip \<Rightarrow> bool" where
  "fib_inv h32 net \<longleftrightarrow>
     tb_id (fib_main_tbl net) = RT_TABLE_MAIN \<and> tb_id (fib_local_tbl net) = RT_TABLE_LOCAL \<and>
     heads_inv h32 (key_of net) (tb_head (fib_main_tbl net)) \<and>
     unique_keys (key_of net) (tb_head (fib_main_tbl net)) \<and>
     heads_inv h32 (key_of net) (tb_head (fib_local_tbl net)) \<and>
     routes (fib_main_tbl net) \<inter> routes (fib_local_tbl net) = {} \<and>
     (\<forall>r. rt_node (rts net r) \<longleftrightarrow> r \<in> routes (fib_main_tbl net) \<union> routes (fib_local_tbl net)) \<and>
     null_entry net \<notin> routes (fib_main_tbl net) \<union> routes (fib_local_tbl net) \<and>
     distinct (rcu_nodes net) \<and> (\<forall>r \<in> set (rcu_nodes net). \<not> rt_node (rts net r)) \<and>
     (\<forall>r. r \<noteq> null_entry net \<longrightarrow> r \<noteq> broadcast_entry net \<longrightarrow>
        rt_ref (rts net r) = of_bool (rt_node (rts net r)) + of_bool (r \<in> set (rcu_nodes net)))"

lemma fib_invD:
  assumes "fib_inv h32 net"
  shows "heads_inv h32 (key_of net) (tb_head (fib_main_tbl net)) \<and> unique_keys (key_of net) (tb_head (fib_main_tbl net))"
    and "heads_inv h32 (key_of net) (tb_head (fib_local_tbl net))"
    and "rt_node (rts net r) \<longleftrightarrow> r \<in> routes (fib_main_tbl net) \<union> routes (fib_local_tbl net)"
    and "routes (fib_main_tbl net) \<inter> routes (fib_local_tbl net) = {}"
    and "tb_id (fib_main_tbl net) = RT_TABLE_MAIN" "tb_id (fib_local_tbl net) = RT_TABLE_LOCAL"
  using assms unfolding fib_inv_def by blast+

definition main_find :: "hash32 \<Rightarrow> netns_newip \<Rightarrow> nip_addr \<Rightarrow> rt_id option" where
  "main_find h32 net a = heads_find h32 (key_of net) (tb_head (fib_main_tbl net)) a"

lemma table_find_main:
  "addr_ok a \<Longrightarrow> table_find h32 (rts net) (tb_head (fib_main_tbl net)) a = Some (main_find h32 net a)"
  by (simp add: table_find_eq main_find_def key_of_def [abs_def])

lemma main_locate:
  "addr_ok a \<Longrightarrow> nip_fib_locate h32 (rts net) (tb_head (fib_main_tbl net)) a
    = Some (case main_find h32 net a of Some r \<Rightarrow> Some r | None \<Rightarrow> main_find h32 net nip_any_addr)"
  by (simp add: nip_fib_locate_def table_find_main any_addr_ok split: option.splits)

lemma main_locate_eq:
  "addr_ok a \<Longrightarrow> nip_fib_locate h32 (rts net) (tb_head (fib_main_tbl net)) a
    = Some (main_tab.locate h32 (key_of net) (tb_head (fib_main_tbl net)) a)"
  unfolding main_locate main_tab.locate_def main_find_def by (simp split: option.splits)

lemma chain_dup_main:
  "chain_dup RT_TABLE_MAIN net rt c \<longleftrightarrow> find (\<lambda>r. nip_addr_eq (rt_dst (rts net r)) (rt_dst rt)) c \<noteq> None"
  by (induction c) auto

lemma main_dup:
  assumes "addr_ok (key_of net r)"
  shows "chain_dup RT_TABLE_MAIN net (rts net r) (tb_head (fib_main_tbl net) ! bucket h32 (key_of net r))
    \<longleftrightarrow> main_find h32 net (key_of net r) \<noteq> None"
  by (simp add: chain_dup_main main_find_def heads_find_def key_of_def)

text \<open>The effect of nip_fib_add on the main table, by its three outcomes.\<close>

lemma fib_add_main:
  assumes i: "fib_inv h32 net" and ok: "addr_ok (key_of net r)"
  shows "nip_fib_add h32 node_ok (fib_main_tbl net) r net = Some
    (if main_find h32 net (key_of net r) \<noteq> None then (- EEXIST, dst_release r net)
     else if \<not> node_ok then (- ENOMEM, dst_release r net)
     else (0, (upd_rt r (\<lambda>rt. rt\<lparr>rt_node := True, rt_ref := rt_ref rt + 1\<rparr>) net)
       \<lparr>fib_main_tbl := (fib_main_tbl net)\<lparr>tb_head :=
          heads_ins h32 (key_of net) (tb_head (fib_main_tbl net)) r\<rparr>\<rparr>))"
  using main_dup [OF ok, of h32] hash_ok(1) [OF ok, of h32] fib_invD(5) [OF i]
  by (simp add: nip_fib_add_def key_of_def [symmetric] Let_def put_table_def upd_rt_def heads_ins_def)

lemma key_of_upd: "(\<And>rt. rt_dst (f rt) = rt_dst rt) \<Longrightarrow> key_of (upd_rt r f net) = key_of net"
  by (rule ext) (simp add: key_of_def upd_rt_def)

lemma key_of_main [simp]: "key_of (net\<lparr>fib_main_tbl := t\<rparr>) = key_of net"
  "key_of (net\<lparr>fib_local_tbl := t\<rparr>) = key_of net" "key_of (net\<lparr>rcu_nodes := q\<rparr>) = key_of net"
  by (simp_all add: key_of_def [abs_def])

lemma routes_ins:
  assumes "heads_inv h32 key (tb_head t)" "addr_ok (key r)"
  shows "routes (t\<lparr>tb_head := heads_ins h32 key (tb_head t) r\<rparr>) = insert r (routes t)"
proof -
  have h: "bucket h32 (key r) < length (tb_head t)" using hash_ok(2) [OF assms(2)] assms(1) by (simp add: heads_inv_def)
  have "x \<in> set (concat ((tb_head t)[bucket h32 (key r) := tb_head t ! bucket h32 (key r) @ [r]]))
    \<longleftrightarrow> x = r \<or> x \<in> set (concat (tb_head t))" for x
    using h unfolding in_concat_nth by (auto simp: nth_list_update split: if_splits)
  then show ?thesis by (auto simp: routes_def heads_ins_def Let_def simp del: set_concat)
qed

lemma routes_del: "routes (unlink r t) = routes t - {r}"
  by (auto simp: routes_def unlink_def)

lemma fib_add_main_inv:
  assumes i: "fib_inv h32 net" and ok: "addr_ok (key_of net r)" and n: "main_find h32 net (key_of net r) = None"
    and r: "\<not> rt_node (rts net r)" "r \<notin> set (rcu_nodes net)" "r \<noteq> null_entry net"
  shows "fib_inv h32 ((upd_rt r (\<lambda>rt. rt\<lparr>rt_node := True, rt_ref := rt_ref rt + 1\<rparr>) net)
       \<lparr>fib_main_tbl := (fib_main_tbl net)\<lparr>tb_head :=
          heads_ins h32 (key_of net) (tb_head (fib_main_tbl net)) r\<rparr>\<rparr>)" (is "fib_inv _ ?net'")
proof -
  let ?u = "upd_rt r (\<lambda>rt. rt\<lparr>rt_node := True, rt_ref := rt_ref rt + 1\<rparr>) net"
  have k: "key_of ?net' = key_of net" by (simp add: key_of_upd)
  have h: "heads_inv h32 (key_of net) (heads_ins h32 (key_of net) (tb_head (fib_main_tbl net)) r) \<and>
    unique_keys (key_of net) (heads_ins h32 (key_of net) (tb_head (fib_main_tbl net)) r)"
    using main_tab.inv_ins [OF fib_invD(1) [OF i] ok] n by (simp add: main_find_def)
  have rt: "routes (fib_main_tbl ?net') = insert r (routes (fib_main_tbl net))"
    using routes_ins [where key = "key_of net" and r = r and t = "fib_main_tbl net", OF _ ok] fib_invD(1) [OF i]
    by simp
  have nl: "r \<notin> routes (fib_local_tbl net)" "r \<notin> routes (fib_main_tbl net)"
    using fib_invD(3) [OF i, of r] r(1) by auto
  have t: "fib_local_tbl ?net' = fib_local_tbl net" "null_entry ?net' = null_entry net"
    "broadcast_entry ?net' = broadcast_entry net" "rcu_nodes ?net' = rcu_nodes net"
    "rts ?net' = (rts net)(r := (rts net r)\<lparr>rt_node := True, rt_ref := rt_ref (rts net r) + 1\<rparr>)"
    by (simp_all add: upd_rt_def)
  have hd: "tb_head (fib_main_tbl ?net') = heads_ins h32 (key_of net) (tb_head (fib_main_tbl net)) r"
    "tb_id (fib_main_tbl ?net') = tb_id (fib_main_tbl net)" by simp_all
  show ?thesis
    using i r nl h unfolding fib_inv_def k rt t hd by auto
qed

lemma nip_fib_del_eq:
  assumes "rt_node (rts net r)" "r \<noteq> null_entry net"
  shows "nip_fib_del r net = (0, net\<lparr>fib_main_tbl := unlink r (fib_main_tbl net),
    fib_local_tbl := unlink r (fib_local_tbl net),
    rts := (rts net)(r := (rts net r)\<lparr>rt_node := False\<rparr>), rcu_nodes := rcu_nodes net @ [r]\<rparr>)"
  using assms by (simp add: nip_fib_del_def upd_rt_def)

lemma key_of_rts: "(\<And>x. rt_dst (rs x) = rt_dst (rts net x)) \<Longrightarrow> key_of (net\<lparr>rts := rs\<rparr>) = key_of net"
  by (rule ext) (simp add: key_of_def)

lemma nip_fib_del_inv:
  assumes i: "fib_inv h32 net" and r: "rt_node (rts net r)" "r \<noteq> null_entry net"
  shows "fib_inv h32 (snd (nip_fib_del r net))"
    and "key_of (snd (nip_fib_del r net)) = key_of net"
proof -
  let ?net' = "snd (nip_fib_del r net)"
  note e = nip_fib_del_eq [OF r]
  show k: "key_of ?net' = key_of net"
    unfolding e by (rule ext) (simp add: key_of_def)
  have h: "heads_inv h32 (key_of net) (tb_head (fib_main_tbl ?net')) \<and> unique_keys (key_of net) (tb_head (fib_main_tbl ?net'))"
    using main_tab.inv_del [OF fib_invD(1) [OF i], of r] by (simp add: e unlink_def heads_del_def)
  have l: "heads_inv h32 (key_of net) (tb_head (fib_local_tbl ?net'))"
    using fib_invD(2) [OF i] by (simp add: e unlink_def heads_inv_def distinct_removeAll)
  have t: "routes (fib_main_tbl ?net') = routes (fib_main_tbl net) - {r}"
    "routes (fib_local_tbl ?net') = routes (fib_local_tbl net) - {r}"
    "rcu_nodes ?net' = rcu_nodes net @ [r]" "null_entry ?net' = null_entry net"
    "broadcast_entry ?net' = broadcast_entry net"
    "rts ?net' = (rts net)(r := (rts net r)\<lparr>rt_node := False\<rparr>)"
    "tb_id (fib_main_tbl ?net') = tb_id (fib_main_tbl net)" "tb_id (fib_local_tbl ?net') = tb_id (fib_local_tbl net)"
    by (simp_all add: e routes_del) (simp_all add: unlink_def)
  have nr: "r \<notin> set (rcu_nodes net)" using i r(1) by (auto simp: fib_inv_def)
  show "fib_inv h32 ?net'"
    using i r nr h l unfolding fib_inv_def k t by auto
qed

lemma main_find_del:
  assumes i: "fib_inv h32 net" and r: "rt_node (rts net r)" "r \<noteq> null_entry net" and ok: "addr_ok a"
  shows "main_find h32 (snd (nip_fib_del r net)) a = (if main_find h32 net a = Some r then None else main_find h32 net a)"
  using main_tab.find_del [OF fib_invD(1) [OF i] ok, of r] nip_fib_del_inv(2) [OF i r]
  by (simp add: main_find_def nip_fib_del_eq [OF r] unlink_def heads_del_def)

section \<open>Removing several routes\<close>

definition drop_nodes :: "rt_id list \<Rightarrow> netns_newip \<Rightarrow> netns_newip" where
  "drop_nodes ds net = net\<lparr>
     fib_main_tbl := (fib_main_tbl net)\<lparr>tb_head := map (filter (\<lambda>r. r \<notin> set ds)) (tb_head (fib_main_tbl net))\<rparr>,
     fib_local_tbl := (fib_local_tbl net)\<lparr>tb_head := map (filter (\<lambda>r. r \<notin> set ds)) (tb_head (fib_local_tbl net))\<rparr>,
     rts := (\<lambda>r. if r \<in> set ds then (rts net r)\<lparr>rt_node := False\<rparr> else rts net r),
     rcu_nodes := rcu_nodes net @ ds\<rparr>"

lemma filter_all: "filter (\<lambda>r. True) = (\<lambda>xs. xs)"
  by (simp add: fun_eq_iff)

lemma drop_nodes_Nil: "drop_nodes [] net = net"
  by (simp add: drop_nodes_def filter_all)

lemma drop_nodes_append: "drop_nodes (xs @ ys) net = drop_nodes ys (drop_nodes xs net)"
  by (auto simp: drop_nodes_def fun_eq_iff intro!: filter_cong)

lemma nip_fib_del_drop:
  assumes "rt_node (rts net r)" "r \<noteq> null_entry net"
  shows "nip_fib_del r net = (0, drop_nodes [r] net)"
  unfolding nip_fib_del_eq [OF assms] drop_nodes_def unlink_def
  by (simp add: removeAll_filter_not_eq fun_eq_iff eq_commute [of r])

lemma drop_nodes_simps [simp]:
  "null_entry (drop_nodes ds net) = null_entry net"
  "r \<notin> set ds \<Longrightarrow> rts (drop_nodes ds net) r = rts net r"
  "tb_head (fib_main_tbl (drop_nodes ds net)) = map (filter (\<lambda>r. r \<notin> set ds)) (tb_head (fib_main_tbl net))"
  "tb_head (fib_local_tbl (drop_nodes ds net)) = map (filter (\<lambda>r. r \<notin> set ds)) (tb_head (fib_local_tbl net))"
  by (simp_all add: drop_nodes_def)

definition drops :: "(nip_rt_info \<Rightarrow> rt_id \<Rightarrow> int) \<Rightarrow> netns_newip \<Rightarrow> rt_id list \<Rightarrow> rt_id list" where
  "drops f net c = filter (\<lambda>r. f (rts net r) r < 0) c"

lemma clean_chain_eq:
  assumes "distinct c" "\<And>r. r \<in> set c \<Longrightarrow> rt_node (rts net r) \<and> r \<noteq> null_entry net"
  shows "clean_chain f c net = drop_nodes (drops f net c) net"
  using assms
proof (induction c arbitrary: net)
  case (Cons r c)
  show ?case
  proof (cases "f (rts net r) r < 0")
    case True
    let ?net = "drop_nodes [r] net"
    have same: "rts ?net s = rts net s" if "s \<in> set c" for s
      using that Cons.prems(1) by (auto simp: drop_nodes_def)
    have "clean_chain f c ?net = drop_nodes (drops f ?net c) ?net"
      using Cons.prems same by (intro Cons.IH) auto
    moreover have "drops f ?net c = drops f net c"
      using same by (auto simp: drops_def intro!: filter_cong)
    ultimately show ?thesis
      using True Cons.prems(2) [of r] drop_nodes_append [of "[r]" "drops f net c" net]
      by (simp add: nip_fib_del_drop drops_def)
  qed (use Cons in \<open>simp add: drops_def\<close>)
qed (simp add: drop_nodes_Nil drops_def)

lemma clean_heads_eq:
  assumes tbl: "tbl = fib_main_tbl \<or> tbl = fib_local_tbl"
    and idx: "\<And>i. i \<in> set idx \<Longrightarrow> i < length (tb_head (tbl net))"
    and d: "distinct (concat (map (\<lambda>i. tb_head (tbl net) ! i) idx))"
    and n: "\<And>i r. i \<in> set idx \<Longrightarrow> r \<in> set (tb_head (tbl net) ! i) \<Longrightarrow> rt_node (rts net r) \<and> r \<noteq> null_entry net"
  shows "clean_heads tbl f idx net
    = drop_nodes (drops f net (concat (map (\<lambda>i. tb_head (tbl net) ! i) idx))) net"
  using idx d n
proof (induction idx arbitrary: net)
  case (Cons i idx)
  let ?c = "tb_head (tbl net) ! i" and ?rest = "concat (map (\<lambda>i. tb_head (tbl net) ! i) idx)"
  let ?net = "drop_nodes (drops f net ?c) net"
  have c: "clean_chain f ?c net = ?net"
    using Cons.prems by (intro clean_chain_eq) auto
  have disj: "set ?c \<inter> set ?rest = {}" using Cons.prems(2) by simp
  have same: "rts ?net s = rts net s" if "s \<in> set ?rest" for s
  proof -
    have "s \<notin> set (drops f net ?c)" using disj that by (auto simp: drops_def)
    then show ?thesis by simp
  qed
  have chains: "tb_head (tbl ?net) ! j = tb_head (tbl net) ! j" if j: "j \<in> set idx" for j
  proof -
    have "tb_head (tbl ?net) ! j = filter (\<lambda>r. r \<notin> set (drops f net ?c)) (tb_head (tbl net) ! j)"
      using tbl Cons.prems(1) j by auto
    also have "\<dots> = tb_head (tbl net) ! j"
      using disj j by (intro filter_True ballI) (auto simp: drops_def)
    finally show ?thesis .
  qed
  then have m: "map (\<lambda>j. tb_head (tbl ?net) ! j) idx = map (\<lambda>j. tb_head (tbl net) ! j) idx" by simp
  have len: "length (tb_head (tbl ?net)) = length (tb_head (tbl net))" using tbl by auto
  have "clean_heads tbl f (i # idx) net = clean_heads tbl f idx ?net" using c by simp
  also have "\<dots> = drop_nodes (drops f ?net (concat (map (\<lambda>j. tb_head (tbl ?net) ! j) idx))) ?net"
  proof (rule Cons.IH)
    show "j < length (tb_head (tbl ?net))" if "j \<in> set idx" for j using that Cons.prems(1) len by simp
    show "distinct (concat (map (\<lambda>j. tb_head (tbl ?net) ! j) idx))" using Cons.prems(2) unfolding m by simp
    show "rt_node (rts ?net r) \<and> r \<noteq> null_entry ?net" if "j \<in> set idx" "r \<in> set (tb_head (tbl ?net) ! j)" for j r
    proof -
      have "r \<in> set (tb_head (tbl net) ! j)" using that chains [of j] by simp
      moreover from this have "r \<in> set ?rest" using that(1) by auto
      ultimately show ?thesis using that(1) Cons.prems(3) [of j r] same [of r] by simp
    qed
  qed
  also have "drops f ?net (concat (map (\<lambda>j. tb_head (tbl ?net) ! j) idx)) = drops f ?net ?rest"
    by (simp only: m)
  also have "drops f ?net ?rest = drops f net ?rest"
    using same unfolding drops_def by (intro filter_cong) auto
  also have "drop_nodes (drops f net ?rest) ?net = drop_nodes (drops f net ?c @ drops f net ?rest) net"
    by (simp only: drop_nodes_append)
  also have "drops f net ?c @ drops f net ?rest = drops f net (concat (map (\<lambda>i. tb_head (tbl net) ! i) (i # idx)))"
    by (simp add: drops_def)
  finally show ?case .
qed (simp add: drop_nodes_Nil drops_def)

lemma concat_chains: "length xs = n \<Longrightarrow> concat (map (\<lambda>i. xs ! i) [0 ..< n]) = concat xs"
  by (metis map_nth)

lemma heads_distinct: "heads_inv h32 key head \<Longrightarrow> distinct (concat head)"
proof -
  assume h: "heads_inv h32 key head"
  have "distinct (concat (map (\<lambda>i. head ! i) idx))" if "distinct idx" "\<And>i. i \<in> set idx \<Longrightarrow> i < NIN_ROUTE_HSIZE" for idx
    using that
  proof (induction idx)
    case (Cons i idx)
    have "set (head ! i) \<inter> (\<Union>j\<in>set idx. set (head ! j)) = {}"
    proof (rule ccontr)
      assume "\<not> ?thesis"
      then obtain r j where "r \<in> set (head ! i)" "r \<in> set (head ! j)" "j \<in> set idx" by blast
      then have "i = j" using h Cons.prems(2) unfolding heads_inv_def by (metis list.set_intros(1) list.set_intros(2))
      then show False using Cons.prems(1) \<open>j \<in> set idx\<close> by simp
    qed
    then show ?case using Cons h by (auto simp: heads_inv_def)
  qed simp
  from this [of "[0 ..< NIN_ROUTE_HSIZE]"] show ?thesis
    using concat_chains [of head NIN_ROUTE_HSIZE] h by (simp add: heads_inv_def)
qed

lemma clean_hash_eq:
  assumes "tbl = fib_main_tbl \<or> tbl = fib_local_tbl" "heads_inv h32 key (tb_head (tbl net))"
    "\<And>r. r \<in> routes (tbl net) \<Longrightarrow> rt_node (rts net r) \<and> r \<noteq> null_entry net"
  shows "nip_fib_clean_hash tbl f net = drop_nodes (drops f net (concat (tb_head (tbl net)))) net"
proof -
  have len: "length (tb_head (tbl net)) = NIN_ROUTE_HSIZE" using assms(2) by (simp add: heads_inv_def)
  note c = concat_chains [OF len]
  have "clean_heads tbl f [0 ..< NIN_ROUTE_HSIZE] net
    = drop_nodes (drops f net (concat (map (\<lambda>i. tb_head (tbl net) ! i) [0 ..< NIN_ROUTE_HSIZE]))) net"
  proof (rule clean_heads_eq [OF assms(1)])
    show "distinct (concat (map (\<lambda>i. tb_head (tbl net) ! i) [0 ..< NIN_ROUTE_HSIZE]))"
      unfolding c by (rule heads_distinct [OF assms(2)])
    show "rt_node (rts net r) \<and> r \<noteq> null_entry net"
      if "i \<in> set [0 ..< NIN_ROUTE_HSIZE]" "r \<in> set (tb_head (tbl net) ! i)" for i r
      using that assms(3) [of r] len unfolding routes_def in_concat_nth by auto
  qed (simp add: len)
  then show ?thesis unfolding nip_fib_clean_hash_def c .
qed

lemma drops_cong: "(\<And>r. r \<in> set c \<Longrightarrow> rts n1 r = rts n2 r) \<Longrightarrow> drops f n1 c = drops f n2 c"
  unfolding drops_def by (intro filter_cong) auto

lemma clean_all_eq:
  assumes "fib_inv h32 net"
  shows "nip_fib_clean_all f net = drop_nodes
    (drops f net (concat (tb_head (fib_main_tbl net)) @ concat (tb_head (fib_local_tbl net)))) net"
proof -
  let ?m = "concat (tb_head (fib_main_tbl net))" and ?l = "concat (tb_head (fib_local_tbl net))"
  note i = fib_invD [OF assms]
  have nn: "null_entry net \<notin> routes (fib_main_tbl net) \<union> routes (fib_local_tbl net)"
    using assms by (simp add: fib_inv_def)
  let ?net = "drop_nodes (drops f net ?m) net"
  have disj: "set ?m \<inter> set ?l = {}" using i(4) by (simp add: routes_def)
  have 1: "nip_fib_clean_hash fib_main_tbl f net = ?net"
    using i(1) nn i(3) by (intro clean_hash_eq) auto
  have dm: "set (drops f net ?m) \<subseteq> set ?m" by (auto simp: drops_def)
  have heads: "tb_head (fib_local_tbl ?net) = tb_head (fib_local_tbl net)"
  proof (rule nth_equalityI)
    fix j assume "j < length (tb_head (fib_local_tbl ?net))"
    then have j: "j < length (tb_head (fib_local_tbl net))" by simp
    then have "set (tb_head (fib_local_tbl net) ! j) \<subseteq> set ?l" unfolding subset_iff in_concat_nth by blast
    then show "tb_head (fib_local_tbl ?net) ! j = tb_head (fib_local_tbl net) ! j"
      using j disj dm by (auto intro!: filter_True)
  qed simp
  have same: "rts ?net r = rts net r" if "r \<in> set ?l" for r
    using that disj dm by (intro drop_nodes_simps(2)) blast
  have "nip_fib_clean_hash fib_local_tbl f ?net = drop_nodes (drops f ?net (concat (tb_head (fib_local_tbl ?net)))) ?net"
  proof (rule clean_hash_eq)
    show "heads_inv h32 (key_of net) (tb_head (fib_local_tbl ?net))" unfolding heads by (rule i(2))
    show "rt_node (rts ?net r) \<and> r \<noteq> null_entry ?net" if "r \<in> routes (fib_local_tbl ?net)" for r
    proof -
      have r: "r \<in> set ?l" using that unfolding routes_def heads .
      then have "r \<in> routes (fib_local_tbl net)" by (simp only: routes_def)
      then show ?thesis using i(3) [of r] nn same [OF r] by auto
    qed
  qed simp
  also have "drops f ?net (concat (tb_head (fib_local_tbl ?net))) = drops f net ?l"
    unfolding heads by (rule drops_cong) (rule same)
  also have "drop_nodes (drops f net ?l) ?net = drop_nodes (drops f net ?m @ drops f net ?l) net"
    by (simp only: drop_nodes_append)
  also have "drops f net ?m @ drops f net ?l = drops f net (?m @ ?l)" by (simp add: drops_def)
  finally show ?thesis unfolding nip_fib_clean_all_def 1 .
qed

lemma drop_nodes_inv:
  "fib_inv h32 net \<Longrightarrow> distinct ds \<Longrightarrow> (\<And>r. r \<in> set ds \<Longrightarrow> rt_node (rts net r) \<and> r \<noteq> null_entry net) \<Longrightarrow>
   fib_inv h32 (drop_nodes ds net)"
proof (induction ds arbitrary: net)
  case (Cons d ds)
  have d: "rt_node (rts net d)" "d \<noteq> null_entry net" using Cons.prems(3) by auto
  have "fib_inv h32 (drop_nodes [d] net)"
    using nip_fib_del_inv(1) [OF Cons.prems(1) d] by (simp add: nip_fib_del_drop [OF d])
  then have "fib_inv h32 (drop_nodes ds (drop_nodes [d] net))"
  proof (rule Cons.IH)
    show "distinct ds" using Cons.prems(2) by simp
    fix r assume "r \<in> set ds"
    then show "rt_node (rts (drop_nodes [d] net) r) \<and> r \<noteq> null_entry (drop_nodes [d] net)"
      using Cons.prems(2) Cons.prems(3) [of r] by (cases "r = d") auto
  qed
  then show ?case using drop_nodes_append [of "[d]" ds net] by simp
qed (simp add: drop_nodes_Nil)

text \<open>The state a network namespace starts with: two empty tables and the two static entries.\<close>

definition blank_rt :: nip_rt_info where
  "blank_rt = \<lparr>dst_refcnt = 0, dst_dev = None, dst_dead = False, dst_input = Fun_unset, dst_output = Fun_unset,
     rt_from = None, rt_table = RT_TABLE_OTHER, rt_node = False, rt_idev = None, rt_pcpu = None, rt_ref = 0,
     rt_flags = 0, rt_gateway = zero_addr, rt_dst = zero_addr, rt_src = zero_addr, rt_metric = 0, rt_protocol = 0\<rparr>"

definition nip_null_entry_template :: nip_rt_info where
  "nip_null_entry_template = blank_rt\<lparr>dst_refcnt := 1, dst_input := Fun_nip_pkt_discard,
     dst_output := Fun_nip_pkt_discard_out, rt_ref := 1\<rparr>"

definition nip_broadcast_entry_template :: nip_rt_info where
  "nip_broadcast_entry_template = blank_rt\<lparr>dst_refcnt := 1, dst_input := Fun_nip_input,
     dst_output := Fun_nip_output, rt_ref := 1\<rparr>"

definition blank_dev :: net_device where
  "blank_dev = \<lparr>dev_present = False, dev_running = False, dev_unregistering = False, dev_slave = False,
     dev_link_ready = False, dev_tx_redirects = True, dev_mtu = 1500, dev_refcnt = 0, nip_ptr = None\<rparr>"

definition blank_idev :: ninet_dev where
  "blank_idev = \<lparr>idev_dev = 0, idev_refcnt = 0, idev_dead = False, idev_ready = False,
     cnf_mtu = of_nat NIP_MIN_MTU, cnf_disable_nip = False, cnf_ignore_linkdown = False, addr_list = []\<rparr>"

definition blank_ifa :: ninet_ifaddr where
  "blank_ifa = \<lparr>ifa_addr = zero_addr, ifa_flags = 0, ifa_valid_lft = 0, ifa_preferred_lft = 0,
     ifa_refcnt = 0, ifa_dead = False, ifa_idev = 0, ifa_rt = 0\<rparr>"

definition init_net :: "nat list \<Rightarrow> netns_newip" where
  "init_net cpus = \<lparr>rts = (\<lambda>r. if r = 0 then nip_null_entry_template
       else if r = 1 then nip_broadcast_entry_template else blank_rt),
     fib_main_tbl = empty_table RT_TABLE_MAIN, fib_local_tbl = empty_table RT_TABLE_LOCAL,
     null_entry = 0, broadcast_entry = 1, rcu_nodes = [], possible_cpus = cpus,
     devs = (\<lambda>d. blank_dev), loopback_dev = 1, idevs = (\<lambda>d. blank_idev), ifas = (\<lambda>i. blank_ifa),
     addr_lst = replicate NIN_ROUTE_HSIZE []\<rparr>"

lemma init_net_inv: "fib_inv h32 (init_net cpus)"
proof -
  have r: "routes (empty_table i) = {}" for i
    by (auto simp: routes_def empty_table_def)
  have h: "heads_inv h32 k (tb_head (empty_table i))" "unique_keys k (tb_head (empty_table i))" for i k
    by (auto simp: heads_inv_def unique_keys_def empty_table_def)
  show ?thesis
    unfolding fib_inv_def using r h
    by (simp add: init_net_def nip_null_entry_template_def nip_broadcast_entry_template_def blank_rt_def)
      (simp add: empty_table_def)
qed

text \<open>C18: nip_fib_add of a route to an address of at most 64 bits on the main table refines insertion
  into a map keyed by the destination: it fails with -EEXIST exactly on a destination already
  present and otherwise with -ENOMEM when no node can be allocated, and then drops the caller's
  reference and changes nothing else; on success the new route answers for its destination, all
  other answers of the main table stay, the only changes of the namespace are the node and the
  reference of this route and the main table, which gains this route alone, and the invariant
  of the tables (chains by hash, one route per destination, nodes and reference counts in step)
  is kept.\<close>

theorem fib_add_main_correct:
  assumes "fib_inv h32 net" "addr_ok (rt_dst (rts net r))"
    and "\<not> rt_node (rts net r)" "r \<notin> set (rcu_nodes net)" "r \<noteq> null_entry net"
  shows "\<exists>err net'. nip_fib_add h32 node_ok (fib_main_tbl net) r net = Some (err, net') \<and>
    err = (if table_find h32 (rts net) (tb_head (fib_main_tbl net)) (rt_dst (rts net r)) \<noteq> Some None then - EEXIST
           else if \<not> node_ok then - ENOMEM else 0) \<and>
    (err = 0 \<longrightarrow> fib_inv h32 net' \<and> rt_node (rts net' r) \<and> dst_refcnt (rts net' r) = dst_refcnt (rts net r) \<and>
      net' = (upd_rt r (\<lambda>rt. rt\<lparr>rt_node := True, rt_ref := rt_ref rt + 1\<rparr>) net)\<lparr>fib_main_tbl := fib_main_tbl net'\<rparr> \<and>
      tb_id (fib_main_tbl net') = tb_id (fib_main_tbl net) \<and> routes (fib_main_tbl net') = insert r (routes (fib_main_tbl net))) \<and>
    (err \<noteq> 0 \<longrightarrow> net' = dst_release r net) \<and>
    (\<forall>a. addr_ok a \<longrightarrow> table_find h32 (rts net') (tb_head (fib_main_tbl net')) a =
      (if err = 0 \<and> nip_addr_eq (rt_dst (rts net r)) a then Some (Some r)
       else table_find h32 (rts net) (tb_head (fib_main_tbl net)) a))"
proof -
  have ok: "addr_ok (key_of net r)" using assms(2) by (simp add: key_of_def)
  note add = fib_add_main [OF assms(1) ok, where node_ok = node_ok]
  have tf: "table_find h32 (rts net) (tb_head (fib_main_tbl net)) (rt_dst (rts net r)) = Some (main_find h32 net (key_of net r))"
    using table_find_main [OF assms(2)] by (simp add: key_of_def)
  have rel: "key_of (dst_release r net) = key_of net" "fib_main_tbl (dst_release r net) = fib_main_tbl net"
    by (simp_all add: dst_release_def key_of_upd) (simp_all add: upd_rt_def)
  have same: "table_find h32 (rts (dst_release r net)) (tb_head (fib_main_tbl (dst_release r net))) a
      = table_find h32 (rts net) (tb_head (fib_main_tbl net)) a" if "addr_ok a" for a
    using table_find_main [OF that, of h32 "dst_release r net"] table_find_main [OF that, of h32 net]
    by (simp add: main_find_def rel)
  show ?thesis
  proof (cases "main_find h32 net (key_of net r) = None \<and> node_ok")
    case False
    then show ?thesis using add tf same by auto
  next
    case True
    then have n: "main_find h32 net (key_of net r) = None" by simp
    let ?u = "upd_rt r (\<lambda>rt. rt\<lparr>rt_node := True, rt_ref := rt_ref rt + 1\<rparr>) net"
    let ?net' = "?u\<lparr>fib_main_tbl := (fib_main_tbl net)\<lparr>tb_head :=
      heads_ins h32 (key_of net) (tb_head (fib_main_tbl net)) r\<rparr>\<rparr>"
    have k: "key_of ?net' = key_of net" by (simp add: key_of_upd)
    have "fib_inv h32 ?net'" by (rule fib_add_main_inv [OF assms(1) ok n assms(3-5)])
    moreover have "rt_node (rts ?net' r) \<and> dst_refcnt (rts ?net' r) = dst_refcnt (rts net r)"
      "?net' = ?u\<lparr>fib_main_tbl := fib_main_tbl ?net'\<rparr>" "tb_id (fib_main_tbl ?net') = tb_id (fib_main_tbl net)"
      by (simp_all add: upd_rt_def)
    moreover have "routes (fib_main_tbl ?net') = insert r (routes (fib_main_tbl net))"
      using routes_ins [OF conjunct1 [OF fib_invD(1) [OF assms(1)]] ok] by simp
    moreover have "table_find h32 (rts ?net') (tb_head (fib_main_tbl ?net')) a =
      (if nip_addr_eq (rt_dst (rts net r)) a then Some (Some r)
       else table_find h32 (rts net) (tb_head (fib_main_tbl net)) a)" if "addr_ok a" for a
    proof -
      have "main_find h32 ?net' a = (if nip_addr_eq (key_of net r) a then Some r else main_find h32 net a)"
        using main_tab.find_ins [OF fib_invD(1) [OF assms(1)] ok _ that] n
        unfolding main_find_def k by simp
      then show ?thesis
        unfolding table_find_main [OF that, of h32 ?net'] table_find_main [OF that, of h32 net] key_of_def by simp
    qed
    ultimately show ?thesis using add True tf by auto
  qed
qed

lemma short_addr_ok: "n < 2 ^ 48 \<Longrightarrow> addr_ok (short_addr n)"
proof (erule short_bytes_class)
qed (simp_all add: addr_ok_def wf_short_addr, simp_all add: short_addr_def)

text \<open>A hash for the concrete examples.\<close>

definition hash_zero :: hash32 where "hash_zero w = 0"

theorem fib_add_main_correct_witness:
  "\<exists>err net'. nip_fib_add hash_zero True (fib_main_tbl (init_net [0])) 7 (init_net [0]) = Some (err, net') \<and>
    err = (if table_find hash_zero (rts (init_net [0])) (tb_head (fib_main_tbl (init_net [0]))) (rt_dst (rts (init_net [0]) 7)) \<noteq> Some None
           then - EEXIST else if \<not> True then - ENOMEM else 0) \<and>
    (err = 0 \<longrightarrow> fib_inv hash_zero net' \<and> rt_node (rts net' 7) \<and> dst_refcnt (rts net' 7) = dst_refcnt (rts (init_net [0]) 7) \<and>
      net' = (upd_rt 7 (\<lambda>rt. rt\<lparr>rt_node := True, rt_ref := rt_ref rt + 1\<rparr>) (init_net [0]))\<lparr>fib_main_tbl := fib_main_tbl net'\<rparr> \<and>
      tb_id (fib_main_tbl net') = tb_id (fib_main_tbl (init_net [0])) \<and>
      routes (fib_main_tbl net') = insert 7 (routes (fib_main_tbl (init_net [0])))) \<and>
    (err \<noteq> 0 \<longrightarrow> net' = dst_release 7 (init_net [0])) \<and>
    (\<forall>a. addr_ok a \<longrightarrow> table_find hash_zero (rts net') (tb_head (fib_main_tbl net')) a =
      (if err = 0 \<and> nip_addr_eq (rt_dst (rts (init_net [0]) 7)) a then Some (Some 7)
       else table_find hash_zero (rts (init_net [0])) (tb_head (fib_main_tbl (init_net [0]))) a))"
  by (rule fib_add_main_correct [OF init_net_inv])
    (simp_all add: init_net_def blank_rt_def addr_ok_def zero_addr_facts, simp add: zero_addr_def)

text \<open>nip_fib_clean_all removes exactly the routes its callback condemns (a negative answer)
  from both tables, keeps the order of the others and the invariant, and queues each removed
  route once for release.\<close>

theorem fib_clean_all_correct:
  assumes "fib_inv h32 net"
  shows "fib_inv h32 (nip_fib_clean_all f net) \<and>
    routes (fib_main_tbl (nip_fib_clean_all f net)) = {r \<in> routes (fib_main_tbl net). f (rts net r) r \<ge> 0} \<and>
    routes (fib_local_tbl (nip_fib_clean_all f net)) = {r \<in> routes (fib_local_tbl net). f (rts net r) r \<ge> 0} \<and>
    rcu_nodes (nip_fib_clean_all f net) = rcu_nodes net @
      filter (\<lambda>r. f (rts net r) r < 0) (concat (tb_head (fib_main_tbl net)) @ concat (tb_head (fib_local_tbl net)))"
proof -
  let ?m = "concat (tb_head (fib_main_tbl net))" and ?l = "concat (tb_head (fib_local_tbl net))"
  let ?ds = "drops f net (?m @ ?l)"
  note i = fib_invD [OF assms]
  have nn: "null_entry net \<notin> routes (fib_main_tbl net) \<union> routes (fib_local_tbl net)"
    using assms by (simp add: fib_inv_def)
  have e: "nip_fib_clean_all f net = drop_nodes ?ds net" by (rule clean_all_eq [OF assms])
  have "distinct (?m @ ?l)"
    using heads_distinct i(1,2,4) by (auto simp: routes_def simp del: set_concat)
  then have "distinct ?ds" unfolding drops_def by (rule distinct_filter)
  moreover have "rt_node (rts net r) \<and> r \<noteq> null_entry net" if "r \<in> set ?ds" for r
  proof -
    have "r \<in> routes (fib_main_tbl net) \<union> routes (fib_local_tbl net)"
      using that by (auto simp: drops_def routes_def)
    then show ?thesis using nn i(3) [of r] by auto
  qed
  ultimately have "fib_inv h32 (drop_nodes ?ds net)" using drop_nodes_inv [OF assms] by blast
  moreover have "routes (fib_main_tbl (drop_nodes ds net)) = routes (fib_main_tbl net) - set ds"
    "routes (fib_local_tbl (drop_nodes ds net)) = routes (fib_local_tbl net) - set ds" for ds
    by (auto simp: routes_def)
  moreover have "set ?ds = {r \<in> routes (fib_main_tbl net) \<union> routes (fib_local_tbl net). f (rts net r) r < 0}"
    by (auto simp: drops_def routes_def)
  moreover have "rcu_nodes (drop_nodes ?ds net) = rcu_nodes net @ filter (\<lambda>r. f (rts net r) r < 0) (?m @ ?l)"
    by (simp add: drop_nodes_def drops_def)
  ultimately show ?thesis unfolding e by auto
qed

theorem fib_clean_all_correct_witness:
  "fib_inv hash_zero (nip_fib_clean_all (\<lambda>rt r. -1) (init_net [0])) \<and>
    routes (fib_main_tbl (nip_fib_clean_all (\<lambda>rt r. -1) (init_net [0]))) = {r \<in> routes (fib_main_tbl (init_net [0])). (-1 :: int) \<ge> 0} \<and>
    routes (fib_local_tbl (nip_fib_clean_all (\<lambda>rt r. -1) (init_net [0]))) = {r \<in> routes (fib_local_tbl (init_net [0])). (-1 :: int) \<ge> 0} \<and>
    rcu_nodes (nip_fib_clean_all (\<lambda>rt r. -1) (init_net [0])) = rcu_nodes (init_net [0]) @
      filter (\<lambda>r. (-1 :: int) < 0) (concat (tb_head (fib_main_tbl (init_net [0]))) @ concat (tb_head (fib_local_tbl (init_net [0]))))"
  by (rule fib_clean_all_correct [OF init_net_inv])

end
