(* ===== verification/NipRoute.thy ===== *)
theory NipRoute
  imports NipFib
begin

text \<open>
  Routing: src/src/linux/net/newip/route.c (and the inline reference helpers of
  include/net/nip_addrconf.h). Allocations are decided by the caller of the model: the number
  of the new route or None. The metrics of a dst, time stamps and debug output are left out.
  A lookup is None when it would dereference a missing device or read beyond an address.
\<close>

section \<open>References to devices and ninet_devs\<close>

definition upd_dev :: "nat \<Rightarrow> (net_device \<Rightarrow> net_device) \<Rightarrow> netns_newip \<Rightarrow> netns_newip" where
  "upd_dev d f net = net\<lparr>devs := (devs net)(d := f (devs net d))\<rparr>"

definition upd_idev :: "nat \<Rightarrow> (ninet_dev \<Rightarrow> ninet_dev) \<Rightarrow> netns_newip \<Rightarrow> netns_newip" where
  "upd_idev i f net = net\<lparr>idevs := (idevs net)(i := f (idevs net i))\<rparr>"

definition dev_hold :: "nat \<Rightarrow> netns_newip \<Rightarrow> netns_newip" where
  "dev_hold d = upd_dev d (\<lambda>x. x\<lparr>dev_refcnt := dev_refcnt x + 1\<rparr>)"

definition dev_put :: "nat \<Rightarrow> netns_newip \<Rightarrow> netns_newip" where
  "dev_put d = upd_dev d (\<lambda>x. x\<lparr>dev_refcnt := dev_refcnt x - 1\<rparr>)"

definition nin_dev_hold :: "nat \<Rightarrow> netns_newip \<Rightarrow> netns_newip" where
  "nin_dev_hold i = upd_idev i (\<lambda>x. x\<lparr>idev_refcnt := idev_refcnt x + 1\<rparr>)"

text \<open>nin_dev_put; the last reference gives the device reference back (nin_dev_finish_destroy).\<close>

definition nin_dev_put :: "nat \<Rightarrow> netns_newip \<Rightarrow> netns_newip" where
  "nin_dev_put i net =
    (let net = upd_idev i (\<lambda>x. x\<lparr>idev_refcnt := idev_refcnt x - 1\<rparr>) net in
     if idev_refcnt (idevs net i) = 0 then dev_put (idev_dev (idevs net i)) net else net)"

text \<open>nin_dev_get: the ninet_dev of a device with a new reference.\<close>

definition nin_dev_get :: "nat \<Rightarrow> netns_newip \<Rightarrow> nat option \<times> netns_newip" where
  "nin_dev_get d net =
    (case nip_ptr (devs net d) of None \<Rightarrow> (None, net) | Some i \<Rightarrow> (Some i, nin_dev_hold i net))"

definition opt_do :: "('a \<Rightarrow> netns_newip \<Rightarrow> netns_newip) \<Rightarrow> 'a option \<Rightarrow> netns_newip \<Rightarrow> netns_newip" where
  "opt_do f x net = (case x of None \<Rightarrow> net | Some y \<Rightarrow> f y net)"

section \<open>Constants\<close>

abbreviation (input) RTF_UP :: u32 where "RTF_UP \<equiv> 0x00000001"
abbreviation (input) RTF_GATEWAY :: u32 where "RTF_GATEWAY \<equiv> 0x00000002"
abbreviation (input) RTF_NONEXTHOP :: u32 where "RTF_NONEXTHOP \<equiv> 0x00200000"
abbreviation (input) RTF_EXPIRES :: u32 where "RTF_EXPIRES \<equiv> 0x00400000"
abbreviation (input) RTF_PCPU :: u32 where "RTF_PCPU \<equiv> 0x40000000"
abbreviation (input) RTF_LOCAL :: u32 where "RTF_LOCAL \<equiv> 0x80000000"
abbreviation (input) RTPROT_KERNEL :: u8 where "RTPROT_KERNEL \<equiv> 2"
abbreviation (input) RTPROT_BOOT :: u8 where "RTPROT_BOOT \<equiv> 3"
abbreviation (input) NIP_RT_PRIO_USER :: u32 where "NIP_RT_PRIO_USER \<equiv> 1024"

definition rtf :: "u32 \<Rightarrow> u32 \<Rightarrow> bool" where
  "rtf flags f \<longleftrightarrow> and flags f \<noteq> 0"

section \<open>Configuration\<close>

record nip_rtmsg =
  rtmsg_dst :: nip_addr
  rtmsg_src :: nip_addr
  rtmsg_gateway :: nip_addr
  rtmsg_ifindex :: nat
  rtmsg_metric :: u32
  rtmsg_info :: nat
  rtmsg_flags :: u32

record nip_fib_config =
  fc_table :: fib_tb_id
  fc_metric :: u32
  fc_ifindex :: nat
  fc_flags :: u32
  fc_protocol :: u8
  fc_dst :: nip_addr
  fc_src :: nip_addr
  fc_gateway :: nip_addr
  fc_expires :: nat

definition rtmsg_to_fibni_config :: "nip_rtmsg \<Rightarrow> nip_fib_config" where
  "rtmsg_to_fibni_config m = \<lparr>fc_table = RT_TABLE_MAIN, fc_metric = rtmsg_metric m,
     fc_ifindex = rtmsg_ifindex m, fc_flags = rtmsg_flags m, fc_protocol = 0, fc_dst = rtmsg_dst m,
     fc_src = rtmsg_src m, fc_gateway = rtmsg_gateway m, fc_expires = rtmsg_info m\<rparr>"

definition nip_nexthop :: "nip_rt_info \<Rightarrow> nip_addr \<Rightarrow> nip_addr" where
  "nip_nexthop rt daddr = (if rtf (rt_flags rt) RTF_GATEWAY then rt_gateway rt else daddr)"

section \<open>Allocation and destruction of routes\<close>

text \<open>dst_alloc with one reference, then nip_rt_info_init (all other fields zero).\<close>

definition nip_dst_alloc_base :: "rt_id option \<Rightarrow> nat option \<Rightarrow> netns_newip \<Rightarrow> rt_id option \<times> netns_newip" where
  "nip_dst_alloc_base new dev net =
    (case new of None \<Rightarrow> (None, net)
     | Some r \<Rightarrow> (Some r, opt_do dev_hold dev
         (upd_rt r (\<lambda>_. blank_rt\<lparr>dst_refcnt := 1, dst_dev := dev\<rparr>) net)))"

definition nip_dst_destroy :: "rt_id \<Rightarrow> netns_newip \<Rightarrow> netns_newip" where
  "nip_dst_destroy r net =
    (let idev = rt_idev (rts net r); from = rt_from (rts net r);
         net = upd_rt r (\<lambda>rt. rt\<lparr>rt_pcpu := None, rt_idev := None, rt_from := None\<rparr>) net
     in opt_do dst_release from (opt_do nin_dev_put idev net))"

text \<open>The kernel's dst_destroy: the destroy operation, then the device reference.\<close>

definition dst_destroy :: "rt_id \<Rightarrow> netns_newip \<Rightarrow> netns_newip" where
  "dst_destroy r net = opt_do dev_put (dst_dev (rts net r)) (nip_dst_destroy r net)"

definition nip_dst_alloc ::
  "rt_id option \<Rightarrow> bool \<Rightarrow> nat option \<Rightarrow> netns_newip \<Rightarrow> rt_id option \<times> netns_newip" where
  "nip_dst_alloc new pcpu_ok dev net =
    (case nip_dst_alloc_base new dev net of
       (None, net) \<Rightarrow> (None, net)
     | (Some r, net) \<Rightarrow>
         if pcpu_ok then (Some r, upd_rt r (\<lambda>rt. rt\<lparr>rt_pcpu := Some (\<lambda>cpu. None)\<rparr>) net)
         else (None, dst_destroy r net))"

definition nip_rt_set_from :: "rt_id \<Rightarrow> rt_id \<Rightarrow> netns_newip \<Rightarrow> netns_newip" where
  "nip_rt_set_from r from net =
    upd_rt r (\<lambda>rt. rt\<lparr>rt_flags := and (rt_flags rt) (not RTF_EXPIRES), rt_from := Some from\<rparr>)
      (dst_hold from net)"

definition nip_rt_copy_init :: "rt_id \<Rightarrow> rt_id \<Rightarrow> netns_newip \<Rightarrow> netns_newip" where
  "nip_rt_copy_init r ort net =
    (let o1 = rts net ort;
         net = upd_rt r (\<lambda>rt. rt\<lparr>dst_input := dst_input o1, dst_output := dst_output o1,
           rt_dst := rt_dst o1, rt_idev := rt_idev o1\<rparr>) net;
         net = opt_do nin_dev_hold (rt_idev o1) net;
         net = upd_rt r (\<lambda>rt. rt\<lparr>rt_gateway := rt_gateway o1, rt_flags := rt_flags o1\<rparr>) net;
         net = nip_rt_set_from r ort net
     in upd_rt r (\<lambda>rt. rt\<lparr>rt_metric := rt_metric o1, rt_table := rt_table o1\<rparr>) net)"

section \<open>Per-cpu copies\<close>

text \<open>nip_rt_get_pcpu_route: None is a route without its per-cpu slots.\<close>

definition nip_rt_get_pcpu_route :: "nat \<Rightarrow> rt_id \<Rightarrow> netns_newip \<Rightarrow> (rt_id option \<times> netns_newip) option" where
  "nip_rt_get_pcpu_route cpu r net =
    (case rt_pcpu (rts net r) of None \<Rightarrow> None
     | Some slots \<Rightarrow> Some (slots cpu, opt_do dst_hold (slots cpu) net))"

definition nip_rt_pcpu_alloc :: "rt_id option \<Rightarrow> rt_id \<Rightarrow> netns_newip \<Rightarrow> rt_id option \<times> netns_newip" where
  "nip_rt_pcpu_alloc new r net =
    (case nip_dst_alloc_base new (dst_dev (rts net r)) net of
       (None, net) \<Rightarrow> (None, net)
     | (Some p, net) \<Rightarrow>
         let net = nip_rt_copy_init p r net
         in (Some p, upd_rt p (\<lambda>rt. rt\<lparr>rt_protocol := rt_protocol (rts net r),
               rt_flags := or (rt_flags rt) RTF_PCPU\<rparr>) net))"

text \<open>The slot is taken by compare-and-exchange: a copy another context put there first wins.\<close>

definition nip_rt_make_pcpu_route :: "nat \<Rightarrow> rt_id option \<Rightarrow> rt_id \<Rightarrow> netns_newip \<Rightarrow> rt_id \<times> netns_newip" where
  "nip_rt_make_pcpu_route cpu new r net =
    (case nip_rt_pcpu_alloc new r net of
       (None, net) \<Rightarrow> (null_entry net, dst_hold (null_entry net) net)
     | (Some p, net) \<Rightarrow>
       let (res, net) =
         (case rt_pcpu (rts net r) of
            Some slots \<Rightarrow>
              (case slots cpu of
                 None \<Rightarrow> (p, upd_rt r (\<lambda>rt. rt\<lparr>rt_pcpu := Some (slots(cpu := Some p))\<rparr>) net)
               | Some prev \<Rightarrow> (prev, dst_destroy p net))
          | None \<Rightarrow> (r, dst_destroy p net))
       in (res, dst_hold res net))"

section \<open>Lookup\<close>

definition nip_pol_route ::
  "hash32 \<Rightarrow> nat \<Rightarrow> rt_id option \<Rightarrow> nip_fib_table \<Rightarrow> nip_addr \<Rightarrow> netns_newip \<Rightarrow> (rt_id \<times> netns_newip) option" where
  "nip_pol_route h32 cpu new table daddr net =
    (case nip_fib_locate h32 (rts net) (tb_head table) daddr of None \<Rightarrow> None
     | Some None \<Rightarrow> Some (null_entry net, dst_hold (null_entry net) net)
     | Some (Some r) \<Rightarrow>
       (case nip_rt_get_pcpu_route cpu r net of None \<Rightarrow> None
        | Some (Some p, net) \<Rightarrow> Some (p, net)
        | Some (None, net) \<Rightarrow>
            let (p, net) = nip_rt_make_pcpu_route cpu new r (dst_hold r net)
            in Some (p, dst_release r net)))"

text \<open>nip_route_input_lookup; new gives the copy allocated for each table, if any.\<close>

definition nip_route_lookup ::
  "hash32 \<Rightarrow> nat \<Rightarrow> (fib_tb_id \<Rightarrow> rt_id option) \<Rightarrow> nip_addr \<Rightarrow> netns_newip
     \<Rightarrow> (rt_id \<times> tbl_type \<times> netns_newip) option" where
  "nip_route_lookup h32 cpu new daddr net =
    nip_fib_rule_lookup (\<lambda>t n. nip_pol_route h32 cpu (new (tb_id t)) t daddr n) net"

text \<open>nip_route_input: the result code, the dst given to the packet, the state.\<close>

definition nip_route_input ::
  "hash32 \<Rightarrow> nat \<Rightarrow> (fib_tb_id \<Rightarrow> rt_id option) \<Rightarrow> nat \<Rightarrow> nip_addr \<Rightarrow> netns_newip
     \<Rightarrow> (int \<times> rt_id \<times> netns_newip) option" where
  "nip_route_input h32 cpu new skb_dev daddr net =
    (if nip_addr_eq daddr nip_broadcast_addr_arp
     then Some (0, broadcast_entry net, dst_hold (broadcast_entry net) net)
     else case nip_route_lookup h32 cpu new daddr net of None \<Rightarrow> None
       | Some (r, tbl, net) \<Rightarrow>
         if tbl = TBL_MAIN then
           (case dst_dev (rts net r) of None \<Rightarrow> None
            | Some out \<Rightarrow>
              if nip_ptr (devs net skb_dev) = nip_ptr (devs net out) \<and> dev_tx_redirects (devs net out)
              then Some (1, r, net) else Some (0, r, net))
         else Some (0, r, net))"

text \<open>nip_route_output_flags: the dst and the source address of the flow.\<close>

definition nip_route_output_flags ::
  "hash32 \<Rightarrow> nat \<Rightarrow> (fib_tb_id \<Rightarrow> rt_id option) \<Rightarrow> nip_addr \<Rightarrow> nip_addr \<Rightarrow> netns_newip
     \<Rightarrow> (rt_id \<times> nip_addr \<times> netns_newip) option" where
  "nip_route_output_flags h32 cpu new daddr saddr net =
    (case nip_route_lookup h32 cpu new daddr net of None \<Rightarrow> None
     | Some (r, tbl, net) \<Rightarrow>
       if \<not> rtf (rt_flags (rts net r)) RTF_LOCAL then Some (r, saddr, net)
       else
         let saddr = (case rt_idev (rts net r) of None \<Rightarrow> saddr
           | Some i \<Rightarrow> (case addr_list (idevs net i) of [] \<Rightarrow> saddr | a # _ \<Rightarrow> ifa_addr (ifas net a)))
         in Some (broadcast_entry net, saddr, dst_hold (broadcast_entry net) (dst_release r net)))"

definition nip_bind_addr_check :: "hash32 \<Rightarrow> nip_addr \<Rightarrow> netns_newip \<Rightarrow> bool option" where
  "nip_bind_addr_check h32 a net =
    (if nip_addr_invalid a \<noteq> CURRENT_ADDR_VALID then Some False
     else if nip_addr_eq a nip_any_addr then Some True
     else case nip_fib_locate h32 (rts net) (tb_head (fib_local_tbl net)) a of None \<Rightarrow> None
       | Some None \<Rightarrow> Some False
       | Some (Some r) \<Rightarrow> Some True)"

section \<open>Adding and deleting routes\<close>

type_synonym 'a result = "int + 'a"    \<comment> \<open>Inl is the (negative) error of the code\<close>

text \<open>nip_route_info_create: on an error the references taken so far are given back.\<close>

definition nip_route_info_create ::
  "rt_id option \<Rightarrow> bool \<Rightarrow> nip_fib_config \<Rightarrow> netns_newip \<Rightarrow> rt_id result \<times> netns_newip" where
  "nip_route_info_create new pcpu_ok cfg net =
    (let d = fc_ifindex cfg in
     if \<not> dev_present (devs net d) then (Inl (- ENODEV), net)
     else
       let net = dev_hold d net in
       case nin_dev_get d net of
         (None, net) \<Rightarrow> (Inl (- ENODEV), dev_put d net)
       | (Some i, net) \<Rightarrow>
         if \<not> dev_running (devs net (idev_dev (idevs net i)))
         then (Inl (- ENODEV), nin_dev_put i (dev_put d net))
         else
           let metric = (if fc_metric cfg = 0 then NIP_RT_PRIO_USER else fc_metric cfg) in
           case nip_fib_get_table net (fc_table cfg) of
             None \<Rightarrow> (Inl (- ENOBUFS), nin_dev_put i (dev_put d net))
           | Some table \<Rightarrow>
             (case nip_dst_alloc new pcpu_ok None net of
                (None, net) \<Rightarrow> (Inl (- ENOMEM), nin_dev_put i (dev_put d net))
              | (Some r, net) \<Rightarrow>
                (Inr r, upd_rt r (\<lambda>rt. rt\<lparr>
                   rt_protocol := (if fc_protocol cfg = 0 then RTPROT_BOOT else fc_protocol cfg),
                   dst_input := (if rtf (fc_flags cfg) RTF_LOCAL then Fun_nip_input else Fun_nip_forward),
                   dst_output := Fun_nip_output,
                   rt_dst := fc_dst cfg, rt_src := fc_src cfg, rt_metric := metric,
                   rt_gateway := (if rtf (fc_flags cfg) RTF_GATEWAY then fc_gateway cfg else nip_any_addr),
                   rt_flags := fc_flags cfg, dst_dev := Some d, rt_idev := Some i,
                   rt_table := tb_id table\<rparr>) net)))"

text \<open>__nip_ins_rt and nip_ins_rt: insertion in the table of the route.\<close>

definition nip_ins_rt_locked :: "hash32 \<Rightarrow> bool \<Rightarrow> rt_id \<Rightarrow> netns_newip \<Rightarrow> (int \<times> netns_newip) option" where
  "nip_ins_rt_locked h32 node_ok r net =
    (case nip_fib_get_table net (rt_table (rts net r)) of None \<Rightarrow> None
     | Some t \<Rightarrow> nip_fib_add h32 node_ok t r net)"

definition nip_ins_rt :: "hash32 \<Rightarrow> bool \<Rightarrow> rt_id \<Rightarrow> netns_newip \<Rightarrow> (int \<times> netns_newip) option" where
  "nip_ins_rt h32 node_ok r net = nip_ins_rt_locked h32 node_ok r (dst_hold r net)"

definition nip_route_add ::
  "hash32 \<Rightarrow> rt_id option \<Rightarrow> bool \<Rightarrow> bool \<Rightarrow> nip_fib_config \<Rightarrow> netns_newip \<Rightarrow> (int \<times> netns_newip) option" where
  "nip_route_add h32 new pcpu_ok node_ok cfg net =
    (case nip_route_info_create new pcpu_ok cfg net of
       (Inl err, net) \<Rightarrow> Some (err, net)
     | (Inr r, net) \<Rightarrow> nip_ins_rt_locked h32 node_ok r net)"

text \<open>__nip_del_rt, with the reference of the caller given back.\<close>

definition nip_del_rt :: "rt_id \<Rightarrow> netns_newip \<Rightarrow> int \<times> netns_newip" where
  "nip_del_rt r net =
    (let (err, net) = (if r = null_entry net then (- ENOENT, net) else nip_fib_del r net)
     in (err, nip_rt_put r net))"

definition nip_route_del :: "hash32 \<Rightarrow> nip_fib_config \<Rightarrow> netns_newip \<Rightarrow> (int \<times> netns_newip) option" where
  "nip_route_del h32 cfg net =
    (case nip_fib_get_table net (fc_table cfg) of None \<Rightarrow> Some (- ESRCH, net)
     | Some t \<Rightarrow>
       (case nip_fib_locate h32 (rts net) (tb_head t) (fc_dst cfg) of None \<Rightarrow> None
        | Some None \<Rightarrow> Some (- ESRCH, net)
        | Some (Some r) \<Rightarrow> Some (nip_del_rt r (dst_hold r net))))"

datatype route_cmd = SIOCADDRT | SIOCDELRT | SIOC_OTHER

definition nip_route_ioctl ::
  "hash32 \<Rightarrow> rt_id option \<Rightarrow> bool \<Rightarrow> bool \<Rightarrow> bool \<Rightarrow> route_cmd \<Rightarrow> nip_rtmsg \<Rightarrow> netns_newip
     \<Rightarrow> (int \<times> netns_newip) option" where
  "nip_route_ioctl h32 new pcpu_ok node_ok admin cmd rtmsg net =
    (let cfg = rtmsg_to_fibni_config rtmsg in
     if \<not> admin then Some (- EPERM, net)
     else if nip_addr_invalid (fc_dst cfg) \<noteq> CURRENT_ADDR_VALID then Some (- EFAULT, net)
     else if rtf (fc_flags cfg) RTF_GATEWAY \<and> nip_addr_invalid (fc_gateway cfg) \<noteq> CURRENT_ADDR_VALID
     then Some (- EFAULT, net)
     else case cmd of
         SIOCADDRT \<Rightarrow> nip_route_add h32 new pcpu_ok node_ok cfg net
       | SIOCDELRT \<Rightarrow> nip_route_del h32 cfg net
       | SIOC_OTHER \<Rightarrow> Some (- EINVAL, net))"

section \<open>Operations of a dst\<close>

text \<open>nip_choose_neigh_daddr: the packet's destination, if there is a packet.\<close>

definition nip_choose_neigh_daddr :: "nip_rt_info \<Rightarrow> nip_addr option \<Rightarrow> nip_addr \<Rightarrow> nip_addr" where
  "nip_choose_neigh_daddr rt skb_daddr daddr =
    (if rtf (rt_flags rt) RTF_GATEWAY then rt_gateway rt
     else case skb_daddr of Some a \<Rightarrow> a | None \<Rightarrow> daddr)"

definition nip_dst_check :: "rt_id \<Rightarrow> netns_newip \<Rightarrow> rt_id option" where
  "nip_dst_check r net = (if dst_dead (rts net r) then None else Some r)"

text \<open>The transmission unit of the device's ninet_dev; sizeof(struct tcphdr) is 20.\<close>

definition nip_mtu :: "nat \<Rightarrow> netns_newip \<Rightarrow> u32" where
  "nip_mtu d net = (case nip_ptr (devs net d) of None \<Rightarrow> of_nat NIP_MIN_MTU
     | Some i \<Rightarrow> cnf_mtu (idevs net i))"

definition nip_default_advmss :: "nat \<Rightarrow> netns_newip \<Rightarrow> u32" where
  "nip_default_advmss d net = nip_mtu d net - (of_nat NIP_HDR_MAX + 20)"

definition nip_dst_ifdown :: "rt_id \<Rightarrow> netns_newip \<Rightarrow> netns_newip" where
  "nip_dst_ifdown r net =
    (case rt_idev (rts net r) of None \<Rightarrow> net
     | Some i \<Rightarrow>
       if idev_dev (idevs net i) = loopback_dev net then net
       else (case nin_dev_get (loopback_dev net) net of
           (None, net) \<Rightarrow> net
         | (Some l, net) \<Rightarrow> nin_dev_put i (upd_rt r (\<lambda>rt. rt\<lparr>rt_idev := Some l\<rparr>) net)))"

text \<open>nip_addrconf_dst_alloc: the local route of an interface address.\<close>

definition nip_addrconf_dst_alloc ::
  "rt_id option \<Rightarrow> bool \<Rightarrow> nat \<Rightarrow> nip_addr \<Rightarrow> netns_newip \<Rightarrow> rt_id result \<times> netns_newip" where
  "nip_addrconf_dst_alloc new pcpu_ok idev addr net =
    (case nip_dst_alloc new pcpu_ok (Some (idev_dev (idevs net idev))) net of
       (None, net) \<Rightarrow> (Inl (- ENOMEM), net)
     | (Some r, net) \<Rightarrow>
       (Inr r, upd_rt r (\<lambda>rt. rt\<lparr>dst_input := Fun_nip_input, dst_output := Fun_nip_output,
          rt_idev := Some idev, rt_protocol := RTPROT_KERNEL,
          rt_flags := or (or RTF_UP RTF_NONEXTHOP) RTF_LOCAL,
          rt_gateway := addr, rt_dst := addr, rt_table := RT_TABLE_LOCAL\<rparr>) (nin_dev_hold idev net)))"

text \<open>nip_fib_ifdown: -1 condemns the route. dev is None for every device.\<close>

definition nip_fib_ifdown :: "nat option \<Rightarrow> netns_newip \<Rightarrow> nip_rt_info \<Rightarrow> rt_id \<Rightarrow> int" where
  "nip_fib_ifdown dev net rt r =
    (let same_dev = (dst_dev rt = dev \<or> dev = None);
         not_null_entry = (r \<noteq> null_entry net);
         not_broadcast_entry = (r \<noteq> broadcast_entry net);
         dev_unregister = (case dev of None \<Rightarrow> False | Some d \<Rightarrow> dev_unregistering (devs net d));
         ignore_route_ifdown = (case rt_idev rt of None \<Rightarrow> False
           | Some i \<Rightarrow> \<not> cnf_ignore_linkdown (idevs net i))
     in if same_dev \<and> not_null_entry \<and> not_broadcast_entry \<and> (dev_unregister \<or> ignore_route_ifdown)
        then -1 else 0)"

definition nip_rt_ifdown :: "nat option \<Rightarrow> netns_newip \<Rightarrow> netns_newip" where
  "nip_rt_ifdown dev net = nip_fib_clean_all (nip_fib_ifdown dev net) net"

text \<open>nip_route_net_init with the success of its three allocations: the entries left allocated
  (null_entry, broadcast_entry, dst entries counter) and the code returned.\<close>

definition nip_route_net_init :: "bool \<Rightarrow> bool \<Rightarrow> bool \<Rightarrow> int \<times> bool \<times> bool \<times> bool" where
  "nip_route_net_init entries_ok null_ok bcast_ok =
    (if \<not> entries_ok then (- ENOMEM, False, False, False)
     else if \<not> null_ok then (- ENOMEM, False, False, False)
     else if \<not> bcast_ok then (- ENOMEM, False, False, False)
     else (0, True, True, True))"

datatype netdev_event = NETDEV_REGISTER | NETDEV_UNREGISTER | NETDEV_CHANGEMTU | NETDEV_UP
  | NETDEV_CHANGE | NETDEV_DOWN | NETDEV_EVENT_OTHER

text \<open>nip_route_dev_notify, for a loopback device or not; unregistered is the final state.\<close>

definition nip_route_dev_notify ::
  "bool \<Rightarrow> bool \<Rightarrow> netdev_event \<Rightarrow> nat \<Rightarrow> netns_newip \<Rightarrow> netns_newip" where
  "nip_route_dev_notify is_loopback unregistered event d net =
    (if \<not> is_loopback then net
     else if event = NETDEV_REGISTER then
       let n = null_entry net; b = broadcast_entry net;
           (i, net) = nin_dev_get d (upd_rt n (\<lambda>rt. rt\<lparr>dst_dev := Some d\<rparr>) net);
           net = upd_rt n (\<lambda>rt. rt\<lparr>rt_idev := i\<rparr>) net;
           (i, net) = nin_dev_get d (upd_rt b (\<lambda>rt. rt\<lparr>dst_dev := Some d\<rparr>) net)
       in upd_rt b (\<lambda>rt. rt\<lparr>rt_idev := i\<rparr>) net
     else if event = NETDEV_UNREGISTER \<and> \<not> unregistered then
       let n = null_entry net; b = broadcast_entry net;
           net = upd_rt n (\<lambda>rt. rt\<lparr>rt_idev := None\<rparr>) (opt_do nin_dev_put (rt_idev (rts net n)) net)
       in upd_rt b (\<lambda>rt. rt\<lparr>rt_idev := None\<rparr>) (opt_do nin_dev_put (rt_idev (rts net b)) net)
     else net)"

section \<open>References of a new route\<close>

lemma upd_simps [simp]:
  "rts (upd_dev d f net) = rts net" "rts (upd_idev i g net) = rts net"
  "devs (upd_rt r h net) = devs net" "idevs (upd_rt r h net) = idevs net"
  "devs (upd_idev i g net) = devs net" "idevs (upd_dev d f net) = idevs net"
  "fib_main_tbl (upd_rt r h net) = fib_main_tbl net" "fib_local_tbl (upd_rt r h net) = fib_local_tbl net"
  "fib_main_tbl (upd_dev d f net) = fib_main_tbl net" "fib_local_tbl (upd_dev d f net) = fib_local_tbl net"
  "fib_main_tbl (upd_idev i g net) = fib_main_tbl net" "fib_local_tbl (upd_idev i g net) = fib_local_tbl net"
  "null_entry (upd_rt r h net) = null_entry net" "broadcast_entry (upd_rt r h net) = broadcast_entry net"
  "null_entry (upd_dev d f net) = null_entry net" "broadcast_entry (upd_dev d f net) = broadcast_entry net"
  "null_entry (upd_idev i g net) = null_entry net" "broadcast_entry (upd_idev i g net) = broadcast_entry net"
  "rcu_nodes (upd_rt r h net) = rcu_nodes net" "rcu_nodes (upd_dev d f net) = rcu_nodes net"
  "rcu_nodes (upd_idev i g net) = rcu_nodes net"
  "possible_cpus (upd_rt r h net) = possible_cpus net" "ifas (upd_rt r h net) = ifas net"
  "addr_lst (upd_rt r h net) = addr_lst net" "loopback_dev (upd_rt r h net) = loopback_dev net"
  by (simp_all add: upd_rt_def upd_dev_def upd_idev_def)

lemma rts_upd_rt [simp]: "rts (upd_rt r f net) s = (if s = r then f (rts net r) else rts net s)"
  by (simp add: upd_rt_def)

lemma devs_upd [simp]: "devs (upd_dev d f net) e = (if e = d then f (devs net d) else devs net e)"
  by (simp add: upd_dev_def)

lemma idevs_upd [simp]: "idevs (upd_idev d f net) e = (if e = d then f (idevs net d) else idevs net e)"
  by (simp add: upd_idev_def)

lemma upd_dev_id: "f (devs net d) = devs net d \<Longrightarrow> upd_dev d f net = net"
  by (simp add: upd_dev_def fun_upd_idem)

lemma upd_idev_id: "f (idevs net d) = idevs net d \<Longrightarrow> upd_idev d f net = net"
  by (simp add: upd_idev_def fun_upd_idem)

lemma dev_hold_put: "dev_put d (dev_hold d net) = net"
  by (simp add: dev_put_def dev_hold_def upd_dev_def)

lemma nin_dev_hold_put:
  "idev_refcnt (idevs net i) \<noteq> 0 \<Longrightarrow> nin_dev_put i (nin_dev_hold i net) = net"
  by (simp add: nin_dev_put_def nin_dev_hold_def upd_idev_def Let_def)

lemma dev_put_idev_hold: "dev_put d (nin_dev_hold i net) = nin_dev_hold i (dev_put d net)"
  by (simp add: dev_put_def nin_dev_hold_def upd_idev_def upd_dev_def)

lemma dev_hold_facts [simp]:
  "nip_ptr (devs (dev_hold d net) e) = nip_ptr (devs net e)" "idevs (dev_hold d net) = idevs net"
  "dev_running (devs (dev_hold d net) e) = dev_running (devs net e)"
  "devs (nin_dev_hold i net) = devs net"
  by (simp_all add: dev_hold_def nin_dev_hold_def)

text \<open>What an allocation attempt that fails leaves behind: a route number nobody refers to.\<close>

definition scribble :: "rt_id option \<Rightarrow> netns_newip \<Rightarrow> netns_newip \<Rightarrow> bool" where
  "scribble new net net' \<longleftrightarrow> net' = net \<or>
     (\<exists>r rt. new = Some r \<and> net' = net\<lparr>rts := (rts net)(r := rt)\<rparr>)"

lemma nip_dst_alloc_None:
  "nip_dst_alloc new pcpu_ok None net = (None, net') \<Longrightarrow> scribble new net net'"
  by (auto simp: nip_dst_alloc_def nip_dst_alloc_base_def scribble_def opt_do_def dst_destroy_def
      nip_dst_destroy_def Let_def upd_rt_def blank_rt_def split: option.splits if_splits)

lemma nip_dst_alloc_Some:
  "nip_dst_alloc new pcpu_ok None net = (Some r, net') \<Longrightarrow>
   new = Some r \<and> pcpu_ok \<and> net' = upd_rt r (\<lambda>_. blank_rt\<lparr>dst_refcnt := 1, rt_pcpu := Some (\<lambda>cpu. None)\<rparr>) net"
  by (auto simp: nip_dst_alloc_def nip_dst_alloc_base_def opt_do_def upd_rt_def blank_rt_def
      split: option.splits if_splits)

lemma scribble_swap:
  "scribble new (nin_dev_hold i (dev_hold d net)) n \<Longrightarrow> idev_refcnt (idevs net i) \<noteq> 0 \<Longrightarrow>
   scribble new net (nin_dev_put i (dev_put d n))"
  by (auto simp: scribble_def nin_dev_hold_def dev_hold_def nin_dev_put_def dev_put_def upd_dev_def
      upd_idev_def Let_def)

text \<open>C20: nip_route_info_create is balanced: on every error all device and ninet_dev references
  taken on the way are given back (the state is the old one up to an unreferenced allocation),
  with the error of the failing step; on success it holds exactly one more reference on the
  device, one more on its ninet_dev and one on the new route.\<close>

theorem route_info_create_balanced:
  assumes "\<forall>i. nip_ptr (devs net (fc_ifindex cfg)) = Some i \<longrightarrow> idev_refcnt (idevs net i) > 0"
  shows "case nip_route_info_create new pcpu_ok cfg net of
      (Inl err, net') \<Rightarrow> err \<in> {- ENODEV, - ENOBUFS, - ENOMEM} \<and> scribble new net net'
    | (Inr r, net') \<Rightarrow> (\<exists>i. nip_ptr (devs net (fc_ifindex cfg)) = Some i \<and> new = Some r \<and>
        devs net' = devs (dev_hold (fc_ifindex cfg) net) \<and> idevs net' = idevs (nin_dev_hold i net) \<and>
        dst_refcnt (rts net' r) = 1 \<and> rt_ref (rts net' r) = 0 \<and> \<not> rt_node (rts net' r) \<and>
        rt_dst (rts net' r) = fc_dst cfg \<and> dst_dev (rts net' r) = Some (fc_ifindex cfg) \<and>
        rt_idev (rts net' r) = Some i)"
proof -
  let ?d = "fc_ifindex cfg" and ?R = "nip_route_info_create new pcpu_ok cfg net"
  show ?thesis
  proof (cases "dev_present (devs net ?d)")
    case False
    then have "?R = (Inl (- ENODEV), net)" by (simp add: nip_route_info_create_def Let_def)
    then show ?thesis by (simp add: scribble_def)
  next
    case p: True
    let ?n1 = "dev_hold ?d net"
    show ?thesis
    proof (cases "nip_ptr (devs net ?d)")
      case None
      then have "?R = (Inl (- ENODEV), dev_put ?d ?n1)"
        using p by (simp add: nip_route_info_create_def Let_def nin_dev_get_def)
      then show ?thesis by (simp add: scribble_def dev_hold_put)
    next
      case (Some i)
      let ?n2 = "nin_dev_hold i ?n1"
      have rc: "idev_refcnt (idevs net i) \<noteq> 0" using assms Some by auto
      have g: "nin_dev_get ?d ?n1 = (Some i, ?n2)" using Some by (simp add: nin_dev_get_def)
      have undo: "nin_dev_put i (dev_put ?d ?n2) = net"
        using rc by (simp add: dev_put_idev_hold dev_hold_put nin_dev_hold_put)
      show ?thesis
      proof (cases "dev_running (devs ?n2 (idev_dev (idevs ?n2 i)))")
        case False
        then have "?R = (Inl (- ENODEV), nin_dev_put i (dev_put ?d ?n2))"
          using p by (simp add: nip_route_info_create_def Let_def g)
        then show ?thesis by (simp add: scribble_def undo)
      next
        case run: True
        show ?thesis
        proof (cases "nip_fib_get_table ?n2 (fc_table cfg)")
          case None
          then have "?R = (Inl (- ENOBUFS), nin_dev_put i (dev_put ?d ?n2))"
            using p run by (simp add: nip_route_info_create_def Let_def g)
          then show ?thesis by (simp add: scribble_def undo)
        next
          case t: (Some table)
          obtain x n3 where a: "nip_dst_alloc new pcpu_ok None ?n2 = (x, n3)" by fastforce
          show ?thesis
          proof (cases x)
            case None
            then have R: "?R = (Inl (- ENOMEM), nin_dev_put i (dev_put ?d n3))"
              using p run t a by (simp add: nip_route_info_create_def Let_def g)
            have "scribble new net (nin_dev_put i (dev_put ?d n3))"
              using scribble_swap [OF nip_dst_alloc_None rc] a None by blast
            then show ?thesis using R by simp
          next
            case (Some r)
            note al = nip_dst_alloc_Some [OF a [unfolded Some]]
            let ?f = "\<lambda>rt. rt\<lparr>
                   rt_protocol := (if fc_protocol cfg = 0 then RTPROT_BOOT else fc_protocol cfg),
                   dst_input := (if rtf (fc_flags cfg) RTF_LOCAL then Fun_nip_input else Fun_nip_forward),
                   dst_output := Fun_nip_output, rt_dst := fc_dst cfg, rt_src := fc_src cfg,
                   rt_metric := (if fc_metric cfg = 0 then NIP_RT_PRIO_USER else fc_metric cfg),
                   rt_gateway := (if rtf (fc_flags cfg) RTF_GATEWAY then fc_gateway cfg else nip_any_addr),
                   rt_flags := fc_flags cfg, dst_dev := Some ?d, rt_idev := Some i,
                   rt_table := tb_id table\<rparr>"
            have R: "?R = (Inr r, upd_rt r ?f n3)"
              using p run t a Some unfolding nip_route_info_create_def Let_def by (simp add: g)
            show ?thesis
              using al \<open>nip_ptr (devs net ?d) = Some i\<close> unfolding R
              by (simp add: blank_rt_def fun_eq_iff nin_dev_hold_def dev_hold_def)
          qed
        qed
      qed
    qed
  qed
qed

definition cfg_example :: nip_fib_config where
  "cfg_example = \<lparr>fc_table = RT_TABLE_MAIN, fc_metric = 0, fc_ifindex = 3, fc_flags = RTF_UP, fc_protocol = 0,
     fc_dst = short_addr 300, fc_src = nip_any_addr, fc_gateway = nip_any_addr, fc_expires = 0\<rparr>"

text \<open>A namespace with the running device 3 and its ninet_dev 0.\<close>

definition net_example :: netns_newip where
  "net_example = (init_net [0])\<lparr>
     devs := (\<lambda>d. if d = 3 then blank_dev\<lparr>dev_present := True, dev_running := True, nip_ptr := Some 0\<rparr> else blank_dev),
     idevs := (\<lambda>i. if i = 0 then blank_idev\<lparr>idev_dev := 3, idev_refcnt := 1\<rparr> else blank_idev)\<rparr>"

theorem route_info_create_balanced_witness:
  "case nip_route_info_create (Some 7) True cfg_example net_example of
      (Inl err, net') \<Rightarrow> err \<in> {- ENODEV, - ENOBUFS, - ENOMEM} \<and> scribble (Some 7) net_example net'
    | (Inr r, net') \<Rightarrow> (\<exists>i. nip_ptr (devs net_example (fc_ifindex cfg_example)) = Some i \<and> Some 7 = Some r \<and>
        devs net' = devs (dev_hold (fc_ifindex cfg_example) net_example) \<and> idevs net' = idevs (nin_dev_hold i net_example) \<and>
        dst_refcnt (rts net' r) = 1 \<and> rt_ref (rts net' r) = 0 \<and> \<not> rt_node (rts net' r) \<and>
        rt_dst (rts net' r) = fc_dst cfg_example \<and> dst_dev (rts net' r) = Some (fc_ifindex cfg_example) \<and>
        rt_idev (rts net' r) = Some i)"
  by (rule route_info_create_balanced) (simp add: net_example_def cfg_example_def)

section \<open>Deleting a route\<close>

lemma fib_inv_dst_hold: "fib_inv h32 net \<Longrightarrow> fib_inv h32 (dst_hold r net)"
  and fib_inv_dst_release: "fib_inv h32 net \<Longrightarrow> fib_inv h32 (dst_release r net)"
proof -
  have k: "key_of (dst_hold r net) = key_of net" "key_of (dst_release r net) = key_of net"
    by (simp_all add: dst_hold_def dst_release_def key_of_upd)
  show "fib_inv h32 net \<Longrightarrow> fib_inv h32 (dst_hold r net)"
    unfolding fib_inv_def k by (auto simp: dst_hold_def)
  show "fib_inv h32 net \<Longrightarrow> fib_inv h32 (dst_release r net)"
    unfolding fib_inv_def k by (auto simp: dst_release_def)
qed

lemma main_find_hold [simp]: "main_find h32 (dst_hold r net) a = main_find h32 net a"
  by (simp add: main_find_def dst_hold_def key_of_upd)

lemma main_find_release [simp]: "main_find h32 (dst_release r net) a = main_find h32 net a"
  by (simp add: main_find_def dst_release_def key_of_upd)

lemma main_find_node:
  assumes "fib_inv h32 net" "addr_ok a" "main_find h32 net a = Some r"
  shows "rt_node (rts net r)" "r \<noteq> null_entry net"
proof -
  have h: "heads_inv h32 (key_of net) (tb_head (fib_main_tbl net))" using fib_invD(1) [OF assms(1)] by simp
  have "bucket h32 a < length (tb_head (fib_main_tbl net))" using h hash_ok(2) [OF assms(2)] by (simp add: heads_inv_def)
  then have "r \<in> routes (fib_main_tbl net)"
    using assms(3) unfolding main_find_def heads_find_def routes_def in_concat_nth find_Some_iff by auto
  then show "rt_node (rts net r)" "r \<noteq> null_entry net"
    using fib_invD(3) [OF assms(1), of r] assms(1) by (auto simp: fib_inv_def)
qed

lemma nip_del_rt_eq:
  assumes "rt_node (rts net r)" "r \<noteq> null_entry net"
  shows "nip_del_rt r (dst_hold r net) = (0, dst_release r (snd (nip_fib_del r (dst_hold r net))))"
  using assms by (simp add: nip_del_rt_def nip_rt_put_def nip_fib_del_def dst_hold_def Let_def)

lemma nip_route_del_main:
  assumes i: "fib_inv h32 net" and ok: "addr_ok (fc_dst cfg)" and t: "fc_table cfg = RT_TABLE_MAIN"
  defines "target \<equiv> (case main_find h32 net (fc_dst cfg) of Some r \<Rightarrow> Some r | None \<Rightarrow> main_find h32 net nip_any_addr)"
  shows "case target of None \<Rightarrow> nip_route_del h32 cfg net = Some (- ESRCH, net)
    | Some r \<Rightarrow> (\<exists>net'. nip_route_del h32 cfg net = Some (0, net') \<and> fib_inv h32 net' \<and>
        (\<forall>a. addr_ok a \<longrightarrow> main_find h32 net' a = (if main_find h32 net a = Some r then None else main_find h32 net a)) \<and>
        rcu_nodes net' = rcu_nodes net @ [r] \<and> dst_refcnt (rts net' r) = dst_refcnt (rts net r))"
proof -
  have loc: "nip_route_del h32 cfg net = (case target of None \<Rightarrow> Some (- ESRCH, net)
      | Some r \<Rightarrow> Some (nip_del_rt r (dst_hold r net)))"
    using main_locate [OF ok, of h32 net] t
    by (simp add: nip_route_del_def nip_fib_get_table_def target_def)
  show ?thesis
  proof (cases target)
    case None
    then show ?thesis using loc by simp
  next
    case (Some r)
    have f: "main_find h32 net (fc_dst cfg) = Some r \<or> main_find h32 net nip_any_addr = Some r"
      using Some by (auto simp: target_def split: option.splits)
    then have nd: "rt_node (rts net r)" "r \<noteq> null_entry net"
      using main_find_node [OF i ok] main_find_node [OF i any_addr_ok] by blast+
    let ?h = "dst_hold r net"
    have nd': "rt_node (rts ?h r)" "r \<noteq> null_entry ?h" using nd by (simp_all add: dst_hold_def)
    let ?net' = "dst_release r (snd (nip_fib_del r ?h))"
    have "nip_route_del h32 cfg net = Some (0, ?net')"
      using loc Some nip_del_rt_eq [OF nd] by simp
    moreover have "fib_inv h32 ?net'"
      using nip_fib_del_inv(1) [OF fib_inv_dst_hold [OF i] nd'] by (rule fib_inv_dst_release)
    moreover have "main_find h32 ?net' a = (if main_find h32 net a = Some r then None else main_find h32 net a)"
      if "addr_ok a" for a
      using main_find_del [OF fib_inv_dst_hold [OF i] nd' that] by simp
    moreover have "rcu_nodes ?net' = rcu_nodes net @ [r]" "dst_refcnt (rts ?net' r) = dst_refcnt (rts net r)"
      using nd' by (simp_all add: nip_fib_del_eq dst_release_def dst_hold_def)
    ultimately show ?thesis using Some by auto
  qed
qed

text \<open>nip_route_del finds its route with nip_fib_locate, which falls back to the default
  route: deleting a destination that has no route of its own reports success and removes the
  default route.\<close>

theorem route_del_removes_default:
  assumes "fib_inv h32 net" "addr_ok (fc_dst cfg)" "fc_table cfg = RT_TABLE_MAIN"
    and "table_find h32 (rts net) (tb_head (fib_main_tbl net)) (fc_dst cfg) = Some None"
    and "table_find h32 (rts net) (tb_head (fib_main_tbl net)) nip_any_addr = Some (Some d)"
  shows "\<exists>net'. nip_route_del h32 cfg net = Some (0, net') \<and>
    table_find h32 (rts net') (tb_head (fib_main_tbl net')) nip_any_addr = Some None \<and>
    rcu_nodes net' = rcu_nodes net @ [d]"
proof -
  have f: "main_find h32 net (fc_dst cfg) = None" "main_find h32 net nip_any_addr = Some d"
    using assms by (simp_all add: table_find_main any_addr_ok)
  obtain net' where n: "nip_route_del h32 cfg net = Some (0, net')" "main_find h32 net' nip_any_addr = None"
    "rcu_nodes net' = rcu_nodes net @ [d]"
    using nip_route_del_main [OF assms(1-3)] f any_addr_ok by auto
  then show ?thesis using table_find_main [OF any_addr_ok, of h32 net'] by auto
qed

text \<open>A namespace whose only route, number 7, is the default route.\<close>

definition before_default :: netns_newip where
  "before_default = upd_rt 7 (\<lambda>_. blank_rt\<lparr>dst_refcnt := 1, rt_dst := nip_any_addr, rt_table := RT_TABLE_MAIN,
     rt_pcpu := Some (\<lambda>cpu. None), dst_dev := Some 3\<rparr>) net_example"

definition default_net :: netns_newip where
  "default_net = snd (the (nip_fib_add hash_zero True (fib_main_tbl before_default) 7 before_default))"

lemma before_default_inv: "fib_inv h32 before_default"
proof -
  have r: "routes (empty_table i) = {}" for i by (auto simp: routes_def empty_table_def)
  have h: "heads_inv h32 k (tb_head (empty_table i))" "unique_keys k (tb_head (empty_table i))" for i k
    by (auto simp: heads_inv_def unique_keys_def empty_table_def)
  show ?thesis
    unfolding fib_inv_def using r h
    by (simp add: before_default_def net_example_def init_net_def nip_null_entry_template_def
        nip_broadcast_entry_template_def blank_rt_def) (simp add: empty_table_def)
qed

lemma default_net_facts:
  "fib_inv hash_zero default_net" "main_find hash_zero default_net nip_any_addr = Some 7"
  "main_find hash_zero default_net (short_addr 300) = None"
proof -
  let ?n = before_default
  have k: "key_of ?n 7 = nip_any_addr" by (simp add: key_of_def before_default_def)
  have ok: "addr_ok (key_of ?n 7)" by (simp add: k any_addr_ok)
  have none: "main_find hash_zero ?n a = None" if "addr_ok a" for a
    using hash_ok(2) [OF that, of hash_zero]
    by (simp add: main_find_def heads_find_def before_default_def net_example_def init_net_def empty_table_def)
  have n7: "\<not> rt_node (rts ?n 7)" "7 \<notin> set (rcu_nodes ?n)" "7 \<noteq> null_entry ?n"
    by (simp_all add: before_default_def net_example_def init_net_def blank_rt_def)
  have tb: "table_find hash_zero (rts ?n) (tb_head (fib_main_tbl ?n)) (rt_dst (rts ?n 7)) = Some None"
    using none [OF ok] table_find_main [OF ok, of hash_zero ?n] by (simp add: key_of_def)
  let ?net' = "(upd_rt 7 (\<lambda>rt. rt\<lparr>rt_node := True, rt_ref := rt_ref rt + 1\<rparr>) ?n)
    \<lparr>fib_main_tbl := (fib_main_tbl ?n)\<lparr>tb_head := heads_ins hash_zero (key_of ?n) (tb_head (fib_main_tbl ?n)) 7\<rparr>\<rparr>"
  have d: "default_net = ?net'"
    using fib_add_main [OF before_default_inv ok, where node_ok = True] none [OF ok]
    by (simp add: default_net_def)
  show i: "fib_inv hash_zero default_net"
    unfolding d by (rule fib_add_main_inv [OF before_default_inv ok none [OF ok] n7])
  have f: "main_find hash_zero default_net a = (if nip_addr_eq nip_any_addr a then Some 7 else None)" if "addr_ok a" for a
    using main_tab.find_ins [OF fib_invD(1) [OF before_default_inv] ok _ that, of hash_zero] none [OF ok] none [OF that] k
    unfolding d main_find_def by (simp add: key_of_upd)
  show "main_find hash_zero default_net nip_any_addr = Some 7"
    using f [OF any_addr_ok] addr_ok_eq [OF any_addr_ok] by simp
  have "\<not> nip_addr_eq nip_any_addr (short_addr 300)"
    by (simp add: nip_addr_eq_def nip_any_addr_def short_addr_def short_bytes_def)
  then show "main_find hash_zero default_net (short_addr 300) = None"
    using f [OF short_addr_ok, of 300] by simp
qed

theorem route_del_removes_default_witness:
  "\<exists>net'. nip_route_del hash_zero cfg_example default_net = Some (0, net') \<and>
    table_find hash_zero (rts net') (tb_head (fib_main_tbl net')) nip_any_addr = Some None \<and>
    rcu_nodes net' = rcu_nodes default_net @ [7]"
  by (rule route_del_removes_default)
    (simp_all add: default_net_facts cfg_example_def short_addr_ok table_find_main any_addr_ok)

section \<open>A device going down\<close>

text \<open>when a device is being unregistered, nip_rt_ifdown removes every route of that device
  from both tables (the two static entries are never in a table), keeps every route of other
  devices and the invariant of the tables.\<close>

theorem rt_ifdown_unregister:
  assumes "fib_inv h32 net" "dev_unregistering (devs net d)"
    and "broadcast_entry net \<notin> routes (fib_main_tbl net) \<union> routes (fib_local_tbl net)"
  shows "fib_inv h32 (nip_rt_ifdown (Some d) net) \<and>
    routes (fib_main_tbl (nip_rt_ifdown (Some d) net)) = {r \<in> routes (fib_main_tbl net). dst_dev (rts net r) \<noteq> Some d} \<and>
    routes (fib_local_tbl (nip_rt_ifdown (Some d) net)) = {r \<in> routes (fib_local_tbl net). dst_dev (rts net r) \<noteq> Some d}"
proof -
  let ?f = "nip_fib_ifdown (Some d) net"
  let ?m = "concat (tb_head (fib_main_tbl net))" and ?l = "concat (tb_head (fib_local_tbl net))"
  have nn: "null_entry net \<notin> routes (fib_main_tbl net) \<union> routes (fib_local_tbl net)"
    using assms(1) by (simp add: fib_inv_def)
  have e: "nip_rt_ifdown (Some d) net = drop_nodes (drops ?f net (?m @ ?l)) net"
    unfolding nip_rt_ifdown_def by (rule clean_all_eq [OF assms(1)])
  have c: "?f (rts net r) r < 0 \<longleftrightarrow> dst_dev (rts net r) = Some d"
    if "r \<in> routes (fib_main_tbl net) \<union> routes (fib_local_tbl net)" for r
    using that nn assms(2,3) by (auto simp: nip_fib_ifdown_def Let_def)
  have ds: "set (drops ?f net (?m @ ?l))
    = {r \<in> routes (fib_main_tbl net) \<union> routes (fib_local_tbl net). dst_dev (rts net r) = Some d}"
    using c by (auto simp: drops_def routes_def)
  have "distinct (?m @ ?l)"
    using heads_distinct fib_invD(1,2,4) [OF assms(1)] by (auto simp: routes_def simp del: set_concat)
  then have "distinct (drops ?f net (?m @ ?l))" unfolding drops_def by (rule distinct_filter)
  moreover have "rt_node (rts net r) \<and> r \<noteq> null_entry net" if "r \<in> set (drops ?f net (?m @ ?l))" for r
    using that nn fib_invD(3) [OF assms(1), of r] unfolding ds by auto
  ultimately have "fib_inv h32 (drop_nodes (drops ?f net (?m @ ?l)) net)"
    using drop_nodes_inv [OF assms(1)] by blast
  moreover have "routes (fib_main_tbl (drop_nodes ds net)) = routes (fib_main_tbl net) - set ds"
    "routes (fib_local_tbl (drop_nodes ds net)) = routes (fib_local_tbl net) - set ds" for ds
    by (auto simp: routes_def)
  ultimately show ?thesis unfolding e using ds by auto
qed

theorem rt_ifdown_unregister_witness:
  "fib_inv hash_zero (nip_rt_ifdown (Some 3) (upd_dev 3 (\<lambda>x. x\<lparr>dev_unregistering := True\<rparr>) default_net)) \<and>
    routes (fib_main_tbl (nip_rt_ifdown (Some 3) (upd_dev 3 (\<lambda>x. x\<lparr>dev_unregistering := True\<rparr>) default_net)))
      = {r \<in> routes (fib_main_tbl (upd_dev 3 (\<lambda>x. x\<lparr>dev_unregistering := True\<rparr>) default_net)).
          dst_dev (rts (upd_dev 3 (\<lambda>x. x\<lparr>dev_unregistering := True\<rparr>) default_net) r) \<noteq> Some 3} \<and>
    routes (fib_local_tbl (nip_rt_ifdown (Some 3) (upd_dev 3 (\<lambda>x. x\<lparr>dev_unregistering := True\<rparr>) default_net)))
      = {r \<in> routes (fib_local_tbl (upd_dev 3 (\<lambda>x. x\<lparr>dev_unregistering := True\<rparr>) default_net)).
          dst_dev (rts (upd_dev 3 (\<lambda>x. x\<lparr>dev_unregistering := True\<rparr>) default_net) r) \<noteq> Some 3}"
proof (rule rt_ifdown_unregister)
  have k: "key_of (upd_dev d f net) = key_of net" for d f net by (rule ext) (simp add: key_of_def)
  show "fib_inv hash_zero (upd_dev 3 (\<lambda>x. x\<lparr>dev_unregistering := True\<rparr>) default_net)"
    using default_net_facts(1) by (auto simp: fib_inv_def k)
  have r: "routes (empty_table i) = {}" for i by (auto simp: routes_def empty_table_def)
  have "broadcast_entry default_net \<noteq> 7 \<and> (\<forall>x. rt_node (rts default_net x) \<longrightarrow> x = 7)"
    by (simp add: default_net_def nip_fib_add_def before_default_def ninet_route_hash_def nip_addr_hash_def
        nip_any_addr_def Let_def net_example_def init_net_def empty_table_def hash_zero_def
        NIN_ROUTE_HSIZE_def put_table_def blank_rt_def upd_rt_def nip_null_entry_template_def nip_broadcast_entry_template_def)
  then show "broadcast_entry (upd_dev 3 (\<lambda>x. x\<lparr>dev_unregistering := True\<rparr>) default_net)
      \<notin> routes (fib_main_tbl (upd_dev 3 (\<lambda>x. x\<lparr>dev_unregistering := True\<rparr>) default_net)) \<union>
        routes (fib_local_tbl (upd_dev 3 (\<lambda>x. x\<lparr>dev_unregistering := True\<rparr>) default_net))"
    using fib_invD(3) [OF default_net_facts(1), of "broadcast_entry default_net"] by auto
qed simp

section \<open>Lookups\<close>

lemma frame_simps [simp]:
  "rts (opt_do dev_hold d net) = rts net" "rts (opt_do nin_dev_hold i net) = rts net"
  "fib_main_tbl (opt_do dev_hold d net) = fib_main_tbl net" "fib_main_tbl (opt_do nin_dev_hold i net) = fib_main_tbl net"
  "fib_local_tbl (opt_do dev_hold d net) = fib_local_tbl net" "fib_local_tbl (opt_do nin_dev_hold i net) = fib_local_tbl net"
  "null_entry (opt_do dev_hold d net) = null_entry net" "null_entry (opt_do nin_dev_hold i net) = null_entry net"
  "broadcast_entry (opt_do dev_hold d net) = broadcast_entry net" "broadcast_entry (opt_do nin_dev_hold i net) = broadcast_entry net"
  "rcu_nodes (opt_do dev_hold d net) = rcu_nodes net" "rcu_nodes (opt_do nin_dev_hold i net) = rcu_nodes net"
  by (auto simp: opt_do_def dev_hold_def nin_dev_hold_def split: option.splits)

lemmas ref_defs = dst_hold_def dst_release_def

text \<open>A per-cpu copy p of the route r.\<close>

definition copy_of :: "netns_newip \<Rightarrow> rt_id \<Rightarrow> rt_id \<Rightarrow> bool" where
  "copy_of net p r \<longleftrightarrow> p \<noteq> r \<and> p \<noteq> null_entry net \<and> \<not> rt_node (rts net p) \<and> rt_from (rts net p) = Some r \<and>
     rt_dst (rts net p) = rt_dst (rts net r) \<and> rt_gateway (rts net p) = rt_gateway (rts net r) \<and>
     dst_input (rts net p) = dst_input (rts net r) \<and> dst_output (rts net p) = dst_output (rts net r) \<and>
     dst_dev (rts net p) = dst_dev (rts net r)"

definition slot :: "netns_newip \<Rightarrow> nat \<Rightarrow> rt_id \<Rightarrow> rt_id option" where
  "slot net cpu r = (case rt_pcpu (rts net r) of None \<Rightarrow> None | Some slots \<Rightarrow> slots cpu)"

definition pcpu_inv :: "netns_newip \<Rightarrow> bool" where
  "pcpu_inv net \<longleftrightarrow> (\<forall>r. rt_node (rts net r) \<longrightarrow> rt_pcpu (rts net r) \<noteq> None \<and>
     (\<forall>cpu p. slot net cpu r = Some p \<longrightarrow> copy_of net p r))"

text \<open>A number dst_alloc may hand out: no entry in use has it.\<close>

definition unused :: "netns_newip \<Rightarrow> rt_id \<Rightarrow> bool" where
  "unused net p \<longleftrightarrow> p \<noteq> null_entry net \<and> p \<noteq> broadcast_entry net \<and> \<not> rt_node (rts net p) \<and>
     p \<notin> set (rcu_nodes net) \<and> (\<forall>cpu r. rt_node (rts net r) \<longrightarrow> slot net cpu r \<noteq> Some p)"

lemma pcpu_alloc_facts:
  assumes "nip_rt_pcpu_alloc (Some p) r net = (x, net')" "p \<noteq> r"
  shows "x = Some p"
    "\<And>s. s \<noteq> p \<Longrightarrow> s \<noteq> r \<Longrightarrow> rts net' s = rts net s"
    "rts net' r = (rts net r)\<lparr>dst_refcnt := dst_refcnt (rts net r) + 1\<rparr>"
    "dst_refcnt (rts net' p) = 1" "\<not> rt_node (rts net' p)" "rt_ref (rts net' p) = 0" "rt_from (rts net' p) = Some r"
    "rt_dst (rts net' p) = rt_dst (rts net r)" "rt_gateway (rts net' p) = rt_gateway (rts net r)"
    "dst_input (rts net' p) = dst_input (rts net r)" "dst_output (rts net' p) = dst_output (rts net r)"
    "dst_dev (rts net' p) = dst_dev (rts net r)"
    "fib_main_tbl net' = fib_main_tbl net" "fib_local_tbl net' = fib_local_tbl net"
    "null_entry net' = null_entry net" "broadcast_entry net' = broadcast_entry net" "rcu_nodes net' = rcu_nodes net"
  using assms(2) assms(1) [symmetric]
  by (simp_all add: nip_rt_pcpu_alloc_def nip_dst_alloc_base_def nip_rt_copy_init_def nip_rt_set_from_def
      Let_def blank_rt_def dst_hold_def)

text \<open>The state after a lookup has put the new copy p of r in the slot of the cpu.\<close>

definition cached :: "netns_newip \<Rightarrow> nat \<Rightarrow> rt_id \<Rightarrow> rt_id \<Rightarrow> netns_newip \<Rightarrow> bool" where
  "cached net cpu r p net' \<longleftrightarrow>
     (\<forall>s. s \<noteq> p \<longrightarrow> s \<noteq> r \<longrightarrow> rts net' s = rts net s) \<and>
     rts net' r = (rts net r)\<lparr>dst_refcnt := dst_refcnt (rts net r) + 1,
       rt_pcpu := map_option (\<lambda>slots. slots(cpu := Some p)) (rt_pcpu (rts net r))\<rparr> \<and>
     dst_refcnt (rts net' p) = 2 \<and> rt_ref (rts net' p) = 0 \<and> copy_of net' p r \<and>
     fib_main_tbl net' = fib_main_tbl net \<and> fib_local_tbl net' = fib_local_tbl net \<and>
     null_entry net' = null_entry net \<and> broadcast_entry net' = broadcast_entry net \<and>
     rcu_nodes net' = rcu_nodes net"

lemma make_pcpu_cached:
  assumes "p \<noteq> r" "p \<noteq> null_entry net" "rt_pcpu (rts net r) = Some slots" "slots cpu = None"
    and m: "nip_rt_make_pcpu_route cpu (Some p) r (dst_hold r net) = (x, n1)"
  shows "x = p \<and> cached net cpu r p (dst_release r n1)"
proof -
  obtain y n2 where a: "nip_rt_pcpu_alloc (Some p) r (dst_hold r net) = (y, n2)" by fastforce
  note f = pcpu_alloc_facts [OF a assms(1)]
  have "rt_pcpu (rts n2 r) = Some slots" using f(3) assms(3) by (simp add: dst_hold_def)
  then have "x = p" "n1 = dst_hold p (upd_rt r (\<lambda>rt. rt\<lparr>rt_pcpu := Some (slots(cpu := Some p))\<rparr>) n2)"
    using m a f(1) assms(4) by (auto simp: nip_rt_make_pcpu_route_def)
  then show ?thesis
    using f assms(1-3) unfolding cached_def copy_of_def
    by (simp add: ref_defs)
qed

lemma heads_inv_cong:
  assumes "\<And>r. r \<in> set (concat head) \<Longrightarrow> key r = key' r"
  shows "heads_inv h32 key head \<longleftrightarrow> heads_inv h32 key' head" "unique_keys key head \<longleftrightarrow> unique_keys key' head"
proof -
  have "key r = key' r" if "length head = NIN_ROUTE_HSIZE" "i < NIN_ROUTE_HSIZE" "r \<in> set (head ! i)" for i r
    using that assms [of r] unfolding in_concat_nth by auto
  then show "heads_inv h32 key head \<longleftrightarrow> heads_inv h32 key' head"
    unfolding heads_inv_def by (metis (no_types, opaque_lifting))
  show "unique_keys key head \<longleftrightarrow> unique_keys key' head"
    using assms by (auto simp: unique_keys_def)
qed

lemma cached_inv:
  assumes i: "fib_inv h32 net" "pcpu_inv net" and c: "cached net cpu r p net'"
    and p: "unused net p" and r: "rt_node (rts net r)" and e: "slot net cpu r = None"
  shows "fib_inv h32 net' \<and> pcpu_inv net' \<and> slot net' cpu r = Some p"
proof -
  have pr: "p \<noteq> r" using p r by (auto simp: unused_def)
  have node: "rt_node (rts net' s) = rt_node (rts net s)" for s
    using c p by (cases "s = p"; cases "s = r") (auto simp: cached_def copy_of_def unused_def)
  have ref: "s \<noteq> p \<Longrightarrow> rt_ref (rts net' s) = rt_ref (rts net s)" for s
    using c by (cases "s = r") (auto simp: cached_def)
  have key: "s \<noteq> p \<Longrightarrow> key_of net' s = key_of net s" for s
    using c by (cases "s = r") (auto simp: cached_def key_of_def)
  have np: "p \<notin> routes (fib_main_tbl net) \<union> routes (fib_local_tbl net)"
    using p fib_invD(3) [OF i(1), of p] by (auto simp: unused_def)
  have km: "key_of net' s = key_of net s" if "s \<in> set (concat (tb_head (fib_main_tbl net)))" for s
    using that np key [of s] by (auto simp: routes_def)
  have kl: "key_of net' s = key_of net s" if "s \<in> set (concat (tb_head (fib_local_tbl net)))" for s
    using that np key [of s] by (auto simp: routes_def)
  have t: "fib_main_tbl net' = fib_main_tbl net" "fib_local_tbl net' = fib_local_tbl net"
    "null_entry net' = null_entry net" "broadcast_entry net' = broadcast_entry net" "rcu_nodes net' = rcu_nodes net"
    using c by (simp_all add: cached_def)
  have rp: "rt_ref (rts net' p) = 0" using c by (simp add: cached_def)
  have refs: "rt_ref (rts net' s) = of_bool (rt_node (rts net s)) + of_bool (s \<in> set (rcu_nodes net))"
    if "s \<noteq> null_entry net" "s \<noteq> broadcast_entry net" for s
  proof (cases "s = p")
    case True
    then show ?thesis using rp p by (simp add: unused_def)
  next
    case False
    then show ?thesis using ref [OF False] i(1) that unfolding fib_inv_def by simp
  qed
  note u = i(1) [unfolded fib_inv_def]
  note cm = heads_inv_cong(1) [of "tb_head (fib_main_tbl net)" "key_of net'" "key_of net" h32, OF km]
      heads_inv_cong(2) [of "tb_head (fib_main_tbl net)" "key_of net'" "key_of net", OF km]
    and cl = heads_inv_cong(1) [of "tb_head (fib_local_tbl net)" "key_of net'" "key_of net" h32, OF kl]
  have hk1: "heads_inv h32 (key_of net') (tb_head (fib_main_tbl net))"
    by (rule iffD2 [OF cm(1)]) (simp_all add: fib_invD [OF i(1)])
  have hk2: "unique_keys (key_of net') (tb_head (fib_main_tbl net))"
    by (rule iffD2 [OF cm(2)]) (simp_all add: fib_invD [OF i(1)])
  have hk3: "heads_inv h32 (key_of net') (tb_head (fib_local_tbl net))"
    by (rule iffD2 [OF cl]) (simp_all add: fib_invD [OF i(1)])
  have rn: "\<forall>s. s \<noteq> null_entry net \<longrightarrow> s \<noteq> broadcast_entry net \<longrightarrow>
     rt_ref (rts net' s) = of_bool (rt_node (rts net s)) + of_bool (s \<in> set (rcu_nodes net))" using refs by blast
  have "fib_inv h32 net'"
    unfolding fib_inv_def t node by (insert u hk1 hk2 hk3 rn, elim conjE, intro conjI) assumption+
  moreover have "slot net' cpu r = Some p"
    using c i(2) r pr by (auto simp: cached_def slot_def pcpu_inv_def split: option.splits)
  moreover have "pcpu_inv net'"
    unfolding pcpu_inv_def
  proof (intro allI impI conjI)
    fix s assume "rt_node (rts net' s)"
    then have s: "rt_node (rts net s)" "s \<noteq> p" using node p by (auto simp: unused_def)
    then have "rt_pcpu (rts net s) \<noteq> None" using i(2) by (auto simp: pcpu_inv_def)
    then show "rt_pcpu (rts net' s) \<noteq> None" using c s(2) by (cases "s = r") (auto simp: cached_def)
    fix cpu' q assume q: "slot net' cpu' s = Some q"
    show "copy_of net' q s"
    proof (cases "s = r \<and> cpu' = cpu")
      case True
      then have "q = p" using q \<open>slot net' cpu r = Some p\<close> by simp
      then show ?thesis using c True by (simp add: cached_def)
    next
      case False
      then have "slot net cpu' s = Some q"
        using q c s(2) by (cases "s = r") (auto simp: slot_def cached_def split: option.splits)
      then have q': "copy_of net q s" "q \<noteq> p" using i(2) s(1) p by (auto simp: pcpu_inv_def unused_def)
      have "q \<noteq> r" using q'(1) r by (auto simp: copy_of_def)
      then have "rts net' q = rts net q" using c q'(2) by (simp add: cached_def)
      moreover have "rt_dst (rts net' s) = rt_dst (rts net s)" "rt_gateway (rts net' s) = rt_gateway (rts net s)"
        "dst_input (rts net' s) = dst_input (rts net s)" "dst_output (rts net' s) = dst_output (rts net s)"
        "dst_dev (rts net' s) = dst_dev (rts net s)"
        using c s(2) by (cases "s = r"; simp add: cached_def)+
      ultimately show ?thesis using q'(1) unfolding copy_of_def t by simp
    qed
  qed
  ultimately show ?thesis by blast
qed

lemma dst_ref_inv:
  assumes "\<And>s. \<exists>k. rts net' s = (rts net s)\<lparr>dst_refcnt := k\<rparr>"
    and "fib_main_tbl net' = fib_main_tbl net" "fib_local_tbl net' = fib_local_tbl net"
    "null_entry net' = null_entry net" "broadcast_entry net' = broadcast_entry net" "rcu_nodes net' = rcu_nodes net"
  shows "fib_inv h32 net' \<longleftrightarrow> fib_inv h32 net" "pcpu_inv net' \<longleftrightarrow> pcpu_inv net"
    "slot net' cpu r = slot net cpu r" "copy_of net' p r \<longleftrightarrow> copy_of net p r"
proof -
  have f: "rt_node (rts net' s) = rt_node (rts net s)" "rt_ref (rts net' s) = rt_ref (rts net s)"
    "rt_pcpu (rts net' s) = rt_pcpu (rts net s)" "rt_from (rts net' s) = rt_from (rts net s)"
    "rt_dst (rts net' s) = rt_dst (rts net s)" "rt_gateway (rts net' s) = rt_gateway (rts net s)"
    "dst_input (rts net' s) = dst_input (rts net s)" "dst_output (rts net' s) = dst_output (rts net s)"
    "dst_dev (rts net' s) = dst_dev (rts net s)" for s
    using assms(1) [of s] by auto
  have k: "key_of net' = key_of net" by (rule ext) (simp add: key_of_def f)
  have sl: "slot net' cpu r = slot net cpu r" for cpu r by (simp add: slot_def f)
  have co: "copy_of net' p r \<longleftrightarrow> copy_of net p r" for p r by (simp add: copy_of_def f assms)
  show "fib_inv h32 net' \<longleftrightarrow> fib_inv h32 net" by (simp only: fib_inv_def k f assms)
  show "pcpu_inv net' \<longleftrightarrow> pcpu_inv net" by (simp only: pcpu_inv_def f sl co)
  show "slot net' cpu r = slot net cpu r" by (rule sl)
  show "copy_of net' p r \<longleftrightarrow> copy_of net p r" by (rule co)
qed

lemma hold_ref: "\<exists>k. rts (dst_hold r net) s = (rts net s)\<lparr>dst_refcnt := k\<rparr>"
  and hold_release_ref: "\<exists>k. rts (dst_release q (dst_hold p (dst_hold r net))) s = (rts net s)\<lparr>dst_refcnt := k\<rparr>"
  by (auto simp: ref_defs intro: exI [of _ "dst_refcnt (rts net s)"])

lemma ref_frame [simp]:
  "fib_main_tbl (dst_hold r net) = fib_main_tbl net" "fib_main_tbl (dst_release r net) = fib_main_tbl net"
  "fib_local_tbl (dst_hold r net) = fib_local_tbl net" "fib_local_tbl (dst_release r net) = fib_local_tbl net"
  "null_entry (dst_hold r net) = null_entry net" "null_entry (dst_release r net) = null_entry net"
  "broadcast_entry (dst_hold r net) = broadcast_entry net" "broadcast_entry (dst_release r net) = broadcast_entry net"
  "rcu_nodes (dst_hold r net) = rcu_nodes net" "rcu_nodes (dst_release r net) = rcu_nodes net"
  by (simp_all add: ref_defs)

lemmas hold_inv = dst_ref_inv [OF hold_ref ref_frame(1,3,5,7,9)]

text \<open>C19: a route lookup in the main table. It returns the null entry when no route (and no
  default route) matches or when the copy cannot be allocated; otherwise it returns the cpu's
  copy of the located route, created on the first use, with one reference for the caller. The
  table invariant and the invariant of the per-cpu slots are kept.\<close>

theorem pol_route_main:
  assumes i: "fib_inv h32 net" "pcpu_inv net" and ok: "addr_ok daddr"
    and new: "\<And>p. new = Some p \<Longrightarrow> unused net p"
  defines "found \<equiv> (case main_find h32 net daddr of Some r \<Rightarrow> Some r | None \<Rightarrow> main_find h32 net nip_any_addr)"
  shows "\<exists>p net'. nip_pol_route h32 cpu new (fib_main_tbl net) daddr net = Some (p, net') \<and>
    fib_inv h32 net' \<and> pcpu_inv net' \<and> null_entry net' = null_entry net \<and>
    (case found of None \<Rightarrow> p = null_entry net
     | Some r \<Rightarrow> (if slot net cpu r = None \<and> new = None then p = null_entry net
        else copy_of net' p r \<and> slot net' cpu r = Some p \<and> (slot net cpu r \<noteq> None \<longrightarrow> slot net cpu r = Some p))) \<and>
    dst_refcnt (rts net' p) = (if p = null_entry net \<or> (found \<noteq> None \<and> slot net cpu (the found) = Some p)
       then dst_refcnt (rts net p) + 1 else 2)"
proof -
  have loc: "nip_fib_locate h32 (rts net) (tb_head (fib_main_tbl net)) daddr = Some found"
    unfolding found_def by (rule main_locate [OF ok])
  show ?thesis
  proof (cases found)
    case None
    then show ?thesis
      using loc i by (simp add: nip_pol_route_def hold_inv) (simp add: dst_hold_def)
  next
    case (Some r)
    then have "main_find h32 net daddr = Some r \<or> main_find h32 net nip_any_addr = Some r"
      by (auto simp: found_def split: option.splits)
    then have nd: "rt_node (rts net r)" "r \<noteq> null_entry net"
      using main_find_node [OF i(1) ok] main_find_node [OF i(1) any_addr_ok] by blast+
    obtain slots where sl: "rt_pcpu (rts net r) = Some slots" using i(2) nd by (auto simp: pcpu_inv_def)
    then have slot: "slot net cpu r = slots cpu" by (simp add: slot_def)
    show ?thesis
    proof (cases "slots cpu")
      case q: (Some q)
      have c: "copy_of net q r" using i(2) nd q slot by (auto simp: pcpu_inv_def)
      then have "q \<noteq> null_entry net" by (simp add: copy_of_def)
      then show ?thesis
        using loc i sl q c slot Some
        by (simp add: nip_pol_route_def nip_rt_get_pcpu_route_def opt_do_def hold_inv) (simp add: dst_hold_def)
    next
      case e: None
      show ?thesis
      proof (cases new)
        case None
        then have "nip_pol_route h32 cpu new (fib_main_tbl net) daddr net
          = Some (null_entry net, dst_release r (dst_hold (null_entry net) (dst_hold r net)))"
          using loc Some sl e by (simp add: nip_pol_route_def nip_rt_get_pcpu_route_def opt_do_def
              nip_rt_make_pcpu_route_def nip_rt_pcpu_alloc_def nip_dst_alloc_base_def dst_hold_def)
        then show ?thesis
          using i Some None e slot nd by (simp add: dst_ref_inv [OF hold_release_ref]) (simp add: ref_defs)
      next
        case p: (Some p)
        obtain x n1 where m: "nip_rt_make_pcpu_route cpu (Some p) r (dst_hold r net) = (x, n1)" by fastforce
        have u: "unused net p" by (rule new [OF p])
        have pr: "p \<noteq> r" "p \<noteq> null_entry net" using u nd by (auto simp: unused_def)
        have x: "x = p" and c: "cached net cpu r p (dst_release r n1)"
          using make_pcpu_cached [OF pr sl e m] by blast+
        have "nip_pol_route h32 cpu new (fib_main_tbl net) daddr net = Some (p, dst_release r n1)"
          using loc Some sl e p m x by (simp add: nip_pol_route_def nip_rt_get_pcpu_route_def opt_do_def)
        then show ?thesis
          using cached_inv [OF i c u nd(1)] c Some p e slot pr(2) by (simp add: cached_def)
      qed
    qed
  qed
qed

lemma default_net_node:
  "rt_node (rts default_net x) \<longleftrightarrow> x = 7" "rt_pcpu (rts default_net 7) = Some (\<lambda>cpu. None)"
  "null_entry default_net = 0" "broadcast_entry default_net = 1" "rcu_nodes default_net = []"
  by (simp_all add: default_net_def nip_fib_add_def before_default_def ninet_route_hash_def nip_addr_hash_def
      nip_any_addr_def Let_def net_example_def init_net_def empty_table_def hash_zero_def
      NIN_ROUTE_HSIZE_def put_table_def blank_rt_def upd_rt_def nip_null_entry_template_def nip_broadcast_entry_template_def)

theorem pol_route_main_witness:
  "\<exists>p net'. nip_pol_route hash_zero 0 (Some 9) (fib_main_tbl default_net) (short_addr 300) default_net = Some (p, net') \<and>
    fib_inv hash_zero net' \<and> copy_of net' p 7 \<and> slot net' 0 7 = Some p \<and> dst_refcnt (rts net' p) = 2"
proof -
  have sl: "slot default_net cpu 7 = None" for cpu by (simp add: slot_def default_net_node)
  have "pcpu_inv default_net" by (simp add: pcpu_inv_def default_net_node sl)
  moreover have "unused default_net p" if "Some 9 = Some p" for p
    using that by (simp add: unused_def default_net_node sl)
  ultimately show ?thesis
    using pol_route_main [OF default_net_facts(1) _ short_addr_ok [of 300], where new = "Some 9" and cpu = 0]
    by (auto simp: default_net_facts sl copy_of_def)
qed

end
