(* ===== verification/NipAddrconf.thy ===== *)
theory NipAddrconf
  imports NipRoute
begin

text \<open>
  Interface addresses: src/src/linux/net/newip/nip_addrconf.c and nip_addrconf_core.c. The hash
  table ninet_addr_lst and the address lists of the ninet_devs hold numbers of ninet_ifaddr
  entries of the store ifas; one network namespace is modelled. The success of each allocation
  is an argument (the number of the new entry, or None). An address whose bytes cannot be read
  makes the hash, and with it the operation, None.
\<close>

definition NIN_ADDR_HSIZE :: nat where "NIN_ADDR_HSIZE = 16"

abbreviation (input) IFA_F_PERMANENT :: u32 where "IFA_F_PERMANENT \<equiv> 0x80"
abbreviation (input) IFA_F_DEPRECATED :: u32 where "IFA_F_DEPRECATED \<equiv> 0x20"
abbreviation (input) INFINITY_LIFE_TIME :: u32 where "INFINITY_LIFE_TIME \<equiv> 0xFFFFFFFF"

section \<open>Interface addresses\<close>

definition upd_ifa :: "nat \<Rightarrow> (ninet_ifaddr \<Rightarrow> ninet_ifaddr) \<Rightarrow> netns_newip \<Rightarrow> netns_newip" where
  "upd_ifa a f net = net\<lparr>ifas := (ifas net)(a := f (ifas net a))\<rparr>"

definition nin_ifa_hold :: "nat \<Rightarrow> netns_newip \<Rightarrow> netns_newip" where
  "nin_ifa_hold a = upd_ifa a (\<lambda>x. x\<lparr>ifa_refcnt := ifa_refcnt x + 1\<rparr>)"

text \<open>__nin_ifa_put only counts down; nin_ifa_put destroys the entry at zero.\<close>

definition nin_ifa_put_locked :: "nat \<Rightarrow> netns_newip \<Rightarrow> netns_newip" where
  "nin_ifa_put_locked a = upd_ifa a (\<lambda>x. x\<lparr>ifa_refcnt := ifa_refcnt x - 1\<rparr>)"

definition ninet_ifa_finish_destroy :: "nat \<Rightarrow> netns_newip \<Rightarrow> netns_newip" where
  "ninet_ifa_finish_destroy a net =
    nip_rt_put (ifa_rt (ifas net a)) (nin_dev_put (ifa_idev (ifas net a)) net)"

definition nin_ifa_put :: "nat \<Rightarrow> netns_newip \<Rightarrow> netns_newip" where
  "nin_ifa_put a net =
    (let net = upd_ifa a (\<lambda>x. x\<lparr>ifa_refcnt := ifa_refcnt x - 1\<rparr>) net in
     if ifa_refcnt (ifas net a) = 0 then ninet_ifa_finish_destroy a net else net)"

definition nip_link_dev_addr :: "nat \<Rightarrow> nat \<Rightarrow> netns_newip \<Rightarrow> netns_newip" where
  "nip_link_dev_addr i a = upd_idev i (\<lambda>x. x\<lparr>addr_list := addr_list x @ [a]\<rparr>)"

definition ninet_addr_hash :: "hash32 \<Rightarrow> nip_addr \<Rightarrow> nat option" where
  "ninet_addr_hash h32 a = map_option (\<lambda>w. unat (h32 w)) (nip_addr_hash a)"

fun same_addr_loop :: "netns_newip \<Rightarrow> nip_addr \<Rightarrow> nat option \<Rightarrow> nat list \<Rightarrow> bool" where
  "same_addr_loop net addr dev [] = False"
| "same_addr_loop net addr dev (a # c) =
    (if nip_addr_eq (ifa_addr (ifas net a)) addr \<and>
        (dev = None \<or> Some (idev_dev (idevs net (ifa_idev (ifas net a)))) = dev)
     then True else same_addr_loop net addr dev c)"

definition nip_chk_same_addr :: "hash32 \<Rightarrow> netns_newip \<Rightarrow> nip_addr \<Rightarrow> nat option \<Rightarrow> bool option" where
  "nip_chk_same_addr h32 net addr dev =
    map_option (\<lambda>h. same_addr_loop net addr dev (addr_lst net ! h)) (ninet_addr_hash h32 addr)"

text \<open>nip_add_addr: the new entry with two references, one of them the list's; on an error the
  reference to the ninet_dev is given back.\<close>

definition nip_add_addr ::
  "hash32 \<Rightarrow> nat option \<Rightarrow> rt_id option \<Rightarrow> bool \<Rightarrow> nat \<Rightarrow> nip_addr \<Rightarrow> u32 \<Rightarrow> u32 \<Rightarrow> u32 \<Rightarrow> netns_newip
     \<Rightarrow> (nat result \<times> netns_newip) option" where
  "nip_add_addr h32 new new_rt pcpu_ok i addr flags valid_lft preferred_lft net =
    (let net = nin_dev_hold i net;
         fail = (\<lambda>err net. Some (Inl err, nin_dev_put i net)) in
     if idev_dead (idevs net i) then fail (- ENODEV) net
     else if \<not> dev_running (devs net (idev_dev (idevs net i))) then fail (- ENODEV) net
     else if cnf_disable_nip (idevs net i) then fail (- EACCES) net
     else case nip_chk_same_addr h32 net addr (Some (idev_dev (idevs net i))) of
         None \<Rightarrow> None
       | Some True \<Rightarrow> fail (- EEXIST) net
       | Some False \<Rightarrow>
         (case new of None \<Rightarrow> fail (- ENOBUFS) net
          | Some a \<Rightarrow>
            (case nip_addrconf_dst_alloc new_rt pcpu_ok i addr net of
               (Inl err, net) \<Rightarrow> fail err net
             | (Inr rt, net) \<Rightarrow>
               let net = upd_ifa a (\<lambda>_. \<lparr>ifa_addr = addr, ifa_flags = flags, ifa_valid_lft = valid_lft,
                     ifa_preferred_lft = preferred_lft, ifa_refcnt = 1, ifa_dead = False,
                     ifa_idev = i, ifa_rt = rt\<rparr>) net
               in case ninet_addr_hash h32 addr of None \<Rightarrow> None
                | Some h \<Rightarrow>
                  let net = net\<lparr>addr_lst := (addr_lst net)[h := a # addr_lst net ! h]\<rparr>;
                      net = nin_ifa_hold a (nip_link_dev_addr i a net)
                  in Some (Inr a, net))))"

section \<open>The ninet_dev of a device\<close>

text \<open>The configuration newip_devconf_dflt.\<close>

definition new_idev :: "nat \<Rightarrow> net_device \<Rightarrow> ninet_dev" where
  "new_idev d dev = \<lparr>idev_dev = d, idev_refcnt = 1, idev_dead = False,
     idev_ready = (dev_running dev \<and> dev_link_ready dev), cnf_mtu = dev_mtu dev,
     cnf_disable_nip = False, cnf_ignore_linkdown = False, addr_list = []\<rparr>"

definition nip_add_dev :: "nat option \<Rightarrow> bool \<Rightarrow> nat \<Rightarrow> netns_newip \<Rightarrow> nat result \<times> netns_newip" where
  "nip_add_dev new parms_ok d net =
    (if dev_mtu (devs net d) < of_nat NIP_MIN_MTU then (Inl (- EINVAL), net)
     else case new of None \<Rightarrow> (Inl (- ENOMEM), net)
       | Some i \<Rightarrow>
         if \<not> parms_ok then (Inl (- ENOMEM), net)
         else (Inr i, upd_dev d (\<lambda>x. x\<lparr>nip_ptr := Some i\<rparr>)
                (upd_idev i (\<lambda>_. new_idev d (devs net d)) (dev_hold d net))))"

definition nip_find_idev :: "nat option \<Rightarrow> bool \<Rightarrow> nat \<Rightarrow> netns_newip \<Rightarrow> nat option \<times> netns_newip" where
  "nip_find_idev new parms_ok d net =
    (case nip_ptr (devs net d) of Some i \<Rightarrow> (Some i, net)
     | None \<Rightarrow> (case nip_add_dev new parms_ok d net of (Inl err, net) \<Rightarrow> (None, net)
         | (Inr i, net) \<Rightarrow> (Some i, net)))"

definition nip_addrconf_add_dev :: "nat option \<Rightarrow> bool \<Rightarrow> nat \<Rightarrow> netns_newip \<Rightarrow> nat result \<times> netns_newip" where
  "nip_addrconf_add_dev new parms_ok d net =
    (case nip_find_idev new parms_ok d net of
       (None, net) \<Rightarrow> (Inl (- ENOBUFS), net)
     | (Some i, net) \<Rightarrow> if cnf_disable_nip (idevs net i) then (Inl (- EACCES), net) else (Inr i, net))"

section \<open>Configuring addresses\<close>

text \<open>The kernel's addrconf_timeout_fixup (with HZ) and addrconf_finite_timeout are parameters.\<close>

record lft_ops =
  timeout_fixup :: "u32 \<Rightarrow> 64 word"
  finite_timeout :: "64 word \<Rightarrow> bool"

text \<open>The outcome of the allocations of one ninet_addr_add.\<close>

record addr_allocs =
  al_idev :: "nat option"
  al_parms :: bool
  al_ifa :: "nat option"
  al_rt :: "rt_id option"
  al_pcpu :: bool
  al_node :: bool

definition lft_flags :: "lft_ops \<Rightarrow> u32 \<Rightarrow> u32 \<Rightarrow> u32 \<Rightarrow> u32 \<times> u32 \<times> u32" where
  "lft_flags ops flags preferred_lft valid_lft =
    (let t = timeout_fixup ops valid_lft;
         (valid_lft, flags) = (if finite_timeout ops t then (ucast t, flags) else (valid_lft, or flags IFA_F_PERMANENT));
         t = timeout_fixup ops preferred_lft
     in if finite_timeout ops t
        then (if t = 0 then or flags IFA_F_DEPRECATED else flags, ucast t, valid_lft)
        else (flags, preferred_lft, valid_lft))"

text \<open>The end of ninet_addr_add, once the ninet_dev i is known; the result of nip_ins_rt is not
  looked at.\<close>

definition ninet_addr_add_tail ::
  "hash32 \<Rightarrow> addr_allocs \<Rightarrow> nat \<Rightarrow> nip_addr \<Rightarrow> u32 \<times> u32 \<times> u32 \<Rightarrow> netns_newip \<Rightarrow> (int \<times> netns_newip) option" where
  "ninet_addr_add_tail h32 al i pfx lft net =
    (let (flags, preferred_lft, valid_lft) = lft in
     case nip_add_addr h32 (al_ifa al) (al_rt al) (al_pcpu al) i pfx flags valid_lft preferred_lft net of
       None \<Rightarrow> None
     | Some (Inl err, net) \<Rightarrow> Some (err, net)
     | Some (Inr a, net) \<Rightarrow>
       let net = nin_ifa_put a net in
       (case nip_ins_rt h32 (al_node al) (ifa_rt (ifas net a)) net of None \<Rightarrow> None
        | Some (err, net) \<Rightarrow> Some (0, net)))"

definition ninet_addr_add ::
  "hash32 \<Rightarrow> lft_ops \<Rightarrow> addr_allocs \<Rightarrow> nat \<Rightarrow> nip_addr \<Rightarrow> u32 \<Rightarrow> u32 \<Rightarrow> u32 \<Rightarrow> netns_newip
     \<Rightarrow> (int \<times> netns_newip) option" where
  "ninet_addr_add h32 ops al d pfx flags preferred_lft valid_lft net =
    (if valid_lft = 0 \<or> preferred_lft > valid_lft then Some (- EINVAL, net)
     else if \<not> dev_present (devs net d) then Some (- ENODEV, net)
     else case nip_addrconf_add_dev (al_idev al) (al_parms al) d net of
         (Inl err, net) \<Rightarrow> Some (err, net)
       | (Inr i, net) \<Rightarrow>
         ninet_addr_add_tail h32 al i pfx (lft_flags ops flags preferred_lft valid_lft) net)"

definition nip_del_addr :: "nat \<Rightarrow> netns_newip \<Rightarrow> netns_newip" where
  "nip_del_addr a net =
    (let dead = ifa_dead (ifas net a);
         net = upd_ifa a (\<lambda>x. x\<lparr>ifa_dead := True\<rparr>) net in
     if dead then nin_ifa_put a net
     else
       let net = net\<lparr>addr_lst := map (removeAll a) (addr_lst net)\<rparr>;
           net = upd_idev (ifa_idev (ifas net a)) (\<lambda>x. x\<lparr>addr_list := removeAll a (addr_list x)\<rparr>) net;
           net = nin_ifa_put_locked a net;
           r = ifa_rt (ifas net a);
           net = (if dst_refcnt (rts net r) \<noteq> 0 then snd (nip_del_rt r (dst_hold r net)) else net)
       in nin_ifa_put a net)"

fun addr_find_loop :: "netns_newip \<Rightarrow> nip_addr \<Rightarrow> nat list \<Rightarrow> nat option" where
  "addr_find_loop net pfx [] = None"
| "addr_find_loop net pfx (a # c) =
    (if nip_addr_eq pfx (ifa_addr (ifas net a)) then Some a else addr_find_loop net pfx c)"

definition ninet_addr_del :: "nat \<Rightarrow> nip_addr \<Rightarrow> netns_newip \<Rightarrow> int \<times> netns_newip" where
  "ninet_addr_del d pfx net =
    (if \<not> dev_present (devs net d) then (- ENODEV, net)
     else case nip_ptr (devs net d) of None \<Rightarrow> (- ENXIO, net)
       | Some i \<Rightarrow>
         (case addr_find_loop net pfx (addr_list (idevs net i)) of
            None \<Rightarrow> (- EADDRNOTAVAIL, net)
          | Some a \<Rightarrow> (0, nip_del_addr a (nin_ifa_hold a net))))"

text \<open>The ioctl entry points; ireq is None when copy_from_user fails.\<close>

definition nip_addrconf_ifaddr_check :: "bool \<Rightarrow> (nip_addr \<times> nat) option \<Rightarrow> int" where
  "nip_addrconf_ifaddr_check admin ireq =
    (if \<not> admin then - EPERM
     else case ireq of None \<Rightarrow> - EFAULT
       | Some (addr, d) \<Rightarrow>
         if nip_addr_invalid addr \<noteq> CURRENT_ADDR_VALID then - EFAULT
         else if nip_addr_public addr then - EFAULT
         else 0)"

definition nip_addrconf_add_ifaddr ::
  "hash32 \<Rightarrow> lft_ops \<Rightarrow> addr_allocs \<Rightarrow> bool \<Rightarrow> (nip_addr \<times> nat) option \<Rightarrow> netns_newip
     \<Rightarrow> (int \<times> netns_newip) option" where
  "nip_addrconf_add_ifaddr h32 ops al admin ireq net =
    (let err = nip_addrconf_ifaddr_check admin ireq in
     if err < 0 then Some (err, net)
     else case ireq of None \<Rightarrow> Some (err, net)
       | Some (addr, d) \<Rightarrow>
         ninet_addr_add h32 ops al d addr IFA_F_PERMANENT INFINITY_LIFE_TIME INFINITY_LIFE_TIME net)"

definition nip_addrconf_del_ifaddr ::
  "bool \<Rightarrow> (nip_addr \<times> nat) option \<Rightarrow> netns_newip \<Rightarrow> int \<times> netns_newip" where
  "nip_addrconf_del_ifaddr admin ireq net =
    (let err = nip_addrconf_ifaddr_check admin ireq in
     if err < 0 then (err, net)
     else case ireq of None \<Rightarrow> (err, net)
       | Some (addr, d) \<Rightarrow> ninet_addr_del d addr net)"

section \<open>Source addresses\<close>

definition nip_get_firstaddr :: "nat \<Rightarrow> netns_newip \<Rightarrow> nip_addr result" where
  "nip_get_firstaddr d net =
    (case nip_ptr (devs net d) of None \<Rightarrow> Inl (- EADDRNOTAVAIL)
     | Some i \<Rightarrow> (case addr_list (idevs net i) of [] \<Rightarrow> Inl (- EADDRNOTAVAIL)
         | a # c \<Rightarrow> Inr (ifa_addr (ifas net a))))"

definition nip_dev_get_saddr :: "nat option \<Rightarrow> netns_newip \<Rightarrow> nip_addr result" where
  "nip_dev_get_saddr dev net =
    (case dev of None \<Rightarrow> Inl (- EADDRNOTAVAIL) | Some d \<Rightarrow> nip_get_firstaddr d net)"

text \<open>nip_addrconf_get_ifaddr: is_getaddr is cmd = SIOCGIFADDR, dev the device of the name.\<close>

definition nip_addrconf_get_ifaddr ::
  "bool \<Rightarrow> bool \<Rightarrow> nat option \<Rightarrow> bool \<Rightarrow> netns_newip \<Rightarrow> int \<times> nip_addr option" where
  "nip_addrconf_get_ifaddr copy_in_ok is_getaddr dev copy_out_ok net =
    (if \<not> copy_in_ok then (- EFAULT, None)
     else if \<not> is_getaddr then (- EFAULT, None)
     else case dev of None \<Rightarrow> (- EFAULT, None)
       | Some d \<Rightarrow>
         (case nip_get_firstaddr d net of Inl err \<Rightarrow> (err, None)
          | Inr a \<Rightarrow> if copy_out_ok then (0, Some a) else (- EFAULT, None)))"

section \<open>Device events\<close>

text \<open>Step 3 of nip_addrconf_ifdown: each address moves to the front of del_list and is dead.\<close>

fun del_list_loop :: "nat \<Rightarrow> nat list \<Rightarrow> nat list \<Rightarrow> netns_newip \<Rightarrow> nat list \<times> netns_newip" where
  "del_list_loop i [] del net = (del, net)"
| "del_list_loop i (a # c) del net =
    del_list_loop i c (a # del)
      (upd_ifa a (\<lambda>x. x\<lparr>ifa_dead := True\<rparr>)
        (upd_idev i (\<lambda>x. x\<lparr>addr_list := removeAll a (addr_list x)\<rparr>) net))"

text \<open>Step 4.\<close>

fun put_loop :: "nat list \<Rightarrow> netns_newip \<Rightarrow> netns_newip" where
  "put_loop [] net = net"
| "put_loop (a # c) net = put_loop c (nin_ifa_put a net)"

text \<open>Step 2: the entries of the ninet_dev leave the hash table.\<close>

fun hash_clear_loop :: "nat \<Rightarrow> nat list \<Rightarrow> netns_newip \<Rightarrow> netns_newip" where
  "hash_clear_loop i [] net = net"
| "hash_clear_loop i (h # hs) net = hash_clear_loop i hs
    (net\<lparr>addr_lst := (addr_lst net)[h := filter (\<lambda>a. ifa_idev (ifas net a) \<noteq> i) (addr_lst net ! h)]\<rparr>)"

definition nip_addrconf_ifdown :: "nat \<Rightarrow> bool \<Rightarrow> netns_newip \<Rightarrow> int \<times> netns_newip" where
  "nip_addrconf_ifdown d unregister net =
    (let idev = nip_ptr (devs net d); net = nip_rt_ifdown (Some d) net in
     case idev of None \<Rightarrow> (- ENODEV, net)
     | Some i \<Rightarrow>
       let net = (if unregister
             then upd_dev d (\<lambda>x. x\<lparr>nip_ptr := None\<rparr>) (upd_idev i (\<lambda>x. x\<lparr>idev_dead := True\<rparr>) net)
             else net);
           net = hash_clear_loop i [0 ..< NIN_ADDR_HSIZE] net;
           net = (if \<not> unregister then upd_idev i (\<lambda>x. x\<lparr>idev_ready := False\<rparr>) net else net);
           (del, net) = del_list_loop i (addr_list (idevs net i)) [] net;
           net = put_loop del net
       in (0, if unregister then nin_dev_put i net else net))"

datatype notify_ret = NOTIFY_OK | NOTIFY_ERRNO int    \<comment> \<open>notifier_from_errno\<close>

text \<open>The end of the NETDEV_UP and NETDEV_CHANGE cases, for a ninet_dev.\<close>

definition notify_refresh :: "nat \<Rightarrow> nat \<Rightarrow> netns_newip \<Rightarrow> netns_newip" where
  "notify_refresh d i net =
    (let mtu = dev_mtu (devs net d);
         net = (if cnf_mtu (idevs net i) \<noteq> mtu \<and> mtu \<ge> of_nat NIP_MIN_MTU
                then upd_idev i (\<lambda>x. x\<lparr>cnf_mtu := mtu\<rparr>) net else net)
     in if mtu < of_nat NIP_MIN_MTU then snd (nip_addrconf_ifdown d (d \<noteq> loopback_dev net) net) else net)"

text \<open>The cases NETDEV_UP and NETDEV_CHANGE; idev is the pointer, an error pointer is None in
  the part after nip_add_dev, which treats both alike.\<close>

definition notify_up_change ::
  "nat option \<Rightarrow> bool \<Rightarrow> netdev_event \<Rightarrow> nat \<Rightarrow> nat option \<Rightarrow> netns_newip \<Rightarrow> netns_newip" where
  "notify_up_change new parms_ok event d idev net =
    (let dev = devs net d;
         ready = (\<lambda>i net. upd_idev i (\<lambda>x. x\<lparr>idev_ready := True\<rparr>) net);
         refresh = (\<lambda>idev net. case idev of None \<Rightarrow> net | Some i \<Rightarrow> notify_refresh d i net) in
     if dev_slave dev then net
     else if (case idev of None \<Rightarrow> False | Some i \<Rightarrow> cnf_disable_nip (idevs net i)) then net
     else if event = NETDEV_UP then
       (if \<not> dev_link_ready dev then net
        else
          let (idev, net) =
            (if idev = None \<and> dev_mtu dev \<ge> of_nat NIP_MIN_MTU
             then (case nip_add_dev new parms_ok d net of (Inl err, net) \<Rightarrow> (None, net) | (Inr i, net) \<Rightarrow> (Some i, net))
             else (idev, net))
          in refresh idev (opt_do ready idev net))
     else if event = NETDEV_CHANGE then
       (if \<not> dev_link_ready dev then net else refresh idev (opt_do ready idev net))
     else refresh idev net)"

definition nip_addrconf_notify ::
  "nat option \<Rightarrow> bool \<Rightarrow> netdev_event \<Rightarrow> nat \<Rightarrow> netns_newip \<Rightarrow> notify_ret \<times> netns_newip" where
  "nip_addrconf_notify new parms_ok event d net =
    (let idev = nip_ptr (devs net d); mtu = dev_mtu (devs net d) in
     case event of
       NETDEV_REGISTER \<Rightarrow>
         if idev = None \<and> mtu \<ge> of_nat NIP_MIN_MTU then
           (case nip_add_dev new parms_ok d net of
              (Inl err, net) \<Rightarrow> (NOTIFY_ERRNO err, net) | (Inr i, net) \<Rightarrow> (NOTIFY_OK, net))
         else (NOTIFY_OK, net)
     | NETDEV_CHANGEMTU \<Rightarrow>
         if mtu < of_nat NIP_MIN_MTU then (NOTIFY_OK, snd (nip_addrconf_ifdown d (d \<noteq> loopback_dev net) net))
         else (case idev of
             Some i \<Rightarrow> (NOTIFY_OK, upd_idev i (\<lambda>x. x\<lparr>cnf_mtu := mtu\<rparr>) net)
           | None \<Rightarrow>
             (case nip_add_dev new parms_ok d net of
                (Inl err, net) \<Rightarrow> (NOTIFY_OK, net)
              | (Inr i, net) \<Rightarrow>
                if \<not> idev_ready (idevs net i) then (NOTIFY_OK, net)
                else (NOTIFY_OK, notify_up_change new parms_ok event d (Some i) net)))
     | NETDEV_UP \<Rightarrow> (NOTIFY_OK, notify_up_change new parms_ok event d idev net)
     | NETDEV_CHANGE \<Rightarrow> (NOTIFY_OK, notify_up_change new parms_ok event d idev net)
     | NETDEV_DOWN \<Rightarrow> (NOTIFY_OK, snd (nip_addrconf_ifdown d False net))
     | NETDEV_UNREGISTER \<Rightarrow> (NOTIFY_OK, snd (nip_addrconf_ifdown d True net))
     | NETDEV_EVENT_OTHER \<Rightarrow> (NOTIFY_OK, net))"

text \<open>nip_addrconf_cleanup: every device with a ninet_dev is taken down.\<close>

fun nip_addrconf_cleanup :: "nat list \<Rightarrow> netns_newip \<Rightarrow> netns_newip" where
  "nip_addrconf_cleanup [] net = net"
| "nip_addrconf_cleanup (d # ds) net = nip_addrconf_cleanup ds
    (if nip_ptr (devs net d) = None then net else snd (nip_addrconf_ifdown d True net))"

section \<open>Printing an address\<close>

text \<open>A C buffer; writes beyond its end are None.\<close>

fun buf_put :: "char list \<Rightarrow> nat \<Rightarrow> char list \<Rightarrow> char list option" where
  "buf_put buf i [] = Some buf"
| "buf_put buf i (c # cs) = (if i < length buf then buf_put (buf[i := c]) (i + 1) cs else None)"

text \<open>sprintf writes the text and a terminating zero.\<close>

definition sprintf_at :: "char list \<Rightarrow> nat \<Rightarrow> string \<Rightarrow> (nat \<times> char list) option" where
  "sprintf_at buf i s = map_option (\<lambda>b. (length s, b)) (buf_put buf i (s @ [CHR 0x00]))"

definition hex02 :: "u8 \<Rightarrow> string" where
  "hex02 b = [''0123456789abcdef'' ! (unat b div 16), ''0123456789abcdef'' ! (unat b mod 16)]"

fun addr_str_loop :: "nip_addr \<Rightarrow> nat \<Rightarrow> nat list \<Rightarrow> nat \<Rightarrow> char list \<Rightarrow> char list option" where
  "addr_str_loop addr buf_len [] total_len buf = Some buf"
| "addr_str_loop addr buf_len (i # is) total_len buf =
    (if total_len < buf_len then
       if i < length (field8 addr) then
         (case sprintf_at buf total_len (hex02 (field8 addr ! i)) of None \<Rightarrow> None
          | Some (len, buf) \<Rightarrow> addr_str_loop addr buf_len is (total_len + len) buf)
       else None
     else Some buf)"

definition mask_positions :: "nat \<Rightarrow> nat list" where
  "mask_positions addr_num =
    (if addr_num = 1 then [2] else if addr_num = 2 then [2, 3] else if addr_num = 3 then [4, 5]
     else if addr_num = 5 then [4, 5, 6, 7] else if addr_num = 7 then [4, 5, 6, 7]
     else if addr_num = 8 then [4, 5, 6, 7, 8, 9] else [])"

fun mask_loop :: "nat list \<Rightarrow> char list \<Rightarrow> char list option" where
  "mask_loop [] buf = Some buf"
| "mask_loop (i # is) buf = (if i < length buf then mask_loop is (buf[i := CHR ''*'']) else None)"

definition nip_addr_to_str :: "nip_addr \<Rightarrow> char list \<Rightarrow> nat \<Rightarrow> char list option" where
  "nip_addr_to_str addr buf buf_len =
    (let addr_num = unat (bitlen addr) div 8 in
     case sprintf_at buf 0 ''0x'' of None \<Rightarrow> None
     | Some (total_len, buf) \<Rightarrow>
       (case addr_str_loop addr buf_len [0 ..< addr_num] total_len buf of None \<Rightarrow> None
        | Some buf \<Rightarrow> mask_loop (mask_positions addr_num) buf))"

section \<open>The address tables\<close>

text \<open>
  The invariant of the addresses, over the store of entries, the hash table and the address
  lists: every address hangs in the chain of its hash and in the list of its ninet_dev, once;
  it is alive and referenced by that list; no ninet_dev has an address twice.
\<close>

definition addrs_inv ::
  "hash32 \<Rightarrow> (nat \<Rightarrow> ninet_ifaddr) \<Rightarrow> nat list list \<Rightarrow> (nat \<Rightarrow> nat list) \<Rightarrow> bool" where
  "addrs_inv h32 st lst al \<longleftrightarrow>
     heads_inv h32 (\<lambda>a. ifa_addr (st a)) lst \<and>
     (\<forall>a. a \<in> set (concat lst) \<longleftrightarrow> a \<in> set (al (ifa_idev (st a)))) \<and>
     (\<forall>i. distinct (al i)) \<and>
     (\<forall>i. \<forall>a \<in> set (al i). ifa_idev (st a) = i \<and> \<not> ifa_dead (st a) \<and> ifa_refcnt (st a) = 1) \<and>
     (\<forall>i. \<forall>a \<in> set (al i). \<forall>b \<in> set (al i). nip_addr_eq (ifa_addr (st a)) (ifa_addr (st b)) \<longrightarrow> a = b)"

definition addr_inv :: "hash32 \<Rightarrow> netns_newip \<Rightarrow> bool" where
  "addr_inv h32 net \<longleftrightarrow> addrs_inv h32 (ifas net) (addr_lst net) (\<lambda>i. addr_list (idevs net i))"

lemma addrs_invD:
  assumes "addrs_inv h32 st lst al"
  shows "heads_inv h32 (\<lambda>a. ifa_addr (st a)) lst"
    "a \<in> set (concat lst) \<longleftrightarrow> a \<in> set (al (ifa_idev (st a)))"
    "distinct (al i)"
    "a \<in> set (al i) \<Longrightarrow> ifa_idev (st a) = i"
    "a \<in> set (al i) \<Longrightarrow> \<not> ifa_dead (st a)"
    "a \<in> set (al i) \<Longrightarrow> ifa_refcnt (st a) = 1"
    "a \<in> set (al i) \<Longrightarrow> b \<in> set (al i) \<Longrightarrow> nip_addr_eq (ifa_addr (st a)) (ifa_addr (st b)) \<Longrightarrow> a = b"
  using assms unfolding addrs_inv_def by blast+

lemma addrs_inv_add:
  assumes i: "addrs_inv h32 st lst al" and a: "a \<notin> set (concat lst)" "a \<notin> set (al i)"
    and x: "hashable (ifa_addr x)" "ifa_idev x = i" "\<not> ifa_dead x" "ifa_refcnt x = 1"
    and new: "\<And>b. b \<in> set (al i) \<Longrightarrow> \<not> nip_addr_eq (ifa_addr (st b)) (ifa_addr x)"
  defines "h \<equiv> bucket h32 (ifa_addr x)"
  shows "addrs_inv h32 (st(a := x)) (lst[h := a # lst ! h]) (al(i := al i @ [a]))"
proof -
  have hb: "h < NIN_ROUTE_HSIZE" using hashable_hash(2) [OF x(1)] by (simp add: h_def)
  have len: "length lst = NIN_ROUTE_HSIZE" using addrs_invD(1) [OF i] by (simp add: heads_inv_def)
  have out: "a \<notin> set (al k)" for k
  proof
    assume k: "a \<in> set (al k)"
    then have "ifa_idev (st a) = k" by (rule addrs_invD(4) [OF i])
    then show False using k a(1) addrs_invD(2) [OF i, of a] by simp
  qed
  have inlst: "b \<in> set (concat (lst[h := a # lst ! h])) \<longleftrightarrow> b = a \<or> b \<in> set (concat lst)" for b
  proof -
    have "(\<exists>k < length lst. b \<in> set (lst[h := a # lst ! h] ! k)) \<longleftrightarrow> b = a \<or> (\<exists>k < length lst. b \<in> set (lst ! k))"
      using hb len by (auto simp: nth_list_update)
    then show ?thesis unfolding in_concat_nth by simp
  qed
  have "heads_inv h32 (\<lambda>b. ifa_addr ((st(a := x)) b)) (lst[h := a # lst ! h])"
  proof -
    have "a \<notin> set (lst ! k)" if "k < NIN_ROUTE_HSIZE" for k using a(1) len that unfolding in_concat_nth by auto
    then show ?thesis
      using addrs_invD(1) [OF i] x(1) hb unfolding heads_inv_def
      by (auto simp: nth_list_update h_def)
  qed
  moreover have "b \<in> set (concat (lst[h := a # lst ! h])) \<longleftrightarrow>
      b \<in> set ((al(i := al i @ [a])) (ifa_idev ((st(a := x)) b)))" for b
    unfolding inlst using addrs_invD(2) [OF i, of b] x(2) by (cases "b = a") (auto simp del: set_concat)
  moreover have "nip_addr_eq (ifa_addr x) (ifa_addr (st b)) = nip_addr_eq (ifa_addr (st b)) (ifa_addr x)" for b
    by (auto intro: nip_addr_eq_sym)
  ultimately show ?thesis
    unfolding addrs_inv_def
    using out x new addrs_invD(3-7) [OF i] by (auto split: if_splits simp del: set_concat)
qed

lemma addrs_inv_del:
  assumes i: "addrs_inv h32 st lst al" and a: "a \<in> set (al i)" and st: "\<And>b. b \<noteq> a \<Longrightarrow> st' b = st b"
  shows "addrs_inv h32 st' (map (removeAll a) lst) (al(i := removeAll a (al i)))"
proof -
  have len: "length lst = NIN_ROUTE_HSIZE" using addrs_invD(1) [OF i] by (simp add: heads_inv_def)
  have inlst: "b \<in> set (concat (map (removeAll a) lst)) \<longleftrightarrow> b \<noteq> a \<and> b \<in> set (concat lst)" for b by auto
  have out: "a \<in> set (al k) \<Longrightarrow> k = i" for k using addrs_invD(4) [OF i] a by metis
  have "heads_inv h32 (\<lambda>b. ifa_addr (st' b)) (map (removeAll a) lst)"
    using addrs_invD(1) [OF i] len st unfolding heads_inv_def by (auto simp: distinct_removeAll)
  moreover have "b \<in> set (concat (map (removeAll a) lst)) \<longleftrightarrow>
      b \<in> set ((al(i := removeAll a (al i))) (ifa_idev (st' b)))" for b
    unfolding inlst using addrs_invD(2) [OF i, of b] st [of b] out by (cases "b = a") (auto simp del: set_concat)
  moreover have "distinct ((al(i := removeAll a (al i))) k)" for k
    using addrs_invD(3) [OF i] by (simp add: distinct_removeAll)
  moreover have "b \<in> set ((al(i := removeAll a (al i))) k) \<Longrightarrow> b \<in> set (al k) \<and> st' b = st b" for b k
    using st [of b] out by (cases "b = a") (auto split: if_splits)
  ultimately show ?thesis
    unfolding addrs_inv_def using addrs_invD(4-7) [OF i] by (metis (no_types, lifting))
qed

lemma addrs_inv_clear:
  assumes i: "addrs_inv h32 st lst al" and st: "\<And>b. b \<notin> set (al i) \<Longrightarrow> st' b = st b"
    "\<And>b. ifa_idev (st' b) = ifa_idev (st b)"
  shows "addrs_inv h32 st' (map (filter (\<lambda>b. ifa_idev (st b) \<noteq> i)) lst) (al(i := []))"
proof -
  have len: "length lst = NIN_ROUTE_HSIZE" using addrs_invD(1) [OF i] by (simp add: heads_inv_def)
  have inlst: "b \<in> set (concat (map (filter (\<lambda>b. ifa_idev (st b) \<noteq> i)) lst)) \<longleftrightarrow> ifa_idev (st b) \<noteq> i \<and> b \<in> set (concat lst)" for b
    by auto
  have out: "b \<in> set (al k) \<Longrightarrow> k \<noteq> i \<Longrightarrow> st' b = st b" for b k using addrs_invD(4) [OF i] st(1) by metis
  have out': "ifa_idev (st b) \<noteq> i \<Longrightarrow> st' b = st b" for b using addrs_invD(4) [OF i] st(1) by metis
  have "heads_inv h32 (\<lambda>b. ifa_addr (st' b)) (map (filter (\<lambda>b. ifa_idev (st b) \<noteq> i)) lst)"
    using addrs_invD(1) [OF i] len out' unfolding heads_inv_def by auto
  moreover have "b \<in> set (concat (map (filter (\<lambda>b. ifa_idev (st b) \<noteq> i)) lst)) \<longleftrightarrow>
      b \<in> set ((al(i := [])) (ifa_idev (st' b)))" for b
    unfolding inlst st(2) using addrs_invD(2) [OF i, of b] by auto
  moreover have "distinct ((al(i := [])) k)" for k using addrs_invD(3) [OF i] by simp
  moreover have "b \<in> set ((al(i := [])) k) \<Longrightarrow> b \<in> set (al k) \<and> st' b = st b" for b k
    using out by (auto split: if_splits)
  ultimately show ?thesis
    unfolding addrs_inv_def using addrs_invD(4-7) [OF i] by (metis (no_types, lifting))
qed

section \<open>What the operations leave alone\<close>

text \<open>same_addrs: no address table, no ninet_dev and no device attachment changed (only counts of
  the devices and the routes may have).\<close>

definition same_addrs :: "netns_newip \<Rightarrow> netns_newip \<Rightarrow> bool" where
  "same_addrs net net' \<longleftrightarrow> ifas net' = ifas net \<and> addr_lst net' = addr_lst net \<and> idevs net' = idevs net \<and>
     (\<forall>d. nip_ptr (devs net' d) = nip_ptr (devs net d)) \<and> loopback_dev net' = loopback_dev net"

lemma same_addrs_refl [simp]: "same_addrs net net"
  by (simp add: same_addrs_def)

lemma same_addrs_trans: "same_addrs a b \<Longrightarrow> same_addrs b c \<Longrightarrow> same_addrs a c"
  by (simp add: same_addrs_def)

lemma same_addrs_upd [simp]:
  "same_addrs net (upd_rt r f net)" "same_addrs net (dst_hold r net)" "same_addrs net (dst_release r net)"
  "same_addrs net (nip_rt_put r net)"
  by (simp_all add: same_addrs_def dst_hold_def dst_release_def nip_rt_put_def upd_rt_def)

lemma same_addrs_fib_add:
  "nip_fib_add h32 ok t r net = Some (err, net') \<Longrightarrow> same_addrs net net'"
  by (auto simp: nip_fib_add_def dst_release_def same_addrs_def upd_rt_def put_table_def Let_def
      split: option.splits if_splits)

lemma same_addrs_fib_del: "same_addrs net (snd (nip_fib_del r net))"
  by (simp add: nip_fib_del_def same_addrs_def upd_rt_def Let_def)

lemma same_addrs_del_rt: "same_addrs net (snd (nip_del_rt r net))"
proof -
  have "same_addrs net (snd (if r = null_entry net then (- ENOENT, net) else nip_fib_del r net))"
    by (simp add: same_addrs_fib_del)
  then show ?thesis
    unfolding nip_del_rt_def by (auto simp: case_prod_beta Let_def intro: same_addrs_trans)
qed

lemma same_addrs_clean_chain: "same_addrs net (clean_chain f c net)"
  by (induction c arbitrary: net) (auto intro: same_addrs_trans same_addrs_fib_del)

lemma same_addrs_clean_heads: "same_addrs net (clean_heads tbl f idx net)"
  by (induction idx arbitrary: net) (auto intro: same_addrs_trans same_addrs_clean_chain)

lemma same_addrs_rt_ifdown: "same_addrs net (nip_rt_ifdown dev net)"
  unfolding nip_rt_ifdown_def nip_fib_clean_all_def nip_fib_clean_hash_def
  by (rule same_addrs_trans [OF same_addrs_clean_heads same_addrs_clean_heads])

lemma same_addrs_inv: "same_addrs net net' \<Longrightarrow> addr_inv h32 net' = addr_inv h32 net"
  by (simp add: same_addrs_def addr_inv_def)

lemma same_addrs_ins_rt:
  assumes "nip_ins_rt h32 ok r net = Some (err, net')"
  shows "same_addrs net net'"
proof -
  obtain t where "nip_fib_add h32 ok t r (dst_hold r net) = Some (err, net')"
    using assms unfolding nip_ins_rt_def nip_ins_rt_locked_def by (auto split: option.splits)
  then show ?thesis by (rule same_addrs_trans [OF same_addrs_upd(2) same_addrs_fib_add])
qed

section \<open>The loops of nip_addrconf_ifdown\<close>

lemma hash_clear_step:
  "hash_clear_loop i (hs @ [h]) net =
    (let net = hash_clear_loop i hs net in
     net\<lparr>addr_lst := (addr_lst net)[h := filter (\<lambda>a. ifa_idev (ifas net a) \<noteq> i) (addr_lst net ! h)]\<rparr>)"
  by (induction hs arbitrary: net) (simp_all add: Let_def)

lemma hash_clear_loop_upto:
  "n \<le> length (addr_lst net) \<Longrightarrow> hash_clear_loop i [0 ..< n] net =
    net\<lparr>addr_lst := map (filter (\<lambda>a. ifa_idev (ifas net a) \<noteq> i)) (take n (addr_lst net)) @ drop n (addr_lst net)\<rparr>"
proof (induction n)
  case (Suc n)
  let ?f = "filter (\<lambda>a. ifa_idev (ifas net a) \<noteq> i)"
  have d: "drop n (addr_lst net) = addr_lst net ! n # drop (Suc n) (addr_lst net)"
    using Suc.prems by (simp add: Cons_nth_drop_Suc)
  have "hash_clear_loop i [0 ..< Suc n] net = net\<lparr>addr_lst :=
      (map ?f (take n (addr_lst net)) @ drop n (addr_lst net))[n :=
        ?f ((map ?f (take n (addr_lst net)) @ drop n (addr_lst net)) ! n)]\<rparr>"
    using Suc by (simp add: hash_clear_step Let_def)
  also have "\<dots> = net\<lparr>addr_lst := map ?f (take (Suc n) (addr_lst net)) @ drop (Suc n) (addr_lst net)\<rparr>"
    using Suc.prems d by (simp add: take_Suc_conv_app_nth list_update_append nth_append)
  finally show ?case .
qed simp

lemma hash_clear_all:
  "length (addr_lst net) = NIN_ADDR_HSIZE \<Longrightarrow> hash_clear_loop i [0 ..< NIN_ADDR_HSIZE] net =
    net\<lparr>addr_lst := map (filter (\<lambda>a. ifa_idev (ifas net a) \<noteq> i)) (addr_lst net)\<rparr>"
  using hash_clear_loop_upto [of NIN_ADDR_HSIZE net i] by simp

lemma del_list_loop_eq:
  "del_list_loop i c del net = (rev c @ del, net\<lparr>
     ifas := (\<lambda>b. if b \<in> set c then (ifas net b)\<lparr>ifa_dead := True\<rparr> else ifas net b),
     idevs := (idevs net)(i := (idevs net i)\<lparr>addr_list := filter (\<lambda>b. b \<notin> set c) (addr_list (idevs net i))\<rparr>)\<rparr>)"
proof (induction c arbitrary: del net)
  case (Cons a c)
  have f: "filter (\<lambda>b. b \<notin> set c) (removeAll a xs) = filter (\<lambda>b. b \<noteq> a \<and> b \<notin> set c) xs" for xs :: "nat list"
    by (induction xs) auto
  show ?case by (simp add: Cons upd_ifa_def upd_idev_def f fun_eq_iff)
qed (simp add: fun_upd_idem)

lemma dev_put_facts [simp]:
  "ifas (dev_put d net) = ifas net" "addr_lst (dev_put d net) = addr_lst net" "idevs (dev_put d net) = idevs net"
  "nip_ptr (devs (dev_put d net) e) = nip_ptr (devs net e)" "loopback_dev (dev_put d net) = loopback_dev net"
  "rts (dev_put d net) = rts net"
  by (simp_all add: dev_put_def upd_dev_def)

lemma nin_dev_put_facts [simp]:
  "ifas (nin_dev_put i net) = ifas net" "addr_lst (nin_dev_put i net) = addr_lst net"
  "idevs (nin_dev_put i net) = (idevs net)(i := (idevs net i)\<lparr>idev_refcnt := idev_refcnt (idevs net i) - 1\<rparr>)"
  "nip_ptr (devs (nin_dev_put i net) e) = nip_ptr (devs net e)" "loopback_dev (nin_dev_put i net) = loopback_dev net"
  "rts (nin_dev_put i net) = rts net"
  by (simp_all add: nin_dev_put_def upd_idev_def Let_def)

lemma rt_put_facts [simp]:
  "ifas (nip_rt_put r net) = ifas net" "addr_lst (nip_rt_put r net) = addr_lst net" "idevs (nip_rt_put r net) = idevs net"
  "devs (nip_rt_put r net) = devs net" "loopback_dev (nip_rt_put r net) = loopback_dev net"
  by (simp_all add: nip_rt_put_def dst_release_def upd_rt_def)

text \<open>The last reference to an address gives back one reference to its ninet_dev.\<close>

lemma nin_ifa_put_last:
  assumes "ifa_refcnt (ifas net a) = 1"
  defines "i \<equiv> ifa_idev (ifas net a)"
  shows "ifas (nin_ifa_put a net) = (ifas net)(a := (ifas net a)\<lparr>ifa_refcnt := 0\<rparr>)"
    "addr_lst (nin_ifa_put a net) = addr_lst net"
    "idevs (nin_ifa_put a net) = (idevs net)(i := (idevs net i)\<lparr>idev_refcnt := idev_refcnt (idevs net i) - 1\<rparr>)"
    "nip_ptr (devs (nin_ifa_put a net) e) = nip_ptr (devs net e)"
    "loopback_dev (nin_ifa_put a net) = loopback_dev net"
  using assms by (simp_all add: nin_ifa_put_def upd_ifa_def ninet_ifa_finish_destroy_def Let_def)

lemma put_loop_eq:
  assumes "distinct c" "\<And>a. a \<in> set c \<Longrightarrow> ifa_refcnt (ifas net a) = 1 \<and> ifa_idev (ifas net a) = i"
  shows "ifas (put_loop c net) = (\<lambda>b. if b \<in> set c then (ifas net b)\<lparr>ifa_refcnt := 0\<rparr> else ifas net b) \<and>
    addr_lst (put_loop c net) = addr_lst net \<and>
    idevs (put_loop c net) = (idevs net)(i := (idevs net i)\<lparr>idev_refcnt := idev_refcnt (idevs net i) - int (length c)\<rparr>) \<and>
    (\<forall>e. nip_ptr (devs (put_loop c net) e) = nip_ptr (devs net e)) \<and>
    loopback_dev (put_loop c net) = loopback_dev net"
  using assms
proof (induction c arbitrary: net)
  case (Cons a c)
  let ?n = "nin_ifa_put a net"
  have a: "ifa_refcnt (ifas net a) = 1" "ifa_idev (ifas net a) = i" using Cons.prems by auto
  note f = nin_ifa_put_last [OF a(1)]
  have c: "distinct c" "\<And>b. b \<in> set c \<Longrightarrow> ifa_refcnt (ifas ?n b) = 1 \<and> ifa_idev (ifas ?n b) = i"
    using Cons.prems by (auto simp: f)
  show ?case
    using Cons.IH [OF c] Cons.prems(1) by (auto simp: f a(2) fun_eq_iff)
qed (simp add: fun_upd_idem)

lemmas put_loop_facts = put_loop_eq [THEN conjunct1] put_loop_eq [THEN conjunct2, THEN conjunct1]
  put_loop_eq [THEN conjunct2, THEN conjunct2, THEN conjunct1]
  put_loop_eq [THEN conjunct2, THEN conjunct2, THEN conjunct2, THEN conjunct1, rule_format]
  put_loop_eq [THEN conjunct2, THEN conjunct2, THEN conjunct2, THEN conjunct2]

section \<open>Taking a device down\<close>

lemma addrconf_ifdown_facts:
  assumes inv: "addr_inv h32 net" and d: "nip_ptr (devs net d) = Some i"
  obtains net' where "nip_addrconf_ifdown d unregister net = (0, net')"
    "ifas net' = (\<lambda>a. if a \<in> set (addr_list (idevs net i)) then (ifas net a)\<lparr>ifa_dead := True, ifa_refcnt := 0\<rparr> else ifas net a)"
    "addr_lst net' = map (filter (\<lambda>a. ifa_idev (ifas net a) \<noteq> i)) (addr_lst net)"
    "idevs net' = (idevs net)(i := (idevs net i)\<lparr>idev_dead := unregister \<or> idev_dead (idevs net i),
       idev_ready := unregister \<and> idev_ready (idevs net i), addr_list := [],
       idev_refcnt := idev_refcnt (idevs net i) - int (length (addr_list (idevs net i))) - of_bool unregister\<rparr>)"
    "\<And>e. nip_ptr (devs net' e) = (if unregister \<and> e = d then None else nip_ptr (devs net e))"
    "loopback_dev net' = loopback_dev net"
proof -
  let ?c = "addr_list (idevs net i)"
  define n0 where "n0 = (nip_rt_ifdown (Some d) net)"
  define n1 where "n1 = (if unregister then upd_dev d (\<lambda>x. x\<lparr>nip_ptr := None\<rparr>) (upd_idev i (\<lambda>x. x\<lparr>idev_dead := True\<rparr>) n0) else n0)"
  define n2 where "n2 = (hash_clear_loop i [0 ..< NIN_ADDR_HSIZE] n1)"
  define n3 where "n3 = (if \<not> unregister then upd_idev i (\<lambda>x. x\<lparr>idev_ready := False\<rparr>) n2 else n2)"
  define n4 where "n4 = (snd (del_list_loop i ?c [] n3))"
  define n5 where "n5 = (put_loop (rev ?c) n4)"
  define res where "res = (if unregister then nin_dev_put i n5 else n5)"
  have s0: "ifas n0 = ifas net" "addr_lst n0 = addr_lst net" "idevs n0 = idevs net"
    "nip_ptr (devs n0 e) = nip_ptr (devs net e)" "loopback_dev n0 = loopback_dev net" for e
    using same_addrs_rt_ifdown [of net "Some d"] unfolding n0_def by (simp_all add: same_addrs_def)
  have i: "addrs_inv h32 (ifas net) (addr_lst net) (\<lambda>k. addr_list (idevs net k))"
    using inv by (simp add: addr_inv_def)
  have f1: "ifas n1 = ifas net" "addr_lst n1 = addr_lst net"
    "idevs n1 = (idevs net)(i := (idevs net i)\<lparr>idev_dead := unregister \<or> idev_dead (idevs net i)\<rparr>)"
    "nip_ptr (devs n1 e) = (if unregister \<and> e = d then None else nip_ptr (devs net e))"
    "loopback_dev n1 = loopback_dev net" for e
    using s0 unfolding n1_def by (auto simp: upd_dev_def upd_idev_def)
  have len: "length (addr_lst n1) = NIN_ADDR_HSIZE"
    using addrs_invD(1) [OF i] by (simp add: f1(2) heads_inv_def NIN_ADDR_HSIZE_def NIN_ROUTE_HSIZE_def)
  have f3: "ifas n3 = ifas net" "addr_lst n3 = map (filter (\<lambda>a. ifa_idev (ifas net a) \<noteq> i)) (addr_lst net)"
    "idevs n3 = (idevs net)(i := (idevs net i)\<lparr>idev_dead := unregister \<or> idev_dead (idevs net i),
       idev_ready := unregister \<and> idev_ready (idevs net i)\<rparr>)"
    "devs n3 = devs n1" "loopback_dev n3 = loopback_dev net"
    unfolding n3_def n2_def hash_clear_all [OF len] using f1 by (auto simp: upd_idev_def)
  have al: "addr_list (idevs n3 i) = ?c" using f3(3) by simp
  have n4: "del_list_loop i (addr_list (idevs n3 i)) [] n3 = (rev ?c, n4)" unfolding al n4_def by (simp add: del_list_loop_eq)
  have f4: "ifas n4 = (\<lambda>b. if b \<in> set ?c then (ifas net b)\<lparr>ifa_dead := True\<rparr> else ifas net b)"
    "addr_lst n4 = addr_lst n3" "devs n4 = devs n1" "loopback_dev n4 = loopback_dev net"
    "idevs n4 = (idevs net)(i := (idevs net i)\<lparr>idev_dead := unregister \<or> idev_dead (idevs net i),
       idev_ready := unregister \<and> idev_ready (idevs net i), addr_list := []\<rparr>)"
    using f3 unfolding n4_def by (simp_all add: del_list_loop_eq cong: if_cong)
  have c: "distinct (rev ?c)" "\<And>a. a \<in> set (rev ?c) \<Longrightarrow> ifa_refcnt (ifas n4 a) = 1 \<and> ifa_idev (ifas n4 a) = i"
    using addrs_invD(3,4,6) [OF i] by (auto simp: f4(1))
  note p = put_loop_facts [OF c, folded n5_def]
  show thesis
  proof (rule that [of res])
    show "nip_addrconf_ifdown d unregister net = (0, res)"
      using d n4 unfolding res_def n5_def n3_def n2_def n1_def n0_def
      by (cases unregister) (simp_all add: nip_addrconf_ifdown_def Let_def)
    show "ifas res = (\<lambda>a. if a \<in> set ?c then (ifas net a)\<lparr>ifa_dead := True, ifa_refcnt := 0\<rparr> else ifas net a)"
      using p(1) by (auto simp: f4(1) fun_eq_iff res_def)
    show "addr_lst res = map (filter (\<lambda>a. ifa_idev (ifas net a) \<noteq> i)) (addr_lst net)"
      using p(2) f3(2) by (simp add: f4(2) res_def)
    show "idevs res = (idevs net)(i := (idevs net i)\<lparr>idev_dead := unregister \<or> idev_dead (idevs net i),
       idev_ready := unregister \<and> idev_ready (idevs net i), addr_list := [],
       idev_refcnt := idev_refcnt (idevs net i) - int (length ?c) - of_bool unregister\<rparr>)"
      using p(3) by (simp add: f4(5) res_def)
    show "nip_ptr (devs res e) = (if unregister \<and> e = d then None else nip_ptr (devs net e))" for e
      using p(4) f1(4) by (simp add: f4(3) res_def)
    show "loopback_dev res = loopback_dev net" using p(5) by (simp add: f4(4) res_def)
  qed
qed

lemma addr_inv_ifdown:
  assumes inv: "addr_inv h32 net" and d: "nip_ptr (devs net d) = Some i"
  shows "addr_inv h32 (snd (nip_addrconf_ifdown d unregister net))"
proof -
  have i: "addrs_inv h32 (ifas net) (addr_lst net) (\<lambda>k. addr_list (idevs net k))"
    using inv by (simp add: addr_inv_def)
  obtain net' where n: "nip_addrconf_ifdown d unregister net = (0, net')"
    "ifas net' = (\<lambda>a. if a \<in> set (addr_list (idevs net i)) then (ifas net a)\<lparr>ifa_dead := True, ifa_refcnt := 0\<rparr> else ifas net a)"
    "addr_lst net' = map (filter (\<lambda>a. ifa_idev (ifas net a) \<noteq> i)) (addr_lst net)"
    "\<And>k. addr_list (idevs net' k) = ((\<lambda>k. addr_list (idevs net k))(i := [])) k"
    by (rule addrconf_ifdown_facts [OF assms, where unregister = unregister]) auto
  have "addrs_inv h32 (ifas net') (addr_lst net') ((\<lambda>k. addr_list (idevs net k))(i := []))"
    unfolding n(3) by (rule addrs_inv_clear [OF i]) (simp_all add: n(2))
  then show ?thesis using n(1,4) by (simp add: addr_inv_def fun_upd_def)
qed

text \<open>nip_addrconf_ifdown on a device with a ninet_dev: all its addresses leave the hash table
  and its list, dead and unreferenced; each gives back one reference to the ninet_dev, and so does
  the device itself when it is unregistered, which then has no ninet_dev; no address of another
  ninet_dev is touched and the invariant of the address tables is kept.\<close>

theorem addrconf_ifdown_correct:
  assumes "addr_inv h32 net" and "nip_ptr (devs net d) = Some i"
  shows "\<exists>net'. nip_addrconf_ifdown d unregister net = (0, net') \<and> addr_inv h32 net' \<and>
    addr_list (idevs net' i) = [] \<and> (\<forall>j. j \<noteq> i \<longrightarrow> idevs net' j = idevs net j) \<and>
    (\<forall>a. ifa_idev (ifas net a) = i \<longrightarrow> a \<notin> set (concat (addr_lst net'))) \<and>
    (\<forall>a. a \<notin> set (addr_list (idevs net i)) \<longrightarrow> ifas net' a = ifas net a) \<and>
    idev_refcnt (idevs net' i)
      = idev_refcnt (idevs net i) - int (length (addr_list (idevs net i))) - of_bool unregister \<and>
    nip_ptr (devs net' d) = (if unregister then None else Some i)"
  using addr_inv_ifdown [OF assms, of unregister]
  by (rule_tac addrconf_ifdown_facts [OF assms, where unregister = unregister]) (auto simp: assms)

section \<open>Adding an address\<close>

lemma ninet_addr_hash_ok: "hashable a \<Longrightarrow> ninet_addr_hash h32 a = Some (bucket h32 a)"
  using hashable_hash(1) [of a h32] by (simp add: ninet_addr_hash_def ninet_route_hash_def)

lemma same_addr_loop_iff:
  "same_addr_loop net addr (Some d) c \<longleftrightarrow>
    (\<exists>a \<in> set c. nip_addr_eq (ifa_addr (ifas net a)) addr \<and> idev_dev (idevs net (ifa_idev (ifas net a))) = d)"
  by (induction c) auto

lemma chk_same_addr:
  assumes "hashable addr"
  shows "nip_chk_same_addr h32 net addr (Some d) = Some (\<exists>a \<in> set (addr_lst net ! bucket h32 addr).
    nip_addr_eq (ifa_addr (ifas net a)) addr \<and> idev_dev (idevs net (ifa_idev (ifas net a))) = d)"
  by (simp add: nip_chk_same_addr_def ninet_addr_hash_ok [OF assms] same_addr_loop_iff)

text \<open>An address of a ninet_dev hangs in the chain the duplicate test walks.\<close>

lemma in_bucket:
  assumes i: "addrs_inv h32 st lst al" and b: "b \<in> set (al i)" and ok: "hashable addr"
    and e: "nip_addr_eq (ifa_addr (st b)) addr"
  shows "b \<in> set (lst ! bucket h32 addr)"
proof -
  have "b \<in> set (concat lst)" using b addrs_invD(2,4) [OF i] by metis
  then obtain k where k: "k < NIN_ROUTE_HSIZE" "b \<in> set (lst ! k)"
    using addrs_invD(1) [OF i] unfolding in_concat_nth heads_inv_def by auto
  then have "hashable (ifa_addr (st b))" "bucket h32 (ifa_addr (st b)) = k"
    using addrs_invD(1) [OF i] unfolding heads_inv_def by auto
  then show ?thesis using k(2) bucket_cong [OF _ ok e] by simp
qed

lemma addrconf_dst_alloc_Inl:
  "nip_addrconf_dst_alloc new pcpu i addr net = (Inl err, net') \<Longrightarrow> err < 0 \<and> same_addrs net net'"
  by (auto simp: nip_addrconf_dst_alloc_def nip_dst_alloc_def nip_dst_alloc_base_def dst_destroy_def opt_do_def
      nip_dst_destroy_def same_addrs_def upd_rt_def upd_dev_def dev_hold_def dev_put_def blank_rt_def
      split: prod.splits option.splits if_splits)

lemma addrconf_dst_alloc_Inr:
  "nip_addrconf_dst_alloc new pcpu i addr net = (Inr r, net') \<Longrightarrow>
    ifas net' = ifas net \<and> addr_lst net' = addr_lst net \<and>
    idevs net' = (idevs net)(i := (idevs net i)\<lparr>idev_refcnt := idev_refcnt (idevs net i) + 1\<rparr>) \<and>
    (\<forall>d. nip_ptr (devs net' d) = nip_ptr (devs net d)) \<and> loopback_dev net' = loopback_dev net \<and>
    rt_dst (rts net' r) = addr \<and> rt_table (rts net' r) = RT_TABLE_LOCAL"
  by (auto simp: nip_addrconf_dst_alloc_def nip_dst_alloc_def nip_dst_alloc_base_def opt_do_def
      upd_rt_def upd_dev_def dev_hold_def nin_dev_hold_def upd_idev_def
      split: prod.splits option.splits if_splits)

lemma same_addrs_hold_put:
  "same_addrs (nin_dev_hold i net) n \<Longrightarrow> same_addrs net (nin_dev_put i n)"
  by (simp add: same_addrs_def nin_dev_hold_def upd_idev_def fun_eq_iff)

lemma nin_ifa_hold_facts [simp]:
  "ifas (nin_ifa_hold a net) = (ifas net)(a := (ifas net a)\<lparr>ifa_refcnt := ifa_refcnt (ifas net a) + 1\<rparr>)"
  "addr_lst (nin_ifa_hold a net) = addr_lst net" "idevs (nin_ifa_hold a net) = idevs net"
  "devs (nin_ifa_hold a net) = devs net" "loopback_dev (nin_ifa_hold a net) = loopback_dev net"
  "rts (nin_ifa_hold a net) = rts net"
  by (simp_all add: nin_ifa_hold_def upd_ifa_def)

lemma nip_add_addr_cases:
  assumes inv: "addr_inv h32 net" and ok: "hashable addr"
  obtains (error) err net' where
    "nip_add_addr h32 new new_rt pcpu i addr flags valid pref net = Some (Inl err, net')" "err < 0" "same_addrs net net'"
  | (added) a x net' where
    "nip_add_addr h32 new new_rt pcpu i addr flags valid pref net = Some (Inr a, net')" "new = Some a"
    "\<And>b. b \<in> set (addr_list (idevs net i)) \<Longrightarrow> \<not> nip_addr_eq (ifa_addr (ifas net b)) addr"
    "ifas net' = (ifas net)(a := x)" "ifa_addr x = addr" "ifa_idev x = i" "\<not> ifa_dead x" "ifa_refcnt x = 2"
    "addr_lst net' = (addr_lst net)[bucket h32 addr := a # addr_lst net ! bucket h32 addr]"
    "idevs net' = (idevs net)(i := (idevs net i)\<lparr>idev_refcnt := idev_refcnt (idevs net i) + 2,
       addr_list := addr_list (idevs net i) @ [a]\<rparr>)"
    "\<And>d. nip_ptr (devs net' d) = nip_ptr (devs net d)" "loopback_dev net' = loopback_dev net"
    "rt_dst (rts net' (ifa_rt x)) = addr" "rt_table (rts net' (ifa_rt x)) = RT_TABLE_LOCAL"
proof -
  let ?A = "nip_add_addr h32 new new_rt pcpu i addr flags valid pref net"
  let ?h = "nin_dev_hold i net"
  have fail: thesis if "?A = Some (Inl err, nin_dev_put i n)" "err < 0" "same_addrs ?h n" for err n
    using error [OF that(1,2) same_addrs_hold_put [OF that(3)]] .
  have h: "ifas ?h = ifas net" "addr_lst ?h = addr_lst net" "devs ?h = devs net" "loopback_dev ?h = loopback_dev net"
    "idevs ?h = (idevs net)(i := (idevs net i)\<lparr>idev_refcnt := idev_refcnt (idevs net i) + 1\<rparr>)"
    by (simp_all add: nin_dev_hold_def upd_idev_def)
  consider "idev_dead (idevs ?h i)" | "\<not> idev_dead (idevs ?h i)" "\<not> dev_running (devs ?h (idev_dev (idevs ?h i)))"
    | "\<not> idev_dead (idevs ?h i)" "dev_running (devs ?h (idev_dev (idevs ?h i)))" "cnf_disable_nip (idevs ?h i)"
    | "\<not> idev_dead (idevs ?h i)" "dev_running (devs ?h (idev_dev (idevs ?h i)))" "\<not> cnf_disable_nip (idevs ?h i)" by blast
  then show thesis
  proof cases
    case 1
    then show thesis using fail [of "- ENODEV" ?h] by (simp add: nip_add_addr_def Let_def)
  next
    case 2
    then show thesis using fail [of "- ENODEV" ?h] by (simp add: nip_add_addr_def Let_def)
  next
    case 3
    then show thesis using fail [of "- EACCES" ?h] by (simp add: nip_add_addr_def Let_def)
  next
    case 4
    define dup where "dup = (\<exists>b \<in> set (addr_lst ?h ! bucket h32 addr). nip_addr_eq (ifa_addr (ifas ?h b)) addr \<and>
      idev_dev (idevs ?h (ifa_idev (ifas ?h b))) = idev_dev (idevs ?h i))"
    have A: "?A = (if dup then Some (Inl (- EEXIST), nin_dev_put i ?h)
      else case new of None \<Rightarrow> Some (Inl (- ENOBUFS), nin_dev_put i ?h)
      | Some a \<Rightarrow> (case nip_addrconf_dst_alloc new_rt pcpu i addr ?h of
          (Inl err, n) \<Rightarrow> Some (Inl err, nin_dev_put i n)
        | (Inr rt, n) \<Rightarrow> let n = upd_ifa a (\<lambda>_. \<lparr>ifa_addr = addr, ifa_flags = flags, ifa_valid_lft = valid,
                     ifa_preferred_lft = pref, ifa_refcnt = 1, ifa_dead = False, ifa_idev = i, ifa_rt = rt\<rparr>) n;
            n = n\<lparr>addr_lst := (addr_lst n)[bucket h32 addr := a # addr_lst n ! bucket h32 addr]\<rparr>
          in Some (Inr a, nin_ifa_hold a (nip_link_dev_addr i a n))))"
      using 4 unfolding nip_add_addr_def Let_def chk_same_addr [OF ok] dup_def ninet_addr_hash_ok [OF ok] option.case
      by (auto split: option.splits sum.splits prod.splits bool.splits)
    consider "dup" | "\<not> dup" "new = None" | a where "\<not> dup" "new = Some a" by (cases new) auto
    then show thesis
    proof cases
      case 1
      then show thesis using fail [of "- EEXIST" ?h] A by simp
    next
      case 2
      then show thesis using fail [of "- ENOBUFS" ?h] A by simp
    next
      case a: (3 a)
      obtain y n where al: "nip_addrconf_dst_alloc new_rt pcpu i addr ?h = (y, n)" by fastforce
      show thesis
      proof (cases y)
        case (Inl err)
        then show thesis using fail [of err n] addrconf_dst_alloc_Inl [of new_rt pcpu i addr ?h err n] A a al by simp
      next
        case (Inr r)
        note f = addrconf_dst_alloc_Inr [OF al [unfolded Inr]]
        have nodup: "\<not> nip_addr_eq (ifa_addr (ifas net b)) addr" if b: "b \<in> set (addr_list (idevs net i))" for b
          using a(1) in_bucket [OF inv [unfolded addr_inv_def] b ok] addrs_invD(4) [OF inv [unfolded addr_inv_def] b]
          by (auto simp: dup_def h)
        let ?x = "\<lparr>ifa_addr = addr, ifa_flags = flags, ifa_valid_lft = valid, ifa_preferred_lft = pref,
          ifa_refcnt = 1, ifa_dead = False, ifa_idev = i, ifa_rt = r\<rparr>"
        have A': "?A = Some (Inr a, nin_ifa_hold a (nip_link_dev_addr i a ((upd_ifa a (\<lambda>_. ?x) n)
             \<lparr>addr_lst := (addr_lst n)[bucket h32 addr := a # addr_lst n ! bucket h32 addr]\<rparr>)))"
          using A a al Inr by (simp add: Let_def upd_ifa_def)
        show thesis
          by (rule added [OF A' a(2) nodup, where x = "?x\<lparr>ifa_refcnt := 2\<rparr>"])
            (use f in \<open>simp_all add: h nip_link_dev_addr_def upd_ifa_def upd_idev_def ac_simps\<close>)
      qed
    qed
  qed
qed

lemma nin_ifa_put_2:
  assumes "ifa_refcnt (ifas net a) = 2"
  shows "nin_ifa_put a net = upd_ifa a (\<lambda>x. x\<lparr>ifa_refcnt := 1\<rparr>) net"
  using assms by (simp add: nin_ifa_put_def upd_ifa_def Let_def)

lemma nip_ins_rt_local:
  assumes "hashable (rt_dst (rts net r))" "rt_table (rts net r) = RT_TABLE_LOCAL"
  obtains err net' where "nip_ins_rt h32 ok r net = Some (err, net')" "same_addrs net net'"
proof -
  have "nip_ins_rt h32 ok r net \<noteq> None"
    using assms hashable_hash(1) [OF assms(1), of h32]
    by (simp add: nip_ins_rt_def nip_ins_rt_locked_def nip_fib_get_table_def nip_fib_add_def dst_hold_def Let_def)
  then show thesis using that same_addrs_ins_rt by fastforce
qed

text \<open>The part of ninet_addr_add after the ninet_dev is known.\<close>

definition addr_added :: "hash32 \<Rightarrow> nat \<Rightarrow> nip_addr \<Rightarrow> nat \<Rightarrow> netns_newip \<Rightarrow> netns_newip \<Rightarrow> bool" where
  "addr_added h32 i addr a net net' \<longleftrightarrow>
     ifa_addr (ifas net' a) = addr \<and> (\<forall>b. b \<noteq> a \<longrightarrow> ifas net' b = ifas net b) \<and>
     addr_list (idevs net' i) = addr_list (idevs net i) @ [a] \<and> (\<forall>j. j \<noteq> i \<longrightarrow> idevs net' j = idevs net j) \<and>
     idev_refcnt (idevs net' i) = idev_refcnt (idevs net i) + 2 \<and>
     (\<forall>d. nip_ptr (devs net' d) = nip_ptr (devs net d)) \<and> loopback_dev net' = loopback_dev net \<and>
     idev_dead (idevs net' i) = idev_dead (idevs net i) \<and> idev_dev (idevs net' i) = idev_dev (idevs net i) \<and>
     cnf_mtu (idevs net' i) = cnf_mtu (idevs net i)"

lemma addr_add_tail:
  assumes inv: "addr_inv h32 net" and ok: "hashable addr"
    and fresh: "\<And>a. al_ifa al = Some a \<Longrightarrow> a \<notin> set (concat (addr_lst net))"
  obtains (error) err net' where "ninet_addr_add_tail h32 al i addr lft net = Some (err, net')" "err < 0" "same_addrs net net'"
  | (added) a net' where
    "ninet_addr_add_tail h32 al i addr lft net = Some (0, net')"
    "al_ifa al = Some a" "addr_inv h32 net'" "addr_added h32 i addr a net net'"
    "\<And>b. b \<in> set (addr_list (idevs net i)) \<Longrightarrow> \<not> nip_addr_eq (ifa_addr (ifas net b)) addr"
proof -
  obtain flags pref valid where l: "lft = (flags, pref, valid)" by (cases lft)
  let ?R = "ninet_addr_add_tail h32 al i addr lft net"
  note i = inv [unfolded addr_inv_def]
  show thesis
  proof (rule nip_add_addr_cases [OF inv ok, where new = "al_ifa al" and new_rt = "al_rt al" and pcpu = "al_pcpu al" and i = i
        and flags = flags and valid = valid and pref = pref])
    fix err net'
    assume "nip_add_addr h32 (al_ifa al) (al_rt al) (al_pcpu al) i addr flags valid pref net = Some (Inl err, net')"
      and e: "err < 0" "same_addrs net net'"
    then have "?R = Some (err, net')" by (simp add: ninet_addr_add_tail_def l)
    then show thesis using e by (rule error)
  next
    fix a x net1
    assume add: "nip_add_addr h32 (al_ifa al) (al_rt al) (al_pcpu al) i addr flags valid pref net = Some (Inr a, net1)"
      and a: "al_ifa al = Some a"
      and nodup: "\<And>b. b \<in> set (addr_list (idevs net i)) \<Longrightarrow> \<not> nip_addr_eq (ifa_addr (ifas net b)) addr"
      and f: "ifas net1 = (ifas net)(a := x)" and x: "ifa_addr x = addr" "ifa_idev x = i" "\<not> ifa_dead x" "ifa_refcnt x = 2"
      and g: "addr_lst net1 = (addr_lst net)[bucket h32 addr := a # addr_lst net ! bucket h32 addr]"
        "idevs net1 = (idevs net)(i := (idevs net i)\<lparr>idev_refcnt := idev_refcnt (idevs net i) + 2,
           addr_list := addr_list (idevs net i) @ [a]\<rparr>)"
        "\<And>d. nip_ptr (devs net1 d) = nip_ptr (devs net d)" "loopback_dev net1 = loopback_dev net"
      and r: "rt_dst (rts net1 (ifa_rt x)) = addr" "rt_table (rts net1 (ifa_rt x)) = RT_TABLE_LOCAL"
    let ?n2 = "nin_ifa_put a net1" and ?x = "x\<lparr>ifa_refcnt := 1\<rparr>"
    have n2: "?n2 = upd_ifa a (\<lambda>x. x\<lparr>ifa_refcnt := 1\<rparr>) net1" by (rule nin_ifa_put_2) (simp add: f x)
    have st: "ifas ?n2 = (ifas net)(a := ?x)" "addr_lst ?n2 = addr_lst net1" "idevs ?n2 = idevs net1"
      "devs ?n2 = devs net1" "rts ?n2 = rts net1" "loopback_dev ?n2 = loopback_dev net1"
      by (simp_all add: n2 upd_ifa_def f)
    have a_out: "a \<notin> set (concat (addr_lst net))" by (rule fresh [OF a])
    then have "a \<notin> set (addr_list (idevs net i))" using addrs_invD(2,4) [OF i] by metis
    then have "addrs_inv h32 ((ifas net)(a := ?x)) (addr_lst net1) ((\<lambda>k. addr_list (idevs net k))(i := addr_list (idevs net i) @ [a]))"
      using addrs_inv_add [OF i a_out, of i ?x] nodup x ok by (simp add: g(1))
    then have v: "addr_inv h32 ?n2" by (simp add: addr_inv_def st g(2) fun_upd_def if_distrib cong: if_cong)
    obtain e net' where ins: "nip_ins_rt h32 (al_node al) (ifa_rt (ifas ?n2 a)) ?n2 = Some (e, net')" "same_addrs ?n2 net'"
      by (rule nip_ins_rt_local [of ?n2 "ifa_rt (ifas ?n2 a)" h32 "al_node al"]) (use r ok in \<open>simp_all add: st\<close>)
    have "addr_added h32 i addr a net net'"
      using ins(2) x by (simp add: addr_added_def same_addrs_def st g)
    moreover have "?R = Some (0, net')" using add ins(1) by (simp add: ninet_addr_add_tail_def l)
    ultimately show thesis using added a nodup v same_addrs_inv [OF ins(2)] by blast
  qed
qed

text \<open>ninet_addr_add on a device that has its ninet_dev. It reports an error and leaves the
  address tables, the ninet_devs and their references alone, or succeeds: the new address is the
  last one of the list, with two more references on the ninet_dev (its own and its route's), and it
  differs from every other address of the ninet_dev. The address invariant is kept.\<close>

theorem ninet_addr_add_correct:
  assumes "addr_inv h32 net" "hashable addr" "nip_ptr (devs net d) = Some i"
    and "\<And>a. al_ifa al = Some a \<Longrightarrow> a \<notin> set (concat (addr_lst net))"
  shows "\<exists>err net'. ninet_addr_add h32 ops al d addr flags pref valid net = Some (err, net') \<and> err \<le> 0 \<and>
    addr_inv h32 net' \<and>
    (err < 0 \<longrightarrow> idevs net' = idevs net \<and> ifas net' = ifas net \<and> addr_lst net' = addr_lst net) \<and>
    (err = 0 \<longrightarrow> (\<exists>a. al_ifa al = Some a \<and> addr_added h32 i addr a net net' \<and>
       (\<forall>b \<in> set (addr_list (idevs net i)). \<not> nip_addr_eq (ifa_addr (ifas net b)) addr)))"
proof -
  let ?R = "ninet_addr_add h32 ops al d addr flags pref valid net"
  let ?T = "ninet_addr_add_tail h32 al i addr (lft_flags ops flags pref valid) net"
  have "(\<exists>err. ?R = Some (err, net) \<and> err < 0) \<or> ?R = ?T"
    using assms(3) by (simp add: ninet_addr_add_def nip_addrconf_add_dev_def nip_find_idev_def)
  then consider (bad) err where "?R = Some (err, net)" "err < 0" | (go) "?R = ?T" by blast
  then show ?thesis
  proof cases
    case bad
    then show ?thesis using assms(1) by simp
  next
    case go
    show ?thesis
    proof (rule addr_add_tail [OF assms(1,2,4), where i = i and lft = "lft_flags ops flags pref valid"])
      fix err net'
      assume "?T = Some (err, net')" "err < 0" "same_addrs net net'"
      then show ?thesis using go assms(1) same_addrs_inv [of net net' h32] by (simp add: same_addrs_def)
    next
      fix a net'
      assume "?T = Some (0, net')" "al_ifa al = Some a" "addr_inv h32 net'" "addr_added h32 i addr a net net'"
        "\<And>b. b \<in> set (addr_list (idevs net i)) \<Longrightarrow> \<not> nip_addr_eq (ifa_addr (ifas net b)) addr"
      then show ?thesis using go by auto
    qed
  qed
qed

section \<open>Deleting an address\<close>

lemma addr_find_loop_eq: "addr_find_loop net pfx c = find (\<lambda>a. nip_addr_eq pfx (ifa_addr (ifas net a))) c"
  by (induction c) auto

lemma nip_del_addr_facts:
  assumes "ifa_refcnt (ifas net a) = 2" "\<not> ifa_dead (ifas net a)"
  defines "i \<equiv> ifa_idev (ifas net a)"
  shows "\<And>b. b \<noteq> a \<Longrightarrow> ifas (nip_del_addr a net) b = ifas net b"
    "ifa_refcnt (ifas (nip_del_addr a net) a) = 0" "ifa_dead (ifas (nip_del_addr a net) a)"
    "addr_lst (nip_del_addr a net) = map (removeAll a) (addr_lst net)"
    "idevs (nip_del_addr a net) = (idevs net)(i := (idevs net i)\<lparr>addr_list := removeAll a (addr_list (idevs net i)),
       idev_refcnt := idev_refcnt (idevs net i) - 1\<rparr>)"
    "nip_ptr (devs (nip_del_addr a net) d) = nip_ptr (devs net d)" "loopback_dev (nip_del_addr a net) = loopback_dev net"
proof -
  define n0 where "n0 = upd_ifa a (\<lambda>x. x\<lparr>ifa_dead := True\<rparr>) net"
  define n1 where "n1 = n0\<lparr>addr_lst := map (removeAll a) (addr_lst n0)\<rparr>"
  define n2 where "n2 = upd_idev (ifa_idev (ifas n1 a)) (\<lambda>x. x\<lparr>addr_list := removeAll a (addr_list x)\<rparr>) n1"
  define n3 where "n3 = nin_ifa_put_locked a n2"
  define n4 where "n4 = (if dst_refcnt (rts n3 (ifa_rt (ifas n3 a))) \<noteq> 0
    then snd (nip_del_rt (ifa_rt (ifas n3 a)) (dst_hold (ifa_rt (ifas n3 a)) n3)) else n3)"
  have del: "nip_del_addr a net = nin_ifa_put a n4"
    using assms(2) by (simp add: nip_del_addr_def Let_def n0_def n1_def n2_def n3_def n4_def)
  have f3: "ifas n3 = (ifas net)(a := (ifas net a)\<lparr>ifa_dead := True, ifa_refcnt := 1\<rparr>)"
    "addr_lst n3 = map (removeAll a) (addr_lst net)"
    "idevs n3 = (idevs net)(i := (idevs net i)\<lparr>addr_list := removeAll a (addr_list (idevs net i))\<rparr>)"
    "devs n3 = devs net" "loopback_dev n3 = loopback_dev net"
    using assms by (simp_all add: n3_def n2_def n1_def n0_def nin_ifa_put_locked_def upd_ifa_def upd_idev_def)
  have s4: "same_addrs n3 n4"
    unfolding n4_def using same_addrs_trans [OF same_addrs_upd(2) same_addrs_del_rt] by simp
  have f4: "ifas n4 = ifas n3" "addr_lst n4 = addr_lst n3" "idevs n4 = idevs n3" "\<And>d. nip_ptr (devs n4 d) = nip_ptr (devs n3 d)"
    "loopback_dev n4 = loopback_dev n3"
    using s4 by (simp_all add: same_addrs_def)
  have "ifa_refcnt (ifas n4 a) = 1" by (simp add: f4 f3)
  note p = nin_ifa_put_last [OF this]
  show "\<And>b. b \<noteq> a \<Longrightarrow> ifas (nip_del_addr a net) b = ifas net b"
    "ifa_refcnt (ifas (nip_del_addr a net) a) = 0" "ifa_dead (ifas (nip_del_addr a net) a)"
    "addr_lst (nip_del_addr a net) = map (removeAll a) (addr_lst net)"
    "idevs (nip_del_addr a net) = (idevs net)(i := (idevs net i)\<lparr>addr_list := removeAll a (addr_list (idevs net i)),
       idev_refcnt := idev_refcnt (idevs net i) - 1\<rparr>)"
    "nip_ptr (devs (nip_del_addr a net) d) = nip_ptr (devs net d)" "loopback_dev (nip_del_addr a net) = loopback_dev net"
    by (simp_all add: del p f4 f3 i_def)
qed

text \<open>ninet_addr_del removes the one entry with that address from the list and the hash table,
  destroys it and gives back its reference to the ninet_dev; an address that is not configured
  there is -EADDRNOTAVAIL and changes nothing. The address invariant is kept.\<close>

theorem ninet_addr_del_correct:
  assumes inv: "addr_inv h32 net" and d: "dev_present (devs net d)" "nip_ptr (devs net d) = Some i"
  shows "(if \<exists>a \<in> set (addr_list (idevs net i)). nip_addr_eq addr (ifa_addr (ifas net a))
    then \<exists>a net'. ninet_addr_del d addr net = (0, net') \<and> a \<in> set (addr_list (idevs net i)) \<and>
      nip_addr_eq addr (ifa_addr (ifas net a)) \<and> addr_inv h32 net' \<and>
      addr_list (idevs net' i) = removeAll a (addr_list (idevs net i)) \<and> a \<notin> set (concat (addr_lst net')) \<and>
      (\<forall>b. b \<noteq> a \<longrightarrow> ifas net' b = ifas net b) \<and> (\<forall>j. j \<noteq> i \<longrightarrow> idevs net' j = idevs net j) \<and>
      ifa_refcnt (ifas net' a) = 0 \<and> idev_refcnt (idevs net' i) = idev_refcnt (idevs net i) - 1
    else ninet_addr_del d addr net = (- EADDRNOTAVAIL, net))"
proof -
  note i = inv [unfolded addr_inv_def]
  let ?P = "\<lambda>a. nip_addr_eq addr (ifa_addr (ifas net a))"
  show ?thesis
  proof (cases "find ?P (addr_list (idevs net i))")
    case None
    then have "\<not> (\<exists>a \<in> set (addr_list (idevs net i)). ?P a)" by (simp add: find_None_iff)
    then show ?thesis using None d by (simp add: ninet_addr_del_def addr_find_loop_eq)
  next
    case (Some a)
    then have a: "a \<in> set (addr_list (idevs net i))" "?P a" by (auto simp: find_Some_iff)
    let ?h = "nin_ifa_hold a net" and ?n = "nip_del_addr a (nin_ifa_hold a net)"
    have pre: "ifa_refcnt (ifas ?h a) = 2" "\<not> ifa_dead (ifas ?h a)" "ifa_idev (ifas ?h a) = i"
      using addrs_invD(4-6) [OF i a(1)] by simp_all
    note f = nip_del_addr_facts [OF pre(1,2), unfolded pre(3)]
    have "addrs_inv h32 (ifas ?n) (addr_lst ?n) ((\<lambda>k. addr_list (idevs net k))(i := removeAll a (addr_list (idevs net i))))"
      using addrs_inv_del [OF i a(1), of "ifas ?n"] f(1,4) by simp
    then have "addr_inv h32 ?n" by (simp add: addr_inv_def f fun_upd_def if_distrib cong: if_cong)
    moreover have "a \<notin> set (concat (addr_lst ?n))" by (auto simp: f)
    ultimately show ?thesis
      using Some a d f by (auto simp: ninet_addr_del_def addr_find_loop_eq simp del: set_concat intro!: exI [of _ a])
  qed
qed

section \<open>Device events\<close>

text \<open>The ninet_dev of a device belongs to it, is alive and has a transmission unit the stack
  accepts.\<close>

definition dev_inv :: "netns_newip \<Rightarrow> bool" where
  "dev_inv net \<longleftrightarrow> (\<forall>d i. nip_ptr (devs net d) = Some i \<longrightarrow> idev_dev (idevs net i) = d \<and>
     \<not> idev_dead (idevs net i) \<and> cnf_mtu (idevs net i) \<ge> of_nat NIP_MIN_MTU)"

definition conf_inv :: "hash32 \<Rightarrow> netns_newip \<Rightarrow> bool" where
  "conf_inv h32 net \<longleftrightarrow> addr_inv h32 net \<and> dev_inv net"

text \<open>Memory the allocator may hand out for a ninet_dev.\<close>

definition free_idev :: "netns_newip \<Rightarrow> nat \<Rightarrow> bool" where
  "free_idev net i \<longleftrightarrow> (\<forall>d. nip_ptr (devs net d) \<noteq> Some i) \<and> addr_list (idevs net i) = []"

lemma conf_inv_same: "same_addrs net net' \<Longrightarrow> conf_inv h32 net \<Longrightarrow> conf_inv h32 net'"
  unfolding conf_inv_def by (simp add: same_addrs_inv) (simp add: dev_inv_def same_addrs_def)

lemma conf_inv_upd_idev:
  assumes "conf_inv h32 net" "\<And>x. addr_list (f x) = addr_list x" "\<And>x. idev_dev (f x) = idev_dev x"
    "\<And>x. idev_dead (f x) = idev_dead x" "\<And>x. cnf_mtu x \<ge> of_nat NIP_MIN_MTU \<Longrightarrow> cnf_mtu (f x) \<ge> of_nat NIP_MIN_MTU"
  shows "conf_inv h32 (upd_idev i f net)"
proof -
  have "(\<lambda>k. addr_list (idevs (upd_idev i f net) k)) = (\<lambda>k. addr_list (idevs net k))"
    by (auto simp: upd_idev_def assms fun_eq_iff)
  then show ?thesis
    using assms by (auto simp: conf_inv_def addr_inv_def dev_inv_def upd_idev_def)
qed

lemma conf_inv_add_dev:
  assumes "conf_inv h32 net" "nip_ptr (devs net d) = None" "\<And>i. new = Some i \<Longrightarrow> free_idev net i"
    and n: "nip_add_dev new parms d net = (x, net')"
  shows "conf_inv h32 net' \<and> (case x of Inl err \<Rightarrow> err < 0 \<and> net' = net
    | Inr i \<Rightarrow> nip_ptr (devs net' d) = Some i \<and> new = Some i \<and> addr_lst net' = addr_lst net)"
proof (cases x)
  case (Inl err)
  then show ?thesis using n assms(1) by (auto simp: nip_add_dev_def split: if_splits option.splits)
next
  case (Inr i)
  then have i: "new = Some i" "\<not> dev_mtu (devs net d) < of_nat NIP_MIN_MTU"
    "net' = upd_dev d (\<lambda>x. x\<lparr>nip_ptr := Some i\<rparr>) (upd_idev i (\<lambda>_. new_idev d (devs net d)) (dev_hold d net))"
    using n by (auto simp: nip_add_dev_def split: if_splits option.splits)
  have f: "free_idev net i" by (rule assms(3) [OF i(1)])
  have "(\<lambda>k. addr_list (idevs net' k)) = (\<lambda>k. addr_list (idevs net k))"
    using f by (auto simp: i(3) dev_hold_def upd_dev_def upd_idev_def new_idev_def free_idev_def fun_eq_iff)
  then have "addr_inv h32 net'"
    using assms(1) by (simp add: conf_inv_def addr_inv_def i(3) upd_dev_def upd_idev_def dev_hold_def)
  moreover have "dev_inv net'"
    using assms(1) f i(2) unfolding conf_inv_def dev_inv_def
    by (auto simp: i(3) dev_hold_def upd_dev_def upd_idev_def new_idev_def free_idev_def not_less)
  ultimately show ?thesis
    using Inr i(1) by (simp add: conf_inv_def i(3)) (simp add: upd_dev_def upd_idev_def dev_hold_def)
qed

lemma conf_inv_ifdown:
  assumes "conf_inv h32 net"
  shows "conf_inv h32 (snd (nip_addrconf_ifdown d unregister net))"
proof (cases "nip_ptr (devs net d)")
  case None
  then have "same_addrs net (snd (nip_addrconf_ifdown d unregister net))"
    using same_addrs_rt_ifdown by (simp add: nip_addrconf_ifdown_def)
  then show ?thesis using assms by (rule conf_inv_same)
next
  case (Some i)
  have inv: "addr_inv h32 net" "dev_inv net" using assms by (simp_all add: conf_inv_def)
  show ?thesis
  proof (rule addrconf_ifdown_facts [OF inv(1) Some, where unregister = unregister])
    fix net'
    assume n: "nip_addrconf_ifdown d unregister net = (0, net')"
      and i: "idevs net' = (idevs net)(i := (idevs net i)\<lparr>idev_dead := unregister \<or> idev_dead (idevs net i),
       idev_ready := unregister \<and> idev_ready (idevs net i), addr_list := [],
       idev_refcnt := idev_refcnt (idevs net i) - int (length (addr_list (idevs net i))) - of_bool unregister\<rparr>)"
      and p: "\<And>e. nip_ptr (devs net' e) = (if unregister \<and> e = d then None else nip_ptr (devs net e))"
    have "dev_inv net'"
      using inv(2) Some unfolding dev_inv_def p i by (auto split: if_splits)
    then show ?thesis
      using addr_inv_ifdown [OF inv(1) Some, of unregister] n by (simp add: conf_inv_def)
  qed
qed

lemma conf_inv_ready: "conf_inv h32 net \<Longrightarrow> conf_inv h32 (upd_idev i (\<lambda>x. x\<lparr>idev_ready := True\<rparr>) net)"
  and conf_inv_mtu: "conf_inv h32 net \<Longrightarrow> m \<ge> of_nat NIP_MIN_MTU \<Longrightarrow> conf_inv h32 (upd_idev i (\<lambda>x. x\<lparr>cnf_mtu := m\<rparr>) net)"
  by (erule conf_inv_upd_idev; simp)+

lemma conf_inv_refresh: "conf_inv h32 net \<Longrightarrow> conf_inv h32 (notify_refresh d i net)"
  by (simp add: notify_refresh_def Let_def conf_inv_ifdown conf_inv_mtu)

lemma conf_inv_ready_opt:
  "conf_inv h32 net \<Longrightarrow> conf_inv h32 (opt_do (\<lambda>i net. upd_idev i (\<lambda>x. x\<lparr>idev_ready := True\<rparr>) net) idev net)"
  by (simp add: opt_do_def conf_inv_ready split: option.splits)

lemma conf_inv_up_change:
  assumes "conf_inv h32 net" "idev = nip_ptr (devs net d)" "\<And>i. new = Some i \<Longrightarrow> free_idev net i"
  shows "conf_inv h32 (notify_up_change new parms event d idev net)"
proof -
  obtain x n where n: "nip_add_dev new parms d net = (x, n)" by fastforce
  have "conf_inv h32 n" if "idev = None" using conf_inv_add_dev [OF assms(1) _ assms(3) n] that assms(2) by simp
  then show ?thesis
    using assms(1) n unfolding notify_up_change_def Let_def
    by (auto simp: conf_inv_refresh conf_inv_ready_opt split: option.splits sum.splits prod.splits)
qed

lemma conf_inv_notify:
  assumes "conf_inv h32 net" "\<And>i. new = Some i \<Longrightarrow> free_idev net i"
  shows "conf_inv h32 (snd (nip_addrconf_notify new parms event d net))"
proof -
  obtain x n where n: "nip_add_dev new parms d net = (x, n)" by fastforce
  have a: "conf_inv h32 n \<and> (\<forall>i. x = Inr i \<longrightarrow> nip_ptr (devs n d) = Some i)" if "nip_ptr (devs net d) = None"
    using conf_inv_add_dev [OF assms(1) that assms(2) n] by auto
  have c: "conf_inv h32 (notify_up_change None parms event d (Some i) n)"
    if "nip_ptr (devs net d) = None" "x = Inr i" for i
    using conf_inv_up_change [of h32 n "Some i" d None] a [OF that(1)] that(2) by simp
  have same: "notify_up_change new parms NETDEV_CHANGEMTU d (Some i) n = notify_up_change None parms NETDEV_CHANGEMTU d (Some i) n" for i
    by (simp add: notify_up_change_def Let_def)
  show ?thesis
    using assms a n c conf_inv_up_change [OF assms(1) refl assms(2)]
    by (cases event)
      (auto simp: nip_addrconf_notify_def Let_def conf_inv_ifdown conf_inv_mtu not_less same split: option.splits sum.splits)
qed

text \<open>
  The states the module reaches: the kernel changes attributes of its devices, delivers device
  events, runs the ioctls for addresses and, after a grace period, frees nodes of the tables.
\<close>

inductive conf_reach :: "hash32 \<Rightarrow> nat list \<Rightarrow> netns_newip \<Rightarrow> bool" for h32 cpus where
  init: "conf_reach h32 cpus (init_net cpus)"
| device: "conf_reach h32 cpus net \<Longrightarrow> nip_ptr x = nip_ptr (devs net d) \<Longrightarrow>
    conf_reach h32 cpus (upd_dev d (\<lambda>_. x) net)"
| notify: "conf_reach h32 cpus net \<Longrightarrow> (\<And>i. new = Some i \<Longrightarrow> free_idev net i) \<Longrightarrow>
    conf_reach h32 cpus (snd (nip_addrconf_notify new parms event d net))"
| add: "conf_reach h32 cpus net \<Longrightarrow> (\<And>addr d. ireq = Some (addr, d) \<Longrightarrow> wf_addr addr) \<Longrightarrow> (\<And>i. al_idev al = Some i \<Longrightarrow> free_idev net i) \<Longrightarrow>
    (\<And>a. al_ifa al = Some a \<Longrightarrow> a \<notin> set (concat (addr_lst net))) \<Longrightarrow>
    nip_addrconf_add_ifaddr h32 ops al admin ireq net = Some (err, net') \<Longrightarrow> conf_reach h32 cpus net'"
| del: "conf_reach h32 cpus net \<Longrightarrow> conf_reach h32 cpus (snd (nip_addrconf_del_ifaddr admin ireq net))"
| rcu: "conf_reach h32 cpus net \<Longrightarrow> conf_reach h32 cpus (nip_fib_destroy_rcu net)"

lemma conf_inv_init: "conf_inv h32 (init_net cpus)"
proof -
  have "heads_inv h32 k (replicate NIN_ROUTE_HSIZE [])" for k by (auto simp: heads_inv_def)
  then show ?thesis
    by (simp add: conf_inv_def addr_inv_def addrs_inv_def dev_inv_def init_net_def blank_dev_def blank_idev_def)
qed

lemma same_addrs_upd_iff [simp]:
  "same_addrs net (upd_rt r f n) = same_addrs net n" "same_addrs net (dst_release r n) = same_addrs net n"
  "same_addrs net (dst_dev_put r n) = same_addrs net n"
  by (simp_all add: same_addrs_def dst_release_def dst_dev_put_def upd_rt_def)

lemma same_addrs_pcpu_loop: "same_addrs net (free_pcpu_loop r c net)"
proof (induction c arbitrary: net)
  case (Cons cpu c)
  show ?case
    by (auto simp: Let_def split: option.splits intro: same_addrs_trans [OF _ Cons.IH])
qed simp

lemma same_addrs_rcu: "same_addrs net (nip_fib_destroy_rcu net)"
proof -
  have f: "same_addrs net (nip_rt_free_pcpu r net)" for r net
    by (simp add: nip_rt_free_pcpu_def same_addrs_pcpu_loop)
  have "same_addrs net (nip_rt_release r net)" for r net
    unfolding nip_rt_release_def Let_def
    by (auto intro: same_addrs_trans [OF _ f])
  then show ?thesis by (auto simp: same_addrs_def split: list.splits)
qed

lemma conf_inv_add_ifaddr:
  assumes inv: "conf_inv h32 net" "hashable addr" "\<And>i. al_idev al = Some i \<Longrightarrow> free_idev net i"
    and fresh: "\<And>a. al_ifa al = Some a \<Longrightarrow> a \<notin> set (concat (addr_lst net))"
    and r: "ninet_addr_add h32 ops al d addr flags pref valid net = Some (err, net')"
  shows "conf_inv h32 net'"
proof -
  have tail: "conf_inv h32 m'"
    if m: "conf_inv h32 m" "addr_lst m = addr_lst net" "ninet_addr_add_tail h32 al i addr lft m = Some (e, m')" for m m' i lft e
  proof (rule addr_add_tail [of h32 m addr al i lft])
    show "addr_inv h32 m" using m(1) by (simp add: conf_inv_def)
    show "a \<notin> set (concat (addr_lst m))" if "al_ifa al = Some a" for a using fresh [OF that] m(2) by simp
  next
    fix err n assume "ninet_addr_add_tail h32 al i addr lft m = Some (err, n)" "same_addrs m n"
    then show ?thesis using m(1,3) conf_inv_same by auto
  next
    fix a n assume "ninet_addr_add_tail h32 al i addr lft m = Some (0, n)" "addr_inv h32 n" and ad: "addr_added h32 i addr a m n"
    moreover have "dev_inv n"
      using m(1) ad unfolding conf_inv_def dev_inv_def addr_added_def by metis
    ultimately show ?thesis using m(3) by (simp add: conf_inv_def)
  qed (rule inv(2))
  obtain x n where n: "nip_add_dev (al_idev al) (al_parms al) d net = (x, n)" by fastforce
  show ?thesis
  proof (cases "nip_ptr (devs net d)")
    case None
    note a = conf_inv_add_dev [OF inv(1) None inv(3) n]
    show ?thesis
      using r inv(1) None n a tail [of n]
      by (auto simp: ninet_addr_add_def nip_addrconf_add_dev_def nip_find_idev_def split: if_splits sum.splits)
  next
    case (Some i)
    then show ?thesis
      using r inv(1) tail [OF inv(1) refl]
      by (auto simp: ninet_addr_add_def nip_addrconf_add_dev_def nip_find_idev_def split: if_splits)
  qed
qed

lemma conf_inv_del_ifaddr:
  assumes "conf_inv h32 net"
  shows "conf_inv h32 (snd (nip_addrconf_del_ifaddr admin ireq net))"
proof -
  have "conf_inv h32 (snd (ninet_addr_del d addr net))" for d addr
  proof (cases "\<exists>i a. dev_present (devs net d) \<and> nip_ptr (devs net d) = Some i \<and>
      find (\<lambda>a. nip_addr_eq addr (ifa_addr (ifas net a))) (addr_list (idevs net i)) = Some a")
    case False
    then have "snd (ninet_addr_del d addr net) = net"
      by (auto simp: ninet_addr_del_def addr_find_loop_eq split: option.splits)
    then show ?thesis using assms by simp
  next
    case True
    then obtain i a where d: "dev_present (devs net d)" "nip_ptr (devs net d) = Some i"
      and fa: "find (\<lambda>a. nip_addr_eq addr (ifa_addr (ifas net a))) (addr_list (idevs net i)) = Some a" by blast
    have inv: "addrs_inv h32 (ifas net) (addr_lst net) (\<lambda>k. addr_list (idevs net k))" and dv: "dev_inv net"
      using assms by (simp_all add: conf_inv_def addr_inv_def)
    have a: "a \<in> set (addr_list (idevs net i))" using fa by (auto simp: find_Some_iff)
    let ?n = "nip_del_addr a (nin_ifa_hold a net)"
    have pre: "ifa_refcnt (ifas (nin_ifa_hold a net) a) = 2" "\<not> ifa_dead (ifas (nin_ifa_hold a net) a)"
      "ifa_idev (ifas (nin_ifa_hold a net) a) = i"
      using addrs_invD(4-6) [OF inv a] by simp_all
    note f = nip_del_addr_facts [OF pre(1,2), unfolded pre(3)]
    have "addrs_inv h32 (ifas ?n) (addr_lst ?n) ((\<lambda>k. addr_list (idevs net k))(i := removeAll a (addr_list (idevs net i))))"
      using addrs_inv_del [OF inv a, of "ifas ?n"] f(1,4) by simp
    then have "addr_inv h32 ?n" by (simp add: addr_inv_def f fun_upd_def if_distrib cong: if_cong)
    moreover have "dev_inv ?n" using dv unfolding dev_inv_def f by (auto simp: f(6))
    ultimately show ?thesis using d fa by (simp add: conf_inv_def ninet_addr_del_def addr_find_loop_eq)
  qed
  then show ?thesis using assms by (simp add: nip_addrconf_del_ifaddr_def Let_def split: option.splits)
qed

text \<open>An address the ioctl lets through is at most eight bytes long, and 71 bits.\<close>

lemma checked_hashable:
  assumes "\<not> nip_addrconf_ifaddr_check admin (Some (addr, d)) < 0" "wf_addr addr"
  shows "hashable addr"
proof -
  have "nip_addr_invalid addr = CURRENT_ADDR_VALID"
    using assms(1) by (auto simp: nip_addrconf_ifaddr_check_def split: if_splits)
  then have "unat (bitlen addr) div 8 = get_nip_addr_len addr" by (simp add: nip_addr_valid_iff)
  moreover have "get_nip_addr_len addr \<le> 8" by (simp add: get_nip_addr_len_def addr_defs Let_def)
  ultimately have "unat (bitlen addr) div 8 \<le> 8" by simp
  then have "unat (bitlen addr) < 72" by linarith
  then show ?thesis using assms(2) by (simp add: hashable_def)
qed

lemma conf_reach_conf_inv: "conf_reach h32 cpus net \<Longrightarrow> conf_inv h32 net"
proof (induction rule: conf_reach.induct)
  case init
  show ?case by (rule conf_inv_init)
next
  case (device net x d)
  then have "same_addrs net (upd_dev d (\<lambda>_. x) net)" by (simp add: same_addrs_def upd_dev_def)
  then show ?case using device.IH by (rule conf_inv_same)
next
  case (notify net new parms event d)
  then show ?case by (intro conf_inv_notify)
next
  case (add net ireq al ops admin err net')
  show ?case
  proof (cases "nip_addrconf_ifaddr_check admin ireq < 0 \<or> ireq = None")
    case True
    then show ?thesis using add by (auto simp: nip_addrconf_add_ifaddr_def Let_def split: if_splits)
  next
    case False
    then obtain addr d where i: "ireq = Some (addr, d)" by auto
    have "hashable addr" using checked_hashable [of admin addr d] False add.hyps(2) [OF i] i by simp
    then show ?thesis
      using conf_inv_add_ifaddr [OF add.IH _ add.hyps(3,4)] add.hyps(5) False i
      by (auto simp: nip_addrconf_add_ifaddr_def Let_def)
  qed
next
  case (del net admin ireq)
  then show ?case by (intro conf_inv_del_ifaddr)
next
  case (rcu net)
  then show ?case using conf_inv_same [OF same_addrs_rcu] by simp
qed

text \<open>C21: in every state the module reaches by device events, by ioctls that add and delete
  addresses of any bit length the check lets through (71 at most, the rest are refused) and by grace
  periods, the address tables are consistent (each configured address is in exactly one chain and one list,
  alive, with one reference, and no ninet_dev has two addresses that nip_addr_eq takes for the
  same) and each attached ninet_dev belongs to its device, is alive and keeps a transmission unit of at least NIP_MIN_MTU.
  An address of 65 to 71 bits is equal to none, not even itself, and can be configured repeatedly.\<close>

theorem conf_reach_inv:
  "conf_reach h32 cpus net \<Longrightarrow> addr_inv h32 net \<and> dev_inv net"
  using conf_reach_conf_inv [of h32 cpus net] by (simp add: conf_inv_def)

inductive_cases conf_reachE: "conf_reach h32 cpus net"

text \<open>A device 3 with the smallest accepted transmission unit gets its ninet_dev.\<close>

definition small_dev :: net_device where
  "small_dev = blank_dev\<lparr>dev_present := True, dev_running := True, dev_link_ready := True, dev_mtu := 32\<rparr>"

definition small_net :: netns_newip where
  "small_net = snd (nip_addrconf_notify (Some 0) True NETDEV_REGISTER 3 (upd_dev 3 (\<lambda>_. small_dev) (init_net [0])))"

lemma small_net_reach: "conf_reach h32 [0] small_net"
  unfolding small_net_def
  by (intro conf_reach.notify conf_reach.device conf_reach.init)
    (simp_all add: small_dev_def init_net_def blank_dev_def blank_idev_def free_idev_def upd_dev_def)

lemma NIP_MIN_MTU_32: "(of_nat NIP_MIN_MTU :: u32) = 32"
  by (simp add: NIP_MIN_MTU_def NIP_HDR_MAX_def NIP_UDP_HDR_LEN_def)

lemma small_net_facts:
  "nip_ptr (devs small_net 3) = Some 0" "cnf_mtu (idevs small_net 0) = 32" "addr_list (idevs small_net 0) = []"
  "dev_present (devs small_net 3)" "idevs small_net 0 = (new_idev 3 small_dev)" "addr_lst small_net = replicate 16 []"
  "dev_running (devs small_net 3)" "fib_local_tbl small_net = empty_table RT_TABLE_LOCAL"
  by (simp_all add: small_net_def nip_addrconf_notify_def nip_add_dev_def small_dev_def init_net_def blank_dev_def
      upd_dev_def upd_idev_def dev_hold_def new_idev_def NIP_MIN_MTU_32 NIN_ROUTE_HSIZE_def numeral_eq_Suc)

theorem conf_reach_inv_witness: "addr_inv hash_zero small_net \<and> dev_inv small_net"
  by (rule conf_reach_inv [OF small_net_reach])

text \<open>nip_default_advmss underflows in a reachable state: for a device with the smallest
  transmission unit the stack accepts (32) the announced segment size is 2 ^ 32 - 12.\<close>

theorem advmss_underflow_reachable:
  "\<exists>net. conf_reach hash_zero [0] net \<and> nip_ptr (devs net 3) \<noteq> None \<and> unat (nip_default_advmss 3 net) = 2 ^ 32 - 12"
  using small_net_reach
  by (intro exI [of _ small_net]) (simp add: nip_default_advmss_def nip_mtu_def small_net_facts new_idev_def small_dev_def blank_dev_def NIP_HDR_MAX_def)

definition ops_example :: lft_ops where
  "ops_example = \<lparr>timeout_fixup = (\<lambda>t. ucast t), finite_timeout = (\<lambda>t. t \<noteq> 0xFFFFFFFF)\<rparr>"

definition al_example :: "bool \<Rightarrow> addr_allocs" where
  "al_example node = \<lparr>al_idev = None, al_parms = True, al_ifa = Some 5, al_rt = Some 7, al_pcpu = True, al_node = node\<rparr>"

definition small_net_addr :: "bool \<Rightarrow> netns_newip" where
  "small_net_addr node = snd (the (ninet_addr_add hash_zero ops_example (al_example node) 3 (short_addr 300)
     IFA_F_PERMANENT INFINITY_LIFE_TIME INFINITY_LIFE_TIME small_net))"

lemma small_net_addr_ex:
   "\<exists>n. ninet_addr_add hash_zero ops_example (al_example node) 3 (short_addr 300) IFA_F_PERMANENT INFINITY_LIFE_TIME
     INFINITY_LIFE_TIME small_net = Some (0, n) \<and> addr_list (idevs n 0) = [5] \<and> ifa_addr (ifas n 5) = short_addr 300 \<and>
     tb_head (fib_local_tbl n) ! 0 = (if node then [7] else []) \<and> dev_present (devs n 3)"
proof -
  have b: "bucket hash_zero (short_addr 300) = 0"
    using hash_ok(1) [OF short_addr_ok [of 300], of hash_zero] by (auto simp: ninet_route_hash_def hash_zero_def)
  have h: "ninet_addr_hash hash_zero (short_addr 300) = Some 0" "ninet_route_hash hash_zero (short_addr 300) = Some 0"
    using hash_ok(1) [OF short_addr_ok [of 300], of hash_zero] ninet_addr_hash_ok [OF addr_ok_hashable [OF short_addr_ok [of 300]], of hash_zero] b by simp_all
  have dup: "nip_chk_same_addr hash_zero n (short_addr 300) dev = Some False" if "addr_lst n = replicate 16 []" for n dev
    using that by (simp add: nip_chk_same_addr_def h)
  have t: "tb_head (empty_table i) = replicate 16 []" "tb_id (empty_table i) = i" for i by (simp_all add: empty_table_def NIN_ROUTE_HSIZE_def)
  show ?thesis
    unfolding ninet_addr_add_def ninet_addr_add_tail_def lft_flags_def
    by (simp add: nip_addrconf_add_dev_def nip_find_idev_def small_net_facts new_idev_def small_dev_def blank_dev_def
        ops_example_def al_example_def nip_add_addr_def Let_def nin_dev_hold_def upd_idev_def dup h
        nip_addrconf_dst_alloc_def nip_dst_alloc_def nip_dst_alloc_base_def opt_do_def dev_hold_def upd_dev_def upd_rt_def upd_ifa_def
        nin_ifa_hold_def nip_link_dev_addr_def nin_ifa_put_def nip_ins_rt_def nip_ins_rt_locked_def nip_fib_get_table_def
        nip_fib_add_def dst_hold_def dst_release_def put_table_def t blank_rt_def)
qed

lemma small_net_addr_facts:
  "ninet_addr_add hash_zero ops_example (al_example node) 3 (short_addr 300) IFA_F_PERMANENT INFINITY_LIFE_TIME
     INFINITY_LIFE_TIME small_net = Some (0, small_net_addr node)"
  "addr_list (idevs (small_net_addr node) 0) = [5]" "ifa_addr (ifas (small_net_addr node) 5) = short_addr 300"
  "tb_head (fib_local_tbl (small_net_addr node)) ! 0 = (if node then [7] else [])"
  "dev_present (devs (small_net_addr node) 3)"
  using small_net_addr_ex [of node] by (auto simp: small_net_addr_def)

lemma small_net_addr_reach: "conf_reach hash_zero [0] (small_net_addr node)"
proof (rule conf_reach.add [OF small_net_reach, of "Some (short_addr 300, 3)" "al_example node"])
  have v: "nip_addr_invalid (short_addr 300) = CURRENT_ADDR_VALID" by (simp add: short_addr_valid)
  have "\<not> nip_addr_public (short_addr 300)" by (simp add: nip_addr_public_def short_addr_def short_bytes_def addr_defs)
  then show "nip_addrconf_add_ifaddr hash_zero ops_example (al_example node) True (Some (short_addr 300, 3)) small_net
      = Some (0, small_net_addr node)"
    using small_net_addr_facts(1) [of node] v by (simp add: nip_addrconf_add_ifaddr_def nip_addrconf_ifaddr_check_def)
qed (use short_addr_ok [of 300] in \<open>auto simp: al_example_def small_net_facts addr_ok_def\<close>)

lemma small_net_inv: "addr_inv hash_zero small_net" "addr_inv hash_zero (small_net_addr node)"
  using conf_reach_conf_inv [OF small_net_reach, of hash_zero] conf_reach_conf_inv [OF small_net_addr_reach [of node]]
  by (simp_all add: conf_inv_def)

lemma small_net_addr_ptr: "nip_ptr (devs (small_net_addr node) 3) = Some 0"
proof -
  let ?l = "lft_flags ops_example IFA_F_PERMANENT INFINITY_LIFE_TIME INFINITY_LIFE_TIME"
  have e: "ninet_addr_add_tail hash_zero (al_example node) 0 (short_addr 300) ?l small_net = Some (0, small_net_addr node)"
    using small_net_addr_facts(1) [of node] by (simp add: ninet_addr_add_def nip_addrconf_add_dev_def nip_find_idev_def
        small_net_facts new_idev_def)
  show ?thesis
    by (rule addr_add_tail [of hash_zero small_net "short_addr 300" "al_example node" 0 ?l])
      (use e in \<open>simp_all add: small_net_inv short_addr_ok addr_ok_hashable small_net_facts addr_added_def\<close>)
qed

theorem ninet_addr_add_correct_witness:
  "\<exists>err net'. ninet_addr_add hash_zero ops_example (al_example True) 3 (short_addr 300) 0 10 20 small_net = Some (err, net') \<and>
    err \<le> 0 \<and> addr_inv hash_zero net'"
  using ninet_addr_add_correct [OF small_net_inv(1) addr_ok_hashable [OF short_addr_ok [of 300]] small_net_facts(1), where al = "al_example True"
      and ops = ops_example and flags = 0 and pref = 10 and valid = 20]
  by (auto simp: small_net_facts)

text \<open>ninet_addr_add does not look at the result of nip_ins_rt. When the node of the local
  route cannot be allocated it still reports success: the address is configured, but the local
  table has no route for it, so packets to it are not delivered.\<close>

theorem addr_add_without_route:
  "\<exists>net'. ninet_addr_add hash_zero ops_example (al_example False) 3 (short_addr 300) IFA_F_PERMANENT INFINITY_LIFE_TIME
       INFINITY_LIFE_TIME small_net = Some (0, net') \<and>
     nip_get_firstaddr 3 net' = Inr (short_addr 300) \<and> nip_bind_addr_check hash_zero (short_addr 300) net' = Some False"
proof -
  let ?n = "small_net_addr False"
  have h: "ninet_route_hash hash_zero a = Some 0" if "addr_ok a" for a
    using hash_ok(1) [OF that, of hash_zero] by (auto simp: ninet_route_hash_def hash_zero_def)
  have "nip_fib_locate hash_zero (rts ?n) (tb_head (fib_local_tbl ?n)) (short_addr 300) = Some None"
    by (simp add: nip_fib_locate_def table_find_def h short_addr_ok any_addr_ok small_net_addr_facts)
  moreover have "\<not> nip_addr_eq (short_addr 300) nip_any_addr"
    by (simp add: nip_addr_eq_def nip_any_addr_def short_addr_def short_bytes_def)
  ultimately show ?thesis
    using small_net_addr_facts [of False] small_net_addr_ptr [of False]
    by (simp add: nip_get_firstaddr_def nip_bind_addr_check_def short_addr_valid)
qed

theorem ninet_addr_del_correct_witness:
  "\<exists>net'. ninet_addr_del 3 (short_addr 300) (small_net_addr True) = (0, net') \<and> addr_inv hash_zero net' \<and>
    addr_list (idevs net' 0) = [] \<and> idev_refcnt (idevs net' 0) = idev_refcnt (idevs (small_net_addr True) 0) - 1"
  using ninet_addr_del_correct [OF small_net_inv(2) small_net_addr_facts(5) small_net_addr_ptr, of True "short_addr 300"]
  by (auto simp: small_net_addr_facts addr_ok_eq short_addr_ok)

theorem addrconf_ifdown_correct_witness:
  "\<exists>net'. nip_addrconf_ifdown 3 True (small_net_addr True) = (0, net') \<and> addr_inv hash_zero net' \<and>
    addr_list (idevs net' 0) = [] \<and> nip_ptr (devs net' 3) = None \<and>
    idev_refcnt (idevs net' 0) = idev_refcnt (idevs (small_net_addr True) 0) - 2"
  using addrconf_ifdown_correct [OF small_net_inv(2) small_net_addr_ptr, of True True]
  by (auto simp: small_net_addr_facts)

section \<open>Addresses with odd bit lengths\<close>

text \<open>nip_addr_invalid rounds the bit length down to bytes, nip_addr_eq refuses bit lengths
  above 64. There is an address the ioctl check accepts, which is not equal to itself: it can be
  configured any number of times and ninet_addr_del never finds it.\<close>

theorem addr_accepted_never_deleted:
  "\<exists>a. wf_addr a \<and> nip_addrconf_ifaddr_check True (Some (a, 3)) = 0 \<and>
    (\<forall>d net. fst (ninet_addr_del d a net) \<noteq> 0) \<and>
    (\<forall>h32 net dev. nip_chk_same_addr h32 net a dev \<noteq> Some True)"
proof -
  let ?a = "\<lparr>bitlen = 65, field8 = [0xFE, 1, 2, 3, 4, 5, 6, 7]\<rparr> :: nip_addr"
  have e: "\<not> nip_addr_eq ?a b" "\<not> nip_addr_eq b ?a" for b by (auto simp: nip_addr_eq_def)
  have "nip_addr_invalid ?a = CURRENT_ADDR_VALID"
    by (simp add: nip_addr_valid_iff get_nip_addr_len_def addr_defs Let_def addr_range_ok_def nip_addr_tail_zero_def)
  moreover have "\<not> nip_addr_public ?a" by (simp add: nip_addr_public_def)
  moreover have "find (\<lambda>x. nip_addr_eq ?a (f x)) c = None" for f :: "nat \<Rightarrow> nip_addr" and c by (simp add: find_None_iff e)
  moreover have "\<not> same_addr_loop net ?a dev c" for net dev c by (induction c) (simp_all add: e)
  ultimately show ?thesis
    by (intro exI [of _ ?a])
      (auto simp: wf_addr_def nip_addrconf_ifaddr_check_def ninet_addr_del_def addr_find_loop_eq nip_chk_same_addr_def
        split: option.splits)
qed

section \<open>Printing\<close>

lemma buf_put_eq:
  "i + length s \<le> length buf \<Longrightarrow> buf_put buf i s = Some (take i buf @ s @ drop (i + length s) buf)"
proof (induction s arbitrary: buf i)
  case (Cons c s)
  then have "buf_put buf i (c # s) = Some (take (Suc i) (buf[i := c]) @ s @ drop (Suc i + length s) (buf[i := c]))"
    by simp
  moreover have "take (Suc i) (buf[i := c]) = take i buf @ [c]"
    using Cons.prems by (simp add: take_Suc_conv_app_nth)
  ultimately show ?case using Cons.prems by simp
qed simp

lemma sprintf_at_eq:
  "i + length s < length buf \<Longrightarrow>
    sprintf_at buf i s = Some (length s, take i buf @ s @ CHR 0x00 # drop (i + length s + 1) buf)"
  by (simp add: sprintf_at_def buf_put_eq)

lemma addr_str_loop_eq:
  assumes "k \<le> n" "n \<le> length (field8 a)" "2 + 2 * n < length buf" "2 + 2 * n \<le> buf_len" "buf ! (2 + 2 * k) = CHR 0x00"
  shows "\<exists>buf'. addr_str_loop a buf_len [k ..< n] (2 + 2 * k) buf = Some buf' \<and> length buf' = length buf \<and>
    take (2 + 2 * n) buf' = take (2 + 2 * k) buf @ concat (map hex02 (drop k (take n (field8 a)))) \<and>
    buf' ! (2 + 2 * n) = CHR 0x00"
  using assms
proof (induction "n - k" arbitrary: k buf)
  case 0
  then show ?case by simp
next
  case (Suc m)
  then have k: "k < n" by simp
  let ?h = "hex02 (field8 a ! k)"
  let ?buf = "take (2 + 2 * k) buf @ ?h @ CHR 0x00 # drop (2 + 2 * Suc k + 1) buf"
  have l: "length ?h = 2" by (simp add: hex02_def)
  have s: "sprintf_at buf (2 + 2 * k) ?h = Some (2, ?buf)"
    using sprintf_at_eq [of "2 + 2 * k" ?h buf] k Suc.prems(3) l by simp
  have tk: "length (take (2 + 2 * k) buf) = 2 + 2 * k" using k Suc.prems(3) by simp
  have lb: "length ?buf = length buf" using k Suc.prems(3) l by simp
  have z: "?buf ! (2 + 2 * Suc k) = CHR 0x00" and t: "take (2 + 2 * Suc k) ?buf = take (2 + 2 * k) buf @ ?h"
    using tk l by (simp_all add: nth_append)
  obtain buf' where IH: "addr_str_loop a buf_len [Suc k ..< n] (2 + 2 * Suc k) ?buf = Some buf'" "length buf' = length buf"
    "take (2 + 2 * n) buf' = take (2 + 2 * Suc k) ?buf @ concat (map hex02 (drop (Suc k) (take n (field8 a))))"
    "buf' ! (2 + 2 * n) = CHR 0x00"
  proof -
    have "m = n - Suc k" "Suc k \<le> n" "2 + 2 * n < length ?buf"
      using Suc.hyps(2) Suc.prems(3) k lb by linarith+
    from Suc.hyps(1) [OF this(1,2) Suc.prems(2) this(3) Suc.prems(4) z] that lb show thesis by metis
  qed
  have "drop k (take n (field8 a)) = field8 a ! k # drop (Suc k) (take n (field8 a))"
    using k Suc.prems(2) Cons_nth_drop_Suc [of k "take n (field8 a)"] by simp
  moreover have "[k ..< n] = k # [Suc k ..< n]" using k by (simp add: upt_conv_Cons)
  ultimately show ?case
    using s IH k Suc.prems(2,4) unfolding t by auto
qed

lemma mask_loop_eq:
  "(\<And>i. i \<in> set is \<Longrightarrow> i < length buf) \<Longrightarrow> mask_loop is buf = Some (fold (\<lambda>i b. b[i := CHR ''*'']) is buf)"
  by (induction "is" arbitrary: buf) auto

lemma fold_mask_take:
  "(\<And>i. i \<in> set is \<Longrightarrow> i < n) \<Longrightarrow>
    take n (fold (\<lambda>i b. b[i := CHR ''*'']) is buf) = fold (\<lambda>i b. b[i := CHR ''*'']) is (take n buf) \<and>
    fold (\<lambda>i b. b[i := CHR ''*'']) is buf ! n = buf ! n"
proof (induction "is" arbitrary: buf)
  case (Cons i "is")
  then show ?case using Cons.IH [of "buf[i := CHR ''*'']"] by (simp add: take_update_swap) (metis less_irrefl nth_list_update_neq)
qed simp

text \<open>nip_addr_to_str never writes outside a 64-byte buffer for a valid address of whole bytes:
  it leaves 0x and two hexadecimal digits a byte, with the digits of the positions it hides
  replaced by stars, and the terminating zero.\<close>

theorem addr_to_str_correct:
  assumes "wf_addr a" "nip_addr_invalid a = CURRENT_ADDR_VALID" "length buf = 64"
  defines "n \<equiv> unat (bitlen a) div 8"
  shows "\<exists>buf'. nip_addr_to_str a buf 64 = Some buf' \<and> length buf' = 64 \<and> buf' ! (2 + 2 * n) = CHR 0x00 \<and>
    take (2 + 2 * n) buf' = fold (\<lambda>i s. s[i := CHR ''*'']) (mask_positions n)
      (''0x'' @ concat (map hex02 (take n (field8 a))))"
proof -
  have n8: "n \<le> 8" "n \<le> length (field8 a)"
    using assms(1) get_nip_addr_len_le [of a] assms(2) unfolding nip_addr_valid_iff n_def wf_addr_def by auto
  let ?b = "''0x'' @ CHR 0x00 # drop 3 buf"
  have s: "sprintf_at buf 0 ''0x'' = Some (2, ?b)" using sprintf_at_eq [of 0 "''0x''" buf] assms(3) by (simp add: numeral_eq_Suc)
  obtain b where b: "addr_str_loop a 64 [0 ..< n] 2 ?b = Some b" "length b = 64"
    "take (2 + 2 * n) b = ''0x'' @ concat (map hex02 (take n (field8 a)))" "b ! (2 + 2 * n) = CHR 0x00"
    using addr_str_loop_eq [of 0 n a ?b 64] n8 assms(3) by auto
  have m: "i < 2 + 2 * n \<and> i < 64" if "i \<in> set (mask_positions n)" for i
    using that n8(1) by (auto simp: mask_positions_def split: if_splits)
  have "nip_addr_to_str a buf 64 = Some (fold (\<lambda>i b. b[i := CHR ''*'']) (mask_positions n) b)"
    unfolding nip_addr_to_str_def n_def [symmetric] Let_def using s b(1) mask_loop_eq [of "mask_positions n" b] m b(2) by simp
  moreover have "length (fold (\<lambda>i b. b[i := CHR ''*'']) is b) = length b" for "is" and b :: "char list"
    by (induction "is" arbitrary: b) auto
  ultimately show ?thesis using fold_mask_take [of "mask_positions n" "2 + 2 * n" b] m b by simp
qed

theorem addr_to_str_correct_witness:
  "\<exists>buf'. nip_addr_to_str \<lparr>bitlen = 24, field8 = [0xF1, 0x14, 0x2F, 0, 0, 0, 0, 0]\<rparr> (replicate 64 CHR 0x00) 64 = Some buf' \<and>
    take 8 buf' = ''0xf1**2f''"
proof -
  let ?a = "\<lparr>bitlen = 24, field8 = [0xF1, 0x14, 0x2F, 0, 0, 0, 0, 0]\<rparr> :: nip_addr"
  have "wf_addr ?a" "nip_addr_invalid ?a = CURRENT_ADDR_VALID"
    by (simp_all add: wf_addr_def nip_addr_valid_iff get_nip_addr_len_def addr_defs Let_def addr_range_ok_def
        nip_addr_tail_zero_def upt_rec)
  from addr_to_str_correct [OF this, of "replicate 64 CHR 0x00"]
  show ?thesis by (auto simp: mask_positions_def hex02_def)
qed

end
