(* ===== verification/NipIo.thy ===== *)
theory NipIo
  imports NipHdr NipAddrconf
begin

text \<open>
  The network layer's receive and send paths: src/src/linux/net/newip/nip_input.c, nip_output.c, protocol.c and
  nip_get_output_checksum_tcp of tcp_nip_output.c, nip_route_get_saddr of src/src/linux/include/net/nip_route.h.

  A packet is its linear buffer with positions in it. Routes are those of NipRoute, headers those of NipHdr, checksums
  those of NipChecksum. The neighbour tables, the allocation of buffers and the device are the kernel's and are
  parameters. The lemmas follow a datagram and a segment from the send path through the receive path of the peer.
\<close>

section \<open>Packets\<close>

text \<open>struct sk_buff as the receive and send paths see it: the linear buffer from the network header on, the
  position of \<^verbatim>\<open>data\<close> and of the transport header in it, the length, and the control block NIPCB.\<close>

record nip_skb =
  skb_mem :: bytes
  skb_pos :: nat
  skb_len :: u32
  skb_th :: nat
  cb_dstaddr :: nip_addr
  cb_srcaddr :: nip_addr
  cb_nexthdr :: u8
  skb_otherhost :: bool      \<comment> \<open>pkt_type is PACKET_OTHERHOST\<close>

abbreviation (input) IPPROTO_TCP :: u8 where "IPPROTO_TCP \<equiv> 6"
abbreviation (input) IPPROTO_UDP :: u8 where "IPPROTO_UDP \<equiv> 17"
abbreviation (input) NET_RX_DROP :: int where "NET_RX_DROP \<equiv> 1"

section \<open>The table of transport protocols (protocol.c)\<close>

datatype ninet_protocol = nip_tcp_protocol | nip_udp_protocol | nip_icmp_protocol

type_synonym ninet_protos = "u8 \<Rightarrow> ninet_protocol option"

definition ninet_add_protocol :: "ninet_protocol \<Rightarrow> u8 \<Rightarrow> ninet_protos \<Rightarrow> int \<times> ninet_protos" where
  "ninet_add_protocol prot p t = (if t p = None then (0, t(p \<mapsto> prot)) else (-1, t))"

definition ninet_del_protocol :: "ninet_protocol \<Rightarrow> u8 \<Rightarrow> ninet_protos \<Rightarrow> int \<times> ninet_protos" where
  "ninet_del_protocol prot p t = (if t p = Some prot then (0, t(p := None)) else (-1, t))"

section \<open>Reception (nip_input.c)\<close>

definition nip_update_recv_skb_len :: "nip_skb \<Rightarrow> nip_hdr_decap \<Rightarrow> int \<times> nip_skb" where
  "nip_update_recv_skb_len skb niph =
    (if \<not> d_include_total_len niph then (0, skb)
     else if ucast (d_total_len niph) > skb_len skb then (NET_RX_DROP, skb)
     else (0, skb\<lparr>skb_len := ucast (d_total_len niph)\<rparr>))"

text \<open>What nip_rcv does with the packet before the route is looked up: the packet is freed, or it goes on.
  shared_ok: skb_share_check returned a packet; the
  protocol number of NewIP ICMP is the kernel's. A read outside the buffer is \<^verbatim>\<open>None\<close>.\<close>

definition nip_rcv :: "u8 \<Rightarrow> bool \<Rightarrow> nip_skb \<Rightarrow> nip_skb option option" where
  "nip_rcv IPPROTO_NIP_ICMP shared_ok skb =
    (if skb_otherhost skb then Some None
     else if \<not> shared_ok then Some None
     else
       let skb = skb\<lparr>cb_dstaddr := zero_addr, cb_srcaddr := zero_addr, cb_nexthdr := 0\<rparr> in
       case nip_hdr_parse (drop (skb_pos skb) (skb_mem skb)) (skb_len skb) zero_decap of
         None \<Rightarrow> None
       | Some (offset, niph) \<Rightarrow>
         if offset \<le> 0 then Some None
         else if d_nexthdr niph \<noteq> IPPROTO_UDP \<and> d_nexthdr niph \<noteq> IPPROTO_TCP \<and> d_nexthdr niph \<noteq> IPPROTO_NIP_ICMP
         then Some None
         else
           let niph = niph\<lparr>d_total_len := ntohs (d_total_len niph)\<rparr>;
               skb = skb\<lparr>cb_dstaddr := d_daddr niph, cb_srcaddr := d_saddr niph, cb_nexthdr := d_nexthdr niph,
                         skb_th := nat offset\<rparr>;
               (ret, skb) = nip_update_recv_skb_len skb niph
           in if ret \<noteq> 0 then Some None else Some (Some skb))"

text \<open>Where a packet goes after its route is known.\<close>

datatype packet_fate = Freed | Local nip_skb | Forwarded "nat option" nip_addr nip_skb

definition nip_neigh_output ::
  "(nat option \<Rightarrow> nip_addr \<Rightarrow> bool) \<Rightarrow> (nat option \<Rightarrow> nip_addr \<Rightarrow> nip_skb \<Rightarrow> int) \<Rightarrow> netns_newip \<Rightarrow> rt_id \<Rightarrow> nip_skb
    \<Rightarrow> int \<times> packet_fate" where
  "nip_neigh_output neigh_ok neigh_out net r skb =
    (let dev = dst_dev (rts net r); nexthop = nip_nexthop (rts net r) (cb_dstaddr skb) in
     if neigh_ok dev nexthop then (neigh_out dev nexthop skb, Forwarded dev nexthop skb) else (0, Freed))"

definition nip_forward ::
  "(nat option \<Rightarrow> nip_addr \<Rightarrow> bool) \<Rightarrow> (nat option \<Rightarrow> nip_addr \<Rightarrow> nip_skb \<Rightarrow> int) \<Rightarrow> netns_newip \<Rightarrow> rt_id \<Rightarrow> nip_skb
    \<Rightarrow> int \<times> packet_fate" where
  "nip_forward neigh_ok neigh_out net r skb = nip_neigh_output neigh_ok neigh_out net r skb"

text \<open>dst_input calls the input function of the route (nip_pkt_discard frees the packet).\<close>

definition nip_dst_input ::
  "(nat option \<Rightarrow> nip_addr \<Rightarrow> bool) \<Rightarrow> (nat option \<Rightarrow> nip_addr \<Rightarrow> nip_skb \<Rightarrow> int) \<Rightarrow> netns_newip \<Rightarrow> rt_id \<Rightarrow> nip_skb
    \<Rightarrow> (int \<times> packet_fate) option" where
  "nip_dst_input neigh_ok neigh_out net r skb =
    (case dst_input (rts net r) of
       Fun_nip_input \<Rightarrow> Some (0, Local skb)
     | Fun_nip_forward \<Rightarrow> Some (nip_forward neigh_ok neigh_out net r skb)
     | Fun_nip_pkt_discard \<Rightarrow> Some (0, Freed)
     | _ \<Rightarrow> None)"

text \<open>early is the route that early demultiplexing attached to the packet, when it is enabled and the protocol
  has such a function; then the route is not looked up.\<close>

definition nip_rcv_finish ::
  "hash32 \<Rightarrow> nat \<Rightarrow> (fib_tb_id \<Rightarrow> rt_id option) \<Rightarrow> (nat option \<Rightarrow> nip_addr \<Rightarrow> bool) \<Rightarrow> (nat option \<Rightarrow> nip_addr \<Rightarrow> nip_skb \<Rightarrow> int)
    \<Rightarrow> rt_id option \<Rightarrow> nat \<Rightarrow> nip_skb \<Rightarrow> netns_newip \<Rightarrow> (int \<times> packet_fate \<times> netns_newip) option" where
  "nip_rcv_finish h32 cpu new neigh_ok neigh_out early dev skb net =
    (case early of
       Some r \<Rightarrow> map_option (\<lambda>(ret, f). (ret, f, net)) (nip_dst_input neigh_ok neigh_out net r skb)
     | None \<Rightarrow>
       (case nip_route_input h32 cpu new dev (cb_dstaddr skb) net of
          None \<Rightarrow> None
        | Some (err, r, net) \<Rightarrow>
          if err \<noteq> 0 then Some (0, Freed, net)
          else map_option (\<lambda>(ret, f). (ret, f, net)) (nip_dst_input neigh_ok neigh_out net r skb)))"

text \<open>pskb_pull moves data to the transport header when the packet is long enough; then the handler of the
  protocol gets the packet, if there is one.\<close>

definition nip_protocol_deliver_rcu :: "ninet_protos \<Rightarrow> nip_skb \<Rightarrow> (ninet_protocol \<times> nip_skb) option" where
  "nip_protocol_deliver_rcu protos skb =
    (let off = skb_th skb - skb_pos skb in
     if off > unat (skb_len skb) then None
     else
       let skb = skb\<lparr>skb_pos := skb_pos skb + off, skb_len := skb_len skb - of_nat off\<rparr> in
       case protos (cb_nexthdr skb) of None \<Rightarrow> None | Some p \<Rightarrow> Some (p, skb))"

definition nip_input :: "ninet_protos \<Rightarrow> nip_skb \<Rightarrow> int \<times> (ninet_protocol \<times> nip_skb) option" where
  "nip_input protos skb = (0, nip_protocol_deliver_rcu protos skb)"

section \<open>Routes of local packets (nip_output.c)\<close>

text \<open>Only the null entry has an error.\<close>

definition dst_error :: "netns_newip \<Rightarrow> rt_id \<Rightarrow> int" where
  "dst_error net r = (if r = null_entry net then - ENETUNREACH else 0)"

definition nip_sk_dst_check :: "netns_newip \<Rightarrow> rt_id \<Rightarrow> int \<Rightarrow> int option" where
  "nip_sk_dst_check net r flowin_oif =
    (if flowin_oif = 0 then Some 0
     else case dst_dev (rts net r) of None \<Rightarrow> None
       | Some d \<Rightarrow> Some (if flowin_oif \<noteq> int d then - EPERM else 0))"

definition nip_route_get_saddr :: "netns_newip \<Rightarrow> rt_id \<Rightarrow> nip_addr result" where
  "nip_route_get_saddr net r =
    nip_dev_get_saddr (map_option (\<lambda>i. idev_dev (idevs net i)) (rt_idev (rts net r))) net"

text \<open>nip_dst_lookup_tail for a flow without a route: the route and the source address, or the error, after
  which the route is released. oif 0 is no device.\<close>

definition nip_dst_lookup_tail ::
  "hash32 \<Rightarrow> nat \<Rightarrow> (fib_tb_id \<Rightarrow> rt_id option) \<Rightarrow> nip_addr \<Rightarrow> nip_addr \<Rightarrow> int \<Rightarrow> netns_newip
    \<Rightarrow> ((rt_id \<times> nip_addr) result \<times> netns_newip) option" where
  "nip_dst_lookup_tail h32 cpu new daddr saddr oif net = do {
     (r, saddr, net) \<leftarrow> nip_route_output_flags h32 cpu new daddr saddr net;
     if dst_error net r \<noteq> 0 then Some (Inl (dst_error net r), dst_release r net)
     else do {
       err \<leftarrow> nip_sk_dst_check net r oif;
       if err \<noteq> 0 then Some (Inl err, dst_release r net)
       else if r = broadcast_entry net then Some (Inr (r, daddr), net)
       else (case nip_route_get_saddr net r of
           Inl err \<Rightarrow> if err \<noteq> 0 then Some (Inl err, dst_release r net) else Some (Inr (r, saddr), net)
         | Inr saddr \<Rightarrow> Some (Inr (r, saddr), net))
     }
   }"

definition nip_sk_dst_lookup_flow ::
  "hash32 \<Rightarrow> nat \<Rightarrow> (fib_tb_id \<Rightarrow> rt_id option) \<Rightarrow> nip_addr \<Rightarrow> nip_addr \<Rightarrow> int \<Rightarrow> netns_newip
    \<Rightarrow> ((rt_id \<times> nip_addr) result \<times> netns_newip) option" where
  "nip_sk_dst_lookup_flow h32 cpu new daddr saddr oif net = nip_dst_lookup_tail h32 cpu new daddr saddr oif net"

text \<open>The destination of the flow becomes final_dst, when given.\<close>

definition nip_dst_lookup_flow ::
  "hash32 \<Rightarrow> nat \<Rightarrow> (fib_tb_id \<Rightarrow> rt_id option) \<Rightarrow> nip_addr \<Rightarrow> nip_addr \<Rightarrow> int \<Rightarrow> nip_addr option \<Rightarrow> netns_newip
    \<Rightarrow> ((rt_id \<times> nip_addr \<times> nip_addr) result \<times> netns_newip) option" where
  "nip_dst_lookup_flow h32 cpu new daddr saddr oif final_dst net = do {
     (res, net) \<leftarrow> nip_dst_lookup_tail h32 cpu new daddr saddr oif net;
     Some (case res of Inl err \<Rightarrow> Inl err
       | Inr (r, saddr) \<Rightarrow> Inr (r, saddr, case final_dst of None \<Rightarrow> daddr | Some a \<Rightarrow> a), net)
   }"

section \<open>Sending (nip_output.c)\<close>

definition NIP_ETH_HDR_LEN :: nat where "NIP_ETH_HDR_LEN = 14 + 2 + 66"
definition NIP_DEFAULT_TTL :: u8 where "NIP_DEFAULT_TTL = 128"

text \<open>What the send path gets from the kernel: a new buffer with its (uninitialised) contents, the result of
  nip_output (the neighbour and the device) and its translation to an error.\<close>

record send_env =
  alloc_skb :: "nat \<Rightarrow> bytes option"
  nip_dst_output :: "bytes \<Rightarrow> int"
  net_xmit_errno :: "int \<Rightarrow> int"

text \<open>dst_output calls the output function of the route of the packet: the result, and the packet handed on, if
  it is not freed. nip_pkt_discard_out, of the null entry, frees it and returns 0. None: the route has no such function.\<close>

definition nip_local_out :: "send_env \<Rightarrow> dst_fun \<Rightarrow> bytes \<Rightarrow> (int \<times> bytes option) option" where
  "nip_local_out e out pkt =
    (case out of
       Fun_nip_output \<Rightarrow> Some (nip_dst_output e pkt, Some pkt)
     | Fun_nip_pkt_discard_out \<Rightarrow> Some (0, None)
     | _ \<Rightarrow> None)"

definition nip_send_skb :: "send_env \<Rightarrow> dst_fun \<Rightarrow> bytes \<Rightarrow> (int \<times> bytes option) option" where
  "nip_send_skb e out pkt = do {
     (err, p) \<leftarrow> nip_local_out e out pkt;
     Some (if err > 0 then net_xmit_errno e err else err, p)
   }"

definition nip_get_output_checksum :: "bytes \<Rightarrow> nip_addr \<Rightarrow> nip_addr \<Rightarrow> u32 \<Rightarrow> u32 \<Rightarrow> u16 option" where
  "nip_get_output_checksum udp_hdr srcaddr dstaddr trans_hdr_len usr_data_len =
    (let check_len = ucast (trans_hdr_len + usr_data_len) in
     nip_check_sum_build udp_hdr check_len
       \<lparr>ps_saddr = srcaddr, ps_daddr = dstaddr, ps_check_len = htons check_len, ps_nexthdr = IPPROTO_UDP\<rparr>)"

definition nip_alloc_skb :: "send_env \<Rightarrow> nip_hdr_encap \<Rightarrow> u32 \<Rightarrow> u32 \<Rightarrow> bytes option" where
  "nip_alloc_skb e head trans_hdr_len mid_len =
    (let nip_hdr_len = get_nip_hdr_len NIP_HDR_UDP (Some (e_saddr head)) (Some (e_daddr head));
         nip_hdr_len = (if nip_hdr_len = 0 then NIP_HDR_MAX else nip_hdr_len) in
     alloc_skb e (NIP_ETH_HDR_LEN + nip_hdr_len + unat trans_hdr_len + unat mid_len))"

text \<open>One datagram: the result, the packet handed to the device, the header state and the user data that is left.
  The copy from the user stops where the data ends; its length is only compared with zero.\<close>

definition nip_udp_single_output ::
  "send_env \<Rightarrow> dst_fun \<Rightarrow> nip_hdr_encap \<Rightarrow> u16 \<Rightarrow> u16 \<Rightarrow> u32 \<Rightarrow> u32 \<Rightarrow> u32 \<Rightarrow> bytes \<Rightarrow> (int \<times> bytes option \<times> nip_hdr_encap \<times> bytes) option" where
  "nip_udp_single_output e out head sport dport trans_hdr_len usr_data_len mid_len from =
    (case nip_alloc_skb e head trans_hdr_len mid_len of
       None \<Rightarrow> Some (- ENOMEM, None, head, from)
     | Some mem \<Rightarrow> do {
         head \<leftarrow> nip_hdr_udp_encap (head\<lparr>e_hdr_buf := drop NIP_ETH_HDR_LEN mem\<rparr>);
         let th = e_hdr_buf_pos head;
             len = htons (ucast (trans_hdr_len + usr_data_len)) in do {
           buf \<leftarrow> nip_build_udp_hdr sport dport len (e_hdr_buf head) th (htons 0);
           buf \<leftarrow> write_bytes buf (th + unat trans_hdr_len) (take (unat usr_data_len) from);
           check \<leftarrow> nip_get_output_checksum (drop th buf) (e_saddr head) (e_daddr head) trans_hdr_len usr_data_len;
           buf \<leftarrow> nip_build_udp_hdr sport dport len buf th (htons check);
           let n = th + unat trans_hdr_len + unat usr_data_len in
           if n > length buf then None
           else do {
             (ret, sent) \<leftarrow> nip_send_skb e out (take n buf);
             Some (ret, sent, head\<lparr>e_hdr_buf := buf\<rparr>, drop (unat usr_data_len) from)
           }
         }
       })"

text \<open>The loop over the intermediate segments; the packets sent are collected in order.\<close>

fun udp_output_loop ::
  "send_env \<Rightarrow> dst_fun \<Rightarrow> u16 \<Rightarrow> u16 \<Rightarrow> u32 \<Rightarrow> u32 \<Rightarrow> nat \<Rightarrow> nip_hdr_encap \<Rightarrow> bytes \<Rightarrow> (int \<times> bytes list \<times> nip_hdr_encap \<times> bytes) option" where
  "udp_output_loop e out sport dport tlen mid 0 head from = Some (0, [], head, from)"
| "udp_output_loop e out sport dport tlen mid (Suc n) head from = do {
     (ret, pkt, head, from) \<leftarrow> nip_udp_single_output e out head sport dport tlen mid mid from;
     let sent = (case pkt of None \<Rightarrow> [] | Some p \<Rightarrow> [p]) in
     if ret \<noteq> 0 then Some (ret, sent, head, from)
     else do {
       (ret, pkts, head, from) \<leftarrow> udp_output_loop e out sport dport tlen mid n head from;
       Some (ret, sent @ pkts, head, from)
     }
   }"

definition nip_udp_output_pkts ::
  "send_env \<Rightarrow> dst_fun \<Rightarrow> u32 \<Rightarrow> bytes \<Rightarrow> u32 \<Rightarrow> u32 \<Rightarrow> nip_addr \<Rightarrow> u16 \<Rightarrow> nip_addr \<Rightarrow> u16 \<Rightarrow> (int \<times> bytes list) option" where
  "nip_udp_output_pkts e out mtu from datalen transhdrlen saddr sport daddr dport =
    (let nip_hdr_len = get_nip_hdr_len NIP_HDR_UDP (Some saddr) (Some daddr);
         head = \<lparr>e_daddr = daddr, e_saddr = saddr, e_ttl = NIP_DEFAULT_TTL, e_nexthdr = IPPROTO_UDP, e_hdr_buf = [],
                 e_hdr_buf_pos = 0, e_hdr_len_pos = None, e_total_len_pos = None\<rparr>;
         nip_hdr_len = (if nip_hdr_len = 0 then NIP_HDR_MAX else nip_hdr_len) in do {
       seg \<leftarrow> nip_calc_pkt_frag_num mtu (of_nat nip_hdr_len) datalen;
       (ret, pkts, head, from) \<leftarrow>
         udp_output_loop e out sport dport transhdrlen (mid_usr_pkt_len seg) (unat (mid_pkt_num seg)) head from;
       if ret \<noteq> 0 \<or> last_pkt_num seg = 0 then Some (ret, pkts)
       else do {
         (ret, pkt, head, from) \<leftarrow>
           nip_udp_single_output e out head sport dport transhdrlen (last_usr_pkt_len seg) (mid_usr_pkt_len seg) from;
         Some (ret, pkts @ (case pkt of None \<Rightarrow> [] | Some p \<Rightarrow> [p]))
       }
     })"

section \<open>The packets of a datagram\<close>

definition udp8 :: "u16 \<Rightarrow> u16 \<Rightarrow> u16 \<Rightarrow> u16 \<Rightarrow> bytes" where
  "udp8 sport dport len check = [lo8 sport, hi8 sport, lo8 dport, hi8 dport, lo8 len, hi8 len, lo8 check, hi8 check]"

lemma length_udp8 [simp]: "length (udp8 sport dport len check) = 8"
  by (simp add: udp8_def)

lemma build_udp_hdr_at:
  assumes "8 \<le> length rest"
  shows "nip_build_udp_hdr sport dport len (pre @ rest) (length pre) check = Some (pre @ udp8 sport dport len check @ drop 8 rest)"
proof -
  have "\<exists>a0 a1 a2 a3 a4 a5 a6 a7. rest = [a0, a1, a2, a3, a4, a5, a6, a7] @ drop 8 rest"
  proof -
    have "length (take 8 rest) = 8" using assms by simp
    then obtain a0 a1 a2 a3 a4 a5 a6 a7 where "take 8 rest = [a0, a1, a2, a3, a4, a5, a6, a7]"
      by (rule length8_cases)
    then show ?thesis by (metis append_take_drop_id)
  qed
  then obtain a0 a1 a2 a3 a4 a5 a6 a7 r where r: "rest = [a0, a1, a2, a3, a4, a5, a6, a7] @ r" "drop 8 rest = r" by blast
  have st: "k + 1 < length rest \<Longrightarrow> st16 (pre @ rest) (length pre + k) w = Some (pre @ rest[k := lo8 w, k + 1 := hi8 w])" for k w rest
    by (simp add: st16_def list_update_append)
  have "st16 (pre @ a0 # a1 # x) (length pre) w = Some (pre @ lo8 w # hi8 w # x)"
    "st16 (pre @ a0 # a1 # a2 # a3 # x) (length pre + 2) w = Some (pre @ a0 # a1 # lo8 w # hi8 w # x)"
    "st16 (pre @ a0 # a1 # a2 # a3 # a4 # a5 # x) (length pre + 4) w = Some (pre @ a0 # a1 # a2 # a3 # lo8 w # hi8 w # x)"
    "st16 (pre @ a0 # a1 # a2 # a3 # a4 # a5 # a6 # a7 # x) (length pre + 6) w
      = Some (pre @ a0 # a1 # a2 # a3 # a4 # a5 # lo8 w # hi8 w # x)" for a0 a1 a2 a3 a4 a5 a6 a7 x w
    using st [of 0 "a0 # a1 # x" w] st [of 2 "a0 # a1 # a2 # a3 # x" w] st [of 4 "a0 # a1 # a2 # a3 # a4 # a5 # x" w]
      st [of 6 "a0 # a1 # a2 # a3 # a4 # a5 # a6 # a7 # x" w] by simp_all
  then show ?thesis unfolding r(2) unfolding r(1) by (simp add: nip_build_udp_hdr_def udp8_def)
qed

definition pseudo_for :: "nip_addr \<Rightarrow> nip_addr \<Rightarrow> u16 \<Rightarrow> nip_pseudo_header" where
  "pseudo_for saddr daddr len = \<lparr>ps_saddr = saddr, ps_daddr = daddr, ps_check_len = htons len, ps_nexthdr = IPPROTO_UDP\<rparr>"

lemma wf_pseudo_for: "valid_addr s \<Longrightarrow> valid_addr d \<Longrightarrow> wf_pseudo (pseudo_for s d n)"
  using valid_addrD(1,3) [of s] valid_addrD(1,3) [of d] get_nip_addr_len_le [of s] get_nip_addr_len_le [of d]
  by (simp add: wf_pseudo_def pseudo_for_def)

lemma checksum_take:
  assumes "wf_pseudo h" "unat n \<le> length data"
  shows "nip_check_sum_parse (take (unat n) data) n h = nip_check_sum_parse data n h"
    "nip_check_sum_build (take (unat n) data) n h = nip_check_sum_build data n h"
  using assms by (simp_all add: nip_check_sum_parse_eq nip_check_sum_build_eq total16_def)

lemma udp_checksum_inserted:
  assumes "valid_addr s" "valid_addr d" "length payload + 8 < 65536" "n = of_nat (length payload + 8)"
  shows "\<exists>c. nip_check_sum_build (udp8 sport dport len 0 @ payload @ tail) n (pseudo_for s d n) = Some c \<and>
    nip_check_sum_parse (udp8 sport dport len (htons c) @ payload) n (pseudo_for s d n) = Some 0xFFFF"
proof -
  have n: "unat n = length payload + 8" using assms(3,4) by (simp add: unat_of_nat del: of_nat_add)
  let ?d = "udp8 sport dport len 0 @ payload"
  have "\<exists>c. nip_check_sum_build ?d n (pseudo_for s d n) = Some c \<and>
      nip_check_sum_parse (?d[6 := hi8 c, 6 + 1 := lo8 c]) n (pseudo_for s d n) = Some 0xFFFF"
    by (rule checksum_build_parse [OF wf_pseudo_for [OF assms(1,2)]])
      (simp_all add: n udp8_def lo8_def hi8_def)
  moreover have "?d[6 := hi8 c, 6 + 1 := lo8 c] = udp8 sport dport len (htons c) @ payload" for c
    by (simp add: udp8_def list_update_append)
  moreover have "nip_check_sum_build (?d @ tail) n (pseudo_for s d n) = nip_check_sum_build ?d n (pseudo_for s d n)"
    using checksum_take(2) [OF wf_pseudo_for [OF assms(1,2)], of n "?d @ tail" n] by (simp add: n)
  ultimately show ?thesis by simp
qed

text \<open>A datagram as it leaves: the header for its addresses, the UDP header with the right length, the payload,
  and a checksum that verifies.\<close>

definition udp_packet_of :: "nip_addr \<Rightarrow> nip_addr \<Rightarrow> u8 \<Rightarrow> u16 \<Rightarrow> u16 \<Rightarrow> bytes \<Rightarrow> bytes \<Rightarrow> bool" where
  "udp_packet_of saddr daddr ttl sport dport payload pkt \<longleftrightarrow>
    (\<exists>check. pkt = udp_hdr_bytes daddr saddr ttl IPPROTO_UDP @ udp8 sport dport (htons (of_nat (length payload + 8))) check @ payload \<and>
      nip_check_sum_parse (udp8 sport dport (htons (of_nat (length payload + 8))) check @ payload) (of_nat (length payload + 8))
        (pseudo_for saddr daddr (of_nat (length payload + 8))) = Some 0xFFFF)"

lemma single_output_packet:
  assumes v: "valid_addr (e_daddr head)" "valid_addr (e_saddr head)" and nh: "e_nexthdr head = IPPROTO_UDP"
    and mem: "\<And>n. \<exists>m. alloc_skb e n = Some m \<and> length m = n"
    and ok: "\<And>p. nip_send_skb e out p = Some (0, Some p)"
    and n: "unat usr \<le> unat mid" "unat usr \<le> length from" "unat usr + 8 < 65536"
  shows "\<exists>pkt head'. nip_udp_single_output e out head sport dport 8 usr mid from
      = Some (0, Some pkt, head', drop (unat usr) from) \<and>
    udp_packet_of (e_saddr head) (e_daddr head) (e_ttl head) sport dport (take (unat usr) from) pkt \<and>
    e_daddr head' = e_daddr head \<and> e_saddr head' = e_saddr head \<and> e_ttl head' = e_ttl head \<and> e_nexthdr head' = e_nexthdr head"
proof -
  let ?hl = "get_nip_hdr_len NIP_HDR_UDP (Some (e_saddr head)) (Some (e_daddr head))"
  let ?hb = "udp_hdr_bytes (e_daddr head) (e_saddr head) (e_ttl head) (e_nexthdr head)"
  define pl where "pl = take (unat usr) from"
  have hl: "?hl \<noteq> 0" "length ?hb \<le> ?hl"
    using valid_addrD(6) [OF v(1)] valid_addrD(6) [OF v(2)] by (simp_all add: hdr_bytes_length(1) [OF v] get_nip_hdr_len_def)
  obtain m where m: "nip_alloc_skb e head 8 mid = Some m" "length m = NIP_ETH_HDR_LEN + ?hl + 8 + unat mid"
    using mem [of "NIP_ETH_HDR_LEN + ?hl + 8 + unat mid"] hl(1) by (auto simp: nip_alloc_skb_def Let_def)
  let ?h0 = "head\<lparr>e_hdr_buf := drop NIP_ETH_HDR_LEN m\<rparr>"
  have b0: "length (e_hdr_buf ?h0) = ?hl + 8 + unat mid" using m(2) by simp
  obtain h1 where h1: "nip_hdr_udp_encap ?h0 = Some h1" "written ?h0 (e_total_len_pos ?h0) ?hb h1"
    using nip_hdr_udp_encap_layout [of ?h0] v hl(2) b0 by fastforce
  define rest where "rest = drop (length ?hb) (e_hdr_buf ?h0)"
  have lr: "8 + unat mid \<le> length rest" using b0 hl(2) by (simp add: rest_def)
  have buf: "e_hdr_buf h1 = ?hb @ rest" and pos: "e_hdr_buf_pos h1 = length ?hb"
    and keep: "e_daddr h1 = e_daddr head" "e_saddr h1 = e_saddr head" "e_ttl h1 = e_ttl head" "e_nexthdr h1 = e_nexthdr head"
    using h1(2) by (simp_all add: written_def rest_def)
  define len where "len = (of_nat (length pl + 8) :: u16)"
  have lp: "length pl = unat usr" using n(2) by (simp add: pl_def)
  have len_eq: "(ucast (8 + usr) :: u16) = len"
  proof (rule word_unat_eq_iff [THEN iffD2])
    have "unat (8 + usr) = 8 + unat usr" using n(3) by (simp add: unat_word_ariths)
    then show "unat (ucast (8 + usr) :: u16) = unat len"
      using n(3) lp by (simp add: len_def unsigned_ucast_eq take_bit_eq_mod unat_of_nat del: of_nat_add)
  qed
  let ?tail = "drop (8 + unat usr) rest"
  obtain c where c: "nip_check_sum_build (udp8 sport dport (htons len) 0 @ pl @ ?tail) len (pseudo_for (e_saddr head) (e_daddr head) len) = Some c"
    "nip_check_sum_parse (udp8 sport dport (htons len) (htons c) @ pl) len (pseudo_for (e_saddr head) (e_daddr head) len) = Some 0xFFFF"
    using udp_checksum_inserted [OF v(2,1), of pl len sport dport "htons len" ?tail] n(3) lp by (auto simp: len_def)
  let ?pkt = "?hb @ udp8 sport dport (htons len) (htons c) @ pl"
  have 1: "nip_build_udp_hdr sport dport (htons len) (e_hdr_buf h1) (length ?hb) (htons 0) = Some (?hb @ udp8 sport dport (htons len) 0 @ drop 8 rest)"
  proof -
    have "htons 0 = 0" by (simp add: ntohs_def be16_def lo8_def hi8_def)
    then show ?thesis unfolding buf using build_udp_hdr_at [of rest sport dport "htons len" ?hb 0] lr by simp
  qed
  have 2: "write_bytes (?hb @ udp8 sport dport (htons len) 0 @ drop 8 rest) (length ?hb + 8) pl
      = Some (?hb @ udp8 sport dport (htons len) 0 @ pl @ ?tail)"
    using write_bytes_at [of pl "drop 8 rest" "?hb @ udp8 sport dport (htons len) 0"] lr lp n(1) by (simp add: add.commute)
  have 3: "nip_build_udp_hdr sport dport (htons len) (?hb @ udp8 sport dport (htons len) 0 @ pl @ ?tail) (length ?hb) (htons c)
      = Some (?pkt @ ?tail)"
    using build_udp_hdr_at [of "udp8 sport dport (htons len) 0 @ pl @ ?tail" sport dport "htons len" ?hb "htons c"] by simp
  have lpk: "length ?pkt = length ?hb + 8 + unat usr" using lp by simp
  have tk: "take (length ?hb + 8 + unat usr) (?pkt @ ?tail) = ?pkt" unfolding lpk [symmetric] by simp
  have "nip_udp_single_output e out head sport dport 8 usr mid from
      = Some (0, Some ?pkt, h1\<lparr>e_hdr_buf := ?pkt @ ?tail\<rparr>, drop (unat usr) from)"
    using tk lpk unfolding nip_udp_single_output_def m(1) option.case h1(1) Option.bind.bind_lunit Let_def pos len_eq
    by (simp add: 1 2 3 keep ok nip_get_output_checksum_def len_eq c(1) [unfolded pseudo_for_def] Let_def flip: pl_def)
  moreover have "udp_packet_of (e_saddr head) (e_daddr head) (e_ttl head) sport dport pl ?pkt"
    unfolding udp_packet_of_def using c(2) nh len_def by metis
  ultimately show ?thesis unfolding pl_def using keep by fastforce
qed

lemma frag_some:
  assumes "unat hdr + 8 \<le> unat mtu" "unat hdr + 16 \<le> unat mtu"
  shows "\<exists>s. nip_calc_pkt_frag_num mtu hdr len = Some s"
proof -
  have "8 \<le> unat mtu - unat hdr - 8" using assms(2) by simp
  then have "0 < (unat mtu - unat hdr - 8) - (unat mtu - unat hdr - 8) mod 8"
    by (metis less_le_trans mod_less_divisor zero_less_diff zero_less_numeral)
  then have "and (mtu - hdr - of_nat NIP_UDP_HDR_LEN) (not 7) \<noteq> 0"
    using frag_mid_len [OF assms(1)] by (metis unat_0 less_irrefl)
  then show ?thesis by (simp add: nip_calc_pkt_frag_num_def Let_def split: prod.split)
qed

text \<open>Without user data one empty segment is sent.\<close>

lemma frag_num_parts0:
  assumes "nip_calc_pkt_frag_num mtu hdr len = Some s" "unat hdr + 8 \<le> unat mtu"
  shows "unat (mid_pkt_num s) * unat (mid_usr_pkt_len s) + unat (last_usr_pkt_len s) = unat len"
    "unat (last_usr_pkt_len s) \<le> unat (mid_usr_pkt_len s)" "unat hdr + 8 + unat (mid_usr_pkt_len s) \<le> unat mtu" "last_pkt_num s = 1"
proof -
  have "unat (mid_pkt_num s) * unat (mid_usr_pkt_len s) + unat (last_usr_pkt_len s) = unat len \<and>
    unat (last_usr_pkt_len s) \<le> unat (mid_usr_pkt_len s) \<and> unat hdr + 8 + unat (mid_usr_pkt_len s) \<le> unat mtu \<and> last_pkt_num s = 1"
  proof (cases "len = 0")
    case True
    have "unat (and (mtu - hdr - of_nat NIP_UDP_HDR_LEN) (not 7)) \<le> unat mtu - unat hdr - 8"
      using frag_mid_len [OF assms(2)] by simp
    then show ?thesis using assms True by (auto simp: nip_calc_pkt_frag_num_def Let_def word_div_def split: if_splits)
  qed (use frag_num_parts [OF assms(1) _ assms(2)] in blast)
  then show "unat (mid_pkt_num s) * unat (mid_usr_pkt_len s) + unat (last_usr_pkt_len s) = unat len"
    "unat (last_usr_pkt_len s) \<le> unat (mid_usr_pkt_len s)" "unat hdr + 8 + unat (mid_usr_pkt_len s) \<le> unat mtu" "last_pkt_num s = 1"
    by blast+
qed

lemma udp_output_loop_packets:
  assumes v: "valid_addr (e_daddr head)" "valid_addr (e_saddr head)" and nh: "e_nexthdr head = IPPROTO_UDP"
    and mem: "\<And>n. \<exists>m. alloc_skb e n = Some m \<and> length m = n" and ok: "\<And>p. nip_send_skb e out p = Some (0, Some p)"
    and n: "k * unat mid \<le> length from" "unat mid + 8 < 65536"
  shows "\<exists>pkts chunks head'. udp_output_loop e out sport dport 8 mid k head from = Some (0, pkts, head', drop (k * unat mid) from) \<and>
    concat chunks = take (k * unat mid) from \<and> list_all2 (udp_packet_of (e_saddr head) (e_daddr head) (e_ttl head) sport dport) chunks pkts \<and>
    (\<forall>c \<in> set chunks. length c = unat mid) \<and>
    e_daddr head' = e_daddr head \<and> e_saddr head' = e_saddr head \<and> e_ttl head' = e_ttl head \<and> e_nexthdr head' = e_nexthdr head"
  using v nh n(1)
proof (induction k arbitrary: head "from")
  case (Suc k)
  obtain pkt h1 where 1: "nip_udp_single_output e out head sport dport 8 mid mid from = Some (0, Some pkt, h1, drop (unat mid) from)"
    "udp_packet_of (e_saddr head) (e_daddr head) (e_ttl head) sport dport (take (unat mid) from) pkt"
    and k: "e_daddr h1 = e_daddr head" "e_saddr h1 = e_saddr head" "e_ttl h1 = e_ttl head" "e_nexthdr h1 = e_nexthdr head"
    using single_output_packet [OF Suc.prems(1,2,3) mem ok, of mid mid "from" sport dport] Suc.prems(4) n(2) ok by fastforce
  have l: "k * unat mid \<le> length (drop (unat mid) from)" using Suc.prems(4) by simp
  obtain pkts chunks h2 where 2: "udp_output_loop e out sport dport 8 mid k h1 (drop (unat mid) from)
      = Some (0, pkts, h2, drop (k * unat mid) (drop (unat mid) from))"
    "concat chunks = take (k * unat mid) (drop (unat mid) from)"
    "list_all2 (udp_packet_of (e_saddr head) (e_daddr head) (e_ttl head) sport dport) chunks pkts"
    "\<forall>c \<in> set chunks. length c = unat mid"
    and k2: "e_daddr h2 = e_daddr head" "e_saddr h2 = e_saddr head" "e_ttl h2 = e_ttl head" "e_nexthdr h2 = e_nexthdr head"
    using Suc.IH [of h1 "drop (unat mid) from"] Suc.prems k l by force
  have "concat (take (unat mid) from # chunks) = take (Suc k * unat mid) from"
    using 2(2) by (simp add: take_add)
  moreover have "length (take (unat mid) from) = unat mid" using Suc.prems(4) by simp
  ultimately show ?case
    using 1 2 k2 by (intro exI [of _ "pkt # pkts"] exI [of _ "take (unat mid) from # chunks"] exI [of _ h2])
      (simp add: add.commute)
qed simp

lemma udp_output_packets:
  assumes v: "valid_addr saddr" "valid_addr daddr"
    and mem: "\<And>n. \<exists>m. alloc_skb e n = Some m \<and> length m = n" and ok: "\<And>p. nip_send_skb e out p = Some (0, Some p)"
    and mtu: "get_nip_hdr_len NIP_HDR_UDP (Some saddr) (Some daddr) + 16 \<le> unat mtu" "unat mtu < 65536"
    and len: "length data < 4294967296"
  shows "\<exists>pkts chunks. nip_udp_output_pkts e out mtu data (of_nat (length data)) 8 saddr sport daddr dport = Some (0, pkts) \<and>
    concat chunks = data \<and> list_all2 (udp_packet_of saddr daddr NIP_DEFAULT_TTL sport dport) chunks pkts \<and>
    (\<forall>c \<in> set chunks. get_nip_hdr_len NIP_HDR_UDP (Some saddr) (Some daddr) + 8 + length c \<le> unat mtu)"
proof -
  let ?hl = "get_nip_hdr_len NIP_HDR_UDP (Some saddr) (Some daddr)"
  let ?len = "of_nat (length data) :: u32"
  have hl: "?hl \<noteq> 0" "?hl \<le> 20"
    using valid_addrD(6) [OF v(1)] valid_addrD(6) [OF v(2)] get_nip_addr_len_le [of saddr] get_nip_addr_len_le [of daddr]
    by (auto simp: get_nip_hdr_len_def)
  then have uhl: "unat (of_nat ?hl :: u32) = ?hl" by (simp add: unat_of_nat)
  have ul: "unat ?len = length data" using len by (simp add: unat_of_nat)
  have m8: "unat (of_nat ?hl :: u32) + 8 \<le> unat mtu" using mtu(1) uhl by simp
  obtain s where s: "nip_calc_pkt_frag_num mtu (of_nat ?hl) ?len = Some s"
    using frag_some [OF m8] mtu(1) uhl by auto
  let ?mid = "unat (mid_usr_pkt_len s)" and ?last = "unat (last_usr_pkt_len s)" and ?k = "unat (mid_pkt_num s)"
  have part: "?k * ?mid + ?last = length data" "?last \<le> ?mid" "?hl + 8 + ?mid \<le> unat mtu" "last_pkt_num s = 1"
    using frag_num_parts0 [OF s m8] by (simp_all add: uhl ul)
  define head where "head = \<lparr>e_daddr = daddr, e_saddr = saddr, e_ttl = NIP_DEFAULT_TTL, e_nexthdr = IPPROTO_UDP, e_hdr_buf = [],
    e_hdr_buf_pos = 0, e_hdr_len_pos = None, e_total_len_pos = None\<rparr>"
  have h: "e_daddr head = daddr" "e_saddr head = saddr" "e_ttl head = NIP_DEFAULT_TTL" "e_nexthdr head = IPPROTO_UDP"
    by (simp_all add: head_def)
  obtain pkts chunks h1 where 1: "udp_output_loop e out sport dport 8 (mid_usr_pkt_len s) ?k head data = Some (0, pkts, h1, drop (?k * ?mid) data)"
    "concat chunks = take (?k * ?mid) data" "list_all2 (udp_packet_of saddr daddr NIP_DEFAULT_TTL sport dport) chunks pkts"
    "\<forall>c \<in> set chunks. length c = ?mid"
    and k: "e_daddr h1 = daddr" "e_saddr h1 = saddr" "e_ttl h1 = NIP_DEFAULT_TTL" "e_nexthdr h1 = IPPROTO_UDP"
    using udp_output_loop_packets [of head e out ?k "mid_usr_pkt_len s" data sport dport] h v mem ok part mtu by fastforce
  obtain pkt h2 where 2: "nip_udp_single_output e out h1 sport dport 8 (last_usr_pkt_len s) (mid_usr_pkt_len s) (drop (?k * ?mid) data)
      = Some (0, Some pkt, h2, drop ?last (drop (?k * ?mid) data))"
    "udp_packet_of saddr daddr NIP_DEFAULT_TTL sport dport (take ?last (drop (?k * ?mid) data)) pkt"
    using single_output_packet [of h1 e out "last_usr_pkt_len s" "mid_usr_pkt_len s" "drop (?k * ?mid) data" sport dport] k v mem ok part mtu
    by fastforce
  have all: "take ?last (drop (?k * ?mid) data) = drop (?k * ?mid) data" using part(1) by simp
  have "nip_udp_output_pkts e out mtu data ?len 8 saddr sport daddr dport = Some (0, pkts @ [pkt])"
    using hl(1) s 1(1) 2(1) part(4) by (simp add: nip_udp_output_pkts_def Let_def flip: head_def)
  moreover have "concat (chunks @ [drop (?k * ?mid) data]) = data" using 1(2) by simp
  moreover have "list_all2 (udp_packet_of saddr daddr NIP_DEFAULT_TTL sport dport) (chunks @ [drop (?k * ?mid) data]) (pkts @ [pkt])"
    using 1(3) 2(2) all by (intro list_all2_appendI) simp_all
  moreover have "\<forall>c \<in> set (chunks @ [drop (?k * ?mid) data]). ?hl + 8 + length c \<le> unat mtu"
    using 1(4) part by auto
  ultimately show ?thesis by blast
qed

section \<open>TCP segments\<close>

definition nip_get_output_checksum_tcp :: "bytes \<Rightarrow> nip_addr \<Rightarrow> nip_addr \<Rightarrow> u16 option" where
  "nip_get_output_checksum_tcp tcp_hdr src_addr dst_addr =
    (let check_len = of_nat (length tcp_hdr) in
     nip_check_sum_build tcp_hdr check_len
       \<lparr>ps_saddr = src_addr, ps_daddr = dst_addr, ps_check_len = htons check_len, ps_nexthdr = IPPROTO_TCP\<rparr>)"

text \<open>The network header in front of a TCP segment; stack is the (uninitialised) array hdr_buf.\<close>

definition nip_tcp_hdr :: "bytes \<Rightarrow> nip_addr \<Rightarrow> nip_addr \<Rightarrow> nat \<Rightarrow> bytes option" where
  "nip_tcp_hdr stack saddr daddr len = do {
     head \<leftarrow> nip_hdr_comm_encap \<lparr>e_daddr = daddr, e_saddr = saddr, e_ttl = NIP_DEFAULT_TTL, e_nexthdr = IPPROTO_TCP,
       e_hdr_buf = stack, e_hdr_buf_pos = 0, e_hdr_len_pos = None, e_total_len_pos = None\<rparr>;
     head \<leftarrow> nip_update_total_len head (htons (of_nat (e_hdr_buf_pos head + len)));
     Some (take (e_hdr_buf_pos head) (e_hdr_buf head))
   }"

text \<open>The result of tcp_nip_queue_xmit: the return value, the value stored in sk_err_soft, the packet handed to the
  device, and the route the socket keeps.\<close>

definition tcp_nip_queue_xmit ::
  "send_env \<Rightarrow> bytes \<Rightarrow> hash32 \<Rightarrow> nat \<Rightarrow> (fib_tb_id \<Rightarrow> rt_id option) \<Rightarrow> nip_addr \<Rightarrow> nip_addr \<Rightarrow> rt_id option \<Rightarrow> bytes \<Rightarrow> netns_newip
    \<Rightarrow> (int \<times> int option \<times> bytes option \<times> rt_id option \<times> netns_newip) option" where
  "tcp_nip_queue_xmit e stack h32 cpu new saddr daddr sk_dst skb net = do {
     hdr \<leftarrow> nip_tcp_hdr stack saddr daddr (length skb);
     (case sk_dst of
        Some r \<Rightarrow> do {
          (err, pkt) \<leftarrow> nip_send_skb e (dst_output (rts net r)) (hdr @ skb);
          Some (err, None, pkt, Some r, net)
        }
      | None \<Rightarrow> do {
          (r, s, net) \<leftarrow> nip_route_output_flags h32 cpu new daddr saddr net;
          if dst_error net r \<noteq> 0 then Some (- EHOSTUNREACH, Some EHOSTUNREACH, None, None, dst_release r net)
          else do {
            (err, pkt) \<leftarrow> nip_send_skb e (dst_output (rts net r)) (hdr @ skb);
            Some (err, None, pkt, Some r, net)
          }
        })
   }"

text \<open>tcp_nip_actual_send_reset: the packet of a reset for a segment with the ports and the acknowledgment flag given.
  The addresses and the ports are swapped. The error of the route is not looked at: without a route the packet gets the
  null entry, whose output function frees it. The reference of the route is not put.\<close>

definition be32 :: "u32 \<Rightarrow> bytes" where
  "be32 w = [ucast (drop_bit 24 w), ucast (drop_bit 16 w), ucast (drop_bit 8 w), ucast w]"

definition tcp_nip_reset_hdr :: "u16 \<Rightarrow> u16 \<Rightarrow> u32 \<Rightarrow> u32 \<Rightarrow> bool \<Rightarrow> bool \<Rightarrow> u16 \<Rightarrow> u16 \<Rightarrow> bytes" where
  "tcp_nip_reset_hdr source dest seq ack_seq ack rst win check =
    [lo8 source, hi8 source, lo8 dest, hi8 dest] @ be32 seq @ be32 ack_seq @
    [0x50, (if rst then 4 else 0) + (if ack then 0x10 else 0), hi8 win, lo8 win, lo8 check, hi8 check, 0, 0]"

definition tcp_nip_actual_send_reset ::
  "send_env \<Rightarrow> bool \<Rightarrow> bytes \<Rightarrow> hash32 \<Rightarrow> nat \<Rightarrow> (fib_tb_id \<Rightarrow> rt_id option) \<Rightarrow> nip_addr \<Rightarrow> nip_addr \<Rightarrow> u16 \<Rightarrow> u16 \<Rightarrow> bool
    \<Rightarrow> u32 \<Rightarrow> u32 \<Rightarrow> u32 \<Rightarrow> bool \<Rightarrow> netns_newip \<Rightarrow> (bytes option \<times> netns_newip) option" where
  "tcp_nip_actual_send_reset e alloc_ok stack h32 cpu new srcaddr dstaddr th_source th_dest th_ack seq ack_seq win rst net =
    (if \<not> alloc_ok then Some (None, net)
     else do {
       let saddr = dstaddr; daddr = srcaddr; t1 = tcp_nip_reset_hdr th_dest th_source seq ack_seq (\<not> rst \<or> \<not> th_ack) rst (ucast win) in do {
         check \<leftarrow> nip_get_output_checksum_tcp (t1 0) saddr daddr;
         hdr \<leftarrow> nip_tcp_hdr stack saddr daddr (length (t1 0));
         (r, s, net) \<leftarrow> nip_route_output_flags h32 cpu new daddr saddr net;
         (err, pkt) \<leftarrow> nip_send_skb e (dst_output (rts net r)) (hdr @ t1 (htons check));
         Some (pkt, net)
       }
     })"

section \<open>What is sent is received\<close>

definition packet_in :: "bytes \<Rightarrow> nip_skb" where
  "packet_in pkt = \<lparr>skb_mem = pkt, skb_pos = 0, skb_len = of_nat (length pkt), skb_th = 0, cb_dstaddr = zero_addr,
     cb_srcaddr = zero_addr, cb_nexthdr = 0, skb_otherhost = False\<rparr>"

text \<open>The packet a transport handler gets, with its data at skb_pos.\<close>

definition delivered :: "u8 \<Rightarrow> ninet_protos \<Rightarrow> bytes \<Rightarrow> (ninet_protocol \<times> nip_skb) option" where
  "delivered icmp protos pkt =
    (case nip_rcv icmp True (packet_in pkt) of Some (Some skb) \<Rightarrow> nip_protocol_deliver_rcu protos skb | _ \<Rightarrow> None)"

definition transport_data :: "nip_skb \<Rightarrow> bytes" where
  "transport_data skb = drop (skb_pos skb) (skb_mem skb)"

lemma rcv_udp_packet:
  assumes v: "valid_addr s" "valid_addr d" and p: "protos IPPROTO_UDP = Some h"
    and l: "dgram \<noteq> []" "length dgram < 2 ^ 31"
  shows "\<exists>skb. delivered icmp protos (udp_hdr_bytes d s ttl IPPROTO_UDP @ dgram) = Some (h, skb) \<and> transport_data skb = dgram \<and>
    skb_len skb = of_nat (length dgram) \<and> cb_srcaddr skb = s \<and> cb_dstaddr skb = d \<and> cb_nexthdr skb = IPPROTO_UDP \<and>
    skb_th skb = skb_pos skb"
proof -
  let ?hb = "udp_hdr_bytes d s ttl IPPROTO_UDP"
  have hl: "length ?hb \<le> 20" by (rule hdr_bytes_le(1) [OF v(2,1)])
  have hn: "?hb \<noteq> []" by (simp add: udp_hdr_bytes_def)
  let ?bl = "of_nat (length ?hb + length dgram) :: u32"
  have ub: "unat ?bl = length ?hb + length dgram" using l(2) hl by (intro unat_of_nat_u32) simp
  obtain niph where n: "nip_hdr_parse (?hb @ dgram) ?bl zero_decap = Some (int (length ?hb), niph)"
    "d_nexthdr niph = IPPROTO_UDP" "d_daddr niph = d" "d_saddr niph = s" "\<not> d_include_total_len niph"
    using parse_udp_hdr [OF v(2,1), of ttl IPPROTO_UDP ?bl dgram] ub l(1) by auto
  have "?bl - of_nat (length ?hb) = of_nat (length dgram)" by simp
  then show ?thesis using n hl hn p ub
    by (simp add: delivered_def nip_rcv_def packet_in_def nip_update_recv_skb_len_def nip_protocol_deliver_rcu_def Let_def
        transport_data_def)
qed

lemma rcv_comm_packet:
  assumes v: "valid_addr s" "valid_addr d" and p: "nh \<in> {IPPROTO_TCP, IPPROTO_UDP, icmp}" "protos nh = Some h"
    and l: "seg \<noteq> []" "length (comm_hdr_bytes d s ttl t nh) + length seg < 65536" "length pad < 65536"
    and t: "t = htons (of_nat (length (comm_hdr_bytes d s ttl 0 nh) + length seg))"
  shows "\<exists>skb. delivered icmp protos (comm_hdr_bytes d s ttl t nh @ seg @ pad) = Some (h, skb) \<and>
    take (unat (skb_len skb)) (transport_data skb) = seg \<and>
    unat (skb_len skb) = length seg \<and> cb_srcaddr skb = s \<and> cb_dstaddr skb = d \<and> cb_nexthdr skb = nh \<and>
    skb_th skb = skb_pos skb \<and> \<not> skb_otherhost skb \<and> skb_mem skb = comm_hdr_bytes d s ttl t nh @ seg @ pad \<and> skb_pos skb = length (comm_hdr_bytes d s ttl t nh)"
proof -
  let ?hb = "comm_hdr_bytes d s ttl t nh"
  have hl: "length ?hb \<le> 22" by (rule hdr_bytes_le(2) [OF v(2,1)])
  have hn: "?hb \<noteq> []" by (simp add: comm_hdr_bytes_def)
  have lt: "length (comm_hdr_bytes d s ttl 0 nh) = length ?hb" by (simp add: comm_hdr_bytes_def)
  let ?bl = "of_nat (length ?hb + length (seg @ pad)) :: u32"
  have ub: "unat ?bl = length ?hb + length (seg @ pad)" using l(2,3) by (intro unat_of_nat_u32) simp
  have "0 < length seg" using l(1) by simp
  then have lb: "length ?hb < unat ?bl" unfolding ub by simp
  obtain niph where n: "nip_hdr_parse (?hb @ seg @ pad) ?bl zero_decap = Some (int (length ?hb), niph)"
    "d_nexthdr niph = nh" "d_daddr niph = d" "d_saddr niph = s" "d_include_total_len niph" "d_total_len niph = t"
    using parse_comm_hdr [OF v(2,1) lb, of "seg @ pad"] by blast
  have tl: "ntohs t = of_nat (length ?hb + length seg)" using arg_cong [OF t, of ntohs] by (simp only: ntohs_ntohs lt)
  have ul: "unat (ucast (ntohs t) :: u32) = length ?hb + length seg"
    unfolding tl using l(2) by (simp add: unsigned_ucast_eq take_bit_eq_mod unat_of_nat del: of_nat_add)
  then have le: "\<not> (ucast (ntohs t) :: u32) > ?bl" unfolding word_less_nat_alt ub by simp
  have d: "unat ((ucast (ntohs t) :: u32) - of_nat (length ?hb)) = length seg"
    using ul hl by (simp add: unat_sub word_le_nat_alt unat_of_nat_u32)
  from p(1) have "nh = IPPROTO_TCP \<or> nh = IPPROTO_UDP \<or> nh = icmp" by simp
  then show ?thesis using n hl hn p(2) ul le d
    by (elim disjE) (simp_all add: delivered_def nip_rcv_def packet_in_def nip_update_recv_skb_len_def nip_protocol_deliver_rcu_def Let_def
        transport_data_def del: of_nat_add)
qed

lemma nip_tcp_hdr_bytes:
  assumes v: "valid_addr s" "valid_addr d" and st: "length stack = NIP_HDR_MAX"
  shows "nip_tcp_hdr stack s d n = Some (comm_hdr_bytes d s NIP_DEFAULT_TTL
    (htons (of_nat (length (comm_hdr_bytes d s NIP_DEFAULT_TTL 0 IPPROTO_TCP) + n))) IPPROTO_TCP)"
proof -
  let ?h = "\<lparr>e_daddr = d, e_saddr = s, e_ttl = NIP_DEFAULT_TTL, e_nexthdr = IPPROTO_TCP, e_hdr_buf = stack, e_hdr_buf_pos = 0,
    e_hdr_len_pos = None, e_total_len_pos = None\<rparr>"
  have L: "length (comm_hdr_bytes d s NIP_DEFAULT_TTL t IPPROTO_TCP) = length (comm_hdr_bytes d s NIP_DEFAULT_TTL 0 IPPROTO_TCP)" for t
    by (simp add: comm_hdr_bytes_def)
  let ?t = "htons (of_nat (length (comm_hdr_bytes d s NIP_DEFAULT_TTL 0 IPPROTO_TCP) + n))"
  have "length (comm_hdr_bytes d s NIP_DEFAULT_TTL ?t IPPROTO_TCP) \<le> length stack"
    using hdr_bytes_le(2) [OF v(2,1), of NIP_DEFAULT_TTL ?t IPPROTO_TCP] unfolding st NIP_HDR_MAX_def by linarith
  then obtain h1 h2 where h: "nip_hdr_comm_encap ?h = Some h1" "nip_update_total_len h1 ?t = Some h2"
    "e_hdr_buf_pos h2 = length (comm_hdr_bytes d s NIP_DEFAULT_TTL ?t IPPROTO_TCP)"
    "e_hdr_buf h2 = comm_hdr_bytes d s NIP_DEFAULT_TTL ?t IPPROTO_TCP @ drop (e_hdr_buf_pos h2) stack"
    using nip_hdr_comm_encap_layout [of ?h ?t] v by auto
  have p: "e_hdr_buf_pos h1 = e_hdr_buf_pos h2" using h(2) by (auto simp: nip_update_total_len_def split: option.splits bind_splits)
  have b: "take (e_hdr_buf_pos h2) (e_hdr_buf h2) = comm_hdr_bytes d s NIP_DEFAULT_TTL ?t IPPROTO_TCP"
    by (subst h(4)) (simp add: h(3))
  have "e_hdr_buf_pos h1 = length (comm_hdr_bytes d s NIP_DEFAULT_TTL 0 IPPROTO_TCP)" using p h(3) L [of ?t] by (simp only:)
  then have "htons (of_nat (e_hdr_buf_pos h1 + n)) = ?t" by (simp only:)
  then show ?thesis unfolding nip_tcp_hdr_def h(1) Option.bind.bind_lunit using h(2) b by simp
qed

lemma nip_send_skb_sent:
  "nip_send_skb e out pkt = Some (err, Some p) \<Longrightarrow> p = pkt \<and> out = Fun_nip_output"
  by (auto simp: nip_send_skb_def nip_local_out_def split: dst_fun.splits)

lemma nip_send_skb_out:
  "\<exists>err. nip_send_skb e Fun_nip_output pkt = Some (err, Some pkt)" "nip_send_skb e Fun_nip_pkt_discard_out pkt = Some (0, None)"
  by (simp_all add: nip_send_skb_def nip_local_out_def)

text \<open>What tcp_nip_queue_xmit hands to the device is the network header and the segment.\<close>

lemma queue_xmit_packet:
  assumes "tcp_nip_queue_xmit e stack h32 cpu new saddr daddr sk_dst seg net = Some (ret, soft, Some pkt, dst, net')"
  obtains hdr where "nip_tcp_hdr stack saddr daddr (length seg) = Some hdr" "pkt = hdr @ seg"
proof -
  obtain hdr where h: "nip_tcp_hdr stack saddr daddr (length seg) = Some hdr"
    using assms by (auto simp: tcp_nip_queue_xmit_def split: bind_splits)
  then have "pkt = hdr @ seg"
    using assms by (auto simp: tcp_nip_queue_xmit_def dest: nip_send_skb_sent split: option.splits bind_splits if_splits)
  with h show thesis by (rule that)
qed

text \<open>Such a packet is accepted by the receive path of the peer and
  delivered to TCP unchanged, with the addresses of the socket, whatever padding the link adds behind it.\<close>

lemma tcp_segment_delivered:
  assumes "nip_tcp_hdr stack saddr daddr (length seg) = Some hdr"
    and "valid_addr saddr" "valid_addr daddr" "length stack = NIP_HDR_MAX" "seg \<noteq> []" "length seg + NIP_HDR_MAX < 65536"
    and "protos IPPROTO_TCP = Some h" "length padding < 65536"
  shows "\<exists>skb. delivered icmp protos ((hdr @ seg) @ padding) = Some (h, skb) \<and>
    take (unat (skb_len skb)) (transport_data skb) = seg \<and> unat (skb_len skb) = length seg \<and>
    cb_srcaddr skb = saddr \<and> cb_dstaddr skb = daddr \<and> cb_nexthdr skb = IPPROTO_TCP \<and> skb_th skb = skb_pos skb \<and>
    \<not> skb_otherhost skb"
proof -
  have h: "hdr = comm_hdr_bytes daddr saddr NIP_DEFAULT_TTL
    (htons (of_nat (length (comm_hdr_bytes daddr saddr NIP_DEFAULT_TTL 0 IPPROTO_TCP) + length seg))) IPPROTO_TCP"
    using assms(1) nip_tcp_hdr_bytes [OF assms(2-4)] by simp
  have "length hdr \<le> 22" unfolding h by (rule hdr_bytes_le(2) [OF assms(3,2)])
  then have "length hdr + length seg < 65536" using assms(6) by (simp add: NIP_HDR_MAX_def)
  then show ?thesis unfolding append_assoc h
    using rcv_comm_packet [where nh = IPPROTO_TCP and icmp = icmp and ttl = NIP_DEFAULT_TTL and pad = padding, OF assms(2,3) _ _ assms(5)] assms(7,8)
    unfolding h by blast
qed

definition sample_send :: send_env where
  "sample_send = \<lparr>alloc_skb = (\<lambda>n. Some (replicate n 0xAA)), nip_dst_output = (\<lambda>p. 0), net_xmit_errno = (\<lambda>x. - x)\<rparr>"

lemma sample_addr_valid: "valid_addr (short_addr 5)" "valid_addr (short_addr 600)"
  by (simp_all add: valid_addr_def short_addr_valid wf_short_addr) (simp_all add: short_addr_def short_bytes_def)

text \<open>C29: a packet that reaches a transport handler, whatever bytes arrived: its length does not exceed the packet's,
  its data lies inside the packet behind the header, its destination is a valid address, and
  its protocol is the one of the handler.\<close>

theorem delivered_packet_sound:
  assumes "delivered icmp protos pkt = Some (h, skb)" "length pkt < 4294967296"
  shows "skb_mem skb = pkt \<and> 0 < skb_pos skb \<and> skb_pos skb + unat (skb_len skb) \<le> length pkt \<and>
    valid_addr (cb_dstaddr skb) \<and>
    protos (cb_nexthdr skb) = Some h \<and> cb_nexthdr skb \<in> {IPPROTO_TCP, IPPROTO_UDP, icmp}"
proof -
  let ?n = "of_nat (length pkt) :: u32"
  have n: "unat ?n = length pkt" using assms(2) by (rule unat_of_nat_u32)
  obtain offset niph where p: "nip_hdr_parse pkt ?n zero_decap = Some (offset, niph)" "0 < offset"
    and nh: "d_nexthdr niph \<in> {IPPROTO_TCP, IPPROTO_UDP, icmp}" and pr: "protos (d_nexthdr niph) = Some h"
    and tl: "d_include_total_len niph \<longrightarrow> \<not> ucast (ntohs (d_total_len niph)) > ?n"
    and off: "nat offset \<le> unat (if d_include_total_len niph then ucast (ntohs (d_total_len niph)) else ?n)"
    and skb: "skb_mem skb = pkt" "skb_pos skb = nat offset" "cb_dstaddr skb = d_daddr niph" "cb_nexthdr skb = d_nexthdr niph"
      "skb_len skb = (if d_include_total_len niph then ucast (ntohs (d_total_len niph)) else ?n) - of_nat (nat offset)"
    using assms(1) by (auto simp: delivered_def nip_rcv_def packet_in_def nip_update_recv_skb_len_def nip_protocol_deliver_rcu_def
        Let_def split: option.splits if_splits)
  define L where "L = (if d_include_total_len niph then ucast (ntohs (d_total_len niph)) else ?n)"
  have "unat L \<le> length pkt" using tl n by (auto simp: L_def word_less_nat_alt)
  moreover have "unat (L - of_nat (nat offset)) = unat L - nat offset"
    using off [folded L_def] unat_u32_less [of L] by (simp add: unat_sub word_le_nat_alt unat_of_nat_u32)
  ultimately have "skb_pos skb + unat (skb_len skb) \<le> length pkt" using skb off [folded L_def] by (simp flip: L_def)
  then show ?thesis using skb p(2) nh pr parse_accepts_facts [OF p] by simp
qed

theorem delivered_packet_sound_witness:
  "\<exists>skb. delivered 177 [17 \<mapsto> nip_udp_protocol] (udp_hdr_bytes (short_addr 5) (short_addr 600) 128 17 @ [1, 2, 3]) = Some (nip_udp_protocol, skb) \<and>
    skb_pos skb + unat (skb_len skb) \<le> length (udp_hdr_bytes (short_addr 5) (short_addr 600) 128 17) + 3"
proof -
  let ?pkt = "udp_hdr_bytes (short_addr 5) (short_addr 600) 128 17 @ [1, 2, 3 :: u8]"
  obtain skb where s: "delivered 177 [17 \<mapsto> nip_udp_protocol] ?pkt = Some (nip_udp_protocol, skb)"
    using rcv_udp_packet [OF sample_addr_valid(2,1), of "[17 \<mapsto> nip_udp_protocol]" nip_udp_protocol "[1, 2, 3]" 177 128] by auto
  moreover have "length ?pkt < 4294967296" using hdr_bytes_le(1) [OF sample_addr_valid(1,2), of 128 17] by simp
  ultimately show ?thesis using delivered_packet_sound [OF s] by auto
qed

section \<open>Forwarding\<close>

text \<open>A forwarded packet leaves as it came: no step changes its bytes, the time to live included, so nothing ends a
  routing loop.\<close>

lemma forwarded_unchanged:
  assumes "nip_rcv icmp ok skb = Some (Some skb1)"
    and "nip_rcv_finish h32 cpu new neigh_ok neigh_out early dev skb1 net = Some (ret, Forwarded out hop skb2, net')"
  shows "skb_mem skb2 = skb_mem skb \<and> skb_pos skb2 = skb_pos skb"
proof -
  have "skb2 = skb1" using assms(2)
    by (auto simp: nip_rcv_finish_def nip_dst_input_def nip_forward_def nip_neigh_output_def Let_def
        split: option.splits dst_fun.splits if_splits)
  then show ?thesis using assms(1)
    by (auto simp: nip_rcv_def nip_update_recv_skb_len_def Let_def split: option.splits if_splits)
qed

end
