(* ===== verification/Nndisc.thy ===== *)
theory Nndisc
  imports NipIo "HOL-Library.Signed_Division"
begin

text \<open>
  Neighbour discovery (net/newip/nndisc.c, the helpers of net/nndisc.h, and net/newip/icmp.c): the table with its
  hash, comparison and constructor; the solicitation and the advertisement, built in a buffer with their header and
  checksum; and the receive handlers. The kernel's neigh_update and its allocations are parameters (nd_env). A result None
  is a read or write outside a buffer. The end-to-end lemmas run a message through the receive path of NipIo.
\<close>

section \<open>The neighbour table\<close>

datatype nud = NUD_NONE | NUD_INCOMPLETE | NUD_REACHABLE | NUD_STALE | NUD_DELAY | NUD_PROBE | NUD_FAILED | NUD_NOARP | NUD_PERMANENT

definition NUD_VALID :: "nud \<Rightarrow> bool" where
  "NUD_VALID s \<longleftrightarrow> s \<in> {NUD_PERMANENT, NUD_NOARP, NUD_REACHABLE, NUD_PROBE, NUD_STALE, NUD_DELAY}"

datatype neigh_output = neigh_direct_output | neigh_resolve_output | neigh_connected_output

datatype neigh_ops = nndisc_generic_ops | nndisc_hh_ops | nndisc_direct_ops

fun ops_output :: "neigh_ops \<Rightarrow> neigh_output" where
  "ops_output nndisc_direct_ops = neigh_direct_output"
| "ops_output _ = neigh_resolve_output"

fun ops_connected_output :: "neigh_ops \<Rightarrow> neigh_output" where
  "ops_connected_output nndisc_generic_ops = neigh_connected_output"
| "ops_connected_output nndisc_hh_ops = neigh_resolve_output"
| "ops_connected_output nndisc_direct_ops = neigh_direct_output"

record neighbour =
  n_dev :: nat
  n_key :: nip_addr
  n_nud :: nud
  n_ha :: bytes
  n_local :: bool             \<comment> \<open>type is RTN_LOCAL\<close>
  n_ops :: neigh_ops
  n_output :: neigh_output

text \<open>The device: its header operations (whether it has them, and a cache of headers), its flags, its
  addresses, and the NewIP addresses of its ninet_dev, if it has one.\<close>

record nd_device =
  nd_index :: nat
  nd_header_ops :: bool
  nd_header_cache :: bool
  nd_pointopoint :: bool
  nd_noarp :: bool
  nd_loopback :: bool
  nd_dev_addr :: bytes
  nd_broadcast :: bytes
  nd_idev :: "nip_addr list option"

definition neigh_key_eq800 :: "neighbour \<Rightarrow> nip_addr \<Rightarrow> bool" where
  "neigh_key_eq800 n a \<longleftrightarrow> bitlen a = bitlen (n_key n) \<and> bitlen a \<le> 64 \<and>
     take (unat (bitlen a) div 8) (field8 a) = take (unat (bitlen a) div 8) (field8 (n_key n))"

definition NEWIP_NEIGH_BUCKET_MAX :: int where "NEWIP_NEIGH_BUCKET_MAX = 8"

text \<open>nndisc_hashfn takes the first four bytes of the address structure as a signed int.\<close>

definition nndisc_hashfn :: "nip_addr \<Rightarrow> u32" where
  "nndisc_hashfn a = of_int (sint (le32 (bitlen a # field8 a) 0) smod NEWIP_NEIGH_BUCKET_MAX)"

definition nndisc_constructor :: "nd_device \<Rightarrow> neighbour \<Rightarrow> int \<times> neighbour" where
  "nndisc_constructor dev n =
    (if nd_idev dev = None then (- EINVAL, n)
     else if \<not> nd_header_ops dev
       then (0, n\<lparr>n_local := False, n_nud := NUD_NOARP, n_ops := nndisc_direct_ops, n_output := neigh_direct_output\<rparr>)
     else
       let n = n\<lparr>n_local := False\<rparr>;
           n = (if nip_addr_eq (n_key n) nip_broadcast_addr_arp \<or> nd_pointopoint dev
                then n\<lparr>n_nud := NUD_NOARP, n_ha := nd_broadcast dev @ drop (length (nd_broadcast dev)) (n_ha n)\<rparr>
                else if nd_noarp dev \<or> nd_loopback dev
                then n\<lparr>n_nud := NUD_NOARP, n_ha := nd_dev_addr dev @ drop (length (nd_dev_addr dev)) (n_ha n), n_local := nd_loopback dev\<rparr>
                else n);
           n = n\<lparr>n_ops := (if nd_header_cache dev then nndisc_hh_ops else nndisc_generic_ops)\<rparr>
       in (0, n\<lparr>n_output := (if NUD_VALID (n_nud n) then ops_connected_output (n_ops n) else ops_output (n_ops n))\<rparr>))"

text \<open>The kernel's part of the table: lookup by the comparison of the code, creation with its constructor (the
  allocation may fail), and neigh_update, which is a parameter.\<close>

record nd_env =
  nd_send :: send_env
  nd_dst_ok :: bool               \<comment> \<open>nip_dst_alloc returns a route\<close>
  neigh_alloc_ok :: bool
  neigh_update :: "neighbour \<Rightarrow> bytes \<Rightarrow> nud \<Rightarrow> neighbour"

definition neigh_lookup :: "nat \<Rightarrow> nip_addr \<Rightarrow> neighbour list \<Rightarrow> neighbour option" where
  "neigh_lookup dev a tbl = find (\<lambda>n. n_dev n = dev \<and> neigh_key_eq800 n a) tbl"

definition neigh_new :: "nd_device \<Rightarrow> nip_addr \<Rightarrow> neighbour" where
  "neigh_new dev a = \<lparr>n_dev = nd_index dev, n_key = a, n_nud = NUD_NONE, n_ha = replicate 32 0, n_local = False,
     n_ops = nndisc_generic_ops, n_output = neigh_resolve_output\<rparr>"

definition neigh_lookup_create :: "nd_env \<Rightarrow> nd_device \<Rightarrow> nip_addr \<Rightarrow> neighbour list \<Rightarrow> neighbour list" where
  "neigh_lookup_create e dev a tbl =
    (case neigh_lookup (nd_index dev) a tbl of
       Some n \<Rightarrow> tbl
     | None \<Rightarrow>
       if \<not> neigh_alloc_ok e then tbl
       else let (err, n) = nndisc_constructor dev (neigh_new dev a) in if err \<noteq> 0 then tbl else n # tbl)"

fun neigh_change :: "nd_env \<Rightarrow> nat \<Rightarrow> nip_addr \<Rightarrow> bytes \<Rightarrow> nud \<Rightarrow> neighbour list \<Rightarrow> neighbour list" where
  "neigh_change e dev a lladdr s [] = []"
| "neigh_change e dev a lladdr s (n # tbl) =
    (if n_dev n = dev \<and> neigh_key_eq800 n a then neigh_update e n lladdr s # tbl
     else n # neigh_change e dev a lladdr s tbl)"

section \<open>Sending\<close>

definition IPPROTO_NIP_ICMP :: u8 where "IPPROTO_NIP_ICMP = 0xB1"
definition NIP_ARP_DEFAULT_TTL :: u8 where "NIP_ARP_DEFAULT_TTL = 64"
definition NIP_ARP_NS :: u8 where "NIP_ARP_NS = 1"
definition NIP_ARP_NA :: u8 where "NIP_ARP_NA = 2"

definition nndisc_pseudo :: "nip_addr \<Rightarrow> nip_addr \<Rightarrow> u8 \<Rightarrow> u16 \<Rightarrow> nip_pseudo_header" where
  "nndisc_pseudo saddr daddr nexthdr len = \<lparr>ps_saddr = saddr, ps_daddr = daddr, ps_check_len = htons len, ps_nexthdr = nexthdr\<rparr>"

definition nip_get_nndisc_send_checksum :: "bytes \<Rightarrow> nip_hdr_encap \<Rightarrow> nat \<Rightarrow> u16 option" where
  "nip_get_nndisc_send_checksum th head payload_len =
    nip_check_sum_build th (of_nat payload_len) (nndisc_pseudo (e_saddr head) (e_daddr head) (e_nexthdr head) (of_nat payload_len))"

definition nip_insert_nndisc_send_checksum :: "bytes \<Rightarrow> nat \<Rightarrow> u16 \<Rightarrow> bytes option" where
  "nip_insert_nndisc_send_checksum buf th checksum = write_bytes buf (th + 2) [lo8 (htons checksum), hi8 (htons checksum)]"

text \<open>The message at the transport header th: four bytes of the ICMP header, then the data.\<close>

definition nndisc_payload_ns_pack :: "nip_addr \<Rightarrow> bytes \<Rightarrow> nat \<Rightarrow> bytes option" where
  "nndisc_payload_ns_pack solicit buf th = do {
     buf \<leftarrow> write_bytes buf th [NIP_ARP_NS, 0, 0, 0];
     (case build_nip_addr solicit of None \<Rightarrow> Some buf | Some bs \<Rightarrow> write_bytes buf (th + 4) bs)
   }"

definition build_na_hdr :: "bytes \<Rightarrow> bytes \<Rightarrow> nat \<Rightarrow> bytes option" where
  "build_na_hdr smac buf th = do {
     buf \<leftarrow> write_bytes buf th [NIP_ARP_NA, 0, 0, 0];
     write_bytes buf (th + 4) (of_nat (length smac) # smac)
   }"

definition get_ns_payload_len :: "nip_addr \<Rightarrow> nat" where
  "get_ns_payload_len solicit = 4 + get_nip_addr_len solicit"

definition get_na_payload_len :: "nd_device \<Rightarrow> nat" where
  "get_na_payload_len dev = 4 + 1 + length (nd_dev_addr dev)"

text \<open>None is a write outside the buffer; Some None means there is no memory.\<close>

definition nndisc_alloc_skb :: "nd_env \<Rightarrow> nip_hdr_encap \<Rightarrow> nat \<Rightarrow> nip_hdr_encap option option" where
  "nndisc_alloc_skb e head payload_len =
    (case alloc_skb (nd_send e) (NIP_ETH_HDR_LEN + NIP_HDR_MAX + payload_len) of
       None \<Rightarrow> Some None
     | Some mem \<Rightarrow> do {
         head \<leftarrow> nip_hdr_comm_encap (head\<lparr>e_hdr_buf := drop NIP_ETH_HDR_LEN mem\<rparr>);
         head \<leftarrow> nip_update_total_len head (htons (of_nat (e_hdr_buf_pos head + payload_len)));
         Some (Some head)
       })"

text \<open>nndisc_send_skb: the result and the packet given to dst_output.\<close>

definition nndisc_send_skb :: "nd_env \<Rightarrow> nip_hdr_encap \<Rightarrow> bytes \<Rightarrow> nat \<Rightarrow> (int \<times> bytes list) option" where
  "nndisc_send_skb e head buf payload_len =
    (let th = e_hdr_buf_pos head; n = th + payload_len in
     if \<not> nd_dst_ok e then Some (- ENOMEM, [])
     else do {
       checksum \<leftarrow> nip_get_nndisc_send_checksum (drop th buf) head payload_len;
       buf \<leftarrow> nip_insert_nndisc_send_checksum buf th checksum;
       if n > length buf then None else Some (nip_dst_output (nd_send e) (take n buf), [take n buf])
     })"

definition nndisc_head :: "nip_addr \<Rightarrow> nip_addr \<Rightarrow> nip_hdr_encap" where
  "nndisc_head daddr saddr = \<lparr>e_daddr = daddr, e_saddr = saddr, e_ttl = NIP_ARP_DEFAULT_TTL, e_nexthdr = IPPROTO_NIP_ICMP,
     e_hdr_buf = [], e_hdr_buf_pos = 0, e_hdr_len_pos = None, e_total_len_pos = None\<rparr>"

definition nndisc_send_ns :: "nd_env \<Rightarrow> nip_addr \<Rightarrow> nip_addr \<Rightarrow> nip_addr \<Rightarrow> bytes list option" where
  "nndisc_send_ns e solicit daddr saddr = do {
     skb \<leftarrow> nndisc_alloc_skb e (nndisc_head daddr saddr) (get_ns_payload_len solicit);
     (case skb of None \<Rightarrow> Some []
      | Some head \<Rightarrow> do {
          buf \<leftarrow> nndisc_payload_ns_pack solicit (e_hdr_buf head) (e_hdr_buf_pos head);
          (ret, pkts) \<leftarrow> nndisc_send_skb e head buf (get_ns_payload_len solicit);
          Some pkts
        })
   }"

definition nndisc_send_na :: "nd_env \<Rightarrow> nd_device \<Rightarrow> nip_addr \<Rightarrow> nip_addr \<Rightarrow> bytes list option" where
  "nndisc_send_na e dev daddr saddr = do {
     skb \<leftarrow> nndisc_alloc_skb e (nndisc_head daddr saddr) (get_na_payload_len dev);
     (case skb of None \<Rightarrow> Some []
      | Some head \<Rightarrow> do {
          buf \<leftarrow> build_na_hdr (nd_dev_addr dev) (e_hdr_buf head) (e_hdr_buf_pos head);
          (ret, pkts) \<leftarrow> nndisc_send_skb e head buf (get_na_payload_len dev);
          Some pkts
        })
   }"

text \<open>nndisc_solicit sends one solicitation from each address of the device.\<close>

fun solicit_loop :: "nd_env \<Rightarrow> nip_addr \<Rightarrow> nip_addr list \<Rightarrow> bytes list option" where
  "solicit_loop e target [] = Some []"
| "solicit_loop e target (saddr # saddrs) = do {
     pkts \<leftarrow> nndisc_send_ns e target nip_broadcast_addr_arp saddr;
     rest \<leftarrow> solicit_loop e target saddrs;
     Some (pkts @ rest)
   }"

definition nndisc_solicit :: "nd_env \<Rightarrow> nd_device \<Rightarrow> nip_addr \<Rightarrow> bytes list option" where
  "nndisc_solicit e dev target = (case nd_idev dev of None \<Rightarrow> Some [] | Some addrs \<Rightarrow> solicit_loop e target addrs)"

section \<open>Receiving\<close>

definition nip_addr_local :: "nd_device \<Rightarrow> nip_addr \<Rightarrow> bool" where
  "nip_addr_local dev a \<longleftrightarrow> (case nd_idev dev of None \<Rightarrow> False | Some addrs \<Rightarrow> list_ex (nip_addr_eq a) addrs)"

definition nip_get_nndisc_rcv_checksum :: "nip_skb \<Rightarrow> nat \<Rightarrow> bool option" where
  "nip_get_nndisc_rcv_checksum skb transport_tail =
    (let check_len = of_nat (transport_tail - skb_th skb) in
     map_option (\<lambda>c. c = 0xFFFF)
       (nip_check_sum_parse (drop (skb_th skb) (skb_mem skb)) check_len
         (nndisc_pseudo (cb_srcaddr skb) (cb_dstaddr skb) (cb_nexthdr skb) check_len)))"

text \<open>The result: the return value, the table and the packets sent; None is a read or write outside a buffer.
  h_source is the source address of the Ethernet header.\<close>

type_synonym nd_result = "(int \<times> neighbour list \<times> bytes list) option"

definition nndisc_rcv_ns :: "nd_env \<Rightarrow> nd_device \<Rightarrow> bytes \<Rightarrow> nip_skb \<Rightarrow> neighbour list \<Rightarrow> nd_result" where
  "nndisc_rcv_ns e dev h_source skb tbl = do {
     (addr, p) \<leftarrow> decode_nip_addr (skb_mem skb) (skb_th skb + 4) zero_addr;
     (case p of
        None \<Rightarrow> Some (- EFAULT, tbl, [])
      | Some p \<Rightarrow>
        if nip_addr_invalid addr \<noteq> CURRENT_ADDR_VALID then Some (- EFAULT, tbl, [])
        else if \<not> nip_addr_local dev addr then Some (- ENXIO, tbl, [])
        else do {
          ok \<leftarrow> nip_get_nndisc_rcv_checksum skb p;
          if \<not> ok then Some (- EINVAL, tbl, [])
          else do {
            let tbl = neigh_change e (nd_index dev) (cb_srcaddr skb) h_source NUD_STALE
                        (neigh_lookup_create e dev (cb_srcaddr skb) tbl) in do {
              pkts \<leftarrow> nndisc_send_na e dev (cb_srcaddr skb) addr;
              Some (0, tbl, pkts)
            }
          }
        })
   }"

definition MAX_ADDR_LEN :: nat where "MAX_ADDR_LEN = 32"

definition nndisc_rcv_na :: "nd_env \<Rightarrow> nd_device \<Rightarrow> nip_skb \<Rightarrow> neighbour list \<Rightarrow> nd_result" where
  "nndisc_rcv_na e dev skb tbl = do {
     len \<leftarrow> rd8 (skb_mem skb) (skb_th skb + 4);
     let p = skb_th skb + 5 in
     if unat len > MAX_ADDR_LEN then None
     else if p + unat len > length (skb_mem skb) then None
     else do {
       let lladdr = take (unat len) (drop p (skb_mem skb)) @ replicate (MAX_ADDR_LEN - unat len) 0 in do {
         ok \<leftarrow> nip_get_nndisc_rcv_checksum skb (p + unat len);
         if \<not> ok then Some (0, tbl, [])
         else (case neigh_lookup (nd_index dev) (cb_srcaddr skb) tbl of
             None \<Rightarrow> Some (- EFAULT, tbl, [])
           | Some n \<Rightarrow> Some (0, neigh_change e (nd_index dev) (cb_srcaddr skb) lladdr NUD_REACHABLE tbl, []))
       }
     }
   }"

definition nndisc_rcv :: "nd_env \<Rightarrow> nd_device \<Rightarrow> bytes \<Rightarrow> nip_skb \<Rightarrow> neighbour list \<Rightarrow> nd_result" where
  "nndisc_rcv e dev h_source skb tbl = do {
     type \<leftarrow> rd8 (skb_mem skb) (skb_th skb);
     if type = NIP_ARP_NS then nndisc_rcv_ns e dev h_source skb tbl
     else if type = NIP_ARP_NA then nndisc_rcv_na e dev skb tbl
     else Some (0, tbl, [])
   }"

text \<open>icmp.c; a packet of another type is not freed.\<close>

definition nip_icmp_rcv :: "nd_env \<Rightarrow> nd_device \<Rightarrow> bytes \<Rightarrow> nip_skb \<Rightarrow> neighbour list \<Rightarrow> nd_result" where
  "nip_icmp_rcv e dev h_source skb tbl = do {
     type \<leftarrow> rd8 (skb_mem skb) (skb_th skb);
     if type = NIP_ARP_NS \<or> type = NIP_ARP_NA then nndisc_rcv e dev h_source skb tbl else Some (0, tbl, [])
   }"

section \<open>The messages\<close>

lemma comm_encap_keeps:
  assumes "nip_hdr_comm_encap h = Some h'" "nip_update_total_len h' t = Some h''"
  shows "e_daddr h'' = e_daddr h \<and> e_saddr h'' = e_saddr h \<and> e_nexthdr h'' = e_nexthdr h"
proof -
  have 1: "put8 b x = Some y \<Longrightarrow> e_daddr y = e_daddr x \<and> e_saddr y = e_saddr x \<and> e_nexthdr y = e_nexthdr x" for b x y
    by (auto simp: put8_def split: option.splits bind_splits if_splits)
  have 2: "put_addr a x = Some y \<Longrightarrow> e_daddr y = e_daddr x \<and> e_saddr y = e_saddr x \<and> e_nexthdr y = e_nexthdr x" for a x y
    by (auto simp: put_addr_def split: option.splits bind_splits if_splits)
  have 3: "nip_update_hdr_len x = Some y \<Longrightarrow> e_daddr y = e_daddr x \<and> e_saddr y = e_saddr x \<and> e_nexthdr y = e_nexthdr x" for x y
    by (auto simp: nip_update_hdr_len_def split: option.splits bind_splits if_splits)
  have 4: "nip_update_total_len x t = Some y \<Longrightarrow> e_daddr y = e_daddr x \<and> e_saddr y = e_saddr x \<and> e_nexthdr y = e_nexthdr x" for x y
    by (auto simp: nip_update_total_len_def split: option.splits bind_splits if_splits)
  show ?thesis using assms 4
    by (auto simp: nip_hdr_comm_encap_def nip_hdr_encap_comm_bitmap_def encap_bitmap_def nip_hdr_ttl_encap_def nip_hdr_nexthdr_encap_def
        nip_hdr_daddr_encap_def nip_hdr_saddr_encap_def nip_hdr_total_len_encap_def nip_hdr_len_encap_def
        split: option.splits bind_splits if_splits dest!: 1 2 3 4)
qed

definition nd_hdr :: "nip_addr \<Rightarrow> nip_addr \<Rightarrow> nat \<Rightarrow> bytes" where
  "nd_hdr d s n = comm_hdr_bytes d s NIP_ARP_DEFAULT_TTL
     (htons (of_nat (length (comm_hdr_bytes d s NIP_ARP_DEFAULT_TTL 0 IPPROTO_NIP_ICMP) + n))) IPPROTO_NIP_ICMP"

definition nd_msg :: "u8 \<Rightarrow> bytes \<Rightarrow> u16 \<Rightarrow> bytes" where
  "nd_msg type data c = [type, 0, lo8 (htons c), hi8 (htons c)] @ data"

lemma length_nd_msg [simp]: "length (nd_msg type data c) = 4 + length data" by (simp add: nd_msg_def)

text \<open>Memory can be had.\<close>

definition memory_ok :: "nd_env \<Rightarrow> bool" where
  "memory_ok e \<longleftrightarrow> (\<forall>n. \<exists>m. alloc_skb (nd_send e) n = Some m \<and> length m = n) \<and> nd_dst_ok e \<and> neigh_alloc_ok e"

lemma nd_hdr_le: "valid_addr d \<Longrightarrow> valid_addr s \<Longrightarrow> length (nd_hdr d s n) \<le> 22"
  unfolding nd_hdr_def by (rule hdr_bytes_le(2))

lemma alloc_layout:
  assumes "valid_addr d" "valid_addr s" "memory_ok e"
  shows "\<exists>head rest. nndisc_alloc_skb e (nndisc_head d s) n = Some (Some head) \<and> e_hdr_buf head = nd_hdr d s n @ rest \<and>
    n \<le> length rest \<and> e_hdr_buf_pos head = length (nd_hdr d s n) \<and> e_saddr head = s \<and> e_daddr head = d \<and>
    e_nexthdr head = IPPROTO_NIP_ICMP"
proof -
  obtain m where m: "alloc_skb (nd_send e) (NIP_ETH_HDR_LEN + NIP_HDR_MAX + n) = Some m" "length m = NIP_ETH_HDR_LEN + NIP_HDR_MAX + n"
    using assms(3) by (auto simp: memory_ok_def)
  let ?h = "(nndisc_head d s)\<lparr>e_hdr_buf := drop NIP_ETH_HDR_LEN m\<rparr>"
  let ?t = "htons (of_nat (length (comm_hdr_bytes d s NIP_ARP_DEFAULT_TTL 0 IPPROTO_NIP_ICMP) + n))"
  have L: "length (comm_hdr_bytes d s NIP_ARP_DEFAULT_TTL t IPPROTO_NIP_ICMP) = length (comm_hdr_bytes d s NIP_ARP_DEFAULT_TTL 0 IPPROTO_NIP_ICMP)" for t
    by (simp add: comm_hdr_bytes_def)
  have f: "e_daddr ?h = d" "e_saddr ?h = s" "e_ttl ?h = NIP_ARP_DEFAULT_TTL" "e_nexthdr ?h = IPPROTO_NIP_ICMP"
    by (simp_all add: nndisc_head_def)
  have le: "length (nd_hdr d s n) \<le> 22" by (rule nd_hdr_le [OF assms(1,2)])
  have "length (nd_hdr d s n) \<le> length (e_hdr_buf ?h)" using le m(2) by (simp add: NIP_HDR_MAX_def)
  then obtain h1 h2 where h: "nip_hdr_comm_encap ?h = Some h1" "nip_update_total_len h1 ?t = Some h2"
    "e_hdr_buf_pos h2 = length (nd_hdr d s n)" "e_hdr_buf h2 = nd_hdr d s n @ drop (e_hdr_buf_pos h2) (e_hdr_buf ?h)"
    using nip_hdr_comm_encap_layout [of ?h ?t] assms(1,2) f unfolding nd_hdr_def by auto
  have p: "e_hdr_buf_pos h1 = e_hdr_buf_pos h2" using h(2) by (auto simp: nip_update_total_len_def split: option.splits bind_splits)
  have "e_hdr_buf_pos h1 = length (comm_hdr_bytes d s NIP_ARP_DEFAULT_TTL 0 IPPROTO_NIP_ICMP)"
    using p h(3) L [of ?t] unfolding nd_hdr_def by (simp only:)
  then have t: "htons (of_nat (e_hdr_buf_pos h1 + n)) = ?t" by (simp only:)
  have "nndisc_alloc_skb e (nndisc_head d s) n = Some (Some h2)"
    unfolding nndisc_alloc_skb_def m(1) option.case h(1) Option.bind.bind_lunit t h(2) by simp
  moreover have "n \<le> length (drop (e_hdr_buf_pos h2) (e_hdr_buf ?h))" using le m(2) h(3) by (simp add: NIP_HDR_MAX_def)
  ultimately show ?thesis using h(3,4) comm_encap_keeps [OF h(1,2)] f by auto
qed

lemma wf_nndisc_pseudo: "valid_addr s \<Longrightarrow> valid_addr d \<Longrightarrow> wf_pseudo (nndisc_pseudo s d x n)"
  using valid_addrD(1,3) [of s] valid_addrD(1,3) [of d] get_nip_addr_len_le [of s] get_nip_addr_len_le [of d]
  by (simp add: wf_pseudo_def nndisc_pseudo_def)

text \<open>The packet of a message: it carries a checksum that verifies.\<close>

definition nd_packet :: "nip_addr \<Rightarrow> nip_addr \<Rightarrow> u8 \<Rightarrow> bytes \<Rightarrow> bytes \<Rightarrow> bool" where
  "nd_packet d s type data pkt \<longleftrightarrow> (\<exists>c. pkt = nd_hdr d s (4 + length data) @ nd_msg type data c \<and>
     nip_check_sum_parse (nd_msg type data c) (of_nat (4 + length data)) (nndisc_pseudo s d IPPROTO_NIP_ICMP (of_nat (4 + length data)))
       = Some 0xFFFF)"

lemma write_behind4:
  "length bs \<le> length rest \<Longrightarrow>
   write_bytes (pre @ [a, b, c, d] @ rest) (length pre + 4) bs = Some (pre @ [a, b, c, d] @ bs @ drop (length bs) rest)"
  using write_bytes_at [of bs rest "pre @ [a, b, c, d]"] by (simp add: eval_nat_numeral)

lemma send_layout:
  assumes "valid_addr d" "valid_addr s" "nd_dst_ok e" "4 + length data < 65536"
    and h: "e_hdr_buf_pos head = length (nd_hdr d s (4 + length data))" "e_saddr head = s" "e_daddr head = d" "e_nexthdr head = IPPROTO_NIP_ICMP"
  shows "\<exists>ret pkt. nndisc_send_skb e head (nd_hdr d s (4 + length data) @ [type, 0, 0, 0] @ data @ rest) (4 + length data)
      = Some (ret, [pkt]) \<and> nd_packet d s type data pkt"
proof -
  define n where "n = (of_nat (4 + length data) :: u16)"
  let ?ps = "nndisc_pseudo s d IPPROTO_NIP_ICMP n"
  let ?m = "[type, 0, 0, 0] @ data" and ?hb = "nd_hdr d s (4 + length data)"
  have n: "unat n = 4 + length data" using assms(4) by (simp add: n_def unat_of_nat del: of_nat_add)
  have wf: "wf_pseudo ?ps" by (rule wf_nndisc_pseudo [OF assms(2,1)])
  obtain c where c: "nip_check_sum_build ?m n ?ps = Some c" "nip_check_sum_parse (?m[2 := hi8 c, 2 + 1 := lo8 c]) n ?ps = Some 0xFFFF"
    using checksum_build_parse [OF wf, of n ?m 2] n by auto
  have e: "?m[2 := hi8 c, 2 + 1 := lo8 c] = nd_msg type data c" by (simp add: nd_msg_def)
  have b: "nip_check_sum_build (?m @ rest) n ?ps = Some c"
  proof -
    have tk0: "take (unat n) (?m @ rest) = ?m" unfolding n by (simp add: eval_nat_numeral)
    show ?thesis using checksum_take(2) [OF wf, of n "?m @ rest"] n c(1) unfolding tk0 by simp
  qed
  have cs: "nip_get_nndisc_send_checksum (drop (length ?hb) (?hb @ ?m @ rest)) head (4 + length data) = Some c"
    using b h by (simp add: nip_get_nndisc_send_checksum_def flip: n_def del: of_nat_add)
  have ins: "nip_insert_nndisc_send_checksum (?hb @ ?m @ rest) (length ?hb) c = Some (?hb @ nd_msg type data c @ rest)"
    using write_bytes_at [of "[lo8 (htons c), hi8 (htons c)]" "[0, 0] @ data @ rest" "?hb @ [type, 0]"]
    by (simp add: nip_insert_nndisc_send_checksum_def nd_msg_def)
  have tk: "take (length ?hb + (4 + length data)) (?hb @ nd_msg type data c @ rest) = ?hb @ nd_msg type data c" by simp
  have "nndisc_send_skb e head (?hb @ [type, 0, 0, 0] @ data @ rest) (4 + length data)
      = Some (nip_dst_output (nd_send e) (?hb @ nd_msg type data c), [?hb @ nd_msg type data c])"
    using cs ins assms(3) by (simp add: nndisc_send_skb_def Let_def h(1) tk)
  then show ?thesis using c(2) unfolding e nd_packet_def n_def by auto
qed

lemma write4: "4 \<le> length rest \<Longrightarrow> write_bytes (pre @ rest) (length pre) [a, b, c, d] = Some (pre @ [a, b, c, d] @ drop 4 rest)"
  using write_bytes_at [of "[a, b, c, d]" rest pre] by (simp add: eval_nat_numeral)

lemma send_ns_packet:
  assumes "valid_addr d" "valid_addr s" "valid_addr b" "memory_ok e"
  shows "\<exists>pkt. nndisc_send_ns e b d s = Some [pkt] \<and> nd_packet d s NIP_ARP_NS (addr_bytes b) pkt"
proof -
  note b = valid_addrD [OF assms(3)]
  let ?n = "4 + length (addr_bytes b)"
  have n: "get_ns_payload_len b = ?n" using b(5) by (simp add: get_ns_payload_len_def)
  obtain head rest where h: "nndisc_alloc_skb e (nndisc_head d s) ?n = Some (Some head)" "e_hdr_buf head = nd_hdr d s ?n @ rest"
    "?n \<le> length rest" "e_hdr_buf_pos head = length (nd_hdr d s ?n)" "e_saddr head = s" "e_daddr head = d" "e_nexthdr head = IPPROTO_NIP_ICMP"
    using alloc_layout [OF assms(1,2,4)] by blast
  let ?hb = "nd_hdr d s ?n"
  have w1: "write_bytes (?hb @ rest) (length ?hb) [NIP_ARP_NS, 0, 0, 0] = Some (?hb @ [NIP_ARP_NS, 0, 0, 0] @ drop 4 rest)"
    using h(3) by (intro write4) simp
  have w2: "write_bytes (?hb @ [NIP_ARP_NS, 0, 0, 0] @ drop 4 rest) (length ?hb + 4) (addr_bytes b)
      = Some (?hb @ [NIP_ARP_NS, 0, 0, 0] @ addr_bytes b @ drop (length (addr_bytes b)) (drop 4 rest))"
    using h(3) by (intro write_behind4) simp
  have p: "nndisc_payload_ns_pack b (e_hdr_buf head) (e_hdr_buf_pos head)
      = Some (?hb @ [NIP_ARP_NS, 0, 0, 0] @ addr_bytes b @ drop (length (addr_bytes b)) (drop 4 rest))"
    unfolding nndisc_payload_ns_pack_def h(2,4) w1 Option.bind.bind_lunit b(4) option.case w2 ..
  have "4 + length (addr_bytes b) < 65536" using b(5) get_nip_addr_len_le [of b] by simp
  then obtain ret pkt where s: "nndisc_send_skb e head (?hb @ [NIP_ARP_NS, 0, 0, 0] @ addr_bytes b @ drop (length (addr_bytes b)) (drop 4 rest)) ?n
      = Some (ret, [pkt])" "nd_packet d s NIP_ARP_NS (addr_bytes b) pkt"
    using send_layout [OF assms(1,2) _ _ h(4-7)] assms(4) by (metis memory_ok_def)
  have "nndisc_send_ns e b d s = Some [pkt]"
    unfolding nndisc_send_ns_def n h(1) Option.bind.bind_lunit option.case p s(1) by simp
  then show ?thesis using s(2) by blast
qed

lemma send_na_packet:
  assumes "valid_addr d" "valid_addr s" "memory_ok e" "length (nd_dev_addr dev) \<le> 32"
  shows "\<exists>pkt. nndisc_send_na e dev d s = Some [pkt] \<and>
    nd_packet d s NIP_ARP_NA (of_nat (length (nd_dev_addr dev)) # nd_dev_addr dev) pkt"
proof -
  let ?m = "of_nat (length (nd_dev_addr dev)) # nd_dev_addr dev" and ?hb = "nd_hdr d s (4 + length (of_nat (length (nd_dev_addr dev)) # nd_dev_addr dev))"
  have n: "get_na_payload_len dev = 4 + length ?m" by (simp add: get_na_payload_len_def)
  obtain head rest where h: "nndisc_alloc_skb e (nndisc_head d s) (4 + length ?m) = Some (Some head)" "e_hdr_buf head = ?hb @ rest"
    "4 + length ?m \<le> length rest" "e_hdr_buf_pos head = length ?hb" "e_saddr head = s" "e_daddr head = d" "e_nexthdr head = IPPROTO_NIP_ICMP"
    using alloc_layout [OF assms(1-3)] by blast
  have w1: "write_bytes (?hb @ rest) (length ?hb) [NIP_ARP_NA, 0, 0, 0] = Some (?hb @ [NIP_ARP_NA, 0, 0, 0] @ drop 4 rest)"
    using h(3) by (intro write4) simp
  have w2: "write_bytes (?hb @ [NIP_ARP_NA, 0, 0, 0] @ drop 4 rest) (length ?hb + 4) ?m
      = Some (?hb @ [NIP_ARP_NA, 0, 0, 0] @ ?m @ drop (length ?m) (drop 4 rest))"
    using h(3) by (intro write_behind4) simp
  have p: "build_na_hdr (nd_dev_addr dev) (e_hdr_buf head) (e_hdr_buf_pos head)
      = Some (?hb @ [NIP_ARP_NA, 0, 0, 0] @ ?m @ drop (length ?m) (drop 4 rest))"
    unfolding build_na_hdr_def h(2,4) w1 Option.bind.bind_lunit w2 ..
  have "4 + length ?m < 65536" using assms(4) by simp
  then obtain ret pkt where s: "nndisc_send_skb e head (?hb @ [NIP_ARP_NA, 0, 0, 0] @ ?m @ drop (length ?m) (drop 4 rest)) (4 + length ?m)
      = Some (ret, [pkt])" "nd_packet d s NIP_ARP_NA ?m pkt"
    using send_layout [OF assms(1,2) _ _ h(4-7)] assms(3) by (metis memory_ok_def)
  have "nndisc_send_na e dev d s = Some [pkt]"
    unfolding nndisc_send_na_def n h(1) Option.bind.bind_lunit option.case p s(1) by simp
  then show ?thesis using s(2) by blast
qed


section \<open>The table\<close>

text \<open>neigh_update changes the state and the hardware address of an entry, never what it is found by.\<close>

definition keeps_key :: "nd_env \<Rightarrow> bool" where
  "keeps_key e \<longleftrightarrow> (\<forall>n l s. n_dev (neigh_update e n l s) = n_dev n \<and> n_key (neigh_update e n l s) = n_key n)"

lemma neigh_lookup_Cons:
  "neigh_lookup dev a (n # tbl) = (if n_dev n = dev \<and> neigh_key_eq800 n a then Some n else neigh_lookup dev a tbl)"
  by (simp add: neigh_lookup_def)

lemma neigh_lookup_change:
  assumes "keeps_key e" "neigh_lookup dev a tbl = Some n"
  shows "neigh_lookup dev a (neigh_change e dev a l s tbl) = Some (neigh_update e n l s)"
  using assms(2)
proof (induction tbl)
  case (Cons m tbl)
  have "n_dev (neigh_update e m l s) = n_dev m" "neigh_key_eq800 (neigh_update e m l s) a = neigh_key_eq800 m a"
    using assms(1) by (simp_all add: keeps_key_def neigh_key_eq800_def)
  then show ?case using Cons by (cases "n_dev m = dev \<and> neigh_key_eq800 m a") (auto simp: neigh_lookup_Cons)
qed (simp add: neigh_lookup_def)

lemma nndisc_constructor_ok:
  "nd_idev dev \<noteq> None \<Longrightarrow> \<exists>n'. nndisc_constructor dev n = (0, n') \<and> n_dev n' = n_dev n \<and> n_key n' = n_key n"
  by (simp add: nndisc_constructor_def Let_def)

lemma valid_addr_bitlen: "valid_addr a \<Longrightarrow> bitlen a \<le> 64"
proof -
  assume v: "valid_addr a"
  have "unat (bitlen a) = 8 * get_nip_addr_len a"
    using v valid_addrD(3) [OF v] by (metis valid_addr_def mult_div_mod_eq add.right_neutral)
  then show ?thesis using get_nip_addr_len_le [of a] by (simp add: word_le_nat_alt)
qed

lemma neigh_lookup_created:
  assumes "neigh_alloc_ok e" "nd_idev dev \<noteq> None" "valid_addr a"
  shows "\<exists>n. neigh_lookup (nd_index dev) a (neigh_lookup_create e dev a tbl) = Some n"
proof (cases "neigh_lookup (nd_index dev) a tbl")
  case None
  obtain n where n: "nndisc_constructor dev (neigh_new dev a) = (0, n)" "n_dev n = nd_index dev" "n_key n = a"
    using nndisc_constructor_ok [OF assms(2), of "neigh_new dev a"] by (auto simp: neigh_new_def)
  have "neigh_key_eq800 n a" using nip_addr_eq_refl [OF valid_addr_bitlen [OF assms(3)]] valid_addr_bitlen [OF assms(3)] by (simp add: neigh_key_eq800_def n(3))
  then show ?thesis using None n assms(1) by (simp add: neigh_lookup_create_def neigh_lookup_Cons)
qed (simp add: neigh_lookup_create_def)

section \<open>Resolution\<close>

definition nd_received :: "nip_addr \<Rightarrow> nip_addr \<Rightarrow> u8 \<Rightarrow> bytes \<Rightarrow> nip_skb \<Rightarrow> bool" where
  "nd_received d s type data skb \<longleftrightarrow> cb_srcaddr skb = s \<and> cb_dstaddr skb = d \<and> cb_nexthdr skb = IPPROTO_NIP_ICMP \<and>
     (\<exists>c hb pad. skb_mem skb = hb @ nd_msg type data c @ pad \<and> skb_th skb = length hb \<and>
       nip_check_sum_parse (nd_msg type data c) (of_nat (4 + length data)) (nndisc_pseudo s d IPPROTO_NIP_ICMP (of_nat (4 + length data)))
         = Some 0xFFFF)"

lemma nd_packet_delivered:
  assumes "valid_addr d" "valid_addr s" "nd_packet d s type data pkt" "4 + length data + 22 < 65536" "length pad < 65536"
    "protos IPPROTO_NIP_ICMP = Some h"
  shows "\<exists>skb. delivered IPPROTO_NIP_ICMP protos (pkt @ pad) = Some (h, skb) \<and> nd_received d s type data skb"
proof -
  obtain c where c: "pkt = nd_hdr d s (4 + length data) @ nd_msg type data c"
    "nip_check_sum_parse (nd_msg type data c) (of_nat (4 + length data)) (nndisc_pseudo s d IPPROTO_NIP_ICMP (of_nat (4 + length data))) = Some 0xFFFF"
    using assms(3) unfolding nd_packet_def by blast
  let ?t = "htons (of_nat (length (comm_hdr_bytes d s NIP_ARP_DEFAULT_TTL 0 IPPROTO_NIP_ICMP) + (4 + length data)))"
  have t: "?t = htons (of_nat (length (comm_hdr_bytes d s NIP_ARP_DEFAULT_TTL 0 IPPROTO_NIP_ICMP) + length (nd_msg type data c)))"
    by simp
  have e: "nd_hdr d s (4 + length data) = comm_hdr_bytes d s NIP_ARP_DEFAULT_TTL ?t IPPROTO_NIP_ICMP" by (simp only: nd_hdr_def)
  have le: "length (comm_hdr_bytes d s NIP_ARP_DEFAULT_TTL ?t IPPROTO_NIP_ICMP) \<le> 22" by (rule hdr_bytes_le(2) [OF assms(1,2)])
  then have lt: "length (comm_hdr_bytes d s NIP_ARP_DEFAULT_TTL ?t IPPROTO_NIP_ICMP) + length (nd_msg type data c) < 65536"
    using assms(4) by simp
  have ne: "nd_msg type data c \<noteq> []" by (simp add: nd_msg_def)
  obtain skb where "delivered IPPROTO_NIP_ICMP protos (comm_hdr_bytes d s NIP_ARP_DEFAULT_TTL ?t IPPROTO_NIP_ICMP @ nd_msg type data c @ pad) = Some (h, skb)"
    "cb_srcaddr skb = s" "cb_dstaddr skb = d" "cb_nexthdr skb = IPPROTO_NIP_ICMP" "skb_th skb = skb_pos skb"
    "skb_mem skb = comm_hdr_bytes d s NIP_ARP_DEFAULT_TTL ?t IPPROTO_NIP_ICMP @ nd_msg type data c @ pad"
    "skb_pos skb = length (comm_hdr_bytes d s NIP_ARP_DEFAULT_TTL ?t IPPROTO_NIP_ICMP)"
    using rcv_comm_packet [where icmp = IPPROTO_NIP_ICMP and nh = IPPROTO_NIP_ICMP and ttl = NIP_ARP_DEFAULT_TTL and t = ?t and protos = protos and
        seg = "nd_msg type data c" and pad = pad, OF assms(2,1) _ assms(6) ne lt assms(5) t] by blast
  then show ?thesis unfolding c(1) append_assoc e nd_received_def using c(2) by metis
qed

lemma rcv_checksum_ok:
  assumes "nip_check_sum_parse m (of_nat (length m)) (nndisc_pseudo s d x (of_nat (length m))) = Some 0xFFFF" "length m < 65536"
    "valid_addr s" "valid_addr d" "skb_mem skb = hb @ m @ pad" "skb_th skb = length hb" "cb_srcaddr skb = s" "cb_dstaddr skb = d"
    "cb_nexthdr skb = x" "tail = length hb + length m"
  shows "nip_get_nndisc_rcv_checksum skb tail = Some True"
proof -
  define n where "n = (of_nat (length m) :: u16)"
  have n: "unat n = length m" using assms(2) by (simp add: n_def unat_of_nat take_bit_eq_mod)
  have "nip_check_sum_parse (m @ pad) n (nndisc_pseudo s d x n) = Some 0xFFFF"
    using checksum_take(1) [OF wf_nndisc_pseudo [OF assms(3,4)], of n "m @ pad" x n] assms(1) by (simp add: n flip: n_def)
  then show ?thesis using assms(5-10) by (simp add: nip_get_nndisc_rcv_checksum_def flip: n_def)
qed

lemma rcv_ns:
  assumes r: "nd_received d s NIP_ARP_NS (addr_bytes b) skb" and v: "valid_addr d" "valid_addr s" "valid_addr b"
    and l: "nip_addr_local dev b"
  shows "nip_icmp_rcv e dev hs skb tbl = (case nndisc_send_na e dev s b of None \<Rightarrow> None
    | Some pkts \<Rightarrow> Some (0, neigh_change e (nd_index dev) s hs NUD_STALE (neigh_lookup_create e dev s tbl), pkts))"
proof -
  obtain c hb pad where c: "skb_mem skb = hb @ nd_msg NIP_ARP_NS (addr_bytes b) c @ pad" "skb_th skb = length hb"
    "cb_srcaddr skb = s" "cb_dstaddr skb = d" "cb_nexthdr skb = IPPROTO_NIP_ICMP"
    "nip_check_sum_parse (nd_msg NIP_ARP_NS (addr_bytes b) c) (of_nat (4 + length (addr_bytes b)))
      (nndisc_pseudo s d IPPROTO_NIP_ICMP (of_nat (4 + length (addr_bytes b)))) = Some 0xFFFF"
    using r unfolding nd_received_def by blast
  note b = valid_addrD [OF v(3)]
  let ?pre = "hb @ [NIP_ARP_NS, 0, lo8 (htons c), hi8 (htons c)]"
  have mem: "skb_mem skb = ?pre @ addr_bytes b @ pad" by (simp add: c(1) nd_msg_def)
  have dec: "decode_nip_addr (skb_mem skb) (skb_th skb + 4) zero_addr = Some (b, Some (length hb + 4 + length (addr_bytes b)))"
    using decode_build [OF b(1,2) zero_addr_facts b(4), of ?pre pad] unfolding b(7) mem c(2) by (simp add: eval_nat_numeral)
  have ck: "nip_get_nndisc_rcv_checksum skb (length hb + 4 + length (addr_bytes b)) = Some True"
    by (rule rcv_checksum_ok [where m = "nd_msg NIP_ARP_NS (addr_bytes b) c" and hb = hb and pad = pad and s = s and d = d, OF _ _ v(2,1)])
      (use c b(5) get_nip_addr_len_le [of b] in simp_all)
  have ty: "rd8 (skb_mem skb) (skb_th skb) = Some NIP_ARP_NS" by (simp add: c(1,2) nd_msg_def rd8_def nth_append)
  show ?thesis
    by (simp add: nip_icmp_rcv_def nndisc_rcv_def ty nndisc_rcv_ns_def dec b(2) l ck c(3) Let_def split: option.split)
qed

lemma rcv_na:
  assumes r: "nd_received d s NIP_ARP_NA (of_nat (length mac) # mac) skb" and v: "valid_addr d" "valid_addr s" and l: "length mac \<le> 32"
    and n: "neigh_lookup (nd_index dev) s tbl = Some n"
  shows "nip_icmp_rcv e dev hs skb tbl =
    Some (0, neigh_change e (nd_index dev) s (mac @ replicate (32 - length mac) 0) NUD_REACHABLE tbl, [])"
proof -
  obtain c hb pad where c: "skb_mem skb = hb @ nd_msg NIP_ARP_NA (of_nat (length mac) # mac) c @ pad" "skb_th skb = length hb"
    "cb_srcaddr skb = s" "cb_dstaddr skb = d" "cb_nexthdr skb = IPPROTO_NIP_ICMP"
    "nip_check_sum_parse (nd_msg NIP_ARP_NA (of_nat (length mac) # mac) c) (of_nat (4 + length (of_nat (length mac) # mac)))
      (nndisc_pseudo s d IPPROTO_NIP_ICMP (of_nat (4 + length (of_nat (length mac) # mac)))) = Some 0xFFFF"
    using r unfolding nd_received_def by blast
  let ?pre = "hb @ [NIP_ARP_NA, 0, lo8 (htons c), hi8 (htons c)]"
  have mem: "skb_mem skb = ?pre @ of_nat (length mac) # mac @ pad" by (simp add: c(1) nd_msg_def)
  have ul: "unat (of_nat (length mac) :: u8) = length mac" using l by (simp add: unat_of_nat take_bit_eq_mod)
  have ty: "rd8 (skb_mem skb) (skb_th skb) = Some NIP_ARP_NA" by (simp add: c(1,2) nd_msg_def rd8_def nth_append)
  have ln: "rd8 (skb_mem skb) (skb_th skb + 4) = Some (of_nat (length mac))" by (simp add: mem c(2) rd8_def nth_append)
  have ck: "nip_get_nndisc_rcv_checksum skb (length hb + 5 + length mac) = Some True"
    by (rule rcv_checksum_ok [where m = "nd_msg NIP_ARP_NA (of_nat (length mac) # mac) c" and hb = hb and pad = pad and s = s and d = d, OF _ _ v(2,1)])
      (use c l in simp_all)
  have tk: "take (length mac) (drop (length hb + 5) (skb_mem skb)) = mac" by (simp add: mem)
  show ?thesis using l
    by (simp add: nip_icmp_rcv_def nndisc_rcv_def ty nndisc_rcv_na_def ln ul c(2,3) tk ck n MAX_ADDR_LEN_def NIP_ARP_NS_def NIP_ARP_NA_def mem)
qed


text \<open>C10: neighbour resolution. The solicitation that A sends for the address b, from its address a, is delivered to
  the receive path of the device that owns b, whatever padding the links add: there the entry of a exists afterwards, refreshed
  with the link-layer address the packet came from, and one advertisement leaves. That advertisement is delivered to A, and
  the entry of b in A's table becomes reachable at the hardware address of B.\<close>

theorem neighbour_resolution:
  assumes addrs: "valid_addr a" "valid_addr b" and envs: "memory_ok eA" "memory_ok eB" "keeps_key eA" "keeps_key eB"
    and own: "nip_addr_local devB b" and mac: "length (nd_dev_addr devB) \<le> 32"
    and entry: "neigh_lookup (nd_index devA) b tblA = Some n"
    and handler: "protos IPPROTO_NIP_ICMP = Some h" and pad: "length pad < 65536" "length pad' < 65536"
  shows "\<exists>ns skb nB na skb'.
    nndisc_send_ns eA b nip_broadcast_addr_arp a = Some [ns] \<and>
    delivered IPPROTO_NIP_ICMP protos (ns @ pad) = Some (h, skb) \<and>
    nip_icmp_rcv eB devB macA skb tblB
      = Some (0, neigh_change eB (nd_index devB) a macA NUD_STALE (neigh_lookup_create eB devB a tblB), [na]) \<and>
    neigh_lookup (nd_index devB) a (neigh_change eB (nd_index devB) a macA NUD_STALE (neigh_lookup_create eB devB a tblB))
      = Some (neigh_update eB nB macA NUD_STALE) \<and>
    delivered IPPROTO_NIP_ICMP protos (na @ pad') = Some (h, skb') \<and>
    (\<exists>tblA'. nip_icmp_rcv eA devA macB skb' tblA = Some (0, tblA', []) \<and>
      neigh_lookup (nd_index devA) b tblA' =
        Some (neigh_update eA n (nd_dev_addr devB @ replicate (32 - length (nd_dev_addr devB)) 0) NUD_REACHABLE))"
proof -
  have bc: "valid_addr nip_broadcast_addr_arp" by code_simp
  have small: "4 + length (addr_bytes b) + 22 < 65536"
    "4 + length ((of_nat (length (nd_dev_addr devB)) :: u8) # nd_dev_addr devB) + 22 < 65536"
    using valid_addrD(5) [OF addrs(2)] get_nip_addr_len_le [of b] mac by simp_all
  obtain ns where ns: "nndisc_send_ns eA b nip_broadcast_addr_arp a = Some [ns]" "nd_packet nip_broadcast_addr_arp a NIP_ARP_NS (addr_bytes b) ns"
    using send_ns_packet [OF bc addrs envs(1)] by blast
  obtain skb where skb: "delivered IPPROTO_NIP_ICMP protos (ns @ pad) = Some (h, skb)"
    "nd_received nip_broadcast_addr_arp a NIP_ARP_NS (addr_bytes b) skb"
    using nd_packet_delivered [where protos = protos, OF bc addrs(1) ns(2) small(1) pad(1) handler] by blast
  obtain na where na: "nndisc_send_na eB devB a b = Some [na]"
    "nd_packet a b NIP_ARP_NA (of_nat (length (nd_dev_addr devB)) # nd_dev_addr devB) na"
    using send_na_packet [OF addrs envs(2) mac] by blast
  obtain skb' where skb': "delivered IPPROTO_NIP_ICMP protos (na @ pad') = Some (h, skb')"
    "nd_received a b NIP_ARP_NA (of_nat (length (nd_dev_addr devB)) # nd_dev_addr devB) skb'"
    using nd_packet_delivered [where protos = protos, OF addrs na(2) small(2) pad(2) handler] by blast
  have i: "neigh_alloc_ok eB" "nd_idev devB \<noteq> None" using envs(2) own by (auto simp: memory_ok_def nip_addr_local_def split: option.splits)
  obtain nB where nB: "neigh_lookup (nd_index devB) a (neigh_lookup_create eB devB a tblB) = Some nB"
    using neigh_lookup_created [OF i addrs(1)] by blast
  have "nip_icmp_rcv eB devB macA skb tblB
      = Some (0, neigh_change eB (nd_index devB) a macA NUD_STALE (neigh_lookup_create eB devB a tblB), [na])"
    using rcv_ns [OF skb(2) bc addrs own] na(1) by simp
  then show ?thesis
    using ns(1) skb(1) skb'(1) neigh_lookup_change [OF envs(4) nB] rcv_na [OF skb'(2) addrs mac entry] neigh_lookup_change [OF envs(3) entry]
    by blast
qed

definition sample_nd :: nd_env where
  "sample_nd = \<lparr>nd_send = sample_send, nd_dst_ok = True, neigh_alloc_ok = True, neigh_update = (\<lambda>n l s. n\<lparr>n_ha := l, n_nud := s\<rparr>)\<rparr>"

definition sample_nd_dev :: "nat \<Rightarrow> bytes \<Rightarrow> nip_addr \<Rightarrow> nd_device" where
  "sample_nd_dev i mac a = \<lparr>nd_index = i, nd_header_ops = True, nd_header_cache = True, nd_pointopoint = False, nd_noarp = False,
     nd_loopback = False, nd_dev_addr = mac, nd_broadcast = replicate 6 0xFF, nd_idev = Some [a]\<rparr>"

theorem neighbour_resolution_witness:
  "\<exists>ns skb nB na skb'.
    nndisc_send_ns sample_nd (short_addr 600) nip_broadcast_addr_arp (short_addr 5) = Some [ns] \<and>
    delivered IPPROTO_NIP_ICMP (\<lambda>_. Some nip_icmp_protocol) (ns @ [0, 0]) = Some (nip_icmp_protocol, skb) \<and>
    nip_icmp_rcv sample_nd (sample_nd_dev 2 [2, 2, 2, 2, 2, 2] (short_addr 600)) [1, 1, 1, 1, 1, 1] skb []
      = Some (0, neigh_change sample_nd 2 (short_addr 5) [1, 1, 1, 1, 1, 1] NUD_STALE
          (neigh_lookup_create sample_nd (sample_nd_dev 2 [2, 2, 2, 2, 2, 2] (short_addr 600)) (short_addr 5) []), [na]) \<and>
    delivered IPPROTO_NIP_ICMP (\<lambda>_. Some nip_icmp_protocol) (na @ []) = Some (nip_icmp_protocol, skb')"
proof -
  have 1: "memory_ok sample_nd" "keeps_key sample_nd" by (simp_all add: memory_ok_def keeps_key_def sample_nd_def sample_send_def)
  have 2: "nip_addr_local (sample_nd_dev 2 [2, 2, 2, 2, 2, 2] (short_addr 600)) (short_addr 600)"
    using nip_addr_eq_refl [OF valid_addr_bitlen [OF sample_addr_valid(2)]] by (simp add: nip_addr_local_def sample_nd_dev_def)
  have 3: "length (nd_dev_addr (sample_nd_dev 2 [2, 2, 2, 2, 2, 2] (short_addr 600))) \<le> 32" by (simp add: sample_nd_dev_def)
  let ?dA = "sample_nd_dev 1 [1, 1, 1, 1, 1, 1] (short_addr 5)"
  have 4: "neigh_lookup (nd_index ?dA) (short_addr 600) [neigh_new ?dA (short_addr 600)] = Some (neigh_new ?dA (short_addr 600))"
    using valid_addr_bitlen [OF sample_addr_valid(2)] by (simp add: neigh_lookup_Cons neigh_key_eq800_def neigh_new_def)
  have i: "nd_index (sample_nd_dev 2 [2, 2, 2, 2, 2, 2] (short_addr 600)) = 2" by (simp add: sample_nd_dev_def)
  show ?thesis
    using neighbour_resolution [where protos = "\<lambda>_. Some nip_icmp_protocol" and h = nip_icmp_protocol and pad = "[0, 0]" and pad' = "[]"
        and macA = "[1, 1, 1, 1, 1, 1]" and macB = "[2, 2, 2, 2, 2, 2]" and tblB = "[]", OF sample_addr_valid 1(1,1,2,2) 2 3 4] unfolding i
    by (simp only: simp_thms) fastforce
qed

text \<open>C33: an advertisement whose length byte exceeds the 32 bytes of the stack array for the address is copied before its
  checksum or its sender is looked at: any packet with such a byte that reaches the device writes behind the array.\<close>

theorem na_length_overflow:
  assumes "valid_addr s" "valid_addr d" "protos IPPROTO_NIP_ICMP = Some h" "32 < len" "length rest + 32 < 65536"
    and msg: "msg = NIP_ARP_NA # x # y # z # len # rest"
  shows "\<exists>skb. delivered IPPROTO_NIP_ICMP protos
      (comm_hdr_bytes d s ttl (htons (of_nat (length (comm_hdr_bytes d s ttl 0 IPPROTO_NIP_ICMP) + length msg))) IPPROTO_NIP_ICMP @ msg)
        = Some (h, skb) \<and>
    nip_icmp_rcv e dev hs skb tbl = None"
proof -
  let ?m = msg
  let ?t = "htons (of_nat (length (comm_hdr_bytes d s ttl 0 IPPROTO_NIP_ICMP) + length ?m))"
  let ?hb = "comm_hdr_bytes d s ttl ?t IPPROTO_NIP_ICMP"
  have le: "length ?hb \<le> 22" by (rule hdr_bytes_le(2) [OF assms(2,1)])
  have lt: "length ?hb + length ?m < 65536" using le assms(5) by (simp add: msg)
  have ne: "?m \<noteq> []" by (simp add: msg)
  obtain skb where s: "delivered IPPROTO_NIP_ICMP protos (?hb @ ?m @ []) = Some (h, skb)" "skb_th skb = length ?hb" "skb_mem skb = ?hb @ ?m @ []"
    using rcv_comm_packet [where icmp = IPPROTO_NIP_ICMP and nh = IPPROTO_NIP_ICMP and ttl = ttl and t = ?t and protos = protos and
        seg = ?m and pad = "[]", OF assms(1,2) _ assms(3) ne lt _ refl] by auto
  have r: "rd8 (skb_mem skb) (skb_th skb) = Some NIP_ARP_NA" "rd8 (skb_mem skb) (skb_th skb + 4) = Some len"
    by (simp_all only: s(2,3)) (simp_all add: rd8_def nth_append msg)
  have "nip_icmp_rcv e dev hs skb tbl = None" using assms(4)
    by (simp add: nip_icmp_rcv_def nndisc_rcv_def nndisc_rcv_na_def r MAX_ADDR_LEN_def word_less_nat_alt NIP_ARP_NS_def NIP_ARP_NA_def)
  then show ?thesis using s(1) unfolding append_Nil2 by blast
qed

theorem na_length_overflow_witness:
  "\<exists>skb. delivered IPPROTO_NIP_ICMP (\<lambda>_. Some nip_icmp_protocol)
      (comm_hdr_bytes (short_addr 5) (short_addr 600) 64
        (htons (of_nat (length (comm_hdr_bytes (short_addr 5) (short_addr 600) 64 0 IPPROTO_NIP_ICMP) + length [NIP_ARP_NA, 0, 0, 0, 33, 1, 2])))
        IPPROTO_NIP_ICMP @ [NIP_ARP_NA, 0, 0, 0, 33, 1, 2]) = Some (nip_icmp_protocol, skb) \<and>
    nip_icmp_rcv sample_nd (sample_nd_dev 1 [1, 1, 1, 1, 1, 1] (short_addr 5)) [2, 2, 2, 2, 2, 2] skb [] = None"
  by (rule na_length_overflow [OF sample_addr_valid(2,1)]) simp_all

end
