(* ===== verification/BtRing.thy ===== *)
theory BtRing
  imports Prelude
begin

text \<open>
  The packet ring between a virtual network device and its character device: struct bt_ring and
  the bt_ring functions of src/src/linux/drivers/net/bt/btdev.c. A slot is None until it is
  written; reading such a slot, or outside the array, has no result.
\<close>

section \<open>The ring\<close>

definition BT_RING_BUFFER_SIZE :: nat where "BT_RING_BUFFER_SIZE = 4096"

record 'p bt_ring =
  ring_head :: u32
  ring_tail :: u32
  ring_size :: u32
  ring_data :: "'p option list"

text \<open>__bt_ring_create with the success of its two allocations.\<close>

definition bt_ring_create_sized :: "bool \<Rightarrow> bool \<Rightarrow> int \<Rightarrow> 'p bt_ring option" where
  "bt_ring_create_sized ring_ok data_ok n =
    (if \<not> ring_ok then None else if n < 0 then None else if \<not> data_ok then None
     else Some \<lparr>ring_head = 0, ring_tail = 0, ring_size = of_int n, ring_data = replicate (nat n) None\<rparr>)"

definition bt_ring_create :: "bool \<Rightarrow> bool \<Rightarrow> 'p bt_ring option" where
  "bt_ring_create ring_ok data_ok = bt_ring_create_sized ring_ok data_ok (int BT_RING_BUFFER_SIZE)"

definition bt_ring_is_empty :: "'p bt_ring \<Rightarrow> bool" where
  "bt_ring_is_empty r \<longleftrightarrow> ring_head r = ring_tail r"

definition bt_ring_is_full :: "'p bt_ring \<Rightarrow> bool" where
  "bt_ring_is_full r \<longleftrightarrow> (ring_head r + 1) mod ring_size r = ring_tail r"

definition bt_ring_produce :: "'p \<Rightarrow> 'p bt_ring \<Rightarrow> 'p bt_ring" where
  "bt_ring_produce p r = r\<lparr>ring_data := (ring_data r)[unat (ring_head r) := Some p],
     ring_head := (ring_head r + 1) mod ring_size r\<rparr>"

definition bt_ring_current :: "'p bt_ring \<Rightarrow> 'p option" where
  "bt_ring_current r =
    (if unat (ring_tail r) < length (ring_data r) then ring_data r ! unat (ring_tail r) else None)"

definition bt_ring_consume :: "'p bt_ring \<Rightarrow> 'p bt_ring" where
  "bt_ring_consume r = r\<lparr>ring_tail := (ring_tail r + 1) mod ring_size r\<rparr>"

text \<open>bt_virnet_get_ring_packets: the unsigned difference read as an int.\<close>

definition bt_virnet_get_ring_packets :: "'p bt_ring \<Rightarrow> int" where
  "bt_virnet_get_ring_packets r =
    (let packets = sint (ring_head r - ring_tail r) in
     if packets < 0 then packets + int BT_RING_BUFFER_SIZE else packets)"

section \<open>Bounded queues\<close>

text \<open>
  The contract a transmit queue offers its two users, the network device that puts packets and
  the reader that takes them: items are the queued packets, oldest first, and at most cap of them.
\<close>

locale packet_queue =
  fixes inv :: "'q \<Rightarrow> bool"
    and items :: "'q \<Rightarrow> 'p list"
    and cap :: nat
    and is_full :: "'q \<Rightarrow> bool"
    and is_empty :: "'q \<Rightarrow> bool"
    and put :: "'p \<Rightarrow> 'q \<Rightarrow> 'q"
    and current :: "'q \<Rightarrow> 'p option"
    and consume :: "'q \<Rightarrow> 'q"
  assumes full_iff: "inv q \<Longrightarrow> is_full q \<longleftrightarrow> length (items q) = cap"
    and empty_iff: "inv q \<Longrightarrow> is_empty q \<longleftrightarrow> items q = []"
    and bounded: "inv q \<Longrightarrow> length (items q) \<le> cap"
    and put: "inv q \<Longrightarrow> length (items q) < cap \<Longrightarrow> inv (put p q) \<and> items (put p q) = items q @ [p]"
    and current: "inv q \<Longrightarrow> items q = p # ps \<Longrightarrow> current q = Some p"
    and consume: "inv q \<Longrightarrow> items q = p # ps \<Longrightarrow> inv (consume q) \<and> items (consume q) = ps"

datatype 'p queue_event = Put 'p | Take

text \<open>A run of any interleaving: the packets accepted and the packets taken, in order.\<close>

fun queue_run ::
  "('q \<Rightarrow> bool) \<Rightarrow> ('q \<Rightarrow> bool) \<Rightarrow> ('p \<Rightarrow> 'q \<Rightarrow> 'q) \<Rightarrow> ('q \<Rightarrow> 'p option) \<Rightarrow> ('q \<Rightarrow> 'q)
     \<Rightarrow> 'p queue_event list \<Rightarrow> 'q \<Rightarrow> 'p list \<times> 'p option list \<times> 'q" where
  "queue_run full emp put current consume [] q = ([], [], q)"
| "queue_run full emp put current consume (Put p # es) q =
    (if full q then queue_run full emp put current consume es q
     else let (acc, out, q) = queue_run full emp put current consume es (put p q) in (p # acc, out, q))"
| "queue_run full emp put current consume (Take # es) q =
    (if emp q then queue_run full emp put current consume es q
     else let (acc, out, r) = queue_run full emp put current consume es (consume q) in (acc, current q # out, r))"

context packet_queue begin

abbreviation "run \<equiv> queue_run is_full is_empty put current consume"

lemma put_accepts:
  assumes "inv q" "\<not> is_full q"
  shows "inv (put p q)" "items (put p q) = items q @ [p]"
proof -
  have "length (items q) < cap" using assms full_iff bounded by (metis le_neq_implies_less)
  then show "inv (put p q)" "items (put p q) = items q @ [p]" using put assms(1) by blast+
qed

lemma take_first:
  assumes "inv q" "\<not> is_empty q"
  obtains p ps where "items q = p # ps" "current q = Some p" "inv (consume q)" "items (consume q) = ps"
  using assms empty_iff current consume by (cases "items q") auto

text \<open>Nothing is lost, duplicated or reordered.\<close>

lemma run_fifo:
  "inv q \<Longrightarrow> run es q = (acc, out, q') \<Longrightarrow> inv q' \<and> (\<exists>ps. out = map Some ps \<and> items q @ acc = ps @ items q')"
proof (induction es arbitrary: q acc out q')
  case (Cons e es)
  show ?case
  proof (cases e)
    case (Put p)
    show ?thesis
    proof (cases "is_full q")
      case True
      then show ?thesis using Cons Put by simp
    next
      case False
      obtain acc1 where r: "run es (put p q) = (acc1, out, q')" "acc = p # acc1"
        using Cons.prems(2) Put False by (auto split: prod.splits)
      then show ?thesis using Cons.IH [OF _ r(1)] put_accepts [OF Cons.prems(1) False, of p] by auto
    qed
  next
    case Take
    show ?thesis
    proof (cases "is_empty q")
      case True
      then show ?thesis using Cons Take by simp
    next
      case False
      obtain p ps where t: "items q = p # ps" "current q = Some p" "inv (consume q)" "items (consume q) = ps"
        by (rule take_first [OF Cons.prems(1) False])
      obtain out1 where r: "run es (consume q) = (acc, out1, q')" "out = current q # out1"
        using Cons.prems(2) Take False by (auto split: prod.splits)
      obtain ps1 where i: "inv q'" "out1 = map Some ps1" "items (consume q) @ acc = ps1 @ items q'"
        using Cons.IH [OF t(3) r(1)] by blast
      then have "out = map Some (p # ps1) \<and> items q @ acc = (p # ps1) @ items q'" using t r(2) by simp
      then show ?thesis using i(1) by blast
    qed
  qed
qed simp

end

section \<open>The ring is a bounded queue\<close>

definition ring_count :: "'p bt_ring \<Rightarrow> nat" where
  "ring_count r = (unat (ring_head r) + BT_RING_BUFFER_SIZE - unat (ring_tail r)) mod BT_RING_BUFFER_SIZE"

definition ring_slot :: "'p bt_ring \<Rightarrow> nat \<Rightarrow> 'p option" where
  "ring_slot r k = ring_data r ! ((unat (ring_tail r) + k) mod BT_RING_BUFFER_SIZE)"

definition ring_items :: "'p bt_ring \<Rightarrow> 'p list" where
  "ring_items r = map (\<lambda>k. the (ring_slot r k)) [0 ..< ring_count r]"

definition ring_inv :: "'p bt_ring \<Rightarrow> bool" where
  "ring_inv r \<longleftrightarrow> ring_size r = of_nat BT_RING_BUFFER_SIZE \<and> length (ring_data r) = BT_RING_BUFFER_SIZE \<and>
     unat (ring_head r) < BT_RING_BUFFER_SIZE \<and> unat (ring_tail r) < BT_RING_BUFFER_SIZE \<and>
     (\<forall>k < ring_count r. ring_slot r k \<noteq> None)"

lemma unat_next:
  fixes h s :: u32
  assumes "unat h < BT_RING_BUFFER_SIZE" "s = of_nat BT_RING_BUFFER_SIZE"
  shows "unat ((h + 1) mod s) = (unat h + 1) mod BT_RING_BUFFER_SIZE"
proof -
  have "unat (h + 1) = unat h + 1"
    using assms(1) by (simp add: BT_RING_BUFFER_SIZE_def unat_word_ariths)
  moreover have "unat s = BT_RING_BUFFER_SIZE" using assms(2) by (simp add: BT_RING_BUFFER_SIZE_def)
  ultimately show ?thesis by (simp add: unat_mod_distrib)
qed

lemma ring_create_inv:
  assumes "bt_ring_create a b = Some r"
  shows "ring_inv r" "ring_items r = []"
  using assms by (auto simp: bt_ring_create_def bt_ring_create_sized_def ring_inv_def ring_items_def ring_count_def
      BT_RING_BUFFER_SIZE_def split: if_splits)

lemma mod_step: "h < n \<Longrightarrow> t < n \<Longrightarrow> ((h + 1) mod n + n - t) mod n = (let c = (h + n - t) mod n in if c + 1 = n then 0 else c + 1)"
  for h t n :: nat
  by (auto simp: Let_def mod_if split: if_splits)

lemma mod_step_tail: "h < n \<Longrightarrow> t < n \<Longrightarrow> h \<noteq> t \<Longrightarrow> (h + n - (t + 1) mod n) mod n = (h + n - t) mod n - 1"
  for h t n :: nat
  by (auto simp: mod_if split: if_splits)

lemma count_full: "h < n \<Longrightarrow> t < n \<Longrightarrow> (h + 1) mod n = t \<longleftrightarrow> (h + n - t) mod n = n - 1" for h t n :: nat
  by (auto simp: mod_if split: if_splits)

lemma slot_at_head: "h < n \<Longrightarrow> t < n \<Longrightarrow> (t + (h + n - t) mod n) mod n = h" for h t n :: nat
  by (auto simp: mod_if split: if_splits)

lemma slot_other:
  fixes h t n k :: nat
  assumes "h < n" "t < n" "k < (h + n - t) mod n"
  shows "(t + k) mod n \<noteq> h"
proof (cases "t \<le> h")
  case True
  then have "(h + n - t) mod n = h - t" using assms by (simp add: mod_if)
  then show ?thesis using assms by simp
next
  case False
  then have k: "t + k < h + n" using assms by simp
  show ?thesis using k False assms(1,2) by (cases "t + k < n") (auto simp: mod_if)
qed

lemma ring_invD:
  assumes "ring_inv r"
  shows "ring_size r = of_nat BT_RING_BUFFER_SIZE" "length (ring_data r) = BT_RING_BUFFER_SIZE"
    "unat (ring_head r) < BT_RING_BUFFER_SIZE" "unat (ring_tail r) < BT_RING_BUFFER_SIZE"
    "k < ring_count r \<Longrightarrow> ring_slot r k \<noteq> None"
  using assms by (auto simp: ring_inv_def)

lemma ring_full_iff: "ring_inv r \<Longrightarrow> bt_ring_is_full r \<longleftrightarrow> ring_count r = BT_RING_BUFFER_SIZE - 1"
proof -
  assume i: "ring_inv r"
  have "bt_ring_is_full r \<longleftrightarrow> (unat (ring_head r) + 1) mod BT_RING_BUFFER_SIZE = unat (ring_tail r)"
    unfolding bt_ring_is_full_def word_unat_eq_iff unat_next [OF ring_invD(3) [OF i] ring_invD(1) [OF i]] ..
  then show ?thesis using count_full [OF ring_invD(3,4) [OF i]] by (simp add: ring_count_def)
qed

lemma ring_empty_iff: "ring_inv r \<Longrightarrow> bt_ring_is_empty r \<longleftrightarrow> ring_count r = 0"
proof -
  assume i: "ring_inv r"
  have "(h + n - t) mod n = 0 \<longleftrightarrow> h = t" if "h < n" "t < n" for h t n :: nat
    using that by (auto simp: mod_if split: if_splits)
  then show ?thesis using ring_invD(3,4) [OF i] by (simp add: bt_ring_is_empty_def word_unat_eq_iff ring_count_def)
qed

lemma ring_count_less: "ring_count r < BT_RING_BUFFER_SIZE"
  by (simp add: ring_count_def BT_RING_BUFFER_SIZE_def)

lemma ring_put:
  assumes i: "ring_inv r" and c: "ring_count r < BT_RING_BUFFER_SIZE - 1"
  shows "ring_inv (bt_ring_produce p r) \<and> ring_items (bt_ring_produce p r) = ring_items r @ [p]"
proof -
  let ?r = "bt_ring_produce p r" and ?n = BT_RING_BUFFER_SIZE
  note d = ring_invD [OF i]
  have h: "unat (ring_head ?r) = (unat (ring_head r) + 1) mod ?n"
    using unat_next [OF d(3,1)] by (simp add: bt_ring_produce_def)
  have t: "ring_tail ?r = ring_tail r" "ring_size ?r = ring_size r" "length (ring_data ?r) = length (ring_data r)"
    by (simp_all add: bt_ring_produce_def)
  have n: "ring_count ?r = ring_count r + 1"
    using mod_step [OF d(3,4)] c by (simp add: ring_count_def h t Let_def)
  have s: "ring_slot ?r k = (if k = ring_count r then Some p else ring_slot r k)" if "k \<le> ring_count r" for k
  proof (cases "k = ring_count r")
    case True
    then show ?thesis
      using slot_at_head [OF d(3,4)] d(2,3) by (simp add: ring_slot_def ring_count_def t) (simp add: bt_ring_produce_def)
  next
    case False
    then have "(unat (ring_tail r) + k) mod ?n \<noteq> unat (ring_head r)"
      using slot_other [OF d(3,4), of k] that by (simp add: ring_count_def)
    then show ?thesis using False by (simp add: ring_slot_def t) (simp add: bt_ring_produce_def)
  qed
  have "ring_inv ?r"
    unfolding ring_inv_def t n h using d s by (auto simp: BT_RING_BUFFER_SIZE_def less_Suc_eq)
  moreover have "ring_items ?r = ring_items r @ [p]"
    unfolding ring_items_def n by (simp add: s cong: map_cong)
  ultimately show ?thesis ..
qed

lemma ring_current:
  assumes "ring_inv r" "ring_items r = p # ps"
  shows "bt_ring_current r = Some p"
proof -
  note d = ring_invD [OF assms(1)]
  have c: "0 < ring_count r" using assms(2) by (cases "ring_count r") (simp_all add: ring_items_def)
  then have "p = the (ring_slot r 0)" using assms(2) by (simp add: ring_items_def upt_conv_Cons)
  moreover have "ring_slot r 0 = bt_ring_current r" using d(2,4) by (simp add: ring_slot_def bt_ring_current_def)
  ultimately show ?thesis using d(5) [OF c] by auto
qed

lemma ring_consume:
  assumes "ring_inv r" "ring_items r = p # ps"
  shows "ring_inv (bt_ring_consume r) \<and> ring_items (bt_ring_consume r) = ps"
proof -
  let ?r = "bt_ring_consume r" and ?n = BT_RING_BUFFER_SIZE
  note d = ring_invD [OF assms(1)]
  have c: "0 < ring_count r" using assms(2) by (cases "ring_count r") (simp_all add: ring_items_def)
  have t: "unat (ring_tail ?r) = (unat (ring_tail r) + 1) mod ?n" "ring_head ?r = ring_head r"
    "ring_size ?r = ring_size r" "ring_data ?r = ring_data r"
    using unat_next [OF d(4,1)] by (simp_all add: bt_ring_consume_def)
  have "unat (ring_head r) \<noteq> unat (ring_tail r)" using c by (auto simp: ring_count_def)
  then have n: "ring_count ?r = ring_count r - 1"
    using mod_step_tail [OF d(3,4)] by (simp add: ring_count_def t)
  have s: "ring_slot ?r k = ring_slot r (Suc k)" for k by (simp add: ring_slot_def t mod_simps)
  have "ring_items r = the (ring_slot r 0) # map (\<lambda>k. the (ring_slot r (Suc k))) [0 ..< ring_count r - 1]"
  proof -
    have "[0 ..< ring_count r] = 0 # map Suc [0 ..< ring_count r - 1]"
      using c by (metis One_nat_def Suc_pred map_Suc_upt upt_conv_Cons)
    then show ?thesis by (simp add: ring_items_def)
  qed
  then have "ring_items ?r = ps" using assms(2) by (simp add: ring_items_def n s)
  moreover have "ring_inv ?r"
    unfolding ring_inv_def t n s using d c by (simp add: BT_RING_BUFFER_SIZE_def)
  ultimately show ?thesis by simp
qed

interpretation tx_queue: packet_queue ring_inv ring_items "BT_RING_BUFFER_SIZE - 1" bt_ring_is_full bt_ring_is_empty
  bt_ring_produce bt_ring_current bt_ring_consume
proof unfold_locales
  have l: "length (ring_items r) = ring_count r" for r :: "'a bt_ring" by (simp add: ring_items_def)
  fix q :: "'a bt_ring" and p ps
  assume i: "ring_inv q"
  show "bt_ring_is_full q \<longleftrightarrow> length (ring_items q) = BT_RING_BUFFER_SIZE - 1" using ring_full_iff [OF i] l by simp
  show "bt_ring_is_empty q \<longleftrightarrow> ring_items q = []" using ring_empty_iff [OF i] l [of q] by (metis length_0_conv)
  show "length (ring_items q) \<le> BT_RING_BUFFER_SIZE - 1" using ring_count_less [of q] l [of q] by simp
  show "length (ring_items q) < BT_RING_BUFFER_SIZE - 1 \<Longrightarrow>
      ring_inv (bt_ring_produce p q) \<and> ring_items (bt_ring_produce p q) = ring_items q @ [p]"
    using ring_put [OF i] l by simp
  show "ring_items q = p # ps \<Longrightarrow> bt_ring_current q = Some p" by (rule ring_current [OF i])
  show "ring_items q = p # ps \<Longrightarrow> ring_inv (bt_ring_consume q) \<and> ring_items (bt_ring_consume q) = ps"
    by (rule ring_consume [OF i])
qed

text \<open>C22: the ring is a bounded first-in first-out queue. For any interleaving of transmissions
  and reads on a new ring, the packets read are the first of the packets accepted, in order,
  none lost, duplicated or made up; the rest are still in the ring, which never holds more than
  4095; and a transmission is refused exactly when 4095 are queued.\<close>

theorem ring_fifo:
  assumes "bt_ring_create True True = Some r"
    and "queue_run bt_ring_is_full bt_ring_is_empty bt_ring_produce bt_ring_current bt_ring_consume es r = (acc, out, r')"
  shows "(\<exists>ps. out = map Some ps \<and> acc = ps @ ring_items r') \<and> length (ring_items r') \<le> 4095 \<and>
    (bt_ring_is_full r' \<longleftrightarrow> length (ring_items r') = 4095)"
proof -
  note n = ring_create_inv [OF assms(1)]
  have "ring_inv r'" "\<exists>ps. out = map Some ps \<and> acc = ps @ ring_items r'"
    using tx_queue.run_fifo [OF n(1) assms(2)] n(2) by auto
  then show ?thesis using tx_queue.bounded tx_queue.full_iff by (fastforce simp: BT_RING_BUFFER_SIZE_def)
qed

theorem ring_fifo_witness:
  "\<exists>r acc out r'. bt_ring_create True True = Some r \<and>
     queue_run bt_ring_is_full bt_ring_is_empty bt_ring_produce bt_ring_current bt_ring_consume
       [Put (1 :: nat), Put 2, Take] r = (acc, out, r') \<and> (\<exists>ps. out = map Some ps \<and> acc = ps @ ring_items r')"
proof -
  obtain r where r: "bt_ring_create True True = Some (r :: nat bt_ring)"
    by (simp add: bt_ring_create_def bt_ring_create_sized_def)
  obtain acc out r' where q: "queue_run bt_ring_is_full bt_ring_is_empty bt_ring_produce bt_ring_current bt_ring_consume
       [Put (1 :: nat), Put 2, Take] r = (acc, out, r')" using prod_cases3 by blast
  show ?thesis using ring_fifo [OF r q] r q by blast
qed

lemma wrapped_diff:
  fixes h t n :: int
  assumes "0 \<le> h" "h < n" "0 \<le> t" "t < n"
  shows "(h + n - t) mod n = (if t \<le> h then h - t else h - t + n)"
proof (cases "t \<le> h")
  case True
  have "(h + n - t) mod n = (h - t + n) mod n" by (simp add: algebra_simps)
  also have "\<dots> = h - t" using assms True by simp
  finally show ?thesis using True by simp
qed (use assms in simp)

text \<open>C40: the packet count shown to the user, computed from a wrapped 32-bit difference, is the
  number of packets in the ring.\<close>

theorem ring_packets_count:
  assumes "ring_inv r"
  shows "bt_virnet_get_ring_packets r = int (length (ring_items r))"
proof -
  note d = ring_invD [OF assms]
  let ?h = "uint (ring_head r)" and ?t = "uint (ring_tail r)"
  have un: "?h = int (unat (ring_head r))" "?t = int (unat (ring_tail r))" by (rule uint_nat)+
  have hn: "unat (ring_head r) < 4096" "unat (ring_tail r) < 4096"
    using d(3,4) by (simp_all add: BT_RING_BUFFER_SIZE_def)
  have b: "0 \<le> ?h" "?h < 4096" "0 \<le> ?t" "?t < 4096" unfolding un using hn by linarith+
  have "ring_head r - ring_tail r = (of_int (?h - ?t) :: u32)" by simp
  then have "sint (ring_head r - ring_tail r) = signed_take_bit 31 (?h - ?t)"
    by (simp only: signed_of_int) simp
  also have "\<dots> = ?h - ?t"
  proof (rule signed_take_bit_int_eq_self)
    have "- 2147483648 \<le> ?h - ?t" "?h - ?t < 2147483648" using b by linarith+
    then show "- (2 ^ 31) \<le> ?h - ?t" "?h - ?t < 2 ^ 31" by simp_all
  qed
  finally have s: "sint (ring_head r - ring_tail r) = ?h - ?t" .
  have "int (length (ring_items r)) = (?h + 4096 - ?t) mod 4096"
    using hn unfolding un by (simp add: ring_items_def ring_count_def BT_RING_BUFFER_SIZE_def zmod_int of_nat_diff)
  then show ?thesis
    using s wrapped_diff [OF b] by (simp add: bt_virnet_get_ring_packets_def BT_RING_BUFFER_SIZE_def Let_def)
qed

theorem ring_packets_count_witness:
  "bt_virnet_get_ring_packets \<lparr>ring_head = 1, ring_tail = 4095, ring_size = 4096, ring_data = replicate 4096 (Some (0 :: nat))\<rparr>
    = int (length (ring_items \<lparr>ring_head = 1, ring_tail = 4095, ring_size = 4096, ring_data = replicate 4096 (Some (0 :: nat))\<rparr>))"
  by (rule ring_packets_count) (simp add: ring_inv_def ring_count_def ring_slot_def BT_RING_BUFFER_SIZE_def)

end
