(* ===== verification/BtDev.thy ===== *)
theory BtDev
  imports BtRing
begin

text \<open>
  The virtual network devices of the bt driver: src/src/linux/drivers/net/bt/btdev.c and btdev.h.
  A file of a device keeps the address (vn_ptr) of the struct bt_virnet it was opened on; an
  operation on a structure that was freed has no result (None). User memory copies, allocations
  and calls of the network core succeed or fail as an argument says.
\<close>

section \<open>State\<close>

definition BT_VIRNET_MAX_NUM :: nat where "BT_VIRNET_MAX_NUM = 16"
definition MACADDR_LEN :: nat where "MACADDR_LEN = 12"

abbreviation (input) ENFILE :: int where "ENFILE \<equiv> 23"
abbreviation (input) ENOIOCTLCMD :: int where "ENOIOCTLCMD \<equiv> 515"
abbreviation (input) ERESTARTSYS :: int where "ERESTARTSYS \<equiv> 512"

datatype bt_virnet_state = BT_VIRNET_STATE_CREATED | BT_VIRNET_STATE_CONNECTED
  | BT_VIRNET_STATE_DISCONNECTED | BT_VIRNET_STATE_DISABLED | BT_VIRNET_STATE_DELETED

fun bt_virnet_state_rep :: "bt_virnet_state \<Rightarrow> string" where
  "bt_virnet_state_rep BT_VIRNET_STATE_CREATED = ''CREATED''"
| "bt_virnet_state_rep BT_VIRNET_STATE_CONNECTED = ''CONNECTED''"
| "bt_virnet_state_rep BT_VIRNET_STATE_DISCONNECTED = ''DISCONNECTED''"
| "bt_virnet_state_rep BT_VIRNET_STATE_DISABLED = ''DISABLED''"
| "bt_virnet_state_rep BT_VIRNET_STATE_DELETED = ''ENABLED''"

record bt_io_file =
  read_open_limit :: int
  write_open_limit :: int

text \<open>A device: vn_id is the minor number of its character device and the number in its name.\<close>

record bt_virnet =
  vn_ptr :: nat
  vn_id :: nat
  tx_ring :: "bytes bt_ring"
  ndev_up :: bool                  \<comment> \<open>IFF_UP\<close>
  ndev_mtu :: int
  queue_stopped :: bool
  vn_state :: bt_virnet_state
  rx_packets :: nat
  rx_bytes :: nat
  rx_dropped :: nat                \<comment> \<open>rx_errors counts the same events\<close>
  tx_packets :: nat
  tx_bytes :: nat

record bt_drv =
  devices :: "bt_virnet list"      \<comment> \<open>devices_table->head\<close>
  tbl_num :: u32                   \<comment> \<open>devices_table->num\<close>
  bitmap :: u32
  io_files :: "bt_io_file option list"
  mng_open_limit :: int

section \<open>Identifiers\<close>

fun unused_id_loop :: "u32 \<Rightarrow> nat list \<Rightarrow> int" where
  "unused_id_loop bm [] = -1"
| "unused_id_loop bm (i # is) = (if \<not> bit bm i then int i else unused_id_loop bm is)"

definition bt_get_unused_id :: "u32 \<Rightarrow> int" where
  "bt_get_unused_id bm = unused_id_loop bm [0 ..< BT_VIRNET_MAX_NUM + 1]"

definition bt_set_bit :: "nat \<Rightarrow> u32 \<Rightarrow> u32" where
  "bt_set_bit i bm = or bm (push_bit i 1)"

definition bt_clear_bit :: "nat \<Rightarrow> u32 \<Rightarrow> u32" where
  "bt_clear_bit i bm = and bm (not (push_bit i 1))"

text \<open>The text printf prints for a number with %d, and the names made of it.\<close>

fun dec_digits :: "nat \<Rightarrow> string" where
  "dec_digits n = (if n < 10 then [''0123456789'' ! n] else dec_digits (n div 10) @ [''0123456789'' ! (n mod 10)])"

declare dec_digits.simps [simp del]

definition ndev_name :: "nat \<Rightarrow> string" where "ndev_name i = ''btn'' @ dec_digits i"
definition cdev_name :: "nat \<Rightarrow> string" where "cdev_name i = ''/dev/btdev'' @ dec_digits i"

section \<open>The device table\<close>

definition bt_table_find :: "string \<Rightarrow> bt_drv \<Rightarrow> bt_virnet option" where
  "bt_table_find name drv = find (\<lambda>v. ndev_name (vn_id v) = name) (devices drv)"

definition bt_table_add_device :: "bt_virnet \<Rightarrow> bt_drv \<Rightarrow> int \<times> bt_drv" where
  "bt_table_add_device vn drv =
    (if bt_table_find (ndev_name (vn_id vn)) drv \<noteq> None then (- ENOIOCTLCMD, drv)
     else (0, drv\<lparr>devices := devices drv @ [vn], tbl_num := tbl_num drv + 1\<rparr>))"

definition bt_table_remove_device :: "bt_virnet \<Rightarrow> bt_drv \<Rightarrow> bt_drv" where
  "bt_table_remove_device vn drv =
    drv\<lparr>devices := filter (\<lambda>v. vn_ptr v \<noteq> vn_ptr vn) (devices drv), tbl_num := tbl_num drv - 1\<rparr>"

text \<open>__bt_table_delete_all: every device is unlinked, its bit cleared and its memory freed.\<close>

fun delete_all_loop :: "bt_virnet list \<Rightarrow> bt_drv \<Rightarrow> bt_drv" where
  "delete_all_loop [] drv = drv"
| "delete_all_loop (v # vs) drv = delete_all_loop vs
    (drv\<lparr>devices := filter (\<lambda>w. vn_ptr w \<noteq> vn_ptr v) (devices drv), bitmap := bt_clear_bit (vn_id v) (bitmap drv)\<rparr>)"

definition bt_table_delete_all :: "bt_drv \<Rightarrow> bt_drv" where
  "bt_table_delete_all drv = (delete_all_loop (devices drv) drv)\<lparr>tbl_num := 0\<rparr>"

definition deref :: "nat \<Rightarrow> bt_drv \<Rightarrow> bt_virnet option" where
  "deref p drv = find (\<lambda>v. vn_ptr v = p) (devices drv)"

definition upd_vnet :: "nat \<Rightarrow> (bt_virnet \<Rightarrow> bt_virnet) \<Rightarrow> bt_drv \<Rightarrow> bt_drv" where
  "upd_vnet p f drv = drv\<lparr>devices := map (\<lambda>v. if vn_ptr v = p then f v else v) (devices drv)\<rparr>"

text \<open>bt_get_io_file, out of its range without a result.\<close>

definition bt_get_io_file :: "nat \<Rightarrow> bt_drv \<Rightarrow> bt_io_file option option" where
  "bt_get_io_file i drv = (if 1 \<le> i \<and> i \<le> length (io_files drv) then Some (io_files drv ! (i - 1)) else None)"

definition upd_file :: "nat \<Rightarrow> (bt_io_file \<Rightarrow> bt_io_file) \<Rightarrow> bt_drv \<Rightarrow> bt_drv" where
  "upd_file i f drv = drv\<lparr>io_files := (io_files drv)[i - 1 := map_option f (io_files drv ! (i - 1))]\<rparr>"

section \<open>Creating and deleting devices\<close>

text \<open>The allocations of bt_virnet_create: the address of the structure, the ring, the net device.\<close>

record vnet_allocs =
  va_ptr :: "nat option"
  va_ring :: bool
  va_data :: bool
  va_ndev :: bool

definition bt_virnet_create :: "vnet_allocs \<Rightarrow> nat \<Rightarrow> bt_drv \<Rightarrow> bt_virnet option" where
  "bt_virnet_create al i drv =
    (case va_ptr al of None \<Rightarrow> None
     | Some p \<Rightarrow>
       (case bt_ring_create (va_ring al) (va_data al) of None \<Rightarrow> None
        | Some ring \<Rightarrow>
          if \<not> va_ndev al then None
          else case bt_get_io_file i drv of
              Some (Some f) \<Rightarrow> Some \<lparr>vn_ptr = p, vn_id = i, tx_ring = ring, ndev_up = False, ndev_mtu = 1500,
                queue_stopped = False, vn_state = BT_VIRNET_STATE_CREATED, rx_packets = 0, rx_bytes = 0,
                rx_dropped = 0, tx_packets = 0, tx_bytes = 0\<rparr>
            | _ \<Rightarrow> None))"

text \<open>bt_cmd_create_virnet: the code and the two names copied to the user.\<close>

definition bt_cmd_create_virnet ::
  "vnet_allocs \<Rightarrow> bool \<Rightarrow> bt_drv \<Rightarrow> (int \<times> (string \<times> string) option \<times> bt_drv)" where
  "bt_cmd_create_virnet al copy_ok drv =
    (let i = bt_get_unused_id (bitmap drv) in
     if tbl_num drv = of_nat BT_VIRNET_MAX_NUM then (- EIO, None, drv)
     else case bt_virnet_create al (nat i) drv of None \<Rightarrow> (- EIO, None, drv)
       | Some vn \<Rightarrow>
         let (ret, drv) = bt_table_add_device vn drv in
         if ret < 0 then (- EIO, None, drv)
         else
           let drv = drv\<lparr>bitmap := bt_set_bit (nat i) (bitmap drv)\<rparr> in
           if copy_ok then (0, Some (ndev_name (vn_id vn), cdev_name (vn_id vn)), drv) else (- EIO, None, drv))"

definition bt_cmd_delete_virnet :: "string option \<Rightarrow> bt_drv \<Rightarrow> int \<times> bt_drv" where
  "bt_cmd_delete_virnet name drv =
    (case name of None \<Rightarrow> (- EIO, drv)
     | Some n \<Rightarrow>
       (case bt_table_find n drv of None \<Rightarrow> (- EIO, drv)
        | Some vn \<Rightarrow>
          let drv = bt_table_remove_device vn drv
          in (0, drv\<lparr>bitmap := bt_clear_bit (vn_id vn) (bitmap drv)\<rparr>)))"

definition bt_cmd_query_all_virnets :: "bool \<Rightarrow> bt_drv \<Rightarrow> int \<times> u32 option" where
  "bt_cmd_query_all_virnets put_ok drv = (if put_ok then (0, Some (bitmap drv)) else (- EIO, None))"

definition bt_cmd_delete_all_virnets :: "bt_drv \<Rightarrow> int \<times> bt_drv" where
  "bt_cmd_delete_all_virnets drv = (0, bt_table_delete_all drv)"

text \<open>atomic_dec_and_test, undone by atomic_inc when the count is not zero.\<close>

definition try_open :: "int \<Rightarrow> bool \<times> int" where
  "try_open limit = (if limit - 1 = 0 then (True, limit - 1) else (False, limit - 1 + 1))"

definition bt_mng_file_open :: "bt_drv \<Rightarrow> int \<times> bt_drv" where
  "bt_mng_file_open drv =
    (case try_open (mng_open_limit drv) of
       (True, n) \<Rightarrow> (0, drv\<lparr>mng_open_limit := n\<rparr>) | (False, n) \<Rightarrow> (- EBUSY, drv\<lparr>mng_open_limit := n\<rparr>))"

definition bt_mng_file_release :: "bt_drv \<Rightarrow> int \<times> bt_drv" where
  "bt_mng_file_release drv = (0, drv\<lparr>mng_open_limit := mng_open_limit drv + 1\<rparr>)"

datatype mng_cmd = BT_IOC_CREATE vnet_allocs bool | BT_IOC_DELETE "string option" | BT_IOC_QUERY_ALL bool
  | BT_IOC_DELETE_ALL | BT_IOC_MNG_OTHER

definition bt_mng_file_ioctl :: "mng_cmd \<Rightarrow> bt_drv \<Rightarrow> int \<times> bt_drv" where
  "bt_mng_file_ioctl cmd drv =
    (case cmd of
       BT_IOC_CREATE al ok \<Rightarrow> (let (ret, _, drv) = bt_cmd_create_virnet al ok drv in (ret, drv))
     | BT_IOC_DELETE name \<Rightarrow> bt_cmd_delete_virnet name drv
     | BT_IOC_QUERY_ALL ok \<Rightarrow> (fst (bt_cmd_query_all_virnets ok drv), drv)
     | BT_IOC_DELETE_ALL \<Rightarrow> bt_cmd_delete_all_virnets drv
     | BT_IOC_MNG_OTHER \<Rightarrow> (- ENOIOCTLCMD, drv))"

section \<open>Files of a device\<close>

datatype acc_mode = O_RDONLY | O_WRONLY | O_RDWR | O_ACC_NONE

text \<open>The limits taken by bt_io_file_open: on the second failure of O_RDWR the first stays taken.\<close>

definition open_limits :: "acc_mode \<Rightarrow> bt_io_file \<Rightarrow> bool \<times> bt_io_file" where
  "open_limits mode f =
    (case mode of
       O_RDONLY \<Rightarrow> (case try_open (read_open_limit f) of (ok, n) \<Rightarrow> (ok, f\<lparr>read_open_limit := n\<rparr>))
     | O_WRONLY \<Rightarrow> (case try_open (write_open_limit f) of (ok, n) \<Rightarrow> (ok, f\<lparr>write_open_limit := n\<rparr>))
     | O_RDWR \<Rightarrow>
         (case try_open (read_open_limit f) of
            (False, n) \<Rightarrow> (False, f\<lparr>read_open_limit := n\<rparr>)
          | (True, n) \<Rightarrow>
            (case try_open (write_open_limit f) of (ok, k) \<Rightarrow> (ok, f\<lparr>read_open_limit := n, write_open_limit := k\<rparr>)))
     | O_ACC_NONE \<Rightarrow> (True, f))"

text \<open>bt_io_file_open on the file of a minor number; up_ok is the success of dev_change_flags. Inr is
  the structure the file refers to from then on.\<close>

definition bt_io_file_open :: "nat \<Rightarrow> acc_mode \<Rightarrow> bool \<Rightarrow> bt_drv \<Rightarrow> (int + nat) \<times> bt_drv" where
  "bt_io_file_open minor mode up_ok drv =
    (case find (\<lambda>v. vn_id v = minor) (devices drv) of None \<Rightarrow> (Inl (- EIO), drv)
     | Some v \<Rightarrow>
       (case io_files drv ! (vn_id v - 1) of None \<Rightarrow> (Inl (- EIO), drv)
        | Some f \<Rightarrow>
          let (ok, f) = open_limits mode f; drv = upd_file (vn_id v) (\<lambda>_. f) drv in
          if \<not> ok then (Inl (- EBUSY), drv)
          else if \<not> ndev_up v \<and> \<not> up_ok then (Inl (- EBUSY), drv)
          else (Inr (vn_ptr v), upd_vnet (vn_ptr v)
            (\<lambda>v. v\<lparr>ndev_up := True, vn_state := BT_VIRNET_STATE_CONNECTED\<rparr>) drv)))"

definition bt_io_file_release :: "acc_mode \<Rightarrow> nat \<Rightarrow> bt_drv \<Rightarrow> (int \<times> bt_drv) option" where
  "bt_io_file_release mode p drv =
    (case deref p drv of None \<Rightarrow> None
     | Some v \<Rightarrow>
       let g = (\<lambda>f. case mode of
             O_RDONLY \<Rightarrow> f\<lparr>read_open_limit := read_open_limit f + 1\<rparr>
           | O_WRONLY \<Rightarrow> f\<lparr>write_open_limit := write_open_limit f + 1\<rparr>
           | O_RDWR \<Rightarrow> f\<lparr>read_open_limit := read_open_limit f + 1, write_open_limit := write_open_limit f + 1\<rparr>
           | O_ACC_NONE \<Rightarrow> f)
       in Some (0, upd_vnet p (\<lambda>v. v\<lparr>vn_state := BT_VIRNET_STATE_DISCONNECTED\<rparr>) (upd_file (vn_id v) g drv)))"

text \<open>bt_io_file_read: an error code, or the bytes copied to the user. On an empty ring a blocking
  reader sleeps: woken by a packet it goes on, else it returns -ERESTARTSYS; the model is called
  with a packet in the ring or with the signal.\<close>

definition bt_io_file_read :: "bool \<Rightarrow> nat \<Rightarrow> bool \<Rightarrow> nat \<Rightarrow> bt_drv \<Rightarrow> ((int + bytes) \<times> bt_drv) option" where
  "bt_io_file_read nonblock buf_size copy_ok p drv =
    (case deref p drv of None \<Rightarrow> None
     | Some v \<Rightarrow>
       if bt_ring_is_empty (tx_ring v) then Some (Inl (if nonblock then - EAGAIN else - ERESTARTSYS), drv)
       else case bt_ring_current (tx_ring v) of None \<Rightarrow> None
         | Some skb \<Rightarrow>
           let out_sz = unat (of_nat (length skb) - of_nat MACADDR_LEN :: u32) in
           if out_sz > buf_size then Some (Inl (- EINVAL), drv)
           else if MACADDR_LEN + out_sz > length skb then None
           else
             let drv = upd_vnet p (\<lambda>v. v\<lparr>tx_ring := bt_ring_consume (tx_ring v)\<rparr>) drv in
             if \<not> copy_ok then Some (Inl (- EIO), drv)
             else Some (Inr (take out_sz (drop MACADDR_LEN skb)), upd_vnet p (\<lambda>v. v\<lparr>queue_stopped := False\<rparr>) drv))"

text \<open>bt_io_file_write: the frame handed to the network core (netif_rx_ni, accepted or not).\<close>

definition bt_io_file_write ::
  "bool \<Rightarrow> bool \<Rightarrow> bool \<Rightarrow> bytes \<Rightarrow> nat \<Rightarrow> bt_drv \<Rightarrow> (int \<times> bytes option \<times> bt_drv) option" where
  "bt_io_file_write alloc_ok copy_ok rx_ok buffer p drv =
    (case deref p drv of None \<Rightarrow> None
     | Some v \<Rightarrow>
       if \<not> alloc_ok then Some (- ENOMEM, None, drv)
       else if \<not> copy_ok then Some (- EIO, None, drv)
       else
         let frame = replicate MACADDR_LEN 0 @ buffer in
         Some (int (length buffer), Some frame, upd_vnet p (\<lambda>v. if rx_ok
           then v\<lparr>rx_packets := rx_packets v + 1, rx_bytes := rx_bytes v + length frame\<rparr>
           else v\<lparr>rx_dropped := rx_dropped v + 1\<rparr>) drv))"

definition bt_cmd_enable_virnet :: "bool \<Rightarrow> nat \<Rightarrow> bt_drv \<Rightarrow> (int \<times> bt_drv) option" where
  "bt_cmd_enable_virnet flags_ok p drv =
    (case deref p drv of None \<Rightarrow> None
     | Some v \<Rightarrow>
       if vn_state v \<noteq> BT_VIRNET_STATE_DISABLED then Some (- EINVAL, drv)
       else if \<not> flags_ok then Some (- EIO, drv)
       else Some (0, upd_vnet p (\<lambda>v. v\<lparr>ndev_up := True, vn_state := BT_VIRNET_STATE_CONNECTED\<rparr>) drv))"

definition bt_cmd_disable_virnet :: "bool \<Rightarrow> nat \<Rightarrow> bt_drv \<Rightarrow> (int \<times> bt_drv) option" where
  "bt_cmd_disable_virnet flags_ok p drv =
    (case deref p drv of None \<Rightarrow> None
     | Some v \<Rightarrow>
       if vn_state v \<noteq> BT_VIRNET_STATE_CONNECTED then Some (- EINVAL, drv)
       else if \<not> flags_ok then Some (- EIO, drv)
       else Some (0, upd_vnet p (\<lambda>v. v\<lparr>ndev_up := False, vn_state := BT_VIRNET_STATE_DISABLED\<rparr>) drv))"

text \<open>bt_cmd_change_mtu with the value read from the user (None: get_user fails) and the answer of
  dev_set_mtu, which calls bt_virnet_change_mtu when it accepts the value.\<close>

definition bt_virnet_change_mtu :: "int \<Rightarrow> bt_virnet \<Rightarrow> bt_virnet" where
  "bt_virnet_change_mtu mtu v = v\<lparr>ndev_mtu := mtu\<rparr>"

definition bt_cmd_change_mtu :: "int option \<Rightarrow> bool \<Rightarrow> nat \<Rightarrow> bt_drv \<Rightarrow> (int \<times> bt_drv) option" where
  "bt_cmd_change_mtu mtu set_ok p drv =
    (case deref p drv of None \<Rightarrow> None
     | Some v \<Rightarrow>
       (case mtu of None \<Rightarrow> Some (- EIO, drv)
        | Some m \<Rightarrow> if set_ok then Some (0, upd_vnet p (bt_virnet_change_mtu m) drv) else Some (- EIO, drv)))"

definition bt_cmd_peek_packet :: "bool \<Rightarrow> nat \<Rightarrow> bt_drv \<Rightarrow> (int \<times> u32 option) option" where
  "bt_cmd_peek_packet put_ok p drv =
    (case deref p drv of None \<Rightarrow> None
     | Some v \<Rightarrow>
       if bt_ring_is_empty (tx_ring v) then Some (- EAGAIN, None)
       else case bt_ring_current (tx_ring v) of None \<Rightarrow> None
         | Some skb \<Rightarrow>
           if put_ok then Some (0, Some (of_nat (length skb) - of_nat MACADDR_LEN)) else Some (- EIO, None))"

datatype io_cmd = BT_IOC_CHANGE_MTU "int option" bool | BT_IOC_ENABLE bool | BT_IOC_DISABLE bool
  | BT_IOC_PEEK_PACKET bool | BT_IOC_IO_OTHER

definition bt_io_file_ioctl :: "io_cmd \<Rightarrow> nat \<Rightarrow> bt_drv \<Rightarrow> (int \<times> bt_drv) option" where
  "bt_io_file_ioctl cmd p drv =
    (case cmd of
       BT_IOC_CHANGE_MTU m ok \<Rightarrow> bt_cmd_change_mtu m ok p drv
     | BT_IOC_ENABLE ok \<Rightarrow> bt_cmd_enable_virnet ok p drv
     | BT_IOC_DISABLE ok \<Rightarrow> bt_cmd_disable_virnet ok p drv
     | BT_IOC_PEEK_PACKET ok \<Rightarrow> map_option (\<lambda>(ret, _). (ret, drv)) (bt_cmd_peek_packet ok p drv)
     | BT_IOC_IO_OTHER \<Rightarrow> Some (- ENOIOCTLCMD, drv))"

text \<open>The readable and writable bits of bt_io_file_poll.\<close>

definition bt_io_file_poll :: "nat \<Rightarrow> bt_drv \<Rightarrow> (bool \<times> bool) option" where
  "bt_io_file_poll p drv =
    map_option (\<lambda>v. (\<not> bt_ring_is_empty (tx_ring v), \<not> bt_ring_is_full (tx_ring v))) (deref p drv)"

section \<open>Transmission\<close>

datatype netdev_tx = NETDEV_TX_OK | NETDEV_TX_BUSY

definition bt_virnet_produce_data :: "bytes \<Rightarrow> bt_virnet \<Rightarrow> int \<times> bt_virnet" where
  "bt_virnet_produce_data skb v =
    (if bt_ring_is_full (tx_ring v) then (- ENFILE, v)
     else (0, v\<lparr>tx_ring := bt_ring_produce skb (tx_ring v)\<rparr>))"

definition bt_virnet_xmit :: "bytes \<Rightarrow> string \<Rightarrow> bt_drv \<Rightarrow> (netdev_tx \<times> bt_drv) option" where
  "bt_virnet_xmit skb name drv =
    (case bt_table_find name drv of None \<Rightarrow> None
     | Some v \<Rightarrow>
       let (ret, v') = bt_virnet_produce_data skb v in
       if ret < 0 then Some (NETDEV_TX_BUSY, upd_vnet (vn_ptr v) (\<lambda>v. v\<lparr>queue_stopped := True\<rparr>) drv)
       else Some (NETDEV_TX_OK, upd_vnet (vn_ptr v) (\<lambda>_. v'\<lparr>tx_packets := tx_packets v' + 1,
              tx_bytes := tx_bytes v' + length skb\<rparr>) drv))"

section \<open>The module\<close>

text \<open>bt_module_init with the success of its steps: the driver state, or what a failed
  initialisation leaves behind. class_create failing gives a NULL class, which the test
  IS_ERR(bt_class) lets pass.\<close>

datatype bt_resource = Res_drv | Res_region | Res_table | Res_class | Res_io_files | Res_mng_file

record init_steps =
  st_drv :: bool
  st_region :: bool
  st_table :: bool
  st_class :: bool
  st_files :: "bool list"
  st_mng :: bool
  st_proc :: bool

definition new_io_file :: bt_io_file where
  "new_io_file = \<lparr>read_open_limit = 1, write_open_limit = 1\<rparr>"

definition bt_create_io_files :: "bool list \<Rightarrow> bt_io_file option list" where
  "bt_create_io_files oks = map (\<lambda>ok. if ok then Some new_io_file else None) (take BT_VIRNET_MAX_NUM oks)"

definition bt_module_init :: "init_steps \<Rightarrow> int \<times> bt_resource list \<times> bt_drv option" where
  "bt_module_init st =
    (if \<not> st_drv st then (-1, [], None)
     else if \<not> st_region st then (-1, [], None)
     else if \<not> st_table st then (-1, [Res_region], None)
     else
       let cls = (if st_class st then [Res_class] else []) in
       if \<not> st_mng st then (-1, [Res_region, Res_io_files], None)
       else if \<not> st_proc st then (-1, [Res_region, Res_io_files], None)
       else (0, [Res_drv, Res_region, Res_table] @ cls @ [Res_io_files, Res_mng_file],
         Some \<lparr>devices = [], tbl_num = 0, bitmap = bt_set_bit (nat (bt_get_unused_id 0)) 0,
           io_files = bt_create_io_files (st_files st), mng_open_limit = 1\<rparr>))"

section \<open>The driver as a transition system\<close>

text \<open>
  The driver and the files user programs have open: each file is the address of the structure it
  was opened on and its access mode. A step is one call into the driver; a new structure is not at
  an address some open file still holds.
\<close>

record bt_sys =
  sys_drv :: bt_drv
  handles :: "(nat \<times> acc_mode) list"

inductive bt_step :: "bt_sys \<Rightarrow> bt_sys \<Rightarrow> bool" where
  mng: "(\<And>al ok p. cmd = BT_IOC_CREATE al ok \<Longrightarrow> va_ptr al = Some p \<Longrightarrow>
      deref p (sys_drv s) = None \<and> p \<notin> fst ` set (handles s)) \<Longrightarrow>
    bt_mng_file_ioctl cmd (sys_drv s) = (ret, d) \<Longrightarrow> bt_step s (s\<lparr>sys_drv := d\<rparr>)"
| open_ok: "bt_io_file_open minor mode up_ok (sys_drv s) = (Inr p, d) \<Longrightarrow>
    bt_step s \<lparr>sys_drv = d, handles = (p, mode) # handles s\<rparr>"
| open_fail: "bt_io_file_open minor mode up_ok (sys_drv s) = (Inl err, d) \<Longrightarrow> bt_step s (s\<lparr>sys_drv := d\<rparr>)"
| release: "(p, mode) \<in> set (handles s) \<Longrightarrow> bt_io_file_release mode p (sys_drv s) = Some (ret, d) \<Longrightarrow>
    bt_step s \<lparr>sys_drv = d, handles = remove1 (p, mode) (handles s)\<rparr>"
| read_file: "(p, mode) \<in> set (handles s) \<Longrightarrow> bt_io_file_read nb n ok p (sys_drv s) = Some (res, d) \<Longrightarrow>
    bt_step s (s\<lparr>sys_drv := d\<rparr>)"
| write_file: "(p, mode) \<in> set (handles s) \<Longrightarrow> bt_io_file_write a c rx buf p (sys_drv s) = Some (ret, fr, d) \<Longrightarrow>
    bt_step s (s\<lparr>sys_drv := d\<rparr>)"
| ioctl_file: "(p, mode) \<in> set (handles s) \<Longrightarrow> bt_io_file_ioctl io p (sys_drv s) = Some (ret, d) \<Longrightarrow>
    bt_step s (s\<lparr>sys_drv := d\<rparr>)"
| xmit: "bt_virnet_xmit skb name (sys_drv s) = Some (tx, d) \<Longrightarrow> bt_step s (s\<lparr>sys_drv := d\<rparr>)"

inductive bt_reach :: "bt_sys \<Rightarrow> bool" where
  init: "bt_module_init st = (0, res, Some d) \<Longrightarrow> length (st_files st) = BT_VIRNET_MAX_NUM \<Longrightarrow>
    bt_reach \<lparr>sys_drv = d, handles = []\<rparr>"
| step: "bt_reach s \<Longrightarrow> bt_step s s' \<Longrightarrow> bt_reach s'"

section \<open>The invariant of the driver\<close>

definition vnet_ok :: "bt_virnet \<Rightarrow> bool" where
  "vnet_ok v \<longleftrightarrow> 1 \<le> vn_id v \<and> vn_id v \<le> BT_VIRNET_MAX_NUM \<and> ring_inv (tx_ring v) \<and>
     (vn_state v = BT_VIRNET_STATE_CONNECTED \<longrightarrow> ndev_up v) \<and>
     (vn_state v = BT_VIRNET_STATE_DISABLED \<longrightarrow> \<not> ndev_up v) \<and> vn_state v \<noteq> BT_VIRNET_STATE_DELETED"

definition table_inv :: "bt_drv \<Rightarrow> bool" where
  "table_inv d \<longleftrightarrow> distinct (map vn_id (devices d)) \<and> distinct (map vn_ptr (devices d)) \<and>
     (\<forall>v \<in> set (devices d). vnet_ok v) \<and> tbl_num d = of_nat (length (devices d)) \<and>
     (\<forall>i. bit (bitmap d) i \<longleftrightarrow> i = 0 \<or> i \<in> vn_id ` set (devices d)) \<and>
     length (io_files d) = BT_VIRNET_MAX_NUM"

lemma bit_set_clear:
  "i < 32 \<Longrightarrow> bit (bt_set_bit i bm) j \<longleftrightarrow> j = i \<or> bit bm j"
  "bit (bt_clear_bit i bm) j \<longleftrightarrow> j \<noteq> i \<and> bit bm j"
  by (auto simp: bt_set_bit_def bt_clear_bit_def bit_simps bit_1_iff dest: bit_imp_le_length)

lemma unused_id_loop_iff:
  "unused_id_loop bm is = (case find (\<lambda>i. \<not> bit bm i) is of None \<Rightarrow> -1 | Some i \<Rightarrow> int i)"
  by (induction "is") auto

lemma table_inv_length: "table_inv d \<Longrightarrow> length (devices d) \<le> BT_VIRNET_MAX_NUM"
proof -
  assume i: "table_inv d"
  have "vn_id ` set (devices d) \<subseteq> {1..BT_VIRNET_MAX_NUM}" using i by (auto simp: table_inv_def vnet_ok_def)
  then have "card (vn_id ` set (devices d)) \<le> BT_VIRNET_MAX_NUM" using card_mono [of "{1..BT_VIRNET_MAX_NUM}"] by simp
  moreover have "card (vn_id ` set (devices d)) = length (devices d)"
    using i distinct_card [of "map vn_id (devices d)"] by (simp add: table_inv_def)
  ultimately show ?thesis by simp
qed

text \<open>While the table is not full there is a free number; it is between 1 and 16.\<close>

lemma unused_id_free:
  assumes i: "table_inv d" and l: "length (devices d) \<noteq> BT_VIRNET_MAX_NUM"
  obtains k where "bt_get_unused_id (bitmap d) = int k" "1 \<le> k" "k \<le> BT_VIRNET_MAX_NUM" "k \<notin> vn_id ` set (devices d)"
    "\<And>j. 1 \<le> j \<Longrightarrow> j < k \<Longrightarrow> j \<in> vn_id ` set (devices d)"
proof -
  let ?S = "vn_id ` set (devices d)"
  have b: "bit (bitmap d) j \<longleftrightarrow> j = 0 \<or> j \<in> ?S" for j using i by (simp add: table_inv_def)
  have "card ?S < BT_VIRNET_MAX_NUM"
    using table_inv_length [OF i] l i distinct_card [of "map vn_id (devices d)"] by (simp add: table_inv_def)
  then have "\<not> {1..BT_VIRNET_MAX_NUM} \<subseteq> ?S" using card_mono [of ?S "{1..BT_VIRNET_MAX_NUM}"] by auto
  then obtain m where m: "m \<in> {1..BT_VIRNET_MAX_NUM}" "m \<notin> ?S" by blast
  show thesis
  proof (cases "find (\<lambda>i. \<not> bit (bitmap d) i) [0 ..< BT_VIRNET_MAX_NUM + 1]")
    case None
    then have "bit (bitmap d) m" using m(1) by (auto simp: find_None_iff simp del: upt_Suc)
    then show thesis using m b by auto
  next
    case (Some k)
    then obtain n where n: "n < BT_VIRNET_MAX_NUM + 1" "k = n" "\<not> bit (bitmap d) n" "\<And>j. j < n \<Longrightarrow> bit (bitmap d) j"
      by (auto simp: find_Some_iff simp del: upt_Suc)
    show thesis
    proof (rule that [of k])
      show "bt_get_unused_id (bitmap d) = int k" by (simp only: bt_get_unused_id_def unused_id_loop_iff Some option.case)
      show "1 \<le> k" "k \<le> BT_VIRNET_MAX_NUM" "k \<notin> ?S" using n b by (auto simp: Suc_le_eq)
      show "j \<in> ?S" if "1 \<le> j" "j < k" for j using n(2,4) that b by auto
    qed
  qed
qed

lemma upd_vnet_simps [simp]:
  "devices (upd_vnet p f d) = map (\<lambda>v. if vn_ptr v = p then f v else v) (devices d)" "tbl_num (upd_vnet p f d) = tbl_num d"
  "bitmap (upd_vnet p f d) = bitmap d" "io_files (upd_vnet p f d) = io_files d"
  "devices (upd_file i g d) = devices d" "tbl_num (upd_file i g d) = tbl_num d" "bitmap (upd_file i g d) = bitmap d"
  "io_files (upd_file i g d) = (io_files d)[i - 1 := map_option g (io_files d ! (i - 1))]"
  by (simp_all add: upd_vnet_def upd_file_def)

lemma map_upd_keep: "(\<And>v. h (f v) = h v) \<Longrightarrow> map h (map (\<lambda>v. if vn_ptr v = p then f v else v) vs) = map h vs"
  by (induction vs) auto

lemma table_inv_upd_vnet:
  assumes "table_inv d" "\<And>v. vn_id (f v) = vn_id v" "\<And>v. vn_ptr (f v) = vn_ptr v"
    and "\<And>v. v \<in> set (devices d) \<Longrightarrow> vn_ptr v = p \<Longrightarrow> vnet_ok v \<Longrightarrow> vnet_ok (f v)"
  shows "table_inv (upd_vnet p f d)"
proof -
  let ?vs = "map (\<lambda>v. if vn_ptr v = p then f v else v) (devices d)"
  have m: "map vn_id ?vs = map vn_id (devices d)" "map vn_ptr ?vs = map vn_ptr (devices d)"
    by (rule map_upd_keep, rule assms)+
  have "vn_id ` set ?vs = vn_id ` set (devices d)" using arg_cong [OF m(1), of set] unfolding set_map .
  moreover have "\<forall>v \<in> set ?vs. vnet_ok v" using assms(1,4) by (auto simp: table_inv_def)
  ultimately show ?thesis
    using assms(1) unfolding table_inv_def upd_vnet_simps m by (simp del: set_map)
qed

lemma table_inv_upd_file: "table_inv (upd_file i g d) = table_inv d"
  by (simp add: table_inv_def)

lemma derefD: "deref p d = Some v \<Longrightarrow> v \<in> set (devices d) \<and> vn_ptr v = p"
  by (auto simp: deref_def find_Some_iff)

lemma deref_None: "deref p d = None \<longleftrightarrow> p \<notin> vn_ptr ` set (devices d)"
  by (auto simp: deref_def find_None_iff)

lemma nodup_ptr: "table_inv d \<Longrightarrow> v \<in> set (devices d) \<Longrightarrow> w \<in> set (devices d) \<Longrightarrow> vn_ptr v = vn_ptr w \<Longrightarrow> v = w"
  and nodup_id: "table_inv d \<Longrightarrow> v \<in> set (devices d) \<Longrightarrow> w \<in> set (devices d) \<Longrightarrow> vn_id v = vn_id w \<Longrightarrow> v = w"
  by (auto simp: table_inv_def distinct_map inj_on_def)

lemma table_inv_remove:
  assumes i: "table_inv d" and v: "v \<in> set (devices d)"
  shows "table_inv ((bt_table_remove_device v d)\<lparr>bitmap := bt_clear_bit (vn_id v) (bitmap d)\<rparr>)"
proof -
  let ?vs = "filter (\<lambda>w. vn_ptr w \<noteq> vn_ptr v) (devices d)"
  have s: "set ?vs = set (devices d) - {v}" using nodup_ptr [OF i _ v] v by auto
  have dn: "distinct (devices d)" using i by (auto simp: table_inv_def distinct_map)
  have "?vs = remove1 v (devices d)"
    using dn s nodup_ptr [OF i _ v] v by (simp add: distinct_remove1_removeAll removeAll_filter_not_eq) (auto intro: filter_cong)
  then have l: "length ?vs = length (devices d) - 1" using v by (simp add: length_remove1)
  have p: "0 < length (devices d)" using v by (cases "devices d") auto
  have n: "tbl_num d - 1 = of_nat (length ?vs)"
    using i p unfolding l by (cases "length (devices d)") (simp_all add: table_inv_def)
  have im: "vn_id ` set ?vs = vn_id ` set (devices d) - {vn_id v}" unfolding s using nodup_id [OF i _ v] by auto
  have d: "distinct (map vn_id ?vs)" "distinct (map vn_ptr ?vs)"
    using i by (auto simp: table_inv_def distinct_map inj_on_def)
  have v1: "vn_id v \<noteq> 0" using i v by (auto simp: table_inv_def vnet_ok_def)
  show ?thesis
    using i d n v1 unfolding table_inv_def bt_table_remove_device_def
    by (simp add: bit_set_clear im [simplified]) auto
qed


lemma table_inv_create:
  assumes i: "table_inv d" and p: "\<And>p. va_ptr al = Some p \<Longrightarrow> deref p d = None"
    and c: "bt_cmd_create_virnet al ok d = (ret, names, d')"
  shows "table_inv d' \<and> io_files d' = io_files d \<and>
    (d' = d \<and> ret < 0 \<or>
     (\<exists>v f. va_ptr al = Some (vn_ptr v) \<and> devices d' = devices d @ [v] \<and> vn_id v \<notin> vn_id ` set (devices d) \<and>
        (\<forall>j. 1 \<le> j \<longrightarrow> j < vn_id v \<longrightarrow> j \<in> vn_id ` set (devices d)) \<and>
        vn_state v = BT_VIRNET_STATE_CREATED \<and> ring_items (tx_ring v) = [] \<and>
        io_files d ! (vn_id v - 1) = Some f \<and> ret = (if ok then 0 else - EIO) \<and>
        names = (if ok then Some (ndev_name (vn_id v), cdev_name (vn_id v)) else None)))"
proof (cases "tbl_num d = of_nat BT_VIRNET_MAX_NUM")
  case True
  then show ?thesis using c i by (auto simp: bt_cmd_create_virnet_def Let_def)
next
  case False
  then have "length (devices d) \<noteq> BT_VIRNET_MAX_NUM" using i by (auto simp: table_inv_def)
  then obtain k where k: "bt_get_unused_id (bitmap d) = int k" "1 \<le> k" "k \<le> BT_VIRNET_MAX_NUM"
    "k \<notin> vn_id ` set (devices d)" "\<And>j. 1 \<le> j \<Longrightarrow> j < k \<Longrightarrow> j \<in> vn_id ` set (devices d)"
    using unused_id_free [OF i] by blast
  show ?thesis
  proof (cases "bt_virnet_create al k d")
    case None
    then show ?thesis using c i False k(1) by (auto simp: bt_cmd_create_virnet_def Let_def)
  next
    case (Some v)
    then obtain q r f where v: "va_ptr al = Some q" "bt_ring_create (va_ring al) (va_data al) = Some r"
      "io_files d ! (k - 1) = Some f" "vn_ptr v = q" "vn_id v = k" "tx_ring v = r"
      "vn_state v = BT_VIRNET_STATE_CREATED" "\<not> ndev_up v"
      by (auto simp: bt_virnet_create_def bt_get_io_file_def split: option.splits if_splits)
    have new: "vn_ptr v \<notin> vn_ptr ` set (devices d)" using p [OF v(1)] v(4) deref_None by metis
    show ?thesis
    proof (cases "bt_table_find (ndev_name k) d")
      case s: (Some w)
      then show ?thesis
        using c i False k(1) Some v(5) by (auto simp: bt_cmd_create_virnet_def Let_def bt_table_add_device_def)
    next
      case None
      let ?d = "d\<lparr>devices := devices d @ [v], tbl_num := tbl_num d + 1, bitmap := bt_set_bit k (bitmap d)\<rparr>"
      have d': "d' = ?d" "ret = (if ok then 0 else - EIO)"
        "names = (if ok then Some (ndev_name k, cdev_name k) else None)"
        using c False k(1) Some v(5) None
        by (auto simp: bt_cmd_create_virnet_def Let_def bt_table_add_device_def split: if_splits)
      have "vnet_ok v" using k(2,3) v ring_create_inv [OF v(2)] by (simp add: vnet_ok_def)
      then have "table_inv ?d"
        using i new k(3,4) v(5) unfolding table_inv_def
        by (auto simp: bit_set_clear BT_VIRNET_MAX_NUM_def)
      then show ?thesis
        using d' v k(4,5) ring_create_inv(2) [OF v(2)] by auto
    qed
  qed
qed

lemma delete_all_loop_bits:
  "bit (bitmap (delete_all_loop vs d)) i \<longleftrightarrow> bit (bitmap d) i \<and> i \<notin> vn_id ` set vs"
  "io_files (delete_all_loop vs d) = io_files d"
  "set (devices (delete_all_loop vs d)) = {w \<in> set (devices d). vn_ptr w \<notin> vn_ptr ` set vs}"
  by (induction vs arbitrary: d) (auto simp: bit_set_clear)

lemma table_inv_delete_all:
  assumes "table_inv d"
  shows "table_inv (bt_table_delete_all d) \<and> devices (bt_table_delete_all d) = [] \<and>
    io_files (bt_table_delete_all d) = io_files d"
proof -
  let ?d = "delete_all_loop (devices d) d"
  have "set (devices ?d) = {}" by (auto simp: delete_all_loop_bits)
  then have e: "devices ?d = []" by simp
  have "0 \<notin> vn_id ` set (devices d)" using assms by (force simp: table_inv_def vnet_ok_def)
  then show ?thesis
    using assms e by (auto simp: bt_table_delete_all_def table_inv_def delete_all_loop_bits)
qed

lemma bt_table_findD: "bt_table_find n d = Some v \<Longrightarrow> v \<in> set (devices d)"
  by (auto simp: bt_table_find_def find_Some_iff)

lemma table_inv_mng:
  assumes "table_inv d" and "\<And>al ok p. cmd = BT_IOC_CREATE al ok \<Longrightarrow> va_ptr al = Some p \<Longrightarrow> deref p d = None"
    and m: "bt_mng_file_ioctl cmd d = (ret, d')"
  shows "table_inv d' \<and> io_files d' = io_files d \<and> (set (devices d') \<subseteq> set (devices d) \<or>
    (\<exists>al ok v. cmd = BT_IOC_CREATE al ok \<and> va_ptr al = Some (vn_ptr v) \<and> devices d' = devices d @ [v] \<and>
      io_files d ! (vn_id v - 1) \<noteq> None))"
proof (cases cmd)
  case (BT_IOC_CREATE al ok)
  obtain names where "bt_cmd_create_virnet al ok d = (ret, names, d')"
    using m BT_IOC_CREATE by (auto simp: bt_mng_file_ioctl_def split: prod.splits)
  from table_inv_create [OF assms(1) assms(2) [OF BT_IOC_CREATE] this] show ?thesis
    using BT_IOC_CREATE by auto
next
  case (BT_IOC_DELETE name)
  then show ?thesis
    using m assms(1) table_inv_remove [OF assms(1) bt_table_findD]
    by (auto simp: bt_mng_file_ioctl_def bt_cmd_delete_virnet_def Let_def bt_table_remove_device_def split: option.splits)
next
  case BT_IOC_DELETE_ALL
  then show ?thesis
    using m table_inv_delete_all [OF assms(1)] by (auto simp: bt_mng_file_ioctl_def bt_cmd_delete_all_virnets_def)
qed (use m assms(1) in \<open>auto simp: bt_mng_file_ioctl_def\<close>)

section \<open>Open limits\<close>

definition reads :: "acc_mode \<Rightarrow> bool" where "reads m \<longleftrightarrow> m = O_RDONLY \<or> m = O_RDWR"
definition writes :: "acc_mode \<Rightarrow> bool" where "writes m \<longleftrightarrow> m = O_WRONLY \<or> m = O_RDWR"

definition readers :: "(nat \<times> acc_mode) list \<Rightarrow> nat \<Rightarrow> nat" where
  "readers hs p = length (filter (\<lambda>(q, m). q = p \<and> reads m) hs)"

definition writers :: "(nat \<times> acc_mode) list \<Rightarrow> nat \<Rightarrow> nat" where
  "writers hs p = length (filter (\<lambda>(q, m). q = p \<and> writes m) hs)"

definition file_ok :: "bt_io_file \<Rightarrow> nat \<Rightarrow> nat \<Rightarrow> bool" where
  "file_ok f r w \<longleftrightarrow> 0 \<le> read_open_limit f \<and> read_open_limit f + int r \<le> 1 \<and>
     0 \<le> write_open_limit f \<and> write_open_limit f + int w \<le> 1"

definition limit_inv :: "bt_sys \<Rightarrow> bool" where
  "limit_inv s \<longleftrightarrow> (\<forall>f. Some f \<in> set (io_files (sys_drv s)) \<longrightarrow> file_ok f 0 0) \<and>
     (\<forall>v \<in> set (devices (sys_drv s)). \<exists>f. io_files (sys_drv s) ! (vn_id v - 1) = Some f \<and>
        file_ok f (readers (handles s) (vn_ptr v)) (writers (handles s) (vn_ptr v)))"

definition bt_inv :: "bt_sys \<Rightarrow> bool" where
  "bt_inv s \<longleftrightarrow> table_inv (sys_drv s) \<and> limit_inv s"

lemma file_ok_0: "file_ok f r w \<Longrightarrow> file_ok f 0 0"
  by (simp add: file_ok_def)

lemma readers_Cons: "readers ((q, m) # hs) p = (if q = p \<and> reads m then Suc (readers hs p) else readers hs p)"
  and writers_Cons: "writers ((q, m) # hs) p = (if q = p \<and> writes m then Suc (writers hs p) else writers hs p)"
  by (simp_all add: readers_def writers_def)

lemma length_filter_remove1:
  "x \<in> set xs \<Longrightarrow> length (filter P xs) = length (filter P (remove1 x xs)) + (if P x then 1 else 0)"
  by (induction xs) auto

lemma readers_remove1: "(q, m) \<in> set hs \<Longrightarrow> readers hs p = readers (remove1 (q, m) hs) p + (if q = p \<and> reads m then 1 else 0)"
  and writers_remove1: "(q, m) \<in> set hs \<Longrightarrow> writers hs p = writers (remove1 (q, m) hs) p + (if q = p \<and> writes m then 1 else 0)"
  using length_filter_remove1 [of "(q, m)" hs "\<lambda>(q, m). q = p \<and> reads m"]
    length_filter_remove1 [of "(q, m)" hs "\<lambda>(q, m). q = p \<and> writes m"]
  by (simp_all add: readers_def writers_def)

lemma no_handles: "p \<notin> fst ` set hs \<Longrightarrow> readers hs p = 0 \<and> writers hs p = 0"
  by (force simp: readers_def writers_def filter_empty_conv)

lemma open_limits_ok:
  assumes "open_limits m f = (ok, f')" "file_ok f r w"
  shows "file_ok f' (if ok \<and> reads m then Suc r else r) (if ok \<and> writes m then Suc w else w)"
  using assms by (cases m) (auto simp: open_limits_def try_open_def file_ok_def reads_def writes_def split: if_splits)

text \<open>One file of the table changes to f; the files of other devices do not.\<close>

lemma limit_inv_file:
  assumes t: "table_inv (sys_drv s)" and l: "limit_inv s" and v: "v \<in> set (devices (sys_drv s))"
    and fs: "io_files d = (io_files (sys_drv s))[vn_id v - 1 := Some f]"
    and vs: "\<And>w. w \<in> set (devices d) \<Longrightarrow> \<exists>u \<in> set (devices (sys_drv s)). vn_id u = vn_id w \<and> vn_ptr u = vn_ptr w"
    and f: "file_ok f (readers hs (vn_ptr v)) (writers hs (vn_ptr v))"
    and o: "\<And>q. q \<noteq> vn_ptr v \<Longrightarrow> readers hs q = readers (handles s) q \<and> writers hs q = writers (handles s) q"
  shows "limit_inv \<lparr>sys_drv = d, handles = hs\<rparr>"
  unfolding limit_inv_def bt_sys.simps
proof (intro conjI allI impI ballI)
  fix g assume "Some g \<in> set (io_files d)"
  then have "g = f \<or> Some g \<in> set (io_files (sys_drv s))" using set_update_subset_insert unfolding fs by fastforce
  then show "file_ok g 0 0" using l f file_ok_0 by (auto simp: limit_inv_def)
next
  fix w assume "w \<in> set (devices d)"
  then obtain u where u: "u \<in> set (devices (sys_drv s))" "vn_id u = vn_id w" "vn_ptr u = vn_ptr w" using vs by blast
  have len: "vn_id v - 1 < length (io_files (sys_drv s))" and p: "1 \<le> vn_id u" "1 \<le> vn_id v"
    using t u(1) v by (auto simp: table_inv_def vnet_ok_def)
  show "\<exists>g. io_files d ! (vn_id w - 1) = Some g \<and> file_ok g (readers hs (vn_ptr w)) (writers hs (vn_ptr w))"
  proof (cases "u = v")
    case True
    then show ?thesis using u f len by (auto simp: fs)
  next
    case False
    then have "vn_ptr u \<noteq> vn_ptr v" "vn_id u \<noteq> vn_id v" using nodup_ptr [OF t u(1) v] nodup_id [OF t u(1) v] by blast+
    then show ?thesis using l u p o [of "vn_ptr w"] by (auto simp: limit_inv_def fs)
  qed
qed

lemma limit_inv_same:
  assumes l: "limit_inv s" and fs: "io_files d = io_files (sys_drv s)"
    and vs: "\<And>w. w \<in> set (devices d) \<Longrightarrow> \<exists>u \<in> set (devices (sys_drv s)). vn_id u = vn_id w \<and> vn_ptr u = vn_ptr w"
  shows "limit_inv (s\<lparr>sys_drv := d\<rparr>)"
proof -
  have "\<exists>f. io_files (sys_drv s) ! (vn_id w - 1) = Some f \<and>
      file_ok f (readers (handles s) (vn_ptr w)) (writers (handles s) (vn_ptr w))" if w: "w \<in> set (devices d)" for w
  proof -
    obtain u where "u \<in> set (devices (sys_drv s))" "vn_id u = vn_id w" "vn_ptr u = vn_ptr w" using vs [OF w] by blast
    then show ?thesis using l unfolding limit_inv_def by metis
  qed
  then show ?thesis using l fs by (simp add: limit_inv_def)
qed

text \<open>The operations on one open device change nothing but that device.\<close>

definition vnet_only :: "bt_drv \<Rightarrow> bt_drv \<Rightarrow> bool" where
  "vnet_only d d' \<longleftrightarrow> (table_inv d \<longrightarrow> table_inv d' \<and> io_files d' = io_files d \<and>
     (\<forall>w \<in> set (devices d'). \<exists>u \<in> set (devices d). vn_id u = vn_id w \<and> vn_ptr u = vn_ptr w))"

lemma vnet_only_refl [simp]: "vnet_only d d"
  by (auto simp: vnet_only_def)

lemma vnet_only_trans: "vnet_only a b \<Longrightarrow> vnet_only b c \<Longrightarrow> vnet_only a c"
  unfolding vnet_only_def by metis

lemma vnet_only_upd:
  assumes "\<And>v. vn_id (f v) = vn_id v" "\<And>v. vn_ptr (f v) = vn_ptr v"
    and "\<And>v. v \<in> set (devices d) \<Longrightarrow> vn_ptr v = p \<Longrightarrow> table_inv d \<Longrightarrow> vnet_ok v \<Longrightarrow> vnet_ok (f v)"
  shows "vnet_only d (upd_vnet p f d)"
  using assms table_inv_upd_vnet [of d f p] by (auto simp: vnet_only_def)

lemma bt_inv_vnet_only: "bt_inv s \<Longrightarrow> vnet_only (sys_drv s) d \<Longrightarrow> bt_inv (s\<lparr>sys_drv := d\<rparr>)"
  by (simp add: bt_inv_def vnet_only_def limit_inv_same)

lemma vnet_ok_simps [simp]:
  "vnet_ok (v\<lparr>queue_stopped := b\<rparr>) = vnet_ok v" "vnet_ok (v\<lparr>ndev_mtu := m\<rparr>) = vnet_ok v"
  "vnet_ok (v\<lparr>rx_packets := n, rx_bytes := k\<rparr>) = vnet_ok v" "vnet_ok (v\<lparr>rx_dropped := n\<rparr>) = vnet_ok v"
  "vnet_ok (v\<lparr>tx_packets := n, tx_bytes := k\<rparr>) = vnet_ok v"
  by (simp_all add: vnet_ok_def)


lemma vnet_ok_consume: "vnet_ok v \<Longrightarrow> \<not> bt_ring_is_empty (tx_ring v) \<Longrightarrow> vnet_ok (v\<lparr>tx_ring := bt_ring_consume (tx_ring v)\<rparr>)"
  by (cases "ring_items (tx_ring v)") (auto simp: vnet_ok_def tx_queue.empty_iff dest: tx_queue.consume)

lemma read_vnet_only:
  assumes "bt_io_file_read nb n ok p d = Some (res, d')"
  shows "vnet_only d d'"
proof (cases "deref p d")
  case None
  then show ?thesis using assms by (simp add: bt_io_file_read_def)
next
  case (Some v)
  show ?thesis
  proof (cases "bt_ring_is_empty (tx_ring v)")
    case True
    then show ?thesis using assms Some by (auto simp: bt_io_file_read_def)
  next
    case False
    let ?d = "upd_vnet p (\<lambda>v. v\<lparr>tx_ring := bt_ring_consume (tx_ring v)\<rparr>) d"
    have c: "vnet_only d ?d"
    proof (rule vnet_only_upd)
      fix w assume w: "w \<in> set (devices d)" "vn_ptr w = p" "table_inv d" "vnet_ok w"
      then have "w = v" using nodup_ptr derefD [OF Some] by metis
      then show "vnet_ok (w\<lparr>tx_ring := bt_ring_consume (tx_ring w)\<rparr>)" using w(4) False vnet_ok_consume by blast
    qed simp_all
    have "vnet_only ?d (upd_vnet p (\<lambda>v. v\<lparr>queue_stopped := False\<rparr>) ?d)" by (rule vnet_only_upd) simp_all
    then show ?thesis
      using assms Some False c vnet_only_trans [OF c]
      by (auto simp: bt_io_file_read_def Let_def split: option.splits if_splits)
  qed
qed

lemma write_vnet_only:
  assumes "bt_io_file_write a c rx buf p d = Some (ret, fr, d')"
  shows "vnet_only d d'"
proof -
  have "vnet_only d (upd_vnet p (\<lambda>v. if rx then v\<lparr>rx_packets := rx_packets v + 1, rx_bytes := rx_bytes v + n\<rparr>
      else v\<lparr>rx_dropped := rx_dropped v + 1\<rparr>) d)" for n
    by (rule vnet_only_upd) simp_all
  then show ?thesis
    using assms by (auto simp: bt_io_file_write_def Let_def split: option.splits if_splits)
qed

lemma ioctl_vnet_only:
  assumes "bt_io_file_ioctl io p d = Some (ret, d')"
  shows "vnet_only d d'"
proof -
  have e: "vnet_only d (upd_vnet p (\<lambda>v. v\<lparr>ndev_up := True, vn_state := BT_VIRNET_STATE_CONNECTED\<rparr>) d)"
    by (rule vnet_only_upd) (simp_all add: vnet_ok_def)
  have b: "vnet_only d (upd_vnet p (\<lambda>v. v\<lparr>ndev_up := False, vn_state := BT_VIRNET_STATE_DISABLED\<rparr>) d)"
    by (rule vnet_only_upd) (simp_all add: vnet_ok_def)
  have m: "vnet_only d (upd_vnet p (bt_virnet_change_mtu n) d)" for n
    by (rule vnet_only_upd) (simp_all add: bt_virnet_change_mtu_def)
  show ?thesis
    using assms e b m
    by (cases io) (auto simp: bt_io_file_ioctl_def bt_cmd_change_mtu_def bt_cmd_enable_virnet_def
        bt_cmd_disable_virnet_def split: option.splits if_splits)
qed

lemma xmit_vnet_only:
  assumes "bt_virnet_xmit skb name d = Some (tx, d')"
  shows "vnet_only d d'"
proof (cases "bt_table_find name d")
  case None
  then show ?thesis using assms by (simp add: bt_virnet_xmit_def)
next
  case (Some v)
  show ?thesis
  proof (cases "bt_ring_is_full (tx_ring v)")
    case True
    have "vnet_only d (upd_vnet (vn_ptr v) (\<lambda>v. v\<lparr>queue_stopped := True\<rparr>) d)" by (rule vnet_only_upd) simp_all
    then show ?thesis using assms Some True by (simp add: bt_virnet_xmit_def bt_virnet_produce_data_def)
  next
    case False
    let ?v = "v\<lparr>tx_ring := bt_ring_produce skb (tx_ring v), tx_packets := tx_packets v + 1, tx_bytes := tx_bytes v + length skb\<rparr>"
    have d': "d' = upd_vnet (vn_ptr v) (\<lambda>_. ?v) d"
      using assms Some False by (auto simp: bt_virnet_xmit_def bt_virnet_produce_data_def)
    have "vnet_only d (upd_vnet (vn_ptr v) (\<lambda>_. ?v) d)"
      unfolding vnet_only_def
    proof
      assume t: "table_inv d"
      have same: "w = v" if "w \<in> set (devices d)" "vn_ptr w = vn_ptr v" for w
        using nodup_ptr [OF t that(1) _ that(2)] bt_table_findD [OF Some] by blast
      then have eq: "upd_vnet (vn_ptr v) (\<lambda>_. ?v) d =
          upd_vnet (vn_ptr v) (\<lambda>w. w\<lparr>tx_ring := tx_ring ?v, tx_packets := tx_packets ?v, tx_bytes := tx_bytes ?v\<rparr>) d"
        unfolding upd_vnet_def by (intro bt_drv.fold_congs refl map_cong) (auto dest: same)
      have "vnet_only d (upd_vnet (vn_ptr v) (\<lambda>w. w\<lparr>tx_ring := tx_ring ?v, tx_packets := tx_packets ?v,
          tx_bytes := tx_bytes ?v\<rparr>) d)"
      proof (rule vnet_only_upd)
        fix w assume w: "w \<in> set (devices d)" "vn_ptr w = vn_ptr v" "vnet_ok w"
        then have "vnet_ok v" "ring_inv (tx_ring v)" using same by (auto simp: vnet_ok_def)
        then show "vnet_ok (w\<lparr>tx_ring := tx_ring ?v, tx_packets := tx_packets ?v, tx_bytes := tx_bytes ?v\<rparr>)"
          using same [OF w(1,2)] tx_queue.put_accepts(1) [OF _ False] by (simp add: vnet_ok_def)
      qed simp_all
      then show "table_inv (upd_vnet (vn_ptr v) (\<lambda>_. ?v) d) \<and>
          io_files (upd_vnet (vn_ptr v) (\<lambda>_. ?v) d) = io_files d \<and>
          (\<forall>w \<in> set (devices (upd_vnet (vn_ptr v) (\<lambda>_. ?v) d)). \<exists>u \<in> set (devices d). vn_id u = vn_id w \<and> vn_ptr u = vn_ptr w)"
        using t unfolding eq vnet_only_def by blast
    qed
    then show ?thesis using d' by simp
  qed
qed


abbreviation (input) connected :: "bt_virnet \<Rightarrow> bt_virnet" where
  "connected v \<equiv> v\<lparr>ndev_up := True, vn_state := BT_VIRNET_STATE_CONNECTED\<rparr>"

lemma open_cases:
  assumes "bt_io_file_open minor mode up_ok d = (res, d')"
  obtains (no_device) "res = Inl (- EIO)" "d' = d"
  | (found) v f ok f' where "v \<in> set (devices d)" "vn_id v = minor" "io_files d ! (vn_id v - 1) = Some f"
      "open_limits mode f = (ok, f')"
      "res = (if ok \<and> (ndev_up v \<or> up_ok) then Inr (vn_ptr v) else Inl (- EBUSY))"
      "d' = (if ok \<and> (ndev_up v \<or> up_ok) then upd_vnet (vn_ptr v) connected (upd_file (vn_id v) (\<lambda>_. f') d)
             else upd_file (vn_id v) (\<lambda>_. f') d)"
proof (cases "find (\<lambda>v. vn_id v = minor) (devices d)")
  case None
  then show thesis using assms no_device by (simp add: bt_io_file_open_def)
next
  case (Some v)
  then have v: "v \<in> set (devices d)" "vn_id v = minor" by (auto simp: find_Some_iff)
  show thesis
  proof (cases "io_files d ! (vn_id v - 1)")
    case None
    then show thesis using assms Some no_device by (simp add: bt_io_file_open_def)
  next
    case f: (Some f)
    obtain ok f' where o: "open_limits mode f = (ok, f')" by fastforce
    show thesis
      by (rule found [OF v f o]) (use assms Some f o in \<open>auto simp: bt_io_file_open_def Let_def split: if_splits\<close>)
  qed
qed

lemma table_inv_connected: "table_inv d \<Longrightarrow> table_inv (upd_vnet p connected (upd_file i g d))"
  by (rule table_inv_upd_vnet) (simp_all add: table_inv_upd_file vnet_ok_def)

lemma file_ok_mono: "file_ok f (if b then Suc r else r) (if c then Suc w else w) \<Longrightarrow> file_ok f r w"
  by (auto simp: file_ok_def split: if_splits)

lemma bt_inv_mng:
  assumes i: "bt_inv s"
    and new: "\<And>al ok p. cmd = BT_IOC_CREATE al ok \<Longrightarrow> va_ptr al = Some p \<Longrightarrow>
      deref p (sys_drv s) = None \<and> p \<notin> fst ` set (handles s)"
    and m: "bt_mng_file_ioctl cmd (sys_drv s) = (ret, d)"
  shows "bt_inv (s\<lparr>sys_drv := d\<rparr>)"
proof -
  have t: "table_inv (sys_drv s)" and l: "limit_inv s" using i by (simp_all add: bt_inv_def)
  have td: "table_inv d" and fs: "io_files d = io_files (sys_drv s)"
    and vs: "set (devices d) \<subseteq> set (devices (sys_drv s)) \<or>
      (\<exists>al ok v. cmd = BT_IOC_CREATE al ok \<and> va_ptr al = Some (vn_ptr v) \<and> devices d = devices (sys_drv s) @ [v] \<and>
         io_files (sys_drv s) ! (vn_id v - 1) \<noteq> None)"
    using table_inv_mng [OF t _ m] new by blast+
  from vs have "limit_inv (s\<lparr>sys_drv := d\<rparr>)"
  proof (elim disjE exE conjE)
    assume "set (devices d) \<subseteq> set (devices (sys_drv s))"
    then show ?thesis by (intro limit_inv_same [OF l fs]) blast
  next
    fix al ok v
    assume c: "cmd = BT_IOC_CREATE al ok" "va_ptr al = Some (vn_ptr v)"
      and dv: "devices d = devices (sys_drv s) @ [v]" and "io_files (sys_drv s) ! (vn_id v - 1) \<noteq> None"
    then obtain f where f: "io_files (sys_drv s) ! (vn_id v - 1) = Some f" by blast
    have "vnet_ok v" "length (io_files (sys_drv s)) = BT_VIRNET_MAX_NUM"
      using td dv t by (auto simp: table_inv_def)
    then have "Some f \<in> set (io_files (sys_drv s))"
      using f nth_mem [of "vn_id v - 1" "io_files (sys_drv s)"] by (auto simp: vnet_ok_def)
    then have "file_ok f 0 0" using l by (simp add: limit_inv_def)
    moreover have "readers (handles s) (vn_ptr v) = 0" "writers (handles s) (vn_ptr v) = 0"
      using no_handles new [OF c] by blast+
    ultimately show ?thesis using l f fs dv by (auto simp: limit_inv_def)
  qed
  then show ?thesis using td by (simp add: bt_inv_def)
qed

lemma bt_inv_open:
  assumes i: "bt_inv s" and o: "bt_io_file_open minor mode up_ok (sys_drv s) = (res, d)"
  shows "bt_inv \<lparr>sys_drv = d, handles = (case res of Inl _ \<Rightarrow> handles s | Inr p \<Rightarrow> (p, mode) # handles s)\<rparr>"
  using o
proof (cases rule: open_cases)
  case no_device
  then show ?thesis using i by (cases s) simp
next
  case (found v f ok f')
  have t: "table_inv (sys_drv s)" and l: "limit_inv s" using i by (simp_all add: bt_inv_def)
  have "file_ok f (readers (handles s) (vn_ptr v)) (writers (handles s) (vn_ptr v))"
    using l found(1,3) by (auto simp: limit_inv_def)
  note f' = open_limits_ok [OF found(4) this]
  let ?hs = "case res of Inl _ \<Rightarrow> handles s | Inr p \<Rightarrow> (p, mode) # handles s"
  have io: "io_files d = (io_files (sys_drv s))[vn_id v - 1 := Some f']" using found(3,6) by simp
  have "limit_inv \<lparr>sys_drv = d, handles = ?hs\<rparr>"
  proof (rule limit_inv_file [OF t l found(1) io])
    show "\<exists>u \<in> set (devices (sys_drv s)). vn_id u = vn_id w \<and> vn_ptr u = vn_ptr w" if "w \<in> set (devices d)" for w
      using that unfolding found(6) by (auto split: if_splits)
    show "file_ok f' (readers ?hs (vn_ptr v)) (writers ?hs (vn_ptr v))"
      using f' file_ok_mono [OF f'] unfolding found(5) by (auto simp: readers_Cons writers_Cons split: if_splits)
    show "readers ?hs q = readers (handles s) q \<and> writers ?hs q = writers (handles s) q" if "q \<noteq> vn_ptr v" for q
      using that unfolding found(5) by (simp add: readers_Cons writers_Cons)
  qed
  moreover have "table_inv d"
    using t table_inv_connected unfolding found(6) by (simp add: table_inv_upd_file)
  ultimately show ?thesis by (simp add: bt_inv_def)
qed

lemma bt_inv_release:
  assumes i: "bt_inv s" and h: "(p, mode) \<in> set (handles s)"
    and r: "bt_io_file_release mode p (sys_drv s) = Some (ret, d)"
  shows "bt_inv \<lparr>sys_drv = d, handles = remove1 (p, mode) (handles s)\<rparr>"
proof -
  have t: "table_inv (sys_drv s)" and l: "limit_inv s" using i by (simp_all add: bt_inv_def)
  obtain v where v: "deref p (sys_drv s) = Some v" using r by (auto simp: bt_io_file_release_def split: option.splits)
  have vp: "v \<in> set (devices (sys_drv s))" "vn_ptr v = p" using derefD [OF v] by blast+
  obtain f where f: "io_files (sys_drv s) ! (vn_id v - 1) = Some f" "file_ok f (readers (handles s) p) (writers (handles s) p)"
    using l vp by (auto simp: limit_inv_def)
  define g :: "bt_io_file \<Rightarrow> bt_io_file" where "g = (\<lambda>f. case mode of
             O_RDONLY \<Rightarrow> f\<lparr>read_open_limit := read_open_limit f + 1\<rparr>
           | O_WRONLY \<Rightarrow> f\<lparr>write_open_limit := write_open_limit f + 1\<rparr>
           | O_RDWR \<Rightarrow> f\<lparr>read_open_limit := read_open_limit f + 1, write_open_limit := write_open_limit f + 1\<rparr>
           | O_ACC_NONE \<Rightarrow> f)"
  have d: "d = upd_vnet p (\<lambda>v. v\<lparr>vn_state := BT_VIRNET_STATE_DISCONNECTED\<rparr>) (upd_file (vn_id v) g (sys_drv s))"
    using r v by (simp add: bt_io_file_release_def g_def)
  let ?hs = "remove1 (p, mode) (handles s)"
  have io: "io_files d = (io_files (sys_drv s))[vn_id v - 1 := Some (g f)]" using f(1) by (simp add: d)
  have "limit_inv \<lparr>sys_drv = d, handles = ?hs\<rparr>"
  proof (rule limit_inv_file [OF t l vp(1) io])
    show "\<exists>u \<in> set (devices (sys_drv s)). vn_id u = vn_id w \<and> vn_ptr u = vn_ptr w" if "w \<in> set (devices d)" for w
      using that unfolding d by (auto split: if_splits)
    show "file_ok (g f) (readers ?hs (vn_ptr v)) (writers ?hs (vn_ptr v))"
      using f(2) readers_remove1 [OF h, of p] writers_remove1 [OF h, of p]
      by (cases mode) (simp_all add: vp(2) g_def file_ok_def reads_def writes_def)
    show "readers ?hs q = readers (handles s) q \<and> writers ?hs q = writers (handles s) q" if "q \<noteq> vn_ptr v" for q
      using that readers_remove1 [OF h, of q] writers_remove1 [OF h, of q] vp(2) by simp
  qed
  moreover have "table_inv d"
    unfolding d by (rule table_inv_upd_vnet) (use t in \<open>simp_all add: table_inv_upd_file vnet_ok_def\<close>)
  ultimately show ?thesis by (simp add: bt_inv_def)
qed

lemma bt_inv_step: "bt_step s s' \<Longrightarrow> bt_inv s \<Longrightarrow> bt_inv s'"
proof (induction rule: bt_step.induct)
  case (mng cmd s ret d)
  then show ?case using bt_inv_mng by blast
next
  case (open_ok minor mode up_ok s p d)
  then show ?case using bt_inv_open [of s minor mode up_ok "Inr p" d] by simp
next
  case (open_fail minor mode up_ok s err d)
  then show ?case using bt_inv_open [of s minor mode up_ok "Inl err" d] by (cases s) simp
next
  case (release p mode s ret d)
  then show ?case using bt_inv_release by blast
next
  case read_file
  then show ?case by (intro bt_inv_vnet_only read_vnet_only)
next
  case write_file
  then show ?case by (intro bt_inv_vnet_only write_vnet_only)
next
  case ioctl_file
  then show ?case by (intro bt_inv_vnet_only ioctl_vnet_only)
next
  case xmit
  then show ?case by (intro bt_inv_vnet_only xmit_vnet_only)
qed

lemma bt_inv_init:
  assumes "bt_module_init st = (0, res, Some d)" "length (st_files st) = BT_VIRNET_MAX_NUM"
  shows "bt_inv \<lparr>sys_drv = d, handles = []\<rparr>"
proof -
  have b: "bt_get_unused_id 0 = 0" by (simp add: bt_get_unused_id_def upt_conv_Cons del: upt_Suc)
  have d: "d = \<lparr>devices = [], tbl_num = 0, bitmap = bt_set_bit 0 0, io_files = bt_create_io_files (st_files st), mng_open_limit = 1\<rparr>"
    using assms(1) by (auto simp: bt_module_init_def Let_def b split: if_splits)
  show ?thesis
    using assms(2) unfolding d bt_inv_def table_inv_def limit_inv_def
    by (auto simp: bit_set_clear bt_create_io_files_def new_io_file_def file_ok_def split: if_splits)
qed

lemma bt_inv_reach: "bt_reach s \<Longrightarrow> bt_inv s"
  by (induction rule: bt_reach.induct) (auto intro: bt_inv_init bt_inv_step)

section \<open>Names\<close>

lemma table_invD:
  assumes "table_inv d"
  shows "length (io_files d) = BT_VIRNET_MAX_NUM" "tbl_num d = of_nat (length (devices d))"
    "v \<in> set (devices d) \<Longrightarrow> vnet_ok v"
  using assms unfolding table_inv_def by blast+

lemma dec_digits_value: "foldl (\<lambda>a c. 10 * a + (of_char c - 48)) 0 (dec_digits n) = n"
proof (induction n rule: dec_digits.induct)
  case (1 n)
  have d: "of_char (''0123456789'' ! k) = 48 + k" if "k < 10" for k :: nat
  proof -
    have "k \<in> {0, 1, 2, 3, 4, 5, 6, 7, 8, 9}" using that by auto
    then show ?thesis by (elim insertE emptyE) simp_all
  qed
  show ?case
    using 1 d [of n] d [of "n mod 10"] by (subst dec_digits.simps) simp
qed

lemma ndev_name_inj: "ndev_name i = ndev_name j \<longleftrightarrow> i = j"
  unfolding ndev_name_def by (simp add: inj_eq [OF inj_on_inverseI [where g = "foldl (\<lambda>a c. 10 * a + (of_char c - 48)) 0"]] dec_digits_value)

lemma bt_table_find_id: "table_inv d \<Longrightarrow> v \<in> set (devices d) \<Longrightarrow> bt_table_find (ndev_name (vn_id v)) d = Some v"
proof -
  assume t: "table_inv d" and v: "v \<in> set (devices d)"
  obtain w where w: "bt_table_find (ndev_name (vn_id v)) d = Some w"
    using v by (cases "bt_table_find (ndev_name (vn_id v)) d") (auto simp: bt_table_find_def find_None_iff)
  then have "vn_id w = vn_id v" by (auto simp: bt_table_find_def find_Some_iff ndev_name_inj)
  then show ?thesis using nodup_id [OF t bt_table_findD [OF w] v] w by simp
qed

lemma deref_id: "table_inv d \<Longrightarrow> v \<in> set (devices d) \<Longrightarrow> deref (vn_ptr v) d = Some v"
  using derefD nodup_ptr deref_None by (metis imageI not_None_eq)

section \<open>Correctness of the driver\<close>

lemma bt_ring_create_some: "\<exists>r. bt_ring_create True True = Some r"
  unfolding bt_ring_create_def bt_ring_create_sized_def by simp

text \<open>bt_cmd_create_virnet, with its allocations successful, gives the new device the smallest free
  number between 1 and 16 and tells the user its two names; when all sixteen devices exist it
  fails and changes nothing.\<close>

theorem create_smallest_number:
  assumes t: "table_inv d" and al: "va_ptr al = Some p" "va_ring al" "va_data al" "va_ndev al"
    and new: "deref p d = None" and files: "None \<notin> set (io_files d)"
  shows "if length (devices d) = BT_VIRNET_MAX_NUM then bt_cmd_create_virnet al True d = (- EIO, None, d)
    else \<exists>v d'. bt_cmd_create_virnet al True d = (0, Some (ndev_name (vn_id v), cdev_name (vn_id v)), d') \<and>
      devices d' = devices d @ [v] \<and> vn_ptr v = p \<and> ring_items (tx_ring v) = [] \<and>
      1 \<le> vn_id v \<and> vn_id v \<le> BT_VIRNET_MAX_NUM \<and> vn_id v \<notin> vn_id ` set (devices d) \<and>
      (\<forall>j. 1 \<le> j \<longrightarrow> j < vn_id v \<longrightarrow> j \<in> vn_id ` set (devices d)) \<and> table_inv d'"
proof (cases "length (devices d) = BT_VIRNET_MAX_NUM")
  case True
  then show ?thesis using table_invD(2) [OF t] by (simp add: bt_cmd_create_virnet_def Let_def)
next
  case False
  then have n: "tbl_num d \<noteq> of_nat BT_VIRNET_MAX_NUM"
  proof -
    have "length (devices d) < 16" using False table_inv_length [OF t] by (simp add: BT_VIRNET_MAX_NUM_def)
    then have "(of_nat (length (devices d)) :: u32) \<noteq> 16"
      by (simp add: word_unat_eq_iff unat_of_nat take_bit_nat_eq_self)
    moreover have "tbl_num d = of_nat (length (devices d))" by (rule table_invD(2) [OF t])
    ultimately show ?thesis by (simp add: BT_VIRNET_MAX_NUM_def)
  qed
  obtain k where k: "bt_get_unused_id (bitmap d) = int k" "1 \<le> k" "k \<le> BT_VIRNET_MAX_NUM" "k \<notin> vn_id ` set (devices d)"
    using unused_id_free [OF t False] by metis
  have "k - 1 < length (io_files d)" using table_invD(1) [OF t] k by simp
  then obtain f where f: "io_files d ! (k - 1) = Some f" using files nth_mem by (metis not_None_eq)
  have "bt_get_io_file k d = Some (Some f)" using k(2,3) f table_invD(1) [OF t] by (simp add: bt_get_io_file_def)
  moreover obtain r :: "bytes bt_ring" where "bt_ring_create True True = Some r" using bt_ring_create_some by blast
  ultimately obtain v where v: "bt_virnet_create al k d = Some v"
    using al by (simp add: bt_virnet_create_def)
  then have vk: "vn_id v = k" by (auto simp: bt_virnet_create_def split: option.splits if_splits)
  have "bt_table_find (ndev_name k) d = None"
    using k(4) by (auto simp: bt_table_find_def find_None_iff ndev_name_inj)
  then obtain d' where c: "bt_cmd_create_virnet al True d = (0, Some (ndev_name k, cdev_name k), d')"
    using n k(1) v vk al by (auto simp: bt_cmd_create_virnet_def bt_table_add_device_def Let_def)
  have "\<And>q. va_ptr al = Some q \<Longrightarrow> deref q d = None" using al(1) new by simp
  from table_inv_create [OF t this c] obtain w where w: "table_inv d'" "vn_ptr w = p" "devices d' = devices d @ [w]"
    "vn_id w \<notin> vn_id ` set (devices d)" "\<forall>j. 1 \<le> j \<longrightarrow> j < vn_id w \<longrightarrow> j \<in> vn_id ` set (devices d)"
    "ring_items (tx_ring w) = []" "ndev_name (vn_id w) = ndev_name k"
    using al(1) by auto
  have "vnet_ok w" using table_invD(3) [OF w(1)] w(3) by simp
  then have "1 \<le> vn_id w" "vn_id w \<le> BT_VIRNET_MAX_NUM" by (simp_all add: vnet_ok_def)
  moreover have "k = vn_id w" using w(7) by (simp add: ndev_name_inj)
  ultimately show ?thesis using False w(1-6) c by auto
qed


definition ring_of :: "nat \<Rightarrow> bt_drv \<Rightarrow> bytes list" where
  "ring_of p d = (case deref p d of None \<Rightarrow> [] | Some v \<Rightarrow> ring_items (tx_ring v))"

lemma deref_upd_vnet: "(\<And>w. vn_ptr (f w) = vn_ptr w) \<Longrightarrow> deref p (upd_vnet q f d) = map_option (\<lambda>v. if p = q then f v else v) (deref p d)"
proof -
  assume f: "\<And>w. vn_ptr (f w) = vn_ptr w"
  have "find (\<lambda>v. vn_ptr v = p) (map (\<lambda>v. if vn_ptr v = q then f v else v) vs)
    = map_option (\<lambda>v. if p = q then f v else v) (find (\<lambda>v. vn_ptr v = p) vs)" for vs
    by (induction vs) (auto simp: f)
  then show ?thesis by (simp add: deref_def upd_vnet_def)
qed

lemma xmit_append:
  assumes t: "table_inv d" and v: "v \<in> set (devices d)" and c: "length (ring_items (tx_ring v)) < BT_RING_BUFFER_SIZE - 1"
  obtains d' where "bt_virnet_xmit skb (ndev_name (vn_id v)) d = Some (NETDEV_TX_OK, d')" "table_inv d'"
    "deref (vn_ptr v) d' = Some (v\<lparr>tx_ring := bt_ring_produce skb (tx_ring v), tx_packets := tx_packets v + 1,
       tx_bytes := tx_bytes v + length skb\<rparr>)"
    "ring_items (bt_ring_produce skb (tx_ring v)) = ring_items (tx_ring v) @ [skb]"
proof -
  have r: "ring_inv (tx_ring v)" using table_invD(3) [OF t v] by (simp add: vnet_ok_def)
  have full: "\<not> bt_ring_is_full (tx_ring v)" using tx_queue.full_iff [OF r] c by simp
  let ?v = "v\<lparr>tx_ring := bt_ring_produce skb (tx_ring v), tx_packets := tx_packets v + 1, tx_bytes := tx_bytes v + length skb\<rparr>"
  let ?d = "upd_vnet (vn_ptr v) (\<lambda>_. ?v) d"
  have x: "bt_virnet_xmit skb (ndev_name (vn_id v)) d = Some (NETDEV_TX_OK, ?d)"
    using bt_table_find_id [OF t v] full by (simp add: bt_virnet_xmit_def bt_virnet_produce_data_def)
  moreover have "table_inv ?d" using xmit_vnet_only [OF x] t by (simp add: vnet_only_def)
  moreover have "deref (vn_ptr v) ?d = Some ?v"
  proof -
    have "?v \<in> set (devices ?d)" using v by (auto simp: image_iff)
    then show ?thesis using deref_id [OF \<open>table_inv ?d\<close>, of ?v] by simp
  qed
  ultimately show thesis using that tx_queue.put [OF r c] by blast
qed

lemma read_head:
  assumes "table_inv d" and v: "deref p d = Some v" and i: "ring_items (tx_ring v) = skb # skbs"
    and l: "MACADDR_LEN \<le> length skb" "length skb < 2 ^ 32" "length skb \<le> MACADDR_LEN + n"
  shows "\<exists>d'. bt_io_file_read nb n True p d = Some (Inr (drop MACADDR_LEN skb), d') \<and> ring_of p d' = skbs"
proof -
  have r: "ring_inv (tx_ring v)" using table_invD(3) [OF assms(1)] derefD [OF v] by (simp add: vnet_ok_def)
  have e: "\<not> bt_ring_is_empty (tx_ring v)" "bt_ring_current (tx_ring v) = Some skb"
    "ring_items (bt_ring_consume (tx_ring v)) = skbs"
    using tx_queue.empty_iff [OF r] tx_queue.current [OF r i] tx_queue.consume [OF r i] i by auto
  have "(of_nat (length skb) - of_nat MACADDR_LEN :: u32) = of_nat (length skb - MACADDR_LEN)"
    using l(1) by (simp add: of_nat_diff)
  then have "unat (of_nat (length skb) - of_nat MACADDR_LEN :: u32) = length skb - MACADDR_LEN"
    using l(2) by (simp add: unat_of_nat take_bit_nat_eq_self)
  then show ?thesis
    using v e l by (simp add: bt_io_file_read_def Let_def ring_of_def deref_upd_vnet)
qed

text \<open>Frames handed to the network device one after the other, and successive reads of a file with buffers of n bytes.\<close>

fun xmit_all :: "bytes list \<Rightarrow> string \<Rightarrow> bt_drv \<Rightarrow> bt_drv option" where
  "xmit_all [] name d = Some d"
| "xmit_all (skb # skbs) name d =
    (case bt_virnet_xmit skb name d of None \<Rightarrow> None
     | Some (ret, d) \<Rightarrow> if ret = NETDEV_TX_OK then xmit_all skbs name d else None)"

fun read_all :: "nat \<Rightarrow> bool \<Rightarrow> nat \<Rightarrow> nat \<Rightarrow> bt_drv \<Rightarrow> (bytes list \<times> bt_drv) option" where
  "read_all 0 nb n p d = Some ([], d)"
| "read_all (Suc k) nb n p d =
    (case bt_io_file_read nb n True p d of
       Some (Inr x, d) \<Rightarrow> map_option (\<lambda>(xs, d). (x # xs, d)) (read_all k nb n p d)
     | _ \<Rightarrow> None)"

definition fits_buffer :: "nat \<Rightarrow> bytes \<Rightarrow> bool" where
  "fits_buffer n skb \<longleftrightarrow> MACADDR_LEN \<le> length skb \<and> length skb < 2 ^ 32 \<and> length skb \<le> MACADDR_LEN + n"

lemma xmit_all_append:
  assumes "table_inv d" "v \<in> set (devices d)" "length (ring_items (tx_ring v)) + length skbs < BT_RING_BUFFER_SIZE"
  shows "\<exists>d' v'. xmit_all skbs (ndev_name (vn_id v)) d = Some d' \<and> table_inv d' \<and> deref (vn_ptr v) d' = Some v' \<and>
    ring_items (tx_ring v') = ring_items (tx_ring v) @ skbs"
  using assms
proof (induction skbs arbitrary: d v)
  case Nil
  then show ?case using deref_id [OF Nil(1,2)] by auto
next
  case (Cons skb skbs)
  have c: "length (ring_items (tx_ring v)) < BT_RING_BUFFER_SIZE - 1" using Cons.prems(3) by simp
  let ?v = "v\<lparr>tx_ring := bt_ring_produce skb (tx_ring v), tx_packets := tx_packets v + 1, tx_bytes := tx_bytes v + length skb\<rparr>"
  obtain d1 where d1: "bt_virnet_xmit skb (ndev_name (vn_id v)) d = Some (NETDEV_TX_OK, d1)" "table_inv d1"
    "deref (vn_ptr v) d1 = Some ?v" "ring_items (bt_ring_produce skb (tx_ring v)) = ring_items (tx_ring v) @ [skb]"
    by (rule xmit_append [OF Cons.prems(1,2) c, of skb]) blast
  have m: "?v \<in> set (devices d1)" using derefD [OF d1(3)] by simp
  have l: "length (ring_items (tx_ring ?v)) + length skbs < BT_RING_BUFFER_SIZE" using Cons.prems(3) d1(4) by simp
  show ?case using Cons.IH [OF d1(2) m l] d1(1,4) by simp
qed

lemma read_deref: "bt_io_file_read nb n ok p d = Some (res, d') \<Longrightarrow> \<exists>v. deref p d' = Some v"
  by (auto simp: bt_io_file_read_def Let_def deref_upd_vnet split: option.splits if_splits)

lemma read_all_ring:
  assumes "table_inv d" "deref p d = Some v" "\<forall>skb \<in> set (ring_items (tx_ring v)). fits_buffer n skb"
  shows "\<exists>d'. read_all (length (ring_items (tx_ring v))) nb n p d = Some (map (drop MACADDR_LEN) (ring_items (tx_ring v)), d') \<and>
    ring_of p d' = []"
  using assms
proof (induction "ring_items (tx_ring v)" arbitrary: d v)
  case Nil
  then show ?case by (simp add: ring_of_def flip: Nil(1))
next
  case (Cons skb skbs)
  note q = Cons.hyps(2) [symmetric]
  obtain d1 where d1: "bt_io_file_read nb n True p d = Some (Inr (drop MACADDR_LEN skb), d1)" "ring_of p d1 = skbs"
    using read_head [OF Cons.prems(1,2) q, of n nb] Cons.prems(3) by (auto simp: q fits_buffer_def)
  have o: "vnet_only d d1" using read_vnet_only [OF d1(1)] .
  then have t: "table_inv d1" using Cons.prems(1) by (simp add: vnet_only_def)
  obtain v1 where v1: "deref p d1 = Some v1" using read_deref [OF d1(1)] by auto
  have i: "skbs = ring_items (tx_ring v1)" using d1(2) v1 by (simp add: ring_of_def)
  have f: "\<forall>skb \<in> set (ring_items (tx_ring v1)). fits_buffer n skb" using Cons.prems(3) by (simp add: q i)
  show ?case using Cons.hyps(1) [OF i t v1 f] d1(1) by (auto simp: q i)
qed

text \<open>C24: Frames handed to the network device, as long as the ring has room for them, come out of its character device in order,
  behind those that were already in the ring, one per read and without the twelve address bytes; then the ring is empty. Each of
  these frames is at least twelve bytes long and fits the reader's buffer.\<close>

theorem xmit_read_roundtrip:
  assumes "table_inv d" "v \<in> set (devices d)" "length (ring_items (tx_ring v)) + length skbs < BT_RING_BUFFER_SIZE"
    and "\<forall>skb \<in> set (ring_items (tx_ring v) @ skbs). fits_buffer n skb"
  shows "\<exists>d1 d2. xmit_all skbs (ndev_name (vn_id v)) d = Some d1 \<and>
    read_all (length (ring_items (tx_ring v) @ skbs)) nb n (vn_ptr v) d1 =
      Some (map (drop MACADDR_LEN) (ring_items (tx_ring v) @ skbs), d2) \<and> ring_of (vn_ptr v) d2 = []"
proof -
  obtain d1 v1 where d1: "xmit_all skbs (ndev_name (vn_id v)) d = Some d1" "table_inv d1" "deref (vn_ptr v) d1 = Some v1"
    "ring_items (tx_ring v1) = ring_items (tx_ring v) @ skbs"
    using xmit_all_append [OF assms(1-3)] by blast
  show ?thesis using read_all_ring [OF d1(2,3), of n nb] assms(4) d1(1,4) by auto
qed

section \<open>Reachable states\<close>

text \<open>C23: In every reachable state of the driver the table is consistent (distinct numbers between 1
  and 16 that are exactly the bits of the bitmap, distinct structures, a count that is right, rings
  that satisfy their invariant, a device that is up while it is connected) and no device has two
  open files for reading or two for writing.\<close>

theorem bt_reach_inv:
  assumes "bt_reach s"
  shows "table_inv (sys_drv s) \<and> (\<forall>v \<in> set (devices (sys_drv s)).
    readers (handles s) (vn_ptr v) \<le> 1 \<and> writers (handles s) (vn_ptr v) \<le> 1)"
  using bt_inv_reach [OF assms] by (fastforce simp: bt_inv_def limit_inv_def file_ok_def)


text \<open>A read limit that was taken without a reader: nothing will ever give it back.\<close>

definition read_lost :: "nat \<Rightarrow> bt_sys \<Rightarrow> bool" where
  "read_lost i s \<longleftrightarrow> (\<exists>f. io_files (sys_drv s) ! (i - 1) = Some f \<and> read_open_limit f = 0) \<and>
     (\<forall>v \<in> set (devices (sys_drv s)). vn_id v = i \<longrightarrow> readers (handles s) (vn_ptr v) = 0)"

lemma read_lost_open_fails:
  assumes "read_lost i s" "reads mode" "bt_io_file_open i mode up_ok (sys_drv s) = (res, d)"
  shows "\<exists>err. res = Inl err \<and> err < 0"
  using assms(3)
proof (cases rule: open_cases)
  case (found v f ok f')
  then have "read_open_limit f = 0" using assms(1) by (auto simp: read_lost_def)
  then have "\<not> ok" using found(4) assms(2) by (auto simp: open_limits_def try_open_def reads_def split: acc_mode.splits)
  then show ?thesis using found(5) by simp
qed simp

lemma open_limits_read_0: "open_limits mode f = (ok, f') \<Longrightarrow> read_open_limit f = 0 \<Longrightarrow>
  read_open_limit f' = 0 \<and> (ok \<longrightarrow> \<not> reads mode)"
  by (cases mode) (auto simp: open_limits_def try_open_def reads_def split: if_splits)

lemma read_lost_vnet_only:
  assumes "bt_inv s" "read_lost i s" "vnet_only (sys_drv s) d"
  shows "read_lost i (s\<lparr>sys_drv := d\<rparr>)"
proof -
  have v: "io_files d = io_files (sys_drv s)"
    "\<And>w. w \<in> set (devices d) \<Longrightarrow> \<exists>u \<in> set (devices (sys_drv s)). vn_id u = vn_id w \<and> vn_ptr u = vn_ptr w"
    using assms(1,3) by (simp_all add: vnet_only_def bt_inv_def)
  show ?thesis using assms(2) v by (fastforce simp: read_lost_def)
qed

lemma read_lost_open:
  assumes i: "1 \<le> i" "i \<le> BT_VIRNET_MAX_NUM" and b: "bt_inv s" and l: "read_lost i s"
    and o: "bt_io_file_open minor mode up_ok (sys_drv s) = (res, d)"
  shows "read_lost i \<lparr>sys_drv = d, handles = (case res of Inl _ \<Rightarrow> handles s | Inr p \<Rightarrow> (p, mode) # handles s)\<rparr>"
  using o
proof (cases rule: open_cases)
  case no_device
  then show ?thesis using l by (simp add: read_lost_def)
next
  case (found v f ok f')
  have t: "table_inv (sys_drv s)" using b by (simp add: bt_inv_def)
  obtain g where g: "io_files (sys_drv s) ! (i - 1) = Some g" "read_open_limit g = 0" using l by (auto simp: read_lost_def)
  have v: "1 \<le> vn_id v" using table_invD(3) [OF t found(1)] by (simp add: vnet_ok_def)
  have len: "i - 1 < length (io_files (sys_drv s))" using i table_invD(1) [OF t] by simp
  have io: "io_files d = (io_files (sys_drv s))[vn_id v - 1 := Some f']" using found(3,6) by simp
  have 1: "\<exists>h. io_files d ! (i - 1) = Some h \<and> read_open_limit h = 0"
  proof (cases "vn_id v = i")
    case True
    then have "f = g" using found(3) g by simp
    then show ?thesis using open_limits_read_0 [OF found(4)] g len io True by simp
  next
    case False
    then have "vn_id v - 1 \<noteq> i - 1" using v i by linarith
    then show ?thesis using g io by simp
  qed
  have same: "vn_id w = i \<Longrightarrow> w \<in> set (devices d) \<Longrightarrow> readers (handles s) (vn_ptr w) = 0" for w
    using l unfolding found(6) by (auto simp: read_lost_def split: if_splits)
  have 2: "readers (case res of Inl _ \<Rightarrow> handles s | Inr p \<Rightarrow> (p, mode) # handles s) (vn_ptr w) = 0"
    if w: "w \<in> set (devices d)" "vn_id w = i" for w
  proof (cases "vn_ptr w = vn_ptr v \<and> ok \<and> (ndev_up v \<or> up_ok)")
    case True
    obtain u where u: "u \<in> set (devices (sys_drv s))" "vn_ptr u = vn_ptr w" "vn_id u = vn_id w"
      using w(1) unfolding found(6) by (auto split: if_splits)
    then have "u = v" using nodup_ptr [OF t u(1) found(1)] True by simp
    then have "f = g" using found(3) g u w by simp
    then have "\<not> reads mode" using open_limits_read_0 [OF found(4)] g True by simp
    then show ?thesis using same [OF w(2,1)] found(5) by (simp add: readers_Cons)
  next
    case False
    then show ?thesis using same [OF w(2,1)] found(5) by (auto simp: readers_Cons)
  qed
  show ?thesis using 1 2 by (simp add: read_lost_def)
qed


lemma read_lost_mng:
  assumes b: "bt_inv s" and l: "read_lost i s"
    and new: "\<And>al ok p. cmd = BT_IOC_CREATE al ok \<Longrightarrow> va_ptr al = Some p \<Longrightarrow>
      deref p (sys_drv s) = None \<and> p \<notin> fst ` set (handles s)"
    and m: "bt_mng_file_ioctl cmd (sys_drv s) = (ret, d)"
  shows "read_lost i (s\<lparr>sys_drv := d\<rparr>)"
proof -
  have t: "table_inv (sys_drv s)" using b by (simp add: bt_inv_def)
  have fs: "io_files d = io_files (sys_drv s)"
    and vs: "set (devices d) \<subseteq> set (devices (sys_drv s)) \<or>
      (\<exists>al ok v. cmd = BT_IOC_CREATE al ok \<and> va_ptr al = Some (vn_ptr v) \<and> devices d = devices (sys_drv s) @ [v])"
    using table_inv_mng [OF t _ m] new by blast+
  have "readers (handles s) (vn_ptr v) = 0" if v: "v \<in> set (devices d)" "vn_id v = i" for v
  proof (cases "v \<in> set (devices (sys_drv s))")
    case True
    then show ?thesis using l v(2) by (simp add: read_lost_def)
  next
    case False
    then show ?thesis using vs v(1) new no_handles by fastforce
  qed
  then show ?thesis using l fs by (simp add: read_lost_def)
qed

lemma read_lost_release:
  assumes i: "1 \<le> i" and b: "bt_inv s" and l: "read_lost i s" and h: "(p, mode) \<in> set (handles s)"
    and r: "bt_io_file_release mode p (sys_drv s) = Some (ret, d)"
  shows "read_lost i \<lparr>sys_drv = d, handles = remove1 (p, mode) (handles s)\<rparr>"
proof -
  have t: "table_inv (sys_drv s)" using b by (simp add: bt_inv_def)
  obtain v where v: "deref p (sys_drv s) = Some v" using r by (auto simp: bt_io_file_release_def split: option.splits)
  have vp: "v \<in> set (devices (sys_drv s))" "vn_ptr v = p" "1 \<le> vn_id v"
    using derefD [OF v] table_invD(3) [OF t] by (auto simp: vnet_ok_def)
  obtain g where g: "io_files (sys_drv s) ! (i - 1) = Some g" "read_open_limit g = 0" using l by (auto simp: read_lost_def)
  have "\<exists>h. io_files d ! (i - 1) = Some h \<and> read_open_limit h = 0"
  proof (cases "vn_id v = i")
    case True
    then have "readers (handles s) p = 0" using l vp by (auto simp: read_lost_def)
    then have "\<not> reads mode" using readers_remove1 [OF h, of p] by (auto split: if_splits)
    then show ?thesis
      using r v g True table_invD(3) [OF t vp(1)] table_invD(1) [OF t]
      by (auto simp: bt_io_file_release_def reads_def vnet_ok_def split: acc_mode.splits)
  next
    case False
    then have "vn_id v - 1 \<noteq> i - 1" using vp(3) i by linarith
    then show ?thesis using r v g by (auto simp: bt_io_file_release_def)
  qed
  moreover have "readers (remove1 (p, mode) (handles s)) (vn_ptr w) = 0" if w: "w \<in> set (devices d)" "vn_id w = i" for w
  proof -
    obtain u where "u \<in> set (devices (sys_drv s))" "vn_ptr u = vn_ptr w" "vn_id u = vn_id w"
      using w(1) r v by (auto simp: bt_io_file_release_def Let_def split: if_splits)
    then have "readers (handles s) (vn_ptr w) = 0" using l w(2) by (auto simp: read_lost_def)
    then show ?thesis using readers_remove1 [OF h, of "vn_ptr w"] by simp
  qed
  ultimately show ?thesis by (simp add: read_lost_def)
qed

lemma read_lost_step:
  assumes "1 \<le> i" "i \<le> BT_VIRNET_MAX_NUM"
  shows "bt_step s s' \<Longrightarrow> bt_inv s \<Longrightarrow> read_lost i s \<Longrightarrow> read_lost i s'"
proof (induction rule: bt_step.induct)
  case (mng cmd s ret d)
  then show ?case using read_lost_mng by blast
next
  case (open_ok minor mode up_ok s p d)
  then show ?case using read_lost_open [OF assms, of s minor mode up_ok "Inr p" d] by simp
next
  case (open_fail minor mode up_ok s err d)
  then show ?case using read_lost_open [OF assms, of s minor mode up_ok "Inl err" d] by (cases s) simp
next
  case (release p mode s ret d)
  then show ?case using read_lost_release assms(1) by blast
next
  case read_file
  then show ?case by (intro read_lost_vnet_only read_vnet_only)
next
  case write_file
  then show ?case by (intro read_lost_vnet_only write_vnet_only)
next
  case ioctl_file
  then show ?case by (intro read_lost_vnet_only ioctl_vnet_only)
next
  case xmit
  then show ?case by (intro read_lost_vnet_only xmit_vnet_only)
qed

lemma read_lost_steps:
  assumes "bt_step\<^sup>*\<^sup>* s s'" "1 \<le> i" "i \<le> BT_VIRNET_MAX_NUM" "bt_inv s" "read_lost i s"
  shows "read_lost i s'"
proof -
  have "bt_inv s' \<and> read_lost i s'"
    using assms(1) by (induction rule: rtranclp_induct) (use assms read_lost_step bt_inv_step in blast)+
  then show ?thesis ..
qed

lemma find_id: "v \<in> set vs \<Longrightarrow> (\<And>w. w \<in> set vs \<Longrightarrow> h w = h v \<Longrightarrow> w = v) \<Longrightarrow> find (\<lambda>w. h w = h v) vs = Some v"
  by (induction vs) auto

text \<open>A read-write open that is refused because a writer has the file keeps the read limit it
  took: from then on no open for reading of this minor number succeeds, whatever is done to the
  driver, deleting and creating the device again included.\<close>

theorem rdwr_open_leaks_read_limit:
  assumes "bt_reach s" and v: "v \<in> set (devices (sys_drv s))"
    and f: "io_files (sys_drv s) ! (vn_id v - 1) = Some f" "read_open_limit f = 1" "write_open_limit f = 0"
    and o: "bt_io_file_open (vn_id v) O_RDWR up_ok (sys_drv s) = (res, d)"
    and later: "bt_step\<^sup>*\<^sup>* (s\<lparr>sys_drv := d\<rparr>) s'" and mode: "mode = O_RDONLY \<or> mode = O_RDWR"
  shows "res = Inl (- EBUSY) \<and> (\<exists>err d'. bt_io_file_open (vn_id v) mode up' (sys_drv s') = (Inl err, d') \<and> err < 0)"
proof -
  have i: "bt_inv s" using bt_inv_reach assms(1) .
  have t: "table_inv (sys_drv s)" and l: "limit_inv s" using i by (simp_all add: bt_inv_def)
  have vn: "1 \<le> vn_id v" "vn_id v \<le> BT_VIRNET_MAX_NUM" using table_invD(3) [OF t v] by (simp_all add: vnet_ok_def)
  have "readers (handles s) (vn_ptr v) = 0" using l v f by (auto simp: limit_inv_def file_ok_def)
  from o have r: "res = Inl (- EBUSY) \<and> read_lost (vn_id v) (s\<lparr>sys_drv := d\<rparr>) \<and> bt_inv (s\<lparr>sys_drv := d\<rparr>)"
  proof (cases rule: open_cases)
    case no_device
    then have "find (\<lambda>w. vn_id w = vn_id v) (devices (sys_drv s)) = Some v"
      using v nodup_id [OF t _ v] find_id by metis
    then show ?thesis using o f no_device by (auto simp: bt_io_file_open_def Let_def split: if_splits prod.splits)
  next
    case (found w g ok g')
    have "w = v" using nodup_id [OF t found(1) v found(2)] .
    then have "g = f" using found(3) f by simp
    then have g: "g' = f\<lparr>read_open_limit := 0, write_open_limit := 0\<rparr>" "\<not> ok"
      using found(4) f(2,3) by (auto simp: open_limits_def try_open_def)
    then have d: "d = upd_file (vn_id v) (\<lambda>_. g') (sys_drv s)" "res = Inl (- EBUSY)"
      using found(5,6) \<open>w = v\<close> by simp_all
    have "read_lost (vn_id v) (s\<lparr>sys_drv := d\<rparr>)"
      using \<open>readers (handles s) (vn_ptr v) = 0\<close> vn table_invD(1) [OF t] nodup_id [OF t _ v] f(1)
      by (auto simp: read_lost_def d g)
    moreover have "bt_inv (s\<lparr>sys_drv := d\<rparr>)"
      using bt_inv_open [OF i o] d(2) by (cases s) simp
    ultimately show ?thesis using d(2) by simp
  qed
  then have "read_lost (vn_id v) s'" using read_lost_steps [OF later vn] by blast
  moreover have "reads mode" using mode by (auto simp: reads_def)
  moreover obtain r' d' where "bt_io_file_open (vn_id v) mode up' (sys_drv s') = (r', d')" by fastforce
  ultimately show ?thesis using read_lost_open_fails r by blast
qed


section \<open>Concrete states\<close>

text \<open>The driver after its initialisation, and with one device, at address 7.\<close>

definition ex_drv0 :: bt_drv where
  "ex_drv0 = \<lparr>devices = [], tbl_num = 0, bitmap = 1, io_files = replicate BT_VIRNET_MAX_NUM (Some new_io_file), mng_open_limit = 1\<rparr>"

definition ex_allocs :: vnet_allocs where
  "ex_allocs = \<lparr>va_ptr = Some 7, va_ring = True, va_data = True, va_ndev = True\<rparr>"

definition ex_ring :: "bytes bt_ring" where "ex_ring = the (bt_ring_create True True)"

definition ex_vnet :: bt_virnet where
  "ex_vnet = \<lparr>vn_ptr = 7, vn_id = 1, tx_ring = ex_ring, ndev_up = False, ndev_mtu = 1500,
     queue_stopped = False, vn_state = BT_VIRNET_STATE_CREATED, rx_packets = 0, rx_bytes = 0,
     rx_dropped = 0, tx_packets = 0, tx_bytes = 0\<rparr>"

definition ex_drv1 :: bt_drv where
  "ex_drv1 = ex_drv0\<lparr>devices := [ex_vnet], tbl_num := 1, bitmap := 3\<rparr>"

lemma ex_ring: "bt_ring_create True True = Some ex_ring"
  using someI_ex [OF bt_ring_create_some] unfolding ex_ring_def by (metis option.sel)

lemma ex_bits: "bt_set_bit 0 0 = 1" "bt_set_bit (Suc 0) 1 = 3" "bt_get_unused_id 0 = 0" "bt_get_unused_id 1 = 1"
  by (simp_all add: bt_set_bit_def bt_get_unused_id_def BT_VIRNET_MAX_NUM_def upt_conv_Cons bit_simps bit_1_iff)

lemma ex_init: "bt_reach \<lparr>sys_drv = ex_drv0, handles = []\<rparr>"
proof (rule bt_reach.init)
  let ?st = "\<lparr>st_drv = True, st_region = True, st_table = True, st_class = True,
    st_files = replicate BT_VIRNET_MAX_NUM True, st_mng = True, st_proc = True\<rparr>"
  show "bt_module_init ?st = (0, [Res_drv, Res_region, Res_table, Res_class, Res_io_files, Res_mng_file], Some ex_drv0)"
    by (simp add: bt_module_init_def bt_create_io_files_def ex_drv0_def ex_bits)
qed simp

lemma ex_create: "bt_cmd_create_virnet ex_allocs True ex_drv0 = (0, Some (ndev_name 1, cdev_name 1), ex_drv1)"
  by (simp add: bt_cmd_create_virnet_def bt_virnet_create_def ex_drv0_def ex_drv1_def ex_vnet_def ex_bits ex_allocs_def ex_ring
      bt_get_io_file_def BT_VIRNET_MAX_NUM_def bt_table_add_device_def bt_table_find_def)

lemma ex_created: "bt_reach \<lparr>sys_drv = ex_drv1, handles = []\<rparr>"
proof (rule bt_reach.step [OF ex_init])
  have "bt_mng_file_ioctl (BT_IOC_CREATE ex_allocs True) ex_drv0 = (0, ex_drv1)"
    by (simp add: bt_mng_file_ioctl_def ex_create)
  then show "bt_step \<lparr>sys_drv = ex_drv0, handles = []\<rparr> \<lparr>sys_drv = ex_drv1, handles = []\<rparr>"
    using bt_step.mng [of "BT_IOC_CREATE ex_allocs True" "\<lparr>sys_drv = ex_drv0, handles = []\<rparr>"]
    by (simp add: deref_def ex_drv0_def)
qed


lemma ex_open:
  assumes "bt_reach \<lparr>sys_drv = d, handles = hs\<rparr>" "bt_io_file_open 1 mode True d = (Inr p, d')"
  shows "bt_reach \<lparr>sys_drv = d', handles = (p, mode) # hs\<rparr>"
  using bt_reach.step [OF assms(1)] bt_step.open_ok [of 1 mode True "\<lparr>sys_drv = d, handles = hs\<rparr>" p d'] assms(2) by simp

lemmas ex_simps = ex_drv1_def ex_drv0_def ex_vnet_def new_io_file_def bt_io_file_open_def open_limits_def try_open_def
  upd_file_def upd_vnet_def BT_VIRNET_MAX_NUM_def

lemma ex_table: "table_inv ex_drv1"
  using bt_inv_reach [OF ex_created] by (simp add: bt_inv_def)

text \<open>The device with a writer, then with a reader as well.\<close>

definition ex_drv2 :: bt_drv where
  "ex_drv2 = ex_drv1\<lparr>devices := [connected ex_vnet], io_files := (io_files ex_drv1)[0 := Some \<lparr>read_open_limit = 1, write_open_limit = 0\<rparr>]\<rparr>"

lemma ex_writer: "bt_reach \<lparr>sys_drv = ex_drv2, handles = [(7, O_WRONLY)]\<rparr>"
  by (rule ex_open [OF ex_created]) (simp add: ex_drv2_def ex_simps)

lemma create_smallest_number_witness:
  "\<exists>(v :: bt_virnet) d'. bt_cmd_create_virnet (ex_allocs\<lparr>va_ptr := Some 8\<rparr>) True ex_drv1 =
     (0, Some (ndev_name (vn_id v), cdev_name (vn_id v)), d') \<and> vn_ptr v = 8 \<and> vn_id v \<noteq> 1 \<and> table_inv d'"
proof -
  have "devices ex_drv1 = [ex_vnet]" "io_files ex_drv1 = replicate BT_VIRNET_MAX_NUM (Some new_io_file)"
    "deref 8 ex_drv1 = None" "vn_id ex_vnet = 1"
    by (simp_all add: ex_drv1_def ex_drv0_def ex_vnet_def deref_def)
  then have n: "length (devices ex_drv1) \<noteq> BT_VIRNET_MAX_NUM" "vn_id ` set (devices ex_drv1) = {1}"
    "None \<notin> set (io_files ex_drv1)" "deref 8 ex_drv1 = None"
    by (simp_all add: BT_VIRNET_MAX_NUM_def)
  have al: "va_ptr (ex_allocs\<lparr>va_ptr := Some 8\<rparr>) = Some 8" "va_ring (ex_allocs\<lparr>va_ptr := Some 8\<rparr>)"
    "va_data (ex_allocs\<lparr>va_ptr := Some 8\<rparr>)" "va_ndev (ex_allocs\<lparr>va_ptr := Some 8\<rparr>)"
    by (simp_all add: ex_allocs_def)
  show ?thesis
    using create_smallest_number [OF ex_table al n(4,3)] unfolding if_not_P [OF n(1)] n(2) singleton_iff by blast
qed

lemma xmit_read_roundtrip_witness:
  "\<exists>d1 d2. xmit_all [replicate 12 0 @ [1, 2], replicate 12 1 @ [3]] (ndev_name (vn_id ex_vnet)) ex_drv1 = Some d1 \<and>
    read_all 2 True 2 (vn_ptr ex_vnet) d1 = Some ([[1, 2], [3]], d2) \<and> ring_of (vn_ptr ex_vnet) d2 = []"
proof -
  have "ring_items (tx_ring ex_vnet) = []" using ring_create_inv(2) [OF ex_ring] by (simp add: ex_vnet_def)
  moreover have "ex_vnet \<in> set (devices ex_drv1)" by (simp add: ex_drv1_def)
  moreover have "fits_buffer 2 (replicate 12 0 @ [1, 2])" "fits_buffer 2 (replicate 12 1 @ [3])"
    by (simp_all add: fits_buffer_def MACADDR_LEN_def)
  ultimately show ?thesis
    using xmit_read_roundtrip [OF ex_table, of ex_vnet "[replicate 12 0 @ [1, 2], replicate 12 1 @ [3]]" 2 True]
    by (simp add: MACADDR_LEN_def BT_RING_BUFFER_SIZE_def numeral_2_eq_2)
qed

lemma bt_reach_inv_witness: "table_inv ex_drv2 \<and> writers [(7, O_WRONLY)] 7 \<le> 1"
  using bt_reach_inv [OF ex_writer] by (simp add: ex_drv2_def ex_vnet_def)

lemma rdwr_open_leaks_read_limit_witness:
  "\<exists>d. bt_io_file_open 1 O_RDWR True ex_drv2 = (Inl (- EBUSY), d) \<and>
     (\<exists>err d'. bt_io_file_open 1 O_RDONLY True d = (Inl err, d') \<and> err < 0)"
proof -
  obtain res d where o: "bt_io_file_open (vn_id (connected ex_vnet)) O_RDWR True ex_drv2 = (res, d)" by fastforce
  have "bt_step\<^sup>*\<^sup>* \<lparr>sys_drv = d, handles = [(7, O_WRONLY)]\<rparr> \<lparr>sys_drv = d, handles = [(7, O_WRONLY)]\<rparr>" by simp
  from rdwr_open_leaks_read_limit [OF ex_writer, of "connected ex_vnet" "\<lparr>read_open_limit = 1, write_open_limit = 0\<rparr>"
      True res d "\<lparr>sys_drv = d, handles = [(7, O_WRONLY)]\<rparr>" O_RDONLY True] o this
  show ?thesis by (simp add: ex_drv2_def ex_simps)
qed


section \<open>Two flaws that reachable states show\<close>

text \<open>Deleting the devices frees a structure that an open file still refers to: in a reachable
  state a file is open on a structure that no longer exists, and its next read, write, poll, ioctl
  or close uses freed memory (has no result in the model).\<close>

theorem open_file_outlives_device:
  "\<exists>s p mode. bt_reach s \<and> (p, mode) \<in> set (handles s) \<and> (\<forall>nb n ok. bt_io_file_read nb n ok p (sys_drv s) = None) \<and>
     (\<forall>a c rx buf. bt_io_file_write a c rx buf p (sys_drv s) = None) \<and> bt_io_file_poll p (sys_drv s) = None \<and>
     bt_io_file_release mode p (sys_drv s) = None"
proof -
  let ?d = "bt_table_delete_all ex_drv2"
  have "bt_step \<lparr>sys_drv = ex_drv2, handles = [(7, O_WRONLY)]\<rparr> \<lparr>sys_drv = ?d, handles = [(7, O_WRONLY)]\<rparr>"
    using bt_step.mng [of BT_IOC_DELETE_ALL "\<lparr>sys_drv = ex_drv2, handles = [(7, O_WRONLY)]\<rparr>" 0 ?d]
    by (simp add: bt_mng_file_ioctl_def bt_cmd_delete_all_virnets_def)
  then have "bt_reach \<lparr>sys_drv = ?d, handles = [(7, O_WRONLY)]\<rparr>" by (rule bt_reach.step [OF ex_writer])
  moreover have "deref 7 ?d = None"
    by (simp add: deref_def bt_table_delete_all_def ex_drv2_def ex_drv1_def ex_vnet_def)
  ultimately show ?thesis
    by (intro exI [of _ "\<lparr>sys_drv = ?d, handles = [(7, O_WRONLY)]\<rparr>"] exI [of _ 7] exI [of _ O_WRONLY])
      (simp add: bt_io_file_read_def bt_io_file_write_def bt_io_file_poll_def bt_io_file_release_def)
qed

text \<open>Closing one of two files of a device marks the device disconnected although the other file
  is still open on it; a disable request of that file is then refused with -EINVAL.\<close>

theorem release_disconnects_writer:
  "\<exists>s v. bt_reach s \<and> v \<in> set (devices (sys_drv s)) \<and> (vn_ptr v, O_WRONLY) \<in> set (handles s) \<and>
     vn_state v = BT_VIRNET_STATE_DISCONNECTED \<and> ndev_up v \<and>
     (\<forall>ok. bt_io_file_ioctl (BT_IOC_DISABLE ok) (vn_ptr v) (sys_drv s) = Some (- EINVAL, sys_drv s))"
proof -
  let ?v = "connected ex_vnet"
  let ?d = "ex_drv2\<lparr>io_files := (io_files ex_drv1)[0 := Some \<lparr>read_open_limit = 0, write_open_limit = 0\<rparr>]\<rparr>"
  let ?w = "?v\<lparr>vn_state := BT_VIRNET_STATE_DISCONNECTED\<rparr>"
  let ?e = "ex_drv2\<lparr>devices := [?w]\<rparr>"
  have r: "bt_reach \<lparr>sys_drv = ?d, handles = [(7, O_RDONLY), (7, O_WRONLY)]\<rparr>"
    by (rule ex_open [OF ex_writer]) (simp add: ex_drv2_def ex_simps)
  have "bt_io_file_release O_RDONLY 7 ?d = Some (0, ?e)"
    by (simp add: bt_io_file_release_def deref_def ex_drv2_def ex_simps)
  then have "bt_step \<lparr>sys_drv = ?d, handles = [(7, O_RDONLY), (7, O_WRONLY)]\<rparr> \<lparr>sys_drv = ?e, handles = [(7, O_WRONLY)]\<rparr>"
    using bt_step.release [of 7 O_RDONLY "\<lparr>sys_drv = ?d, handles = [(7, O_RDONLY), (7, O_WRONLY)]\<rparr>" 0 ?e] by simp
  then have "bt_reach \<lparr>sys_drv = ?e, handles = [(7, O_WRONLY)]\<rparr>" by (rule bt_reach.step [OF r])
  moreover have "deref 7 ?e = Some ?w" by (simp add: deref_def ex_vnet_def)
  ultimately show ?thesis
    by (intro exI [of _ "\<lparr>sys_drv = ?e, handles = [(7, O_WRONLY)]\<rparr>"] exI [of _ ?w])
      (simp add: bt_io_file_ioctl_def bt_cmd_disable_virnet_def, simp add: ex_vnet_def)
qed

end
