(* ===== verification/TcpSock.thy ===== *)
theory TcpSock
  imports Prelude "HOL-Library.Signed_Division" "HOL-Library.Tree"
begin

text \<open>
  The state of a NewIP TCP socket and the tunable parameters of the TCP code:
  src/src/linux/net/newip/tcp_nip_parameter.c, struct tcp_nip_common of src/src/linux/include/linux/nip.h,
  and the fields of the kernel's struct tcp_sock and inet_connection_sock the NewIP code reads.
  The kernel's inline helpers on them (sequence comparison, windows, the timer of the connection)
  are given by their documented meaning.
\<close>

section \<open>Parameters (tcp_nip_parameter.c)\<close>

record buffer_params =
  nip_rto :: int
  nip_sndbuf :: int
  nip_rcvbuf :: int
  wscale_enable :: bool
  wscale :: int

record ack_params = buffer_params +
  ack_num :: int
  nip_ssthresh_reset_num :: int
  dup_ack_retrans_num :: int
  ack_retrans_max :: int
  dup_ack_snd_max :: int

record rtt_params = ack_params +
  rtt_tstamp_rto_up :: int
  rtt_tstamp_high :: int
  rtt_tstamp_mid_high :: int
  rtt_tstamp_mid_low :: int
  ack_to_nxt_snd_tstamp :: int

record ssthresh_params = rtt_params +
  ssthresh_enable :: bool
  nip_ssthresh_default :: int
  ssthresh_high :: int
  ssthresh_mid_high :: int
  ssthresh_mid_low :: int
  ssthresh_low :: int
  ssthresh_low_min :: int
  ssthresh_high_step :: int

record nip_params = ssthresh_params +
  nip_idle_ka_probes_out :: int
  nip_keepalive_time :: int
  nip_keepalive_intvl :: int
  nip_probe_max :: int
  nip_tcp_snd_win_enable :: bool
  nip_tcp_rcv_win_enable :: bool

text \<open>The values the parameters have when the module is loaded.\<close>

definition default_params :: nip_params where
  "default_params = \<lparr>
     nip_rto = 5, nip_sndbuf = 1050000, nip_rcvbuf = 2000000, wscale_enable = True, wscale = 7,
     ack_num = 5, nip_ssthresh_reset_num = 10000000, dup_ack_retrans_num = 5, ack_retrans_max = 5, dup_ack_snd_max = 6,
     rtt_tstamp_rto_up = 100, rtt_tstamp_high = 30, rtt_tstamp_mid_high = 20, rtt_tstamp_mid_low = 10,
     ack_to_nxt_snd_tstamp = 500,
     ssthresh_enable = True, nip_ssthresh_default = 300000, ssthresh_high = 1500000, ssthresh_mid_high = 1000000,
     ssthresh_mid_low = 250000, ssthresh_low = 100000, ssthresh_low_min = 10000, ssthresh_high_step = 1,
     nip_idle_ka_probes_out = 20, nip_keepalive_time = 25, nip_keepalive_intvl = 25, nip_probe_max = 2000,
     nip_tcp_snd_win_enable = False, nip_tcp_rcv_win_enable = True\<rparr>"

section \<open>Sequence numbers and times\<close>

definition before :: "u32 \<Rightarrow> u32 \<Rightarrow> bool" where "before a b \<longleftrightarrow> sint (a - b) < 0"
abbreviation after :: "u32 \<Rightarrow> u32 \<Rightarrow> bool" where "after a b \<equiv> before b a"

definition time_after :: "64 word \<Rightarrow> 64 word \<Rightarrow> bool" where "time_after a b \<longleftrightarrow> sint (b - a) < 0"

section \<open>Packets\<close>

definition TCPHDR_FIN :: u8 where "TCPHDR_FIN = 0x01"
definition TCPHDR_SYN :: u8 where "TCPHDR_SYN = 0x02"
definition TCPHDR_RST :: u8 where "TCPHDR_RST = 0x04"
definition TCPHDR_PSH :: u8 where "TCPHDR_PSH = 0x08"
definition TCPHDR_ACK :: u8 where "TCPHDR_ACK = 0x10"

definition flag :: "u8 \<Rightarrow> u8 \<Rightarrow> bool" where "flag m f \<longleftrightarrow> and f m \<noteq> 0"

text \<open>A packet of a queue: its control block and its payload; th_window, th_urg and th_opts are fields
  of the header (in host order), pkt_tstamp the time it was first sent.\<close>

record tcp_skb =
  pkt_seq :: u32
  pkt_end_seq :: u32
  pkt_ack_seq :: u32
  pkt_flags :: u8
  pkt_data :: bytes
  pkt_tstamp :: u32
  pkt_pcount :: u32
  pkt_gso_size :: u32
  th_window :: u16
  th_urg :: u16
  th_opts :: bytes

section \<open>The socket\<close>

datatype tcp_state = TCP_ESTABLISHED | TCP_SYN_SENT | TCP_SYN_RECV | TCP_FIN_WAIT1 | TCP_FIN_WAIT2 | TCP_TIME_WAIT
  | TCP_CLOSE | TCP_CLOSE_WAIT | TCP_LAST_ACK | TCP_LISTEN | TCP_CLOSING | TCP_NEW_SYN_RECV

lemma UNIV_tcp_state: "UNIV = {TCP_ESTABLISHED, TCP_SYN_SENT, TCP_SYN_RECV, TCP_FIN_WAIT1, TCP_FIN_WAIT2, TCP_TIME_WAIT,
  TCP_CLOSE, TCP_CLOSE_WAIT, TCP_LAST_ACK, TCP_LISTEN, TCP_CLOSING, TCP_NEW_SYN_RECV}"
  by (auto intro: tcp_state.exhaust)

instantiation tcp_state :: enum
begin

definition enum_tcp_state :: "tcp_state list" where
  "enum_tcp_state = [TCP_ESTABLISHED, TCP_SYN_SENT, TCP_SYN_RECV, TCP_FIN_WAIT1, TCP_FIN_WAIT2, TCP_TIME_WAIT,
     TCP_CLOSE, TCP_CLOSE_WAIT, TCP_LAST_ACK, TCP_LISTEN, TCP_CLOSING, TCP_NEW_SYN_RECV]"

definition enum_all_tcp_state :: "(tcp_state \<Rightarrow> bool) \<Rightarrow> bool" where
  "enum_all_tcp_state P \<longleftrightarrow> (\<forall>s \<in> set (enum_class.enum :: tcp_state list). P s)"

definition enum_ex_tcp_state :: "(tcp_state \<Rightarrow> bool) \<Rightarrow> bool" where
  "enum_ex_tcp_state P \<longleftrightarrow> (\<exists>s \<in> set (enum_class.enum :: tcp_state list). P s)"

instance
proof
  show u: "UNIV = set (enum_class.enum :: tcp_state list)" by (simp add: UNIV_tcp_state enum_tcp_state_def)
  show "distinct (enum_class.enum :: tcp_state list)" by (simp add: enum_tcp_state_def)
  show "enum_class.enum_all P \<longleftrightarrow> Ball UNIV P" for P :: "tcp_state \<Rightarrow> bool" by (simp add: enum_all_tcp_state_def u)
  show "enum_class.enum_ex P \<longleftrightarrow> Bex UNIV P" for P :: "tcp_state \<Rightarrow> bool" by (simp add: enum_ex_tcp_state_def u)
qed

end

datatype xmit_timer = ICSK_NONE | ICSK_TIME_RETRANS | ICSK_TIME_PROBE0

text \<open>struct tcp_nip_common: what NewIP adds to a TCP socket.\<close>

record tcp_nip_common =
  ack_retrans_num :: u32
  ack_retrans_seq :: u32
  nip_ssthresh :: u32
  nip_ssthresh_reset :: u32
  nip_keepalive_enable :: bool
  idle_ka_probes_out :: u32
  nip_keepalive_out :: u32
  last_rcv_nxt :: u32
  dup_ack_cnt :: u32
  keepalive_time_bak :: u32
  keepalive_probes_bak :: u32
  keepalive_intvl_bak :: u32

text \<open>The socket. The write queue is cut at sk_send_head: rtx_queue was sent, send_queue was not.
  ka_timer is the time the keepalive timer was last set to; sent is the list of packets handed to
  the network so far.\<close>

record tcp_nip_sock = tcp_nip_common +
  sk_state :: tcp_state
  sk_err :: int
  sk_err_soft :: int
  rcv_shutdown :: bool
  snd_shutdown :: bool
  sock_dead :: bool
  sock_keepopen :: bool
  write_seq :: u32
  snd_una :: u32
  snd_nxt :: u32
  snd_wl1 :: u32
  snd_wnd :: u32
  pushed_seq :: u32
  rcv_nxt :: u32
  rcv_wup :: u32
  rcv_wnd :: u32
  snd_up :: u32
  snd_wscale :: nat
  rcv_wscale :: nat
  packets_out :: u32
  sacked_out :: u32
  sack_start :: u32
  sack_end :: u32
  rcv_tstamp :: u32
  rtx_queue :: "tcp_skb list"
  send_queue :: "tcp_skb list"
  rcv_queue :: "tcp_skb list"
  ofo_queue :: "tcp_skb list"
  icsk_pending :: xmit_timer
  icsk_timeout :: "64 word"
  icsk_rto :: u32
  icsk_retransmits :: u8
  icsk_backoff :: u8
  icsk_probes_out :: u8
  icsk_syn_retries :: u8
  icsk_user_timeout :: u32
  ack_sched :: bool
  ack_timer :: bool
  ack_timeout :: "64 word"
  ka_timer :: "u32 option"
  keepalive_time :: u32
  keepalive_probes :: u32
  keepalive_intvl :: u32
  copied_seq :: u32
  window_clamp :: u32
  rcv_ssthresh :: u32
  sk_rcvbuf :: int
  rcvbuf_locked :: bool
  advmss :: u16
  mss_cache :: u32
  mss_clamp :: u16
  user_mss :: u16
  wscale_ok :: bool
  rcv_mss :: u16
  pmtu_cookie :: u32
  tcp_header_len :: u32
  max_window :: u32
  sock_done :: bool
  sent :: "tcp_skb list"

section \<open>The environment of a call\<close>

text \<open>What a call reads from outside the socket: parameters, system settings, the clock, the
  results of kernel functions, and the answers of the network layer to the packets handed to it,
  by their number (net_xmit). cur_mss is the value tcp_nip_current_mss returns, ka_elapsed that of
  keepalive_time_elapsed; trim_head and fragment are tcp_trim_head and tcp_fragment.\<close>

record tcp_env =
  params :: nip_params
  HZ :: nat
  tcp_retries2 :: int
  tcp_syn_retries :: int
  tcp_orphan_retries :: int
  workaround_signed_windows :: bool
  thin_lto :: bool                  \<comment> \<open>tp->thin_lto or sysctl_tcp_thin_linear_timeouts\<close>
  stream_is_thin :: bool            \<comment> \<open>tcp_stream_is_thin\<close>
  set_rto :: u32                    \<comment> \<open>__tcp_set_rto\<close>
  probe0_base :: "u32 \<Rightarrow> u32"         \<comment> \<open>of icsk_rto\<close>
  probe0_when :: "u32 \<Rightarrow> u8 \<Rightarrow> u32"   \<comment> \<open>of icsk_rto and icsk_backoff\<close>
  rto_backoff :: "u32 \<Rightarrow> u8 \<Rightarrow> u32"   \<comment> \<open>inet_csk_rto_backoff\<close>
  jiffies :: "64 word"
  cur_mss :: u32
  win_from_space :: "int \<Rightarrow> int"    \<comment> \<open>tcp_win_from_space\<close>
  tcp_space :: int
  ka_elapsed :: u32
  ka_time_default :: u32            \<comment> \<open>sysctl_tcp_keepalive_time, intvl and probes\<close>
  ka_intvl_default :: u32
  ka_probes_default :: u32
  user_timeout_jiffies :: "u32 \<Rightarrow> u32"  \<comment> \<open>msecs_to_jiffies\<close>
  net_xmit :: "nat \<Rightarrow> int"
  clone_ok :: "tcp_skb \<Rightarrow> bool"
  probe_alloc :: bool
  trim_head :: "u32 \<Rightarrow> tcp_skb \<Rightarrow> tcp_skb option"
  fragment :: "u32 \<Rightarrow> u32 \<Rightarrow> tcp_skb \<Rightarrow> (tcp_skb \<times> tcp_skb) option"
  can_coalesce :: "tcp_skb \<Rightarrow> tcp_skb \<Rightarrow> bool"   \<comment> \<open>skb_try_coalesce can merge the two buffers\<close>
  rb_shape :: "tcp_skb list \<Rightarrow> tcp_skb tree"  \<comment> \<open>the red-black tree of the out-of-order queue\<close>
  rmem_full :: bool                  \<comment> \<open>sk_rmem_alloc is above sk_rcvbuf\<close>
  tcp_app_win :: nat
  tcp_rmem_max :: int
  tcp_moderate_rcvbuf :: bool
  skb_truesize :: "int \<Rightarrow> int"      \<comment> \<open>SKB_TRUESIZE\<close>
  dst_mtu :: "u32 option"            \<comment> \<open>of the route of the socket, None without one\<close>
  dst_advmss :: int
  dst_window :: u32
  nip_hdr_len :: int                 \<comment> \<open>get_nip_hdr_len of the addresses of the socket\<close>
  frag_header_len :: int             \<comment> \<open>of a route that fragments all packets, else 0\<close>
  ext_hdr_len :: int
  min_snd_mss :: int
  mtup_search_low :: "int option"    \<comment> \<open>None when path MTU probing is off\<close>
  tcp_timestamps :: bool
  select_initial_window :: "int \<Rightarrow> int \<Rightarrow> u32 \<Rightarrow> u32 \<times> u32 \<times> nat"  \<comment> \<open>tcp_select_initial_window: window, clamp, scale\<close>

definition tcp_full_space :: "tcp_env \<Rightarrow> tcp_nip_sock \<Rightarrow> int" where
  "tcp_full_space e sk = win_from_space e (sk_rcvbuf sk)"

definition tcp_jiffies32 :: "tcp_env \<Rightarrow> u32" where "tcp_jiffies32 e = ucast (jiffies e)"

definition TCP_RTO_MAX :: "tcp_env \<Rightarrow> u32" where "TCP_RTO_MAX e = of_nat (120 * HZ e)"
definition TCP_TIMEOUT_INIT :: "tcp_env \<Rightarrow> u32" where "TCP_TIMEOUT_INIT e = of_nat (HZ e)"
definition TCP_RESOURCE_PROBE_INTERVAL :: "tcp_env \<Rightarrow> u32" where "TCP_RESOURCE_PROBE_INTERVAL e = of_nat (HZ e div 2)"
definition TCP_TIMEWAIT_LEN :: "tcp_env \<Rightarrow> u32" where "TCP_TIMEWAIT_LEN e = of_nat (60 * HZ e)"

section \<open>Kernel helpers\<close>

definition tcp_wnd_end :: "tcp_nip_sock \<Rightarrow> u32" where "tcp_wnd_end sk = snd_una sk + snd_wnd sk"

definition tcp_receive_window :: "tcp_nip_sock \<Rightarrow> u32" where
  "tcp_receive_window sk = (let win = rcv_wup sk + rcv_wnd sk - rcv_nxt sk in if sint win < 0 then 0 else win)"

definition inet_csk_schedule_ack :: "tcp_nip_sock \<Rightarrow> tcp_nip_sock" where
  "inet_csk_schedule_ack sk = sk\<lparr>ack_sched := True\<rparr>"

definition inet_csk_clear_dack :: "tcp_nip_sock \<Rightarrow> tcp_nip_sock" where
  "inet_csk_clear_dack sk = sk\<lparr>ack_sched := False, ack_timer := False\<rparr>"

definition inet_csk_reset_xmit_timer :: "tcp_env \<Rightarrow> xmit_timer \<Rightarrow> u32 \<Rightarrow> tcp_nip_sock \<Rightarrow> tcp_nip_sock" where
  "inet_csk_reset_xmit_timer e what when sk =
    sk\<lparr>icsk_pending := what, icsk_timeout := jiffies e + ucast (min when (TCP_RTO_MAX e))\<rparr>"

definition inet_csk_clear_xmit_timer :: "tcp_nip_sock \<Rightarrow> tcp_nip_sock" where
  "inet_csk_clear_xmit_timer sk = sk\<lparr>icsk_pending := ICSK_NONE\<rparr>"

definition inet_csk_reset_keepalive_timer :: "u32 \<Rightarrow> tcp_nip_sock \<Rightarrow> tcp_nip_sock" where
  "inet_csk_reset_keepalive_timer len sk = sk\<lparr>ka_timer := Some len\<rparr>"

definition inet_csk_clear_xmit_timers :: "tcp_nip_sock \<Rightarrow> tcp_nip_sock" where
  "inet_csk_clear_xmit_timers sk =
    sk\<lparr>icsk_pending := ICSK_NONE, ack_sched := False, ack_timer := False, ka_timer := None\<rparr>"

section \<open>Initial values (tcp_nip.c)\<close>

definition nip_rto_init :: "tcp_env \<Rightarrow> u32" where
  "nip_rto_init e = (if nip_rto (params e) = 0 then TCP_TIMEOUT_INIT e else of_int (int (HZ e) sdiv nip_rto (params e)))"

definition tcp_sock_priv_init :: "tcp_env \<Rightarrow> tcp_nip_sock \<Rightarrow> tcp_nip_sock" where
  "tcp_sock_priv_init e sk = sk\<lparr>
     ack_retrans_num := 0, ack_retrans_seq := 0, nip_ssthresh := of_int (nip_ssthresh_default (params e)),
     nip_ssthresh_reset := 0, nip_keepalive_enable := False, idle_ka_probes_out := 0, nip_keepalive_out := 0,
     last_rcv_nxt := 0, dup_ack_cnt := 0, keepalive_time_bak := 0, keepalive_probes_bak := 0, keepalive_intvl_bak := 0,
     sacked_out := 0, rcv_tstamp := 0, sack_start := 0, sack_end := 0,
     keepalive_time := 0, keepalive_probes := 0, keepalive_intvl := 0\<rparr>"

text \<open>tcp_nip_done; the write queue of an orphan is purged by its destroy operation.\<close>

definition tcp_nip_write_queue_purge :: "tcp_nip_sock \<Rightarrow> tcp_nip_sock" where
  "tcp_nip_write_queue_purge sk = sk\<lparr>rtx_queue := [], send_queue := [], packets_out := 0, icsk_backoff := 0\<rparr>"

definition tcp_nip_destroy_sock :: "tcp_nip_sock \<Rightarrow> tcp_nip_sock" where
  "tcp_nip_destroy_sock sk = (tcp_nip_write_queue_purge (inet_csk_clear_xmit_timers sk))\<lparr>ofo_queue := []\<rparr>"

definition sk_nip_stream_kill_queues :: "tcp_nip_sock \<Rightarrow> tcp_nip_sock" where
  "sk_nip_stream_kill_queues sk = sk\<lparr>rcv_queue := []\<rparr>"

definition tcp_nip_done :: "tcp_nip_sock \<Rightarrow> tcp_nip_sock" where
  "tcp_nip_done sk =
    (let sk = inet_csk_clear_xmit_timers (sk\<lparr>sk_state := TCP_CLOSE\<rparr>);
         sk = sk\<lparr>rcv_shutdown := True, snd_shutdown := True\<rparr>
     in if sock_dead sk then sk_nip_stream_kill_queues (tcp_nip_destroy_sock sk) else sk)"

text \<open>A socket as it is allocated, with all memory zero, and tcp_nip_init_sock.\<close>

definition zero_sock :: tcp_nip_sock where
  "zero_sock = \<lparr>ack_retrans_num = 0, ack_retrans_seq = 0, nip_ssthresh = 0, nip_ssthresh_reset = 0,
     nip_keepalive_enable = False, idle_ka_probes_out = 0, nip_keepalive_out = 0, last_rcv_nxt = 0, dup_ack_cnt = 0,
     keepalive_time_bak = 0, keepalive_probes_bak = 0, keepalive_intvl_bak = 0,
     sk_state = TCP_CLOSE, sk_err = 0, sk_err_soft = 0, rcv_shutdown = False, snd_shutdown = False, sock_dead = False,
     sock_keepopen = False, write_seq = 0, snd_una = 0, snd_nxt = 0, snd_wl1 = 0, snd_wnd = 0, pushed_seq = 0,
     rcv_nxt = 0, rcv_wup = 0, rcv_wnd = 0, snd_up = 0, snd_wscale = 0, rcv_wscale = 0, packets_out = 0, sacked_out = 0,
     sack_start = 0, sack_end = 0, rcv_tstamp = 0, rtx_queue = [], send_queue = [], rcv_queue = [], ofo_queue = [],
     icsk_pending = ICSK_NONE, icsk_timeout = 0, icsk_rto = 0, icsk_retransmits = 0, icsk_backoff = 0, icsk_probes_out = 0,
     icsk_syn_retries = 0, icsk_user_timeout = 0, ack_sched = False, ack_timer = False, ack_timeout = 0, ka_timer = None,
     keepalive_time = 0, keepalive_probes = 0, keepalive_intvl = 0, copied_seq = 0, window_clamp = 0, rcv_ssthresh = 0,
     sk_rcvbuf = 0, rcvbuf_locked = False, advmss = 0, mss_cache = 0, mss_clamp = 0, user_mss = 0, wscale_ok = False, rcv_mss = 0,
     pmtu_cookie = 0, tcp_header_len = 0, max_window = 0,
     sock_done = False, sent = []\<rparr>"

definition TCP_MSS_DEFAULT :: u32 where "TCP_MSS_DEFAULT = 536"

definition tcp_nip_init_sock :: "tcp_env \<Rightarrow> tcp_nip_sock \<Rightarrow> tcp_nip_sock" where
  "tcp_nip_init_sock e sk =
    (inet_csk_clear_xmit_timers (tcp_sock_priv_init e sk))\<lparr>ofo_queue := [], icsk_rto := nip_rto_init e, mss_cache := TCP_MSS_DEFAULT,
       sk_state := TCP_CLOSE, sk_rcvbuf := nip_rcvbuf (params e)\<rparr>"

text \<open>An environment with the default parameters, for examples.\<close>

definition ex_env :: tcp_env where
  "ex_env = \<lparr>params = default_params, HZ = 100, tcp_retries2 = 15, tcp_syn_retries = 6, tcp_orphan_retries = 0,
     workaround_signed_windows = False, thin_lto = False, stream_is_thin = False, set_rto = 20,
     probe0_base = (\<lambda>rto. max rto 20), probe0_when = (\<lambda>rto n. rto), rto_backoff = (\<lambda>rto n. rto),
     jiffies = 1000, cur_mss = 1460, win_from_space = (\<lambda>s. s), tcp_space = 1000000,
     ka_elapsed = 0, ka_time_default = 720000, ka_intvl_default = 7500, ka_probes_default = 9,
     user_timeout_jiffies = (\<lambda>t. t div 10), net_xmit = (\<lambda>_. 0), clone_ok = (\<lambda>_. True), probe_alloc = True,
     trim_head = (\<lambda>_ _. None), fragment = (\<lambda>_ _ _. None),
     can_coalesce = (\<lambda>_ _. False),
     rb_shape = (\<lambda>q. foldr (\<lambda>p t. \<langle>\<langle>\<rangle>, p, t\<rangle>) q \<langle>\<rangle>), rmem_full = False, tcp_app_win = 31, tcp_rmem_max = 6291456, tcp_moderate_rcvbuf = True,
     skb_truesize = (\<lambda>n. n + 576),
     dst_mtu = Some 1500, dst_advmss = 1460, dst_window = 0, nip_hdr_len = 12, frag_header_len = 0, ext_hdr_len = 0, min_snd_mss = 48,
     mtup_search_low = None, tcp_timestamps = False, select_initial_window = (\<lambda>space mss clamp. (65535, clamp, 7))\<rparr>"

definition ex_skb :: tcp_skb where
  "ex_skb = \<lparr>pkt_seq = 1000, pkt_end_seq = 1003, pkt_ack_seq = 0, pkt_flags = TCPHDR_ACK, pkt_data = [1, 2, 3],
     pkt_tstamp = 900, pkt_pcount = 1, pkt_gso_size = 0, th_window = 0, th_urg = 0, th_opts = []\<rparr>"

end
