(* ===== verification/TcpOut.thy ===== *)
theory TcpOut
  imports TcpSock
begin

text \<open>
  Sending: the window advertised, packets handed to the network, the send loop, retransmission,
  probes and the NewIP keepalive switch: src/src/linux/net/newip/tcp_nip_output.c and the keepalive functions of
  tcp_nip.c. An allocation the code does not check (in __tcp_nip_send_ack) succeeds.
\<close>


section \<open>The receive window\<close>

definition align32 :: "u32 \<Rightarrow> nat \<Rightarrow> u32" where
  "align32 x w = and (x + mask w) (not (mask w))"

text \<open>__nip_tcp_select_window: ints are compared as ints, with nip_ssthresh as unsigned.\<close>

definition nip_new_window :: "tcp_env \<Rightarrow> tcp_nip_sock \<Rightarrow> u32" where
  "nip_new_window e sk =
    (let p = params e; w = rcv_wscale sk; allowed = tcp_full_space e sk; full = min (sint (window_clamp sk)) allowed;
         mss = min (sint (cur_mss e)) full; free = tcp_space e; low = free < full div 2;
         free = (if low then and free (not (mask w)) else free)
     in if sint (cur_mss e) > full \<and> full \<le> 0 then 0
     else if low \<and> (free < allowed div 16 \<or> free < mss) then 0
     else
       let window = (if nip_tcp_rcv_win_enable p
             then if ssthresh_enable p then min (of_int free) (nip_ssthresh sk) else min (of_int free) (rcv_ssthresh sk)
             else of_int (min free (ssthresh_high p)))
       in align32 window w)"

text \<open>nip_tcp_select_window: the value for the window field of the header.\<close>

definition nip_tcp_select_window :: "tcp_env \<Rightarrow> tcp_nip_sock \<Rightarrow> u16 \<times> tcp_nip_sock" where
  "nip_tcp_select_window e sk =
    (let w = rcv_wscale sk; cur_win = tcp_receive_window sk; new_win = nip_new_window e sk;
         new_win = (if new_win < cur_win then align32 cur_win w else new_win);
         sk = sk\<lparr>rcv_wnd := new_win, rcv_wup := rcv_nxt sk\<rparr>;
         new_win = (if w = 0 \<and> workaround_signed_windows e then min new_win 32767 else min new_win (push_bit w 65535))
     in (ucast (drop_bit w new_win), sk))"

section \<open>Packets to the network\<close>

definition tcp_nip_event_ack_sent :: "u32 \<Rightarrow> tcp_nip_sock \<Rightarrow> tcp_nip_sock" where
  "tcp_nip_event_ack_sent nxt sk = (if nxt \<noteq> rcv_nxt sk then sk else inet_csk_clear_dack sk)"

text \<open>tcp_nip_advertise_mss, and the options of a SYN packet.\<close>

definition NIP_TCP_HDR_MAX :: int where "NIP_TCP_HDR_MAX = 24"
definition TCPHDR_LEN :: int where "TCPHDR_LEN = 20"

definition comm_hdr_len :: "tcp_env \<Rightarrow> int" where
  "comm_hdr_len e = (if nip_hdr_len e = 0 then NIP_TCP_HDR_MAX else nip_hdr_len e)"

definition tcp_nip_advertise_mss :: "tcp_env \<Rightarrow> tcp_nip_sock \<Rightarrow> u16 \<times> tcp_nip_sock" where
  "tcp_nip_advertise_mss e sk =
    (case dst_mtu e of
       None \<Rightarrow> (advmss sk, sk)
     | Some mtu \<Rightarrow>
       let mss = uint (advmss sk); metric = dst_advmss e;
           (mss, sk) = (if metric < mss then (metric, sk\<lparr>advmss := of_int metric\<rparr>) else (mss, sk));
           nip_mss = uint mtu - comm_hdr_len e - TCPHDR_LEN;
           (mss, sk) = (if nip_mss > mss then (nip_mss, sk\<lparr>advmss := of_int nip_mss\<rparr>) else (mss, sk))
       in (of_int mss, sk))"

definition TCPOPT_EOL :: u8 where "TCPOPT_EOL = 0"
definition TCPOPT_NOP :: u8 where "TCPOPT_NOP = 1"
definition TCPOPT_MSS :: u8 where "TCPOPT_MSS = 2"
definition TCPOLEN_MSS :: u8 where "TCPOLEN_MSS = 4"

definition tcp_nip_options_write :: "u16 \<Rightarrow> bytes" where
  "tcp_nip_options_write mss = (if mss \<noteq> 0 then [TCPOPT_MSS, TCPOLEN_MSS, ucast (drop_bit 8 mss), ucast mss] else [])"

definition tcp_nip_syn_options :: "tcp_env \<Rightarrow> tcp_nip_sock \<Rightarrow> bytes \<times> tcp_nip_sock" where
  "tcp_nip_syn_options e sk = (let (mss, sk) = tcp_nip_advertise_mss e sk in (tcp_nip_options_write mss, sk))"

text \<open>__tcp_nip_transmit_skb: the error, the packet as it stays in the queue, the socket.\<close>

definition tcp_nip_transmit :: "tcp_env \<Rightarrow> bool \<Rightarrow> u32 \<Rightarrow> tcp_skb \<Rightarrow> tcp_nip_sock \<Rightarrow> int \<times> tcp_skb \<times> tcp_nip_sock" where
  "tcp_nip_transmit e clone_it nxt skb sk =
    (let skb = (if pkt_tstamp skb = 0 then skb\<lparr>pkt_tstamp := tcp_jiffies32 e\<rparr> else skb) in
     if clone_it \<and> \<not> clone_ok e skb then (- ENOBUFS, skb, sk)
     else
       let n = length (sent sk); urg = ucast (snd_up sk);
           (opts, sk) = (if flag (pkt_flags skb) TCPHDR_SYN then tcp_nip_syn_options e sk else ([], sk));
           (win, sk) = (if flag (pkt_flags skb) TCPHDR_SYN then (ucast (min (rcv_wnd sk) 65535), sk) else nip_tcp_select_window e sk);
           sk = (if flag (pkt_flags skb) TCPHDR_ACK then tcp_nip_event_ack_sent nxt sk else sk)
       in (net_xmit e n, skb, sk\<lparr>sent := sent sk @ [skb\<lparr>pkt_ack_seq := nxt, th_window := win, th_urg := urg, th_opts := opts\<rparr>]\<rparr>))"

definition tcp_nip_transmit_skb :: "tcp_env \<Rightarrow> bool \<Rightarrow> tcp_skb \<Rightarrow> tcp_nip_sock \<Rightarrow> int \<times> tcp_skb \<times> tcp_nip_sock" where
  "tcp_nip_transmit_skb e clone_it skb sk = tcp_nip_transmit e clone_it (rcv_nxt sk) skb sk"

definition tcp_nip_init_nondata_skb :: "u32 \<Rightarrow> u8 \<Rightarrow> tcp_skb" where
  "tcp_nip_init_nondata_skb seq flags = \<lparr>pkt_seq = seq,
     pkt_end_seq = (if flag flags TCPHDR_SYN \<or> flag flags TCPHDR_FIN then seq + 1 else seq), pkt_ack_seq = 0, pkt_flags = flags,
     pkt_data = [], pkt_tstamp = 0, pkt_pcount = 1, pkt_gso_size = 0, th_window = 0, th_urg = 0, th_opts = []\<rparr>"

definition tcp_nip_acceptable_seq :: "tcp_nip_sock \<Rightarrow> u32" where
  "tcp_nip_acceptable_seq sk = (if \<not> before (tcp_wnd_end sk) (snd_nxt sk) then snd_nxt sk else tcp_wnd_end sk)"

definition tcp_nip_send_ack :: "tcp_env \<Rightarrow> tcp_nip_sock \<Rightarrow> tcp_nip_sock" where
  "tcp_nip_send_ack e sk =
    (if sk_state sk = TCP_CLOSE then sk
     else snd (snd (tcp_nip_transmit e False (rcv_nxt sk) (tcp_nip_init_nondata_skb (tcp_nip_acceptable_seq sk) TCPHDR_ACK) sk)))"

definition tcp_nip_send_active_reset :: "tcp_env \<Rightarrow> bool \<Rightarrow> tcp_nip_sock \<Rightarrow> tcp_nip_sock" where
  "tcp_nip_send_active_reset e alloc_ok sk =
    (if \<not> alloc_ok then sk
     else snd (snd (tcp_nip_transmit_skb e False
       (tcp_nip_init_nondata_skb (tcp_nip_acceptable_seq sk) (or TCPHDR_ACK TCPHDR_RST)) sk)))"

section \<open>Timers of the write queue\<close>

definition tcp_nip_rearm_rto :: "tcp_env \<Rightarrow> tcp_nip_sock \<Rightarrow> tcp_nip_sock" where
  "tcp_nip_rearm_rto e sk =
    (if packets_out sk = 0 then (inet_csk_clear_xmit_timer sk)\<lparr>icsk_backoff := 0\<rparr>
     else inet_csk_reset_xmit_timer e ICSK_TIME_RETRANS (icsk_rto sk) sk)"

text \<open>tcp_nip_event_new_data_sent for the head of the send queue, skb as it is after its transmission.\<close>

definition tcp_nip_event_new_data_sent :: "tcp_env \<Rightarrow> tcp_skb \<Rightarrow> tcp_nip_sock \<Rightarrow> tcp_nip_sock" where
  "tcp_nip_event_new_data_sent e skb sk =
    (let prior_packets = packets_out sk;
         sk = sk\<lparr>rtx_queue := rtx_queue sk @ [skb], send_queue := tl (send_queue sk), snd_nxt := pkt_end_seq skb,
                packets_out := packets_out sk + pkt_pcount skb\<rparr>
     in if prior_packets = 0 then tcp_nip_rearm_rto e sk else sk)"

definition tcp_nip_check_probe_timer :: "tcp_env \<Rightarrow> tcp_nip_sock \<Rightarrow> tcp_nip_sock" where
  "tcp_nip_check_probe_timer e sk =
    (if packets_out sk = 0 \<and> icsk_pending sk = ICSK_NONE
     then inet_csk_reset_xmit_timer e ICSK_TIME_PROBE0 (probe0_base e (icsk_rto sk)) sk else sk)"

section \<open>NewIP keepalive (tcp_nip.c)\<close>

definition MAX_NIP_TCP_KEEPIDLE :: int where "MAX_NIP_TCP_KEEPIDLE = 32767"
definition MAX_NIP_TCP_KEEPINTVL :: int where "MAX_NIP_TCP_KEEPINTVL = 32767"
definition MAX_NIP_TCP_KEEPCNT :: int where "MAX_NIP_TCP_KEEPCNT = 255"
definition NIP_KEEPALIVE_PROBES :: int where "NIP_KEEPALIVE_PROBES = 255"

definition keepalive_time_when :: "tcp_env \<Rightarrow> tcp_nip_sock \<Rightarrow> u32" where
  "keepalive_time_when e sk = (if keepalive_time sk = 0 then ka_time_default e else keepalive_time sk)"
definition keepalive_intvl_when :: "tcp_env \<Rightarrow> tcp_nip_sock \<Rightarrow> u32" where
  "keepalive_intvl_when e sk = (if keepalive_intvl sk = 0 then ka_intvl_default e else keepalive_intvl sk)"
definition keepalive_probes_of :: "tcp_env \<Rightarrow> tcp_nip_sock \<Rightarrow> u32" where
  "keepalive_probes_of e sk = (if keepalive_probes sk = 0 then ka_probes_default e else keepalive_probes sk)"

text \<open>tcp_set_keepalive of the kernel, the keepalive operation of the protocol.\<close>

definition tcp_set_keepalive :: "tcp_env \<Rightarrow> bool \<Rightarrow> tcp_nip_sock \<Rightarrow> tcp_nip_sock" where
  "tcp_set_keepalive e val sk =
    (if sk_state sk = TCP_CLOSE \<or> sk_state sk = TCP_LISTEN then sk
     else if val \<and> \<not> sock_keepopen sk then inet_csk_reset_keepalive_timer (keepalive_time_when e sk) sk
     else if \<not> val then sk\<lparr>ka_timer := None\<rparr> else sk)"

definition tcp_nip_keepalive_para_update ::
  "tcp_env \<Rightarrow> int \<Rightarrow> int \<Rightarrow> int \<Rightarrow> tcp_nip_sock \<Rightarrow> int \<times> tcp_nip_sock" where
  "tcp_nip_keepalive_para_update e time intvl probes sk =
    (if time < 1 \<or> time > MAX_NIP_TCP_KEEPIDLE then (- EINVAL, sk)
     else
       let sk = sk\<lparr>keepalive_time := of_int time\<rparr>;
           sk = (if sock_keepopen sk \<and> sk_state sk \<noteq> TCP_CLOSE \<and> sk_state sk \<noteq> TCP_LISTEN
                 then inet_csk_reset_keepalive_timer
                   (if keepalive_time sk > ka_elapsed e then keepalive_time sk - ka_elapsed e else 0) sk
                 else sk)
       in if intvl < 1 \<or> intvl > MAX_NIP_TCP_KEEPINTVL then (- EINVAL, sk)
       else
         let sk = sk\<lparr>keepalive_intvl := of_int intvl\<rparr> in
         if probes < 1 \<or> probes > MAX_NIP_TCP_KEEPCNT then (- EINVAL, sk)
         else
           let sk = sk\<lparr>keepalive_probes := of_int probes\<rparr> in
           (0, (tcp_set_keepalive e True sk)\<lparr>sock_keepopen := True\<rparr>))"

definition tcp_nip_keepalive_enable :: "tcp_env \<Rightarrow> tcp_nip_sock \<Rightarrow> tcp_nip_sock" where
  "tcp_nip_keepalive_enable e sk =
    (let p = params e;
         backup = (\<lambda>sk. sk\<lparr>keepalive_time_bak := keepalive_time sk, keepalive_probes_bak := keepalive_probes sk,
           keepalive_intvl_bak := keepalive_intvl sk\<rparr>)
     in if send_queue sk = [] then sk
     else if nip_keepalive_enable sk then
       (if keepalive_time sk > of_nat (HZ e) then
          let sk = (backup sk)\<lparr>keepalive_time := of_int (nip_keepalive_time p),
                keepalive_probes := of_int NIP_KEEPALIVE_PROBES, keepalive_intvl := of_int (nip_keepalive_intvl p)\<rparr>
          in inet_csk_reset_keepalive_timer (keepalive_time sk) sk
        else sk)
     else
       let sk = (if sock_keepopen sk then backup sk else sk);
           (ret, sk) = tcp_nip_keepalive_para_update e (nip_keepalive_time p) (nip_keepalive_intvl p) NIP_KEEPALIVE_PROBES sk
       in if ret \<noteq> 0 then sk else sk\<lparr>nip_keepalive_enable := True\<rparr>)"

definition tcp_nip_keepalive_disable :: "tcp_env \<Rightarrow> tcp_nip_sock \<Rightarrow> tcp_nip_sock" where
  "tcp_nip_keepalive_disable e sk =
    (if \<not> nip_keepalive_enable sk then sk
     else if \<not> sock_keepopen sk then sk\<lparr>nip_keepalive_enable := False\<rparr>
     else if idle_ka_probes_out sk < of_int (nip_idle_ka_probes_out (params e)) then sk
     else if keepalive_time_bak sk \<noteq> 0 then
       let sk = sk\<lparr>keepalive_time := keepalive_time_bak sk, keepalive_probes := keepalive_probes_bak sk,
             keepalive_intvl := keepalive_intvl_bak sk\<rparr>
       in inet_csk_reset_keepalive_timer (keepalive_time sk) sk
     else
       let sk = tcp_set_keepalive e False (sk\<lparr>keepalive_time_bak := 0, keepalive_probes_bak := 0, keepalive_intvl_bak := 0\<rparr>)
       in sk\<lparr>sock_keepopen := False, nip_keepalive_enable := False\<rparr>)"

section \<open>The send loop\<close>

definition tcp_nip_set_skb_tso_segs :: "u32 \<Rightarrow> tcp_skb \<Rightarrow> tcp_skb" where
  "tcp_nip_set_skb_tso_segs mss skb =
    (let len = of_nat (length (pkt_data skb)) in
     if len \<le> mss then skb\<lparr>pkt_pcount := 1, pkt_gso_size := 0\<rparr>
     else skb\<lparr>pkt_pcount := (len + mss - 1) div mss, pkt_gso_size := mss\<rparr>)"

definition tcp_nip_init_tso_segs :: "u32 \<Rightarrow> tcp_skb \<Rightarrow> tcp_skb" where
  "tcp_nip_init_tso_segs mss skb =
    (if pkt_pcount skb = 0 \<or> (pkt_pcount skb > 1 \<and> pkt_gso_size skb \<noteq> mss) then tcp_nip_set_skb_tso_segs mss skb else skb)"

definition tcp_nip_snd_wnd_test :: "tcp_nip_sock \<Rightarrow> tcp_skb \<Rightarrow> u32 \<Rightarrow> bool" where
  "tcp_nip_snd_wnd_test sk skb mss =
    (let end_seq = (if of_nat (length (pkt_data skb)) > mss then pkt_seq skb + mss else pkt_end_seq skb)
     in \<not> after end_seq (tcp_wnd_end sk))"

text \<open>The loop of tcp_nip_write_xmit over the packets from sk_send_head on.\<close>

fun write_xmit_loop :: "tcp_env \<Rightarrow> u32 \<Rightarrow> bool \<Rightarrow> u32 \<Rightarrow> tcp_skb list \<Rightarrow> tcp_nip_sock \<Rightarrow> tcp_nip_sock" where
  "write_xmit_loop e mss push_one n [] sk = sk"
| "write_xmit_loop e mss push_one n (skb # skbs) sk =
    (if n = 0 then sk
     else
       let skb = tcp_nip_init_tso_segs mss skb; sk = sk\<lparr>send_queue := skb # skbs\<rparr> in
       if \<not> tcp_nip_snd_wnd_test sk skb mss then sk
       else
         let (err, skb, sk) = tcp_nip_transmit_skb e True skb sk in
         if err \<noteq> 0 then sk\<lparr>send_queue := skb # skbs\<rparr>
         else
           let sk = tcp_nip_event_new_data_sent e skb sk in
           if push_one then sk else write_xmit_loop e mss push_one (n - 1) skbs sk)"

definition tcp_nip_write_xmit :: "tcp_env \<Rightarrow> u32 \<Rightarrow> bool \<Rightarrow> tcp_nip_sock \<Rightarrow> bool \<times> tcp_nip_sock" where
  "tcp_nip_write_xmit e mss push_one sk =
    (let p = params e;
         snd_num = (if nip_tcp_snd_win_enable p then nip_ssthresh sk div mss else 0xFFFFFFFF);
         sk = (tcp_nip_keepalive_enable e sk)\<lparr>idle_ka_probes_out := 0\<rparr>;
         stale = (rcv_tstamp sk \<noteq> 0 \<and> tcp_jiffies32 e - rcv_tstamp sk \<ge> of_int (ack_to_nxt_snd_tstamp p));
         sk = (if stale then sk\<lparr>nip_ssthresh := of_int (ssthresh_low_min p)\<rparr> else sk);
         snd_num = (if stale then nip_ssthresh sk div mss else snd_num);
         sk = write_xmit_loop e mss push_one snd_num (send_queue sk) sk
     in (packets_out sk = 0 \<and> send_queue sk \<noteq> [], sk))"

text \<open>__tcp_nip_push_pending_frames.\<close>

definition tcp_nip_push_pending :: "tcp_env \<Rightarrow> u32 \<Rightarrow> tcp_nip_sock \<Rightarrow> tcp_nip_sock" where
  "tcp_nip_push_pending e mss sk =
    (if sk_state sk = TCP_CLOSE then sk
     else case tcp_nip_write_xmit e mss False sk of
         (True, sk) \<Rightarrow> tcp_nip_check_probe_timer e sk | (False, sk) \<Rightarrow> sk)"

definition tcp_nip_queue_skb :: "tcp_skb \<Rightarrow> tcp_nip_sock \<Rightarrow> tcp_nip_sock" where
  "tcp_nip_queue_skb skb sk = sk\<lparr>write_seq := pkt_end_seq skb, send_queue := send_queue sk @ [skb]\<rparr>"

text \<open>tcp_nip_send_fin: the FIN goes on the last unsent packet, else on a packet of its own; without
  memory for one, on the last packet of the write queue although it was sent.\<close>

definition set_fin :: "tcp_skb \<Rightarrow> tcp_skb" where
  "set_fin skb = skb\<lparr>pkt_flags := or (pkt_flags skb) TCPHDR_FIN, pkt_end_seq := pkt_end_seq skb + 1\<rparr>"

definition tcp_nip_send_fin :: "tcp_env \<Rightarrow> bool \<Rightarrow> tcp_nip_sock \<Rightarrow> tcp_nip_sock" where
  "tcp_nip_send_fin e alloc_ok sk =
    (if send_queue sk \<noteq> [] then
       tcp_nip_push_pending e (cur_mss e)
         (sk\<lparr>send_queue := butlast (send_queue sk) @ [set_fin (last (send_queue sk))], write_seq := write_seq sk + 1\<rparr>)
     else if alloc_ok then
       tcp_nip_push_pending e (cur_mss e)
         (tcp_nip_queue_skb (tcp_nip_init_nondata_skb (write_seq sk) (or TCPHDR_ACK TCPHDR_FIN)) sk)
     else if rtx_queue sk \<noteq> [] then
       tcp_nip_push_pending e (cur_mss e)
         (sk\<lparr>rtx_queue := butlast (rtx_queue sk) @ [set_fin (last (rtx_queue sk))], write_seq := write_seq sk + 1\<rparr>)
     else sk)"

section \<open>Retransmission\<close>

text \<open>__tcp_nip_retransmit_skb of a sent packet: the error, what it becomes in the queue (two
  packets when it was split), the socket.\<close>

definition tcp_nip_retransmit0 :: "tcp_env \<Rightarrow> tcp_skb \<Rightarrow> tcp_nip_sock \<Rightarrow> int \<times> tcp_skb list \<times> tcp_nip_sock" where
  "tcp_nip_retransmit0 e skb sk =
    (if before (pkt_seq skb) (snd_una sk) \<and> before (pkt_end_seq skb) (snd_una sk) then (- EINVAL, [skb], sk)
     else
       case (if before (pkt_seq skb) (snd_una sk) then trim_head e (snd_una sk - pkt_seq skb) skb else Some skb) of
         None \<Rightarrow> (- ENOMEM, [skb], sk)
       | Some skb \<Rightarrow>
         if \<not> before (pkt_seq skb) (tcp_wnd_end sk) \<and> pkt_seq skb \<noteq> snd_una sk then (- EAGAIN, [skb], sk)
         else if of_nat (length (pkt_data skb)) > cur_mss e then
           (case fragment e (cur_mss e) (cur_mss e) skb of
              None \<Rightarrow> (- ENOMEM, [skb], sk)
            | Some (a, b) \<Rightarrow>
                let sk = (if before (snd_nxt sk) (pkt_end_seq b) then sk
                      else sk\<lparr>packets_out := packets_out sk - (pkt_pcount skb - pkt_pcount a - pkt_pcount b)\<rparr>);
                    (err, a, sk) = tcp_nip_transmit_skb e True a sk
                in (err, [a, b], sk))
         else
           let skb' = tcp_nip_set_skb_tso_segs (cur_mss e) skb;
               sk = sk\<lparr>packets_out := packets_out sk - (pkt_pcount skb - pkt_pcount skb')\<rparr>;
               (err, skb', sk) = tcp_nip_transmit_skb e True skb' sk
           in (err, [skb'], sk))"

text \<open>tcp_nip_retransmit_skb of the n-th packet of the write queue.\<close>

definition tcp_nip_retransmit_skb :: "tcp_env \<Rightarrow> nat \<Rightarrow> tcp_nip_sock \<Rightarrow> int \<times> tcp_nip_sock" where
  "tcp_nip_retransmit_skb e n sk =
    (let q = rtx_queue sk in
     if n < length q then
       let (err, new, sk) = tcp_nip_retransmit0 e (q ! n) sk
       in (err, sk\<lparr>rtx_queue := take n q @ new @ drop (Suc n) q\<rparr>)
     else
       let k = n - length q; s = send_queue sk; (err, new, sk) = tcp_nip_retransmit0 e (s ! k) sk
       in (err, sk\<lparr>send_queue := take k s @ new @ drop (Suc k) s\<rparr>))"

section \<open>Probes\<close>

text \<open>tcp_nip_xmit_probe_skb with urgent = 0.\<close>

definition tcp_nip_xmit_probe_skb :: "tcp_env \<Rightarrow> tcp_nip_sock \<Rightarrow> int \<times> tcp_nip_sock" where
  "tcp_nip_xmit_probe_skb e sk =
    (if \<not> probe_alloc e then (-1, sk)
     else let (ret, _, sk) = tcp_nip_transmit_skb e False (tcp_nip_init_nondata_skb (snd_una sk - 1) TCPHDR_ACK) sk in (ret, sk))"

definition tcp_nip_write_wakeup :: "tcp_env \<Rightarrow> tcp_nip_sock \<Rightarrow> int \<times> tcp_nip_sock" where
  "tcp_nip_write_wakeup e sk =
    (if sk_state sk = TCP_CLOSE then (-1, sk)
     else case send_queue sk of
         [] \<Rightarrow> tcp_nip_xmit_probe_skb e sk
       | skb # skbs \<Rightarrow>
         if \<not> before (pkt_seq skb) (tcp_wnd_end sk) then tcp_nip_xmit_probe_skb e sk
         else
           let seg_size = tcp_wnd_end sk - pkt_seq skb;
               sk = (if before (pushed_seq sk) (pkt_end_seq skb) then sk\<lparr>pushed_seq := pkt_end_seq skb\<rparr> else sk);
               pieces = (if seg_size < pkt_end_seq skb - pkt_seq skb
                 then map_option (\<lambda>(a, b). (a, [b]))
                   (fragment e seg_size (cur_mss e) (skb\<lparr>pkt_flags := or (pkt_flags skb) TCPHDR_PSH\<rparr>))
                 else Some (skb, []))
           in case pieces of
               None \<Rightarrow> (-1, sk\<lparr>send_queue := skb\<lparr>pkt_flags := or (pkt_flags skb) TCPHDR_PSH\<rparr> # skbs\<rparr>)
             | Some (skb, rest) \<Rightarrow>
               let (err, skb, sk) = tcp_nip_transmit_skb e True skb sk; sk = sk\<lparr>send_queue := skb # rest @ skbs\<rparr>
               in if err = 0 then (err, tcp_nip_event_new_data_sent e skb sk) else (err, sk))"

definition tcp_nip_send_probe0 :: "tcp_env \<Rightarrow> tcp_nip_sock \<Rightarrow> tcp_nip_sock" where
  "tcp_nip_send_probe0 e sk =
    (let (err, sk) = tcp_nip_write_wakeup e sk in
     if packets_out sk \<noteq> 0 \<or> send_queue sk = [] then sk\<lparr>icsk_probes_out := 0, icsk_backoff := 0\<rparr>
     else
       let sk = sk\<lparr>icsk_probes_out := icsk_probes_out sk + 1\<rparr>;
           sk = (if err \<le> 0 \<and> int (unat (icsk_backoff sk)) < tcp_retries2 e then sk\<lparr>icsk_backoff := icsk_backoff sk + 1\<rparr> else sk);
           when = (if err \<le> 0 then probe0_when e (icsk_rto sk) (icsk_backoff sk) else TCP_RESOURCE_PROBE_INTERVAL e)
       in inet_csk_reset_xmit_timer e ICSK_TIME_PROBE0 when sk)"

section \<open>What sending leaves alone\<close>

text \<open>Handing a packet to the network changes only the receive window, the pending acknowledgment and
  the record of the packets sent.\<close>

definition out_frame :: "tcp_nip_sock \<Rightarrow> tcp_nip_sock" where
  "out_frame sk = sk\<lparr>advmss := 0, rcv_wnd := 0, rcv_wup := 0, ack_sched := False, ack_timer := False, sent := []\<rparr>"

lemma select_window_frame: "out_frame (snd (nip_tcp_select_window e sk)) = out_frame sk"
  by (simp add: nip_tcp_select_window_def Let_def out_frame_def)

lemma ack_sent_frame: "out_frame (tcp_nip_event_ack_sent n sk) = out_frame sk"
  by (simp add: tcp_nip_event_ack_sent_def inet_csk_clear_dack_def out_frame_def)

lemma syn_options_frame: "out_frame (snd (tcp_nip_syn_options e sk)) = out_frame sk"
  by (simp add: tcp_nip_syn_options_def tcp_nip_advertise_mss_def Let_def split_beta out_frame_def split: option.split)

lemma sent_frame: "out_frame (sk\<lparr>sent := s\<rparr>) = out_frame sk"
  by (simp add: out_frame_def)

lemma transmit_frame: "out_frame (snd (snd (tcp_nip_transmit e c nxt skb sk))) = out_frame sk"
  by (simp add: tcp_nip_transmit_def Let_def sent_frame ack_sent_frame select_window_frame syn_options_frame split_beta)

lemma out_frame_sel [simp]:
  "sk_state (out_frame sk) = sk_state sk" "sock_dead (out_frame sk) = sock_dead sk" "sk_err_soft (out_frame sk) = sk_err_soft sk"
  "packets_out (out_frame sk) = packets_out sk" "rtx_queue (out_frame sk) = rtx_queue sk"
  "send_queue (out_frame sk) = send_queue sk" "snd_una (out_frame sk) = snd_una sk" "snd_wnd (out_frame sk) = snd_wnd sk"
  "snd_nxt (out_frame sk) = snd_nxt sk" "rcv_nxt (out_frame sk) = rcv_nxt sk"
  "icsk_pending (out_frame sk) = icsk_pending sk" "icsk_timeout (out_frame sk) = icsk_timeout sk"
  "icsk_rto (out_frame sk) = icsk_rto sk" "icsk_retransmits (out_frame sk) = icsk_retransmits sk"
  "icsk_backoff (out_frame sk) = icsk_backoff sk" "icsk_probes_out (out_frame sk) = icsk_probes_out sk"
  "nip_ssthresh (out_frame sk) = nip_ssthresh sk"
  by (simp_all add: out_frame_def)

lemma out_frameD:
  assumes "out_frame a = out_frame b"
  shows "sk_state a = sk_state b" "sock_dead a = sock_dead b" "sk_err_soft a = sk_err_soft b"
    "packets_out a = packets_out b" "rtx_queue a = rtx_queue b" "send_queue a = send_queue b"
    "snd_una a = snd_una b" "snd_wnd a = snd_wnd b" "snd_nxt a = snd_nxt b" "rcv_nxt a = rcv_nxt b"
    "icsk_pending a = icsk_pending b" "icsk_timeout a = icsk_timeout b" "icsk_rto a = icsk_rto b"
    "icsk_retransmits a = icsk_retransmits b" "icsk_backoff a = icsk_backoff b"
    "icsk_probes_out a = icsk_probes_out b" "nip_ssthresh a = nip_ssthresh b"
  using arg_cong [OF assms, of sk_state] arg_cong [OF assms, of sock_dead] arg_cong [OF assms, of sk_err_soft]
    arg_cong [OF assms, of packets_out] arg_cong [OF assms, of rtx_queue] arg_cong [OF assms, of send_queue]
    arg_cong [OF assms, of snd_una] arg_cong [OF assms, of snd_wnd] arg_cong [OF assms, of snd_nxt]
    arg_cong [OF assms, of rcv_nxt] arg_cong [OF assms, of icsk_pending] arg_cong [OF assms, of icsk_timeout]
    arg_cong [OF assms, of icsk_rto] arg_cong [OF assms, of icsk_retransmits] arg_cong [OF assms, of icsk_backoff]
    arg_cong [OF assms, of icsk_probes_out] arg_cong [OF assms, of nip_ssthresh]
  by simp_all

lemma transmit_skb_seq:
  assumes "tcp_nip_transmit e c nxt skb sk = (err, skb', sk')"
  shows "pkt_seq skb' = pkt_seq skb" "pkt_end_seq skb' = pkt_end_seq skb" "pkt_data skb' = pkt_data skb"
    "pkt_pcount skb' = pkt_pcount skb" "pkt_flags skb' = pkt_flags skb" "err = - ENOBUFS \<or> err = net_xmit e (length (sent sk))"
  using assms by (auto simp: tcp_nip_transmit_def Let_def split_beta split: if_splits)

lemmas transmit_keeps = out_frameD [OF transmit_frame]

section \<open>The advertised window\<close>

lemma and_not_mask: "and y (not (mask w)) = push_bit w (drop_bit w y)" for y :: u32
  by (rule bit_word_eqI) (auto simp: bit_simps)

lemma unat_align32:
  assumes "w \<le> 14" "unat x < 2 ^ 31"
  shows "unat (align32 x w) = (unat x + 2 ^ w - 1) div 2 ^ w * 2 ^ w"
proof -
  have p: "(2 :: nat) ^ w \<le> 2 ^ 14" by (rule power_increasing) (use assms(1) in auto)
  have m: "unat (mask w :: u32) = 2 ^ w - 1"
  proof -
    have "(mask w :: u32) = of_nat (2 ^ w - 1)" by (simp add: mask_eq_exp_minus_1 of_nat_diff)
    then show ?thesis using p by (simp only: unat_of_nat) (simp add: take_bit_nat_eq_self)
  qed
  have y: "unat (x + mask w) = unat x + 2 ^ w - 1"
    using assms(2) p m by (simp add: unat_word_ariths)
  have q: "(unat x + 2 ^ w - 1) div 2 ^ w * 2 ^ w \<le> unat x + 2 ^ w - 1" by simp
  have t: "take_bit 32 (unat x + 2 ^ w - 1) = unat x + 2 ^ w - 1"
    using assms(2) p by (simp add: take_bit_nat_eq_self)
  have "unat (align32 x w) = take_bit LENGTH(32) (push_bit w (drop_bit w (take_bit LENGTH(32) (unat (x + mask w)))))"
    unfolding align32_def and_not_mask unsigned_push_bit_eq unsigned_drop_bit_eq ..
  then have "unat (align32 x w) = take_bit 32 ((unat x + 2 ^ w - 1) div 2 ^ w * 2 ^ w)"
    using t y by (simp add: push_bit_eq_mult drop_bit_eq_div)
  moreover have "unat x + 2 ^ w - 1 < 2 ^ 32" using p assms(2) by simp
  then have "(unat x + 2 ^ w - 1) div 2 ^ w * 2 ^ w < 2 ^ 32" by (rule le_less_trans [OF q])
  ultimately show ?thesis by (simp only: take_bit_nat_eq_self)
qed


lemma align_up:
  fixes x w :: nat
  shows "x \<le> (x + 2 ^ w - 1) div 2 ^ w * 2 ^ w" "(x + 2 ^ w - 1) div 2 ^ w * 2 ^ w < x + 2 ^ w"
proof -
  let ?y = "x + 2 ^ w - 1"
  have "?y = ?y div 2 ^ w * 2 ^ w + ?y mod 2 ^ w" by (rule div_mult_mod_eq [symmetric])
  moreover have "?y mod 2 ^ w < 2 ^ w" "(1 :: nat) \<le> 2 ^ w" by simp_all
  ultimately show "x \<le> ?y div 2 ^ w * 2 ^ w" "?y div 2 ^ w * 2 ^ w < x + 2 ^ w" by linarith+
qed

lemma new_window_aligned: "\<exists>x. nip_new_window e sk = align32 x (rcv_wscale sk)"
proof -
  have "align32 0 (rcv_wscale sk) = 0"
    by (rule bit_word_eqI) (simp add: align32_def bit_simps)
  then show ?thesis unfolding nip_new_window_def Let_def by (auto intro: exI [of _ 0])
qed


lemma select_window_fields:
  assumes "nip_tcp_select_window e sk = (win, sk')"
  shows "rcv_wup sk' = rcv_nxt sk" "rcv_nxt sk' = rcv_nxt sk"
    "rcv_wnd sk' = (if nip_new_window e sk < tcp_receive_window sk then align32 (tcp_receive_window sk) (rcv_wscale sk)
       else nip_new_window e sk)"
    "\<not> (rcv_wscale sk = 0 \<and> workaround_signed_windows e) \<Longrightarrow>
       win = ucast (drop_bit (rcv_wscale sk) (min (rcv_wnd sk') (push_bit (rcv_wscale sk) 65535)))"
  using assms by (auto simp: nip_tcp_select_window_def Let_def)

lemma select_window_aligned:
  assumes "nip_tcp_select_window e sk = (win, sk')" "rcv_wscale sk \<le> 14"
    and "unat (tcp_receive_window sk) \<le> 2 ^ 30" "unat (nip_new_window e sk) \<le> 2 ^ 30"
  shows "unat (tcp_receive_window sk) \<le> unat (rcv_wnd sk')" "unat (rcv_wnd sk') < 2 ^ 31"
    "\<exists>x. rcv_wnd sk' = align32 x (rcv_wscale sk)"
proof -
  have p: "(2 :: nat) ^ rcv_wscale sk \<le> 2 ^ 14" by (rule power_increasing) (use assms(2) in auto)
  have a: "unat (align32 (tcp_receive_window sk) (rcv_wscale sk)) =
      (unat (tcp_receive_window sk) + 2 ^ rcv_wscale sk - 1) div 2 ^ rcv_wscale sk * 2 ^ rcv_wscale sk"
    using assms(3) by (intro unat_align32 assms(2)) simp
  note up = align_up [of "unat (tcp_receive_window sk)" "rcv_wscale sk"]
  show "unat (tcp_receive_window sk) \<le> unat (rcv_wnd sk')" "unat (rcv_wnd sk') < 2 ^ 31"
    using up p assms(3,4) unfolding select_window_fields(3) [OF assms(1)] by (auto simp: a word_less_nat_alt)
  show "\<exists>x. rcv_wnd sk' = align32 x (rcv_wscale sk)"
    using new_window_aligned [of e sk] unfolding select_window_fields(3) [OF assms(1)] by auto
qed

lemma align32_multiple: "drop_bit w (align32 x w) = drop_bit w (x + mask w) \<and> push_bit w (drop_bit w (align32 x w)) = align32 x w"
  unfolding align32_def by (auto intro!: bit_word_eqI simp: bit_simps; drule bit_imp_le_length; simp)

lemma sint_small:
  fixes x :: u32
  assumes "unat x < 2 ^ 31"
  shows "sint x = int (unat x)"
proof -
  have "uint x = int (unat x)" by (rule uint_nat)
  moreover have "signed_take_bit (LENGTH(32) - 1) (int (unat x)) = int (unat x)"
    by (rule signed_take_bit_int_eq_self) (use assms in \<open>simp_all del: of_nat_unat\<close>)
  ultimately show ?thesis unfolding sint_uint by simp
qed

text \<open>C26: The receive window offered to the peer never shrinks: the recorded window covers what is
  left of the one offered before, counted from the next expected byte, and the 16-bit value of the
  header, scaled back, is the recorded window exactly, or the largest value when it is larger.\<close>

theorem window_never_shrinks:
  assumes s: "nip_tcp_select_window e sk = (win, sk')" and w: "rcv_wscale sk = w" "w \<le> 14" "\<not> (w = 0 \<and> workaround_signed_windows e)"
    and b: "unat (tcp_receive_window sk) \<le> 2 ^ 30" "unat (nip_new_window e sk) \<le> 2 ^ 30"
  shows "unat (tcp_receive_window sk) \<le> unat (tcp_receive_window sk') \<and> tcp_receive_window sk' = rcv_wnd sk' \<and>
    unat win * 2 ^ w = min (unat (rcv_wnd sk')) (65535 * 2 ^ w)"
proof (intro conjI)
  note a = select_window_aligned [OF s w(2) [folded w(1)] b, unfolded w(1)]
  have "sint (rcv_wnd sk') = int (unat (rcv_wnd sk'))" by (rule sint_small [OF a(2)])
  then show r: "tcp_receive_window sk' = rcv_wnd sk'"
    using select_window_fields(1,2) [OF s] by (simp add: tcp_receive_window_def Let_def)
  show "unat (tcp_receive_window sk) \<le> unat (tcp_receive_window sk')" using a(1) by (simp add: r)
  show "unat win * 2 ^ w = min (unat (rcv_wnd sk')) (65535 * 2 ^ w)"
  proof -
    have p: "(2 :: nat) ^ w \<le> 2 ^ 14" by (rule power_increasing) (use w(2) in auto)
    obtain x where x: "rcv_wnd sk' = align32 x w" using a(3) by blast
    have "push_bit w (drop_bit w (rcv_wnd sk')) = rcv_wnd sk'" unfolding x by (rule align32_multiple [THEN conjunct2])
    then have "unat (rcv_wnd sk') = take_bit LENGTH(32) (push_bit w (drop_bit w (take_bit LENGTH(32) (unat (rcv_wnd sk')))))"
      by (metis unsigned_push_bit_eq unsigned_drop_bit_eq)
    moreover have "unat (rcv_wnd sk') div 2 ^ w * 2 ^ w < 2 ^ 32"
      using le_less_trans [OF div_times_less_eq_dividend a(2)] by (rule less_trans) simp
    ultimately have k: "unat (rcv_wnd sk') = unat (rcv_wnd sk') div 2 ^ w * 2 ^ w"
      using a(2) by (simp add: push_bit_eq_mult drop_bit_eq_div take_bit_nat_eq_self)
    have m: "unat (push_bit w 65535 :: u32) = 65535 * 2 ^ w"
    proof -
      have "unat (push_bit w 65535 :: u32) = take_bit LENGTH(32) (push_bit w (unat (65535 :: u32)))"
        by (rule unsigned_push_bit_eq)
      also have "\<dots> = 65535 * 2 ^ w" using p by (simp add: push_bit_eq_mult take_bit_nat_eq_self)
      finally show ?thesis .
    qed
    define q where "q = unat (rcv_wnd sk') div 2 ^ w"
    have "win = ucast (drop_bit w (min (rcv_wnd sk') (push_bit w 65535)))"
      using select_window_fields(4) [OF s] w by simp
    moreover have "unat (drop_bit w (min (rcv_wnd sk') (push_bit w 65535))) = min q 65535"
    proof (cases "rcv_wnd sk' \<le> push_bit w 65535")
      case True
      then have "q * 2 ^ w \<le> 65535 * 2 ^ w" using k m by (simp add: q_def word_le_nat_alt)
      then have "q \<le> 65535" by simp
      then have "min q 65535 = q" by simp
      then show ?thesis using True by (simp only: min.absorb1 unat_drop_bit_eq) (simp add: q_def drop_bit_eq_div)
    next
      case False
      then have "65535 * 2 ^ w \<le> q * 2 ^ w" using k m by (simp add: q_def word_le_nat_alt)
      then have "65535 \<le> q" by simp
      moreover have "unat (drop_bit w (push_bit w 65535 :: u32)) = 65535"
        unfolding unat_drop_bit_eq m by (simp add: drop_bit_eq_div)
      ultimately show ?thesis using False by (simp add: min_def)
    qed
    ultimately have "unat win = min q 65535" by (simp add: unsigned_ucast_eq take_bit_nat_eq_self)
    then show ?thesis using k unfolding q_def [symmetric] by (simp add: nat_mult_min_left)
  qed
qed


lemma window_never_shrinks_witness:
  "unat (fst (nip_tcp_select_window ex_env ((tcp_nip_init_sock ex_env zero_sock)\<lparr>rcv_wscale := 7, window_clamp := 1000000, sk_rcvbuf := 1000000\<rparr>))) * 128 = 300032"
proof -
  let ?sk = "(tcp_nip_init_sock ex_env zero_sock)\<lparr>rcv_wscale := 7, window_clamp := 1000000, sk_rcvbuf := 1000000\<rparr>"
  obtain win sk' where s: "nip_tcp_select_window ex_env ?sk = (win, sk')" by fastforce
  have f: "nip_new_window ex_env ?sk = 300032" "tcp_receive_window ?sk = 0"
    by (simp_all add: nip_new_window_def tcp_receive_window_def Let_def tcp_full_space_def tcp_nip_init_sock_def inet_csk_clear_xmit_timers_def
        tcp_sock_priv_init_def zero_sock_def ex_env_def default_params_def align32_def mask_numeral)
  have "unat win * 2 ^ 7 = min (unat (rcv_wnd sk')) (65535 * 2 ^ 7)"
    using window_never_shrinks [OF s, of 7] f by simp
  moreover have "rcv_wnd sk' = 300032" using select_window_fields(3) [OF s] f by simp
  ultimately show ?thesis using s by simp
qed

end
