(* ===== verification/TcpRecv.thy ===== *)
theory TcpRecv
  imports TcpOut
begin

text \<open>
  The receiving half of a connection: the receive queue and the queue of out-of-order packets
  (tcp_nip_data_queue, tcp_nip_data_queue_ofo, tcp_nip_ofo_queue and their helpers of tcp_nip_input.c).
  The out-of-order queue, a red-black tree of the kernel, is the list of its packets in order; ooo_last_skb is
  the last of them. The tree itself, whose shape the kernel keeps, is rb_shape of the environment; ofo_descend is
  the search of the code through it, and ofo_search what it finds, on the list.
\<close>

section \<open>FIN\<close>

definition tcp_nip_fin :: "tcp_env \<Rightarrow> tcp_nip_sock \<Rightarrow> tcp_nip_sock" where
  "tcp_nip_fin e sk =
    (let sk = (inet_csk_schedule_ack sk)\<lparr>rcv_shutdown := True, sock_done := True\<rparr> in
     case sk_state sk of
       TCP_SYN_RECV \<Rightarrow> sk\<lparr>sk_state := TCP_CLOSE_WAIT\<rparr>
     | TCP_ESTABLISHED \<Rightarrow> sk\<lparr>sk_state := TCP_CLOSE_WAIT\<rparr>
     | TCP_FIN_WAIT1 \<Rightarrow> (tcp_nip_send_ack e sk)\<lparr>sk_state := TCP_CLOSING\<rparr>
     | TCP_FIN_WAIT2 \<Rightarrow> inet_csk_reset_keepalive_timer (TCP_TIMEWAIT_LEN e) (tcp_nip_send_ack e sk)
     | _ \<Rightarrow> sk)"

section \<open>Trimming and merging\<close>

definition tcp_nip_overlap_handle :: "u32 \<Rightarrow> tcp_skb \<Rightarrow> tcp_skb" where
  "tcp_nip_overlap_handle nxt skb =
    (let diff = nxt - pkt_seq skb in skb\<lparr>pkt_data := drop (unat diff) (pkt_data skb), pkt_seq := pkt_seq skb + diff\<rparr>)"

definition tcp_nip_left_overlap :: "tcp_skb \<Rightarrow> tcp_skb \<Rightarrow> tcp_skb" where
  "tcp_nip_left_overlap cur skb =
    (let diff = pkt_end_seq skb - pkt_seq cur in
     cur\<lparr>pkt_data := drop (unat diff) (pkt_data cur), pkt_seq := pkt_seq cur + diff\<rparr>)"

definition tcp_nip_right_overlap :: "tcp_skb \<Rightarrow> tcp_skb \<Rightarrow> tcp_skb" where
  "tcp_nip_right_overlap cur skb =
    (let diff = pkt_end_seq cur - pkt_seq skb; len = of_nat (length (pkt_data cur)) - diff in
     cur\<lparr>pkt_data := take (unat len) (pkt_data cur), pkt_end_seq := pkt_end_seq cur - diff\<rparr>)"

text \<open>tcp_nip_try_coalesce and tcp_nip_ooo_try_coalesce: whether they merge, and the packet merged.\<close>

definition coalesces :: "tcp_env \<Rightarrow> tcp_skb \<Rightarrow> tcp_skb \<Rightarrow> bool" where
  "coalesces e to from \<longleftrightarrow> pkt_seq from = pkt_end_seq to \<and> can_coalesce e to from"

definition tcp_nip_coalesce :: "tcp_skb \<Rightarrow> tcp_skb \<Rightarrow> tcp_skb" where
  "tcp_nip_coalesce to from = to\<lparr>pkt_data := pkt_data to @ pkt_data from, pkt_end_seq := pkt_end_seq from,
     pkt_ack_seq := pkt_ack_seq from, pkt_flags := or (pkt_flags to) (pkt_flags from)\<rparr>"

definition append_skb :: "tcp_env \<Rightarrow> tcp_skb \<Rightarrow> tcp_skb list \<Rightarrow> tcp_skb list" where
  "append_skb e skb q =
    (if q \<noteq> [] \<and> coalesces e (last q) skb then butlast q @ [tcp_nip_coalesce (last q) skb] else q @ [skb])"

section \<open>From the out-of-order queue to the receive queue\<close>

fun ofo_queue_loop :: "tcp_env \<Rightarrow> tcp_skb list \<Rightarrow> tcp_nip_sock \<Rightarrow> tcp_nip_sock" where
  "ofo_queue_loop e [] sk = sk\<lparr>ofo_queue := []\<rparr>"
| "ofo_queue_loop e (skb # skbs) sk =
    (if after (pkt_seq skb) (rcv_nxt sk) then sk\<lparr>ofo_queue := skb # skbs\<rparr>
     else if \<not> after (pkt_end_seq skb) (rcv_nxt sk) then ofo_queue_loop e skbs sk
     else
       let sk = sk\<lparr>rcv_queue := append_skb e skb (rcv_queue sk), rcv_nxt := pkt_end_seq skb\<rparr> in
       if flag (pkt_flags skb) TCPHDR_FIN then tcp_nip_fin e (sk\<lparr>ofo_queue := skbs\<rparr>)
       else ofo_queue_loop e skbs sk)"

definition tcp_nip_ofo_queue :: "tcp_env \<Rightarrow> tcp_nip_sock \<Rightarrow> tcp_nip_sock" where
  "tcp_nip_ofo_queue e sk = ofo_queue_loop e (ofo_queue sk) sk"

section \<open>The place of an out-of-order packet\<close>

text \<open>The descent of the code through the tree: it ends at a packet that contains seq or that the new
  packet can be appended to, or at a free place; the answer is the packets before it, the packet,
  and the packets after it.\<close>

fun ofo_descend :: "tcp_env \<Rightarrow> tcp_skb \<Rightarrow> tcp_skb tree \<Rightarrow> tcp_skb list \<times> tcp_skb option \<times> tcp_skb list" where
  "ofo_descend e skb \<langle>\<rangle> = ([], None, [])"
| "ofo_descend e skb \<langle>l, skb1, r\<rangle> =
    (if before (pkt_seq skb) (pkt_seq skb1)
     then let (a, m, b) = ofo_descend e skb l in (a, m, b @ skb1 # inorder r)
     else if before (pkt_seq skb) (pkt_end_seq skb1) \<or> coalesces e skb1 skb then (inorder l, Some skb1, inorder r)
     else let (a, m, b) = ofo_descend e skb r in (inorder l @ skb1 # a, m, b))"

text \<open>merge_right: the new packet and the packets after it, those it covers removed.\<close>

fun merge_right :: "tcp_skb \<Rightarrow> tcp_skb list \<Rightarrow> tcp_skb list" where
  "merge_right skb [] = [skb]"
| "merge_right skb (skb1 # skbs) =
    (if \<not> after (pkt_end_seq skb) (pkt_seq skb1) then skb # skb1 # skbs
     else if before (pkt_end_seq skb) (pkt_end_seq skb1) then tcp_nip_right_overlap skb skb1 # skb1 # skbs
     else merge_right skb skbs)"

text \<open>A packet that continues skb1 beyond its end: it is merged into skb1 or dropped. The code takes the
  packet after skb1 without a test; skb1 is never the last one (ofo_next_exists).\<close>

definition ofo_continue :: "tcp_env \<Rightarrow> tcp_skb list \<Rightarrow> tcp_skb \<Rightarrow> tcp_skb list \<Rightarrow> tcp_skb \<Rightarrow> tcp_skb list" where
  "ofo_continue e a skb1 b skb =
    (let cur = tcp_nip_left_overlap skb skb1;
         cur = (if b \<noteq> [] \<and> before (pkt_seq (hd b)) (pkt_end_seq cur) then tcp_nip_right_overlap cur (hd b) else cur)
     in if coalesces e skb1 cur then a @ tcp_nip_coalesce skb1 cur # b else a @ skb1 # b)"

definition ofo_place :: "tcp_env \<Rightarrow> tcp_skb \<Rightarrow> tcp_skb list \<Rightarrow> tcp_skb list" where
  "ofo_place e skb q =
    (case ofo_descend e skb (rb_shape e q) of
       (a, None, b) \<Rightarrow> a @ merge_right skb b
     | (a, Some skb1, b) \<Rightarrow>
         if before (pkt_seq skb) (pkt_end_seq skb1) then
           (if \<not> after (pkt_end_seq skb) (pkt_end_seq skb1) then q
            else if after (pkt_seq skb) (pkt_seq skb1) then ofo_continue e a skb1 b skb
            else a @ merge_right skb b)
         else a @ tcp_nip_coalesce skb1 skb # b)"

definition ofo_insert :: "tcp_env \<Rightarrow> tcp_skb \<Rightarrow> tcp_skb list \<Rightarrow> tcp_skb list" where
  "ofo_insert e skb q =
    (if q = [] then [skb]
     else
       let lst = last q in
       if coalesces e lst skb then butlast q @ [tcp_nip_coalesce lst skb]
       else if \<not> before (pkt_seq skb) (pkt_end_seq lst) then q @ [skb]
       else if \<not> before (pkt_seq skb) (pkt_seq lst) then
         (if \<not> after (pkt_end_seq skb) (pkt_end_seq lst) then q
          else let cur = tcp_nip_left_overlap skb lst in
            if coalesces e lst cur then butlast q @ [tcp_nip_coalesce lst cur] else q)
       else ofo_place e skb q)"

definition tcp_nip_data_queue_ofo :: "tcp_env \<Rightarrow> tcp_skb \<Rightarrow> tcp_nip_sock \<Rightarrow> tcp_nip_sock" where
  "tcp_nip_data_queue_ofo e skb sk =
    (if rmem_full e then sk else (inet_csk_schedule_ack sk)\<lparr>ofo_queue := ofo_insert e skb (ofo_queue sk)\<rparr>)"

section \<open>A segment with data\<close>

definition PKT_DISCARD_MAX :: u32 where "PKT_DISCARD_MAX = 500"

definition discard_count :: "tcp_env \<Rightarrow> tcp_skb \<Rightarrow> tcp_nip_sock \<Rightarrow> u32" where
  "discard_count e skb sk =
    (let n = (pkt_seq skb - rcv_nxt sk) div cur_mss e in if n > PKT_DISCARD_MAX then 0 else n)"

text \<open>The next packet of the stream: it goes to the receive queue, then what waited for it.\<close>

definition queue_in_order :: "tcp_env \<Rightarrow> tcp_skb \<Rightarrow> tcp_nip_sock \<Rightarrow> tcp_nip_sock" where
  "queue_in_order e skb sk =
    (let skb = (if pkt_seq skb \<noteq> rcv_nxt sk then tcp_nip_overlap_handle (rcv_nxt sk) skb else skb);
         sk = inet_csk_schedule_ack (sk\<lparr>rcv_queue := rcv_queue sk @ [skb], rcv_nxt := pkt_end_seq skb\<rparr>);
         sk = (if flag (pkt_flags skb) TCPHDR_FIN then tcp_nip_fin e sk else sk)
     in if ofo_queue sk \<noteq> [] then tcp_nip_ofo_queue e sk else sk)"

definition tcp_nip_data_queue :: "tcp_env \<Rightarrow> tcp_skb \<Rightarrow> tcp_nip_sock \<Rightarrow> tcp_nip_sock" where
  "tcp_nip_data_queue e skb sk =
    (let cur_win = tcp_receive_window sk; seq_max = rcv_nxt sk + cur_win; sk = sk\<lparr>snd_up := discard_count e skb sk\<rparr> in
     if pkt_seq skb = pkt_end_seq skb then sk
     else if pkt_seq skb = rcv_nxt sk \<and> cur_win = 0 then inet_csk_schedule_ack sk
     else if \<not> before (pkt_seq skb) seq_max then inet_csk_schedule_ack sk
     else if \<not> after (pkt_end_seq skb) (rcv_nxt sk) then inet_csk_schedule_ack sk
     else if cur_win = 0 \<or> after (pkt_end_seq skb) seq_max then inet_csk_schedule_ack sk
     else if pkt_seq skb = rcv_nxt sk \<or> (before (pkt_seq skb) (rcv_nxt sk) \<and> after (pkt_end_seq skb) (rcv_nxt sk))
       then queue_in_order e skb sk
     else tcp_nip_data_queue_ofo e skb sk)"

section \<open>Packets of one stream\<close>

text \<open>S is the stream of the peer, b the sequence number of its first byte. placed: the packet
  carries the bytes of the stream from offset k on.\<close>

definition placed :: "(nat \<Rightarrow> u8) \<Rightarrow> u32 \<Rightarrow> nat \<Rightarrow> tcp_skb \<Rightarrow> bool" where
  "placed S b k p \<longleftrightarrow> pkt_seq p = b + of_nat k \<and> pkt_end_seq p = b + of_nat (k + length (pkt_data p)) \<and>
     pkt_data p = map S [k ..< k + length (pkt_data p)] \<and> \<not> flag (pkt_flags p) TCPHDR_FIN \<and> \<not> flag (pkt_flags p) TCPHDR_SYN"

text \<open>The out-of-order queue: disjoint packets in the order of the stream, between two offsets.\<close>

fun ofo_ok :: "(nat \<Rightarrow> u8) \<Rightarrow> u32 \<Rightarrow> nat \<Rightarrow> nat \<Rightarrow> tcp_skb list \<Rightarrow> bool" where
  "ofo_ok S b lo hi [] \<longleftrightarrow> True"
| "ofo_ok S b lo hi (p # ps) \<longleftrightarrow> (\<exists>k \<ge> lo. placed S b k p \<and> pkt_data p \<noteq> [] \<and> k + length (pkt_data p) \<le> hi \<and>
     ofo_ok S b (k + length (pkt_data p)) hi ps)"

text \<open>The receive queue: each packet starts no later than the one before it ends, and ends after it.\<close>

fun rq_ok :: "(nat \<Rightarrow> u8) \<Rightarrow> u32 \<Rightarrow> nat \<Rightarrow> nat \<Rightarrow> tcp_skb list \<Rightarrow> bool" where
  "rq_ok S b c n [] \<longleftrightarrow> c = n"
| "rq_ok S b c n (p # ps) \<longleftrightarrow> (\<exists>k \<le> c. placed S b k p \<and> c < k + length (pkt_data p) \<and> c < k + 2 ^ 31 \<and>
     rq_ok S b (k + length (pkt_data p)) n ps)"

lemma before_of_nat:
  assumes "x < y + 2 ^ 31" "y < x + 2 ^ 31"
  shows "before (b + of_nat x) (b + of_nat y) \<longleftrightarrow> x < y"
proof -
  have eq: "(b + of_nat x) - (b + of_nat y) = word_of_int (int x - int y)" by simp
  have "sint (word_of_int (int x - int y) :: u32) = signed_take_bit (LENGTH(32) - 1) (int x - int y)"
    by (rule sint_sbintrunc')
  also have "\<dots> = int x - int y"
    by (rule signed_take_bit_int_eq_self) (use assms in simp_all)
  finally show ?thesis unfolding before_def eq by simp
qed

lemma of_nat_unat_eq: "unat w = d \<Longrightarrow> w = of_nat d" for w :: "'a :: len word"
  by auto

lemma unat_diff_of_nat:
  assumes "x \<le> y" "y < x + 2 ^ 32"
  shows "unat ((b + of_nat y) - (b + of_nat x) :: u32) = y - x"
proof -
  have "(b + of_nat y) - (b + of_nat x) = (of_nat (y - x) :: u32)" using assms(1) by (simp add: of_nat_diff)
  then show ?thesis using assms by (simp only: unat_of_nat) (simp add: take_bit_nat_eq_self)
qed

lemma of_nat_eq_window:
  assumes "x < y + 2 ^ 31" "y < x + 2 ^ 31"
  shows "b + of_nat x = (b + of_nat y :: u32) \<longleftrightarrow> x = y"
proof
  assume "b + of_nat x = b + of_nat y"
  moreover have "\<not> before (b + of_nat x) (b + of_nat x)" by (simp add: before_def)
  ultimately have "\<not> x < y" "\<not> y < x"
    using before_of_nat [OF assms, of b] before_of_nat [OF assms(2,1), of b] by metis+
  then show "x = y" by simp
qed simp

lemma flag_or [simp]: "flag (or a b) f \<longleftrightarrow> flag a f \<or> flag b f"
  by (auto simp: flag_def bit_eq_iff bit_simps)

lemma placed_coalesce:
  assumes "placed S b k to" "placed S b (k + length (pkt_data to)) from"
  shows "placed S b k (tcp_nip_coalesce to from)" "length (pkt_data (tcp_nip_coalesce to from)) = length (pkt_data to) + length (pkt_data from)"
proof -
  show l: "length (pkt_data (tcp_nip_coalesce to from)) = length (pkt_data to) + length (pkt_data from)"
    by (simp add: tcp_nip_coalesce_def)
  have "map S [k..<k + length (pkt_data to) + length (pkt_data from)] =
      map S [k..<k + length (pkt_data to)] @ map S [k + length (pkt_data to)..<k + length (pkt_data to) + length (pkt_data from)]"
    by (metis map_append upt_add_eq_append le_add1)
  moreover have "pkt_data (tcp_nip_coalesce to from) = pkt_data to @ pkt_data from" by (simp add: tcp_nip_coalesce_def)
  ultimately have "pkt_data (tcp_nip_coalesce to from) = map S [k..<k + length (pkt_data (tcp_nip_coalesce to from))]"
    using assms unfolding l placed_def by (metis add.assoc)
  then show "placed S b k (tcp_nip_coalesce to from)"
    using assms unfolding placed_def by (simp add: tcp_nip_coalesce_def add.assoc)
qed

lemma placed_drop:
  assumes "placed S b k p" "d \<le> length (pkt_data p)"
  shows "placed S b (k + d) (p\<lparr>pkt_data := drop d (pkt_data p), pkt_seq := pkt_seq p + of_nat d\<rparr>)"
proof -
  have "drop d (pkt_data p) = map S [k + d..<k + length (pkt_data p)]"
    using assms by (metis drop_map drop_upt placed_def)
  then show ?thesis using assms by (simp add: placed_def)
qed

lemma placed_left_overlap:
  assumes "placed S b k cur" "placed S b k1 skb" "k \<le> k1 + length (pkt_data skb)"
    "k1 + length (pkt_data skb) \<le> k + length (pkt_data cur)" "length (pkt_data cur) < 2 ^ 31"
  shows "placed S b (k1 + length (pkt_data skb)) (tcp_nip_left_overlap cur skb)"
    "length (pkt_data (tcp_nip_left_overlap cur skb)) = k + length (pkt_data cur) - (k1 + length (pkt_data skb))"
proof -
  define d where "d = k1 + length (pkt_data skb) - k"
  have "pkt_end_seq skb - pkt_seq cur = b + of_nat (k1 + length (pkt_data skb)) - (b + of_nat k)"
    using assms(1,2) by (simp add: placed_def)
  then have u: "unat (pkt_end_seq skb - pkt_seq cur) = d"
    using unat_diff_of_nat [OF assms(3), of b] assms by (simp add: d_def)
  then have w: "pkt_end_seq skb - pkt_seq cur = of_nat d" by (rule of_nat_unat_eq)
  have eq: "tcp_nip_left_overlap cur skb = cur\<lparr>pkt_data := drop d (pkt_data cur), pkt_seq := pkt_seq cur + of_nat d\<rparr>"
    unfolding tcp_nip_left_overlap_def Let_def u by (simp only: w)
  have d: "d \<le> length (pkt_data cur)" "k + d = k1 + length (pkt_data skb)" using assms by (auto simp: d_def)
  show "placed S b (k1 + length (pkt_data skb)) (tcp_nip_left_overlap cur skb)"
    using placed_drop [OF assms(1) d(1)] d(2) eq by simp
  show "length (pkt_data (tcp_nip_left_overlap cur skb)) = k + length (pkt_data cur) - (k1 + length (pkt_data skb))"
    using d by (simp add: eq)
qed

lemma placed_overlap_handle:
  assumes "placed S b k skb" "k \<le> n" "n \<le> k + length (pkt_data skb)" "length (pkt_data skb) < 2 ^ 31"
  shows "placed S b n (tcp_nip_overlap_handle (b + of_nat n) skb)"
    "length (pkt_data (tcp_nip_overlap_handle (b + of_nat n) skb)) = k + length (pkt_data skb) - n"
proof -
  have "b + of_nat n - pkt_seq skb = b + of_nat n - (b + of_nat k)" using assms(1) by (simp add: placed_def)
  then have u: "unat (b + of_nat n - pkt_seq skb) = n - k"
    using unat_diff_of_nat [OF assms(2), of b] assms by (simp only:) simp
  then have w: "b + of_nat n - pkt_seq skb = of_nat (n - k)" by (rule of_nat_unat_eq)
  have eq: "tcp_nip_overlap_handle (b + of_nat n) skb =
      skb\<lparr>pkt_data := drop (n - k) (pkt_data skb), pkt_seq := pkt_seq skb + of_nat (n - k)\<rparr>"
    unfolding tcp_nip_overlap_handle_def Let_def u by (simp only: w)
  have d: "n - k \<le> length (pkt_data skb)" "k + (n - k) = n" using assms by auto
  show "placed S b n (tcp_nip_overlap_handle (b + of_nat n) skb)"
    using placed_drop [OF assms(1) d(1)] d(2) eq by simp
  show "length (pkt_data (tcp_nip_overlap_handle (b + of_nat n) skb)) = k + length (pkt_data skb) - n"
    using d by (simp add: eq)
qed

lemma placed_right_overlap:
  assumes "placed S b k cur" "placed S b k2 skb" "k \<le> k2" "k2 \<le> k + length (pkt_data cur)" "length (pkt_data cur) < 2 ^ 31"
  shows "placed S b k (tcp_nip_right_overlap cur skb)" "length (pkt_data (tcp_nip_right_overlap cur skb)) = k2 - k"
proof -
  define d where "d = k + length (pkt_data cur) - k2"
  have "pkt_end_seq cur - pkt_seq skb = b + of_nat (k + length (pkt_data cur)) - (b + of_nat k2)"
    using assms(1,2) by (simp add: placed_def)
  then have u: "unat (pkt_end_seq cur - pkt_seq skb) = d"
    using unat_diff_of_nat [OF assms(4), of b] assms by (simp add: d_def)
  then have w: "pkt_end_seq cur - pkt_seq skb = of_nat d" by (rule of_nat_unat_eq)
  have d: "d \<le> length (pkt_data cur)" "length (pkt_data cur) - d = k2 - k" "k + (k2 - k) = k2" using assms by (auto simp: d_def)
  have "of_nat (length (pkt_data cur)) - of_nat d = (of_nat (k2 - k) :: u32)" using d by (metis of_nat_diff)
  then have l: "unat (of_nat (length (pkt_data cur)) - of_nat d :: u32) = k2 - k"
    using assms d by (simp only: unat_of_nat) (simp add: take_bit_nat_eq_self)
  have e: "pkt_end_seq cur - of_nat d = b + of_nat k2"
  proof -
    have "k2 + d = k + length (pkt_data cur)" using assms(4) by (simp add: d_def)
    then have "pkt_end_seq cur = b + of_nat (k2 + d)" using assms(1) by (simp only: placed_def)
    then show ?thesis by simp
  qed
  have eq: "tcp_nip_right_overlap cur skb = cur\<lparr>pkt_data := take (k2 - k) (pkt_data cur), pkt_end_seq := b + of_nat k2\<rparr>"
    unfolding tcp_nip_right_overlap_def Let_def w l by (simp only: e)
  have t: "take (k2 - k) (pkt_data cur) = map S [k..<k2]"
    using assms(1) d by (metis assms(3,4) placed_def take_map take_upt)
  show "length (pkt_data (tcp_nip_right_overlap cur skb)) = k2 - k" using t by (simp add: eq)
  show "placed S b k (tcp_nip_right_overlap cur skb)" using assms(1,3) t by (simp add: eq placed_def)
qed

section \<open>The queues stay in order\<close>

lemma ofo_ok_Cons:
  "placed S b k p \<Longrightarrow> pkt_data p \<noteq> [] \<Longrightarrow> lo \<le> k \<Longrightarrow> k + length (pkt_data p) \<le> hi \<Longrightarrow>
     ofo_ok S b (k + length (pkt_data p)) hi ps \<Longrightarrow> ofo_ok S b lo hi (p # ps)"
  by auto

lemma ofo_ok_mono: "ofo_ok S b lo hi q \<Longrightarrow> lo' \<le> lo \<Longrightarrow> ofo_ok S b lo' hi q"
  by (cases q; simp; meson order_trans)

lemma ofo_ok_above: "ofo_ok S b lo hi q \<Longrightarrow> hi \<le> hi' \<Longrightarrow> ofo_ok S b lo hi' q"
  by (induction q arbitrary: lo) (simp, fastforce)

lemma ofo_ok_append:
  "lo \<le> hi \<Longrightarrow> ofo_ok S b lo hi (p @ q) \<longleftrightarrow> (\<exists>m \<ge> lo. m \<le> hi \<and> ofo_ok S b lo m p \<and> ofo_ok S b m hi q)"
proof (induction p arbitrary: lo)
  case Nil
  then show ?case by (auto intro: ofo_ok_mono)
next
  case (Cons x p)
  show ?case
  proof
    assume "ofo_ok S b lo hi ((x # p) @ q)"
    then obtain k where k: "lo \<le> k" "placed S b k x" "pkt_data x \<noteq> []" "k + length (pkt_data x) \<le> hi"
      and r: "ofo_ok S b (k + length (pkt_data x)) hi (p @ q)" by auto
    obtain m where "k + length (pkt_data x) \<le> m" "m \<le> hi" "ofo_ok S b (k + length (pkt_data x)) m p" "ofo_ok S b m hi q"
      using Cons.IH [OF k(4)] r by blast
    then show "\<exists>m \<ge> lo. m \<le> hi \<and> ofo_ok S b lo m (x # p) \<and> ofo_ok S b m hi q" using k by (intro exI [of _ m]) auto
  next
    assume "\<exists>m \<ge> lo. m \<le> hi \<and> ofo_ok S b lo m (x # p) \<and> ofo_ok S b m hi q"
    then obtain m k where m: "m \<le> hi" "ofo_ok S b m hi q" and k: "lo \<le> k" "placed S b k x" "pkt_data x \<noteq> []"
      "k + length (pkt_data x) \<le> m" "ofo_ok S b (k + length (pkt_data x)) m p" by auto
    have "ofo_ok S b (k + length (pkt_data x)) hi (p @ q)" using Cons.IH [of "k + length (pkt_data x)"] m k by auto
    then show "ofo_ok S b lo hi ((x # p) @ q)" using m k by auto
  qed
qed

lemma rq_ok_append: "rq_ok S b c n (p @ q) \<longleftrightarrow> (\<exists>m. rq_ok S b c m p \<and> rq_ok S b m n q)"
  by (induction p arbitrary: c) auto

lemma placed_before:
  assumes "placed S b k p" "placed S b j q" "k + length (pkt_data p) < j + length (pkt_data q) + 2 ^ 31" "k < j + 2 ^ 31"
    "j < k + 2 ^ 31" "k < j + length (pkt_data q) + 2 ^ 31" "j + length (pkt_data q) < k + 2 ^ 31"
    "k + length (pkt_data p) < j + 2 ^ 31" "j < k + length (pkt_data p) + 2 ^ 31"
    "j + length (pkt_data q) < k + length (pkt_data p) + 2 ^ 31"
  shows "before (pkt_seq p) (pkt_seq q) \<longleftrightarrow> k < j" "before (pkt_seq p) (pkt_end_seq q) \<longleftrightarrow> k < j + length (pkt_data q)"
    "before (pkt_end_seq q) (pkt_end_seq p) \<longleftrightarrow> j + length (pkt_data q) < k + length (pkt_data p)"
    "before (pkt_end_seq p) (pkt_end_seq q) \<longleftrightarrow> k + length (pkt_data p) < j + length (pkt_data q)"
    "before (pkt_seq q) (pkt_end_seq p) \<longleftrightarrow> j < k + length (pkt_data p)"
    "before (pkt_seq q) (pkt_seq p) \<longleftrightarrow> j < k"
    "pkt_seq p = pkt_end_seq q \<longleftrightarrow> k = j + length (pkt_data q)"
  using assms unfolding placed_def by (simp_all only: before_of_nat of_nat_eq_window)

text \<open>Within a window of 2 ^ 30 bytes the comparisons are those of the offsets.\<close>

lemma placed_cmp:
  assumes "placed S b k p" "placed S b j q" "lo \<le> k" "k + length (pkt_data p) \<le> hi" "lo \<le> j" "j + length (pkt_data q) \<le> hi"
    "hi \<le> lo + 2 ^ 30"
  shows "before (pkt_seq p) (pkt_seq q) \<longleftrightarrow> k < j" "before (pkt_seq p) (pkt_end_seq q) \<longleftrightarrow> k < j + length (pkt_data q)"
    "before (pkt_end_seq q) (pkt_end_seq p) \<longleftrightarrow> j + length (pkt_data q) < k + length (pkt_data p)"
    "before (pkt_end_seq p) (pkt_end_seq q) \<longleftrightarrow> k + length (pkt_data p) < j + length (pkt_data q)"
    "before (pkt_seq q) (pkt_end_seq p) \<longleftrightarrow> j < k + length (pkt_data p)"
    "before (pkt_seq q) (pkt_seq p) \<longleftrightarrow> j < k"
    "pkt_seq p = pkt_end_seq q \<longleftrightarrow> k = j + length (pkt_data q)"
  by (rule placed_before [OF assms(1,2)]; use assms(3-7) in simp)+

text \<open>The search, on the list of the packets.\<close>

fun ofo_search :: "tcp_env \<Rightarrow> tcp_skb \<Rightarrow> tcp_skb list \<Rightarrow> tcp_skb list \<times> tcp_skb option \<times> tcp_skb list" where
  "ofo_search e skb [] = ([], None, [])"
| "ofo_search e skb (skb1 # skbs) =
    (if before (pkt_seq skb) (pkt_seq skb1) then ([], None, skb1 # skbs)
     else if before (pkt_seq skb) (pkt_end_seq skb1) \<or> coalesces e skb1 skb then ([], Some skb1, skbs)
     else let (a, m, b) = ofo_search e skb skbs in (skb1 # a, m, b))"

lemma ofo_search_append: "ofo_search e skb q = (a, m, b) \<Longrightarrow> q = a @ (case m of None \<Rightarrow> b | Some p \<Rightarrow> p # b)"
  by (induction q arbitrary: a m b) (auto simp: Let_def split: if_splits prod.splits)

text \<open>What the search finds: the packet before the new one, if it reaches it.\<close>

lemma ofo_search_None:
  assumes "ofo_search e skb q = (a, None, r)" "ofo_ok S b lo hi q" "placed S b k skb" "L \<le> lo" "lo \<le> k" "k + length (pkt_data skb) \<le> hi"
    "hi \<le> L + 2 ^ 30"
  shows "\<exists>m \<ge> lo. m \<le> k \<and> ofo_ok S b lo m a \<and> ofo_ok S b (Suc k) hi r"
  using assms(1,2,4,5)
proof (induction q arbitrary: lo a r)
  case Nil
  then show ?case by auto
next
  case (Cons x q)
  obtain j where j: "lo \<le> j" "placed S b j x" "pkt_data x \<noteq> []" "j + length (pkt_data x) \<le> hi"
    and q: "ofo_ok S b (j + length (pkt_data x)) hi q" using Cons.prems(2) by auto
  note cmp = placed_cmp [OF assms(3) j(2) _ assms(6) _ j(4) assms(7)]
  show ?case
  proof (cases "k < j")
    case True
    then have "a = []" "r = x # q" using Cons.prems cmp(1) j(1) by (auto split: if_splits)
    moreover have "ofo_ok S b (Suc k) hi (x # q)" using True j q by (intro ofo_ok_Cons [OF j(2,3)]) auto
    ultimately show ?thesis using Cons.prems by (intro exI [of _ lo]) simp
  next
    case False
    then have n: "\<not> before (pkt_seq skb) (pkt_seq x)" using Cons.prems cmp(1) j(1) by auto
    obtain a' where a: "a = x # a'" "ofo_search e skb q = (a', None, r)" and e: "\<not> before (pkt_seq skb) (pkt_end_seq x)"
      using Cons.prems(1) n by (auto split: if_splits prod.splits)
    have "j + length (pkt_data x) \<le> k" using e cmp(2) Cons.prems j(1) by auto
    then obtain m where "j + length (pkt_data x) \<le> m" "m \<le> k" "ofo_ok S b (j + length (pkt_data x)) m a'" "ofo_ok S b (Suc k) hi r"
      using Cons.IH [OF a(2) q] Cons.prems j by auto
    then show ?thesis using a(1) j by (intro exI [of _ m]) auto
  qed
qed

lemma ofo_search_Some:
  assumes "ofo_search e skb q = (a, Some p, r)" "ofo_ok S b lo hi q" "placed S b k skb" "L \<le> lo" "lo \<le> k" "k + length (pkt_data skb) \<le> hi"
    "hi \<le> L + 2 ^ 30"
  shows "\<exists>m \<ge> lo. \<exists>j \<ge> m. j \<le> k \<and> k \<le> j + length (pkt_data p) \<and> placed S b j p \<and> pkt_data p \<noteq> [] \<and> j + length (pkt_data p) \<le> hi \<and>
    ofo_ok S b lo m a \<and> ofo_ok S b (j + length (pkt_data p)) hi r"
  using assms(1,2,4,5)
proof (induction q arbitrary: lo a r)
  case Nil
  then show ?case by auto
next
  case (Cons x q)
  obtain j where j: "lo \<le> j" "placed S b j x" "pkt_data x \<noteq> []" "j + length (pkt_data x) \<le> hi"
    and q: "ofo_ok S b (j + length (pkt_data x)) hi q" using Cons.prems(2) by auto
  note cmp = placed_cmp [OF assms(3) j(2) _ assms(6) _ j(4) assms(7)]
  have n: "\<not> before (pkt_seq skb) (pkt_seq x)" using Cons.prems(1) by auto
  then have kj: "j \<le> k" using cmp(1) Cons.prems j(1) by auto
  show ?case
  proof (cases "before (pkt_seq skb) (pkt_end_seq x) \<or> coalesces e x skb")
    case True
    then have eq: "a = []" "r = q" "p = x" using Cons.prems(1) n by (auto split: if_splits)
    have "k \<le> j + length (pkt_data x)" using True cmp(2,7) Cons.prems j(1) by (auto simp: coalesces_def)
    then show ?thesis using eq j q kj by (intro exI [of _ lo] conjI exI [of _ j]) auto
  next
    case False
    then obtain a' where a: "a = x # a'" "ofo_search e skb q = (a', Some p, r)"
      using Cons.prems(1) n by (auto split: if_splits prod.splits)
    have "j + length (pkt_data x) \<le> k" using False cmp(2) Cons.prems j(1) by auto
    then obtain m i where "j + length (pkt_data x) \<le> m" "m \<le> i" "i \<le> k" "k \<le> i + length (pkt_data p)" "placed S b i p" "pkt_data p \<noteq> []"
      "i + length (pkt_data p) \<le> hi" "ofo_ok S b (j + length (pkt_data x)) m a'" "ofo_ok S b (i + length (pkt_data p)) hi r"
      using Cons.IH [OF a(2) q] Cons.prems j by auto
    then show ?thesis using a(1) j by (intro exI [of _ m] conjI exI [of _ i]) auto
  qed
qed

lemma merge_right_ok:
  assumes "placed S b k skb" "pkt_data skb \<noteq> []" "k + length (pkt_data skb) \<le> hi" "ofo_ok S b lo hi r" "k < lo" "L \<le> k" "hi \<le> L + 2 ^ 30"
  shows "ofo_ok S b k hi (merge_right skb r)"
  using assms(4,5)
proof (induction r arbitrary: lo)
  case Nil
  then show ?case using assms by auto
next
  case (Cons x r)
  obtain j where j: "lo \<le> j" "placed S b j x" "pkt_data x \<noteq> []" "j + length (pkt_data x) \<le> hi"
    and r: "ofo_ok S b (j + length (pkt_data x)) hi r" using Cons.prems by auto
  have kj: "L \<le> j" "k < j" using j(1) Cons.prems assms(6) by auto
  note cmp = placed_cmp [OF assms(1) j(2) assms(6) assms(3) kj(1) j(4) assms(7)]
  consider "k + length (pkt_data skb) \<le> j"
    | "j < k + length (pkt_data skb)" "k + length (pkt_data skb) < j + length (pkt_data x)"
    | "j < k + length (pkt_data skb)" "j + length (pkt_data x) \<le> k + length (pkt_data skb)" by linarith
  then show ?case
  proof cases
    case 1
    have "ofo_ok S b (k + length (pkt_data skb)) hi (x # r)"
      using 1 j r by (intro ofo_ok_Cons [OF j(2,3)]) auto
    then have "ofo_ok S b k hi (skb # x # r)" using assms by (intro ofo_ok_Cons [OF assms(1,2)]) auto
    then show ?thesis using 1 cmp(5) by simp
  next
    case 2
    have o: "placed S b k (tcp_nip_right_overlap skb x)" "length (pkt_data (tcp_nip_right_overlap skb x)) = j - k"
      using placed_right_overlap [OF assms(1) j(2)] 2 kj assms by auto
    then have "pkt_data (tcp_nip_right_overlap skb x) \<noteq> []" using kj by auto
    moreover have "ofo_ok S b (k + length (pkt_data (tcp_nip_right_overlap skb x))) hi (x # r)"
      using j r o(2) kj by (intro ofo_ok_Cons [OF j(2,3)]) auto
    ultimately have "ofo_ok S b k hi (tcp_nip_right_overlap skb x # x # r)" using o kj j by (intro ofo_ok_Cons [OF o(1)]) auto
    then show ?thesis using 2 cmp(4,5) by simp
  next
    case 3
    then show ?thesis using cmp(4,5) Cons.IH [OF r] kj by auto
  qed
qed

lemma coalesce_ok:
  assumes "placed S b j p" "pkt_data p \<noteq> []" "lo \<le> j" "placed S b (j + length (pkt_data p)) cur"
    "j + length (pkt_data p) + length (pkt_data cur) \<le> hi" "ofo_ok S b (j + length (pkt_data p) + length (pkt_data cur)) hi r"
  shows "ofo_ok S b lo hi (tcp_nip_coalesce p cur # r)"
proof (rule ofo_ok_Cons [OF placed_coalesce(1) [OF assms(1,4)]])
  show "pkt_data (tcp_nip_coalesce p cur) \<noteq> []" using assms(2) by (simp add: tcp_nip_coalesce_def)
qed (use assms placed_coalesce(2) [OF assms(1,4)] in \<open>auto simp: add.assoc\<close>)

lemma ofo_continue_ok:
  assumes "ofo_ok S b lo m a" "lo \<le> m" "m \<le> j" "placed S b j p" "pkt_data p \<noteq> []" "ofo_ok S b (j + length (pkt_data p)) hi r"
    and "placed S b k skb" "j < k" "k \<le> j + length (pkt_data p)" "j + length (pkt_data p) < k + length (pkt_data skb)"
    and "k + length (pkt_data skb) \<le> hi" "hi \<le> lo + 2 ^ 30"
  shows "ofo_ok S b lo hi (ofo_continue e a p r skb)"
proof -
  define z where "z = j + length (pkt_data p)"
  define cur where "cur = tcp_nip_left_overlap skb p"
  have c: "placed S b z cur" "length (pkt_data cur) = k + length (pkt_data skb) - z"
    using placed_left_overlap [OF assms(7,4)] assms unfolding z_def cur_def by auto
  define cur' where "cur' = (if r \<noteq> [] \<and> before (pkt_seq (hd r)) (pkt_end_seq cur) then tcp_nip_right_overlap cur (hd r) else cur)"
  have "placed S b z cur' \<and> z + length (pkt_data cur') \<le> hi \<and> ofo_ok S b (z + length (pkt_data cur')) hi r"
  proof (cases r)
    case Nil
    then show ?thesis using c assms by (simp add: cur'_def z_def)
  next
    case (Cons x r')
    then obtain i where i: "z \<le> i" "placed S b i x" "pkt_data x \<noteq> []" "i + length (pkt_data x) \<le> hi"
      and r': "ofo_ok S b (i + length (pkt_data x)) hi r'" using assms(6) by (auto simp: z_def)
    have e: "before (pkt_seq x) (pkt_end_seq cur) \<longleftrightarrow> i < z + length (pkt_data cur)"
      using placed_cmp(5) [OF c(1) i(2), of lo hi] c(2) i assms by (simp add: z_def)
    show ?thesis
    proof (cases "i < z + length (pkt_data cur)")
      case True
      then have "placed S b z (tcp_nip_right_overlap cur x)" "length (pkt_data (tcp_nip_right_overlap cur x)) = i - z"
        using placed_right_overlap [OF c(1) i(2)] c(2) i assms by (auto simp: z_def)
      moreover have "ofo_ok S b i hi (x # r')" using i r' by (intro ofo_ok_Cons [OF i(2,3)]) auto
      ultimately show ?thesis using True e Cons i by (simp add: cur'_def)
    next
      case False
      have "ofo_ok S b (z + length (pkt_data cur)) hi (x # r')" using False i r' by (intro ofo_ok_Cons [OF i(2,3)]) auto
      then show ?thesis using False e Cons c assms by (simp add: cur'_def z_def)
    qed
  qed
  then have cur': "placed S b z cur'" "z + length (pkt_data cur') \<le> hi" "ofo_ok S b (z + length (pkt_data cur')) hi r" by blast+
  have z: "j \<le> z" "z \<le> hi" using assms by (auto simp: z_def)
  have "ofo_ok S b m hi (tcp_nip_coalesce p cur' # r)"
    using cur' assms by (intro coalesce_ok) (auto simp: z_def)
  moreover have "ofo_ok S b m hi (p # r)" using assms by (intro ofo_ok_Cons [OF assms(4,5)]) auto
  moreover have "ofo_continue e a p r skb = a @ (if coalesces e p cur' then tcp_nip_coalesce p cur' else p) # r"
    by (simp add: ofo_continue_def Let_def cur'_def cur_def)
  moreover have "lo \<le> hi" "m \<le> hi" using assms by auto
  ultimately show ?thesis using ofo_ok_append [of lo hi] assms(1,2) by (auto simp del: ofo_ok.simps)
qed

text \<open>A packet that can be merged behind a queued one overlaps none of the others. (The code does not
  remove the packets such a merge covers.)\<close>

definition merges_cleanly :: "tcp_env \<Rightarrow> tcp_skb \<Rightarrow> tcp_skb list \<Rightarrow> bool" where
  "merges_cleanly e skb q \<longleftrightarrow> (\<exists>p \<in> set q. coalesces e p skb) \<longrightarrow>
     (\<forall>x \<in> set q. \<not> before (pkt_seq x) (pkt_seq skb) \<longrightarrow> \<not> before (pkt_seq x) (pkt_end_seq skb))"

lemma descend_append: "ofo_descend e skb t = (a, m, b) \<Longrightarrow> inorder t = a @ (case m of None \<Rightarrow> b | Some p \<Rightarrow> p # b)"
  by (induction t arbitrary: a m b) (auto simp: Let_def split: if_splits prod.splits option.splits)

lemma search_touch: "ofo_search e skb q = (a, Some p, b) \<Longrightarrow> before (pkt_seq skb) (pkt_end_seq p) \<or> coalesces e p skb"
  by (induction q arbitrary: a b) (auto split: if_splits prod.splits)

lemma search_left:
  "before (pkt_seq skb) (pkt_seq x) \<Longrightarrow>
     ofo_search e skb (l @ x # r) = (case ofo_search e skb l of (a, m, b) \<Rightarrow> (a, m, b @ x # r))"
  by (induction l) (auto split: prod.splits)

lemma search_skip:
  "(\<And>y. y \<in> set l \<Longrightarrow> \<not> before (pkt_seq skb) (pkt_seq y) \<and> \<not> before (pkt_seq skb) (pkt_end_seq y) \<and> \<not> coalesces e y skb) \<Longrightarrow>
     ofo_search e skb (l @ r) = (case ofo_search e skb r of (a, m, b) \<Rightarrow> (l @ a, m, b))"
  by (induction l) (auto split: prod.splits)

lemma ofo_ok_mem: "ofo_ok S b lo hi q \<Longrightarrow> y \<in> set q \<Longrightarrow> \<exists>i \<ge> lo. placed S b i y \<and> i + length (pkt_data y) \<le> hi"
proof (induction q arbitrary: lo)
  case (Cons p q)
  then show ?case by (auto, meson add_leD1 order_trans)
qed simp

lemma descend_search:
  assumes "ofo_ok S b lo hi (inorder t)" "placed S b k skb" "pkt_data skb \<noteq> []" "L \<le> lo" "L \<le> k" "lo \<le> hi"
    "k + length (pkt_data skb) \<le> hi" "hi \<le> L + 2 ^ 30" "merges_cleanly e skb (inorder t)"
  shows "ofo_descend e skb t = ofo_search e skb (inorder t)"
  using assms(1,4,6,9)
proof (induction t arbitrary: lo)
  case (Node l x r)
  obtain m j where m: "lo \<le> m" "m \<le> j" "ofo_ok S b lo m (inorder l)" and j: "placed S b j x" "pkt_data x \<noteq> []"
    "j + length (pkt_data x) \<le> hi" and r: "ofo_ok S b (j + length (pkt_data x)) hi (inorder r)"
    using Node.prems(1) ofo_ok_append [OF Node.prems(3), of S b "inorder l" "x # inorder r"] by auto
  have c: "merges_cleanly e skb (inorder l)" "merges_cleanly e skb (inorder r)"
    using Node.prems(4) by (auto simp: merges_cleanly_def)
  have jl: "L \<le> j" using Node.prems m by simp
  note cmp = placed_cmp [OF assms(2) j(1) assms(5,7) jl j(3) assms(8)]
  have l: "\<not> before (pkt_seq skb) (pkt_seq y) \<and> \<not> before (pkt_seq skb) (pkt_end_seq y) \<and> \<not> coalesces e y skb"
    if y: "y \<in> set (inorder l)" and jk: "j \<le> k" for y
  proof -
    obtain i where i: "lo \<le> i" "placed S b i y" "i + length (pkt_data y) \<le> m" using ofo_ok_mem [OF m(3) y] by blast
    have "L \<le> i" "i + length (pkt_data y) \<le> hi" using i m j Node.prems by auto
    note cmpy = placed_cmp [OF assms(2) i(2) assms(5,7) this assms(8)]
    have "\<not> coalesces e y skb"
    proof
      assume co: "coalesces e y skb"
      then have "k = i + length (pkt_data y)" using cmpy(7) by (simp add: coalesces_def)
      then have "k = j" using i m jk by simp
      then have "\<not> before (pkt_seq x) (pkt_seq skb) \<and> before (pkt_seq x) (pkt_end_seq skb)" using cmp(5,6) assms(3) by simp
      then show False using Node.prems(4) y co by (auto simp: merges_cleanly_def)
    qed
    then show ?thesis using cmpy(1,2) i m jk by auto
  qed
  show ?case
  proof (cases "before (pkt_seq skb) (pkt_seq x)")
    case True
    have "ofo_ok S b lo hi (inorder l)" using ofo_ok_above [OF m(3)] m j by simp
    then have "ofo_descend e skb l = ofo_search e skb (inorder l)" using Node.IH(1) Node.prems c by blast
    then show ?thesis using True search_left [OF True] by (simp split: prod.split)
  next
    case False
    then have jk: "j \<le> k" using cmp(1) by simp
    have "ofo_search e skb (inorder l @ x # inorder r) = (case ofo_search e skb (x # inorder r) of (a, m, b) \<Rightarrow> (inorder l @ a, m, b))"
      by (rule search_skip) (use l jk in blast)
    moreover have "ofo_descend e skb r = ofo_search e skb (inorder r)"
      using Node.IH(2) [OF r _ j(3)] jl c by simp
    ultimately show ?thesis using False by (auto split: prod.split)
  qed
qed simp

lemma ofo_place_ok:
  assumes "ofo_ok S b lo hi q" "placed S b k skb" "pkt_data skb \<noteq> []" "lo \<le> k" "k + length (pkt_data skb) \<le> hi" "hi \<le> lo + 2 ^ 30"
    and "inorder (rb_shape e q) = q" "merges_cleanly e skb q"
  shows "ofo_ok S b lo hi (ofo_place e skb q)"
proof -
  obtain a m r where s: "ofo_search e skb q = (a, m, r)" using prod_cases3 by blast
  have lh: "lo \<le> hi" using assms by simp
  have d: "ofo_descend e skb (rb_shape e q) = (a, m, r)"
    using descend_search [of S b lo hi "rb_shape e q" k skb lo e] s assms lh by simp
  show ?thesis
  proof (cases m)
    case None
    then obtain i where "lo \<le> i" "i \<le> k" "ofo_ok S b lo i a" "ofo_ok S b (Suc k) hi r"
      using ofo_search_None [OF _ assms(1,2) order_refl assms(4-6), of e a r] s by auto
    moreover have "ofo_ok S b k hi (merge_right skb r)"
      using merge_right_ok [OF assms(2,3,5) \<open>ofo_ok S b (Suc k) hi r\<close> lessI assms(4,6)] .
    ultimately show ?thesis
      using d None lh ofo_ok_append [OF lh] ofo_ok_mono assms(4,5)
      by (simp add: ofo_place_def) (metis add_leD1 order_trans)
  next
    case (Some p)
    obtain i j where i: "lo \<le> i" "i \<le> j" "ofo_ok S b lo i a" and j: "j \<le> k" "k \<le> j + length (pkt_data p)" "placed S b j p"
      "pkt_data p \<noteq> []" "j + length (pkt_data p) \<le> hi" and r: "ofo_ok S b (j + length (pkt_data p)) hi r"
      using ofo_search_Some [OF _ assms(1,2) order_refl assms(4-6)] s Some by blast
    have lj: "lo \<le> j" using i by simp
    note cmp = placed_cmp [OF assms(2) j(3) assms(4,5) lj j(5) assms(6)]
    have app: "ofo_ok S b lo hi (a @ x)" if "ofo_ok S b j hi x" for x
    proof -
      have "ofo_ok S b i hi x" using ofo_ok_mono [OF that i(2)] .
      moreover have "i \<le> hi" using i j by simp
      ultimately show ?thesis using ofo_ok_append [OF lh] i by blast
    qed
    consider "k = j + length (pkt_data p)" | "k < j + length (pkt_data p)" "k + length (pkt_data skb) \<le> j + length (pkt_data p)"
      | "k < j + length (pkt_data p)" "j + length (pkt_data p) < k + length (pkt_data skb)" "j < k"
      | "k < j + length (pkt_data p)" "j + length (pkt_data p) < k + length (pkt_data skb)" "j = k"
      using j by linarith
    then show ?thesis
    proof cases
      case 1
      show ?thesis
      proof (cases "coalesces e p skb")
        case True
        have q: "q = a @ p # r" using ofo_search_append [OF s] Some by simp
        have "ofo_ok S b (j + length (pkt_data p) + length (pkt_data skb)) hi r"
        proof (cases r)
          case (Cons x r')
          then obtain i' where x: "j + length (pkt_data p) \<le> i'" "placed S b i' x" "i' + length (pkt_data x) \<le> hi" "pkt_data x \<noteq> []"
            "ofo_ok S b (i' + length (pkt_data x)) hi r'" using r by auto
          have "lo \<le> i'" using x 1 assms by simp
          note cmpx = placed_cmp [OF assms(2) x(2) assms(4,5) this x(3) assms(6)]
          have "\<not> before (pkt_seq x) (pkt_seq skb) \<longrightarrow> \<not> before (pkt_seq x) (pkt_end_seq skb)"
            using assms(8) True unfolding merges_cleanly_def q Cons by auto
          then have "k + length (pkt_data skb) \<le> i'" using cmpx(5,6) x 1 by auto
          then show ?thesis unfolding Cons using x 1 by (intro ofo_ok_Cons [OF x(2,4)]) auto
        qed simp
        then have "ofo_ok S b lo hi (a @ tcp_nip_coalesce p skb # r)" using 1 assms j by (intro app coalesce_ok) auto
        then show ?thesis using d Some 1 cmp(2) by (simp add: ofo_place_def)
      next
        case False
        then show ?thesis using s 1 cmp Some search_touch [OF s [unfolded Some]] by simp
      qed
    next
      case 2
      then show ?thesis using d Some cmp(2,3) assms(1) by (simp add: ofo_place_def)
    next
      case 3
      have "ofo_ok S b lo hi (ofo_continue e a p r skb)"
        using 3 i j r assms by (intro ofo_continue_ok [of S b lo i a j p hi r k skb e]) auto
      then show ?thesis using 3 d Some cmp by (simp add: ofo_place_def)
    next
      case 4
      have "ofo_ok S b k hi (merge_right skb r)"
        using merge_right_ok [OF assms(2,3,5) r _ assms(4,6)] 4 j by auto
      then show ?thesis using 4 d Some cmp app by (simp add: ofo_place_def)
    qed
  qed
qed

lemma ofo_insert_ok:
  assumes "ofo_ok S b lo hi q" "placed S b k skb" "pkt_data skb \<noteq> []" "lo \<le> k" "k + length (pkt_data skb) \<le> hi" "hi \<le> lo + 2 ^ 30"
    and "inorder (rb_shape e q) = q" "merges_cleanly e skb q"
  shows "ofo_ok S b lo hi (ofo_insert e skb q)"
proof (cases "q = []")
  case True
  then show ?thesis using assms by (auto simp: ofo_insert_def intro: ofo_ok_Cons)
next
  case False
  have lh: "lo \<le> hi" using assms by simp
  have q: "q = butlast q @ [last q]" using False by simp
  obtain m j where m: "lo \<le> m" "m \<le> j" "ofo_ok S b lo m (butlast q)" and j: "placed S b j (last q)" "pkt_data (last q) \<noteq> []"
    "j + length (pkt_data (last q)) \<le> hi"
    using assms(1) ofo_ok_append [OF lh, of S b "butlast q" "[last q]"] q by auto
  have lj: "lo \<le> j" using m by simp
  note cmp = placed_cmp [OF assms(2) j(1) assms(4,5) lj j(3) assms(6)]
  have app: "ofo_ok S b lo hi (butlast q @ x)" if "ofo_ok S b m hi x" for x
    using ofo_ok_append [OF lh] that m j(3) by (metis add_leD1 order_trans)
  consider "k = j + length (pkt_data (last q))" | "j + length (pkt_data (last q)) < k"
    | "j \<le> k" "k < j + length (pkt_data (last q))" "k + length (pkt_data skb) \<le> j + length (pkt_data (last q))"
    | "j \<le> k" "k < j + length (pkt_data (last q))" "j + length (pkt_data (last q)) < k + length (pkt_data skb)" | "k < j" by linarith
  then show ?thesis
  proof cases
    case 1
    have "ofo_ok S b m hi (last q # [skb])"
      using 1 assms m j by (intro ofo_ok_Cons [OF j(1,2)] ofo_ok_Cons [OF assms(2,3)]) auto
    then have "ofo_ok S b lo hi (butlast q @ [last q, skb])" by (rule app)
    moreover have "ofo_ok S b lo hi (butlast q @ [tcp_nip_coalesce (last q) skb])"
      using 1 assms m j by (intro app coalesce_ok [OF j(1,2)]) auto
    moreover have "butlast q @ [last q, skb] = q @ [skb]" using q by (metis append.assoc append_Cons append_Nil)
    ultimately show ?thesis using 1 cmp False by (simp add: ofo_insert_def Let_def)
  next
    case 2
    have "ofo_ok S b m hi (last q # [skb])"
      using 2 assms m j by (intro ofo_ok_Cons [OF j(1,2)] ofo_ok_Cons [OF assms(2,3)]) auto
    then have "ofo_ok S b lo hi (butlast q @ [last q, skb])" by (rule app)
    moreover have "butlast q @ [last q, skb] = q @ [skb]" using q by (metis append.assoc append_Cons append_Nil)
    moreover have "\<not> coalesces e (last q) skb" using 2 cmp(7) by (simp add: coalesces_def)
    ultimately show ?thesis using 2 cmp False by (simp add: ofo_insert_def Let_def)
  next
    case 3
    have "\<not> coalesces e (last q) skb" using 3 cmp(7) by (simp add: coalesces_def)
    then show ?thesis using 3 cmp False assms(1) by (simp add: ofo_insert_def Let_def)
  next
    case 4
    have "\<not> coalesces e (last q) skb" using 4 cmp(7) by (simp add: coalesces_def)
    moreover have c: "placed S b (j + length (pkt_data (last q))) (tcp_nip_left_overlap skb (last q))"
      "length (pkt_data (tcp_nip_left_overlap skb (last q))) = k + length (pkt_data skb) - (j + length (pkt_data (last q)))"
      using placed_left_overlap [OF assms(2) j(1)] 4 assms by auto
    moreover have "ofo_ok S b lo hi (butlast q @ [tcp_nip_coalesce (last q) (tcp_nip_left_overlap skb (last q))])"
      using 4 assms m j c by (intro app coalesce_ok [OF j(1,2)]) auto
    ultimately show ?thesis using 4 cmp False assms(1) by (simp add: ofo_insert_def Let_def)
  next
    case 5
    have "\<not> coalesces e (last q) skb" using 5 cmp(7) by (simp add: coalesces_def)
    then show ?thesis using 5 cmp False ofo_place_ok [OF assms] by (simp add: ofo_insert_def Let_def)
  qed
qed

lemma append_skb_ok:
  assumes "rq_ok S b c n q" "placed S b k skb" "k \<le> n" "n < k + length (pkt_data skb)" "n < k + 2 ^ 31"
    "pkt_end_seq (last q) = b + of_nat n \<or> q = []"
  shows "rq_ok S b c (k + length (pkt_data skb)) (append_skb e skb q)"
proof (cases "q \<noteq> [] \<and> coalesces e (last q) skb")
  case False
  have "rq_ok S b n (k + length (pkt_data skb)) [skb]" using assms by (auto intro!: exI [of _ k])
  then have "rq_ok S b c (k + length (pkt_data skb)) (q @ [skb])" using assms(1) rq_ok_append by blast
  then show ?thesis using False by (auto simp: append_skb_def)
next
  case True
  have q: "q = butlast q @ [last q]" using True by simp
  obtain m j where m: "rq_ok S b c m (butlast q)" and j: "j \<le> m" "placed S b j (last q)" "m < j + length (pkt_data (last q))"
    "m < j + 2 ^ 31" "j + length (pkt_data (last q)) = n"
    using assms(1) rq_ok_append [of S b c n "butlast q" "[last q]"] q by auto
  have "b + of_nat k = b + of_nat n"
    using True assms(2,6) by (simp add: coalesces_def placed_def)
  then have "k = n" using of_nat_eq_window [of k n b] assms by simp
  then have p: "placed S b (j + length (pkt_data (last q))) skb" using assms(2) j by simp
  have "rq_ok S b m (k + length (pkt_data skb)) [tcp_nip_coalesce (last q) skb]"
    using j \<open>k = n\<close> placed_coalesce [OF j(2) p] by (auto intro!: exI [of _ j])
  then have "rq_ok S b c (k + length (pkt_data skb)) (butlast q @ [tcp_nip_coalesce (last q) skb])"
    using m rq_ok_append by blast
  then show ?thesis using True by (simp add: append_skb_def)
qed

lemma rq_ok_last: "rq_ok S b c n q \<Longrightarrow> pkt_end_seq (last q) = b + of_nat n \<or> q = []"
  by (induction q arbitrary: c) (auto simp: placed_def)

text \<open>Moving packets to the receive queue changes nothing else.\<close>

definition rq_frame :: "tcp_nip_sock \<Rightarrow> tcp_nip_sock" where
  "rq_frame sk = sk\<lparr>rcv_queue := [], rcv_nxt := 0, ofo_queue := []\<rparr>"

lemma rq_frameD:
  assumes "rq_frame a = rq_frame b"
  shows "copied_seq a = copied_seq b" "rcv_wup a = rcv_wup b" "rcv_wnd a = rcv_wnd b" "sk_state a = sk_state b"
  using arg_cong [OF assms, of copied_seq] arg_cong [OF assms, of rcv_wup] arg_cong [OF assms, of rcv_wnd]
    arg_cong [OF assms, of sk_state]
  by (simp_all add: rq_frame_def)

lemma ofo_queue_loop_ok:
  assumes "rq_ok S b c n (rcv_queue sk)" "rcv_nxt sk = b + of_nat n" "ofo_ok S b lo hi q" "n \<le> lo + 2 ^ 30" "hi \<le> n + 2 ^ 30" "n \<le> hi"
  shows "\<exists>n' \<ge> n. n' \<le> hi \<and> rq_ok S b c n' (rcv_queue (ofo_queue_loop e q sk)) \<and> rcv_nxt (ofo_queue_loop e q sk) = b + of_nat n' \<and>
    ofo_ok S b (Suc n') hi (ofo_queue (ofo_queue_loop e q sk)) \<and> rq_frame (ofo_queue_loop e q sk) = rq_frame sk"
  using assms
proof (induction q arbitrary: sk n lo)
  case Nil
  then show ?case by (auto simp: rq_frame_def)
next
  case (Cons skb q)
  obtain k where k: "lo \<le> k" "placed S b k skb" "pkt_data skb \<noteq> []" "k + length (pkt_data skb) \<le> hi"
    and q: "ofo_ok S b (k + length (pkt_data skb)) hi q" using Cons.prems by auto
  have a: "after (pkt_seq skb) (rcv_nxt sk) \<longleftrightarrow> n < k"
    using Cons.prems k before_of_nat [of n k b] by (simp add: placed_def)
  have f: "after (pkt_end_seq skb) (rcv_nxt sk) \<longleftrightarrow> n < k + length (pkt_data skb)"
    using Cons.prems k before_of_nat [of n "k + length (pkt_data skb)" b] by (simp add: placed_def)
  consider "n < k" | "k + length (pkt_data skb) \<le> n" | "k \<le> n" "n < k + length (pkt_data skb)" by linarith
  then show ?case
  proof cases
    case 1
    have "ofo_ok S b (Suc n) hi (skb # q)" using 1 q k by (intro ofo_ok_Cons [OF k(2,3)]) auto
    then show ?thesis using 1 a Cons.prems by (auto simp: rq_frame_def intro!: exI [of _ n] simp del: ofo_ok.simps)
  next
    case 2
    then show ?thesis using a f Cons.IH [OF Cons.prems(1,2) q] Cons.prems k by simp
  next
    case 3
    define sk' where "sk' = sk\<lparr>rcv_queue := append_skb e skb (rcv_queue sk), rcv_nxt := pkt_end_seq skb\<rparr>"
    have "rq_ok S b c (k + length (pkt_data skb)) (rcv_queue sk')"
      using append_skb_ok [OF Cons.prems(1) k(2) 3 _ rq_ok_last [OF Cons.prems(1)]] 3 Cons.prems k by (simp add: sk'_def)
    moreover have "rcv_nxt sk' = b + of_nat (k + length (pkt_data skb))" using k(2) by (simp only: sk'_def placed_def) simp
    moreover have "k + length (pkt_data skb) \<le> (k + length (pkt_data skb)) + 2 ^ 30" "hi \<le> (k + length (pkt_data skb)) + 2 ^ 30"
      using Cons.prems 3 by auto
    ultimately obtain n' where n': "k + length (pkt_data skb) \<le> n'" "n' \<le> hi" "rq_ok S b c n' (rcv_queue (ofo_queue_loop e q sk'))"
      "rcv_nxt (ofo_queue_loop e q sk') = b + of_nat n'" "ofo_ok S b (Suc n') hi (ofo_queue (ofo_queue_loop e q sk'))"
      "rq_frame (ofo_queue_loop e q sk') = rq_frame sk'"
      using Cons.IH [OF _ _ q _ _ k(4), of sk'] by blast
    have "ofo_queue_loop e (skb # q) sk = ofo_queue_loop e q sk'"
      using 3 a f k(2) by (simp add: sk'_def Let_def placed_def)
    moreover have "rq_frame sk' = rq_frame sk" by (simp add: sk'_def rq_frame_def)
    ultimately show ?thesis using n' 3 by (intro exI [of _ n']) simp
  qed
qed

section \<open>Delivery in order\<close>

text \<open>The bytes a reader finds at position pos of the receive queue.\<close>

fun readable :: "u32 \<Rightarrow> tcp_skb list \<Rightarrow> bytes" where
  "readable pos [] = []"
| "readable pos (p # ps) = drop (unat (pos - pkt_seq p)) (pkt_data p) @ readable (pkt_end_seq p) ps"

lemma readable_ok:
  assumes "rq_ok S b c n q"
  shows "c \<le> n \<and> readable (b + of_nat c) q = map S [c..<n]"
  using assms
proof (induction q arbitrary: c)
  case (Cons p q)
  obtain k where k: "k \<le> c" "placed S b k p" "c < k + length (pkt_data p)" "c < k + 2 ^ 31"
    and q: "rq_ok S b (k + length (pkt_data p)) n q" using Cons.prems by auto
  have "b + of_nat c - pkt_seq p = (b + of_nat c) - (b + of_nat k)" using k(2) by (simp add: placed_def)
  then have u: "unat (b + of_nat c - pkt_seq p) = c - k"
    using unat_diff_of_nat [OF k(1), of b] k(4) by (simp only:) simp
  have d: "drop (c - k) (pkt_data p) = map S [c..<k + length (pkt_data p)]"
    using k(1,2) by (metis drop_map drop_upt le_add_diff_inverse placed_def)
  note IH = Cons.IH [OF q]
  have e: "pkt_end_seq p = b + of_nat (k + length (pkt_data p))" using k(2) by (simp only: placed_def)
  have "map S [c..<n] = map S [c..<k + length (pkt_data p)] @ map S [k + length (pkt_data p)..<n]"
    using IH k(3) by (metis le_add_diff_inverse less_imp_le map_append upt_add_eq_append)
  then have "readable (b + of_nat c) (p # q) = map S [c..<n]" using IH by (simp only: readable.simps u d e)
  then show ?case using IH k(3) by simp
qed simp

text \<open>The socket receives the stream S: the reader is at offset c, everything before offset n has
  arrived, and the window offered ends at offset hi.\<close>

definition receiving :: "(nat \<Rightarrow> u8) \<Rightarrow> u32 \<Rightarrow> nat \<Rightarrow> nat \<Rightarrow> nat \<Rightarrow> tcp_nip_sock \<Rightarrow> bool" where
  "receiving S b c n hi sk \<longleftrightarrow> copied_seq sk = b + of_nat c \<and> rcv_nxt sk = b + of_nat n \<and>
     rcv_wup sk + rcv_wnd sk = b + of_nat hi \<and> n \<le> hi \<and> hi \<le> n + 2 ^ 30 \<and>
     rq_ok S b c n (rcv_queue sk) \<and> ofo_ok S b (Suc n) hi (ofo_queue sk)"

lemma receive_window_is:
  assumes "receiving S b c n hi sk"
  shows "tcp_receive_window sk = of_nat (hi - n)" "rcv_nxt sk + tcp_receive_window sk = b + of_nat hi"
proof -
  have h: "n \<le> hi" "hi \<le> n + 2 ^ 30" using assms by (auto simp: receiving_def)
  have w: "rcv_wup sk + rcv_wnd sk - rcv_nxt sk = of_nat (hi - n)"
    using assms h by (simp add: receiving_def of_nat_diff)
  have "unat (of_nat (hi - n) :: u32) = hi - n"
    using h by (simp only: unat_of_nat) (simp add: take_bit_nat_eq_self)
  then have "sint (of_nat (hi - n) :: u32) = int (hi - n)" using sint_small [of "of_nat (hi - n)"] h by simp
  then show r: "tcp_receive_window sk = of_nat (hi - n)" unfolding tcp_receive_window_def Let_def w by simp
  show "rcv_nxt sk + tcp_receive_window sk = b + of_nat hi"
    using assms h unfolding r by (simp add: receiving_def of_nat_diff)
qed

lemma queue_in_order_ok:
  assumes "receiving S b c n hi sk" "placed S b k skb" "k \<le> n" "n < k + length (pkt_data skb)" "k + length (pkt_data skb) \<le> hi" "n \<le> k + 2 ^ 29"
  shows "\<exists>n' \<ge> k + length (pkt_data skb). receiving S b c n' hi (queue_in_order e skb sk)"
proof -
  note r = assms(1) [unfolded receiving_def]
  define p where "p = (if pkt_seq skb \<noteq> rcv_nxt sk then tcp_nip_overlap_handle (rcv_nxt sk) skb else skb)"
  define sk1 where "sk1 = inet_csk_schedule_ack (sk\<lparr>rcv_queue := rcv_queue sk @ [p], rcv_nxt := pkt_end_seq p\<rparr>)"
  have eq: "pkt_seq skb = rcv_nxt sk \<longleftrightarrow> k = n"
    using of_nat_eq_window [of k n b] assms(2-6) r by (simp add: placed_def)
  have p: "placed S b n p" "n + length (pkt_data p) = k + length (pkt_data skb)"
    using placed_overlap_handle [OF assms(2,3)] assms(2-6) r eq by (auto simp: p_def)
  have "rq_ok S b n (n + length (pkt_data p)) [p]" using p assms(4) by (auto intro!: exI [of _ n])
  then have q: "rq_ok S b c (k + length (pkt_data skb)) (rcv_queue sk1)"
    using r p(2) by (auto simp: sk1_def rq_ok_append inet_csk_schedule_ack_def)
  have nx: "rcv_nxt sk1 = b + of_nat (k + length (pkt_data skb))"
    using p by (simp only: placed_def sk1_def inet_csk_schedule_ack_def) simp
  have fin: "\<not> flag (pkt_flags p) TCPHDR_FIN" using p by (simp add: placed_def)
  have o: "ofo_ok S b (Suc n) hi (ofo_queue sk1)" using r by (simp add: sk1_def inet_csk_schedule_ack_def)
  have f: "copied_seq sk1 = copied_seq sk" "rcv_wup sk1 = rcv_wup sk" "rcv_wnd sk1 = rcv_wnd sk"
    by (simp_all add: sk1_def inet_csk_schedule_ack_def)
  have e1: "queue_in_order e skb sk = (if ofo_queue sk1 \<noteq> [] then tcp_nip_ofo_queue e sk1 else sk1)"
    using fin by (simp add: queue_in_order_def Let_def p_def sk1_def)
  show ?thesis
  proof (cases "ofo_queue sk1 = []")
    case True
    then show ?thesis using q nx f r assms(4,5) by (auto simp: e1 receiving_def intro!: exI [of _ "k + length (pkt_data skb)"])
  next
    case False
    have a: "k + length (pkt_data skb) \<le> Suc n + 2 ^ 30" "hi \<le> k + length (pkt_data skb) + 2 ^ 30" using r assms(4,5) by auto
    obtain n' where n': "k + length (pkt_data skb) \<le> n'" "n' \<le> hi" "rq_ok S b c n' (rcv_queue (tcp_nip_ofo_queue e sk1))"
      "rcv_nxt (tcp_nip_ofo_queue e sk1) = b + of_nat n'" "ofo_ok S b (Suc n') hi (ofo_queue (tcp_nip_ofo_queue e sk1))"
      "rq_frame (tcp_nip_ofo_queue e sk1) = rq_frame sk1"
      using ofo_queue_loop_ok [OF q nx o a assms(5)] unfolding tcp_nip_ofo_queue_def by blast
    have "hi \<le> n' + 2 ^ 30" using n' a by simp
    then have "receiving S b c n' hi (tcp_nip_ofo_queue e sk1)"
      using n' f r rq_frameD(1-3) [OF n'(6)] by (simp add: receiving_def)
    then show ?thesis using n'(1) False e1 by auto
  qed
qed

lemma in_order_delivery_step:
  assumes "receiving S b c n hi sk" "placed S b k skb" "n \<le> k + 2 ^ 29" "k + length (pkt_data skb) \<le> n + 2 ^ 29"
    and tree: "inorder (rb_shape e (ofo_queue sk)) = ofo_queue sk" and clean: "merges_cleanly e skb (ofo_queue sk)"
  shows "\<exists>n' \<ge> n. receiving S b c n' hi (tcp_nip_data_queue e skb sk) \<and>
    readable (copied_seq sk) (rcv_queue (tcp_nip_data_queue e skb sk)) = map S [c..<n'] \<and>
    (k \<le> n \<and> n < k + length (pkt_data skb) \<and> k + length (pkt_data skb) \<le> hi \<longrightarrow> k + length (pkt_data skb) \<le> n')"
proof -
  define sk1 where "sk1 = sk\<lparr>snd_up := discard_count e skb sk\<rparr>"
  have r1: "receiving S b c n hi sk1" using assms(1) by (simp add: receiving_def sk1_def)
  have r2: "receiving S b c n hi (inet_csk_schedule_ack sk1)" using r1 by (simp add: receiving_def inet_csk_schedule_ack_def)
  note r = assms(1) [unfolded receiving_def]
  note win = receive_window_is [OF assms(1)]
  note p = assms(2) [unfolded placed_def]
  have nz: "pkt_seq skb = pkt_end_seq skb \<longleftrightarrow> pkt_data skb = []"
    using p of_nat_eq_window [of k "k + length (pkt_data skb)" b] assms(3,4) by simp
  have hi: "before (pkt_seq skb) (rcv_nxt sk + tcp_receive_window sk) \<longleftrightarrow> k < hi"
    using p r before_of_nat [of k hi b] assms(3,4) unfolding win by simp
  have eh: "after (pkt_end_seq skb) (rcv_nxt sk + tcp_receive_window sk) \<longleftrightarrow> hi < k + length (pkt_data skb)"
    using p r before_of_nat [of hi "k + length (pkt_data skb)" b] assms(3,4) unfolding win by simp
  have en: "after (pkt_end_seq skb) (rcv_nxt sk) \<longleftrightarrow> n < k + length (pkt_data skb)"
    using p r before_of_nat [of n "k + length (pkt_data skb)" b] assms(3,4) by simp
  have sn: "before (pkt_seq skb) (rcv_nxt sk) \<longleftrightarrow> k < n" "pkt_seq skb = rcv_nxt sk \<longleftrightarrow> k = n"
    using p r before_of_nat [of k n b] of_nat_eq_window [of k n b] assms(3,4) by simp_all
  have w0: "tcp_receive_window sk = 0 \<longleftrightarrow> hi = n"
    unfolding win(1) using of_nat_eq_window [of hi n 0] r by simp
  have res: ?thesis if "receiving S b c n' hi (tcp_nip_data_queue e skb sk)" "n \<le> n'"
    "k \<le> n \<and> n < k + length (pkt_data skb) \<and> k + length (pkt_data skb) \<le> hi \<longrightarrow> k + length (pkt_data skb) \<le> n'" for n'
  proof -
    have "readable (copied_seq sk) (rcv_queue (tcp_nip_data_queue e skb sk)) = map S [c..<n']"
      using readable_ok [of S b c n'] that(1) r by (simp add: receiving_def)
    then show ?thesis using that by blast
  qed
  have n1: "rcv_nxt sk1 = rcv_nxt sk" by (simp add: sk1_def)
  note dq = tcp_nip_data_queue_def [of e skb sk, unfolded Let_def sk1_def [symmetric] n1 nz sn hi en eh w0]
  consider "pkt_data skb = []" | "pkt_data skb \<noteq> []" "k + length (pkt_data skb) \<le> n \<or> hi < k + length (pkt_data skb)"
    | "pkt_data skb \<noteq> []" "k \<le> n" "n < k + length (pkt_data skb)" "k + length (pkt_data skb) \<le> hi"
    | "pkt_data skb \<noteq> []" "n < k" "k + length (pkt_data skb) \<le> hi" by linarith
  then show ?thesis
  proof cases
    case 1
    then show ?thesis using r1 by (intro res [of n]) (simp_all add: dq)
  next
    case 2
    then have "tcp_nip_data_queue e skb sk = inet_csk_schedule_ack sk1" unfolding dq by auto
    then show ?thesis using r2 2 by (intro res [of n]) auto
  next
    case 3
    have "tcp_nip_data_queue e skb sk = queue_in_order e skb sk1"
      using 3 unfolding dq by auto
    moreover obtain n' where n': "k + length (pkt_data skb) \<le> n'" "receiving S b c n' hi (queue_in_order e skb sk1)"
      using queue_in_order_ok [OF r1 assms(2) 3(2,3,4) assms(3), of e] by blast
    ultimately show ?thesis using 3 by (intro res [of n']) auto
  next
    case 4
    have l: "Suc n \<le> k" "k < hi" using 4 by (cases "pkt_data skb"; simp)+
    have "hi \<le> Suc n + 2 ^ 30" using r by simp
    then have "ofo_ok S b (Suc n) hi (ofo_insert e skb (ofo_queue sk))"
      using r ofo_insert_ok [OF _ assms(2) 4(1) l(1) 4(3) _ tree clean] by blast
    then have "receiving S b c n hi (tcp_nip_data_queue_ofo e skb sk1)"
      using r by (simp add: tcp_nip_data_queue_ofo_def sk1_def receiving_def inet_csk_schedule_ack_def)
    moreover have "tcp_nip_data_queue e skb sk = tcp_nip_data_queue_ofo e skb sk1" using 4 l unfolding dq by auto
    ultimately show ?thesis using 4 by (intro res [of n]) auto
  qed
qed

text \<open>C13: Delivery in order. While the socket receives the stream S of the peer, a segment of the
  stream leaves it receiving S: the reader finds exactly the bytes of the stream from its position to the next expected one, which
  never moves back, and a segment that starts no later than the next expected byte and fits the window moves it on at least to its
  end. The segment carries no FIN and no SYN and lies within 2^29 bytes of the next expected one; it may repeat and overlap
  what is queued, except that one which the code would merge behind a queued packet must not overlap the packets after that (such a merge
  leaves them in the queue: merge_keeps_covered). The red-black tree holds the queue in its order.\<close>

theorem in_order_delivery:
  assumes "receiving S b c n hi sk" "placed S b k skb" "n \<le> k + 2 ^ 29" "k + length (pkt_data skb) \<le> n + 2 ^ 29"
    and tree: "inorder (rb_shape e (ofo_queue sk)) = ofo_queue sk" and clean: "merges_cleanly e skb (ofo_queue sk)"
  shows "\<exists>n' \<ge> n. receiving S b c n' hi (tcp_nip_data_queue e skb sk) \<and>
    readable (copied_seq sk) (rcv_queue (tcp_nip_data_queue e skb sk)) = map S [c..<n'] \<and>
    (k \<le> n \<and> n < k + length (pkt_data skb) \<and> k + length (pkt_data skb) \<le> hi \<longrightarrow> k + length (pkt_data skb) \<le> n')"
  by (rule in_order_delivery_step [OF assms])

definition ex_stream :: "nat \<Rightarrow> u8" where "ex_stream i = of_nat i"

definition ex_segment :: "nat \<Rightarrow> nat \<Rightarrow> tcp_skb" where
  "ex_segment k l = ex_skb\<lparr>pkt_seq := of_nat k, pkt_end_seq := of_nat (k + l), pkt_data := map ex_stream [k..<k + l]\<rparr>"

definition ex_receiver :: tcp_nip_sock where
  "ex_receiver = zero_sock\<lparr>sk_state := TCP_ESTABLISHED, rcv_wnd := 100, ofo_queue := [ex_segment 3 4]\<rparr>"

lemma ex_segment_placed: "placed ex_stream 0 k (ex_segment k l)"
  by (simp add: placed_def ex_segment_def ex_skb_def flag_def TCPHDR_ACK_def TCPHDR_FIN_def TCPHDR_SYN_def)

lemma ex_receiver_receiving: "receiving ex_stream 0 0 0 100 ex_receiver"
  using ex_segment_placed [of 3 4]
  by (auto simp: receiving_def ex_receiver_def zero_sock_def ex_segment_def ex_skb_def intro!: exI [of _ 3])

lemma in_order_delivery_witness:
  "\<exists>n' \<ge> 5. receiving ex_stream 0 0 n' 100 (tcp_nip_data_queue ex_env (ex_segment 0 5) ex_receiver) \<and>
    readable 0 (rcv_queue (tcp_nip_data_queue ex_env (ex_segment 0 5) ex_receiver)) = map ex_stream [0..<n']"
proof -
  have l: "length (pkt_data (ex_segment 0 5)) = 5" "copied_seq ex_receiver = 0" "ofo_queue ex_receiver = [ex_segment 3 4]"
    by (simp_all add: ex_segment_def ex_receiver_def zero_sock_def)
  have t: "inorder (rb_shape ex_env (ofo_queue ex_receiver)) = ofo_queue ex_receiver" by (simp add: l ex_env_def)
  have c: "merges_cleanly ex_env (ex_segment 0 5) (ofo_queue ex_receiver)"
    by (simp add: merges_cleanly_def coalesces_def ex_env_def)
  show ?thesis
    using in_order_delivery [OF ex_receiver_receiving ex_segment_placed [of 0 5] _ _ t c] l by auto
qed

text \<open>The shape of the red-black tree does not matter: in a queue of disjoint packets of the
  stream, the search through any tree of them ends at the same place, the one the search along the list finds.\<close>

theorem search_independent_of_tree:
  assumes "ofo_ok S b lo hi (inorder t)" "placed S b k skb" "pkt_data skb \<noteq> []" "lo \<le> k"
    "k + length (pkt_data skb) \<le> hi" "hi \<le> lo + 2 ^ 30" "merges_cleanly e skb (inorder t)"
  shows "ofo_descend e skb t = ofo_search e skb (inorder t)"
proof -
  have "lo \<le> hi" using assms by simp
  then show ?thesis using descend_search [OF assms(1-3) order_refl assms(4) _ assms(5-7)] by blast
qed

lemma search_independent_of_tree_witness:
  "ofo_descend ex_env (ex_segment 3 9) \<langle>\<langle>\<langle>\<rangle>, ex_segment 1 2, \<langle>\<rangle>\<rangle>, ex_segment 5 3, \<langle>\<rangle>\<rangle> = ([ex_segment 1 2], None, [ex_segment 5 3])"
proof -
  have "ofo_ok ex_stream 0 1 20 [ex_segment 1 2, ex_segment 5 3]"
    using ex_segment_placed [of 1 2] ex_segment_placed [of 5 3]
    by (intro ofo_ok_Cons [of _ _ 1] ofo_ok_Cons [of _ _ 5]) (simp_all add: ex_segment_def)
  moreover have "merges_cleanly ex_env (ex_segment 3 9) [ex_segment 1 2, ex_segment 5 3]"
    by (simp add: merges_cleanly_def coalesces_def ex_env_def)
  ultimately have "ofo_descend ex_env (ex_segment 3 9) \<langle>\<langle>\<langle>\<rangle>, ex_segment 1 2, \<langle>\<rangle>\<rangle>, ex_segment 5 3, \<langle>\<rangle>\<rangle> =
      ofo_search ex_env (ex_segment 3 9) [ex_segment 1 2, ex_segment 5 3]"
    using search_independent_of_tree [of ex_stream 0 1 20 "\<langle>\<langle>\<langle>\<rangle>, ex_segment 1 2, \<langle>\<rangle>\<rangle>, ex_segment 5 3, \<langle>\<rangle>\<rangle>" 3 "ex_segment 3 9" ex_env]
      ex_segment_placed [of 3 9] by (simp add: ex_segment_def)
  then show ?thesis
    by (simp add: before_def coalesces_def ex_env_def) (simp add: ex_segment_def ex_skb_def)
qed

section \<open>What the trimming gets wrong\<close>

text \<open>A packet that ends in FIN carries one byte less than its sequence numbers span. Trimmed on the
  right, it keeps its FIN and loses one byte too many.\<close>

lemma right_overlap_of_fin:
  assumes "pkt_seq cur = b + of_nat k" "pkt_end_seq cur = b + of_nat (k + length (pkt_data cur) + 1)" "pkt_seq skb = b + of_nat j"
    "k < j" "j \<le> k + length (pkt_data cur)" "length (pkt_data cur) < 2 ^ 31"
  shows "pkt_end_seq (tcp_nip_right_overlap cur skb) = b + of_nat j"
    "length (pkt_data (tcp_nip_right_overlap cur skb)) = j - k - 1"
    "pkt_flags (tcp_nip_right_overlap cur skb) = pkt_flags cur"
proof -
  define d where "d = k + length (pkt_data cur) + 1 - j"
  have "unat (pkt_end_seq cur - pkt_seq skb) = d"
    using unat_diff_of_nat [of j "k + length (pkt_data cur) + 1" b] assms by (simp only: d_def) simp
  then have w: "pkt_end_seq cur - pkt_seq skb = of_nat d" by (rule of_nat_unat_eq)
  have d: "d \<le> length (pkt_data cur)" "length (pkt_data cur) - d = j - k - 1" "j + d = k + length (pkt_data cur) + 1"
    using assms by (auto simp: d_def)
  have "of_nat (length (pkt_data cur)) - of_nat d = (of_nat (j - k - 1) :: u32)" using d by (metis of_nat_diff)
  then have l: "unat (of_nat (length (pkt_data cur)) - of_nat d :: u32) = j - k - 1"
    using assms d by (simp only: unat_of_nat) (simp add: take_bit_nat_eq_self)
  have "pkt_end_seq cur = b + of_nat (j + d)" using assms(2) d(3) by (simp only:)
  then have "pkt_end_seq cur - of_nat d = b + of_nat j" by simp
  then have eq: "tcp_nip_right_overlap cur skb = cur\<lparr>pkt_data := take (j - k - 1) (pkt_data cur), pkt_end_seq := b + of_nat j\<rparr>"
    unfolding tcp_nip_right_overlap_def Let_def w l by (simp only:)
  show "pkt_end_seq (tcp_nip_right_overlap cur skb) = b + of_nat j"
    "length (pkt_data (tcp_nip_right_overlap cur skb)) = j - k - 1"
    "pkt_flags (tcp_nip_right_overlap cur skb) = pkt_flags cur"
    using d by (simp_all add: eq)
qed

text \<open>A packet merged behind one in the middle of the queue may cover the packets after it: they stay.\<close>

lemma merge_keeps_covered:
  assumes "ofo_descend e skb (rb_shape e q) = (a, Some p, x # r)" "coalesces e p skb" "\<not> before (pkt_seq skb) (pkt_end_seq p)"
  shows "ofo_place e skb q = a @ tcp_nip_coalesce p skb # x # r" "pkt_end_seq (tcp_nip_coalesce p skb) = pkt_end_seq skb"
  using assms by (simp_all add: ofo_place_def tcp_nip_coalesce_def)

text \<open>The packet after the one an overlapping packet continues always exists.\<close>

lemma ofo_next_exists:
  assumes "ofo_descend e skb t = (a, Some p, r)" "before (pkt_seq skb) (pkt_seq (last (inorder t)))" "\<not> before (pkt_seq skb) (pkt_seq p)"
  shows "r \<noteq> []"
  using descend_append [OF assms(1)] assms(2,3) by auto

end
