(* ===== verification/TcpAck.thy ===== *)
theory TcpAck
  imports TcpOut
begin

text \<open>
  Acknowledgments: the send window, the retransmission queue, retransmission on duplicate acknowledgments and
  the NewIP rate control (nip_ssthresh): tcp_nip_ack and its helpers of src/src/linux/net/newip/tcp_nip_input.c.
  The parameters the code divides by (nip_ssthresh_reset_num, ssthresh_high_step + 1, the difference of
  rtt_tstamp_mid_high and rtt_tstamp_mid_low) are not zero.
\<close>

section \<open>Window and probes\<close>

definition tcp_nip_may_update_window :: "tcp_nip_sock \<Rightarrow> u32 \<Rightarrow> u32 \<Rightarrow> u32 \<Rightarrow> bool" where
  "tcp_nip_may_update_window sk ack ack_seq nwin \<longleftrightarrow>
     after ack (snd_una sk) \<or> after ack_seq (snd_wl1 sk) \<or> (ack_seq = snd_wl1 sk \<and> nwin > snd_wnd sk)"

definition tcp_nip_ack_update_window :: "tcp_skb \<Rightarrow> u32 \<Rightarrow> u32 \<Rightarrow> tcp_nip_sock \<Rightarrow> tcp_nip_sock" where
  "tcp_nip_ack_update_window skb ack ack_seq sk =
    (let nwin = ucast (th_window skb);
         nwin = (if \<not> flag (pkt_flags skb) TCPHDR_SYN then push_bit (snd_wscale sk) nwin else nwin)
     in if tcp_nip_may_update_window sk ack ack_seq nwin then sk\<lparr>snd_wl1 := ack_seq, snd_wnd := nwin\<rparr> else sk)"

text \<open>tcp_nip_ack_probe, with a packet to send.\<close>

definition tcp_nip_ack_probe :: "tcp_env \<Rightarrow> tcp_nip_sock \<Rightarrow> tcp_nip_sock" where
  "tcp_nip_ack_probe e sk =
    (if \<not> after (pkt_end_seq (hd (send_queue sk))) (tcp_wnd_end sk)
     then inet_csk_clear_xmit_timer (sk\<lparr>icsk_backoff := 0\<rparr>)
     else inet_csk_reset_xmit_timer e ICSK_TIME_PROBE0 (probe0_when e (icsk_rto sk) (icsk_backoff sk)) sk)"

section \<open>The retransmission queue\<close>

text \<open>The loop of tcp_nip_clean_rtx_queue: whether a packet was removed, the time the first of them was sent.
  A packet of several segments of which a part is acknowledged is removed too.\<close>

fun clean_rtx_loop :: "tcp_skb list \<Rightarrow> bool \<Rightarrow> u32 \<Rightarrow> tcp_nip_sock \<Rightarrow> bool \<times> u32 \<times> tcp_nip_sock" where
  "clean_rtx_loop [] acked tstamp sk = (acked, tstamp, sk\<lparr>rtx_queue := []\<rparr>)"
| "clean_rtx_loop (skb # skbs) acked tstamp sk =
    (if after (pkt_end_seq skb) (snd_una sk) \<and> (pkt_pcount skb = 1 \<or> \<not> after (snd_una sk) (pkt_seq skb))
     then (acked, tstamp, sk\<lparr>rtx_queue := skb # skbs\<rparr>)
     else
       let acked_pcount = (if after (pkt_end_seq skb) (snd_una sk) then 0 else pkt_pcount skb)
       in clean_rtx_loop skbs True (if tstamp = 0 then pkt_tstamp skb else tstamp)
            (sk\<lparr>packets_out := packets_out sk - acked_pcount\<rparr>))"

definition tcp_nip_clean_rtx_queue :: "tcp_env \<Rightarrow> tcp_nip_sock \<Rightarrow> u32 \<times> tcp_nip_sock" where
  "tcp_nip_clean_rtx_queue e sk =
    (let (acked, tstamp, sk) = clean_rtx_loop (rtx_queue sk) False 0 sk; sk = sk\<lparr>icsk_rto := nip_rto_init e\<rparr>
     in (tstamp, if acked then tcp_nip_rearm_rto e sk else sk))"

section \<open>Retransmission on duplicate acknowledgments\<close>

definition ack_retrans_stop :: "tcp_nip_sock \<Rightarrow> tcp_nip_sock" where
  "ack_retrans_stop sk = sk\<lparr>sack_start := 0, sack_end := 0, ack_retrans_seq := 0, ack_retrans_num := 0\<rparr>"

text \<open>The loop of tcp_nip_ack_retrans: n packets of rtx_queue are left, the next at position i; m were
  retransmitted. A packet that was split stands at two positions.\<close>

fun ack_retrans_loop :: "tcp_env \<Rightarrow> u32 \<Rightarrow> nat \<Rightarrow> nat \<Rightarrow> u32 \<Rightarrow> tcp_nip_sock \<Rightarrow> tcp_nip_sock" where
  "ack_retrans_loop e retrans_num i 0 m sk = (if send_queue sk \<noteq> [] then ack_retrans_stop sk else sk)"
| "ack_retrans_loop e retrans_num i (Suc n) m sk =
    (let skb = rtx_queue sk ! i in
     if pkt_seq skb > sack_end sk then ack_retrans_stop sk
     else if pkt_seq skb \<noteq> ack_retrans_seq sk then ack_retrans_loop e retrans_num (Suc i) n m sk
     else if m < retrans_num then
       let len = length (rtx_queue sk); (_, sk) = tcp_nip_retransmit_skb e i sk;
           sk = sk\<lparr>ack_retrans_num := ack_retrans_num sk + 1, ack_retrans_seq := pkt_end_seq (rtx_queue sk ! i)\<rparr>
       in ack_retrans_loop e retrans_num (Suc i + (length (rtx_queue sk) - len)) n (m + 1) sk
     else sk)"

definition tcp_nip_ack_retrans :: "tcp_env \<Rightarrow> u32 \<Rightarrow> tcp_nip_sock \<Rightarrow> tcp_nip_sock" where
  "tcp_nip_ack_retrans e retrans_num sk = ack_retrans_loop e retrans_num 0 (length (rtx_queue sk)) 0 sk"

definition DUP_ACK_RETRANS_START_NUM :: u32 where "DUP_ACK_RETRANS_START_NUM = 3"

definition tcp_nip_dup_ack_retrans :: "tcp_env \<Rightarrow> tcp_skb \<Rightarrow> u32 \<Rightarrow> u32 \<Rightarrow> tcp_nip_sock \<Rightarrow> tcp_nip_sock" where
  "tcp_nip_dup_ack_retrans e skb ack retrans_num sk =
    (if rtx_queue sk = [] \<and> send_queue sk = [] then sk
     else
       let sk = sk\<lparr>sacked_out := sacked_out sk + 1\<rparr> in
       if sacked_out sk = DUP_ACK_RETRANS_START_NUM then
         tcp_nip_ack_retrans e retrans_num
           (sk\<lparr>sack_start := ack, sack_end := ack + ucast (th_urg skb) * cur_mss e, ack_retrans_seq := ack, ack_retrans_num := 0,
               nip_ssthresh := of_int (ssthresh_low (params e))\<rparr>)
       else sk)"

definition tcp_nip_nor_ack_retrans :: "tcp_env \<Rightarrow> u32 \<Rightarrow> u32 \<Rightarrow> tcp_nip_sock \<Rightarrow> tcp_nip_sock" where
  "tcp_nip_nor_ack_retrans e ack retrans_num sk =
    (if sack_end sk \<noteq> 0 then
       (if ack \<ge> sack_end sk then (ack_retrans_stop sk)\<lparr>sacked_out := 0\<rparr>
        else (tcp_nip_ack_retrans e retrans_num sk)\<lparr>sacked_out := 0\<rparr>)
     else sk\<lparr>sacked_out := 0\<rparr>)"

section \<open>Rate control\<close>

text \<open>nip_ssthresh for a packet acknowledged after rtt ticks: ints are converted to unsigned.\<close>

definition rtt_ssthresh :: "nip_params \<Rightarrow> u32 \<Rightarrow> u32 \<Rightarrow> u32" where
  "rtt_ssthresh p rtt cur =
    (if rtt \<ge> of_int (rtt_tstamp_rto_up p) then of_int (ssthresh_low_min p)
     else if rtt \<ge> of_int (rtt_tstamp_high p) then of_int (ssthresh_low p)
     else if rtt \<ge> of_int (rtt_tstamp_mid_high p) then of_int (ssthresh_mid_low p)
     else if rtt \<ge> of_int (rtt_tstamp_mid_low p) then
       (let scale = of_int (rtt_tstamp_mid_high p) - rtt; half = ssthresh_mid_high p sdiv 2;
            new = of_int half + scale * of_int half div of_int (rtt_tstamp_mid_high p - rtt_tstamp_mid_low p);
            cur = (if cur > of_int (ssthresh_mid_high p) then of_int half else cur)
        in (cur * of_int (ssthresh_high_step p) + new) div of_int (ssthresh_high_step p + 1))
     else if rtt \<noteq> 0 then
       (cur * of_int (ssthresh_high_step p) + of_int (ssthresh_high p)) div of_int (ssthresh_high_step p + 1)
     else cur)"

definition tcp_nip_ack_calc_ssthresh :: "tcp_env \<Rightarrow> u32 \<Rightarrow> u32 \<Rightarrow> tcp_nip_sock \<Rightarrow> tcp_nip_sock" where
  "tcp_nip_ack_calc_ssthresh e ack snd_tstamp sk =
    (let p = params e; ack_reset = ack div of_int (nip_ssthresh_reset_num p) in
     if nip_ssthresh_reset sk \<noteq> ack_reset
     then sk\<lparr>nip_ssthresh_reset := ack_reset, nip_ssthresh := of_int (ssthresh_low p)\<rparr>
     else if snd_tstamp \<noteq> 0 then sk\<lparr>nip_ssthresh := rtt_ssthresh p (rcv_tstamp sk - snd_tstamp) (nip_ssthresh sk)\<rparr>
     else sk)"

section \<open>An acknowledgment\<close>

definition tcp_nip_new_ack :: "tcp_env \<Rightarrow> u32 \<Rightarrow> tcp_nip_sock \<Rightarrow> tcp_nip_sock" where
  "tcp_nip_new_ack e ack sk =
    (let (tstamp, sk) = tcp_nip_clean_rtx_queue e (sk\<lparr>icsk_retransmits := 0, rcv_tstamp := tcp_jiffies32 e, snd_una := ack\<rparr>)
     in tcp_nip_nor_ack_retrans e ack (of_int (ack_retrans_max (params e))) (tcp_nip_ack_calc_ssthresh e ack tstamp sk))"

definition tcp_nip_ack :: "tcp_env \<Rightarrow> tcp_skb \<Rightarrow> tcp_nip_sock \<Rightarrow> int \<times> tcp_nip_sock" where
  "tcp_nip_ack e skb sk =
    (let ack = pkt_ack_seq skb; prior_packets = packets_out sk; prior_snd_una = snd_una sk in
     if before ack prior_snd_una then (0, sk)
     else if after ack (snd_nxt sk) then (-1, sk)
     else
       let sk = (tcp_nip_ack_update_window skb ack (pkt_seq skb) sk)
             \<lparr>icsk_probes_out := 0, nip_keepalive_out := 0, rcv_tstamp := tcp_jiffies32 e\<rparr>
       in if prior_packets = 0 then (1, if send_queue sk \<noteq> [] then tcp_nip_ack_probe e sk else sk)
       else if after ack prior_snd_una then (1, tcp_nip_new_ack e ack sk)
       else (1, tcp_nip_dup_ack_retrans e skb ack (of_int (dup_ack_retrans_num (params e))) sk))"

section \<open>The range of the rate control\<close>

text \<open>Parameters in a sensible order, small enough that the weighted means do not wrap around.\<close>

definition ssthresh_params_ok :: "nip_params \<Rightarrow> bool" where
  "ssthresh_params_ok p \<longleftrightarrow> 0 \<le> ssthresh_low_min p \<and> ssthresh_low_min p \<le> ssthresh_low p \<and> ssthresh_low p \<le> ssthresh_mid_low p \<and>
     ssthresh_mid_low p \<le> ssthresh_high p \<and> ssthresh_low_min p \<le> ssthresh_mid_high p div 2 \<and> ssthresh_mid_high p \<le> ssthresh_high p \<and>
     0 \<le> ssthresh_high_step p \<and> ssthresh_high p * (ssthresh_high_step p + 1) < 2 ^ 32 \<and>
     0 \<le> rtt_tstamp_mid_low p \<and> rtt_tstamp_mid_low p < rtt_tstamp_mid_high p \<and> rtt_tstamp_mid_high p < 2 ^ 31 \<and>
     (rtt_tstamp_mid_high p - rtt_tstamp_mid_low p) * ssthresh_mid_high p < 2 ^ 32"

definition in_ssthresh_range :: "nip_params \<Rightarrow> u32 \<Rightarrow> bool" where
  "in_ssthresh_range p x \<longleftrightarrow> ssthresh_low_min p \<le> uint x \<and> uint x \<le> ssthresh_high p"

lemma uint_of_int_small: "0 \<le> x \<Longrightarrow> x < 2 ^ 32 \<Longrightarrow> uint (of_int x :: u32) = x"
  by (simp add: uint_word_of_int take_bit_int_eq_self)

lemma mean_in_range:
  fixes c n s lo hi :: int
  assumes "lo \<le> c" "c \<le> hi" "lo \<le> n" "n \<le> hi" "0 \<le> s" "0 \<le> lo" "hi * (s + 1) < 2 ^ 32"
  shows "lo \<le> uint ((of_int c * of_int s + of_int n) div of_int (s + 1) :: u32)"
    "uint ((of_int c * of_int s + of_int n) div of_int (s + 1) :: u32) \<le> hi"
proof -
  have hs: "hi * s + hi < 2 ^ 32" using assms(7) by (simp add: algebra_simps)
  have cs: "lo * s \<le> c * s" "c * s \<le> hi * s" using assms by (simp_all add: mult_right_mono)
  have z: "0 \<le> c * s" "0 \<le> hi * s" using assms by simp_all
  have h0: "0 \<le> hi" using assms by simp
  have "s * 1 \<le> s * hi \<or> hi = 0" using h0 assms(5) by (metis int_one_le_iff_zero_less le_less mult_left_mono)
  have s: "s + 1 < 2 ^ 32 \<or> hi = 0" using \<open>s * 1 \<le> s * hi \<or> hi = 0\<close> hs h0 by (auto simp: mult.commute)
  have sum: "0 \<le> c * s + n" "c * s + n < 2 ^ 32" using assms cs z hs by auto
  have n: "uint (of_int c * of_int s + of_int n :: u32) = c * s + n"
    using uint_of_int_small [OF sum] by simp
  have lo_le: "lo * (s + 1) \<le> c * s + n" "c * s + n \<le> hi * (s + 1)"
    using cs assms by (simp_all add: algebra_simps)
  show "lo \<le> uint ((of_int c * of_int s + of_int n) div of_int (s + 1) :: u32)"
    "uint ((of_int c * of_int s + of_int n) div of_int (s + 1) :: u32) \<le> hi"
  proof -
    show "lo \<le> uint ((of_int c * of_int s + of_int n) div of_int (s + 1) :: u32)"
    proof (cases "hi = 0")
      case True
      then have "lo = 0" using assms by simp
      then show ?thesis by simp
    next
      case False
      then have "uint (of_int (s + 1) :: u32) = s + 1" using s assms(5) by (intro uint_of_int_small) auto
      moreover have "lo * (s + 1) div (s + 1) \<le> (c * s + n) div (s + 1)" using lo_le(1) assms(5) by (intro zdiv_mono1) auto
      ultimately show ?thesis using assms(5) unfolding uint_div n by simp
    qed
    show "uint ((of_int c * of_int s + of_int n) div of_int (s + 1) :: u32) \<le> hi"
    proof (cases "hi = 0")
      case True
      then show ?thesis using sum lo_le unfolding uint_div n by simp
    next
      case False
      then have "uint (of_int (s + 1) :: u32) = s + 1" using s assms(5) by (intro uint_of_int_small) auto
      moreover have "(c * s + n) div (s + 1) \<le> hi * (s + 1) div (s + 1)" using lo_le(2) assms(5) by (intro zdiv_mono1) auto
      ultimately show ?thesis using assms(5) unfolding uint_div n by simp
    qed
  qed
qed


lemma sdiv2: "0 \<le> x \<Longrightarrow> x sdiv 2 = x div 2" for x :: int
  by (simp add: signed_divide_int_def sgn_if)

lemma rtt_ssthresh_in_range:
  assumes p: "ssthresh_params_ok p" and c: "in_ssthresh_range p cur"
  shows "in_ssthresh_range p (rtt_ssthresh p rtt cur)"
proof -
  note p' = p [unfolded ssthresh_params_ok_def]
  define hi lo s where "hi = ssthresh_high p" and "lo = ssthresh_low_min p" and "s = ssthresh_high_step p"
  have "1 * hi \<le> (s + 1) * hi" using p' by (intro mult_right_mono) (auto simp: hi_def s_def)
  then have hi: "hi < 2 ^ 32" using p' by (simp add: hi_def s_def mult.commute)
  have const: "in_ssthresh_range p (of_int x)" if "lo \<le> x" "x \<le> hi" for x
    using that p' hi uint_of_int_small [of x] by (simp add: in_ssthresh_range_def lo_def hi_def)
  have mean: "in_ssthresh_range p ((x * of_int s + of_int n) div of_int (s + 1))" if "in_ssthresh_range p x" "lo \<le> n" "n \<le> hi" for x n
    using mean_in_range [of lo "uint x" hi n s] that p' by (simp add: in_ssthresh_range_def lo_def hi_def s_def)
  define half where "half = ssthresh_mid_high p div 2"
  have half: "ssthresh_mid_high p sdiv 2 = half" "lo \<le> half" "half \<le> hi" "2 * half \<le> hi" "0 \<le> half"
    using p' sdiv2 [of "ssthresh_mid_high p"] by (auto simp: half_def lo_def hi_def)
  define D where "D = rtt_tstamp_mid_high p - rtt_tstamp_mid_low p"
  show ?thesis
  proof (cases "rtt \<ge> of_int (rtt_tstamp_rto_up p) \<or> rtt \<ge> of_int (rtt_tstamp_high p) \<or> rtt \<ge> of_int (rtt_tstamp_mid_high p)")
    case True
    then show ?thesis using const p' by (auto simp: rtt_ssthresh_def lo_def hi_def)
  next
    case F: False
    show ?thesis
    proof (cases "rtt \<ge> of_int (rtt_tstamp_mid_low p)")
      case True
      define k where "k = rtt_tstamp_mid_high p - uint rtt"
      have t: "uint (of_int (rtt_tstamp_mid_high p) :: u32) = rtt_tstamp_mid_high p" "uint (of_int (rtt_tstamp_mid_low p) :: u32) = rtt_tstamp_mid_low p"
        using p' by (intro uint_of_int_small; simp)+
      have k: "0 < k" "k \<le> D" using F True t by (auto simp: k_def D_def word_le_def word_less_def not_le)
      have ok: "of_int (rtt_tstamp_mid_high p) - rtt = (of_int k :: u32)" by (simp add: k_def)
      have kh: "0 \<le> k * half" "k * half \<le> D * half" using k half by (simp_all add: mult_right_mono)
      have "D * half \<le> D * ssthresh_mid_high p" using k p' by (intro mult_left_mono) (auto simp: half_def)
      then have Dh: "D * half < 2 ^ 32" by (rule le_less_trans) (use p' in \<open>simp add: D_def\<close>)
      have uD: "uint (of_int D :: u32) = D" using p' k by (intro uint_of_int_small) (auto simp: D_def)
      have ukh: "uint (of_int k * of_int half :: u32) = k * half" using uint_of_int_small [of "k * half"] kh Dh by simp
      have q: "of_int k * of_int half div of_int D = (of_int (k * half div D) :: u32)"
        unfolding word_div_def ukh uD ..
      have kd: "0 \<le> k * half div D" "k * half div D \<le> half"
      proof -
        show "0 \<le> k * half div D" using kh k by (simp add: pos_imp_zdiv_nonneg_iff)
        have "k * half div D \<le> D * half div D" using kh k by (intro zdiv_mono1) auto
        then show "k * half div D \<le> half" using k by simp
      qed
      define cur' where "cur' = (if cur > of_int (ssthresh_mid_high p) then of_int half else cur)"
      have c': "in_ssthresh_range p cur'" using c const [of half] half by (simp add: cur'_def)
      have "rtt_ssthresh p rtt cur = (cur' * of_int s + of_int (half + k * half div D)) div of_int (s + 1)"
        using F True half(1) by (simp add: rtt_ssthresh_def Let_def ok q D_def [symmetric] s_def cur'_def)
      moreover have "lo \<le> half + k * half div D" "half + k * half div D \<le> hi" using kd half by auto
      ultimately show ?thesis using mean [OF c', of "half + k * half div D"] by simp
    next
      case G: False
      show ?thesis
        using F G c mean [OF c, of hi] p' by (simp add: rtt_ssthresh_def hi_def lo_def s_def)
    qed
  qed
qed

lemma low_in_range:
  assumes "ssthresh_params_ok p"
  shows "in_ssthresh_range p (of_int (ssthresh_low p))"
proof -
  have "1 * ssthresh_high p \<le> (ssthresh_high_step p + 1) * ssthresh_high p"
    using assms by (intro mult_right_mono) (auto simp: ssthresh_params_ok_def)
  then have "ssthresh_low p < 2 ^ 32" using assms by (simp add: ssthresh_params_ok_def mult.commute)
  then show ?thesis using assms uint_of_int_small [of "ssthresh_low p"] by (simp add: in_ssthresh_range_def ssthresh_params_ok_def)
qed

lemma calc_ssthresh_in_range:
  "ssthresh_params_ok (params e) \<Longrightarrow> in_ssthresh_range (params e) (nip_ssthresh sk) \<Longrightarrow>
     in_ssthresh_range (params e) (nip_ssthresh (tcp_nip_ack_calc_ssthresh e ack ts sk))"
  by (simp add: tcp_nip_ack_calc_ssthresh_def Let_def rtt_ssthresh_in_range low_in_range)

lemma default_params_ok: "ssthresh_params_ok default_params"
  by (simp add: ssthresh_params_ok_def default_params_def)


text \<open>Retransmission and the clean-up of the queue leave the rate alone.\<close>

lemma retransmit0_ssthresh [simp]: "nip_ssthresh (snd (snd (tcp_nip_retransmit0 e skb sk))) = nip_ssthresh sk"
  by (simp add: tcp_nip_retransmit0_def tcp_nip_transmit_skb_def Let_def split_beta transmit_keeps split: option.split)

lemma retransmit_skb_ssthresh [simp]: "nip_ssthresh (snd (tcp_nip_retransmit_skb e n sk)) = nip_ssthresh sk"
  using retransmit0_ssthresh [of e "rtx_queue sk ! n" sk] retransmit0_ssthresh [of e "send_queue sk ! (n - length (rtx_queue sk))" sk]
  by (simp add: tcp_nip_retransmit_skb_def Let_def split_beta)

lemma ack_retrans_loop_ssthresh: "nip_ssthresh (ack_retrans_loop e r i n m sk) = nip_ssthresh sk"
  by (induction n arbitrary: i m sk) (simp_all add: Let_def split_beta ack_retrans_stop_def)

lemma ack_retrans_ssthresh [simp]: "nip_ssthresh (tcp_nip_ack_retrans e r sk) = nip_ssthresh sk"
  by (simp add: tcp_nip_ack_retrans_def ack_retrans_loop_ssthresh)

lemma nor_ack_retrans_ssthresh [simp]: "nip_ssthresh (tcp_nip_nor_ack_retrans e ack r sk) = nip_ssthresh sk"
  by (simp add: tcp_nip_nor_ack_retrans_def ack_retrans_stop_def)

lemma clean_rtx_loop_ssthresh: "nip_ssthresh (snd (snd (clean_rtx_loop q acked ts sk))) = nip_ssthresh sk"
  by (induction q arbitrary: acked ts sk) (simp_all add: Let_def)

lemma rearm_rto_ssthresh [simp]: "nip_ssthresh (tcp_nip_rearm_rto e sk) = nip_ssthresh sk"
  by (simp add: tcp_nip_rearm_rto_def inet_csk_clear_xmit_timer_def inet_csk_reset_xmit_timer_def)

lemma clean_rtx_ssthresh [simp]: "nip_ssthresh (snd (tcp_nip_clean_rtx_queue e sk)) = nip_ssthresh sk"
  by (simp add: tcp_nip_clean_rtx_queue_def Let_def split_beta clean_rtx_loop_ssthresh)

text \<open>With parameters in a sensible order, the rate limit nip_ssthresh stays between ssthresh_low_min
  and ssthresh_high whatever acknowledgment arrives: no step of its computation wraps around.\<close>

theorem ssthresh_stays_in_range:
  assumes p: "ssthresh_params_ok (params e)" and r: "in_ssthresh_range (params e) (nip_ssthresh sk)"
  shows "in_ssthresh_range (params e) (nip_ssthresh (snd (tcp_nip_ack e skb sk)))"
proof -
  have low: "in_ssthresh_range (params e) (of_int (ssthresh_low (params e)))"
    by (rule low_in_range [OF p])
  have w: "nip_ssthresh (tcp_nip_ack_update_window skb a b sk) = nip_ssthresh sk" for a b
    by (simp add: tcp_nip_ack_update_window_def Let_def)
  have pr: "nip_ssthresh (tcp_nip_ack_probe e x) = nip_ssthresh x" for x
    by (simp add: tcp_nip_ack_probe_def inet_csk_clear_xmit_timer_def inet_csk_reset_xmit_timer_def)
  have n: "in_ssthresh_range (params e) (nip_ssthresh (tcp_nip_new_ack e a x))" if "in_ssthresh_range (params e) (nip_ssthresh x)" for a x
    using that by (simp add: tcp_nip_new_ack_def split_beta calc_ssthresh_in_range [OF p])
  have d: "in_ssthresh_range (params e) (nip_ssthresh (tcp_nip_dup_ack_retrans e s a m x))"
    if "in_ssthresh_range (params e) (nip_ssthresh x)" for s a m x
    using that low by (simp add: tcp_nip_dup_ack_retrans_def Let_def)
  show ?thesis using r by (simp add: tcp_nip_ack_def Let_def n d pr w)
qed

lemma ssthresh_stays_in_range_witness:
  "in_ssthresh_range default_params (nip_ssthresh (snd (tcp_nip_ack ex_env ex_skb (tcp_nip_init_sock ex_env zero_sock))))"
proof -
  have e: "params ex_env = default_params" by (simp add: ex_env_def)
  have "nip_ssthresh (tcp_nip_init_sock ex_env zero_sock) = 300000"
    by (simp add: tcp_nip_init_sock_def inet_csk_clear_xmit_timers_def tcp_sock_priv_init_def e default_params_def)
  then have "in_ssthresh_range default_params (nip_ssthresh (tcp_nip_init_sock ex_env zero_sock))"
    by (simp add: in_ssthresh_range_def default_params_def)
  then show ?thesis using ssthresh_stays_in_range [of ex_env] default_params_ok e by simp
qed

section \<open>What an acknowledgment removes\<close>

definition still_unacked :: "u32 \<Rightarrow> tcp_skb \<Rightarrow> bool" where
  "still_unacked una p \<longleftrightarrow> after (pkt_end_seq p) una \<and> (pkt_pcount p = 1 \<or> \<not> after una (pkt_seq p))"

abbreviation segments :: "tcp_skb list \<Rightarrow> u32" where "segments q \<equiv> sum_list (map pkt_pcount q)"

lemma clean_rtx_loop_queue:
  "rtx_queue (snd (snd (clean_rtx_loop q acked ts sk))) = dropWhile (\<lambda>p. \<not> still_unacked (snd_una sk) p) q"
  "packets_out (snd (snd (clean_rtx_loop q acked ts sk))) = packets_out sk -
     segments (filter (\<lambda>p. \<not> after (pkt_end_seq p) (snd_una sk)) (takeWhile (\<lambda>p. \<not> still_unacked (snd_una sk) p) q))"
  by (induction q arbitrary: acked ts sk) (auto simp: Let_def still_unacked_def)

lemma rearm_rto_queue [simp]:
  "rtx_queue (tcp_nip_rearm_rto e sk) = rtx_queue sk" "packets_out (tcp_nip_rearm_rto e sk) = packets_out sk"
  "snd_una (tcp_nip_rearm_rto e sk) = snd_una sk"
  by (simp_all add: tcp_nip_rearm_rto_def inet_csk_clear_xmit_timer_def inet_csk_reset_xmit_timer_def)

lemma clean_rtx_queue:
  "rtx_queue (snd (tcp_nip_clean_rtx_queue e sk)) = dropWhile (\<lambda>p. \<not> still_unacked (snd_una sk) p) (rtx_queue sk)"
  "packets_out (snd (tcp_nip_clean_rtx_queue e sk)) = packets_out sk -
     segments (filter (\<lambda>p. \<not> after (pkt_end_seq p) (snd_una sk)) (takeWhile (\<lambda>p. \<not> still_unacked (snd_una sk) p) (rtx_queue sk)))"
  using clean_rtx_loop_queue [of "rtx_queue sk" False 0 sk] by (simp_all add: tcp_nip_clean_rtx_queue_def Let_def split_beta)

text \<open>C27: An acknowledgment removes from the retransmission queue exactly the packets at its front that it
  covers, and packets_out stays the number of segments in the queue, as long as no packet of several segments
  is acknowledged in part. A packet acknowledged in part is removed whole, and its segments stay counted.\<close>

theorem acknowledged_packets_leave:
  assumes count: "packets_out sk = segments (rtx_queue sk)" and q: "rtx_queue sk = acked @ rest"
    and a: "\<forall>p \<in> set acked. \<not> after (pkt_end_seq p) (snd_una sk)"
    and r: "rest \<noteq> [] \<Longrightarrow> after (pkt_end_seq (hd rest)) (snd_una sk)"
  shows "(rest = [] \<or> pkt_pcount (hd rest) = 1 \<or> \<not> after (snd_una sk) (pkt_seq (hd rest)) \<longrightarrow>
       rtx_queue (snd (tcp_nip_clean_rtx_queue e sk)) = rest \<and> packets_out (snd (tcp_nip_clean_rtx_queue e sk)) = segments rest) \<and>
    (\<forall>p. rest = [p] \<and> pkt_pcount p \<noteq> 1 \<and> after (snd_una sk) (pkt_seq p) \<longrightarrow>
       rtx_queue (snd (tcp_nip_clean_rtx_queue e sk)) = [] \<and> packets_out (snd (tcp_nip_clean_rtx_queue e sk)) = pkt_pcount p)"
proof -
  have a': "\<forall>p \<in> set acked. \<not> still_unacked (snd_una sk) p" using a by (simp add: still_unacked_def)
  have f: "filter (\<lambda>p. \<not> after (pkt_end_seq p) (snd_una sk)) acked = acked" using a by simp
  have n: "packets_out sk = segments acked + segments rest" using count q by simp
  show ?thesis
  proof (intro conjI impI allI; (elim conjE)?)
    assume "rest = [] \<or> pkt_pcount (hd rest) = 1 \<or> \<not> after (snd_una sk) (pkt_seq (hd rest))"
    then have s: "rest = [] \<or> still_unacked (snd_una sk) (hd rest)" using r by (auto simp: still_unacked_def)
    have "dropWhile (\<lambda>p. \<not> still_unacked (snd_una sk) p) (acked @ rest) = rest"
      "takeWhile (\<lambda>p. \<not> still_unacked (snd_una sk) p) (acked @ rest) = acked"
      using a' s by (cases rest; simp)+
    then show "rtx_queue (snd (tcp_nip_clean_rtx_queue e sk)) = rest" "packets_out (snd (tcp_nip_clean_rtx_queue e sk)) = segments rest"
      unfolding clean_rtx_queue q n by (simp_all add: f)
  next
    fix p assume p: "rest = [p]" "pkt_pcount p \<noteq> 1" "after (snd_una sk) (pkt_seq p)"
    have "\<not> still_unacked (snd_una sk) p" "after (pkt_end_seq p) (snd_una sk)" using p r by (auto simp: still_unacked_def)
    then have "dropWhile (\<lambda>p. \<not> still_unacked (snd_una sk) p) (acked @ rest) = []"
      "takeWhile (\<lambda>p. \<not> still_unacked (snd_una sk) p) (acked @ rest) = acked @ [p]"
      using a' p by simp_all
    then show "rtx_queue (snd (tcp_nip_clean_rtx_queue e sk)) = []" "packets_out (snd (tcp_nip_clean_rtx_queue e sk)) = pkt_pcount p"
      using \<open>after (pkt_end_seq p) (snd_una sk)\<close> p unfolding clean_rtx_queue q n by (simp_all add: f)
  qed
qed

lemma acknowledged_packets_leave_witness:
  "rtx_queue (snd (tcp_nip_clean_rtx_queue ex_env (zero_sock\<lparr>snd_una := 1003, packets_out := 2,
     rtx_queue := [ex_skb, ex_skb\<lparr>pkt_seq := 1003, pkt_end_seq := 1006\<rparr>]\<rparr>))) = [ex_skb\<lparr>pkt_seq := 1003, pkt_end_seq := 1006\<rparr>]"
proof -
  let ?b = "ex_skb\<lparr>pkt_seq := 1003, pkt_end_seq := 1006\<rparr>"
  have "packets_out (zero_sock\<lparr>snd_una := 1003, packets_out := 2, rtx_queue := [ex_skb, ?b]\<rparr>) = segments [ex_skb, ?b]"
    "\<not> after (pkt_end_seq ex_skb) 1003" "after (pkt_end_seq ?b) 1003" "pkt_pcount ?b = 1"
    by (simp_all add: ex_skb_def before_def)
  then show ?thesis
    using acknowledged_packets_leave [of "zero_sock\<lparr>snd_una := 1003, packets_out := 2, rtx_queue := [ex_skb, ?b]\<rparr>" "[ex_skb]" "[?b]" ex_env]
    by simp
qed

end
