(* ===== verification/TcpConn.thy ===== *)
theory TcpConn
  imports TcpOut
begin

text \<open>
  Segment sizes, buffer sizes and the start of a connection: the MSS functions, tcp_nip_connect_init and
  __tcp_nip_connect of src/src/linux/net/newip/tcp_nip_output.c; option parsing, tcp_nip_init_buffer_space and
  tcp_nip_initialize_rcv_mss of tcp_nip_input.c. Timestamps are never negotiated (no code sets saw_tstamp), so
  the branches that need them are left out.
\<close>

section \<open>Segment sizes\<close>

definition mtu_to_mss0 :: "tcp_env \<Rightarrow> int \<Rightarrow> tcp_nip_sock \<Rightarrow> int" where
  "mtu_to_mss0 e pmtu sk =
    (let mss_now = pmtu - comm_hdr_len e - TCPHDR_LEN - frag_header_len e;
         mss_now = (if mss_now > uint (mss_clamp sk) then uint (mss_clamp sk) else mss_now)
     in max (mss_now - ext_hdr_len e) (min_snd_mss e))"

definition tcp_nip_mtu_to_mss :: "tcp_env \<Rightarrow> int \<Rightarrow> tcp_nip_sock \<Rightarrow> int" where
  "tcp_nip_mtu_to_mss e pmtu sk = mtu_to_mss0 e pmtu sk - (uint (tcp_header_len sk) - TCPHDR_LEN)"

definition tcp_bound_to_half_wnd :: "tcp_nip_sock \<Rightarrow> int \<Rightarrow> int" where
  "tcp_bound_to_half_wnd sk pktsize =
    (let cutoff = (if max_window sk > TCP_MSS_DEFAULT then uint (max_window sk) div 2 else uint (max_window sk))
     in if cutoff \<noteq> 0 \<and> pktsize > cutoff then max cutoff (68 - uint (tcp_header_len sk)) else pktsize)"

definition tcp_nip_sync_mss :: "tcp_env \<Rightarrow> u32 \<Rightarrow> tcp_nip_sock \<Rightarrow> u32 \<times> tcp_nip_sock" where
  "tcp_nip_sync_mss e pmtu sk =
    (let mss_now = tcp_bound_to_half_wnd sk (tcp_nip_mtu_to_mss e (sint pmtu) sk);
         mss_now = (case mtup_search_low e of None \<Rightarrow> mss_now | Some low \<Rightarrow> min mss_now (tcp_nip_mtu_to_mss e low sk))
     in (of_int mss_now, sk\<lparr>pmtu_cookie := pmtu, mss_cache := of_int mss_now\<rparr>))"

definition tcp_nip_current_mss :: "tcp_env \<Rightarrow> tcp_nip_sock \<Rightarrow> u32 \<times> tcp_nip_sock" where
  "tcp_nip_current_mss e sk =
    (let (mss_now, sk) = (case dst_mtu e of
           None \<Rightarrow> (mss_cache sk, sk)
         | Some mtu \<Rightarrow> if mtu \<noteq> pmtu_cookie sk then tcp_nip_sync_mss e mtu sk else (mss_cache sk, sk));
         delta = of_int TCPHDR_LEN - tcp_header_len sk
     in (mss_now - delta, sk))"

definition TCP_MIN_MSS :: u32 where "TCP_MIN_MSS = 88"

definition tcp_nip_initialize_rcv_mss :: "tcp_nip_sock \<Rightarrow> tcp_nip_sock" where
  "tcp_nip_initialize_rcv_mss sk =
    (let hint = min (min (min (ucast (advmss sk)) (mss_cache sk)) (rcv_wnd sk div 2)) TCP_MSS_DEFAULT
     in sk\<lparr>rcv_mss := ucast (max hint TCP_MIN_MSS)\<rparr>)"

section \<open>Options of a SYN\<close>

definition tcp_nip_parse_mss :: "bool \<Rightarrow> bool \<Rightarrow> u16 \<Rightarrow> u16 \<Rightarrow> u16 \<Rightarrow> u16" where
  "tcp_nip_parse_mss syn estab umss in_mss clamp =
    (if syn \<and> \<not> estab \<and> in_mss \<noteq> 0 then if umss \<noteq> 0 \<and> umss < in_mss then umss else in_mss else clamp)"

text \<open>tcp_nip_parse_options: the value of mss_clamp after the options. The size byte of an option in
  the last byte of the options is read past them; the code returns whatever it reads there.\<close>

fun tcp_nip_parse_options :: "bool \<Rightarrow> bool \<Rightarrow> u16 \<Rightarrow> bytes \<Rightarrow> u16 \<Rightarrow> u16" where
  "tcp_nip_parse_options syn estab umss [] clamp = clamp"
| "tcp_nip_parse_options syn estab umss (opcode # rest) clamp =
    (if opcode = TCPOPT_EOL then clamp
     else if opcode = TCPOPT_NOP then tcp_nip_parse_options syn estab umss rest clamp
     else case rest of
         [] \<Rightarrow> clamp
       | opsize # body \<Rightarrow>
         if opsize < 2 \<or> unat opsize > length (opcode # rest) then clamp
         else
           let clamp = (if opcode = TCPOPT_MSS \<and> opsize = TCPOLEN_MSS
               then tcp_nip_parse_mss syn estab umss (or (push_bit 8 (ucast (body ! 0))) (ucast (body ! 1))) clamp else clamp)
           in tcp_nip_parse_options syn estab umss (drop (unat opsize - 2) body) clamp)"

definition tcp_clear_options :: "tcp_nip_sock \<Rightarrow> tcp_nip_sock" where
  "tcp_clear_options sk = sk\<lparr>wscale_ok := False, snd_wscale := 0\<rparr>"

section \<open>Buffers\<close>

definition TCP_BASE_MSS :: int where "TCP_BASE_MSS = 1024"
definition TCP_MAX_MSS :: int where "TCP_MAX_MSS = 1460"
definition TCP_INIT_CWND :: int where "TCP_INIT_CWND = 10"

definition tcp_default_init_rwnd :: "int \<Rightarrow> int" where
  "tcp_default_init_rwnd mss =
    (let init_rwnd = TCP_INIT_CWND * 2 in if mss > TCP_MAX_MSS then max ((TCP_MAX_MSS * init_rwnd) div mss) 2 else init_rwnd)"

definition tcp_nip_fixup_rcvbuf :: "tcp_env \<Rightarrow> tcp_nip_sock \<Rightarrow> tcp_nip_sock" where
  "tcp_nip_fixup_rcvbuf e sk =
    (let rcvmem = 2 * skb_truesize e TCP_BASE_MSS * tcp_default_init_rwnd TCP_BASE_MSS;
         rcvmem = (if tcp_moderate_rcvbuf e then rcvmem * 4 else rcvmem)
     in if sk_rcvbuf sk < rcvmem then sk\<lparr>sk_rcvbuf := min rcvmem (tcp_rmem_max e)\<rparr> else sk)"

definition clamp_to_space :: "tcp_env \<Rightarrow> tcp_nip_sock \<Rightarrow> tcp_nip_sock" where
  "clamp_to_space e sk =
    (let maxwin = tcp_full_space e sk; adv = uint (advmss sk); app_win = tcp_app_win e in
     if window_clamp sk \<ge> of_int maxwin
     then sk\<lparr>window_clamp := of_int (if app_win \<noteq> 0 \<and> maxwin > 4 * adv
       then max (maxwin - drop_bit app_win maxwin) (4 * adv) else maxwin)\<rparr> else sk)"

definition reserve_segment :: "tcp_env \<Rightarrow> tcp_nip_sock \<Rightarrow> tcp_nip_sock" where
  "reserve_segment e sk =
    (let maxwin = tcp_full_space e sk; adv = uint (advmss sk) in
     if tcp_app_win e \<noteq> 0 \<and> window_clamp sk > of_int (2 * adv) \<and> window_clamp sk + of_int adv > of_int maxwin
     then sk\<lparr>window_clamp := of_int (max (2 * adv) (maxwin - adv))\<rparr> else sk)"

definition tcp_nip_init_buffer_space :: "tcp_env \<Rightarrow> tcp_nip_sock \<Rightarrow> tcp_nip_sock" where
  "tcp_nip_init_buffer_space e sk =
    (let sk = (if \<not> rcvbuf_locked sk then tcp_nip_fixup_rcvbuf e sk else sk);
         sk = reserve_segment e (clamp_to_space e sk)
     in sk\<lparr>rcv_ssthresh := min (rcv_ssthresh sk) (window_clamp sk)\<rparr>)"

definition tcp_nip_finish_connect :: "tcp_env \<Rightarrow> tcp_nip_sock \<Rightarrow> tcp_nip_sock" where
  "tcp_nip_finish_connect e sk = tcp_nip_init_buffer_space e (sk\<lparr>sk_state := TCP_ESTABLISHED\<rparr>)"

section \<open>Connecting\<close>

definition tcp_mss_clamp :: "tcp_nip_sock \<Rightarrow> int \<Rightarrow> int" where
  "tcp_mss_clamp sk mss = (if user_mss sk \<noteq> 0 \<and> uint (user_mss sk) < mss then uint (user_mss sk) else mss)"

text \<open>tcp_nip_connect_init, with a route.\<close>

definition connect_init_mss :: "tcp_env \<Rightarrow> tcp_nip_sock \<Rightarrow> tcp_nip_sock" where
  "connect_init_mss e sk =
    (let sk = sk\<lparr>tcp_header_len := (if tcp_timestamps e then 32 else 20)\<rparr>;
         sk = (if user_mss sk \<noteq> 0 then sk\<lparr>mss_clamp := user_mss sk\<rparr> else sk);
         (mss, sk) = tcp_nip_sync_mss e (case dst_mtu e of Some mtu \<Rightarrow> mtu | None \<Rightarrow> 0) (sk\<lparr>max_window := 0\<rparr>);
         sk = sk\<lparr>mss_clamp := ucast mss\<rparr>;
         sk = (if window_clamp sk = 0 then sk\<lparr>window_clamp := dst_window e\<rparr> else sk)
     in tcp_nip_initialize_rcv_mss (sk\<lparr>advmss := of_int (tcp_mss_clamp sk (dst_advmss e))\<rparr>))"

definition tcp_nip_connect_init :: "tcp_env \<Rightarrow> tcp_nip_sock \<Rightarrow> tcp_nip_sock" where
  "tcp_nip_connect_init e sk =
    (let sk = connect_init_mss e sk; p = params e;
         (wnd, clamp, wsc) = select_initial_window e (tcp_full_space e sk) (uint (advmss sk)) (window_clamp sk);
         sk = sk\<lparr>rcv_wnd := wnd, window_clamp := clamp, rcv_wscale := (if wscale_enable p then nat (wscale p mod 16) else wsc),
           rcv_ssthresh := wnd, sk_err := 0, sock_done := False, snd_wnd := 0, snd_wl1 := 0\<rparr>;
         sk = tcp_nip_write_queue_purge sk
     in sk\<lparr>snd_una := write_seq sk, snd_up := write_seq sk, snd_nxt := write_seq sk, rcv_nxt := 0, rcv_wup := 0,
          copied_seq := 0, icsk_rto := nip_rto_init e, icsk_retransmits := 0\<rparr>)"

definition ECONNREFUSED :: int where "ECONNREFUSED = 111"

text \<open>__tcp_nip_connect.\<close>

definition tcp_nip_send_syn :: "tcp_env \<Rightarrow> bool \<Rightarrow> tcp_nip_sock \<Rightarrow> int \<times> tcp_nip_sock" where
  "tcp_nip_send_syn e alloc_ok sk =
    (let sk = tcp_nip_connect_init e sk in
     if \<not> alloc_ok then (- ENOBUFS, sk)
     else
       let buff = tcp_nip_init_nondata_skb (write_seq sk) TCPHDR_SYN;
           sk = inet_csk_clear_xmit_timers (sk\<lparr>write_seq := pkt_end_seq buff, packets_out := packets_out sk + pkt_pcount buff\<rparr>);
           (err, buff, sk) = tcp_nip_transmit_skb e True buff sk; sk = sk\<lparr>rtx_queue := rtx_queue sk @ [buff]\<rparr>
       in if err = - ECONNREFUSED then (err, sk)
       else (0, inet_csk_reset_xmit_timer e ICSK_TIME_RETRANS (icsk_rto sk) (sk\<lparr>snd_nxt := write_seq sk, pushed_seq := write_seq sk\<rparr>)))"

section \<open>Properties\<close>

lemma mss_bytes: "or (push_bit 8 (ucast (ucast (drop_bit 8 mss) :: u8))) (ucast (ucast mss :: u8)) = mss" for mss :: u16
proof (rule bit_word_eqI)
  fix n assume "n < LENGTH(16)"
  then consider "n < 8" | "8 \<le> n" "n < 16" by (simp, linarith)
  then show "bit (or (push_bit 8 (ucast (ucast (drop_bit 8 mss) :: u8))) (ucast (ucast mss :: u8)) :: u16) n = bit mss n"
    by cases (auto simp: bit_simps)
qed

text \<open>The segment size announced in a SYN is what the peer reads from its options, limited by the
  peer's own limit, whatever padding follows; options on other segments change nothing.\<close>

theorem mss_option_roundtrip:
  assumes "mss \<noteq> 0"
  shows "tcp_nip_parse_options True False umss (tcp_nip_options_write mss @ replicate n TCPOPT_EOL) clamp =
      (if umss \<noteq> 0 \<and> umss < mss then umss else mss) \<and>
    tcp_nip_parse_options False estab umss (tcp_nip_options_write mss @ replicate n TCPOPT_EOL) clamp = clamp"
proof -
  have t: "tcp_nip_parse_options syn estab umss (replicate n TCPOPT_EOL) c = c" for syn estab c by (cases n) simp_all
  have k: "TCPOPT_MSS \<noteq> TCPOPT_EOL" "TCPOPT_MSS \<noteq> TCPOPT_NOP" "\<not> TCPOLEN_MSS < 2" "unat TCPOLEN_MSS = 4"
    by (simp_all add: TCPOPT_MSS_def TCPOPT_EOL_def TCPOPT_NOP_def TCPOLEN_MSS_def)
  show ?thesis using assms by (simp add: tcp_nip_options_write_def tcp_nip_parse_mss_def t k mss_bytes)
qed

lemma mss_option_roundtrip_witness:
  "tcp_nip_parse_options True False 0 (tcp_nip_options_write 1460 @ replicate 2 TCPOPT_EOL) 536 = 1460"
  using mss_option_roundtrip [of 1460 0 2 536 False] by simp

text \<open>A segment of the size tcp_nip_mtu_to_mss computes fits the path MTU with the network header and the
  TCP header of the connection, unless the MTU leaves less than the smallest segment size of the system; it
  never exceeds the size the peer announced.\<close>

theorem segment_fits_mtu:
  assumes "0 \<le> frag_header_len e" "0 \<le> ext_hdr_len e"
    and "min_snd_mss e \<le> pmtu - comm_hdr_len e - TCPHDR_LEN - frag_header_len e - ext_hdr_len e"
    and "min_snd_mss e \<le> uint (mss_clamp sk) - ext_hdr_len e"
  shows "comm_hdr_len e + uint (tcp_header_len sk) + frag_header_len e + ext_hdr_len e + tcp_nip_mtu_to_mss e pmtu sk \<le> pmtu \<and>
    tcp_nip_mtu_to_mss e pmtu sk + (uint (tcp_header_len sk) - TCPHDR_LEN) \<le> uint (mss_clamp sk)"
  using assms by (auto simp: tcp_nip_mtu_to_mss_def mtu_to_mss0_def Let_def)

lemma segment_fits_mtu_witness:
  "12 + 32 + tcp_nip_mtu_to_mss ex_env 1500 (zero_sock\<lparr>mss_clamp := 1460, tcp_header_len := 32\<rparr>) \<le> 1500"
  using segment_fits_mtu [of ex_env 1500 "zero_sock\<lparr>mss_clamp := 1460, tcp_header_len := 32\<rparr>"]
  by (simp add: ex_env_def comm_hdr_len_def TCPHDR_LEN_def)

end
