(* ===== verification/TcpIn.thy ===== *)
theory TcpIn
  imports TcpRecv TcpAck TcpConn
begin

text \<open>
  The input state machine: acknowledgments sent in return, checks of a segment, RST, the SYN_SENT state and
  tcp_nip_rcv_state_process of src/src/linux/net/newip/tcp_nip_input.c. conn_request, what the listening socket does
  with a SYN, is modelled in TcpReq; here only its answer counts. The parameter dup_ack_snd_max, which the code
  divides by, is not zero.
\<close>

section \<open>Acknowledging\<close>

definition tcp_nip_push_pending_frames :: "tcp_env \<Rightarrow> tcp_nip_sock \<Rightarrow> tcp_nip_sock" where
  "tcp_nip_push_pending_frames e sk = (if send_queue sk \<noteq> [] then tcp_nip_push_pending e (cur_mss e) sk else sk)"

definition tcp_nip_data_snd_check :: "tcp_env \<Rightarrow> tcp_nip_sock \<Rightarrow> tcp_nip_sock" where
  "tcp_nip_data_snd_check e sk = tcp_nip_push_pending_frames e sk"

definition tcp_nip_send_delayed_ack :: "tcp_env \<Rightarrow> tcp_nip_sock \<Rightarrow> tcp_nip_sock" where
  "tcp_nip_send_delayed_ack e sk =
    (let ato = of_nat (HZ e div 50); timeout = jiffies e + ato in
     if ack_timer sk \<and> \<not> time_after (ack_timeout sk) (jiffies e + drop_bit 2 ato) then tcp_nip_send_ack e sk
     else
       let timeout = (if ack_timer sk \<and> \<not> time_after (ack_timeout sk) timeout then ack_timeout sk else timeout)
       in sk\<lparr>ack_sched := True, ack_timer := True, ack_timeout := timeout\<rparr>)"

definition tcp_nip_ack_snd_check :: "tcp_env \<Rightarrow> tcp_nip_sock \<Rightarrow> tcp_nip_sock" where
  "tcp_nip_ack_snd_check e sk =
    (if \<not> ack_sched sk then sk
     else
       let p = params e; sk = sk\<lparr>rcv_mss := ucast (cur_mss e)\<rparr>; ofo = (ofo_queue sk \<noteq> []) in
       if (rcv_nxt sk - rcv_wup sk > of_int (ack_num p) * ucast (rcv_mss sk) \<and> nip_new_window e sk \<ge> rcv_wnd sk) \<or> ofo then
         (if ofo then
            let sk = (if rcv_nxt sk = last_rcv_nxt sk then sk\<lparr>dup_ack_cnt := dup_ack_cnt sk + 1\<rparr>
                  else sk\<lparr>dup_ack_cnt := 0, last_rcv_nxt := rcv_nxt sk\<rparr>)
            in if dup_ack_cnt sk < of_int (dup_ack_snd_max p) \<or> dup_ack_cnt sk mod of_int (dup_ack_snd_max p) = 0
               then tcp_nip_send_ack e sk else sk
          else tcp_nip_send_ack e sk)
       else tcp_nip_send_delayed_ack e sk)"

section \<open>Checks of a segment\<close>

definition ECONNRESET :: int where "ECONNRESET = 104"
definition EPIPE :: int where "EPIPE = 32"

definition tcp_nip_sequence :: "tcp_nip_sock \<Rightarrow> u32 \<Rightarrow> u32 \<Rightarrow> bool" where
  "tcp_nip_sequence sk seq end_seq \<longleftrightarrow>
     \<not> before end_seq (rcv_wup sk) \<and> \<not> after seq (rcv_nxt sk + tcp_receive_window sk)"

definition tcp_nip_reset :: "tcp_nip_sock \<Rightarrow> tcp_nip_sock" where
  "tcp_nip_reset sk =
    (if sk_state sk = TCP_CLOSE then sk
     else
       let err = (case sk_state sk of TCP_SYN_SENT \<Rightarrow> ECONNREFUSED | TCP_CLOSE_WAIT \<Rightarrow> EPIPE | _ \<Rightarrow> ECONNRESET)
       in tcp_nip_done (tcp_nip_write_queue_purge (sk\<lparr>sk_err := err\<rparr>)))"

definition tcp_nip_reset_check :: "tcp_nip_sock \<Rightarrow> tcp_skb \<Rightarrow> bool" where
  "tcp_nip_reset_check sk skb \<longleftrightarrow>
     pkt_seq skb = rcv_nxt sk - 1 \<and> (sk_state sk = TCP_CLOSE_WAIT \<or> sk_state sk = TCP_LAST_ACK \<or> sk_state sk = TCP_CLOSING)"

definition tcp_nip_validate_incoming :: "tcp_env \<Rightarrow> tcp_skb \<Rightarrow> tcp_nip_sock \<Rightarrow> bool \<times> tcp_nip_sock" where
  "tcp_nip_validate_incoming e skb sk =
    (let rst = flag (pkt_flags skb) TCPHDR_RST in
     if \<not> tcp_nip_sequence sk (pkt_seq skb) (pkt_end_seq skb) then
       (False, if \<not> rst then tcp_nip_send_ack e sk else if tcp_nip_reset_check sk skb then tcp_nip_reset sk else sk)
     else if rst then (False, if pkt_seq skb = rcv_nxt sk \<or> tcp_nip_reset_check sk skb then tcp_nip_reset sk else sk)
     else (True, sk))"

section \<open>Input\<close>

definition tcp_nip_rcv_established :: "tcp_env \<Rightarrow> tcp_skb \<Rightarrow> tcp_nip_sock \<Rightarrow> tcp_nip_sock" where
  "tcp_nip_rcv_established e skb sk =
    (case tcp_nip_validate_incoming e skb sk of
       (False, sk) \<Rightarrow> sk
     | (True, sk) \<Rightarrow>
       let (ret, sk) = tcp_nip_ack e skb sk in
       if ret < 0 then sk
       else tcp_nip_ack_snd_check e (tcp_nip_data_snd_check e (tcp_nip_data_queue e skb sk)))"

text \<open>tcp_nip_rcv_synsent_state_process, where an acceptable SYN-ACK arrives.\<close>

definition synsent_established :: "tcp_env \<Rightarrow> tcp_skb \<Rightarrow> tcp_nip_sock \<Rightarrow> tcp_nip_sock" where
  "synsent_established e skb sk =
    (let (_, sk) = tcp_nip_ack e skb (sk\<lparr>snd_wl1 := pkt_seq skb\<rparr>); p = params e;
         sk = sk\<lparr>ofo_queue := [], rcv_nxt := pkt_seq skb + 1, rcv_wup := pkt_seq skb + 1, snd_wnd := ucast (th_window skb)\<rparr>;
         sk = (if wscale_enable p
           then sk\<lparr>wscale_ok := True, snd_wscale := nat (wscale p mod 16), rcv_wscale := nat (wscale p mod 16)\<rparr> else sk);
         sk = (if \<not> wscale_ok sk then sk\<lparr>snd_wscale := 0, rcv_wscale := 0, window_clamp := min (window_clamp sk) 65535\<rparr> else sk);
         sk = sk\<lparr>tcp_header_len := 20, copied_seq := rcv_nxt sk\<rparr>;
         (_, sk) = tcp_nip_sync_mss e (pmtu_cookie sk) sk
     in tcp_nip_send_ack e (tcp_nip_finish_connect e (tcp_nip_initialize_rcv_mss sk)))"

definition tcp_nip_rcv_synsent_state_process :: "tcp_env \<Rightarrow> tcp_skb \<Rightarrow> tcp_nip_sock \<Rightarrow> int \<times> tcp_nip_sock" where
  "tcp_nip_rcv_synsent_state_process e skb sk =
    (let saved_clamp = mss_clamp sk; f = pkt_flags skb; syn = flag f TCPHDR_SYN;
         undo = (\<lambda>sk. (tcp_clear_options sk)\<lparr>mss_clamp := saved_clamp\<rparr>);
         sk = sk\<lparr>mss_clamp := tcp_nip_parse_options syn False (user_mss sk) (th_opts skb) (mss_clamp sk)\<rparr>
     in if \<not> flag f TCPHDR_ACK then (0, undo sk)
     else if \<not> after (pkt_ack_seq skb) (snd_una sk) \<or> after (pkt_ack_seq skb) (snd_nxt sk) then (1, undo sk)
     else if flag f TCPHDR_RST then (0, tcp_nip_reset sk)
     else if \<not> syn then (0, undo sk)
     else (-1, synsent_established e skb sk))"

text \<open>The first switch of tcp_nip_rcv_state_process after an acknowledgment: None when the function
  goes on, otherwise the value it returns.\<close>

definition data_beyond :: "tcp_nip_sock \<Rightarrow> tcp_skb \<Rightarrow> bool" where
  "data_beyond sk skb \<longleftrightarrow> pkt_end_seq skb \<noteq> pkt_seq skb \<and>
     after (pkt_end_seq skb - (if flag (pkt_flags skb) TCPHDR_FIN then 1 else 0)) (rcv_nxt sk)"

definition rcv_state_ack :: "tcp_env \<Rightarrow> tcp_skb \<Rightarrow> tcp_nip_sock \<Rightarrow> int option \<times> tcp_nip_sock" where
  "rcv_state_ack e skb sk =
    (case sk_state sk of
       TCP_SYN_RECV \<Rightarrow>
         (let sk = tcp_nip_init_buffer_space e (sk\<lparr>copied_seq := rcv_nxt sk\<rparr>);
              sk = sk\<lparr>sk_state := TCP_ESTABLISHED, snd_una := pkt_ack_seq skb,
                snd_wnd := push_bit (snd_wscale sk) (ucast (th_window skb)), snd_wl1 := pkt_seq skb\<rparr>
          in (None, tcp_nip_initialize_rcv_mss sk))
     | TCP_FIN_WAIT1 \<Rightarrow>
         if snd_una sk \<noteq> write_seq sk then (None, sk)
         else
           let sk = sk\<lparr>sk_state := TCP_FIN_WAIT2, snd_shutdown := True\<rparr> in
           if data_beyond sk skb then (Some 1, tcp_nip_done sk)
           else (None, inet_csk_reset_keepalive_timer (of_nat (10 * HZ e)) sk)
     | TCP_CLOSING \<Rightarrow>
         if snd_una sk = write_seq sk then (Some 0, inet_csk_reset_keepalive_timer (TCP_TIMEWAIT_LEN e) sk) else (None, sk)
     | TCP_LAST_ACK \<Rightarrow> if snd_una sk = write_seq sk then (Some 0, tcp_nip_done sk) else (None, sk)
     | _ \<Rightarrow> (None, sk))"

text \<open>The second switch: the data of the segment.\<close>

definition rcv_state_data :: "tcp_env \<Rightarrow> tcp_skb \<Rightarrow> tcp_nip_sock \<Rightarrow> int option \<times> tcp_nip_sock" where
  "rcv_state_data e skb sk =
    (let st = sk_state sk; late = (st = TCP_CLOSE_WAIT \<or> st = TCP_CLOSING \<or> st = TCP_LAST_ACK) in
     if late \<and> \<not> before (pkt_seq skb) (rcv_nxt sk) then (None, sk)
     else if late \<or> st = TCP_FIN_WAIT1 \<or> st = TCP_FIN_WAIT2 then
       (if rcv_shutdown sk \<and> data_beyond sk skb then (Some 1, tcp_nip_reset sk) else (None, tcp_nip_data_queue e skb sk))
     else if st = TCP_ESTABLISHED then (None, tcp_nip_data_queue e skb sk)
     else (None, sk))"

definition rcv_state_tail :: "tcp_env \<Rightarrow> tcp_skb \<Rightarrow> tcp_nip_sock \<Rightarrow> int \<times> tcp_nip_sock" where
  "rcv_state_tail e skb sk =
    (case rcv_state_ack e skb sk of
       (Some r, sk) \<Rightarrow> (r, sk)
     | (None, sk) \<Rightarrow>
       (case rcv_state_data e skb sk of
          (Some r, sk) \<Rightarrow> (r, sk)
        | (None, sk) \<Rightarrow>
          (0, if sk_state sk \<noteq> TCP_CLOSE then tcp_nip_ack_snd_check e (tcp_nip_data_snd_check e sk) else sk)))"

text \<open>tcp_nip_rcv_state_process. The answer -1 of tcp_nip_ack, an acknowledgment of data never sent,
  becomes true when it is stored in the bool acceptable.\<close>

definition tcp_nip_rcv_state_process ::
  "tcp_env \<Rightarrow> (tcp_skb \<Rightarrow> tcp_nip_sock \<Rightarrow> int \<times> tcp_nip_sock) \<Rightarrow> tcp_skb \<Rightarrow> tcp_nip_sock \<Rightarrow> int \<times> tcp_nip_sock" where
  "tcp_nip_rcv_state_process e conn_request skb sk =
    (let f = pkt_flags skb; syn = flag f TCPHDR_SYN; ack = flag f TCPHDR_ACK; rst = flag f TCPHDR_RST in
     case sk_state sk of
       TCP_CLOSE \<Rightarrow> (0, sk)
     | TCP_LISTEN \<Rightarrow>
         if ack then (1, sk)
         else if rst then (0, sk)
         else if syn \<and> \<not> flag f TCPHDR_FIN then
           let (ret, sk) = conn_request skb sk in if ret \<ge> 0 then (0, sk) else (1, sk)
         else (0, sk)
     | TCP_SYN_SENT \<Rightarrow>
         let (queued, sk) = tcp_nip_rcv_synsent_state_process e skb sk in if queued \<ge> 0 then (queued, sk) else (0, sk)
     | _ \<Rightarrow>
         if \<not> ack \<and> \<not> rst \<and> \<not> syn then (0, sk)
         else case tcp_nip_validate_incoming e skb sk of
             (False, sk) \<Rightarrow> (0, sk)
           | (True, sk) \<Rightarrow>
             let (ret, sk) = tcp_nip_ack e skb sk; acceptable = (ret \<noteq> 0) in
             if \<not> acceptable then (if sk_state sk = TCP_SYN_RECV then 1 else 0, sk)
             else rcv_state_tail e skb sk)"

section \<open>What keeps the state of the connection\<close>

lemma clear_timers_state [simp]:
  "sk_state (inet_csk_schedule_ack sk) = sk_state sk" "sk_state (inet_csk_clear_dack sk) = sk_state sk"
  "sk_state (inet_csk_reset_xmit_timer e w t sk) = sk_state sk" "sk_state (inet_csk_clear_xmit_timer sk) = sk_state sk"
  "sk_state (inet_csk_reset_keepalive_timer l sk) = sk_state sk" "sk_state (inet_csk_clear_xmit_timers sk) = sk_state sk"
  "sk_state (tcp_nip_write_queue_purge sk) = sk_state sk"
  by (simp_all add: inet_csk_schedule_ack_def inet_csk_clear_dack_def inet_csk_reset_xmit_timer_def inet_csk_clear_xmit_timer_def
      inet_csk_reset_keepalive_timer_def inet_csk_clear_xmit_timers_def tcp_nip_write_queue_purge_def)

lemma transmit_state [simp]:
  "sk_state (snd (snd (tcp_nip_transmit e c n skb sk))) = sk_state sk" "sk_state (snd (snd (tcp_nip_transmit_skb e c skb sk))) = sk_state sk"
  by (simp_all add: tcp_nip_transmit_skb_def transmit_keeps)

lemma send_ack_state [simp]: "sk_state (tcp_nip_send_ack e sk) = sk_state sk"
  by (simp add: tcp_nip_send_ack_def)

lemma rearm_state [simp]: "sk_state (tcp_nip_rearm_rto e sk) = sk_state sk"
  by (simp add: tcp_nip_rearm_rto_def)

lemma keepalive_state [simp]:
  "sk_state (tcp_set_keepalive e v sk) = sk_state sk" "sk_state (snd (tcp_nip_keepalive_para_update e t i p sk)) = sk_state sk"
  "sk_state (tcp_nip_keepalive_enable e sk) = sk_state sk"
  by (simp_all add: tcp_set_keepalive_def tcp_nip_keepalive_para_update_def tcp_nip_keepalive_enable_def Let_def split_beta)

lemma new_data_state [simp]: "sk_state (tcp_nip_event_new_data_sent e skb sk) = sk_state sk"
  by (simp add: tcp_nip_event_new_data_sent_def Let_def)

lemma xmit_loop_state [simp]: "sk_state (write_xmit_loop e mss one n q sk) = sk_state sk"
  by (induction q arbitrary: n sk one) (simp_all add: Let_def split_beta)

lemma push_state [simp]:
  "sk_state (tcp_nip_push_pending e mss sk) = sk_state sk" "sk_state (tcp_nip_data_snd_check e sk) = sk_state sk"
proof -
  show p: "sk_state (tcp_nip_push_pending e mss sk) = sk_state sk" for mss
    by (simp add: tcp_nip_push_pending_def tcp_nip_write_xmit_def tcp_nip_check_probe_timer_def Let_def split: bool.split)
  show "sk_state (tcp_nip_data_snd_check e sk) = sk_state sk"
    by (simp add: tcp_nip_data_snd_check_def tcp_nip_push_pending_frames_def p)
qed

lemma ack_snd_check_state [simp]: "sk_state (tcp_nip_ack_snd_check e sk) = sk_state sk"
  by (simp add: tcp_nip_ack_snd_check_def tcp_nip_send_delayed_ack_def Let_def)

lemma retransmit_state [simp]: "sk_state (snd (tcp_nip_retransmit_skb e n sk)) = sk_state sk"
proof -
  have "sk_state (snd (snd (tcp_nip_retransmit0 e skb sk))) = sk_state sk" for skb
    by (simp add: tcp_nip_retransmit0_def Let_def split_beta split: option.split)
  then show ?thesis by (simp add: tcp_nip_retransmit_skb_def Let_def split_beta)
qed

lemma ack_retrans_state [simp]: "sk_state (tcp_nip_ack_retrans e r sk) = sk_state sk"
proof -
  have "sk_state (ack_retrans_loop e r i n m sk) = sk_state sk" for i n m sk
    by (induction n arbitrary: i m sk) (simp_all add: Let_def split_beta ack_retrans_stop_def)
  then show ?thesis by (simp add: tcp_nip_ack_retrans_def)
qed

lemma clean_rtx_state [simp]: "sk_state (snd (tcp_nip_clean_rtx_queue e sk)) = sk_state sk"
proof -
  have "sk_state (snd (snd (clean_rtx_loop q acked ts sk))) = sk_state sk" for q acked ts sk
    by (induction q arbitrary: acked ts sk) (simp_all add: Let_def)
  then show ?thesis by (simp add: tcp_nip_clean_rtx_queue_def Let_def split_beta)
qed

lemma ack_parts_state [simp]:
  "sk_state (tcp_nip_ack_update_window skb a s sk) = sk_state sk" "sk_state (tcp_nip_ack_probe e sk) = sk_state sk"
  "sk_state (tcp_nip_dup_ack_retrans e skb a r sk) = sk_state sk" "sk_state (tcp_nip_nor_ack_retrans e a r sk) = sk_state sk"
  "sk_state (tcp_nip_ack_calc_ssthresh e a t sk) = sk_state sk"
  by (simp_all add: tcp_nip_ack_update_window_def tcp_nip_ack_probe_def tcp_nip_dup_ack_retrans_def
      tcp_nip_nor_ack_retrans_def ack_retrans_stop_def tcp_nip_ack_calc_ssthresh_def Let_def)

lemma ack_state [simp]: "sk_state (snd (tcp_nip_ack e skb sk)) = sk_state sk"
  by (simp add: tcp_nip_ack_def tcp_nip_new_ack_def Let_def split_beta)

lemma done_state [simp]: "sk_state (tcp_nip_done sk) = TCP_CLOSE"
  by (simp add: tcp_nip_done_def Let_def sk_nip_stream_kill_queues_def tcp_nip_destroy_sock_def)

lemma reset_state [simp]: "sk_state (tcp_nip_reset sk) = TCP_CLOSE"
  by (simp add: tcp_nip_reset_def Let_def)

lemma buffer_parts_state [simp]:
  "sk_state (tcp_nip_fixup_rcvbuf e sk) = sk_state sk" "sk_state (clamp_to_space e sk) = sk_state sk"
  "sk_state (reserve_segment e sk) = sk_state sk" "sk_state (tcp_nip_initialize_rcv_mss sk) = sk_state sk"
  "sk_state (snd (tcp_nip_sync_mss e m sk)) = sk_state sk"
  by (simp_all add: tcp_nip_fixup_rcvbuf_def clamp_to_space_def reserve_segment_def tcp_nip_initialize_rcv_mss_def
      tcp_nip_sync_mss_def Let_def)

lemma buffer_space_state [simp]: "sk_state (tcp_nip_init_buffer_space e sk) = sk_state sk"
  by (simp add: tcp_nip_init_buffer_space_def Let_def)

text \<open>The effect of a FIN on the state.\<close>

definition fin_next :: "tcp_state \<Rightarrow> tcp_state" where
  "fin_next s = (case s of TCP_SYN_RECV \<Rightarrow> TCP_CLOSE_WAIT | TCP_ESTABLISHED \<Rightarrow> TCP_CLOSE_WAIT | TCP_FIN_WAIT1 \<Rightarrow> TCP_CLOSING | _ \<Rightarrow> s)"

lemma fin_next_idem [simp]: "fin_next (fin_next s) = fin_next s"
  by (cases s) (simp_all add: fin_next_def)

lemma fin_state [simp]: "sk_state (tcp_nip_fin e sk) = fin_next (sk_state sk)"
  by (simp add: tcp_nip_fin_def fin_next_def Let_def split: tcp_state.split)

lemma ofo_loop_state: "sk_state (ofo_queue_loop e q sk) \<in> {sk_state sk, fin_next (sk_state sk)}"
proof (induction q arbitrary: sk)
  case (Cons skb q)
  then show ?case using Cons.IH [of "sk\<lparr>rcv_queue := append_skb e skb (rcv_queue sk), rcv_nxt := pkt_end_seq skb\<rparr>"]
    by (simp add: Let_def)
qed simp

lemma data_queue_state: "sk_state (tcp_nip_data_queue e skb sk) \<in> {sk_state sk, fin_next (sk_state sk)}"
proof -
  have q: "sk_state (queue_in_order e skb sk) \<in> {sk_state sk, fin_next (sk_state sk)}" for sk
  proof -
    have "sk_state (tcp_nip_ofo_queue e x) \<in> {sk_state x, fin_next (sk_state x)}" for x
      unfolding tcp_nip_ofo_queue_def by (rule ofo_loop_state)
    from this [of "inet_csk_schedule_ack (sk\<lparr>rcv_queue := r, rcv_nxt := n\<rparr>)" for r n]
      this [of "tcp_nip_fin e (inet_csk_schedule_ack (sk\<lparr>rcv_queue := r, rcv_nxt := n\<rparr>))" for r n]
    show ?thesis by (auto simp: queue_in_order_def Let_def)
  qed
  show ?thesis
    using q [of "sk\<lparr>snd_up := discard_count e skb sk\<rparr>"]
    by (simp add: tcp_nip_data_queue_def tcp_nip_data_queue_ofo_def Let_def)
qed

section \<open>The transitions of a connection\<close>

inductive rcv_edge :: "tcp_state \<Rightarrow> tcp_state \<Rightarrow> bool" where
  opened: "rcv_edge TCP_SYN_SENT TCP_ESTABLISHED"
| accepted: "rcv_edge TCP_SYN_RECV TCP_ESTABLISHED"
| accepted_fin: "rcv_edge TCP_SYN_RECV TCP_CLOSE_WAIT"
| peer_closed: "rcv_edge TCP_ESTABLISHED TCP_CLOSE_WAIT"
| fin_acked: "rcv_edge TCP_FIN_WAIT1 TCP_FIN_WAIT2"
| both_closed: "rcv_edge TCP_FIN_WAIT1 TCP_CLOSING"
| over: "s \<noteq> TCP_LISTEN \<Longrightarrow> rcv_edge s TCP_CLOSE"

code_pred rcv_edge .

inductive_cases rcv_edge_to_CLOSE_WAIT [elim!]: "rcv_edge s TCP_CLOSE_WAIT"
inductive_simps rcv_edge_simps:
  "rcv_edge s TCP_ESTABLISHED" "rcv_edge s TCP_CLOSE_WAIT" "rcv_edge s TCP_FIN_WAIT2" "rcv_edge s TCP_CLOSING" "rcv_edge s TCP_CLOSE"
  "rcv_edge s TCP_TIME_WAIT" "rcv_edge s TCP_LISTEN" "rcv_edge s TCP_SYN_SENT" "rcv_edge s TCP_SYN_RECV" "rcv_edge s TCP_FIN_WAIT1"
  "rcv_edge s TCP_LAST_ACK" "rcv_edge s TCP_NEW_SYN_RECV"

lemma validate_state:
  assumes "tcp_nip_validate_incoming e skb sk = (ok, sk')"
  shows "sk_state sk' = sk_state sk \<or> \<not> ok \<and> sk_state sk' = TCP_CLOSE"
  using assms by (auto simp: tcp_nip_validate_incoming_def Let_def split: if_splits)

lemma synsent_state:
  assumes "tcp_nip_rcv_synsent_state_process e skb sk = (r, sk')" "sk_state sk = TCP_SYN_SENT"
  shows "sk_state sk' \<in> {TCP_SYN_SENT, TCP_CLOSE, TCP_ESTABLISHED}"
proof -
  have "sk_state (synsent_established e skb x) = TCP_ESTABLISHED" for x
    by (simp add: synsent_established_def tcp_nip_finish_connect_def Let_def split_beta)
  then show ?thesis using assms
    by (auto simp: tcp_nip_rcv_synsent_state_process_def tcp_clear_options_def Let_def split: if_splits)
qed

lemma state_ack_state:
  assumes "rcv_state_ack e skb sk = (r, sk')"
  shows "sk_state sk' = sk_state sk \<or> sk_state sk = TCP_SYN_RECV \<and> sk_state sk' = TCP_ESTABLISHED \<or>
    sk_state sk = TCP_FIN_WAIT1 \<and> sk_state sk' \<in> {TCP_FIN_WAIT2, TCP_CLOSE} \<or> sk_state sk = TCP_LAST_ACK \<and> sk_state sk' = TCP_CLOSE"
  using assms by (auto simp: rcv_state_ack_def Let_def split: tcp_state.splits if_splits)

lemma state_data_state:
  assumes "rcv_state_data e skb sk = (r, sk')"
  shows "sk_state sk' \<in> {sk_state sk, fin_next (sk_state sk)} \<or> sk_state sk \<notin> {TCP_LISTEN, TCP_SYN_RECV} \<and> sk_state sk' = TCP_CLOSE"
  using assms data_queue_state [of e skb sk] by (auto simp: rcv_state_data_def Let_def split: if_splits)


section \<open>The backlog handler\<close>

text \<open>tcp_nip_do_rcv of tcp_nip.c, without the cache of the receive route.\<close>

definition tcp_nip_do_rcv ::
  "tcp_env \<Rightarrow> (tcp_skb \<Rightarrow> tcp_nip_sock \<Rightarrow> int \<times> tcp_nip_sock) \<Rightarrow> tcp_skb \<Rightarrow> tcp_nip_sock \<Rightarrow> tcp_nip_sock" where
  "tcp_nip_do_rcv e conn_request skb sk =
    (if sk_state sk = TCP_ESTABLISHED then tcp_nip_rcv_established e skb sk
     else snd (tcp_nip_rcv_state_process e conn_request skb sk))"

lemma established_state: "sk_state sk = TCP_ESTABLISHED \<Longrightarrow>
   sk_state (tcp_nip_rcv_established e skb sk) \<in> {TCP_ESTABLISHED, TCP_CLOSE_WAIT, TCP_CLOSE}"
proof -
  assume s: "sk_state sk = TCP_ESTABLISHED"
  obtain ok sk1 where v: "tcp_nip_validate_incoming e skb sk = (ok, sk1)" by fastforce
  obtain r sk2 where a: "tcp_nip_ack e skb sk1 = (r, sk2)" by fastforce
  have "sk_state sk2 = sk_state sk1" using ack_state [of e skb sk1] a by simp
  then show ?thesis
    using validate_state [OF v] data_queue_state [of e skb sk2] s v a
    by (cases ok) (auto simp: tcp_nip_rcv_established_def fin_next_def)
qed

lemma tail_edge:
  assumes "rcv_state_tail e skb sk = (r, sk')" "sk_state sk \<noteq> TCP_LISTEN"
  shows "sk_state sk' = sk_state sk \<or> rcv_edge (sk_state sk) (sk_state sk')"
proof -
  obtain r1 sk1 where 1: "rcv_state_ack e skb sk = (r1, sk1)" by fastforce
  obtain r2 sk2 where 2: "rcv_state_data e skb sk1 = (r2, sk2)" by fastforce
  have "sk_state sk' = sk_state sk1 \<or> sk_state sk' = sk_state sk2"
    using assms(1) by (auto simp: rcv_state_tail_def 1 2 split: option.splits if_splits)
  then show ?thesis
    using state_ack_state [OF 1] state_data_state [OF 2] assms(2)
    by (cases "sk_state sk"; auto simp: fin_next_def intro: rcv_edge.intros)
qed

lemma process_edge:
  assumes "sk_state sk = TCP_LISTEN \<Longrightarrow> sk_state (snd (conn_request skb sk)) = TCP_LISTEN"
  shows "sk_state (snd (tcp_nip_rcv_state_process e conn_request skb sk)) = sk_state sk \<or>
    rcv_edge (sk_state sk) (sk_state (snd (tcp_nip_rcv_state_process e conn_request skb sk)))"
proof -
  obtain ok sk1 where v: "tcp_nip_validate_incoming e skb sk = (ok, sk1)" by fastforce
  obtain r sk2 where a: "tcp_nip_ack e skb sk1 = (r, sk2)" by fastforce
  obtain r3 sk3 where t: "rcv_state_tail e skb sk2 = (r3, sk3)" by fastforce
  obtain q sk4 where y: "tcp_nip_rcv_synsent_state_process e skb sk = (q, sk4)" by fastforce
  obtain c sk5 where l: "conn_request skb sk = (c, sk5)" by fastforce
  have s2: "sk_state sk2 = sk_state sk1" using ack_state [of e skb sk1] a by simp
  consider "sk_state sk = TCP_CLOSE" | "sk_state sk = TCP_LISTEN" | "sk_state sk = TCP_SYN_SENT"
    | "sk_state sk \<notin> {TCP_CLOSE, TCP_LISTEN, TCP_SYN_SENT}" by auto
  then show ?thesis
  proof cases
    case 1
    then show ?thesis by (simp add: tcp_nip_rcv_state_process_def)
  next
    case 2
    then show ?thesis using assms l by (simp add: tcp_nip_rcv_state_process_def Let_def)
  next
    case 3
    then show ?thesis using synsent_state [OF y 3] y
      by (auto simp: tcp_nip_rcv_state_process_def Let_def intro: rcv_edge.intros)
  next
    case 4
    have "sk_state sk1 \<noteq> TCP_LISTEN" if ok using validate_state [OF v] that 4 by auto
    then have e: "ok \<Longrightarrow> sk_state sk3 = sk_state sk \<or> rcv_edge (sk_state sk) (sk_state sk3)"
      using tail_edge [OF t] s2 validate_state [OF v] by auto
    have "snd (tcp_nip_rcv_state_process e conn_request skb sk) \<in> {sk, sk1} \<or> ok \<and> snd (tcp_nip_rcv_state_process e conn_request skb sk) \<in> {sk2, sk3}"
      using 4 by (cases "sk_state sk"; cases ok; simp add: tcp_nip_rcv_state_process_def Let_def v a t)
    then show ?thesis using e s2 validate_state [OF v] 4 by (auto intro: rcv_edge.over)
  qed
qed

text \<open>C14: A received segment moves a connection only along the edges of rcv_edge: from SYN_SENT and SYN_RECV to
  ESTABLISHED, to CLOSE_WAIT by a FIN, from FIN_WAIT1 to FIN_WAIT2 or CLOSING, and to CLOSE. No segment brings
  a socket to TIME_WAIT (a comment of tcp_nip_fin says it enters it), and a closed socket stays closed.\<close>

theorem received_segment_moves_along_edges:
  assumes "sk_state sk = TCP_LISTEN \<Longrightarrow> sk_state (snd (conn_request skb sk)) = TCP_LISTEN"
  shows "(sk_state (tcp_nip_do_rcv e conn_request skb sk) = sk_state sk \<or>
      rcv_edge (sk_state sk) (sk_state (tcp_nip_do_rcv e conn_request skb sk))) \<and>
    (sk_state sk \<noteq> TCP_TIME_WAIT \<longrightarrow> sk_state (tcp_nip_do_rcv e conn_request skb sk) \<noteq> TCP_TIME_WAIT) \<and>
    (sk_state sk = TCP_CLOSE \<longrightarrow> tcp_nip_do_rcv e conn_request skb sk = sk)"
proof -
  have 1: "sk_state (tcp_nip_do_rcv e conn_request skb sk) = sk_state sk \<or>
      rcv_edge (sk_state sk) (sk_state (tcp_nip_do_rcv e conn_request skb sk))"
  proof (cases "sk_state sk = TCP_ESTABLISHED")
    case True
    then show ?thesis using established_state [of sk e skb] by (auto simp: tcp_nip_do_rcv_def intro: rcv_edge.intros)
  next
    case False
    then show ?thesis using process_edge [of sk conn_request skb e] assms by (simp add: tcp_nip_do_rcv_def)
  qed
  moreover have "sk_state sk \<noteq> TCP_TIME_WAIT \<longrightarrow> sk_state (tcp_nip_do_rcv e conn_request skb sk) \<noteq> TCP_TIME_WAIT"
    using 1 rcv_edge_simps(6) by metis
  moreover have "sk_state sk = TCP_CLOSE \<longrightarrow> tcp_nip_do_rcv e conn_request skb sk = sk"
    by (simp add: tcp_nip_do_rcv_def tcp_nip_rcv_state_process_def)
  ultimately show ?thesis by blast
qed

lemma received_segment_moves_along_edges_witness:
  "sk_state (tcp_nip_do_rcv ex_env (\<lambda>_ sk. (0, sk)) ex_skb (zero_sock\<lparr>sk_state := TCP_FIN_WAIT1\<rparr>)) \<noteq> TCP_TIME_WAIT"
  using received_segment_moves_along_edges [of "zero_sock\<lparr>sk_state := TCP_FIN_WAIT1\<rparr>" "\<lambda>_ sk. (0, sk)" ex_skb ex_env] by simp

text \<open>The answer -1 of tcp_nip_ack is lost: in SYN_RECV a segment that acknowledges data never sent
  (ack_seq after snd_nxt) establishes the connection, and snd_una then lies beyond snd_nxt.\<close>

theorem unsent_ack_establishes:
  assumes "sk_state sk = TCP_SYN_RECV" "send_queue sk = []"
    and "flag (pkt_flags skb) TCPHDR_ACK" "\<not> flag (pkt_flags skb) TCPHDR_RST" "tcp_nip_sequence sk (pkt_seq skb) (pkt_end_seq skb)"
    and "pkt_end_seq skb = pkt_seq skb" "\<not> before (pkt_ack_seq skb) (snd_una sk)" "after (pkt_ack_seq skb) (snd_nxt sk)"
  shows "sk_state (tcp_nip_do_rcv e cr skb sk) = TCP_ESTABLISHED \<and> snd_una (tcp_nip_do_rcv e cr skb sk) = pkt_ack_seq skb \<and>
    snd_nxt (tcp_nip_do_rcv e cr skb sk) = snd_nxt sk"
proof -
  define sk1 where "sk1 = snd (rcv_state_ack e skb sk)"
  have a: "tcp_nip_ack e skb sk = (-1, sk)" using assms by (simp add: tcp_nip_ack_def Let_def)
  have v: "tcp_nip_validate_incoming e skb sk = (True, sk)" using assms by (simp add: tcp_nip_validate_incoming_def Let_def)
  have b: "send_queue (tcp_nip_init_buffer_space e x) = send_queue x" "snd_nxt (tcp_nip_init_buffer_space e x) = snd_nxt x" for x
  proof -
    have p: "send_queue (tcp_nip_fixup_rcvbuf e x) = send_queue x" "send_queue (clamp_to_space e x) = send_queue x"
      "send_queue (reserve_segment e x) = send_queue x" "snd_nxt (tcp_nip_fixup_rcvbuf e x) = snd_nxt x"
      "snd_nxt (clamp_to_space e x) = snd_nxt x" "snd_nxt (reserve_segment e x) = snd_nxt x" for x
      by (simp_all add: tcp_nip_fixup_rcvbuf_def clamp_to_space_def reserve_segment_def Let_def)
    show "send_queue (tcp_nip_init_buffer_space e x) = send_queue x" "snd_nxt (tcp_nip_init_buffer_space e x) = snd_nxt x"
      by (simp_all add: tcp_nip_init_buffer_space_def Let_def p)
  qed
  have 1: "rcv_state_ack e skb sk = (None, sk1)" "sk_state sk1 = TCP_ESTABLISHED" "snd_una sk1 = pkt_ack_seq skb"
    "snd_nxt sk1 = snd_nxt sk" "send_queue sk1 = []"
    using assms by (simp_all add: sk1_def rcv_state_ack_def tcp_nip_initialize_rcv_mss_def Let_def b)
  have 2: "rcv_state_data e skb sk1 = (None, sk1\<lparr>snd_up := discard_count e skb sk1\<rparr>)"
    using 1 assms by (simp add: rcv_state_data_def tcp_nip_data_queue_def Let_def)
  have c: "snd_una (tcp_nip_ack_snd_check e x) = snd_una x" "snd_nxt (tcp_nip_ack_snd_check e x) = snd_nxt x" for x
  proof -
    have k: "snd_una (tcp_nip_send_ack e x) = snd_una x" "snd_nxt (tcp_nip_send_ack e x) = snd_nxt x"
      "snd_una (tcp_nip_send_delayed_ack e x) = snd_una x" "snd_nxt (tcp_nip_send_delayed_ack e x) = snd_nxt x" for x
      by (simp_all add: tcp_nip_send_delayed_ack_def tcp_nip_send_ack_def transmit_keeps Let_def)
    show "snd_una (tcp_nip_ack_snd_check e x) = snd_una x" "snd_nxt (tcp_nip_ack_snd_check e x) = snd_nxt x"
      by (simp_all add: tcp_nip_ack_snd_check_def k Let_def)
  qed
  have "tcp_nip_do_rcv e cr skb sk = tcp_nip_ack_snd_check e (sk1\<lparr>snd_up := discard_count e skb sk1\<rparr>)"
    using 1 2 assms by (simp add: tcp_nip_do_rcv_def tcp_nip_rcv_state_process_def v a rcv_state_tail_def
        tcp_nip_data_snd_check_def tcp_nip_push_pending_frames_def Let_def)
  then show ?thesis using 1 c by simp
qed

lemma unsent_ack_establishes_witness:
  "sk_state (tcp_nip_do_rcv ex_env (\<lambda>_ sk. (0, sk)) (ex_skb\<lparr>pkt_seq := 7, pkt_end_seq := 7, pkt_data := [], pkt_ack_seq := 2000\<rparr>)
     (zero_sock\<lparr>sk_state := TCP_SYN_RECV, snd_una := 1000, snd_nxt := 1001, rcv_nxt := 7, rcv_wup := 7, rcv_wnd := 100\<rparr>)) = TCP_ESTABLISHED"
  by (rule unsent_ack_establishes [THEN conjunct1])
    (simp_all add: zero_sock_def ex_skb_def before_def flag_def TCPHDR_ACK_def TCPHDR_RST_def tcp_nip_sequence_def tcp_receive_window_def)

end
