(* ===== verification/TcpTimer.thy ===== *)
theory TcpTimer
  imports TcpOut
begin

text \<open>
  The timers of a connection: src/src/linux/net/newip/tcp_nip_timer.c and the deferred work of tcp_nip_release_cb.
  The counters icsk_retransmits, icsk_backoff and icsk_probes_out have the width they have in the
  kernel's struct inet_connection_sock, 8 bits.
\<close>


definition TCP_THIN_LINEAR_RETRIES :: u8 where "TCP_THIN_LINEAR_RETRIES = 6"
definition TCP_NIP_KEEPALIVE_CYCLE_MS_DIVISOR :: nat where "TCP_NIP_KEEPALIVE_CYCLE_MS_DIVISOR = 20"

section \<open>Giving up\<close>

definition tcp_nip_orphan_retries :: "tcp_env \<Rightarrow> bool \<Rightarrow> tcp_nip_sock \<Rightarrow> int" where
  "tcp_nip_orphan_retries e alive sk =
    (let retries = (if sk_err_soft sk \<noteq> 0 \<and> \<not> alive then 0 else tcp_orphan_retries e)
     in if retries = 0 \<and> alive then 8 else retries)"

definition tcp_nip_write_err :: "tcp_nip_sock \<Rightarrow> tcp_nip_sock" where
  "tcp_nip_write_err sk = tcp_nip_done (sk\<lparr>sk_err := (if sk_err_soft sk \<noteq> 0 then sk_err_soft sk else ETIMEDOUT)\<rparr>)"

definition retransmits_nip_timed_out :: "u32 \<Rightarrow> tcp_nip_sock \<Rightarrow> bool" where
  "retransmits_nip_timed_out boundary sk \<longleftrightarrow> ucast (icsk_retransmits sk) > boundary"

definition tcp_nip_write_timeout :: "tcp_env \<Rightarrow> tcp_nip_sock \<Rightarrow> bool \<times> tcp_nip_sock" where
  "tcp_nip_write_timeout e sk =
    (let retry_until =
       (if sk_state sk = TCP_SYN_SENT \<or> sk_state sk = TCP_SYN_RECV
        then (if icsk_syn_retries sk \<noteq> 0 then int (unat (icsk_syn_retries sk)) else tcp_syn_retries e)
        else if sock_dead sk then tcp_nip_orphan_retries e (icsk_rto sk < TCP_RTO_MAX e) sk
        else tcp_retries2 e)
     in if retransmits_nip_timed_out (of_int retry_until) sk then (True, tcp_nip_write_err sk) else (False, sk))"

section \<open>The retransmission and probe timers\<close>

text \<open>The steps of tcp_nip_retransmit_timer after a retransmission: count it, then lengthen the
  timeout, linearly for a thin stream and else exponentially.\<close>

definition count_retransmit :: "tcp_env \<Rightarrow> tcp_nip_sock \<Rightarrow> tcp_nip_sock" where
  "count_retransmit e sk =
    (if int (unat (icsk_backoff sk)) < tcp_retries2 e
     then sk\<lparr>icsk_backoff := icsk_backoff sk + 1, icsk_retransmits := icsk_retransmits sk + 1\<rparr>
     else sk\<lparr>icsk_retransmits := icsk_retransmits sk + 1\<rparr>)"

definition lengthen_rto :: "tcp_env \<Rightarrow> tcp_nip_sock \<Rightarrow> tcp_nip_sock" where
  "lengthen_rto e sk =
    (if sk_state sk = TCP_ESTABLISHED \<and> thin_lto e \<and> stream_is_thin e \<and> icsk_retransmits sk \<le> TCP_THIN_LINEAR_RETRIES
     then sk\<lparr>icsk_backoff := 0, icsk_rto := min (set_rto e) (TCP_RTO_MAX e)\<rparr>
     else sk\<lparr>icsk_rto := min (push_bit 1 (icsk_rto sk)) (TCP_RTO_MAX e)\<rparr>)"

definition tcp_nip_retransmit_timer :: "tcp_env \<Rightarrow> tcp_nip_sock \<Rightarrow> tcp_nip_sock" where
  "tcp_nip_retransmit_timer e sk =
    (if packets_out sk = 0 \<or> rtx_queue sk @ send_queue sk = [] then sk
     else case tcp_nip_write_timeout e sk of
       (True, sk) \<Rightarrow> sk
     | (False, sk) \<Rightarrow>
       let (ret, sk) = tcp_nip_retransmit_skb e 0 sk in
       if ret > 0 then
         let sk = (if icsk_retransmits sk = 0 then sk\<lparr>icsk_retransmits := 1\<rparr> else sk)
         in inet_csk_reset_xmit_timer e ICSK_TIME_RETRANS (min (icsk_rto sk) (TCP_RESOURCE_PROBE_INTERVAL e)) sk
       else
         let sk = (lengthen_rto e (count_retransmit e sk))\<lparr>nip_ssthresh := of_int (ssthresh_low (params e))\<rparr>
         in inet_csk_reset_xmit_timer e ICSK_TIME_RETRANS (icsk_rto sk) sk)"

definition tcp_nip_probe_timer :: "tcp_env \<Rightarrow> tcp_nip_sock \<Rightarrow> tcp_nip_sock" where
  "tcp_nip_probe_timer e sk =
    (if packets_out sk \<noteq> 0 \<or> send_queue sk = [] then sk\<lparr>icsk_probes_out := 0, icsk_backoff := 0\<rparr>
     else
       let alive = rto_backoff e (icsk_rto sk) (icsk_backoff sk) < TCP_RTO_MAX e;
           max_probes = (if sock_dead sk then tcp_nip_orphan_retries e alive sk else nip_probe_max (params e))
       in if sock_dead sk \<and> \<not> alive \<and> int (unat (icsk_backoff sk)) \<ge> max_probes then tcp_nip_write_err sk
       else if int (unat (icsk_probes_out sk)) \<ge> max_probes then tcp_nip_write_err sk
       else tcp_nip_send_probe0 e sk)"

definition tcp_nip_write_timer_handler :: "tcp_env \<Rightarrow> tcp_nip_sock \<Rightarrow> tcp_nip_sock" where
  "tcp_nip_write_timer_handler e sk =
    (if sk_state sk = TCP_CLOSE \<or> sk_state sk = TCP_LISTEN \<or> icsk_pending sk = ICSK_NONE then sk
     else if time_after (icsk_timeout sk) (jiffies e) then sk
     else case icsk_pending sk of
       ICSK_TIME_RETRANS \<Rightarrow> tcp_nip_retransmit_timer e (sk\<lparr>icsk_pending := ICSK_NONE\<rparr>)
     | ICSK_TIME_PROBE0 \<Rightarrow> tcp_nip_probe_timer e (sk\<lparr>icsk_pending := ICSK_NONE\<rparr>)
     | ICSK_NONE \<Rightarrow> sk)"

section \<open>The delayed acknowledgment timer\<close>

definition tcp_nip_delack_timer_handler :: "tcp_env \<Rightarrow> tcp_nip_sock \<Rightarrow> tcp_nip_sock" where
  "tcp_nip_delack_timer_handler e sk =
    (if sk_state sk = TCP_CLOSE \<or> sk_state sk = TCP_LISTEN \<or> \<not> ack_timer sk then sk
     else if time_after (ack_timeout sk) (jiffies e) then sk
     else
       let sk = sk\<lparr>ack_timer := False\<rparr>
       in if ack_sched sk then tcp_nip_send_ack e sk else sk)"

text \<open>While a user owns the socket the two timers only leave a mark (write timer, delack timer), and
  tcp_nip_release_cb does their work.\<close>

type_synonym deferred = "bool \<times> bool"

definition tcp_nip_write_timer :: "tcp_env \<Rightarrow> bool \<Rightarrow> deferred \<Rightarrow> tcp_nip_sock \<Rightarrow> deferred \<times> tcp_nip_sock" where
  "tcp_nip_write_timer e owned d sk =
    (if \<not> owned then (d, tcp_nip_write_timer_handler e sk) else ((True, snd d), sk))"

definition tcp_nip_delack_timer :: "tcp_env \<Rightarrow> bool \<Rightarrow> deferred \<Rightarrow> tcp_nip_sock \<Rightarrow> deferred \<times> tcp_nip_sock" where
  "tcp_nip_delack_timer e owned d sk =
    (if \<not> owned then (d, tcp_nip_delack_timer_handler e sk) else ((fst d, True), sk))"

definition tcp_nip_release_cb :: "tcp_env \<Rightarrow> deferred \<Rightarrow> tcp_nip_sock \<Rightarrow> deferred \<times> tcp_nip_sock" where
  "tcp_nip_release_cb e d sk =
    (let sk = (if fst d then tcp_nip_write_timer_handler e sk else sk);
         sk = (if snd d then tcp_nip_delack_timer_handler e sk else sk)
     in ((False, False), sk))"

section \<open>The keepalive timer\<close>

definition tcp_nip_keepalive_is_timeout :: "tcp_env \<Rightarrow> u32 \<Rightarrow> tcp_nip_sock \<Rightarrow> bool \<times> tcp_nip_sock" where
  "tcp_nip_keepalive_is_timeout e elapsed sk =
    (if keepalive_time_when e sk > of_nat (HZ e) \<and>
        (icsk_user_timeout sk \<noteq> 0 \<and> elapsed \<ge> user_timeout_jiffies e (icsk_user_timeout sk) \<and> nip_keepalive_out sk > 0 \<or>
         icsk_user_timeout sk = 0 \<and> nip_keepalive_out sk \<ge> keepalive_probes_of e sk)
     then (True, tcp_nip_write_err sk) else (False, sk))"

text \<open>tcp_nip_keepalive_timer when the timer went off: every path ends in tcp_nip_keepalive_disable,
  also those that set the timer again.\<close>

definition tcp_nip_keepalive_timer :: "tcp_env \<Rightarrow> bool \<Rightarrow> tcp_nip_sock \<Rightarrow> tcp_nip_sock" where
  "tcp_nip_keepalive_timer e owned sk =
    (let sk = sk\<lparr>ka_timer := None\<rparr>; sk =
      (if owned then
         inet_csk_reset_keepalive_timer (of_nat (HZ e div TCP_NIP_KEEPALIVE_CYCLE_MS_DIVISOR)) sk
       else if sk_state sk = TCP_LISTEN then sk
       else if (sk_state sk = TCP_FIN_WAIT2 \<or> sk_state sk = TCP_CLOSING) \<and> sock_dead sk then tcp_nip_done sk
       else if \<not> sock_keepopen sk \<or> sk_state sk = TCP_CLOSE \<or> sk_state sk = TCP_SYN_SENT then sk
       else if packets_out sk \<noteq> 0 \<or> rtx_queue sk @ send_queue sk \<noteq> [] then
         inet_csk_reset_keepalive_timer (keepalive_time_when e sk) sk
       else if ka_elapsed e \<ge> keepalive_time_when e sk then
         (case tcp_nip_keepalive_is_timeout e (ka_elapsed e) sk of
            (True, sk) \<Rightarrow> sk
          | (False, sk) \<Rightarrow>
            let (ret, sk) = tcp_nip_write_wakeup e sk in
            if ret \<le> 0 then
              let sk = sk\<lparr>nip_keepalive_out := nip_keepalive_out sk + 1, idle_ka_probes_out := idle_ka_probes_out sk + 1\<rparr>
              in inet_csk_reset_keepalive_timer (keepalive_intvl_when e sk) sk
            else inet_csk_reset_keepalive_timer (TCP_RESOURCE_PROBE_INTERVAL e) sk)
       else inet_csk_reset_keepalive_timer (keepalive_time_when e sk - ka_elapsed e) sk)
     in tcp_nip_keepalive_disable e sk)"

section \<open>A peer that never answers\<close>

text \<open>A head of the write queue that one packet of the current size carries: its retransmission
  changes neither the queue, but for its time stamp, nor the number of packets out.\<close>

definition head_fits :: "u32 \<Rightarrow> tcp_nip_sock \<Rightarrow> bool" where
  "head_fits mss sk \<longleftrightarrow> (\<exists>skb skbs. rtx_queue sk = skb # skbs \<and> pkt_seq skb = snd_una sk \<and> pkt_pcount skb = 1 \<and>
     of_nat (length (pkt_data skb)) \<le> mss)"

lemma out_frame_rtx: "out_frame (sk\<lparr>rtx_queue := q\<rparr>) = (out_frame sk)\<lparr>rtx_queue := q\<rparr>"
  by (simp add: out_frame_def)

lemma head_fits_cong: "rtx_queue a = rtx_queue b \<Longrightarrow> snd_una a = snd_una b \<Longrightarrow> head_fits mss a = head_fits mss b"
  by (simp add: head_fits_def)

lemma before_irrefl [simp]: "\<not> before a a"
  by (simp add: before_def)

lemma retransmit_head:
  assumes h: "head_fits (cur_mss e) sk" and r: "tcp_nip_retransmit_skb e 0 sk = (ret, sk')"
  shows "out_frame (sk'\<lparr>rtx_queue := []\<rparr>) = out_frame (sk\<lparr>rtx_queue := []\<rparr>) \<and> head_fits (cur_mss e) sk' \<and>
    (ret = - ENOBUFS \<or> ret = net_xmit e (length (sent sk)))"
proof -
  obtain skb skbs where s: "rtx_queue sk = skb # skbs" "pkt_seq skb = snd_una sk" "pkt_pcount skb = 1"
    "of_nat (length (pkt_data skb)) \<le> cur_mss e" using h by (auto simp: head_fits_def)
  let ?skb = "tcp_nip_set_skb_tso_segs (cur_mss e) skb"
  have p: "?skb = skb\<lparr>pkt_pcount := 1, pkt_gso_size := 0\<rparr>" using s(4) by (simp add: tcp_nip_set_skb_tso_segs_def)
  obtain err skb1 sk1 where t: "tcp_nip_transmit e True (rcv_nxt sk) ?skb (sk\<lparr>packets_out := packets_out sk\<rparr>) = (err, skb1, sk1)"
    by (metis prod_cases3)
  have "tcp_nip_retransmit0 e skb sk = (err, [skb1], sk1)"
    using s(2,3) leD [OF s(4)] t p unfolding tcp_nip_retransmit0_def by (simp add: tcp_nip_transmit_skb_def Let_def)
  then have e: "ret = err" "sk' = sk1\<lparr>rtx_queue := skb1 # skbs\<rparr>"
    using r s(1) by (auto simp: tcp_nip_retransmit_skb_def)
  have f: "out_frame sk1 = out_frame sk" using transmit_frame [of e True "rcv_nxt sk" ?skb "sk\<lparr>packets_out := packets_out sk\<rparr>"] t by simp
  then have "out_frame (sk'\<lparr>rtx_queue := []\<rparr>) = out_frame (sk\<lparr>rtx_queue := []\<rparr>)"
    by (simp add: e out_frame_rtx f)
  moreover have "head_fits (cur_mss e) sk'"
    using transmit_skb_seq [OF t] s out_frameD [OF f] by (simp add: head_fits_def e p)
  ultimately show ?thesis using transmit_skb_seq(6) [OF t] e(1) by simp
qed


text \<open>The write timer goes off at the time it was set to.\<close>

definition write_timer_expires :: "tcp_env \<Rightarrow> tcp_nip_sock \<Rightarrow> tcp_nip_sock" where
  "write_timer_expires e sk = tcp_nip_write_timer_handler (e\<lparr>jiffies := icsk_timeout sk\<rparr>) sk"

text \<open>A connected socket with unacknowledged data whose retransmission timer runs.\<close>

definition waiting :: "u32 \<Rightarrow> tcp_nip_sock \<Rightarrow> bool" where
  "waiting mss sk \<longleftrightarrow> sk_state sk \<notin> {TCP_CLOSE, TCP_LISTEN, TCP_SYN_SENT, TCP_SYN_RECV} \<and> \<not> sock_dead sk \<and>
     icsk_pending sk = ICSK_TIME_RETRANS \<and> packets_out sk \<noteq> 0 \<and> head_fits mss sk"

definition silent :: "u32 \<Rightarrow> int \<Rightarrow> tcp_env \<Rightarrow> bool" where
  "silent mss r e \<longleftrightarrow> cur_mss e = mss \<and> tcp_retries2 e = r \<and> (\<forall>n. net_xmit e n \<le> 0)"

lemma time_after_irrefl [simp]: "\<not> time_after a a"
  by (simp add: time_after_def)

lemma waiting_pending:
  "waiting mss sk \<Longrightarrow> write_timer_expires e sk = tcp_nip_retransmit_timer (e\<lparr>jiffies := icsk_timeout sk\<rparr>) (sk\<lparr>icsk_pending := ICSK_NONE\<rparr>)"
  by (simp add: waiting_def write_timer_expires_def tcp_nip_write_timer_handler_def)

lemma timed_out_iff:
  assumes "0 \<le> r" "r < 255"
  shows "retransmits_nip_timed_out (of_int r) sk \<longleftrightarrow> nat r < unat (icsk_retransmits sk)"
proof -
  have "unat (of_int r :: u32) = nat r"
    using assms take_bit_int_eq_self [of r 32] by (simp add: unsigned_of_int)
  moreover have "unat (ucast (icsk_retransmits sk) :: u32) = unat (icsk_retransmits sk)"
    by (simp add: unsigned_ucast_eq take_bit_nat_eq_self_iff order.strict_trans [OF unat_u8_less])
  ultimately show ?thesis by (simp add: retransmits_nip_timed_out_def word_less_nat_alt)
qed

lemma count_retransmit_sel [simp]:
  "sk_state (count_retransmit e sk) = sk_state sk" "sock_dead (count_retransmit e sk) = sock_dead sk"
  "packets_out (count_retransmit e sk) = packets_out sk" "rtx_queue (count_retransmit e sk) = rtx_queue sk"
  "snd_una (count_retransmit e sk) = snd_una sk" "sk_err_soft (count_retransmit e sk) = sk_err_soft sk"
  "icsk_rto (count_retransmit e sk) = icsk_rto sk" "icsk_retransmits (count_retransmit e sk) = icsk_retransmits sk + 1"
  by (simp_all add: count_retransmit_def)

lemma lengthen_rto_sel [simp]:
  "sk_state (lengthen_rto e sk) = sk_state sk" "sock_dead (lengthen_rto e sk) = sock_dead sk"
  "packets_out (lengthen_rto e sk) = packets_out sk" "rtx_queue (lengthen_rto e sk) = rtx_queue sk"
  "snd_una (lengthen_rto e sk) = snd_una sk" "sk_err_soft (lengthen_rto e sk) = sk_err_soft sk"
  "icsk_retransmits (lengthen_rto e sk) = icsk_retransmits sk"
  by (simp_all add: lengthen_rto_def)

lemma expiry_gives_up:
  assumes w: "waiting mss sk" and e: "silent mss r e" and r: "0 \<le> r" "r < 255" "nat r < unat (icsk_retransmits sk)"
  shows "write_timer_expires e sk = tcp_nip_write_err (sk\<lparr>icsk_pending := ICSK_NONE\<rparr>)"
proof -
  have "tcp_nip_write_timeout (e\<lparr>jiffies := icsk_timeout sk\<rparr>) (sk\<lparr>icsk_pending := ICSK_NONE\<rparr>) =
      (True, tcp_nip_write_err (sk\<lparr>icsk_pending := ICSK_NONE\<rparr>))"
    using w e timed_out_iff [OF r(1,2), of "sk\<lparr>icsk_pending := ICSK_NONE\<rparr>"] r(3)
    by (auto simp: tcp_nip_write_timeout_def waiting_def silent_def)
  then show ?thesis using w unfolding waiting_pending [OF w] by (auto simp: tcp_nip_retransmit_timer_def waiting_def head_fits_def)
qed

lemma expiry_retries:
  assumes w: "waiting mss sk" and e: "silent mss r e" and nt: "\<not> retransmits_nip_timed_out (of_int r) sk"
  shows "waiting mss (write_timer_expires e sk) \<and> icsk_retransmits (write_timer_expires e sk) = icsk_retransmits sk + 1 \<and>
    sk_state (write_timer_expires e sk) = sk_state sk \<and>
    (\<not> thin_lto e \<longrightarrow> icsk_rto (write_timer_expires e sk) = min (push_bit 1 (icsk_rto sk)) (TCP_RTO_MAX e))"
proof -
  let ?e = "e\<lparr>jiffies := icsk_timeout sk\<rparr>" and ?sk = "sk\<lparr>icsk_pending := ICSK_NONE\<rparr>"
  have to: "tcp_nip_write_timeout ?e ?sk = (False, ?sk)"
    using w e nt by (auto simp: tcp_nip_write_timeout_def waiting_def silent_def retransmits_nip_timed_out_def)
  obtain ret sk1 where t: "tcp_nip_retransmit_skb ?e 0 ?sk = (ret, sk1)" by fastforce
  have "head_fits (cur_mss ?e) ?sk" using w e by (auto simp: waiting_def head_fits_def silent_def)
  note h = retransmit_head [OF this t]
  have nx: "net_xmit ?e n \<le> 0" for n using e by (simp add: silent_def)
  have n: "\<not> ret > 0" using conjunct2 [OF conjunct2 [OF h]] nx [of "length (sent ?sk)"] by auto
  note k = out_frameD [OF conjunct1 [OF h], simplified]
  have q: "packets_out ?sk \<noteq> 0" "rtx_queue ?sk @ send_queue ?sk \<noteq> []" using w by (auto simp: waiting_def head_fits_def)
  define sk2 where "sk2 = (lengthen_rto ?e (count_retransmit ?e sk1))\<lparr>nip_ssthresh := of_int (ssthresh_low (params ?e))\<rparr>"
  have eq: "write_timer_expires e sk = inet_csk_reset_xmit_timer ?e ICSK_TIME_RETRANS (icsk_rto sk2) sk2"
    using q n unfolding waiting_pending [OF w] tcp_nip_retransmit_timer_def to by (simp only: t sk2_def if_False prod.case bool.case Let_def simp_thms)
  have sk2: "sk_state sk2 = sk_state sk" "sock_dead sk2 = sock_dead sk" "packets_out sk2 = packets_out sk"
    "rtx_queue sk2 = rtx_queue sk1" "snd_una sk2 = snd_una sk1" "icsk_retransmits sk2 = icsk_retransmits sk + 1"
    "sk_err_soft sk2 = sk_err_soft sk"
    using k unfolding sk2_def by simp_all
  have rto: "\<not> thin_lto e \<longrightarrow> icsk_rto sk2 = min (push_bit 1 (icsk_rto sk)) (TCP_RTO_MAX e)"
    using k by (simp add: sk2_def lengthen_rto_def TCP_RTO_MAX_def)
  have m: "head_fits mss sk2"
    using h e head_fits_cong [OF sk2(4,5)] by (simp add: silent_def)
  show ?thesis
    unfolding eq inet_csk_reset_xmit_timer_def waiting_def
    using w m rto sk2(1,2,3,6) head_fits_cong [of "sk2\<lparr>icsk_pending := x, icsk_timeout := y\<rparr>" sk2 for x y]
    by (simp add: waiting_def)
qed


lemma write_err_closes: "sk_state (tcp_nip_write_err sk) = TCP_CLOSE \<and> sk_err (tcp_nip_write_err sk) \<noteq> 0"
  by (simp add: tcp_nip_write_err_def tcp_nip_done_def Let_def inet_csk_clear_xmit_timers_def
      sk_nip_stream_kill_queues_def tcp_nip_destroy_sock_def tcp_nip_write_queue_purge_def)

lemma expiry_rto:
  assumes "icsk_rto sk \<le> TCP_RTO_MAX e" "240 * HZ e < 2 ^ 32"
  shows "unat (min (push_bit 1 (icsk_rto sk)) (TCP_RTO_MAX e)) = min (2 * unat (icsk_rto sk)) (120 * HZ e)"
proof -
  have m: "unat (TCP_RTO_MAX e) = 120 * HZ e"
    using assms(2) unfolding TCP_RTO_MAX_def unat_of_nat by (simp add: take_bit_nat_eq_self)
  then have "unat (icsk_rto sk) \<le> 120 * HZ e" using assms(1) by (simp add: word_le_nat_alt)
  then have "unat (push_bit 1 (icsk_rto sk)) = 2 * unat (icsk_rto sk)"
    using assms(2) by (simp add: unat_word_ariths)
  then show ?thesis using m by (simp add: min_def word_le_nat_alt)
qed

lemma min_times:
  fixes k a m :: nat
  assumes "1 \<le> k"
  shows "min (k * min a m) m = min (k * a) m"
proof (cases "a \<le> m")
  case False
  have "m \<le> k * m" "a \<le> k * a" using assms by simp_all
  then have "m \<le> k * m" "m \<le> k * a" using False by linarith+
  then show ?thesis using False by (simp only: min.absorb2 not_le less_imp_le)
qed (simp add: min_def)

lemma retransmits_Suc: "unat (icsk_retransmits sk) < 255 \<Longrightarrow> unat (icsk_retransmits sk + 1) = Suc (unat (icsk_retransmits sk))"
  by (simp add: unat_word_ariths)

lemma retries_steps:
  assumes "0 \<le> r" "r < 255"
  shows "waiting mss sk \<Longrightarrow> (\<And>e. e \<in> set es \<Longrightarrow> silent mss r e) \<Longrightarrow>
    unat (icsk_retransmits sk) + length es \<le> nat r + 1 \<Longrightarrow>
    waiting mss (fold write_timer_expires es sk) \<and> sk_state (fold write_timer_expires es sk) = sk_state sk \<and>
    unat (icsk_retransmits (fold write_timer_expires es sk)) = unat (icsk_retransmits sk) + length es"
proof (induction es arbitrary: sk)
  case (Cons e es)
  have "\<not> retransmits_nip_timed_out (of_int r) sk" using timed_out_iff [OF assms] Cons.prems(3) by simp
  note x = expiry_retries [OF Cons.prems(1) Cons.prems(2) this]
  have "unat (icsk_retransmits (write_timer_expires e sk)) = Suc (unat (icsk_retransmits sk))"
    using x retransmits_Suc [of sk] Cons.prems(3) assms by simp
  then show ?case using Cons.IH [of "write_timer_expires e sk"] Cons.prems(2,3) x by simp
qed simp

text \<open>C25: With no answer from the peer the retransmission timer of a connected socket goes off
  tcp_retries2 + 1 times without changing its state, and once more to close the connection with an
  error; no packet the network refuses for congestion (a positive answer) is assumed.\<close>

theorem retransmission_gives_up:
  assumes w: "waiting mss sk" "icsk_retransmits sk = 0" and r: "0 \<le> r" "r < 255"
    and es: "length es = nat r + 1" "\<forall>e \<in> set (es @ [e']). silent mss r e"
  shows "sk_state (fold write_timer_expires es sk) = sk_state sk \<and>
    sk_state (fold write_timer_expires (es @ [e']) sk) = TCP_CLOSE \<and>
    sk_err (fold write_timer_expires (es @ [e']) sk) \<noteq> 0"
proof -
  let ?sk = "fold write_timer_expires es sk"
  have "waiting mss ?sk \<and> sk_state ?sk = sk_state sk \<and> unat (icsk_retransmits ?sk) = nat r + 1"
    using retries_steps [OF r w(1), of es] w(2) es by auto
  moreover from this have "write_timer_expires e' ?sk = tcp_nip_write_err (?sk\<lparr>icsk_pending := ICSK_NONE\<rparr>)"
    using expiry_gives_up [of mss ?sk r e'] es(2) r by auto
  ultimately show ?thesis using write_err_closes by simp
qed

text \<open>While the peer is silent each expiration doubles the retransmission timeout of a connection
  that is not thin, up to the limit of 120 seconds.\<close>

theorem rto_doubles_to_limit:
  assumes w: "waiting mss sk" and r: "0 \<le> r" "r < 255" "unat (icsk_retransmits sk) + length es \<le> nat r + 1"
    and es: "\<forall>e \<in> set es. silent mss r e \<and> \<not> thin_lto e \<and> HZ e = hz"
    and h: "unat (icsk_rto sk) \<le> 120 * hz" "240 * hz < 2 ^ 32"
  shows "unat (icsk_rto (fold write_timer_expires es sk)) = min (2 ^ length es * unat (icsk_rto sk)) (120 * hz)"
  using w r(3) es h(1)
proof (induction es arbitrary: sk)
  case (Cons e es)
  have e: "silent mss r e" "\<not> thin_lto e" "HZ e = hz" using Cons.prems(3) by auto
  have "\<not> retransmits_nip_timed_out (of_int r) sk" using timed_out_iff [OF r(1,2)] Cons.prems(2) by simp
  note x = expiry_retries [OF Cons.prems(1) e(1) this]
  have m: "unat (TCP_RTO_MAX e) = 120 * hz"
    using h(2) e(3) unfolding TCP_RTO_MAX_def unat_of_nat by (simp add: take_bit_nat_eq_self)
  have rto: "unat (icsk_rto (write_timer_expires e sk)) = min (2 * unat (icsk_rto sk)) (120 * hz)"
    using x e expiry_rto [of sk e] Cons.prems(4) h(2) m by (simp add: word_le_nat_alt)
  have "unat (icsk_retransmits (write_timer_expires e sk)) = Suc (unat (icsk_retransmits sk))"
    using x retransmits_Suc [of sk] Cons.prems(2) r by simp
  then have "unat (icsk_rto (fold write_timer_expires es (write_timer_expires e sk))) =
      min (2 ^ length es * unat (icsk_rto (write_timer_expires e sk))) (120 * hz)"
    using Cons.IH [of "write_timer_expires e sk"] Cons.prems(2,3) x rto by simp
  also have "\<dots> = min (2 ^ length es * (2 * unat (icsk_rto sk))) (120 * hz)"
    unfolding rto by (rule min_times) simp
  finally show ?case by (simp add: mult.assoc mult.left_commute)
qed simp

section \<open>Zero window probes\<close>

text \<open>A socket with data and nothing in flight whose peer keeps its window closed.\<close>

definition probing :: "tcp_nip_sock \<Rightarrow> bool" where
  "probing sk \<longleftrightarrow> sk_state sk \<notin> {TCP_CLOSE, TCP_LISTEN} \<and> \<not> sock_dead sk \<and> icsk_pending sk = ICSK_TIME_PROBE0 \<and>
     packets_out sk = 0 \<and> (\<exists>skb skbs. send_queue sk = skb # skbs \<and> \<not> before (pkt_seq skb) (tcp_wnd_end sk))"

lemma probe_expiry:
  assumes p: "probing sk" and m: "nip_probe_max (params e) \<ge> 256"
  shows "probing (write_timer_expires e sk) \<and> sk_state (write_timer_expires e sk) = sk_state sk"
proof -
  let ?e = "e\<lparr>jiffies := icsk_timeout sk\<rparr>" and ?sk = "sk\<lparr>icsk_pending := ICSK_NONE\<rparr>"
  obtain skb skbs where q: "send_queue sk = skb # skbs" "\<not> before (pkt_seq skb) (tcp_wnd_end sk)"
    and s: "sk_state sk \<notin> {TCP_CLOSE, TCP_LISTEN}" "\<not> sock_dead sk" "icsk_pending sk = ICSK_TIME_PROBE0" "packets_out sk = 0"
    using p by (auto simp: probing_def)
  obtain ret sk1 where w: "tcp_nip_write_wakeup ?e ?sk = (ret, sk1)" by fastforce
  have "tcp_nip_write_wakeup ?e ?sk = tcp_nip_xmit_probe_skb ?e ?sk"
    using q s(1) by (auto simp: tcp_nip_write_wakeup_def tcp_wnd_end_def)
  then have "out_frame sk1 = out_frame ?sk"
    using w transmit_frame [of ?e False "rcv_nxt ?sk" "tcp_nip_init_nondata_skb (snd_una ?sk - 1) TCPHDR_ACK" ?sk]
    by (auto simp: tcp_nip_xmit_probe_skb_def tcp_nip_transmit_skb_def split: if_splits prod.splits)
  note k = out_frameD [OF this]
  define sk2 where "sk2 = sk1\<lparr>icsk_probes_out := icsk_probes_out sk1 + 1\<rparr>"
  define sk3 where "sk3 = (if ret \<le> 0 \<and> int (unat (icsk_backoff sk2)) < tcp_retries2 ?e then sk2\<lparr>icsk_backoff := icsk_backoff sk2 + 1\<rparr> else sk2)"
  have "int (unat (icsk_probes_out sk)) < 256" using unat_u8_less [of "icsk_probes_out sk"] by linarith
  then have n: "\<not> int (unat (icsk_probes_out ?sk)) \<ge> nip_probe_max (params ?e)" using m by simp
  have "write_timer_expires e sk = tcp_nip_probe_timer ?e ?sk"
    using s by (simp add: write_timer_expires_def tcp_nip_write_timer_handler_def)
  also have "\<dots> = tcp_nip_send_probe0 ?e ?sk"
    using q s n by (simp add: tcp_nip_probe_timer_def Let_def)
  also have "\<dots> = inet_csk_reset_xmit_timer ?e ICSK_TIME_PROBE0
      (if ret \<le> 0 then probe0_when ?e (icsk_rto sk3) (icsk_backoff sk3) else TCP_RESOURCE_PROBE_INTERVAL ?e) sk3"
    using k q s unfolding tcp_nip_send_probe0_def w sk3_def sk2_def by (simp add: Let_def)
  finally have eq: "write_timer_expires e sk = \<dots>" .
  have "sk_state sk3 = sk_state sk" "sock_dead sk3 = sock_dead sk" "packets_out sk3 = 0" "send_queue sk3 = skb # skbs"
    "tcp_wnd_end sk3 = tcp_wnd_end sk"
    using k q s by (simp_all add: sk3_def sk2_def tcp_wnd_end_def)
  then show ?thesis
    using s q unfolding eq by (simp add: probing_def inet_csk_reset_xmit_timer_def tcp_wnd_end_def)
qed

text \<open>A peer that advertises a zero window for ever keeps a live connection open for ever: the
  number of probes is an 8-bit counter and the limit nip_probe_max, 2000 when the module is loaded,
  is never reached.\<close>

theorem zero_window_never_closed:
  assumes "probing sk" "\<forall>e \<in> set es. nip_probe_max (params e) \<ge> 256"
  shows "sk_state (fold write_timer_expires es sk) = sk_state sk \<and> nip_probe_max default_params \<ge> 256"
proof -
  have "probing (fold write_timer_expires es sk) \<and> sk_state (fold write_timer_expires es sk) = sk_state sk"
    using assms by (induction es arbitrary: sk) (use probe_expiry in auto)
  then show ?thesis by (simp add: default_params_def)
qed


section \<open>Concrete connections\<close>

text \<open>A connected socket with one packet in flight, and one with a packet its peer has no room for.\<close>

definition ex_waiting :: tcp_nip_sock where
  "ex_waiting = (tcp_nip_init_sock ex_env zero_sock)\<lparr>sk_state := TCP_ESTABLISHED, snd_una := 1000, snd_nxt := 1003,
     write_seq := 1003, snd_wnd := 5000, packets_out := 1, rtx_queue := [ex_skb], icsk_pending := ICSK_TIME_RETRANS\<rparr>"

definition ex_probing :: tcp_nip_sock where
  "ex_probing = (tcp_nip_init_sock ex_env zero_sock)\<lparr>sk_state := TCP_ESTABLISHED, snd_una := 1000, snd_nxt := 1000,
     write_seq := 1003, snd_wnd := 0, send_queue := [ex_skb], icsk_pending := ICSK_TIME_PROBE0\<rparr>"

lemma ex_waiting: "waiting 1460 ex_waiting" "icsk_retransmits ex_waiting = 0" "unat (icsk_rto ex_waiting) = 20"
  by (simp_all add: ex_waiting_def waiting_def head_fits_def ex_skb_def tcp_nip_init_sock_def inet_csk_clear_xmit_timers_def
      tcp_sock_priv_init_def zero_sock_def nip_rto_init_def ex_env_def default_params_def)

lemma ex_silent: "silent 1460 15 ex_env"
  by (simp add: silent_def ex_env_def)

lemma retransmission_gives_up_witness:
  "sk_state (fold write_timer_expires (replicate 16 ex_env) ex_waiting) = TCP_ESTABLISHED \<and>
   sk_state (fold write_timer_expires (replicate 16 ex_env @ [ex_env]) ex_waiting) = TCP_CLOSE"
proof -
  have "length (replicate 16 ex_env) = nat 15 + 1" "\<forall>e \<in> set (replicate 16 ex_env @ [ex_env]). silent 1460 15 e"
    using ex_silent by simp_all
  from retransmission_gives_up [OF ex_waiting(1,2) _ _ this] have
    "sk_state (fold write_timer_expires (replicate 16 ex_env) ex_waiting) = sk_state ex_waiting \<and>
     sk_state (fold write_timer_expires (replicate 16 ex_env @ [ex_env]) ex_waiting) = TCP_CLOSE" by simp
  then show ?thesis by (simp add: ex_waiting_def)
qed

lemma rto_doubles_to_limit_witness:
  "unat (icsk_rto (fold write_timer_expires (replicate 3 ex_env) ex_waiting)) = 160"
proof -
  have "\<forall>e \<in> set (replicate 3 ex_env). silent 1460 15 e \<and> \<not> thin_lto e \<and> HZ e = 100"
    using ex_silent by (simp add: ex_env_def)
  from rto_doubles_to_limit [OF ex_waiting(1) _ _ _ this] show ?thesis using ex_waiting(2,3) by simp
qed

lemma zero_window_never_closed_witness:
  "sk_state (fold write_timer_expires (replicate 1000 ex_env) ex_probing) = TCP_ESTABLISHED"
proof -
  have "probing ex_probing"
    by (simp add: ex_probing_def probing_def ex_skb_def tcp_wnd_end_def tcp_nip_init_sock_def inet_csk_clear_xmit_timers_def
        tcp_sock_priv_init_def zero_sock_def)
  moreover have "\<forall>e \<in> set (replicate 1000 ex_env). nip_probe_max (params e) \<ge> 256"
    by (simp add: ex_env_def default_params_def)
  ultimately have "sk_state (fold write_timer_expires (replicate 1000 ex_env) ex_probing) = sk_state ex_probing"
    using zero_window_never_closed by blast
  then show ?thesis by (simp add: ex_probing_def)
qed

end
