(* ===== verification/TcpUser.thy ===== *)
theory TcpUser
  imports TcpIn TcpTimer
begin

text \<open>
  What the user does to a connection, in newip/tcp_nip.c: tcp_nip_close, tcp_nip_shutdown and
  tcp_nip_disconnect, and tcp_nip_sendmsg, which turns the user's bytes into packets of the write queue
  (section "Sending"). The write queue as a byte stream is wq, the condition that its packets continue one
  another is chain. What the user's buffer, the memory and the wait give is the list of snd_step of a call.
\<close>

section \<open>Leaving a connection\<close>

text \<open>The table new_state: the next state, and whether a FIN is to be sent.\<close>

fun new_state :: "tcp_state \<Rightarrow> tcp_state \<times> bool" where
  "new_state TCP_ESTABLISHED = (TCP_FIN_WAIT1, True)"
| "new_state TCP_SYN_SENT = (TCP_CLOSE, False)"
| "new_state TCP_SYN_RECV = (TCP_FIN_WAIT1, True)"
| "new_state TCP_FIN_WAIT1 = (TCP_FIN_WAIT1, False)"
| "new_state TCP_FIN_WAIT2 = (TCP_FIN_WAIT2, False)"
| "new_state TCP_TIME_WAIT = (TCP_CLOSE, False)"
| "new_state TCP_CLOSE = (TCP_CLOSE, False)"
| "new_state TCP_CLOSE_WAIT = (TCP_LAST_ACK, True)"
| "new_state TCP_LAST_ACK = (TCP_LAST_ACK, False)"
| "new_state TCP_LISTEN = (TCP_CLOSE, False)"
| "new_state TCP_CLOSING = (TCP_CLOSING, False)"
| "new_state TCP_NEW_SYN_RECV = (TCP_CLOSE, False)"

definition tcp_nip_close_state :: "tcp_nip_sock \<Rightarrow> bool \<times> tcp_nip_sock" where
  "tcp_nip_close_state sk = (let (ns, fin) = new_state (sk_state sk) in (fin, sk\<lparr>sk_state := ns\<rparr>))"

definition close_fin :: "tcp_env \<Rightarrow> bool \<Rightarrow> tcp_nip_sock \<Rightarrow> tcp_nip_sock" where
  "close_fin e alloc_ok sk =
    (case tcp_nip_close_state sk of (True, sk) \<Rightarrow> tcp_nip_send_fin e alloc_ok sk | (False, sk) \<Rightarrow> sk)"

definition tcp_nip_shutdown :: "tcp_env \<Rightarrow> bool \<Rightarrow> bool \<Rightarrow> tcp_nip_sock \<Rightarrow> tcp_nip_sock" where
  "tcp_nip_shutdown e alloc_ok send_how sk =
    (if \<not> send_how then sk
     else if sk_state sk \<in> {TCP_ESTABLISHED, TCP_SYN_SENT, TCP_SYN_RECV, TCP_CLOSE_WAIT} then close_fin e alloc_ok sk
     else sk)"

text \<open>The bytes of the receive queue that close counts as unread.\<close>

definition data_was_unread :: "tcp_skb list \<Rightarrow> u32" where
  "data_was_unread q =
    sum_list (map (\<lambda>p. pkt_end_seq p - pkt_seq p - (if flag (pkt_flags p) TCPHDR_FIN then 1 else 0)) q)"

text \<open>tcp_nip_close up to the label adjudge_to_death; a listening socket then drops its children
  (inet_csk_listen_stop), which are sockets of their own.\<close>

definition close_connection :: "tcp_env \<Rightarrow> bool \<Rightarrow> tcp_nip_sock \<Rightarrow> tcp_nip_sock" where
  "close_connection e alloc_ok sk =
    (if sk_state sk = TCP_LISTEN then sk\<lparr>sk_state := TCP_CLOSE\<rparr>
     else
       let unread = data_was_unread (rcv_queue sk); sk = sk\<lparr>rcv_queue := []\<rparr> in
       if sk_state sk = TCP_CLOSE then sk
       else if unread \<noteq> 0 then tcp_nip_send_active_reset e alloc_ok (sk\<lparr>sk_state := TCP_CLOSE\<rparr>)
       else close_fin e alloc_ok sk)"

text \<open>release_sock handles the segments that came while a user owned the socket, then the timers that
  went off; inet_csk_destroy_sock calls the destroy operation and empties the queues.\<close>

definition release_sock :: "tcp_env \<Rightarrow> (tcp_skb \<Rightarrow> tcp_nip_sock \<Rightarrow> int \<times> tcp_nip_sock) \<Rightarrow> tcp_skb list \<Rightarrow> deferred \<Rightarrow>
    tcp_nip_sock \<Rightarrow> tcp_nip_sock" where
  "release_sock e conn_request backlog d sk =
    snd (tcp_nip_release_cb e d (fold (tcp_nip_do_rcv e conn_request) backlog sk))"

definition inet_csk_destroy_sock :: "tcp_nip_sock \<Rightarrow> tcp_nip_sock" where
  "inet_csk_destroy_sock sk = sk_nip_stream_kill_queues (tcp_nip_destroy_sock sk)"

definition tcp_nip_close :: "tcp_env \<Rightarrow> bool \<Rightarrow> (tcp_skb \<Rightarrow> tcp_nip_sock \<Rightarrow> int \<times> tcp_nip_sock) \<Rightarrow> tcp_skb list \<Rightarrow> deferred \<Rightarrow>
    tcp_nip_sock \<Rightarrow> tcp_nip_sock" where
  "tcp_nip_close e alloc_ok conn_request backlog d sk =
    (let sk = close_connection e alloc_ok (sk\<lparr>rcv_shutdown := True, snd_shutdown := True\<rparr>); state = sk_state sk;
         sk = release_sock e conn_request backlog d (sk\<lparr>sock_dead := True\<rparr>)
     in if state \<noteq> TCP_CLOSE \<and> sk_state sk = TCP_CLOSE then sk
     else if sk_state sk = TCP_CLOSE then inet_csk_destroy_sock sk
     else sk)"

definition tcp_nip_need_reset :: "tcp_state \<Rightarrow> bool" where
  "tcp_nip_need_reset s \<longleftrightarrow> s \<in> {TCP_ESTABLISHED, TCP_CLOSE_WAIT, TCP_FIN_WAIT1, TCP_FIN_WAIT2, TCP_SYN_RECV}"

text \<open>tcp_nip_disconnect in two parts: what the peer is told, and the reset of the socket.\<close>

definition disconnect_peer :: "tcp_env \<Rightarrow> bool \<Rightarrow> tcp_nip_sock \<Rightarrow> tcp_nip_sock" where
  "disconnect_peer e alloc_ok sk =
    (let old_state = sk_state sk; sk = sk\<lparr>sk_state := TCP_CLOSE\<rparr> in
     if old_state = TCP_LISTEN then sk
     else if tcp_nip_need_reset old_state \<or> (snd_nxt sk \<noteq> write_seq sk \<and> (old_state = TCP_CLOSING \<or> old_state = TCP_LAST_ACK))
       then (tcp_nip_send_active_reset e alloc_ok sk)\<lparr>sk_err := ECONNRESET\<rparr>
     else if old_state = TCP_SYN_SENT then sk\<lparr>sk_err := ECONNRESET\<rparr>
     else sk)"

definition tcp_nip_disconnect :: "tcp_env \<Rightarrow> bool \<Rightarrow> tcp_nip_sock \<Rightarrow> tcp_nip_sock" where
  "tcp_nip_disconnect e alloc_ok sk =
    (let sk = inet_csk_clear_xmit_timers (disconnect_peer e alloc_ok sk);
         sk = tcp_sock_priv_init e (tcp_nip_write_queue_purge (sk\<lparr>rcv_queue := []\<rparr>));
         seq = write_seq sk + (max_window sk + 2)
     in sk\<lparr>rcv_shutdown := False, snd_shutdown := False, sock_done := False, write_seq := (if seq = 0 then 1 else seq),
          icsk_backoff := 0, icsk_probes_out := 0, icsk_rto := nip_rto_init e, packets_out := 0, window_clamp := 0,
          icsk_retransmits := 0, ack_sched := False, ack_timer := False, rcv_mss := ucast TCP_MIN_MSS,
          mss_clamp := 0, user_mss := 0, snd_wscale := 0, rcv_wscale := 0, wscale_ok := False\<rparr>)"

section \<open>The write queue\<close>

text \<open>What a packet of the write queue keeps while it is sent.\<close>

definition pkt_core :: "tcp_skb \<Rightarrow> u32 \<times> u32 \<times> u8 \<times> bytes" where
  "pkt_core p = (pkt_seq p, pkt_end_seq p, pkt_flags p, pkt_data p)"

definition wq :: "tcp_nip_sock \<Rightarrow> (u32 \<times> u32 \<times> u8 \<times> bytes) list" where
  "wq sk = map pkt_core (rtx_queue sk @ send_queue sk)"

definition wq_same :: "tcp_nip_sock \<Rightarrow> tcp_nip_sock \<Rightarrow> bool" where
  "wq_same sk sk' \<longleftrightarrow> wq sk' = wq sk \<and> write_seq sk' = write_seq sk \<and> sk_state sk' = sk_state sk \<and> rcv_queue sk' = rcv_queue sk \<and>
     copied_seq sk' = copied_seq sk \<and> rcv_nxt sk' = rcv_nxt sk \<and> sk_err sk' = sk_err sk"

lemma wq_same_refl [simp]: "wq_same sk sk" by (simp add: wq_same_def)

lemma wq_same_trans: "wq_same a b \<Longrightarrow> wq_same b c \<Longrightarrow> wq_same a c" by (simp add: wq_same_def)

lemma out_frame_more:
  assumes "out_frame a = out_frame b"
  shows "write_seq a = write_seq b" "rcv_queue a = rcv_queue b" "copied_seq a = copied_seq b" "ofo_queue a = ofo_queue b"
    "sk_err a = sk_err b"
proof -
  have w: "write_seq (out_frame s) = write_seq s" "rcv_queue (out_frame s) = rcv_queue s"
    "copied_seq (out_frame s) = copied_seq s" "ofo_queue (out_frame s) = ofo_queue s"
    "sk_err (out_frame s) = sk_err s" for s by (simp_all add: out_frame_def)
  show "write_seq a = write_seq b" "rcv_queue a = rcv_queue b" "copied_seq a = copied_seq b" "ofo_queue a = ofo_queue b"
    "sk_err a = sk_err b"
    using arg_cong [OF assms, of write_seq] arg_cong [OF assms, of rcv_queue] arg_cong [OF assms, of copied_seq]
      arg_cong [OF assms, of ofo_queue] arg_cong [OF assms, of sk_err] by (simp_all add: w)
qed

lemmas transmit_keeps_more = out_frame_more [OF transmit_frame]

lemma transmit_same: "wq_same sk (snd (snd (tcp_nip_transmit e c nxt skb sk)))"
  by (simp add: wq_same_def wq_def transmit_keeps transmit_keeps_more)

lemma rearm_same [simp]: "wq_same sk (tcp_nip_rearm_rto e sk)"
  by (simp add: tcp_nip_rearm_rto_def wq_same_def wq_def inet_csk_clear_xmit_timer_def inet_csk_reset_xmit_timer_def)

lemma init_tso_core [simp]: "pkt_core (tcp_nip_init_tso_segs mss skb) = pkt_core skb"
  by (simp add: tcp_nip_init_tso_segs_def tcp_nip_set_skb_tso_segs_def Let_def pkt_core_def)

lemma new_data_same:
  assumes "send_queue sk = p # ps" "pkt_core skb = pkt_core p"
  shows "wq_same sk (tcp_nip_event_new_data_sent e skb sk)"
proof -
  have "wq_same sk (sk\<lparr>rtx_queue := rtx_queue sk @ [skb], send_queue := tl (send_queue sk), snd_nxt := pkt_end_seq skb,
      packets_out := packets_out sk + pkt_pcount skb\<rparr>)"
    using assms by (simp add: wq_same_def wq_def)
  then show ?thesis by (auto simp: tcp_nip_event_new_data_sent_def Let_def intro: wq_same_trans)
qed

lemma new_data_send_queue [simp]: "send_queue (tcp_nip_event_new_data_sent e skb sk) = tl (send_queue sk)"
  by (simp add: tcp_nip_event_new_data_sent_def Let_def tcp_nip_rearm_rto_def inet_csk_clear_xmit_timer_def inet_csk_reset_xmit_timer_def)

lemma xmit_loop_same: "send_queue sk = q \<Longrightarrow> wq_same sk (write_xmit_loop e mss one n q sk)"
proof (induction q arbitrary: n sk)
  case (Cons skb q)
  define s0 where "s0 = tcp_nip_init_tso_segs mss skb"
  define sk0 where "sk0 = sk\<lparr>send_queue := s0 # q\<rparr>"
  have 0: "wq_same sk sk0" using Cons.prems by (simp add: wq_same_def wq_def sk0_def s0_def)
  obtain err s1 sk1 where t: "tcp_nip_transmit_skb e True s0 sk0 = (err, s1, sk1)" by (metis prod_cases3)
  have c1: "pkt_core s1 = pkt_core s0"
    using transmit_skb_seq [OF t [unfolded tcp_nip_transmit_skb_def]] by (simp add: pkt_core_def)
  have 1: "wq_same sk0 sk1" "send_queue sk1 = s0 # q"
    using transmit_same [of sk0 e True "rcv_nxt sk0" s0] t transmit_keeps(6) [of e True "rcv_nxt sk0" s0 sk0]
    by (auto simp: tcp_nip_transmit_skb_def sk0_def)
  have 2: "wq_same sk1 (sk1\<lparr>send_queue := s1 # q\<rparr>)" using 1(2) c1 by (simp add: wq_same_def wq_def)
  have 3: "wq_same sk1 (tcp_nip_event_new_data_sent e s1 sk1)" by (rule new_data_same [OF 1(2) c1])
  have 4: "wq_same (tcp_nip_event_new_data_sent e s1 sk1) (write_xmit_loop e mss one (n - 1) q (tcp_nip_event_new_data_sent e s1 sk1))"
    by (rule Cons.IH) (simp add: 1(2))
  have 01: "wq_same sk sk1" by (rule wq_same_trans [OF 0 1(1)])
  note r = wq_same_trans [OF 01 2] wq_same_trans [OF 01 3] wq_same_trans [OF 01 wq_same_trans [OF 3 4]]
  show ?case
    using 0 r by (cases one) (simp_all add: Let_def s0_def [symmetric] sk0_def [symmetric] t)
qed simp

lemma keepalive_enable_same: "wq_same sk (tcp_nip_keepalive_enable e sk)"
  by (simp add: tcp_nip_keepalive_enable_def tcp_nip_keepalive_para_update_def tcp_set_keepalive_def
      inet_csk_reset_keepalive_timer_def Let_def wq_same_def wq_def)

lemma write_xmit_same: "wq_same sk (snd (tcp_nip_write_xmit e mss one sk))"
proof -
  have 1: "wq_same s (s\<lparr>idle_ka_probes_out := 0\<rparr>)" "wq_same s (s\<lparr>nip_ssthresh := x\<rparr>)" for s x
    by (simp_all add: wq_same_def wq_def)
  show ?thesis
    unfolding tcp_nip_write_xmit_def Let_def snd_conv
    by (rule wq_same_trans [OF _ xmit_loop_same [OF refl]])
      (auto intro: wq_same_trans [OF keepalive_enable_same wq_same_trans [OF 1(1) 1(2)]]
        wq_same_trans [OF keepalive_enable_same 1(1)])
qed

lemma push_same: "wq_same sk (tcp_nip_push_pending e mss sk)"
proof -
  have "wq_same s (tcp_nip_check_probe_timer e s)" for s
    by (simp add: tcp_nip_check_probe_timer_def inet_csk_reset_xmit_timer_def wq_same_def wq_def)
  then show ?thesis using write_xmit_same [of sk e mss False]
    by (auto simp: tcp_nip_push_pending_def split: prod.split bool.split intro: wq_same_trans)
qed

section \<open>Closing\<close>

definition wq_data :: "tcp_nip_sock \<Rightarrow> bytes" where
  "wq_data sk = concat (map (\<lambda>(seq, end_seq, fl, d). d) (wq sk))"

lemma wq_same_data: "wq_same sk sk' \<Longrightarrow> wq_data sk' = wq_data sk" by (simp add: wq_same_def wq_data_def)

text \<open>The write queue ends at write_seq.\<close>

definition wq_tail :: "tcp_nip_sock \<Rightarrow> bool" where
  "wq_tail sk \<longleftrightarrow> (send_queue sk \<noteq> [] \<longrightarrow> pkt_end_seq (last (send_queue sk)) = write_seq sk)"

lemma send_fin_wq:
  assumes "wq_tail sk"
  shows "write_seq (tcp_nip_send_fin e True sk) = write_seq sk + 1" "wq_data (tcp_nip_send_fin e True sk) = wq_data sk"
    "sk_state (tcp_nip_send_fin e True sk) = sk_state sk" "rcv_queue (tcp_nip_send_fin e True sk) = rcv_queue sk"
    "\<exists>a f d. wq (tcp_nip_send_fin e True sk) \<noteq> [] \<and> last (wq (tcp_nip_send_fin e True sk)) = (a, write_seq sk + 1, f, d) \<and> flag f TCPHDR_FIN"
proof -
  have "flag TCPHDR_FIN TCPHDR_FIN" by (simp add: flag_def TCPHDR_FIN_def)
  then have f: "flag (or x TCPHDR_FIN) TCPHDR_FIN" for x by simp
  define s0 where "s0 = (if send_queue sk \<noteq> []
    then sk\<lparr>send_queue := butlast (send_queue sk) @ [set_fin (last (send_queue sk))], write_seq := write_seq sk + 1\<rparr>
    else tcp_nip_queue_skb (tcp_nip_init_nondata_skb (write_seq sk) (or TCPHDR_ACK TCPHDR_FIN)) sk)"
  have p: "wq_same s0 (tcp_nip_send_fin e True sk)" by (simp add: tcp_nip_send_fin_def s0_def push_same)
  have d: "wq_data s0 = wq_data sk"
  proof (cases "send_queue sk = []")
    case False
    then obtain q x where q: "send_queue sk = q @ [x]" by (meson rev_exhaust)
    show ?thesis by (simp add: s0_def q wq_data_def wq_def pkt_core_def set_fin_def)
  qed (simp add: s0_def wq_data_def wq_def tcp_nip_queue_skb_def tcp_nip_init_nondata_skb_def pkt_core_def)
  have l: "\<exists>a f d. wq s0 \<noteq> [] \<and> last (wq s0) = (a, write_seq sk + 1, f, d) \<and> flag f TCPHDR_FIN"
    using assms f by (auto simp: s0_def wq_def wq_tail_def pkt_core_def set_fin_def tcp_nip_queue_skb_def tcp_nip_init_nondata_skb_def)
  have r: "write_seq s0 = write_seq sk + 1" "sk_state s0 = sk_state sk" "rcv_queue s0 = rcv_queue sk"
    using f by (auto simp: s0_def tcp_nip_queue_skb_def tcp_nip_init_nondata_skb_def)
  show "write_seq (tcp_nip_send_fin e True sk) = write_seq sk + 1" "wq_data (tcp_nip_send_fin e True sk) = wq_data sk"
    "sk_state (tcp_nip_send_fin e True sk) = sk_state sk" "rcv_queue (tcp_nip_send_fin e True sk) = rcv_queue sk"
    "\<exists>a f d. wq (tcp_nip_send_fin e True sk) \<noteq> [] \<and> last (wq (tcp_nip_send_fin e True sk)) = (a, write_seq sk + 1, f, d) \<and> flag f TCPHDR_FIN"
    using p l r d wq_same_data [OF p] by (simp_all only: wq_same_def)
qed

lemma active_reset_sent:
  "\<exists>p. sent (tcp_nip_send_active_reset e True sk) = sent sk @ [p] \<and> flag (pkt_flags p) TCPHDR_RST \<and>
     \<not> flag (pkt_flags p) TCPHDR_SYN \<and> pkt_seq p = tcp_nip_acceptable_seq sk \<and> pkt_ack_seq p = rcv_nxt sk"
  by (simp add: tcp_nip_send_active_reset_def tcp_nip_transmit_skb_def tcp_nip_transmit_def tcp_nip_init_nondata_skb_def Let_def
      split_beta flag_def TCPHDR_ACK_def TCPHDR_RST_def TCPHDR_SYN_def nip_tcp_select_window_def tcp_nip_event_ack_sent_def
      inet_csk_clear_dack_def)

lemma active_reset_frame: "out_frame (tcp_nip_send_active_reset e ok sk) = out_frame sk"
  by (simp add: tcp_nip_send_active_reset_def tcp_nip_transmit_skb_def transmit_frame)

lemma release_nothing: "release_sock e cr [] (False, False) sk = sk"
  by (simp add: release_sock_def tcp_nip_release_cb_def)

lemma destroy_fields [simp]:
  "sk_state (inet_csk_destroy_sock sk) = sk_state sk" "sent (inet_csk_destroy_sock sk) = sent sk"
  "wq (inet_csk_destroy_sock sk) = []" "rcv_queue (inet_csk_destroy_sock sk) = []"
  "ofo_queue (inet_csk_destroy_sock sk) = []" "icsk_pending (inet_csk_destroy_sock sk) = ICSK_NONE" "ka_timer (inet_csk_destroy_sock sk) = None"
  by (simp_all add: inet_csk_destroy_sock_def sk_nip_stream_kill_queues_def tcp_nip_destroy_sock_def tcp_nip_write_queue_purge_def
      inet_csk_clear_xmit_timers_def wq_def)

text \<open>Closing a connection with all data read sends what is queued and then a FIN, and loses
  no byte of it; closing it with unread data sends one RST and drops everything.\<close>

theorem close_outcome:
  assumes "sk_state sk \<in> {TCP_ESTABLISHED, TCP_SYN_RECV, TCP_CLOSE_WAIT}" "wq_tail sk"
  shows "(data_was_unread (rcv_queue sk) = 0 \<longrightarrow>
      sk_state (tcp_nip_close e True cr [] (False, False) sk) = (if sk_state sk = TCP_CLOSE_WAIT then TCP_LAST_ACK else TCP_FIN_WAIT1) \<and>
      wq_data (tcp_nip_close e True cr [] (False, False) sk) = wq_data sk \<and>
      write_seq (tcp_nip_close e True cr [] (False, False) sk) = write_seq sk + 1 \<and>
      (\<exists>a f d. wq (tcp_nip_close e True cr [] (False, False) sk) \<noteq> [] \<and>
         last (wq (tcp_nip_close e True cr [] (False, False) sk)) = (a, write_seq sk + 1, f, d) \<and> flag f TCPHDR_FIN)) \<and>
    (data_was_unread (rcv_queue sk) \<noteq> 0 \<longrightarrow>
      sk_state (tcp_nip_close e True cr [] (False, False) sk) = TCP_CLOSE \<and>
      (\<exists>p. sent (tcp_nip_close e True cr [] (False, False) sk) = sent sk @ [p] \<and> flag (pkt_flags p) TCPHDR_RST \<and>
         pkt_seq p = tcp_nip_acceptable_seq sk) \<and>
      wq (tcp_nip_close e True cr [] (False, False) sk) = [] \<and> rcv_queue (tcp_nip_close e True cr [] (False, False) sk) = [])"
proof -
  define s0 where "s0 = sk\<lparr>rcv_shutdown := True, snd_shutdown := True, rcv_queue := []\<rparr>"
  define s1 where "s1 = s0\<lparr>sk_state := fst (new_state (sk_state sk))\<rparr>"
  define s2 where "s2 = s0\<lparr>sk_state := TCP_CLOSE\<rparr>"
  define f where "f = tcp_nip_send_fin e True s1"
  define r where "r = tcp_nip_send_active_reset e True s2"
  have n: "fst (new_state (sk_state sk)) = (if sk_state sk = TCP_CLOSE_WAIT then TCP_LAST_ACK else TCP_FIN_WAIT1)"
    "snd (new_state (sk_state sk))" using assms(1) by auto
  have t: "wq_tail s1" using assms(2) by (simp add: wq_tail_def s1_def s0_def)
  note F = send_fin_wq [OF t, of e, folded f_def]
  have s1: "sk_state s1 = (if sk_state sk = TCP_CLOSE_WAIT then TCP_LAST_ACK else TCP_FIN_WAIT1)"
    "write_seq s1 = write_seq sk" "wq_data s1 = wq_data sk" using n by (simp_all add: s1_def s0_def wq_data_def wq_def)
  have c0: "data_was_unread (rcv_queue sk) = 0 \<Longrightarrow>
      close_connection e True (sk\<lparr>rcv_shutdown := True, snd_shutdown := True\<rparr>) = f"
    using assms(1) n(2) by (auto simp: close_connection_def Let_def close_fin_def tcp_nip_close_state_def split_beta f_def s1_def s0_def)
  have c1: "data_was_unread (rcv_queue sk) \<noteq> 0 \<Longrightarrow>
      close_connection e True (sk\<lparr>rcv_shutdown := True, snd_shutdown := True\<rparr>) = r"
    using assms(1) by (auto simp: close_connection_def Let_def r_def s2_def s0_def)
  have fs: "sk_state f \<noteq> TCP_CLOSE" using F(3) s1(1) by simp
  have rs: "sk_state r = TCP_CLOSE" using out_frameD(1) [OF active_reset_frame] by (simp add: r_def s2_def)
  have sd: "tcp_nip_acceptable_seq s2 = tcp_nip_acceptable_seq sk" "sent s2 = sent sk"
    by (simp_all add: s2_def s0_def tcp_nip_acceptable_seq_def tcp_wnd_end_def)
  have k0: "data_was_unread (rcv_queue sk) = 0 \<Longrightarrow> tcp_nip_close e True cr [] (False, False) sk = f\<lparr>sock_dead := True\<rparr>"
    using fs by (simp add: tcp_nip_close_def Let_def c0 release_nothing)
  have k1: "data_was_unread (rcv_queue sk) \<noteq> 0 \<Longrightarrow>
      tcp_nip_close e True cr [] (False, False) sk = inet_csk_destroy_sock (r\<lparr>sock_dead := True\<rparr>)"
    using rs by (simp add: tcp_nip_close_def Let_def c1 release_nothing)
  have dead: "wq (f\<lparr>sock_dead := True\<rparr>) = wq f" "wq_data (f\<lparr>sock_dead := True\<rparr>) = wq_data f" by (simp_all add: wq_def wq_data_def)
  show ?thesis
    using F s1 active_reset_sent [of e s2] rs sd by (auto simp: k0 k1 dead r_def [symmetric])
qed

lemma close_outcome_witness:
  "sk_state (tcp_nip_close ex_env True (\<lambda>_ sk. (0, sk)) [] (False, False) (zero_sock\<lparr>sk_state := TCP_CLOSE_WAIT\<rparr>)) = TCP_LAST_ACK"
  using close_outcome [of "zero_sock\<lparr>sk_state := TCP_CLOSE_WAIT\<rparr>" ex_env "\<lambda>_ sk. (0, sk)"]
  by (simp add: zero_sock_def wq_tail_def data_was_unread_def)


section \<open>Disconnecting\<close>

lemma disconnect_peer_facts:
  "sk_state (disconnect_peer e True sk) = TCP_CLOSE"
  "sent (disconnect_peer e True sk) = sent sk \<or> (\<exists>p. sent (disconnect_peer e True sk) = sent sk @ [p] \<and> flag (pkt_flags p) TCPHDR_RST)"
  "(sent (disconnect_peer e True sk) \<noteq> sent sk) = (tcp_nip_need_reset (sk_state sk) \<or>
     (snd_nxt sk \<noteq> write_seq sk \<and> sk_state sk \<in> {TCP_CLOSING, TCP_LAST_ACK}))"
  "write_seq (disconnect_peer e True sk) = write_seq sk" "max_window (disconnect_peer e True sk) = max_window sk"
proof -
  define s where "s = sk\<lparr>sk_state := TCP_CLOSE\<rparr>"
  define r where "r = tcp_nip_send_active_reset e True s"
  have m: "max_window (out_frame x) = max_window x" for x by (simp add: out_frame_def)
  have r: "sk_state r = TCP_CLOSE" "write_seq r = write_seq sk" "max_window r = max_window sk"
    using out_frameD(1) [OF active_reset_frame, of e True s] out_frame_more(1) [OF active_reset_frame, of e True s]
      arg_cong [OF active_reset_frame [of e True s], of max_window] by (simp_all add: r_def s_def m)
  obtain p where p: "sent r = sent sk @ [p]" "flag (pkt_flags p) TCPHDR_RST"
    using active_reset_sent [of e s] by (auto simp: r_def s_def)
  note d = disconnect_peer_def [of e True sk, unfolded Let_def, folded s_def r_def]
  have s: "sk_state s = TCP_CLOSE" "write_seq s = write_seq sk" "max_window s = max_window sk" "sent s = sent sk" "snd_nxt s = snd_nxt sk"
    by (simp_all add: s_def)
  show "sk_state (disconnect_peer e True sk) = TCP_CLOSE" "write_seq (disconnect_peer e True sk) = write_seq sk"
    "max_window (disconnect_peer e True sk) = max_window sk" by (simp_all add: d r s)
  show "sent (disconnect_peer e True sk) = sent sk \<or> (\<exists>p. sent (disconnect_peer e True sk) = sent sk @ [p] \<and> flag (pkt_flags p) TCPHDR_RST)"
    using p by (simp add: d s)
  show "(sent (disconnect_peer e True sk) \<noteq> sent sk) = (tcp_nip_need_reset (sk_state sk) \<or>
     (snd_nxt sk \<noteq> write_seq sk \<and> sk_state sk \<in> {TCP_CLOSING, TCP_LAST_ACK}))"
    using p(1) s by (simp add: d tcp_nip_need_reset_def)
qed

text \<open>Whatever state it is called in, tcp_nip_disconnect leaves a closed socket with empty receive and
  write queues, no running timer and a new nonzero sequence number; a listening or closed socket sends
  nothing, and the peer gets exactly one RST when it takes part in the connection.\<close>

theorem disconnect_outcome:
  "sk_state (tcp_nip_disconnect e True sk) = TCP_CLOSE \<and> rcv_queue (tcp_nip_disconnect e True sk) = [] \<and>
   wq (tcp_nip_disconnect e True sk) = [] \<and> icsk_pending (tcp_nip_disconnect e True sk) = ICSK_NONE \<and>
   ka_timer (tcp_nip_disconnect e True sk) = None \<and> write_seq (tcp_nip_disconnect e True sk) \<noteq> 0 \<and>
   (if tcp_nip_need_reset (sk_state sk) \<or> (snd_nxt sk \<noteq> write_seq sk \<and> sk_state sk \<in> {TCP_CLOSING, TCP_LAST_ACK})
    then \<exists>p. sent (tcp_nip_disconnect e True sk) = sent sk @ [p] \<and> flag (pkt_flags p) TCPHDR_RST
    else sent (tcp_nip_disconnect e True sk) = sent sk)"
proof -
  define s where "s = disconnect_peer e True sk"
  note f = disconnect_peer_facts [of e sk, folded s_def]
  have d: "sk_state (tcp_nip_disconnect e True sk) = sk_state s" "rcv_queue (tcp_nip_disconnect e True sk) = []"
    "wq (tcp_nip_disconnect e True sk) = []" "icsk_pending (tcp_nip_disconnect e True sk) = ICSK_NONE"
    "ka_timer (tcp_nip_disconnect e True sk) = None" "write_seq (tcp_nip_disconnect e True sk) \<noteq> 0"
    "sent (tcp_nip_disconnect e True sk) = sent s"
    by (simp_all add: tcp_nip_disconnect_def Let_def s_def [symmetric] inet_csk_clear_xmit_timers_def tcp_sock_priv_init_def
        tcp_nip_write_queue_purge_def wq_def)
  show ?thesis using f d(6) unfolding d(1-5,7) by auto
qed

section \<open>Sending (tcp_nip_sendmsg)\<close>

text \<open>sk_stream_error: -EPIPE gives way to the pending error of the socket.\<close>

definition sk_stream_error :: "int \<Rightarrow> tcp_nip_sock \<Rightarrow> int \<times> tcp_nip_sock" where
  "sk_stream_error err sk =
    (if err = - EPIPE \<and> sk_err sk \<noteq> 0 then (- sk_err sk, sk\<lparr>sk_err := 0\<rparr>) else (err, sk))"

text \<open>skb_nip_entail of a new packet, and the data added to it.\<close>

definition skb_nip_entail :: "tcp_nip_sock \<Rightarrow> tcp_nip_sock" where
  "skb_nip_entail sk = sk\<lparr>send_queue := send_queue sk @ [\<lparr>pkt_seq = write_seq sk, pkt_end_seq = write_seq sk, pkt_ack_seq = 0,
     pkt_flags = TCPHDR_ACK, pkt_data = [], pkt_tstamp = 0, pkt_pcount = 0, pkt_gso_size = 0, th_window = 0, th_urg = 0, th_opts = []\<rparr>]\<rparr>"

definition add_data :: "bool \<Rightarrow> bytes \<Rightarrow> tcp_nip_sock \<Rightarrow> tcp_nip_sock" where
  "add_data first d sk =
    (let p = last (send_queue sk);
         p = p\<lparr>pkt_data := d, pkt_flags := (if first then and (pkt_flags p) (not TCPHDR_PSH) else pkt_flags p),
               pkt_end_seq := pkt_end_seq p + of_nat (length d), pkt_pcount := 0\<rparr>
     in sk\<lparr>send_queue := butlast (send_queue sk) @ [p], write_seq := write_seq sk + of_nat (length d)\<rparr>)"

text \<open>What an iteration of the loop meets: no memory, and the error and the effect of the wait on the
  socket; segments in the backlog (only looked at after the first packet), and their effect; or a packet,
  and whether the data could be copied from the user.\<close>

datatype snd_step = Wait_memory int "tcp_nip_sock \<Rightarrow> tcp_nip_sock" | Flush_backlog "tcp_nip_sock \<Rightarrow> tcp_nip_sock" | Packet bool

text \<open>The result of a call: the value returned, whether sk_send_head is left pointing to a packet that
  was freed, and the socket. None: the call still waits.\<close>

type_synonym snd_result = "(int \<times> bool \<times> tcp_nip_sock) option"

definition sendmsg_out :: "tcp_env \<Rightarrow> u32 \<Rightarrow> nat \<Rightarrow> tcp_nip_sock \<Rightarrow> snd_result" where
  "sendmsg_out e mss copied sk = Some (int copied, False, if copied > 0 then tcp_nip_push_pending e mss sk else sk)"

definition sendmsg_error :: "tcp_env \<Rightarrow> u32 \<Rightarrow> nat \<Rightarrow> int \<Rightarrow> tcp_nip_sock \<Rightarrow> snd_result" where
  "sendmsg_error e mss copied err sk =
    (if copied > 0 then sendmsg_out e mss copied sk
     else let (err, sk) = sk_stream_error err sk in Some (err, False, sk))"

text \<open>do_fault: the packet is taken out of the queue and freed; sk_send_head is not changed, so it points
  to the freed packet when that was the only unsent one, and the push at out would send it.\<close>

definition sendmsg_fault :: "tcp_env \<Rightarrow> u32 \<Rightarrow> nat \<Rightarrow> tcp_nip_sock \<Rightarrow> snd_result" where
  "sendmsg_fault e mss copied sk =
    (let sk = sk\<lparr>send_queue := butlast (send_queue sk)\<rparr> in
     if send_queue sk \<noteq> [] then sendmsg_error e mss copied (- EFAULT) sk
     else Some (if copied > 0 then int copied else - EFAULT, True, sk))"

fun sendmsg_loop :: "tcp_env \<Rightarrow> (u32 \<Rightarrow> int) \<Rightarrow> snd_step list \<Rightarrow> bool \<Rightarrow> u32 \<Rightarrow> nat \<Rightarrow> bytes \<Rightarrow> tcp_nip_sock \<Rightarrow> snd_result" where
  "sendmsg_loop e room [] pb mss copied rest sk = (if rest = [] then sendmsg_out e mss copied sk else None)"
| "sendmsg_loop e room (Wait_memory err f # steps) pb mss copied rest sk =
    (if rest = [] then sendmsg_out e mss copied sk
     else
       let sk = f (if copied > 0 then tcp_nip_push_pending e mss sk else sk) in
       if err \<noteq> 0 then sendmsg_error e mss copied err sk
       else let (mss, sk) = tcp_nip_current_mss e sk in sendmsg_loop e room steps pb mss copied rest sk)"
| "sendmsg_loop e room (Flush_backlog f # steps) pb mss copied rest sk =
    (if rest = [] then sendmsg_out e mss copied sk
     else if pb then
       let (mss, sk) = tcp_nip_current_mss e (f sk) in
       if sk_err sk \<noteq> 0 \<or> snd_shutdown sk then sendmsg_error e mss copied (- EPIPE) sk
       else sendmsg_loop e room steps False mss copied rest sk
     else sendmsg_loop e room steps pb mss copied rest sk)"
| "sendmsg_loop e room (Packet copy_ok # steps) pb mss copied rest sk =
    (if rest = [] then sendmsg_out e mss copied sk
     else
       let sk = skb_nip_entail sk; copy = min (sint mss) (int (length rest)) in
       if room mss > 0 then
         let n = nat (min copy (room mss)) in
         if \<not> copy_ok then sendmsg_fault e mss copied sk
         else sendmsg_loop e room steps True mss (copied + n) (drop n rest) (add_data (copied = 0) (take n rest) sk)
       else sendmsg_out e mss copied sk)"

text \<open>tcp_nip_sendmsg; connect is the result of sk_stream_wait_connect. tcp_nip_send_mss also computes a
  size goal, which tcp_nip_push does not use.\<close>

definition tcp_nip_sendmsg :: "tcp_env \<Rightarrow> (u32 \<Rightarrow> int) \<Rightarrow> int \<times> (tcp_nip_sock \<Rightarrow> tcp_nip_sock) \<Rightarrow> snd_step list \<Rightarrow> bytes \<Rightarrow>
    tcp_nip_sock \<Rightarrow> snd_result" where
  "tcp_nip_sendmsg e room connect steps msg sk =
    (let wait = (sk_state sk \<noteq> TCP_ESTABLISHED \<and> sk_state sk \<noteq> TCP_CLOSE_WAIT); sk = (if wait then snd connect sk else sk) in
     if wait \<and> fst connect \<noteq> 0 then sendmsg_error e 0 0 (fst connect) sk
     else
       let (mss, sk) = tcp_nip_current_mss e sk in
       if sk_err sk \<noteq> 0 \<or> snd_shutdown sk then sendmsg_error e mss 0 (- EPIPE) sk
       else sendmsg_loop e room steps False mss 0 msg sk)"

text \<open>The write queue holds exactly the bytes bs, numbered from a, in packets that follow each other; a
  pending error is a positive number.\<close>

fun chain :: "u32 \<Rightarrow> bytes \<Rightarrow> (u32 \<times> u32 \<times> u8 \<times> bytes) list \<Rightarrow> bool" where
  "chain a bs [] \<longleftrightarrow> bs = []"
| "chain a bs ((seq, end_seq, fl, d) # ps) \<longleftrightarrow> seq = a \<and> end_seq = a + of_nat (length d) \<and> \<not> flag fl TCPHDR_FIN \<and> \<not> flag fl TCPHDR_SYN \<and>
     (\<exists>bs'. bs = d @ bs' \<and> chain end_seq bs' ps)"

definition sending :: "u32 \<Rightarrow> bytes \<Rightarrow> tcp_nip_sock \<Rightarrow> bool" where
  "sending a bs sk \<longleftrightarrow> chain a bs (wq sk) \<and> write_seq sk = a + of_nat (length bs) \<and> sk_err sk \<ge> 0"

lemma chain_append:
  "chain a bs (p @ q) \<longleftrightarrow> (\<exists>xs ys. bs = xs @ ys \<and> chain a xs p \<and> chain (a + of_nat (length xs)) ys q)"
proof (induction p arbitrary: a bs)
  case (Cons x p)
  obtain seq end_seq fl d where x: "x = (seq, end_seq, fl, d)" by (metis prod_cases4)
  show ?case
  proof
    assume "chain a bs ((x # p) @ q)"
    then obtain bs' where b: "seq = a" "end_seq = a + of_nat (length d)" "\<not> flag fl TCPHDR_FIN" "\<not> flag fl TCPHDR_SYN" "bs = d @ bs'"
      "chain end_seq bs' (p @ q)" by (auto simp: x)
    then obtain xs ys where "bs' = xs @ ys" "chain end_seq xs p" "chain (end_seq + of_nat (length xs)) ys q" using Cons.IH by blast
    then show "\<exists>xs ys. bs = xs @ ys \<and> chain a xs (x # p) \<and> chain (a + of_nat (length xs)) ys q"
      using b by (intro exI [of _ "d @ xs"] exI [of _ ys]) (auto simp: x ac_simps)
  next
    assume "\<exists>xs ys. bs = xs @ ys \<and> chain a xs (x # p) \<and> chain (a + of_nat (length xs)) ys q"
    then obtain xs ys bs' where b: "bs = xs @ ys" "seq = a" "end_seq = a + of_nat (length d)" "\<not> flag fl TCPHDR_FIN" "\<not> flag fl TCPHDR_SYN" "xs = d @ bs'"
      "chain end_seq bs' p" "chain (a + of_nat (length xs)) ys q" by (auto simp: x)
    then have "chain end_seq (bs' @ ys) (p @ q)" using Cons.IH [of end_seq "bs' @ ys"] by (auto simp: ac_simps)
    then show "chain a bs ((x # p) @ q)" using b by (simp add: x)
  qed
qed simp

lemma sending_same: "wq_same sk sk' \<Longrightarrow> sending a bs sk' = sending a bs sk"
  by (simp add: sending_def wq_same_def)

lemma current_mss_same: "wq_same sk (snd (tcp_nip_current_mss e sk))"
  by (simp add: tcp_nip_current_mss_def tcp_nip_sync_mss_def Let_def wq_same_def wq_def split: option.split prod.split)

lemma sending_entail: "sending a bs sk \<Longrightarrow> sending a bs (skb_nip_entail sk)"
  by (auto simp: sending_def skb_nip_entail_def wq_def pkt_core_def chain_append [where q = "[_]"] chain_append [where q = "_ @ _"]
      TCPHDR_ACK_def TCPHDR_FIN_def TCPHDR_SYN_def flag_def append_assoc [symmetric] simp del: append_assoc)

lemma wq_entail_add:
  "wq (add_data first d (skb_nip_entail sk)) =
     wq sk @ [(write_seq sk, write_seq sk + of_nat (length d), if first then and TCPHDR_ACK (not TCPHDR_PSH) else TCPHDR_ACK, d)]"
  by (simp add: wq_def skb_nip_entail_def add_data_def Let_def pkt_core_def)

lemma sending_add: "sending a bs sk \<Longrightarrow> sending a (bs @ d) (add_data first d (skb_nip_entail sk))"
  unfolding sending_def wq_entail_add
  by (auto simp: chain_append skb_nip_entail_def add_data_def TCPHDR_ACK_def TCPHDR_FIN_def TCPHDR_SYN_def TCPHDR_PSH_def flag_def Let_def)

text \<open>What others do to the socket while the call waits: acknowledged bytes leave the write queue.\<close>

definition keeps_stream :: "(tcp_nip_sock \<Rightarrow> tcp_nip_sock) \<Rightarrow> bool" where
  "keeps_stream f \<longleftrightarrow> (\<forall>a bs sk. sending a bs sk \<longrightarrow> (\<exists>k \<le> length bs. sending (a + of_nat k) (drop k bs) (f sk)))"

fun step_keeps :: "snd_step \<Rightarrow> bool" where
  "step_keeps (Wait_memory err f) \<longleftrightarrow> err \<le> 0 \<and> keeps_stream f"
| "step_keeps (Flush_backlog f) \<longleftrightarrow> keeps_stream f"
| "step_keeps (Packet ok) \<longleftrightarrow> True"

text \<open>The socket holds what is left of the stream bs after some bytes of it were acknowledged.\<close>

definition sends :: "u32 \<Rightarrow> bytes \<Rightarrow> tcp_nip_sock \<Rightarrow> bool" where
  "sends a bs sk \<longleftrightarrow> (\<exists>k \<le> length bs. sending (a + of_nat k) (drop k bs) sk)"

lemma sends_same: "wq_same sk sk' \<Longrightarrow> sends a bs sk' = sends a bs sk"
  unfolding sends_def using sending_same [of sk sk'] by blast

lemma sends_effect: "keeps_stream f \<Longrightarrow> sends a bs sk \<Longrightarrow> sends a bs (f sk)"
proof -
  assume f: "keeps_stream f" and "sends a bs sk"
  then obtain k where k: "k \<le> length bs" "sending (a + of_nat k) (drop k bs) sk" by (auto simp: sends_def)
  then obtain j where j: "j \<le> length bs - k" "sending (a + of_nat k + of_nat j) (drop j (drop k bs)) (f sk)"
    using f by (force simp: keeps_stream_def)
  then have "sending (a + of_nat (k + j)) (drop (k + j) bs) (f sk)" by (simp add: ac_simps)
  then show ?thesis using j(1) k(1) by (auto simp: sends_def intro!: exI [of _ "k + j"])
qed

lemma sends_entail: "sends a bs sk \<Longrightarrow> sends a bs (skb_nip_entail sk)"
  using sending_entail by (auto simp: sends_def)

lemma sends_add: "sends a bs sk \<Longrightarrow> sends a (bs @ d) (add_data first d (skb_nip_entail sk))"
proof -
  assume "sends a bs sk"
  then obtain k where k: "k \<le> length bs" "sending (a + of_nat k) (drop k bs) sk" by (auto simp: sends_def)
  have "sending (a + of_nat k) (drop k bs @ d) (add_data first d (skb_nip_entail sk))" by (rule sending_add [OF k(2)])
  then show ?thesis using k(1) unfolding sends_def by (intro exI [of _ k]) simp
qed

lemma sends_unlink: "sends a bs sk \<Longrightarrow> sends a bs ((skb_nip_entail sk)\<lparr>send_queue := butlast (send_queue (skb_nip_entail sk))\<rparr>)"
  by (simp add: sends_def sending_def skb_nip_entail_def wq_def)

lemma out_sends: "sends a bs sk \<Longrightarrow> sendmsg_out e mss c sk = Some (r, stale, sk') \<Longrightarrow> sends a bs sk' \<and> r = int c"
  using sends_same [OF push_same, of a bs e mss sk] by (cases "c > 0") (simp_all add: sendmsg_out_def)

lemma error_sends:
  assumes "sends a bs sk" "sendmsg_error e mss c err sk = Some (r, stale, sk')" "err < 0"
  shows "sends a bs sk' \<and> (r = int c \<or> c = 0 \<and> r < 0)"
proof (cases "c > 0")
  case False
  have "sends a bs (sk\<lparr>sk_err := 0\<rparr>)" "sk_err sk \<ge> 0" using assms(1) by (auto simp: sends_def sending_def wq_def)
  then show ?thesis using assms False
    by (auto simp: sendmsg_error_def sk_stream_error_def split: if_splits)
qed (use assms out_sends in \<open>auto simp: sendmsg_error_def\<close>)

lemma fault_sends:
  assumes "sends a bs sk" "sendmsg_fault e mss c (skb_nip_entail sk) = Some (r, stale, sk')"
  shows "sends a bs sk' \<and> (r = int c \<or> c = 0 \<and> r < 0)"
  using assms error_sends [OF sends_unlink [OF assms(1)], of e mss c "- EFAULT" r stale sk'] sends_unlink [OF assms(1)]
  by (auto simp: sendmsg_fault_def Let_def split: if_splits)

lemma mss_sends: "sends a bs sk \<Longrightarrow> tcp_nip_current_mss e sk = (mss, sk') \<Longrightarrow> sends a bs sk'"
  using current_mss_same [of sk e] sends_same [of sk sk' a bs] by simp

lemma loop_sends:
  assumes "sends a (bs @ take c msg) sk" "\<forall>s \<in> set steps. step_keeps s" "rest = drop c msg" "c \<le> length msg"
    "sendmsg_loop e room steps pb mss c rest sk = Some (r, stale, sk')"
  shows "\<exists>n \<le> length msg. (r = int n \<or> n = 0 \<and> r < 0) \<and> sends a (bs @ take n msg) sk'"
  using assms
proof (induction e room steps pb mss c rest sk rule: sendmsg_loop.induct)
  case (1 e room pb mss c rest sk)
  then show ?case using out_sends [OF 1(1), of e mss c r stale sk'] by (intro exI [of _ c]) (simp split: if_splits)
next
  case (2 e room err f steps pb mss c rest sk)
  define s where "s = f (if c > 0 then tcp_nip_push_pending e mss sk else sk)"
  have s: "sends a (bs @ take c msg) s"
    using 2(2,3) sends_effect sends_same [OF push_same] by (auto simp: s_def)
  obtain m s' where m: "tcp_nip_current_mss e s = (m, s')" by fastforce
  note s' = mss_sends [OF s m]
  consider "rest = []" | "rest \<noteq> []" "err = 0" | "rest \<noteq> []" "err \<noteq> 0" by blast
  then show ?case
  proof cases
    case 1
    then have "sendmsg_out e mss c sk = Some (r, stale, sk')" using 2(6) by simp
    then show ?thesis using out_sends [OF 2(2), of e mss c r stale sk'] 2(5) by (intro exI [of _ c]) simp
  next
    case c: 2
    then have "sendmsg_loop e room steps pb m c rest s' = Some (r, stale, sk')"
      using 2(6) by (simp add: Let_def s_def [symmetric] m)
    then show ?thesis using 2(1) [OF c(1) s_def _ m [symmetric] refl s'] 2(3-5) c by simp
  next
    case c: 3
    then have "sendmsg_error e mss c err s = Some (r, stale, sk')" using 2(6) by (simp add: Let_def s_def [symmetric])
    then show ?thesis using error_sends [OF s, of e mss c err r stale sk'] 2(3,5) c(2) by (intro exI [of _ c]) simp
  qed
next
  case (3 e room f steps pb mss c rest sk)
  obtain m s' where m: "tcp_nip_current_mss e (f sk) = (m, s')" by fastforce
  have s': "sends a (bs @ take c msg) s'" using 3(3,4) sends_effect mss_sends [OF _ m] by auto
  consider "rest = []" | "rest \<noteq> []" "\<not> pb" | "rest \<noteq> []" pb "sk_err s' \<noteq> 0 \<or> snd_shutdown s'"
    | "rest \<noteq> []" pb "\<not> (sk_err s' \<noteq> 0 \<or> snd_shutdown s')" by blast
  then show ?case
  proof cases
    case 1
    then have "sendmsg_out e mss c sk = Some (r, stale, sk')" using 3(7) by simp
    then show ?thesis using out_sends [OF 3(3), of e mss c r stale sk'] 3(6) by (intro exI [of _ c]) simp
  next
    case c: 2
    then have "sendmsg_loop e room steps pb mss c rest sk = Some (r, stale, sk')" using 3(7) by simp
    then show ?thesis using 3(2) [OF c 3(3)] 3(4-6) by simp
  next
    case c: 3
    then have "sendmsg_error e m c (- EPIPE) s' = Some (r, stale, sk')" using 3(7) by (simp add: m)
    then show ?thesis using error_sends [OF s', of e m c "- EPIPE" r stale sk'] 3(6) EPIPE_def by (intro exI [of _ c]) simp
  next
    case c: 4
    then have "sendmsg_loop e room steps False m c rest s' = Some (r, stale, sk')" using 3(7) by (simp add: m)
    then show ?thesis using 3(1) [OF c(1,2) m [symmetric] refl c(3) s'] 3(4-6) by simp
  qed
next
  case (4 e room ok steps pb mss c rest sk)
  define s where "s = skb_nip_entail sk"
  define n where "n = nat (min (min (sint mss) (int (length rest))) (room mss))"
  have s: "sends a (bs @ take c msg) s" using 4(2) sends_entail by (simp add: s_def)
  consider "rest = []" | "rest \<noteq> []" "\<not> room mss > 0" | "rest \<noteq> []" "room mss > 0" "\<not> ok" | "rest \<noteq> []" "room mss > 0" ok by blast
  then show ?case
  proof cases
    case 1
    then have "sendmsg_out e mss c sk = Some (r, stale, sk')" using 4(6) by simp
    then show ?thesis using out_sends [OF 4(2), of e mss c r stale sk'] 4(5) by (intro exI [of _ c]) simp
  next
    case c: 2
    then have "sendmsg_out e mss c s = Some (r, stale, sk')" using 4(6) by (simp add: Let_def s_def)
    then show ?thesis using out_sends [OF s, of e mss c r stale sk'] 4(5) by (intro exI [of _ c]) simp
  next
    case c: 3
    then have "sendmsg_fault e mss c s = Some (r, stale, sk')" using 4(6) by (simp add: Let_def s_def)
    then show ?thesis using fault_sends [OF 4(2), of e mss c r stale sk'] 4(5) unfolding s_def by (intro exI [of _ c]) simp
  next
    case c: 4
    have n: "n \<le> length (drop c msg)" unfolding 4(4) [symmetric] n_def by simp
    have t: "take (c + n) msg = take c msg @ take n rest" unfolding 4(4) by (rule take_add)
    have l: "sendmsg_loop e room steps True mss (c + n) (drop n rest) (add_data (c = 0) (take n rest) s) = Some (r, stale, sk')"
      using 4(6) c by (simp add: Let_def s_def n_def)
    have d: "drop n rest = drop (c + n) msg" unfolding 4(4) by (simp add: ac_simps)
    have "sends a (bs @ take (c + n) msg) (add_data (c = 0) (take n rest) s)"
      using sends_add [OF 4(2), of "take n rest" "c = 0"] unfolding t s_def by simp
    then show ?thesis using 4(1) [OF c(1) s_def refl c(2) n_def] c(3) 4(3,5) n d l by simp
  qed
qed

lemma sendmsg_sends:
  assumes "sending a bs sk" "\<forall>s \<in> set steps. step_keeps s" "fst connect \<le> 0" "keeps_stream (snd connect)"
    "tcp_nip_sendmsg e room connect steps msg sk = Some (r, stale, sk')"
  shows "\<exists>n \<le> length msg. (r = int n \<or> n = 0 \<and> r < 0) \<and> sends a (bs @ take n msg) sk'"
proof -
  define wait where "wait = (sk_state sk \<noteq> TCP_ESTABLISHED \<and> sk_state sk \<noteq> TCP_CLOSE_WAIT)"
  define s where "s = (if wait then snd connect sk else sk)"
  have "sends a bs sk" using assms(1) by (auto simp: sends_def intro!: exI [of _ 0])
  then have s: "sends a bs s" using sends_effect [OF assms(4)] by (simp add: s_def)
  obtain m s' where m: "tcp_nip_current_mss e s = (m, s')" by fastforce
  note s' = mss_sends [OF s m]
  note d = assms(5) [unfolded tcp_nip_sendmsg_def Let_def, folded wait_def, folded s_def, unfolded m]
  consider "wait" "fst connect \<noteq> 0" | "\<not> (wait \<and> fst connect \<noteq> 0)" "sk_err s' \<noteq> 0 \<or> snd_shutdown s'"
    | "\<not> (wait \<and> fst connect \<noteq> 0)" "\<not> (sk_err s' \<noteq> 0 \<or> snd_shutdown s')" by blast
  then show ?thesis
  proof cases
    case 1
    then have "sendmsg_error e 0 0 (fst connect) s = Some (r, stale, sk')" using d by (simp split: if_splits)
    then show ?thesis using error_sends [OF s, of e 0 0 "fst connect" r stale sk'] assms(3) 1(2) by (intro exI [of _ 0]) simp
  next
    case 2
    then have "sendmsg_error e m 0 (- EPIPE) s' = Some (r, stale, sk')" using d by (simp split: if_splits)
    then show ?thesis using error_sends [OF s', of e m 0 "- EPIPE" r stale sk'] EPIPE_def by (intro exI [of _ 0]) simp
  next
    case 3
    then have "sendmsg_loop e room steps False m 0 msg s' = Some (r, stale, sk')" using d by (simp split: if_splits)
    then show ?thesis using loop_sends [where c = 0 and bs = bs and msg = msg] s' assms(2) by auto
  qed
qed

lemma loop_takes_all:
  assumes "sint mss > 0" "room mss > 0" "length rest \<le> k" "sending a bs sk"
  shows "\<exists>sk'. sendmsg_loop e room (replicate k (Packet True)) pb mss c rest sk = Some (int (c + length rest), False, sk') \<and>
    sending a (bs @ rest) sk'"
  using assms(3,4)
proof (induction k arbitrary: pb c rest sk bs)
  case 0
  then show ?case using sending_same [OF push_same] by (simp add: sendmsg_out_def)
next
  case (Suc k)
  show ?case
  proof (cases "rest = []")
    case True
    then show ?thesis using Suc.prems sending_same [OF push_same] by (simp add: sendmsg_out_def)
  next
    case False
    define n where "n = nat (min (min (sint mss) (int (length rest))) (room mss))"
    have n: "0 < n" "n \<le> length rest" using assms(1,2) False by (auto simp: n_def)
    then have l: "length (drop n rest) \<le> k" using Suc.prems(1) by simp
    from Suc.IH [OF l sending_add [OF Suc.prems(2), of "take n rest" "c = 0"], of True "c + n"]
    show ?thesis using False assms(2) n(2) by (simp add: Let_def n_def [symmetric])
  qed
qed

lemma sendmsg_takes_all:
  assumes "sk_state sk \<in> {TCP_ESTABLISHED, TCP_CLOSE_WAIT}" "sk_err sk = 0" "\<not> snd_shutdown sk"
    "sint (fst (tcp_nip_current_mss e sk)) > 0" "room (fst (tcp_nip_current_mss e sk)) > 0" "length msg \<le> k" "sending a bs sk"
  shows "\<exists>sk'. tcp_nip_sendmsg e room connect (replicate k (Packet True)) msg sk = Some (int (length msg), False, sk') \<and>
    sending a (bs @ msg) sk'"
proof -
  obtain m s where m: "tcp_nip_current_mss e sk = (m, s)" by fastforce
  have "sk_err (snd (tcp_nip_current_mss e sk)) = sk_err sk" "snd_shutdown (snd (tcp_nip_current_mss e sk)) = snd_shutdown sk"
    by (simp_all add: tcp_nip_current_mss_def tcp_nip_sync_mss_def Let_def split: option.split prod.split)
  then have "sk_err s = 0" "\<not> snd_shutdown s" using assms(2,3) m by simp_all
  moreover have "sending a bs s" using assms(7) sending_same [OF current_mss_same [of sk e], of a bs] m by simp
  ultimately show ?thesis
    using assms(1,4-6) loop_takes_all [of m room msg k a bs s e False 0] by (auto simp: tcp_nip_sendmsg_def Let_def m)
qed

section \<open>What happens to the write queue meanwhile\<close>

text \<open>Packets leave the write queue at its front, or none.\<close>

definition front_leaves :: "tcp_nip_sock \<Rightarrow> tcp_nip_sock \<Rightarrow> bool" where
  "front_leaves sk sk' \<longleftrightarrow> (\<exists>n. wq sk' = drop n (wq sk)) \<and> write_seq sk' = write_seq sk \<and> (sk_err sk \<ge> 0 \<longrightarrow> sk_err sk' \<ge> 0)"

lemma front_same: "wq sk' = wq sk \<Longrightarrow> write_seq sk' = write_seq sk \<Longrightarrow> sk_err sk' = sk_err sk \<Longrightarrow> front_leaves sk sk'"
  by (auto simp: front_leaves_def intro!: exI [of _ 0])

lemma front_wq_same: "wq_same sk sk' \<Longrightarrow> front_leaves sk sk'"
  by (rule front_same) (simp_all add: wq_same_def)

lemma front_leaves_trans: "front_leaves a b \<Longrightarrow> front_leaves b c \<Longrightarrow> front_leaves a c"
  by (auto simp: front_leaves_def)

lemma front_leaves_sending:
  assumes "front_leaves sk sk'" "sending a bs sk"
  shows "\<exists>k \<le> length bs. sending (a + of_nat k) (drop k bs) sk'"
proof -
  obtain n where n: "wq sk' = drop n (wq sk)" using assms(1) by (auto simp: front_leaves_def)
  have "chain a bs (take n (wq sk) @ drop n (wq sk))" using assms(2) by (simp add: sending_def)
  then obtain xs ys where b: "bs = xs @ ys" "chain (a + of_nat (length xs)) ys (drop n (wq sk))"
    unfolding chain_append by blast
  have "sending (a + of_nat (length xs)) ys sk'"
    using assms b n by (simp add: sending_def front_leaves_def ac_simps)
  then show ?thesis using b(1) by (intro exI [of _ "length xs"]) simp
qed

lemma front_keeps: "(\<And>sk. front_leaves sk (f sk)) \<Longrightarrow> keeps_stream f"
  using front_leaves_sending unfolding keeps_stream_def by blast

lemma send_ack_front: "front_leaves sk (tcp_nip_send_ack e sk)"
  by (rule front_wq_same) (simp add: tcp_nip_send_ack_def transmit_same)

lemma purge_front: "sk_err sk' \<ge> 0 \<Longrightarrow> write_seq sk' = write_seq sk \<Longrightarrow> rtx_queue sk' = [] \<Longrightarrow> send_queue sk' = [] \<Longrightarrow> front_leaves sk sk'"
  by (auto simp: front_leaves_def wq_def intro!: exI [of _ "length (wq sk)"])

lemma reset_front: "front_leaves sk (tcp_nip_reset sk)"
proof (cases "sk_state sk = TCP_CLOSE")
  case True
  then show ?thesis by (simp add: tcp_nip_reset_def front_same)
next
  case False
  then show ?thesis
    by (intro purge_front; cases "sk_state sk")
      (simp_all add: tcp_nip_reset_def tcp_nip_done_def tcp_nip_write_queue_purge_def inet_csk_clear_xmit_timers_def Let_def
        tcp_nip_destroy_sock_def sk_nip_stream_kill_queues_def ECONNREFUSED_def EPIPE_def ECONNRESET_def)
qed

lemma data_queue_front: "front_leaves sk (tcp_nip_data_queue e skb sk)"
proof -
  have ack: "wq (tcp_nip_send_ack e x) = wq x \<and> write_seq (tcp_nip_send_ack e x) = write_seq x \<and> sk_err (tcp_nip_send_ack e x) = sk_err x" for x
    using transmit_same by (simp add: tcp_nip_send_ack_def wq_same_def)
  have fin: "wq (tcp_nip_fin e x) = wq x \<and> write_seq (tcp_nip_fin e x) = write_seq x \<and> sk_err (tcp_nip_fin e x) = sk_err x" for x
  proof -
    have w: "wq (x\<lparr>sk_state := t\<rparr>) = wq x" "wq (x\<lparr>ka_timer := k\<rparr>) = wq x" "wq (x\<lparr>ack_sched := c, rcv_shutdown := c, sock_done := c\<rparr>) = wq x" for x t k c
      by (simp_all add: wq_def)
    show ?thesis
      by (cases "sk_state x") (simp_all add: tcp_nip_fin_def Let_def ack inet_csk_schedule_ack_def inet_csk_reset_keepalive_timer_def w)
  qed
  have loop: "wq (ofo_queue_loop e q x) = wq x \<and> write_seq (ofo_queue_loop e q x) = write_seq x \<and> sk_err (ofo_queue_loop e q x) = sk_err x" for q x
    by (induction q arbitrary: x) (simp_all add: Let_def fin, simp_all add: wq_def)
  have q: "wq (queue_in_order e skb x) = wq x \<and> write_seq (queue_in_order e skb x) = write_seq x \<and> sk_err (queue_in_order e skb x) = sk_err x" for x
  proof -
    have w: "wq (x\<lparr>rcv_queue := q, rcv_nxt := n, ack_sched := c\<rparr>) = wq x" for x q n c by (simp add: wq_def)
    show ?thesis by (simp add: queue_in_order_def Let_def tcp_nip_ofo_queue_def loop fin inet_csk_schedule_ack_def w)
  qed
  have w: "wq (x\<lparr>snd_up := u\<rparr>) = wq x" "wq (x\<lparr>snd_up := u, ack_sched := c\<rparr>) = wq x" "wq (x\<lparr>snd_up := u, ack_sched := c, ofo_queue := o'\<rparr>) = wq x" for x u c o'
    by (simp_all add: wq_def)
  show ?thesis
    by (rule front_same) (simp_all add: tcp_nip_data_queue_def tcp_nip_data_queue_ofo_def Let_def q inet_csk_schedule_ack_def w)
qed

lemma ack_snd_check_front: "front_leaves sk (tcp_nip_ack_snd_check e sk)"
proof -
  have s: "front_leaves sk (tcp_nip_send_ack e x)" "front_leaves sk (tcp_nip_send_delayed_ack e x)" if "front_leaves sk x" for x
  proof -
    show "front_leaves sk (tcp_nip_send_ack e x)" by (rule front_leaves_trans [OF that send_ack_front])
    have "front_leaves x (x\<lparr>ack_sched := True, ack_timer := True, ack_timeout := t\<rparr>)" for t by (rule front_same) (simp_all add: wq_def)
    then show "front_leaves sk (tcp_nip_send_delayed_ack e x)"
      using front_leaves_trans [OF that] send_ack_front by (simp add: tcp_nip_send_delayed_ack_def Let_def)
  qed
  have f: "front_leaves sk sk" "front_leaves sk (sk\<lparr>rcv_mss := m\<rparr>)" "front_leaves sk (sk\<lparr>rcv_mss := m, dup_ack_cnt := c\<rparr>)"
    "front_leaves sk (sk\<lparr>rcv_mss := m, dup_ack_cnt := c, last_rcv_nxt := l\<rparr>)" for m c l
    by (rule front_same; simp add: wq_def)+
  show ?thesis unfolding tcp_nip_ack_snd_check_def Let_def by (intro s f | simp add: s f | split if_split, intro conjI impI)+
qed

text \<open>An acknowledgment: the packets it covers leave; the others stay as they are unless some are to be
  retransmitted.\<close>

definition no_retransmission :: "tcp_nip_sock \<Rightarrow> bool" where
  "no_retransmission sk \<longleftrightarrow> sack_end sk = 0 \<and> sacked_out sk + 1 \<noteq> DUP_ACK_RETRANS_START_NUM"

lemma clean_loop_front:
  "clean_rtx_loop q acked ts sk = (acked', ts', sk') \<Longrightarrow> \<exists>n. rtx_queue sk' = drop n q \<and> send_queue sk' = send_queue sk \<and>
     write_seq sk' = write_seq sk \<and> sk_err sk' = sk_err sk \<and> sack_end sk' = sack_end sk"
proof (induction q arbitrary: acked ts sk)
  case (Cons p q)
  show ?case
  proof (cases "after (pkt_end_seq p) (snd_una sk) \<and> (pkt_pcount p = 1 \<or> \<not> after (snd_una sk) (pkt_seq p))")
    case True
    then have "sk' = sk\<lparr>rtx_queue := p # q\<rparr>" using Cons.prems by simp
    then show ?thesis by (intro exI [of _ 0]) simp
  next
    case False
    then obtain n where "rtx_queue sk' = drop n q \<and> send_queue sk' = send_queue sk \<and>
     write_seq sk' = write_seq sk \<and> sk_err sk' = sk_err sk \<and> sack_end sk' = sack_end sk"
      using Cons.prems Cons.IH by (simp only: clean_rtx_loop.simps Let_def if_False) force
    then show ?thesis by (intro exI [of _ "Suc n"]) simp
  qed
qed auto

lemma clean_front:
  assumes "tcp_nip_clean_rtx_queue e sk = (ts, sk')"
  shows "front_leaves sk sk'" "sack_end sk' = sack_end sk"
proof -
  obtain acked t s where l: "clean_rtx_loop (rtx_queue sk) False 0 sk = (acked, t, s)" by (metis prod_cases3)
  obtain n where n: "rtx_queue s = drop n (rtx_queue sk)" "send_queue s = send_queue sk" "write_seq s = write_seq sk" "sk_err s = sk_err sk"
    "sack_end s = sack_end sk" using clean_loop_front [OF l] by blast
  have "wq s = drop (min n (length (rtx_queue sk))) (wq sk)"
    using n(1,2) by (simp add: wq_def drop_map min_def)
  then have s: "front_leaves sk s" using n(3,4) by (auto simp: front_leaves_def)
  have r: "front_leaves s (s\<lparr>icsk_rto := t\<rparr>)" for t by (rule front_same) (simp_all add: wq_def)
  have "front_leaves sk (tcp_nip_rearm_rto e (s\<lparr>icsk_rto := t\<rparr>))" for t
    by (rule front_leaves_trans [OF s front_leaves_trans [OF r front_wq_same [OF rearm_same]]])
  moreover have "front_leaves sk (s\<lparr>icsk_rto := t\<rparr>)" for t by (rule front_leaves_trans [OF s r])
  ultimately show "front_leaves sk sk'" using assms by (auto simp: tcp_nip_clean_rtx_queue_def Let_def l)
  show "sack_end sk' = sack_end sk" using assms n(5)
    by (auto simp: tcp_nip_clean_rtx_queue_def Let_def l tcp_nip_rearm_rto_def inet_csk_clear_xmit_timer_def inet_csk_reset_xmit_timer_def)
qed

lemma new_ack_front:
  assumes "no_retransmission sk"
  shows "front_leaves sk (tcp_nip_new_ack e ack sk)"
proof -
  define s0 where "s0 = sk\<lparr>icsk_retransmits := 0, rcv_tstamp := tcp_jiffies32 e, snd_una := ack\<rparr>"
  obtain ts s1 where c: "tcp_nip_clean_rtx_queue e s0 = (ts, s1)" by fastforce
  have 0: "front_leaves sk s0" by (rule front_same) (simp_all add: s0_def wq_def)
  have 1: "front_leaves sk s1" by (rule front_leaves_trans [OF 0 clean_front(1) [OF c]])
  have 2: "front_leaves s1 (tcp_nip_ack_calc_ssthresh e ack ts s1)" "sack_end (tcp_nip_ack_calc_ssthresh e ack ts s1) = sack_end s1"
    by (auto simp: tcp_nip_ack_calc_ssthresh_def Let_def wq_def intro!: front_same)
  have z: "sack_end s1 = 0" using clean_front(2) [OF c] assms by (simp add: s0_def no_retransmission_def)
  have 3: "front_leaves x (x\<lparr>sacked_out := 0\<rparr>)" for x by (rule front_same) (simp_all add: wq_def)
  have "tcp_nip_new_ack e ack sk = (tcp_nip_ack_calc_ssthresh e ack ts s1)\<lparr>sacked_out := 0\<rparr>"
    using z 2(2) by (simp add: tcp_nip_new_ack_def s0_def [symmetric] c tcp_nip_nor_ack_retrans_def)
  then show ?thesis using front_leaves_trans [OF 1 front_leaves_trans [OF 2(1) 3]] by simp
qed

lemma ack_front:
  assumes "no_retransmission sk"
  shows "front_leaves sk (snd (tcp_nip_ack e skb sk))"
proof -
  define s where "s = (tcp_nip_ack_update_window skb (pkt_ack_seq skb) (pkt_seq skb) sk)\<lparr>icsk_probes_out := 0, nip_keepalive_out := 0, rcv_tstamp := tcp_jiffies32 e\<rparr>"
  have s: "front_leaves sk s" "no_retransmission s"
    using assms by (auto simp: s_def tcp_nip_ack_update_window_def Let_def wq_def no_retransmission_def intro!: front_same)
  have p: "front_leaves s (tcp_nip_ack_probe e s)"
    by (rule front_same) (simp_all add: tcp_nip_ack_probe_def inet_csk_clear_xmit_timer_def inet_csk_reset_xmit_timer_def wq_def)
  have d: "front_leaves s (tcp_nip_dup_ack_retrans e skb (pkt_ack_seq skb) n s)" for n
    using s(2) by (auto simp: tcp_nip_dup_ack_retrans_def no_retransmission_def wq_def Let_def intro!: front_same)
  have i: "front_leaves sk sk" by (rule front_same) simp_all
  show ?thesis
    using i s(1) front_leaves_trans [OF s(1) p] front_leaves_trans [OF s(1) d] front_leaves_trans [OF s(1) new_ack_front [OF s(2)]]
    by (simp add: tcp_nip_ack_def Let_def s_def [symmetric])
qed

text \<open>A segment in the established state, whatever it carries.\<close>

lemma rcv_established_front:
  assumes "no_retransmission sk"
  shows "front_leaves sk (tcp_nip_rcv_established e skb sk)"
proof -
  obtain ok s where v: "tcp_nip_validate_incoming e skb sk = (ok, s)" by fastforce
  have i: "front_leaves sk sk" by (rule front_same) simp_all
  show ?thesis
  proof (cases ok)
    case False
    then have "front_leaves sk s" using v i reset_front [of sk] send_ack_front [of sk e]
      by (auto simp: tcp_nip_validate_incoming_def Let_def split: if_splits)
    then show ?thesis using v False by (simp add: tcp_nip_rcv_established_def)
  next
    case True
    then have s: "s = sk" using v by (auto simp: tcp_nip_validate_incoming_def Let_def split: if_splits)
    obtain ret s1 where a: "tcp_nip_ack e skb sk = (ret, s1)" by fastforce
    have 1: "front_leaves sk s1" using ack_front [OF assms, of e skb] a by simp
    have p: "front_leaves x (tcp_nip_data_snd_check e x)" for x
      using front_wq_same [OF push_same] front_same [of x x] by (simp add: tcp_nip_data_snd_check_def tcp_nip_push_pending_frames_def)
    note 2 = front_leaves_trans [OF 1 front_leaves_trans [OF data_queue_front front_leaves_trans [OF p ack_snd_check_front]]]
    show ?thesis using v a 1 2 True s by (simp add: tcp_nip_rcv_established_def)
  qed
qed

text \<open>So these are what may happen while the user waits: a segment in the established state, a RST, the
  delayed acknowledgment, each when it is due; and one after the other.\<close>

lemma keeps_stream_when: "(\<And>sk. c sk \<Longrightarrow> front_leaves sk (f sk)) \<Longrightarrow> keeps_stream (\<lambda>sk. if c sk then f sk else sk)"
  by (rule front_keeps) (auto intro: front_same)

lemma keeps_stream_segment: "keeps_stream (\<lambda>sk. if no_retransmission sk then tcp_nip_rcv_established e skb sk else sk)"
  by (rule keeps_stream_when) (rule rcv_established_front)

lemma keeps_stream_reset: "keeps_stream tcp_nip_reset"
  by (rule front_keeps) (rule reset_front)

lemma keeps_stream_delack: "keeps_stream (tcp_nip_delack_timer_handler e)"
proof (rule front_keeps)
  fix sk :: tcp_nip_sock
  have "front_leaves sk sk" "front_leaves sk (sk\<lparr>ack_timer := False\<rparr>)" by (rule front_same; simp add: wq_def)+
  then show "front_leaves sk (tcp_nip_delack_timer_handler e sk)"
    using front_leaves_trans [OF _ send_ack_front] by (simp add: tcp_nip_delack_timer_handler_def Let_def)
qed

lemma keeps_stream_comp:
  assumes "keeps_stream f" "keeps_stream g"
  shows "keeps_stream (\<lambda>sk. g (f sk))"
  unfolding keeps_stream_def
proof (intro allI impI)
  fix a bs sk assume "sending a bs sk"
  then obtain k where k: "k \<le> length bs" "sending (a + of_nat k) (drop k bs) (f sk)" using assms(1) unfolding keeps_stream_def by blast
  then obtain j where j: "j \<le> length (drop k bs)" "sending (a + of_nat k + of_nat j) (drop j (drop k bs)) (g (f sk))"
    using assms(2) unfolding keeps_stream_def by blast
  then show "\<exists>k \<le> length bs. sending (a + of_nat k) (drop k bs) (g (f sk))"
    using k(1) by (intro exI [of _ "k + j"]) (simp add: ac_simps)
qed


section \<open>Retransmission by the timers\<close>

text \<open>The packet taken apart by tcp_trim_head and tcp_fragment of the kernel keeps its bytes: the first
  drops the front, the second cuts it in two.\<close>

definition splits_ok :: "tcp_env \<Rightarrow> bool" where
  "splits_ok e \<longleftrightarrow>
    (\<forall>n p q. trim_head e n p = Some q \<longrightarrow> pkt_data q = drop (unat n) (pkt_data p) \<and> pkt_seq q = pkt_seq p + n \<and>
       pkt_end_seq q = pkt_end_seq p \<and> pkt_flags q = pkt_flags p) \<and>
    (\<forall>n m p q r. fragment e n m p = Some (q, r) \<longrightarrow> pkt_data p = pkt_data q @ pkt_data r \<and> pkt_seq q = pkt_seq p \<and>
       pkt_end_seq q = pkt_seq p + of_nat (length (pkt_data q)) \<and> pkt_seq r = pkt_end_seq q \<and> pkt_end_seq r = pkt_end_seq p \<and>
       (\<forall>f. flag (pkt_flags q) f \<or> flag (pkt_flags r) f \<longrightarrow> flag (pkt_flags p) f))"

definition stream_kept :: "tcp_nip_sock \<Rightarrow> tcp_nip_sock \<Rightarrow> bool" where
  "stream_kept sk sk' \<longleftrightarrow> (\<forall>a bs. sending a bs sk \<longrightarrow> (\<exists>k \<le> length bs. sending (a + of_nat k) (drop k bs) sk'))"

lemma front_kept: "front_leaves sk sk' \<Longrightarrow> stream_kept sk sk'"
  using front_leaves_sending unfolding stream_kept_def by blast

lemma stream_kept_trans: "stream_kept x y \<Longrightarrow> stream_kept y z \<Longrightarrow> stream_kept x z"
  using keeps_stream_comp unfolding stream_kept_def
proof -
  assume xy: "\<forall>a bs. sending a bs x \<longrightarrow> (\<exists>k \<le> length bs. sending (a + of_nat k) (drop k bs) y)"
    and yz: "\<forall>a bs. sending a bs y \<longrightarrow> (\<exists>k \<le> length bs. sending (a + of_nat k) (drop k bs) z)"
  show "\<forall>a bs. sending a bs x \<longrightarrow> (\<exists>k \<le> length bs. sending (a + of_nat k) (drop k bs) z)"
  proof (intro allI impI)
    fix a bs assume "sending a bs x"
    then obtain k where k: "k \<le> length bs" "sending (a + of_nat k) (drop k bs) y" using xy by blast
    then obtain j where "j \<le> length (drop k bs)" "sending (a + of_nat k + of_nat j) (drop j (drop k bs)) z" using yz by blast
    then show "\<exists>k \<le> length bs. sending (a + of_nat k) (drop k bs) z"
      using k(1) by (intro exI [of _ "k + j"]) (simp add: ac_simps)
  qed
qed

text \<open>The packet at the head is replaced by others with the rest of its bytes.\<close>

definition replaces :: "tcp_skb \<Rightarrow> tcp_skb list \<Rightarrow> bool" where
  "replaces p new \<longleftrightarrow> (\<forall>a bs. chain a bs [pkt_core p] \<longrightarrow> (\<exists>k \<le> length bs. chain (a + of_nat k) (drop k bs) (map pkt_core new)))"

definition same_bytes :: "tcp_skb \<Rightarrow> tcp_skb list \<Rightarrow> bool" where
  "same_bytes p new \<longleftrightarrow> (\<forall>a bs. chain a bs [pkt_core p] \<longrightarrow> chain a bs (map pkt_core new))"

lemma same_bytes_replaces: "same_bytes p new \<Longrightarrow> replaces p new"
  unfolding same_bytes_def replaces_def by (intro allI impI exI [of _ "0 :: nat"]) simp

lemma same_bytes_inside:
  assumes "same_bytes p new" "wq sk = xs @ pkt_core p # q" "wq sk' = xs @ map pkt_core new @ q" "write_seq sk' = write_seq sk" "sk_err sk' = sk_err sk"
  shows "stream_kept sk sk'"
proof -
  have "chain a bs (wq sk')" if c: "chain a bs (wq sk)" for a bs
  proof -
    have "chain a bs (xs @ [pkt_core p] @ q)" using c assms(2) by simp
    then show ?thesis unfolding assms(3) chain_append using assms(1) unfolding same_bytes_def by blast
  qed
  then have "sending a bs sk \<longrightarrow> sending a bs sk'" for a bs using assms(4,5) by (simp add: sending_def)
  then show ?thesis unfolding stream_kept_def by (intro allI impI exI [of _ "0 :: nat"]) simp
qed

lemma replaces_same: "pkt_core q = pkt_core p \<Longrightarrow> replaces p [q]"
  by (auto simp: replaces_def intro!: exI [of _ 0])

lemma replaced_head:
  assumes "wq sk = pkt_core p # q" "wq sk' = map pkt_core new @ q" "replaces p new" "write_seq sk' = write_seq sk" "sk_err sk' = sk_err sk"
  shows "stream_kept sk sk'"
  unfolding stream_kept_def
proof (intro allI impI)
  fix a bs assume s: "sending a bs sk"
  then have "chain a bs ([pkt_core p] @ q)" using assms(1) by (simp add: sending_def)
  then obtain xs ys where b: "bs = xs @ ys" "chain a xs [pkt_core p]" "chain (a + of_nat (length xs)) ys q"
    unfolding chain_append by blast
  obtain k where k: "k \<le> length xs" "chain (a + of_nat k) (drop k xs) (map pkt_core new)" using assms(3) b(2) by (auto simp: replaces_def)
  have e: "a + of_nat (length xs) = a + of_nat k + of_nat (length (drop k xs))" using k(1) by (simp add: of_nat_diff)
  have "chain (a + of_nat k) (drop k xs @ ys) (map pkt_core new @ q)"
    unfolding chain_append using k(2) b(3) e by (intro exI [of _ "drop k xs"] exI [of _ ys]) metis
  moreover have "drop k bs = drop k xs @ ys" "write_seq sk' = a + of_nat k + of_nat (length (drop k bs))"
    using b(1) k(1) s assms(4) by (simp_all add: sending_def of_nat_diff)
  ultimately have "sending (a + of_nat k) (drop k bs) sk'" using assms(2,5) s by (simp add: sending_def)
  then show "\<exists>k \<le> length bs. sending (a + of_nat k) (drop k bs) sk'" using k(1) b(1) by (intro exI [of _ k]) simp
qed

lemma trim_within:
  assumes "before s u" "\<not> before (s + of_nat l) u" "l < 2 ^ 31"
  shows "unat (u - s) \<le> l"
proof (rule ccontr)
  assume c: "\<not> unat (u - s) \<le> l"
  have u: "u = s + of_nat (unat (u - s))" by simp
  have "unat (u - s) \<le> 2 ^ 31"
  proof (rule ccontr)
    assume g: "\<not> unat (u - s) \<le> 2 ^ 31"
    have "unat (0 - (u - s)) = 2 ^ 32 - unat (u - s)"
      using g by (subst unat_sub_if_size) (simp add: word_size)
    then have "unat (s - u) < 2 ^ 31" using g by simp
    then have "sint (s - u) \<ge> 0" using sint_small [of "s - u"] by simp
    then show False using assms(1) by (simp add: before_def)
  qed
  moreover have "unat (u - s) < l + 2 ^ 31"
  proof (cases "l = 0")
    case True
    then show ?thesis using assms(1,2) by simp
  qed (use calculation in simp)
  ultimately have "before (s + of_nat l) (s + of_nat (unat (u - s)))"
    using before_of_nat [of l "unat (u - s)" s] c assms(3) by auto
  then show False using assms(2) u by simp
qed

lemma trim_replaces:
  assumes "splits_ok e" "trim_head e (u - pkt_seq p) p = Some q" "before (pkt_seq p) u" "\<not> before (pkt_end_seq p) u" "length (pkt_data p) < 2 ^ 31"
  shows "replaces p [q]"
  unfolding replaces_def
proof (intro allI impI)
  fix a bs assume c: "chain a bs [pkt_core p]"
  then have p: "pkt_seq p = a" "pkt_end_seq p = a + of_nat (length (pkt_data p))" "\<not> flag (pkt_flags p) TCPHDR_FIN" "\<not> flag (pkt_flags p) TCPHDR_SYN"
    "bs = pkt_data p" by (auto simp: pkt_core_def)
  have q: "pkt_data q = drop (unat (u - a)) (pkt_data p)" "pkt_seq q = u" "pkt_end_seq q = pkt_end_seq p" "pkt_flags q = pkt_flags p"
    using assms(1,2) p(1) by (auto simp: splits_ok_def)
  have l: "unat (u - a) \<le> length (pkt_data p)" using trim_within [of a u "length (pkt_data p)"] assms(3-5) p by simp
  have "pkt_end_seq p = u + of_nat (length (pkt_data p) - unat (u - a))" using p(2) l by (simp add: of_nat_diff)
  then have "chain (a + of_nat (unat (u - a))) (drop (unat (u - a)) bs) [pkt_core q]"
    using p q by (simp add: pkt_core_def)
  then show "\<exists>k \<le> length bs. chain (a + of_nat k) (drop k bs) (map pkt_core [q])"
    using l p(5) by (intro exI [of _ "unat (u - a)"]) simp
qed

lemma fragment_bytes:
  assumes "splits_ok e" "fragment e n m p = Some (q, r)"
  shows "same_bytes p [q, r]"
  unfolding same_bytes_def
proof (intro allI impI)
  fix a bs assume "chain a bs [pkt_core p]"
  then have p: "pkt_seq p = a" "pkt_end_seq p = a + of_nat (length (pkt_data p))" "\<not> flag (pkt_flags p) TCPHDR_FIN" "\<not> flag (pkt_flags p) TCPHDR_SYN"
    "bs = pkt_data p" by (auto simp: pkt_core_def)
  have q: "pkt_data p = pkt_data q @ pkt_data r" "pkt_seq q = pkt_seq p" "pkt_end_seq q = pkt_seq p + of_nat (length (pkt_data q))"
    "pkt_seq r = pkt_end_seq q" "pkt_end_seq r = pkt_end_seq p" "flag (pkt_flags q) f \<or> flag (pkt_flags r) f \<Longrightarrow> flag (pkt_flags p) f" for f
    using assms by (auto simp: splits_ok_def)
  show "chain a bs (map pkt_core [q, r])"
    using p q(1-5) q(6) [of TCPHDR_FIN] q(6) [of TCPHDR_SYN] by (auto simp: pkt_core_def)
qed

lemma replaces_trans: "replaces p [q] \<Longrightarrow> replaces q new \<Longrightarrow> replaces p new"
  unfolding replaces_def
proof (intro allI impI)
  fix a bs
  assume pq: "\<forall>a bs. chain a bs [pkt_core p] \<longrightarrow> (\<exists>k \<le> length bs. chain (a + of_nat k) (drop k bs) (map pkt_core [q]))"
    and qn: "\<forall>a bs. chain a bs [pkt_core q] \<longrightarrow> (\<exists>k \<le> length bs. chain (a + of_nat k) (drop k bs) (map pkt_core new))"
    and c: "chain a bs [pkt_core p]"
  obtain k where k: "k \<le> length bs" "chain (a + of_nat k) (drop k bs) [pkt_core q]" using pq c by auto
  then obtain j where "j \<le> length (drop k bs)" "chain (a + of_nat k + of_nat j) (drop j (drop k bs)) (map pkt_core new)" using qn by blast
  then show "\<exists>k \<le> length bs. chain (a + of_nat k) (drop k bs) (map pkt_core new)"
    using k(1) by (intro exI [of _ "k + j"]) (simp add: ac_simps)
qed

lemma retransmit0_replaces:
  assumes "tcp_nip_retransmit0 e p sk = (err, new, sk')" "splits_ok e" "length (pkt_data p) < 2 ^ 31"
  shows "replaces p new \<and> wq_same sk sk' \<and> rtx_queue sk' = rtx_queue sk \<and> send_queue sk' = send_queue sk"
proof -
  have po: "wq_same sk (sk\<lparr>packets_out := n\<rparr>)" for n by (simp add: wq_same_def wq_def)
  have i: "replaces p [p]" by (rule replaces_same) simp
  consider "before (pkt_seq p) (snd_una sk) \<and> before (pkt_end_seq p) (snd_una sk)"
    | "\<not> (before (pkt_seq p) (snd_una sk) \<and> before (pkt_end_seq p) (snd_una sk))"
      "(if before (pkt_seq p) (snd_una sk) then trim_head e (snd_una sk - pkt_seq p) p else Some p) = None"
    | q where "\<not> (before (pkt_seq p) (snd_una sk) \<and> before (pkt_end_seq p) (snd_una sk))"
      "(if before (pkt_seq p) (snd_una sk) then trim_head e (snd_una sk - pkt_seq p) p else Some p) = Some q" by fastforce
  then show ?thesis
  proof cases
    case 1
    then show ?thesis using assms(1) i by (auto simp: tcp_nip_retransmit0_def)
  next
    case 2
    then show ?thesis using assms(1) i by (auto simp: tcp_nip_retransmit0_def)
  next
    case 3
    have q: "replaces p [q]" using 3 trim_replaces [OF assms(2) _ _ _ assms(3)] i by (auto split: if_splits)
    have r: "tcp_nip_retransmit0 e p sk =
      (if \<not> before (pkt_seq q) (tcp_wnd_end sk) \<and> pkt_seq q \<noteq> snd_una sk then (- EAGAIN, [q], sk)
       else if of_nat (length (pkt_data q)) > cur_mss e then
         (case fragment e (cur_mss e) (cur_mss e) q of
            None \<Rightarrow> (- ENOMEM, [q], sk)
          | Some (a, b) \<Rightarrow>
              let sk = (if before (snd_nxt sk) (pkt_end_seq b) then sk
                    else sk\<lparr>packets_out := packets_out sk - (pkt_pcount q - pkt_pcount a - pkt_pcount b)\<rparr>);
                  (err, a, sk) = tcp_nip_transmit_skb e True a sk
              in (err, [a, b], sk))
       else
         let skb' = tcp_nip_set_skb_tso_segs (cur_mss e) q;
             sk = sk\<lparr>packets_out := packets_out sk - (pkt_pcount q - pkt_pcount skb')\<rparr>;
             (err, skb', sk) = tcp_nip_transmit_skb e True skb' sk
         in (err, [skb'], sk))"
      unfolding tcp_nip_retransmit0_def if_not_P [OF 3(1)] 3(2) option.case by (rule refl)
    have tx: "pkt_core x = pkt_core a \<and> wq_same y z \<and> rtx_queue z = rtx_queue y \<and> send_queue z = send_queue y"
      if "tcp_nip_transmit_skb e True a y = (er, x, z)" for er a x y z
      using transmit_skb_seq [OF that [unfolded tcp_nip_transmit_skb_def]] transmit_same [of y e True "rcv_nxt y" a]
        transmit_keeps(5,6) [of e True "rcv_nxt y" a y] that
      by (simp add: pkt_core_def tcp_nip_transmit_skb_def)
    have "(new = [q] \<and> sk' = sk) \<or>
      (\<exists>a b x y er z. fragment e (cur_mss e) (cur_mss e) q = Some (a, b) \<and> wq_same sk y \<and> rtx_queue y = rtx_queue sk \<and> send_queue y = send_queue sk \<and>
          tcp_nip_transmit_skb e True a y = (er, x, z) \<and> new = [x, b] \<and> sk' = z) \<or>
      (\<exists>y er x z. tcp_nip_transmit_skb e True (tcp_nip_set_skb_tso_segs (cur_mss e) q) y = (er, x, z) \<and> wq_same sk y \<and>
          rtx_queue y = rtx_queue sk \<and> send_queue y = send_queue sk \<and> new = [x] \<and> sk' = z)"
    proof (cases "\<not> before (pkt_seq q) (tcp_wnd_end sk) \<and> pkt_seq q \<noteq> snd_una sk")
      case True
      then show ?thesis using assms(1) unfolding r by auto
    next
      case False
      note r = r [unfolded if_not_P [OF False]]
      show ?thesis
      proof (cases "of_nat (length (pkt_data q)) > cur_mss e")
        case True
        note r = r [unfolded if_P [OF True]]
        show ?thesis
        proof (cases "fragment e (cur_mss e) (cur_mss e) q")
          case None
          then show ?thesis using assms(1) unfolding r by auto
        next
          case (Some ab)
          obtain a b where ab: "ab = (a, b)" by fastforce
          define y where "y = (if before (snd_nxt sk) (pkt_end_seq b) then sk
            else sk\<lparr>packets_out := packets_out sk - (pkt_pcount q - pkt_pcount a - pkt_pcount b)\<rparr>)"
          obtain er x z where t: "tcp_nip_transmit_skb e True a y = (er, x, z)" by (metis prod_cases3)
          have "new = [x, b]" "sk' = z" using assms(1) t unfolding r Some ab by (simp_all add: y_def [symmetric])
          moreover have "wq_same sk y" "rtx_queue y = rtx_queue sk" "send_queue y = send_queue sk" using po by (simp_all add: y_def)
          ultimately show ?thesis using t Some ab by blast
        qed
      next
        case False
        note r = r [unfolded if_not_P [OF False] Let_def]
        define y where "y = sk\<lparr>packets_out := packets_out sk - (pkt_pcount q - pkt_pcount (tcp_nip_set_skb_tso_segs (cur_mss e) q))\<rparr>"
        obtain er x z where t: "tcp_nip_transmit_skb e True (tcp_nip_set_skb_tso_segs (cur_mss e) q) y = (er, x, z)" by (metis prod_cases3)
        have "new = [x]" "sk' = z" using assms(1) t unfolding r by (simp_all add: y_def [symmetric])
        moreover have "wq_same sk y" "rtx_queue y = rtx_queue sk" "send_queue y = send_queue sk" using po by (simp_all add: y_def)
        ultimately show ?thesis using t by blast
      qed
    qed
    then consider (stop) "new = [q]" "sk' = sk"
      | (split) a b x y er z where "fragment e (cur_mss e) (cur_mss e) q = Some (a, b)" "wq_same sk y" "rtx_queue y = rtx_queue sk" "send_queue y = send_queue sk"
          "tcp_nip_transmit_skb e True a y = (er, x, z)" "new = [x, b]" "sk' = z"
      | (whole) y er x z where "tcp_nip_transmit_skb e True (tcp_nip_set_skb_tso_segs (cur_mss e) q) y = (er, x, z)" "wq_same sk y"
          "rtx_queue y = rtx_queue sk" "send_queue y = send_queue sk" "new = [x]" "sk' = z"
      by blast
    then show ?thesis
    proof cases
      case stop
      then show ?thesis using q by simp
    next
      case split
      have "replaces q [a, b]" using same_bytes_replaces [OF fragment_bytes [OF assms(2)]] split(1) by blast
      then have "replaces q [x, b]" using tx [OF split(5)] by (simp add: replaces_def)
      then show ?thesis using replaces_trans [OF q] tx [OF split(5)] split wq_same_trans by metis
    next
      case whole
      have "pkt_core x = pkt_core q" using tx [OF whole(1)]
        by (simp add: tcp_nip_set_skb_tso_segs_def Let_def pkt_core_def split: if_splits)
      then have "replaces p [x]" using replaces_trans [OF q replaces_same] by simp
      then show ?thesis using tx [OF whole(1)] whole wq_same_trans by metis
    qed
  qed
qed


lemma retransmit_head_kept:
  assumes "splits_ok e" "\<forall>p \<in> set (rtx_queue sk @ send_queue sk). length (pkt_data p) < 2 ^ 31" "rtx_queue sk @ send_queue sk \<noteq> []"
  shows "stream_kept sk (snd (tcp_nip_retransmit_skb e 0 sk))"
proof -
  obtain p ps where h: "rtx_queue sk @ send_queue sk = p # ps" using assms(3) by (cases "rtx_queue sk @ send_queue sk") auto
  obtain err new sk1 where r: "tcp_nip_retransmit0 e p sk = (err, new, sk1)" by (metis prod_cases3)
  have l: "length (pkt_data p) < 2 ^ 31" using assms(2) h by simp
  note n = retransmit0_replaces [OF r assms(1) l]
  have "\<exists>sk2. snd (tcp_nip_retransmit_skb e 0 sk) = sk2 \<and> wq sk2 = map pkt_core new @ map pkt_core ps \<and>
      write_seq sk2 = write_seq sk \<and> sk_err sk2 = sk_err sk"
  proof (cases "rtx_queue sk")
    case Nil
    then have q: "send_queue sk = p # ps" using h by simp
    show ?thesis using n Nil q by (simp add: tcp_nip_retransmit_skb_def Let_def r wq_def wq_same_def)
  next
    case (Cons x xs)
    then have q: "x = p" "ps = xs @ send_queue sk" using h by simp_all
    show ?thesis using n Cons q by (simp add: tcp_nip_retransmit_skb_def Let_def r wq_def wq_same_def)
  qed
  then show ?thesis using replaced_head [of sk p "map pkt_core ps"] n h by (auto simp: wq_def)
qed

definition timer_fits :: "tcp_nip_sock \<Rightarrow> bool" where
  "timer_fits sk \<longleftrightarrow> (\<forall>p \<in> set (rtx_queue sk @ send_queue sk). length (pkt_data p) < 2 ^ 31) \<and> sk_err_soft sk \<ge> 0"

lemma write_err_front: "sk_err_soft sk \<ge> 0 \<Longrightarrow> front_leaves sk (tcp_nip_write_err sk)"
proof -
  assume s: "sk_err_soft sk \<ge> 0"
  show ?thesis
  proof (cases "sock_dead sk")
    case True
    then show ?thesis using s
      by (intro purge_front) (simp_all add: tcp_nip_write_err_def tcp_nip_done_def inet_csk_clear_xmit_timers_def Let_def
        tcp_nip_destroy_sock_def sk_nip_stream_kill_queues_def tcp_nip_write_queue_purge_def)
  next
    case False
    then show ?thesis using s
      by (auto simp: front_leaves_def tcp_nip_write_err_def tcp_nip_done_def inet_csk_clear_xmit_timers_def Let_def wq_def intro!: exI [of _ "0 :: nat"])
  qed
qed

lemma retransmit_timer_kept:
  assumes "splits_ok e" "timer_fits sk"
  shows "stream_kept sk (tcp_nip_retransmit_timer e sk)"
proof (cases "packets_out sk = 0 \<or> rtx_queue sk @ send_queue sk = []")
  case True
  have "front_leaves sk sk" by (rule front_same) simp_all
  then show ?thesis using True front_kept by (auto simp: tcp_nip_retransmit_timer_def)
next
  case False
  obtain late s where t: "tcp_nip_write_timeout e sk = (late, s)" by fastforce
  have s: "late \<longrightarrow> s = tcp_nip_write_err sk" "\<not> late \<longrightarrow> s = sk"
    using t by (auto simp: tcp_nip_write_timeout_def Let_def split: if_splits)
  show ?thesis
  proof (cases late)
    case True
    then have "tcp_nip_retransmit_timer e sk = tcp_nip_write_err sk"
      using t s unfolding tcp_nip_retransmit_timer_def if_not_P [OF False] by simp
    then show ?thesis using front_kept [OF write_err_front] assms(2) by (simp add: timer_fits_def)
  next
    case ok: False
    obtain ret s1 where r: "tcp_nip_retransmit_skb e 0 sk = (ret, s1)" by fastforce
    have k: "stream_kept sk s1" using retransmit_head_kept [OF assms(1), of sk] assms(2) False r by (simp add: timer_fits_def)
    have e: "tcp_nip_retransmit_timer e sk = (if ret > 0 then
         inet_csk_reset_xmit_timer e ICSK_TIME_RETRANS (min (icsk_rto s1) (TCP_RESOURCE_PROBE_INTERVAL e))
           (if icsk_retransmits s1 = 0 then s1\<lparr>icsk_retransmits := 1\<rparr> else s1)
       else inet_csk_reset_xmit_timer e ICSK_TIME_RETRANS (icsk_rto ((lengthen_rto e (count_retransmit e s1))\<lparr>nip_ssthresh := of_int (ssthresh_low (params e))\<rparr>))
           ((lengthen_rto e (count_retransmit e s1))\<lparr>nip_ssthresh := of_int (ssthresh_low (params e))\<rparr>))"
      using t s(2) ok r unfolding tcp_nip_retransmit_timer_def Let_def if_not_P [OF False] by simp
    have "front_leaves s1 (tcp_nip_retransmit_timer e sk)"
      unfolding e by (rule front_same) (simp_all add: inet_csk_reset_xmit_timer_def lengthen_rto_def count_retransmit_def wq_def)
    then show ?thesis using stream_kept_trans [OF k front_kept] by blast
  qed
qed

lemma write_wakeup_kept:
  assumes "splits_ok e"
  shows "stream_kept sk (snd (tcp_nip_write_wakeup e sk))"
proof -
  have i: "stream_kept x x" for x by (rule front_kept [OF front_same]) simp_all
  have pr: "stream_kept sk (snd (tcp_nip_xmit_probe_skb e sk))"
    using i front_kept [OF front_wq_same [OF transmit_same]]
    by (simp add: tcp_nip_xmit_probe_skb_def split_beta tcp_nip_transmit_skb_def)
  show ?thesis
  proof (cases "sk_state sk = TCP_CLOSE \<or> send_queue sk = [] \<or> \<not> before (pkt_seq (hd (send_queue sk))) (tcp_wnd_end sk)")
    case True
    then show ?thesis using i pr by (auto simp: tcp_nip_write_wakeup_def split: list.splits)
  next
    case False
    then obtain p q where q: "send_queue sk = p # q" by (cases "send_queue sk") auto
    define s where "s = (if before (pushed_seq sk) (pkt_end_seq p) then sk\<lparr>pushed_seq := pkt_end_seq p\<rparr> else sk)"
    define p' where "p' = p\<lparr>pkt_flags := or (pkt_flags p) TCPHDR_PSH\<rparr>"
    define pieces where "pieces = (if tcp_wnd_end sk - pkt_seq p < pkt_end_seq p - pkt_seq p
      then map_option (\<lambda>(a, b). (a, [b])) (fragment e (tcp_wnd_end sk - pkt_seq p) (cur_mss e) p') else Some (p, []))"
    have r: "tcp_nip_write_wakeup e sk = (case pieces of
        None \<Rightarrow> (-1, s\<lparr>send_queue := p' # q\<rparr>)
      | Some (skb, rest) \<Rightarrow>
        let (err, skb, sk) = tcp_nip_transmit_skb e True skb s; sk = sk\<lparr>send_queue := skb # rest @ q\<rparr>
        in if err = 0 then (err, tcp_nip_event_new_data_sent e skb sk) else (err, sk))"
    proof -
      have c: "\<not> sk_state sk = TCP_CLOSE" "\<not> \<not> before (pkt_seq p) (tcp_wnd_end sk)" using False q by auto
      show ?thesis unfolding tcp_nip_write_wakeup_def if_not_P [OF c(1)] q list.case if_not_P [OF c(2)] Let_def pieces_def s_def p'_def
        by (rule refl)
    qed
    have s: "wq s = wq sk" "write_seq s = write_seq sk" "sk_err s = sk_err sk" "rtx_queue s = rtx_queue sk"
      by (simp_all add: s_def wq_def)
    have psh: "same_bytes p [p']"
      by (auto simp: same_bytes_def p'_def pkt_core_def TCPHDR_FIN_def TCPHDR_SYN_def TCPHDR_PSH_def flag_def bit.conj_disj_distrib)
    have w: "wq sk = map pkt_core (rtx_queue sk) @ pkt_core p # map pkt_core q" using q by (simp add: wq_def)
    show ?thesis
    proof (cases pieces)
      case None
      have "stream_kept sk (s\<lparr>send_queue := p' # q\<rparr>)"
        by (rule same_bytes_inside [OF psh w]) (use s in \<open>simp_all add: wq_def\<close>)
      then show ?thesis using r None by simp
    next
      case (Some ab)
      obtain x rest where ab: "ab = (x, rest)" by fastforce
      have b: "same_bytes p (x # rest)"
      proof (cases "tcp_wnd_end sk - pkt_seq p < pkt_end_seq p - pkt_seq p")
        case True
        then obtain y where y: "fragment e (tcp_wnd_end sk - pkt_seq p) (cur_mss e) p' = Some (x, y)" "rest = [y]"
          using Some ab by (auto simp: pieces_def)
        have "same_bytes p' [x, y]" by (rule fragment_bytes [OF assms y(1)])
        then show ?thesis using psh y(2) by (simp add: same_bytes_def)
      next
        case False
        then show ?thesis using Some ab by (simp add: pieces_def same_bytes_def)
      qed
      obtain er x' z where t: "tcp_nip_transmit_skb e True x s = (er, x', z)" by (metis prod_cases3)
      have z: "pkt_core x' = pkt_core x" "wq_same s z" "rtx_queue z = rtx_queue s"
        using transmit_skb_seq [OF t [unfolded tcp_nip_transmit_skb_def]] transmit_same [of s e True "rcv_nxt s" x]
          transmit_keeps(5) [of e True "rcv_nxt s" x s] t
        by (simp_all add: pkt_core_def tcp_nip_transmit_skb_def)
      define z' where "z' = z\<lparr>send_queue := x' # rest @ q\<rparr>"
      have k: "stream_kept sk z'"
        by (rule same_bytes_inside [OF b w]) (use s z in \<open>simp_all add: z'_def wq_def wq_same_def\<close>)
      have n: "wq_same z' (tcp_nip_event_new_data_sent e x' z')" by (rule new_data_same [of _ x' "rest @ q"]) (simp_all add: z'_def)
      have "snd (tcp_nip_write_wakeup e sk) \<in> {z', tcp_nip_event_new_data_sent e x' z'}"
        unfolding r Some ab using t by (simp add: Let_def z'_def [symmetric])
      then show ?thesis using k stream_kept_trans [OF k front_kept [OF front_wq_same [OF n]]] by auto
    qed
  qed
qed

lemma probe_timer_kept:
  assumes "splits_ok e" "timer_fits sk"
  shows "stream_kept sk (tcp_nip_probe_timer e sk)"
proof -
  have i: "stream_kept sk (sk\<lparr>icsk_probes_out := 0, icsk_backoff := 0\<rparr>)" by (rule front_kept [OF front_same]) (simp_all add: wq_def)
  have w: "stream_kept sk (tcp_nip_write_err sk)" using front_kept [OF write_err_front] assms(2) by (simp add: timer_fits_def)
  obtain er s where s: "tcp_nip_write_wakeup e sk = (er, s)" by fastforce
  have "front_leaves s (tcp_nip_send_probe0 e sk)"
    by (rule front_same) (simp_all add: tcp_nip_send_probe0_def s Let_def inet_csk_reset_xmit_timer_def wq_def)
  then have "stream_kept sk (tcp_nip_send_probe0 e sk)"
    using stream_kept_trans [OF write_wakeup_kept [OF assms(1), of sk] front_kept] s by simp
  then show ?thesis using i w by (simp add: tcp_nip_probe_timer_def Let_def)
qed

lemma write_timer_kept:
  assumes "splits_ok e" "timer_fits sk"
  shows "stream_kept sk (tcp_nip_write_timer_handler e sk)"
proof -
  have f: "front_leaves sk sk" "front_leaves sk (sk\<lparr>icsk_pending := ICSK_NONE\<rparr>)" by (rule front_same; simp add: wq_def)+
  have "timer_fits (sk\<lparr>icsk_pending := ICSK_NONE\<rparr>)" using assms(2) by (simp add: timer_fits_def)
  then show ?thesis
    using front_kept [OF f(1)] stream_kept_trans [OF front_kept [OF f(2)] retransmit_timer_kept [OF assms(1)]]
      stream_kept_trans [OF front_kept [OF f(2)] probe_timer_kept [OF assms(1)]]
    by (cases "icsk_pending sk") (simp_all add: tcp_nip_write_timer_handler_def)
qed

lemma keeps_stream_write_timer:
  "splits_ok e \<Longrightarrow> keeps_stream (\<lambda>sk. if timer_fits sk then tcp_nip_write_timer_handler e sk else sk)"
  unfolding keeps_stream_def
proof (intro allI impI)
  fix a bs sk assume e: "splits_ok e" and s: "sending a bs sk"
  have "stream_kept sk sk" by (rule front_kept [OF front_same]) simp_all
  then show "\<exists>k \<le> length bs. sending (a + of_nat k) (drop k bs) (if timer_fits sk then tcp_nip_write_timer_handler e sk else sk)"
    using write_timer_kept [OF e, of sk] s unfolding stream_kept_def by (cases "timer_fits sk") auto
qed

section \<open>A call of tcp_nip_sendmsg\<close>

text \<open>C31: What tcp_nip_sendmsg puts on the stream. While it waits for memory or for the connection, or
  works off the backlog, others may change the socket; let them only take bytes away at the front of the write
  queue, cut packets in two, and set errors (keeps_stream). Segments in the established state that
  cause no fast retransmission, RSTs, the delayed acknowledgment and the retransmission and probe
  timers are of this kind, in any order (keeps_stream_segment, keeps_stream_reset, keeps_stream_delack,
  keeps_stream_write_timer, keeps_stream_comp); another tcp_nip_sendmsg, a shutdown or a disconnect of the
  same socket are not. Then, on every path (waits that fail, faults of the user buffer, errors
  of the socket), exactly a prefix of the message is appended to the bytes of the write queue,
  numbered on from them, and the value returned is its length, or an error when it is empty.\<close>

theorem sendmsg_appends_prefix:
  assumes "sending a bs sk" "\<forall>s \<in> set steps. step_keeps s" "fst connect \<le> 0" "keeps_stream (snd connect)"
    "tcp_nip_sendmsg e room connect steps msg sk = Some (r, stale, sk')"
  shows "\<exists>n \<le> length msg. (r = int n \<or> n = 0 \<and> r < 0) \<and>
    (\<exists>k \<le> length (bs @ take n msg). sending (a + of_nat k) (drop k (bs @ take n msg)) sk')"
  using sendmsg_sends [OF assms] by (simp only: sends_def)

lemma keeps_stream_id: "keeps_stream (\<lambda>sk. sk)" by (auto simp: keeps_stream_def intro!: exI [of _ 0])

text \<open>Two of five bytes are taken, then the call waits for memory: the peer acknowledges the two bytes,
  the write timer goes off, and the wait ends with -EAGAIN.\<close>

definition ex_acked :: "tcp_nip_sock \<Rightarrow> tcp_nip_sock" where
  "ex_acked sk = (if no_retransmission sk then tcp_nip_rcv_established ex_env (ex_skb\<lparr>pkt_ack_seq := 2\<rparr>) sk else sk)"

definition ex_timer :: "tcp_nip_sock \<Rightarrow> tcp_nip_sock" where
  "ex_timer sk = (if timer_fits sk then tcp_nip_write_timer_handler ex_env sk else sk)"

definition ex_sender :: tcp_nip_sock where
  "ex_sender = zero_sock\<lparr>sk_state := TCP_ESTABLISHED, mss_cache := 1460, tcp_header_len := 20, pmtu_cookie := 1500\<rparr>"

lemma sendmsg_appends_prefix_witness:
  "\<exists>sk'. tcp_nip_sendmsg ex_env (\<lambda>_. 2) (0, \<lambda>sk. sk) [Packet True, Wait_memory 0 ex_acked, Wait_memory (- EAGAIN) ex_timer]
      [1, 2, 3, 4, 5] ex_sender = Some (2, False, sk') \<and> (\<exists>k \<le> 2. sending (of_nat k) (drop k [1, 2]) sk')"
proof -
  have m: "fst (tcp_nip_current_mss ex_env ex_sender) = 1460" and err: "sk_err (snd (tcp_nip_current_mss ex_env ex_sender)) = 0"
    and sh: "\<not> snd_shutdown (snd (tcp_nip_current_mss ex_env ex_sender))"
    by (simp_all add: ex_sender_def tcp_nip_current_mss_def tcp_nip_sync_mss_def ex_env_def zero_sock_def TCPHDR_LEN_def Let_def)
  have st: "sk_state ex_sender = TCP_ESTABLISHED" by (simp add: ex_sender_def)
  obtain s where c: "tcp_nip_current_mss ex_env ex_sender = (1460, s)" using m by (metis prod.collapse)
  have s: "sending 0 [] ex_sender" by (simp add: sending_def wq_def ex_sender_def zero_sock_def)
  have k: "keeps_stream ex_acked" "keeps_stream ex_timer"
    unfolding ex_acked_def ex_timer_def
    by (rule keeps_stream_segment) (rule keeps_stream_write_timer, simp add: splits_ok_def ex_env_def)
  obtain sk' where r: "tcp_nip_sendmsg ex_env (\<lambda>_. 2) (0, \<lambda>sk. sk)
      [Packet True, Wait_memory 0 ex_acked, Wait_memory (- EAGAIN) ex_timer] [1, 2, 3, 4, 5] ex_sender = Some (2, False, sk')"
    using err sh st c
    by (auto simp: tcp_nip_sendmsg_def Let_def sendmsg_error_def sendmsg_out_def split_beta)
  have "\<exists>n \<le> length [1, 2, 3, 4, 5 :: u8]. ((2 :: int) = int n \<or> n = 0 \<and> (2 :: int) < 0) \<and>
    (\<exists>k \<le> length ([] @ take n [1, 2, 3, 4, 5 :: u8]). sending (0 + of_nat k) (drop k ([] @ take n [1, 2, 3, 4, 5])) sk')"
    by (rule sendmsg_appends_prefix [OF s _ _ _ r]) (auto simp: keeps_stream_id k)
  then have "\<exists>k \<le> 2. sending (of_nat k) (drop k [1, 2]) sk'" by (auto simp: eval_nat_numeral)
  then show ?thesis using r by blast
qed

text \<open>A fault of the user buffer in the first unsent packet leaves sk_send_head pointing to a packet
  that was freed.\<close>

theorem fault_leaves_stale_head:
  assumes "sk_state sk \<in> {TCP_ESTABLISHED, TCP_CLOSE_WAIT}" "sk_err sk = 0" "\<not> snd_shutdown sk" "send_queue sk = []"
    "room (fst (tcp_nip_current_mss e sk)) > 0" "msg \<noteq> []"
  shows "\<exists>sk'. tcp_nip_sendmsg e room connect (Packet False # steps) msg sk = Some (- EFAULT, True, sk')"
proof -
  obtain m s where m: "tcp_nip_current_mss e sk = (m, s)" by fastforce
  have "sk_err (snd (tcp_nip_current_mss e sk)) = sk_err sk" "snd_shutdown (snd (tcp_nip_current_mss e sk)) = snd_shutdown sk"
    "send_queue (snd (tcp_nip_current_mss e sk)) = send_queue sk"
    by (simp_all add: tcp_nip_current_mss_def tcp_nip_sync_mss_def Let_def split: option.split prod.split)
  then have "sk_err s = 0" "\<not> snd_shutdown s" "send_queue s = []" using assms(2-4) m by simp_all
  then show ?thesis using assms(1,5,6)
    by (auto simp: tcp_nip_sendmsg_def Let_def m sendmsg_fault_def skb_nip_entail_def)
qed

lemma fault_leaves_stale_head_witness:
  "\<exists>sk'. tcp_nip_sendmsg ex_env (\<lambda>_. 1460) (0, \<lambda>sk. sk) [Packet False] [7] (zero_sock\<lparr>sk_state := TCP_ESTABLISHED\<rparr>) = Some (- EFAULT, True, sk')"
  using fault_leaves_stale_head [of "zero_sock\<lparr>sk_state := TCP_ESTABLISHED\<rparr>" "\<lambda>_. 1460" ex_env "[7]" "(0, \<lambda>sk. sk)" "[]"]
  by (simp add: zero_sock_def)

end
