(* ===== verification/TcpStream.thy ===== *)
theory TcpStream
  imports TcpUser
begin

text \<open>
  Reading, tcp_nip_recvmsg of newip/tcp_nip.c with tcp_nip_cleanup_rbuf: the loop over the receive queue,
  its waits as a list of what happens to the socket meanwhile. Then the way of a message from the sender's
  tcp_nip_sendmsg, over packets that arrive in any order (tcp_nip_data_queue), to the reader: the offsets
  the queues cover (span, cov) never get less, and a queue that starts beyond the next expected byte cannot cover it.
\<close>

section \<open>Reading (tcp_nip_recvmsg)\<close>

text \<open>The call: its flags, what sock_rcvlowat gives for it, the value for a signal, whether copying
  to the user fails after so many bytes, and whether an acknowledgment is due as a small segment was
  pushed and the receive memory is now empty.\<close>

record recv_call =
  msg_peek :: bool
  msg_trunc :: bool
  rcv_target :: nat
  intr_errno :: int
  copy_fails :: "nat \<Rightarrow> bool"
  ack_pushed :: "tcp_nip_sock \<Rightarrow> bool"

text \<open>What the loop sees outside the socket: no time left to wait, a signal, a backlog.\<close>

record recv_cond =
  no_time :: bool
  has_signal :: bool
  has_backlog :: bool

type_synonym recv_wait = "(tcp_nip_sock \<Rightarrow> tcp_nip_sock) \<times> recv_cond"

definition tcp_nip_cleanup_rbuf :: "tcp_env \<Rightarrow> recv_call \<Rightarrow> int \<Rightarrow> tcp_nip_sock \<Rightarrow> tcp_nip_sock" where
  "tcp_nip_cleanup_rbuf e r copied sk =
    (let time_to_ack = (ack_sched sk \<and>
           (rcv_nxt sk - rcv_wup sk > of_int (ack_num (params e) * 20 * uint (rcv_mss sk)) \<or> (copied > 0 \<and> ack_pushed r sk)));
         rcv_window_now = tcp_receive_window sk; new_window = nip_new_window e sk;
         opened = (copied > 0 \<and> \<not> time_to_ack \<and> \<not> rcv_shutdown sk \<and> 2 * rcv_window_now \<le> window_clamp sk \<and>
           new_window \<noteq> 0 \<and> new_window \<ge> 2 * rcv_window_now)
     in if time_to_ack \<or> opened then tcp_nip_send_ack e sk else sk)"

text \<open>The walk through the receive queue: the packet that holds the position and the offset in it, a FIN
  at the position, or nothing to read.\<close>

datatype found = Data_at nat u32 | Fin_at nat | Nothing

fun find_skb :: "u32 \<Rightarrow> nat \<Rightarrow> tcp_skb list \<Rightarrow> found" where
  "find_skb pos i [] = Nothing"
| "find_skb pos i (p # ps) =
    (if before pos (pkt_seq p) then Nothing
     else
       let offset = pos - pkt_seq p - (if flag (pkt_flags p) TCPHDR_SYN then 1 else 0) in
       if unat offset < length (pkt_data p) then Data_at i offset
       else if flag (pkt_flags p) TCPHDR_FIN then Fin_at i
       else find_skb pos (Suc i) ps)"

definition sk_eat_skb :: "recv_call \<Rightarrow> nat \<Rightarrow> tcp_nip_sock \<Rightarrow> tcp_nip_sock" where
  "sk_eat_skb r i sk = (if msg_peek r then sk else sk\<lparr>rcv_queue := take i (rcv_queue sk) @ drop (Suc i) (rcv_queue sk)\<rparr>)"

text \<open>Whether the call gives up when there is nothing to read, and what it then returns.\<close>

definition recv_break :: "recv_call \<Rightarrow> recv_cond \<Rightarrow> nat \<Rightarrow> tcp_nip_sock \<Rightarrow> (int \<times> tcp_nip_sock) option" where
  "recv_break r c copied sk =
    (if copied > 0 then
       (if sk_err sk \<noteq> 0 \<or> sk_state sk = TCP_CLOSE \<or> rcv_shutdown sk \<or> no_time c \<or> has_signal c then Some (int copied, sk) else None)
     else if sock_done sk then Some (0, sk)
     else if sk_err sk \<noteq> 0 then Some (- sk_err sk, sk\<lparr>sk_err := 0\<rparr>)
     else if rcv_shutdown sk then Some (0, sk)
     else if sk_state sk = TCP_CLOSE then Some (- ENOTCONN, sk)
     else if no_time c then Some (- EAGAIN, sk)
     else if has_signal c then Some (intr_errno r, sk)
     else None)"

definition recv_done :: "tcp_env \<Rightarrow> recv_call \<Rightarrow> int \<Rightarrow> bytes \<Rightarrow> tcp_nip_sock \<Rightarrow> (int \<times> bytes \<times> tcp_nip_sock) option" where
  "recv_done e r ret out sk = Some (ret, out, tcp_nip_cleanup_rbuf e r ret sk)"

text \<open>The loop; None when it still waits. The position is tp->copied_seq itself, also when peeking.\<close>

function recv_loop :: "tcp_env \<Rightarrow> recv_call \<Rightarrow> recv_wait list \<Rightarrow> recv_cond \<Rightarrow> nat \<Rightarrow> nat \<Rightarrow> bytes \<Rightarrow> tcp_nip_sock \<Rightarrow>
    (int \<times> bytes \<times> tcp_nip_sock) option" where
  "recv_loop e r waits c len copied out sk =
    (case find_skb (copied_seq sk) 0 (rcv_queue sk) of
       Data_at i offset \<Rightarrow>
         let skb = rcv_queue sk ! i; avail = length (pkt_data skb) - unat offset; used = min avail len in
         if \<not> msg_trunc r \<and> copy_fails r copied then recv_done e r (if copied = 0 then - EFAULT else int copied) out sk
         else
           let out = (if msg_trunc r then out else out @ take used (drop (unat offset) (pkt_data skb)));
               sk = sk\<lparr>copied_seq := copied_seq sk + of_nat used\<rparr>; copied = copied + used
           in if used + unat offset < length (pkt_data skb) then recv_done e r (int copied) out sk
           else if flag (pkt_flags skb) TCPHDR_FIN
             then recv_done e r (int copied) out (sk_eat_skb r i (sk\<lparr>copied_seq := copied_seq sk + 1\<rparr>))
           else if used < len then recv_loop e r waits c (len - used) copied out (sk_eat_skb r i sk)
           else recv_done e r (int copied) out (sk_eat_skb r i sk)
     | Fin_at i \<Rightarrow> recv_done e r (int copied) out (sk_eat_skb r i (sk\<lparr>copied_seq := copied_seq sk + 1\<rparr>))
     | Nothing \<Rightarrow>
         if copied \<ge> rcv_target r \<and> \<not> has_backlog c then recv_done e r (int copied) out sk
         else case recv_break r c copied sk of
             Some (ret, sk) \<Rightarrow> recv_done e r ret out sk
           | None \<Rightarrow>
             (case waits of
                [] \<Rightarrow> None
              | (f, c) # waits \<Rightarrow>
                let sk = f (tcp_nip_cleanup_rbuf e r (int copied) sk) in
                if len > 0 then recv_loop e r waits c len copied out sk else recv_done e r (int copied) out sk))"
  by pat_completeness auto

lemma find_skb_data: "find_skb pos i q = Data_at j off \<Longrightarrow> i \<le> j \<and> j < i + length q \<and> unat off < length (pkt_data (q ! (j - i)))"
proof (induction q arbitrary: i)
  case (Cons p q)
  show ?case
  proof (cases "find_skb pos (Suc i) q = Data_at j off")
    case True
    then show ?thesis using Cons.IH [OF True] Cons.prems by (auto simp: Let_def nth_Cons' split: if_splits)
  next
    case False
    then show ?thesis using Cons.prems by (auto simp: Let_def split: if_splits)
  qed
qed simp

termination recv_loop
proof (relation "measures [\<lambda>(e, r, waits, c, len, copied, out, sk). length waits, \<lambda>(e, r, waits, c, len, copied, out, sk). len]", goal_cases)
  case (2 e r waits c len copied out sk i offset skb avail used)
  have "unat offset < length (pkt_data skb)" using find_skb_data [OF 2(1)] 2(2) by simp
  then have "0 < avail" using 2(3) by simp
  then have "0 < used" using 2(4) 2(11) by auto
  then show ?case using 2 by auto
qed auto

definition tcp_nip_recvmsg :: "tcp_env \<Rightarrow> recv_call \<Rightarrow> recv_wait list \<Rightarrow> recv_cond \<Rightarrow> nat \<Rightarrow> tcp_nip_sock \<Rightarrow>
    (int \<times> bytes \<times> tcp_nip_sock) option" where
  "tcp_nip_recvmsg e r waits c len sk =
    (if sk_state sk = TCP_LISTEN then Some (0, [], sk) else recv_loop e r waits c len 0 [] sk)"

declare recv_loop.simps [simp del]

section \<open>What a reader gets\<close>

text \<open>The reader is at offset c of the stream S, and everything before offset n is in the receive queue.\<close>

definition reading :: "(nat \<Rightarrow> u8) \<Rightarrow> u32 \<Rightarrow> nat \<Rightarrow> nat \<Rightarrow> tcp_nip_sock \<Rightarrow> bool" where
  "reading S b c n sk \<longleftrightarrow> copied_seq sk = b + of_nat c \<and> rcv_nxt sk = b + of_nat n \<and> rq_ok S b c n (rcv_queue sk) \<and>
     (\<forall>p \<in> set (rcv_queue sk). length (pkt_data p) < 2 ^ 31) \<and> sk_err sk \<ge> 0"

lemma send_ack_same: "wq_same sk (tcp_nip_send_ack e sk)"
  by (simp add: tcp_nip_send_ack_def transmit_same)

lemma cleanup_same: "wq_same sk (tcp_nip_cleanup_rbuf e r n sk)"
  by (simp add: tcp_nip_cleanup_rbuf_def Let_def send_ack_same)

lemma reading_same: "wq_same sk sk' \<Longrightarrow> reading S b c n sk' = reading S b c n sk"
  by (simp add: reading_def wq_same_def)

lemma reading_find:
  assumes "reading S b c n sk" "rcv_queue sk = p # ps"
  obtains k where "k \<le> c" "c < k + length (pkt_data p)" "placed S b k p" "find_skb (copied_seq sk) 0 (rcv_queue sk) = Data_at 0 (of_nat (c - k))"
    "unat (of_nat (c - k) :: u32) = c - k" "pkt_data p = map S [k..<k + length (pkt_data p)]" "\<not> flag (pkt_flags p) TCPHDR_FIN"
    "rq_ok S b (k + length (pkt_data p)) n ps" "pkt_end_seq p = b + of_nat (k + length (pkt_data p))"
proof -
  obtain k where k: "k \<le> c" "placed S b k p" "c < k + length (pkt_data p)" "c < k + 2 ^ 31" "rq_ok S b (k + length (pkt_data p)) n ps"
    using assms by (auto simp: reading_def)
  have o: "copied_seq sk - pkt_seq p = of_nat (c - k)"
    using assms(1) k(1,2) by (simp add: reading_def placed_def of_nat_diff)
  have u: "unat (of_nat (c - k) :: u32) = c - k"
    using k by (simp only: unat_of_nat) (simp add: take_bit_nat_eq_self)
  have nb: "\<not> before (copied_seq sk) (pkt_seq p)"
    using before_of_nat [of c k b] k assms(1) by (simp add: reading_def placed_def)
  have "\<not> flag (pkt_flags p) TCPHDR_SYN" using k(2) by (simp add: placed_def)
  then have f: "find_skb (copied_seq sk) 0 (rcv_queue sk) = Data_at 0 (of_nat (c - k))"
    using nb k(1,3) u unfolding assms(2) find_skb.simps Let_def by (simp add: o less_diff_conv2 del: of_nat_diff)
  have p: "pkt_data p = map S [k..<k + length (pkt_data p)]" "\<not> flag (pkt_flags p) TCPHDR_FIN"
    "pkt_end_seq p = b + of_nat (k + length (pkt_data p))" using k(2) by (auto simp: placed_def)
  show ?thesis by (rule that [OF k(1,3,2) f u p(1,2) k(5) p(3)])
qed

lemma take_slice:
  assumes "d = map S [k..<k + length d]" "k \<le> c" "m \<le> k + length d - c"
  shows "take m (drop (c - k) d) = map S [c..<c + m]"
proof -
  have "take m (drop (c - k) d) = map S (take m (drop (c - k) [k..<k + length d]))"
    using assms(1) by (metis drop_map take_map)
  also have "drop (c - k) [k..<k + length d] = [c..<k + length d]" using assms(2) by simp
  finally show ?thesis using assms(2,3) by (cases "c \<le> k + length d") (simp_all add: take_upt)
qed

lemma recv_break_cases:
  assumes "recv_break r cond copied sk = Some (ret, sk')" "intr_errno r < 0"
  shows "copied_seq sk' = copied_seq sk \<and> rcv_nxt sk' = rcv_nxt sk \<and> rcv_queue sk' = rcv_queue sk \<and>
    (sk_err sk \<ge> 0 \<longrightarrow> sk_err sk' \<ge> 0 \<and> (ret = int copied \<or> copied = 0 \<and> ret < 0))"
  using assms by (auto simp: recv_break_def split: if_splits)

lemma recv_loop_reading:
  assumes "reading S b c n sk" "\<not> msg_peek r" "\<not> msg_trunc r" "\<forall>i. \<not> copy_fails r i" "intr_errno r < 0"
    "\<forall>(f, cond) \<in> set waits. \<forall>c n sk. reading S b c n sk \<longrightarrow> (\<exists>n' \<ge> n. reading S b c n' (f sk))"
    "recv_loop e r waits cond len copied out sk = Some (ret, out', sk')"
  shows "\<exists>m n'. m \<le> len \<and> n \<le> n' \<and> out' = out @ map S [c..<c + m] \<and> reading S b (c + m) n' sk' \<and>
    (ret = int (copied + m) \<or> copied + m = 0 \<and> ret < 0)"
  using assms
proof (induction "length waits + len" arbitrary: waits cond len copied out sk c n rule: less_induct)
  case less
  note reading = less.prems(1) and flags = less.prems(2-5) and waits = less.prems(6) and run = less.prems(7)
  have fin: "reading S b c' n'' s \<Longrightarrow> recv_done e r ret1 out1 s = Some (ret, out', sk') \<Longrightarrow>
    reading S b c' n'' sk' \<and> ret = ret1 \<and> out' = out1" for c' n'' s ret1 out1
    using reading_same [OF cleanup_same] by (auto simp: recv_done_def)
  show ?case
  proof (cases "rcv_queue sk")
    case (Cons p ps)
    obtain k where k: "k \<le> c" "c < k + length (pkt_data p)" and pl: "placed S b k p" and f: "find_skb (copied_seq sk) 0 (rcv_queue sk) = Data_at 0 (of_nat (c - k))"
      and u: "unat (of_nat (c - k) :: u32) = c - k" and d: "pkt_data p = map S [k..<k + length (pkt_data p)]"
      and nf: "\<not> flag (pkt_flags p) TCPHDR_FIN" and q: "rq_ok S b (k + length (pkt_data p)) n ps"
      using reading_find [OF reading Cons] by metis
    define used where "used = min (length (pkt_data p) - (c - k)) len"
    have sl: "take used (drop (c - k) (pkt_data p)) = map S [c..<c + used]"
      by (rule take_slice [OF d k(1)]) (use k in \<open>auto simp: used_def\<close>)
    define s1 where "s1 = sk\<lparr>copied_seq := copied_seq sk + of_nat used\<rparr>"
    have hd: "rcv_queue sk ! 0 = p" by (simp add: Cons)
    note run' = run [unfolded recv_loop.simps [of e r waits cond len copied out sk] f found.case hd Let_def u, folded used_def, folded s1_def]
    have eat: "sk_eat_skb r 0 s1 = s1\<lparr>rcv_queue := ps\<rparr>" using flags(1) by (simp add: sk_eat_skb_def s1_def Cons)
    consider "used + (c - k) < length (pkt_data p)" | "\<not> used + (c - k) < length (pkt_data p)" "used < len"
      | "\<not> used + (c - k) < length (pkt_data p)" "\<not> used < len" by blast
    then show ?thesis
    proof cases
      case c1: 1
      have "length (pkt_data p) < 2 ^ 31" using reading Cons by (simp add: reading_def)
      then have "rq_ok S b (c + used) n (p # ps)" using pl k c1 q by (auto intro!: exI [of _ k])
      then have r1: "reading S b (c + used) n s1" using reading Cons by (simp add: reading_def s1_def ac_simps)
      have "recv_done e r (int (copied + used)) (out @ map S [c..<c + used]) s1 = Some (ret, out', sk')"
        using run' flags c1 sl by simp
      from fin [OF r1 this] show ?thesis by (intro exI [of _ used] exI [of _ n]) (simp add: used_def)
    next
      case c2: 2
      have cu: "c + used = k + length (pkt_data p)" using c2 k by (auto simp: used_def)
      have r1: "reading S b (c + used) n (s1\<lparr>rcv_queue := ps\<rparr>)"
        using reading Cons q unfolding cu [symmetric] by (simp add: reading_def s1_def ac_simps)
      have run1: "recv_loop e r waits cond (len - used) (copied + used) (out @ map S [c..<c + used]) (s1\<lparr>rcv_queue := ps\<rparr>) = Some (ret, out', sk')"
        using run' flags c2 sl nf eat by simp
      have "\<exists>m n'. m \<le> len - used \<and> n \<le> n' \<and> out' = (out @ map S [c..<c + used]) @ map S [c + used..<c + used + m] \<and>
          reading S b (c + used + m) n' sk' \<and> (ret = int (copied + used + m) \<or> copied + used + m = 0 \<and> ret < 0)"
        by (rule less.hyps [OF _ r1 flags waits run1]) (use c2 k in \<open>auto simp: used_def\<close>)
      then obtain m n' where m: "m \<le> len - used" "n \<le> n'" "out' = (out @ map S [c..<c + used]) @ map S [c + used..<c + used + m]"
        "reading S b (c + used + m) n' sk'" "ret = int (copied + used + m) \<or> copied + used + m = 0 \<and> ret < 0" by blast
      have "[c..<c + (used + m)] = [c..<c + used] @ [c + used..<c + used + m]"
        using upt_add_eq_append [of c "c + used" m] by (simp add: ac_simps)
      then show ?thesis using m c2(2) by (intro exI [of _ "used + m"] exI [of _ n']) (simp add: ac_simps)
    next
      case c3: 3
      have cu: "c + used = k + length (pkt_data p)" using c3 k by (auto simp: used_def)
      have r1: "reading S b (c + used) n (s1\<lparr>rcv_queue := ps\<rparr>)"
        using reading Cons q unfolding cu [symmetric] by (simp add: reading_def s1_def ac_simps)
      have "recv_done e r (int (copied + used)) (out @ map S [c..<c + used]) (s1\<lparr>rcv_queue := ps\<rparr>) = Some (ret, out', sk')"
        using run' flags c3 sl nf eat by simp
      from fin [OF r1 this] show ?thesis by (intro exI [of _ used] exI [of _ n]) (simp add: used_def)
    qed
  next
    case Nil
    have f: "find_skb (copied_seq sk) 0 (rcv_queue sk) = Nothing" by (simp add: Nil)
    note run' = run [unfolded recv_loop.simps [of e r waits cond len copied out sk] f found.case]
    consider "rcv_target r \<le> copied \<and> \<not> has_backlog cond"
      | ret1 s1 where "\<not> (rcv_target r \<le> copied \<and> \<not> has_backlog cond)" "recv_break r cond copied sk = Some (ret1, s1)"
      | "\<not> (rcv_target r \<le> copied \<and> \<not> has_backlog cond)" "recv_break r cond copied sk = None" by fastforce
    then show ?thesis
    proof cases
      case 1
      then have "recv_done e r (int copied) out sk = Some (ret, out', sk')" using run' by (simp only: if_True simp_thms)
      from fin [OF reading this] show ?thesis by (intro exI [of _ 0] exI [of _ n]) simp
    next
      case c2: 2
      have d: "recv_done e r ret1 out s1 = Some (ret, out', sk')" using run' [unfolded if_not_P [OF c2(1)] c2(2)] by simp
      have b: "reading S b c n s1" "ret1 = int copied \<or> copied = 0 \<and> ret1 < 0"
        using recv_break_cases [OF c2(2) flags(4)] reading by (auto simp: reading_def)
      from fin [OF b(1) d] b(2) show ?thesis by (intro exI [of _ 0] exI [of _ n]) auto
    next
      case c3: 3
      note run'' = run' [unfolded if_not_P [OF c3(1)] c3(2) option.case]
      obtain g c' ws where w: "waits = (g, c') # ws" using run'' by (cases waits) auto
      define s1 where "s1 = g (tcp_nip_cleanup_rbuf e r (int copied) sk)"
      have gk: "reading S b c n x \<Longrightarrow> \<exists>n' \<ge> n. reading S b c n' (g x)" for x using waits unfolding w by simp
      have "reading S b c n (tcp_nip_cleanup_rbuf e r (int copied) sk)" using reading reading_same [OF cleanup_same] by blast
      from gk [OF this] obtain n1 where n1: "n1 \<ge> n" "reading S b c n1 s1" unfolding s1_def by blast
      show ?thesis
      proof (cases "len > 0")
        case True
        then have run1: "recv_loop e r ws c' len copied out s1 = Some (ret, out', sk')" using run'' by (simp add: w s1_def Let_def)
        have "\<exists>m n'. m \<le> len \<and> n1 \<le> n' \<and> out' = out @ map S [c..<c + m] \<and> reading S b (c + m) n' sk' \<and>
            (ret = int (copied + m) \<or> copied + m = 0 \<and> ret < 0)"
          by (rule less.hyps [OF _ n1(2) flags _ run1]) (use w waits in auto)
        then obtain m n' where m: "m \<le> len" "n1 \<le> n'" "out' = out @ map S [c..<c + m]" "reading S b (c + m) n' sk'"
          "ret = int (copied + m) \<or> copied + m = 0 \<and> ret < 0" by blast
        show ?thesis by (rule exI [of _ m], rule exI [of _ n']) (use m n1(1) in simp)
      next
        case False
        then have "recv_done e r (int copied) out s1 = Some (ret, out', sk')" using run'' by (simp add: w s1_def Let_def)
        from fin [OF n1(2) this] n1(1) show ?thesis by (intro exI [of _ 0] exI [of _ n1]) simp
      qed
    qed
  qed
qed

lemma recv_loop_available:
  assumes "reading S b c n sk" "\<not> msg_peek r" "\<not> msg_trunc r" "\<forall>i. \<not> copy_fails r i" "\<not> has_backlog cond"
    "rcv_target r \<le> copied + min len (n - c)"
  shows "\<exists>out' sk'. recv_loop e r waits cond len copied out sk = Some (int (copied + min len (n - c)), out', sk')"
  using assms
proof (induction len arbitrary: copied out sk c rule: less_induct)
  case (less len)
  note reading = less.prems(1) and flags = less.prems(2-5)
  show ?case
  proof (cases "rcv_queue sk")
    case (Cons p ps)
    obtain k where k: "k \<le> c" "c < k + length (pkt_data p)" and f: "find_skb (copied_seq sk) 0 (rcv_queue sk) = Data_at 0 (of_nat (c - k))"
      and u: "unat (of_nat (c - k) :: u32) = c - k" and nf: "\<not> flag (pkt_flags p) TCPHDR_FIN"
      and q: "rq_ok S b (k + length (pkt_data p)) n ps"
      using reading_find [OF reading Cons] by metis
    have kn: "k + length (pkt_data p) \<le> n" using readable_ok [OF q] by simp
    define used where "used = min (length (pkt_data p) - (c - k)) len"
    define s1 where "s1 = sk\<lparr>copied_seq := copied_seq sk + of_nat used\<rparr>"
    have hd: "rcv_queue sk ! 0 = p" by (simp add: Cons)
    have eat: "sk_eat_skb r 0 s1 = s1\<lparr>rcv_queue := ps\<rparr>" using flags(1) by (simp add: sk_eat_skb_def s1_def Cons)
    note run = recv_loop.simps [of e r waits cond len copied out sk, unfolded f found.case hd Let_def u, folded used_def, folded s1_def]
    consider "used + (c - k) < length (pkt_data p)" | "\<not> used + (c - k) < length (pkt_data p)" "used < len"
      | "\<not> used + (c - k) < length (pkt_data p)" "\<not> used < len" by blast
    then show ?thesis
    proof cases
      case 1
      then have "used = len" "len \<le> n - c" using k kn by (auto simp: used_def)
      then show ?thesis using 1 flags by (simp add: run recv_done_def)
    next
      case c2: 2
      have cu: "c + used = k + length (pkt_data p)" and up: "0 < used" using c2 k by (auto simp: used_def)
      have r1: "reading S b (c + used) n (s1\<lparr>rcv_queue := ps\<rparr>)"
        using reading Cons q unfolding cu [symmetric] by (simp add: reading_def s1_def ac_simps)
      have m: "copied + used + min (len - used) (n - (c + used)) = copied + min len (n - c)" using cu kn c2 by auto
      have l: "len - used < len" using up c2 by simp
      from less.IH [OF l r1 flags, of "copied + used"] obtain out' sk' where
        "recv_loop e r waits cond (len - used) (copied + used) (out @ take used (drop (c - k) (pkt_data p))) (s1\<lparr>rcv_queue := ps\<rparr>) =
           Some (int (copied + min len (n - c)), out', sk')" using less.prems(6) unfolding m by blast
      then show ?thesis using c2 flags nf eat by (simp add: run)
    next
      case c3: 3
      have "c + used = k + length (pkt_data p)" "used = len" using c3 k by (auto simp: used_def)
      then have "min len (n - c) = used" using kn by auto
      then show ?thesis using c3 flags nf by (simp add: run recv_done_def)
    qed
  next
    case Nil
    then have "c = n" using reading by (simp add: reading_def)
    then show ?thesis using less.prems(5,6) by (simp add: recv_loop.simps [of e r] Nil recv_done_def)
  qed
qed

lemma recvmsg_step:
  assumes "reading S b c n sk" "sk_state sk \<noteq> TCP_LISTEN" "\<not> msg_peek r" "\<not> msg_trunc r" "\<forall>i. \<not> copy_fails r i" "intr_errno r < 0"
    "\<forall>(f, cond) \<in> set waits. \<forall>c n sk. reading S b c n sk \<longrightarrow> (\<exists>n' \<ge> n. reading S b c n' (f sk))"
  shows "(\<forall>ret out sk'. tcp_nip_recvmsg e r waits cond len sk = Some (ret, out, sk') \<longrightarrow>
      (\<exists>m n'. m \<le> len \<and> n \<le> n' \<and> out = map S [c..<c + m] \<and> reading S b (c + m) n' sk' \<and> (ret = int m \<or> m = 0 \<and> ret < 0))) \<and>
    (\<not> has_backlog cond \<and> rcv_target r \<le> min len (n - c) \<longrightarrow>
      (\<exists>sk'. tcp_nip_recvmsg e r waits cond len sk = Some (int (min len (n - c)), map S [c..<c + min len (n - c)], sk')))"
proof -
  have run: "tcp_nip_recvmsg e r waits cond len sk = recv_loop e r waits cond len 0 [] sk"
    using assms(2) by (simp add: tcp_nip_recvmsg_def)
  note R = recv_loop_reading [OF assms(1,3-7), of e cond len 0 "[]"]
  have 1: "\<exists>m n'. m \<le> len \<and> n \<le> n' \<and> out = map S [c..<c + m] \<and> reading S b (c + m) n' sk' \<and> (ret = int m \<or> m = 0 \<and> ret < 0)"
    if "recv_loop e r waits cond len 0 [] sk = Some (ret, out, sk')" for ret out sk' using R [OF that] by simp
  have 2: "\<exists>sk'. recv_loop e r waits cond len 0 [] sk = Some (int (min len (n - c)), map S [c..<c + min len (n - c)], sk')"
    if a: "\<not> has_backlog cond" "rcv_target r \<le> min len (n - c)"
  proof -
    obtain out sk' where l: "recv_loop e r waits cond len 0 [] sk = Some (int (min len (n - c)), out, sk')"
      using recv_loop_available [OF assms(1,3-5) a(1), of 0 len e waits "[]"] a(2) by auto
    then obtain m where "out = map S [c..<c + m]" "int (min len (n - c)) = int m \<or> m = 0 \<and> int (min len (n - c)) < 0" using 1 [OF l] by blast
    then show ?thesis using l by auto
  qed
  show ?thesis unfolding run using 1 2 by blast
qed

text \<open>C32: A read returns the next bytes of the stream: whatever arrives while it waits, the bytes given to
  the user are those of the stream from the position of the reader on, as many as the call
  returns, and the position moves past them; and when enough is there the call does not wait and
  returns all of it that fits the buffer.\<close>

theorem recvmsg_reads_stream:
  assumes "reading S b c n sk" "sk_state sk \<noteq> TCP_LISTEN" "\<not> msg_peek r" "\<not> msg_trunc r" "\<forall>i. \<not> copy_fails r i" "intr_errno r < 0"
    "\<forall>(f, cond) \<in> set waits. \<forall>c n sk. reading S b c n sk \<longrightarrow> (\<exists>n' \<ge> n. reading S b c n' (f sk))"
  shows "(\<forall>ret out sk'. tcp_nip_recvmsg e r waits cond len sk = Some (ret, out, sk') \<longrightarrow>
      (\<exists>m n'. m \<le> len \<and> n \<le> n' \<and> out = map S [c..<c + m] \<and> reading S b (c + m) n' sk' \<and> (ret = int m \<or> m = 0 \<and> ret < 0))) \<and>
    (\<not> has_backlog cond \<and> rcv_target r \<le> min len (n - c) \<longrightarrow>
      (\<exists>sk'. tcp_nip_recvmsg e r waits cond len sk = Some (int (min len (n - c)), map S [c..<c + min len (n - c)], sk')))"
  by (rule recvmsg_step [OF assms])

definition ex_read :: recv_call where
  "ex_read = \<lparr>msg_peek = False, msg_trunc = False, rcv_target = 1, intr_errno = - 4, copy_fails = (\<lambda>_. False), ack_pushed = (\<lambda>_. False)\<rparr>"

definition ex_cond :: recv_cond where "ex_cond = \<lparr>no_time = False, has_signal = False, has_backlog = False\<rparr>"

definition ex_reader :: tcp_nip_sock where
  "ex_reader = zero_sock\<lparr>sk_state := TCP_ESTABLISHED, rcv_nxt := 9, rcv_queue := [ex_segment 0 5, ex_segment 5 4]\<rparr>"

lemma ex_reader_reading: "reading ex_stream 0 0 9 ex_reader"
proof -
  have l: "length (pkt_data (ex_segment k l)) = l" "\<not> flag (pkt_flags (ex_segment k l)) TCPHDR_SYN" for k l
    by (simp_all add: ex_segment_def ex_skb_def flag_def TCPHDR_ACK_def TCPHDR_SYN_def)
  have "rq_ok ex_stream 0 0 9 [ex_segment 0 5, ex_segment 5 4]"
    using ex_segment_placed [of 0 5] ex_segment_placed [of 5 4]
    by (auto simp: l intro!: exI [of _ 0] exI [of _ 5])
  then show ?thesis by (simp add: reading_def ex_reader_def l zero_sock_def)
qed

text \<open>While the second read waits, five more bytes arrive.\<close>

definition ex_arrival :: "tcp_nip_sock \<Rightarrow> tcp_nip_sock" where
  "ex_arrival sk = sk\<lparr>rcv_queue := rcv_queue sk @ [ex_segment (unat (rcv_nxt sk)) 5], rcv_nxt := rcv_nxt sk + 5\<rparr>"

lemma recvmsg_reads_stream_witness:
  "(\<exists>sk'. tcp_nip_recvmsg ex_env ex_read [(ex_arrival, ex_cond)] ex_cond 7 ex_reader = Some (7, map ex_stream [0..<7], sk'))"
proof -
  have a: "\<exists>n' \<ge> n. reading ex_stream 0 c n' (ex_arrival sk)" if r: "reading ex_stream 0 c n sk" for c n sk
  proof -
    have nx: "rcv_nxt sk = of_nat n" using r by (simp add: reading_def)
    define N where "N = n mod 2 ^ 32"
    have u: "unat (rcv_nxt sk) = N" by (simp add: nx unat_of_nat take_bit_eq_mod N_def)
    have w: "of_nat N = (of_nat n :: 'a word)" if "(2 ^ 32 :: 'a word) = 0" for x :: "'a :: len word"
    proof -
      have "(of_nat n :: 'a word) = of_nat (2 ^ 32 * (n div 2 ^ 32) + N)" by (simp add: N_def)
      then show ?thesis using that by (simp only: of_nat_add of_nat_mult of_nat_power of_nat_numeral) simp
    qed
    have w8: "of_nat N = (of_nat n :: u8)" and w32: "of_nat N = (of_nat n :: u32)" by (rule w; simp)+
    have s: "map ex_stream [N..<N + 5] = map ex_stream [n..<n + 5]"
      by (rule nth_equalityI) (simp_all add: ex_stream_def w8)
    define g where "g = ex_segment N 5"
    have g: "pkt_data g = map ex_stream [n..<n + 5]" "pkt_seq g = of_nat n" "pkt_end_seq g = of_nat n + 5" "pkt_flags g = TCPHDR_ACK"
      using s w32 by (simp_all add: g_def ex_segment_def ex_skb_def)
    have pl: "placed ex_stream 0 n g" "\<not> flag (pkt_flags g) TCPHDR_SYN" "length (pkt_data g) = 5"
      by (simp_all add: placed_def g flag_def TCPHDR_ACK_def TCPHDR_FIN_def TCPHDR_SYN_def)
    have "rq_ok ex_stream 0 n (n + 5) [g]" using pl by (auto intro!: exI [of _ n])
    then have q: "rq_ok ex_stream 0 c (n + 5) (rcv_queue sk @ [g])" using r by (auto simp: reading_def rq_ok_append)
    have aw: "ex_arrival sk = sk\<lparr>rcv_queue := rcv_queue sk @ [g], rcv_nxt := rcv_nxt sk + 5\<rparr>"
      by (simp only: ex_arrival_def u g_def)
    have "reading ex_stream 0 c (n + 5) (ex_arrival sk)"
      using r pl q unfolding aw reading_def by simp
    then show ?thesis by (intro exI [of _ "n + 5"]) simp
  qed
  show ?thesis
    using recvmsg_reads_stream [OF ex_reader_reading, of ex_read "[(ex_arrival, ex_cond)]" ex_env ex_cond 7] a
    by (auto simp: ex_read_def ex_cond_def ex_reader_def zero_sock_def)
qed

text \<open>MSG_PEEK consumes what it shows: a peek that stays inside the first packet leaves the reader
  past the bytes it returned, as a read does, so that no later read returns them.\<close>

theorem peek_consumes:
  assumes "reading S b c n sk" "sk_state sk \<noteq> TCP_LISTEN" "rcv_queue sk = p # ps" "len < unat (pkt_end_seq p - copied_seq sk)"
    "msg_peek r" "\<not> msg_trunc r" "\<not> copy_fails r 0"
  shows "\<exists>sk'. tcp_nip_recvmsg e r waits cond len sk = Some (int len, map S [c..<c + len], sk') \<and> reading S b (c + len) n sk'"
proof -
  obtain k where k: "k \<le> c" "c < k + length (pkt_data p)" and pl: "placed S b k p"
    and f: "find_skb (copied_seq sk) 0 (rcv_queue sk) = Data_at 0 (of_nat (c - k))"
    and u: "unat (of_nat (c - k) :: u32) = c - k" and d: "pkt_data p = map S [k..<k + length (pkt_data p)]"
    and q: "rq_ok S b (k + length (pkt_data p)) n ps" and z: "pkt_end_seq p = b + of_nat (k + length (pkt_data p))"
    using reading_find [OF assms(1,3)] by metis
  have lp: "length (pkt_data p) < 2 ^ 31" using assms(1,3) by (simp add: reading_def)
  have "pkt_end_seq p - copied_seq sk = (b + of_nat (k + length (pkt_data p))) - (b + of_nat c)"
    using z assms(1) by (simp add: reading_def)
  then have "unat (pkt_end_seq p - copied_seq sk) = k + length (pkt_data p) - c"
    using unat_diff_of_nat [of c "k + length (pkt_data p)" b] k lp by (simp only:) simp
  then have len: "c + len < k + length (pkt_data p)" using assms(4) k by simp
  then have used: "min (length (pkt_data p) - (c - k)) len = len" "len + (c - k) < length (pkt_data p)" using k by auto
  define s1 where "s1 = sk\<lparr>copied_seq := copied_seq sk + of_nat len\<rparr>"
  have sl: "take len (drop (c - k) (pkt_data p)) = map S [c..<c + len]"
    by (rule take_slice [OF d k(1)]) (use len in simp)
  have "recv_loop e r waits cond len 0 [] sk = recv_done e r (int len) (map S [c..<c + len]) s1"
    unfolding recv_loop.simps [of e r waits cond len 0 "[]" sk] f found.case Let_def u
    using assms(3,6,7) used sl by (simp add: s1_def)
  moreover have "rq_ok S b (c + len) n (p # ps)" using pl k q len lp by (auto intro!: exI [of _ k])
  then have "reading S b (c + len) n s1" using assms(1,3) by (simp add: reading_def s1_def ac_simps)
  ultimately show ?thesis
    using assms(2) reading_same [OF cleanup_same] by (simp add: tcp_nip_recvmsg_def recv_done_def)
qed

lemma peek_consumes_witness:
  "\<exists>sk'. tcp_nip_recvmsg ex_env (ex_read\<lparr>msg_peek := True\<rparr>) [] ex_cond 3 ex_reader = Some (3, map ex_stream [0..<3], sk') \<and>
     reading ex_stream 0 3 9 sk'"
  using peek_consumes [OF ex_reader_reading, of "ex_segment 0 5" "[ex_segment 5 4]" 3 "ex_read\<lparr>msg_peek := True\<rparr>" ex_env "[]" ex_cond]
  by (simp add: ex_reader_def zero_sock_def ex_read_def ex_segment_def ex_skb_def)

section \<open>What has arrived\<close>

text \<open>The offsets a packet carries, those a queue carries, and those before the next expected byte.\<close>

definition span :: "u32 \<Rightarrow> tcp_skb \<Rightarrow> nat set" where
  "span b p = (let k = unat (pkt_seq p - b) in {k..<k + length (pkt_data p)})"

definition cov :: "u32 \<Rightarrow> tcp_skb list \<Rightarrow> nat set" where
  "cov b q = (\<Union>p \<in> set q. span b p)"

definition upto_nxt :: "u32 \<Rightarrow> tcp_nip_sock \<Rightarrow> nat set" where
  "upto_nxt b sk = {..<unat (rcv_nxt sk - b)}"

definition aligned :: "u32 \<Rightarrow> tcp_skb \<Rightarrow> tcp_skb list \<Rightarrow> bool" where
  "aligned b p q \<longleftrightarrow> (\<forall>x \<in> set q. span b x \<inter> span b p = {} \<or> span b p \<subseteq> span b x)"

lemma cov_simps [simp]:
  "cov b [] = {}" "cov b (p # q) = span b p \<union> cov b q" "cov b (q @ r) = cov b q \<union> cov b r"
  by (auto simp: cov_def)

lemma cov_mono: "set q \<subseteq> set r \<Longrightarrow> cov b q \<subseteq> cov b r"
  by (auto simp: cov_def)

lemma unat_of_nat_small: "k \<le> 2 ^ 30 \<Longrightarrow> unat (of_nat k :: u32) = k"
  by (simp only: unat_of_nat) (simp add: take_bit_nat_eq_self)

lemma placed_span: "placed S b k p \<Longrightarrow> k \<le> 2 ^ 30 \<Longrightarrow> span b p = {k..<k + length (pkt_data p)}"
  using unat_of_nat_small [of k] by (simp add: span_def Let_def placed_def)

lemma upto_nxt_is: "rcv_nxt sk = b + of_nat n \<Longrightarrow> n \<le> 2 ^ 30 \<Longrightarrow> upto_nxt b sk = {..<n}"
  using unat_of_nat_small [of n] by (simp add: upto_nxt_def)

lemma ofo_ok_cov: "ofo_ok S b lo hi q \<Longrightarrow> hi \<le> 2 ^ 30 \<Longrightarrow> cov b q \<subseteq> {lo..<hi}"
proof (induction q arbitrary: lo)
  case (Cons p q)
  obtain k where k: "lo \<le> k" "placed S b k p" "k + length (pkt_data p) \<le> hi" "ofo_ok S b (k + length (pkt_data p)) hi q"
    using Cons.prems(1) by auto
  have "span b p = {k..<k + length (pkt_data p)}" using placed_span [OF k(2)] k(3) Cons.prems(2) by simp
  moreover have "cov b q \<subseteq> {k + length (pkt_data p)..<hi}" by (rule Cons.IH [OF k(4) Cons.prems(2)])
  ultimately show ?case using k by auto
qed simp

lemma coalesce_span:
  assumes "placed S b j p" "placed S b (j + length (pkt_data p)) skb" "j + length (pkt_data p) \<le> 2 ^ 30"
  shows "span b (tcp_nip_coalesce p skb) = span b p \<union> span b skb"
  using placed_span [OF placed_coalesce(1) [OF assms(1,2)]] placed_span [OF assms(1)] placed_span [OF assms(2,3)]
    placed_coalesce(2) [OF assms(1,2)] assms(3) by auto

text \<open>What an insertion leaves: every offset that was there and those of the packet.\<close>

definition inserted :: "u32 \<Rightarrow> tcp_skb \<Rightarrow> tcp_skb list \<Rightarrow> tcp_skb list \<Rightarrow> bool" where
  "inserted b skb q q' \<longleftrightarrow> cov b q' = cov b q \<union> span b skb \<and>
     (\<forall>x \<in> set q'. x \<in> set q \<or> x = skb \<or> (\<exists>p \<in> set q. span b x = span b p \<union> span b skb))"

lemma inserted_same: "span b skb \<subseteq> cov b q \<Longrightarrow> inserted b skb q q"
  by (auto simp: inserted_def)

lemma inserted_put: "inserted b skb (q @ r) (q @ skb # r)"
  by (auto simp: inserted_def)

lemma inserted_merge:
  "span b x = span b p \<union> span b skb \<Longrightarrow> inserted b skb (q @ p # r) (q @ x # r)"
  by (auto simp: inserted_def)

lemma merge_right_aligned:
  assumes "placed S b k skb" "pkt_data skb \<noteq> []" "k + length (pkt_data skb) \<le> hi" "ofo_ok S b lo hi r" "k < lo" "hi \<le> 2 ^ 30"
    "aligned b skb r"
  shows "merge_right skb r = skb # r"
proof (cases r)
  case (Cons x r')
  obtain j where j: "lo \<le> j" "placed S b j x" "pkt_data x \<noteq> []" "j + length (pkt_data x) \<le> hi" using assms(4) Cons by auto
  note s = placed_span [OF assms(1)] placed_span [OF j(2)]
  have "k \<in> span b skb" "k \<notin> span b x" "j \<in> span b x" using s assms j by auto
  then have "j \<notin> span b skb" using assms(7) Cons by (auto simp: aligned_def)
  then have "k + length (pkt_data skb) \<le> j" using s assms j by auto
  then show ?thesis
    using placed_cmp(5) [OF assms(1) j(2) _ assms(3), of 0] j assms Cons by simp
qed simp

lemma contained:
  assumes "aligned b skb q" "x \<in> set q" "placed S b j x" "placed S b k skb" "j \<le> k" "k < j + length (pkt_data x)"
    "pkt_data skb \<noteq> []" "k \<le> 2 ^ 30"
  shows "span b skb \<subseteq> span b x" "k + length (pkt_data skb) \<le> j + length (pkt_data x)"
proof -
  have s: "span b x = {j..<j + length (pkt_data x)}" "span b skb = {k..<k + length (pkt_data skb)}"
    using placed_span [OF assms(3)] placed_span [OF assms(4)] assms by auto
  have "k \<in> span b x \<inter> span b skb" using s assms by auto
  then show "span b skb \<subseteq> span b x" using assms(1,2) by (auto simp: aligned_def)
  then have "k + length (pkt_data skb) - 1 \<in> span b x" using s assms(7) by (cases "pkt_data skb") auto
  then show "k + length (pkt_data skb) \<le> j + length (pkt_data x)" using s by auto
qed

lemma ofo_place_cov:
  assumes "ofo_ok S b lo hi q" "placed S b k skb" "pkt_data skb \<noteq> []" "lo \<le> k" "k + length (pkt_data skb) \<le> hi" "hi \<le> 2 ^ 30"
    and "inorder (rb_shape e q) = q" "merges_cleanly e skb q" "aligned b skb q"
  shows "inserted b skb q (ofo_place e skb q)"
proof -
  obtain a m r where s: "ofo_search e skb q = (a, m, r)" using prod_cases3 by blast
  have lh: "lo \<le> hi" "hi \<le> lo + 2 ^ 30" using assms by simp_all
  have d: "ofo_descend e skb (rb_shape e q) = (a, m, r)"
    using descend_search [of S b lo hi "rb_shape e q" k skb lo e] s assms lh by simp
  have q: "q = a @ (case m of None \<Rightarrow> r | Some p \<Rightarrow> p # r)" by (rule ofo_search_append [OF s])
  show ?thesis
  proof (cases m)
    case None
    then have "ofo_ok S b (Suc k) hi r"
      using ofo_search_None [OF _ assms(1,2) order_refl assms(4,5) lh(2), of e a r] s by auto
    moreover have "aligned b skb r" using assms(9) q None by (auto simp: aligned_def)
    ultimately have "merge_right skb r = skb # r" using merge_right_aligned [OF assms(2,3,5) _ lessI assms(6)] by blast
    then show ?thesis using d None q inserted_put by (simp add: ofo_place_def)
  next
    case (Some p)
    obtain i j where "lo \<le> i" "i \<le> j" and j': "j \<le> k" "k \<le> j + length (pkt_data p)" "placed S b j p"
      "pkt_data p \<noteq> []" "j + length (pkt_data p) \<le> hi"
      using ofo_search_Some [OF _ assms(1,2) order_refl assms(4,5) lh(2)] s Some by blast
    then have j: "lo \<le> j" "j \<le> k" "k \<le> j + length (pkt_data p)" "placed S b j p"
      "pkt_data p \<noteq> []" "j + length (pkt_data p) \<le> hi" by simp_all
    note cmp = placed_cmp [OF assms(2) j(4) assms(4,5) j(1) j(6) lh(2)]
    have p: "p \<in> set q" using q Some by simp
    show ?thesis
    proof (cases "k < j + length (pkt_data p)")
      case True
      have c: "span b skb \<subseteq> span b p" "k + length (pkt_data skb) \<le> j + length (pkt_data p)"
        using contained [OF assms(9) p j(4) assms(2) j(2) True assms(3)] assms by auto
      then have "ofo_place e skb q = q" using d Some True cmp by (simp add: ofo_place_def)
      moreover have "span b skb \<subseteq> cov b q" using c p by (auto simp: cov_def)
      ultimately show ?thesis using inserted_same by simp
    next
      case False
      then have k: "k = j + length (pkt_data p)" using j by simp
      have "ofo_place e skb q = a @ tcp_nip_coalesce p skb # r" using d Some False cmp(2) by (simp add: ofo_place_def)
      moreover have "span b (tcp_nip_coalesce p skb) = span b p \<union> span b skb"
        using coalesce_span [OF j(4) assms(2) [unfolded k]] j assms by auto
      ultimately show ?thesis using q Some inserted_merge by simp
    qed
  qed
qed

lemma ofo_insert_cov:
  assumes "ofo_ok S b lo hi q" "placed S b k skb" "pkt_data skb \<noteq> []" "lo \<le> k" "k + length (pkt_data skb) \<le> hi" "hi \<le> 2 ^ 30"
    and "inorder (rb_shape e q) = q" "merges_cleanly e skb q" "aligned b skb q"
  shows "inserted b skb q (ofo_insert e skb q)"
proof (cases "q = []")
  case True
  then show ?thesis using inserted_put [of b skb "[]" "[]"] by (simp add: ofo_insert_def)
next
  case False
  have lh: "lo \<le> hi" "hi \<le> lo + 2 ^ 30" using assms by simp_all
  have q: "q = butlast q @ [last q]" using False by simp
  have lq: "last q \<in> set q" using False by simp
  obtain m j where "lo \<le> m" "m \<le> j" and j': "placed S b j (last q)" "pkt_data (last q) \<noteq> []" "j + length (pkt_data (last q)) \<le> hi"
    using assms(1) ofo_ok_append [OF lh(1), of S b "butlast q" "[last q]"] q by auto
  then have j: "lo \<le> j" "placed S b j (last q)" "pkt_data (last q) \<noteq> []" "j + length (pkt_data (last q)) \<le> hi" by simp_all
  note cmp = placed_cmp [OF assms(2) j(2) assms(4,5) j(1,4) lh(2)]
  have put: "inserted b skb q (q @ [skb])" using inserted_put [of b skb q "[]"] by simp
  consider "coalesces e (last q) skb" | "\<not> coalesces e (last q) skb" "j + length (pkt_data (last q)) \<le> k"
    | "\<not> coalesces e (last q) skb" "j \<le> k" "k < j + length (pkt_data (last q))" | "\<not> coalesces e (last q) skb" "k < j" by linarith
  then show ?thesis
  proof cases
    case 1
    then have "k = j + length (pkt_data (last q))" using cmp(7) by (simp add: coalesces_def)
    then have "span b (tcp_nip_coalesce (last q) skb) = span b (last q) \<union> span b skb"
      using coalesce_span [OF j(2)] assms(2,6) j(4) by simp
    then have "inserted b skb (butlast q @ [last q]) (butlast q @ [tcp_nip_coalesce (last q) skb])" by (rule inserted_merge)
    then show ?thesis using 1 False q by (simp add: ofo_insert_def Let_def)
  next
    case 2
    then show ?thesis using put cmp False by (simp add: ofo_insert_def Let_def)
  next
    case 3
    have c: "span b skb \<subseteq> span b (last q)" "k + length (pkt_data skb) \<le> j + length (pkt_data (last q))"
      using contained [OF assms(9) lq j(2) assms(2) 3(2,3) assms(3)] assms by auto
    then have "ofo_insert e skb q = q" using 3 cmp False by (simp add: ofo_insert_def Let_def)
    moreover have "span b skb \<subseteq> cov b q" using c lq by (auto simp: cov_def)
    ultimately show ?thesis using inserted_same by simp
  next
    case 4
    then have "ofo_insert e skb q = ofo_place e skb q" using cmp False by (simp add: ofo_insert_def Let_def)
    then show ?thesis using ofo_place_cov [OF assms] by simp
  qed
qed

lemma ofo_queue_loop_seen:
  assumes "rq_ok S b c n (rcv_queue sk)" "rcv_nxt sk = b + of_nat n" "ofo_ok S b lo hi q" "hi \<le> 2 ^ 30" "n \<le> hi"
  shows "upto_nxt b sk \<union> cov b q \<subseteq> upto_nxt b (ofo_queue_loop e q sk) \<union> cov b (ofo_queue (ofo_queue_loop e q sk)) \<and>
    upto_nxt b sk \<subseteq> upto_nxt b (ofo_queue_loop e q sk) \<and> set (ofo_queue (ofo_queue_loop e q sk)) \<subseteq> set q"
  using assms
proof (induction q arbitrary: sk n lo)
  case Nil
  then show ?case by (simp add: upto_nxt_def)
next
  case (Cons skb q)
  obtain k where k: "lo \<le> k" "placed S b k skb" "pkt_data skb \<noteq> []" "k + length (pkt_data skb) \<le> hi"
    and q: "ofo_ok S b (k + length (pkt_data skb)) hi q" using Cons.prems by auto
  have sp: "span b skb = {k..<k + length (pkt_data skb)}" using placed_span [OF k(2)] k Cons.prems by simp
  have up: "upto_nxt b sk = {..<n}" using upto_nxt_is Cons.prems by simp
  have a: "after (pkt_seq skb) (rcv_nxt sk) \<longleftrightarrow> n < k"
    using Cons.prems k before_of_nat [of n k b] by (simp add: placed_def)
  have f: "after (pkt_end_seq skb) (rcv_nxt sk) \<longleftrightarrow> n < k + length (pkt_data skb)"
    using Cons.prems k before_of_nat [of n "k + length (pkt_data skb)" b] by (simp add: placed_def)
  consider "n < k" | "k + length (pkt_data skb) \<le> n" | "k \<le> n" "n < k + length (pkt_data skb)" by linarith
  then show ?case
  proof cases
    case 1
    then show ?thesis using a by (simp add: upto_nxt_def)
  next
    case 2
    have "span b skb \<subseteq> upto_nxt b sk" using 2 sp up by auto
    then show ?thesis using 2 a f Cons.IH [OF Cons.prems(1,2) q Cons.prems(4,5)] k by auto
  next
    case 3
    define sk' where "sk' = sk\<lparr>rcv_queue := append_skb e skb (rcv_queue sk), rcv_nxt := pkt_end_seq skb\<rparr>"
    have "rq_ok S b c (k + length (pkt_data skb)) (rcv_queue sk')"
      using append_skb_ok [OF Cons.prems(1) k(2) 3 _ rq_ok_last [OF Cons.prems(1)]] 3 Cons.prems k by (simp add: sk'_def)
    moreover have nx: "rcv_nxt sk' = b + of_nat (k + length (pkt_data skb))" using k(2) by (simp only: sk'_def placed_def) simp
    ultimately have IH: "upto_nxt b sk' \<union> cov b q \<subseteq> upto_nxt b (ofo_queue_loop e q sk') \<union> cov b (ofo_queue (ofo_queue_loop e q sk')) \<and>
      upto_nxt b sk' \<subseteq> upto_nxt b (ofo_queue_loop e q sk') \<and> set (ofo_queue (ofo_queue_loop e q sk')) \<subseteq> set q"
      using Cons.IH [OF _ _ q Cons.prems(4) k(4)] by blast
    have "upto_nxt b sk' = {..<k + length (pkt_data skb)}" using upto_nxt_is [OF nx] k Cons.prems by simp
    then have "upto_nxt b sk \<union> span b skb \<subseteq> upto_nxt b sk'" using 3 up sp by auto
    moreover have "ofo_queue_loop e (skb # q) sk = ofo_queue_loop e q sk'"
      using 3 a f k(2) by (simp add: sk'_def Let_def placed_def)
    ultimately show ?thesis using IH by auto
  qed
qed


lemma queue_in_order_seen:
  assumes "receiving S b c n hi sk" "placed S b k skb" "k \<le> n" "n < k + length (pkt_data skb)" "k + length (pkt_data skb) \<le> hi" "hi \<le> 2 ^ 29"
  shows "upto_nxt b sk \<union> cov b (ofo_queue sk) \<union> span b skb
      \<subseteq> upto_nxt b (queue_in_order e skb sk) \<union> cov b (ofo_queue (queue_in_order e skb sk)) \<and>
    set (ofo_queue (queue_in_order e skb sk)) \<subseteq> set (ofo_queue sk)"
proof -
  note r = assms(1) [unfolded receiving_def]
  define p where "p = (if pkt_seq skb \<noteq> rcv_nxt sk then tcp_nip_overlap_handle (rcv_nxt sk) skb else skb)"
  define sk1 where "sk1 = inet_csk_schedule_ack (sk\<lparr>rcv_queue := rcv_queue sk @ [p], rcv_nxt := pkt_end_seq p\<rparr>)"
  have eq: "pkt_seq skb = rcv_nxt sk \<longleftrightarrow> k = n"
    using of_nat_eq_window [of k n b] assms(2-6) r by (simp add: placed_def)
  have p: "placed S b n p" "n + length (pkt_data p) = k + length (pkt_data skb)"
    using placed_overlap_handle [OF assms(2,3)] assms(2-6) r eq by (auto simp: p_def)
  have "rq_ok S b n (n + length (pkt_data p)) [p]" using p assms(4) by (auto intro!: exI [of _ n])
  then have q: "rq_ok S b c (k + length (pkt_data skb)) (rcv_queue sk1)"
    using r p(2) by (auto simp: sk1_def rq_ok_append inet_csk_schedule_ack_def)
  have nx: "rcv_nxt sk1 = b + of_nat (k + length (pkt_data skb))"
    using p by (simp only: placed_def sk1_def inet_csk_schedule_ack_def) simp
  have fin: "\<not> flag (pkt_flags p) TCPHDR_FIN" using p by (simp add: placed_def)
  have o: "ofo_ok S b (Suc n) hi (ofo_queue sk1)" and oq: "ofo_queue sk1 = ofo_queue sk"
    using r by (simp_all add: sk1_def inet_csk_schedule_ack_def)
  have e1: "queue_in_order e skb sk = ofo_queue_loop e (ofo_queue sk1) sk1"
    using fin by (simp add: queue_in_order_def Let_def p_def sk1_def tcp_nip_ofo_queue_def inet_csk_schedule_ack_def)
  have "upto_nxt b sk = {..<n}" "upto_nxt b sk1 = {..<k + length (pkt_data skb)}"
    using upto_nxt_is [OF nx] upto_nxt_is [of sk b n] r assms(4-6) by simp_all
  moreover have "span b skb = {k..<k + length (pkt_data skb)}" using placed_span [OF assms(2)] assms(5,6) by simp
  ultimately have "upto_nxt b sk \<union> span b skb \<subseteq> upto_nxt b sk1" using assms(4) by auto
  then show ?thesis
    using ofo_queue_loop_seen [OF q nx o _ assms(5), of e] assms(6) unfolding e1 oq by auto
qed

text \<open>What one segment of the stream leaves: everything that had arrived, and the segment.\<close>

definition arrived :: "u32 \<Rightarrow> nat set \<Rightarrow> tcp_nip_sock \<Rightarrow> bool" where
  "arrived b A sk \<longleftrightarrow> A \<subseteq> upto_nxt b sk \<union> cov b (ofo_queue sk)"

lemma data_queue_arrived:
  assumes "receiving S b c n hi sk" "placed S b k skb" "k + length (pkt_data skb) \<le> hi" "hi \<le> 2 ^ 29" "\<not> rmem_full e"
    and "inorder (rb_shape e (ofo_queue sk)) = ofo_queue sk" "merges_cleanly e skb (ofo_queue sk)" "aligned b skb (ofo_queue sk)"
    and "arrived b A sk"
  shows "arrived b (A \<union> span b skb) (tcp_nip_data_queue e skb sk) \<and>
    (\<forall>x \<in> set (ofo_queue (tcp_nip_data_queue e skb sk)). x \<in> set (ofo_queue sk) \<or> x = skb \<or>
      (\<exists>p \<in> set (ofo_queue sk). span b x = span b p \<union> span b skb))"
proof -
  define sk1 where "sk1 = sk\<lparr>snd_up := discard_count e skb sk\<rparr>"
  have s1: "ofo_queue sk1 = ofo_queue sk" "upto_nxt b sk1 = upto_nxt b sk" "rcv_nxt sk1 = rcv_nxt sk"
    "ofo_queue (inet_csk_schedule_ack x) = ofo_queue x" "upto_nxt b (inet_csk_schedule_ack x) = upto_nxt b x" for x
    by (simp_all add: sk1_def upto_nxt_def inet_csk_schedule_ack_def)
  have r1: "receiving S b c n hi sk1" using assms(1) by (simp add: receiving_def sk1_def)
  note r = assms(1) [unfolded receiving_def]
  note win = receive_window_is [OF assms(1)]
  note p = assms(2) [unfolded placed_def]
  have nz: "pkt_seq skb = pkt_end_seq skb \<longleftrightarrow> pkt_data skb = []"
    using p of_nat_eq_window [of k "k + length (pkt_data skb)" b] assms(3,4) by simp
  have hi: "before (pkt_seq skb) (rcv_nxt sk + tcp_receive_window sk) \<longleftrightarrow> k < hi"
    using p r before_of_nat [of k hi b] assms(3,4) unfolding win by simp
  have eh: "after (pkt_end_seq skb) (rcv_nxt sk + tcp_receive_window sk) \<longleftrightarrow> hi < k + length (pkt_data skb)"
    using p r before_of_nat [of hi "k + length (pkt_data skb)" b] assms(3,4) unfolding win by simp
  have en: "after (pkt_end_seq skb) (rcv_nxt sk) \<longleftrightarrow> n < k + length (pkt_data skb)"
    using p r before_of_nat [of n "k + length (pkt_data skb)" b] assms(3,4) by simp
  have sn: "before (pkt_seq skb) (rcv_nxt sk) \<longleftrightarrow> k < n" "pkt_seq skb = rcv_nxt sk \<longleftrightarrow> k = n"
    using p r before_of_nat [of k n b] of_nat_eq_window [of k n b] assms(3,4) by simp_all
  have w0: "tcp_receive_window sk = 0 \<longleftrightarrow> hi = n"
    unfolding win(1) using of_nat_eq_window [of hi n 0] r by simp
  note dq = tcp_nip_data_queue_def [of e skb sk, unfolded Let_def sk1_def [symmetric] s1(3) nz sn hi en eh w0]
  have sp: "span b skb = {k..<k + length (pkt_data skb)}" using placed_span [OF assms(2)] assms(3,4) by simp
  have up: "upto_nxt b sk = {..<n}" using upto_nxt_is [of sk b n] r assms(4) by simp
  consider "pkt_data skb = [] \<or> k + length (pkt_data skb) \<le> n"
    | "pkt_data skb \<noteq> []" "k \<le> n" "n < k + length (pkt_data skb)"
    | "pkt_data skb \<noteq> []" "n < k" by linarith
  then show ?thesis
  proof cases
    case 1
    then have "tcp_nip_data_queue e skb sk \<in> {sk1, inet_csk_schedule_ack sk1}" unfolding dq by auto
    then have "ofo_queue (tcp_nip_data_queue e skb sk) = ofo_queue sk" "upto_nxt b (tcp_nip_data_queue e skb sk) = upto_nxt b sk"
      using s1 by auto
    moreover have "span b skb \<subseteq> upto_nxt b sk" using 1 sp up by auto
    ultimately show ?thesis using assms(9) by (auto simp: arrived_def)
  next
    case 2
    have "tcp_nip_data_queue e skb sk = queue_in_order e skb sk1" using 2 assms(3) unfolding dq by auto
    then show ?thesis
      using queue_in_order_seen [OF r1 assms(2) 2(2,3) assms(3,4), of e] assms(9) s1 by (auto simp: arrived_def)
  next
    case 3
    have l: "Suc n \<le> k" "k < hi" "hi \<le> 2 ^ 30" using 3 assms(3,4) by (cases "pkt_data skb"; simp)+
    have i: "inserted b skb (ofo_queue sk) (ofo_insert e skb (ofo_queue sk))"
      using r ofo_insert_cov [OF _ assms(2) 3(1) l(1) assms(3) l(3) assms(6-8)] by blast
    have "tcp_nip_data_queue e skb sk = tcp_nip_data_queue_ofo e skb sk1" using 3 l assms(3) unfolding dq by auto
    then have d: "tcp_nip_data_queue e skb sk = (inet_csk_schedule_ack sk1)\<lparr>ofo_queue := ofo_insert e skb (ofo_queue sk)\<rparr>"
      by (simp only: tcp_nip_data_queue_ofo_def assms(5) if_False s1(1))
    have "upto_nxt b (tcp_nip_data_queue e skb sk) = upto_nxt b sk"
      unfolding d using s1(2,5) by (simp add: upto_nxt_def)
    then show ?thesis using i assms(9) unfolding d by (auto simp: arrived_def inserted_def)
  qed
qed

section \<open>Packets of one message\<close>

definition core_span :: "u32 \<Rightarrow> u32 \<times> u32 \<times> u8 \<times> bytes \<Rightarrow> nat set" where
  "core_span b x = (case x of (seq, end_seq, fl, d) \<Rightarrow> {unat (seq - b)..<unat (seq - b) + length d})"

lemma span_core: "span b p = core_span b (pkt_core p)"
  by (simp add: span_def core_span_def pkt_core_def Let_def)

lemma chain_spans:
  assumes "chain (a + of_nat j) bs q" "j + length bs \<le> 2 ^ 30"
  shows "(\<Union>x \<in> set q. core_span a x) = {j..<j + length bs} \<and>
    (\<forall>x \<in> set q. \<forall>y \<in> set q. x = y \<or> core_span a x \<inter> core_span a y = {})"
  using assms
proof (induction q arbitrary: j bs)
  case (Cons x q)
  obtain seq0 end0 fl0 d0 where x: "x = (seq0, end0, fl0, d0)" by (metis prod_cases4)
  obtain bs' where h: "seq0 = a + of_nat j" "end0 = a + of_nat (j + length d0)" "bs = d0 @ bs'" "chain end0 bs' q"
    using Cons.prems(1) by (auto simp: x ac_simps)
  have s: "core_span a x = {j..<j + length d0}"
    using unat_of_nat_small [of j] Cons.prems(2) by (simp add: core_span_def x h(1))
  have IH: "(\<Union>y \<in> set q. core_span a y) = {j + length d0..<j + length bs} \<and>
      (\<forall>x \<in> set q. \<forall>y \<in> set q. x = y \<or> core_span a x \<inter> core_span a y = {})"
    using Cons.IH [of "j + length d0" bs'] h Cons.prems(2) by (simp add: add.assoc)
  have dj: "core_span a x \<inter> core_span a y = {}" if "y \<in> set q" for y
  proof -
    have "core_span a y \<subseteq> {j + length d0..<j + length bs}" using IH that by auto
    then show ?thesis unfolding s by fastforce
  qed
  have "{j..<j + length bs} = {j..<j + length d0} \<union> {j + length d0..<j + length bs}" using h(3) by auto
  then have "(\<Union>y \<in> set (x # q). core_span a y) = {j..<j + length bs}" using IH s by simp
  moreover have "y = z \<or> core_span a y \<inter> core_span a z = {}" if "y \<in> set (x # q)" "z \<in> set (x # q)" for y z
    using that IH dj [of y] dj [of z] by (cases "y = x"; cases "z = x") (simp_all add: Int_commute)
  ultimately show ?case by blast
qed simp

text \<open>The packets of a message do not overlap; in the queue they lie as a whole or merged with others.\<close>

definition fits :: "u32 \<Rightarrow> (u32 \<times> u32 \<times> u8 \<times> bytes) set \<Rightarrow> tcp_skb list \<Rightarrow> bool" where
  "fits b Q q \<longleftrightarrow> (\<forall>x \<in> set q. \<forall>y \<in> Q. span b x \<inter> core_span b y = {} \<or> core_span b y \<subseteq> span b x)"

lemma fits_aligned: "fits b Q q \<Longrightarrow> pkt_core p \<in> Q \<Longrightarrow> aligned b p q"
  by (simp add: fits_def aligned_def span_core [of b p])

lemma fits_step:
  assumes "fits b Q q" "\<forall>x \<in> Q. \<forall>y \<in> Q. x = y \<or> core_span b x \<inter> core_span b y = {}" "pkt_core p \<in> Q"
    "\<forall>x \<in> set q'. x \<in> set q \<or> x = p \<or> (\<exists>y \<in> set q. span b x = span b y \<union> span b p)"
  shows "fits b Q q'"
  unfolding fits_def
proof (intro ballI)
  fix x y assume x: "x \<in> set q'" and y: "y \<in> Q"
  have "pkt_core p = y \<or> core_span b (pkt_core p) \<inter> core_span b y = {}" using assms(2,3) y by blast
  then have p: "span b p \<inter> core_span b y = {} \<or> core_span b y \<subseteq> span b p" by (auto simp: span_core)
  consider "x \<in> set q" | "x = p" | z where "z \<in> set q" "span b x = span b z \<union> span b p" using assms(4) x by blast
  then show "span b x \<inter> core_span b y = {} \<or> core_span b y \<subseteq> span b x"
  proof cases
    case 3
    then have "span b z \<inter> core_span b y = {} \<or> core_span b y \<subseteq> span b z" using assms(1) y by (simp add: fits_def)
    then show ?thesis using 3(2) p by auto
  qed (use assms(1) y p in \<open>auto simp: fits_def\<close>)
qed

text \<open>A packet that is not yet there, even in part, merges cleanly.\<close>

lemma merges_cleanly_fresh:
  assumes "ofo_ok S b lo hi q" "placed S b k skb" "k + length (pkt_data skb) \<le> hi" "hi \<le> 2 ^ 30" "cov b q \<inter> span b skb = {}"
  shows "merges_cleanly e skb q"
proof -
  have "\<not> before (pkt_seq x) (pkt_seq skb) \<longrightarrow> \<not> before (pkt_seq x) (pkt_end_seq skb)" if x: "x \<in> set q" for x
  proof -
    obtain j where j: "placed S b j x" "pkt_data x \<noteq> []" "j + length (pkt_data x) \<le> hi"
      using assms(1) x by (induction q arbitrary: lo) auto
    note cmp = placed_cmp [OF assms(2) j(1) le0 assms(3) le0 j(3)]
    have s: "span b x = {j..<j + length (pkt_data x)}" "span b skb = {k..<k + length (pkt_data skb)}"
      using placed_span [OF j(1)] placed_span [OF assms(2)] assms(3,4) j(3) by auto
    have "j \<in> cov b q" using x s j(2) by (auto simp: cov_def)
    then have "j \<notin> span b skb" using assms(5) by blast
    then show ?thesis using cmp(5,6) s assms(4) by auto
  qed
  then show ?thesis by (simp add: merges_cleanly_def)
qed

text \<open>Every packet of the message has its copies in arr, in any order: everything arrives. When packets
  merge, each comes once; when they do not, any number of times.\<close>

lemma arrivals_arrive:
  assumes "receiving S b c n hi rk" "hi \<le> 2 ^ 29" "\<not> rmem_full e" "\<forall>q. inorder (rb_shape e q) = q"
    and Q: "\<forall>x \<in> Q. \<forall>y \<in> Q. x = y \<or> core_span b x \<inter> core_span b y = {}"
    and arr: "\<forall>p \<in> set arr. pkt_core p \<in> Q \<and> (\<exists>k. placed S b k p \<and> k + length (pkt_data p) \<le> hi)"
    and once: "(\<forall>p q. \<not> can_coalesce e p q) \<or> distinct (map pkt_core arr) \<and> cov b (ofo_queue rk) \<inter> (\<Union>p \<in> set arr. span b p) = {}"
    and "fits b Q (ofo_queue rk)" "arrived b A rk"
  shows "\<exists>n' \<ge> n. receiving S b c n' hi (fold (tcp_nip_data_queue e) arr rk) \<and>
    arrived b (A \<union> (\<Union>p \<in> set arr. span b p)) (fold (tcp_nip_data_queue e) arr rk)"
  using assms(1,6-9)
proof (induction arr arbitrary: n rk A)
  case Nil
  then show ?case by auto
next
  case (Cons p arr)
  define rk1 where "rk1 = tcp_nip_data_queue e p rk"
  obtain k where k: "placed S b k p" "k + length (pkt_data p) \<le> hi" and pQ: "pkt_core p \<in> Q" using Cons.prems(2) by auto
  have nh: "n \<le> hi" and o: "ofo_ok S b (Suc n) hi (ofo_queue rk)" using Cons.prems(1) by (simp_all add: receiving_def)
  have m: "merges_cleanly e p (ofo_queue rk)"
  proof (cases "\<forall>p q. \<not> can_coalesce e p q")
    case True
    then show ?thesis by (simp add: merges_cleanly_def coalesces_def)
  next
    case False
    then show ?thesis using merges_cleanly_fresh [OF o k] Cons.prems(3) assms(2) by auto
  qed
  have t: "inorder (rb_shape e (ofo_queue rk)) = ofo_queue rk" using assms(4) by simp
  have al: "aligned b p (ofo_queue rk)" by (rule fits_aligned [OF Cons.prems(4) pQ])
  obtain n1 where n1: "n \<le> n1" "receiving S b c n1 hi rk1"
    using in_order_delivery_step [OF Cons.prems(1) k(1) _ _ t m] k(2) nh assms(2) unfolding rk1_def by auto
  have a: "arrived b (A \<union> span b p) rk1"
    and new: "\<forall>x \<in> set (ofo_queue rk1). x \<in> set (ofo_queue rk) \<or> x = p \<or> (\<exists>y \<in> set (ofo_queue rk). span b x = span b y \<union> span b p)"
    using data_queue_arrived [OF Cons.prems(1) k assms(2,3) t m al Cons.prems(5)] unfolding rk1_def by blast+
  have f: "fits b Q (ofo_queue rk1)" by (rule fits_step [OF Cons.prems(4) Q pQ new])
  have once1: "(\<forall>p q. \<not> can_coalesce e p q) \<or> distinct (map pkt_core arr) \<and> cov b (ofo_queue rk1) \<inter> (\<Union>p \<in> set arr. span b p) = {}"
  proof (cases "\<forall>p q. \<not> can_coalesce e p q")
    case False
    then have d: "distinct (map pkt_core arr)" "pkt_core p \<notin> pkt_core ` set arr" "cov b (ofo_queue rk) \<inter> (\<Union>p \<in> set arr. span b p) = {}"
      using Cons.prems(3) by auto
    have "span b p \<inter> span b x = {}" if "x \<in> set arr" for x
      using Q pQ Cons.prems(2) that d(2) by (fastforce simp: span_core)
    moreover have "cov b (ofo_queue rk1) \<subseteq> cov b (ofo_queue rk) \<union> span b p" using new by (auto simp: cov_def)
    ultimately show ?thesis using d by blast
  qed simp
  have "\<exists>n' \<ge> n1. receiving S b c n' hi (fold (tcp_nip_data_queue e) arr rk1) \<and>
      arrived b ((A \<union> span b p) \<union> (\<Union>p \<in> set arr. span b p)) (fold (tcp_nip_data_queue e) arr rk1)"
    by (rule Cons.IH [OF n1(2) _ once1 f a]) (use Cons.prems(2) in simp)
  then obtain n' where "n1 \<le> n'" "receiving S b c n' hi (fold (tcp_nip_data_queue e) arr rk1)"
    "arrived b ((A \<union> span b p) \<union> (\<Union>p \<in> set arr. span b p)) (fold (tcp_nip_data_queue e) arr rk1)" by blast
  then show ?case using n1(1) by (intro exI [of _ n']) (simp add: rk1_def Un_assoc)
qed

lemma arrivals_delivered:
  assumes "receiving S b 0 0 hi rk" "hi \<le> 2 ^ 29" "\<not> rmem_full e" "\<forall>q. inorder (rb_shape e q) = q" "ofo_queue rk = []"
    "chain b bs cs" "length bs \<le> hi"
    "\<forall>p \<in> set arr. \<exists>k. placed S b k p \<and> k + length (pkt_data p) \<le> hi"
    "pkt_core ` set arr = set cs" "(\<forall>p q. \<not> can_coalesce e p q) \<or> distinct (map pkt_core arr)"
  shows "\<exists>n'. receiving S b 0 n' hi (fold (tcp_nip_data_queue e) arr rk) \<and> length bs \<le> n'"
proof -
  have Q: "(\<Union>x \<in> set cs. core_span b x) = {0..<length bs}" "\<forall>x \<in> set cs. \<forall>y \<in> set cs. x = y \<or> core_span b x \<inter> core_span b y = {}"
    using chain_spans [of b 0 bs cs] assms by auto
  obtain n' where n': "receiving S b 0 n' hi (fold (tcp_nip_data_queue e) arr rk)"
    and a: "arrived b (\<Union>p \<in> set arr. span b p) (fold (tcp_nip_data_queue e) arr rk)"
    using arrivals_arrive [OF assms(1-4) Q(2), of arr "{}"] assms(5,8,9,10) by (auto simp: fits_def arrived_def)
  have "(\<Union>p \<in> set arr. span b p) = {0..<length bs}" unfolding span_core Q(1) [symmetric] assms(9) [symmetric] by simp
  then have s: "{0..<length bs} \<subseteq> upto_nxt b (fold (tcp_nip_data_queue e) arr rk) \<union> cov b (ofo_queue (fold (tcp_nip_data_queue e) arr rk))"
    using a by (simp add: arrived_def)
  have r: "rcv_nxt (fold (tcp_nip_data_queue e) arr rk) = b + of_nat n'" "n' \<le> 2 ^ 30" "hi \<le> 2 ^ 30"
    "ofo_ok S b (Suc n') hi (ofo_queue (fold (tcp_nip_data_queue e) arr rk))"
    using n' assms(2) by (simp_all add: receiving_def)
  have "upto_nxt b (fold (tcp_nip_data_queue e) arr rk) = {..<n'}" "cov b (ofo_queue (fold (tcp_nip_data_queue e) arr rk)) \<subseteq> {Suc n'..<hi}"
    using upto_nxt_is [OF r(1,2)] ofo_ok_cov [OF r(4,3)] by blast+
  then have "n' \<notin> {0..<length bs}" using s by force
  then show ?thesis using n' by auto
qed

section \<open>From the sender's user to the receiver's\<close>

lemma chain_placed:
  assumes "chain (a + of_nat j) (drop j msg) q" "j \<le> length msg" "(seq, end_seq, fl, d) \<in> set q" "pkt_core p = (seq, end_seq, fl, d)"
  shows "\<exists>k. placed (\<lambda>i. msg ! i) a k p \<and> k + length (pkt_data p) \<le> length msg"
  using assms(1-3)
proof (induction q arbitrary: j)
  case (Cons x q)
  obtain seq0 end0 fl0 d0 where x: "x = (seq0, end0, fl0, d0)" by (metis prod_cases4)
  obtain bs' where h: "seq0 = a + of_nat j" "end0 = a + of_nat (j + length d0)" "\<not> flag fl0 TCPHDR_FIN" "\<not> flag fl0 TCPHDR_SYN"
    "drop j msg = d0 @ bs'" "chain end0 bs' q" using Cons.prems(1) by (auto simp: x ac_simps)
  have l: "j + length d0 \<le> length msg" "bs' = drop (j + length d0) msg"
  proof -
    have "length (drop j msg) = length d0 + length bs'" by (simp only: h(5) length_append)
    then show "j + length d0 \<le> length msg" using Cons.prems(2) by simp
    have "drop (length d0) (drop j msg) = bs'" by (simp only: h(5)) simp
    then show "bs' = drop (j + length d0) msg" by (simp add: add.commute)
  qed
  show ?case
  proof (cases "(seq, end_seq, fl, d) \<in> set q")
    case True
    then show ?thesis using Cons.IH [of "j + length d0"] h l by simp
  next
    case False
    then have e: "(seq, end_seq, fl, d) = (seq0, end0, fl0, d0)" using Cons.prems(3) x by simp
    have "d0 = take (length d0) (drop j msg)" by (simp only: h(5)) simp
    also have "\<dots> = map (\<lambda>i. msg ! i) [j..<j + length d0]"
      using l(1) by (intro nth_equalityI) simp_all
    finally show ?thesis using e h l(1) assms(4) by (intro exI [of _ j]) (simp add: placed_def pkt_core_def)
  qed
qed simp

lemma data_queue_err: "sk_err (tcp_nip_data_queue e skb sk) = sk_err sk"
proof -
  have ack: "sk_err (tcp_nip_send_ack e x) = sk_err x" for x using send_ack_same [of x e] by (simp add: wq_same_def)
  have fin: "sk_err (tcp_nip_fin e x) = sk_err x" for x
    by (simp add: tcp_nip_fin_def Let_def ack inet_csk_schedule_ack_def inet_csk_reset_keepalive_timer_def split: tcp_state.split)
  have loop: "sk_err (ofo_queue_loop e q x) = sk_err x" for q x
    by (induction q arbitrary: x) (simp_all add: Let_def fin)
  have q: "sk_err (queue_in_order e skb x) = sk_err x" for x
    by (simp add: queue_in_order_def Let_def tcp_nip_ofo_queue_def loop fin inet_csk_schedule_ack_def)
  show ?thesis by (simp add: tcp_nip_data_queue_def tcp_nip_data_queue_ofo_def Let_def q inet_csk_schedule_ack_def)
qed

lemma data_queue_fold_err: "sk_err (fold (tcp_nip_data_queue e) arr sk) = sk_err sk"
  by (induction arr arbitrary: sk) (simp_all add: data_queue_err)

lemma data_queue_fold_state:
  "sk_state sk \<noteq> TCP_LISTEN \<Longrightarrow> sk_state (fold (tcp_nip_data_queue e) arr sk) \<noteq> TCP_LISTEN"
proof (induction arr arbitrary: sk)
  case (Cons p arr)
  have fn: "fin_next (sk_state sk) \<noteq> TCP_LISTEN" using Cons.prems by (cases "sk_state sk") (simp_all add: fin_next_def)
  have "sk_state (tcp_nip_data_queue e p sk) \<noteq> TCP_LISTEN" using data_queue_state [of e p sk] Cons.prems fn by force
  from Cons.IH [OF this] show ?case by simp
qed simp

lemma rq_ok_length: "rq_ok S b c n q \<Longrightarrow> p \<in> set q \<Longrightarrow> length (pkt_data p) \<le> n"
proof (induction q arbitrary: c)
  case (Cons x q)
  obtain k where k: "rq_ok S b (k + length (pkt_data x)) n q" using Cons.prems(1) by auto
  have "k + length (pkt_data x) \<le> n" using readable_ok [OF k] by simp
  moreover have "p \<in> set q \<Longrightarrow> length (pkt_data p) \<le> n" by (rule Cons.IH [OF k])
  ultimately show ?case using Cons.prems(2) by (cases "p = x") simp_all
qed simp

text \<open>C2: From user to user. A message given to tcp_nip_sendmsg becomes packets of the write queue. Let
  copies of them reach a peer that has seen nothing of the message yet, each at least once, in any order
  whatever; the message fits the window offered, and the peer has room for the packets out of order. Then the peer's
  tcp_nip_recvmsg returns exactly the message. A packet may arrive any number of times when the peer merges no
  packets (tcp_nip_try_coalesce refuses); when it merges some, each arrives once: a second copy could meet the
  packets a merge has covered, see merge_keeps_covered.\<close>

theorem message_arrives:
  assumes sender: "sending a [] sk" "sk_state sk \<in> {TCP_ESTABLISHED, TCP_CLOSE_WAIT}" "sk_err sk = 0" "\<not> snd_shutdown sk"
      "sint (fst (tcp_nip_current_mss e sk)) > 0" "room (fst (tcp_nip_current_mss e sk)) > 0"
    and receiver: "receiving (\<lambda>i. msg ! i) a 0 0 hi rk" "length msg \<le> hi" "hi \<le> 2 ^ 29" "sk_err rk \<ge> 0" "sk_state rk \<noteq> TCP_LISTEN"
      "ofo_queue rk = []" "\<forall>q. inorder (rb_shape e' q) = q" "\<not> rmem_full e'"
    and call: "\<not> msg_peek r" "\<not> msg_trunc r" "\<forall>i. \<not> copy_fails r i" "intr_errno r < 0" "\<not> has_backlog cond" "rcv_target r \<le> length msg"
  shows "\<exists>sk'. tcp_nip_sendmsg e room connect (replicate (length msg) (Packet True)) msg sk = Some (int (length msg), False, sk') \<and>
    (\<forall>arr. pkt_core ` set arr = set (wq sk') \<and> ((\<forall>p q. \<not> can_coalesce e' p q) \<or> distinct (map pkt_core arr)) \<longrightarrow>
      (\<exists>rk'. tcp_nip_recvmsg e' r [] cond (length msg) (fold (tcp_nip_data_queue e') arr rk) = Some (int (length msg), msg, rk')))"
proof -
  let ?S = "\<lambda>i. msg ! i"
  obtain sk' where send: "tcp_nip_sendmsg e room connect (replicate (length msg) (Packet True)) msg sk = Some (int (length msg), False, sk')"
    and q: "sending a msg sk'" using sendmsg_takes_all [where msg = msg and k = "length msg" and connect = connect and e = e and room = room and sk = sk and a = a and bs = "[]", OF sender(2-6) order_refl sender(1)] by auto
  have ch: "chain a msg (wq sk')" using q by (simp add: sending_def)
  have "\<exists>rk'. tcp_nip_recvmsg e' r [] cond (length msg) (fold (tcp_nip_data_queue e') arr rk) = Some (int (length msg), msg, rk')"
    if arr: "pkt_core ` set arr = set (wq sk')" "(\<forall>p q. \<not> can_coalesce e' p q) \<or> distinct (map pkt_core arr)" for arr
  proof -
    define rk1 where "rk1 = fold (tcp_nip_data_queue e') arr rk"
    have pl: "\<exists>k. placed ?S a k p \<and> k + length (pkt_data p) \<le> hi" if p: "p \<in> set arr" for p
    proof -
      obtain s1 s2 s3 s4 where c: "pkt_core p = (s1, s2, s3, s4)" by (metis prod_cases4)
      have "chain (a + of_nat 0) (drop 0 msg) (wq sk')" using ch by simp
      moreover have "(s1, s2, s3, s4) \<in> set (wq sk')" using arr(1) p c by force
      ultimately obtain k where "placed ?S a k p" "k + length (pkt_data p) \<le> length msg"
        using chain_placed [of a 0 msg "wq sk'" s1 s2 s3 s4 p] c by auto
      then show ?thesis using receiver(2) le_trans by blast
    qed
    obtain n where n: "receiving ?S a 0 n hi rk1" "length msg \<le> n"
      using arrivals_delivered [OF receiver(1,3,8,7,6) ch receiver(2) _ arr] pl unfolding rk1_def by blast
    have nh: "n \<le> hi" using n(1) by (simp add: receiving_def)
    have "reading ?S a 0 n rk1"
      using n(1) rq_ok_length [of ?S a 0 n "rcv_queue rk1"] nh receiver(3,4) data_queue_fold_err [of e' arr rk]
      by (fastforce simp: reading_def receiving_def rk1_def)
    moreover have "sk_state rk1 \<noteq> TCP_LISTEN" using data_queue_fold_state receiver(5) by (simp add: rk1_def)
    moreover have "map ?S [0..<length msg] = msg" by (rule map_nth)
    ultimately show ?thesis
      using recvmsg_step [of ?S a 0 n rk1 r "[]" e' cond "length msg"] call n(2) unfolding rk1_def [symmetric] by (auto simp: min_absorb1)
  qed
  then show ?thesis using send by blast
qed

text \<open>Five bytes in packets of two, the packets arriving last to first.\<close>

lemma message_arrives_witness:
  "\<exists>sk' rk'. tcp_nip_sendmsg (ex_env\<lparr>cur_mss := 2\<rparr>) (\<lambda>_. 2) (0, \<lambda>sk. sk) (replicate 5 (Packet True)) [1, 2, 3, 4, 5]
      (zero_sock\<lparr>sk_state := TCP_ESTABLISHED, mss_cache := 2, tcp_header_len := 20, pmtu_cookie := 1500\<rparr>) = Some (5, False, sk') \<and>
    tcp_nip_recvmsg ex_env ex_read [] ex_cond 5
      (fold (tcp_nip_data_queue ex_env) (rev (rtx_queue sk' @ send_queue sk'))
        (zero_sock\<lparr>sk_state := TCP_ESTABLISHED, rcv_wnd := 100\<rparr>)) = Some (5, [1, 2, 3, 4, 5], rk')"
proof -
  define sk where "sk = zero_sock\<lparr>sk_state := TCP_ESTABLISHED, mss_cache := 2, tcp_header_len := 20, pmtu_cookie := 1500\<rparr>"
  define rk where "rk = zero_sock\<lparr>sk_state := TCP_ESTABLISHED, rcv_wnd := 100\<rparr>"
  define e where "e = ex_env\<lparr>cur_mss := 2\<rparr>"
  define msg where "msg = [1, 2, 3, 4, 5 :: u8]"
  have m: "fst (tcp_nip_current_mss e sk) = 2"
    by (simp add: sk_def e_def tcp_nip_current_mss_def ex_env_def zero_sock_def TCPHDR_LEN_def Let_def)
  have s: "sending 0 [] sk" "sk_state sk \<in> {TCP_ESTABLISHED, TCP_CLOSE_WAIT}" "sk_err sk = 0" "\<not> snd_shutdown sk"
    by (simp_all add: sending_def wq_def sk_def zero_sock_def)
  have r: "receiving (\<lambda>i. msg ! i) 0 0 0 100 rk" "sk_err rk \<ge> 0" "sk_state rk \<noteq> TCP_LISTEN" "ofo_queue rk = []"
    by (simp_all add: receiving_def rk_def zero_sock_def)
  have "inorder (foldr (\<lambda>p t. \<langle>\<langle>\<rangle>, p, t\<rangle>) q \<langle>\<rangle>) = q" for q :: "tcp_skb list" by (induction q) simp_all
  then have t: "\<forall>q. inorder (rb_shape ex_env q) = q" "\<not> rmem_full ex_env" "\<forall>p q. \<not> can_coalesce ex_env p q" by (simp_all add: ex_env_def)
  obtain sk' where a: "tcp_nip_sendmsg e (\<lambda>_. 2) (0, \<lambda>sk. sk) (replicate (length msg) (Packet True)) msg sk = Some (int (length msg), False, sk')"
    and b: "\<And>arr. pkt_core ` set arr = set (wq sk') \<Longrightarrow> (\<forall>p q. \<not> can_coalesce ex_env p q) \<or> distinct (map pkt_core arr) \<Longrightarrow>
      \<exists>rk'. tcp_nip_recvmsg ex_env ex_read [] ex_cond (length msg) (fold (tcp_nip_data_queue ex_env) arr rk) = Some (int (length msg), msg, rk')"
    using message_arrives [of 0 sk e "\<lambda>_. 2" msg 100 rk ex_env ex_read ex_cond "(0, \<lambda>sk. sk)", OF s _ _ r(1) _ _ r(2-4) t(1,2)] m
    by (auto simp: msg_def ex_read_def ex_cond_def)
  define q where "q = rtx_queue sk' @ send_queue sk'"
  have "pkt_core ` set (rev q) = set (wq sk')" by (simp add: wq_def q_def image_Un Un_commute)
  note b = b [OF this] t(3)
  have l: "length msg = 5" "int 5 = 5" by (simp_all add: msg_def)
  show ?thesis using a b unfolding l unfolding sk_def [symmetric] rk_def [symmetric] e_def [symmetric] q_def msg_def by blast
qed

end
