(* ===== verification/BestScan.thy ===== *)
theory BestScan
  imports Prelude
begin

text \<open>
  The interface of the hash chain searches: what a scan for the best socket promises, and what the lookups of
  TCP listeners and UDP sockets get from it. Interpreted in NinetHash and Udp on the loops of the code.
\<close>

section \<open>The choice of the best socket of a bucket\<close>

text \<open>
  A scan of a hash chain takes a score for each socket and returns one of those with the highest
  score above a lower limit. Both the listener table of TCP and the table of UDP are searched this
  way, and both searches look first into the bucket of the packet's address and then into the
  bucket of the wildcard address.
\<close>

locale best_scan =
  fixes scan :: "'p \<Rightarrow> ('s \<Rightarrow> int) \<Rightarrow> 's list \<Rightarrow> 's option" and low :: int
  assumes scan_Some: "scan p sc xs = Some x \<Longrightarrow> x \<in> set xs \<and> low < sc x \<and> (\<forall>y \<in> set xs. sc y \<le> sc x)"
    and scan_None: "scan p sc xs = None \<Longrightarrow> (\<forall>y \<in> set xs. sc y \<le> low)"
begin

lemma scan_complete: "y \<in> set xs \<Longrightarrow> low < sc y \<Longrightarrow> \<exists>x. scan p sc xs = Some x"
  using scan_None [of p sc xs] by (cases "scan p sc xs") force+

text \<open>Two scans, each over a bucket that holds every candidate of its score, find a candidate of the
  whole set whenever there is one, and the first scan decides when it has one.\<close>

lemma two_scans:
  assumes b1: "set b1 = {x \<in> A. k1 x}" and c1: "\<And>x. x \<in> A \<Longrightarrow> low < s1 x \<Longrightarrow> k1 x \<or> low < s2 x"
    and b2: "set b2 = {x \<in> A. k2 x}" and c2: "\<And>x. x \<in> A \<Longrightarrow> low < s2 x \<Longrightarrow> k2 x"
    and s: "\<And>x. x \<in> A \<Longrightarrow> low < s2 x \<Longrightarrow> low < s1 x"
    and r: "r = (case scan p1 s1 b1 of Some x \<Rightarrow> Some x | None \<Rightarrow> scan p2 s2 b2)"
  shows "(r = None \<longleftrightarrow> (\<forall>x \<in> A. s1 x \<le> low)) \<and>
    (\<forall>x. r = Some x \<longrightarrow> x \<in> A \<and> low < s1 x \<and> (\<forall>y \<in> A. k1 y \<and> low < s1 y \<longrightarrow> s1 y \<le> s1 x))"
proof (cases "scan p1 s1 b1")
  case (Some x)
  have "x \<in> A" "low < s1 x" "\<forall>y \<in> A. k1 y \<longrightarrow> s1 y \<le> s1 x" using scan_Some [OF Some] b1 by auto
  moreover have "r = Some x" using Some r by simp
  ultimately show ?thesis by (auto simp: not_le intro!: bexI [of _ x])
next
  case None
  then have n: "\<forall>y \<in> A. k1 y \<longrightarrow> s1 y \<le> low" using scan_None [OF None] b1 by auto
  have r2: "r = scan p2 s2 b2" using None r by simp
  show ?thesis
  proof (cases r)
    case None
    then have "\<forall>y \<in> A. k2 y \<longrightarrow> s2 y \<le> low" using scan_None [of p2 s2 b2] r2 b2 by auto
    then have "\<forall>y \<in> A. s1 y \<le> low" using n c1 c2 by (meson not_le)
    with None show ?thesis by auto
  next
    case (Some x)
    then have "x \<in> A" "low < s2 x" using scan_Some [of p2 s2 b2 x] r2 b2 by auto
    with Some s n show ?thesis by (auto simp: not_le [symmetric])
  qed
qed

end

end
