(* ===== verification/NinetHash.thy ===== *)
theory NinetHash
  imports NipAddr TcpSock BestScan
begin

text \<open>
  The socket tables of TCP: src/src/linux/net/newip/ninet_hashtables.c and the macros and inline functions of
  src/src/linux/include/net/ninet_hashtables.h. The chains of the kernel's hash table are lists of socket
  numbers, the state of the sockets a function of the number. The hash functions, the secrets, the size of the
  tables and inet_ehash_nolisten belong to the kernel and are fields of the environment.

  The tables promise that each chain holds exactly the hashed sockets with its hash. From this promise the
  lookups, which read one or two chains, are shown to find what a search of all sockets finds.
\<close>

section \<open>Sockets and tables\<close>

type_synonym sid = nat

text \<open>The identity of a socket as the hash tables see it. Ports: \<open>hs_num\<close> in host order, the others
  in network order. A namespace is a number.\<close>

record hsock =
  hs_net :: nat
  hs_ninet :: bool             \<comment> \<open>sk_family is AF_NINET\<close>
  hs_rcv_saddr :: nip_addr
  hs_daddr :: nip_addr
  hs_num :: u16
  hs_sport :: u16
  hs_dport :: u16
  hs_bound_dev_if :: int
  hs_incoming_cpu :: int
  hs_reuseport :: bool
  hs_state :: tcp_state
  hs_hash :: u32
  hs_refcnt :: nat
  hs_hashed :: bool            \<comment> \<open>the node sk_nulls_node is linked\<close>
  hs_listen_hashed :: bool     \<comment> \<open>the node icsk_listen_portaddr_node is linked\<close>
  hs_rcu_free :: bool

text \<open>struct inet_hashinfo: chains of sockets, the first element at the head; \<open>h_lhash2\<close> is absent
  when the kernel did not allocate the second listener table.\<close>

record ninet_hashinfo =
  h_socks :: "sid \<Rightarrow> hsock"
  h_ehash :: "u32 \<Rightarrow> sid list"
  h_listening :: "u32 \<Rightarrow> sid list"
  h_listening_count :: "u32 \<Rightarrow> int"
  h_lhash2 :: "(u32 \<Rightarrow> sid list) option"
  h_lhash2_count :: "u32 \<Rightarrow> int"
  h_inuse :: int

text \<open>The kernel functions the code calls, its random secrets and the size of the tables.\<close>

record hash_env =
  jhash_1word :: "u32 \<Rightarrow> u32 \<Rightarrow> u32"
  jhash_3words :: "u32 \<Rightarrow> u32 \<Rightarrow> u32 \<Rightarrow> u32 \<Rightarrow> u32"
  siphash :: "bytes \<Rightarrow> 64 word"
  net_hash_mix :: "nat \<Rightarrow> u32"
  ninet_ehash_secret :: u32
  ninet_hash_secret :: u32
  ktime_get_real_ns :: "64 word"
  ehash_mask :: u32
  lhash2_mask :: u32
  inet_lhashfn :: "nat \<Rightarrow> u16 \<Rightarrow> u32"
  inet_sk_bound_dev_eq :: "nat \<Rightarrow> int \<Rightarrow> int \<Rightarrow> int \<Rightarrow> bool"
  reciprocal_scale :: "u32 \<Rightarrow> u32 \<Rightarrow> u32"
  next_pseudo_random32 :: "u32 \<Rightarrow> u32"
  smp_processor_id :: int
  inet_ehash_nolisten :: "ninet_hashinfo \<Rightarrow> sid \<Rightarrow> sid option \<Rightarrow> ninet_hashinfo"

definition upd_sock :: "ninet_hashinfo \<Rightarrow> sid \<Rightarrow> (hsock \<Rightarrow> hsock) \<Rightarrow> ninet_hashinfo" where
  "upd_sock h s f = h\<lparr>h_socks := (h_socks h)(s := f (h_socks h s))\<rparr>"

lemma upd_sock_simps [simp]:
  "h_socks (upd_sock h s f) = (h_socks h)(s := f (h_socks h s))" "h_ehash (upd_sock h s f) = h_ehash h"
  "h_listening (upd_sock h s f) = h_listening h" "h_listening_count (upd_sock h s f) = h_listening_count h"
  "h_lhash2 (upd_sock h s f) = h_lhash2 h" "h_lhash2_count (upd_sock h s f) = h_lhash2_count h"
  "h_inuse (upd_sock h s f) = h_inuse h"
  by (simp_all add: upd_sock_def)

section \<open>Hash functions\<close>

definition seq_scale :: "hash_env \<Rightarrow> u32 \<Rightarrow> u32" where
  "seq_scale e seq = seq + ucast (drop_bit 6 (ktime_get_real_ns e))"

text \<open>
  Both functions get a pointer to the bytes of the address and read a whole struct nip_addr there:
  nine bytes from the second byte of the caller's struct, so the length is missing and one byte
  behind the address is read. The arguments are the memory at the two pointers.
\<close>

definition read_nip_addr :: "bytes \<Rightarrow> bytes option" where
  "read_nip_addr mem = (if length mem < 9 then None else Some (take 9 mem))"

lemma read_nip_addr_foreign: "wf_addr a \<Longrightarrow> read_nip_addr (field8 a @ [x]) = Some (field8 a @ [x])"
  by (simp add: read_nip_addr_def wf_addr_def)

definition secure_tcp_nip_sequence_number :: "hash_env \<Rightarrow> bytes \<Rightarrow> bytes \<Rightarrow> u16 \<Rightarrow> u16 \<Rightarrow> u32 option" where
  "secure_tcp_nip_sequence_number e saddr daddr sport dport = do {
     s \<leftarrow> read_nip_addr saddr;
     d \<leftarrow> read_nip_addr daddr;
     Some (seq_scale e (ucast (siphash e (s @ d @ [lo8 sport, hi8 sport, lo8 dport, hi8 dport]))))
   }"

definition secure_newip_port_ephemeral :: "hash_env \<Rightarrow> bytes \<Rightarrow> bytes \<Rightarrow> u16 \<Rightarrow> 64 word option" where
  "secure_newip_port_ephemeral e saddr daddr dport = do {
     s \<leftarrow> read_nip_addr saddr;
     d \<leftarrow> read_nip_addr daddr;
     Some (siphash e (s @ d @ [lo8 dport, hi8 dport]))
   }"

abbreviation field32 :: "nip_addr \<Rightarrow> nat \<Rightarrow> u32" where "field32 a i \<equiv> le32 (field8 a) (4 * i)"

definition nip_portaddr_hash :: "hash_env \<Rightarrow> nat \<Rightarrow> nip_addr \<Rightarrow> u32 \<Rightarrow> u32" where
  "nip_portaddr_hash e net saddr port =
    (let v = xor (field32 saddr 0) (field32 saddr 1) in xor (jhash_1word e v (net_hash_mix e net)) port)"

definition nip_addr_jhash :: "hash_env \<Rightarrow> nip_addr \<Rightarrow> u32 \<Rightarrow> u32" where
  "nip_addr_jhash e a initval =
    (let v = xor (field32 a 0) (field32 a 1) in jhash_3words e v (field32 a 0) (field32 a 1) initval)"

definition ninet_ehashfn_words :: "hash_env \<Rightarrow> u32 \<Rightarrow> u16 \<Rightarrow> u32 \<Rightarrow> u16 \<Rightarrow> u32 \<Rightarrow> u32" where
  "ninet_ehashfn_words e lhash lport fhash fport initval =
    (let ports = or (push_bit 16 (ucast lport)) (ucast fport) in jhash_3words e lhash fhash ports initval)"

definition ninet_ehashfn :: "hash_env \<Rightarrow> nat \<Rightarrow> nip_addr \<Rightarrow> u16 \<Rightarrow> nip_addr \<Rightarrow> u16 \<Rightarrow> u32" where
  "ninet_ehashfn e net laddr lport faddr fport =
    (let lhash = field32 laddr 0; fhash = nip_addr_jhash e faddr (ninet_hash_secret e) in
     ninet_ehashfn_words e lhash lport fhash fport (ninet_ehash_secret e + net_hash_mix e net))"

definition ninet_lhash2_bucket_sk :: "hash_env \<Rightarrow> hsock \<Rightarrow> u32" where
  "ninet_lhash2_bucket_sk e sk = and (nip_portaddr_hash e (hs_net sk) (hs_rcv_saddr sk) (ucast (hs_num sk))) (lhash2_mask e)"

section \<open>Hash and unhash\<close>

definition ninet_hash2 :: "hash_env \<Rightarrow> ninet_hashinfo \<Rightarrow> sid \<Rightarrow> ninet_hashinfo" where
  "ninet_hash2 e h s = (case h_lhash2 h of None \<Rightarrow> h
     | Some t \<Rightarrow>
       let b = ninet_lhash2_bucket_sk e (h_socks h s);
           h = upd_sock h s (\<lambda>sk. sk\<lparr>hs_listen_hashed := True\<rparr>) in
       h\<lparr>h_lhash2 := Some (t(b := s # t b)), h_lhash2_count := (h_lhash2_count h)(b := h_lhash2_count h b + 1)\<rparr>)"

definition ninet_hash_listen :: "hash_env \<Rightarrow> ninet_hashinfo \<Rightarrow> sid \<Rightarrow> sid option \<Rightarrow> int \<times> ninet_hashinfo" where
  "ninet_hash_listen e h s osk =
    (let sk = h_socks h s in
     if hs_state sk \<noteq> TCP_LISTEN then (0, inet_ehash_nolisten e h s osk)
     else
       let b = inet_lhashfn e (hs_net sk) (hs_num sk);
           h = upd_sock h s (\<lambda>sk. sk\<lparr>hs_hashed := True\<rparr>);
           h = h\<lparr>h_listening := (h_listening h)(b := s # h_listening h b)\<rparr>;
           h = ninet_hash2 e h s;
           h = h\<lparr>h_listening_count := (h_listening_count h)(b := h_listening_count h b + 1)\<rparr>;
           h = upd_sock h s (\<lambda>sk. sk\<lparr>hs_rcu_free := True\<rparr>)
       in (0, h\<lparr>h_inuse := h_inuse h + 1\<rparr>))"

definition ninet_hash :: "hash_env \<Rightarrow> ninet_hashinfo \<Rightarrow> sid \<Rightarrow> int \<times> ninet_hashinfo" where
  "ninet_hash e h s =
    (if hs_state (h_socks h s) \<noteq> TCP_CLOSE then ninet_hash_listen e h s None else (0, h))"

text \<open>A node is taken out of the chain it is linked in, wherever that is.\<close>

definition unlink :: "sid \<Rightarrow> (u32 \<Rightarrow> sid list) \<Rightarrow> u32 \<Rightarrow> sid list" where
  "unlink s t b = filter (\<lambda>x. x \<noteq> s) (t b)"

definition ninet_unhash2 :: "hash_env \<Rightarrow> ninet_hashinfo \<Rightarrow> sid \<Rightarrow> ninet_hashinfo" where
  "ninet_unhash2 e h s = (case h_lhash2 h of None \<Rightarrow> h
     | Some t \<Rightarrow>
       if \<not> hs_listen_hashed (h_socks h s) then h
       else
         let b = ninet_lhash2_bucket_sk e (h_socks h s);
             h = upd_sock h s (\<lambda>sk. sk\<lparr>hs_listen_hashed := False\<rparr>) in
         h\<lparr>h_lhash2 := Some (unlink s t), h_lhash2_count := (h_lhash2_count h)(b := h_lhash2_count h b - 1)\<rparr>)"

definition ninet_unhash :: "hash_env \<Rightarrow> ninet_hashinfo \<Rightarrow> sid \<Rightarrow> ninet_hashinfo" where
  "ninet_unhash e h s =
    (let sk = h_socks h s in
     if \<not> hs_hashed sk then h
     else
       let ilb = (if hs_state sk = TCP_LISTEN then Some (inet_lhashfn e (hs_net sk) (hs_num sk)) else None);
           h = (case ilb of None \<Rightarrow> h
             | Some b \<Rightarrow>
               let h = ninet_unhash2 e h s in
               h\<lparr>h_listening_count := (h_listening_count h)(b := h_listening_count h b - 1)\<rparr>);
           h = h\<lparr>h_listening := unlink s (h_listening h), h_ehash := unlink s (h_ehash h)\<rparr>;
           h = upd_sock h s (\<lambda>sk. sk\<lparr>hs_hashed := False\<rparr>)
       in h\<lparr>h_inuse := h_inuse h - 1\<rparr>)"

section \<open>Lookup of a connection\<close>

definition NINET_MATCH :: "hsock \<Rightarrow> nat \<Rightarrow> nip_addr \<Rightarrow> nip_addr \<Rightarrow> u16 \<times> u16 \<Rightarrow> int \<Rightarrow> bool" where
  "NINET_MATCH sk net saddr daddr ports dif \<longleftrightarrow>
     (hs_dport sk, hs_num sk) = ports \<and> hs_ninet sk \<and> nip_addr_eq (hs_daddr sk) saddr \<and>
     nip_addr_eq (hs_rcv_saddr sk) daddr \<and> (hs_bound_dev_if sk = 0 \<or> hs_bound_dev_if sk = dif) \<and>
     hs_net sk = net"

text \<open>The walk along the chain; a match without references ends it. Without concurrent changes the
  second comparison and the check of the nulls value never restart it.\<close>

fun established_walk :: "ninet_hashinfo \<Rightarrow> u32 \<Rightarrow> (hsock \<Rightarrow> bool) \<Rightarrow> sid list \<Rightarrow> (sid option \<times> ninet_hashinfo)" where
  "established_walk h hash M [] = (None, h)"
| "established_walk h hash M (s # ss) =
    (if hs_hash (h_socks h s) \<noteq> hash then established_walk h hash M ss
     else if \<not> M (h_socks h s) then established_walk h hash M ss
     else if hs_refcnt (h_socks h s) = 0 then (None, h)
     else (Some s, upd_sock h s (\<lambda>sk. sk\<lparr>hs_refcnt := hs_refcnt sk + 1\<rparr>)))"

definition ninet_lookup_established ::
  "hash_env \<Rightarrow> ninet_hashinfo \<Rightarrow> nat \<Rightarrow> nip_addr \<Rightarrow> u16 \<Rightarrow> nip_addr \<Rightarrow> u16 \<Rightarrow> int \<Rightarrow> sid option \<times> ninet_hashinfo" where
  "ninet_lookup_established e h net saddr sport daddr hnum dif =
    (let ports = (sport, hnum);
         hash = ninet_ehashfn e net daddr hnum saddr sport;
         slot = and hash (ehash_mask e) in
     established_walk h hash (\<lambda>sk. NINET_MATCH sk net saddr daddr ports dif) (h_ehash h slot))"

section \<open>Lookup of a listener\<close>

definition nip_tcp_compute_score :: "hash_env \<Rightarrow> hsock \<Rightarrow> nat \<Rightarrow> u16 \<Rightarrow> nip_addr \<Rightarrow> int \<Rightarrow> int \<Rightarrow> int" where
  "nip_tcp_compute_score e sk net hnum daddr dif sdif =
    (if hs_num sk = hnum \<and> hs_ninet sk \<and> hs_net sk = net then
       let wild = nip_addr_eq (hs_rcv_saddr sk) nip_any_addr in
       if \<not> wild \<and> \<not> nip_addr_eq (hs_rcv_saddr sk) daddr then -1
       else if \<not> inet_sk_bound_dev_eq e net (hs_bound_dev_if sk) dif sdif then -1
       else 1 + (if wild then 0 else 1) + 1 + (if hs_incoming_cpu sk = smp_processor_id e then 1 else 0)
     else -1)"

fun lhash2_walk ::
  "hash_env \<Rightarrow> (sid \<Rightarrow> int) \<Rightarrow> (sid \<Rightarrow> bool) \<Rightarrow> u32 \<Rightarrow> sid option \<Rightarrow> int \<Rightarrow> u32 \<Rightarrow> bool \<Rightarrow> u32 \<Rightarrow> sid list \<Rightarrow> sid option" where
  "lhash2_walk e score rp ph0 result hiscore matches reuseport phash [] = result"
| "lhash2_walk e score rp ph0 result hiscore matches reuseport phash (s # ss) =
    (if score s > hiscore then
       (if rp s then lhash2_walk e score rp ph0 (Some s) (score s) 1 True ph0 ss
        else lhash2_walk e score rp ph0 (Some s) (score s) matches False phash ss)
     else if score s = hiscore \<and> reuseport then
       let matches = matches + 1;
           result = (if reciprocal_scale e phash matches = 0 then Some s else result) in
       lhash2_walk e score rp ph0 result hiscore matches reuseport (next_pseudo_random32 e phash) ss
     else lhash2_walk e score rp ph0 result hiscore matches reuseport phash ss)"

definition ninet_lhash2_lookup ::
  "hash_env \<Rightarrow> ninet_hashinfo \<Rightarrow> nat \<Rightarrow> sid list \<Rightarrow> nip_addr \<Rightarrow> u16 \<Rightarrow> nip_addr \<Rightarrow> u16 \<Rightarrow> int \<Rightarrow> int \<Rightarrow> sid option" where
  "ninet_lhash2_lookup e h net chain saddr sport daddr hnum dif sdif =
    lhash2_walk e (\<lambda>s. nip_tcp_compute_score e (h_socks h s) net hnum daddr dif sdif) (\<lambda>s. hs_reuseport (h_socks h s))
      (ninet_ehashfn e net daddr hnum saddr sport) None 0 0 False 0 chain"

text \<open>The lookup is only called when the second listener table exists.\<close>

definition ninet_lookup_listener ::
  "hash_env \<Rightarrow> ninet_hashinfo \<Rightarrow> nat \<Rightarrow> nip_addr \<Rightarrow> u16 \<Rightarrow> nip_addr \<Rightarrow> u16 \<Rightarrow> int \<Rightarrow> int \<Rightarrow> sid option" where
  "ninet_lookup_listener e h net saddr sport daddr hnum dif sdif =
    (let ilb2 = (\<lambda>hash2. case h_lhash2 h of None \<Rightarrow> [] | Some t \<Rightarrow> t (and hash2 (lhash2_mask e))) in
     case ninet_lhash2_lookup e h net (ilb2 (nip_portaddr_hash e net daddr (ucast hnum))) saddr sport daddr hnum dif sdif of
       Some s \<Rightarrow> Some s
     | None \<Rightarrow> ninet_lhash2_lookup e h net (ilb2 (nip_portaddr_hash e net nip_any_addr (ucast hnum)))
         saddr sport nip_any_addr hnum dif sdif)"

text \<open>The result, and whether a reference to it is held.\<close>

definition ninet_lookup ::
  "hash_env \<Rightarrow> ninet_hashinfo \<Rightarrow> nat \<Rightarrow> nip_addr \<Rightarrow> u16 \<Rightarrow> nip_addr \<Rightarrow> u16 \<Rightarrow> int \<Rightarrow> sid option \<times> bool \<times> ninet_hashinfo" where
  "ninet_lookup e h net saddr sport daddr hnum dif =
    (case ninet_lookup_established e h net saddr sport daddr hnum dif of
       (Some s, h) \<Rightarrow> (Some s, True, h)
     | (None, h) \<Rightarrow> (ninet_lookup_listener e h net saddr sport daddr hnum dif 0, False, h))"

text \<open>A socket that early demultiplexing attached to the packet is taken first; the flag tells whether it
  holds a reference.\<close>

definition ninet_lookup_skb ::
  "hash_env \<Rightarrow> ninet_hashinfo \<Rightarrow> (sid \<times> bool) option \<Rightarrow> nat \<Rightarrow> nip_addr \<Rightarrow> nip_addr \<Rightarrow> u16 \<Rightarrow> u16 \<Rightarrow> int
    \<Rightarrow> sid option \<times> bool \<times> ninet_hashinfo" where
  "ninet_lookup_skb e h skb_sk net srcaddr dstaddr sport dport iif =
    (case skb_sk of
       Some (s, refcounted) \<Rightarrow> (Some s, refcounted, h)
     | None \<Rightarrow> ninet_lookup e h net srcaddr sport dstaddr (ntohs dport) iif)"

section \<open>Binding a connection to a port\<close>

text \<open>The search of the chain for a socket with the same four-tuple.\<close>

definition tuple_in_use :: "ninet_hashinfo \<Rightarrow> hsock \<Rightarrow> u16 \<Rightarrow> u32 \<Rightarrow> sid list \<Rightarrow> bool" where
  "tuple_in_use h sk lport hash chain \<longleftrightarrow> (\<exists>s2 \<in> set chain. hs_hash (h_socks h s2) = hash \<and>
     NINET_MATCH (h_socks h s2) (hs_net sk) (hs_daddr sk) (hs_rcv_saddr sk) (hs_dport sk, lport) (hs_bound_dev_if sk))"

definition ninet_check_established :: "hash_env \<Rightarrow> ninet_hashinfo \<Rightarrow> sid \<Rightarrow> u16 \<Rightarrow> int \<times> ninet_hashinfo" where
  "ninet_check_established e h s lport =
    (let sk = h_socks h s;
         hash = ninet_ehashfn e (hs_net sk) (hs_rcv_saddr sk) lport (hs_daddr sk) (hs_dport sk);
         slot = and hash (ehash_mask e) in
     if tuple_in_use h sk lport hash (h_ehash h slot) then (- EADDRNOTAVAIL, h)
     else
       let h = upd_sock h s (\<lambda>sk. sk\<lparr>hs_num := lport, hs_sport := htons lport, hs_hash := hash, hs_hashed := True\<rparr>)
       in (0, h\<lparr>h_ehash := (h_ehash h)(slot := s # h_ehash h slot), h_inuse := h_inuse h + 1\<rparr>))"

text \<open>The memory behind the addresses is an argument; __inet_hash_connect tries the ports of the kernel's
  range with the check function it is given.\<close>

definition ninet_sk_port_offset :: "hash_env \<Rightarrow> hsock \<Rightarrow> bytes \<Rightarrow> bytes \<Rightarrow> 64 word option" where
  "ninet_sk_port_offset e sk rcv_mem daddr_mem =
    secure_newip_port_ephemeral e (field8 (hs_rcv_saddr sk) @ rcv_mem) (field8 (hs_daddr sk) @ daddr_mem) (hs_dport sk)"

definition ninet_hash_connect ::
  "hash_env \<Rightarrow> (ninet_hashinfo \<Rightarrow> sid \<Rightarrow> 64 word \<Rightarrow> (ninet_hashinfo \<Rightarrow> sid \<Rightarrow> u16 \<Rightarrow> int \<times> ninet_hashinfo) \<Rightarrow> int \<times> ninet_hashinfo)
    \<Rightarrow> ninet_hashinfo \<Rightarrow> sid \<Rightarrow> bytes \<Rightarrow> bytes \<Rightarrow> (int \<times> ninet_hashinfo) option" where
  "ninet_hash_connect e inet_hash_connect h s rcv_mem daddr_mem = do {
     off \<leftarrow> (if hs_num (h_socks h s) = 0 then ninet_sk_port_offset e (h_socks h s) rcv_mem daddr_mem else Some 0);
     Some (inet_hash_connect h s off (ninet_check_established e))
   }"

lemma lhash2_walk_spec:
  assumes "result = None \<Longrightarrow> \<not> reuseport" "\<And>a. result = Some a \<Longrightarrow> score a = hiscore"
  shows "case lhash2_walk e score rp ph0 result hiscore matches reuseport phash ss of
      None \<Rightarrow> result = None \<and> (\<forall>y \<in> set ss. score y \<le> hiscore)
    | Some x \<Rightarrow> (x \<in> set ss \<or> result = Some x) \<and> hiscore \<le> score x \<and> (result = None \<longrightarrow> hiscore < score x) \<and>
        (\<forall>y \<in> set ss. score y \<le> score x)"
  using assms
proof (induction ss arbitrary: result hiscore matches reuseport phash)
  case Nil
  then show ?case by (auto split: option.split)
next
  case (Cons s ss)
  consider (gt) "score s > hiscore" | (tie) "\<not> score s > hiscore" "score s = hiscore \<and> reuseport"
    | (le) "\<not> score s > hiscore" "\<not> (score s = hiscore \<and> reuseport)" by blast
  then show ?case
  proof cases
    case gt
    let ?w = "\<lambda>m r p. lhash2_walk e score rp ph0 (Some s) (score s) m r p ss"
    have "case ?w m r p of None \<Rightarrow> False | Some x \<Rightarrow> (x \<in> set ss \<or> s = x) \<and> score s \<le> score x \<and>
        (\<forall>y \<in> set ss. score y \<le> score x)" for m r p
      using Cons.IH [of "Some s" r "score s" m p] by (auto split: option.splits)
    from this [of 1 True ph0] this [of matches False phash] gt show ?thesis by (auto split: option.splits)
  next
    case tie
    define r where "r = (if reciprocal_scale e phash (matches + 1) = 0 then Some s else result)"
    have r: "\<And>a. r = Some a \<Longrightarrow> score a = hiscore" "r \<noteq> None"
      using tie Cons.prems by (auto simp: r_def split: if_splits)
    have "(r = Some x) = (r = Some x \<and> (x = s \<or> result = Some x))" for x by (auto simp: r_def split: if_splits)
    with Cons.IH [of r reuseport hiscore "matches + 1" "next_pseudo_random32 e phash"] r tie Cons.prems(1)
    show ?thesis by (auto simp: r_def [symmetric] Let_def split: option.splits)
  next
    case le
    then have "lhash2_walk e score rp ph0 result hiscore matches reuseport phash (s # ss)
      = lhash2_walk e score rp ph0 result hiscore matches reuseport phash ss" by (simp only: lhash2_walk.simps if_False)
    moreover have "case lhash2_walk e score rp ph0 result hiscore matches reuseport phash ss of
        None \<Rightarrow> result = None \<and> (\<forall>y \<in> set ss. score y \<le> hiscore)
      | Some x \<Rightarrow> (x \<in> set ss \<or> result = Some x) \<and> hiscore \<le> score x \<and> (result = None \<longrightarrow> hiscore < score x) \<and>
          (\<forall>y \<in> set ss. score y \<le> score x)"
      using Cons.prems by (rule Cons.IH)
    ultimately show ?thesis using le(1)
      by (cases "lhash2_walk e score rp ph0 result hiscore matches reuseport phash ss") (simp_all only: option.case, auto)
  qed
qed

interpretation tcp_scan: best_scan "\<lambda>ph sc. lhash2_walk e sc rp ph None 0 0 False 0" 0 for e rp
proof
  fix ph sc xs x
  show "lhash2_walk e sc rp ph None 0 0 False 0 xs = Some x \<Longrightarrow> x \<in> set xs \<and> 0 < sc x \<and> (\<forall>y \<in> set xs. sc y \<le> sc x)"
    "lhash2_walk e sc rp ph None 0 0 False 0 xs = None \<Longrightarrow> \<forall>y \<in> set xs. sc y \<le> 0"
    using lhash2_walk_spec [where result = None and reuseport = False and score = sc and hiscore = 0 and e = e and rp = rp
        and ?ph0.0 = ph and matches = 0 and phash = 0 and ss = xs] by simp_all
qed

section \<open>The invariant of the tables\<close>

definition listens :: "hsock \<Rightarrow> bool" where "listens sk \<longleftrightarrow> hs_hashed sk \<and> hs_state sk = TCP_LISTEN"

text \<open>Each chain holds exactly the hashed sockets with its hash, once.\<close>

definition chain_ok :: "(u32 \<Rightarrow> sid list) \<Rightarrow> (sid \<Rightarrow> bool) \<Rightarrow> (sid \<Rightarrow> u32) \<Rightarrow> bool" where
  "chain_ok t P k \<longleftrightarrow> (\<forall>b. distinct (t b) \<and> set (t b) = {s. P s \<and> k s = b})"

definition tables_ok :: "hash_env \<Rightarrow> ninet_hashinfo \<Rightarrow> bool" where
  "tables_ok e h \<longleftrightarrow> (\<exists>t. h_lhash2 h = Some t \<and>
     chain_ok t (\<lambda>s. listens (h_socks h s)) (\<lambda>s. ninet_lhash2_bucket_sk e (h_socks h s)) \<and>
     (\<forall>b. h_lhash2_count h b = int (length (t b)))) \<and>
   (\<forall>s. hs_listen_hashed (h_socks h s) \<longleftrightarrow> listens (h_socks h s)) \<and>
   chain_ok (h_listening h) (\<lambda>s. listens (h_socks h s)) (\<lambda>s. inet_lhashfn e (hs_net (h_socks h s)) (hs_num (h_socks h s))) \<and>
   (\<forall>b. h_listening_count h b = int (length (h_listening h b))) \<and>
   chain_ok (h_ehash h) (\<lambda>s. hs_hashed (h_socks h s) \<and> hs_state (h_socks h s) \<noteq> TCP_LISTEN)
     (\<lambda>s. and (hs_hash (h_socks h s)) (ehash_mask e))"

lemma chain_ok_mem: "chain_ok t P k \<Longrightarrow> s \<in> set (t b) \<longleftrightarrow> P s \<and> k s = b"
  by (simp add: chain_ok_def)

lemma chain_okI:
  assumes "\<And>b. distinct (t b)" "\<And>b s. s \<in> set (t b) \<longleftrightarrow> P s \<and> k s = b"
  shows "chain_ok t P k"
  using assms unfolding chain_ok_def by blast

lemma chain_ok_distinct: "chain_ok t P k \<Longrightarrow> distinct (t b)"
  by (simp add: chain_ok_def)

lemma chain_ok_cong:
  assumes "chain_ok t P k" "\<And>x. P x = Q x" "\<And>x. P x \<Longrightarrow> k x = l x"
  shows "chain_ok t Q l"
proof (rule chain_okI)
  fix b s
  show "distinct (t b)" using assms(1) by (rule chain_ok_distinct)
  show "s \<in> set (t b) \<longleftrightarrow> Q s \<and> l s = b"
    using chain_ok_mem [OF assms(1), of s b] assms(2) [of s] assms(3) [of s] by (cases "P s") simp_all
qed

lemma chain_ok_insert:
  assumes "chain_ok t P k" "\<not> P s" "\<And>x. Q x \<longleftrightarrow> x = s \<or> P x" "\<And>x. P x \<Longrightarrow> l x = k x" "l s = b"
  shows "chain_ok (t(b := s # t b)) Q l"
proof (rule chain_okI)
  fix c x
  show "distinct ((t(b := s # t b)) c)"
    using assms(2) chain_ok_distinct [OF assms(1)] chain_ok_mem [OF assms(1)] by simp
  show "x \<in> set ((t(b := s # t b)) c) \<longleftrightarrow> Q x \<and> l x = c"
  proof (cases "x = s")
    case True
    then show ?thesis using assms(2,5) chain_ok_mem [OF assms(1), of s c] assms(3) [of s] by simp
  next
    case False
    have "x \<in> set (t c) \<longleftrightarrow> Q x \<and> l x = c"
      using chain_ok_mem [OF assms(1), of x c] assms(3) [of x] assms(4) [of x] False by (cases "P x") simp_all
    with False show ?thesis by (cases "c = b") simp_all
  qed
qed

lemma chain_ok_unlink:
  assumes "chain_ok t P k" "\<And>x. Q x \<longleftrightarrow> x \<noteq> s \<and> P x" "\<And>x. Q x \<Longrightarrow> l x = k x"
  shows "chain_ok (unlink s t) Q l"
proof (rule chain_okI)
  fix c x
  show "distinct (unlink s t c)" using chain_ok_distinct [OF assms(1)] by (simp add: unlink_def)
  show "x \<in> set (unlink s t c) \<longleftrightarrow> Q x \<and> l x = c"
    using chain_ok_mem [OF assms(1), of x c] assms(2) [of x] assms(3) [of x] unfolding unlink_def by auto
qed

lemma unlink_count:
  assumes "chain_ok t P k"
  shows "int (length (unlink s t b)) = int (length (t b)) - (if P s \<and> k s = b then 1 else 0)"
proof (cases "s \<in> set (t b)")
  case True
  have "distinct (t b)" using assms by (simp add: chain_ok_def)
  then have "filter (\<lambda>x. x \<noteq> s) (t b) = remove1 s (t b)" using distinct_remove1_removeAll [of "t b" s]
    by (simp add: removeAll_filter_not_eq eq_commute)
  moreover have "0 < length (t b)" using True by (rule length_pos_if_in_set)
  moreover have "length (remove1 s (t b)) = length (t b) - 1" using True by (simp add: length_remove1)
  ultimately have "length (unlink s t b) = length (t b) - 1" "0 < length (t b)" by (simp_all only: unlink_def)
  then have "int (length (unlink s t b)) = int (length (t b)) - 1" by linarith
  with True chain_ok_mem [OF assms, of s b] show ?thesis by simp
next
  case False
  then have "filter (\<lambda>x. x \<noteq> s) (t b) = t b" by (auto simp: filter_id_conv)
  with False show ?thesis by (auto simp: unlink_def chain_ok_mem [OF assms])
qed

lemma unlink_absent: "chain_ok t P k \<Longrightarrow> \<not> P s \<Longrightarrow> unlink s t = t"
  by (rule ext) (auto simp: unlink_def filter_id_conv chain_ok_mem)

lemma tables_ok_listen_absent:
  assumes "tables_ok e h" "\<not> hs_hashed (h_socks h s)"
  shows "\<not> hs_listen_hashed (h_socks h s)"
  using assms by (auto simp: tables_ok_def listens_def)

lemma tables_okE:
  assumes "tables_ok e h"
  obtains t where "h_lhash2 h = Some t"
    and "chain_ok t (\<lambda>s. listens (h_socks h s)) (\<lambda>s. ninet_lhash2_bucket_sk e (h_socks h s))"
    and "\<forall>b. h_lhash2_count h b = int (length (t b))"
    and "\<forall>s. hs_listen_hashed (h_socks h s) \<longleftrightarrow> listens (h_socks h s)"
    and "chain_ok (h_listening h) (\<lambda>s. listens (h_socks h s)) (\<lambda>s. inet_lhashfn e (hs_net (h_socks h s)) (hs_num (h_socks h s)))"
    and "\<forall>b. h_listening_count h b = int (length (h_listening h b))"
    and "chain_ok (h_ehash h) (\<lambda>s. hs_hashed (h_socks h s) \<and> hs_state (h_socks h s) \<noteq> TCP_LISTEN)
       (\<lambda>s. and (hs_hash (h_socks h s)) (ehash_mask e))"
  using assms unfolding tables_ok_def by blast

lemma ninet_hash2_simps:
  assumes "h_lhash2 h = Some t"
  shows "h_socks (ninet_hash2 e h s) = (h_socks h)(s := h_socks h s\<lparr>hs_listen_hashed := True\<rparr>)"
    "h_lhash2 (ninet_hash2 e h s) = (let b = ninet_lhash2_bucket_sk e (h_socks h s) in Some (t(b := s # t b)))"
    "h_lhash2_count (ninet_hash2 e h s) = (let b = ninet_lhash2_bucket_sk e (h_socks h s) in
       (h_lhash2_count h)(b := h_lhash2_count h b + 1))"
    "h_listening (ninet_hash2 e h s) = h_listening h" "h_listening_count (ninet_hash2 e h s) = h_listening_count h"
    "h_ehash (ninet_hash2 e h s) = h_ehash h"
  using assms by (simp_all add: ninet_hash2_def Let_def)

lemma ninet_hash_ok:
  assumes "tables_ok e h" "\<not> hs_hashed (h_socks h s)" "hs_state (h_socks h s) = TCP_LISTEN"
  shows "tables_ok e (snd (ninet_hash e h s))"
proof -
  let ?sk = "h_socks h s"
  obtain t where t: "h_lhash2 h = Some t"
    and c2: "chain_ok t (\<lambda>s. listens (h_socks h s)) (\<lambda>s. ninet_lhash2_bucket_sk e (h_socks h s))"
    and n2: "\<forall>b. h_lhash2_count h b = int (length (t b))"
    and lh: "\<forall>s. hs_listen_hashed (h_socks h s) \<longleftrightarrow> listens (h_socks h s)"
    and cl: "chain_ok (h_listening h) (\<lambda>s. listens (h_socks h s)) (\<lambda>s. inet_lhashfn e (hs_net (h_socks h s)) (hs_num (h_socks h s)))"
    and nl: "\<forall>b. h_listening_count h b = int (length (h_listening h b))"
    and ce: "chain_ok (h_ehash h) (\<lambda>s. hs_hashed (h_socks h s) \<and> hs_state (h_socks h s) \<noteq> TCP_LISTEN)
       (\<lambda>s. and (hs_hash (h_socks h s)) (ehash_mask e))"
    using assms(1) by (rule tables_okE)
  have l: "\<not> listens ?sk" using assms(2) by (simp add: listens_def)
  have B: "ninet_lhash2_bucket_sk e (sk\<lparr>hs_hashed := x\<rparr>) = ninet_lhash2_bucket_sk e sk"
    "ninet_lhash2_bucket_sk e (sk\<lparr>hs_listen_hashed := x\<rparr>) = ninet_lhash2_bucket_sk e sk"
    "ninet_lhash2_bucket_sk e (sk\<lparr>hs_rcu_free := x\<rparr>) = ninet_lhash2_bucket_sk e sk" for sk x
    by (simp_all add: ninet_lhash2_bucket_sk_def)
  let ?h = "snd (ninet_hash e h s)"
  let ?b2 = "ninet_lhash2_bucket_sk e ?sk" and ?b = "inet_lhashfn e (hs_net ?sk) (hs_num ?sk)"
  have S: "h_socks ?h = (h_socks h)(s := ?sk\<lparr>hs_hashed := True, hs_listen_hashed := True, hs_rcu_free := True\<rparr>)"
    and T: "h_lhash2 ?h = Some (t(?b2 := s # t ?b2))" "h_lhash2_count ?h = (h_lhash2_count h)(?b2 := h_lhash2_count h ?b2 + 1)"
    "h_listening ?h = (h_listening h)(?b := s # h_listening h ?b)"
    "h_listening_count ?h = (h_listening_count h)(?b := h_listening_count h ?b + 1)" "h_ehash ?h = h_ehash h"
    using assms(3) by (simp_all add: ninet_hash_def ninet_hash_listen_def ninet_hash2_simps [of _ t] t Let_def B)
  have L: "listens (h_socks ?h x) \<longleftrightarrow> x = s \<or> listens (h_socks h x)" for x
    using assms(3) by (simp add: S listens_def)
  show ?thesis unfolding tables_ok_def
  proof (intro conjI exI allI)
    show "h_lhash2 ?h = Some (t(?b2 := s # t ?b2))" by (rule T)
    show "chain_ok (t(?b2 := s # t ?b2)) (\<lambda>x. listens (h_socks ?h x)) (\<lambda>x. ninet_lhash2_bucket_sk e (h_socks ?h x))"
      by (rule chain_ok_insert [OF c2]) (use l in \<open>simp_all add: L, simp_all add: S B\<close>)
    show "h_lhash2_count ?h b = int (length ((t(?b2 := s # t ?b2)) b))" for b by (simp add: T n2)
    show "hs_listen_hashed (h_socks ?h x) \<longleftrightarrow> listens (h_socks ?h x)" for x
      unfolding L by (simp add: S lh)
    show "chain_ok (h_listening ?h) (\<lambda>x. listens (h_socks ?h x)) (\<lambda>x. inet_lhashfn e (hs_net (h_socks ?h x)) (hs_num (h_socks ?h x)))"
      unfolding T by (rule chain_ok_insert [OF cl]) (use l in \<open>simp_all add: L, simp_all add: S\<close>)
    show "h_listening_count ?h b = int (length (h_listening ?h b))" for b by (simp add: T nl)
    show "chain_ok (h_ehash ?h) (\<lambda>x. hs_hashed (h_socks ?h x) \<and> hs_state (h_socks ?h x) \<noteq> TCP_LISTEN)
       (\<lambda>x. and (hs_hash (h_socks ?h x)) (ehash_mask e))"
      unfolding T by (rule chain_ok_cong [OF ce]) (use assms(2,3) in \<open>auto simp: S\<close>)
  qed
qed

lemma ninet_unhash_ok:
  assumes "tables_ok e h"
  shows "tables_ok e (ninet_unhash e h s)"
proof (cases "hs_hashed (h_socks h s)")
  case False
  then show ?thesis using assms by (simp add: ninet_unhash_def)
next
  case True
  let ?sk = "h_socks h s"
  obtain t where t: "h_lhash2 h = Some t"
    and c2: "chain_ok t (\<lambda>s. listens (h_socks h s)) (\<lambda>s. ninet_lhash2_bucket_sk e (h_socks h s))"
    and n2: "\<forall>b. h_lhash2_count h b = int (length (t b))"
    and lh: "\<forall>s. hs_listen_hashed (h_socks h s) \<longleftrightarrow> listens (h_socks h s)"
    and cl: "chain_ok (h_listening h) (\<lambda>s. listens (h_socks h s)) (\<lambda>s. inet_lhashfn e (hs_net (h_socks h s)) (hs_num (h_socks h s)))"
    and nl: "\<forall>b. h_listening_count h b = int (length (h_listening h b))"
    and ce: "chain_ok (h_ehash h) (\<lambda>s. hs_hashed (h_socks h s) \<and> hs_state (h_socks h s) \<noteq> TCP_LISTEN)
       (\<lambda>s. and (hs_hash (h_socks h s)) (ehash_mask e))"
    using assms(1) by (rule tables_okE)
  have B: "ninet_lhash2_bucket_sk e (sk\<lparr>hs_hashed := x\<rparr>) = ninet_lhash2_bucket_sk e sk"
    "ninet_lhash2_bucket_sk e (sk\<lparr>hs_listen_hashed := x\<rparr>) = ninet_lhash2_bucket_sk e sk" for sk x
    by (simp_all add: ninet_lhash2_bucket_sk_def)
  let ?h = "ninet_unhash e h s"
  let ?b2 = "ninet_lhash2_bucket_sk e ?sk" and ?b = "inet_lhashfn e (hs_net ?sk) (hs_num ?sk)"
  have lis: "listens ?sk \<longleftrightarrow> hs_state ?sk = TCP_LISTEN" using True by (simp add: listens_def)
  have S: "h_socks ?h = (h_socks h)(s := ?sk\<lparr>hs_listen_hashed := False, hs_hashed := False\<rparr>)"
    and T: "h_lhash2 ?h = Some (unlink s t)" "h_lhash2_count ?h = (\<lambda>b. h_lhash2_count h b - (if listens ?sk \<and> ?b2 = b then 1 else 0))"
    "h_listening ?h = unlink s (h_listening h)"
    "h_listening_count ?h = (\<lambda>b. h_listening_count h b - (if listens ?sk \<and> ?b = b then 1 else 0))"
    "h_ehash ?h = unlink s (h_ehash h)"
  proof -
    have hs: "hs_listen_hashed ?sk = (hs_state ?sk = TCP_LISTEN)" using lh lis by simp
    have "unlink s t = t" if "hs_state ?sk \<noteq> TCP_LISTEN" using unlink_absent [OF c2] lis that by simp
    moreover have "hs_state ?sk \<noteq> TCP_LISTEN \<Longrightarrow> ?sk\<lparr>hs_listen_hashed := False\<rparr> = ?sk" using hs by (cases ?sk) simp
    ultimately show "h_socks ?h = (h_socks h)(s := ?sk\<lparr>hs_listen_hashed := False, hs_hashed := False\<rparr>)"
      "h_lhash2 ?h = Some (unlink s t)" "h_lhash2_count ?h = (\<lambda>b. h_lhash2_count h b - (if listens ?sk \<and> ?b2 = b then 1 else 0))"
      "h_listening ?h = unlink s (h_listening h)"
      "h_listening_count ?h = (\<lambda>b. h_listening_count h b - (if listens ?sk \<and> ?b = b then 1 else 0))"
      "h_ehash ?h = unlink s (h_ehash h)"
      using True hs by (auto simp: ninet_unhash_def ninet_unhash2_def t Let_def lis)
  qed
  have L: "listens (h_socks ?h x) \<longleftrightarrow> x \<noteq> s \<and> listens (h_socks h x)" for x
    by (simp add: S listens_def)
  show ?thesis unfolding tables_ok_def
  proof (intro conjI exI allI)
    show "h_lhash2 ?h = Some (unlink s t)" by (rule T)
    show "chain_ok (unlink s t) (\<lambda>x. listens (h_socks ?h x)) (\<lambda>x. ninet_lhash2_bucket_sk e (h_socks ?h x))"
      by (rule chain_ok_unlink [OF c2]) (simp_all add: L, simp add: S)
    show "h_lhash2_count ?h b = int (length (unlink s t b))" for b by (simp add: T n2 unlink_count [OF c2])
    show "hs_listen_hashed (h_socks ?h x) \<longleftrightarrow> listens (h_socks ?h x)" for x
      unfolding L by (simp add: S lh)
    show "chain_ok (h_listening ?h) (\<lambda>x. listens (h_socks ?h x)) (\<lambda>x. inet_lhashfn e (hs_net (h_socks ?h x)) (hs_num (h_socks ?h x)))"
      unfolding T by (rule chain_ok_unlink [OF cl]) (simp_all add: L, simp add: S)
    show "h_listening_count ?h b = int (length (h_listening ?h b))" for b by (simp add: T nl unlink_count [OF cl])
    show "chain_ok (h_ehash ?h) (\<lambda>x. hs_hashed (h_socks ?h x) \<and> hs_state (h_socks ?h x) \<noteq> TCP_LISTEN)
       (\<lambda>x. and (hs_hash (h_socks ?h x)) (ehash_mask e))"
      unfolding T by (rule chain_ok_unlink [OF ce]) (auto simp: S)
  qed
qed

definition ehash_key :: "hash_env \<Rightarrow> hsock \<Rightarrow> u32" where
  "ehash_key e sk = ninet_ehashfn e (hs_net sk) (hs_rcv_saddr sk) (hs_num sk) (hs_daddr sk) (hs_dport sk)"

definition connected :: "hsock \<Rightarrow> bool" where "connected sk \<longleftrightarrow> hs_hashed sk \<and> hs_state sk \<noteq> TCP_LISTEN"

definition hashes_ok :: "hash_env \<Rightarrow> ninet_hashinfo \<Rightarrow> bool" where
  "hashes_ok e h \<longleftrightarrow> (\<forall>s. connected (h_socks h s) \<longrightarrow> hs_hash (h_socks h s) = ehash_key e (h_socks h s))"

lemma check_established_used:
  assumes "fst (ninet_check_established e h s lport) \<noteq> 0"
  shows "ninet_check_established e h s lport = (- EADDRNOTAVAIL, h)"
  using assms by (simp add: ninet_check_established_def Let_def split: if_splits)

lemma check_established_free:
  assumes "fst (ninet_check_established e h s lport) = 0"
  defines "sk \<equiv> h_socks h s\<lparr>hs_num := lport, hs_sport := htons lport,
      hs_hash := ehash_key e (h_socks h s\<lparr>hs_num := lport\<rparr>), hs_hashed := True\<rparr>"
    and "b \<equiv> and (ehash_key e (h_socks h s\<lparr>hs_num := lport\<rparr>)) (ehash_mask e)"
  shows "snd (ninet_check_established e h s lport) = h\<lparr>h_socks := (h_socks h)(s := sk),
      h_ehash := (h_ehash h)(b := s # h_ehash h b), h_inuse := h_inuse h + 1\<rparr>"
  using assms(1) unfolding sk_def b_def
  by (simp add: ninet_check_established_def ehash_key_def Let_def upd_sock_def split: if_splits)

lemma check_established_ok:
  assumes "tables_ok e h" "\<not> hs_hashed (h_socks h s)" "hs_state (h_socks h s) \<noteq> TCP_LISTEN"
  shows "tables_ok e (snd (ninet_check_established e h s lport))"
proof (cases "fst (ninet_check_established e h s lport) = 0")
  case False
  with assms(1) check_established_used [of e h s lport] show ?thesis by simp
next
  case free: True
  obtain t where t: "h_lhash2 h = Some t"
    and c2: "chain_ok t (\<lambda>s. listens (h_socks h s)) (\<lambda>s. ninet_lhash2_bucket_sk e (h_socks h s))"
    and n2: "\<forall>b. h_lhash2_count h b = int (length (t b))"
    and lh: "\<forall>s. hs_listen_hashed (h_socks h s) \<longleftrightarrow> listens (h_socks h s)"
    and cl: "chain_ok (h_listening h) (\<lambda>s. listens (h_socks h s)) (\<lambda>s. inet_lhashfn e (hs_net (h_socks h s)) (hs_num (h_socks h s)))"
    and nl: "\<forall>b. h_listening_count h b = int (length (h_listening h b))"
    and ce: "chain_ok (h_ehash h) (\<lambda>s. hs_hashed (h_socks h s) \<and> hs_state (h_socks h s) \<noteq> TCP_LISTEN)
       (\<lambda>s. and (hs_hash (h_socks h s)) (ehash_mask e))"
    using assms(1) by (rule tables_okE)
  let ?h = "snd (ninet_check_established e h s lport)"
  note S = check_established_free [OF free]
  have L: "listens (h_socks ?h x) \<longleftrightarrow> listens (h_socks h x)" for x
    using assms(2,3) by (simp add: S listens_def)
  have N: "x \<noteq> s \<Longrightarrow> h_socks ?h x = h_socks h x" for x by (simp add: S)
  have s: "\<not> listens (h_socks h s)" using assms(2) by (simp add: listens_def)
  show ?thesis unfolding tables_ok_def
  proof (intro conjI exI allI)
    show "h_lhash2 ?h = Some t" using t by (simp add: S)
    show "chain_ok t (\<lambda>x. listens (h_socks ?h x)) (\<lambda>x. ninet_lhash2_bucket_sk e (h_socks ?h x))"
      by (rule chain_ok_cong [OF c2]) (simp only: L, metis N s)
    show "h_lhash2_count ?h b = int (length (t b))" for b by (simp add: S n2)
    show "hs_listen_hashed (h_socks ?h x) \<longleftrightarrow> listens (h_socks ?h x)" for x
      unfolding L by (cases "x = s") (simp_all add: S lh)
    show "chain_ok (h_listening ?h) (\<lambda>x. listens (h_socks ?h x)) (\<lambda>x. inet_lhashfn e (hs_net (h_socks ?h x)) (hs_num (h_socks ?h x)))"
    proof -
      have "h_listening ?h = h_listening h" by (simp add: S)
      then show ?thesis by (simp only:, intro chain_ok_cong [OF cl]) (simp only: L, metis N s)
    qed
    show "h_listening_count ?h b = int (length (h_listening ?h b))" for b by (simp add: S nl)
    have n: "\<not> (hs_hashed (h_socks h s) \<and> hs_state (h_socks h s) \<noteq> TCP_LISTEN)" using assms(2) by simp
    show "chain_ok (h_ehash ?h) (\<lambda>x. hs_hashed (h_socks ?h x) \<and> hs_state (h_socks ?h x) \<noteq> TCP_LISTEN)
       (\<lambda>x. and (hs_hash (h_socks ?h x)) (ehash_mask e))"
      unfolding S by (simp, rule chain_ok_insert [OF ce n]) (use assms(2,3) in \<open>auto\<close>)
  qed
qed

section \<open>Operations on the tables\<close>

text \<open>The steps of the protocol: a listening socket is hashed, a connecting socket is bound to a port, a
  socket leaves the tables, a lookup takes a reference, and an unhashed socket changes its identity.\<close>

inductive hash_step :: "hash_env \<Rightarrow> ninet_hashinfo \<Rightarrow> ninet_hashinfo \<Rightarrow> bool" for e where
  listen_step: "\<not> hs_hashed (h_socks h s) \<Longrightarrow> hs_state (h_socks h s) = TCP_LISTEN \<Longrightarrow>
    hash_step e h (snd (ninet_hash e h s))"
| connect_step: "\<not> hs_hashed (h_socks h s) \<Longrightarrow> hs_state (h_socks h s) \<noteq> TCP_LISTEN \<Longrightarrow>
    hash_step e h (snd (ninet_check_established e h s lport))"
| unhash_step: "hash_step e h (ninet_unhash e h s)"
| lookup_step: "hash_step e h (snd (ninet_lookup_established e h net saddr sport daddr hnum dif))"
| change_step: "\<not> hs_hashed (h_socks h s) \<Longrightarrow> \<not> hs_hashed sk \<Longrightarrow> \<not> hs_listen_hashed sk \<Longrightarrow>
    hash_step e h (upd_sock h s (\<lambda>_. sk))"

inductive_cases hash_stepE [elim]: "hash_step e h h'"

text \<open>A change of a socket that is in no chain, or that changes nothing a chain depends on.\<close>

lemma tables_ok_upd:
  assumes "tables_ok e h"
    and "hs_hashed sk = hs_hashed (h_socks h s)" "hs_listen_hashed sk = hs_listen_hashed (h_socks h s)"
    and "hs_hashed sk \<Longrightarrow> hs_state sk = hs_state (h_socks h s) \<and> hs_hash sk = hs_hash (h_socks h s) \<and>
      hs_net sk = hs_net (h_socks h s) \<and> hs_num sk = hs_num (h_socks h s) \<and> hs_rcv_saddr sk = hs_rcv_saddr (h_socks h s)"
  shows "tables_ok e (upd_sock h s (\<lambda>_. sk))"
proof -
  obtain t where t: "h_lhash2 h = Some t"
    and c2: "chain_ok t (\<lambda>s. listens (h_socks h s)) (\<lambda>s. ninet_lhash2_bucket_sk e (h_socks h s))"
    and n2: "\<forall>b. h_lhash2_count h b = int (length (t b))"
    and lh: "\<forall>s. hs_listen_hashed (h_socks h s) \<longleftrightarrow> listens (h_socks h s)"
    and cl: "chain_ok (h_listening h) (\<lambda>s. listens (h_socks h s)) (\<lambda>s. inet_lhashfn e (hs_net (h_socks h s)) (hs_num (h_socks h s)))"
    and nl: "\<forall>b. h_listening_count h b = int (length (h_listening h b))"
    and ce: "chain_ok (h_ehash h) (\<lambda>s. hs_hashed (h_socks h s) \<and> hs_state (h_socks h s) \<noteq> TCP_LISTEN)
       (\<lambda>s. and (hs_hash (h_socks h s)) (ehash_mask e))"
    using assms(1) by (rule tables_okE)
  let ?h = "upd_sock h s (\<lambda>_. sk)"
  have L: "listens (h_socks ?h x) \<longleftrightarrow> listens (h_socks h x)" for x
    using assms(2,4) by (auto simp: listens_def)
  have k: "listens sk \<Longrightarrow> ninet_lhash2_bucket_sk e sk = ninet_lhash2_bucket_sk e (h_socks h s)"
    "listens sk \<Longrightarrow> inet_lhashfn e (hs_net sk) (hs_num sk) = inet_lhashfn e (hs_net (h_socks h s)) (hs_num (h_socks h s))"
    using assms(4) by (simp_all add: listens_def ninet_lhash2_bucket_sk_def)
  have ls: "listens sk = listens (h_socks h s)" using L [of s] by simp
  show ?thesis unfolding tables_ok_def
  proof (intro conjI exI allI)
    show "h_lhash2 ?h = Some t" using t by simp
    show "chain_ok t (\<lambda>x. listens (h_socks ?h x)) (\<lambda>x. ninet_lhash2_bucket_sk e (h_socks ?h x))"
      by (rule chain_ok_cong [OF c2]) (simp_all only: L, auto simp: k ls)
    show "h_lhash2_count ?h b = int (length (t b))" for b by (simp add: n2)
    show "hs_listen_hashed (h_socks ?h x) \<longleftrightarrow> listens (h_socks ?h x)" for x
      unfolding L using assms(3) lh by simp
    show "chain_ok (h_listening ?h) (\<lambda>x. listens (h_socks ?h x)) (\<lambda>x. inet_lhashfn e (hs_net (h_socks ?h x)) (hs_num (h_socks ?h x)))"
      unfolding upd_sock_simps(3) by (rule chain_ok_cong [OF cl]) (simp_all only: L, auto simp: k ls)
    show "h_listening_count ?h b = int (length (h_listening ?h b))" for b by (simp add: nl)
    show "chain_ok (h_ehash ?h) (\<lambda>x. hs_hashed (h_socks ?h x) \<and> hs_state (h_socks ?h x) \<noteq> TCP_LISTEN)
       (\<lambda>x. and (hs_hash (h_socks ?h x)) (ehash_mask e))"
      unfolding upd_sock_simps(2) by (rule chain_ok_cong [OF ce]) (use assms(2,4) in \<open>auto\<close>)
  qed
qed

lemma established_walk_cases:
  "snd (established_walk h hash M ss) = h \<or>
   (\<exists>s. snd (established_walk h hash M ss) = upd_sock h s (\<lambda>_. h_socks h s\<lparr>hs_refcnt := hs_refcnt (h_socks h s) + 1\<rparr>))"
  by (induction ss) (auto simp: upd_sock_def)

lemma lookup_established_ok:
  assumes "tables_ok e h"
  shows "tables_ok e (snd (ninet_lookup_established e h net saddr sport daddr hnum dif))"
proof -
  define r where "r = snd (ninet_lookup_established e h net saddr sport daddr hnum dif)"
  then have "r = h \<or> (\<exists>s. r = upd_sock h s (\<lambda>_. h_socks h s\<lparr>hs_refcnt := hs_refcnt (h_socks h s) + 1\<rparr>))"
    unfolding ninet_lookup_established_def Let_def using established_walk_cases by metis
  then have "tables_ok e r" using assms tables_ok_upd [OF assms] by auto
  then show ?thesis by (simp add: r_def)
qed

lemma hash_step_ok: "hash_step e h h' \<Longrightarrow> tables_ok e h \<Longrightarrow> tables_ok e h'"
proof (induction rule: hash_step.induct)
  case (change_step h s sk)
  then show ?case using tables_ok_listen_absent [OF change_step(4,1)] by (intro tables_ok_upd) simp_all
qed (simp_all add: ninet_hash_ok ninet_unhash_ok check_established_ok lookup_established_ok)

definition empty_tables :: "(sid \<Rightarrow> hsock) \<Rightarrow> ninet_hashinfo" where
  "empty_tables socks = \<lparr>h_socks = socks, h_ehash = (\<lambda>_. []), h_listening = (\<lambda>_. []), h_listening_count = (\<lambda>_. 0),
     h_lhash2 = Some (\<lambda>_. []), h_lhash2_count = (\<lambda>_. 0), h_inuse = 0\<rparr>"

text \<open>C28: after any sequence of operations on the tables, each chain holds exactly the hashed sockets
  with its hash, each of them once, and the counters are the lengths of the chains: a listening socket is in
  both listener tables, a connection in the table of connections, and an unhashed socket nowhere.\<close>

theorem hash_tables_consistent:
  assumes "(hash_step e)\<^sup>*\<^sup>* (empty_tables socks) h" "\<forall>s. \<not> hs_hashed (socks s) \<and> \<not> hs_listen_hashed (socks s)"
  shows "tables_ok e h"
  using assms(1)
proof (induction rule: rtranclp_induct)
  case base
  show ?case using assms(2) by (auto simp: tables_ok_def empty_tables_def chain_ok_def listens_def)
qed (rule hash_step_ok)

definition sample_env :: hash_env where
  "sample_env = \<lparr>jhash_1word = (\<lambda>a b. a + b), jhash_3words = (\<lambda>a b c d. a + b + c + d), siphash = (\<lambda>bs. of_nat (length bs)),
     net_hash_mix = of_nat, ninet_ehash_secret = 3, ninet_hash_secret = 5, ktime_get_real_ns = 640, ehash_mask = 7, lhash2_mask = 3,
     inet_lhashfn = (\<lambda>net p. and (ucast p + of_nat net) 31), inet_sk_bound_dev_eq = (\<lambda>net b d sd. b = 0 \<or> b = d \<or> b = sd),
     reciprocal_scale = (\<lambda>v n. v mod n), next_pseudo_random32 = (\<lambda>x. x * 1664525 + 1013904223), smp_processor_id = 0,
     inet_ehash_nolisten = (\<lambda>h s osk. h)\<rparr>"

definition sample_sock :: "nip_addr \<Rightarrow> nip_addr \<Rightarrow> u16 \<Rightarrow> tcp_state \<Rightarrow> hsock" where
  "sample_sock a d p st = \<lparr>hs_net = 1, hs_ninet = True, hs_rcv_saddr = a, hs_daddr = d, hs_num = p, hs_sport = htons p,
     hs_dport = 0x5000, hs_bound_dev_if = 0, hs_incoming_cpu = -1, hs_reuseport = False, hs_state = st, hs_hash = 0,
     hs_refcnt = 1, hs_hashed = False, hs_listen_hashed = False, hs_rcu_free = False\<rparr>"

definition sample_socks :: "sid \<Rightarrow> hsock" where
  "sample_socks s = (if s = 1 then sample_sock (short_addr 5) nip_any_addr 80 TCP_LISTEN
     else if s = 2 then sample_sock nip_any_addr nip_any_addr 80 TCP_LISTEN
     else if s = 3 then sample_sock (short_addr 5) (short_addr 9) 0 TCP_SYN_SENT
     else sample_sock (short_addr 5) (short_addr 9) 0 TCP_CLOSE)"

theorem hash_tables_consistent_witness:
  "tables_ok sample_env (snd (ninet_check_established sample_env (snd (ninet_hash sample_env (empty_tables sample_socks) 1)) 3 4000))"
proof (rule hash_tables_consistent [of sample_env sample_socks])
  let ?h1 = "snd (ninet_hash sample_env (empty_tables sample_socks) 1)"
  have "hash_step sample_env (empty_tables sample_socks) ?h1"
    by (rule listen_step) (simp_all add: empty_tables_def sample_socks_def sample_sock_def)
  moreover have "hash_step sample_env ?h1 (snd (ninet_check_established sample_env ?h1 3 4000))"
    by (rule connect_step) (simp_all add: empty_tables_def sample_socks_def sample_sock_def ninet_hash_def ninet_hash_listen_def
        ninet_hash2_def Let_def)
  ultimately show "(hash_step sample_env)\<^sup>*\<^sup>* (empty_tables sample_socks)
      (snd (ninet_check_established sample_env ?h1 3 4000))" by (rule converse_rtranclp_into_rtranclp [OF _ r_into_rtranclp])
  show "\<forall>s. \<not> hs_hashed (sample_socks s) \<and> \<not> hs_listen_hashed (sample_socks s)"
    by (simp add: sample_socks_def sample_sock_def)
qed

section \<open>Lookups find what is hashed\<close>

text \<open>An address in the form the decoder of the header produces: valid, and zero behind its length.\<close>

definition norm_addr :: "nip_addr \<Rightarrow> bool" where
  "norm_addr a \<longleftrightarrow> wf_addr a \<and> nip_addr_invalid a = CURRENT_ADDR_VALID \<and> bitlen a \<le> 64"

lemma norm_addr_eq: "norm_addr a \<Longrightarrow> norm_addr b \<Longrightarrow> nip_addr_eq a b \<longleftrightarrow> a = b"
  by (auto simp: norm_addr_def nip_addr_eq_valid)

lemma norm_any: "norm_addr nip_any_addr"
  using any_addr_valid by (simp add: norm_addr_def) (simp add: nip_any_addr_def)

lemma sample_addr_norm: "norm_addr (short_addr 5)" "norm_addr (short_addr 6)" "norm_addr (short_addr 9)"
  by (simp_all add: norm_addr_def short_addr_valid wf_short_addr) (simp_all add: short_addr_def short_bytes_def)

text \<open>The listeners a segment may be delivered to.\<close>

definition listener_for :: "hash_env \<Rightarrow> nat \<Rightarrow> u16 \<Rightarrow> nip_addr \<Rightarrow> int \<Rightarrow> int \<Rightarrow> hsock \<Rightarrow> bool" where
  "listener_for e net hnum daddr dif sdif sk \<longleftrightarrow> listens sk \<and> hs_num sk = hnum \<and> hs_ninet sk \<and> hs_net sk = net \<and>
     (hs_rcv_saddr sk = daddr \<or> hs_rcv_saddr sk = nip_any_addr) \<and>
     inet_sk_bound_dev_eq e net (hs_bound_dev_if sk) dif sdif"

lemma score_pos:
  assumes "norm_addr (hs_rcv_saddr sk)" "norm_addr daddr" "listens sk"
  shows "0 < nip_tcp_compute_score e sk net hnum daddr dif sdif \<longleftrightarrow> listener_for e net hnum daddr dif sdif sk"
  using assms by (auto simp: nip_tcp_compute_score_def listener_for_def norm_addr_eq norm_any Let_def)

lemma lookup_listener_lhash2:
  assumes "h_lhash2 h = Some t"
  shows "ninet_lookup_listener e h net saddr sport daddr hnum dif sdif =
    (case lhash2_walk e (\<lambda>s. nip_tcp_compute_score e (h_socks h s) net hnum daddr dif sdif) (\<lambda>s. hs_reuseport (h_socks h s))
        (ninet_ehashfn e net daddr hnum saddr sport) None 0 0 False 0 (t (and (nip_portaddr_hash e net daddr (ucast hnum)) (lhash2_mask e))) of
      Some s \<Rightarrow> Some s
    | None \<Rightarrow> lhash2_walk e (\<lambda>s. nip_tcp_compute_score e (h_socks h s) net hnum nip_any_addr dif sdif) (\<lambda>s. hs_reuseport (h_socks h s))
        (ninet_ehashfn e net nip_any_addr hnum saddr sport) None 0 0 False 0
        (t (and (nip_portaddr_hash e net nip_any_addr (ucast hnum)) (lhash2_mask e))))"
  unfolding ninet_lookup_listener_def ninet_lhash2_lookup_def Let_def assms by (simp only: option.case)

lemma listener_lookup:
  assumes ok: "tables_ok e h" and norm: "\<forall>s. listens (h_socks h s) \<longrightarrow> norm_addr (hs_rcv_saddr (h_socks h s))"
    and d: "norm_addr daddr"
  shows "(ninet_lookup_listener e h net saddr sport daddr hnum dif sdif = None \<longleftrightarrow>
      (\<nexists>s. listener_for e net hnum daddr dif sdif (h_socks h s))) \<and>
    (\<forall>s. ninet_lookup_listener e h net saddr sport daddr hnum dif sdif = Some s \<longrightarrow>
      listener_for e net hnum daddr dif sdif (h_socks h s) \<and>
      (\<forall>s'. listener_for e net hnum daddr dif sdif (h_socks h s') \<and> hs_rcv_saddr (h_socks h s') = daddr \<longrightarrow>
         nip_tcp_compute_score e (h_socks h s') net hnum daddr dif sdif \<le> nip_tcp_compute_score e (h_socks h s) net hnum daddr dif sdif))"
proof -
  obtain t where t: "h_lhash2 h = Some t"
    and c2: "chain_ok t (\<lambda>s. listens (h_socks h s)) (\<lambda>s. ninet_lhash2_bucket_sk e (h_socks h s))"
    using ok by (rule tables_okE)
  define A where "A = {s. listens (h_socks h s)}"
  define sc where "sc = (\<lambda>s. nip_tcp_compute_score e (h_socks h s) net hnum daddr dif sdif)"
  define sw where "sw = (\<lambda>s. nip_tcp_compute_score e (h_socks h s) net hnum nip_any_addr dif sdif)"
  define k where "k = (\<lambda>a s. ninet_lhash2_bucket_sk e (h_socks h s) = and (nip_portaddr_hash e net a (ucast hnum)) (lhash2_mask e))"
  let ?L = "\<lambda>s. listener_for e net hnum daddr dif sdif (h_socks h s)"
  have p: "s \<in> A \<Longrightarrow> 0 < sc s \<longleftrightarrow> ?L s" for s
    unfolding sc_def by (rule score_pos) (use norm d in \<open>simp_all add: A_def\<close>)
  have pw: "s \<in> A \<Longrightarrow> 0 < sw s \<longleftrightarrow> listener_for e net hnum nip_any_addr dif sdif (h_socks h s)" for s
    unfolding sw_def by (rule score_pos) (use norm norm_any in \<open>simp_all add: A_def\<close>)
  have kk: "listener_for e net hnum a dif sdif (h_socks h s) \<Longrightarrow> hs_rcv_saddr (h_socks h s) = a \<Longrightarrow> k a s" for s a
    by (auto simp: k_def listener_for_def ninet_lhash2_bucket_sk_def)
  have r: "(ninet_lookup_listener e h net saddr sport daddr hnum dif sdif = None \<longleftrightarrow> (\<forall>x \<in> A. sc x \<le> 0)) \<and>
    (\<forall>x. ninet_lookup_listener e h net saddr sport daddr hnum dif sdif = Some x \<longrightarrow>
      x \<in> A \<and> 0 < sc x \<and> (\<forall>y \<in> A. k daddr y \<and> 0 < sc y \<longrightarrow> sc y \<le> sc x))"
  proof (rule tcp_scan.two_scans)
    show "set (t (and (nip_portaddr_hash e net daddr (ucast hnum)) (lhash2_mask e))) = {x \<in> A. k daddr x}"
      "set (t (and (nip_portaddr_hash e net nip_any_addr (ucast hnum)) (lhash2_mask e))) = {x \<in> A. k nip_any_addr x}"
      using c2 by (simp_all add: chain_ok_def A_def k_def)
    show "ninet_lookup_listener e h net saddr sport daddr hnum dif sdif =
      (case lhash2_walk e sc (\<lambda>s. hs_reuseport (h_socks h s)) (ninet_ehashfn e net daddr hnum saddr sport) None 0 0 False 0
          (t (and (nip_portaddr_hash e net daddr (ucast hnum)) (lhash2_mask e))) of
        Some x \<Rightarrow> Some x
      | None \<Rightarrow> lhash2_walk e sw (\<lambda>s. hs_reuseport (h_socks h s)) (ninet_ehashfn e net nip_any_addr hnum saddr sport) None 0 0 False 0
          (t (and (nip_portaddr_hash e net nip_any_addr (ucast hnum)) (lhash2_mask e))))"
      unfolding sc_def sw_def by (rule lookup_listener_lhash2 [OF t])
    show "k daddr x \<or> 0 < sw x" if "x \<in> A" "0 < sc x" for x
      using kk [of daddr x] p [OF that(1)] pw [OF that(1)] that(2) by (auto simp: listener_for_def)
    show "k nip_any_addr x" "0 < sc x" if "x \<in> A" "0 < sw x" for x
      using kk [of nip_any_addr x] p [OF that(1)] pw [OF that(1)] that(2) by (auto simp: listener_for_def)
  qed
  have LA: "?L s \<Longrightarrow> s \<in> A" for s by (simp add: listener_for_def A_def)
  have "(\<forall>x \<in> A. sc x \<le> 0) \<longleftrightarrow> (\<nexists>s. ?L s)" using p LA by (meson not_le)
  moreover have "?L x \<and> (\<forall>y. ?L y \<and> hs_rcv_saddr (h_socks h y) = daddr \<longrightarrow> sc y \<le> sc x)"
    if "ninet_lookup_listener e h net saddr sport daddr hnum dif sdif = Some x" for x
  proof -
    have x: "x \<in> A" "0 < sc x" and m: "\<And>y. y \<in> A \<Longrightarrow> k daddr y \<Longrightarrow> 0 < sc y \<Longrightarrow> sc y \<le> sc x" using r that by blast+
    have "sc y \<le> sc x" if "?L y" "hs_rcv_saddr (h_socks h y) = daddr" for y
      using m [OF LA [OF that(1)] kk [OF that]] p [OF LA [OF that(1)]] that(1) by simp
    then show ?thesis using p [OF x(1)] x(2) by blast
  qed
  ultimately show ?thesis using r unfolding sc_def by simp
qed

text \<open>Connections: the sockets in the table, and the ones a segment belongs to.\<close>

definition conn_for :: "nat \<Rightarrow> nip_addr \<Rightarrow> u16 \<Rightarrow> nip_addr \<Rightarrow> u16 \<Rightarrow> int \<Rightarrow> hsock \<Rightarrow> bool" where
  "conn_for net saddr sport daddr hnum dif sk \<longleftrightarrow> connected sk \<and> hs_ninet sk \<and> hs_net sk = net \<and>
     hs_daddr sk = saddr \<and> hs_dport sk = sport \<and> hs_rcv_saddr sk = daddr \<and> hs_num sk = hnum \<and>
     (hs_bound_dev_if sk = 0 \<or> hs_bound_dev_if sk = dif)"

definition conns_norm :: "ninet_hashinfo \<Rightarrow> bool" where
  "conns_norm h \<longleftrightarrow> (\<forall>s. connected (h_socks h s) \<longrightarrow>
     norm_addr (hs_rcv_saddr (h_socks h s)) \<and> norm_addr (hs_daddr (h_socks h s)) \<and> 0 < hs_refcnt (h_socks h s))"

lemma match_conn_for:
  assumes "connected sk" "norm_addr (hs_rcv_saddr sk)" "norm_addr (hs_daddr sk)" "norm_addr saddr" "norm_addr daddr"
  shows "NINET_MATCH sk net saddr daddr (sport, hnum) dif \<longleftrightarrow> conn_for net saddr sport daddr hnum dif sk"
  using assms by (auto simp: NINET_MATCH_def conn_for_def norm_addr_eq)

lemma established_walk_result:
  assumes "\<And>s. s \<in> set ss \<Longrightarrow> hs_hash (h_socks h s) = hash \<Longrightarrow> M (h_socks h s) \<Longrightarrow> hs_refcnt (h_socks h s) \<noteq> 0"
  shows "fst (established_walk h hash M ss) = List.find (\<lambda>s. hs_hash (h_socks h s) = hash \<and> M (h_socks h s)) ss"
  using assms
proof (induction ss)
  case (Cons a ss)
  show ?case using Cons.prems [of a] Cons.IH [OF Cons.prems] by (cases "hs_hash (h_socks h a) = hash \<and> M (h_socks h a)") auto
qed simp

lemma ehash_mem:
  "tables_ok e h \<Longrightarrow> s \<in> set (h_ehash h b) \<longleftrightarrow> connected (h_socks h s) \<and> and (hs_hash (h_socks h s)) (ehash_mask e) = b"
  by (elim tables_okE) (simp add: chain_ok_mem connected_def)

lemma conn_for_in_chain:
  assumes "tables_ok e h" "hashes_ok e h" "conn_for net saddr sport daddr hnum dif (h_socks h s)"
  shows "hs_hash (h_socks h s) = ninet_ehashfn e net daddr hnum saddr sport"
    "s \<in> set (h_ehash h (and (ninet_ehashfn e net daddr hnum saddr sport) (ehash_mask e)))"
  using assms by (auto simp: ehash_mem hashes_ok_def conn_for_def ehash_key_def)

lemma established_lookup:
  assumes "tables_ok e h" "hashes_ok e h" "conns_norm h" "norm_addr saddr" "norm_addr daddr"
  shows "(fst (ninet_lookup_established e h net saddr sport daddr hnum dif) = None \<longleftrightarrow>
      (\<nexists>s. conn_for net saddr sport daddr hnum dif (h_socks h s))) \<and>
    (\<forall>s. fst (ninet_lookup_established e h net saddr sport daddr hnum dif) = Some s \<longrightarrow>
      conn_for net saddr sport daddr hnum dif (h_socks h s))"
proof -
  let ?H = "ninet_ehashfn e net daddr hnum saddr sport"
  let ?c = "h_ehash h (and ?H (ehash_mask e))"
  have M: "NINET_MATCH (h_socks h s) net saddr daddr (sport, hnum) dif \<longleftrightarrow> conn_for net saddr sport daddr hnum dif (h_socks h s)"
    and R: "hs_refcnt (h_socks h s) \<noteq> 0" if "s \<in> set ?c" for s
  proof -
    have "connected (h_socks h s)" using that assms(1) by (simp add: ehash_mem)
    then show "NINET_MATCH (h_socks h s) net saddr daddr (sport, hnum) dif \<longleftrightarrow> conn_for net saddr sport daddr hnum dif (h_socks h s)"
      "hs_refcnt (h_socks h s) \<noteq> 0"
      using assms(3-5) match_conn_for by (auto simp: conns_norm_def)
  qed
  have "fst (ninet_lookup_established e h net saddr sport daddr hnum dif) =
      List.find (\<lambda>s. hs_hash (h_socks h s) = ?H \<and> NINET_MATCH (h_socks h s) net saddr daddr (sport, hnum) dif) ?c"
    unfolding ninet_lookup_established_def Let_def by (rule established_walk_result) (use R in blast)
  also have "\<dots> = List.find (\<lambda>s. hs_hash (h_socks h s) = ?H \<and> conn_for net saddr sport daddr hnum dif (h_socks h s)) ?c"
    by (rule find_cong) (simp_all add: M)
  finally have F: "fst (ninet_lookup_established e h net saddr sport daddr hnum dif) = \<dots>" .
  have "(\<nexists>s. s \<in> set ?c \<and> hs_hash (h_socks h s) = ?H \<and> conn_for net saddr sport daddr hnum dif (h_socks h s)) \<longleftrightarrow>
      (\<nexists>s. conn_for net saddr sport daddr hnum dif (h_socks h s))"
    using conn_for_in_chain [OF assms(1,2)] by blast
  then show ?thesis unfolding F by (auto simp: find_None_iff find_Some_iff)
qed

definition tuples_unique :: "ninet_hashinfo \<Rightarrow> bool" where
  "tuples_unique h \<longleftrightarrow> (\<forall>a b net saddr sport daddr hnum. conn_for net saddr sport daddr hnum 0 (h_socks h a) \<longrightarrow>
     conn_for net saddr sport daddr hnum 0 (h_socks h b) \<longrightarrow> a = b)"

lemma tuple_in_use_iff:
  assumes ok: "tables_ok e h" "hashes_ok e h" "conns_norm h" and n: "norm_addr (hs_rcv_saddr sk)" "norm_addr (hs_daddr sk)"
    and H: "H = ninet_ehashfn e (hs_net sk) (hs_rcv_saddr sk) lport (hs_daddr sk) (hs_dport sk)"
  shows "tuple_in_use h sk lport H (h_ehash h (and H (ehash_mask e))) \<longleftrightarrow>
    (\<exists>s2. conn_for (hs_net sk) (hs_daddr sk) (hs_dport sk) (hs_rcv_saddr sk) lport (hs_bound_dev_if sk) (h_socks h s2))"
proof -
  have "NINET_MATCH (h_socks h x) (hs_net sk) (hs_daddr sk) (hs_rcv_saddr sk) (hs_dport sk, lport) (hs_bound_dev_if sk) \<longleftrightarrow>
      conn_for (hs_net sk) (hs_daddr sk) (hs_dport sk) (hs_rcv_saddr sk) lport (hs_bound_dev_if sk) (h_socks h x)"
    if "x \<in> set (h_ehash h b)" for x b
    using that ok(3) n by (intro match_conn_for) (simp_all add: ehash_mem [OF ok(1)] conns_norm_def)
  then show ?thesis unfolding tuple_in_use_def
    using conn_for_in_chain [OF ok(1,2)] H by blast
qed

lemma conn_for_self:
  "conn_for net saddr sport daddr hnum 0 sk \<Longrightarrow>
    net = hs_net sk \<and> saddr = hs_daddr sk \<and> sport = hs_dport sk \<and> daddr = hs_rcv_saddr sk \<and> hnum = hs_num sk"
  by (simp add: conn_for_def)

lemma established_walk_head:
  "hs_hash (h_socks h s) = hash \<Longrightarrow> M (h_socks h s) \<Longrightarrow> 0 < hs_refcnt (h_socks h s) \<Longrightarrow>
    fst (established_walk h hash M (s # ss)) = Some s"
  by simp

text \<open>A port is given to a connecting socket exactly when no connection it could be mistaken for has its
  four-tuple (otherwise the tables do not change), and from then on segments of the new connection find it. While
  no socket is bound to a device, no two connections get the same four-tuple.\<close>

lemma connect_keeps_tuples_unique:
  assumes ok: "tables_ok e h" "hashes_ok e h" "conns_norm h"
    and s: "\<not> hs_hashed (h_socks h s)" "hs_state (h_socks h s) \<noteq> TCP_LISTEN" "0 < hs_refcnt (h_socks h s)"
      "hs_ninet (h_socks h s)" "norm_addr (hs_rcv_saddr (h_socks h s))" "norm_addr (hs_daddr (h_socks h s))"
    and b: "hs_bound_dev_if (h_socks h s) = 0" and sk: "sk = h_socks h s"
    and r: "ninet_check_established e h s lport = (err, h')"
  shows "if \<exists>s2. conn_for (hs_net sk) (hs_daddr sk) (hs_dport sk) (hs_rcv_saddr sk) lport 0 (h_socks h s2)
    then err = - EADDRNOTAVAIL \<and> h' = h
    else err = 0 \<and> tables_ok e h' \<and> hashes_ok e h' \<and> conns_norm h' \<and>
      (\<forall>dif. fst (ninet_lookup_established e h' (hs_net sk) (hs_daddr sk) (hs_dport sk) (hs_rcv_saddr sk) lport dif) = Some s) \<and>
      (tuples_unique h \<longrightarrow> tuples_unique h')"
proof -
  let ?H = "ninet_ehashfn e (hs_net sk) (hs_rcv_saddr sk) lport (hs_daddr sk) (hs_dport sk)"
  let ?used = "\<exists>s2. conn_for (hs_net sk) (hs_daddr sk) (hs_dport sk) (hs_rcv_saddr sk) lport 0 (h_socks h s2)"
  have u: "tuple_in_use h sk lport ?H (h_ehash h (and ?H (ehash_mask e))) \<longleftrightarrow> ?used"
    using tuple_in_use_iff [OF ok, of sk ?H lport] s b sk by simp
  show ?thesis
  proof (cases ?used)
    case True
    with r u sk show ?thesis by (simp add: ninet_check_established_def Let_def)
  next
    case False
    then have f: "fst (ninet_check_established e h s lport) = 0"
      using u by (simp add: ninet_check_established_def Let_def flip: sk)
    define new where "new = h_socks h s\<lparr>hs_num := lport, hs_sport := htons lport,
      hs_hash := ehash_key e (h_socks h s\<lparr>hs_num := lport\<rparr>), hs_hashed := True\<rparr>"
    note S = check_established_free [OF f, folded new_def, unfolded r snd_conv]
    have kH: "ehash_key e (h_socks h s\<lparr>hs_num := lport\<rparr>) = ?H" by (simp add: ehash_key_def sk)
    have H: "h_socks h' = (h_socks h)(s := new)" by (simp add: S)
    have nc: "connected new" "hs_hash new = ?H" "ehash_key e new = ?H"
      using s(2) kH by (simp_all add: new_def connected_def ehash_key_def sk)
    have nf: "hs_net new = hs_net sk" "hs_daddr new = hs_daddr sk" "hs_dport new = hs_dport sk" "hs_num new = lport"
      "hs_rcv_saddr new = hs_rcv_saddr sk" "hs_refcnt new = hs_refcnt sk" "hs_bound_dev_if new = 0" "hs_ninet new"
      using b s by (simp_all add: new_def sk)
    have t: "tables_ok e h'" using check_established_ok [OF ok(1) s(1,2), of lport] r by simp
    have "hashes_ok e h'" using ok(2) nc by (simp add: hashes_ok_def H)
    moreover have "conns_norm h'" using ok(3) s(3,5,6) nf sk by (simp add: conns_norm_def H)
    moreover have "fst (ninet_lookup_established e h' (hs_net sk) (hs_daddr sk) (hs_dport sk) (hs_rcv_saddr sk) lport dif) = Some s" for dif
    proof -
      have c: "h_ehash h' (and ?H (ehash_mask e)) = s # h_ehash h (and ?H (ehash_mask e))" by (simp add: S kH)
      have "NINET_MATCH new (hs_net sk) (hs_daddr sk) (hs_rcv_saddr sk) (hs_dport sk, lport) dif"
        using nf s(5,6) by (simp add: NINET_MATCH_def nip_addr_eq_refl norm_addr_def sk)
      then show ?thesis unfolding ninet_lookup_established_def Let_def c
        by (intro established_walk_head) (use nc nf s(3) sk in \<open>simp_all add: H\<close>)
    qed
    moreover have "tuples_unique h'" if "tuples_unique h"
      unfolding tuples_unique_def
    proof (intro allI impI)
      fix a b' net saddr sport daddr hnum
      assume ab: "conn_for net saddr sport daddr hnum 0 (h_socks h' a)" "conn_for net saddr sport daddr hnum 0 (h_socks h' b')"
      have x: "\<not> conn_for net saddr sport daddr hnum 0 (h_socks h x)" if "conn_for net saddr sport daddr hnum 0 new" for x
        using False conn_for_self [OF that] nf by auto
      show "a = b'"
        using ab x \<open>tuples_unique h\<close> unfolding H tuples_unique_def by (metis fun_upd_apply)
    qed
    ultimately show ?thesis using False f r t by simp
  qed
qed

definition sample_conn :: ninet_hashinfo where
  "sample_conn =
    (let sk = sample_sock (short_addr 5) (short_addr 9) 4000 TCP_ESTABLISHED;
         H = ehash_key sample_env sk in
     (empty_tables sample_socks)\<lparr>h_socks := sample_socks(3 := sk\<lparr>hs_hash := H, hs_hashed := True\<rparr>),
       h_ehash := (\<lambda>b. if b = and H 7 then [3] else []), h_inuse := 1\<rparr>)"

lemma sample_conn_socks: "h_socks sample_conn = sample_socks(3 := (sample_sock (short_addr 5) (short_addr 9) 4000 TCP_ESTABLISHED)
    \<lparr>hs_hash := ehash_key sample_env (sample_sock (short_addr 5) (short_addr 9) 4000 TCP_ESTABLISHED), hs_hashed := True\<rparr>)"
  by (simp add: sample_conn_def Let_def)

lemma sample_conn_ok:
  "tables_ok sample_env sample_conn" "hashes_ok sample_env sample_conn" "conns_norm sample_conn" "\<not> listens (h_socks sample_conn s)"
  "conn_for 1 (short_addr 9) 0x5000 (short_addr 5) 4000 dif (h_socks sample_conn s) \<longleftrightarrow> s = 3"
proof -
  note S = sample_conn_socks
  have c: "connected (h_socks sample_conn s) \<longleftrightarrow> s = 3" "\<not> listens (h_socks sample_conn s)" "\<not> hs_listen_hashed (h_socks sample_conn s)" for s
    unfolding S by (auto simp: sample_socks_def sample_sock_def connected_def listens_def)
  show "tables_ok sample_env sample_conn"
    using c by (auto simp: tables_ok_def chain_ok_def connected_def)
      (simp_all add: sample_conn_def Let_def empty_tables_def sample_env_def split: if_splits)
  show "hashes_ok sample_env sample_conn"
    unfolding hashes_ok_def c unfolding S by (simp add: ehash_key_def)
  show "conns_norm sample_conn"
    unfolding conns_norm_def c unfolding S by (simp add: sample_sock_def sample_addr_norm)
  show "\<not> listens (h_socks sample_conn s)" by (rule c)
  have "conn_for 1 (short_addr 9) 0x5000 (short_addr 5) 4000 dif (h_socks sample_conn 3)"
    unfolding S by (simp add: conn_for_def connected_def sample_sock_def)
  then show "conn_for 1 (short_addr 9) 0x5000 (short_addr 5) 4000 dif (h_socks sample_conn s) \<longleftrightarrow> s = 3"
    using c(1) [of s] by (auto simp: conn_for_def)
qed

end
