(* ===== verification/TcpReq.thy ===== *)
theory TcpReq
  imports TcpUser NinetHash NipIo
begin

text \<open>
  Connection requests and the three-way handshake on the side of the listening socket: tcp_nip_conn_request, the
  SYN-ACK, tcp_nip_check_req, the child socket and its first segment (src/src/linux/net/newip/tcp_nip_input.c,
  tcp_nip_output.c, tcp_nip.c) and the queue of requests with its timer (ninet_connection_sock.c). The kernel's
  part (clone of a socket, hash table, accept queue, memory) is in the environment req_env or written out as
  documented. The lemmas follow the three segments between a client (TcpConn, TcpIn) and a listener.
\<close>

section \<open>Segments, requests and listeners\<close>

text \<open>A segment with the addresses of its packet and its ports (in network order).\<close>

record tcp_segment =
  sg_saddr :: nip_addr
  sg_daddr :: nip_addr
  sg_source :: u16
  sg_dest :: u16
  sg_skb :: tcp_skb

text \<open>struct tcp_nip_request_sock with the parts of the kernel's request it contains. num_timeout has 7 bits.\<close>

record tcp_nip_request_sock =
  req_common :: tcp_nip_common
  rcv_isn :: u32
  snt_isn :: u32
  req_rcv_nxt :: u32
  req_mss :: u16
  rsk_rcv_wnd :: u32
  rsk_window_clamp :: u32
  req_wscale_ok :: bool
  req_snd_wscale :: nat
  req_rcv_wscale :: nat
  ir_acked :: bool
  ir_rmt_addr :: nip_addr
  ir_loc_addr :: nip_addr
  ir_rmt_port :: u16
  ir_num :: u16
  ir_iif :: int
  num_retrans :: u8
  num_timeout :: nat
  rsk_timer :: "64 word"

text \<open>A child socket with its identity.\<close>

record tcp_child =
  c_sk :: tcp_nip_sock
  c_daddr :: nip_addr
  c_rcv_saddr :: nip_addr
  c_dport :: u16
  c_num :: u16

text \<open>A listening socket: its requests (the queue and the table of connections hold the same), the queue
  of accepted connections, the segments it sent, and how often it woke its reader.\<close>

record tcp_listener =
  l_sk :: tcp_nip_sock
  l_bound_dev_if :: int
  l_max_ack_backlog :: nat
  l_reqs :: "tcp_nip_request_sock list"
  l_accept :: "tcp_child list"
  l_drops :: nat
  l_out :: "tcp_segment list"
  l_woken :: nat

text \<open>The metrics of a route.\<close>

record route_metrics =
  rd_mtu :: u32
  rd_advmss :: int
  rd_window :: u32

text \<open>What the calls get from the kernel and from the routes: the memory of a new request (with what it held before), the
  route to an address, the clone of a listening socket, and whether buffers, checks and hash tables go along.\<close>

record req_env =
  rq_tcp :: tcp_env
  rq_hash :: hash_env
  reqsk_alloc :: "tcp_nip_request_sock option"
  security_ok :: bool
  rq_route :: "nip_addr \<Rightarrow> route_metrics option"
  synack_alloc :: bool
  synack_xmit :: "tcp_segment \<Rightarrow> int"
  inet_csk_clone_lock :: "tcp_nip_sock \<Rightarrow> tcp_nip_request_sock \<Rightarrow> tcp_nip_sock option"
  inet_inherit_port :: int
  ehash_nolisten :: bool                \<comment> \<open>the child took the place of its request in the table\<close>
  child_owned :: bool
  abort_on_overflow :: bool
  tcp_synack_retries :: nat
  syn_retries :: nat                   \<comment> \<open>icsk_syn_retries of the listening socket\<close>

definition tcp_listendrop :: "tcp_listener \<Rightarrow> tcp_listener" where
  "tcp_listendrop l = l\<lparr>l_drops := l_drops l + 1\<rparr>"

definition reqsk_queue_is_full :: "tcp_listener \<Rightarrow> bool" where
  "reqsk_queue_is_full l \<longleftrightarrow> length (l_reqs l) \<ge> l_max_ack_backlog l"

definition acceptq_is_full :: "tcp_listener \<Rightarrow> bool" where
  "acceptq_is_full l \<longleftrightarrow> length (l_accept l) > l_max_ack_backlog l"

section \<open>The request of a SYN\<close>

definition tcp_nip_common_init :: "tcp_env \<Rightarrow> tcp_nip_common" where
  "tcp_nip_common_init e = \<lparr>ack_retrans_num = 0, ack_retrans_seq = 0, nip_ssthresh = of_int (nip_ssthresh_default (params e)),
     nip_ssthresh_reset = 0, nip_keepalive_enable = False, idle_ka_probes_out = 0, nip_keepalive_out = 0, last_rcv_nxt = 0,
     dup_ack_cnt = 0, keepalive_time_bak = 0, keepalive_probes_bak = 0, keepalive_intvl_bak = 0\<rparr>"

text \<open>tcp_nip_openreq_init; wscale_ok keeps what the memory held when window scaling is off.\<close>

definition tcp_nip_openreq_init :: "tcp_env \<Rightarrow> u16 \<Rightarrow> tcp_segment \<Rightarrow> tcp_nip_request_sock \<Rightarrow> tcp_nip_request_sock" where
  "tcp_nip_openreq_init e clamp sg req =
    (let skb = sg_skb sg; p = params e;
         req = req\<lparr>req_common := tcp_nip_common_init e, rsk_rcv_wnd := 0, rcv_isn := pkt_seq skb, req_rcv_nxt := pkt_seq skb + 1,
           req_mss := clamp, req_snd_wscale := 0\<rparr>;
         req = (if wscale_enable p then req\<lparr>req_wscale_ok := True, req_snd_wscale := nat (wscale p mod 16),
           req_rcv_wscale := nat (wscale p mod 16)\<rparr> else req)
     in req\<lparr>ir_acked := False, ir_rmt_port := sg_source sg, ir_num := ntohs (sg_dest sg)\<rparr>)"

definition tcp_nip_init_req :: "tcp_segment \<Rightarrow> tcp_nip_request_sock \<Rightarrow> tcp_nip_request_sock" where
  "tcp_nip_init_req sg req = req\<lparr>ir_rmt_addr := sg_saddr sg, ir_loc_addr := sg_daddr sg\<rparr>"

text \<open>tcp_nip_init_sequence: behind the destination address in the control block lies the source address, and behind
  that the protocol number.\<close>

definition tcp_nip_init_sequence :: "hash_env \<Rightarrow> tcp_segment \<Rightarrow> u32 option" where
  "tcp_nip_init_sequence he sg =
    secure_tcp_nip_sequence_number he (field8 (sg_daddr sg) @ [bitlen (sg_saddr sg)]) (field8 (sg_saddr sg) @ [IPPROTO_TCP])
      (sg_dest sg) (sg_source sg)"

text \<open>tcp_nip_route_req leaves the source address and the device of the flow uninitialised.\<close>

definition tcp_nip_route_req :: "req_env \<Rightarrow> tcp_nip_request_sock \<Rightarrow> route_metrics option" where
  "tcp_nip_route_req re req = rq_route re (ir_rmt_addr req)"

definition tcp_nip_openreq_init_rwin :: "tcp_env \<Rightarrow> tcp_nip_sock \<Rightarrow> route_metrics \<Rightarrow> tcp_nip_request_sock \<Rightarrow> tcp_nip_request_sock" where
  "tcp_nip_openreq_init_rwin e sk dst req =
    (let full_space = tcp_full_space e sk; mss = tcp_mss_clamp sk (rd_advmss dst);
         clamp = (if window_clamp sk \<noteq> 0 then window_clamp sk else rd_window dst);
         clamp = (if rcvbuf_locked sk \<and> (clamp > of_int full_space \<or> clamp = 0) then of_int full_space else clamp);
         (wnd, clamp, wsc) = select_initial_window e full_space mss clamp; p = params e
     in req\<lparr>rsk_rcv_wnd := wnd, rsk_window_clamp := clamp,
          req_rcv_wscale := (if wscale_enable p then nat (wscale p mod 16) else wsc)\<rparr>)"

section \<open>The SYN-ACK\<close>

text \<open>get_nip_mss may raise the advmss of the listening socket.\<close>

definition get_nip_mss :: "tcp_nip_sock \<Rightarrow> route_metrics \<Rightarrow> tcp_nip_request_sock \<Rightarrow> int \<times> tcp_nip_sock" where
  "get_nip_mss sk dst req =
    (let mss = rd_advmss dst; mss = (if user_mss sk \<noteq> 0 \<and> uint (user_mss sk) < mss then uint (user_mss sk) else mss);
         n = get_nip_hdr_len NIP_HDR_COMM (Some (ir_loc_addr req)) (Some (ir_rmt_addr req));
         nip_mss = uint (rd_mtu dst) - int (if n = 0 then NIP_HDR_MAX else n) - TCPHDR_LEN
     in if nip_mss > mss then (nip_mss, sk\<lparr>advmss := of_int nip_mss\<rparr>) else (mss, sk))"

definition tcp_nip_synack_options :: "int \<Rightarrow> bytes" where
  "tcp_nip_synack_options mss = tcp_nip_options_write (of_int mss)"

definition tcp_nip_make_synack ::
  "bool \<Rightarrow> tcp_nip_sock \<Rightarrow> route_metrics \<Rightarrow> tcp_nip_request_sock \<Rightarrow> tcp_segment option \<times> tcp_nip_sock" where
  "tcp_nip_make_synack alloc_ok sk dst req =
    (if \<not> alloc_ok then (None, sk)
     else
       let (mss, sk) = get_nip_mss sk dst req
       in (Some \<lparr>sg_saddr = ir_loc_addr req, sg_daddr = ir_rmt_addr req, sg_source = htons (ir_num req), sg_dest = ir_rmt_port req,
             sg_skb = \<lparr>pkt_seq = snt_isn req, pkt_end_seq = snt_isn req + 1, pkt_ack_seq = req_rcv_nxt req,
               pkt_flags = or TCPHDR_SYN TCPHDR_ACK, pkt_data = [], pkt_tstamp = 0, pkt_pcount = 1, pkt_gso_size = 0,
               th_window = ucast (min (rsk_rcv_wnd req) 65535), th_urg = 0, th_opts = tcp_nip_synack_options mss\<rparr>\<rparr>, sk))"

text \<open>tcp_nip_send_synack with nip_send_synack.\<close>

definition tcp_nip_send_synack :: "req_env \<Rightarrow> route_metrics \<Rightarrow> tcp_nip_request_sock \<Rightarrow> tcp_listener \<Rightarrow> int \<times> tcp_listener" where
  "tcp_nip_send_synack re dst req l =
    (case tcp_nip_make_synack (synack_alloc re) (l_sk l) dst req of
       (None, sk) \<Rightarrow> (- ENOMEM, l\<lparr>l_sk := sk\<rparr>)
     | (Some sg, sk) \<Rightarrow> (synack_xmit re sg, l\<lparr>l_sk := sk, l_out := l_out l @ [sg]\<rparr>))"

section \<open>The queue of requests and its timer (ninet_connection_sock.c)\<close>

definition ninet_csk_reqsk_queue_hash_add :: "tcp_env \<Rightarrow> tcp_nip_request_sock \<Rightarrow> u32 \<Rightarrow> tcp_listener \<Rightarrow> tcp_listener" where
  "ninet_csk_reqsk_queue_hash_add e req timeout l =
    l\<lparr>l_reqs := l_reqs l @ [req\<lparr>num_retrans := 0, num_timeout := 0, rsk_timer := jiffies e + ucast timeout\<rparr>]\<rparr>"

text \<open>A route that is missing makes tcp_nip_rtx_synack use a null pointer.\<close>

definition tcp_nip_rtx_synack :: "req_env \<Rightarrow> tcp_nip_request_sock \<Rightarrow> tcp_listener \<Rightarrow> (int \<times> tcp_listener) option" where
  "tcp_nip_rtx_synack re req l =
    (case tcp_nip_route_req re req of None \<Rightarrow> None | Some dst \<Rightarrow> Some (tcp_nip_send_synack re dst req l))"

text \<open>ninet_reqsk_timer_handler for the i-th request.\<close>

definition req_thresh :: "req_env \<Rightarrow> nat" where
  "req_thresh re = (if syn_retries re \<noteq> 0 then syn_retries re else tcp_synack_retries re)"

definition ninet_reqsk_timer_handler :: "req_env \<Rightarrow> nat \<Rightarrow> tcp_listener \<Rightarrow> tcp_listener option" where
  "ninet_reqsk_timer_handler re i l =
    (let req = l_reqs l ! i; e = rq_tcp re
     in if num_timeout req \<le> req_thresh re then do {
          (_, l) \<leftarrow> tcp_nip_rtx_synack re req l;
          Some (l\<lparr>l_reqs := (l_reqs l)[i := req\<lparr>num_retrans := num_retrans req + 1, num_timeout := (num_timeout req + 1) mod 128,
            rsk_timer := jiffies e + ucast (min (TCP_TIMEOUT_INIT e) (TCP_RTO_MAX e))\<rparr>]\<rparr>)
        }
        else Some (l\<lparr>l_reqs := take i (l_reqs l) @ drop (Suc i) (l_reqs l)\<rparr>))"

section \<open>A SYN at the listening socket\<close>

definition ninet_reqsk_alloc :: "req_env \<Rightarrow> tcp_nip_request_sock option" where
  "ninet_reqsk_alloc re = reqsk_alloc re"

text \<open>_tcp_nip_conn_request. It returns 0 always; the result of the SYN-ACK is not looked at.\<close>

definition tcp_nip_conn_request :: "req_env \<Rightarrow> tcp_segment \<Rightarrow> tcp_listener \<Rightarrow> (int \<times> tcp_listener) option" where
  "tcp_nip_conn_request re sg l =
    (let e = rq_tcp re; sk = l_sk l in
     if reqsk_queue_is_full l then Some (0, tcp_listendrop l)
     else if acceptq_is_full l then Some (0, tcp_listendrop l)
     else case ninet_reqsk_alloc re of
         None \<Rightarrow> Some (0, tcp_listendrop l)
       | Some req \<Rightarrow>
         let clamp = tcp_nip_parse_options (flag (pkt_flags (sg_skb sg)) TCPHDR_SYN) False (user_mss sk) (th_opts (sg_skb sg)) (of_int TCP_BASE_MSS);
             req = tcp_nip_init_req sg ((tcp_nip_openreq_init e clamp sg req)\<lparr>ir_iif := l_bound_dev_if l\<rparr>)
         in if \<not> security_ok re then Some (0, tcp_listendrop l)
            else do {
              isn \<leftarrow> tcp_nip_init_sequence (rq_hash re) sg;
              (case tcp_nip_route_req re req of
                 None \<Rightarrow> Some (0, tcp_listendrop l)
               | Some dst \<Rightarrow>
                 let req = tcp_nip_openreq_init_rwin e sk dst (req\<lparr>snt_isn := isn\<rparr>);
                     l = ninet_csk_reqsk_queue_hash_add e req (TCP_TIMEOUT_INIT e) l;
                     (_, l) = tcp_nip_send_synack re dst req l
                 in Some (0, l))
            })"


section \<open>The child of a request\<close>

text \<open>tcp_nip_create_openreq_child, for the clone newsk and the segment that completes the handshake.\<close>

definition openreq_child :: "tcp_env \<Rightarrow> tcp_nip_request_sock \<Rightarrow> tcp_skb \<Rightarrow> tcp_nip_sock \<Rightarrow> tcp_nip_sock" where
  "openreq_child e req skb newsk =
    (let clamp = (if req_wscale_ok req then rsk_window_clamp req else min (rsk_window_clamp req) 65535);
         sws = (if req_wscale_ok req then req_snd_wscale req else 0);
         wnd = push_bit sws (ucast (th_window skb))
     in newsk\<lparr>
       rcv_wup := rcv_isn req + 1, copied_seq := rcv_isn req + 1, rcv_nxt := rcv_isn req + 1,
       snd_una := snt_isn req + 1, snd_nxt := snt_isn req + 1, snd_up := snt_isn req + 1, snd_wl1 := rcv_isn req,
       icsk_rto := nip_rto_init e, packets_out := 0, write_seq := snt_isn req + 1, pushed_seq := snt_isn req + 1,
       window_clamp := clamp, rcv_ssthresh := rsk_rcv_wnd req, rcv_wnd := rsk_rcv_wnd req, wscale_ok := req_wscale_ok req,
       snd_wscale := sws, rcv_wscale := (if req_wscale_ok req then req_rcv_wscale req else 0), snd_wnd := wnd, max_window := wnd,
       tcp_header_len := 20, mss_clamp := req_mss req\<rparr>)"

definition tcp_nip_create_openreq_child :: "req_env \<Rightarrow> tcp_nip_sock \<Rightarrow> tcp_nip_request_sock \<Rightarrow> tcp_skb \<Rightarrow> tcp_nip_sock option" where
  "tcp_nip_create_openreq_child re sk req skb = map_option (openreq_child (rq_tcp re) req skb) (inet_csk_clone_lock re sk req)"

text \<open>The part of the child NewIP adds is the one of the request, which starts over.\<close>

definition set_common :: "tcp_nip_common \<Rightarrow> tcp_nip_sock \<Rightarrow> tcp_nip_sock" where
  "set_common c sk = tcp_nip_common.extend c (tcp_nip_common.more sk)"

text \<open>tcp_nip_syn_recv_sock without a route given: the child and whether it took over the request, or the drop.\<close>

definition tcp_nip_syn_recv_sock ::
  "req_env \<Rightarrow> tcp_skb \<Rightarrow> tcp_nip_request_sock \<Rightarrow> tcp_listener \<Rightarrow> (tcp_child \<times> bool) option \<times> tcp_listener" where
  "tcp_nip_syn_recv_sock re skb req l =
    (if acceptq_is_full l then (None, tcp_listendrop l)
     else case tcp_nip_route_req re req of
         None \<Rightarrow> (None, tcp_listendrop l)
       | Some dst \<Rightarrow>
         (case tcp_nip_create_openreq_child re (l_sk l) req skb of
            None \<Rightarrow> (None, tcp_listendrop l)
          | Some newsk \<Rightarrow>
            let newsk = (set_common (req_common req) newsk)\<lparr>mss_cache := of_int TCP_BASE_MSS, ofo_queue := [],
                  advmss := of_int (tcp_mss_clamp (l_sk l) (rd_advmss dst))\<rparr>;
                newsk = tcp_nip_initialize_rcv_mss newsk
            in if inet_inherit_port re < 0 then (None, tcp_listendrop l)
               else (Some (\<lparr>c_sk = newsk, c_daddr = ir_rmt_addr req, c_rcv_saddr = ir_loc_addr req, c_dport = ir_rmt_port req,
                 c_num = ir_num req\<rparr>, ehash_nolisten re), l)))"

text \<open>The result of tcp_nip_check_req for the request at position i: no socket, the listening socket, or the child at a position
  of the queue of accepted connections. inet_csk_complete_hashdance moves the request there when the child took over.\<close>

datatype check_result = No_sock | Listener | Child nat

definition inet_csk_complete_hashdance :: "nat \<Rightarrow> tcp_child \<Rightarrow> bool \<Rightarrow> tcp_listener \<Rightarrow> check_result \<times> tcp_listener" where
  "inet_csk_complete_hashdance i child own l =
    (if \<not> own then (No_sock, l)
     else
       let l = l\<lparr>l_reqs := take i (l_reqs l) @ drop (Suc i) (l_reqs l)\<rparr>
       in if sk_state (l_sk l) \<noteq> TCP_LISTEN then (No_sock, l)
          else (Child (length (l_accept l)), l\<lparr>l_accept := l_accept l @ [child]\<rparr>))"

definition tcp_nip_check_req :: "req_env \<Rightarrow> tcp_skb \<Rightarrow> nat \<Rightarrow> tcp_listener \<Rightarrow> check_result \<times> tcp_listener" where
  "tcp_nip_check_req re skb i l =
    (let req = l_reqs l ! i; ack = flag (pkt_flags skb) TCPHDR_ACK in
     if ack \<and> pkt_ack_seq skb \<noteq> snt_isn req + 1 then (Listener, l)
     else if \<not> ack then (No_sock, l)
     else case tcp_nip_syn_recv_sock re skb req l of
         (None, l) \<Rightarrow> (No_sock, l\<lparr>l_reqs := (l_reqs l)[i := if abort_on_overflow re then req else req\<lparr>ir_acked := True\<rparr>]\<rparr>)
       | (Some (child, own), l) \<Rightarrow> inet_csk_complete_hashdance i child own l)"

text \<open>tcp_nip_child_process for the k-th accepted connection; a child the user has locked gets the segment later.\<close>

definition tcp_nip_child_process :: "req_env \<Rightarrow> tcp_skb \<Rightarrow> nat \<Rightarrow> tcp_listener \<Rightarrow> int \<times> tcp_listener" where
  "tcp_nip_child_process re skb k l =
    (let c = l_accept l ! k; state = sk_state (c_sk c) in
     if child_owned re then (0, l)
     else
       let (ret, sk) = tcp_nip_rcv_state_process (rq_tcp re) (\<lambda>_ sk. (0, sk)) skb (c_sk c);
           l = l\<lparr>l_accept := (l_accept l)[k := c\<lparr>c_sk := sk\<rparr>]\<rparr>
       in (ret, if state = TCP_SYN_RECV \<and> sk_state sk \<noteq> state then l\<lparr>l_woken := l_woken l + 1\<rparr> else l))"

text \<open>ninet_csk_accept takes the first accepted connection; without one it waits or fails.\<close>

definition ninet_csk_accept :: "tcp_listener \<Rightarrow> tcp_child option \<times> tcp_listener" where
  "ninet_csk_accept l = (case l_accept l of [] \<Rightarrow> (None, l) | c # cs \<Rightarrow> (Some c, l\<lparr>l_accept := cs\<rparr>))"


section \<open>The ends of a connection\<close>

text \<open>What the handshake has to get right.\<close>

definition conn :: "tcp_nip_sock \<Rightarrow> (u32 \<times> u32 \<times> u32 \<times> u32 \<times> u32) \<times> (tcp_skb list \<times> tcp_skb list \<times> tcp_skb list \<times> tcp_skb list)
    \<times> u32 \<times> int \<times> bool \<times> bool" where
  "conn sk = ((snd_una sk, snd_nxt sk, write_seq sk, rcv_nxt sk, copied_seq sk), (rtx_queue sk, send_queue sk, rcv_queue sk, ofo_queue sk),
     packets_out sk, sk_err sk, snd_shutdown sk, rcv_shutdown sk)"

lemma conn_out_frame: "out_frame a = out_frame b \<Longrightarrow> conn a = conn b"
proof -
  have "conn (out_frame sk) = conn sk" for sk by (simp add: out_frame_def conn_def)
  then show "out_frame a = out_frame b \<Longrightarrow> conn a = conn b" by metis
qed

lemma conn_transmit [simp]: "conn (snd (snd (tcp_nip_transmit e c n skb sk))) = conn sk"
  by (rule conn_out_frame) (rule transmit_frame)

lemma conn_send_ack [simp]: "conn (tcp_nip_send_ack e sk) = conn sk"
  by (simp add: tcp_nip_send_ack_def)

lemma conn_sched [simp]: "conn (sk\<lparr>ack_sched := a, ack_timer := b, ack_timeout := c\<rparr>) = conn sk"
  by (simp add: conn_def)

lemma conn_ack_snd_check [simp]: "conn (tcp_nip_ack_snd_check e sk) = conn sk"
proof -
  have u: "conn (sk\<lparr>rcv_mss := a\<rparr>) = conn sk" "conn (sk\<lparr>dup_ack_cnt := n\<rparr>) = conn sk" "conn (sk\<lparr>dup_ack_cnt := n, last_rcv_nxt := m\<rparr>) = conn sk"
    for sk a n m by (simp_all add: conn_def)
  have "conn (tcp_nip_send_delayed_ack e sk) = conn sk" for sk by (simp add: tcp_nip_send_delayed_ack_def Let_def)
  then show ?thesis by (simp add: tcp_nip_ack_snd_check_def Let_def u)
qed

lemma conn_buffer_space [simp]: "conn (tcp_nip_init_buffer_space e sk) = conn sk"
proof -
  have p: "conn (tcp_nip_fixup_rcvbuf e x) = conn x" "conn (clamp_to_space e x) = conn x" "conn (reserve_segment e x) = conn x"
    "conn (x\<lparr>rcv_ssthresh := n\<rparr>) = conn x" for x n
    by (simp_all add: tcp_nip_fixup_rcvbuf_def clamp_to_space_def reserve_segment_def Let_def conn_def)
  show ?thesis by (simp add: tcp_nip_init_buffer_space_def Let_def p)
qed

lemma conn_rcv_mss [simp]: "conn (tcp_nip_initialize_rcv_mss sk) = conn sk" "conn (snd (tcp_nip_sync_mss e m sk)) = conn sk"
  by (simp_all add: tcp_nip_initialize_rcv_mss_def tcp_nip_sync_mss_def Let_def conn_def)

text \<open>An established socket with nothing in flight: a is what it sends next, b what it waits for.\<close>

definition established_at :: "u32 \<Rightarrow> u32 \<Rightarrow> tcp_nip_sock \<Rightarrow> bool" where
  "established_at a b sk \<longleftrightarrow> sk_state sk = TCP_ESTABLISHED \<and> conn sk = ((a, a, a, b, b), ([], [], [], []), 0, 0, False, False)"

lemma conn_fields:
  assumes "conn sk = ((una, nxt, wr, rn, cs), (rq, sq, vq, oq), po, er, ss, rs)"
  shows "snd_una sk = una" "snd_nxt sk = nxt" "write_seq sk = wr" "rcv_nxt sk = rn" "copied_seq sk = cs" "rtx_queue sk = rq" "send_queue sk = sq"
    "rcv_queue sk = vq" "ofo_queue sk = oq" "packets_out sk = po" "sk_err sk = er" "snd_shutdown sk = ss" "rcv_shutdown sk = rs"
  using assms by (simp_all add: conn_def)

text \<open>A pure acknowledgment completes the handshake of a child.\<close>

lemma child_established:
  assumes c: "conn sk = ((a, a, a, b, x), ([], [], [], []), 0, 0, False, False)" and st: "sk_state sk = TCP_SYN_RECV" and w: "rcv_wup sk = b"
    and f: "flag (pkt_flags skb) TCPHDR_ACK" "\<not> flag (pkt_flags skb) TCPHDR_RST"
    and q: "pkt_seq skb = b" "pkt_end_seq skb = b" "pkt_ack_seq skb = a"
  shows "\<exists>r sk'. tcp_nip_rcv_state_process e cr skb sk = (r, sk') \<and> established_at a b sk'"
proof -
  note k = conn_fields [OF c]
  have win: "\<not> after b (b + tcp_receive_window sk)"
    by (simp add: before_def tcp_receive_window_def Let_def)
  have v: "tcp_nip_validate_incoming e skb sk = (True, sk)"
    using f q k w win by (simp add: tcp_nip_validate_incoming_def tcp_nip_sequence_def before_def)
  define sk0 where "sk0 = (tcp_nip_ack_update_window skb a b sk)\<lparr>icsk_probes_out := 0, nip_keepalive_out := 0, rcv_tstamp := tcp_jiffies32 e\<rparr>"
  have s0: "conn sk0 = conn sk" "sk_state sk0 = TCP_SYN_RECV"
    using st by (simp_all add: sk0_def tcp_nip_ack_update_window_def Let_def conn_def)
  have ack: "tcp_nip_ack e skb sk = (1, sk0)"
    using k q conn_fields [OF s0(1) [unfolded c]] by (simp add: tcp_nip_ack_def Let_def before_def flip: sk0_def)
  define sk1 where "sk1 = snd (rcv_state_ack e skb sk0)"
  have 1: "rcv_state_ack e skb sk0 = (None, sk1)" "sk_state sk1 = TCP_ESTABLISHED" using s0(2) by (simp_all add: sk1_def rcv_state_ack_def Let_def)
  have c1: "conn sk1 = ((a, a, a, b, b), ([], [], [], []), 0, 0, False, False)"
  proof -
    have u: "conn (y\<lparr>sk_state := s, snd_una := a, snd_wnd := n, snd_wl1 := m\<rparr>)
        = ((a, snd_nxt y, write_seq y, rcv_nxt y, copied_seq y), (rtx_queue y, send_queue y, rcv_queue y, ofo_queue y), packets_out y, sk_err y, snd_shutdown y, rcv_shutdown y)"
      for y s n m by (simp add: conn_def)
    have "conn (sk0\<lparr>copied_seq := rcv_nxt sk0\<rparr>) = ((a, a, a, b, b), ([], [], [], []), 0, 0, False, False)"
      using conn_fields [OF s0(1) [unfolded c]] by (simp add: conn_def)
    then have "conn (tcp_nip_init_buffer_space e (sk0\<lparr>copied_seq := rcv_nxt sk0\<rparr>)) = ((a, a, a, b, b), ([], [], [], []), 0, 0, False, False)"
      by simp
    from conn_fields [OF this] show ?thesis using s0(2) q(3) by (simp add: sk1_def rcv_state_ack_def Let_def u)
  qed
  have 2: "rcv_state_data e skb sk1 = (None, sk1\<lparr>snd_up := discard_count e skb sk1\<rparr>)"
    using 1(2) q by (simp add: rcv_state_data_def tcp_nip_data_queue_def Let_def)
  define sk2 where "sk2 = sk1\<lparr>snd_up := discard_count e skb sk1\<rparr>"
  have c2: "conn sk2 = conn sk1" "sk_state sk2 = TCP_ESTABLISHED" "send_queue sk2 = []"
    using 1(2) conn_fields [OF c1] by (simp_all add: sk2_def conn_def)
  have "tcp_nip_rcv_state_process e cr skb sk = (0, tcp_nip_ack_snd_check e sk2)"
    using st f 1 2 c2 by (simp add: tcp_nip_rcv_state_process_def v ack rcv_state_tail_def tcp_nip_data_snd_check_def
        tcp_nip_push_pending_frames_def flip: sk2_def)
  then show ?thesis using c1 c2 by (simp add: established_at_def)
qed


text \<open>The client: its SYN, and what an acceptable SYN-ACK makes of it.\<close>

definition syn_sent_at :: "u32 \<Rightarrow> tcp_nip_sock \<Rightarrow> bool" where
  "syn_sent_at a sk \<longleftrightarrow> sk_state sk = TCP_SYN_SENT \<and> (\<exists>p. pkt_seq p = a \<and> pkt_end_seq p = a + 1 \<and> pkt_pcount p = 1 \<and>
     conn sk = ((a, a + 1, a + 1, 0, 0), ([p], [], [], ofo_queue sk), 1, 0, snd_shutdown sk, rcv_shutdown sk))"

lemma connect_init_conn:
  assumes "rcv_queue sk = []"
  shows "conn (tcp_nip_connect_init e sk) = ((write_seq sk, write_seq sk, write_seq sk, 0, 0), ([], [], [], ofo_queue sk), 0, 0, snd_shutdown sk, rcv_shutdown sk)"
    "sk_state (tcp_nip_connect_init e sk) = sk_state sk" "write_seq (tcp_nip_connect_init e sk) = write_seq sk"
    "sent (tcp_nip_connect_init e sk) = sent sk"
proof -
  have m: "conn (connect_init_mss e sk) = conn sk" "sk_state (connect_init_mss e sk) = sk_state sk" "sent (connect_init_mss e sk) = sent sk"
  proof -
    have u: "conn (x\<lparr>tcp_header_len := n\<rparr>) = conn x" "conn (x\<lparr>mss_clamp := c\<rparr>) = conn x" "conn (x\<lparr>max_window := w\<rparr>) = conn x"
      "conn (x\<lparr>window_clamp := w\<rparr>) = conn x" "conn (x\<lparr>advmss := c\<rparr>) = conn x" for x n c w by (simp_all add: conn_def)
    have t: "sent (snd (tcp_nip_sync_mss e n x)) = sent x" "sent (tcp_nip_initialize_rcv_mss x) = sent x" for n x
      by (simp_all add: tcp_nip_sync_mss_def tcp_nip_initialize_rcv_mss_def Let_def)
    show "conn (connect_init_mss e sk) = conn sk" by (simp add: connect_init_mss_def Let_def split_beta u)
    show "sk_state (connect_init_mss e sk) = sk_state sk" "sent (connect_init_mss e sk) = sent sk"
      by (simp_all add: connect_init_mss_def Let_def split_beta t)
  qed
  define x where "x = connect_init_mss e sk"
  have x: "write_seq x = write_seq sk" "rcv_queue x = []" "ofo_queue x = ofo_queue sk" "snd_shutdown x = snd_shutdown sk" "rcv_shutdown x = rcv_shutdown sk"
    using m(1) assms by (simp_all add: conn_def flip: x_def)
  show "conn (tcp_nip_connect_init e sk) = ((write_seq sk, write_seq sk, write_seq sk, 0, 0), ([], [], [], ofo_queue sk), 0, 0, snd_shutdown sk, rcv_shutdown sk)"
    by (simp add: tcp_nip_connect_init_def Let_def split_beta tcp_nip_write_queue_purge_def conn_def x flip: x_def)
  show "sk_state (tcp_nip_connect_init e sk) = sk_state sk" "write_seq (tcp_nip_connect_init e sk) = write_seq sk" "sent (tcp_nip_connect_init e sk) = sent sk"
    using m by (simp_all add: tcp_nip_connect_init_def Let_def split_beta tcp_nip_write_queue_purge_def x flip: x_def)
qed


definition bare_segment :: "u8 \<Rightarrow> u32 \<Rightarrow> u32 \<Rightarrow> tcp_skb \<Rightarrow> bool" where
  "bare_segment flags seq end_seq p \<longleftrightarrow> pkt_flags p = flags \<and> pkt_seq p = seq \<and> pkt_end_seq p = end_seq \<and> pkt_data p = []"

lemma transmit_sent:
  assumes "tcp_nip_transmit e c n skb sk = (err, skb', sk')" "c \<longrightarrow> clone_ok e skb \<and> clone_ok e (skb\<lparr>pkt_tstamp := tcp_jiffies32 e\<rparr>)"
  shows "\<exists>p. sent sk' = sent sk @ [p] \<and> pkt_seq p = pkt_seq skb \<and> pkt_end_seq p = pkt_end_seq skb \<and> pkt_flags p = pkt_flags skb \<and>
    pkt_data p = pkt_data skb \<and> pkt_ack_seq p = n" "err = net_xmit e (length (sent sk))"
proof -
  have s: "sent (snd (nip_tcp_select_window e x)) = sent x" "sent (snd (tcp_nip_syn_options e x)) = sent x" "sent (tcp_nip_event_ack_sent m x) = sent x" for x m
    by (simp_all add: nip_tcp_select_window_def tcp_nip_syn_options_def tcp_nip_advertise_mss_def tcp_nip_event_ack_sent_def inet_csk_clear_dack_def
        Let_def split_beta split: option.split)
  show "\<exists>p. sent sk' = sent sk @ [p] \<and> pkt_seq p = pkt_seq skb \<and> pkt_end_seq p = pkt_end_seq skb \<and> pkt_flags p = pkt_flags skb \<and>
    pkt_data p = pkt_data skb \<and> pkt_ack_seq p = n" "err = net_xmit e (length (sent sk))"
    using assms by (auto simp: tcp_nip_transmit_def Let_def split_beta s split: if_splits)
qed

lemma send_syn:
  assumes st: "sk_state sk = TCP_SYN_SENT" "rcv_queue sk = []" and k: "\<forall>p. clone_ok e p" "net_xmit e (length (sent sk)) \<noteq> - ECONNREFUSED"
  shows "\<exists>sk' p. tcp_nip_send_syn e True sk = (0, sk') \<and> syn_sent_at (write_seq sk) sk' \<and> sent sk' = sent sk @ [p] \<and>
    bare_segment TCPHDR_SYN (write_seq sk) (write_seq sk + 1) p \<and> snd_shutdown sk' = snd_shutdown sk \<and> rcv_shutdown sk' = rcv_shutdown sk"
proof -
  define x where "x = tcp_nip_connect_init e sk"
  let ?a = "write_seq sk" and ?b = "tcp_nip_init_nondata_skb (write_seq sk) TCPHDR_SYN"
  note i = connect_init_conn [OF st(2), of e, folded x_def]
  define y where "y = inet_csk_clear_xmit_timers (x\<lparr>write_seq := pkt_end_seq ?b, packets_out := packets_out x + pkt_pcount ?b\<rparr>)"
  have b: "pkt_seq ?b = ?a" "pkt_end_seq ?b = ?a + 1" "pkt_pcount ?b = 1" "pkt_flags ?b = TCPHDR_SYN" "pkt_data ?b = []"
    by (simp_all add: tcp_nip_init_nondata_skb_def flag_def TCPHDR_SYN_def TCPHDR_FIN_def)
  have y: "conn y = ((?a, ?a, ?a + 1, 0, 0), ([], [], [], ofo_queue sk), 1, 0, snd_shutdown sk, rcv_shutdown sk)" "sk_state y = TCP_SYN_SENT" "sent y = sent sk"
    using conn_fields [OF i(1)] i(2,4) st(1) by (simp_all add: y_def b inet_csk_clear_xmit_timers_def conn_def)
  obtain err p z where t: "tcp_nip_transmit_skb e True ?b y = (err, p, z)" by (metis prod_cases3)
  note t' = t [unfolded tcp_nip_transmit_skb_def]
  have z: "conn z = conn y" "sk_state z = TCP_SYN_SENT"
    using conn_transmit [of e True "rcv_nxt y" ?b y] transmit_keeps(1) [of e True "rcv_nxt y" ?b y] y(2) t' by simp_all
  obtain q where q: "sent z = sent sk @ [q]" "bare_segment TCPHDR_SYN ?a (?a + 1) q"
    using transmit_sent(1) [OF t'] k(1) y(3) b unfolding bare_segment_def by auto
  have err: "err \<noteq> - ECONNREFUSED" using transmit_sent(2) [OF t'] k y(3) by simp
  note kz = conn_fields [OF z(1) [unfolded y(1)]]
  define w where "w = inet_csk_reset_xmit_timer e ICSK_TIME_RETRANS (icsk_rto (z\<lparr>rtx_queue := rtx_queue z @ [p]\<rparr>))
      (z\<lparr>rtx_queue := rtx_queue z @ [p], snd_nxt := write_seq z, pushed_seq := write_seq z\<rparr>)"
  have "tcp_nip_send_syn e True sk = (0, w)"
    using err t unfolding y_def x_def i(3) [unfolded x_def] by (simp add: tcp_nip_send_syn_def Let_def w_def i(3) [unfolded x_def])
  moreover have "syn_sent_at ?a w"
  proof -
    have c: "conn w = ((?a, ?a + 1, ?a + 1, 0, 0), ([p], [], [], ofo_queue w), 1, 0, snd_shutdown w, rcv_shutdown w)" "sk_state w = TCP_SYN_SENT"
      using kz z(2) by (simp_all add: w_def inet_csk_reset_xmit_timer_def conn_def)
    then show ?thesis using transmit_skb_seq [OF t'] b unfolding syn_sent_at_def by auto
  qed
  moreover have "sent w = sent sk @ [q]" using q(1) by (simp add: w_def inet_csk_reset_xmit_timer_def)
  moreover have "snd_shutdown w = snd_shutdown sk" "rcv_shutdown w = rcv_shutdown sk" using kz by (simp_all add: w_def inet_csk_reset_xmit_timer_def)
  ultimately show ?thesis using q(2) by blast
qed

lemma syn_acked:
  assumes c: "conn sk = ((a, a + 1, a + 1, 0, 0), ([p], [], [], q), 1, 0, ss, rs)" and p: "pkt_end_seq p = a + 1" "pkt_pcount p = 1"
    and k: "pkt_ack_seq skb = a + 1"
  shows "\<exists>sk'. tcp_nip_ack e skb sk = (1, sk') \<and> conn sk' = ((a + 1, a + 1, a + 1, 0, 0), ([], [], [], q), 0, 0, ss, rs) \<and>
    sk_state sk' = sk_state sk \<and> sent sk' = sent sk"
proof -
  define sk0 where "sk0 = (tcp_nip_ack_update_window skb (a + 1) (pkt_seq skb) sk)\<lparr>icsk_probes_out := 0, nip_keepalive_out := 0, rcv_tstamp := tcp_jiffies32 e\<rparr>"
  have s0: "conn sk0 = conn sk" "sk_state sk0 = sk_state sk" "sent sk0 = sent sk"
    by (simp_all add: sk0_def tcp_nip_ack_update_window_def Let_def conn_def)
  define sk1 where "sk1 = sk0\<lparr>icsk_retransmits := 0, rcv_tstamp := tcp_jiffies32 e, snd_una := a + 1\<rparr>"
  define sk2 where "sk2 = sk1\<lparr>packets_out := 0, rtx_queue := [], icsk_rto := nip_rto_init e\<rparr>"
  note k0 = conn_fields [OF s0(1) [unfolded c]]
  have loop: "tcp_nip_clean_rtx_queue e sk1 = (pkt_tstamp p, tcp_nip_rearm_rto e sk2)"
    using k0 p by (simp add: tcp_nip_clean_rtx_queue_def sk1_def sk2_def before_def)
  define sk3 where "sk3 = tcp_nip_ack_calc_ssthresh e (a + 1) (pkt_tstamp p) (tcp_nip_rearm_rto e sk2)"
  have s3: "conn sk3 = ((a + 1, a + 1, a + 1, 0, 0), ([], [], [], q), 0, 0, ss, rs)" "sk_state sk3 = sk_state sk" "sent sk3 = sent sk"
    using k0 s0 by (simp_all add: sk3_def tcp_nip_ack_calc_ssthresh_def Let_def tcp_nip_rearm_rto_def inet_csk_clear_xmit_timer_def
        inet_csk_reset_xmit_timer_def sk2_def sk1_def conn_def)
  note k3 = conn_fields [OF s3(1)]
  define sk4 where "sk4 = tcp_nip_nor_ack_retrans e (a + 1) (of_int (ack_retrans_max (params e))) sk3"
  have r: "tcp_nip_ack_retrans e n sk3 = sk3" for n using k3 by (simp add: tcp_nip_ack_retrans_def)
  have s4: "conn sk4 = conn sk3" "sk_state sk4 = sk_state sk3" "sent sk4 = sent sk3"
    by (simp_all add: sk4_def tcp_nip_nor_ack_retrans_def r ack_retrans_stop_def conn_def)
  have "tcp_nip_ack e skb sk = (1, tcp_nip_new_ack e (a + 1) sk0)"
    using conn_fields [OF c] k by (simp add: tcp_nip_ack_def Let_def before_def flip: sk0_def)
  also have "tcp_nip_new_ack e (a + 1) sk0 = sk4" by (simp add: tcp_nip_new_ack_def Let_def loop sk3_def sk4_def flip: sk1_def)
  finally show ?thesis using s4 s3 by simp
qed

lemma synack_established:
  assumes c: "syn_sent_at a sk" "\<not> snd_shutdown sk" "\<not> rcv_shutdown sk"
    and f: "flag (pkt_flags skb) TCPHDR_ACK" "flag (pkt_flags skb) TCPHDR_SYN" "\<not> flag (pkt_flags skb) TCPHDR_RST"
    and k: "pkt_ack_seq skb = a + 1"
  shows "\<exists>p. established_at (a + 1) (pkt_seq skb + 1) (tcp_nip_do_rcv e cr skb sk) \<and> sent (tcp_nip_do_rcv e cr skb sk) = sent sk @ [p] \<and>
    bare_segment TCPHDR_ACK (a + 1) (a + 1) p \<and> pkt_ack_seq p = pkt_seq skb + 1"
proof -
  obtain p where p: "pkt_end_seq p = a + 1" "pkt_pcount p = 1"
    "conn sk = ((a, a + 1, a + 1, 0, 0), ([p], [], [], ofo_queue sk), 1, 0, False, False)" and st: "sk_state sk = TCP_SYN_SENT"
    using c by (auto simp: syn_sent_at_def)
  define s0 where "s0 = sk\<lparr>mss_clamp := tcp_nip_parse_options True False (user_mss sk) (th_opts skb) (mss_clamp sk), snd_wl1 := pkt_seq skb\<rparr>"
  have c0: "conn s0 = ((a, a + 1, a + 1, 0, 0), ([p], [], [], ofo_queue sk), 1, 0, False, False)" "sent s0 = sent sk"
    using p(3) by (simp_all add: s0_def conn_def)
  obtain s1 where s1: "tcp_nip_ack e skb s0 = (1, s1)" "conn s1 = ((a + 1, a + 1, a + 1, 0, 0), ([], [], [], ofo_queue sk), 0, 0, False, False)"
    "sent s1 = sent sk" using syn_acked [OF c0(1) p(1,2) k] c0(2) by metis
  note k1 = conn_fields [OF s1(2)]
  define s2 where "s2 = s1\<lparr>ofo_queue := [], rcv_nxt := pkt_seq skb + 1, rcv_wup := pkt_seq skb + 1, snd_wnd := ucast (th_window skb)\<rparr>"
  define s3 where "s3 = (if wscale_enable (params e) then s2\<lparr>wscale_ok := True, snd_wscale := nat (wscale (params e) mod 16),
      rcv_wscale := nat (wscale (params e) mod 16)\<rparr> else s2)"
  define s4 where "s4 = (if \<not> wscale_ok s3 then s3\<lparr>snd_wscale := 0, rcv_wscale := 0, window_clamp := min (window_clamp s3) 65535\<rparr> else s3)"
  define s5 where "s5 = s4\<lparr>tcp_header_len := 20, copied_seq := rcv_nxt s4\<rparr>"
  let ?c = "((a + 1, a + 1, a + 1, pkt_seq skb + 1, pkt_seq skb + 1), ([], [], [], []), 0, 0, False, False)"
  have c5: "conn s5 = ?c" "sent s5 = sent sk" "snd_wnd s5 = ucast (th_window skb)"
    using k1 s1(3) by (simp_all add: s5_def s4_def s3_def s2_def conn_def)
  define s6 where "s6 = tcp_nip_finish_connect e (tcp_nip_initialize_rcv_mss (snd (tcp_nip_sync_mss e (pmtu_cookie s5) s5)))"
  have b: "sent (tcp_nip_init_buffer_space e x) = sent x" "snd_wnd (tcp_nip_init_buffer_space e x) = snd_wnd x" for x
  proof -
    have q: "sent (tcp_nip_fixup_rcvbuf e x) = sent x" "sent (clamp_to_space e x) = sent x" "sent (reserve_segment e x) = sent x"
      "snd_wnd (tcp_nip_fixup_rcvbuf e x) = snd_wnd x" "snd_wnd (clamp_to_space e x) = snd_wnd x" "snd_wnd (reserve_segment e x) = snd_wnd x" for x
      by (simp_all add: tcp_nip_fixup_rcvbuf_def clamp_to_space_def reserve_segment_def Let_def)
    show "sent (tcp_nip_init_buffer_space e x) = sent x" "snd_wnd (tcp_nip_init_buffer_space e x) = snd_wnd x"
      by (simp_all add: tcp_nip_init_buffer_space_def Let_def q)
  qed
  have m: "sent (tcp_nip_initialize_rcv_mss x) = sent x" "snd_wnd (tcp_nip_initialize_rcv_mss x) = snd_wnd x"
    "sent (snd (tcp_nip_sync_mss e n x)) = sent x" "snd_wnd (snd (tcp_nip_sync_mss e n x)) = snd_wnd x" "conn (x\<lparr>sk_state := u\<rparr>) = conn x" for x n u
    by (simp_all add: tcp_nip_sync_mss_def tcp_nip_initialize_rcv_mss_def Let_def conn_def)
  have c6: "conn s6 = ?c" "sent s6 = sent sk" "snd_wnd s6 = ucast (th_window skb)" "sk_state s6 = TCP_ESTABLISHED"
    using c5 by (simp_all add: s6_def tcp_nip_finish_connect_def b m)
  note k6 = conn_fields [OF c6(1)]
  have "synsent_established e skb (sk\<lparr>mss_clamp := tcp_nip_parse_options True False (user_mss sk) (th_opts skb) (mss_clamp sk)\<rparr>)
      = tcp_nip_send_ack e s6"
    by (simp only: synsent_established_def Let_def split_beta s0_def [symmetric] s1(1) fst_conv snd_conv s6_def s5_def s4_def s3_def s2_def)
  then have d: "tcp_nip_do_rcv e cr skb sk = tcp_nip_send_ack e s6"
    using st f k conn_fields [OF p(3)]
    by (simp add: tcp_nip_do_rcv_def tcp_nip_rcv_state_process_def tcp_nip_rcv_synsent_state_process_def Let_def before_def)
  have acc: "tcp_nip_acceptable_seq s6 = a + 1"
  proof -
    have "0 \<le> sint (ucast (th_window skb) :: u32)" 
    proof -
      have "unat (ucast (th_window skb) :: u32) < 2 ^ 31"
        using unsigned_less [of "th_window skb", where ?'a = nat] by (simp add: unsigned_ucast_eq take_bit_eq_mod)
      from sint_small [OF this] show ?thesis by simp
    qed
    then show ?thesis using k6 c6(3) by (simp add: tcp_nip_acceptable_seq_def before_def tcp_wnd_end_def)
  qed
  define n where "n = tcp_nip_init_nondata_skb (a + 1) TCPHDR_ACK"
  have n: "pkt_seq n = a + 1" "pkt_end_seq n = a + 1" "pkt_flags n = TCPHDR_ACK" "pkt_data n = []"
    by (simp_all add: n_def tcp_nip_init_nondata_skb_def flag_def TCPHDR_SYN_def TCPHDR_FIN_def TCPHDR_ACK_def)
  obtain err q z where t: "tcp_nip_transmit e False (rcv_nxt s6) n s6 = (err, q, z)" by (metis prod_cases3)
  have z: "tcp_nip_send_ack e s6 = z" using c6(4) t by (simp add: tcp_nip_send_ack_def acc flip: n_def)
  have "conn z = ?c" "sk_state z = TCP_ESTABLISHED"
    using conn_transmit [of e False "rcv_nxt s6" n s6] transmit_keeps(1) [of e False "rcv_nxt s6" n s6] c6 t by simp_all
  moreover obtain r where "sent z = sent sk @ [r]" "bare_segment TCPHDR_ACK (a + 1) (a + 1) r" "pkt_ack_seq r = pkt_seq skb + 1"
    using transmit_sent(1) [OF t] c6(2) n k6(4) unfolding bare_segment_def by auto
  ultimately show ?thesis unfolding d z established_at_def by blast
qed


section \<open>The three segments\<close>

text \<open>The kernel does its part: memory, a route back, free slots in its tables, and a clone of the listening socket in SYN_RECV
  with empty queues.\<close>

definition clones_listener :: "req_env \<Rightarrow> bool" where
  "clones_listener re \<longleftrightarrow> (\<forall>sk req. \<exists>c. inet_csk_clone_lock re sk req = Some c \<and> sk_state c = TCP_SYN_RECV \<and> rtx_queue c = [] \<and>
     send_queue c = [] \<and> rcv_queue c = [] \<and> sk_err c = 0 \<and> \<not> snd_shutdown c \<and> \<not> rcv_shutdown c)"

definition zero_req :: tcp_nip_request_sock where
  "zero_req = \<lparr>req_common = tcp_nip_common_init ex_env, rcv_isn = 0, snt_isn = 0, req_rcv_nxt = 0, req_mss = 0, rsk_rcv_wnd = 0,
     rsk_window_clamp = 0, req_wscale_ok = False, req_snd_wscale = 0, req_rcv_wscale = 0, ir_acked = False, ir_rmt_addr = nip_any_addr,
     ir_loc_addr = nip_any_addr, ir_rmt_port = 0, ir_num = 0, ir_iif = 0, num_retrans = 0, num_timeout = 0, rsk_timer = 0\<rparr>"

definition sample_server :: req_env where
  "sample_server = \<lparr>rq_tcp = ex_env, rq_hash = sample_env, reqsk_alloc = Some zero_req, security_ok = True,
     rq_route = (\<lambda>_. Some \<lparr>rd_mtu = 1500, rd_advmss = 1400, rd_window = 0\<rparr>), synack_alloc = True, synack_xmit = (\<lambda>_. 0),
     inet_csk_clone_lock = (\<lambda>_ _. Some (zero_sock\<lparr>sk_state := TCP_SYN_RECV\<rparr>)), inet_inherit_port = 0, ehash_nolisten = True,
     child_owned = False, abort_on_overflow = False, tcp_synack_retries = 5, syn_retries = 0\<rparr>"

definition sample_listener :: tcp_listener where
  "sample_listener = \<lparr>l_sk = zero_sock\<lparr>sk_state := TCP_LISTEN\<rparr>, l_bound_dev_if = 0, l_max_ack_backlog = 5, l_reqs = [], l_accept = [],
     l_drops = 0, l_out = [], l_woken = 0\<rparr>"

definition server_ready :: "req_env \<Rightarrow> bool" where
  "server_ready re \<longleftrightarrow> reqsk_alloc re \<noteq> None \<and> security_ok re \<and> (\<forall>a. rq_route re a \<noteq> None) \<and> synack_alloc re \<and> clones_listener re \<and>
     inet_inherit_port re \<ge> 0 \<and> ehash_nolisten re \<and> \<not> child_owned re"

lemma synack_sent:
  assumes "synack_alloc re"
  shows "\<exists>sa. l_out (snd (tcp_nip_send_synack re dst req l)) = l_out l @ [sa] \<and> sg_saddr sa = ir_loc_addr req \<and> sg_daddr sa = ir_rmt_addr req \<and>
     sg_source sa = htons (ir_num req) \<and> sg_dest sa = ir_rmt_port req \<and> pkt_ack_seq (sg_skb sa) = req_rcv_nxt req \<and>
     bare_segment (or TCPHDR_SYN TCPHDR_ACK) (snt_isn req) (snt_isn req + 1) (sg_skb sa)"
    "l_reqs (snd (tcp_nip_send_synack re dst req l)) = l_reqs l" "l_accept (snd (tcp_nip_send_synack re dst req l)) = l_accept l"
    "l_max_ack_backlog (snd (tcp_nip_send_synack re dst req l)) = l_max_ack_backlog l"
    "sk_state (l_sk (snd (tcp_nip_send_synack re dst req l))) = sk_state (l_sk l)"
proof -
  obtain mss sk where m: "get_nip_mss (l_sk l) dst req = (mss, sk)" by fastforce
  have "sk_state sk = sk_state (l_sk l)" using m by (auto simp: get_nip_mss_def Let_def split: if_splits)
  then show "\<exists>sa. l_out (snd (tcp_nip_send_synack re dst req l)) = l_out l @ [sa] \<and> sg_saddr sa = ir_loc_addr req \<and> sg_daddr sa = ir_rmt_addr req \<and>
     sg_source sa = htons (ir_num req) \<and> sg_dest sa = ir_rmt_port req \<and> pkt_ack_seq (sg_skb sa) = req_rcv_nxt req \<and>
     bare_segment (or TCPHDR_SYN TCPHDR_ACK) (snt_isn req) (snt_isn req + 1) (sg_skb sa)"
    "l_reqs (snd (tcp_nip_send_synack re dst req l)) = l_reqs l" "l_accept (snd (tcp_nip_send_synack re dst req l)) = l_accept l"
    "l_max_ack_backlog (snd (tcp_nip_send_synack re dst req l)) = l_max_ack_backlog l"
    "sk_state (l_sk (snd (tcp_nip_send_synack re dst req l))) = sk_state (l_sk l)"
    using assms by (simp_all add: tcp_nip_send_synack_def tcp_nip_make_synack_def m bare_segment_def)
qed

lemma init_sequence_defined: "wf_addr (sg_saddr sg) \<Longrightarrow> wf_addr (sg_daddr sg) \<Longrightarrow> \<exists>isn. tcp_nip_init_sequence he sg = Some isn"
  by (simp add: tcp_nip_init_sequence_def secure_tcp_nip_sequence_number_def read_nip_addr_def wf_addr_def)

lemma syn_requests:
  assumes r: "server_ready re" and room: "length (l_reqs l) < l_max_ack_backlog l" "length (l_accept l) \<le> l_max_ack_backlog l"
    and w: "wf_addr (sg_saddr sg)" "wf_addr (sg_daddr sg)"
  shows "\<exists>l1 req sa. tcp_nip_conn_request re sg l = Some (0, l1) \<and> l_reqs l1 = l_reqs l @ [req] \<and> l_out l1 = l_out l @ [sa] \<and>
    rcv_isn req = pkt_seq (sg_skb sg) \<and> ir_rmt_addr req = sg_saddr sg \<and> ir_loc_addr req = sg_daddr sg \<and> ir_rmt_port req = sg_source sg \<and>
    ir_num req = ntohs (sg_dest sg) \<and> sg_saddr sa = sg_daddr sg \<and> sg_daddr sa = sg_saddr sg \<and> sg_source sa = sg_dest sg \<and> sg_dest sa = sg_source sg \<and>
    bare_segment (or TCPHDR_SYN TCPHDR_ACK) (snt_isn req) (snt_isn req + 1) (sg_skb sa) \<and> pkt_ack_seq (sg_skb sa) = pkt_seq (sg_skb sg) + 1 \<and>
    l_accept l1 = l_accept l \<and> l_max_ack_backlog l1 = l_max_ack_backlog l \<and> sk_state (l_sk l1) = sk_state (l_sk l)"
proof -
  obtain isn where isn: "tcp_nip_init_sequence (rq_hash re) sg = Some isn" using init_sequence_defined [OF w] by blast
  obtain m where m: "reqsk_alloc re = Some m" using r by (auto simp: server_ready_def)
  let ?e = "rq_tcp re"
  let ?clamp = "tcp_nip_parse_options (flag (pkt_flags (sg_skb sg)) TCPHDR_SYN) False (user_mss (l_sk l)) (th_opts (sg_skb sg)) (of_int TCP_BASE_MSS)"
  define r0 where "r0 = tcp_nip_init_req sg ((tcp_nip_openreq_init ?e ?clamp sg m)\<lparr>ir_iif := l_bound_dev_if l\<rparr>)"
  obtain dst where d: "rq_route re (ir_rmt_addr r0) = Some dst" using r by (auto simp: server_ready_def)
  define r1 where "r1 = tcp_nip_openreq_init_rwin ?e (l_sk l) dst (r0\<lparr>snt_isn := isn\<rparr>)"
  define r2 where "r2 = r1\<lparr>num_retrans := 0, num_timeout := 0, rsk_timer := jiffies ?e + ucast (TCP_TIMEOUT_INIT ?e)\<rparr>"
  have f0: "rcv_isn r0 = pkt_seq (sg_skb sg)" "req_rcv_nxt r0 = pkt_seq (sg_skb sg) + 1" "ir_rmt_addr r0 = sg_saddr sg" "ir_loc_addr r0 = sg_daddr sg"
    "ir_rmt_port r0 = sg_source sg" "ir_num r0 = ntohs (sg_dest sg)"
    by (simp_all add: r0_def tcp_nip_init_req_def tcp_nip_openreq_init_def Let_def)
  have f1: "rcv_isn r1 = rcv_isn r0" "req_rcv_nxt r1 = req_rcv_nxt r0" "ir_rmt_addr r1 = ir_rmt_addr r0" "ir_loc_addr r1 = ir_loc_addr r0"
    "ir_rmt_port r1 = ir_rmt_port r0" "ir_num r1 = ir_num r0" "snt_isn r1 = isn"
    by (simp_all add: r1_def tcp_nip_openreq_init_rwin_def Let_def split_beta)
  have f2: "rcv_isn r2 = rcv_isn r1" "ir_rmt_addr r2 = ir_rmt_addr r1" "ir_loc_addr r2 = ir_loc_addr r1"
    "ir_rmt_port r2 = ir_rmt_port r1" "ir_num r2 = ir_num r1" "snt_isn r2 = snt_isn r1" by (simp_all add: r2_def)
  define l0 where "l0 = l\<lparr>l_reqs := l_reqs l @ [r2]\<rparr>"
  define l1 where "l1 = snd (tcp_nip_send_synack re dst r1 l0)"
  have eq: "tcp_nip_conn_request re sg l = Some (0, l1)"
    using r room by (simp add: tcp_nip_conn_request_def Let_def reqsk_queue_is_full_def acceptq_is_full_def ninet_reqsk_alloc_def m isn d
        tcp_nip_route_req_def ninet_csk_reqsk_queue_hash_add_def server_ready_def split_beta l1_def l0_def r1_def r2_def flip: r0_def)
  have sa: "synack_alloc re" using r by (simp add: server_ready_def)
  obtain sa where s: "l_out l1 = l_out l @ [sa]" "sg_saddr sa = ir_loc_addr r1" "sg_daddr sa = ir_rmt_addr r1" "sg_source sa = htons (ir_num r1)"
    "sg_dest sa = ir_rmt_port r1" "pkt_ack_seq (sg_skb sa) = req_rcv_nxt r1"
    "bare_segment (or TCPHDR_SYN TCPHDR_ACK) (snt_isn r1) (snt_isn r1 + 1) (sg_skb sa)"
    using synack_sent(1) [OF sa, of dst r1 l0] by (auto simp: l1_def l0_def)
  have k: "l_reqs l1 = l_reqs l @ [r2]" "l_accept l1 = l_accept l" "l_max_ack_backlog l1 = l_max_ack_backlog l" "sk_state (l_sk l1) = sk_state (l_sk l)"
    using synack_sent(2-) [OF sa, of dst r1 l0] by (simp_all add: l1_def l0_def)
  show ?thesis using eq s k f0 f1 f2 by (intro exI [of _ l1] exI [of _ r2] exI [of _ sa]) simp
qed


lemma set_common_fields:
  "conn (set_common c sk) = conn sk" "sk_state (set_common c sk) = sk_state sk" "rcv_wup (set_common c sk) = rcv_wup sk"
  by (cases sk; simp add: set_common_def tcp_nip_common.extend_def conn_def)+

lemma child_of_request:
  assumes r: "server_ready re" and room: "length (l_accept l) \<le> l_max_ack_backlog l"
  shows "\<exists>ch. tcp_nip_syn_recv_sock re skb req l = (Some (ch, True), l) \<and> c_daddr ch = ir_rmt_addr req \<and> c_rcv_saddr ch = ir_loc_addr req \<and>
    c_dport ch = ir_rmt_port req \<and> c_num ch = ir_num req \<and> sk_state (c_sk ch) = TCP_SYN_RECV \<and> rcv_wup (c_sk ch) = rcv_isn req + 1 \<and>
    conn (c_sk ch) = ((snt_isn req + 1, snt_isn req + 1, snt_isn req + 1, rcv_isn req + 1, rcv_isn req + 1), ([], [], [], []), 0, 0, False, False)"
proof -
  obtain dst where d: "rq_route re (ir_rmt_addr req) = Some dst" using r by (auto simp: server_ready_def)
  obtain c where c: "inet_csk_clone_lock re (l_sk l) req = Some c" "sk_state c = TCP_SYN_RECV" "rtx_queue c = []"
    "send_queue c = []" "rcv_queue c = []" "sk_err c = 0" "\<not> snd_shutdown c" "\<not> rcv_shutdown c"
    using r unfolding server_ready_def clones_listener_def by blast
  define k where "k = openreq_child (rq_tcp re) req skb c"
  have k: "sk_state k = TCP_SYN_RECV" "rcv_wup k = rcv_isn req + 1"
    "conn k = ((snt_isn req + 1, snt_isn req + 1, snt_isn req + 1, rcv_isn req + 1, rcv_isn req + 1), ([], [], [], ofo_queue c), 0, 0, False, False)"
    using c by (simp_all add: k_def openreq_child_def Let_def conn_def)
  define x where "x = set_common (req_common req) k"
  have x: "sk_state x = TCP_SYN_RECV" "rcv_wup x = rcv_isn req + 1" "conn x = conn k" using k by (simp_all add: x_def set_common_fields)
  define y where "y = tcp_nip_initialize_rcv_mss (x\<lparr>mss_cache := of_int TCP_BASE_MSS, ofo_queue := [],
      advmss := of_int (tcp_mss_clamp (l_sk l) (rd_advmss dst))\<rparr>)"
  have "sk_state y = TCP_SYN_RECV" "rcv_wup y = rcv_isn req + 1" using x by (simp_all add: y_def tcp_nip_initialize_rcv_mss_def Let_def)
  moreover have "conn y = ((snt_isn req + 1, snt_isn req + 1, snt_isn req + 1, rcv_isn req + 1, rcv_isn req + 1), ([], [], [], []), 0, 0, False, False)"
    using conn_fields [OF x(3) [unfolded k(3)]] unfolding y_def conn_rcv_mss by (simp add: conn_def)
  moreover have "tcp_nip_syn_recv_sock re skb req l = (Some (\<lparr>c_sk = y, c_daddr = ir_rmt_addr req, c_rcv_saddr = ir_loc_addr req,
      c_dport = ir_rmt_port req, c_num = ir_num req\<rparr>, True), l)"
    using r room by (simp add: tcp_nip_syn_recv_sock_def acceptq_is_full_def tcp_nip_route_req_def d tcp_nip_create_openreq_child_def c(1)
        server_ready_def Let_def y_def x_def flip: k_def)
  ultimately show ?thesis by auto
qed

lemma ack_accepted:
  assumes r: "server_ready re" and room: "length (l_accept l) \<le> l_max_ack_backlog l" and st: "sk_state (l_sk l) = TCP_LISTEN"
    and i: "i < length (l_reqs l)" "l_reqs l ! i = req"
    and p: "bare_segment TCPHDR_ACK (rcv_isn req + 1) (rcv_isn req + 1) skb" "pkt_ack_seq skb = snt_isn req + 1"
  shows "\<exists>l1 ret l2 ch. tcp_nip_check_req re skb i l = (Child (length (l_accept l)), l1) \<and>
    tcp_nip_child_process re skb (length (l_accept l)) l1 = (ret, l2) \<and> l_reqs l2 = take i (l_reqs l) @ drop (Suc i) (l_reqs l) \<and>
    l_accept l2 = l_accept l @ [ch] \<and> l_woken l2 = l_woken l + 1 \<and> c_daddr ch = ir_rmt_addr req \<and> c_rcv_saddr ch = ir_loc_addr req \<and>
    c_dport ch = ir_rmt_port req \<and> c_num ch = ir_num req \<and> established_at (snt_isn req + 1) (rcv_isn req + 1) (c_sk ch)"
proof -
  have f: "flag (pkt_flags skb) TCPHDR_ACK" "\<not> flag (pkt_flags skb) TCPHDR_RST" "pkt_seq skb = rcv_isn req + 1" "pkt_end_seq skb = rcv_isn req + 1"
    using p(1) by (simp_all add: bare_segment_def flag_def TCPHDR_ACK_def TCPHDR_RST_def)
  obtain ch where ch: "tcp_nip_syn_recv_sock re skb req l = (Some (ch, True), l)" "c_daddr ch = ir_rmt_addr req" "c_rcv_saddr ch = ir_loc_addr req"
    "c_dport ch = ir_rmt_port req" "c_num ch = ir_num req" "sk_state (c_sk ch) = TCP_SYN_RECV" "rcv_wup (c_sk ch) = rcv_isn req + 1"
    "conn (c_sk ch) = ((snt_isn req + 1, snt_isn req + 1, snt_isn req + 1, rcv_isn req + 1, rcv_isn req + 1), ([], [], [], []), 0, 0, False, False)"
    using child_of_request [OF r room] by metis
  obtain ret sk where e: "tcp_nip_rcv_state_process (rq_tcp re) (\<lambda>_ sk. (0, sk)) skb (c_sk ch) = (ret, sk)"
    "established_at (snt_isn req + 1) (rcv_isn req + 1) sk"
    using child_established [OF ch(8,6,7) f(1,2,3,4) p(2)] by blast
  define l1 where "l1 = l\<lparr>l_reqs := take i (l_reqs l) @ drop (Suc i) (l_reqs l), l_accept := l_accept l @ [ch]\<rparr>"
  have c: "tcp_nip_check_req re skb i l = (Child (length (l_accept l)), l1)"
    using f(1) p(2) st by (simp add: tcp_nip_check_req_def Let_def i(2) ch(1) inet_csk_complete_hashdance_def l1_def)
  have a: "l_accept l1 ! length (l_accept l) = ch" "(l_accept l1)[length (l_accept l) := x] = l_accept l @ [x]" for x by (simp_all add: l1_def)
  have o: "\<not> child_owned re" using r by (simp add: server_ready_def)
  have "sk_state sk = TCP_ESTABLISHED" using e(2) by (simp add: established_at_def)
  then have "tcp_nip_child_process re skb (length (l_accept l)) l1 =
      (ret, l1\<lparr>l_accept := l_accept l @ [ch\<lparr>c_sk := sk\<rparr>], l_woken := l_woken l1 + 1\<rparr>)"
    using o by (simp add: tcp_nip_child_process_def Let_def a e(1) ch(6))
  then show ?thesis using c ch e(2) by (auto simp: l1_def)
qed

text \<open>Both ends are then as the lemmas on streams of TcpUser and TcpRecv want them: the one sends from the sequence number on where the other
  starts to receive, as far as its window reaches.\<close>

lemma established_streams:
  assumes "established_at a b sk" "established_at b a rk" "rcv_wup rk + rcv_wnd rk = a + of_nat hi" "hi \<le> 2 ^ 30"
  shows "sending a [] sk" "receiving S a 0 0 hi rk"
proof -
  have c: "conn sk = ((a, a, a, b, b), ([], [], [], []), 0, 0, False, False)" "conn rk = ((b, b, b, a, a), ([], [], [], []), 0, 0, False, False)"
    using assms(1,2) by (simp_all add: established_at_def)
  show "sending a [] sk" "receiving S a 0 0 hi rk"
    using conn_fields [OF c(1)] conn_fields [OF c(2)] assms(3,4) by (simp_all add: sending_def wq_def receiving_def)
qed

text \<open>C1: the three-way handshake. The SYN a client sends makes a listening socket with room answer with a
  SYN-ACK; the SYN-ACK establishes the client, which acknowledges it; the acknowledgment turns the request into an established
  child in the queue of accepted connections. Each end then waits for the very sequence number the other end sends
  next, the queues are empty, and the child is bound to the addresses and ports of the client.\<close>

theorem handshake_establishes:
  assumes client: "sk_state c = TCP_SYN_SENT" "rcv_queue c = []" "\<not> snd_shutdown c" "\<not> rcv_shutdown c" "\<forall>p. clone_ok e p"
      "net_xmit e (length (sent c)) \<noteq> - ECONNREFUSED"
    and server: "sk_state (l_sk l) = TCP_LISTEN" "length (l_reqs l) < l_max_ack_backlog l" "length (l_accept l) \<le> l_max_ack_backlog l" "server_ready re"
    and addrs: "wf_addr saddr" "wf_addr daddr"
  shows "\<exists>c1 syn l1 req sa ack l2 ret l3 ch.
    tcp_nip_send_syn e True c = (0, c1) \<and> sent c1 = sent c @ [syn] \<and>
    tcp_nip_conn_request re \<lparr>sg_saddr = saddr, sg_daddr = daddr, sg_source = sport, sg_dest = dport, sg_skb = syn\<rparr> l = Some (0, l1) \<and>
    l_reqs l1 = l_reqs l @ [req] \<and> l_out l1 = l_out l @ [sa] \<and>
    sg_saddr sa = daddr \<and> sg_daddr sa = saddr \<and> sg_source sa = dport \<and> sg_dest sa = sport \<and>
    sent (tcp_nip_do_rcv e cr (sg_skb sa) c1) = sent c1 @ [ack] \<and>
    established_at (write_seq c + 1) (snt_isn req + 1) (tcp_nip_do_rcv e cr (sg_skb sa) c1) \<and>
    tcp_nip_check_req re ack (length (l_reqs l)) l1 = (Child (length (l_accept l)), l2) \<and>
    tcp_nip_child_process re ack (length (l_accept l)) l2 = (ret, l3) \<and> l_reqs l3 = l_reqs l \<and> l_accept l3 = l_accept l @ [ch] \<and>
    established_at (snt_isn req + 1) (write_seq c + 1) (c_sk ch) \<and>
    c_daddr ch = saddr \<and> c_rcv_saddr ch = daddr \<and> c_dport ch = sport \<and> c_num ch = ntohs dport"
proof -
  obtain c1 syn where c1: "tcp_nip_send_syn e True c = (0, c1)" "syn_sent_at (write_seq c) c1" "sent c1 = sent c @ [syn]"
    "bare_segment TCPHDR_SYN (write_seq c) (write_seq c + 1) syn" "\<not> snd_shutdown c1" "\<not> rcv_shutdown c1"
    using send_syn [OF client(1,2,5,6)] client(3,4) by metis
  define sg where "sg = \<lparr>sg_saddr = saddr, sg_daddr = daddr, sg_source = sport, sg_dest = dport, sg_skb = syn\<rparr>"
  have w: "wf_addr (sg_saddr sg)" "wf_addr (sg_daddr sg)" using addrs by (simp_all add: sg_def)
  obtain l1 req sa where l1: "tcp_nip_conn_request re sg l = Some (0, l1)" "l_reqs l1 = l_reqs l @ [req]" "l_out l1 = l_out l @ [sa]"
    "rcv_isn req = pkt_seq (sg_skb sg)" "ir_rmt_addr req = sg_saddr sg" "ir_loc_addr req = sg_daddr sg" "ir_rmt_port req = sg_source sg"
    "ir_num req = ntohs (sg_dest sg)" "sg_saddr sa = sg_daddr sg" "sg_daddr sa = sg_saddr sg" "sg_source sa = sg_dest sg" "sg_dest sa = sg_source sg"
    "bare_segment (or TCPHDR_SYN TCPHDR_ACK) (snt_isn req) (snt_isn req + 1) (sg_skb sa)" "pkt_ack_seq (sg_skb sa) = pkt_seq (sg_skb sg) + 1"
    "l_accept l1 = l_accept l" "l_max_ack_backlog l1 = l_max_ack_backlog l" "sk_state (l_sk l1) = sk_state (l_sk l)"
    using syn_requests [OF server(4,2,3) w] by metis
  have seq: "pkt_seq (sg_skb sg) = write_seq c" using c1(4) by (simp add: sg_def bare_segment_def)
  have f: "flag (pkt_flags (sg_skb sa)) TCPHDR_ACK" "flag (pkt_flags (sg_skb sa)) TCPHDR_SYN" "\<not> flag (pkt_flags (sg_skb sa)) TCPHDR_RST"
    "pkt_seq (sg_skb sa) = snt_isn req"
    using l1(13) by (simp_all add: bare_segment_def flag_def TCPHDR_SYN_def TCPHDR_ACK_def TCPHDR_RST_def)
  obtain ack where ack: "established_at (write_seq c + 1) (snt_isn req + 1) (tcp_nip_do_rcv e cr (sg_skb sa) c1)"
    "sent (tcp_nip_do_rcv e cr (sg_skb sa) c1) = sent c1 @ [ack]" "bare_segment TCPHDR_ACK (write_seq c + 1) (write_seq c + 1) ack"
    "pkt_ack_seq ack = snt_isn req + 1"
    using synack_established [OF c1(2,5,6) f(1-3)] l1(14) f(4) unfolding seq by metis
  have a: "length (l_accept l1) \<le> l_max_ack_backlog l1" "sk_state (l_sk l1) = TCP_LISTEN" "length (l_reqs l) < length (l_reqs l1)"
    "l_reqs l1 ! length (l_reqs l) = req" "bare_segment TCPHDR_ACK (rcv_isn req + 1) (rcv_isn req + 1) ack"
    using server l1 ack(3) seq by simp_all
  obtain l2 ret l3 ch where l3: "tcp_nip_check_req re ack (length (l_reqs l)) l1 = (Child (length (l_accept l)), l2)"
    "tcp_nip_child_process re ack (length (l_accept l)) l2 = (ret, l3)" "l_reqs l3 = l_reqs l" "l_accept l3 = l_accept l @ [ch]"
    "c_daddr ch = ir_rmt_addr req" "c_rcv_saddr ch = ir_loc_addr req" "c_dport ch = ir_rmt_port req" "c_num ch = ir_num req"
    "established_at (snt_isn req + 1) (rcv_isn req + 1) (c_sk ch)"
    using ack_accepted [OF server(4) a(1-5) ack(4)] l1(2,15) by auto
  show ?thesis using c1(1,3) l1 ack(1,2) l3 seq by (metis sg_def tcp_segment.select_convs(1-4))
qed


lemma sample_server_ready: "server_ready sample_server"
  by (simp add: server_ready_def clones_listener_def sample_server_def zero_sock_def)

theorem handshake_establishes_witness:
  "\<exists>c1 syn l1 sa ack l2 ret l3 ch.
    tcp_nip_send_syn ex_env True (zero_sock\<lparr>sk_state := TCP_SYN_SENT, write_seq := 1000\<rparr>) = (0, c1) \<and> sent c1 = [syn] \<and>
    tcp_nip_conn_request sample_server \<lparr>sg_saddr = short_addr 5, sg_daddr = short_addr 600, sg_source = htons 4000, sg_dest = htons 80, sg_skb = syn\<rparr>
      sample_listener = Some (0, l1) \<and> l_out l1 = [sa] \<and>
    sent (tcp_nip_do_rcv ex_env (\<lambda>_ sk. (0, sk)) (sg_skb sa) c1) = sent c1 @ [ack] \<and>
    tcp_nip_check_req sample_server ack 0 l1 = (Child 0, l2) \<and> tcp_nip_child_process sample_server ack 0 l2 = (ret, l3) \<and>
    l_accept l3 = [ch] \<and> sk_state (c_sk ch) = TCP_ESTABLISHED \<and> c_num ch = 80"
proof -
  let ?c = "zero_sock\<lparr>sk_state := TCP_SYN_SENT, write_seq := 1000\<rparr>"
  have c: "sk_state ?c = TCP_SYN_SENT" "rcv_queue ?c = []" "\<not> snd_shutdown ?c" "\<not> rcv_shutdown ?c" "\<forall>p. clone_ok ex_env p"
    "net_xmit ex_env (length (sent ?c)) \<noteq> - ECONNREFUSED" by (simp_all add: zero_sock_def ex_env_def ECONNREFUSED_def)
  have l: "sk_state (l_sk sample_listener) = TCP_LISTEN" "length (l_reqs sample_listener) < l_max_ack_backlog sample_listener"
    "length (l_accept sample_listener) \<le> l_max_ack_backlog sample_listener" by (simp_all add: sample_listener_def)
  have a: "wf_addr (short_addr 5)" "wf_addr (short_addr 600)" using sample_addr_valid by (simp_all add: valid_addr_def)
  have e: "sent ?c = []" "l_reqs sample_listener = []" "l_accept sample_listener = []" "l_out sample_listener = []"
    by (simp_all add: zero_sock_def sample_listener_def)
  show ?thesis
    using handshake_establishes [OF c l sample_server_ready a, where sport = "htons 4000" and dport = "htons 80" and cr = "\<lambda>_ sk. (0, sk)"]
    unfolding e established_at_def by (simp only: append_Nil list.size ntohs_ntohs) blast
qed

section \<open>A request that is not answered\<close>

text \<open>The timer of the i-th request fires n times.\<close>

fun timer_fires :: "req_env \<Rightarrow> nat \<Rightarrow> nat \<Rightarrow> tcp_listener \<Rightarrow> tcp_listener option" where
  "timer_fires re i 0 l = Some l"
| "timer_fires re i (Suc n) l = do { l \<leftarrow> timer_fires re i n l; ninet_reqsk_timer_handler re i l }"

lemma timer_resends:
  assumes "\<forall>a. rq_route re a \<noteq> None" "synack_alloc re" "i < length (l_reqs l)" "num_timeout (l_reqs l ! i) = 0"
    and "n \<le> Suc (req_thresh re)" "n \<le> 127 \<or> 127 \<le> req_thresh re"
  shows "\<exists>l'. timer_fires re i n l = Some l' \<and> length (l_reqs l') = length (l_reqs l) \<and> num_timeout (l_reqs l' ! i) = n mod 128 \<and>
    length (l_out l') = length (l_out l) + n \<and> (\<forall>j < length (l_reqs l). j \<noteq> i \<longrightarrow> l_reqs l' ! j = l_reqs l ! j)"
  using assms(5,6)
proof (induction n)
  case (Suc n)
  then obtain l' where l': "timer_fires re i n l = Some l'" "length (l_reqs l') = length (l_reqs l)" "num_timeout (l_reqs l' ! i) = n mod 128"
    "length (l_out l') = length (l_out l) + n" "\<forall>j < length (l_reqs l). j \<noteq> i \<longrightarrow> l_reqs l' ! j = l_reqs l ! j" by auto
  obtain dst where d: "rq_route re (ir_rmt_addr (l_reqs l' ! i)) = Some dst" using assms(1) by auto
  have t: "num_timeout (l_reqs l' ! i) \<le> req_thresh re" using Suc.prems l'(3) by (auto intro: order_trans [OF mod_less_eq_dividend])
  obtain ret l2 where s: "tcp_nip_send_synack re dst (l_reqs l' ! i) l' = (ret, l2)" by fastforce
  have l2: "l_reqs l2 = l_reqs l'" "length (l_out l2) = length (l_out l') + 1"
    using synack_sent(1,2) [OF assms(2), of dst "l_reqs l' ! i" l'] s by auto
  show ?case using l' t assms(3) l2
    by (simp add: ninet_reqsk_timer_handler_def tcp_nip_rtx_synack_def tcp_nip_route_req_def d s Let_def mod_Suc)
qed (use assms in simp)


text \<open>C34: an unanswered request. With a limit below 127 its timer sends the SYN-ACK again once more than the limit says, and
  the next time it fires drops the request, without touching the others. num_timeout has seven bits: with a limit of 127 or
  more it wraps around before it exceeds the limit, and the request stays for ever.\<close>

theorem request_timer:
  assumes "\<forall>a. rq_route re a \<noteq> None" "synack_alloc re" "i < length (l_reqs l)" "num_timeout (l_reqs l ! i) = 0"
  shows "(req_thresh re < 127 \<longrightarrow> (\<exists>l'. timer_fires re i (req_thresh re + 2) l = Some l' \<and>
      l_reqs l' = take i (l_reqs l) @ drop (Suc i) (l_reqs l) \<and> length (l_out l') = length (l_out l) + req_thresh re + 1)) \<and>
    (127 \<le> req_thresh re \<longrightarrow> (\<forall>n. \<exists>l'. timer_fires re i n l = Some l' \<and> length (l_reqs l') = length (l_reqs l)))"
proof (intro conjI impI allI)
  let ?n = "Suc (req_thresh re)"
  assume "req_thresh re < 127"
  then obtain l' where l': "timer_fires re i ?n l = Some l'" "length (l_reqs l') = length (l_reqs l)" "num_timeout (l_reqs l' ! i) = ?n"
    "length (l_out l') = length (l_out l) + ?n" "\<forall>j < length (l_reqs l). j \<noteq> i \<longrightarrow> l_reqs l' ! j = l_reqs l ! j"
    using timer_resends [OF assms, of ?n] by auto
  have "take i (l_reqs l') = take i (l_reqs l)" "drop (Suc i) (l_reqs l') = drop (Suc i) (l_reqs l)"
    using l'(2,5) assms(3) by (auto intro!: nth_equalityI)
  then have "ninet_reqsk_timer_handler re i l' = Some (l'\<lparr>l_reqs := take i (l_reqs l) @ drop (Suc i) (l_reqs l)\<rparr>)"
    using l'(3) by (simp add: ninet_reqsk_timer_handler_def Let_def)
  then show "\<exists>l'. timer_fires re i (req_thresh re + 2) l = Some l' \<and> l_reqs l' = take i (l_reqs l) @ drop (Suc i) (l_reqs l) \<and>
      length (l_out l') = length (l_out l) + req_thresh re + 1"
    using l'(1,4) by simp
next
  fix n
  assume t: "127 \<le> req_thresh re"
  show "\<exists>l'. timer_fires re i n l = Some l' \<and> length (l_reqs l') = length (l_reqs l)"
  proof -
    have "\<exists>l'. timer_fires re i n l = Some l' \<and> length (l_reqs l') = length (l_reqs l) \<and> num_timeout (l_reqs l' ! i) < 128"
    proof (induction n)
      case (Suc n)
      then obtain l' where l': "timer_fires re i n l = Some l'" "length (l_reqs l') = length (l_reqs l)" "num_timeout (l_reqs l' ! i) < 128" by auto
      obtain dst where d: "rq_route re (ir_rmt_addr (l_reqs l' ! i)) = Some dst" using assms(1) by auto
      obtain ret l2 where s: "tcp_nip_send_synack re dst (l_reqs l' ! i) l' = (ret, l2)" by fastforce
      have "l_reqs l2 = l_reqs l'" using synack_sent(2) [OF assms(2), of dst "l_reqs l' ! i" l'] s by auto
      then show ?case using l' t assms(3)
        by (simp add: ninet_reqsk_timer_handler_def tcp_nip_rtx_synack_def tcp_nip_route_req_def d s Let_def)
    qed (use assms in simp)
    then show ?thesis by blast
  qed
qed

theorem request_timer_witness:
  "\<exists>l'. timer_fires sample_server 0 7 (sample_listener\<lparr>l_reqs := [zero_req]\<rparr>) = Some l' \<and> l_reqs l' = [] \<and> length (l_out l') = 6"
proof -
  have t: "req_thresh sample_server = 5" by (simp add: req_thresh_def sample_server_def)
  have r: "\<forall>a. rq_route sample_server a \<noteq> None" "synack_alloc sample_server" by (simp_all add: sample_server_def)
  show ?thesis using request_timer [OF r, of 0 "sample_listener\<lparr>l_reqs := [zero_req]\<rparr>"] unfolding t by (simp add: sample_listener_def zero_req_def)
qed

section \<open>A reset in the place of the third segment\<close>

text \<open>C36: tcp_nip_check_req does not look at the RST flag. A reset that acknowledges the SYN-ACK, as a client that lost interest
  sends it, does not remove the request: it makes a child in the queue of accepted connections, and that child is closed with
  ECONNRESET at once. accept then returns a dead connection.\<close>

theorem reset_is_accepted:
  assumes r: "server_ready re" and room: "length (l_accept l) \<le> l_max_ack_backlog l" and st: "sk_state (l_sk l) = TCP_LISTEN"
    and i: "i < length (l_reqs l)" and p: "bare_segment (or TCPHDR_RST TCPHDR_ACK) (rcv_isn (l_reqs l ! i) + 1) (rcv_isn (l_reqs l ! i) + 1) skb"
      "pkt_ack_seq skb = snt_isn (l_reqs l ! i) + 1"
  shows "\<exists>l1 ret l2 ch. tcp_nip_check_req re skb i l = (Child (length (l_accept l)), l1) \<and>
    tcp_nip_child_process re skb (length (l_accept l)) l1 = (ret, l2) \<and> l_accept l2 = l_accept l @ [ch] \<and>
    sk_state (c_sk ch) = TCP_CLOSE \<and> sk_err (c_sk ch) = ECONNRESET"
proof -
  let ?req = "l_reqs l ! i"
  have f: "flag (pkt_flags skb) TCPHDR_ACK" "flag (pkt_flags skb) TCPHDR_RST" "pkt_seq skb = rcv_isn ?req + 1" "pkt_end_seq skb = rcv_isn ?req + 1"
    using p(1) by (simp_all add: bare_segment_def flag_def TCPHDR_ACK_def TCPHDR_RST_def)
  obtain ch where ch: "tcp_nip_syn_recv_sock re skb ?req l = (Some (ch, True), l)" "sk_state (c_sk ch) = TCP_SYN_RECV"
    "rcv_wup (c_sk ch) = rcv_isn ?req + 1"
    "conn (c_sk ch) = ((snt_isn ?req + 1, snt_isn ?req + 1, snt_isn ?req + 1, rcv_isn ?req + 1, rcv_isn ?req + 1), ([], [], [], []), 0, 0, False, False)"
    using child_of_request [OF r room] by metis
  note k = conn_fields [OF ch(4)]
  have win: "\<not> after b (b + tcp_receive_window sk)" for b sk by (simp add: before_def tcp_receive_window_def Let_def)
  have v: "tcp_nip_validate_incoming (rq_tcp re) skb (c_sk ch) = (False, tcp_nip_reset (c_sk ch))"
    using f k ch(3) win by (simp add: tcp_nip_validate_incoming_def tcp_nip_sequence_def before_def)
  have e: "tcp_nip_rcv_state_process (rq_tcp re) (\<lambda>_ sk. (0, sk)) skb (c_sk ch) = (0, tcp_nip_reset (c_sk ch))"
    using ch(2) f by (simp add: tcp_nip_rcv_state_process_def v)
  have d: "sk_state (tcp_nip_reset (c_sk ch)) = TCP_CLOSE" "sk_err (tcp_nip_reset (c_sk ch)) = ECONNRESET"
    using ch(2) by (simp_all add: tcp_nip_reset_def tcp_nip_done_def Let_def tcp_nip_write_queue_purge_def inet_csk_clear_xmit_timers_def
        sk_nip_stream_kill_queues_def tcp_nip_destroy_sock_def)
  define l1 where "l1 = l\<lparr>l_reqs := take i (l_reqs l) @ drop (Suc i) (l_reqs l), l_accept := l_accept l @ [ch]\<rparr>"
  have c: "tcp_nip_check_req re skb i l = (Child (length (l_accept l)), l1)"
    using f(1) p(2) st by (simp add: tcp_nip_check_req_def Let_def ch(1) inet_csk_complete_hashdance_def l1_def)
  have a: "l_accept l1 ! length (l_accept l) = ch" "(l_accept l1)[length (l_accept l) := x] = l_accept l @ [x]" for x by (simp_all add: l1_def)
  have o: "\<not> child_owned re" using r by (simp add: server_ready_def)
  show ?thesis using c o d by (simp add: tcp_nip_child_process_def Let_def a e ch(2))
qed


theorem reset_is_accepted_witness:
  "\<exists>l1 ret l2 ch. tcp_nip_check_req sample_server (ex_skb\<lparr>pkt_seq := 1, pkt_end_seq := 1, pkt_ack_seq := 1, pkt_data := [],
      pkt_flags := or TCPHDR_RST TCPHDR_ACK\<rparr>) 0 (sample_listener\<lparr>l_reqs := [zero_req]\<rparr>) = (Child 0, l1) \<and>
    tcp_nip_child_process sample_server (ex_skb\<lparr>pkt_seq := 1, pkt_end_seq := 1, pkt_ack_seq := 1, pkt_data := [],
      pkt_flags := or TCPHDR_RST TCPHDR_ACK\<rparr>) 0 l1 = (ret, l2) \<and> l_accept l2 = [ch] \<and> sk_state (c_sk ch) = TCP_CLOSE"
proof -
  let ?l = "sample_listener\<lparr>l_reqs := [zero_req]\<rparr>"
    and ?p = "ex_skb\<lparr>pkt_seq := 1, pkt_end_seq := 1, pkt_ack_seq := 1, pkt_data := [], pkt_flags := or TCPHDR_RST TCPHDR_ACK\<rparr>"
  have h: "length (l_accept ?l) \<le> l_max_ack_backlog ?l" "sk_state (l_sk ?l) = TCP_LISTEN" "0 < length (l_reqs ?l)"
    "bare_segment (or TCPHDR_RST TCPHDR_ACK) (rcv_isn (l_reqs ?l ! 0) + 1) (rcv_isn (l_reqs ?l ! 0) + 1) ?p"
    "pkt_ack_seq ?p = snt_isn (l_reqs ?l ! 0) + 1"
    by (simp_all add: sample_listener_def zero_req_def bare_segment_def)
  have e: "l_accept ?l = []" by (simp add: sample_listener_def)
  show ?thesis using reset_is_accepted [OF sample_server_ready h] unfolding e list.size append_Nil by metis
qed

section \<open>The queues stay bounded\<close>

text \<open>What can happen to a listening socket: a SYN, a segment for the i-th request, its timer, a call of accept. The answers of the
  kernel may differ each time.\<close>

datatype listener_event = Syn tcp_segment | Segment nat tcp_skb | Timeout nat | Accept

fun listener_step :: "req_env \<Rightarrow> listener_event \<Rightarrow> tcp_listener \<Rightarrow> tcp_listener option" where
  "listener_step re (Syn sg) l = map_option snd (tcp_nip_conn_request re sg l)"
| "listener_step re (Segment i skb) l =
    (if i \<ge> length (l_reqs l) then Some l
     else case tcp_nip_check_req re skb i l of
         (Child k, l) \<Rightarrow> Some (snd (tcp_nip_child_process re skb k l))
       | (_, l) \<Rightarrow> Some l)"
| "listener_step re (Timeout i) l = (if i \<ge> length (l_reqs l) then Some l else ninet_reqsk_timer_handler re i l)"
| "listener_step re Accept l = Some (snd (ninet_csk_accept l))"

fun listener_run :: "(req_env \<times> listener_event) list \<Rightarrow> tcp_listener \<Rightarrow> tcp_listener option" where
  "listener_run [] l = Some l"
| "listener_run ((re, ev) # evs) l = do { l \<leftarrow> listener_step re ev l; listener_run evs l }"

text \<open>b is the backlog the queues are measured by.\<close>

definition bounded :: "nat \<Rightarrow> tcp_listener \<Rightarrow> bool" where
  "bounded b l \<longleftrightarrow> l_max_ack_backlog l = b \<and> length (l_reqs l) \<le> b \<and> length (l_accept l) \<le> Suc b"

lemma send_synack_keeps:
  "l_reqs (snd (tcp_nip_send_synack re dst req l)) = l_reqs l" "l_accept (snd (tcp_nip_send_synack re dst req l)) = l_accept l"
  "l_max_ack_backlog (snd (tcp_nip_send_synack re dst req l)) = l_max_ack_backlog l"
  by (simp_all add: tcp_nip_send_synack_def split_beta split: option.split)

lemma syn_recv_sock_keeps:
  assumes "tcp_nip_syn_recv_sock re skb req l = (r, l')"
  shows "l_reqs l' = l_reqs l \<and> l_accept l' = l_accept l \<and> l_max_ack_backlog l' = l_max_ack_backlog l \<and> l_sk l' = l_sk l"
    "r \<noteq> None \<Longrightarrow> length (l_accept l) \<le> l_max_ack_backlog l"
  using assms by (auto simp: tcp_nip_syn_recv_sock_def tcp_listendrop_def acceptq_is_full_def Let_def split: if_splits option.splits)

lemma conn_request_bounded:
  assumes "tcp_nip_conn_request re sg l = Some (r, l')" "bounded b l"
  shows "bounded b l'"
proof -
  have d: "bounded b (tcp_listendrop l)" using assms(2) by (simp add: bounded_def tcp_listendrop_def)
  have s: "bounded b (snd (tcp_nip_send_synack re dst req (ninet_csk_reqsk_queue_hash_add e q t l)))" if "\<not> reqsk_queue_is_full l" for dst req e q t
    using that assms(2) by (simp add: bounded_def send_synack_keeps ninet_csk_reqsk_queue_hash_add_def reqsk_queue_is_full_def)
  show ?thesis
    using assms(1) d s
    by (auto simp: tcp_nip_conn_request_def Let_def split_beta split: if_splits option.splits bind_splits)
qed

lemma check_req_bounded:
  assumes "tcp_nip_check_req re skb i l = (r, l')" "bounded b l" "i < length (l_reqs l)"
  shows "bounded b l'"
proof -
  obtain x l1 where x: "tcp_nip_syn_recv_sock re skb (l_reqs l ! i) l = (x, l1)" by fastforce
  note k = syn_recv_sock_keeps [OF x]
  have "bounded b l1" using k(1) assms(2) by (simp add: bounded_def)
  moreover have "bounded b (snd (inet_csk_complete_hashdance i ch own l1))" if "x \<noteq> None" for ch own
    using k(1) k(2) [OF that] assms(2,3) by (auto simp: inet_csk_complete_hashdance_def bounded_def Let_def)
  ultimately show ?thesis using assms(1,2)
    by (auto simp: tcp_nip_check_req_def Let_def x bounded_def split: if_splits option.splits prod.splits dest!: arg_cong [where f = snd])
qed


lemma listener_step_bounded: "listener_step re ev l = Some l' \<Longrightarrow> bounded b l \<Longrightarrow> bounded b l'"
proof (cases ev)
  case (Syn sg)
  then show "listener_step re ev l = Some l' \<Longrightarrow> bounded b l \<Longrightarrow> bounded b l'" using conn_request_bounded by auto
next
  case (Segment i skb)
  have c: "bounded b (snd (tcp_nip_child_process re skb k x))" if "bounded b x" for k x
    using that by (simp add: tcp_nip_child_process_def Let_def bounded_def split_beta)
  show "listener_step re ev l = Some l' \<Longrightarrow> bounded b l \<Longrightarrow> bounded b l'"
    unfolding Segment using check_req_bounded [of re skb i l _ _ b] c by (auto split: if_splits prod.splits check_result.splits)
next
  case (Timeout i)
  have "bounded b l'" if t: "ninet_reqsk_timer_handler re i l = Some l'" "bounded b l" "i < length (l_reqs l)"
  proof (cases "num_timeout (l_reqs l ! i) \<le> req_thresh re")
    case True
    then obtain ret l1 where l1: "tcp_nip_rtx_synack re (l_reqs l ! i) l = Some (ret, l1)" "length (l_reqs l') = length (l_reqs l1)"
      "l_accept l' = l_accept l1" "l_max_ack_backlog l' = l_max_ack_backlog l1"
      using t(1) by (auto simp: ninet_reqsk_timer_handler_def Let_def split: bind_splits)
    then have "l_reqs l1 = l_reqs l" "l_accept l1 = l_accept l" "l_max_ack_backlog l1 = l_max_ack_backlog l"
      using send_synack_keeps [of re _ "l_reqs l ! i" l] by (auto simp: tcp_nip_rtx_synack_def split: option.splits dest!: arg_cong [where f = snd])
    then show ?thesis using l1 t(2) by (simp add: bounded_def)
  next
    case False
    then show ?thesis using t by (auto simp: ninet_reqsk_timer_handler_def Let_def bounded_def)
  qed
  then show "listener_step re ev l = Some l' \<Longrightarrow> bounded b l \<Longrightarrow> bounded b l'" unfolding Timeout by (auto split: if_splits)
next
  case Accept
  then show "listener_step re ev l = Some l' \<Longrightarrow> bounded b l \<Longrightarrow> bounded b l'"
    by (auto simp: ninet_csk_accept_def bounded_def split: list.splits)
qed

text \<open>C35: whatever segments arrive, whatever the timers do and whenever accept is called, the requests of a listening socket never
  exceed its backlog, and the accepted connections exceed it by one at most.\<close>

theorem listener_bounded:
  assumes "listener_run evs l = Some l'" "bounded b l"
  shows "length (l_reqs l') \<le> b \<and> length (l_accept l') \<le> Suc b"
proof -
  have "bounded b l'"
    using assms
  proof (induction evs arbitrary: l)
    case (Cons ev evs)
    obtain re e where "ev = (re, e)" by fastforce
    then obtain l1 where "listener_step re e l = Some l1" "listener_run evs l1 = Some l'" using Cons.prems(1) by (auto split: bind_splits)
    then show ?case using listener_step_bounded Cons.IH Cons.prems(2) by blast
  qed simp
  then show ?thesis by (simp add: bounded_def)
qed

theorem listener_bounded_witness:
  "length (l_reqs (the (listener_run [(sample_server, Accept)] (sample_listener\<lparr>l_reqs := [zero_req]\<rparr>)))) \<le> 5"
  using listener_bounded [of "[(sample_server, Accept)]" "sample_listener\<lparr>l_reqs := [zero_req]\<rparr>" _ 5]
  by (simp add: ninet_csk_accept_def sample_listener_def bounded_def)

end
