(* ===== verification/TcpWire.thy ===== *)
theory TcpWire
  imports TcpReq
begin

text \<open>
  The bytes of TCP segments: the header that __tcp_nip_transmit_skb writes (src/src/linux/net/newip/tcp_nip_output.c), and
  the checks and the control block of tcp_nip_rcv (src/src/linux/net/newip/tcp_nip.c).

  The payload of a packet and the options stand behind the header in one list of bytes; the lemmas join the packets of
  the connection's model to the network layer of NipIo.
\<close>

section \<open>The bytes of a segment\<close>

text \<open>The header that __tcp_nip_transmit_skb and tcp_nip_make_synack build; check is the value stored in the field. Ports are in
  network order.\<close>

definition tcp_doff_flags :: "tcp_skb \<Rightarrow> u16" where
  "tcp_doff_flags p = or (push_bit 12 (of_nat ((20 + length (th_opts p)) div 4))) (ucast (pkt_flags p))"

definition tcp_header_bytes :: "u16 \<Rightarrow> u16 \<Rightarrow> tcp_skb \<Rightarrow> u16 \<Rightarrow> bytes" where
  "tcp_header_bytes source dest p check =
    [lo8 source, hi8 source, lo8 dest, hi8 dest] @ be32 (pkt_seq p) @ be32 (pkt_ack_seq p) @
    [hi8 (tcp_doff_flags p), lo8 (tcp_doff_flags p), hi8 (th_window p), lo8 (th_window p), lo8 check, hi8 check,
     hi8 (th_urg p), lo8 (th_urg p)] @ th_opts p"

definition tcp_segment_bytes :: "nip_addr \<Rightarrow> nip_addr \<Rightarrow> u16 \<Rightarrow> u16 \<Rightarrow> tcp_skb \<Rightarrow> bytes option" where
  "tcp_segment_bytes saddr daddr source dest p = do {
     check \<leftarrow> nip_get_output_checksum_tcp (tcp_header_bytes source dest p 0 @ pkt_data p) saddr daddr;
     Some (tcp_header_bytes source dest p (htons check) @ pkt_data p)
   }"

section \<open>Reception of the bytes\<close>

definition rd_be32 :: "bytes \<Rightarrow> nat \<Rightarrow> u32" where
  "rd_be32 b i = or (push_bit 24 (ucast (b ! i))) (or (push_bit 16 (ucast (b ! (i + 1)))) (or (push_bit 8 (ucast (b ! (i + 2)))) (ucast (b ! (i + 3)))))"

text \<open>struct tcphdr; ports in network order, the other fields in host order.\<close>

record tcphdr =
  h_source :: u16
  h_dest :: u16
  h_seq :: u32
  h_ack_seq :: u32
  h_doff :: nat
  h_flags :: u8
  h_window :: u16
  h_urg :: u16

definition tcp_hdr :: "bytes \<Rightarrow> tcphdr option" where
  "tcp_hdr b = (if length b < 20 then None
     else Some \<lparr>h_source = be16 (b ! 1) (b ! 0), h_dest = be16 (b ! 3) (b ! 2), h_seq = rd_be32 b 4, h_ack_seq = rd_be32 b 8,
       h_doff = unat (drop_bit 4 (b ! 12)), h_flags = b ! 13, h_window = be16 (b ! 14) (b ! 15), h_urg = be16 (b ! 18) (b ! 19)\<rparr>)"

definition nip_get_tcp_input_checksum :: "nip_skb \<Rightarrow> bool option" where
  "nip_get_tcp_input_checksum skb =
    (let len = ucast (skb_len skb) in
     map_option (\<lambda>c. c = 0xFFFF) (nip_check_sum_parse (drop (skb_th skb) (skb_mem skb)) len
       \<lparr>ps_saddr = cb_srcaddr skb, ps_daddr = cb_dstaddr skb, ps_check_len = htons len, ps_nexthdr = cb_nexthdr skb\<rparr>))"

text \<open>tcp_nip_fill_cb: the control block, with the payload and the options the later code finds through the header. When the header
  length exceeds the packet, the payload starts behind its end and its length wraps around: None.\<close>

definition tcp_nip_fill_cb :: "nip_skb \<Rightarrow> tcphdr \<Rightarrow> tcp_skb option" where
  "tcp_nip_fill_cb skb th =
    (let d = transport_data skb; off = h_doff th * 4; one = (\<lambda>f. if flag (h_flags th) f then 1 else 0) in
     if off > unat (skb_len skb) then None
     else Some \<lparr>pkt_seq = h_seq th, pkt_end_seq = h_seq th + one TCPHDR_SYN + one TCPHDR_FIN + skb_len skb - of_nat off,
       pkt_ack_seq = h_ack_seq th, pkt_flags = h_flags th, pkt_data = drop off (take (unat (skb_len skb)) d), pkt_tstamp = 0,
       pkt_pcount = 1, pkt_gso_size = 0, th_window = h_window th, th_urg = h_urg th, th_opts = drop 20 (take off d)\<rparr>)"

text \<open>The checks tcp_nip_rcv begins with: the header of a packet that passes them.\<close>

definition tcp_nip_rcv_header :: "nip_skb \<Rightarrow> tcphdr option option" where
  "tcp_nip_rcv_header skb =
    (if skb_otherhost skb then Some None
     else do {
       ok \<leftarrow> nip_get_tcp_input_checksum skb;
       if \<not> ok then Some None
       else do {
         th \<leftarrow> tcp_hdr (transport_data skb);
         Some (if h_doff th < 5 then None else Some th)
       }
     })"

section \<open>From end to end\<close>

lemma rd_be32: "i + 3 < length b \<Longrightarrow> take 4 (drop i b) = be32 w \<Longrightarrow> rd_be32 b i = w"
proof -
  assume i: "i + 3 < length b" "take 4 (drop i b) = be32 w"
  have n: "b ! (i + k) = be32 w ! k" if "k < 4" for k using that i(1) by (subst i(2) [symmetric]) simp
  have "b ! i = ucast (drop_bit 24 w)" "b ! (i + 1) = ucast (drop_bit 16 w)" "b ! (i + 2) = ucast (drop_bit 8 w)" "b ! (i + 3) = ucast w"
    using n [of 0] n [of 1] n [of 2] n [of 3] by (simp_all add: be32_def)
  then show ?thesis unfolding rd_be32_def
    by (simp only:) (rule bit_word_eqI, auto simp: bit_simps not_less; rename_tac n; case_tac "16 \<le> n"; simp)
qed

lemma doff_flags:
  assumes "length (th_opts p) \<le> 40" "4 dvd length (th_opts p)"
  shows "unat (drop_bit 4 (hi8 (tcp_doff_flags p))) * 4 = 20 + length (th_opts p)" "lo8 (tcp_doff_flags p) = pkt_flags p"
proof -
  define n where "n = (20 + length (th_opts p)) div 4"
  have n: "n < 16" "n * 4 = 20 + length (th_opts p)" using assms by (auto simp: n_def)
  have "\<not> bit n k" if "4 \<le> k" for k
  proof -
    have "(2::nat) ^ 4 \<le> 2 ^ k" using that by (rule power_increasing) simp
    then have "n div 2 ^ k = 0" using n(1) by simp
    then show ?thesis by (simp add: bit_iff_odd)
  qed
  then have b: "bit n k \<Longrightarrow> k < 4" for k using not_le by blast
  have "drop_bit 4 (hi8 (or (push_bit 12 (of_nat n)) (ucast f))) = (of_nat n :: u8)" for f :: u8
  proof (rule bit_word_eqI)
    fix k assume "k < LENGTH(8)"
    have "\<not> bit f (12 + k)" using bit_imp_le_length [of f "12 + k"] by auto
    with \<open>k < LENGTH(8)\<close> show "bit (drop_bit 4 (hi8 (or (push_bit 12 (of_nat n)) (ucast f)))) k = bit (of_nat n :: u8) k"
      unfolding hi8_def using b [of k] by (auto simp: bit_simps)
  qed
  then show "unat (drop_bit 4 (hi8 (tcp_doff_flags p))) * 4 = 20 + length (th_opts p)"
    using n by (simp add: tcp_doff_flags_def unat_of_nat take_bit_eq_mod flip: n_def)
  show "lo8 (tcp_doff_flags p) = pkt_flags p"
    unfolding tcp_doff_flags_def lo8_def by (rule bit_word_eqI) (auto simp: bit_simps)
qed

lemma tcp_header_length: "length (tcp_header_bytes sp dp p c) = 20 + length (th_opts p)"
  by (simp add: tcp_header_bytes_def be32_def)

lemma drop_tcp_header [simp]: "drop 20 (tcp_header_bytes sp dp p c) = th_opts p"
  by (simp add: tcp_header_bytes_def be32_def)

lemma segment_length: "tcp_segment_bytes s d sp dp p = Some seg \<Longrightarrow> length seg = 20 + length (th_opts p) + length (pkt_data p)"
  by (auto simp: tcp_segment_bytes_def tcp_header_length split: bind_splits)

lemma checksum_at_16:
  assumes v: "valid_addr s" "valid_addr d" and b: "18 \<le> length b" "length b < 65536" "b ! 16 = 0" "b ! 17 = 0"
  shows "\<exists>c. nip_get_output_checksum_tcp b s d = Some c \<and>
    nip_check_sum_parse (b[16 := hi8 c, 17 := lo8 c]) (of_nat (length b))
      \<lparr>ps_saddr = s, ps_daddr = d, ps_check_len = htons (of_nat (length b)), ps_nexthdr = IPPROTO_TCP\<rparr> = Some 0xFFFF"
proof -
  define n where "n = (of_nat (length b) :: u16)"
  let ?ps = "\<lparr>ps_saddr = s, ps_daddr = d, ps_check_len = htons n, ps_nexthdr = IPPROTO_TCP\<rparr>"
  have un: "unat n = length b" unfolding n_def using b(2) by (simp add: unat_of_nat take_bit_eq_mod)
  have ps: "wf_pseudo ?ps" using wf_pseudo_for [OF v, of n] by (simp add: wf_pseudo_def pseudo_for_def)
  have k: "even (16 :: nat)" "16 + 1 < unat n" "unat n \<le> length b" "b ! (16 + 1) = 0" using b by (simp_all add: un)
  show ?thesis using checksum_build_parse [OF ps k(3) k(1) k(2) b(3) k(4)]
    by (simp add: nip_get_output_checksum_tcp_def n_def Let_def)
qed

lemma tcp_checksum_inserted:
  assumes v: "valid_addr s" "valid_addr d" and l: "20 + length (th_opts p) + length (pkt_data p) < 65536"
  shows "\<exists>c. tcp_segment_bytes s d sp dp p = Some (tcp_header_bytes sp dp p c @ pkt_data p) \<and>
    nip_check_sum_parse (tcp_header_bytes sp dp p c @ pkt_data p) (of_nat (length (tcp_header_bytes sp dp p c @ pkt_data p)))
      \<lparr>ps_saddr = s, ps_daddr = d, ps_check_len = htons (of_nat (length (tcp_header_bytes sp dp p c @ pkt_data p))),
       ps_nexthdr = IPPROTO_TCP\<rparr> = Some 0xFFFF"
proof -
  let ?d = "tcp_header_bytes sp dp p 0 @ pkt_data p"
  have z: "18 \<le> length ?d" "length ?d < 65536" "?d ! 16 = 0" "?d ! 17 = 0"
    using l by (simp_all add: tcp_header_bytes_def be32_def lo8_def hi8_def)
  have u: "?d[16 := hi8 c, 17 := lo8 c] = tcp_header_bytes sp dp p (htons c) @ pkt_data p" for c
    by (simp add: tcp_header_bytes_def be32_def)
  have len: "length (tcp_header_bytes sp dp p c @ pkt_data p) = length ?d" for c by (simp add: tcp_header_length)
  obtain c where c: "nip_get_output_checksum_tcp ?d s d = Some c"
    "nip_check_sum_parse (tcp_header_bytes sp dp p (htons c) @ pkt_data p) (of_nat (length ?d))
      \<lparr>ps_saddr = s, ps_daddr = d, ps_check_len = htons (of_nat (length ?d)), ps_nexthdr = IPPROTO_TCP\<rparr> = Some 0xFFFF"
    using checksum_at_16 [OF v z] unfolding u by blast
  have "tcp_segment_bytes s d sp dp p = Some (tcp_header_bytes sp dp p (htons c) @ pkt_data p)"
    by (simp only: tcp_segment_bytes_def c(1) Option.bind.bind_lunit)
  with c(2) show ?thesis unfolding len [of "htons c", symmetric] by blast
qed

lemma tcp_hdr_of_bytes:
  assumes "length (th_opts p) \<le> 40" "4 dvd length (th_opts p)"
  shows "tcp_hdr (tcp_header_bytes sp dp p c @ rest) = Some \<lparr>h_source = sp, h_dest = dp, h_seq = pkt_seq p, h_ack_seq = pkt_ack_seq p,
    h_doff = (20 + length (th_opts p)) div 4, h_flags = pkt_flags p, h_window = th_window p, h_urg = th_urg p\<rparr>"
proof -
  let ?b = "tcp_header_bytes sp dp p c @ rest"
  have "rd_be32 ?b 4 = pkt_seq p" "rd_be32 ?b 8 = pkt_ack_seq p"
    by (rule rd_be32; simp add: tcp_header_bytes_def be32_def)+
  moreover have "unat (drop_bit 4 (?b ! 12)) = (20 + length (th_opts p)) div 4" "?b ! 13 = pkt_flags p"
    using doff_flags [OF assms] by (simp_all add: tcp_header_bytes_def be32_def)
  moreover have "?b ! 0 = lo8 sp" "?b ! 1 = hi8 sp" "?b ! 2 = lo8 dp" "?b ! 3 = hi8 dp" "?b ! 14 = hi8 (th_window p)"
    "?b ! 15 = lo8 (th_window p)" "?b ! 18 = hi8 (th_urg p)" "?b ! 19 = lo8 (th_urg p)"
    by (simp_all add: tcp_header_bytes_def be32_def)
  ultimately show ?thesis by (simp add: tcp_hdr_def tcp_header_length)
qed

lemma of_nat_unat_u32: "(of_nat (unat w) :: u32) = w" by simp

lemma input_checksum_of_segment:
  assumes "take (unat (skb_len skb)) (transport_data skb) = seg" "unat (skb_len skb) = length seg" "length seg < 65536"
    and "cb_srcaddr skb = s" "cb_dstaddr skb = d" "cb_nexthdr skb = IPPROTO_TCP" "skb_th skb = skb_pos skb"
    and "valid_addr s" "valid_addr d"
    and "nip_check_sum_parse seg (of_nat (length seg))
      \<lparr>ps_saddr = s, ps_daddr = d, ps_check_len = htons (of_nat (length seg)), ps_nexthdr = IPPROTO_TCP\<rparr> = Some 0xFFFF"
  shows "nip_get_tcp_input_checksum skb = Some True"
proof -
  define n where "n = (of_nat (length seg) :: u16)"
  have un: "unat n = length seg" unfolding n_def using assms(3) by (simp add: unat_of_nat take_bit_eq_mod)
  have "skb_len skb = of_nat (length seg)" by (metis assms(2) of_nat_unat_u32)
  then have n: "ucast (skb_len skb) = n"
    unfolding n_def using assms(3) by (intro word_unat_eq_iff [THEN iffD2]) (simp add: unsigned_ucast_eq unat_of_nat take_bit_eq_mod)
  let ?ps = "\<lparr>ps_saddr = s, ps_daddr = d, ps_check_len = htons n, ps_nexthdr = IPPROTO_TCP\<rparr>"
  have ps: "wf_pseudo ?ps" using wf_pseudo_for [OF assms(8,9), of n] by (simp add: wf_pseudo_def pseudo_for_def)
  have "unat n \<le> length (transport_data skb)" using arg_cong [OF assms(1), of length] assms(2) un by simp
  then have "nip_check_sum_parse (transport_data skb) n ?ps = nip_check_sum_parse (take (unat n) (transport_data skb)) n ?ps"
    using checksum_take(1) [OF ps] by simp
  then show ?thesis using assms by (simp add: nip_get_tcp_input_checksum_def n transport_data_def un Let_def flip: n_def)
qed

text \<open>end_seq agrees with the rest of the packet, as tcp_init_nondata_skb and skb_nip_entail with tcp_nip_sendmsg set it.\<close>

definition end_seq_ok :: "tcp_skb \<Rightarrow> bool" where
  "end_seq_ok p \<longleftrightarrow> pkt_end_seq p = pkt_seq p + (if flag (pkt_flags p) TCPHDR_SYN then 1 else 0) +
     (if flag (pkt_flags p) TCPHDR_FIN then 1 else 0) + of_nat (length (pkt_data p))"

lemma packet_roundtrip:
  assumes "tcp_segment_bytes saddr daddr sport dport p = Some seg"
    and "nip_tcp_hdr stack saddr daddr (length seg) = Some hdr"
    and "valid_addr saddr" "valid_addr daddr" "length stack = NIP_HDR_MAX"
    and "length (th_opts p) \<le> 40" "4 dvd length (th_opts p)" "length (pkt_data p) < 65000" "end_seq_ok p"
    and "protos IPPROTO_TCP = Some h" "length padding < 65536"
  shows "\<exists>skb th q. delivered icmp protos ((hdr @ seg) @ padding) = Some (h, skb) \<and> cb_srcaddr skb = saddr \<and> cb_dstaddr skb = daddr \<and>
    tcp_nip_rcv_header skb = Some (Some th) \<and> h_source th = sport \<and> h_dest th = dport \<and>
    tcp_nip_fill_cb skb th = Some q \<and> q = p\<lparr>pkt_tstamp := 0, pkt_pcount := 1, pkt_gso_size := 0\<rparr> \<and> skb_th skb = skb_pos skb"
proof -
  obtain c where c: "seg = tcp_header_bytes sport dport p c @ pkt_data p"
    "nip_check_sum_parse seg (of_nat (length seg))
      \<lparr>ps_saddr = saddr, ps_daddr = daddr, ps_check_len = htons (of_nat (length seg)), ps_nexthdr = IPPROTO_TCP\<rparr> = Some 0xFFFF"
    using tcp_checksum_inserted [OF assms(3,4), of p sport dport] assms(1,6,8) by auto
  have l: "length seg = 20 + length (th_opts p) + length (pkt_data p)" using segment_length [OF assms(1)] .
  have ne: "seg \<noteq> []" "length seg + NIP_HDR_MAX < 65536" "length seg < 65536"
    using l assms(6,8) by (auto simp: NIP_HDR_MAX_def)
  obtain skb where s: "delivered icmp protos ((hdr @ seg) @ padding) = Some (h, skb)" "take (unat (skb_len skb)) (transport_data skb) = seg"
    "unat (skb_len skb) = length seg" "cb_srcaddr skb = saddr" "cb_dstaddr skb = daddr" "cb_nexthdr skb = IPPROTO_TCP"
    "skb_th skb = skb_pos skb" "\<not> skb_otherhost skb"
    using tcp_segment_delivered [where icmp = icmp and protos = protos and padding = padding, OF assms(2-5) ne(1,2) assms(10,11)] by blast
  obtain rest where r: "transport_data skb = seg @ rest" using append_take_drop_id [of "unat (skb_len skb)" "transport_data skb"] s(2) by metis
  let ?th = "\<lparr>h_source = sport, h_dest = dport, h_seq = pkt_seq p, h_ack_seq = pkt_ack_seq p,
    h_doff = (20 + length (th_opts p)) div 4, h_flags = pkt_flags p, h_window = th_window p, h_urg = th_urg p\<rparr>"
  have th: "tcp_hdr (transport_data skb) = Some ?th" unfolding r c(1) append_assoc by (rule tcp_hdr_of_bytes [OF assms(6,7)])
  have off: "(20 + length (th_opts p)) div 4 * 4 = 20 + length (th_opts p)" using assms(7) by simp
  have "tcp_nip_rcv_header skb = Some (Some ?th)"
    using s(8) input_checksum_of_segment [OF s(2,3) ne(3) s(4-7) assms(3,4) c(2)] th by (simp add: tcp_nip_rcv_header_def)
  moreover have parts: "drop (20 + length (th_opts p)) seg = pkt_data p"
    "drop 20 (take (20 + length (th_opts p)) (transport_data skb)) = th_opts p"
    using c(1) r tcp_header_length [of sport dport p c] by simp_all
  moreover have "skb_len skb = of_nat (length seg)" by (metis s(3) of_nat_unat_u32)
  then have "tcp_nip_fill_cb skb ?th = Some (p\<lparr>pkt_tstamp := 0, pkt_pcount := 1, pkt_gso_size := 0\<rparr>)"
    using assms(9) s(2,3) l off parts by (simp add: tcp_nip_fill_cb_def Let_def end_seq_ok_def algebra_simps)
  ultimately show ?thesis using s(1,4,5,7) by (intro exI) auto
qed

lemma wire_roundtrip:
  assumes "tcp_segment_bytes saddr daddr sport dport p = Some seg"
    and "tcp_nip_queue_xmit e stack h32 cpu new saddr daddr sk_dst seg net = Some (ret, soft, Some pkt, dst, net')"
    and "valid_addr saddr" "valid_addr daddr" "length stack = NIP_HDR_MAX"
    and "length (th_opts p) \<le> 40" "4 dvd length (th_opts p)" "length (pkt_data p) < 65000" "end_seq_ok p"
    and "protos IPPROTO_TCP = Some h" "length padding < 65536"
  shows "\<exists>skb th q. delivered icmp protos (pkt @ padding) = Some (h, skb) \<and> cb_srcaddr skb = saddr \<and> cb_dstaddr skb = daddr \<and>
    tcp_nip_rcv_header skb = Some (Some th) \<and> h_source th = sport \<and> h_dest th = dport \<and>
    tcp_nip_fill_cb skb th = Some q \<and> q = p\<lparr>pkt_tstamp := 0, pkt_pcount := 1, pkt_gso_size := 0\<rparr> \<and> skb_th skb = skb_pos skb"
proof -
  obtain hdr where h: "nip_tcp_hdr stack saddr daddr (length seg) = Some hdr" "pkt = hdr @ seg" by (rule queue_xmit_packet [OF assms(2)])
  show ?thesis unfolding h(2) by (rule packet_roundtrip [where protos = protos and icmp = icmp, OF assms(1) h(1) assms(3-11)])
qed

text \<open>C4: a segment goes over the wire unchanged.\<close>

theorem segment_on_wire:
  assumes "tcp_segment_bytes saddr daddr sport dport p = Some seg"
    and "tcp_nip_queue_xmit e stack h32 cpu new saddr daddr sk_dst seg net = Some (ret, soft, Some pkt, dst, net')"
    and "valid_addr saddr" "valid_addr daddr" "length stack = NIP_HDR_MAX"
    and "length (th_opts p) \<le> 40" "4 dvd length (th_opts p)" "length (pkt_data p) < 65000" "end_seq_ok p"
    and "protos IPPROTO_TCP = Some h" "length padding < 65536"
  shows "\<exists>skb th q. delivered icmp protos (pkt @ padding) = Some (h, skb) \<and> cb_srcaddr skb = saddr \<and> cb_dstaddr skb = daddr \<and>
    tcp_nip_rcv_header skb = Some (Some th) \<and> h_source th = sport \<and> h_dest th = dport \<and>
    tcp_nip_fill_cb skb th = Some q \<and> q = p\<lparr>pkt_tstamp := 0, pkt_pcount := 1, pkt_gso_size := 0\<rparr> \<and> skb_th skb = skb_pos skb"
  using assms by (rule wire_roundtrip)

definition sample_segment :: tcp_skb where
  "sample_segment = \<lparr>pkt_seq = 0xFFFFFFFE, pkt_end_seq = 1, pkt_ack_seq = 7, pkt_flags = 0x18, pkt_data = [1, 2, 3], pkt_tstamp = 0,
     pkt_pcount = 1, pkt_gso_size = 0, th_window = 500, th_urg = 0, th_opts = []\<rparr>"

theorem segment_on_wire_witness:
  "\<exists>seg pkt skb th. tcp_segment_bytes (short_addr 5) (short_addr 600) 0x5000 0x1F90 sample_segment = Some seg \<and>
    delivered 177 [6 \<mapsto> nip_tcp_protocol] (pkt @ [0, 0]) = Some (nip_tcp_protocol, skb) \<and> tcp_nip_rcv_header skb = Some (Some th) \<and>
    tcp_nip_fill_cb skb th = Some sample_segment"
proof -
  have l: "length (th_opts sample_segment) \<le> 40" "4 dvd length (th_opts sample_segment)" "length (pkt_data sample_segment) < 65000"
    "end_seq_ok sample_segment"
    by (simp_all add: sample_segment_def end_seq_ok_def flag_def TCPHDR_SYN_def TCPHDR_FIN_def)
  obtain seg where s: "tcp_segment_bytes (short_addr 5) (short_addr 600) 0x5000 0x1F90 sample_segment = Some seg"
    using tcp_checksum_inserted [OF sample_addr_valid, of sample_segment] l(1,3) by fastforce
  have st: "length (replicate NIP_HDR_MAX (0 :: u8)) = NIP_HDR_MAX" by simp
  obtain hdr where hd: "nip_tcp_hdr (replicate NIP_HDR_MAX 0) (short_addr 5) (short_addr 600) (length seg) = Some hdr"
    using nip_tcp_hdr_bytes [OF sample_addr_valid st] by blast
  let ?e = "sample_send" and ?net = "(init_net [0])\<lparr>rts := (\<lambda>_. nip_broadcast_entry_template)\<rparr>"
  obtain err where o: "nip_send_skb ?e Fun_nip_output (hdr @ seg) = Some (err, Some (hdr @ seg))" using nip_send_skb_out(1) by blast
  have q: "tcp_nip_queue_xmit ?e (replicate NIP_HDR_MAX 0) undefined 0 undefined (short_addr 5) (short_addr 600) (Some 3) seg ?net =
      Some (err, None, Some (hdr @ seg), Some 3, ?net)"
    using o by (simp add: tcp_nip_queue_xmit_def hd nip_broadcast_entry_template_def)
  have pr: "[6 \<mapsto> nip_tcp_protocol] (IPPROTO_TCP :: u8) = Some nip_tcp_protocol" by simp
  have pad: "length [0, 0 :: u8] < 65536" by simp
  have "sample_segment\<lparr>pkt_tstamp := 0, pkt_pcount := 1, pkt_gso_size := 0\<rparr> = sample_segment" by (simp add: sample_segment_def)
  then show ?thesis
    using segment_on_wire [where protos = "[6 \<mapsto> nip_tcp_protocol]" and icmp = 177 and padding = "[0, 0]",
        OF s q sample_addr_valid st l pr pad] s by metis
qed

text \<open>C37: the header length of a segment is not compared with the segment's length: a segment of 20 bytes that
  claims a header of 60 is accepted, and the length of its payload wraps around.\<close>

theorem header_length_unchecked:
  assumes "valid_addr s" "valid_addr d" "protos IPPROTO_TCP = Some h"
  shows "\<exists>pkt skb th. delivered icmp protos pkt = Some (h, skb) \<and> skb_len skb = 20 \<and> cb_srcaddr skb = s \<and> cb_dstaddr skb = d \<and>
    tcp_nip_rcv_header skb = Some (Some th) \<and> h_doff th = 15 \<and> tcp_nip_fill_cb skb th = None"
proof -
  let ?b = "replicate 12 0 @ [0xF0, 0x10] @ replicate 6 (0 :: u8)"
  have b: "18 \<le> length ?b" "length ?b < 65536" "?b ! 16 = 0" "?b ! 17 = 0" by (simp_all add: nth_append nth_Cons')
  obtain c where c: "nip_check_sum_parse (?b[16 := hi8 c, 17 := lo8 c]) (of_nat (length ?b))
      \<lparr>ps_saddr = s, ps_daddr = d, ps_check_len = htons (of_nat (length ?b)), ps_nexthdr = IPPROTO_TCP\<rparr> = Some 0xFFFF"
    using checksum_at_16 [OF assms(1,2) b] by blast
  define seg where "seg = ?b[16 := hi8 c, 17 := lo8 c]"
  have seg: "length seg = 20" "length ?b = length seg" "seg ! 12 = 0xF0" "seg \<noteq> []" by (simp_all add: seg_def nth_append nth_Cons')
  define t where "t = htons (of_nat (length (comm_hdr_bytes d s NIP_DEFAULT_TTL 0 IPPROTO_TCP) + length seg))"
  have "length (comm_hdr_bytes d s NIP_DEFAULT_TTL t IPPROTO_TCP) \<le> 22" by (rule hdr_bytes_le(2) [OF assms(2,1)])
  then have l: "length (comm_hdr_bytes d s NIP_DEFAULT_TTL t IPPROTO_TCP) + length seg < 65536" by (simp add: seg(1))
  have p: "length ([] :: u8 list) < 65536" by simp
  have nh: "IPPROTO_TCP \<in> {IPPROTO_TCP, IPPROTO_UDP, icmp}" by simp
  obtain skb where k: "delivered icmp protos (comm_hdr_bytes d s NIP_DEFAULT_TTL t IPPROTO_TCP @ seg @ []) = Some (h, skb)"
    "take (unat (skb_len skb)) (transport_data skb) = seg" "unat (skb_len skb) = length seg" "cb_srcaddr skb = s" "cb_dstaddr skb = d"
    "cb_nexthdr skb = IPPROTO_TCP" "skb_th skb = skb_pos skb" "\<not> skb_otherhost skb"
    using rcv_comm_packet [where icmp = icmp and protos = protos and nh = IPPROTO_TCP, OF assms(1,2) nh assms(3) seg(4) l p t_def] by metis
  obtain rest where r: "transport_data skb = seg @ rest" using append_take_drop_id [of "unat (skb_len skb)" "transport_data skb"] k(2) by metis
  have "nip_get_tcp_input_checksum skb = Some True"
    by (rule input_checksum_of_segment [OF k(2,3) _ k(4-7) assms(1,2) c [folded seg_def, unfolded seg(2)]]) (simp add: seg(1))
  moreover obtain th where th: "tcp_hdr (transport_data skb) = Some th" "h_doff th = 15"
    using seg(1,3) by (simp add: tcp_hdr_def r nth_append)
  ultimately have "tcp_nip_rcv_header skb = Some (Some th)" using k(8) by (simp add: tcp_nip_rcv_header_def)
  moreover have "skb_len skb = 20" using k(3) seg(1) of_nat_unat_u32 [of "skb_len skb"] by simp
  moreover from this have "tcp_nip_fill_cb skb th = None" by (simp add: tcp_nip_fill_cb_def th(2))
  ultimately show ?thesis using k(1,4,5) th(2) by blast
qed

theorem header_length_unchecked_witness:
  "\<exists>pkt skb th. delivered 177 [6 \<mapsto> nip_tcp_protocol] pkt = Some (nip_tcp_protocol, skb) \<and> skb_len skb = 20 \<and>
    tcp_nip_rcv_header skb = Some (Some th) \<and> tcp_nip_fill_cb skb th = None"
proof -
  have "[6 \<mapsto> nip_tcp_protocol] (IPPROTO_TCP :: u8) = Some nip_tcp_protocol" by simp
  from header_length_unchecked [where protos = "[6 \<mapsto> nip_tcp_protocol]" and icmp = 177, OF sample_addr_valid this] show ?thesis by blast
qed

end
