(* ===== verification/TcpDemux.thy ===== *)
theory TcpDemux
  imports TcpWire
begin

text \<open>
  Delivery of segments to sockets: tcp_nip_rcv, tcp_nip_early_demux, tcp_nip_do_rcv, the backlog, the cache of the receive
  route and tcp_nip_send_reset of src/src/linux/net/newip/tcp_nip.c.

  A host is the tables of NinetHash with a body for each socket number: a connection (TcpIn), a listening socket (TcpReq) or a
  request. A new request or child gets the number rv_new_sid; the insertion into the table of connections is the kernel's.
  Which socket gets a segment, the references it takes, the order under the user's lock, and the reset of a half-open
  connection over the wire (TcpWire) are the lemmas.
\<close>

section \<open>The sockets of a host\<close>

text \<open>A socket by its number: a connection, a listening socket, or the request of a listening socket. With it the lock of its
  user, the segments that arrived under the lock, the packets dropped and the route of the last packet.\<close>

datatype sock_body = Full tcp_nip_sock | Listen tcp_listener | Request sid

record demux_sock =
  d_body :: sock_body
  d_owned :: bool
  d_backlog :: "(tcp_skb \<times> int \<times> rt_id option) list"
  d_drops :: nat
  d_rx_dst :: "rt_id option"
  d_rx_ifindex :: int

text \<open>The queues of requests and of accepted connections by number, in the order of l_reqs and l_accept. A connection in the queue
  is the socket under its number.\<close>

record tcp_host =
  th_hash :: ninet_hashinfo
  th_sock :: "sid \<Rightarrow> demux_sock"
  th_reqs :: "sid \<Rightarrow> sid list"
  th_acceptq :: "sid \<Rightarrow> sid list"
  th_net :: netns_newip
  th_resets :: "bytes list"

text \<open>What a call gets from the kernel: the socket filter (it may cut the packet), the test of the length of the
  backlog, the insertion into the table of connections, the number of a new socket, and what sending a reset takes.\<close>

record rcv_env =
  rv_req :: req_env
  rv_netid :: nat
  rv_filter :: "sid \<Rightarrow> nip_skb \<Rightarrow> nip_skb option"
  rv_add_backlog :: "u32 \<Rightarrow> demux_sock \<Rightarrow> bool"
  rv_sndbuf :: "sid \<Rightarrow> int"
  inet_ehash_insert :: "ninet_hashinfo \<Rightarrow> sid \<Rightarrow> sid option \<Rightarrow> ninet_hashinfo"
  rv_new_sid :: sid
  rv_send :: send_env
  rv_rst_alloc :: bool
  rv_stack :: bytes
  rv_h32 :: hash32
  rv_cpu :: nat
  rv_new_rt :: "fib_tb_id \<Rightarrow> rt_id option"
  rv_hold_safe :: bool

text \<open>A packet for TCP: the device it came from, its route, and the socket that early demultiplexing attached to it.\<close>

record rcv_pkt =
  rp_skb :: nip_skb
  rp_iif :: int
  rp_dst :: "rt_id option"
  rp_sk :: "(sid \<times> bool) option"

definition upd_demux :: "sid \<Rightarrow> (demux_sock \<Rightarrow> demux_sock) \<Rightarrow> tcp_host \<Rightarrow> tcp_host" where
  "upd_demux s f H = H\<lparr>th_sock := (th_sock H)(s := f (th_sock H s))\<rparr>"

definition upd_hsock :: "sid \<Rightarrow> (hsock \<Rightarrow> hsock) \<Rightarrow> tcp_host \<Rightarrow> tcp_host" where
  "upd_hsock s f H = H\<lparr>th_hash := upd_sock (th_hash H) s f\<rparr>"

definition sock_hold :: "sid \<Rightarrow> tcp_host \<Rightarrow> tcp_host" where
  "sock_hold s = upd_hsock s (\<lambda>k. k\<lparr>hs_refcnt := hs_refcnt k + 1\<rparr>)"

definition sock_put :: "sid \<Rightarrow> tcp_host \<Rightarrow> tcp_host" where
  "sock_put s = upd_hsock s (\<lambda>k. k\<lparr>hs_refcnt := hs_refcnt k - 1\<rparr>)"

definition sk_drops_add :: "sid \<Rightarrow> tcp_host \<Rightarrow> tcp_host" where
  "sk_drops_add s = upd_demux s (\<lambda>d. d\<lparr>d_drops := d_drops d + 1\<rparr>)"

text \<open>tcp_set_state: the state as the tables see it follows the state of the connection; a closed socket leaves the tables.\<close>

definition tcp_set_hstate :: "hash_env \<Rightarrow> tcp_state \<Rightarrow> sid \<Rightarrow> ninet_hashinfo \<Rightarrow> ninet_hashinfo" where
  "tcp_set_hstate e st s h =
    (if hs_state (h_socks h s) = st then h
     else upd_sock (if st = TCP_CLOSE then ninet_unhash e h s else h) s (\<lambda>k. k\<lparr>hs_state := st\<rparr>))"

section \<open>Delivery to a socket\<close>

text \<open>The cache of the receive route.\<close>

definition ninet_sk_rx_dst_set :: "rt_id option \<Rightarrow> int \<Rightarrow> bool \<Rightarrow> demux_sock \<Rightarrow> netns_newip \<Rightarrow> demux_sock \<times> netns_newip" where
  "ninet_sk_rx_dst_set dst iif hold_safe d net =
    (case dst of Some r \<Rightarrow> if hold_safe then (d\<lparr>d_rx_dst := Some r, d_rx_ifindex := iif\<rparr>, dst_hold r net) else (d, net)
     | None \<Rightarrow> (d, net))"

definition check_rx_dst :: "int \<Rightarrow> demux_sock \<Rightarrow> netns_newip \<Rightarrow> demux_sock \<times> netns_newip" where
  "check_rx_dst iif d net =
    (case d_rx_dst d of
       Some r \<Rightarrow> if d_rx_ifindex d \<noteq> iif \<or> nip_dst_check r net = None then (d\<lparr>d_rx_dst := None\<rparr>, dst_release r net) else (d, net)
     | None \<Rightarrow> (d, net))"

text \<open>tcp_nip_do_rcv for a connection, with the uses of the cache in tcp_nip_rcv_established and tcp_nip_finish_connect. Its
  result is 0 always.\<close>

definition do_rcv_conn :: "rcv_env \<Rightarrow> tcp_skb \<Rightarrow> int \<Rightarrow> rt_id option \<Rightarrow> tcp_nip_sock \<Rightarrow> sid \<Rightarrow> tcp_host \<Rightarrow> tcp_host" where
  "do_rcv_conn rv skb iif dst sk s H =
    (let sk' = tcp_nip_do_rcv (rq_tcp (rv_req rv)) (\<lambda>_ sk. (0, sk)) skb sk; set_dst = ninet_sk_rx_dst_set dst iif (rv_hold_safe rv);
         (d, net) = (if sk_state sk = TCP_ESTABLISHED then
             let (d, net) = check_rx_dst iif (th_sock H s) (th_net H) in if d_rx_dst d = None then set_dst d net else (d, net)
           else if sk_state sk = TCP_SYN_SENT \<and> sk_state sk' = TCP_ESTABLISHED then set_dst (th_sock H s) (th_net H)
           else (th_sock H s, th_net H))
     in H\<lparr>th_net := net, th_sock := (th_sock H)(s := d\<lparr>d_body := Full sk'\<rparr>),
          th_hash := tcp_set_hstate (rq_hash (rv_req rv)) (sk_state sk') s (th_hash H)\<rparr>)"

text \<open>tcp_nip_do_rcv for a listening socket, with tcp_nip_conn_request behind it.\<close>

definition listen_rcv :: "req_env \<Rightarrow> tcp_segment \<Rightarrow> tcp_listener \<Rightarrow> tcp_listener option" where
  "listen_rcv re sg l =
    (let f = pkt_flags (sg_skb sg) in
     if flag f TCPHDR_ACK \<or> flag f TCPHDR_RST \<or> \<not> flag f TCPHDR_SYN \<or> flag f TCPHDR_FIN then Some l
     else map_option snd (tcp_nip_conn_request re sg l))"

text \<open>The socket of a new request, in the table of connections; its reference count is 3, and the creator's is put.\<close>

definition add_request :: "rcv_env \<Rightarrow> sid \<Rightarrow> tcp_nip_request_sock \<Rightarrow> tcp_host \<Rightarrow> tcp_host" where
  "add_request rv l req H =
    (let r = rv_new_sid rv; k = h_socks (th_hash H) l;
         k = k\<lparr>hs_rcv_saddr := ir_loc_addr req, hs_daddr := ir_rmt_addr req, hs_num := ir_num req, hs_sport := htons (ir_num req),
           hs_dport := ir_rmt_port req, hs_state := TCP_NEW_SYN_RECV, hs_hashed := False, hs_listen_hashed := False, hs_refcnt := 0\<rparr>;
         h = inet_ehash_insert rv (upd_sock (th_hash H) r (\<lambda>_. k)) r None
     in H\<lparr>th_hash := upd_sock h r (\<lambda>k. k\<lparr>hs_refcnt := 2\<rparr>),
          th_sock := (th_sock H)(r := \<lparr>d_body = Request l, d_owned = False, d_backlog = [], d_drops = 0, d_rx_dst = None, d_rx_ifindex = 0\<rparr>),
          th_reqs := (th_reqs H)(l := th_reqs H l @ [r])\<rparr>)"

definition do_rcv_listen :: "rcv_env \<Rightarrow> tcp_segment \<Rightarrow> tcp_listener \<Rightarrow> sid \<Rightarrow> tcp_host \<Rightarrow> tcp_host option" where
  "do_rcv_listen rv sg l s H = do {
     l' \<leftarrow> listen_rcv (rv_req rv) sg l;
     let H = upd_demux s (\<lambda>d. d\<lparr>d_body := Listen l'\<rparr>) H in
     Some (if length (l_reqs l') > length (l_reqs l) then add_request rv s (last (l_reqs l')) H else H)
   }"

section \<open>The backlog\<close>

definition tcp_nip_add_backlog :: "rcv_env \<Rightarrow> tcp_skb \<Rightarrow> int \<Rightarrow> rt_id option \<Rightarrow> tcp_nip_sock \<Rightarrow> sid \<Rightarrow> tcp_host \<Rightarrow> bool \<times> tcp_host" where
  "tcp_nip_add_backlog rv skb iif dst sk s H =
    (let limit = of_int (sk_rcvbuf sk + rv_sndbuf rv s) + 64 * 1024 in
     if rv_add_backlog rv limit (th_sock H s) then (False, upd_demux s (\<lambda>d. d\<lparr>d_backlog := d_backlog d @ [(skb, iif, dst)]\<rparr>) H)
     else (True, H))"

text \<open>The kernel's lock of the user, and its release, which hands the backlog to tcp_nip_do_rcv in the order of arrival.\<close>

definition lock_sock :: "sid \<Rightarrow> tcp_host \<Rightarrow> tcp_host" where
  "lock_sock s = upd_demux s (\<lambda>d. d\<lparr>d_owned := True\<rparr>)"

definition backlog_rcv :: "rcv_env \<Rightarrow> sid \<Rightarrow> tcp_skb \<times> int \<times> rt_id option \<Rightarrow> tcp_host \<Rightarrow> tcp_host" where
  "backlog_rcv rv s x H =
    (case d_body (th_sock H s) of Full sk \<Rightarrow> do_rcv_conn rv (fst x) (fst (snd x)) (snd (snd x)) sk s H | _ \<Rightarrow> H)"

definition release_sock :: "rcv_env \<Rightarrow> sid \<Rightarrow> tcp_host \<Rightarrow> tcp_host" where
  "release_sock rv s H =
    upd_demux s (\<lambda>d. d\<lparr>d_owned := False\<rparr>)
      (fold (backlog_rcv rv s) (d_backlog (th_sock H s)) (upd_demux s (\<lambda>d. d\<lparr>d_backlog := []\<rparr>) H))"

section \<open>A segment without a socket\<close>

definition tcp_nip_send_reset :: "rcv_env \<Rightarrow> nip_skb \<Rightarrow> tcphdr \<Rightarrow> tcp_host \<Rightarrow> tcp_host option" where
  "tcp_nip_send_reset rv skb th H =
    (if flag (h_flags th) TCPHDR_RST then Some H
     else
       let one = (\<lambda>f. if flag (h_flags th) f then 1 else 0); ack = flag (h_flags th) TCPHDR_ACK;
           seq = (if ack then h_ack_seq th else 0);
           ack_seq = (if ack then 0 else h_seq th + one TCPHDR_SYN + one TCPHDR_FIN + skb_len skb - of_nat (h_doff th * 4))
       in do {
         (pkt, net) \<leftarrow> tcp_nip_actual_send_reset (rv_send rv) (rv_rst_alloc rv) (rv_stack rv) (rv_h32 rv) (rv_cpu rv) (rv_new_rt rv)
           (cb_srcaddr skb) (cb_dstaddr skb) (h_source th) (h_dest th) ack seq ack_seq 0 True (th_net H);
         Some (H\<lparr>th_net := net, th_resets := (case pkt of None \<Rightarrow> th_resets H | Some p \<Rightarrow> th_resets H @ [p])\<rparr>)
       })"

section \<open>The third segment of a handshake\<close>

text \<open>The child of a request, in its place in the table of connections.\<close>

definition add_child :: "rcv_env \<Rightarrow> rcv_pkt \<Rightarrow> sid \<Rightarrow> sid \<Rightarrow> tcp_child \<Rightarrow> tcp_skb \<Rightarrow> tcp_host \<Rightarrow> tcp_host" where
  "add_child rv p req l c skb H =
    (let n = rv_new_sid rv; re = rv_req rv; k = h_socks (th_hash H) l;
         k = k\<lparr>hs_rcv_saddr := c_rcv_saddr c, hs_daddr := c_daddr c, hs_num := c_num c, hs_sport := htons (c_num c), hs_dport := c_dport c,
           hs_state := TCP_SYN_RECV, hs_hashed := False, hs_listen_hashed := False, hs_refcnt := 1\<rparr>;
         d = \<lparr>d_body = Full (c_sk c), d_owned = child_owned re, d_backlog = (if child_owned re then [(skb, rp_iif p, rp_dst p)] else []),
           d_drops = 0, d_rx_dst = None, d_rx_ifindex = 0\<rparr>;
         (d, net) = ninet_sk_rx_dst_set (rp_dst p) (rp_iif p) (rv_hold_safe rv) d (th_net H);
         h = inet_ehash_nolisten (rq_hash re) (upd_sock (th_hash H) n (\<lambda>_. k)) n (Some req)
     in H\<lparr>th_hash := tcp_set_hstate (rq_hash re) (sk_state (c_sk c)) n h, th_sock := (th_sock H)(n := d), th_net := net,
          th_acceptq := (th_acceptq H)(l := th_acceptq H l @ [n])\<rparr>)"

fun pos_of :: "'a \<Rightarrow> 'a list \<Rightarrow> nat option" where
  "pos_of x [] = None"
| "pos_of x (y # ys) = (if x = y then Some 0 else map_option Suc (pos_of x ys))"

definition drop_pkt :: "sid \<Rightarrow> bool \<Rightarrow> tcp_host \<Rightarrow> tcp_host" where
  "drop_pkt s refcounted H = (if refcounted then sock_put s else id) (sk_drops_add s H)"

text \<open>A request that is not in the queue of its listening socket is outside the model (None).\<close>

definition rcv_request :: "rcv_env \<Rightarrow> rcv_pkt \<Rightarrow> sid \<Rightarrow> sid \<Rightarrow> tcp_host \<Rightarrow> tcp_host option" where
  "rcv_request rv p r l H =
    (let H = sock_hold l H in
     case rv_filter rv l (rp_skb p) of
       None \<Rightarrow> Some (drop_pkt l True (sock_put r H))
     | Some skb \<Rightarrow> (case d_body (th_sock H l) of
         Listen L \<Rightarrow> do {
           i \<leftarrow> pos_of r (th_reqs H l);
           th \<leftarrow> tcp_hdr (transport_data skb);
           q \<leftarrow> tcp_nip_fill_cb skb th;
           let (res, L') = tcp_nip_check_req (rv_req rv) q i L;
               H = H\<lparr>th_reqs := (if length (l_reqs L') < length (l_reqs L) then (th_reqs H)(l := filter (\<lambda>x. x \<noteq> r) (th_reqs H l)) else th_reqs H)\<rparr>
           in (case res of
             Child k \<Rightarrow>
               let (ret, L') = tcp_nip_child_process (rv_req rv) q k L';
                   H = add_child rv p r l (l_accept L' ! k) q (upd_demux l (\<lambda>d. d\<lparr>d_body := Listen L'\<rparr>) H)
               in Some (if ret \<noteq> 0 then drop_pkt l True H else sock_put l H)
           | _ \<Rightarrow> Some (drop_pkt l True (sock_put r (upd_demux l (\<lambda>d. d\<lparr>d_body := Listen L'\<rparr>) H))))
         }
       | _ \<Rightarrow> None))"

section \<open>tcp_nip_rcv\<close>

text \<open>A packet that is discarded while early demultiplexing's socket is attached to it puts the reference.\<close>

definition free_pkt :: "rcv_pkt \<Rightarrow> tcp_host \<Rightarrow> tcp_host" where
  "free_pkt p H = (case rp_sk p of Some (s, True) \<Rightarrow> sock_put s H | _ \<Rightarrow> H)"

text \<open>The filter runs after the control block is filled: a packet it cuts keeps its end_seq.\<close>

definition filtered :: "rcv_env \<Rightarrow> sid \<Rightarrow> nip_skb \<Rightarrow> tcphdr \<Rightarrow> tcp_skb \<Rightarrow> tcp_skb option" where
  "filtered rv s skb th q = map_option (\<lambda>skb'. q\<lparr>pkt_data := take (unat (skb_len skb') - h_doff th * 4) (pkt_data q)\<rparr>) (rv_filter rv s skb)"

definition put_ref :: "bool \<Rightarrow> sid \<Rightarrow> tcp_host \<Rightarrow> tcp_host" where
  "put_ref refcounted s H = (if refcounted then sock_put s H else H)"

text \<open>A segment for a connection. In TIME_WAIT the reference of the lookup is not put.\<close>

definition rcv_conn :: "rcv_env \<Rightarrow> rcv_pkt \<Rightarrow> tcphdr \<Rightarrow> sid \<Rightarrow> bool \<Rightarrow> tcp_nip_sock \<Rightarrow> tcp_host \<Rightarrow> tcp_host option" where
  "rcv_conn rv p th s refcounted sk H =
    (if sk_state sk = TCP_TIME_WAIT then Some H
     else do {
       q \<leftarrow> tcp_nip_fill_cb (rp_skb p) th;
       Some (case filtered rv s (rp_skb p) th q of
           None \<Rightarrow> drop_pkt s refcounted H
         | Some q \<Rightarrow>
           if \<not> d_owned (th_sock H s) then put_ref refcounted s (do_rcv_conn rv q (rp_iif p) (rp_dst p) sk s H)
           else
             let (full, H) = tcp_nip_add_backlog rv q (rp_iif p) (rp_dst p) sk s H
             in if full then drop_pkt s refcounted H else put_ref refcounted s H)
     })"

definition rcv_listen :: "rcv_env \<Rightarrow> rcv_pkt \<Rightarrow> tcphdr \<Rightarrow> sid \<Rightarrow> bool \<Rightarrow> tcp_listener \<Rightarrow> tcp_host \<Rightarrow> tcp_host option" where
  "rcv_listen rv p th s refcounted L H = do {
     q \<leftarrow> tcp_nip_fill_cb (rp_skb p) th;
     (case filtered rv s (rp_skb p) th q of
        None \<Rightarrow> Some (drop_pkt s refcounted H)
      | Some q \<Rightarrow> map_option (put_ref refcounted s)
          (do_rcv_listen rv \<lparr>sg_saddr = cb_srcaddr (rp_skb p), sg_daddr = cb_dstaddr (rp_skb p), sg_source = h_source th, sg_dest = h_dest th,
             sg_skb = q\<rparr> L s H))
   }"

text \<open>tcp_nip_rcv. Its result is 0 always.\<close>

definition tcp_nip_rcv :: "rcv_env \<Rightarrow> rcv_pkt \<Rightarrow> tcp_host \<Rightarrow> tcp_host option" where
  "tcp_nip_rcv rv p H = do {
     hdr \<leftarrow> tcp_nip_rcv_header (rp_skb p);
     (case hdr of
        None \<Rightarrow> Some (free_pkt p H)
      | Some th \<Rightarrow>
        let skb = rp_skb p;
            (found, refcounted, h) = ninet_lookup_skb (rq_hash (rv_req rv)) (th_hash H) (rp_sk p) (rv_netid rv) (cb_srcaddr skb) (cb_dstaddr skb)
              (h_source th) (h_dest th) (rp_iif p);
            H = H\<lparr>th_hash := h\<rparr>
        in (case found of
            None \<Rightarrow> tcp_nip_send_reset rv skb th H
          | Some s \<Rightarrow> (case d_body (th_sock H s) of
              Full sk \<Rightarrow> rcv_conn rv p th s refcounted sk H
            | Request l \<Rightarrow> rcv_request rv p s l H
            | Listen L \<Rightarrow> rcv_listen rv p th s refcounted L H)))
   }"

definition tcp_nip_early_demux :: "rcv_env \<Rightarrow> rcv_pkt \<Rightarrow> tcp_host \<Rightarrow> rcv_pkt \<times> tcp_host" where
  "tcp_nip_early_demux rv p H =
    (let skb = rp_skb p in
     if skb_otherhost skb then (p, H)
     else case tcp_hdr (drop (skb_th skb) (skb_mem skb)) of
         None \<Rightarrow> (p, H)
       | Some th \<Rightarrow>
         if h_doff th < 5 then (p, H)
         else case ninet_lookup_established (rq_hash (rv_req rv)) (th_hash H) (rv_netid rv) (cb_srcaddr skb) (h_source th) (cb_dstaddr skb)
             (ntohs (h_dest th)) (rp_iif p) of
             (None, h) \<Rightarrow> (p, H\<lparr>th_hash := h\<rparr>)
           | (Some s, h) \<Rightarrow>
             (let d = th_sock H s; p = p\<lparr>rp_sk := Some (s, True)\<rparr>;
                  dst = (case d_body d of Full sk \<Rightarrow> if sk_state sk \<noteq> TCP_TIME_WAIT then d_rx_dst d else None | Listen _ \<Rightarrow> d_rx_dst d | Request _ \<Rightarrow> None);
                  dst = (case dst of Some r \<Rightarrow> nip_dst_check r (th_net H) | None \<Rightarrow> None)
              in (if dst \<noteq> None \<and> d_rx_ifindex d = rp_iif p then p\<lparr>rp_dst := dst\<rparr> else p, H\<lparr>th_hash := h\<rparr>)))"

section \<open>Which socket gets a segment\<close>

definition segment_for :: "rcv_env \<Rightarrow> rcv_pkt \<Rightarrow> tcphdr \<Rightarrow> (sid \<Rightarrow> hsock) \<Rightarrow> sid \<Rightarrow> bool" where
  "segment_for rv p th socks s \<longleftrightarrow>
    (let skb = rp_skb p; net = rv_netid rv; c = conn_for net (cb_srcaddr skb) (h_source th) (cb_dstaddr skb) (ntohs (h_dest th)) (rp_iif p) in
     c (socks s) \<or> (\<forall>x. \<not> c (socks x)) \<and> listener_for (rq_hash (rv_req rv)) net (ntohs (h_dest th)) (cb_dstaddr skb) (rp_iif p) 0 (socks s))"

definition host_ok :: "rcv_env \<Rightarrow> tcp_host \<Rightarrow> bool" where
  "host_ok rv H \<longleftrightarrow> (let e = rq_hash (rv_req rv); h = th_hash H in tables_ok e h \<and> hashes_ok e h \<and> conns_norm h \<and>
     (\<forall>s. listens (h_socks h s) \<longrightarrow> norm_addr (hs_rcv_saddr (h_socks h s))))"

lemma established_walk_None: "established_walk h hash M ss = (None, h') \<Longrightarrow> h' = h"
  by (induction h hash M ss rule: established_walk.induct) (auto split: if_splits)

lemma established_walk_Some:
  "established_walk h hash M ss = (Some s, h') \<Longrightarrow> h' = upd_sock h s (\<lambda>k. k\<lparr>hs_refcnt := hs_refcnt k + 1\<rparr>)"
  by (induction h hash M ss rule: established_walk.induct) (auto split: if_splits)

lemma lookup_cases:
  obtains "fst (ninet_lookup_established e h net a sp d dp iif) = None"
    "ninet_lookup e h net a sp d dp iif = (ninet_lookup_listener e h net a sp d dp iif 0, False, h)"
  | s where "fst (ninet_lookup_established e h net a sp d dp iif) = Some s"
    "ninet_lookup e h net a sp d dp iif = (Some s, True, upd_sock h s (\<lambda>k. k\<lparr>hs_refcnt := hs_refcnt k + 1\<rparr>))"
proof (cases "ninet_lookup_established e h net a sp d dp iif")
  case (Pair f h')
  show ?thesis
  proof (cases f)
    case None
    with Pair have "h' = h" by (auto simp: ninet_lookup_established_def Let_def dest: established_walk_None)
    with Pair None show ?thesis by (intro that(1)) (simp_all add: ninet_lookup_def)
  next
    case (Some s)
    with Pair have "h' = upd_sock h s (\<lambda>k. k\<lparr>hs_refcnt := hs_refcnt k + 1\<rparr>)"
      by (auto simp: ninet_lookup_established_def Let_def dest: established_walk_Some)
    with Pair Some show ?thesis by (intro that(2)) (simp_all add: ninet_lookup_def)
  qed
qed

lemma lookup_found:
  "fst (ninet_lookup_established e h net a sp d dp iif) = Some s \<Longrightarrow>
    ninet_lookup e h net a sp d dp iif = (Some s, True, upd_sock h s (\<lambda>k. k\<lparr>hs_refcnt := hs_refcnt k + 1\<rparr>))"
  by (rule lookup_cases [of e h net a sp d dp iif]) simp_all

lemma lookup_sound:
  assumes "host_ok rv H" "norm_addr (cb_srcaddr (rp_skb p))" "norm_addr (cb_dstaddr (rp_skb p))"
    and "ninet_lookup (rq_hash (rv_req rv)) (th_hash H) (rv_netid rv) (cb_srcaddr (rp_skb p)) (h_source th) (cb_dstaddr (rp_skb p))
      (ntohs (h_dest th)) (rp_iif p) = (Some s, r, h')"
  shows "segment_for rv p th (h_socks (th_hash H)) s"
proof -
  let ?e = "rq_hash (rv_req rv)" and ?h = "th_hash H" and ?n = "rv_netid rv" and ?a = "cb_srcaddr (rp_skb p)" and ?d = "cb_dstaddr (rp_skb p)"
  have ok: "tables_ok ?e ?h" "hashes_ok ?e ?h" "conns_norm ?h" "\<forall>s. listens (h_socks ?h s) \<longrightarrow> norm_addr (hs_rcv_saddr (h_socks ?h s))"
    using assms(1) by (simp_all add: host_ok_def Let_def)
  note E = established_lookup [OF ok(1-3) assms(2,3), of ?n "h_source th" "ntohs (h_dest th)" "rp_iif p"]
  note L = listener_lookup [OF ok(1,4) assms(3), of ?n ?a "h_source th" "ntohs (h_dest th)" "rp_iif p" 0]
  show ?thesis
    by (rule lookup_cases [of ?e ?h ?n ?a "h_source th" ?d "ntohs (h_dest th)" "rp_iif p"])
      (use E L assms(4) in \<open>auto simp: segment_for_def Let_def\<close>)
qed

lemma th_sock_simps [simp]:
  "th_sock (upd_hsock s f H) = th_sock H" "th_sock (sock_hold s H) = th_sock H" "th_sock (sock_put s H) = th_sock H"
  "th_sock (upd_demux s g H) = (th_sock H)(s := g (th_sock H s))"
  "th_sock (drop_pkt s r H) = (th_sock H)(s := th_sock H s\<lparr>d_drops := d_drops (th_sock H s) + 1\<rparr>)"
  "th_sock (free_pkt p H) = th_sock H" "th_sock (put_ref r s H) = th_sock H"
  by (simp_all add: put_ref_def upd_hsock_def sock_hold_def sock_put_def upd_demux_def drop_pkt_def sk_drops_add_def free_pkt_def split: option.split)
    (auto simp: sock_put_def upd_hsock_def split: bool.split)

lemma do_rcv_conn_other: "x \<noteq> s \<Longrightarrow> th_sock (do_rcv_conn rv q iif dst sk s H) x = th_sock H x"
  by (simp add: do_rcv_conn_def Let_def split_beta)

lemma do_rcv_listen_other:
  "do_rcv_listen rv sg l s H = Some H' \<Longrightarrow> x \<noteq> s \<Longrightarrow> x \<noteq> rv_new_sid rv \<Longrightarrow> th_sock H' x = th_sock H x"
  by (auto simp: do_rcv_listen_def add_request_def Let_def split: bind_splits if_splits)

lemma add_child_other: "x \<noteq> rv_new_sid rv \<Longrightarrow> th_sock (add_child rv p r l c q H) x = th_sock H x"
  by (simp add: add_child_def Let_def split_beta)

lemma rcv_request_other:
  "rcv_request rv p r l H = Some H' \<Longrightarrow> x \<noteq> l \<Longrightarrow> x \<noteq> rv_new_sid rv \<Longrightarrow> th_sock H' x = th_sock H x"
  by (auto simp: rcv_request_def Let_def split_beta add_child_other
      split: option.splits sock_body.splits bind_splits check_result.splits if_splits)

lemma send_reset_sock: "tcp_nip_send_reset rv skb th H = Some H' \<Longrightarrow> th_sock H' = th_sock H"
  by (auto simp: tcp_nip_send_reset_def Let_def split: if_splits bind_splits)

lemma rcv_listen_other:
  "rcv_listen rv p th s r L H = Some H' \<Longrightarrow> x \<noteq> s \<Longrightarrow> x \<noteq> rv_new_sid rv \<Longrightarrow> th_sock H' x = th_sock H x"
  by (auto simp: rcv_listen_def do_rcv_listen_other split: bind_splits option.splits)

lemma rcv_conn_other: "rcv_conn rv p th s r sk H = Some H' \<Longrightarrow> x \<noteq> s \<Longrightarrow> th_sock H' x = th_sock H x"
  by (auto simp: rcv_conn_def do_rcv_conn_other tcp_nip_add_backlog_def Let_def split: bind_splits option.splits if_splits)

text \<open>C6: whatever tcp_nip_rcv does with a segment, the only sockets whose state may change are the one the tables
  assign to its addresses and ports (the connection with this four-tuple, without one a listening socket), the listening socket
  behind it when it is a request, and a socket it creates.\<close>

theorem segment_touches_its_socket:
  assumes "host_ok rv H" "norm_addr (cb_srcaddr (rp_skb p))" "norm_addr (cb_dstaddr (rp_skb p))" "rp_sk p = None"
    and "tcp_nip_rcv_header (rp_skb p) = Some (Some th)" "tcp_nip_rcv rv p H = Some H'"
    and "th_sock H' x \<noteq> th_sock H x" "x \<noteq> rv_new_sid rv"
  shows "segment_for rv p th (h_socks (th_hash H)) x \<or>
    (\<exists>s. segment_for rv p th (h_socks (th_hash H)) s \<and> d_body (th_sock H s) = Request x)"
proof -
  obtain f r h where l: "ninet_lookup (rq_hash (rv_req rv)) (th_hash H) (rv_netid rv) (cb_srcaddr (rp_skb p)) (h_source th)
      (cb_dstaddr (rp_skb p)) (ntohs (h_dest th)) (rp_iif p) = (f, r, h)" by (rule prod_cases3)
  note R = assms(6) [unfolded tcp_nip_rcv_def assms(5) Option.bind.bind_lunit option.case Let_def ninet_lookup_skb_def assms(4) l split_conv]
  show ?thesis
  proof (cases f)
    case None
    with R assms(7) show ?thesis by (auto dest: send_reset_sock)
  next
    case (Some s)
    then have s: "segment_for rv p th (h_socks (th_hash H)) s" using lookup_sound [OF assms(1-3)] l by simp
    have "x = s \<or> d_body (th_sock H s) = Request x"
      using R Some assms(7,8)
      by (cases "d_body (th_sock H s)") (auto dest: rcv_conn_other rcv_listen_other dest!: rcv_request_other [where x = x])
    with s show ?thesis by blast
  qed
qed

section \<open>Early demultiplexing\<close>

lemma put_hold: "upd_sock (upd_sock h s (\<lambda>k. k\<lparr>hs_refcnt := hs_refcnt k + 1\<rparr>)) s (\<lambda>k. k\<lparr>hs_refcnt := hs_refcnt k - 1\<rparr>) = h"
  by (simp add: upd_sock_def)

lemma early_demux_cases:
  assumes "tcp_nip_early_demux rv p H = (p', H')"
  obtains "rp_sk p' = rp_sk p" "H' = H" "rp_skb p' = rp_skb p" "rp_iif p' = rp_iif p"
  | th s where "\<not> skb_otherhost (rp_skb p)" "tcp_hdr (drop (skb_th (rp_skb p)) (skb_mem (rp_skb p))) = Some th"
    "fst (ninet_lookup_established (rq_hash (rv_req rv)) (th_hash H) (rv_netid rv) (cb_srcaddr (rp_skb p)) (h_source th)
      (cb_dstaddr (rp_skb p)) (ntohs (h_dest th)) (rp_iif p)) = Some s"
    "rp_sk p' = Some (s, True)" "H' = sock_hold s H" "rp_skb p' = rp_skb p" "rp_iif p' = rp_iif p"
proof -
  let ?skb = "rp_skb p"
  show ?thesis
  proof (cases "skb_otherhost ?skb \<or> tcp_hdr (drop (skb_th ?skb) (skb_mem ?skb)) = None")
    case True
    with assms show ?thesis by (intro that(1)) (auto simp: tcp_nip_early_demux_def Let_def split: if_splits)
  next
    case False
    then obtain th where th: "\<not> skb_otherhost ?skb" "tcp_hdr (drop (skb_th ?skb) (skb_mem ?skb)) = Some th" by blast
    let ?l = "ninet_lookup_established (rq_hash (rv_req rv)) (th_hash H) (rv_netid rv) (cb_srcaddr ?skb) (h_source th)
      (cb_dstaddr ?skb) (ntohs (h_dest th)) (rp_iif p)"
    obtain f h where l: "?l = (f, h)" by (rule prod.exhaust)
    have e: "f = None \<Longrightarrow> h = th_hash H" "f = Some s \<Longrightarrow> h = upd_sock (th_hash H) s (\<lambda>k. k\<lparr>hs_refcnt := hs_refcnt k + 1\<rparr>)" for s
      using l by (auto simp: ninet_lookup_established_def Let_def dest: established_walk_None established_walk_Some)
    show ?thesis
    proof (cases "h_doff th < 5 \<or> f = None")
      case True
      with assms th l e show ?thesis by (intro that(1)) (auto simp: tcp_nip_early_demux_def Let_def split: if_splits)
    next
      case False
      then obtain s where "f = Some s" "\<not> h_doff th < 5" by blast
      with assms th l e(2) [of s] show ?thesis
        by (intro that(2) [of th s]) (auto simp: tcp_nip_early_demux_def Let_def sock_hold_def upd_hsock_def)
    qed
  qed
qed

lemma rp_sk_irrelevant [simp]:
  "rcv_conn rv (p\<lparr>rp_sk := x\<rparr>) th s r sk H = rcv_conn rv p th s r sk H"
  "rcv_listen rv (p\<lparr>rp_sk := x\<rparr>) th s r L H = rcv_listen rv p th s r L H"
  "rcv_request rv (p\<lparr>rp_sk := x\<rparr>) s l H = rcv_request rv p s l H"
proof -
  have f: "rp_skb (p\<lparr>rp_sk := x\<rparr>) = rp_skb p" "rp_iif (p\<lparr>rp_sk := x\<rparr>) = rp_iif p" "rp_dst (p\<lparr>rp_sk := x\<rparr>) = rp_dst p" by simp_all
  show "rcv_conn rv (p\<lparr>rp_sk := x\<rparr>) th s r sk H = rcv_conn rv p th s r sk H"
    "rcv_listen rv (p\<lparr>rp_sk := x\<rparr>) th s r L H = rcv_listen rv p th s r L H"
    "rcv_request rv (p\<lparr>rp_sk := x\<rparr>) s l H = rcv_request rv p s l H"
    unfolding rcv_conn_def rcv_listen_def rcv_request_def add_child_def f by (rule refl)+
qed

text \<open>C8: a packet that went through tcp_nip_early_demux has the same effect in tcp_nip_rcv as one that did not, references
  included; only the route attached to it may differ.\<close>

theorem early_demux_equivalent:
  assumes "tcp_nip_early_demux rv p H = (p', H')" "rp_sk p = None" "skb_th (rp_skb p) = skb_pos (rp_skb p)"
  shows "tcp_nip_rcv rv (p'\<lparr>rp_dst := rp_dst p\<rparr>) H' = tcp_nip_rcv rv p H"
  using assms(1)
proof (cases rule: early_demux_cases)
  case 1
  then have e: "p'\<lparr>rp_dst := rp_dst p\<rparr> = p" by (cases p; cases p'; simp)
  show ?thesis unfolding e 1(2) by (rule refl)
next
  case (2 th s)
  let ?e = "rq_hash (rv_req rv)" and ?skb = "rp_skb p"
  have p': "p'\<lparr>rp_dst := rp_dst p\<rparr> = p\<lparr>rp_sk := Some (s, True)\<rparr>" using 2 by (cases p; cases p'; simp)
  have l: "ninet_lookup ?e (th_hash H) (rv_netid rv) (cb_srcaddr ?skb) (h_source th) (cb_dstaddr ?skb) (ntohs (h_dest th)) (rp_iif p) =
      (Some s, True, upd_sock (th_hash H) s (\<lambda>k. k\<lparr>hs_refcnt := hs_refcnt k + 1\<rparr>))"
    using 2(3) by (rule lookup_found)
  have h: "H' = H\<lparr>th_hash := upd_sock (th_hash H) s (\<lambda>k. k\<lparr>hs_refcnt := hs_refcnt k + 1\<rparr>)\<rparr>"
    using 2(5) by (simp add: sock_hold_def upd_hsock_def)
  have th: "tcp_hdr (transport_data ?skb) = Some th" using 2(2) assms(3) by (simp add: transport_data_def)
  show ?thesis
  proof (cases "tcp_nip_rcv_header ?skb")
    case None
    then show ?thesis by (simp add: tcp_nip_rcv_def p')
  next
    case (Some hdr)
    show ?thesis
    proof (cases hdr)
      case None
      have "free_pkt (p\<lparr>rp_sk := Some (s, True)\<rparr>) H' = free_pkt p H"
        using assms(2) put_hold [of "th_hash H" s] by (simp add: free_pkt_def h sock_put_def upd_hsock_def)
      with Some None show ?thesis by (simp add: tcp_nip_rcv_def p')
    next
      case (Some th')
      with \<open>tcp_nip_rcv_header ?skb = Some hdr\<close> th have "tcp_nip_rcv_header ?skb = Some (Some th)"
        by (auto simp: tcp_nip_rcv_header_def split: if_splits bind_splits)
      then show ?thesis
        by (simp add: tcp_nip_rcv_def p' ninet_lookup_skb_def assms(2) l h Let_def split: sock_body.split)
    qed
  qed
qed

section \<open>References\<close>

lemma unhash_refcnt [simp]: "hs_refcnt (h_socks (ninet_unhash e h s) x) = hs_refcnt (h_socks h x)"
proof -
  have "hs_refcnt (h_socks (ninet_unhash2 e h s) x) = hs_refcnt (h_socks h x)" for h
    by (auto simp: ninet_unhash2_def Let_def split: option.split)
  then show ?thesis by (auto simp: ninet_unhash_def Let_def)
qed

lemma set_hstate_refcnt [simp]: "hs_refcnt (h_socks (tcp_set_hstate e st s h) x) = hs_refcnt (h_socks h x)"
  by (auto simp: tcp_set_hstate_def)

definition refs :: "tcp_host \<Rightarrow> sid \<Rightarrow> nat" where
  "refs H x = hs_refcnt (h_socks (th_hash H) x)"

lemma refs_simps [simp]:
  "refs (sock_put s H) x = (if x = s then refs H x - 1 else refs H x)"
  "refs (sk_drops_add s H) x = refs H x" "refs (upd_demux s f H) x = refs H x" "refs (do_rcv_conn rv q iif dst sk s H) x = refs H x"
  by (auto simp: refs_def sock_put_def upd_hsock_def sk_drops_add_def upd_demux_def do_rcv_conn_def Let_def split_beta)

lemma refs_drop_put [simp]:
  "refs (drop_pkt s r H) x = (if r \<and> x = s then refs H x - 1 else refs H x)"
  "refs (put_ref r s H) x = (if r \<and> x = s then refs H x - 1 else refs H x)"
  by (simp_all add: drop_pkt_def put_ref_def)

lemma rcv_conn_refs:
  assumes "rcv_conn rv p th s r sk H = Some H'"
  shows "refs H' x = (if r \<and> x = s \<and> sk_state sk \<noteq> TCP_TIME_WAIT then refs H x - 1 else refs H x)"
  using assms by (auto simp: rcv_conn_def tcp_nip_add_backlog_def Let_def split: bind_splits option.splits if_splits)

text \<open>C9: tcp_nip_rcv puts the reference the lookup of a connection took, on every path (dropped by the filter, processed,
  queued or refused by the backlog), except in TIME_WAIT, where each segment leaks one.\<close>

theorem segment_keeps_references:
  assumes "tcp_nip_rcv rv p H = Some H'" "rp_sk p = None" "tcp_nip_rcv_header (rp_skb p) = Some (Some th)"
    and "fst (ninet_lookup_established (rq_hash (rv_req rv)) (th_hash H) (rv_netid rv) (cb_srcaddr (rp_skb p)) (h_source th)
      (cb_dstaddr (rp_skb p)) (ntohs (h_dest th)) (rp_iif p)) = Some s"
    and "d_body (th_sock H s) = Full sk"
  shows "refs H' x = (if sk_state sk = TCP_TIME_WAIT \<and> x = s then refs H x + 1 else refs H x)"
proof -
  have "rcv_conn rv p th s True sk (H\<lparr>th_hash := upd_sock (th_hash H) s (\<lambda>k. k\<lparr>hs_refcnt := hs_refcnt k + 1\<rparr>)\<rparr>) = Some H'"
    using assms(1) by (simp add: tcp_nip_rcv_def assms(2-5) ninet_lookup_skb_def lookup_found Let_def)
  from rcv_conn_refs [OF this, of x] show ?thesis by (simp add: refs_def)
qed

section \<open>The order of the backlog\<close>

lemma put_ref_True: "put_ref True = sock_put"
  by (simp add: put_ref_def fun_eq_iff)

text \<open>A packet for the connection s that passes all checks, with its control block.\<close>

definition conn_pkt :: "rcv_env \<Rightarrow> tcp_host \<Rightarrow> sid \<Rightarrow> rcv_pkt \<Rightarrow> tcp_skb \<Rightarrow> bool" where
  "conn_pkt rv H s p q \<longleftrightarrow> rp_sk p = None \<and> (\<exists>th q0. tcp_nip_rcv_header (rp_skb p) = Some (Some th) \<and>
     fst (ninet_lookup_established (rq_hash (rv_req rv)) (th_hash H) (rv_netid rv) (cb_srcaddr (rp_skb p)) (h_source th)
       (cb_dstaddr (rp_skb p)) (ntohs (h_dest th)) (rp_iif p)) = Some s \<and>
     tcp_nip_fill_cb (rp_skb p) th = Some q0 \<and> filtered rv s (rp_skb p) th q0 = Some q)"

lemma conn_pkt_rcv:
  assumes "conn_pkt rv H s p q" "d_body (th_sock H s) = Full sk" "sk_state sk \<noteq> TCP_TIME_WAIT"
  defines "Hr \<equiv> H\<lparr>th_hash := upd_sock (th_hash H) s (\<lambda>k. k\<lparr>hs_refcnt := hs_refcnt k + 1\<rparr>)\<rparr>"
  shows "tcp_nip_rcv rv p H = Some
    (if \<not> d_owned (th_sock H s) then sock_put s (do_rcv_conn rv q (rp_iif p) (rp_dst p) sk s Hr)
     else
       let (full, H) = tcp_nip_add_backlog rv q (rp_iif p) (rp_dst p) sk s Hr in if full then drop_pkt s True H else sock_put s H)"
proof -
  obtain th q0 where th: "rp_sk p = None" "tcp_nip_rcv_header (rp_skb p) = Some (Some th)"
    "fst (ninet_lookup_established (rq_hash (rv_req rv)) (th_hash H) (rv_netid rv) (cb_srcaddr (rp_skb p)) (h_source th)
       (cb_dstaddr (rp_skb p)) (ntohs (h_dest th)) (rp_iif p)) = Some s"
    "tcp_nip_fill_cb (rp_skb p) th = Some q0" "filtered rv s (rp_skb p) th q0 = Some q"
    using assms(1) by (auto simp: conn_pkt_def)
  have "tcp_nip_rcv rv p H = rcv_conn rv p th s True sk Hr"
    by (simp add: tcp_nip_rcv_def th ninet_lookup_skb_def lookup_found [OF th(3)] Let_def assms(2) Hr_def)
  also have "\<dots> = Some
    (if \<not> d_owned (th_sock H s) then sock_put s (do_rcv_conn rv q (rp_iif p) (rp_dst p) sk s Hr)
     else
       let (full, H) = tcp_nip_add_backlog rv q (rp_iif p) (rp_dst p) sk s Hr in if full then drop_pkt s True H else sock_put s H)"
    by (simp add: rcv_conn_def assms(3) th(4,5) put_ref_True Hr_def split: prod.split)
  finally show ?thesis .
qed

lemma unhash_hold: "ninet_unhash e (upd_sock h s (hs_refcnt_update f)) s = upd_sock (ninet_unhash e h s) s (hs_refcnt_update f)"
  by (cases "h_socks h s", rule ninet_hashinfo.equality)
    (simp_all add: ninet_unhash_def ninet_unhash2_def Let_def upd_sock_def ninet_lhash2_bucket_sk_def split: option.split)

lemma upd_state_refcnt:
  "upd_sock (upd_sock h s (hs_refcnt_update f)) s (hs_state_update g) = upd_sock (upd_sock h s (hs_state_update g)) s (hs_refcnt_update f)"
  by (cases "h_socks h s") (simp add: upd_sock_def)

lemma hold_eq: "(\<lambda>k. k\<lparr>hs_refcnt := hs_refcnt k + 1\<rparr>) = hs_refcnt_update Suc"
  by (rule ext) simp

lemma set_hstate_hold:
  "tcp_set_hstate e st s (upd_sock h s (hs_refcnt_update f)) = upd_sock (tcp_set_hstate e st s h) s (hs_refcnt_update f)"
  by (simp add: tcp_set_hstate_def unhash_hold upd_state_refcnt)

lemma conn_pkt_direct:
  assumes "conn_pkt rv H s p q" "d_body (th_sock H s) = Full sk" "sk_state sk \<noteq> TCP_TIME_WAIT" "\<not> d_owned (th_sock H s)"
  shows "tcp_nip_rcv rv p H = Some (do_rcv_conn rv q (rp_iif p) (rp_dst p) sk s H)"
proof -
  define H1 where "H1 = do_rcv_conn rv q (rp_iif p) (rp_dst p) sk s H"
  have "do_rcv_conn rv q (rp_iif p) (rp_dst p) sk s (H\<lparr>th_hash := upd_sock (th_hash H) s (\<lambda>k. k\<lparr>hs_refcnt := hs_refcnt k + 1\<rparr>)\<rparr>) =
      H1\<lparr>th_hash := upd_sock (th_hash H1) s (\<lambda>k. k\<lparr>hs_refcnt := hs_refcnt k + 1\<rparr>)\<rparr>"
    unfolding hold_eq by (simp add: H1_def do_rcv_conn_def Let_def split_beta set_hstate_hold)
  then have "sock_put s (do_rcv_conn rv q (rp_iif p) (rp_dst p) sk s
      (H\<lparr>th_hash := upd_sock (th_hash H) s (\<lambda>k. k\<lparr>hs_refcnt := hs_refcnt k + 1\<rparr>)\<rparr>)) = H1"
    unfolding sock_put_def upd_hsock_def by (simp only: tcp_host.simps put_hold) simp
  with assms(4) show ?thesis by (simp add: conn_pkt_rcv [OF assms(1-3)] H1_def)
qed

lemma conn_pkt_queued:
  assumes "conn_pkt rv H s p q" "d_body (th_sock H s) = Full sk" "sk_state sk \<noteq> TCP_TIME_WAIT" "d_owned (th_sock H s)"
    and "\<And>l d. rv_add_backlog rv l d"
  shows "tcp_nip_rcv rv p H = Some (upd_demux s (\<lambda>d. d\<lparr>d_backlog := d_backlog d @ [(q, rp_iif p, rp_dst p)]\<rparr>) H)"
  using assms(4,5) put_hold [of "th_hash H" s]
  by (simp add: conn_pkt_rcv [OF assms(1-3)] tcp_nip_add_backlog_def Let_def sock_put_def upd_hsock_def upd_demux_def)

lemma established_walk_upd_state:
  assumes "\<And>k. M (k\<lparr>hs_state := st\<rparr>) = M k"
  shows "fst (established_walk (upd_sock h s (\<lambda>k. k\<lparr>hs_state := st\<rparr>)) hash M ss) = fst (established_walk h hash M ss)"
  by (induction ss) (auto simp: assms)

lemma lookup_set_hstate:
  "st \<noteq> TCP_CLOSE \<Longrightarrow> fst (ninet_lookup_established e (tcp_set_hstate e' st s h) net a sp d dp iif) =
    fst (ninet_lookup_established e h net a sp d dp iif)"
  by (simp add: ninet_lookup_established_def Let_def tcp_set_hstate_def NINET_MATCH_def established_walk_upd_state)

abbreviation next_state :: "rcv_env \<Rightarrow> tcp_skb \<Rightarrow> tcp_nip_sock \<Rightarrow> tcp_nip_sock" where
  "next_state rv \<equiv> tcp_nip_do_rcv (rq_tcp (rv_req rv)) (\<lambda>_ sk. (0, sk))"

lemma conn_pkt_next:
  "sk_state (next_state rv q0 sk) \<noteq> TCP_CLOSE \<Longrightarrow> conn_pkt rv (do_rcv_conn rv q0 iif dst sk s H) s p q \<longleftrightarrow> conn_pkt rv H s p q"
  by (simp add: conn_pkt_def do_rcv_conn_def Let_def split_beta lookup_set_hstate)

text \<open>A run of packets, and a connection that is open whenever one of its segments is received (the last may close it).\<close>

fun rcv_all :: "rcv_env \<Rightarrow> rcv_pkt list \<Rightarrow> tcp_host \<Rightarrow> tcp_host option" where
  "rcv_all rv [] H = Some H"
| "rcv_all rv (p # ps) H = do { H \<leftarrow> tcp_nip_rcv rv p H; rcv_all rv ps H }"

fun stays_open :: "rcv_env \<Rightarrow> tcp_nip_sock \<Rightarrow> tcp_skb list \<Rightarrow> bool" where
  "stays_open rv sk [] \<longleftrightarrow> True"
| "stays_open rv sk (q # qs) \<longleftrightarrow> sk_state sk \<noteq> TCP_CLOSE \<and> sk_state sk \<noteq> TCP_TIME_WAIT \<and> stays_open rv (next_state rv q sk) qs"

abbreviation arrivals :: "rcv_pkt list \<Rightarrow> tcp_skb list \<Rightarrow> (tcp_skb \<times> int \<times> rt_id option) list" where
  "arrivals ps qs \<equiv> map2 (\<lambda>p q. (q, rp_iif p, rp_dst p)) ps qs"

lemma do_rcv_conn_self:
  "d_body (th_sock (do_rcv_conn rv q iif dst sk s H) s) = Full (next_state rv q sk)"
  "d_owned (th_sock (do_rcv_conn rv q iif dst sk s H) s) = d_owned (th_sock H s)"
  "d_backlog (th_sock (do_rcv_conn rv q iif dst sk s H) s) = d_backlog (th_sock H s)"
  by (auto simp: do_rcv_conn_def Let_def split_beta check_rx_dst_def ninet_sk_rx_dst_set_def split: option.split)

lemma rcv_all_direct:
  assumes "list_all2 (conn_pkt rv H s) ps qs" "d_body (th_sock H s) = Full sk" "\<not> d_owned (th_sock H s)" "stays_open rv sk qs"
  shows "rcv_all rv ps H = Some (fold (backlog_rcv rv s) (arrivals ps qs) H)"
  using assms
proof (induction ps arbitrary: qs H sk)
  case (Cons p ps)
  then obtain q qs' where qs: "qs = q # qs'" "conn_pkt rv H s p q" "list_all2 (conn_pkt rv H s) ps qs'" by (auto simp: list_all2_Cons1)
  have o: "sk_state sk \<noteq> TCP_TIME_WAIT" "stays_open rv (next_state rv q sk) qs'" using Cons.prems(4) by (auto simp: qs(1))
  let ?H = "do_rcv_conn rv q (rp_iif p) (rp_dst p) sk s H"
  have n: "list_all2 (conn_pkt rv ?H s) ps qs'"
  proof (cases qs')
    case (Cons r rs)
    then have "sk_state (next_state rv q sk) \<noteq> TCP_CLOSE" using o(2) by simp
    then show ?thesis using qs(3) conn_pkt_next [of rv q sk "rp_iif p" "rp_dst p" s H] by (simp add: list_all2_mono)
  qed (use qs(3) in simp)
  show ?case
    using Cons.IH [OF n do_rcv_conn_self(1) _ o(2)] Cons.prems(2,3)
    by (simp add: conn_pkt_direct [OF qs(2) Cons.prems(2) o(1) Cons.prems(3)] qs(1) do_rcv_conn_self backlog_rcv_def)
qed simp

lemma rcv_all_queued:
  assumes "list_all2 (conn_pkt rv H s) ps qs" "d_body (th_sock H s) = Full sk" "d_owned (th_sock H s)" "sk_state sk \<noteq> TCP_TIME_WAIT"
    and "\<And>l d. rv_add_backlog rv l d"
  shows "rcv_all rv ps H = Some (upd_demux s (\<lambda>d. d\<lparr>d_backlog := d_backlog d @ arrivals ps qs\<rparr>) H)"
  using assms(1-4)
proof (induction ps arbitrary: qs H)
  case Nil
  then show ?case by (simp add: upd_demux_def)
next
  case (Cons p ps)
  then obtain q qs' where qs: "qs = q # qs'" "conn_pkt rv H s p q" "list_all2 (conn_pkt rv H s) ps qs'" by (auto simp: list_all2_Cons1)
  let ?H = "upd_demux s (\<lambda>d. d\<lparr>d_backlog := d_backlog d @ [(q, rp_iif p, rp_dst p)]\<rparr>) H"
  have "conn_pkt rv ?H s = conn_pkt rv H s" by (simp add: fun_eq_iff conn_pkt_def upd_demux_def)
  then have n: "list_all2 (conn_pkt rv ?H s) ps qs'" using qs(3) by simp
  show ?case
    using Cons.IH [OF n] Cons.prems(2-4)
    by (simp add: conn_pkt_queued [OF qs(2) Cons.prems(2) Cons.prems(4) Cons.prems(3) assms(5)] qs(1)) (simp add: upd_demux_def)
qed

lemma rx_owned:
  "check_rx_dst iif (d\<lparr>d_owned := b\<rparr>) net = map_prod (\<lambda>d. d\<lparr>d_owned := b\<rparr>) id (check_rx_dst iif d net)"
  "ninet_sk_rx_dst_set dst iif safe (d\<lparr>d_owned := b\<rparr>) net = map_prod (\<lambda>d. d\<lparr>d_owned := b\<rparr>) id (ninet_sk_rx_dst_set dst iif safe d net)"
  by (simp_all add: check_rx_dst_def ninet_sk_rx_dst_set_def split: option.split)

lemma backlog_rcv_owned: "backlog_rcv rv s x (lock_sock s H) = lock_sock s (backlog_rcv rv s x H)"
proof (cases "d_body (th_sock H s)")
  case (Full sk)
  have d: "(d\<lparr>d_owned := True\<rparr>)\<lparr>d_body := c\<rparr> = (d\<lparr>d_body := c\<rparr>)\<lparr>d_owned := True\<rparr>" for d c by simp
  have "do_rcv_conn rv q iif dst sk s (lock_sock s H) = lock_sock s (do_rcv_conn rv q iif dst sk s H)" for q iif dst
    by (rule tcp_host.equality) (simp_all add: do_rcv_conn_def lock_sock_def upd_demux_def Let_def split_beta rx_owned d)
  with Full show ?thesis by (simp add: backlog_rcv_def) (simp add: lock_sock_def)
qed (simp_all add: backlog_rcv_def lock_sock_def)

lemma fold_backlog_owned: "fold (backlog_rcv rv s) xs (lock_sock s H) = lock_sock s (fold (backlog_rcv rv s) xs H)"
  by (induction xs arbitrary: H) (simp_all add: backlog_rcv_owned)

lemma backlog_rcv_keeps: "d_owned (th_sock (fold (backlog_rcv rv s) xs H) s) = d_owned (th_sock H s)"
  by (induction xs arbitrary: H) (auto simp: backlog_rcv_def do_rcv_conn_self split: sock_body.split)

text \<open>C7: segments of a connection that pass its checks and arrive while a user holds its lock are queued while the limit of the backlog allows it,
  and the release of the lock brings the host to the state it would have reached without the lock, provided that no segment but
  the last closes the connection. (After a segment that closes it the two differ: without the lock the next segments find no
  connection and are answered with resets, while those in the backlog reach the closed socket, which drops them.)\<close>

theorem backlog_keeps_order:
  assumes "list_all2 (conn_pkt rv H s) ps qs" "d_body (th_sock H s) = Full sk" "stays_open rv sk qs" "sk_state sk \<noteq> TCP_TIME_WAIT"
    and "\<not> d_owned (th_sock H s)" "d_backlog (th_sock H s) = []" "\<forall>l d. rv_add_backlog rv l d"
  shows "\<exists>H'. rcv_all rv ps (lock_sock s H) = Some H' \<and> rcv_all rv ps H = Some (release_sock rv s H')"
proof -
  let ?x = "arrivals ps qs" and ?F = "fold (backlog_rcv rv s)"
  have "conn_pkt rv (lock_sock s H) s = conn_pkt rv H s" by (simp add: fun_eq_iff conn_pkt_def lock_sock_def upd_demux_def)
  then have q: "rcv_all rv ps (lock_sock s H) = Some (upd_demux s (\<lambda>d. d\<lparr>d_backlog := d_backlog d @ ?x\<rparr>) (lock_sock s H))"
    using assms by (intro rcv_all_queued [where sk = sk]) (simp_all add: lock_sock_def)
  have e: "upd_demux s (\<lambda>d. d\<lparr>d_backlog := []\<rparr>) (upd_demux s (\<lambda>d. d\<lparr>d_backlog := d_backlog d @ ?x\<rparr>) (lock_sock s H)) = lock_sock s H"
    using assms(6) by (cases "th_sock H s") (simp add: upd_demux_def lock_sock_def fun_eq_iff)
  have "release_sock rv s (upd_demux s (\<lambda>d. d\<lparr>d_backlog := d_backlog d @ ?x\<rparr>) (lock_sock s H)) =
      upd_demux s (\<lambda>d. d\<lparr>d_owned := False\<rparr>) (lock_sock s (?F ?x H))"
    unfolding release_sock_def e using assms(6) by (simp add: fold_backlog_owned) (simp add: lock_sock_def)
  also have "\<dots> = ?F ?x H"
    using backlog_rcv_keeps [of rv s ?x H] assms(5) by (cases "th_sock (?F ?x H) s") (simp add: upd_demux_def lock_sock_def fun_eq_iff)
  finally show ?thesis using q rcv_all_direct [OF assms(1,2,5,3)] by simp
qed

section \<open>Half-open connections\<close>

definition rst_skb :: "u32 \<Rightarrow> tcp_skb" where
  "rst_skb seq = \<lparr>pkt_seq = seq, pkt_end_seq = seq, pkt_ack_seq = 0, pkt_flags = TCPHDR_RST, pkt_data = [], pkt_tstamp = 0, pkt_pcount = 1,
     pkt_gso_size = 0, th_window = 0, th_urg = 0, th_opts = []\<rparr>"

lemma reset_hdr_bytes: "tcp_nip_reset_hdr source dest seq 0 False True 0 check = tcp_header_bytes source dest (rst_skb seq) check"
proof -
  have "hi8 (tcp_doff_flags (rst_skb seq)) = 0x50" "lo8 (tcp_doff_flags (rst_skb seq)) = 4"
    by (simp_all add: tcp_doff_flags_def rst_skb_def TCPHDR_RST_def hi8_def lo8_def)
  then show ?thesis by (simp add: tcp_nip_reset_hdr_def tcp_header_bytes_def) (simp add: rst_skb_def hi8_def lo8_def)
qed

lemma unhash_unhashed: "\<not> hs_hashed (h_socks (ninet_unhash e h s) s)"
  by (simp add: ninet_unhash_def Let_def)

lemma reset_conn:
  assumes "sk_state sk = TCP_ESTABLISHED" "tcp_nip_sequence sk (rcv_nxt sk) (rcv_nxt sk)" "q = rst_skb (rcv_nxt sk)"
  shows "sk_state (next_state rv q sk) = TCP_CLOSE" "sk_err (next_state rv q sk) = ECONNRESET"
proof -
  have "next_state rv q sk = tcp_nip_done (tcp_nip_write_queue_purge (sk\<lparr>sk_err := ECONNRESET\<rparr>))"
    using assms by (simp add: tcp_nip_do_rcv_def tcp_nip_rcv_established_def tcp_nip_validate_incoming_def rst_skb_def flag_def TCPHDR_RST_def
        tcp_nip_reset_def)
  then show "sk_state (next_state rv q sk) = TCP_CLOSE" "sk_err (next_state rv q sk) = ECONNRESET"
    by (simp_all add: tcp_nip_done_def tcp_nip_write_queue_purge_def inet_csk_clear_xmit_timers_def tcp_nip_destroy_sock_def
        sk_nip_stream_kill_queues_def Let_def)
qed

lemma no_socket_reset:
  assumes "tcp_nip_rcv rv p H = Some H'" "rp_sk p = None" "tcp_nip_rcv_header (rp_skb p) = Some (Some th)"
    and "fst (ninet_lookup (rq_hash (rv_req rv)) (th_hash H) (rv_netid rv) (cb_srcaddr (rp_skb p)) (h_source th)
      (cb_dstaddr (rp_skb p)) (ntohs (h_dest th)) (rp_iif p)) = None"
    and "flag (h_flags th) TCPHDR_ACK" "\<not> flag (h_flags th) TCPHDR_RST" "rv_rst_alloc rv"
    and "nip_route_output_flags (rv_h32 rv) (rv_cpu rv) (rv_new_rt rv) (cb_srcaddr (rp_skb p)) (cb_dstaddr (rp_skb p)) (th_net H) = Some (r, a, net)"
    and "dst_output (rts net r) = Fun_nip_output"
  shows "\<exists>seg hdr. tcp_segment_bytes (cb_dstaddr (rp_skb p)) (cb_srcaddr (rp_skb p)) (h_dest th) (h_source th) (rst_skb (h_ack_seq th)) = Some seg \<and>
    nip_tcp_hdr (rv_stack rv) (cb_dstaddr (rp_skb p)) (cb_srcaddr (rp_skb p)) (length seg) = Some hdr \<and>
    th_resets H' = th_resets H @ [hdr @ seg] \<and> th_sock H' = th_sock H"
proof -
  obtain r h where l: "ninet_lookup (rq_hash (rv_req rv)) (th_hash H) (rv_netid rv) (cb_srcaddr (rp_skb p)) (h_source th)
      (cb_dstaddr (rp_skb p)) (ntohs (h_dest th)) (rp_iif p) = (None, r, h)"
    using assms(4) by (metis prod.collapse)
  have no_data: "pkt_data (rst_skb q) = []" for q by (simp add: rst_skb_def)
  have len: "length (tcp_header_bytes sp dp (rst_skb q) c) = 20" for sp dp q c by (simp add: tcp_header_length rst_skb_def)
  have "tcp_nip_send_reset rv (rp_skb p) th (H\<lparr>th_hash := h\<rparr>) = Some H'"
    using assms(1) by (simp add: tcp_nip_rcv_def assms(2,3) ninet_lookup_skb_def l Let_def)
  then show ?thesis
    using assms(5-9)
    by (auto simp: nip_send_skb_def nip_local_out_def tcp_nip_send_reset_def tcp_nip_actual_send_reset_def reset_hdr_bytes Let_def tcp_segment_bytes_def len no_data
        split: bind_splits)
qed

text \<open>Without a route the reset gets the null entry, whose output function frees it: nothing is sent.\<close>

lemma no_route_no_reset:
  assumes "tcp_nip_send_reset rv skb th H = Some H'"
    and "nip_route_output_flags (rv_h32 rv) (rv_cpu rv) (rv_new_rt rv) (cb_srcaddr skb) (cb_dstaddr skb) (th_net H) = Some (r, a, net)"
    and "dst_output (rts net r) = Fun_nip_pkt_discard_out"
  shows "th_resets H' = th_resets H"
  using assms by (auto simp: tcp_nip_send_reset_def tcp_nip_actual_send_reset_def Let_def nip_send_skb_out(2) split: bind_splits if_splits)


section \<open>A host with one connection\<close>

definition sample_rv :: rcv_env where
  "sample_rv = \<lparr>rv_req = sample_server, rv_netid = 1, rv_filter = (\<lambda>s k. Some k), rv_add_backlog = (\<lambda>l d. True), rv_sndbuf = (\<lambda>s. 0),
     inet_ehash_insert = (\<lambda>h s old. h), rv_new_sid = 9, rv_send = sample_send, rv_rst_alloc = True, rv_stack = replicate NIP_HDR_MAX 0,
     rv_h32 = hash_zero, rv_cpu = 0, rv_new_rt = (\<lambda>_. None), rv_hold_safe = True\<rparr>"

definition sample_sk :: tcp_nip_sock where
  "sample_sk = zero_sock\<lparr>sk_state := TCP_ESTABLISHED, rcv_nxt := 7, rcv_wup := 7, rcv_wnd := 100\<rparr>"

definition sample_host :: "ninet_hashinfo \<Rightarrow> tcp_host" where
  "sample_host h = \<lparr>th_hash = h, th_sock = (\<lambda>_. \<lparr>d_body = Full sample_sk, d_owned = False, d_backlog = [], d_drops = 0, d_rx_dst = None,
     d_rx_ifindex = 0\<rparr>), th_reqs = (\<lambda>_. []), th_acceptq = (\<lambda>_. []), th_net = init_net [0], th_resets = []\<rparr>"

lemma sample_rv_simps [simp]:
  "rv_req sample_rv = sample_server" "rv_netid sample_rv = 1" "rv_filter sample_rv = (\<lambda>s k. Some k)" "rv_add_backlog sample_rv = (\<lambda>l d. True)"
  "rv_new_sid sample_rv = 9" "rv_rst_alloc sample_rv" "rv_stack sample_rv = replicate NIP_HDR_MAX 0" "rq_hash sample_server = sample_env"
  "rq_tcp sample_server = ex_env"
  by (simp_all add: sample_rv_def sample_server_def)

lemma sample_host_simps [simp]:
  "th_hash (sample_host h) = h" "d_body (th_sock (sample_host h) s) = Full sample_sk" "\<not> d_owned (th_sock (sample_host h) s)"
  "d_backlog (th_sock (sample_host h) s) = []" "th_net (sample_host h) = init_net [0]"
  by (simp_all add: sample_host_def)

lemma sample_sk_simps [simp]: "sk_state sample_sk = TCP_ESTABLISHED" "rcv_nxt sample_sk = 7" "tcp_nip_sequence sample_sk 7 7"
  by (simp_all add: sample_sk_def zero_sock_def tcp_nip_sequence_def before_def tcp_receive_window_def)

lemma sample_lookup: "fst (ninet_lookup_established sample_env sample_conn 1 (short_addr 9) 0x5000 (short_addr 5) 4000 dif) = Some 3"
  using established_lookup [where net = 1 and sport = "0x5000" and hnum = 4000 and dif = dif, OF sample_conn_ok(1-3) sample_addr_norm(3,1)]
    sample_conn_ok(5) by auto

lemma sample_host_ok: "host_ok sample_rv (sample_host sample_conn)"
  using sample_conn_ok(1-4) by (simp add: host_ok_def)

text \<open>Every packet of the model arrives as some buffer.\<close>

lemma arrival:
  assumes "valid_addr s" "valid_addr d" "length (th_opts q) \<le> 40" "4 dvd length (th_opts q)" "length (pkt_data q) < 65000" "end_seq_ok q"
    and "q\<lparr>pkt_tstamp := 0, pkt_pcount := 1, pkt_gso_size := 0\<rparr> = q"
  obtains skb th where "cb_srcaddr skb = s" "cb_dstaddr skb = d" "tcp_nip_rcv_header skb = Some (Some th)" "h_source th = sp" "h_dest th = dp"
    "h_flags th = pkt_flags q" "h_ack_seq th = pkt_ack_seq q" "tcp_nip_fill_cb skb th = Some q" "skb_th skb = skb_pos skb"
proof -
  let ?pr = "[6 \<mapsto> nip_tcp_protocol] :: ninet_protos"
  obtain seg where seg: "tcp_segment_bytes s d sp dp q = Some seg"
    using tcp_checksum_inserted [OF assms(1,2), of q] assms(3,5) by fastforce
  have st: "length (replicate NIP_HDR_MAX (0 :: u8)) = NIP_HDR_MAX" by simp
  obtain hdr where hd: "nip_tcp_hdr (replicate NIP_HDR_MAX 0) s d (length seg) = Some hdr"
    using nip_tcp_hdr_bytes [OF assms(1,2) st] by blast
  have pr: "?pr (IPPROTO_TCP :: u8) = Some nip_tcp_protocol" "length ([] :: u8 list) < 65536" by simp_all
  obtain skb th where k: "cb_srcaddr skb = s" "cb_dstaddr skb = d" "tcp_nip_rcv_header skb = Some (Some th)" "h_source th = sp" "h_dest th = dp"
    "tcp_nip_fill_cb skb th = Some q" "skb_th skb = skb_pos skb"
    using packet_roundtrip [where icmp = 177 and protos = "?pr" and padding = "[]", OF seg hd assms(1,2) st assms(3-6) pr] unfolding assms(7) by metis
  then have "h_flags th = pkt_flags q" "h_ack_seq th = pkt_ack_seq q" by (auto simp: tcp_nip_fill_cb_def Let_def split: if_splits)
  with k show ?thesis by (intro that)
qed

lemma sample_valid: "valid_addr (short_addr 5)" "valid_addr (short_addr 9)"
  by (simp_all add: valid_addr_def short_addr_valid wf_short_addr) (simp_all add: short_addr_def short_bytes_def)

lemma rst_skb_ok: "length (th_opts (rst_skb n)) \<le> 40" "4 dvd length (th_opts (rst_skb n))" "length (pkt_data (rst_skb n)) < 65000"
  "end_seq_ok (rst_skb n)" "(rst_skb n)\<lparr>pkt_tstamp := 0, pkt_pcount := 1, pkt_gso_size := 0\<rparr> = rst_skb n"
  by (simp_all add: rst_skb_def end_seq_ok_def flag_def TCPHDR_SYN_def TCPHDR_FIN_def TCPHDR_RST_def)

text \<open>The reset with sequence number n, as a packet for the connection of the sample host.\<close>

lemma sample_packet:
  obtains p th where "cb_srcaddr (rp_skb p) = short_addr 9" "cb_dstaddr (rp_skb p) = short_addr 5" "rp_sk p = None"
    "tcp_nip_rcv_header (rp_skb p) = Some (Some th)" "h_source th = 0x5000" "ntohs (h_dest th) = 4000" "skb_th (rp_skb p) = skb_pos (rp_skb p)"
    "conn_pkt sample_rv (sample_host sample_conn) 3 p (rst_skb n)"
proof -
  obtain skb th where k: "cb_srcaddr skb = short_addr 9" "cb_dstaddr skb = short_addr 5" "tcp_nip_rcv_header skb = Some (Some th)"
    "h_source th = 0x5000" "h_dest th = htons 4000" "tcp_nip_fill_cb skb th = Some (rst_skb n)" "skb_th skb = skb_pos skb"
    by (rule arrival [OF sample_valid(2,1) rst_skb_ok])
  let ?p = "\<lparr>rp_skb = skb, rp_iif = 0, rp_dst = None, rp_sk = None\<rparr>"
  have "filtered sample_rv 3 skb th (rst_skb n) = Some (rst_skb n)" by (simp add: filtered_def) (simp add: rst_skb_def)
  moreover have p: "ntohs (h_dest th) = 4000" by (simp add: k(5))
  ultimately have "conn_pkt sample_rv (sample_host sample_conn) 3 ?p (rst_skb n)"
    unfolding conn_pkt_def using k sample_lookup [of 0] by auto
  with k p show ?thesis by (intro that [of ?p th]) simp_all
qed

theorem segment_touches_its_socket_witness:
  "\<exists>p th. tcp_nip_rcv_header (rp_skb p) = Some (Some th) \<and> segment_for sample_rv p th (h_socks sample_conn) 3"
proof -
  let ?H = "sample_host sample_conn" and ?q = "rst_skb 7"
  obtain p th where p: "cb_srcaddr (rp_skb p) = short_addr 9" "cb_dstaddr (rp_skb p) = short_addr 5" "rp_sk p = None"
    "tcp_nip_rcv_header (rp_skb p) = Some (Some th)" "conn_pkt sample_rv ?H 3 p ?q" by (rule sample_packet) blast
  have n: "sk_state (next_state sample_rv ?q sample_sk) = TCP_CLOSE" using reset_conn(1) [of sample_sk ?q sample_rv] by simp
  obtain H' where H': "tcp_nip_rcv sample_rv p ?H = Some H'" "d_body (th_sock H' 3) = Full (next_state sample_rv ?q sample_sk)"
    using conn_pkt_rcv [OF p(5), of sample_sk] by (auto simp: do_rcv_conn_self)
  have "th_sock H' 3 \<noteq> th_sock ?H 3"
  proof
    assume "th_sock H' 3 = th_sock ?H 3"
    then have "sample_sk = next_state sample_rv ?q sample_sk" using H'(2) by simp
    then have "sk_state sample_sk = TCP_CLOSE" using n by metis
    then show False by simp
  qed
  then show ?thesis
    using segment_touches_its_socket [OF sample_host_ok _ _ p(3,4) H'(1), of 3] p sample_addr_norm by auto
qed

theorem early_demux_equivalent_witness:
  "\<exists>p p' H'. tcp_nip_early_demux sample_rv p (sample_host sample_conn) = (p', H') \<and> rp_sk p' = Some (3, True) \<and>
    tcp_nip_rcv sample_rv (p'\<lparr>rp_dst := rp_dst p\<rparr>) H' = tcp_nip_rcv sample_rv p (sample_host sample_conn)"
proof -
  let ?H = "sample_host sample_conn"
  obtain p th where p: "cb_srcaddr (rp_skb p) = short_addr 9" "cb_dstaddr (rp_skb p) = short_addr 5" "rp_sk p = None"
    "tcp_nip_rcv_header (rp_skb p) = Some (Some th)" "h_source th = 0x5000" "ntohs (h_dest th) = 4000" "skb_th (rp_skb p) = skb_pos (rp_skb p)"
    "conn_pkt sample_rv ?H 3 p (rst_skb 7)" by (rule sample_packet)
  obtain p' H' where e: "tcp_nip_early_demux sample_rv p ?H = (p', H')" by (rule prod.exhaust)
  have th: "tcp_hdr (drop (skb_th (rp_skb p)) (skb_mem (rp_skb p))) = Some th" "\<not> skb_otherhost (rp_skb p)" "\<not> h_doff th < 5"
    using p(4,7) by (auto simp: tcp_nip_rcv_header_def transport_data_def split: if_splits bind_splits)
  obtain h where "ninet_lookup_established sample_env sample_conn 1 (short_addr 9) 0x5000 (short_addr 5) 4000 (rp_iif p) = (Some 3, h)"
    using sample_lookup [of "rp_iif p"] by (metis prod.collapse)
  then have "rp_sk p' = Some (3, True)" using e p(1,2,5,6) th by (auto simp: tcp_nip_early_demux_def Let_def split: if_splits)
  with e early_demux_equivalent [OF e p(3,7)] show ?thesis by blast
qed

theorem segment_keeps_references_witness:
  "\<exists>p H'. tcp_nip_rcv sample_rv p (sample_host sample_conn) = Some H' \<and> refs H' 3 = refs (sample_host sample_conn) 3"
proof -
  let ?H = "sample_host sample_conn" and ?q = "rst_skb 7"
  obtain p th where p: "cb_srcaddr (rp_skb p) = short_addr 9" "cb_dstaddr (rp_skb p) = short_addr 5" "rp_sk p = None"
    "tcp_nip_rcv_header (rp_skb p) = Some (Some th)" "h_source th = 0x5000" "ntohs (h_dest th) = 4000" "conn_pkt sample_rv ?H 3 p ?q"
    by (rule sample_packet) blast
  obtain H' where H': "tcp_nip_rcv sample_rv p ?H = Some H'" using conn_pkt_rcv [OF p(7), of sample_sk] by auto
  show ?thesis
    using H' segment_keeps_references [OF H' p(3,4), of 3 sample_sk 3] p(1,2,5,6) sample_lookup by auto
qed

theorem backlog_keeps_order_witness:
  "\<exists>p H'. rcv_all sample_rv [p, p] (lock_sock 3 (sample_host sample_conn)) = Some H' \<and>
    rcv_all sample_rv [p, p] (sample_host sample_conn) = Some (release_sock sample_rv 3 H')"
proof -
  let ?H = "sample_host sample_conn" and ?q = "rst_skb 8"
  obtain p th where p: "conn_pkt sample_rv ?H 3 p ?q" by (rule sample_packet) blast
  have "tcp_nip_sequence sample_sk 8 8" by (simp add: sample_sk_def zero_sock_def tcp_nip_sequence_def before_def tcp_receive_window_def)
  then have n: "next_state sample_rv ?q sample_sk = sample_sk"
    by (simp add: tcp_nip_do_rcv_def tcp_nip_rcv_established_def tcp_nip_validate_incoming_def tcp_nip_reset_check_def)
      (simp add: rst_skb_def flag_def TCPHDR_RST_def)
  show ?thesis
    using backlog_keeps_order [of sample_rv ?H 3 "[p, p]" "[?q, ?q]" sample_sk] p n by auto
qed

text \<open>A default route 7 through the device 3, whose address is a; 8 is its copy for the processor.\<close>

definition default_net :: "nip_addr \<Rightarrow> netns_newip" where
  "default_net a = (init_net [0])\<lparr>
     rts := (\<lambda>r. if r = 0 then nip_null_entry_template else if r = 1 then nip_broadcast_entry_template
       else if r = 7 then blank_rt\<lparr>dst_refcnt := 1, rt_dst := nip_any_addr, rt_table := RT_TABLE_MAIN, rt_node := True, rt_ref := 1,
         rt_pcpu := Some (\<lambda>cpu. Some 8), dst_dev := Some 3, rt_idev := Some 0, dst_output := Fun_nip_output\<rparr>
       else blank_rt\<lparr>dst_refcnt := 1, rt_dst := nip_any_addr, rt_table := RT_TABLE_MAIN, rt_from := Some 7, dst_dev := Some 3, rt_idev := Some 0,
         dst_output := Fun_nip_output\<rparr>),
     fib_main_tbl := (empty_table RT_TABLE_MAIN)\<lparr>tb_head := (replicate NIN_ROUTE_HSIZE [])[0 := [7]]\<rparr>,
     devs := (\<lambda>d. if d = 3 then blank_dev\<lparr>dev_present := True, dev_running := True, nip_ptr := Some 0\<rparr> else blank_dev),
     idevs := (\<lambda>i. if i = 0 then blank_idev\<lparr>idev_dev := 3, idev_refcnt := 1, addr_list := [0]\<rparr> else blank_idev),
     ifas := (\<lambda>i. blank_ifa\<lparr>ifa_addr := a\<rparr>)\<rparr>"

lemma default_net_fields:
  "tb_head (fib_local_tbl (default_net a)) = replicate NIN_ROUTE_HSIZE []" "tb_head (fib_main_tbl (default_net a)) = [7] # replicate 15 []" "null_entry (default_net a) = 0"
  "broadcast_entry (default_net a) = 1" "dst_output (rts (default_net a) 8) = Fun_nip_output" "rt_dst (rts (default_net a) 7) = nip_any_addr" "rt_pcpu (rts (default_net a) 7) = Some (\<lambda>cpu. Some 8)" "rt_idev (rts (default_net a) 8) = Some 0"
  "rt_flags (rts (default_net a) 8) = 0" "dst_refcnt (rts (default_net a) 8) = 1"
  "idev_dev (idevs (default_net a) 0) = 3" "nip_ptr (devs (default_net a) 3) = Some 0" "addr_list (idevs (default_net a) 0) = [0]" "ifa_addr (ifas (default_net a) x) = a"
  by (simp_all add: default_net_def init_net_def empty_table_def blank_rt_def NIN_ROUTE_HSIZE_def numeral_eq_Suc)

lemma upd_rt_simps:
  "fib_main_tbl (upd_rt r f net) = fib_main_tbl net" "fib_local_tbl (upd_rt r f net) = fib_local_tbl net" "null_entry (upd_rt r f net) = null_entry net"
  "broadcast_entry (upd_rt r f net) = broadcast_entry net" "idevs (upd_rt r f net) = idevs net" "devs (upd_rt r f net) = devs net"
  "ifas (upd_rt r f net) = ifas net" "rts (upd_rt r f net) = (rts net)(r := f (rts net r))"
  by (simp_all add: upd_rt_def)

text \<open>Every address but the empty one is reached through the default route.\<close>

lemma default_net_route:
  assumes "addr_ok d" "\<not> nip_addr_eq d nip_any_addr" "\<not> nip_addr_eq nip_any_addr d"
  shows "\<exists>net. nip_route_output_flags hash_zero 0 new d src (default_net a) = Some (8, src, net) \<and>
    dst_output (rts net 8) = Fun_nip_output"
proof -
  have h: "ninet_route_hash hash_zero x = Some 0" if "addr_ok x" for x
    using hash_ok(1) [OF that, of hash_zero] by (auto simp: ninet_route_hash_def hash_zero_def)
  have n: "nip_addr_eq nip_any_addr nip_any_addr" by (simp add: nip_addr_eq_def nip_any_addr_def)
  note S = default_net_fields upd_rt_simps h n assms any_addr_ok dst_hold_def dst_release_def nip_rt_put_def
  have l: "nip_pol_route hash_zero 0 x (fib_local_tbl (default_net a)) d (default_net a) = Some (0, dst_hold 0 (default_net a))" for x
    by (simp add: nip_pol_route_def nip_fib_locate_def table_find_def S NIN_ROUTE_HSIZE_def)
  have m: "nip_pol_route hash_zero 0 x (fib_main_tbl (default_net a)) d (nip_rt_put 0 (dst_hold 0 (default_net a)))
      = Some (8, dst_hold 8 (nip_rt_put 0 (dst_hold 0 (default_net a))))" for x
    by (simp add: nip_pol_route_def nip_fib_locate_def table_find_def S chain_find_eq nip_rt_get_pcpu_route_def opt_do_def)
  show ?thesis
    using l m by (simp add: nip_route_output_flags_def nip_route_lookup_def nip_fib_rule_lookup_def S rtf_def)
qed


end
