(* ===== verification/NinetSock.thy ===== *)
theory NinetSock
  imports TcpDemux
begin

text \<open>
  The socket layer of the stack: src/src/linux/net/newip/af_ninet.c with the options of nip_sockglue.c, tcp_nip_connect of tcp_nip.c
  and the registration of the transport protocols. A stream socket is the state of its connection (TcpSock) together with what the
  socket layer keeps (stream_sock) and its identity in the tables (NinetHash); a world adds the routes of the namespace. What the
  kernel decides (ports, random numbers, memory, how long a caller sleeps) is an argument. None stands for a read that the C code
  makes outside an object, or for a caller that still sleeps.

  The lemmas follow tcp_nip_connect to its two ends and a connection that is refused, and count sockets and registrations.
\<close>

section \<open>Protocols and their sockets (ninet_create)\<close>

datatype socket_state = SS_FREE | SS_UNCONNECTED | SS_CONNECTING | SS_CONNECTED | SS_DISCONNECTING
datatype proto_ops = ninet_stream_ops | ninet_dgram_ops
datatype ninet_prot = tcp_nip_prot | nip_udp_prot

text \<open>struct inet_protosw, and the table inetsw_nip: a list for each socket type.\<close>

record inet_protosw =
  sw_type :: nat
  sw_protocol :: int
  sw_prot :: ninet_prot
  sw_ops :: proto_ops
  sw_reuse :: bool
  sw_permanent :: bool
  sw_icsk :: bool

type_synonym protosw_table = "nat \<Rightarrow> inet_protosw list"

definition SOCK_STREAM :: nat where "SOCK_STREAM = 1"
definition SOCK_DGRAM :: nat where "SOCK_DGRAM = 2"
definition SOCK_RAW :: nat where "SOCK_RAW = 3"
definition SOCK_MAX :: nat where "SOCK_MAX = 11"
definition IPPROTO_IP :: int where "IPPROTO_IP = 0"
definition IPPROTO_RAW :: int where "IPPROTO_RAW = 255"
definition IPPROTO_MAX :: int where "IPPROTO_MAX = 263"
definition ESOCKTNOSUPPORT :: int where "ESOCKTNOSUPPORT = 94"
definition EPROTONOSUPPORT :: int where "EPROTONOSUPPORT = 93"
definition NIP_MAX_SOCKET_NUM :: int where "NIP_MAX_SOCKET_NUM = 1024"

definition tcp_nip_protosw :: inet_protosw where
  "tcp_nip_protosw = \<lparr>sw_type = SOCK_STREAM, sw_protocol = 6, sw_prot = tcp_nip_prot, sw_ops = ninet_stream_ops, sw_reuse = False,
     sw_permanent = True, sw_icsk = True\<rparr>"

definition nip_udp_protosw :: inet_protosw where
  "nip_udp_protosw = \<lparr>sw_type = SOCK_DGRAM, sw_protocol = 17, sw_prot = nip_udp_prot, sw_ops = ninet_dgram_ops, sw_reuse = False,
     sw_permanent = True, sw_icsk = False\<rparr>"

text \<open>The walk of ninet_register_protosw: the number of entries up to the last permanent one, or None when a permanent
  entry has the protocol already. i counts the entries seen, perm those up to the last permanent one.\<close>

fun last_perm :: "int \<Rightarrow> nat \<Rightarrow> nat \<Rightarrow> inet_protosw list \<Rightarrow> nat option" where
  "last_perm protocol i perm [] = Some perm"
| "last_perm protocol i perm (a # as) =
    (if sw_permanent a then if protocol = sw_protocol a then None else last_perm protocol (Suc i) (Suc i) as
     else last_perm protocol (Suc i) perm as)"

definition ninet_register_protosw :: "inet_protosw \<Rightarrow> protosw_table \<Rightarrow> int \<times> protosw_table" where
  "ninet_register_protosw p t =
    (if sw_type p \<ge> SOCK_MAX then (- EINVAL, t)
     else case last_perm (sw_protocol p) 0 0 (t (sw_type p)) of
         None \<Rightarrow> (- EPERM, t)
       | Some n \<Rightarrow> (0, t(sw_type p := take n (t (sw_type p)) @ p # drop n (t (sw_type p)))))"

definition ninet_unregister_protosw :: "inet_protosw \<Rightarrow> protosw_table \<Rightarrow> protosw_table" where
  "ninet_unregister_protosw p t = (if sw_permanent p then t else t(sw_type p := remove1 p (t (sw_type p))))"

text \<open>The search of ninet_create: the entry and the protocol of the socket, or the error.\<close>

fun find_protosw :: "int \<Rightarrow> int \<Rightarrow> inet_protosw list \<Rightarrow> (inet_protosw \<times> int) result" where
  "find_protosw protocol err [] = Inl err"
| "find_protosw protocol err (a # as) =
    (if protocol = sw_protocol a then
       if protocol \<noteq> IPPROTO_IP then Inr (a, protocol) else find_protosw protocol (- EPROTONOSUPPORT) as
     else if protocol = IPPROTO_IP then Inr (a, sw_protocol a)
     else if sw_protocol a = IPPROTO_IP then Inr (a, protocol)
     else find_protosw protocol (- EPROTONOSUPPORT) as)"

text \<open>A socket as ninet_create makes it.\<close>

record new_socket =
  ns_type :: nat
  ns_protocol :: int
  ns_prot :: ninet_prot
  ns_ops :: proto_ops
  ns_icsk :: bool
  ns_reuse :: bool
  ns_num :: u16
  ns_hdrincl :: bool

text \<open>ninet_create, with the kernel's answers: whether sk_alloc gives memory, and the results of the protocol's hash and init. The
  number of sockets is g_nip_socket_number; atomic_dec_if_positive is written out.\<close>

definition dec_if_positive :: "int \<Rightarrow> int" where "dec_if_positive n = (if n > 0 then n - 1 else n)"

definition ninet_create ::
  "protosw_table \<Rightarrow> bool \<Rightarrow> int \<Rightarrow> int \<Rightarrow> nat \<Rightarrow> int \<Rightarrow> int \<Rightarrow> int \<times> new_socket option \<times> int" where
  "ninet_create t alloc_ok hash_err init_err type protocol number =
    (if protocol < 0 \<or> protocol \<ge> IPPROTO_MAX \<or> type \<ge> SOCK_MAX then (- EINVAL, None, number)
     else
       let num = number + 1 in
       if num > NIP_MAX_SOCKET_NUM then (- EPERM, None, dec_if_positive num)
       else case find_protosw protocol (- ESOCKTNOSUPPORT) (t type) of
           Inl err \<Rightarrow> (err, None, dec_if_positive num)
         | Inr (a, protocol) \<Rightarrow>
           if \<not> alloc_ok then (- ENOBUFS, None, dec_if_positive num)
           else
             let s = \<lparr>ns_type = type, ns_protocol = protocol, ns_prot = sw_prot a, ns_ops = sw_ops a, ns_icsk = sw_icsk a, ns_reuse = sw_reuse a,
                   ns_num = (if type = SOCK_RAW then of_int protocol else 0), ns_hdrincl = (type = SOCK_RAW \<and> protocol = IPPROTO_RAW)\<rparr>
             in if ns_num s \<noteq> 0 \<and> hash_err \<noteq> 0 then (hash_err, None, dec_if_positive num)
                else if init_err \<noteq> 0 then (init_err, None, dec_if_positive num)
                else (0, Some s, num))"

text \<open>ninet_release; inet_release closes the socket (TcpUser).\<close>

definition ninet_release :: "bool \<Rightarrow> int \<Rightarrow> int \<times> int" where
  "ninet_release has_sk number = (if \<not> has_sk then (- EINVAL, number) else (0, dec_if_positive number))"

section \<open>A stream socket\<close>

text \<open>The socket with what the model of its connection does not hold; its identity is in the tables under its number.\<close>

record stream_sock =
  ss_state :: socket_state
  ss_type :: nat
  ss_sk :: tcp_nip_sock
  ss_dst :: "rt_id option"
  ss_max_ack_backlog :: int
  ss_route_caps :: nat
  ss_ext_hdr_len :: nat
  ss_optlen :: "nat option"           \<comment> \<open>inet_opt\<close>
  ss_ts_recent :: u32
  ss_ts_recent_stamp :: u32
  ss_repair :: bool
  ss_inet_id :: u16
  ss_txhash :: u32
  ss_no_port :: bool                  \<comment> \<open>bind_address_no_port\<close>
  ss_port_locked :: bool              \<comment> \<open>SOCK_BINDPORT_LOCK\<close>

record sock_world =
  sw_hash :: ninet_hashinfo
  sw_ss :: stream_sock
  sw_net :: netns_newip

text \<open>What the calls get from the kernel: the choice of a port for a connection, for a bound socket and the start of listening; the
  uninitialised source address of the flow, the memory behind the addresses of the socket, random numbers and a buffer.\<close>

record sock_env =
  se_tcp :: tcp_env
  se_hash :: hash_env
  se_h32 :: hash32
  se_cpu :: nat
  se_new_rt :: "fib_tb_id \<Rightarrow> rt_id option"
  inet_hash_connect :: "ninet_hashinfo \<Rightarrow> sid \<Rightarrow> 64 word \<Rightarrow> (ninet_hashinfo \<Rightarrow> sid \<Rightarrow> u16 \<Rightarrow> int \<times> ninet_hashinfo) \<Rightarrow> int \<times> ninet_hashinfo"
  inet_csk_get_port :: "ninet_hashinfo \<Rightarrow> sid \<Rightarrow> u16 \<Rightarrow> int \<times> ninet_hashinfo"
  inet_csk_listen_start :: "int \<Rightarrow> ninet_hashinfo \<Rightarrow> sid \<Rightarrow> int \<times> ninet_hashinfo"
  se_stack_saddr :: nip_addr
  se_rcv_mem :: bytes
  se_daddr_mem :: bytes
  se_txhash :: u32
  se_random :: u32
  se_syn_alloc :: bool

definition AF_NINET :: u16 where "AF_NINET = 45"
definition EAFNOSUPPORT :: int where "EAFNOSUPPORT = 97"
definition EISCONN :: int where "EISCONN = 106"
definition ENOTCONN :: int where "ENOTCONN = 107"
definition EALREADY :: int where "EALREADY = 114"
definition EINPROGRESS :: int where "EINPROGRESS = 115"
definition ECONNABORTED :: int where "ECONNABORTED = 103"
definition EACCES :: int where "EACCES = 13"
definition EADDRINUSE :: int where "EADDRINUSE = 98"
definition PROT_SOCK :: u16 where "PROT_SOCK = 1024"
definition sizeof_sockaddr_nin :: int where "sizeof_sockaddr_nin = 16"

text \<open>struct sockaddr_nin; the port is in network order.\<close>

record sockaddr_nin =
  sin_family :: u16
  sin_port :: u16
  sin_addr :: nip_addr

abbreviation sid_of :: "sock_world \<Rightarrow> sid \<Rightarrow> hsock" where "sid_of w s \<equiv> h_socks (sw_hash w) s"

definition upd_id :: "sid \<Rightarrow> (hsock \<Rightarrow> hsock) \<Rightarrow> sock_world \<Rightarrow> sock_world" where
  "upd_id s f w = w\<lparr>sw_hash := upd_sock (sw_hash w) s f\<rparr>"

definition upd_ss :: "(stream_sock \<Rightarrow> stream_sock) \<Rightarrow> sock_world \<Rightarrow> sock_world" where
  "upd_ss f w = w\<lparr>sw_ss := f (sw_ss w)\<rparr>"

text \<open>sk_dst_set and sk_dst_reset release the route the socket had.\<close>

definition sk_dst_set :: "rt_id option \<Rightarrow> sock_world \<Rightarrow> sock_world" where
  "sk_dst_set r w = w\<lparr>sw_ss := (sw_ss w)\<lparr>ss_dst := r\<rparr>, sw_net := opt_do dst_release (ss_dst (sw_ss w)) (sw_net w)\<rparr>"

text \<open>tcp_set_state to TCP_CLOSE: the socket leaves the tables and gives back a port it did not bind itself.\<close>

definition close_state :: "hash_env \<Rightarrow> sid \<Rightarrow> sock_world \<Rightarrow> sock_world" where
  "close_state e s w =
    (let h = upd_sock (ninet_unhash e (sw_hash w) s) s (\<lambda>k. k\<lparr>hs_state := TCP_CLOSE\<rparr>);
         h = (if hs_num (h_socks h s) \<noteq> 0 \<and> \<not> ss_port_locked (sw_ss w) then upd_sock h s (\<lambda>k. k\<lparr>hs_num := 0\<rparr>) else h)
     in w\<lparr>sw_hash := h, sw_ss := (sw_ss w)\<lparr>ss_sk := (ss_sk (sw_ss w))\<lparr>sk_state := TCP_CLOSE\<rparr>\<rparr>\<rparr>)"

section \<open>bind, listen, getname\<close>

definition ninet_bind :: "sock_env \<Rightarrow> int \<Rightarrow> sockaddr_nin \<Rightarrow> sid \<Rightarrow> sock_world \<Rightarrow> (int \<times> sock_world) option" where
  "ninet_bind e addr_len addr s w =
    (let snum = ntohs (sin_port addr) in
     if addr_len < sizeof_sockaddr_nin then Some (- EINVAL, w)
     else if snum \<noteq> 0 \<and> snum < PROT_SOCK then Some (- EACCES, w)
     else do {
       ok \<leftarrow> nip_bind_addr_check (se_h32 e) (sin_addr addr) (sw_net w);
       Some (if \<not> ok then (- EADDRNOTAVAIL, w)
         else if sk_state (ss_sk (sw_ss w)) \<noteq> TCP_CLOSE \<or> hs_num (sid_of w s) \<noteq> 0 then (- EINVAL, w)
         else
           let w = upd_id s (\<lambda>k. k\<lparr>hs_rcv_saddr := sin_addr addr\<rparr>) w;
               (err, h) = (if snum \<noteq> 0 \<or> \<not> ss_no_port (sw_ss w) then inet_csk_get_port e (sw_hash w) s snum else (0, sw_hash w));
               w = w\<lparr>sw_hash := h\<rparr>
           in if err \<noteq> 0 then (- EADDRINUSE, w)
              else (0, sk_dst_set None (upd_id s (\<lambda>k. k\<lparr>hs_sport := htons (hs_num k), hs_dport := 0\<rparr>) w)))
     })"

text \<open>The kernel's inet_csk_listen_start sets the state and hashes the socket.\<close>

definition ninet_listen :: "sock_env \<Rightarrow> int \<Rightarrow> sid \<Rightarrow> sock_world \<Rightarrow> int \<times> sock_world" where
  "ninet_listen e backlog s w =
    (let ss = sw_ss w; old_state = sk_state (ss_sk ss) in
     if ss_state ss \<noteq> SS_UNCONNECTED \<or> ss_type ss \<noteq> SOCK_STREAM then (- EINVAL, w)
     else if old_state \<noteq> TCP_CLOSE \<and> old_state \<noteq> TCP_LISTEN then (- EINVAL, w)
     else
       let w = upd_ss (\<lambda>ss. ss\<lparr>ss_max_ack_backlog := backlog\<rparr>) w in
       if old_state = TCP_LISTEN then (0, w)
       else
         let (err, h) = inet_csk_listen_start e backlog (sw_hash w) s;
             w = w\<lparr>sw_hash := h, sw_ss := (sw_ss w)\<lparr>ss_sk := (ss_sk (sw_ss w))\<lparr>sk_state := hs_state (h_socks h s)\<rparr>\<rparr>\<rparr>
         in (err, w))"

text \<open>peer is 0 for the name of the socket, 1 or 2 for its peer.\<close>

definition ninet_getname :: "nat \<Rightarrow> sid \<Rightarrow> sock_world \<Rightarrow> int \<times> sockaddr_nin option" where
  "ninet_getname peer s w =
    (let k = sid_of w s; st = sk_state (ss_sk (sw_ss w)) in
     if peer \<noteq> 0 then
       if hs_dport k = 0 then (- ENOTCONN, None)
       else if (st = TCP_CLOSE \<or> st = TCP_SYN_SENT) \<and> peer = 1 then (- ENOTCONN, None)
       else (sizeof_sockaddr_nin, Some \<lparr>sin_family = AF_NINET, sin_port = hs_dport k, sin_addr = hs_daddr k\<rparr>)
     else (sizeof_sockaddr_nin, Some \<lparr>sin_family = AF_NINET, sin_port = hs_sport k, sin_addr = hs_rcv_saddr k\<rparr>))"

section \<open>connect\<close>

definition connect_failure :: "int \<Rightarrow> sid \<Rightarrow> sock_world \<Rightarrow> int \<times> sock_world" where
  "connect_failure err s w = (err, upd_ss (\<lambda>ss. ss\<lparr>ss_route_caps := 0\<rparr>) (upd_id s (\<lambda>k. k\<lparr>hs_dport := 0\<rparr>) w))"

text \<open>tcp_nip_connect. At its label failure the route found for the flow is not released.\<close>

definition connect_start :: "sock_env \<Rightarrow> sockaddr_nin \<Rightarrow> rt_id \<Rightarrow> sid \<Rightarrow> sock_world \<Rightarrow> sock_world" where
  "connect_start e addr r s w =
    sk_dst_set (Some r)
     (upd_ss (\<lambda>ss. ss\<lparr>ss_ext_hdr_len := (case ss_optlen ss of None \<Rightarrow> 0 | Some n \<Rightarrow> n), ss_txhash := se_txhash e,
        ss_sk := (ss_sk ss)\<lparr>sk_state := TCP_SYN_SENT\<rparr>\<rparr>)
       (upd_id s (\<lambda>k. k\<lparr>hs_dport := sin_port addr, hs_daddr := sin_addr addr, hs_state := TCP_SYN_SENT\<rparr>) w))"

definition connect_isn :: "sock_env \<Rightarrow> sid \<Rightarrow> sock_world \<Rightarrow> u32 option" where
  "connect_isn e s w =
    (let k = sid_of w s in
     secure_tcp_nip_sequence_number (se_hash e) (field8 (hs_rcv_saddr k) @ se_rcv_mem e) (field8 (hs_daddr k) @ se_daddr_mem e) (hs_sport k) (hs_dport k))"

definition reset_inherited :: "stream_sock \<Rightarrow> stream_sock" where
  "reset_inherited ss =
    (if ss_ts_recent_stamp ss = 0 then ss
     else ss\<lparr>ss_ts_recent := 0, ss_ts_recent_stamp := 0, ss_sk := (if ss_repair ss then ss_sk ss else (ss_sk ss)\<lparr>write_seq := 0\<rparr>)\<rparr>)"

definition connect_syn :: "sock_env \<Rightarrow> sid \<Rightarrow> sock_world \<Rightarrow> (int \<times> sock_world) option" where
  "connect_syn e s w =
    (let ss = reset_inherited (sw_ss w); sk = ss_sk ss in do {
       isn \<leftarrow> (if write_seq sk = 0 then connect_isn e s w else Some (write_seq sk));
       let (err, sk) = tcp_nip_send_syn (se_tcp e) (se_syn_alloc e) (sk\<lparr>write_seq := isn\<rparr>);
           w = w\<lparr>sw_ss := ss\<lparr>ss_sk := sk, ss_inet_id := ucast (se_random e)\<rparr>\<rparr>
       in Some (if err \<noteq> 0 then connect_failure err s (close_state (se_hash e) s w) else (0, w))
     })"

text \<open>The source address of the flow; then the checks of the addresses, the port and the SYN.\<close>

definition connect_source :: "nip_addr \<Rightarrow> sid \<Rightarrow> sock_world \<Rightarrow> sock_world" where
  "connect_source saddr s w =
    (if nip_addr_eq (hs_rcv_saddr (sid_of w s)) nip_any_addr then upd_id s (\<lambda>k. k\<lparr>hs_rcv_saddr := saddr\<rparr>) w else w)"

definition connect_flow :: "sock_env \<Rightarrow> sockaddr_nin \<Rightarrow> rt_id \<Rightarrow> nip_addr \<Rightarrow> sid \<Rightarrow> sock_world \<Rightarrow> (int \<times> sock_world) option" where
  "connect_flow e addr r daddr s w =
    (if nip_addr_invalid daddr \<noteq> CURRENT_ADDR_VALID then Some (connect_failure (- EFAULT) s w)
     else if nip_addr_invalid (hs_rcv_saddr (sid_of w s)) \<noteq> CURRENT_ADDR_VALID then Some (connect_failure (- EFAULT) s w)
     else
       let w = connect_start e addr r s w in do {
         (err, h) \<leftarrow> ninet_hash_connect (se_hash e) (inet_hash_connect e) (sw_hash w) s (se_rcv_mem e) (se_daddr_mem e);
         let w = w\<lparr>sw_hash := h\<rparr> in
         if err \<noteq> 0 then Some (connect_failure err s (close_state (se_hash e) s w)) else connect_syn e s w
       })"

definition tcp_nip_connect :: "sock_env \<Rightarrow> int \<Rightarrow> sockaddr_nin \<Rightarrow> sid \<Rightarrow> sock_world \<Rightarrow> (int \<times> sock_world) option" where
  "tcp_nip_connect e addr_len addr s w =
    (if addr_len < sizeof_sockaddr_nin then Some (- EINVAL, w)
     else if sin_family addr \<noteq> AF_NINET then Some (- EAFNOSUPPORT, w)
     else do {
       (res, net) \<leftarrow> nip_dst_lookup_flow (se_h32 e) (se_cpu e) (se_new_rt e) (sin_addr addr) (se_stack_saddr e) (hs_bound_dev_if (sid_of w s))
         None (sw_net w);
       let w = w\<lparr>sw_net := net\<rparr> in
       (case res of
          Inl err \<Rightarrow> Some (connect_failure err s w)
        | Inr (r, saddr, daddr) \<Rightarrow> connect_flow e addr r daddr s (connect_source saddr s w))
     })"

text \<open>The steps of ninet_wait_for_connect: what the world does while the caller sleeps, the time that is left and whether a signal
  is pending. Without another step the caller is still asleep (None).\<close>

record wake =
  wk_world :: "sock_world \<Rightarrow> sock_world"
  wk_timeo :: int
  wk_signal :: bool

definition syn_pending :: "sock_world \<Rightarrow> bool" where
  "syn_pending w \<longleftrightarrow> sk_state (ss_sk (sw_ss w)) = TCP_SYN_SENT \<or> sk_state (ss_sk (sw_ss w)) = TCP_SYN_RECV"

fun ninet_wait_for_connect :: "wake list \<Rightarrow> int \<Rightarrow> sock_world \<Rightarrow> (int \<times> bool \<times> sock_world) option" where
  "ninet_wait_for_connect [] timeo w = (if syn_pending w then None else Some (timeo, False, w))"
| "ninet_wait_for_connect (k # ks) timeo w =
    (if \<not> syn_pending w then Some (timeo, False, w)
     else if wk_signal k \<or> wk_timeo k = 0 then Some (wk_timeo k, wk_signal k, wk_world k w)
     else ninet_wait_for_connect ks (wk_timeo k) (wk_world k w))"

definition MAX_SCHEDULE_TIMEOUT :: int where "MAX_SCHEDULE_TIMEOUT = 2 ^ 63 - 1"
definition ERESTARTSYS :: int where "ERESTARTSYS = 512"
definition EINTR :: int where "EINTR = 4"

definition sock_intr_errno :: "int \<Rightarrow> int" where
  "sock_intr_errno timeo = (if timeo = MAX_SCHEDULE_TIMEOUT then - ERESTARTSYS else - EINTR)"

definition set_ss_state :: "socket_state \<Rightarrow> sock_world \<Rightarrow> sock_world" where
  "set_ss_state st = upd_ss (\<lambda>ss. ss\<lparr>ss_state := st\<rparr>)"

text \<open>__ninet_stream_connect; timeo is 0 for a non-blocking socket, otherwise its sending timeout.\<close>

definition connect_finish :: "sock_world \<Rightarrow> int \<times> sock_world" where
  "connect_finish w =
    (let sk = ss_sk (sw_ss w) in
     if sk_state sk = TCP_CLOSE then
       (if sk_err sk \<noteq> 0 then - sk_err sk else - ECONNABORTED,
        set_ss_state SS_DISCONNECTING (upd_ss (\<lambda>ss. ss\<lparr>ss_sk := (ss_sk ss)\<lparr>sk_err := 0\<rparr>\<rparr>) w))
     else (0, set_ss_state SS_CONNECTED w))"

definition connect_wait :: "wake list \<Rightarrow> int \<Rightarrow> int \<Rightarrow> sock_world \<Rightarrow> (int \<times> sock_world) option" where
  "connect_wait ks timeo err w =
    (if \<not> syn_pending w then Some (connect_finish w)
     else if timeo = 0 then Some (err, w)
     else do {
       (timeo, sig, w) \<leftarrow> ninet_wait_for_connect ks timeo w;
       Some (if timeo = 0 then (err, w) else if sig then (sock_intr_errno timeo, w) else connect_finish w)
     })"

definition stream_connect_locked ::
  "sock_env \<Rightarrow> wake list \<Rightarrow> int \<Rightarrow> int \<Rightarrow> sockaddr_nin \<Rightarrow> sid \<Rightarrow> sock_world \<Rightarrow> (int \<times> sock_world) option" where
  "stream_connect_locked e ks timeo addr_len addr s w =
    (if addr_len < 2 then Some (- EINVAL, w)
     else case ss_state (sw_ss w) of
         SS_CONNECTED \<Rightarrow> Some (- EISCONN, w)
       | SS_CONNECTING \<Rightarrow> connect_wait ks timeo (- EALREADY) w
       | SS_UNCONNECTED \<Rightarrow>
         if sk_state (ss_sk (sw_ss w)) \<noteq> TCP_CLOSE then Some (- EISCONN, w)
         else do {
           (err, w) \<leftarrow> tcp_nip_connect e addr_len addr s w;
           if err < 0 then Some (err, w) else connect_wait ks timeo (- EINPROGRESS) (set_ss_state SS_CONNECTING w)
         }
       | _ \<Rightarrow> Some (- EINVAL, w))"

definition ninet_stream_connect ::
  "sock_env \<Rightarrow> wake list \<Rightarrow> int \<Rightarrow> int \<Rightarrow> sockaddr_nin \<Rightarrow> sid \<Rightarrow> sock_world \<Rightarrow> (int \<times> sock_world) option" where
  "ninet_stream_connect e ks timeo addr_len addr s w = stream_connect_locked e ks timeo addr_len addr s w"

section \<open>ioctl and socket options\<close>

text \<open>A command with what copy_from_user got (None when it failed); the other commands go to the protocol, if it has ioctl.\<close>

datatype ninet_cmd = Route_cmd route_cmd "nip_rtmsg option" | SIOCSIFADDR "(nip_addr \<times> nat) option" | SIOCDIFADDR "(nip_addr \<times> nat) option"
  | SIOCGIFADDR bool "nat option" bool | Other_cmd "int option"

definition ENOIOCTLCMD :: int where "ENOIOCTLCMD = 515"

definition ninet_ioctl ::
  "hash32 \<Rightarrow> rt_id option \<Rightarrow> bool \<Rightarrow> bool \<Rightarrow> lft_ops \<Rightarrow> addr_allocs \<Rightarrow> bool \<Rightarrow> ninet_cmd \<Rightarrow> netns_newip
    \<Rightarrow> (int \<times> nip_addr option \<times> netns_newip) option" where
  "ninet_ioctl h32 new pcpu_ok node_ok ops al admin cmd net =
    (case cmd of
       Route_cmd c None \<Rightarrow> Some (- EFAULT, None, net)
     | Route_cmd c (Some m) \<Rightarrow> map_option (\<lambda>(err, net). (err, None, net)) (nip_route_ioctl h32 new pcpu_ok node_ok admin c m net)
     | SIOCSIFADDR ireq \<Rightarrow> map_option (\<lambda>(err, net). (err, None, net)) (nip_addrconf_add_ifaddr h32 ops al admin ireq net)
     | SIOCDIFADDR ireq \<Rightarrow> (let (err, net) = nip_addrconf_del_ifaddr admin ireq net in Some (err, None, net))
     | SIOCGIFADDR in_ok dev out_ok \<Rightarrow> (let (err, a) = nip_addrconf_get_ifaddr in_ok True dev out_ok net in Some (err, a, net))
     | Other_cmd r \<Rightarrow> Some (case r of None \<Rightarrow> - ENOIOCTLCMD | Some r \<Rightarrow> r, None, net))"

text \<open>struct compat_nip_rtmsg: the message of a 32-bit process, whose rtmsg_info is an unsigned int.\<close>

record compat_nip_rtmsg =
  c_dst :: nip_addr
  c_src :: nip_addr
  c_gateway :: nip_addr
  c_ifindex :: nat
  c_metric :: u32
  c_info :: u32
  c_flags :: u32

definition compat_rtmsg :: "compat_nip_rtmsg \<Rightarrow> nip_rtmsg" where
  "compat_rtmsg m = \<lparr>rtmsg_dst = c_dst m, rtmsg_src = c_src m, rtmsg_gateway = c_gateway m, rtmsg_ifindex = c_ifindex m, rtmsg_metric = c_metric m,
     rtmsg_info = unat (c_info m), rtmsg_flags = c_flags m\<rparr>"

definition ninet_compat_ioctl ::
  "hash32 \<Rightarrow> rt_id option \<Rightarrow> bool \<Rightarrow> bool \<Rightarrow> bool \<Rightarrow> route_cmd \<Rightarrow> compat_nip_rtmsg option \<Rightarrow> netns_newip \<Rightarrow> (int \<times> netns_newip) option" where
  "ninet_compat_ioctl h32 new pcpu_ok node_ok admin cmd ur net =
    (if cmd = SIOC_OTHER then Some (- ENOIOCTLCMD, net)
     else case ur of None \<Rightarrow> Some (- EFAULT, net)
       | Some m \<Rightarrow> nip_route_ioctl h32 new pcpu_ok node_ok admin cmd (compat_rtmsg m) net)"

text \<open>The options of nip_sockglue.c. The user's buffer is its bytes, None when it can not be read; the kernel's table maps a TOS to a
  priority.\<close>

definition SOL_IP :: int where "SOL_IP = 0"
definition IP_TOS :: int where "IP_TOS = 1"
definition ENOPROTOOPT :: int where "ENOPROTOOPT = 92"
definition EOPNOTSUPP :: int where "EOPNOTSUPP = 95"

record sock_opts =
  so_tos :: u8
  so_priority :: int
  so_has_dst :: bool

definition rd_int32 :: "bytes \<Rightarrow> u32" where
  "rd_int32 b = or (ucast (b ! 0)) (or (push_bit 8 (ucast (b ! 1))) (or (push_bit 16 (ucast (b ! 2))) (push_bit 24 (ucast (b ! 3)))))"

definition nip_setsockopt :: "(u32 \<Rightarrow> int) \<Rightarrow> int \<Rightarrow> int \<Rightarrow> bytes option \<Rightarrow> nat \<Rightarrow> sock_opts \<Rightarrow> int \<times> sock_opts" where
  "nip_setsockopt tos2priority level optname optval optlen so =
    (if level \<noteq> SOL_IP then (- ENOPROTOOPT, so)
     else if optlen \<ge> 1 \<and> optval = None then (- EFAULT, so)
     else
       let b = (case optval of None \<Rightarrow> [] | Some b \<Rightarrow> b);
           val = (if optlen \<ge> 4 then rd_int32 b else if optlen \<ge> 1 then ucast (b ! 0) else 0)
       in if optname = IP_TOS then (0, so\<lparr>so_tos := ucast val, so_priority := tos2priority val, so_has_dst := False\<rparr>) else (- ENOPROTOOPT, so))"

text \<open>What getsockopt writes: the new length and the bytes. put_ok and copy_ok tell whether the user's memory can be written.\<close>

definition nip_getsockopt :: "int \<Rightarrow> int \<Rightarrow> int option \<Rightarrow> bool \<Rightarrow> bool \<Rightarrow> sock_opts \<Rightarrow> int \<times> int option \<times> bytes" where
  "nip_getsockopt level optname optlen put_ok copy_ok so =
    (if level \<noteq> SOL_IP then (- EOPNOTSUPP, None, [])
     else case optlen of None \<Rightarrow> (- EFAULT, None, [])
       | Some len \<Rightarrow>
         if len < 0 then (- EINVAL, None, [])
         else if optname \<noteq> IP_TOS then (- ENOPROTOOPT, None, [])
         else
           let val = so_tos so; (len, out) = (if len < 4 \<and> len > 0 then (1, [val]) else (min 4 len, take (nat (min 4 len)) [val, 0, 0, 0]))
           in if \<not> put_ok then (- EFAULT, None, [])
              else if \<not> copy_ok then (- EFAULT, Some len, [])
              else (0, Some len, out))"

section \<open>Initialisation\<close>

text \<open>What ninet_init registers with the kernel, one value per call, and the tables of the stack it fills. A call of the kernel fails
  with an error number, 0 when it succeeds; an allocation has failed when its number is not 0.\<close>

datatype kernel_reg = Tcp_prot | Udp_prot | Family | Ninet_net_ops | Nnd_tbl | Dst_cache | Route_net_ops | Fib_node_cache | Fib_net_ops
  | Route_late_ops | Route_dev_notifier | Proc_net_ops | Nip_dev_notf | Packet_type | Ehashfn_hook | Gifconf_hook

type_synonym kernel_errs = "kernel_reg \<Rightarrow> nat"

record init_state =
  is_reg :: "kernel_reg list"
  is_protos :: ninet_protos
  is_sw :: protosw_table

definition tcp_nip_init :: "init_state \<Rightarrow> int \<times> init_state" where
  "tcp_nip_init st =
    (let (ret, protos) = ninet_add_protocol nip_tcp_protocol 6 (is_protos st) in
     if ret \<noteq> 0 then (ret, st)
     else
       let (ret, sw) = ninet_register_protosw tcp_nip_protosw (is_sw st) in
       if ret \<noteq> 0 then (ret, st\<lparr>is_protos := snd (ninet_del_protocol nip_tcp_protocol 6 protos)\<rparr>)
       else (0, st\<lparr>is_protos := protos, is_sw := sw\<rparr>))"

definition tcp_nip_exit :: "init_state \<Rightarrow> init_state" where
  "tcp_nip_exit st = st\<lparr>is_sw := ninet_unregister_protosw tcp_nip_protosw (is_sw st),
     is_protos := snd (ninet_del_protocol nip_tcp_protocol 6 (is_protos st))\<rparr>"

definition nip_udp_init :: "init_state \<Rightarrow> int \<times> init_state" where
  "nip_udp_init st =
    (let (ret, protos) = ninet_add_protocol nip_udp_protocol 17 (is_protos st) in
     if ret \<noteq> 0 then (ret, st)
     else
       let (ret, sw) = ninet_register_protosw nip_udp_protosw (is_sw st) in
       if ret \<noteq> 0 then (ret, st\<lparr>is_protos := snd (ninet_del_protocol nip_udp_protocol 17 protos)\<rparr>)
       else (0, st\<lparr>is_protos := protos, is_sw := sw\<rparr>))"

definition nip_udp_exit :: "init_state \<Rightarrow> init_state" where
  "nip_udp_exit st = st\<lparr>is_sw := ninet_unregister_protosw nip_udp_protosw (is_sw st),
     is_protos := snd (ninet_del_protocol nip_udp_protocol 17 (is_protos st))\<rparr>"

definition reg :: "kernel_reg \<Rightarrow> init_state \<Rightarrow> init_state" where "reg x st = st\<lparr>is_reg := is_reg st @ [x]\<rparr>"
definition unreg :: "kernel_reg \<Rightarrow> init_state \<Rightarrow> init_state" where "unreg x st = st\<lparr>is_reg := removeAll x (is_reg st)\<rparr>"

definition try_reg :: "kernel_errs \<Rightarrow> kernel_reg \<Rightarrow> init_state \<Rightarrow> int \<times> init_state" where
  "try_reg errno x st = (- int (errno x), if errno x = 0 then reg x st else st)"

definition nip_icmp_init :: "init_state \<Rightarrow> int \<times> init_state" where
  "nip_icmp_init st =
    (let (ret, protos) = ninet_add_protocol nip_icmp_protocol 0xB1 (is_protos st) in (ret, st\<lparr>is_protos := protos\<rparr>))"

definition nndisc_init :: "init_state \<Rightarrow> int \<times> init_state" where
  "nndisc_init st = (0, reg Nnd_tbl st)"

definition nip_fib_init :: "kernel_errs \<Rightarrow> init_state \<Rightarrow> int \<times> init_state" where
  "nip_fib_init errno st =
    (if errno Fib_node_cache \<noteq> 0 then (- ENOMEM, st)
     else
       let st = reg Fib_node_cache st; (ret, st) = try_reg errno Fib_net_ops st in
       if ret \<noteq> 0 then (ret, unreg Fib_node_cache st) else (0, st))"

definition nip_fib_gc_cleanup :: "init_state \<Rightarrow> init_state" where
  "nip_fib_gc_cleanup = unreg Fib_node_cache \<circ> unreg Fib_net_ops"

definition nip_route_init :: "kernel_errs \<Rightarrow> init_state \<Rightarrow> int \<times> init_state" where
  "nip_route_init errno st =
    (let out_kmem_cache = unreg Dst_cache; out_register_subsys = out_kmem_cache \<circ> unreg Route_net_ops;
         out_nip_fib_init = out_register_subsys \<circ> nip_fib_gc_cleanup; out_register_late_subsys = out_nip_fib_init \<circ> unreg Route_late_ops in
     if errno Dst_cache \<noteq> 0 then (- ENOMEM, st)
     else let st = reg Dst_cache st; (ret, st) = try_reg errno Route_net_ops st in if ret \<noteq> 0 then (ret, out_kmem_cache st)
     else let (ret, st) = nip_fib_init errno st in if ret \<noteq> 0 then (ret, out_register_subsys st)
     else let (ret, st) = try_reg errno Route_late_ops st in if ret \<noteq> 0 then (ret, out_nip_fib_init st)
     else let (ret, st) = try_reg errno Route_dev_notifier st in if ret \<noteq> 0 then (ret, out_register_late_subsys st)
     else (0, st))"

text \<open>nip_route_cleanup does not unregister the notifier.\<close>

definition nip_route_cleanup :: "init_state \<Rightarrow> init_state" where
  "nip_route_cleanup = unreg Dst_cache \<circ> unreg Route_net_ops \<circ> nip_fib_gc_cleanup \<circ> unreg Route_late_ops"

text \<open>The result of the second registration is ignored.\<close>

definition nip_addrconf_init :: "kernel_errs \<Rightarrow> init_state \<Rightarrow> int \<times> init_state" where
  "nip_addrconf_init errno st =
    (let (err, st) = try_reg errno Proc_net_ops st in if err < 0 then (err, st) else (err, snd (try_reg errno Nip_dev_notf st)))"

text \<open>The registrations undone by nip_addrconf_cleanup; its loop over the devices is NipAddrconf.nip_addrconf_cleanup.\<close>

definition addrconf_unregister :: "init_state \<Rightarrow> init_state" where
  "addrconf_unregister = unreg Proc_net_ops \<circ> unreg Nip_dev_notf"

definition nip_packet_init :: "init_state \<Rightarrow> int \<times> init_state" where
  "nip_packet_init st = (0, reg Packet_type st)"

definition ninet_hooks_register :: "kernel_errs \<Rightarrow> init_state \<Rightarrow> int \<times> init_state" where
  "ninet_hooks_register errno st =
    (let (ret, st) = try_reg errno Ehashfn_hook st in if ret \<noteq> 0 then (-1, st)
     else let (ret, st) = try_reg errno Gifconf_hook st in if ret \<noteq> 0 then (-1, st)
     else (0, st))"

text \<open>The labels of ninet_init.\<close>

definition out_sock_register_fail :: "init_state \<Rightarrow> init_state" where "out_sock_register_fail = unreg Udp_prot"
definition register_pernet_fail :: "init_state \<Rightarrow> init_state" where "register_pernet_fail = out_sock_register_fail \<circ> unreg Family"
definition nip_icmp_fail :: "init_state \<Rightarrow> init_state" where "nip_icmp_fail = register_pernet_fail \<circ> unreg Ninet_net_ops"
definition nip_addr_fail :: "init_state \<Rightarrow> init_state" where "nip_addr_fail = nip_icmp_fail \<circ> nip_route_cleanup"
definition udp_fail :: "init_state \<Rightarrow> init_state" where "udp_fail = nip_addr_fail \<circ> addrconf_unregister"
definition tcp_fail :: "init_state \<Rightarrow> init_state" where "tcp_fail = udp_fail \<circ> nip_udp_exit"
definition nip_packet_fail :: "init_state \<Rightarrow> init_state" where "nip_packet_fail = tcp_fail \<circ> tcp_nip_exit"

text \<open>enabled: the module is not disabled; hooks: CONFIG_NEWIP_HOOKS.\<close>

definition ninet_init :: "bool \<Rightarrow> bool \<Rightarrow> kernel_errs \<Rightarrow> int \<times> init_state" where
  "ninet_init enabled hooks errno =
    (let st = \<lparr>is_reg = [], is_protos = Map.empty, is_sw = (\<lambda>_. [])\<rparr> in
     if \<not> enabled then (0, st)
     else let (err, st) = try_reg errno Tcp_prot st in if err \<noteq> 0 then (err, st)
     else let (err, st) = try_reg errno Udp_prot st in if err \<noteq> 0 then (err, st)
     else let (err, st) = try_reg errno Family st in if err \<noteq> 0 then (err, out_sock_register_fail st)
     else let (err, st) = try_reg errno Ninet_net_ops st in if err \<noteq> 0 then (err, register_pernet_fail st)
     else let (err, st) = nip_icmp_init st in if err \<noteq> 0 then (err, nip_icmp_fail st)
     else let (err, st) = nndisc_init st in if err \<noteq> 0 then (err, nip_icmp_fail st)
     else let (err, st) = nip_route_init errno st in if err \<noteq> 0 then (err, nip_icmp_fail st)
     else let (err, st) = nip_addrconf_init errno st in if err \<noteq> 0 then (err, nip_addr_fail st)
     else let (err, st) = nip_udp_init st in if err \<noteq> 0 then (err, udp_fail st)
     else let (err, st) = tcp_nip_init st in if err \<noteq> 0 then (err, tcp_fail st)
     else let (err, st) = nip_packet_init st in if err \<noteq> 0 then (err, nip_packet_fail st)
     else let (err, st) = (if hooks then ninet_hooks_register errno st else (0, st)) in if err \<noteq> 0 then (err, nip_packet_fail st)
     else (0, st))"

section \<open>What initialisation leaves behind\<close>

definition init_order :: "bool \<Rightarrow> kernel_reg list" where
  "init_order hooks = [Tcp_prot, Udp_prot, Family, Ninet_net_ops, Nnd_tbl, Dst_cache, Route_net_ops, Fib_node_cache, Fib_net_ops,
     Route_late_ops, Route_dev_notifier, Proc_net_ops, Nip_dev_notf, Packet_type] @ (if hooks then [Ehashfn_hook, Gifconf_hook] else [])"

text \<open>The calls whose failure stops ninet_init, the first one that fails, and the error it is reported with.\<close>

definition can_stop :: "kernel_reg \<Rightarrow> bool" where "can_stop x \<longleftrightarrow> x \<noteq> Nnd_tbl \<and> x \<noteq> Packet_type \<and> x \<noteq> Nip_dev_notf"

definition first_failure :: "bool \<Rightarrow> kernel_errs \<Rightarrow> kernel_reg option" where
  "first_failure hooks errno = List.find (\<lambda>x. can_stop x \<and> errno x \<noteq> 0) (init_order hooks)"

definition init_error :: "kernel_errs \<Rightarrow> kernel_reg \<Rightarrow> int" where
  "init_error errno x =
    (if x = Dst_cache \<or> x = Fib_node_cache then - ENOMEM else if x = Ehashfn_hook \<or> x = Gifconf_hook then -1 else - int (errno x))"

text \<open>The registrations ninet_init makes when no call stops it.\<close>

definition comes_up :: "kernel_errs \<Rightarrow> kernel_reg \<Rightarrow> bool" where
  "comes_up errno x = (if x = Nip_dev_notf then errno x = 0 else True)"

text \<open>The registrations that no label undoes.\<close>

definition never_undone :: "kernel_reg \<Rightarrow> bool" where
  "never_undone x \<longleftrightarrow> x = Tcp_prot \<or> x = Nnd_tbl \<or> x = Route_dev_notifier \<or> x = Packet_type \<or> x = Ehashfn_hook"

definition ready_protos :: ninet_protos where
  "ready_protos = [0xB1 \<mapsto> nip_icmp_protocol, 17 \<mapsto> nip_udp_protocol, 6 \<mapsto> nip_tcp_protocol]"

definition ready_sw :: protosw_table where
  "ready_sw = (\<lambda>_. [])(SOCK_DGRAM := [nip_udp_protosw], SOCK_STREAM := [tcp_nip_protosw])"

lemma find_first:
  "List.find P xs = Some x \<Longrightarrow> x \<in> set xs \<and> P x \<and> (\<forall>y \<in> set (takeWhile (\<lambda>y. y \<noteq> x) xs). \<not> P y)"
proof (induct xs)
  case (Cons a xs)
  show ?case
  proof (cases "P a")
    case True
    then have "x = a" using Cons(2) by simp
    then show ?thesis using True by simp
  next
    case False
    have f: "List.find P xs = Some x" using Cons(2) False by (simp only: List.find.simps if_False)
    show ?thesis using Cons(1) [OF f] False by (cases "a = x") simp_all
  qed
qed simp

lemma transport_init:
  "nip_udp_init \<lparr>is_reg = R, is_protos = [0xB1 \<mapsto> nip_icmp_protocol], is_sw = (\<lambda>_. [])\<rparr> =
    (0, \<lparr>is_reg = R, is_protos = [0xB1 \<mapsto> nip_icmp_protocol, 17 \<mapsto> nip_udp_protocol], is_sw = (\<lambda>_. [])(SOCK_DGRAM := [nip_udp_protosw])\<rparr>)"
  "tcp_nip_init \<lparr>is_reg = R, is_protos = [0xB1 \<mapsto> nip_icmp_protocol, 17 \<mapsto> nip_udp_protocol], is_sw = (\<lambda>_. [])(SOCK_DGRAM := [nip_udp_protosw])\<rparr> =
    (0, \<lparr>is_reg = R, is_protos = ready_protos, is_sw = ready_sw\<rparr>)"
  by (simp_all add: nip_udp_init_def tcp_nip_init_def ninet_add_protocol_def ninet_register_protosw_def Let_def ready_protos_def ready_sw_def
      tcp_nip_protosw_def nip_udp_protosw_def SOCK_MAX_def SOCK_STREAM_def SOCK_DGRAM_def)

lemma transport_exit:
  "nip_udp_exit (tcp_nip_exit \<lparr>is_reg = R, is_protos = ready_protos, is_sw = ready_sw\<rparr>) =
    \<lparr>is_reg = R, is_protos = [0xB1 \<mapsto> nip_icmp_protocol], is_sw = ready_sw\<rparr>"
  by (simp add: nip_udp_exit_def tcp_nip_exit_def ninet_del_protocol_def ninet_unregister_protosw_def tcp_nip_protosw_def nip_udp_protosw_def
      ready_protos_def fun_eq_iff)

lemma icmp_init:
  "nip_icmp_init \<lparr>is_reg = R, is_protos = Map.empty, is_sw = sw\<rparr> = (0, \<lparr>is_reg = R, is_protos = [0xB1 \<mapsto> nip_icmp_protocol], is_sw = sw\<rparr>)"
  by (simp add: nip_icmp_init_def ninet_add_protocol_def)

lemmas init_steps = ninet_init_def nndisc_init_def nip_addrconf_init_def nip_packet_init_def ninet_hooks_register_def

lemma try_reg_simps:
  "errno x = 0 \<Longrightarrow> try_reg errno x \<lparr>is_reg = R, is_protos = P, is_sw = S\<rparr> = (0, \<lparr>is_reg = R @ [x], is_protos = P, is_sw = S\<rparr>)"
  "errno x \<noteq> 0 \<Longrightarrow> try_reg errno x st = (- int (errno x), st)"
  by (simp_all add: try_reg_def reg_def)

lemma reg_simps:
  "reg x \<lparr>is_reg = R, is_protos = P, is_sw = S\<rparr> = \<lparr>is_reg = R @ [x], is_protos = P, is_sw = S\<rparr>"
  "unreg x \<lparr>is_reg = R, is_protos = P, is_sw = S\<rparr> = \<lparr>is_reg = removeAll x R, is_protos = P, is_sw = S\<rparr>"
  by (simp_all add: reg_def unreg_def)

lemmas init_labels = out_sock_register_fail_def register_pernet_fail_def nip_icmp_fail_def nip_addr_fail_def udp_fail_def tcp_fail_def
  nip_packet_fail_def nip_route_cleanup_def nip_fib_gc_cleanup_def addrconf_unregister_def

text \<open>nip_route_init undoes its own steps when one of them fails.\<close>

lemma route_init:
  "nip_route_init errno \<lparr>is_reg = [Tcp_prot, Udp_prot, Family, Ninet_net_ops, Nnd_tbl], is_protos = P, is_sw = S\<rparr> =
    (case List.find (\<lambda>x. errno x \<noteq> 0) [Dst_cache, Route_net_ops, Fib_node_cache, Fib_net_ops, Route_late_ops, Route_dev_notifier] of
       None \<Rightarrow> (0, \<lparr>is_reg = [Tcp_prot, Udp_prot, Family, Ninet_net_ops, Nnd_tbl, Dst_cache, Route_net_ops, Fib_node_cache, Fib_net_ops,
         Route_late_ops, Route_dev_notifier], is_protos = P, is_sw = S\<rparr>)
     | Some x \<Rightarrow> (init_error errno x, \<lparr>is_reg = [Tcp_prot, Udp_prot, Family, Ninet_net_ops, Nnd_tbl], is_protos = P, is_sw = S\<rparr>))"
  unfolding nip_route_init_def nip_fib_init_def Let_def
  by (cases "errno Dst_cache = 0"; cases "errno Route_net_ops = 0"; cases "errno Fib_node_cache = 0"; cases "errno Fib_net_ops = 0";
      cases "errno Route_late_ops = 0"; cases "errno Route_dev_notifier = 0";
      simp add: try_reg_simps reg_simps init_error_def nip_fib_gc_cleanup_def cong: prod.case_cong_weak)

text \<open>C39: ninet_init registers everything (the notifier of addresses only if its registration, whose result is ignored, succeeds), or
  stops at the first call that fails, with the error of that call. What it undoes then is not all: the TCP protocol, the table of
  neighbours, the notifier of routes, the packet handler and the first hook stay registered, the ICMP handler stays in the
  table of protocols, and when a hook fails the permanent entries of TCP and UDP stay in the table of protocols by socket type.\<close>

theorem init_outcome:
  "ninet_init True hooks errno =
    (case first_failure hooks errno of
       None \<Rightarrow> (0, \<lparr>is_reg = filter (comes_up errno) (init_order hooks), is_protos = ready_protos, is_sw = ready_sw\<rparr>)
     | Some x \<Rightarrow> (init_error errno x, \<lparr>is_reg = filter never_undone (takeWhile (\<lambda>y. y \<noteq> x) (init_order hooks)),
         is_protos = (if x \<in> {Tcp_prot, Udp_prot, Family, Ninet_net_ops} then Map.empty else [0xB1 \<mapsto> nip_icmp_protocol]),
         is_sw = (if x \<in> {Ehashfn_hook, Gifconf_hook} then ready_sw else (\<lambda>_. []))\<rparr>))"
proof (cases "first_failure hooks errno")
  case None
  then have "errno x = 0" if "x \<in> set (init_order hooks)" "can_stop x" for x using that by (auto simp: first_failure_def find_None_iff)
  then show ?thesis using None unfolding init_steps Let_def
    by (cases hooks) (cases "errno Nip_dev_notf = 0"; simp add: init_order_def can_stop_def route_init try_reg_simps reg_simps icmp_init transport_init
        comes_up_def cong: prod.case_cong_weak)+
next
  case (Some x)
  then have "x \<in> set (init_order hooks) \<and> (can_stop x \<and> errno x \<noteq> 0) \<and>
      (\<forall>y \<in> set (takeWhile (\<lambda>y. y \<noteq> x) (init_order hooks)). \<not> (can_stop y \<and> errno y \<noteq> 0))"
    unfolding first_failure_def by (rule find_first)
  then have x: "errno x \<noteq> 0" "can_stop x" "x \<in> set (init_order hooks)"
      "\<forall>y \<in> set (takeWhile (\<lambda>y. y \<noteq> x) (init_order hooks)). can_stop y \<longrightarrow> errno y = 0"
    by blast+
  show ?thesis unfolding Some option.case init_steps Let_def using x
    by (cases x; simp add: init_order_def init_error_def can_stop_def route_init try_reg_simps reg_simps
        init_labels icmp_init transport_init transport_exit never_undone_def cong: prod.case_cong_weak;
        cases hooks; cases "errno Nip_dev_notf = 0"; simp add: init_error_def can_stop_def route_init try_reg_simps reg_simps
        init_labels icmp_init transport_init transport_exit never_undone_def cong: prod.case_cong_weak)
qed

section \<open>The number of sockets\<close>

text \<open>The events that make and release sockets. A socket that accept returns is made by the kernel's inet_accept, which does not
  call ninet_create; its release goes through ninet_release like any other.\<close>

datatype socket_event = Create bool int int nat int | Release | Accepted

fun socket_step :: "socket_event \<Rightarrow> int \<times> int \<Rightarrow> int \<times> int" where
  "socket_step (Create alloc_ok hash_err init_err type protocol) (number, n) =
    (case ninet_create ready_sw alloc_ok hash_err init_err type protocol number of
       (err, None, number) \<Rightarrow> (number, n) | (err, Some s, number) \<Rightarrow> (number, n + 1))"
| "socket_step Release (number, n) = (if n > 0 then (snd (ninet_release True number), n - 1) else (number, n))"
| "socket_step Accepted (number, n) = (number, n + 1)"

definition socket_run :: "socket_event list \<Rightarrow> int \<times> int" where
  "socket_run evs = fold socket_step evs (0, 0)"

lemma create_counts:
  assumes "ninet_create t a h i type protocol number = (err, s, number')" "0 \<le> number" "number \<le> NIP_MAX_SOCKET_NUM"
  shows "number' = (if s = None then number else number + 1)" "s \<noteq> None \<Longrightarrow> number' \<le> NIP_MAX_SOCKET_NUM"
  using assms by (auto simp: ninet_create_def Let_def dec_if_positive_def split: if_splits sum.splits)

definition open_tcp :: socket_event where "open_tcp = Create True 0 0 SOCK_STREAM 6"

lemma open_tcp: "number < NIP_MAX_SOCKET_NUM \<Longrightarrow> 0 \<le> number \<Longrightarrow> socket_step open_tcp (number, n) = (number + 1, n + 1)"
  by (simp add: open_tcp_def ninet_create_def IPPROTO_MAX_def SOCK_MAX_def SOCK_STREAM_def SOCK_DGRAM_def ready_sw_def tcp_nip_protosw_def
      IPPROTO_IP_def SOCK_RAW_def Let_def)

text \<open>C40: without accept the counter of ninet_create and ninet_release is the number of open sockets, which stays within the limit;
  with accept there are runs to any number.\<close>

theorem socket_limit:
  "(\<forall>evs. Accepted \<notin> set evs \<longrightarrow> (\<exists>n. socket_run evs = (n, n) \<and> 0 \<le> n \<and> n \<le> NIP_MAX_SOCKET_NUM)) \<and>
   (\<forall>m. \<exists>evs. snd (socket_run evs) = NIP_MAX_SOCKET_NUM + int m)"
proof (intro conjI allI impI)
  show "\<exists>n. socket_run evs = (n, n) \<and> 0 \<le> n \<and> n \<le> NIP_MAX_SOCKET_NUM" if "Accepted \<notin> set evs" for evs
    using that
  proof (induction evs rule: rev_induct)
    case Nil
    show ?case by (simp add: socket_run_def NIP_MAX_SOCKET_NUM_def)
  next
    case (snoc ev evs)
    then obtain n where n: "socket_run evs = (n, n)" "0 \<le> n" "n \<le> NIP_MAX_SOCKET_NUM" by auto
    have s: "socket_run (evs @ [ev]) = socket_step ev (n, n)" using n(1) by (simp add: socket_run_def)
    show ?case
    proof (cases ev)
      case (Create a h i ty p)
      obtain err so num where c: "ninet_create ready_sw a h i ty p n = (err, so, num)" by (rule prod_cases3)
      show ?thesis using s c create_counts [OF c n(2,3)] n by (cases so) (auto simp: Create)
    qed (use s n snoc.prems in \<open>auto simp: ninet_release_def dec_if_positive_def\<close>)
  qed
  have full: "fold socket_step (replicate k open_tcp) (0, 0) = (int k, int k)" if "int k \<le> NIP_MAX_SOCKET_NUM" for k
    using that by (induction k) (simp_all add: open_tcp replicate_append_same [symmetric] del: replicate_append_same)
  show "\<exists>evs. snd (socket_run evs) = NIP_MAX_SOCKET_NUM + int m" for m
  proof -
    have "\<exists>evs. socket_run evs = (NIP_MAX_SOCKET_NUM, NIP_MAX_SOCKET_NUM + int m)"
    proof (induction m)
      case 0
      show ?case using full [of 1024] by (intro exI [of _ "replicate 1024 open_tcp"]) (simp add: socket_run_def NIP_MAX_SOCKET_NUM_def)
    next
      case (Suc m)
      then obtain evs where e: "socket_run evs = (NIP_MAX_SOCKET_NUM, NIP_MAX_SOCKET_NUM + int m)" by blast
      have "socket_run (evs @ [Accepted, Release, open_tcp]) = (NIP_MAX_SOCKET_NUM, NIP_MAX_SOCKET_NUM + int (Suc m))"
        using e by (simp add: socket_run_def ninet_release_def dec_if_positive_def NIP_MAX_SOCKET_NUM_def open_tcp)
      then show ?case by blast
    qed
    then show ?thesis by (metis snd_conv)
  qed
qed

section \<open>What connect does\<close>

lemma unhashed_change:
  assumes "\<not> hs_hashed (h_socks h s)" "\<not> hs_hashed k" "hs_listen_hashed k = hs_listen_hashed (h_socks h s)"
  shows "tables_ok e h \<Longrightarrow> tables_ok e (upd_sock h s (\<lambda>_. k))" "hashes_ok e (upd_sock h s (\<lambda>_. k)) = hashes_ok e h"
    "conns_norm (upd_sock h s (\<lambda>_. k)) = conns_norm h" "tuples_unique (upd_sock h s (\<lambda>_. k)) = tuples_unique h"
proof -
  show "tables_ok e h \<Longrightarrow> tables_ok e (upd_sock h s (\<lambda>_. k))" by (rule tables_ok_upd) (use assms in simp_all)
  have c: "connected (h_socks (upd_sock h s (\<lambda>_. k)) x) \<longleftrightarrow> x \<noteq> s \<and> connected (h_socks h x)" for x
    using assms(2) by (simp add: connected_def)
  have n: "\<not> connected (h_socks h s)" using assms(1) by (simp add: connected_def)
  show "hashes_ok e (upd_sock h s (\<lambda>_. k)) = hashes_ok e h" "conns_norm (upd_sock h s (\<lambda>_. k)) = conns_norm h"
    unfolding hashes_ok_def conns_norm_def c using n by auto
  have f: "conn_for a b d e' f g (h_socks (upd_sock h s (\<lambda>_. k)) x) \<longleftrightarrow> conn_for a b d e' f g (h_socks h x)" for a b d e' f g x
    using n assms(2) by (auto simp: conn_for_def connected_def)
  show "tuples_unique (upd_sock h s (\<lambda>_. k)) = tuples_unique h" unfolding tuples_unique_def f ..
qed

text \<open>The tables of a world; a world where the socket s changed while it was in no chain.\<close>

definition world_ok :: "hash_env \<Rightarrow> sock_world \<Rightarrow> bool" where
  "world_ok e w \<longleftrightarrow> tables_ok e (sw_hash w) \<and> hashes_ok e (sw_hash w) \<and> conns_norm (sw_hash w)"

definition only_sock :: "sid \<Rightarrow> sock_world \<Rightarrow> sock_world \<Rightarrow> bool" where
  "only_sock s w w' \<longleftrightarrow> (\<exists>k. sw_hash w' = upd_sock (sw_hash w) s (\<lambda>_. k) \<and> hs_hashed k = hs_hashed (sid_of w s) \<and>
     hs_listen_hashed k = hs_listen_hashed (sid_of w s))"

lemma upd_sock_twice: "upd_sock (upd_sock h s (\<lambda>_. a)) s f = upd_sock h s (\<lambda>_. f a)"
  by (simp add: upd_sock_def)

lemma upd_sock_fixed: "upd_sock h s f = upd_sock h s (\<lambda>_. f (h_socks h s))"
  by (simp add: upd_sock_def)

lemma only_sock_refl: "only_sock s w w"
  unfolding only_sock_def by (rule exI [of _ "sid_of w s"]) (simp add: upd_sock_def)

lemma only_sock_trans: "only_sock s a b \<Longrightarrow> only_sock s b c \<Longrightarrow> only_sock s a c"
  unfolding only_sock_def by (auto simp: upd_sock_twice)

lemma only_sock_id:
  "hs_hashed (f (sid_of w s)) = hs_hashed (sid_of w s) \<Longrightarrow> hs_listen_hashed (f (sid_of w s)) = hs_listen_hashed (sid_of w s) \<Longrightarrow>
    only_sock s w (upd_id s f w)"
  unfolding only_sock_def upd_id_def by (auto simp: upd_sock_fixed [of _ _ f])

lemma only_sock_ss [simp]: "only_sock s w (upd_ss f w') = only_sock s w w'" "only_sock s w (sk_dst_set r w') = only_sock s w w'"
  "only_sock s w (w'\<lparr>sw_net := n\<rparr>) = only_sock s w w'" "only_sock s w (w'\<lparr>sw_ss := x\<rparr>) = only_sock s w w'"
  by (simp_all add: only_sock_def upd_ss_def sk_dst_set_def)

lemma only_sock_ok:
  assumes "only_sock s w w'" "\<not> hs_hashed (sid_of w s)"
  shows "world_ok e w \<Longrightarrow> world_ok e w'" "tuples_unique (sw_hash w') = tuples_unique (sw_hash w)"
    "\<not> hs_hashed (sid_of w' s)"
proof -
  obtain k where k: "sw_hash w' = upd_sock (sw_hash w) s (\<lambda>_. k)" "\<not> hs_hashed k" "hs_listen_hashed k = hs_listen_hashed (sid_of w s)"
    using assms by (auto simp: only_sock_def)
  note c = unhashed_change [OF assms(2) k(2,3)]
  show "world_ok e w \<Longrightarrow> world_ok e w'" "tuples_unique (sw_hash w') = tuples_unique (sw_hash w)"
    using c by (auto simp: world_ok_def k(1))
  show "\<not> hs_hashed (sid_of w' s)" using k by simp
qed

lemma close_state_ok:
  assumes "world_ok e w"
  shows "world_ok e (close_state e s w)" "\<not> hs_hashed (sid_of (close_state e s w) s)" "sk_state (ss_sk (sw_ss (close_state e s w))) = TCP_CLOSE"
    "tuples_unique (sw_hash w) \<Longrightarrow> tuples_unique (sw_hash (close_state e s w))"
proof -
  define h where "h = ninet_unhash e (sw_hash w) s"
  have u: "\<not> hs_hashed (h_socks h s)" by (simp add: h_def unhash_unhashed)
  have c: "connected (h_socks h x) \<longleftrightarrow> x \<noteq> s \<and> connected (sid_of w x)" "x \<noteq> s \<Longrightarrow> h_socks h x = sid_of w x" for x
    unfolding h_def by (auto simp: ninet_unhash_def ninet_unhash2_def connected_def Let_def split: option.splits if_splits)
  have 0: "tables_ok e h" using ninet_unhash_ok assms by (simp add: h_def world_ok_def)
  have "hashes_ok e h" "conns_norm h" using assms c unfolding world_ok_def hashes_ok_def conns_norm_def by auto
  then have 1: "world_ok e (w\<lparr>sw_hash := h\<rparr>)" using 0 by (simp add: world_ok_def)
  have o: "only_sock s (w\<lparr>sw_hash := h\<rparr>) (close_state e s w)"
    unfolding close_state_def Let_def h_def [symmetric] only_sock_def
    by (auto simp: upd_sock_fixed [of h s "\<lambda>k. k\<lparr>hs_state := TCP_CLOSE\<rparr>"] upd_sock_twice)
  have "\<not> hs_hashed (sid_of (w\<lparr>sw_hash := h\<rparr>) s)" using u by simp
  then show "world_ok e (close_state e s w)" "\<not> hs_hashed (sid_of (close_state e s w) s)" using only_sock_ok [OF o] 1 by auto
  have "tuples_unique h" if "tuples_unique (sw_hash w)"
  proof -
    have "conn_for a b c d f g (sid_of w x)" if "conn_for a b c d f g (h_socks h x)" for a b c d f g x
      using that u assms by (metis conn_for_def connected_def c(2))
    with that show ?thesis unfolding tuples_unique_def by (meson)
  qed
  then show "tuples_unique (sw_hash w) \<Longrightarrow> tuples_unique (sw_hash (close_state e s w))" using only_sock_ok(2) [OF o] u by simp
  show "sk_state (ss_sk (sw_ss (close_state e s w))) = TCP_CLOSE" by (simp add: close_state_def Let_def)
qed

lemma connect_failure_simps [simp]:
  "fst (connect_failure err s w) = err" "ss_sk (sw_ss (snd (connect_failure err s w))) = ss_sk (sw_ss w)"
  "ss_dst (sw_ss (snd (connect_failure err s w))) = ss_dst (sw_ss w)" "sw_net (snd (connect_failure err s w)) = sw_net w"
  "hs_hashed (sid_of (snd (connect_failure err s w)) s) = hs_hashed (sid_of w s)"
  by (simp_all add: connect_failure_def upd_ss_def upd_id_def)

lemma only_sock_failure: "only_sock s w (snd (connect_failure err s w))"
  by (simp add: connect_failure_def only_sock_id)

lemma lookup_flow_error: "nip_dst_lookup_flow h32 cpu new d a oif f net = Some (Inl err, net') \<Longrightarrow> err \<noteq> 0"
  by (auto simp: nip_dst_lookup_flow_def nip_dst_lookup_tail_def split: bind_splits if_splits sum.splits)

text \<open>The two ways through tcp_nip_connect.\<close>

lemma connect_cases:
  assumes "tcp_nip_connect e len addr s w = Some (ret, w')"
  obtains (rejected) "ret \<noteq> 0" "only_sock s w w'" "ss_sk (sw_ss w') = ss_sk (sw_ss w)"
  | (started) w0 err h where "only_sock s w w0" "ss_sk (sw_ss w0) = (ss_sk (sw_ss w))\<lparr>sk_state := TCP_SYN_SENT\<rparr>"
      "sid_of w0 s = (sid_of w s)\<lparr>hs_rcv_saddr := hs_rcv_saddr (sid_of w0 s), hs_dport := sin_port addr, hs_daddr := sin_addr addr,
        hs_state := TCP_SYN_SENT\<rparr>"
      "ninet_hash_connect (se_hash e) (inet_hash_connect e) (sw_hash w0) s (se_rcv_mem e) (se_daddr_mem e) = Some (err, h)"
      "if err \<noteq> 0 then (ret, w') = connect_failure err s (close_state (se_hash e) s (w0\<lparr>sw_hash := h\<rparr>))
       else connect_syn e s (w0\<lparr>sw_hash := h\<rparr>) = Some (ret, w')"
proof -
  have inv: "EINVAL \<noteq> 0" "EAFNOSUPPORT \<noteq> 0" "EFAULT \<noteq> 0" by (simp_all add: EAFNOSUPPORT_def)
  show thesis
  proof (cases "len < sizeof_sockaddr_nin \<or> sin_family addr \<noteq> AF_NINET")
    case True
    then show thesis using assms inv by (intro rejected) (auto simp: tcp_nip_connect_def only_sock_refl split: if_splits)
  next
    case False
    then obtain res net where l: "nip_dst_lookup_flow (se_h32 e) (se_cpu e) (se_new_rt e) (sin_addr addr) (se_stack_saddr e)
        (hs_bound_dev_if (sid_of w s)) None (sw_net w) = Some (res, net)"
      using assms by (auto simp: tcp_nip_connect_def split: bind_splits)
    define w1 where "w1 = w\<lparr>sw_net := net\<rparr>"
    have w1: "only_sock s w w1" "ss_sk (sw_ss w1) = ss_sk (sw_ss w)" "sid_of w1 = sid_of w" by (simp_all add: w1_def only_sock_refl)
    show thesis
    proof (cases res)
      case (Inl err)
      then have "(ret, w') = connect_failure err s w1" using assms l False by (simp add: tcp_nip_connect_def w1_def)
      then have "ret = err" "w' = snd (connect_failure err s w1)" by (simp_all add: connect_failure_def)
      then show thesis using lookup_flow_error [OF l [unfolded Inl]] w1 only_sock_trans [OF w1(1) only_sock_failure] by (intro rejected) simp_all
    next
      case (Inr x)
      obtain r saddr daddr where x: "x = (r, saddr, daddr)" by (rule prod_cases3)
      define w2 where "w2 = connect_source saddr s w1"
      have w2: "only_sock s w w2" "ss_sk (sw_ss w2) = ss_sk (sw_ss w)" "sid_of w2 s = (sid_of w s)\<lparr>hs_rcv_saddr := hs_rcv_saddr (sid_of w2 s)\<rparr>"
        using w1 only_sock_trans [OF w1(1) only_sock_id [of "\<lambda>k. k\<lparr>hs_rcv_saddr := saddr\<rparr>"]]
        by (simp_all add: w2_def connect_source_def) (simp_all add: upd_id_def upd_ss_def)
      have f: "connect_flow e addr r daddr s w2 = Some (ret, w')"
        using assms l False by (simp add: tcp_nip_connect_def Inr x w1_def w2_def)
      show thesis
      proof (cases "nip_addr_invalid daddr = CURRENT_ADDR_VALID \<and> nip_addr_invalid (hs_rcv_saddr (sid_of w2 s)) = CURRENT_ADDR_VALID")
        case False': False
        have "(ret, w') = connect_failure (- EFAULT) s w2"
          using f False' by (auto simp: connect_flow_def split: if_splits)
        then have "ret = - EFAULT" "w' = snd (connect_failure (- EFAULT) s w2)" by (simp_all add: connect_failure_def)
        then show thesis using inv w2 only_sock_trans [OF w2(1) only_sock_failure] by (intro rejected) simp_all
      next
        case True
        define w0 where "w0 = connect_start e addr r s w2"
        have "only_sock s w2 w0" unfolding w0_def connect_start_def by (simp, intro only_sock_id) simp_all
        then have 1: "only_sock s w w0" by (rule only_sock_trans [OF w2(1)])
        have 2: "ss_sk (sw_ss w0) = (ss_sk (sw_ss w))\<lparr>sk_state := TCP_SYN_SENT\<rparr>"
          using w2(2) by (simp add: w0_def connect_start_def sk_dst_set_def upd_ss_def upd_id_def)
        have r: "hs_rcv_saddr (sid_of w0 s) = hs_rcv_saddr (sid_of w2 s)"
          by (simp add: w0_def connect_start_def sk_dst_set_def upd_ss_def upd_id_def)
        have "sid_of w0 s = (sid_of w2 s)\<lparr>hs_dport := sin_port addr, hs_daddr := sin_addr addr, hs_state := TCP_SYN_SENT\<rparr>"
          by (simp add: w0_def connect_start_def sk_dst_set_def upd_ss_def upd_id_def)
        then have 3: "sid_of w0 s = (sid_of w s)\<lparr>hs_rcv_saddr := hs_rcv_saddr (sid_of w0 s), hs_dport := sin_port addr, hs_daddr := sin_addr addr,
            hs_state := TCP_SYN_SENT\<rparr>" unfolding r by (subst (asm) w2(3)) simp
        obtain err h where h: "ninet_hash_connect (se_hash e) (inet_hash_connect e) (sw_hash w0) s (se_rcv_mem e) (se_daddr_mem e) = Some (err, h)"
            "if err \<noteq> 0 then (ret, w') = connect_failure err s (close_state (se_hash e) s (w0\<lparr>sw_hash := h\<rparr>))
             else connect_syn e s (w0\<lparr>sw_hash := h\<rparr>) = Some (ret, w')"
          using f True by (auto simp: connect_flow_def Let_def simp flip: w0_def split: bind_splits if_splits)
        show thesis by (rule started [OF 1 2 3 h])
      qed
    qed
  qed
qed

text \<open>The kernel has memory and the device does not refuse the SYN.\<close>

definition can_send_syn :: "sock_env \<Rightarrow> tcp_nip_sock \<Rightarrow> bool" where
  "can_send_syn e sk \<longleftrightarrow> se_syn_alloc e \<and> (\<forall>p. clone_ok (se_tcp e) p) \<and> net_xmit (se_tcp e) (length (sent sk)) \<noteq> - ECONNREFUSED"

lemma connect_syn_sent:
  assumes c: "connect_syn e s w = Some (ret, w')" and k: "can_send_syn e (ss_sk (sw_ss w))"
    and sk: "sk_state (ss_sk (sw_ss w)) = TCP_SYN_SENT" "rcv_queue (ss_sk (sw_ss w)) = []"
  shows "ret = 0" "sw_hash w' = sw_hash w" "sw_net w' = sw_net w" "ss_state (sw_ss w') = ss_state (sw_ss w)"
    "\<exists>isn p. syn_sent_at isn (ss_sk (sw_ss w')) \<and> sent (ss_sk (sw_ss w')) = sent (ss_sk (sw_ss w)) @ [p] \<and>
      bare_segment TCPHDR_SYN isn (isn + 1) p"
proof -
  define ss where "ss = reset_inherited (sw_ss w)"
  have 0: "sk_state ((ss_sk ss)\<lparr>write_seq := i\<rparr>) = TCP_SYN_SENT" "rcv_queue ((ss_sk ss)\<lparr>write_seq := i\<rparr>) = []"
    "sent ((ss_sk ss)\<lparr>write_seq := i\<rparr>) = sent (ss_sk (sw_ss w))" "ss_state ss = ss_state (sw_ss w)" for i
    using sk by (simp_all add: ss_def reset_inherited_def)
  obtain isn where i: "(if write_seq (ss_sk ss) = 0 then connect_isn e s w else Some (write_seq (ss_sk ss))) = Some isn"
    using c unfolding connect_syn_def Let_def ss_def [symmetric] by (auto split: bind_splits)
  obtain sk1 p where 1: "tcp_nip_send_syn (se_tcp e) True ((ss_sk ss)\<lparr>write_seq := isn\<rparr>) = (0, sk1)" "syn_sent_at isn sk1"
      "sent sk1 = sent (ss_sk (sw_ss w)) @ [p]" "bare_segment TCPHDR_SYN isn (isn + 1) p"
    using send_syn [OF 0(1,2), of "se_tcp e" isn] k 0(3) [of isn] unfolding can_send_syn_def by auto
  have "connect_syn e s w = Some (0, w\<lparr>sw_ss := ss\<lparr>ss_sk := sk1, ss_inet_id := ucast (se_random e)\<rparr>\<rparr>)"
    using i 1(1) k unfolding connect_syn_def Let_def ss_def [symmetric] can_send_syn_def by simp
  then show "ret = 0" "sw_hash w' = sw_hash w" "sw_net w' = sw_net w" "ss_state (sw_ss w') = ss_state (sw_ss w)"
    "\<exists>isn p. syn_sent_at isn (ss_sk (sw_ss w')) \<and> sent (ss_sk (sw_ss w')) = sent (ss_sk (sw_ss w)) @ [p] \<and>
      bare_segment TCPHDR_SYN isn (isn + 1) p"
    using c 0(4) 1 by auto
qed

text \<open>__inet_hash_connect of the kernel ends with a port that the check accepts, or with an error and the tables as they were.\<close>

definition hash_connect_tries :: "sock_env \<Rightarrow> bool" where
  "hash_connect_tries e \<longleftrightarrow> (\<forall>h s off.
     (\<exists>p. inet_hash_connect e h s off (ninet_check_established (se_hash e)) = ninet_check_established (se_hash e) h s p) \<or>
     (\<exists>err. err \<noteq> 0 \<and> inet_hash_connect e h s off (ninet_check_established (se_hash e)) = (err, h)))"

lemma hash_connect_result:
  assumes "hash_connect_tries e" "ninet_hash_connect (se_hash e) (inet_hash_connect e) h s m1 m2 = Some (err, h')"
  shows "if err \<noteq> 0 then h' = h else \<exists>p. ninet_check_established (se_hash e) h s p = (0, h')"
proof -
  obtain off where o: "inet_hash_connect e h s off (ninet_check_established (se_hash e)) = (err, h')"
    using assms(2) by (auto simp: ninet_hash_connect_def split: bind_splits)
  consider p where "ninet_check_established (se_hash e) h s p = (err, h')" | "err \<noteq> 0" "h' = h"
    using assms(1) o unfolding hash_connect_tries_def by (metis prod.inject)
  then show ?thesis
  proof cases
    case 1
    then show ?thesis using check_established_used [of "se_hash e" h s p] by auto
  qed simp
qed

text \<open>A socket that was not connected and is not in the tables.\<close>

definition ready_client :: "sid \<Rightarrow> sock_world \<Rightarrow> bool" where
  "ready_client s w \<longleftrightarrow> (let k = sid_of w s; sk = ss_sk (sw_ss w) in
     sk_state sk = TCP_CLOSE \<and> rcv_queue sk = [] \<and> hs_state k = TCP_CLOSE \<and> \<not> hs_hashed k \<and> 0 < hs_refcnt k \<and> hs_ninet k \<and>
     hs_bound_dev_if k = 0)"

definition finds :: "hash_env \<Rightarrow> ninet_hashinfo \<Rightarrow> sid \<Rightarrow> bool" where
  "finds e h s \<longleftrightarrow> (let k = h_socks h s in
     \<forall>dif. fst (ninet_lookup_established e h (hs_net k) (hs_daddr k) (hs_dport k) (hs_rcv_saddr k) (hs_num k) dif) = Some s)"

lemma connect_result:
  assumes w: "world_ok (se_hash e) w" "ready_client s w" "hash_connect_tries e" "can_send_syn e (ss_sk (sw_ss w))"
    and n: "norm_addr (sin_addr addr)" "norm_addr (hs_rcv_saddr (sid_of w' s))"
    and c: "tcp_nip_connect e len addr s w = Some (ret, w')"
  shows "world_ok (se_hash e) w' \<and> (tuples_unique (sw_hash w) \<longrightarrow> tuples_unique (sw_hash w')) \<and>
    (if ret \<noteq> 0 then sk_state (ss_sk (sw_ss w')) = TCP_CLOSE \<and> \<not> hs_hashed (sid_of w' s)
     else hs_daddr (sid_of w' s) = sin_addr addr \<and> hs_dport (sid_of w' s) = sin_port addr \<and> finds (se_hash e) (sw_hash w') s \<and>
       (\<exists>isn p. syn_sent_at isn (ss_sk (sw_ss w')) \<and> sent (ss_sk (sw_ss w')) = sent (ss_sk (sw_ss w)) @ [p] \<and>
          bare_segment TCPHDR_SYN isn (isn + 1) p))"
  using c
proof (cases rule: connect_cases)
  case rejected
  then show ?thesis using w only_sock_ok [of s w w'] by (simp add: ready_client_def Let_def)
next
  case (started w0 err h)
  have u: "\<not> hs_hashed (sid_of w s)" using w(2) by (simp add: ready_client_def Let_def)
  note o = only_sock_ok [OF started(1) u]
  show ?thesis
  proof (cases "err \<noteq> 0")
    case True
    then have "h = sw_hash w0" using hash_connect_result [OF w(3) started(4)] by simp
    then have h: "w0\<lparr>sw_hash := h\<rparr> = w0" by simp
    define w1 where "w1 = close_state (se_hash e) s w0"
    note cs = close_state_ok [OF o(1) [OF w(1)], of s, folded w1_def]
    have "ret = err" "w' = snd (connect_failure err s w1)" using started(5) True by (simp_all add: h w1_def connect_failure_def)
    moreover have "world_ok (se_hash e) (snd (connect_failure err s w1))" "tuples_unique (sw_hash (snd (connect_failure err s w1))) = tuples_unique (sw_hash w1)"
      using only_sock_ok [OF only_sock_failure cs(2)] cs(1) by auto
    ultimately show ?thesis using True cs o(2) by simp
  next
    case False
    then obtain port where p: "ninet_check_established (se_hash e) (sw_hash w0) s port = (0, h)"
      using hash_connect_result [OF w(3) started(4)] by auto
    let ?k = "sid_of w0 s"
    have c: "connect_syn e s (w0\<lparr>sw_hash := h\<rparr>) = Some (ret, w')" using started(5) False by simp
    have k: "can_send_syn e (ss_sk (sw_ss (w0\<lparr>sw_hash := h\<rparr>)))" "sk_state (ss_sk (sw_ss (w0\<lparr>sw_hash := h\<rparr>))) = TCP_SYN_SENT"
      "rcv_queue (ss_sk (sw_ss (w0\<lparr>sw_hash := h\<rparr>))) = []" "sent (ss_sk (sw_ss (w0\<lparr>sw_hash := h\<rparr>))) = sent (ss_sk (sw_ss w))"
      using w(2,4) started(2) by (simp_all add: can_send_syn_def ready_client_def Let_def)
    note syn = connect_syn_sent [OF c k(1-3), unfolded k(4), simplified]
    have K: "hs_state ?k \<noteq> TCP_LISTEN" "0 < hs_refcnt ?k" "hs_ninet ?k" "hs_bound_dev_if ?k = 0" "hs_daddr ?k = sin_addr addr" "hs_dport ?k = sin_port addr"
      using w(2) by (subst started(3), simp add: ready_client_def Let_def)+
    have f: "fst (ninet_check_established (se_hash e) (sw_hash w0) s port) = 0" using p by simp
    have S: "h_socks h s = ?k\<lparr>hs_num := port, hs_sport := htons port,
        hs_hash := ehash_key (se_hash e) (?k\<lparr>hs_num := port\<rparr>), hs_hashed := True\<rparr>"
      using check_established_free [OF f] p by simp
    have r: "hs_rcv_saddr ?k = hs_rcv_saddr (sid_of w' s)" by (simp add: syn(2) S)
    have t: "tables_ok (se_hash e) (sw_hash w0)" "hashes_ok (se_hash e) (sw_hash w0)" "conns_norm (sw_hash w0)"
      using o(1) [OF w(1)] by (simp_all add: world_ok_def)
    have "norm_addr (hs_rcv_saddr ?k)" "norm_addr (hs_daddr ?k)" using n K r by simp_all
    then have e: "tables_ok (se_hash e) h \<and> hashes_ok (se_hash e) h \<and> conns_norm h \<and>
      (\<forall>dif. fst (ninet_lookup_established (se_hash e) h (hs_net ?k) (hs_daddr ?k) (hs_dport ?k) (hs_rcv_saddr ?k) port dif) = Some s) \<and>
      (tuples_unique (sw_hash w0) \<longrightarrow> tuples_unique h)"
      using connect_keeps_tuples_unique [OF t o(3) K(1-3) _ _ K(4) refl p] by (simp split: if_splits)
    then show ?thesis using o(2) syn K by (simp add: world_ok_def finds_def S)
  qed
qed

text \<open>C3: connect of a closed socket either fails, and the socket is closed and in no table, or the four-tuple it got belongs to
  no other connection, segments of the peer find the socket from then on, and exactly one SYN was sent; the tables stay
  consistent.\<close>

theorem connect_outcome:
  assumes "world_ok (se_hash e) w" "ready_client s w" "hash_connect_tries e" "can_send_syn e (ss_sk (sw_ss w))"
    and "norm_addr (sin_addr addr)" "norm_addr (hs_rcv_saddr (sid_of w' s))"
    and "tcp_nip_connect e len addr s w = Some (ret, w')"
  shows "world_ok (se_hash e) w' \<and> (tuples_unique (sw_hash w) \<longrightarrow> tuples_unique (sw_hash w')) \<and>
    (if ret \<noteq> 0 then sk_state (ss_sk (sw_ss w')) = TCP_CLOSE \<and> \<not> hs_hashed (sid_of w' s)
     else hs_daddr (sid_of w' s) = sin_addr addr \<and> hs_dport (sid_of w' s) = sin_port addr \<and> finds (se_hash e) (sw_hash w') s \<and>
       (\<exists>isn p. syn_sent_at isn (ss_sk (sw_ss w')) \<and> sent (ss_sk (sw_ss w')) = sent (ss_sk (sw_ss w)) @ [p] \<and>
          bare_segment TCPHDR_SYN isn (isn + 1) p))"
  using assms by (rule connect_result)

section \<open>A connection that is refused\<close>

lemma refused_reset:
  assumes s: "syn_sent_at isn sk" and f: "flag (pkt_flags skb) TCPHDR_ACK" "flag (pkt_flags skb) TCPHDR_RST" "pkt_ack_seq skb = isn + 1"
  shows "sk_state (tcp_nip_do_rcv e cr skb sk) = TCP_CLOSE" "sk_err (tcp_nip_do_rcv e cr skb sk) = ECONNREFUSED"
proof -
  obtain p where c: "sk_state sk = TCP_SYN_SENT" "conn sk = ((isn, isn + 1, isn + 1, 0, 0), ([p], [], [], ofo_queue sk), 1, 0, snd_shutdown sk, rcv_shutdown sk)"
    using s by (auto simp: syn_sent_at_def)
  note k = conn_fields [OF c(2)]
  define sk1 where "sk1 = sk\<lparr>mss_clamp := tcp_nip_parse_options (flag (pkt_flags skb) TCPHDR_SYN) False (user_mss sk) (th_opts skb) (mss_clamp sk)\<rparr>"
  have "tcp_nip_rcv_synsent_state_process e skb sk = (0, tcp_nip_reset sk1)"
    using f k by (simp add: tcp_nip_rcv_synsent_state_process_def Let_def before_def sk1_def)
  then have d: "tcp_nip_do_rcv e cr skb sk = tcp_nip_reset sk1"
    using c(1) by (simp add: tcp_nip_do_rcv_def tcp_nip_rcv_state_process_def Let_def)
  have "sk_state sk1 = TCP_SYN_SENT" using c(1) by (simp add: sk1_def)
  then show "sk_state (tcp_nip_do_rcv e cr skb sk) = TCP_CLOSE" "sk_err (tcp_nip_do_rcv e cr skb sk) = ECONNREFUSED"
    unfolding d by (simp_all add: tcp_nip_reset_def tcp_nip_done_def Let_def tcp_nip_write_queue_purge_def inet_csk_clear_xmit_timers_def
        sk_nip_stream_kill_queues_def tcp_nip_destroy_sock_def)
qed

text \<open>C38: a non-blocking connect that sends its SYN returns EINPROGRESS. When a reset answers it the next connect returns
  ECONNREFUSED, and then the socket is of no use: every later connect and listen returns EINVAL, whatever its arguments.\<close>

theorem refused_connect_is_final:
  assumes w: "ready_client s w" "can_send_syn e (ss_sk (sw_ss w))" "hash_connect_tries e" "world_ok (se_hash e) w" "ss_state (sw_ss w) = SS_UNCONNECTED"
    and n: "norm_addr (sin_addr addr)" "norm_addr (hs_rcv_saddr (sid_of w0 s))"
    and c: "tcp_nip_connect e len addr s w = Some (0, w0)" "2 \<le> len"
    and p: "flag (pkt_flags skb) TCPHDR_ACK" "flag (pkt_flags skb) TCPHDR_RST" "pkt_ack_seq skb = snd_nxt (ss_sk (sw_ss w0))"
  shows "\<exists>w1. ninet_stream_connect e ks 0 len addr s w = Some (- EINPROGRESS, w1) \<and>
    (\<forall>w2. ss_sk (sw_ss w2) = tcp_nip_do_rcv te cr skb (ss_sk (sw_ss w1)) \<and> ss_state (sw_ss w2) = ss_state (sw_ss w1) \<longrightarrow>
      (\<exists>w3. ninet_stream_connect e ks timeo len addr s w2 = Some (- ECONNREFUSED, w3) \<and>
        (\<forall>e ks timeo len addr. ninet_stream_connect e ks timeo len addr s w3 = Some (- EINVAL, w3)) \<and>
        (\<forall>e backlog. ninet_listen e backlog s w3 = (- EINVAL, w3))))"
proof -
  obtain isn where i: "syn_sent_at isn (ss_sk (sw_ss w0))"
    using connect_result [OF w(4,1,3,2) n c(1)] by auto
  define w1 where "w1 = set_ss_state SS_CONNECTING w0"
  have 1: "ss_sk (sw_ss w1) = ss_sk (sw_ss w0)" "ss_state (sw_ss w1) = SS_CONNECTING" by (simp_all add: w1_def set_ss_state_def upd_ss_def)
  have "syn_pending w1" using i by (simp add: syn_pending_def 1 syn_sent_at_def)
  then have f: "ninet_stream_connect e ks 0 len addr s w = Some (- EINPROGRESS, w1)"
    using w(1,5) c by (simp add: ninet_stream_connect_def stream_connect_locked_def ready_client_def Let_def connect_wait_def w1_def)
  have "pkt_ack_seq skb = isn + 1" using p(3) i conn_fields(2) unfolding syn_sent_at_def by metis
  note r = refused_reset [OF i p(1,2) this, of te cr]
  have "\<exists>w3. ninet_stream_connect e ks timeo len addr s w2 = Some (- ECONNREFUSED, w3) \<and>
        (\<forall>e ks timeo len addr. ninet_stream_connect e ks timeo len addr s w3 = Some (- EINVAL, w3)) \<and>
        (\<forall>e backlog. ninet_listen e backlog s w3 = (- EINVAL, w3))"
    if w2: "ss_sk (sw_ss w2) = tcp_nip_do_rcv te cr skb (ss_sk (sw_ss w1)) \<and> ss_state (sw_ss w2) = ss_state (sw_ss w1)" for w2
  proof -
    have 2: "sk_state (ss_sk (sw_ss w2)) = TCP_CLOSE" "sk_err (ss_sk (sw_ss w2)) = ECONNREFUSED" "ss_state (sw_ss w2) = SS_CONNECTING"
      using w2 r 1 by simp_all
    define w3 where "w3 = snd (connect_finish w2)"
    have 3: "ss_state (sw_ss w3) = SS_DISCONNECTING" using 2 by (simp add: w3_def connect_finish_def Let_def set_ss_state_def upd_ss_def)
    have "ninet_stream_connect e ks timeo len addr s w2 = Some (- ECONNREFUSED, w3)"
      using 2 c(2) by (simp add: ninet_stream_connect_def stream_connect_locked_def connect_wait_def syn_pending_def)
        (simp add: w3_def connect_finish_def Let_def ECONNREFUSED_def)
    moreover have "ninet_stream_connect e ks timeo len addr s w3 = Some (- EINVAL, w3)" for e ks timeo len addr
      using 3 by (simp add: ninet_stream_connect_def stream_connect_locked_def)
    moreover have "ninet_listen e backlog s w3 = (- EINVAL, w3)" for e backlog using 3 by (simp add: ninet_listen_def Let_def)
    ultimately show ?thesis by blast
  qed
  then show ?thesis using f by blast
qed

section \<open>A client in the network of an example\<close>

lemma conn_net_flow:
  "\<exists>net. nip_dst_lookup_flow hash_zero 0 new (short_addr 9) a 0 None (default_net (short_addr 5)) = Some (Inr (8, short_addr 5, short_addr 9), net) \<and>
    dst_refcnt (rts net 8) = 2"
proof -
  have h: "ninet_route_hash hash_zero a = Some 0" if "addr_ok a" for a
    using hash_ok(1) [OF that, of hash_zero] by (auto simp: ninet_route_hash_def hash_zero_def)
  have n: "\<not> nip_addr_eq (short_addr 9) nip_any_addr" "\<not> nip_addr_eq nip_any_addr (short_addr 9)" "nip_addr_eq nip_any_addr nip_any_addr"
    by (simp_all add: nip_addr_eq_def nip_any_addr_def short_addr_def short_bytes_def)
  note S = default_net_fields upd_rt_simps h n short_addr_ok any_addr_ok dst_hold_def dst_release_def nip_rt_put_def
  have l: "nip_pol_route hash_zero 0 x (fib_local_tbl (default_net (short_addr 5))) (short_addr 9) (default_net (short_addr 5)) = Some (0, dst_hold 0 (default_net (short_addr 5)))" for x
    by (simp add: nip_pol_route_def nip_fib_locate_def table_find_def S NIN_ROUTE_HSIZE_def)
  have m: "nip_pol_route hash_zero 0 x (fib_main_tbl (default_net (short_addr 5))) (short_addr 9) (nip_rt_put 0 (dst_hold 0 (default_net (short_addr 5)))) = Some (8, dst_hold 8 (nip_rt_put 0 (dst_hold 0 (default_net (short_addr 5)))))" for x
    by (simp add: nip_pol_route_def nip_fib_locate_def table_find_def S chain_find_eq nip_rt_get_pcpu_route_def opt_do_def)
  show ?thesis
    using l m by (simp add: nip_dst_lookup_flow_def nip_dst_lookup_tail_def nip_route_output_flags_def nip_route_lookup_def nip_fib_rule_lookup_def 
      S nip_sk_dst_check_def nip_route_get_saddr_def nip_dev_get_saddr_def nip_get_firstaddr_def dst_error_def rtf_def)
qed

definition client_env :: sock_env where
  "client_env = \<lparr>se_tcp = ex_env, se_hash = sample_env, se_h32 = hash_zero, se_cpu = 0, se_new_rt = (\<lambda>_. Some 9),
     inet_hash_connect = (\<lambda>h s off check. check h s 4000), inet_csk_get_port = (\<lambda>h s p. (0, h)), inet_csk_listen_start = (\<lambda>n h s. (0, h)),
     se_stack_saddr = nip_any_addr, se_rcv_mem = [0], se_daddr_mem = [0], se_txhash = 0, se_random = 0, se_syn_alloc = True\<rparr>"

definition client_world :: sock_world where
  "client_world = \<lparr>sw_hash = empty_tables sample_socks, sw_ss = \<lparr>ss_state = SS_UNCONNECTED, ss_type = SOCK_STREAM, ss_sk = zero_sock,
     ss_dst = None, ss_max_ack_backlog = 0, ss_route_caps = 0, ss_ext_hdr_len = 0, ss_optlen = None, ss_ts_recent = 0, ss_ts_recent_stamp = 0,
     ss_repair = False, ss_inet_id = 0, ss_txhash = 0, ss_no_port = False, ss_port_locked = False\<rparr>, sw_net = default_net (short_addr 5)\<rparr>"

definition server_addr :: sockaddr_nin where "server_addr = \<lparr>sin_family = AF_NINET, sin_port = 0x5000, sin_addr = short_addr 9\<rparr>"

lemma client_ready:
  "world_ok (se_hash client_env) client_world" "ready_client 4 client_world" "hash_connect_tries client_env"
  "can_send_syn client_env (ss_sk (sw_ss client_world))" "norm_addr (sin_addr server_addr)" "ss_state (sw_ss client_world) = SS_UNCONNECTED"
proof -
  let ?h = "empty_tables sample_socks"
  have no: "\<not> connected (h_socks ?h s)" "\<not> hs_hashed (h_socks ?h s)" "\<not> hs_listen_hashed (h_socks ?h s)" for s
    by (auto simp: empty_tables_def sample_socks_def sample_sock_def connected_def)
  have "tables_ok sample_env ?h"
    using no by (auto simp: tables_ok_def chain_ok_def listens_def) (simp_all add: empty_tables_def)
  then show "world_ok (se_hash client_env) client_world"
    using no by (simp add: world_ok_def client_env_def client_world_def hashes_ok_def conns_norm_def)
  show "ready_client 4 client_world" using no
    by (simp add: ready_client_def client_world_def Let_def zero_sock_def) (simp add: empty_tables_def sample_socks_def sample_sock_def)
  show "hash_connect_tries client_env" unfolding hash_connect_tries_def client_env_def by auto
  show "can_send_syn client_env (ss_sk (sw_ss client_world))"
    by (simp add: can_send_syn_def client_env_def ex_env_def ECONNREFUSED_def)
  show "norm_addr (sin_addr server_addr)" by (simp add: server_addr_def sample_addr_norm)
  show "ss_state (sw_ss client_world) = SS_UNCONNECTED" by (simp add: client_world_def)
qed

lemma client_connects:
  "\<exists>w0. tcp_nip_connect client_env 16 server_addr 4 client_world = Some (0, w0) \<and> hs_rcv_saddr (sid_of w0 4) = short_addr 5"
proof -
  obtain net where f: "nip_dst_lookup_flow hash_zero 0 (\<lambda>_. Some 9) (short_addr 9) nip_any_addr 0 None (default_net (short_addr 5))
      = Some (Inr (8, short_addr 5, short_addr 9), net)" using conn_net_flow by blast
  have n: "\<not> nip_addr_eq (short_addr 5) nip_any_addr" by (simp add: nip_addr_eq_def nip_any_addr_def short_addr_def short_bytes_def)
  have 4: "h_socks (empty_tables sample_socks) 4 = sample_sock (short_addr 5) (short_addr 9) 0 TCP_CLOSE"
    by (simp add: empty_tables_def sample_socks_def)
  define w where "w = client_world\<lparr>sw_net := net\<rparr>"
  have c: "tcp_nip_connect client_env 16 server_addr 4 client_world = connect_flow client_env server_addr 8 (short_addr 9) 4 w"
    using f n 4 by (simp add: tcp_nip_connect_def sizeof_sockaddr_nin_def client_env_def client_world_def server_addr_def connect_source_def w_def
        sample_sock_def)
  define w1 where "w1 = connect_start client_env server_addr 8 4 w"
  have k1: "sid_of w1 4 = sample_sock (short_addr 5) (short_addr 9) 0 TCP_SYN_SENT" "h_ehash (sw_hash w1) b = []" for b
    using 4 by (simp_all add: w1_def connect_start_def sk_dst_set_def upd_ss_def upd_id_def w_def client_world_def server_addr_def sample_sock_def)
      (simp_all add: empty_tables_def)
  have s1: "ss_sk (sw_ss w1) = zero_sock\<lparr>sk_state := TCP_SYN_SENT\<rparr>" "ss_ts_recent_stamp (sw_ss w1) = 0"
    by (simp_all add: w1_def connect_start_def sk_dst_set_def upd_ss_def upd_id_def w_def client_world_def)
  have "sid_of w 4 = sample_sock (short_addr 5) (short_addr 9) 0 TCP_CLOSE" using 4 by (simp add: w_def client_world_def)
  then have src: "nip_addr_invalid (hs_rcv_saddr (sid_of w 4)) = CURRENT_ADDR_VALID" by (simp add: sample_sock_def short_addr_valid)
  have l: "length (field8 (short_addr n) @ [0]) = 9" for n using wf_short_addr [of n] by (simp add: wf_addr_def)
  have ce: "fst (ninet_check_established sample_env (sw_hash w1) 4 4000) = 0"
    by (simp add: ninet_check_established_def Let_def tuple_in_use_def k1)
  define h where "h = snd (ninet_check_established sample_env (sw_hash w1) 4 4000)"
  have h4: "h_socks h 4 = (sample_sock (short_addr 5) (short_addr 9) 0 TCP_SYN_SENT)\<lparr>hs_num := 4000, hs_sport := htons 4000,
      hs_hash := ehash_key sample_env ((sample_sock (short_addr 5) (short_addr 9) 0 TCP_SYN_SENT)\<lparr>hs_num := 4000\<rparr>), hs_hashed := True\<rparr>"
    unfolding h_def check_established_free [OF ce] by (simp add: k1)
  have hc: "ninet_hash_connect (se_hash client_env) (inet_hash_connect client_env) (sw_hash w1) 4 (se_rcv_mem client_env) (se_daddr_mem client_env)
      = Some (0, h)"
    using l ce by (simp add: ninet_hash_connect_def k1 ninet_sk_port_offset_def secure_newip_port_ephemeral_def read_nip_addr_def client_env_def
        sample_sock_def h_def prod_eq_iff)
  let ?w = "w1\<lparr>sw_hash := h\<rparr>"
  have f': "connect_flow client_env server_addr 8 (short_addr 9) 4 w = connect_syn client_env 4 ?w"
    using src hc by (simp add: connect_flow_def short_addr_valid Let_def flip: w1_def)
  obtain isn where i: "connect_isn client_env 4 ?w = Some isn"
    using l by (simp add: connect_isn_def h4 sample_sock_def secure_tcp_nip_sequence_number_def read_nip_addr_def client_env_def Let_def)
  have st: "sk_state (zero_sock\<lparr>sk_state := TCP_SYN_SENT, write_seq := isn\<rparr>) = TCP_SYN_SENT" "rcv_queue (zero_sock\<lparr>sk_state := TCP_SYN_SENT, write_seq := isn\<rparr>) = []"
    "\<forall>p. clone_ok ex_env p" "net_xmit ex_env n \<noteq> - ECONNREFUSED" for n
    by (simp_all add: zero_sock_def ex_env_def ECONNREFUSED_def)
  obtain sk' where sk': "tcp_nip_send_syn ex_env True (zero_sock\<lparr>sk_state := TCP_SYN_SENT, write_seq := isn\<rparr>) = (0, sk')"
    using send_syn [OF st] by blast
  have "write_seq zero_sock = 0" by (simp add: zero_sock_def)
  then have "\<exists>w0. connect_syn client_env 4 ?w = Some (0, w0) \<and> sw_hash w0 = h"
    using i sk' s1 by (simp add: connect_syn_def reset_inherited_def Let_def) (simp add: client_env_def)
  then show ?thesis unfolding c f' using h4 by (auto simp: sample_sock_def)
qed

theorem connect_outcome_witness:
  "\<exists>w0. tcp_nip_connect client_env 16 server_addr 4 client_world = Some (0, w0) \<and> finds sample_env (sw_hash w0) 4"
proof -
  obtain w0 where w0: "tcp_nip_connect client_env 16 server_addr 4 client_world = Some (0, w0)" "hs_rcv_saddr (sid_of w0 4) = short_addr 5"
    using client_connects by blast
  have "norm_addr (hs_rcv_saddr (sid_of w0 4))" by (simp add: w0 sample_addr_norm)
  from connect_outcome [OF client_ready(1-5) this w0(1)] w0 show ?thesis by (simp add: client_env_def)
qed

theorem refused_connect_is_final_witness:
  "\<exists>w1 w2 w3. ninet_stream_connect client_env [] 0 16 server_addr 4 client_world = Some (- EINPROGRESS, w1) \<and>
    ninet_stream_connect client_env [] 9 16 server_addr 4 w2 = Some (- ECONNREFUSED, w3) \<and>
    ninet_stream_connect client_env [] 9 16 server_addr 4 w3 = Some (- EINVAL, w3)"
proof -
  obtain w0 where w0: "tcp_nip_connect client_env 16 server_addr 4 client_world = Some (0, w0)" "hs_rcv_saddr (sid_of w0 4) = short_addr 5"
    using client_connects by blast
  have n: "norm_addr (hs_rcv_saddr (sid_of w0 4))" by (simp add: w0 sample_addr_norm)
  define q where "q = (rst_skb 0)\<lparr>pkt_flags := or TCPHDR_RST TCPHDR_ACK, pkt_ack_seq := snd_nxt (ss_sk (sw_ss w0))\<rparr>"
  have q: "flag (pkt_flags q) TCPHDR_ACK" "flag (pkt_flags q) TCPHDR_RST" "pkt_ack_seq q = snd_nxt (ss_sk (sw_ss w0))"
    by (simp_all add: q_def flag_def TCPHDR_ACK_def TCPHDR_RST_def)
  have len: "2 \<le> (16 :: int)" by simp
  obtain w1 where w1: "ninet_stream_connect client_env [] 0 16 server_addr 4 client_world = Some (- EINPROGRESS, w1)"
    "\<forall>w2. ss_sk (sw_ss w2) = tcp_nip_do_rcv ex_env (\<lambda>_ sk. (0, sk)) q (ss_sk (sw_ss w1)) \<and> ss_state (sw_ss w2) = ss_state (sw_ss w1) \<longrightarrow>
      (\<exists>w3. ninet_stream_connect client_env [] 9 16 server_addr 4 w2 = Some (- ECONNREFUSED, w3) \<and>
        (\<forall>e ks timeo len addr. ninet_stream_connect e ks timeo len addr 4 w3 = Some (- EINVAL, w3)) \<and>
        (\<forall>e backlog. ninet_listen e backlog 4 w3 = (- EINVAL, w3)))"
    using refused_connect_is_final [OF client_ready(2,4,3,1,6,5) n w0(1) len q, where ks = "[]" and te = ex_env and cr = "\<lambda>_ sk. (0, sk)" and timeo = 9]
    by blast
  define w2 where "w2 = upd_ss (\<lambda>ss. ss\<lparr>ss_sk := tcp_nip_do_rcv ex_env (\<lambda>_ sk. (0, sk)) q (ss_sk (sw_ss w1))\<rparr>) w1"
  have "ss_sk (sw_ss w2) = tcp_nip_do_rcv ex_env (\<lambda>_ sk. (0, sk)) q (ss_sk (sw_ss w1)) \<and> ss_state (sw_ss w2) = ss_state (sw_ss w1)"
    by (simp add: w2_def upd_ss_def)
  then show ?thesis using w1 by blast
qed

theorem socket_limit_witness:
  "(\<exists>evs. snd (socket_run evs) = NIP_MAX_SOCKET_NUM + 5) \<and> (\<exists>n. socket_run [open_tcp, open_tcp, Release] = (n, n))"
proof (rule conjI)
  show "\<exists>evs. snd (socket_run evs) = NIP_MAX_SOCKET_NUM + 5" using socket_limit by (metis of_nat_numeral)
  have "Accepted \<notin> set [open_tcp, open_tcp, Release]" by (simp add: open_tcp_def)
  then show "\<exists>n. socket_run [open_tcp, open_tcp, Release] = (n, n)" using socket_limit by blast
qed

end
