(* ===== verification/Udp.thy ===== *)
theory Udp
  imports NipIo NinetHash
begin

text \<open>
  UDP over NewIP: src/src/linux/net/newip/udp.c, with _nip_udp_output of NipIo.

  The sockets of the table are records of what the lookup reads; the kernel's udp_lib_get_port, the receive queue and
  sk_peek_offset are parameters. That each chain of the table holds the sockets with its hash is what udp_lib_get_port
  keeps, and the hypothesis of the lookup. The last part composes the send path, the receive path and this file: a
  datagram arrives piece by piece at a socket that may take it.
\<close>

section \<open>Sockets and their table\<close>

record udp_sk =
  us_net :: nat
  us_ninet :: bool
  us_port_hash :: u16        \<comment> \<open>udp_port_hash, the local port in host order\<close>
  us_num :: u16
  us_dport :: u16            \<comment> \<open>network order\<close>
  us_rcv_saddr :: nip_addr
  us_daddr :: nip_addr
  us_bound_dev_if :: int
  us_incoming_cpu :: int
  us_portaddr_hash :: u32
  us_hashed :: bool

record nip_udp_table =
  ut_socks :: "sid \<Rightarrow> udp_sk"
  ut_hash2 :: "u32 \<Rightarrow> sid list"
  ut_mask :: u32

definition nip_udp_portaddr_hash :: "hash_env \<Rightarrow> nat \<Rightarrow> nip_addr \<Rightarrow> u16 \<Rightarrow> u32 option" where
  "nip_udp_portaddr_hash e net niaddr port = do {
     h \<leftarrow> nip_addr_hash niaddr;
     let mix = net_hash_mix e net; hash = jhash_1word e h mix in Some (xor hash (ucast port))
   }"

text \<open>The kernel's udp_lib_get_port chooses the port and hashes the socket.\<close>

definition nip_udp_get_port ::
  "hash_env \<Rightarrow> (nip_udp_table \<Rightarrow> sid \<Rightarrow> u16 \<Rightarrow> u32 \<Rightarrow> int \<times> nip_udp_table) \<Rightarrow> nip_udp_table \<Rightarrow> sid \<Rightarrow> u16 \<Rightarrow> (int \<times> nip_udp_table) option" where
  "nip_udp_get_port e udp_lib_get_port t s snum = do {
     hash2_nulladdr \<leftarrow> nip_udp_portaddr_hash e (us_net (ut_socks t s)) nip_any_addr snum;
     hash2_partial \<leftarrow> nip_udp_portaddr_hash e (us_net (ut_socks t s)) (us_rcv_saddr (ut_socks t s)) 0;
     let t = t\<lparr>ut_socks := (ut_socks t)(s := ut_socks t s\<lparr>us_portaddr_hash := hash2_partial\<rparr>)\<rparr> in
     Some (udp_lib_get_port t s snum hash2_nulladdr)
   }"

section \<open>Lookup\<close>

definition nip_udp_compute_score ::
  "hash_env \<Rightarrow> udp_sk \<Rightarrow> nat \<Rightarrow> nip_addr \<Rightarrow> u16 \<Rightarrow> nip_addr \<Rightarrow> u16 \<Rightarrow> int \<Rightarrow> int \<Rightarrow> int" where
  "nip_udp_compute_score e sk net saddr sport daddr hnum dif sdif =
    (if us_net sk \<noteq> net \<or> us_port_hash sk \<noteq> hnum \<or> \<not> us_ninet sk then -1
     else if us_dport sk \<noteq> 0 \<and> us_dport sk \<noteq> sport then -1
     else
       let score = (if us_dport sk \<noteq> 0 then 1 else 0) in
       if \<not> nip_addr_any (us_rcv_saddr sk) \<and> \<not> nip_addr_eq (us_rcv_saddr sk) daddr then -1
       else
         let score = score + (if \<not> nip_addr_any (us_rcv_saddr sk) then 1 else 0) in
         if \<not> nip_addr_any (us_daddr sk) \<and> \<not> nip_addr_eq (us_daddr sk) saddr then -1
         else
           let score = score + (if \<not> nip_addr_any (us_daddr sk) then 1 else 0) in
           if us_bound_dev_if sk \<noteq> 0 \<and> \<not> (dif = us_bound_dev_if sk \<or> sdif = us_bound_dev_if sk) then -1
           else score + (if us_bound_dev_if sk \<noteq> 0 then 1 else 0)
             + (if us_incoming_cpu sk = smp_processor_id e then 1 else 0))"

fun udp_walk :: "(sid \<Rightarrow> int) \<Rightarrow> sid option \<Rightarrow> int \<Rightarrow> sid list \<Rightarrow> sid option" where
  "udp_walk score result badness [] = result"
| "udp_walk score result badness (s # ss) =
    (if score s > badness then udp_walk score (Some s) (score s) ss else udp_walk score result badness ss)"

definition nip_udp_lib_lookup2 ::
  "hash_env \<Rightarrow> nip_udp_table \<Rightarrow> nat \<Rightarrow> nip_addr \<Rightarrow> u16 \<Rightarrow> nip_addr \<Rightarrow> u16 \<Rightarrow> int \<Rightarrow> int \<Rightarrow> sid list \<Rightarrow> sid option" where
  "nip_udp_lib_lookup2 e t net saddr sport daddr hnum dif sdif hslot2 =
    udp_walk (\<lambda>s. nip_udp_compute_score e (ut_socks t s) net saddr sport daddr hnum dif sdif) None (-1) hslot2"

definition nip_udp_lib_lookup ::
  "hash_env \<Rightarrow> nip_udp_table \<Rightarrow> nat \<Rightarrow> nip_addr \<Rightarrow> u16 \<Rightarrow> nip_addr \<Rightarrow> u16 \<Rightarrow> int \<Rightarrow> int \<Rightarrow> sid option option" where
  "nip_udp_lib_lookup e t net saddr sport daddr dport dif sdif = do {
     let hnum = ntohs dport in do {
       hash2 \<leftarrow> nip_udp_portaddr_hash e net daddr hnum;
       (case nip_udp_lib_lookup2 e t net saddr sport daddr hnum dif sdif (ut_hash2 t (and hash2 (ut_mask t))) of
          Some s \<Rightarrow> Some (Some s)
        | None \<Rightarrow> do {
            hash2 \<leftarrow> nip_udp_portaddr_hash e net nip_any_addr hnum;
            Some (nip_udp_lib_lookup2 e t net saddr sport nip_any_addr hnum dif sdif (ut_hash2 t (and hash2 (ut_mask t))))
          })
     }
   }"

section \<open>Reception\<close>

text \<open>The bytes from the transport header to the end of the buffer; a read of the header outside is \<^verbatim>\<open>None\<close>.\<close>

definition udp_hdr :: "nip_skb \<Rightarrow> bytes" where
  "udp_hdr skb = drop (skb_th skb) (skb_mem skb)"

definition nip_get_udp_input_checksum :: "nip_skb \<Rightarrow> bool option" where
  "nip_get_udp_input_checksum skb = do {
     len \<leftarrow> ld16 (udp_hdr skb) 4;
     let check_len = ntohs len;
         nph = \<lparr>ps_saddr = cb_srcaddr skb, ps_daddr = cb_dstaddr skb, ps_check_len = len, ps_nexthdr = cb_nexthdr skb\<rparr> in do {
       r \<leftarrow> nip_check_sum_parse (udp_hdr skb) check_len nph;
       Some (r = 0xFFFF)
     }
   }"

text \<open>The kernel's __udp_enqueue_schedule_skb answers whether there is room; the queued packet, if any.\<close>

definition nip_udp_queue_rcv_skb :: "(sid \<Rightarrow> nip_skb \<Rightarrow> int) \<Rightarrow> sid \<Rightarrow> nip_skb \<Rightarrow> int \<times> (sid \<times> nip_skb) option" where
  "nip_udp_queue_rcv_skb enqueue s skb = (if enqueue s skb < 0 then (-1, None) else (0, Some (s, skb)))"

text \<open>skb_pull moves data behind the UDP header if the packet is long enough; its result is not looked at. The length
  is then taken from the header.\<close>

definition nip_udp_input ::
  "hash_env \<Rightarrow> nip_udp_table \<Rightarrow> (sid \<Rightarrow> nip_skb \<Rightarrow> int) \<Rightarrow> nat \<Rightarrow> int \<Rightarrow> nip_skb \<Rightarrow> (int \<times> (sid \<times> nip_skb) option) option" where
  "nip_udp_input e t enqueue net iif skb = do {
     ok \<leftarrow> nip_get_udp_input_checksum skb;
     if \<not> ok then Some (-1, None)
     else do {
       source \<leftarrow> ld16 (udp_hdr skb) 0;
       dest \<leftarrow> ld16 (udp_hdr skb) 2;
       len \<leftarrow> ld16 (udp_hdr skb) 4;
       sk \<leftarrow> nip_udp_lib_lookup e t net (cb_srcaddr skb) source (cb_dstaddr skb) dest iif 0;
       (case sk of
          None \<Rightarrow> Some (-1, None)
        | Some s \<Rightarrow>
          let skb = (if unat (skb_len skb) < 8 then skb else skb\<lparr>skb_pos := skb_pos skb + 8\<rparr>);
              skb = skb\<lparr>skb_len := ucast (ntohs len) - 8\<rparr>
          in Some (nip_udp_queue_rcv_skb enqueue s skb))
     }
   }"

record udp_recv_result =
  ur_ret :: int
  ur_data :: bytes
  ur_trunc :: bool                      \<comment> \<open>MSG_TRUNC set in msg_flags\<close>
  ur_name :: "(u16 \<times> nip_addr) option"
  ur_consumed :: int                    \<comment> \<open>the length given to skb_consume_udp\<close>

text \<open>peek_off is sk_peek_offset, got the result of __skb_recv_udp: an error, or a packet and the offset in it. The copy
  takes the bytes at data, whatever the offset; beyond the end of the buffer it is \<^verbatim>\<open>None\<close>.\<close>

definition nip_udp_recvmsg :: "int \<Rightarrow> (int + nip_skb \<times> u32) \<Rightarrow> u32 \<Rightarrow> bool \<Rightarrow> bool \<Rightarrow> udp_recv_result option" where
  "nip_udp_recvmsg peek_off got len msg_name flag_trunc =
    (case got of
       Inl err \<Rightarrow> Some \<lparr>ur_ret = err, ur_data = [], ur_trunc = False, ur_name = None, ur_consumed = 0\<rparr>
     | Inr (skb, off) \<Rightarrow>
       let ulen = skb_len skb;
           (copied, trunc) = (if len > ulen - off then (ulen - off, False) else (len, len < ulen));
           data = drop (skb_pos skb) (skb_mem skb) in
       if unat copied > length data then None
       else do {
         name \<leftarrow> (if msg_name then map_option (\<lambda>source. Some (source, cb_srcaddr skb)) (ld16 (udp_hdr skb) 0) else Some None);
         let err = (if flag_trunc then sint ulen else sint copied) in
         Some \<lparr>ur_ret = err, ur_data = take (unat copied) data, ur_trunc = trunc, ur_name = name,
               ur_consumed = (if peek_off \<noteq> 0 then - err else err)\<rparr>
       })"

section \<open>Sending\<close>

text \<open>The destination of a sendto call: the family is NewIP, the address and the port.\<close>

definition nip_udp_output ::
  "send_env \<Rightarrow> hash32 \<Rightarrow> nat \<Rightarrow> (fib_tb_id \<Rightarrow> rt_id option) \<Rightarrow> (rt_id \<Rightarrow> u32) \<Rightarrow> udp_sk \<Rightarrow> (bool \<times> nip_addr \<times> u16) option \<Rightarrow> nip_addr \<Rightarrow> bytes
    \<Rightarrow> netns_newip \<Rightarrow> (int \<times> bytes list \<times> netns_newip) option" where
  "nip_udp_output e h32 cpu new route_mtu sk sin stack_saddr msg net =
    (case sin of
       None \<Rightarrow> Some (- EDESTADDRREQ, [], net)
     | Some (ninet, sin_addr, sin_port) \<Rightarrow>
       if \<not> ninet then Some (- EAFNOSUPPORT, [], net)
       else if nip_addr_invalid sin_addr \<noteq> CURRENT_ADDR_VALID then Some (- EFAULT, [], net)
       else do {
         (res, net) \<leftarrow> nip_sk_dst_lookup_flow h32 cpu new sin_addr stack_saddr (us_bound_dev_if sk) net;
         (case res of
            Inl err \<Rightarrow> Some (if err = 0 then int (length msg) else err, [], net)
          | Inr (r, saddr) \<Rightarrow> do {
              (err, pkts) \<leftarrow> nip_udp_output_pkts e (dst_output (rts net r)) (route_mtu r) msg (of_nat (length msg)) 8 saddr (htons (us_num sk)) sin_addr sin_port;
              Some (if err = 0 then int (length msg) else err, pkts, dst_release r net)
            })
       })"

section \<open>Lookup finds the sockets\<close>

lemma udp_walk_spec:
  "case udp_walk score result badness ss of
      None \<Rightarrow> result = None \<and> (\<forall>y \<in> set ss. score y \<le> badness)
    | Some x \<Rightarrow> (x \<in> set ss \<and> badness < score x \<or> result = Some x \<and> (\<forall>y \<in> set ss. score y \<le> badness)) \<and>
        (x \<in> set ss \<and> badness < score x \<longrightarrow> (\<forall>y \<in> set ss. score y \<le> score x))"
proof (induction ss arbitrary: result badness)
  case Nil
  then show ?case by (auto split: option.split)
next
  case (Cons s ss)
  show ?case
    using Cons.IH [of "Some s" "score s"] Cons.IH [of result badness]
    by (cases "score s > badness") (force split: option.splits)+
qed

interpretation udp_scan: best_scan "\<lambda>(_ :: unit) sc. udp_walk sc None (-1)" "-1"
proof
  fix p :: unit and sc xs x
  show "udp_walk sc None (-1) xs = Some x \<Longrightarrow> x \<in> set xs \<and> -1 < sc x \<and> (\<forall>y \<in> set xs. sc y \<le> sc x)"
    "udp_walk sc None (-1) xs = None \<Longrightarrow> \<forall>y \<in> set xs. sc y \<le> -1"
    using udp_walk_spec [where score = sc and result = None and badness = "-1" and ss = xs] by auto
qed

text \<open>What udp_lib_get_port and udp_lib_unhash keep: each chain holds the hashed sockets whose address and port have its
  hash.\<close>

definition udp_table_ok :: "hash_env \<Rightarrow> nip_udp_table \<Rightarrow> bool" where
  "udp_table_ok e t \<longleftrightarrow> (\<forall>b. set (ut_hash2 t b) = {s. us_hashed (ut_socks t s) \<and>
     (\<exists>H. nip_udp_portaddr_hash e (us_net (ut_socks t s)) (us_rcv_saddr (ut_socks t s)) (us_port_hash (ut_socks t s)) = Some H \<and>
       and H (ut_mask t) = b)})"

definition udp_addrs_norm :: "nip_udp_table \<Rightarrow> bool" where
  "udp_addrs_norm t \<longleftrightarrow> (\<forall>s. us_hashed (ut_socks t s) \<longrightarrow>
     norm_addr (us_rcv_saddr (ut_socks t s)) \<and> norm_addr (us_daddr (ut_socks t s)))"

text \<open>The sockets a datagram may be delivered to: a connected or bound socket takes only what matches.\<close>

definition udp_sk_for :: "nat \<Rightarrow> nip_addr \<Rightarrow> u16 \<Rightarrow> nip_addr \<Rightarrow> u16 \<Rightarrow> int \<Rightarrow> int \<Rightarrow> udp_sk \<Rightarrow> bool" where
  "udp_sk_for net saddr sport daddr hnum dif sdif sk \<longleftrightarrow> us_net sk = net \<and> us_port_hash sk = hnum \<and> us_ninet sk \<and>
     us_dport sk \<in> {0, sport} \<and> us_rcv_saddr sk \<in> {nip_any_addr, daddr} \<and> us_daddr sk \<in> {nip_any_addr, saddr} \<and>
     us_bound_dev_if sk \<in> {0, dif, sdif}"

lemma norm_any_iff: "norm_addr a \<Longrightarrow> nip_addr_any a \<longleftrightarrow> a = nip_any_addr"
proof
  assume n: "norm_addr a" and "nip_addr_any a"
  then have "bitlen a = 16" "take 4 (field8 a) = [0xFF, 0x09, 0, 0]" by (simp_all add: nip_addr_any_iff norm_addr_def)
  then have "take 2 (take 4 (field8 a)) = [0xFF, 0x09]" by (simp only:) simp
  then have "take 2 (field8 a) = [0xFF, 0x09]" by simp
  then have "nip_addr_eq a nip_any_addr" using \<open>bitlen a = 16\<close> by (simp add: nip_addr_eq_def nip_any_addr_def)
  then show "a = nip_any_addr" using norm_addr_eq [OF n norm_any] by simp
qed (simp add: any_addr_valid)

lemma udp_score_nonneg:
  assumes "norm_addr (us_rcv_saddr sk)" "norm_addr (us_daddr sk)" "norm_addr saddr" "norm_addr daddr"
  shows "-1 < nip_udp_compute_score e sk net saddr sport daddr hnum dif sdif \<longleftrightarrow> udp_sk_for net saddr sport daddr hnum dif sdif sk"
  using assms by (auto simp: nip_udp_compute_score_def udp_sk_for_def norm_addr_eq norm_any_iff Let_def)

lemma portaddr_hash_Some: "norm_addr a \<Longrightarrow> \<exists>H. nip_udp_portaddr_hash e net a port = Some H"
  using nip_addr_hash_cong [of a a] by (auto simp: norm_addr_def nip_addr_eq_refl nip_udp_portaddr_hash_def)

lemma udp_lookup_spec:
  assumes ok: "udp_table_ok e t" "udp_addrs_norm t" and n: "norm_addr saddr" "norm_addr daddr"
  shows "\<exists>r. nip_udp_lib_lookup e t net saddr sport daddr dport dif sdif = Some r \<and>
    (r = None \<longleftrightarrow> (\<nexists>s. us_hashed (ut_socks t s) \<and> udp_sk_for net saddr sport daddr (ntohs dport) dif sdif (ut_socks t s))) \<and>
    (\<forall>s. r = Some s \<longrightarrow> us_hashed (ut_socks t s) \<and> udp_sk_for net saddr sport daddr (ntohs dport) dif sdif (ut_socks t s) \<and>
      (\<forall>s'. us_hashed (ut_socks t s') \<and> udp_sk_for net saddr sport daddr (ntohs dport) dif sdif (ut_socks t s') \<and>
          us_rcv_saddr (ut_socks t s') = daddr \<longrightarrow>
        nip_udp_compute_score e (ut_socks t s') net saddr sport daddr (ntohs dport) dif sdif
          \<le> nip_udp_compute_score e (ut_socks t s) net saddr sport daddr (ntohs dport) dif sdif))"
proof -
  let ?hn = "ntohs dport"
  define A where "A = {s. us_hashed (ut_socks t s)}"
  define sc where "sc = (\<lambda>s. nip_udp_compute_score e (ut_socks t s) net saddr sport daddr ?hn dif sdif)"
  define sw where "sw = (\<lambda>s. nip_udp_compute_score e (ut_socks t s) net saddr sport nip_any_addr ?hn dif sdif)"
  define k where "k = (\<lambda>H s. \<exists>G. nip_udp_portaddr_hash e (us_net (ut_socks t s)) (us_rcv_saddr (ut_socks t s)) (us_port_hash (ut_socks t s)) = Some G \<and>
    and G (ut_mask t) = and H (ut_mask t))"
  let ?L = "\<lambda>a s. udp_sk_for net saddr sport a ?hn dif sdif (ut_socks t s)"
  obtain H where H: "nip_udp_portaddr_hash e net daddr ?hn = Some H" using portaddr_hash_Some [OF n(2)] by blast
  obtain W where W: "nip_udp_portaddr_hash e net nip_any_addr ?hn = Some W" using portaddr_hash_Some [OF norm_any] by blast
  have p: "s \<in> A \<Longrightarrow> -1 < sc s \<longleftrightarrow> ?L daddr s" and pw: "s \<in> A \<Longrightarrow> -1 < sw s \<longleftrightarrow> ?L nip_any_addr s" for s
    unfolding sc_def sw_def using udp_score_nonneg ok(2) n norm_any by (simp_all add: A_def udp_addrs_norm_def)
  have kk: "?L daddr s \<Longrightarrow> us_rcv_saddr (ut_socks t s) = daddr \<Longrightarrow> k H s"
    and kw: "?L nip_any_addr s \<Longrightarrow> k W s" for s
    using H W by (auto simp: k_def udp_sk_for_def)
  have b: "set (ut_hash2 t (and H (ut_mask t))) = {s \<in> A. k H s}" for H
    using ok(1) by (auto simp: udp_table_ok_def A_def k_def)
  define r where "r = (case udp_walk sc None (-1) (ut_hash2 t (and H (ut_mask t))) of Some x \<Rightarrow> Some x
    | None \<Rightarrow> udp_walk sw None (-1) (ut_hash2 t (and W (ut_mask t))))"
  have "nip_udp_lib_lookup e t net saddr sport daddr dport dif sdif = Some r"
    using H W by (simp add: nip_udp_lib_lookup_def nip_udp_lib_lookup2_def r_def sc_def sw_def Let_def split: option.split)
  moreover have R: "(r = None \<longleftrightarrow> (\<forall>x \<in> A. sc x \<le> -1)) \<and>
    (\<forall>x. r = Some x \<longrightarrow> x \<in> A \<and> -1 < sc x \<and> (\<forall>y \<in> A. k H y \<and> -1 < sc y \<longrightarrow> sc y \<le> sc x))"
  proof (rule udp_scan.two_scans [OF b _ b])
    show "k H x \<or> -1 < sw x" if "x \<in> A" "-1 < sc x" for x
      using kk p pw that by (auto simp: udp_sk_for_def)
    show "k W x" "-1 < sc x" if "x \<in> A" "-1 < sw x" for x
      using kw p pw that by (auto simp: udp_sk_for_def)
  qed (simp add: r_def)
  moreover have "(\<forall>x \<in> A. sc x \<le> -1) \<longleftrightarrow> (\<nexists>s. us_hashed (ut_socks t s) \<and> ?L daddr s)"
    using p by (auto simp: A_def not_less [symmetric])
  moreover have "us_hashed (ut_socks t x) \<and> ?L daddr x \<and> (\<forall>y. us_hashed (ut_socks t y) \<and> ?L daddr y \<and>
      us_rcv_saddr (ut_socks t y) = daddr \<longrightarrow> sc y \<le> sc x)" if "r = Some x" for x
  proof -
    have x: "x \<in> A" "-1 < sc x" and m: "\<And>y. y \<in> A \<Longrightarrow> k H y \<Longrightarrow> -1 < sc y \<Longrightarrow> sc y \<le> sc x" using R that by blast+
    then show ?thesis using p kk by (auto simp: A_def)
  qed
  ultimately show ?thesis unfolding sc_def by blast
qed
text \<open>the lookup of a datagram's socket, which reads the chain of its address and then the wildcard's, finds a socket
  exactly when some hashed socket may take the datagram; the socket it finds may take it, and no socket bound to the
  destination address matches in more respects.\<close>

theorem udp_lookup_correct:
  assumes ok: "udp_table_ok e t" "udp_addrs_norm t" and n: "norm_addr saddr" "norm_addr daddr"
  shows "\<exists>r. nip_udp_lib_lookup e t net saddr sport daddr dport dif sdif = Some r \<and>
    (r = None \<longleftrightarrow> (\<nexists>s. us_hashed (ut_socks t s) \<and> udp_sk_for net saddr sport daddr (ntohs dport) dif sdif (ut_socks t s))) \<and>
    (\<forall>s. r = Some s \<longrightarrow> us_hashed (ut_socks t s) \<and> udp_sk_for net saddr sport daddr (ntohs dport) dif sdif (ut_socks t s) \<and>
      (\<forall>s'. us_hashed (ut_socks t s') \<and> udp_sk_for net saddr sport daddr (ntohs dport) dif sdif (ut_socks t s') \<and>
          us_rcv_saddr (ut_socks t s') = daddr \<longrightarrow>
        nip_udp_compute_score e (ut_socks t s') net saddr sport daddr (ntohs dport) dif sdif
          \<le> nip_udp_compute_score e (ut_socks t s) net saddr sport daddr (ntohs dport) dif sdif))"
  using assms by (rule udp_lookup_spec)

definition sample_udp :: nip_udp_table where
  "sample_udp =
    (let sk = \<lparr>us_net = 1, us_ninet = True, us_port_hash = 7, us_num = 7, us_dport = 0, us_rcv_saddr = nip_any_addr, us_daddr = nip_any_addr,
               us_bound_dev_if = 0, us_incoming_cpu = -1, us_portaddr_hash = 0, us_hashed = True\<rparr>;
         H = the (nip_udp_portaddr_hash sample_env 1 nip_any_addr 7) in
     \<lparr>ut_socks = (\<lambda>s. sk\<lparr>us_hashed := (s = 1)\<rparr>), ut_hash2 = (\<lambda>b. if b = and H 3 then [1] else []), ut_mask = 3\<rparr>)"

lemma sample_udp_ok: "udp_table_ok sample_env sample_udp" "udp_addrs_norm sample_udp"
proof -
  obtain H where "nip_udp_portaddr_hash sample_env 1 nip_any_addr 7 = Some H" using portaddr_hash_Some [OF norm_any] by blast
  then show "udp_table_ok sample_env sample_udp"
    by (auto simp: udp_table_ok_def sample_udp_def Let_def)
  show "udp_addrs_norm sample_udp" by (simp add: udp_addrs_norm_def sample_udp_def Let_def norm_any)
qed

theorem udp_lookup_correct_witness:
  "nip_udp_lib_lookup sample_env sample_udp 1 (short_addr 9) 5 (short_addr 6) (htons 7) 0 0 = Some (Some 1)"
proof -
  obtain r where r: "nip_udp_lib_lookup sample_env sample_udp 1 (short_addr 9) 5 (short_addr 6) (htons 7) 0 0 = Some r"
    "r = None \<longleftrightarrow> (\<nexists>s. us_hashed (ut_socks sample_udp s) \<and> udp_sk_for 1 (short_addr 9) 5 (short_addr 6) (ntohs (htons 7)) 0 0 (ut_socks sample_udp s))"
    "\<forall>s. r = Some s \<longrightarrow> us_hashed (ut_socks sample_udp s)"
    using udp_lookup_correct [OF sample_udp_ok sample_addr_norm(3,2), of 1 5 "htons 7" 0 0] by blast
  have "us_hashed (ut_socks sample_udp 1) \<and> udp_sk_for 1 (short_addr 9) 5 (short_addr 6) (ntohs (htons 7)) 0 0 (ut_socks sample_udp 1)"
    by (simp add: udp_sk_for_def sample_udp_def Let_def)
  moreover have "us_hashed (ut_socks sample_udp s) \<longleftrightarrow> s = 1" for s by (simp add: sample_udp_def Let_def)
  ultimately show ?thesis using r by (cases r) auto
qed

section \<open>Datagrams end to end\<close>

lemma valid_norm_addr: "valid_addr a \<Longrightarrow> norm_addr a"
proof -
  assume v: "valid_addr a"
  have "unat (bitlen a) = 8 * get_nip_addr_len a"
    using v valid_addrD(3) [OF v] by (metis valid_addr_def mult_div_mod_eq add.right_neutral)
  then have "bitlen a \<le> 64" using get_nip_addr_len_le [of a] by (simp add: word_le_nat_alt)
  then show ?thesis using v by (simp add: norm_addr_def valid_addr_def)
qed

lemma ld16_udp8:
  "ld16 (udp8 sport dport len check @ payload) 0 = Some sport" "ld16 (udp8 sport dport len check @ payload) 2 = Some dport"
  "ld16 (udp8 sport dport len check @ payload) 4 = Some len"
  by (simp_all add: udp8_def ld16_def)

lemma recvmsg_payload:
  assumes "transport_data skb = payload" "skb_len skb = of_nat (length payload)" "length payload < 2 ^ 31"
    and "ld16 (udp_hdr skb) 0 = Some source" "length payload \<le> unat n"
  shows "nip_udp_recvmsg 0 (Inr (skb, 0)) n True False = Some \<lparr>ur_ret = int (length payload), ur_data = payload, ur_trunc = False,
    ur_name = Some (source, cb_srcaddr skb), ur_consumed = int (length payload)\<rparr>"
proof -
  have u: "unat (of_nat (length payload) :: u32) = length payload" using assms(3) by (intro unat_of_nat_u32) simp
  have i: "sint (of_nat (length payload) :: u32) = int (length payload)"
    using assms(3) u by (simp add: sint_uint uint_nat signed_take_bit_int_eq_self)
  have "\<not> n < of_nat (length payload)" using assms(5) by (simp add: word_less_nat_alt u)
  moreover have "n > of_nat (length payload) \<or> n = of_nat (length payload)" using calculation by (auto simp: not_less order_le_less)
  ultimately show ?thesis using assms(1,2,4) u i
    by (auto simp: nip_udp_recvmsg_def transport_data_def Let_def)
qed

lemma udp_input_packet:
  assumes ok: "udp_table_ok e t" "udp_addrs_norm t" and v: "valid_addr saddr" "valid_addr daddr"
    and sk: "us_hashed (ut_socks t s)" "udp_sk_for net saddr sport daddr (ntohs dport) iif 0 (ut_socks t s)"
    and enq: "\<And>s skb. 0 \<le> enqueue s skb"
    and skb: "transport_data skb = udp8 sport dport (htons (of_nat (length payload + 8))) check @ payload" "skb_th skb = skb_pos skb"
      "skb_len skb = of_nat (length payload + 8)" "cb_srcaddr skb = saddr" "cb_dstaddr skb = daddr" "cb_nexthdr skb = IPPROTO_UDP"
    and ck: "nip_check_sum_parse (udp8 sport dport (htons (of_nat (length payload + 8))) check @ payload) (of_nat (length payload + 8))
        (pseudo_for saddr daddr (of_nat (length payload + 8))) = Some 0xFFFF"
    and l: "length payload + 8 < 65536"
  shows "\<exists>s' skb'. nip_udp_input e t enqueue net iif skb = Some (0, Some (s', skb')) \<and>
    udp_sk_for net saddr sport daddr (ntohs dport) iif 0 (ut_socks t s') \<and> transport_data skb' = payload \<and>
    skb_len skb' = of_nat (length payload) \<and> ld16 (udp_hdr skb') 0 = Some sport \<and> cb_srcaddr skb' = saddr"
proof -
  have h: "udp_hdr skb = udp8 sport dport (htons (of_nat (length payload + 8))) check @ payload"
    using skb(1,2) by (simp add: udp_hdr_def transport_data_def)
  have c: "nip_get_udp_input_checksum skb = Some True"
    using ck unfolding nip_get_udp_input_checksum_def h ld16_udp8 skb(4-6) pseudo_for_def
    by (simp add: Let_def del: of_nat_add)
  obtain r where r: "nip_udp_lib_lookup e t net saddr sport daddr dport iif 0 = Some r" "r \<noteq> None"
    "\<And>s. r = Some s \<Longrightarrow> udp_sk_for net saddr sport daddr (ntohs dport) iif 0 (ut_socks t s)"
    using udp_lookup_spec [OF ok valid_norm_addr [OF v(1)] valid_norm_addr [OF v(2)], of net sport dport iif 0] sk by blast
  then obtain s' where s': "r = Some s'" by auto
  have u: "\<not> unat (skb_len skb) < 8" using l by (simp add: skb(3) unat_of_nat_u32 del: of_nat_add)
  have len: "ucast (of_nat (length payload + 8) :: u16) - 8 = (of_nat (length payload) :: u32)"
  proof -
    have "(ucast (of_nat (length payload + 8) :: u16) :: u32) = of_nat (length payload + 8)"
      by (rule word_unat_eq_iff [THEN iffD2])
        (use l in \<open>simp add: unsigned_ucast_eq take_bit_eq_mod unat_of_nat del: of_nat_add\<close>)
    then show ?thesis by simp
  qed
  let ?skb = "skb\<lparr>skb_pos := skb_pos skb + 8, skb_len := of_nat (length payload)\<rparr>"
  have "nip_udp_input e t enqueue net iif skb = Some (0, Some (s', ?skb))"
    using enq [of s' ?skb] u
    by (simp add: nip_udp_input_def c h ld16_udp8 skb(4,5) r(1) s' nip_udp_queue_rcv_skb_def Let_def len del: of_nat_add)
  moreover have "transport_data ?skb = payload"
  proof -
    have "transport_data ?skb = drop 8 (transport_data skb)" by (simp add: transport_data_def add.commute)
    then show ?thesis by (simp add: skb(1))
  qed
  moreover have "ld16 (udp_hdr ?skb) 0 = Some sport" using h by (simp add: udp_hdr_def ld16_udp8)
  ultimately show ?thesis using r(3) [OF s'] skb(4) by fastforce
qed

text \<open>C11: a datagram of any length that fits the fragments is delivered: the packets nip_udp_output sends pass the receive
  path and the checksum of the peer, each reaches a socket that may take it, and the calls of recvmsg return the
  pieces in order, which together are the data sent, with the port and the address of the sender.\<close>

theorem datagram_delivered:
  assumes v: "valid_addr saddr" "valid_addr daddr"
    and mem: "\<And>n. \<exists>m. alloc_skb snd_env n = Some m \<and> length m = n" and ok: "\<And>p. nip_send_skb snd_env out p = Some (0, Some p)"
    and mtu: "get_nip_hdr_len NIP_HDR_UDP (Some saddr) (Some daddr) + 16 \<le> unat mtu" "unat mtu < 65536"
    and len: "length data < 4294967296"
    and tab: "udp_table_ok e t" "udp_addrs_norm t"
    and sk: "us_hashed (ut_socks t s)" "udp_sk_for net saddr sport daddr (ntohs dport) iif 0 (ut_socks t s)"
    and enq: "\<And>s skb. 0 \<le> enqueue s skb" and protos: "protos IPPROTO_UDP = Some nip_udp_protocol"
  shows "\<exists>pkts pieces. nip_udp_output_pkts snd_env out mtu data (of_nat (length data)) 8 saddr sport daddr dport = Some (0, pkts) \<and>
    concat pieces = data \<and>
    list_all2 (\<lambda>piece pkt. \<exists>skb s' skb'. delivered icmp protos pkt = Some (nip_udp_protocol, skb) \<and>
      nip_udp_input e t enqueue net iif skb = Some (0, Some (s', skb')) \<and>
      udp_sk_for net saddr sport daddr (ntohs dport) iif 0 (ut_socks t s') \<and>
      (\<forall>n. length piece \<le> unat n \<longrightarrow> nip_udp_recvmsg 0 (Inr (skb', 0)) n True False
        = Some \<lparr>ur_ret = int (length piece), ur_data = piece, ur_trunc = False, ur_name = Some (sport, saddr),
            ur_consumed = int (length piece)\<rparr>)) pieces pkts"
proof -
  obtain pkts pieces where out: "nip_udp_output_pkts snd_env out mtu data (of_nat (length data)) 8 saddr sport daddr dport = Some (0, pkts)"
    and cc: "concat pieces = data" and l2: "list_all2 (udp_packet_of saddr daddr NIP_DEFAULT_TTL sport dport) pieces pkts"
    and fit: "\<forall>c \<in> set pieces. get_nip_hdr_len NIP_HDR_UDP (Some saddr) (Some daddr) + 8 + length c \<le> unat mtu"
    using udp_output_packets [where e = snd_env and sport = sport and dport = dport, OF v mem ok mtu len] by blast
  have rx: "\<exists>skb s' skb'. delivered icmp protos pkt = Some (nip_udp_protocol, skb) \<and>
      nip_udp_input e t enqueue net iif skb = Some (0, Some (s', skb')) \<and>
      udp_sk_for net saddr sport daddr (ntohs dport) iif 0 (ut_socks t s') \<and>
      (\<forall>n. length piece \<le> unat n \<longrightarrow> nip_udp_recvmsg 0 (Inr (skb', 0)) n True False
        = Some \<lparr>ur_ret = int (length piece), ur_data = piece, ur_trunc = False, ur_name = Some (sport, saddr),
            ur_consumed = int (length piece)\<rparr>)"
    if "udp_packet_of saddr daddr NIP_DEFAULT_TTL sport dport piece pkt" "piece \<in> set pieces" for piece pkt
  proof -
    note pk = that(1)
    have l: "length piece + 8 < 65536" using fit that(2) mtu(2) by fastforce
    obtain check where pkt: "pkt = udp_hdr_bytes daddr saddr NIP_DEFAULT_TTL IPPROTO_UDP @
        udp8 sport dport (htons (of_nat (length piece + 8))) check @ piece"
      and ck: "nip_check_sum_parse (udp8 sport dport (htons (of_nat (length piece + 8))) check @ piece) (of_nat (length piece + 8))
        (pseudo_for saddr daddr (of_nat (length piece + 8))) = Some 0xFFFF"
      using pk unfolding udp_packet_of_def by blast
    let ?d = "udp8 sport dport (htons (of_nat (length piece + 8))) check @ piece"
    have ld: "length ?d = length piece + 8" by simp
    have "?d \<noteq> []" "length ?d < 2 ^ 31" using l ld by (simp_all add: udp8_def)
    then obtain skb where 1: "delivered icmp protos pkt = Some (nip_udp_protocol, skb)" "transport_data skb = ?d"
      "skb_len skb = of_nat (length ?d)" "cb_srcaddr skb = saddr" "cb_dstaddr skb = daddr" "cb_nexthdr skb = IPPROTO_UDP"
      "skb_th skb = skb_pos skb"
      using rcv_udp_packet [where icmp = icmp and ttl = NIP_DEFAULT_TTL and protos = protos, OF v protos] unfolding pkt by blast
    obtain s' skb' where 2: "nip_udp_input e t enqueue net iif skb = Some (0, Some (s', skb'))"
      "udp_sk_for net saddr sport daddr (ntohs dport) iif 0 (ut_socks t s')" "transport_data skb' = piece"
      "skb_len skb' = of_nat (length piece)" "ld16 (udp_hdr skb') 0 = Some sport" "cb_srcaddr skb' = saddr"
      using udp_input_packet [where enqueue = enqueue, OF tab v sk enq 1(2,7) 1(3) [unfolded ld] 1(4-6) ck l] by blast
    have "length piece < 2 ^ 31" using l by simp
    then show ?thesis using 1(1) 2(1,2) recvmsg_payload [OF 2(3,4) _ 2(5)] 2(6) by blast
  qed
  have "list_all2 (\<lambda>piece pkt. \<exists>skb s' skb'. delivered icmp protos pkt = Some (nip_udp_protocol, skb) \<and>
      nip_udp_input e t enqueue net iif skb = Some (0, Some (s', skb')) \<and>
      udp_sk_for net saddr sport daddr (ntohs dport) iif 0 (ut_socks t s') \<and>
      (\<forall>n. length piece \<le> unat n \<longrightarrow> nip_udp_recvmsg 0 (Inr (skb', 0)) n True False
        = Some \<lparr>ur_ret = int (length piece), ur_data = piece, ur_trunc = False, ur_name = Some (sport, saddr),
            ur_consumed = int (length piece)\<rparr>)) pieces pkts"
    by (rule list.rel_mono_strong [OF l2]) (use rx in blast)
  with out cc show ?thesis by blast
qed

theorem datagram_delivered_witness:
  "\<exists>pkts pieces. nip_udp_output_pkts sample_send Fun_nip_output 64 (replicate 100 7) (of_nat (length (replicate 100 (7 :: u8)))) 8 (short_addr 5) 0x3412 (short_addr 600) (htons 7)
      = Some (0, pkts) \<and> concat pieces = replicate 100 (7 :: u8) \<and> length pieces = length pkts"
proof -
  have mem: "\<exists>m. alloc_skb sample_send n = Some m \<and> length m = n" and ok: "nip_send_skb sample_send Fun_nip_output p = Some (0, Some p)" for n p
    by (simp_all add: sample_send_def nip_send_skb_def nip_local_out_def)
  have mtu: "get_nip_hdr_len NIP_HDR_UDP (Some (short_addr 5)) (Some (short_addr 600)) + 16 \<le> unat (64 :: u32)" "unat (64 :: u32) < 65536"
    by (simp_all add: get_nip_hdr_len_def get_nip_addr_len_def short_addr_def short_bytes_def addr_defs)
  have sk: "us_hashed (ut_socks sample_udp 1)"
    "udp_sk_for 1 (short_addr 5) 0x3412 (short_addr 600) (ntohs (htons 7)) 0 0 (ut_socks sample_udp 1)"
    by (simp_all add: udp_sk_for_def sample_udp_def Let_def)
  have enq: "0 \<le> (\<lambda>(_ :: sid) (_ :: nip_skb). 0 :: int) s skb" for s skb by simp
  have len: "length (replicate 100 (7 :: u8)) < 4294967296" by simp
  have protos: "[17 \<mapsto> nip_udp_protocol] IPPROTO_UDP = Some nip_udp_protocol" by simp
  note D = datagram_delivered [where snd_env = sample_send and out = Fun_nip_output and icmp = 177 and data = "replicate 100 7" and e = sample_env
      and t = sample_udp and s = 1 and net = 1 and sport = "0x3412" and dport = "htons 7" and iif = 0 and enqueue = "\<lambda>_ _. 0"
      and protos = "[17 \<mapsto> nip_udp_protocol]" and saddr = "short_addr 5" and daddr = "short_addr 600" and mtu = 64, OF sample_addr_valid mem ok mtu len sample_udp_ok sk enq protos]
  obtain pkts pieces P where "nip_udp_output_pkts sample_send Fun_nip_output 64 (replicate 100 7) (of_nat (length (replicate 100 (7 :: u8)))) 8
      (short_addr 5) 0x3412 (short_addr 600) (htons 7) = Some (0, pkts)" "concat pieces = replicate 100 (7 :: u8)" "list_all2 P pieces pkts"
    using D by blast
  then show ?thesis using list_all2_lengthD by blast
qed

text \<open>C30: the length of the UDP header is trusted: a datagram with a length below 8 and a right checksum over those few bytes
  is queued with a length close to 2^32, and a recvmsg with a buffer longer than the packet reads beyond its end.\<close>

theorem short_udp_length_overread:
  assumes "nip_get_udp_input_checksum skb = Some True" "ld16 (udp_hdr skb) 4 = Some len" "unat (ntohs len) < 8"
    and "nip_udp_lib_lookup e t net (cb_srcaddr skb) sport (cb_dstaddr skb) dport iif 0 = Some (Some s)"
    and "ld16 (udp_hdr skb) 0 = Some sport" "ld16 (udp_hdr skb) 2 = Some dport" "\<And>s skb. 0 \<le> enqueue s skb"
  shows "\<exists>skb'. nip_udp_input e t enqueue net iif skb = Some (0, Some (s, skb')) \<and> skb_mem skb' = skb_mem skb \<and>
    unat (skb_len skb') = 2 ^ 32 - 8 + unat (ntohs len) \<and>
    (\<forall>n. length (skb_mem skb) < unat n \<and> unat n \<le> 2 ^ 32 - 8 \<longrightarrow> nip_udp_recvmsg peek_off (Inr (skb', 0)) n name tr = None)"
proof -
  define k where "k = (if unat (skb_len skb) < 8 then skb_pos skb else skb_pos skb + 8)"
  let ?skb = "skb\<lparr>skb_pos := k, skb_len := ucast (ntohs len) - 8\<rparr>"
  have a: "(if unat (skb_len skb) < 8 then skb else skb\<lparr>skb_pos := skb_pos skb + 8\<rparr>)\<lparr>skb_len := ucast (ntohs len) - 8\<rparr> = ?skb"
    by (simp add: k_def)
  have i: "nip_udp_input e t enqueue net iif skb = Some (0, Some (s, ?skb))"
    using assms(7) [of s ?skb] by (simp add: nip_udp_input_def assms(1,2,4,5,6) nip_udp_queue_rcv_skb_def Let_def a)
  have u: "unat (ucast (ntohs len) :: u32) = unat (ntohs len)"
    using assms(3) by (simp add: unsigned_ucast_eq take_bit_eq_mod)
  have l: "unat ((ucast (ntohs len) :: u32) - 8) = 2 ^ 32 - 8 + unat (ntohs len)"
    using assms(3) u by (simp add: unat_sub_if')
  have "nip_udp_recvmsg peek_off (Inr (?skb, 0)) n name tr = None" if "length (skb_mem skb) < unat n" "unat n \<le> 2 ^ 32 - 8" for n
  proof -
    have "\<not> n > ucast (ntohs len) - 8" using that(2) l by (simp add: word_less_nat_alt)
    then show ?thesis using that(1) by (simp add: nip_udp_recvmsg_def Let_def)
  qed
  with i l show ?thesis by (intro exI [of _ ?skb]) simp
qed

text \<open>A datagram from port 0xE9EE to port 7 with the length 4.\<close>

definition short_udp :: nip_skb where
  "short_udp = \<lparr>skb_mem = [0xE9, 0xEE, 0, 7, 0, 4, 0, 0, 1, 2], skb_pos = 0, skb_len = 10, skb_th = 0,
     cb_dstaddr = short_addr 6, cb_srcaddr = short_addr 5, cb_nexthdr = 17, skb_otherhost = False\<rparr>"

theorem short_udp_length_overread_witness:
  "\<exists>skb'. nip_udp_input sample_env sample_udp (\<lambda>_ _. 0) 1 0 short_udp = Some (0, Some (1, skb')) \<and>
    unat (skb_len skb') = 4294967292 \<and> nip_udp_recvmsg 0 (Inr (skb', 0)) 1000 True False = None"
proof -
  let ?d = "[0xE9, 0xEE, 0, 7, 0, 4, 0, 0, 1, 2] :: bytes"
  let ?ph = "\<lparr>ps_saddr = short_addr 5, ps_daddr = short_addr 6, ps_check_len = be16 4 0, ps_nexthdr = 17\<rparr>"
  have h: "udp_hdr short_udp = ?d" by (simp add: udp_hdr_def short_udp_def)
  have l: "ld16 ?d 0 = Some (be16 0xEE 0xE9)" "ld16 ?d 2 = Some (htons 7)" "ld16 ?d 4 = Some (be16 4 0)" "ntohs (be16 4 0) = 4"
    by (simp_all add: ld16_def ntohs_def) (simp_all add: be16_def lo8_def hi8_def)
  have pb: "pseudo_bytes ?ph = [5, 6, 0, 4, 17]"
    by (simp add: pseudo_bytes_def short_addr_def short_bytes_def)
  have wf: "wf_pseudo ?ph"
    by (simp add: wf_pseudo_def wf_short_addr) (simp add: short_addr_def short_bytes_def)
  have c: "nip_get_udp_input_checksum short_udp = Some True"
  proof -
    have "nip_check_sum_parse ?d 4 ?ph = Some 0xFFFF" using wf by (simp add: parse_ok_iff total16_def pb)
    moreover have "\<lparr>ps_saddr = cb_srcaddr short_udp, ps_daddr = cb_dstaddr short_udp, ps_check_len = be16 4 0,
      ps_nexthdr = cb_nexthdr short_udp\<rparr> = ?ph" by (simp add: short_udp_def)
    ultimately show ?thesis unfolding nip_get_udp_input_checksum_def h l Option.bind.bind_lunit Let_def by simp
  qed
  have k: "nip_udp_lib_lookup sample_env sample_udp 1 (cb_srcaddr short_udp) (be16 0xEE 0xE9) (cb_dstaddr short_udp) (htons 7) 0 0 = Some (Some 1)"
  proof -
    obtain r where r: "nip_udp_lib_lookup sample_env sample_udp 1 (short_addr 5) (be16 0xEE 0xE9) (short_addr 6) (htons 7) 0 0 = Some r"
      "r = None \<longleftrightarrow> (\<nexists>s. us_hashed (ut_socks sample_udp s) \<and> udp_sk_for 1 (short_addr 5) (be16 0xEE 0xE9) (short_addr 6) (ntohs (htons 7)) 0 0 (ut_socks sample_udp s))"
      "\<forall>s. r = Some s \<longrightarrow> us_hashed (ut_socks sample_udp s)"
      using udp_lookup_spec [OF sample_udp_ok sample_addr_norm(1,2), of 1 "be16 0xEE 0xE9" "htons 7" 0 0] by blast
    have "us_hashed (ut_socks sample_udp 1) \<and> udp_sk_for 1 (short_addr 5) (be16 0xEE 0xE9) (short_addr 6) (ntohs (htons 7)) 0 0 (ut_socks sample_udp 1)"
      by (simp add: udp_sk_for_def sample_udp_def Let_def)
    moreover have "us_hashed (ut_socks sample_udp s) \<longleftrightarrow> s = 1" for s by (simp add: sample_udp_def Let_def)
    ultimately show ?thesis using r by (cases r) (auto simp: short_udp_def)
  qed
  have e: "0 \<le> (\<lambda>(_ :: sid) (_ :: nip_skb). 0 :: int) s skb" for s skb by simp
  have u: "unat (ntohs (be16 4 0)) < 8" by (simp add: l)
  obtain skb' where "nip_udp_input sample_env sample_udp (\<lambda>_ _. 0) 1 0 short_udp = Some (0, Some (1, skb'))"
    "unat (skb_len skb') = 2 ^ 32 - 8 + unat (ntohs (be16 4 0))"
    "\<forall>n. length (skb_mem short_udp) < unat n \<and> unat n \<le> 2 ^ 32 - 8 \<longrightarrow> nip_udp_recvmsg 0 (Inr (skb', 0)) n True False = None"
    using short_udp_length_overread [where enqueue = "\<lambda>_ _. 0" and peek_off = 0 and name = True and tr = False,
        OF c l(3) [folded h] u k l(1,2) [folded h] e] by blast
  moreover from this(3) have "nip_udp_recvmsg 0 (Inr (skb', 0)) 1000 True False = None"
    by (auto simp: short_udp_def)
  ultimately show ?thesis by (simp add: l)
qed

end
