(* ===== verification/Spec2Isabelle.thy ===== *)
theory Spec2Isabelle
  imports NipHdr NipChecksum NipAddrconf Nndisc BtDev TcpStream NinetSock Udp
begin

text \<open>
  A verification library for the NewIP protocol stack of OpenHarmony (kernel_common_modules_newip): the code shared by
  its ports (src/src/common), the stack of the Linux kernel (src/src/linux/net/newip with the headers in
  src/src/linux/include) and the driver of its virtual network devices (src/src/linux/drivers/net/bt).

  THE PROGRAM. NewIP replaces IP by a network layer whose addresses have one to eight bytes and whose header carries
  only the fields its bitmap announces. A user reaches it through sockets of the family AF_NINET (af_ninet.c), either
  streams (tcp_nip.c and its companions, a TCP without timestamps and SACK with its own rate control) or datagrams (udp.c). Both
  hand packets to nip_output.c, which asks the forwarding tables (route.c, nip_fib.c) for a dst and its output function;
  the neighbour table, filled by nndisc.c, gives the link address. A received packet is parsed (nip_hdr_decap.c), routed
  and delivered by nip_input.c through the table of protocols (protocol.c) to TCP, UDP or NewIP ICMP, and TCP finds its socket in
  the tables of ninet_hashtables.c. nip_addrconf.c keeps the addresses of the interfaces, on events of devices and on
  ioctls. The bt driver joins a network device to a character device by a ring of packets.

  CONVENTIONS. A C structure is a record with the members the code uses, an enumeration a datatype, an integer that can
  wrap a word of its width. An object that is shared by pointers is a number, with a function from numbers to records in
  the state. State is passed and returned. A result of type option is None where the C code would read or write outside
  an object, use freed memory or divide by zero; a caller that sleeps forever is None as well (in NinetSock). Error numbers are
  the integers of the code. What the kernel does (allocation, hash functions with their secrets, random numbers, time,
  RCU grace periods, the neighbour state machine, the lock of a user and what other contexts do meanwhile) is an argument or
  a field of an environment record (tcp_env, req_env, rcv_env, send_env, nd_env, hash_env, lft_ops), and
  what a theorem needs of it is one of its hypotheses. Every property with hypotheses has a witness, which applies it
  to a concrete state.

  THE THEORIES, in the order of their imports.

  Prelude: bytes in memory, 16-bit fields in network order, checked reads and writes.

  NipAddr: src/src/common/nip_addr.c and the comparison and hash of include/net/nip.h. An abstract view, the number of an
  address (short_addr, addr_number), gives nip_addr_invalid its meaning, and there is a round trip for encoding and decoding.
  NipChecksum: nip_checksum.c, against the sum of 16-bit words over the natural numbers.
  NipHdr: nip_hdr_encap.c, nip_hdr_decap.c. The headers the encoders write, byte for byte; what the parser reads and accepts;
  the partition of a datagram into fragments.

  NipFib: nip_fib.c, nip_fib_rules.c and the record of a namespace (netns_newip: route entries, the two tables as sixteen chains of
  route numbers, devices, addresses). The locale addr_table states a table of routes by address; its interpretation main_tab gives
  the main table these laws. NipRoute: route.c: creation, deletion and lookup of routes with the copies for each cpu, and their reference counts.
  NipAddrconf: nip_addrconf.c: addresses of interfaces; conf_reach is the reachable states under events, ioctls and grace periods.
  NipIo: nip_input.c, nip_output.c, protocol.c. A packet is its buffer with positions in it; nip_send_skb goes through the output
  function of the route, which for the null entry drops the packet. Nndisc: nndisc.c and icmp.c.

  TcpSock: the state of a connection (tcp_nip_sock) and the environment of an operation (tcp_env). TcpOut, TcpTimer: tcp_nip_output.c
  and tcp_nip_timer.c. TcpRecv, TcpAck, TcpConn, TcpIn: tcp_nip_input.c: queues of received data, acknowledgments and rate control, sizes
  and options, the state machine, whose edges are the inductive relation rcv_edge. TcpUser, TcpStream: close, shutdown, disconnect, sendmsg
  and recvmsg of tcp_nip.c, with the byte streams that a write queue and a receive queue stand for.
  BestScan: the locale best_scan of a search for the best socket of a chain, interpreted on the loops of TCP
  (tcp_scan) and UDP (udp_scan). NinetHash: ninet_hashtables.c; hash_step is the operations on the tables. TcpReq: requests, SYN-ACKs
  and children of a listening socket, with the timer of ninet_connection_sock.c. TcpWire: the bytes of segments, and the checks tcp_nip_rcv
  begins with. TcpDemux: tcp_nip_rcv on a host: lookup, references, backlog, early demultiplexing, resets. NinetSock:
  af_ninet.c, nip_sockglue.c, tcp_nip_connect, and the initialisation of the module with the init and cleanup functions of its
  parts (icmp.c, nndisc.c, route.c, nip_fib.c, nip_addrconf.c, nip_hooks_register.c, tcp_nip.c, udp.c). Udp: udp.c.

  BtRing: the ring of btdev.c, an interpretation (tx_queue) of the locale packet_queue, a bounded queue. BtDev: the table of devices, the management file,
  the device files and transmission; bt_step and bt_reach are the transitions and the reachable states.

  WHAT IS PROVED. Across components: the three segments of a handshake bring both ends to the established state with streams
  in step (C1), a message crosses two connections (C2), a connect ends with a SYN sent and the socket in the tables, or with the socket
  closed (C3), a segment crosses the wire unchanged (C4), a half-open connection is reset (C5), a segment changes only its socket
  (C6), its backlog keeps order (C7), early demultiplexing changes nothing (C8), references are balanced (C9), two hosts resolve each other
  (C10), a datagram is fragmented and delivered (C11). In the components: what the parser accepts and reads (C12, C17), delivery in order (C13), the edges of
  the state machine (C14), valid addresses and their encoding (C15, C16), the forwarding tables and route references (C18 to C20), the
  address tables (C21), the driver (C22 to C24), timers, windows and acknowledgments (C25 to C27), the socket tables (C28), bounds of delivered
  packets (C29), the user's calls (C31, C32), requests (C34, C35), initialisation and limits (C39, C40). Theorems that
  state a defect of the code, for every input that shows it: C30 (a UDP length below the header's), C33 (a stack overflow by
  a neighbour advertisement), C36 (a reset in a handshake is taken for an acknowledgment), C37 (the header length of a
  segment is not checked), C38 (a refused socket is of no further use), and parts of C9, C39 and C40.

  BOUNDS AND TERMINATION. No definition takes fuel: loops are structural recursion or have a measure (the checksum, the parser and
  the encoders by the distance to the end of the buffer, recv_loop by the waits it has left and the bytes still wanted), so each
  returns. Waits are lists of what happens meanwhile. Sequence numbers are 32-bit words; the lemmas on streams place a
  packet by its offset and ask for windows below 2^29 or 2^30, where the comparisons before and after are those of the
  offsets. Packets have less than 65000 bytes of data where a theorem writes them to the wire, the limit of the length fields.

  NOT MODELLED. src/examples (user programs, which call the sockets), src/tools (a Wireshark dissector), the /proc listings of routes
  and addresses, SIOCGIFCONF (devninet.c) and the tracepoint callbacks of nip_hooks_register.c, debug output, statistics,
  memory accounting, wake-ups of processes, barriers and locks (an operation is one step), metrics of routes beyond those the
  TCP code reads, registration of the bt driver's character devices, the build of the parser for hosts without
  unaligned access, and everything the function tables take from the kernel unchanged (the callbacks of IPv4's TCP, get_port, accept).
\<close>

end
